(* ===== verification/Blu_Prelude.thy ===== *)
theory Blu_Prelude
  imports Main "HOL-Library.Word"
begin

text \<open>
  Shared vocabulary of the development: the outcome of a Rust call (a value, an error value
  or a panic), its sequencing, loops over slices, checked and saturating \<open>usize\<close>
  arithmetic, slice indexing, and the collections of rules the component proofs use.

  A \<open>usize\<close> is a \<open>nat\<close> whose range is written out where the code checks it
  (\<open>usize_max\<close>, a 64-bit target); \<open>u8\<close>, \<open>u16\<close>, \<open>u32\<close> and \<open>u64\<close> are words.
\<close>

named_theorems res_simps \<open>how sequenced calls end\<close>
named_theorems usize_simps \<open>checked and saturating arithmetic\<close>

type_synonym byte = "8 word"
type_synonym bytes = "byte list"

section \<open>Outcomes\<close>

datatype ('a, 'e) res = Ok 'a | Err 'e | Panic

fun rbind :: "('a, 'e) res \<Rightarrow> ('a \<Rightarrow> ('b, 'e) res) \<Rightarrow> ('b, 'e) res" where
  "rbind (Ok x) f = f x"
| "rbind (Err e) f = Err e"
| "rbind Panic f = Panic"

fun map_ok :: "('a \<Rightarrow> 'b) \<Rightarrow> ('a, 'e) res \<Rightarrow> ('b, 'e) res" where
  "map_ok f (Ok x) = Ok (f x)"
| "map_ok f (Err e) = Err e"
| "map_ok f Panic = Panic"

fun map_err :: "('e \<Rightarrow> 'd) \<Rightarrow> ('a, 'e) res \<Rightarrow> ('a, 'd) res" where
  "map_err f (Ok x) = Ok x"
| "map_err f (Err e) = Err (f e)"
| "map_err f Panic = Panic"

fun is_ok :: "('a, 'e) res \<Rightarrow> bool" where
  "is_ok (Ok x) = True"
| "is_ok (Err e) = False"
| "is_ok Panic = False"

fun ok_or :: "'a option \<Rightarrow> 'e \<Rightarrow> ('a, 'e) res" where
  "ok_or (Some x) e = Ok x"
| "ok_or None e = Err e"

text \<open>\<open>if b { Ok(()) } else { Err(e) }\<close>, the shape of every guard of the sources.\<close>

definition ensure :: "bool \<Rightarrow> 'e \<Rightarrow> (unit, 'e) res" where
  "ensure b e = (if b then Ok () else Err e)"

lemma rbind_eq_Ok [res_simps]: "rbind m f = Ok y \<longleftrightarrow> (\<exists>x. m = Ok x \<and> f x = Ok y)"
  by (cases m) auto

lemma rbind_eq_Panic [res_simps]:
  "rbind m f = Panic \<longleftrightarrow> m = Panic \<or> (\<exists>x. m = Ok x \<and> f x = Panic)"
  by (cases m) auto

lemma rbind_eq_Err [res_simps]:
  "rbind m f = Err e \<longleftrightarrow> m = Err e \<or> (\<exists>x. m = Ok x \<and> f x = Err e)"
  by (cases m) auto

lemma map_err_eq_Ok [res_simps]: "map_err f m = Ok y \<longleftrightarrow> m = Ok y"
  by (cases m) auto

lemma map_err_eq_Panic [res_simps]: "map_err f m = Panic \<longleftrightarrow> m = Panic"
  by (cases m) auto

lemma map_err_eq_Err [res_simps]: "map_err f m = Err e \<longleftrightarrow> (\<exists>d. m = Err d \<and> e = f d)"
  by (cases m) auto

lemma map_ok_eq_Ok [res_simps]: "map_ok f m = Ok y \<longleftrightarrow> (\<exists>x. m = Ok x \<and> y = f x)"
  by (cases m) auto

lemma map_ok_eq_Panic [res_simps]: "map_ok f m = Panic \<longleftrightarrow> m = Panic"
  by (cases m) auto

lemma map_ok_eq_Err [res_simps]: "map_ok f m = Err e \<longleftrightarrow> m = Err e"
  by (cases m) auto

lemma ok_or_eq_Ok [res_simps]: "ok_or m e = Ok y \<longleftrightarrow> m = Some y"
  by (cases m) auto

lemma ok_or_not_Panic [res_simps]: "ok_or m e = Panic \<longleftrightarrow> False"
  by (cases m) auto

lemma ok_or_eq_Err [res_simps]: "ok_or m e = Err d \<longleftrightarrow> m = None \<and> d = e"
  by (cases m) auto

lemma ensure_eq_Ok [res_simps]: "ensure b e = Ok u \<longleftrightarrow> b"
  by (simp add: ensure_def)

lemma ensure_not_Panic [res_simps]: "ensure b e = Panic \<longleftrightarrow> False"
  by (simp add: ensure_def)

lemma ensure_eq_Err [res_simps]: "ensure b e = Err d \<longleftrightarrow> \<not> b \<and> d = e"
  by (auto simp: ensure_def)

lemma ensure_True [simp]: "ensure True e = Ok ()"
  by (simp add: ensure_def)

lemma ensure_False [simp]: "ensure False e = Err e"
  by (simp add: ensure_def)

lemma is_ok_iff: "is_ok m \<longleftrightarrow> (\<exists>x. m = Ok x)"
  by (cases m) auto

lemma rbind_cong [fundef_cong]:
  "m = n \<Longrightarrow> (\<And>x. n = Ok x \<Longrightarrow> f x = g x) \<Longrightarrow> rbind m f = rbind n g"
  by (cases n) auto

lemma rbind_assoc: "rbind (rbind m f) g = rbind m (\<lambda>x. rbind (f x) g)"
  by (cases m) auto

section \<open>Loops over slices\<close>

text \<open>\<open>for x in xs { f(x)?; }\<close>, and the same loop with a state.\<close>

fun each :: "('a \<Rightarrow> (unit, 'e) res) \<Rightarrow> 'a list \<Rightarrow> (unit, 'e) res" where
  "each f [] = Ok ()"
| "each f (x # xs) = rbind (f x) (\<lambda>_. each f xs)"

fun fold_res :: "('s \<Rightarrow> 'a \<Rightarrow> ('s, 'e) res) \<Rightarrow> 's \<Rightarrow> 'a list \<Rightarrow> ('s, 'e) res" where
  "fold_res f s [] = Ok s"
| "fold_res f s (x # xs) = rbind (f s x) (\<lambda>s'. fold_res f s' xs)"

text \<open>\<open>for _ in 0..n { xs.push(p(r)?); }\<close>: n reads from a state, in order.\<close>

fun read_n :: "nat \<Rightarrow> ('r \<Rightarrow> ('a \<times> 'r, 'e) res) \<Rightarrow> 'r \<Rightarrow> ('a list \<times> 'r, 'e) res" where
  "read_n 0 p r = Ok ([], r)"
| "read_n (Suc n) p r =
     rbind (p r) (\<lambda>(x, r1). rbind (read_n n p r1) (\<lambda>(xs, r2). Ok (x # xs, r2)))"

lemma each_eq_Ok [res_simps]: "each f xs = Ok u \<longleftrightarrow> (\<forall>x\<in>set xs. f x = Ok ())"
  by (induction xs) (auto simp: res_simps)

lemma each_not_Panic: "(\<And>x. x \<in> set xs \<Longrightarrow> f x \<noteq> Panic) \<Longrightarrow> each f xs \<noteq> Panic"
  by (induction xs) (auto simp: res_simps)

lemma each_append: "each f (xs @ ys) = rbind (each f xs) (\<lambda>_. each f ys)"
  by (induction xs) (auto simp: rbind_assoc)

lemma fold_res_append:
  "fold_res f s (xs @ ys) = rbind (fold_res f s xs) (\<lambda>s'. fold_res f s' ys)"
  by (induction xs arbitrary: s) (auto simp: rbind_assoc)

text \<open>The loop rule: an invariant the body keeps holds at the end, and no step panics.\<close>

lemma fold_res_invariant:
  assumes "fold_res f s xs = Ok t" and "I s"
    and "\<And>s x s'. x \<in> set xs \<Longrightarrow> I s \<Longrightarrow> f s x = Ok s' \<Longrightarrow> I s'"
  shows "I t"
  using assms
proof (induction xs arbitrary: s)
  case Nil
  then show ?case by simp
next
  case (Cons x xs)
  then obtain s' where "f s x = Ok s'" and "fold_res f s' xs = Ok t"
    by (auto simp: res_simps)
  moreover from this Cons.prems have "I s'" by auto
  ultimately show ?case using Cons.IH Cons.prems(3) by auto
qed

lemma fold_res_not_Panic:
  assumes "I s"
    and "\<And>s x. x \<in> set xs \<Longrightarrow> I s \<Longrightarrow> f s x \<noteq> Panic"
    and "\<And>s x s'. x \<in> set xs \<Longrightarrow> I s \<Longrightarrow> f s x = Ok s' \<Longrightarrow> I s'"
  shows "fold_res f s xs \<noteq> Panic"
  using assms
proof (induction xs arbitrary: s)
  case Nil
  then show ?case by simp
next
  case (Cons x xs)
  have "fold_res f s' xs \<noteq> Panic" if "f s x = Ok s'" for s'
  proof -
    have "I s'" using Cons.prems(1,3) that by (meson list.set_intros(1))
    then show ?thesis by (rule Cons.IH) (meson Cons.prems(2,3) list.set_intros(2))+
  qed
  then show ?case using Cons.prems by (auto simp: res_simps)
qed

text \<open>A loop that succeeds has a state after every prefix, and its body succeeded in each.\<close>

lemma fold_res_take:
  assumes "fold_res f s xs = Ok t" and "k < length xs"
  shows "\<exists>a b. fold_res f s (take k xs) = Ok a \<and> f a (xs ! k) = Ok b \<and>
    fold_res f s (take (Suc k) xs) = Ok b"
proof -
  have "fold_res f s (take k xs @ xs ! k # drop (Suc k) xs) = Ok t"
    using assms(1) by (simp only: id_take_nth_drop [OF assms(2), symmetric])
  then obtain a b where a: "fold_res f s (take k xs) = Ok a" "f a (xs ! k) = Ok b"
    by (auto simp: fold_res_append res_simps)
  moreover have "fold_res f s (take (Suc k) xs) = Ok b"
    using a assms(2) by (simp add: take_Suc_conv_app_nth fold_res_append)
  ultimately show ?thesis by blast
qed

lemma read_n_length: "read_n n p r = Ok (xs, r') \<Longrightarrow> length xs = n"
  by (induction n arbitrary: r xs r') (auto simp: res_simps)

lemma read_n_not_Panic:
  assumes "I r"
    and "\<And>r. I r \<Longrightarrow> p r \<noteq> Panic"
    and "\<And>r x r'. I r \<Longrightarrow> p r = Ok (x, r') \<Longrightarrow> I r'"
  shows "read_n n p r \<noteq> Panic"
  using assms by (induction n arbitrary: r) (auto simp: res_simps)

lemma read_n_invariant:
  assumes "read_n n p r = Ok (xs, r')" and "I r"
    and "\<And>r x r'. I r \<Longrightarrow> p r = Ok (x, r') \<Longrightarrow> I r'"
  shows "I r'"
  using assms(1,2)
proof (induction n arbitrary: r xs)
  case 0
  then show ?case by simp
next
  case (Suc n)
  then show ?case using assms(3) by (auto simp: res_simps)
qed

lemma read_n_all:
  assumes "read_n n p r = Ok (xs, r')" and "I r"
    and "\<And>r x r'. I r \<Longrightarrow> p r = Ok (x, r') \<Longrightarrow> I r' \<and> Q x"
  shows "\<forall>x\<in>set xs. Q x"
  using assms(1,2)
proof (induction n arbitrary: r xs)
  case 0
  then show ?case by simp
next
  case (Suc n)
  then obtain x r1 ys where "p r = Ok (x, r1)" "read_n n p r1 = Ok (ys, r')" "xs = x # ys"
    by (auto simp: res_simps)
  then show ?case using Suc assms(3) by auto
qed

section \<open>\<open>usize\<close> arithmetic\<close>

definition usize_max :: nat where
  "usize_max = 18446744073709551615"

definition i64_min :: int where "i64_min = - (2 ^ 63)"
definition i64_max :: int where "i64_max = 2 ^ 63 - 1"

definition checked_add :: "nat \<Rightarrow> nat \<Rightarrow> nat option" where
  "checked_add a b = (if a + b \<le> usize_max then Some (a + b) else None)"

definition checked_sub :: "nat \<Rightarrow> nat \<Rightarrow> nat option" where
  "checked_sub a b = (if b \<le> a then Some (a - b) else None)"

definition checked_mul :: "nat \<Rightarrow> nat \<Rightarrow> nat option" where
  "checked_mul a b = (if a * b \<le> usize_max then Some (a * b) else None)"

definition saturating_add :: "nat \<Rightarrow> nat \<Rightarrow> nat" where
  "saturating_add a b = min (a + b) usize_max"

definition saturating_sub :: "nat \<Rightarrow> nat \<Rightarrow> nat" where
  "saturating_sub a b = a - b"

definition saturating_mul :: "nat \<Rightarrow> nat \<Rightarrow> nat" where
  "saturating_mul a b = min (a * b) usize_max"

text \<open>
  Plain \<open>a + b\<close> and \<open>a - b\<close>, which panic out of range where overflow checks are on, and
  \<open>expect\<close>, which panics on an error.
\<close>

definition plain_add :: "nat \<Rightarrow> nat \<Rightarrow> (nat, 'e) res" where
  "plain_add a b = (if a + b \<le> usize_max then Ok (a + b) else Panic)"

definition plain_sub :: "nat \<Rightarrow> nat \<Rightarrow> (nat, 'e) res" where
  "plain_sub a b = (if b \<le> a then Ok (a - b) else Panic)"

fun expect_ok :: "('a, 'd) res \<Rightarrow> ('a, 'e) res" where
  "expect_ok (Ok x) = Ok x"
| "expect_ok (Err e) = Panic"
| "expect_ok Panic = Panic"

lemma plain_add_simps [res_simps]:
  "plain_add a b = Ok c \<longleftrightarrow> c = a + b \<and> a + b \<le> usize_max"
  "plain_add a b = Panic \<longleftrightarrow> usize_max < a + b" "plain_add a b = Err e \<longleftrightarrow> False"
  by (auto simp: plain_add_def)

lemma plain_sub_simps [res_simps]:
  "plain_sub a b = Ok c \<longleftrightarrow> a = b + c" "plain_sub a b = Panic \<longleftrightarrow> a < b"
  "plain_sub a b = Err e \<longleftrightarrow> False"
  by (auto simp: plain_sub_def)

lemma expect_ok_simps [res_simps]:
  "expect_ok m = Ok x \<longleftrightarrow> m = Ok x" "expect_ok m = Err e \<longleftrightarrow> False"
  by (cases m; simp)+

lemma checked_add_eq_Some [usize_simps]:
  "checked_add a b = Some c \<longleftrightarrow> c = a + b \<and> a + b \<le> usize_max"
  by (auto simp: checked_add_def)

lemma checked_add_eq_None [usize_simps]: "checked_add a b = None \<longleftrightarrow> usize_max < a + b"
  by (auto simp: checked_add_def)

lemma checked_sub_eq_Some [usize_simps]:
  "checked_sub a b = Some c \<longleftrightarrow> a = b + c"
  by (auto simp: checked_sub_def)

lemma checked_sub_eq_None [usize_simps]: "checked_sub a b = None \<longleftrightarrow> a < b"
  by (auto simp: checked_sub_def)

lemma checked_mul_eq_Some [usize_simps]:
  "checked_mul a b = Some c \<longleftrightarrow> c = a * b \<and> a * b \<le> usize_max"
  by (auto simp: checked_mul_def)

lemma checked_mul_eq_None [usize_simps]: "checked_mul a b = None \<longleftrightarrow> usize_max < a * b"
  by (auto simp: checked_mul_def)

section \<open>Indexing and slicing\<close>

text \<open>
  \<open>xs.get(i)\<close> is total; \<open>xs[i]\<close>, \<open>xs[i] = v\<close> and \<open>&xs[a..b]\<close> panic out of range.
\<close>

definition get :: "'a list \<Rightarrow> nat \<Rightarrow> 'a option" where
  "get xs i = (if i < length xs then Some (xs ! i) else None)"

definition index_at :: "'a list \<Rightarrow> nat \<Rightarrow> ('a, 'e) res" where
  "index_at xs i = (if i < length xs then Ok (xs ! i) else Panic)"

definition set_at :: "'a list \<Rightarrow> nat \<Rightarrow> 'a \<Rightarrow> ('a list, 'e) res" where
  "set_at xs i v = (if i < length xs then Ok (xs[i := v]) else Panic)"

definition get_range :: "'a list \<Rightarrow> nat \<Rightarrow> nat \<Rightarrow> 'a list option" where
  "get_range xs a b =
     (if a \<le> b \<and> b \<le> length xs then Some (take (b - a) (drop a xs)) else None)"

definition slice_at :: "'a list \<Rightarrow> nat \<Rightarrow> nat \<Rightarrow> ('a list, 'e) res" where
  "slice_at xs a b =
     (if a \<le> b \<and> b \<le> length xs then Ok (take (b - a) (drop a xs)) else Panic)"

lemma get_eq_Some [res_simps]: "get xs i = Some x \<longleftrightarrow> i < length xs \<and> x = xs ! i"
  by (auto simp: get_def)

lemma get_eq_None [res_simps]: "get xs i = None \<longleftrightarrow> length xs \<le> i"
  by (auto simp: get_def)

lemma index_at_eq_Ok [res_simps]: "index_at xs i = Ok x \<longleftrightarrow> i < length xs \<and> x = xs ! i"
  by (auto simp: index_at_def)

lemma index_at_eq_Panic [res_simps]: "index_at xs i = Panic \<longleftrightarrow> length xs \<le> i"
  by (auto simp: index_at_def)

lemma index_at_eq_Err [res_simps]: "index_at xs i = Err e \<longleftrightarrow> False"
  by (auto simp: index_at_def)

lemma set_at_eq_Ok [res_simps]: "set_at xs i v = Ok ys \<longleftrightarrow> i < length xs \<and> ys = xs[i := v]"
  by (auto simp: set_at_def)

lemma set_at_eq_Panic [res_simps]: "set_at xs i v = Panic \<longleftrightarrow> length xs \<le> i"
  by (auto simp: set_at_def)

lemma set_at_eq_Err [res_simps]: "set_at xs i v = Err e \<longleftrightarrow> False"
  by (auto simp: set_at_def)

lemma slice_at_eq_Ok [res_simps]:
  "slice_at xs a b = Ok ys \<longleftrightarrow> a \<le> b \<and> b \<le> length xs \<and> ys = take (b - a) (drop a xs)"
  by (auto simp: slice_at_def)

lemma slice_at_eq_Panic [res_simps]: "slice_at xs a b = Panic \<longleftrightarrow> \<not> (a \<le> b \<and> b \<le> length xs)"
  by (auto simp: slice_at_def)

lemma slice_at_eq_Err [res_simps]: "slice_at xs a b = Err e \<longleftrightarrow> False"
  by (auto simp: slice_at_def)

lemma get_range_eq_Some [res_simps]:
  "get_range xs a b = Some ys \<longleftrightarrow> a \<le> b \<and> b \<le> length xs \<and> ys = take (b - a) (drop a xs)"
  by (auto simp: get_range_def)

lemma get_range_eq_None [res_simps]:
  "get_range xs a b = None \<longleftrightarrow> \<not> (a \<le> b \<and> b \<le> length xs)"
  by (auto simp: get_range_def)

text \<open>Adjacent ranges of a list join up.\<close>

lemma slice_join:
  assumes "a \<le> b" and "b \<le> c"
  shows "take (b - a) (drop a xs) @ take (c - b) (drop b xs) = take (c - a) (drop a xs)"
proof -
  have "take (c - a) (drop a xs) = take ((b - a) + (c - b)) (drop a xs)"
    using assms by simp
  then show ?thesis using assms by (simp only: take_add) simp
qed

end
