(* ===== verification/Rust_Std.thy ===== *)
theory Rust_Std
  imports Blu_Prelude "HOL-Library.List_Lexorder"
begin

text \<open>
  What the sources use of Rust's standard library: three-way comparison, binary search and
  partition point over slices, little-endian integers, ASCII classes, UTF-8 validation, and
  decimal formatting. Each model computes what the library documents; the lemmas are the
  facts the component proofs use.
\<close>

section \<open>Ordering and binary search\<close>

datatype ordering = Less | Equal | Greater

definition cmp_of :: "'a::linorder \<Rightarrow> 'a \<Rightarrow> ordering" where
  "cmp_of a b = (if a < b then Less else if a = b then Equal else Greater)"

text \<open>
  \<open>slice::binary_search_by\<close>: the loop keeps a candidate position \<open>base\<close> and the number \<open>n\<close> of
  elements still open; the answer is the position of an equal element, or the insertion point.
\<close>

function bs_loop :: "('a \<Rightarrow> ordering) \<Rightarrow> 'a list \<Rightarrow> nat \<Rightarrow> nat \<Rightarrow> nat" where
  "bs_loop f xs base n =
     (if n \<le> 1 then base
      else let half = n div 2; mid = base + half
           in bs_loop f xs (if f (xs ! mid) = Greater then base else mid) (n - half))"
  by pat_completeness auto
termination
  by (relation "measure (\<lambda>(f, xs, base, n). n)") auto

declare bs_loop.simps [simp del]

definition binary_search_by :: "('a \<Rightarrow> ordering) \<Rightarrow> 'a list \<Rightarrow> (nat, nat) res" where
  "binary_search_by f xs =
     (if xs = [] then Err 0
      else let base = bs_loop f xs 0 (length xs)
           in case f (xs ! base) of
                Equal \<Rightarrow> Ok base
              | Less \<Rightarrow> Err (base + 1)
              | Greater \<Rightarrow> Err base)"

definition binary_search :: "'a::linorder \<Rightarrow> 'a list \<Rightarrow> (nat, nat) res" where
  "binary_search x xs = binary_search_by (\<lambda>y. cmp_of y x) xs"

definition partition_point :: "('a \<Rightarrow> bool) \<Rightarrow> 'a list \<Rightarrow> nat" where
  "partition_point p xs =
     (case binary_search_by (\<lambda>x. if p x then Less else Greater) xs of
        Ok i \<Rightarrow> i | Err i \<Rightarrow> i | Panic \<Rightarrow> 0)"

text \<open>A slice is ordered for a probe when smaller elements come before larger ones.\<close>

definition ordered_for :: "('a \<Rightarrow> ordering) \<Rightarrow> 'a list \<Rightarrow> bool" where
  "ordered_for f xs \<longleftrightarrow>
     (\<forall>i j. i < j \<and> j < length xs \<longrightarrow>
        (f (xs ! i) = Greater \<longrightarrow> f (xs ! j) = Greater) \<and>
        (f (xs ! j) = Less \<longrightarrow> f (xs ! i) = Less))"

lemma ordered_for_GreaterD:
  "ordered_for f xs \<Longrightarrow> f (xs ! i) = Greater \<Longrightarrow> i \<le> j \<Longrightarrow> j < length xs \<Longrightarrow> f (xs ! j) = Greater"
  unfolding ordered_for_def by (metis le_neq_implies_less)

lemma ordered_for_LessD:
  "ordered_for f xs \<Longrightarrow> f (xs ! j) = Less \<Longrightarrow> i \<le> j \<Longrightarrow> j < length xs \<Longrightarrow> f (xs ! i) = Less"
  unfolding ordered_for_def by (metis le_neq_implies_less)

definition bs_inv :: "('a \<Rightarrow> ordering) \<Rightarrow> 'a list \<Rightarrow> nat \<Rightarrow> nat \<Rightarrow> bool" where
  "bs_inv f xs base n \<longleftrightarrow>
     0 < n \<and> base + n \<le> length xs \<and>
     (base = 0 \<or> f (xs ! base) \<noteq> Greater) \<and>
     (\<forall>j. base + n \<le> j \<and> j < length xs \<longrightarrow> f (xs ! j) = Greater)"

lemma bs_loop_inv:
  assumes "ordered_for f xs" and "bs_inv f xs base n"
  shows "bs_inv f xs (bs_loop f xs base n) 1"
  using assms
proof (induction f xs base n rule: bs_loop.induct)
  case (1 f xs base n)
  show ?case
  proof (cases "n \<le> 1")
    case True
    with "1.prems" have "n = 1" by (auto simp: bs_inv_def)
    with "1.prems" show ?thesis by (simp add: bs_loop.simps)
  next
    case False
    define mid where "mid = base + n div 2"
    define nb where "nb = (if f (xs ! mid) = Greater then base else mid)"
    have "mid < length xs" using False "1.prems" by (auto simp: bs_inv_def mid_def)
    have "bs_inv f xs nb (n - n div 2)"
      using False "1.prems" \<open>mid < length xs\<close> ordered_for_GreaterD [of f xs mid]
      unfolding bs_inv_def nb_def by (auto simp: mid_def)
    then have "bs_inv f xs (bs_loop f xs nb (n - n div 2)) 1"
      using "1.IH" [OF False refl mid_def, folded nb_def] "1.prems"(1) by simp
    moreover have "bs_loop f xs base n = bs_loop f xs nb (n - n div 2)"
      using False by (simp add: bs_loop.simps [of f xs base n] Let_def nb_def mid_def)
    ultimately show ?thesis by simp
  qed
qed

lemma binary_search_by_not_Panic [simp]: "binary_search_by f xs \<noteq> Panic"
  by (auto simp: binary_search_by_def Let_def split: ordering.splits)

lemma binary_search_by_Ok:
  assumes "binary_search_by f xs = Ok i" and "ordered_for f xs"
  shows "i < length xs \<and> f (xs ! i) = Equal"
proof -
  from assms(1) have "xs \<noteq> []" by (auto simp: binary_search_by_def)
  then have "bs_inv f xs 0 (length xs)" by (auto simp: bs_inv_def)
  then have "bs_inv f xs (bs_loop f xs 0 (length xs)) 1" by (rule bs_loop_inv [OF assms(2)])
  with assms(1) \<open>xs \<noteq> []\<close> show ?thesis
    by (auto simp: binary_search_by_def Let_def bs_inv_def split: ordering.splits)
qed

text \<open>On an ordered slice the insertion point splits it into the smaller and the larger part.\<close>

lemma binary_search_by_Err:
  assumes "binary_search_by f xs = Err i" and ord: "ordered_for f xs"
  shows "i \<le> length xs" "\<And>j. j < i \<Longrightarrow> f (xs ! j) = Less"
    "\<And>j. i \<le> j \<Longrightarrow> j < length xs \<Longrightarrow> f (xs ! j) = Greater"
proof -
  define b where "b = bs_loop f xs 0 (length xs)"
  have "i \<le> length xs \<and> (\<forall>j<i. f (xs ! j) = Less) \<and>
    (\<forall>j. i \<le> j \<and> j < length xs \<longrightarrow> f (xs ! j) = Greater)"
  proof (cases "xs = []")
    case True
    with assms(1) show ?thesis by (simp add: binary_search_by_def)
  next
    case False
    then have "bs_inv f xs 0 (length xs)" by (auto simp: bs_inv_def)
    from bs_loop_inv [OF ord this] have inv: "bs_inv f xs b 1" by (simp add: b_def)
    from assms(1) False consider "f (xs ! b) = Less" "i = b + 1" | "f (xs ! b) = Greater" "i = b"
      by (auto simp: binary_search_by_def Let_def b_def split: ordering.splits)
    then show ?thesis
    proof cases
      case 1
      have "f (xs ! j) = Less" if "j < i" for j
        using ordered_for_LessD [OF ord 1(1), of j] that inv 1(2) by (auto simp: bs_inv_def)
      then show ?thesis using inv 1(2) by (auto simp: bs_inv_def)
    next
      case 2
      then have "b = 0" using inv by (auto simp: bs_inv_def)
      then show ?thesis using 2 ordered_for_GreaterD [OF ord 2(1)] by auto
    qed
  qed
  then show "i \<le> length xs" "\<And>j. j < i \<Longrightarrow> f (xs ! j) = Less"
    "\<And>j. i \<le> j \<Longrightarrow> j < length xs \<Longrightarrow> f (xs ! j) = Greater" by auto
qed

lemma cmp_of_simps [simp]:
  "cmp_of a b = Less \<longleftrightarrow> a < b" "cmp_of a b = Equal \<longleftrightarrow> a = b" "cmp_of a b = Greater \<longleftrightarrow> b < a"
  by (auto simp: cmp_of_def)

lemma ordered_for_sorted:
  assumes "sorted xs"
  shows "ordered_for (\<lambda>y. cmp_of y x) xs"
proof -
  have "xs ! i \<le> xs ! j" if "i < j" "j < length xs" for i j
    using sorted_nth_mono [OF assms, of i j] that by simp
  then show ?thesis unfolding ordered_for_def cmp_of_simps by (meson le_less_trans less_le_trans)
qed

abbreviation strict_sorted :: "'a::linorder list \<Rightarrow> bool" where
  "strict_sorted xs \<equiv> sorted_wrt (<) xs"

text \<open>Inserting at the insertion point keeps a strictly sorted list strictly sorted.\<close>

definition insert_at :: "nat \<Rightarrow> 'a \<Rightarrow> 'a list \<Rightarrow> 'a list" where
  "insert_at i x xs = take i xs @ x # drop i xs"

lemma set_insert_at: "set (insert_at i x xs) = insert x (set xs)"
proof -
  have "set (take i xs) \<union> set (drop i xs) = set xs"
    by (metis append_take_drop_id set_append)
  then show ?thesis by (auto simp: insert_at_def)
qed

lemma length_insert_at [simp]: "length (insert_at i x xs) = Suc (length xs)"
  by (simp add: insert_at_def)

lemma binary_search_Ok_mem:
  "binary_search x xs = Ok i \<Longrightarrow> sorted xs \<Longrightarrow> x \<in> set xs"
  using binary_search_by_Ok [of "\<lambda>y. cmp_of y x" xs i] ordered_for_sorted [of xs x]
  by (auto simp: binary_search_def)

lemma binary_search_Err_split:
  assumes "binary_search x xs = Err i" and "sorted xs"
  shows "\<forall>y\<in>set (take i xs). y < x" "\<forall>y\<in>set (drop i xs). x < y"
proof -
  note e = binary_search_by_Err [OF assms(1) [unfolded binary_search_def]
      ordered_for_sorted [OF assms(2)]]
  have lt: "xs ! j < x" if "j < i" for j
    using e(2) [OF that] by simp
  have gt: "x < xs ! j" if "i \<le> j" "j < length xs" for j
    using e(3) [OF that] by simp
  show "\<forall>y\<in>set (take i xs). y < x" using lt by (auto simp: in_set_conv_nth)
  show "\<forall>y\<in>set (drop i xs). x < y" using gt by (auto simp: in_set_conv_nth)
qed

lemma binary_search_Err_not_mem:
  assumes "binary_search x xs = Err i" and "sorted xs"
  shows "x \<notin> set xs"
proof
  assume "x \<in> set xs"
  then have "x \<in> set (take i xs) \<union> set (drop i xs)"
    by (metis append_take_drop_id set_append)
  with binary_search_Err_split [OF assms] show False by auto
qed

lemma strict_sorted_insert_at:
  assumes "binary_search x xs = Err i" and "strict_sorted xs"
  shows "strict_sorted (insert_at i x xs)"
proof -
  have "sorted xs" using assms(2) by (simp add: strict_sorted_iff)
  note sp = binary_search_Err_split [OF assms(1) this]
  have "sorted_wrt (<) (take i xs @ drop i xs)" using assms(2) by simp
  then have "sorted_wrt (<) (take i xs)" "sorted_wrt (<) (drop i xs)"
    by (simp_all only: sorted_wrt_append)
  then show ?thesis using sp by (auto simp: insert_at_def sorted_wrt_append dest: less_trans)
qed

lemma strict_sorted_set_unique:
  "strict_sorted xs \<Longrightarrow> strict_sorted ys \<Longrightarrow> set xs = set ys \<Longrightarrow> xs = ys"
  by (rule strict_sorted_equal [symmetric, rotated 1]) auto

text \<open>On a partitioned slice \<open>partition_point\<close> is the length of the satisfying prefix.\<close>

lemma partition_point_props:
  assumes part: "\<forall>i j. i < j \<and> j < length xs \<and> p (xs ! j) \<longrightarrow> p (xs ! i)"
  shows "partition_point p xs \<le> length xs"
    and "\<And>j. j < partition_point p xs \<Longrightarrow> p (xs ! j)"
    and "\<And>j. partition_point p xs \<le> j \<Longrightarrow> j < length xs \<Longrightarrow> \<not> p (xs ! j)"
proof -
  let ?f = "\<lambda>x. if p x then Less else Greater"
  have ord: "ordered_for ?f xs" unfolding ordered_for_def using part by auto
  have "binary_search_by ?f xs \<noteq> Ok i" for i
    using binary_search_by_Ok [OF _ ord, of i] by (auto split: if_splits)
  then obtain i where i: "binary_search_by ?f xs = Err i"
    using binary_search_by_not_Panic [of ?f xs] by (cases "binary_search_by ?f xs") auto
  then have pp: "partition_point p xs = i" by (simp add: partition_point_def)
  note e = binary_search_by_Err [OF i ord]
  show "partition_point p xs \<le> length xs" using e(1) pp by simp
  show "p (xs ! j)" if "j < partition_point p xs" for j
    using e(2) [of j] that pp by (auto split: if_splits)
  show "\<not> p (xs ! j)" if "partition_point p xs \<le> j" "j < length xs" for j
    using e(3) [of j] that pp by (auto split: if_splits)
qed

end
