(* ===== verification/Rust_Bytes.thy ===== *)
theory Rust_Bytes
  imports Rust_Std
begin

text \<open>
  Byte-level facts: little-endian integers, ASCII classes, UTF-8 validation with the error
  lengths \<open>core::str::from_utf8\<close> reports, decimal formatting, and the contract of a byte
  cursor that the two readers of the sources (package manifests, Luau chunks) share.
\<close>

unbundle bit_operations_syntax

section \<open>Little-endian integers\<close>

fun le_nat :: "bytes \<Rightarrow> nat" where
  "le_nat [] = 0"
| "le_nat (b # bs) = unat b + 256 * le_nat bs"

fun nat_le :: "nat \<Rightarrow> nat \<Rightarrow> bytes" where
  "nat_le 0 n = []"
| "nat_le (Suc k) n = word_of_nat n # nat_le k (n div 256)"

lemma nat_le_length [simp]: "length (nat_le k n) = k"
  by (induction k arbitrary: n) auto

lemma unat_byte_lt [simp]: "unat (b :: byte) < 256"
  using unsigned_less [of b, where ?'a = nat] by simp

lemma unat_of_nat_byte: "unat (word_of_nat n :: byte) = n mod 256"
  by (simp add: unat_of_nat)

lemma le_nat_nat_le: "le_nat (nat_le k n) = n mod 256 ^ k"
proof (induction k arbitrary: n)
  case 0
  then show ?case by simp
next
  case (Suc k)
  have "n mod 256 + 256 * (n div 256 mod 256 ^ k) = n mod (256 * 256 ^ k)"
    by (simp add: mod_mult2_eq)
  with Suc show ?case by (simp add: unat_of_nat_byte)
qed

lemma le_nat_bound: "le_nat bs < 256 ^ length bs"
proof (induction bs)
  case Nil
  then show ?case by simp
next
  case (Cons b bs)
  define P :: nat where "P = 256 ^ length bs"
  have "le_nat bs + 1 \<le> P" using Cons by (simp add: P_def)
  then have "unat b + 256 * le_nat bs < 256 * P" using unat_byte_lt [of b] by linarith
  then show ?case by (simp add: P_def)
qed

lemma nat_le_le_nat: "nat_le (length bs) (le_nat bs) = bs"
proof (induction bs)
  case Nil
  then show ?case by simp
next
  case (Cons b bs)
  have "(unat b + 256 * le_nat bs) div 256 = le_nat bs" by simp
  moreover have "(word_of_nat (unat b + 256 * le_nat bs) :: byte) = b"
    by (simp add: word_unat_eq_iff unat_of_nat_byte del: of_nat_add of_nat_mult)
  ultimately show ?case using Cons by simp
qed

text \<open>\<open>to_le_bytes\<close> and \<open>from_le_bytes\<close> of the widths the formats use.\<close>

definition u16_to_le :: "16 word \<Rightarrow> bytes" where "u16_to_le w = nat_le 2 (unat w)"
definition u32_to_le :: "32 word \<Rightarrow> bytes" where "u32_to_le w = nat_le 4 (unat w)"
definition u64_to_le :: "64 word \<Rightarrow> bytes" where "u64_to_le w = nat_le 8 (unat w)"

definition u16_from_le :: "bytes \<Rightarrow> 16 word" where "u16_from_le bs = word_of_nat (le_nat bs)"
definition u32_from_le :: "bytes \<Rightarrow> 32 word" where "u32_from_le bs = word_of_nat (le_nat bs)"
definition u64_from_le :: "bytes \<Rightarrow> 64 word" where "u64_from_le bs = word_of_nat (le_nat bs)"

lemma u_to_le_length [simp]:
  "length (u16_to_le a) = 2" "length (u32_to_le b) = 4" "length (u64_to_le c) = 8"
  by (simp_all add: u16_to_le_def u32_to_le_def u64_to_le_def)

lemma u16_le_inverse [simp]: "u16_from_le (u16_to_le w) = w"
  using unsigned_less [of w, where ?'a = nat] by (simp add: u16_from_le_def u16_to_le_def le_nat_nat_le)

lemma u32_le_inverse [simp]: "u32_from_le (u32_to_le w) = w"
  using unsigned_less [of w, where ?'a = nat] by (simp add: u32_from_le_def u32_to_le_def le_nat_nat_le)

lemma u64_le_inverse [simp]: "u64_from_le (u64_to_le w) = w"
  using unsigned_less [of w, where ?'a = nat] by (simp add: u64_from_le_def u64_to_le_def le_nat_nat_le)

lemma unat_u16_from_le: "length bs = 2 \<Longrightarrow> unat (u16_from_le bs) = le_nat bs"
  using le_nat_bound [of bs] by (simp add: u16_from_le_def unat_of_nat)

lemma unat_u32_from_le: "length bs = 4 \<Longrightarrow> unat (u32_from_le bs) = le_nat bs"
  using le_nat_bound [of bs] by (simp add: u32_from_le_def unat_of_nat)

lemma unat_u64_from_le: "length bs = 8 \<Longrightarrow> unat (u64_from_le bs) = le_nat bs"
  using le_nat_bound [of bs] by (simp add: u64_from_le_def unat_of_nat)

lemma u16_to_from_le: "length bs = 2 \<Longrightarrow> u16_to_le (u16_from_le bs) = bs"
  using nat_le_le_nat [of bs] by (simp add: u16_to_le_def unat_u16_from_le)

lemma u32_to_from_le: "length bs = 4 \<Longrightarrow> u32_to_le (u32_from_le bs) = bs"
  using nat_le_le_nat [of bs] by (simp add: u32_to_le_def unat_u32_from_le)

lemma u64_to_from_le: "length bs = 8 \<Longrightarrow> u64_to_le (u64_from_le bs) = bs"
  using nat_le_le_nat [of bs] by (simp add: u64_to_le_def unat_u64_from_le)

section \<open>ASCII classes\<close>

definition is_ascii_lowercase :: "byte \<Rightarrow> bool" where
  "is_ascii_lowercase b \<longleftrightarrow> 0x61 \<le> b \<and> b \<le> 0x7A"
definition is_ascii_uppercase :: "byte \<Rightarrow> bool" where
  "is_ascii_uppercase b \<longleftrightarrow> 0x41 \<le> b \<and> b \<le> 0x5A"
definition is_ascii_digit :: "byte \<Rightarrow> bool" where
  "is_ascii_digit b \<longleftrightarrow> 0x30 \<le> b \<and> b \<le> 0x39"

text \<open>A byte-string literal, from its characters.\<close>

definition ascii :: "string \<Rightarrow> bytes" where
  "ascii s = map (\<lambda>c. word_of_nat (of_char c)) s"

section \<open>UTF-8\<close>

definition utf8_width :: "byte \<Rightarrow> nat" where
  "utf8_width b =
     (if b < 0x80 then 1 else if 0xC2 \<le> b \<and> b \<le> 0xDF then 2
      else if 0xE0 \<le> b \<and> b \<le> 0xEF then 3 else if 0xF0 \<le> b \<and> b \<le> 0xF4 then 4 else 0)"

definition utf8_cont :: "byte \<Rightarrow> bool" where
  "utf8_cont b \<longleftrightarrow> 0x80 \<le> b \<and> b \<le> 0xBF"

definition utf8_second :: "byte \<Rightarrow> byte \<Rightarrow> bool" where
  "utf8_second lead b \<longleftrightarrow>
     (if lead = 0xE0 then 0xA0 \<le> b \<and> b \<le> 0xBF
      else if lead = 0xED then 0x80 \<le> b \<and> b \<le> 0x9F
      else if lead = 0xF0 then 0x90 \<le> b \<and> b \<le> 0xBF
      else if lead = 0xF4 then 0x80 \<le> b \<and> b \<le> 0x8F
      else utf8_cont b)"

definition has_at :: "(byte \<Rightarrow> bool) \<Rightarrow> bytes \<Rightarrow> nat \<Rightarrow> bool" where
  "has_at p bs i \<longleftrightarrow> i < length bs \<and> p (bs ! i)"

text \<open>
  The sequence at the front of \<open>b # bs\<close>: whether it is well-formed, and its length, or
  the length of the maximal ill-formed prefix that one replacement character stands for.
\<close>

definition utf8_step :: "byte \<Rightarrow> bytes \<Rightarrow> bool \<times> nat" where
  "utf8_step b bs =
     (let w = utf8_width b in
      if w = 0 then (False, 1)
      else if w = 1 then (True, 1)
      else if \<not> has_at (utf8_second b) bs 0 then (False, 1)
      else if w = 2 then (True, 2)
      else if \<not> has_at utf8_cont bs 1 then (False, 2)
      else if w = 3 then (True, 3)
      else if \<not> has_at utf8_cont bs 2 then (False, 3)
      else (True, 4))"

function utf8_valid :: "bytes \<Rightarrow> bool" where
  "utf8_valid [] = True"
| "utf8_valid (b # bs) =
     (fst (utf8_step b bs) \<and> utf8_valid (drop (snd (utf8_step b bs) - 1) bs))"
  by pat_completeness auto
termination by (relation "measure length") auto

function from_utf8_lossy :: "bytes \<Rightarrow> bytes" where
  "from_utf8_lossy [] = []"
| "from_utf8_lossy (b # bs) =
     (if fst (utf8_step b bs) then take (snd (utf8_step b bs)) (b # bs) else [0xEF, 0xBF, 0xBD])
     @ from_utf8_lossy (drop (snd (utf8_step b bs) - 1) bs)"
  by pat_completeness auto
termination by (relation "measure length") auto

lemma utf8_step_ascii: "b < 0x80 \<Longrightarrow> utf8_step b bs = (True, 1)"
  by (simp add: utf8_step_def utf8_width_def)

lemma utf8_valid_ascii: "\<forall>b\<in>set bs. b < 0x80 \<Longrightarrow> utf8_valid bs"
  by (induction bs) (auto simp: utf8_step_ascii)

lemma utf8_step_pos: "0 < snd (utf8_step b bs)"
  by (simp add: utf8_step_def Let_def)

lemma from_utf8_lossy_valid: "utf8_valid bs \<Longrightarrow> from_utf8_lossy bs = bs"
proof (induction bs rule: utf8_valid.induct)
  case 1
  then show ?case by simp
next
  case (2 b bs)
  obtain k where "snd (utf8_step b bs) = Suc k" using utf8_step_pos [of b bs] gr0_implies_Suc by blast
  with 2 show ?case by simp
qed

section \<open>Decimal formatting\<close>

fun dec :: "nat \<Rightarrow> string" where
  "dec n = (if n < 10 then [char_of (48 + n)] else dec (n div 10) @ [char_of (48 + n mod 10)])"

declare dec.simps [simp del]

definition dec_int :: "int \<Rightarrow> string" where
  "dec_int i = (if i < 0 then ''-'' @ dec (nat (- i)) else dec (nat i))"

section \<open>Byte cursors\<close>

text \<open>
  The contract both readers keep: \<open>take_bytes r n\<close> hands out the next \<open>n\<close> bytes and moves
  past them when they are there, and neither panics nor succeeds when they are not.
  \<open>pending r\<close> is what is left to read, \<open>sound r\<close> the reader's own invariant. From it the
  fixed-width integer reads of the two readers are derived once.
\<close>

definition reads_as ::
  "('r \<Rightarrow> bool) \<Rightarrow> ('r \<Rightarrow> bytes) \<Rightarrow> ('r \<Rightarrow> nat \<Rightarrow> 'r) \<Rightarrow>
     ('r \<Rightarrow> ('a \<times> 'r, 'e) res) \<Rightarrow> bytes \<Rightarrow> 'a \<Rightarrow> bool" where
  "reads_as sound pending adv p bs x \<longleftrightarrow>
     (\<forall>r tl. sound r \<and> pending r = bs @ tl \<longrightarrow> p r = Ok (x, adv r (length bs)))"

text \<open>
  A decoder that is exact for a relation \<open>R\<close> between bytes and values: it never panics, and it
  succeeds with \<open>x\<close> precisely when the input starts with bytes related to \<open>x\<close>, which it
  consumes. Exactness is both halves of a round trip.
\<close>

definition exactly ::
  "('r \<Rightarrow> bool) \<Rightarrow> ('r \<Rightarrow> bytes) \<Rightarrow> ('r \<Rightarrow> nat \<Rightarrow> 'r) \<Rightarrow>
     ('r \<Rightarrow> ('a \<times> 'r, 'e) res) \<Rightarrow> (bytes \<Rightarrow> 'a \<Rightarrow> bool) \<Rightarrow> bool" where
  "exactly sound pending adv p R \<longleftrightarrow>
     (\<forall>r. sound r \<longrightarrow> p r \<noteq> Panic \<and>
        (\<forall>x r'. p r = Ok (x, r') \<longleftrightarrow>
           (\<exists>bs zs. R bs x \<and> pending r = bs @ zs \<and> r' = adv r (length bs))))"

locale byte_cursor =
  fixes take_bytes :: "'r \<Rightarrow> nat \<Rightarrow> (bytes \<times> 'r, 'e) res"
    and pending :: "'r \<Rightarrow> bytes"
    and adv :: "'r \<Rightarrow> nat \<Rightarrow> 'r"
    and sound :: "'r \<Rightarrow> bool"
  assumes take_ok: "sound r \<Longrightarrow> n \<le> length (pending r) \<Longrightarrow>
      take_bytes r n = Ok (take n (pending r), adv r n)"
    and take_short: "sound r \<Longrightarrow> length (pending r) < n \<Longrightarrow> \<exists>e. take_bytes r n = Err e"
    and pending_adv: "sound r \<Longrightarrow> n \<le> length (pending r) \<Longrightarrow> pending (adv r n) = drop n (pending r)"
    and sound_adv: "sound r \<Longrightarrow> n \<le> length (pending r) \<Longrightarrow> sound (adv r n)"
    and adv_adv: "adv (adv r m) n = adv r (m + n)"
    and adv_0: "adv r 0 = r"
begin

lemma take_total: "sound r \<Longrightarrow> take_bytes r n \<noteq> Panic"
  using take_ok [of r n] take_short [of r n] by (cases "n \<le> length (pending r)") auto

lemma take_OkD:
  assumes "take_bytes r n = Ok (bs, r')" and "sound r"
  shows "n \<le> length (pending r) \<and> bs = take n (pending r) \<and> r' = adv r n"
proof (cases "n \<le> length (pending r)")
  case True
  with assms take_ok [of r n] show ?thesis by simp
next
  case False
  with assms take_short [of r n] show ?thesis by auto
qed

lemma take_split:
  assumes "take_bytes r n = Ok (bs, r')" and "sound r"
  shows "pending r = bs @ pending r' \<and> length bs = n \<and> sound r'"
  using take_OkD [OF assms] assms(2) pending_adv [of r n] sound_adv [of r n] by auto

lemma reads_take: "length bs = n \<Longrightarrow> reads_as sound pending adv (\<lambda>r. take_bytes r n) bs bs"
  by (auto simp: reads_as_def take_ok)

lemma exactly_take: "exactly sound pending adv (\<lambda>r. take_bytes r n) (\<lambda>bs x. x = bs \<and> length bs = n)"
  unfolding exactly_def
proof (intro allI impI conjI iffI)
  fix r
  assume "sound r"
  then show "take_bytes r n \<noteq> Panic" by (rule take_total)
next
  fix r x r'
  assume "sound r" "take_bytes r n = Ok (x, r')"
  then have "n \<le> length (pending r) \<and> x = take n (pending r) \<and> r' = adv r n"
    using take_OkD by blast
  then show "\<exists>bs zs. (x = bs \<and> length bs = n) \<and> pending r = bs @ zs \<and> r' = adv r (length bs)"
    by (intro exI [of _ "take n (pending r)"] exI [of _ "drop n (pending r)"]) simp
next
  fix r x r'
  assume "sound r" "\<exists>bs zs. (x = bs \<and> length bs = n) \<and> pending r = bs @ zs \<and> r' = adv r (length bs)"
  then show "take_bytes r n = Ok (x, r')" by (auto simp: take_ok)
qed

lemma exactly_return: "exactly sound pending adv (\<lambda>r. Ok (x, r)) (\<lambda>bs y. bs = [] \<and> y = x)"
  by (auto simp: exactly_def adv_0)

lemma exactly_fail: "exactly sound pending adv (\<lambda>r. Err (e r)) (\<lambda>bs y. False)"
  by (simp add: exactly_def)

lemma exactly_cong:
  "exactly sound pending adv p R \<Longrightarrow> (\<And>bs x. R bs x \<longleftrightarrow> S bs x) \<Longrightarrow> exactly sound pending adv p S"
  by (simp add: exactly_def)

lemma exactly_bind:
  assumes p: "exactly sound pending adv p R"
    and q: "\<And>x b. R b x \<Longrightarrow> exactly sound pending adv (q x) (S x)"
  shows "exactly sound pending adv (\<lambda>r. rbind (p r) (\<lambda>(x, r). q x r))
    (\<lambda>bs y. \<exists>b c x. bs = b @ c \<and> R b x \<and> S x c y)"
  unfolding exactly_def
proof (intro allI impI)
  fix r
  assume s: "sound r"
  have step: "sound (adv r (length b)) \<and> pending (adv r (length b)) = zs"
    if "pending r = b @ zs" for b zs
    using that s sound_adv [of r "length b"] pending_adv [of r "length b"] by simp
  have pr: "p r \<noteq> Panic" "\<And>x r'. p r = Ok (x, r') \<longleftrightarrow>
      (\<exists>b zs. R b x \<and> pending r = b @ zs \<and> r' = adv r (length b))"
    using p s unfolding exactly_def by blast+
  have qr: "q x (adv r (length b)) \<noteq> Panic \<and> (\<forall>y r''. q x (adv r (length b)) = Ok (y, r'') \<longleftrightarrow>
      (\<exists>c ys. S x c y \<and> zs = c @ ys \<and> r'' = adv r (length b + length c)))"
    if "R b x" "pending r = b @ zs" for b x zs
    using q [OF that(1)] step [OF that(2)] unfolding exactly_def adv_adv [symmetric] by metis
  have "rbind (p r) (\<lambda>(x, r). q x r) \<noteq> Panic"
  proof
    assume "rbind (p r) (\<lambda>(x, r). q x r) = Panic"
    with pr(1) obtain x r' where x: "p r = Ok (x, r')" "q x r' = Panic" by (auto simp: res_simps)
    with pr(2) obtain b zs where "R b x" "pending r = b @ zs" "r' = adv r (length b)" by blast
    with qr x(2) show False by blast
  qed
  moreover have "rbind (p r) (\<lambda>(x, r). q x r) = Ok (y, r'') \<longleftrightarrow>
      (\<exists>bs zs. (\<exists>b c x. bs = b @ c \<and> R b x \<and> S x c y) \<and> pending r = bs @ zs \<and> r'' = adv r (length bs))"
    for y r''
  proof
    assume "rbind (p r) (\<lambda>(x, r). q x r) = Ok (y, r'')"
    then obtain x r' where x: "p r = Ok (x, r')" "q x r' = Ok (y, r'')" by (auto simp: res_simps)
    with pr(2) obtain b zs where b: "R b x" "pending r = b @ zs" "r' = adv r (length b)" by blast
    with qr [OF b(1,2)] x(2) obtain c ys where "S x c y" "zs = c @ ys" "r'' = adv r (length b + length c)"
      by blast
    with b show "\<exists>bs zs. (\<exists>b c x. bs = b @ c \<and> R b x \<and> S x c y) \<and> pending r = bs @ zs \<and>
        r'' = adv r (length bs)"
      by (intro exI [of _ "b @ c"] exI [of _ ys]) auto
  next
    assume "\<exists>bs zs. (\<exists>b c x. bs = b @ c \<and> R b x \<and> S x c y) \<and> pending r = bs @ zs \<and> r'' = adv r (length bs)"
    then obtain b c x zs where b: "R b x" "S x c y" "pending r = b @ c @ zs" "r'' = adv r (length b + length c)"
      by auto
    then have "p r = Ok (x, adv r (length b))" using pr(2) by blast
    moreover have "q x (adv r (length b)) = Ok (y, r'')" using qr [OF b(1,3)] b(2,4) by blast
    ultimately show "rbind (p r) (\<lambda>(x, r). q x r) = Ok (y, r'')" by simp
  qed
  ultimately show "rbind (p r) (\<lambda>(x, r). q x r) \<noteq> Panic \<and>
      (\<forall>y r''. rbind (p r) (\<lambda>(x, r). q x r) = Ok (y, r'') \<longleftrightarrow>
        (\<exists>bs zs. (\<exists>b c x. bs = b @ c \<and> R b x \<and> S x c y) \<and> pending r = bs @ zs \<and> r'' = adv r (length bs)))"
    by blast
qed

lemma exactly_pure:
  assumes "m \<noteq> Panic" and "\<And>x. m = Ok x \<Longrightarrow> exactly sound pending adv (q x) (S x)"
  shows "exactly sound pending adv (\<lambda>r. rbind m (\<lambda>x. q x r)) (\<lambda>bs y. \<exists>x. m = Ok x \<and> S x bs y)"
  using assms by (cases m) (simp_all add: exactly_def)

lemma exactly_n:
  assumes "exactly sound pending adv p R"
  shows "exactly sound pending adv (read_n n p)
    (\<lambda>bs xs. length xs = n \<and> (\<exists>bss. bs = concat bss \<and> list_all2 R bss xs))"
proof (induction n)
  case 0
  have "read_n 0 p = (\<lambda>r. Ok ([], r))" by (rule ext) simp
  then show ?case using exactly_return [of "[]"] by (auto intro: exactly_cong)
next
  case (Suc n)
  have eq: "read_n (Suc n) p = (\<lambda>r. rbind (p r) (\<lambda>(x, r). rbind (read_n n p r) (\<lambda>(xs, r). Ok (x # xs, r))))"
    by (rule ext) simp
  have "exactly sound pending adv (\<lambda>r. rbind (p r) (\<lambda>(x, r). rbind (read_n n p r) (\<lambda>(xs, r). Ok (x # xs, r))))
    (\<lambda>bs y. \<exists>b c x. bs = b @ c \<and> R b x \<and> (\<exists>b' c' xs. c = b' @ c' \<and>
      (length xs = n \<and> (\<exists>bss. b' = concat bss \<and> list_all2 R bss xs)) \<and> c' = [] \<and> y = x # xs))"
    by (intro exactly_bind [OF assms] exactly_bind [OF Suc.IH] exactly_return)
  then show ?case unfolding eq
  proof (rule exactly_cong)
    fix bs xs
    show "(\<exists>b c x. bs = b @ c \<and> R b x \<and> (\<exists>b' c' ys. c = b' @ c' \<and>
        (length ys = n \<and> (\<exists>bss. b' = concat bss \<and> list_all2 R bss ys)) \<and> c' = [] \<and> xs = x # ys)) \<longleftrightarrow>
      (length xs = Suc n \<and> (\<exists>bss. bs = concat bss \<and> list_all2 R bss xs))" (is "?L \<longleftrightarrow> ?R")
    proof
      assume ?L
      then obtain b x bss ys where "bs = b @ concat bss" "R b x" "length ys = n" "list_all2 R bss ys"
        "xs = x # ys" by auto
      then show ?R by (auto intro!: exI [of _ "b # bss"])
    next
      assume ?R
      then obtain x ys bss where "xs = x # ys" "length ys = n" "bs = concat bss" "list_all2 R bss (x # ys)"
        by (auto simp: length_Suc_conv)
      moreover from this(4) obtain b bss' where "bss = b # bss'" "R b x" "list_all2 R bss' ys"
        by (auto simp: list_all2_Cons2)
      ultimately show ?L by auto
    qed
  qed
qed

text \<open>The same rules for the decoder of an encoding \<open>enc\<close> of the values that satisfy \<open>ok\<close>.\<close>

lemma exactly_enc_bind:
  assumes "exactly sound pending adv p (\<lambda>bs x. ok x \<and> bs = enc x)"
    and "\<And>x. ok x \<Longrightarrow> exactly sound pending adv (q x) (S x)"
  shows "exactly sound pending adv (\<lambda>r. rbind (p r) (\<lambda>(x, r). q x r))
    (\<lambda>bs y. \<exists>x c. ok x \<and> S x c y \<and> bs = enc x @ c)"
  by (rule exactly_cong [OF exactly_bind [OF assms(1)]]) (use assms(2) in auto)

lemma list_all2_enc:
  "list_all2 (\<lambda>bs x. ok x \<and> bs = enc x) bss xs \<longleftrightarrow> (\<forall>x\<in>set xs. ok x) \<and> bss = map enc xs"
  by (induction xs arbitrary: bss) (auto simp: list_all2_Cons2)

lemma exactly_enc_n:
  assumes "exactly sound pending adv p (\<lambda>bs x. ok x \<and> bs = enc x)"
  shows "exactly sound pending adv (read_n n p)
    (\<lambda>bs xs. (length xs = n \<and> (\<forall>x\<in>set xs. ok x)) \<and> bs = concat (map enc xs))"
  by (rule exactly_cong [OF exactly_n [OF assms]]) (auto simp: list_all2_enc)

text \<open>An exact decoder on a whole input.\<close>

lemma exactly_Ok:
  "exactly sound pending adv p R \<Longrightarrow> sound r \<Longrightarrow>
     p r = Ok (x, r') \<longleftrightarrow> (\<exists>bs zs. R bs x \<and> pending r = bs @ zs \<and> r' = adv r (length bs))"
  unfolding exactly_def by blast

lemma exactly_not_Panic: "exactly sound pending adv p R \<Longrightarrow> sound r \<Longrightarrow> p r \<noteq> Panic"
  unfolding exactly_def by blast

text \<open>Reads compose along the concatenation of what they read.\<close>

lemma reads_return: "reads_as sound pending adv (\<lambda>r. Ok (x, r)) [] x"
  by (simp add: reads_as_def adv_0)

lemma reads_bind:
  assumes "reads_as sound pending adv p bs x"
    and "reads_as sound pending adv (q x) cs y"
  shows "reads_as sound pending adv (\<lambda>r. rbind (p r) (\<lambda>(x, r). q x r)) (bs @ cs) y"
  unfolding reads_as_def
proof (intro allI impI)
  fix r tl
  assume "sound r \<and> pending r = (bs @ cs) @ tl"
  then have s: "sound r" and pr: "pending r = bs @ (cs @ tl)" by simp_all
  then have "p r = Ok (x, adv r (length bs))" using assms(1) unfolding reads_as_def by blast
  moreover have "sound (adv r (length bs))" using s pr by (simp add: sound_adv)
  moreover have "pending (adv r (length bs)) = cs @ tl" using s pr by (simp add: pending_adv)
  ultimately show "rbind (p r) (\<lambda>(x, r). q x r) = Ok (y, adv r (length (bs @ cs)))"
    using assms(2) unfolding reads_as_def by (simp add: adv_adv)
qed

lemma reads_map:
  "reads_as sound pending adv p bs x \<Longrightarrow> y = f x \<Longrightarrow>
     reads_as sound pending adv (\<lambda>r. rbind (p r) (\<lambda>(x, r). Ok (f x, r))) bs y"
  by (auto simp: reads_as_def)

lemma reads_n:
  assumes "\<And>x. x \<in> set xs \<Longrightarrow> reads_as sound pending adv p (enc x) x"
  shows "reads_as sound pending adv (read_n (length xs) p) (concat (map enc xs)) xs"
  using assms
proof (induction xs)
  case Nil
  then show ?case by (simp add: reads_as_def adv_0)
next
  case (Cons x xs)
  have "reads_as sound pending adv (read_n (length xs) p) (concat (map enc xs)) xs"
    using Cons by simp
  then have tail: "reads_as sound pending adv
      (\<lambda>r. rbind (read_n (length xs) p r) (\<lambda>(ys, r). Ok (x # ys, r))) (concat (map enc xs)) (x # xs)"
    by (rule reads_map) simp
  have "reads_as sound pending adv p (enc x) x" using Cons.prems by simp
  from reads_bind [where q = "\<lambda>x r. rbind (read_n (length xs) p r) (\<lambda>(ys, r). Ok (x # ys, r))",
      OF this tail] show ?case by simp
qed

end

text \<open>
  A parser over a cursor with outcome \<open>Q\<close>: from a sound cursor it does not panic, and when it
  succeeds its result satisfies \<open>Q\<close>, it has moved forward within the input, and it does the
  same when the input is longer: it looks at no more than it consumes.
\<close>

definition parses_at ::
  "('r \<Rightarrow> bool) \<Rightarrow> ('r \<Rightarrow> bytes) \<Rightarrow> ('r \<Rightarrow> nat \<Rightarrow> 'r) \<Rightarrow> ('r \<Rightarrow> bytes \<Rightarrow> 'r) \<Rightarrow>
     ('r \<Rightarrow> ('a \<times> 'r, 'e) res) \<Rightarrow> ('a \<Rightarrow> bool) \<Rightarrow> 'r \<Rightarrow> bool" where
  "parses_at sound pending adv ext p Q r \<longleftrightarrow> p r \<noteq> Panic \<and>
     (\<forall>x r'. p r = Ok (x, r') \<longrightarrow> Q x \<and>
        (\<exists>n\<le>length (pending r). r' = adv r n \<and>
           (\<forall>zs. sound (ext r zs) \<longrightarrow> p (ext r zs) = Ok (x, adv (ext r zs) n))))"

definition parses ::
  "('r \<Rightarrow> bool) \<Rightarrow> ('r \<Rightarrow> bytes) \<Rightarrow> ('r \<Rightarrow> nat \<Rightarrow> 'r) \<Rightarrow> ('r \<Rightarrow> bytes \<Rightarrow> 'r) \<Rightarrow>
     ('r \<Rightarrow> ('a \<times> 'r, 'e) res) \<Rightarrow> ('a \<Rightarrow> bool) \<Rightarrow> bool" where
  "parses sound pending adv ext p Q \<longleftrightarrow> (\<forall>r. sound r \<longrightarrow> parses_at sound pending adv ext p Q r)"

locale growing_cursor = byte_cursor +
  fixes ext :: "'a \<Rightarrow> bytes \<Rightarrow> 'a"
  assumes pending_ext: "sound r \<Longrightarrow> pending (ext r zs) = pending r @ zs"
    and ext_adv: "ext (adv r n) zs = adv (ext r zs) n"
begin

lemma parses_take: "parses sound pending adv ext (\<lambda>r. take_bytes r n) (\<lambda>bs. length bs = n)"
  unfolding parses_def parses_at_def
proof (intro allI impI conjI)
  fix r
  assume s: "sound r"
  then show "take_bytes r n \<noteq> Panic" by (rule take_total)
next
  fix r bs r'
  assume s: "sound r" and t: "take_bytes r n = Ok (bs, r')"
  from take_split [OF t s] show "length bs = n" by simp
next
  fix r bs r'
  assume s: "sound r" and t: "take_bytes r n = Ok (bs, r')"
  from take_OkD [OF t s] have b: "n \<le> length (pending r)" "bs = take n (pending r)" "r' = adv r n"
    by simp_all
  have "take_bytes (ext r zs) n = Ok (bs, adv (ext r zs) n)" if "sound (ext r zs)" for zs
    using take_ok [OF that, of n] b s by (simp add: pending_ext)
  with b show "\<exists>n'\<le>length (pending r). r' = adv r n' \<and>
      (\<forall>zs. sound (ext r zs) \<longrightarrow> take_bytes (ext r zs) n = Ok (bs, adv (ext r zs) n'))" by blast
qed

lemma parses_return: "Q x \<Longrightarrow> parses sound pending adv ext (\<lambda>r. Ok (x, r)) Q"
  unfolding parses_def parses_at_def by (auto simp: adv_0 intro!: exI [of _ 0])

lemma parses_fail: "parses sound pending adv ext (\<lambda>r. Err (e r)) Q"
  unfolding parses_def parses_at_def by simp

lemma parses_at_weaken:
  "parses_at sound pending adv ext p P r \<Longrightarrow> (\<And>x. P x \<Longrightarrow> Q x) \<Longrightarrow> parses_at sound pending adv ext p Q r"
  unfolding parses_at_def by meson

lemma parses_weaken:
  "parses sound pending adv ext p P \<Longrightarrow> (\<And>x. P x \<Longrightarrow> Q x) \<Longrightarrow> parses sound pending adv ext p Q"
  unfolding parses_def parses_at_def by meson

text \<open>The sequencing rule: what the first read guarantees may be used by the second.\<close>

lemma parses_bind_at:
  assumes s: "sound r" and p: "parses_at sound pending adv ext p P r"
    and q: "\<And>x r'. P x \<Longrightarrow> sound r' \<Longrightarrow> p r = Ok (x, r') \<Longrightarrow> parses_at sound pending adv ext (q x) Q r'"
  shows "parses_at sound pending adv ext (\<lambda>r. rbind (p r) (\<lambda>(x, r). q x r)) Q r"
proof (cases "p r")
    case (Ok xr)
    obtain x r' where "xr = (x, r')" by (cases xr)
    with Ok have pr: "p r = Ok (x, r')" by simp
    from p pr obtain n where n: "P x" "n \<le> length (pending r)" "r' = adv r n"
      "\<forall>zs. sound (ext r zs) \<longrightarrow> p (ext r zs) = Ok (x, adv (ext r zs) n)"
      unfolding parses_at_def by blast
    have s': "sound (adv r n)" using sound_adv [OF s n(2)] .
    have pend: "pending (adv r n) = drop n (pending r)" using pending_adv [OF s n(2)] .
    note qx = q [OF n(1) s' pr [unfolded n(3)], unfolded parses_at_def]
    have "\<exists>k\<le>length (pending r). r'' = adv r k \<and>
        (\<forall>zs. sound (ext r zs) \<longrightarrow> rbind (p (ext r zs)) (\<lambda>(x, r). q x r) = Ok (y, adv (ext r zs) k))"
      if qy: "q x (adv r n) = Ok (y, r'')" for y r''
    proof -
      from qx qy obtain m where m: "m \<le> length (pending (adv r n))" "r'' = adv (adv r n) m"
        "\<forall>zs. sound (ext (adv r n) zs) \<longrightarrow> q x (ext (adv r n) zs) = Ok (y, adv (ext (adv r n) zs) m)"
        by blast
      have "rbind (p (ext r zs)) (\<lambda>(x, r). q x r) = Ok (y, adv (ext r zs) (n + m))"
        if se: "sound (ext r zs)" for zs
      proof -
        have "n \<le> length (pending (ext r zs))" using n(2) s by (simp add: pending_ext)
        from sound_adv [OF se this] have "sound (ext (adv r n) zs)" by (simp add: ext_adv)
        with m(3) n(4) se show ?thesis by (simp add: ext_adv adv_adv)
      qed
      with m n(2) pend show ?thesis by (intro exI [of _ "n + m"]) (auto simp: adv_adv)
    qed
    with pr qx n(3) show ?thesis by (auto simp: parses_at_def)
  next
    case (Err e)
    then show ?thesis by (simp add: parses_at_def)
  next
    case Panic
    with p show ?thesis unfolding parses_at_def by blast
  qed

lemma parses_bind:
  assumes "parses sound pending adv ext p P"
    and "\<And>x. P x \<Longrightarrow> parses sound pending adv ext (q x) Q"
  shows "parses sound pending adv ext (\<lambda>r. rbind (p r) (\<lambda>(x, r). q x r)) Q"
  using assms unfolding parses_def by (blast intro: parses_bind_at)

text \<open>A step that does not read, and errors that mention the position.\<close>

lemma parses_pure:
  assumes "m \<noteq> Panic" and "\<And>x. m = Ok x \<Longrightarrow> parses sound pending adv ext (q x) Q"
  shows "parses sound pending adv ext (\<lambda>r. rbind m (\<lambda>x. q x r)) Q"
  using assms by (cases m) (simp_all add: parses_def parses_at_def)

lemma parses_ensure:
  assumes "b \<Longrightarrow> parses sound pending adv ext q Q"
  shows "parses sound pending adv ext (\<lambda>r. rbind (ensure b (e r)) (\<lambda>_. q r)) Q"
  using assms by (cases b) (simp_all add: parses_def parses_at_def)

lemma parses_ok_or:
  assumes "\<And>x. m = Some x \<Longrightarrow> parses sound pending adv ext (q x) Q"
  shows "parses sound pending adv ext (\<lambda>r. rbind (ok_or m (e r)) (\<lambda>x. q x r)) Q"
  using assms by (cases m) (simp_all add: parses_def parses_at_def)

lemma parses_if:
  assumes "b \<Longrightarrow> parses sound pending adv ext p Q" and "\<not> b \<Longrightarrow> parses sound pending adv ext q Q"
  shows "parses sound pending adv ext (\<lambda>r. if b then p r else q r) Q"
  using assms by (cases b) simp_all

lemma parses_n:
  assumes "parses sound pending adv ext p Q"
  shows "parses sound pending adv ext (read_n n p) (\<lambda>xs. length xs = n \<and> (\<forall>x\<in>set xs. Q x))"
proof (induction n)
  case 0
  have "read_n 0 p = (\<lambda>r. Ok ([], r))" by (rule ext) simp
  then show ?case by (simp add: parses_return)
next
  case (Suc n)
  have "read_n (Suc n) p =
      (\<lambda>r. rbind (p r) (\<lambda>(x, r). rbind (read_n n p r) (\<lambda>(xs, r). Ok (x # xs, r))))"
    by (rule ext) simp
  moreover have "parses sound pending adv ext
      (\<lambda>r. rbind (p r) (\<lambda>(x, r). rbind (read_n n p r) (\<lambda>(xs, r). Ok (x # xs, r))))
      (\<lambda>xs. length xs = Suc n \<and> (\<forall>x\<in>set xs. Q x))"
    by (rule parses_bind [OF assms], rule parses_bind [OF Suc], rule parses_return) simp
  ultimately show ?case by simp
qed

text \<open>What a successful parse says about longer and shorter inputs.\<close>

lemma parses_not_Panic: "parses sound pending adv ext p Q \<Longrightarrow> sound r \<Longrightarrow> p r \<noteq> Panic"
  unfolding parses_def parses_at_def by blast

lemma parses_Ok:
  assumes "parses sound pending adv ext p Q" and "sound r" and "p r = Ok (x, r')"
  shows "Q x \<and> sound r' \<and> (\<exists>n\<le>length (pending r). r' = adv r n \<and>
    (\<forall>zs. sound (ext r zs) \<longrightarrow> p (ext r zs) = Ok (x, adv (ext r zs) n)))"
proof -
  from assms obtain n where n: "n \<le> length (pending r)" "r' = adv r n"
    and rest: "Q x" "\<forall>zs. sound (ext r zs) \<longrightarrow> p (ext r zs) = Ok (x, adv (ext r zs) n)"
    unfolding parses_def parses_at_def by blast
  have "sound r'" using sound_adv [OF assms(2) n(1)] n(2) by simp
  with n rest show ?thesis by blast
qed

lemmas parses_intros = parses_return parses_fail parses_if parses_pure parses_ensure parses_ok_or

end

end
