(* ===== verification/Core_Span.thy ===== *)
theory Core_Span
  imports Rust_Bytes "HOL-Library.Product_Lexorder"
begin

text \<open>
  \<open>blu-core\<close>: semantic profiles (\<open>profile.rs\<close>), source and compiler identities
  (\<open>identity.rs\<close>) and byte spans (\<open>span.rs\<close>). A \<open>&str\<close> or \<open>String\<close> is the list of its
  UTF-8 bytes. Structs whose derived \<open>Ord\<close> the code uses are datatypes with a \<open>linorder\<close>
  instance that compares their fields in declaration order.
\<close>

section \<open>Semantic profiles\<close>

datatype semantic_profile = Blu | Luau | Lua51 | Lua52 | Lua53 | Lua54 | Lua55

definition profile_ALL :: "semantic_profile list" where
  "profile_ALL = [Blu, Luau, Lua51, Lua52, Lua53, Lua54, Lua55]"

fun profile_as_str :: "semantic_profile \<Rightarrow> bytes" where
  "profile_as_str Blu = ascii ''blu''"
| "profile_as_str Luau = ascii ''luau''"
| "profile_as_str Lua51 = ascii ''lua51''"
| "profile_as_str Lua52 = ascii ''lua52''"
| "profile_as_str Lua53 = ascii ''lua53''"
| "profile_as_str Lua54 = ascii ''lua54''"
| "profile_as_str Lua55 = ascii ''lua55''"

datatype parse_profile_error = ParseSemanticProfileError bytes

definition profile_from_str :: "bytes \<Rightarrow> (semantic_profile, parse_profile_error) res" where
  "profile_from_str value =
     (if value = ascii ''blu'' then Ok Blu
      else if value = ascii ''luau'' then Ok Luau
      else if value = ascii ''lua51'' then Ok Lua51
      else if value = ascii ''lua52'' then Ok Lua52
      else if value = ascii ''lua53'' then Ok Lua53
      else if value = ascii ''lua54'' then Ok Lua54
      else if value = ascii ''lua55'' then Ok Lua55
      else Err (ParseSemanticProfileError value))"

lemma profile_ALL_all: "p \<in> set profile_ALL"
  by (cases p) (simp_all add: profile_ALL_def)

lemma profile_from_as_str: "profile_from_str (profile_as_str p) = Ok p"
  by (cases p) (simp_all add: profile_from_str_def ascii_def)

lemma profile_from_str_Ok: "profile_from_str v = Ok p \<Longrightarrow> v = profile_as_str p"
  by (auto simp: profile_from_str_def split: if_splits)

section \<open>Identities\<close>

type_synonym source_id = "32 word"

record identity_limits =
  max_source_name_bytes :: nat
  max_compiler_name_bytes :: nat
  max_compiler_version_bytes :: nat
  max_compiler_revision_bytes :: nat

definition default_identity_limits :: identity_limits where
  "default_identity_limits =
     \<lparr>max_source_name_bytes = 4 * 1024, max_compiler_name_bytes = 256,
      max_compiler_version_bytes = 256, max_compiler_revision_bytes = 256\<rparr>"

datatype identity_error =
    IdEmpty string
  | IdTooLarge string nat nat
  | IdNul string nat

fun first_nul :: "nat \<Rightarrow> bytes \<Rightarrow> nat option" where
  "first_nul i [] = None"
| "first_nul i (b # bs) = (if b = 0 then Some i else first_nul (Suc i) bs)"

definition validate_text :: "string \<Rightarrow> bytes \<Rightarrow> nat \<Rightarrow> bool \<Rightarrow> (unit, identity_error) res" where
  "validate_text what value limit allow_empty =
     (if \<not> allow_empty \<and> value = [] then Err (IdEmpty what)
      else if limit < length value then Err (IdTooLarge what (length value) limit)
      else case first_nul 0 value of
             Some index \<Rightarrow> Err (IdNul what index)
           | None \<Rightarrow> Ok ())"

record source_identity =
  si_id :: source_id
  si_name :: bytes

definition source_identity_new ::
  "source_id \<Rightarrow> bytes \<Rightarrow> identity_limits \<Rightarrow> (source_identity, identity_error) res" where
  "source_identity_new i name limits =
     rbind (validate_text ''source name'' name (max_source_name_bytes limits) True)
       (\<lambda>_. Ok \<lparr>si_id = i, si_name = name\<rparr>)"

record compiler_identity =
  ci_id :: bytes
  ci_name :: bytes
  ci_version :: bytes
  ci_revision :: "bytes option"

definition compiler_identity_new ::
  "bytes \<Rightarrow> bytes \<Rightarrow> bytes \<Rightarrow> bytes option \<Rightarrow> identity_limits \<Rightarrow>
     (compiler_identity, identity_error) res" where
  "compiler_identity_new i name version revision limits =
     rbind (validate_text ''compiler name'' name (max_compiler_name_bytes limits) False) (\<lambda>_.
     rbind (validate_text ''compiler version'' version (max_compiler_version_bytes limits) False) (\<lambda>_.
     rbind (case revision of
              Some r \<Rightarrow> validate_text ''compiler revision'' r (max_compiler_revision_bytes limits) False
            | None \<Rightarrow> Ok ()) (\<lambda>_.
     Ok \<lparr>ci_id = i, ci_name = name, ci_version = version, ci_revision = revision\<rparr>)))"

lemma first_nul_None: "first_nul i bs = None \<longleftrightarrow> 0 \<notin> set bs"
  by (induction bs arbitrary: i) auto

lemma first_nul_Some:
  "first_nul i bs = Some k \<longleftrightarrow>
     i \<le> k \<and> k - i < length bs \<and> bs ! (k - i) = 0 \<and> (\<forall>j<k - i. bs ! j \<noteq> 0)"
proof (induction bs arbitrary: i)
  case Nil
  then show ?case by simp
next
  case (Cons b bs)
  show ?case
  proof (cases "b = 0")
    case True
    then show ?thesis by (cases "k - i") auto
  next
    case False
    have eq: "k - i = Suc (k - Suc i)" if "Suc i \<le> k" using that by simp
    show ?thesis
    proof (cases "Suc i \<le> k")
      case True
      from eq [OF True] False Cons [of "Suc i"] True show ?thesis
        by (auto simp: less_Suc_eq_0_disj)
    next
      case no: False
      with False Cons [of "Suc i"] show ?thesis by auto
    qed
  qed
qed

text \<open>A text is accepted exactly when it is short enough, has no NUL and is not wrongly empty.\<close>

lemma validate_text_Ok [res_simps]:
  "validate_text what v limit e = Ok u \<longleftrightarrow> (e \<or> v \<noteq> []) \<and> length v \<le> limit \<and> 0 \<notin> set v"
  using first_nul_None [of 0 v] by (cases "first_nul 0 v") (auto simp: validate_text_def)

lemma validate_text_not_Panic [res_simps]: "validate_text what v limit e = Panic \<longleftrightarrow> False"
  by (simp add: validate_text_def split: option.splits)

lemma validate_text_Nul:
  "validate_text what v limit e = Err (IdNul w k) \<Longrightarrow>
     w = what \<and> k < length v \<and> v ! k = 0 \<and> (\<forall>j<k. v ! j \<noteq> 0)"
  by (auto simp: validate_text_def first_nul_Some split: if_splits option.splits)

section \<open>Byte spans\<close>

type_synonym byte_offset = "32 word"

datatype byte_span =
  ByteSpan (span_source: source_id) (span_start: byte_offset) (span_end: byte_offset)

datatype span_error =
    OffsetOverflow nat
  | Reversed byte_offset byte_offset
  | SourceMismatch source_id source_id
  | OutOfBounds byte_offset byte_offset

instantiation byte_span :: linorder
begin
definition less_eq_byte_span :: "byte_span \<Rightarrow> byte_span \<Rightarrow> bool" where
  "less_eq_byte_span a b \<longleftrightarrow>
     (span_source a, span_start a, span_end a) \<le> (span_source b, span_start b, span_end b)"
definition less_byte_span :: "byte_span \<Rightarrow> byte_span \<Rightarrow> bool" where
  "less_byte_span a b \<longleftrightarrow>
     (span_source a, span_start a, span_end a) < (span_source b, span_start b, span_end b)"
instance
  by standard
    (auto simp: less_eq_byte_span_def less_byte_span_def byte_span.expand intro: byte_span.expand)
end

definition u32_max :: nat where "u32_max = 4294967295"

definition offset_from_usize :: "nat \<Rightarrow> (byte_offset, span_error) res" where
  "offset_from_usize value =
     (if value \<le> u32_max then Ok (word_of_nat value) else Err (OffsetOverflow value))"

definition span_new :: "source_id \<Rightarrow> byte_offset \<Rightarrow> byte_offset \<Rightarrow> (byte_span, span_error) res" where
  "span_new source start stop =
     (if stop < start then Err (Reversed start stop) else Ok (ByteSpan source start stop))"

definition span_from_usize :: "source_id \<Rightarrow> nat \<Rightarrow> nat \<Rightarrow> (byte_span, span_error) res" where
  "span_from_usize source start stop =
     rbind (offset_from_usize start) (\<lambda>s. rbind (offset_from_usize stop) (\<lambda>e. span_new source s e))"

definition span_len :: "byte_span \<Rightarrow> 32 word" where
  "span_len s = span_end s - span_start s"

definition span_is_empty :: "byte_span \<Rightarrow> bool" where
  "span_is_empty s \<longleftrightarrow> span_start s = span_end s"

definition span_contains :: "byte_span \<Rightarrow> byte_offset \<Rightarrow> bool" where
  "span_contains s offset \<longleftrightarrow> span_start s \<le> offset \<and> offset < span_end s"

definition span_merge :: "byte_span \<Rightarrow> byte_span \<Rightarrow> (byte_span, span_error) res" where
  "span_merge a b =
     (if span_source a \<noteq> span_source b then Err (SourceMismatch (span_source a) (span_source b))
      else span_new (span_source a) (min (span_start a) (span_start b)) (max (span_end a) (span_end b)))"

definition span_validate_for :: "byte_span \<Rightarrow> source_id \<Rightarrow> byte_offset \<Rightarrow> (unit, span_error) res" where
  "span_validate_for s source source_len =
     (if span_source s \<noteq> source then Err (SourceMismatch source (span_source s))
      else if source_len < span_end s then Err (OutOfBounds (span_end s) source_len)
      else Ok ())"

text \<open>The invariant every constructor establishes: a span is a forward range.\<close>

definition span_ok :: "byte_span \<Rightarrow> bool" where
  "span_ok s \<longleftrightarrow> span_start s \<le> span_end s"

lemma unat_of_nat_u32 [simp]: "n \<le> u32_max \<Longrightarrow> unat (word_of_nat n :: 32 word) = n"
  by (simp add: unat_of_nat u32_max_def)

lemma unat_u32_le [simp]: "unat (w :: 32 word) \<le> u32_max"
  using unsigned_less [of w, where ?'a = nat] by (simp add: u32_max_def)

lemma u32_of_nat_le: "n \<le> m \<Longrightarrow> m \<le> u32_max \<Longrightarrow> (word_of_nat n :: 32 word) \<le> word_of_nat m"
  by (simp add: word_le_nat_alt)

lemma offset_from_usize_Ok [res_simps]:
  "offset_from_usize v = Ok w \<longleftrightarrow> v \<le> u32_max \<and> w = word_of_nat v"
  by (auto simp: offset_from_usize_def)

lemma offset_from_usize_not_Panic [res_simps]: "offset_from_usize v = Panic \<longleftrightarrow> False"
  by (simp add: offset_from_usize_def)

lemma span_new_Ok [res_simps]:
  "span_new src a b = Ok s \<longleftrightarrow> a \<le> b \<and> s = ByteSpan src a b"
  by (auto simp: span_new_def)

lemma span_new_not_Panic [res_simps]: "span_new src a b = Panic \<longleftrightarrow> False"
  by (simp add: span_new_def)

lemma span_validate_for_Ok [res_simps]:
  "span_validate_for s src n = Ok u \<longleftrightarrow> span_source s = src \<and> span_end s \<le> n"
  by (auto simp: span_validate_for_def)

lemma span_validate_for_not_Panic [res_simps]: "span_validate_for s src n = Panic \<longleftrightarrow> False"
  by (simp add: span_validate_for_def)

lemma span_from_usize_Ok [res_simps]:
  "span_from_usize src a b = Ok s \<longleftrightarrow>
     a \<le> b \<and> b \<le> u32_max \<and> s = ByteSpan src (word_of_nat a) (word_of_nat b)"
  by (auto simp: span_from_usize_def res_simps word_le_nat_alt)

lemma span_from_usize_not_Panic [res_simps]: "span_from_usize src a b = Panic \<longleftrightarrow> False"
  by (auto simp: span_from_usize_def res_simps)

lemma span_len_unat: "span_ok s \<Longrightarrow> unat (span_len s) = unat (span_end s) - unat (span_start s)"
  by (simp add: span_ok_def span_len_def unat_sub)

text \<open>
  merging two forward spans of one source gives the least forward span that covers both;
  spans of different sources are refused with the expected and the actual source.
\<close>

theorem span_merge_least_cover:
  assumes "span_ok a" and "span_ok b"
  shows "(span_source a = span_source b \<longrightarrow>
      (\<exists>c. span_merge a b = Ok c \<and> span_ok c \<and> span_source c = span_source a \<and>
        (\<forall>x. span_contains a x \<or> span_contains b x \<longrightarrow> span_contains c x) \<and>
        (\<forall>d. span_start d \<le> span_start a \<and> span_start d \<le> span_start b \<and>
             span_end a \<le> span_end d \<and> span_end b \<le> span_end d \<longrightarrow>
             span_start d \<le> span_start c \<and> span_end c \<le> span_end d))) \<and>
    (span_source a \<noteq> span_source b \<longrightarrow>
      span_merge a b = Err (SourceMismatch (span_source a) (span_source b)))"
proof -
  have "min (span_start a) (span_start b) \<le> max (span_end a) (span_end b)"
    using assms by (auto simp: span_ok_def min_def max_def)
  then have "span_merge a b = Ok (ByteSpan (span_source a) (min (span_start a) (span_start b))
      (max (span_end a) (span_end b)))" if "span_source a = span_source b"
    using that by (simp add: span_merge_def res_simps)
  then show ?thesis using assms
    by (auto simp: span_merge_def span_ok_def span_contains_def min_le_iff_disj less_max_iff_disj le_max_iff_disj)
qed

theorem span_merge_least_cover_witness:
  "\<exists>c. span_merge (ByteSpan 1 4 9) (ByteSpan 1 2 5) = Ok c \<and> span_ok c"
proof -
  have "span_ok (ByteSpan 1 4 9)" "span_ok (ByteSpan 1 2 5)" by (simp_all add: span_ok_def)
  from span_merge_least_cover [OF this] show ?thesis by auto
qed

end
