(* ===== verification/Core_Source.thy ===== *)
theory Core_Source
  imports Core_Span
begin

text \<open>
  \<open>blu-core/src/source.rs\<close>: the line index of a byte source and the bounded source file
  every later stage reads. \<open>alloc n\<close> says whether the allocator grants a request for \<open>n\<close>
  elements; every statement holds for every such function.
\<close>

record source_limits =
  max_source_bytes :: nat
  max_lines :: nat
  max_name_bytes :: nat

definition default_source_limits :: source_limits where
  "default_source_limits =
     \<lparr>max_source_bytes = 64 * 1024 * 1024, max_lines = 1000000, max_name_bytes = 4 * 1024\<rparr>"

datatype source_limit = LimitBytes | LimitLines | LimitNameBytes

record line_position =
  lp_line :: "32 word"
  lp_byte_column :: "32 word"

datatype line_index_error =
    LiAllocationFailed nat
  | TooManyLines nat nat
  | LineCountOverflow
  | LiOffsetOverflow nat nat
  | OffsetOutOfBounds byte_offset byte_offset
  | LineOutOfBounds nat nat
  | LiSpan span_error

record line_index =
  li_starts :: "byte_offset list"
  li_source_len :: byte_offset

section \<open>Building the line index\<close>

definition CR :: byte where "CR = 0x0D"
definition LF :: byte where "LF = 0x0A"

definition is_line_break :: "bytes \<Rightarrow> nat \<Rightarrow> bool" where
  "is_line_break bs index \<longleftrightarrow>
     (if bs ! index = CR then get bs (index + 1) \<noteq> Some LF \<and>
                              (index = 0 \<or> get bs (index - 1) \<noteq> Some LF)
      else bs ! index = LF)"

definition allocate_line_starts :: "(nat \<Rightarrow> bool) \<Rightarrow> nat \<Rightarrow> (byte_offset list, line_index_error) res" where
  "allocate_line_starts alloc capacity =
     rbind (ensure (alloc capacity) (LiAllocationFailed capacity)) (\<lambda>_. Ok [])"

definition next_line_start :: "bytes \<Rightarrow> nat \<Rightarrow> (byte_offset, line_index_error) res" where
  "next_line_start bs index =
     rbind (ok_or (if bs ! index = LF \<and> get bs (index + 1) = Some CR
                   then checked_add index 2 else checked_add index 1)
                  (LiOffsetOverflow usize_max u32_max)) (\<lambda>start.
     map_err (\<lambda>_. LiOffsetOverflow start u32_max) (offset_from_usize start))"

definition push_line_start ::
  "bytes \<Rightarrow> byte_offset list \<Rightarrow> nat \<Rightarrow> (byte_offset list, line_index_error) res" where
  "push_line_start bs starts index =
     (if is_line_break bs index then rbind (next_line_start bs index) (\<lambda>s. Ok (starts @ [s]))
      else Ok starts)"

definition line_index_new ::
  "(nat \<Rightarrow> bool) \<Rightarrow> bytes \<Rightarrow> nat \<Rightarrow> (line_index, line_index_error) res" where
  "line_index_new alloc bs limit =
     rbind (map_err (\<lambda>_. LiOffsetOverflow (length bs) u32_max) (offset_from_usize (length bs))) (\<lambda>source_len.
     if limit = 0 then Err (TooManyLines 1 0)
     else rbind (ok_or (checked_add (length (filter (is_line_break bs) [0..<length bs])) 1)
                       LineCountOverflow) (\<lambda>capacity.
     if limit < capacity then Err (TooManyLines capacity limit)
     else rbind (allocate_line_starts alloc capacity) (\<lambda>starts.
     rbind (fold_res (push_line_start bs) (starts @ [0]) [0..<length bs]) (\<lambda>starts.
     Ok \<lparr>li_starts = starts, li_source_len = source_len\<rparr>))))"

section \<open>Reading the line index\<close>

definition line_count :: "line_index \<Rightarrow> nat" where
  "line_count idx = length (li_starts idx)"

definition line_start :: "line_index \<Rightarrow> nat \<Rightarrow> (byte_offset, line_index_error) res" where
  "line_start idx line = ok_or (get (li_starts idx) line) (LineOutOfBounds line (length (li_starts idx)))"

definition line_position_of :: "line_index \<Rightarrow> byte_offset \<Rightarrow> (line_position, line_index_error) res" where
  "line_position_of idx offset =
     (if li_source_len idx < offset then Err (OffsetOutOfBounds offset (li_source_len idx))
      else case checked_sub (partition_point (\<lambda>start. start \<le> offset) (li_starts idx)) 1 of
             None \<Rightarrow> Panic
           | Some line \<Rightarrow>
               rbind (ensure (line \<le> u32_max) LineCountOverflow) (\<lambda>_.
               rbind (index_at (li_starts idx) line) (\<lambda>start.
               Ok \<lparr>lp_line = word_of_nat line, lp_byte_column = offset - start\<rparr>)))"

definition line_span :: "line_index \<Rightarrow> source_id \<Rightarrow> nat \<Rightarrow> (byte_span, line_index_error) res" where
  "line_span idx source line =
     rbind (line_start idx line) (\<lambda>start.
     let stop = (case get (li_starts idx) (line + 1) of Some s \<Rightarrow> s | None \<Rightarrow> li_source_len idx)
     in map_err LiSpan (span_new source start stop))"

section \<open>Source files\<close>

datatype source_error =
    SeIdentity identity_error
  | SeLimit source_limit nat nat
  | SeLineIndex line_index_error
  | SeSpan span_error

record source_file =
  sf_identity :: source_identity
  sf_bytes :: bytes
  sf_lines :: line_index

fun source_line_error :: "line_index_error \<Rightarrow> source_error" where
  "source_line_error (TooManyLines actual limit) = SeLimit LimitLines actual limit"
| "source_line_error other = SeLineIndex other"

definition source_file_new ::
  "(nat \<Rightarrow> bool) \<Rightarrow> source_id \<Rightarrow> bytes \<Rightarrow> bytes \<Rightarrow> source_limits \<Rightarrow> (source_file, source_error) res" where
  "source_file_new alloc i name bs limits =
     (if max_name_bytes limits < length name
      then Err (SeLimit LimitNameBytes (length name) (max_name_bytes limits))
      else rbind (map_err SeIdentity (source_identity_new i name
               (default_identity_limits\<lparr>max_source_name_bytes := max_name_bytes limits\<rparr>))) (\<lambda>identity.
      if max_source_bytes limits < length bs
      then Err (SeLimit LimitBytes (length bs) (max_source_bytes limits))
      else rbind (map_err source_line_error (line_index_new alloc bs (max_lines limits))) (\<lambda>ls.
      Ok \<lparr>sf_identity = identity, sf_bytes = bs, sf_lines = ls\<rparr>)))"

definition source_span :: "source_file \<Rightarrow> nat \<Rightarrow> nat \<Rightarrow> (byte_span, span_error) res" where
  "source_span f start stop =
     rbind (span_from_usize (si_id (sf_identity f)) start stop) (\<lambda>s.
     rbind (span_validate_for s (si_id (sf_identity f)) (li_source_len (sf_lines f))) (\<lambda>_. Ok s))"

definition source_slice :: "source_file \<Rightarrow> byte_span \<Rightarrow> (bytes, span_error) res" where
  "source_slice f s =
     rbind (span_validate_for s (si_id (sf_identity f)) (li_source_len (sf_lines f))) (\<lambda>_.
     slice_at (sf_bytes f) (unat (span_start s)) (unat (span_end s)))"

definition source_position :: "source_file \<Rightarrow> nat \<Rightarrow> (line_position, source_error) res" where
  "source_position f offset =
     rbind (map_err SeSpan (offset_from_usize offset)) (\<lambda>o32.
     map_err SeLineIndex (line_position_of (sf_lines f) o32))"

text \<open>The two trimming steps of \<open>line_content_span\<close>: a final LF with its CR, or a final CR.\<close>

definition trim_line_end :: "bytes \<Rightarrow> nat \<Rightarrow> nat \<Rightarrow> (nat, source_error) res" where
  "trim_line_end bs start stop =
     (if stop \<le> start then Ok stop
      else rbind (index_at bs (stop - 1)) (\<lambda>final.
        if final = LF then
          (if stop - 1 \<le> start then Ok (stop - 1)
           else rbind (index_at bs (stop - 2)) (\<lambda>prior.
             Ok (if prior = CR then stop - 2 else stop - 1)))
        else Ok (if final = CR then stop - 1 else stop)))"

definition line_content_span :: "source_file \<Rightarrow> nat \<Rightarrow> (byte_span, source_error) res" where
  "line_content_span f line =
     rbind (map_err SeLineIndex (line_span (sf_lines f) (si_id (sf_identity f)) line)) (\<lambda>full.
     rbind (trim_line_end (sf_bytes f) (unat (span_start full)) (unat (span_end full))) (\<lambda>stop.
     map_err SeSpan (span_from_usize (si_id (sf_identity f)) (unat (span_start full)) stop)))"

section \<open>What the index holds\<close>

definition break_end :: "bytes \<Rightarrow> nat \<Rightarrow> nat" where
  "break_end bs i = (if bs ! i = LF \<and> get bs (i + 1) = Some CR then i + 2 else i + 1)"

definition line_starts :: "bytes \<Rightarrow> nat list" where
  "line_starts bs = 0 # map (break_end bs) (filter (is_line_break bs) [0..<length bs])"

definition line_index_wf :: "line_index \<Rightarrow> bool" where
  "line_index_wf idx \<longleftrightarrow>
     li_starts idx \<noteq> [] \<and> hd (li_starts idx) = 0 \<and> strict_sorted (li_starts idx) \<and>
     (\<forall>s\<in>set (li_starts idx). s \<le> li_source_len idx)"

lemma break_end_le: "i < length bs \<Longrightarrow> break_end bs i \<le> length bs"
  by (auto simp: break_end_def get_def split: if_splits)

lemma next_line_start_eq:
  assumes "i < length bs" and "length bs \<le> u32_max"
  shows "next_line_start bs i = Ok (word_of_nat (break_end bs i))"
proof -
  have "break_end bs i \<le> u32_max" using break_end_le [of i bs] assms by simp
  moreover from this have "break_end bs i \<le> usize_max" by (simp add: u32_max_def usize_max_def)
  ultimately show ?thesis
    by (auto simp: next_line_start_def break_end_def checked_add_def offset_from_usize_def
        split: if_splits)
qed

lemma push_line_starts:
  assumes "k \<le> length bs" and "length bs \<le> u32_max"
  shows "fold_res (push_line_start bs) acc [0..<k] =
    Ok (acc @ map (word_of_nat \<circ> break_end bs) (filter (is_line_break bs) [0..<k]))"
  using assms(1)
proof (induction k)
  case 0
  then show ?case by simp
next
  case (Suc k)
  then show ?case using assms(2) next_line_start_eq [of k bs]
    by (simp add: fold_res_append push_line_start_def)
qed

lemma line_index_new_Ok:
  "line_index_new alloc bs limit = Ok idx \<longleftrightarrow>
     length bs \<le> u32_max \<and> length (line_starts bs) \<le> limit \<and>
     alloc (length (line_starts bs)) \<and>
     idx = \<lparr>li_starts = map word_of_nat (line_starts bs), li_source_len = word_of_nat (length bs)\<rparr>"
proof (cases "length bs \<le> u32_max")
  case True
  have "length (filter (is_line_break bs) [0..<length bs]) \<le> length bs"
    using length_filter_le [of "is_line_break bs" "[0..<length bs]"] by simp
  then have "Suc (length (filter (is_line_break bs) [0..<length bs])) \<le> usize_max"
    using True by (simp add: u32_max_def usize_max_def)
  then show ?thesis using True push_line_starts [OF order_refl True]
    by (auto simp: line_index_new_def offset_from_usize_def checked_add_def line_starts_def
        allocate_line_starts_def ensure_def not_less comp_def split: if_splits)
next
  case False
  then show ?thesis by (simp add: line_index_new_def offset_from_usize_def)
qed

lemma line_index_new_not_Panic: "line_index_new alloc bs limit \<noteq> Panic"
proof (cases "length bs \<le> u32_max")
  case True
  from push_line_starts [OF order_refl this] show ?thesis
    by (auto simp: line_index_new_def res_simps allocate_line_starts_def)
next
  case False
  then show ?thesis by (simp add: line_index_new_def offset_from_usize_def)
qed

lemma break_end_mono:
  assumes "is_line_break bs i" "is_line_break bs j" "i < j" "j < length bs"
  shows "break_end bs i < break_end bs j"
proof (cases "bs ! i = LF \<and> get bs (i + 1) = Some CR")
  case True
  have "j \<noteq> i + 1"
  proof
    assume "j = i + 1"
    with True assms show False
      by (auto simp: is_line_break_def get_def CR_def LF_def split: if_splits)
  qed
  with assms(3) show ?thesis by (auto simp: break_end_def)
next
  case False
  with assms(3) show ?thesis by (auto simp: break_end_def)
qed

lemma line_starts_sorted: "strict_sorted (line_starts bs)"
proof -
  have "sorted_wrt (\<lambda>i j. break_end bs i < break_end bs j) (filter (is_line_break bs) [0..<length bs])"
    by (rule sorted_wrt_mono_rel [OF _ sorted_wrt_filter [OF sorted_wrt_upt]])
      (auto intro: break_end_mono)
  then show ?thesis by (auto simp: line_starts_def sorted_wrt_map break_end_def)
qed

lemma line_starts_le: "s \<in> set (line_starts bs) \<Longrightarrow> s \<le> length bs"
  by (auto simp: line_starts_def intro: break_end_le)


lemma line_starts_u32:
  assumes "length bs \<le> u32_max"
  shows "map unat (map word_of_nat (line_starts bs) :: 32 word list) = line_starts bs"
proof -
  have "s \<le> u32_max" if "s \<in> set (line_starts bs)" for s
    using line_starts_le [OF that] assms by simp
  then show ?thesis by (simp add: comp_def cong: map_cong)
qed

lemma line_index_new_wf:
  assumes "line_index_new alloc bs limit = Ok idx"
  shows "line_index_wf idx"
proof -
  from assms have n: "length bs \<le> u32_max"
    and idx: "idx = \<lparr>li_starts = map word_of_nat (line_starts bs), li_source_len = word_of_nat (length bs)\<rparr>"
    by (auto simp: line_index_new_Ok)
  have "sorted_wrt (\<lambda>i j. (word_of_nat i :: 32 word) < word_of_nat j) (line_starts bs)"
  proof (rule sorted_wrt_mono_rel [OF _ line_starts_sorted])
    fix x y
    assume "x \<in> set (line_starts bs)" "y \<in> set (line_starts bs)" "x < y"
    moreover from this have "x \<le> u32_max" "y \<le> u32_max" using line_starts_le n by fastforce+
    ultimately show "(word_of_nat x :: 32 word) < word_of_nat y" by (simp add: word_less_nat_alt)
  qed
  moreover have "(word_of_nat s :: 32 word) \<le> word_of_nat (length bs)" if "s \<in> set (line_starts bs)" for s
    using line_starts_le [OF that] n by (simp add: u32_of_nat_le)
  ultimately show ?thesis
    by (auto simp: idx line_index_wf_def sorted_wrt_map) (auto simp: line_starts_def)
qed

section \<open>Positions\<close>

lemma strict_sorted_u32_ge:
  "strict_sorted (ws :: 32 word list) \<Longrightarrow> k < length ws \<Longrightarrow> k \<le> unat (ws ! k)"
proof (induction k)
  case 0
  then show ?case by simp
next
  case (Suc k)
  then have "ws ! k < ws ! Suc k" by (auto simp: sorted_wrt_iff_nth_less)
  with Suc show ?case by (simp add: word_less_nat_alt)
qed

lemma line_position_of_correct:
  assumes wf: "line_index_wf idx" and le: "offset \<le> li_source_len idx"
  shows "\<exists>p. line_position_of idx offset = Ok p \<and>
    unat (lp_line p) < line_count idx \<and>
    unat (li_starts idx ! unat (lp_line p)) + unat (lp_byte_column p) = unat offset \<and>
    (\<forall>s. get (li_starts idx) (unat (lp_line p) + 1) = Some s \<longrightarrow> offset < s)"
proof -
  let ?ss = "li_starts idx" and ?p = "\<lambda>s. s \<le> offset"
  let ?pp = "partition_point ?p ?ss"
  have sorted: "strict_sorted ?ss" and ne: "?ss \<noteq> []" and z: "hd ?ss = 0"
    using wf by (auto simp: line_index_wf_def)
  note pp = partition_point_props [of ?ss ?p]
  have part: "\<forall>i j. i < j \<and> j < length ?ss \<and> ?ss ! j \<le> offset \<longrightarrow> ?ss ! i \<le> offset"
    using sorted_wrt_nth_less [OF sorted] by fastforce
  have "0 < ?pp"
  proof (rule ccontr)
    assume "\<not> 0 < ?pp"
    then have "\<not> ?ss ! 0 \<le> offset" using pp(3) [OF part, where j = 0] ne by auto
    then show False using z ne by (simp add: hd_conv_nth)
  qed
  then obtain line where line: "?pp = Suc line" using gr0_implies_Suc by blast
  have lt: "line < length ?ss" using pp(1) [OF part] line by simp
  have start: "?ss ! line \<le> offset" using pp(2) [OF part, where j = line] line by simp
  have "line \<le> u32_max" using strict_sorted_u32_ge [OF sorted lt] unat_u32_le order_trans by blast
  moreover have "offset < s" if "get ?ss (line + 1) = Some s" for s
    using pp(3) [OF part, where j = "line + 1"] that line by (auto simp: res_simps)
  moreover have "\<not> li_source_len idx < offset" using le by simp
  moreover have "unat (?ss ! line) + unat (offset - ?ss ! line) = unat offset"
    using start by (simp add: unat_sub word_le_nat_alt)
  ultimately show ?thesis using lt line
    by (simp add: line_position_of_def checked_sub_def index_at_def line_count_def)
qed

text \<open>
  C22: in the index of any accepted source every offset up to the end has a position, whose
  line starts at or before it and whose next line, if any, starts after it; line start plus
  column is the offset. Beyond the end the offset is refused, and nothing panics.
\<close>

theorem source_position_roundtrip:
  assumes "source_file_new alloc i name bs limits = Ok f"
  shows "if offset \<le> length bs
    then \<exists>p. source_position f offset = Ok p \<and> unat (lp_line p) < line_count (sf_lines f) \<and>
      unat (li_starts (sf_lines f) ! unat (lp_line p)) + unat (lp_byte_column p) = offset \<and>
      (unat (lp_line p) + 1 < line_count (sf_lines f) \<longrightarrow>
        offset < unat (li_starts (sf_lines f) ! (unat (lp_line p) + 1)))
    else \<exists>e. source_position f offset = Err e"
proof -
  from assms have new: "line_index_new alloc bs (max_lines limits) = Ok (sf_lines f)"
    by (auto simp: source_file_new_def res_simps split: if_splits)
  then have wf: "line_index_wf (sf_lines f)" by (rule line_index_new_wf)
  from new have n: "length bs \<le> u32_max" and len: "li_source_len (sf_lines f) = word_of_nat (length bs)"
    by (auto simp: line_index_new_Ok)
  show ?thesis
  proof (cases "offset \<le> length bs")
    case True
    with n have "word_of_nat offset \<le> li_source_len (sf_lines f)" by (simp add: len u32_of_nat_le)
    from line_position_of_correct [OF wf this] True n show ?thesis
      by (auto simp: source_position_def offset_from_usize_def get_def line_count_def word_less_nat_alt)
  next
    case False
    then have "li_source_len (sf_lines f) < word_of_nat offset" if "offset \<le> u32_max"
      using that n by (simp add: len word_less_nat_alt)
    with False show ?thesis
      by (auto simp: source_position_def offset_from_usize_def line_position_of_def)
  qed
qed

theorem source_position_roundtrip_witness:
  "\<exists>f. source_file_new (\<lambda>_. True) 7 [0x61] [0x61, 0x0A, 0x62] default_source_limits = Ok f \<and>
    (\<exists>p. source_position f 2 = Ok p \<and>
      unat (li_starts (sf_lines f) ! unat (lp_line p)) + unat (lp_byte_column p) = 2)"
proof -
  have "upt 0 3 = [0, 1, 2 :: nat]" by (simp add: upt_rec)
  then have new: "\<exists>f. source_file_new (\<lambda>_. True) 7 [0x61] [0x61, 0x0A, 0x62] default_source_limits = Ok f"
    by (simp add: source_file_new_def source_identity_new_def validate_text_def line_index_new_Ok
        default_source_limits_def default_identity_limits_def line_starts_def is_line_break_def
        get_def CR_def LF_def u32_max_def map_err_eq_Ok rbind_eq_Ok)
  then show ?thesis using source_position_roundtrip [where offset = 2 and bs = "[0x61, 0x0A, 0x62]"]
    by fastforce
qed

end
