(* ===== verification/Core_Lines.thy ===== *)
theory Core_Lines
  imports Core_Source
begin

text \<open>
  What the line index of \<open>blu-core/src/source.rs\<close> means. Its lines tile the source, and it
  agrees with the rule its documentation states (LF, CRLF and lone CR each end a line) on
  sources in which no LF is directly followed by a CR. Where one is, the two differ: the
  code takes the CR as part of the LF's terminator.
\<close>

section \<open>Lines tile the source\<close>

fun cuts :: "'a list \<Rightarrow> nat list \<Rightarrow> 'a list list" where
  "cuts xs [] = []"
| "cuts xs [c] = [drop c xs]"
| "cuts xs (c # d # cs) = take (d - c) (drop c xs) # cuts xs (d # cs)"

lemma cuts_length [simp]: "length (cuts xs cs) = length cs"
  by (induction xs cs rule: cuts.induct) auto

lemma cuts_concat:
  "cs \<noteq> [] \<Longrightarrow> sorted cs \<Longrightarrow> concat (cuts xs cs) = drop (hd cs) xs"
proof (induction xs cs rule: cuts.induct)
  case (3 xs c d cs)
  have "take (d - c) (drop c xs) @ drop d xs = drop c xs"
    using append_take_drop_id [of "d - c" "drop c xs"] 3 by simp
  with 3 show ?case by simp
qed auto

lemma cuts_nth:
  assumes "k < length cs" and "\<forall>c\<in>set cs. c \<le> length xs"
  shows "cuts xs cs ! k =
    (let stop = (if k + 1 < length cs then cs ! (k + 1) else length xs)
     in take (stop - cs ! k) (drop (cs ! k) xs))"
  using assms
proof (induction xs cs arbitrary: k rule: cuts.induct)
  case (3 xs c d cs)
  then show ?case by (cases k) auto
qed auto

lemma source_file_new_lines:
  assumes "source_file_new alloc i name bs limits = Ok f"
  shows "sf_bytes f = bs" "si_id (sf_identity f) = i" "length bs \<le> u32_max"
    "li_starts (sf_lines f) = map word_of_nat (line_starts bs)"
    "li_source_len (sf_lines f) = word_of_nat (length bs)"
  using assms
  by (auto simp: source_file_new_def source_identity_new_def line_index_new_Ok res_simps split: if_splits)

lemma line_span_slice:
  assumes f: "source_file_new alloc i name bs limits = Ok f"
    and k: "k < line_count (sf_lines f)"
  shows "\<exists>s. line_span (sf_lines f) i k = Ok s \<and> unat (span_start s) = line_starts bs ! k \<and>
    unat (span_end s) = (if k + 1 < length (line_starts bs) then line_starts bs ! (k + 1) else length bs) \<and>
    source_slice f s = Ok (cuts bs (line_starts bs) ! k)"
proof -
  note fs = source_file_new_lines [OF f]
  let ?cs = "line_starts bs"
  define stop where "stop = (if k + 1 < length ?cs then ?cs ! (k + 1) else length bs)"
  have kl: "k < length ?cs" using k by (simp add: line_count_def fs)
  have le: "c \<le> length bs" if "c \<in> set ?cs" for c using line_starts_le that by blast
  have "stop \<le> length bs" using le by (simp add: stop_def)
  have "?cs ! k \<le> stop"
    using sorted_wrt_nth_less [OF line_starts_sorted [of bs], of k "k + 1"] kl le by (auto simp: stop_def)
  have small: "?cs ! k \<le> u32_max" "stop \<le> u32_max"
    using \<open>stop \<le> length bs\<close> \<open>?cs ! k \<le> stop\<close> fs(3) by simp_all
  define s where "s = ByteSpan i (word_of_nat (?cs ! k)) (word_of_nat stop)"
  have u: "unat (span_start s) = ?cs ! k" "unat (span_end s) = stop"
    using small by (simp_all add: s_def)
  have "(word_of_nat (?cs ! k) :: 32 word) \<le> word_of_nat stop"
    using \<open>?cs ! k \<le> stop\<close> small(2) by (rule u32_of_nat_le)
  then have "line_span (sf_lines f) i k = Ok s"
    using kl by (cases "k + 1 < length ?cs")
      (auto simp: line_span_def line_start_def get_def fs s_def stop_def span_new_def Let_def not_less)
  moreover have "span_source s = i" "span_end s \<le> li_source_len (sf_lines f)"
    using u32_of_nat_le [OF \<open>stop \<le> length bs\<close> fs(3)] by (simp_all add: s_def fs)
  then have "source_slice f s = Ok (take (stop - ?cs ! k) (drop (?cs ! k) bs))"
    using \<open>stop \<le> length bs\<close> \<open>?cs ! k \<le> stop\<close>
    by (simp add: source_slice_def span_validate_for_def fs slice_at_def u)
  then have "source_slice f s = Ok (cuts bs ?cs ! k)"
    using cuts_nth [OF kl, of bs] le by (simp add: stop_def)
  ultimately show ?thesis using u stop_def by auto
qed

text \<open>
  C21: the lines of an accepted source tile it: every line has a span, every span has a slice,
  and the slices joined in order are the source, byte for byte.
\<close>

theorem line_spans_tile_source:
  assumes "source_file_new alloc i name bs limits = Ok f"
  shows "\<exists>ss. length ss = line_count (sf_lines f) \<and> concat ss = bs \<and>
    (\<forall>k<length ss. \<exists>s. line_span (sf_lines f) i k = Ok s \<and> source_slice f s = Ok (ss ! k))"
proof -
  let ?ss = "cuts bs (line_starts bs)"
  have "line_starts bs \<noteq> []" "hd (line_starts bs) = 0" by (simp_all add: line_starts_def)
  moreover have "sorted (line_starts bs)" using line_starts_sorted by (simp add: strict_sorted_iff)
  ultimately have "concat ?ss = bs" using cuts_concat [of "line_starts bs" bs] by simp
  moreover have "length ?ss = line_count (sf_lines f)"
    by (simp add: line_count_def source_file_new_lines [OF assms])
  ultimately show ?thesis using line_span_slice [OF assms] by (intro exI [of _ ?ss]) auto
qed

theorem line_spans_tile_source_witness:
  "\<exists>f ss. source_file_new (\<lambda>_. True) 7 [0x61] [0x61, 0x0A, 0x62] default_source_limits = Ok f \<and>
    concat ss = ([0x61, 0x0A, 0x62] :: bytes)"
proof -
  have "upt 0 3 = [0, 1, 2 :: nat]" by (simp add: upt_rec)
  then have "\<exists>f. source_file_new (\<lambda>_. True) 7 [0x61] [0x61, 0x0A, 0x62] default_source_limits = Ok f"
    by (simp add: source_file_new_def source_identity_new_def validate_text_def line_index_new_Ok
        default_source_limits_def default_identity_limits_def line_starts_def is_line_break_def
        get_def CR_def LF_def u32_max_def map_err_eq_Ok rbind_eq_Ok)
  then obtain f where f: "source_file_new (\<lambda>_. True) 7 [0x61] [0x61, 0x0A, 0x62] default_source_limits = Ok f"
    by blast
  with line_spans_tile_source [OF f] show ?thesis by blast
qed

section \<open>The documented line rule\<close>

text \<open>Where a new line starts when LF, CRLF and lone CR are the terminators.\<close>

fun doc_line_starts :: "nat \<Rightarrow> bytes \<Rightarrow> nat list" where
  "doc_line_starts i [] = []"
| "doc_line_starts i [b] = (if b = LF \<or> b = CR then [i + 1] else [])"
| "doc_line_starts i (b # c # bs) =
     (if b = CR \<and> c = LF then (i + 2) # doc_line_starts (i + 2) bs
      else if b = LF \<or> b = CR then (i + 1) # doc_line_starts (i + 1) (c # bs)
      else doc_line_starts (i + 1) (c # bs))"

fun no_lf_cr :: "bytes \<Rightarrow> bool" where
  "no_lf_cr (b # c # bs) = (\<not> (b = LF \<and> c = CR) \<and> no_lf_cr (c # bs))"
| "no_lf_cr bs = True"

definition plain_break :: "bytes \<Rightarrow> nat \<Rightarrow> bool" where
  "plain_break bs i \<longleftrightarrow> bs ! i = LF \<or> (bs ! i = CR \<and> get bs (i + 1) \<noteq> Some LF)"

lemma CR_LF_neq [simp]: "CR \<noteq> LF" "LF \<noteq> CR"
  by (simp_all add: CR_def LF_def)

lemma no_lf_cr_nth: "no_lf_cr bs \<Longrightarrow> i + 1 < length bs \<Longrightarrow> bs ! i = LF \<Longrightarrow> bs ! (i + 1) \<noteq> CR"
proof (induction bs arbitrary: i rule: no_lf_cr.induct)
  case (1 b c bs)
  then show ?case by (cases i) auto
qed auto

lemma no_lf_cr_break:
  assumes "no_lf_cr bs" and "i < length bs"
  shows "is_line_break bs i = plain_break bs i" "break_end bs i = Suc i"
proof -
  have "bs ! (i - 1) \<noteq> LF \<or> bs ! i \<noteq> CR" if "i \<noteq> 0"
    using no_lf_cr_nth [OF assms(1), of "i - 1"] assms(2) that by auto
  then show "is_line_break bs i = plain_break bs i"
    using assms(2) by (auto simp: is_line_break_def plain_break_def get_def)
  show "break_end bs i = Suc i"
    using no_lf_cr_nth [OF assms(1), of i] by (auto simp: break_end_def get_def split: if_splits)
qed

lemma doc_line_starts_filter:
  assumes "drop i bs = cs" and "i \<le> length bs"
  shows "doc_line_starts i cs = map Suc (filter (plain_break bs) [i..<length bs])"
  using assms
proof (induction i cs rule: doc_line_starts.induct)
  case (1 i)
  then show ?case by simp
next
  case (2 i b)
  then have "i + 1 = length bs" "bs ! i = b"
    by (auto dest: arg_cong [where f = length] simp: nth_via_drop)
  then show ?case by (auto simp: upt_rec plain_break_def get_def)
next
  case (3 i b c ds)
  have len: "i + 1 < length bs" and b: "bs ! i = b" using 3(4)
    by (auto dest: arg_cong [where f = length] simp: nth_via_drop)
  have tl: "drop (Suc i) bs = c # ds" using 3(4) by (metis drop_Suc list.sel(3) tl_drop)
  then have c: "bs ! Suc i = c" and tl2: "drop (i + 2) bs = ds"
    by (auto simp: nth_via_drop) (metis drop_Suc list.sel(3) tl_drop)
  have upt: "[i..<length bs] = i # Suc i # [i + 2..<length bs]" "[i..<length bs] = i # [Suc i..<length bs]"
    using len by (simp_all add: upt_conv_Cons)
  have pb: "plain_break bs i \<longleftrightarrow> b = LF \<or> b = CR \<and> c \<noteq> LF" "plain_break bs (Suc i) \<longleftrightarrow> c = LF" if "b = CR \<and> c = LF"
    using len b c that by (auto simp: plain_break_def get_def)
  have pb': "plain_break bs i \<longleftrightarrow> b = LF \<or> b = CR" if "\<not> (b = CR \<and> c = LF)"
    using len b c that by (auto simp: plain_break_def get_def)
  consider "b = CR \<and> c = LF" | "\<not> (b = CR \<and> c = LF)" by blast
  then show ?case
  proof cases
    case 1
    with "3.IH"(1) tl2 len upt(1) pb [OF 1] show ?thesis by simp
  next
    case 2
    then have "doc_line_starts (i + 1) (c # ds) = map Suc (filter (plain_break bs) [i + 1..<length bs])"
      using "3.IH"(2,3) tl len by (cases "b = LF \<or> b = CR") auto
    with 2 upt(2) pb' [OF 2] show ?thesis by auto
  qed
qed

text \<open>
  On a source without an LF directly followed by a CR, the index built by
  \<open>LineIndex::new\<close> starts its lines exactly where the documented rule does.
\<close>

theorem line_index_documented:
  assumes "line_index_new alloc bs limit = Ok idx" and "no_lf_cr bs"
  shows "map unat (li_starts idx) = 0 # doc_line_starts 0 bs"
proof -
  have "map (break_end bs) (filter (is_line_break bs) [0..<length bs]) =
      map Suc (filter (plain_break bs) [0..<length bs])"
    using no_lf_cr_break [OF assms(2)] by (intro map_cong filter_cong) auto
  then have "line_starts bs = 0 # doc_line_starts 0 bs"
    by (simp add: line_starts_def doc_line_starts_filter [of 0 bs bs])
  then show ?thesis using assms(1) line_starts_u32 [of bs] by (auto simp: line_index_new_Ok)
qed

theorem line_index_documented_witness:
  "\<exists>idx. line_index_new (\<lambda>_. True) [0x61, 0x0D, 0x0A, 0x62] 9 = Ok idx \<and>
    map unat (li_starts idx) = [0, 3]"
proof -
  have "upt 0 4 = [0, 1, 2, 3 :: nat]" by (simp add: upt_rec)
  then have "\<exists>idx. line_index_new (\<lambda>_. True) [0x61, 0x0D, 0x0A, 0x62] 9 = Ok idx"
    by (simp add: line_index_new_Ok line_starts_def is_line_break_def get_def CR_def LF_def u32_max_def)
  moreover have "no_lf_cr [0x61, 0x0D, 0x0A, 0x62]"
    by (simp add: CR_def LF_def)
  ultimately show ?thesis using line_index_documented by (fastforce simp: CR_def LF_def)
qed

text \<open>
  In a CRLF source with an empty line the index differs from the documented rule: the
  line after the empty line's predecessor starts one byte late, in the middle of the empty
  line's own CRLF.
\<close>

theorem line_index_crlf_blank_line_late:
  "\<exists>idx. line_index_new (\<lambda>_. True) [0x61, 0x0D, 0x0A, 0x0D, 0x0A, 0x62] 9 = Ok idx \<and>
    map unat (li_starts idx) = [0, 4, 5] \<and>
    0 # doc_line_starts 0 [0x61, 0x0D, 0x0A, 0x0D, 0x0A, 0x62] = [0, 3, 5]"
proof -
  have "upt 0 6 = [0, 1, 2, 3, 4, 5 :: nat]" by (simp add: upt_rec)
  then show ?thesis
    by (simp add: line_index_new_Ok line_starts_def is_line_break_def break_end_def get_def
        CR_def LF_def u32_max_def)
qed

end
