(* ===== verification/Core_Diagnostic.thy ===== *)
theory Core_Diagnostic
  imports Core_Span
begin

text \<open>
  \<open>blu-core/src/diagnostic.rs\<close>: diagnostic codes, labels and the bounded diagnostic builder.
  The builder's collections are sets kept as strictly sorted vectors by binary search; the
  lemmas show that every call keeps them sorted and within the limits, and that the order in
  which the calls are made does not show in the result. \<open>alloc n\<close> is the allocator's answer
  to a fallible reservation (for \<open>reserve_one\<close>: spare capacity, or a granted growth).
\<close>

section \<open>Diagnostic codes\<close>

datatype diagnostic_code = DiagnosticCode (code_as_str: bytes)

datatype diagnostic_code_error =
    DcEmpty
  | DcTooLong nat nat
  | DcInvalidStart byte
  | DcInvalidByte nat byte
  | DcAllocationFailed nat

definition max_diagnostic_code_bytes :: nat where "max_diagnostic_code_bytes = 64"

definition code_byte :: "byte \<Rightarrow> bool" where
  "code_byte b \<longleftrightarrow> is_ascii_uppercase b \<or> is_ascii_digit b \<or> b = 0x2D"

fun find_byte :: "(byte \<Rightarrow> bool) \<Rightarrow> nat \<Rightarrow> bytes \<Rightarrow> (nat \<times> byte) option" where
  "find_byte p i [] = None"
| "find_byte p i (b # bs) = (if p b then Some (i, b) else find_byte p (i + 1) bs)"

definition diagnostic_code_new ::
  "(nat \<Rightarrow> bool) \<Rightarrow> bytes \<Rightarrow> (diagnostic_code, diagnostic_code_error) res" where
  "diagnostic_code_new alloc value =
     (if value = [] then Err DcEmpty
      else if max_diagnostic_code_bytes < length value
      then Err (DcTooLong (length value) max_diagnostic_code_bytes)
      else rbind (index_at value 0) (\<lambda>first.
      if \<not> is_ascii_uppercase first then Err (DcInvalidStart first)
      else case find_byte (\<lambda>b. \<not> code_byte b) 0 value of
             Some (index, b) \<Rightarrow> Err (DcInvalidByte index b)
           | None \<Rightarrow>
               rbind (ensure (alloc (length value)) (DcAllocationFailed (length value))) (\<lambda>_.
               Ok (DiagnosticCode value))))"

lemma find_byte_None: "find_byte p i bs = None \<longleftrightarrow> (\<forall>b\<in>set bs. \<not> p b)"
  by (induction bs arbitrary: i) auto

lemma diagnostic_code_new_not_Panic [res_simps]: "diagnostic_code_new alloc v = Panic \<longleftrightarrow> False"
  by (auto simp: diagnostic_code_new_def res_simps split: option.splits)

section \<open>Limits and labels\<close>

datatype phase =
  PhSource | PhLex | PhParse | PhResolve | PhTypeCheck | PhLower | PhCodegen | PhValidate | PhLoad | PhRuntime

datatype severity = SevError | SevWarning | SevNote | SevHelp

record diagnostic_limits =
  max_label_message_bytes :: nat
  max_secondary_labels :: nat
  max_expected_items :: nat
  max_expected_item_bytes :: nat
  max_found_bytes :: nat
  max_notes :: nat
  max_note_bytes :: nat
  max_help_items :: nat
  max_help_item_bytes :: nat

definition default_diagnostic_limits :: diagnostic_limits where
  "default_diagnostic_limits =
     \<lparr>max_label_message_bytes = 1024, max_secondary_labels = 32, max_expected_items = 32,
      max_expected_item_bytes = 256, max_found_bytes = 32, max_notes = 32, max_note_bytes = 1024,
      max_help_items = 32, max_help_item_bytes = 1024\<rparr>"

datatype diagnostic_limit =
  DlLabelMessageBytes | DlSecondaryLabels | DlExpectedItems | DlExpectedItemBytes | DlFoundBytes
| DlNotes | DlNoteBytes | DlHelpItems | DlHelpItemBytes

datatype diagnostic_error =
    DeCode diagnostic_code_error
  | DeLimit diagnostic_limit nat nat
  | DeSizeOverflow string
  | DeAllocationFailed string nat

definition check_limit :: "diagnostic_limit \<Rightarrow> nat \<Rightarrow> nat \<Rightarrow> (unit, diagnostic_error) res" where
  "check_limit kind required limit =
     (if limit < required then Err (DeLimit kind required limit) else Ok ())"

definition copy_string :: "(nat \<Rightarrow> bool) \<Rightarrow> bytes \<Rightarrow> string \<Rightarrow> (bytes, diagnostic_error) res" where
  "copy_string alloc value what =
     rbind (ensure (alloc (length value)) (DeAllocationFailed what (length value))) (\<lambda>_. Ok value)"

definition copy_string_parts ::
  "(nat \<Rightarrow> bool) \<Rightarrow> bytes list \<Rightarrow> diagnostic_limit \<Rightarrow> nat \<Rightarrow> string \<Rightarrow> (bytes, diagnostic_error) res" where
  "copy_string_parts alloc parts kind limit what =
     rbind (fold_res (\<lambda>total part. ok_or (checked_add total (length part)) (DeSizeOverflow what)) 0 parts)
       (\<lambda>required.
     rbind (check_limit kind required limit) (\<lambda>_.
     rbind (ensure (alloc required) (DeAllocationFailed what required)) (\<lambda>_.
     Ok (concat parts))))"

definition reserve_one :: "(nat \<Rightarrow> bool) \<Rightarrow> 'a list \<Rightarrow> string \<Rightarrow> (unit, diagnostic_error) res" where
  "reserve_one alloc values what =
     (let requested = saturating_add (length values) 1
      in ensure (alloc requested) (DeAllocationFailed what requested))"

definition try_insert_string ::
  "(nat \<Rightarrow> bool) \<Rightarrow> bytes list \<Rightarrow> bytes \<Rightarrow> diagnostic_limit \<Rightarrow> nat \<Rightarrow> diagnostic_limit \<Rightarrow> nat \<Rightarrow>
     string \<Rightarrow> string \<Rightarrow> (bytes list, diagnostic_error) res" where
  "try_insert_string alloc values v count_kind count_limit byte_kind byte_limit values_what value_what =
     (case binary_search_by (\<lambda>candidate. cmp_of candidate v) values of
        Err index \<Rightarrow>
          rbind (check_limit byte_kind (length v) byte_limit) (\<lambda>_.
          rbind (check_limit count_kind (saturating_add (length values) 1) count_limit) (\<lambda>_.
          rbind (reserve_one alloc values values_what) (\<lambda>_.
          rbind (copy_string alloc v value_what) (\<lambda>owned.
          Ok (insert_at index owned values)))))
      | _ \<Rightarrow> Ok values)"

definition try_insert_owned ::
  "(nat \<Rightarrow> bool) \<Rightarrow> 'a::linorder list \<Rightarrow> 'a \<Rightarrow> diagnostic_limit \<Rightarrow> nat \<Rightarrow> string \<Rightarrow>
     ('a list, diagnostic_error) res" where
  "try_insert_owned alloc values v count_kind count_limit what =
     (case binary_search v values of
        Err index \<Rightarrow>
          rbind (check_limit count_kind (saturating_add (length values) 1) count_limit) (\<lambda>_.
          rbind (reserve_one alloc values what) (\<lambda>_.
          Ok (insert_at index v values)))
      | _ \<Rightarrow> Ok values)"

datatype label = Label (label_span: byte_span) (label_message: bytes)

instantiation label :: linorder
begin
definition less_eq_label :: "label \<Rightarrow> label \<Rightarrow> bool" where
  "less_eq_label a b \<longleftrightarrow> (label_span a, label_message a) \<le> (label_span b, label_message b)"
definition less_label :: "label \<Rightarrow> label \<Rightarrow> bool" where
  "less_label a b \<longleftrightarrow> (label_span a, label_message a) < (label_span b, label_message b)"
instance
  by standard (auto simp: less_eq_label_def less_label_def label.expand intro: label.expand)
end

definition label_try_new ::
  "(nat \<Rightarrow> bool) \<Rightarrow> byte_span \<Rightarrow> bytes \<Rightarrow> diagnostic_limits \<Rightarrow> (label, diagnostic_error) res" where
  "label_try_new alloc s message limits =
     rbind (check_limit DlLabelMessageBytes (length message) (max_label_message_bytes limits)) (\<lambda>_.
     rbind (copy_string alloc message ''diagnostic label message bytes'') (\<lambda>owned.
     Ok (Label s owned)))"

section \<open>The diagnostic builder\<close>

record diagnostic =
  dg_code :: diagnostic_code
  dg_phase :: phase
  dg_profile :: semantic_profile
  dg_severity :: severity
  dg_primary :: label
  dg_secondary :: "label list"
  dg_expected :: "bytes list"
  dg_found :: "bytes option"
  dg_notes :: "bytes list"
  dg_help :: "bytes list"
  dg_limits :: diagnostic_limits

definition diagnostic_try_new ::
  "(nat \<Rightarrow> bool) \<Rightarrow> bytes \<Rightarrow> phase \<Rightarrow> semantic_profile \<Rightarrow> severity \<Rightarrow> byte_span \<Rightarrow> bytes \<Rightarrow>
     diagnostic_limits \<Rightarrow> (diagnostic, diagnostic_error) res" where
  "diagnostic_try_new alloc c ph prof sev primary_span primary_message limits =
     rbind (map_err DeCode (diagnostic_code_new alloc c)) (\<lambda>code.
     rbind (label_try_new alloc primary_span primary_message limits) (\<lambda>primary.
     Ok \<lparr>dg_code = code, dg_phase = ph, dg_profile = prof, dg_severity = sev, dg_primary = primary,
         dg_secondary = [], dg_expected = [], dg_found = None, dg_notes = [], dg_help = [],
         dg_limits = limits\<rparr>))"

definition try_with_secondary ::
  "(nat \<Rightarrow> bool) \<Rightarrow> diagnostic \<Rightarrow> byte_span \<Rightarrow> bytes \<Rightarrow> (diagnostic, diagnostic_error) res" where
  "try_with_secondary alloc d s message =
     rbind (label_try_new alloc s message (dg_limits d)) (\<lambda>label.
     map_ok (\<lambda>xs. d\<lparr>dg_secondary := xs\<rparr>)
       (try_insert_owned alloc (dg_secondary d) label DlSecondaryLabels
          (max_secondary_labels (dg_limits d)) ''diagnostic secondary labels''))"

definition try_with_expected ::
  "(nat \<Rightarrow> bool) \<Rightarrow> diagnostic \<Rightarrow> bytes \<Rightarrow> (diagnostic, diagnostic_error) res" where
  "try_with_expected alloc d expected =
     map_ok (\<lambda>xs. d\<lparr>dg_expected := xs\<rparr>)
       (try_insert_string alloc (dg_expected d) expected DlExpectedItems
          (max_expected_items (dg_limits d)) DlExpectedItemBytes
          (max_expected_item_bytes (dg_limits d))
          ''diagnostic expected items'' ''diagnostic expected-item bytes'')"

definition try_with_found ::
  "(nat \<Rightarrow> bool) \<Rightarrow> diagnostic \<Rightarrow> bytes \<Rightarrow> (diagnostic, diagnostic_error) res" where
  "try_with_found alloc d found =
     rbind (check_limit DlFoundBytes (length found) (max_found_bytes (dg_limits d))) (\<lambda>_.
     rbind (ensure (alloc (length found)) (DeAllocationFailed ''diagnostic found bytes'' (length found))) (\<lambda>_.
     Ok (d\<lparr>dg_found := Some found\<rparr>)))"

definition try_with_note_parts ::
  "(nat \<Rightarrow> bool) \<Rightarrow> diagnostic \<Rightarrow> bytes list \<Rightarrow> (diagnostic, diagnostic_error) res" where
  "try_with_note_parts alloc d parts =
     rbind (copy_string_parts alloc parts DlNoteBytes (max_note_bytes (dg_limits d))
              ''diagnostic note bytes'') (\<lambda>note.
     map_ok (\<lambda>xs. d\<lparr>dg_notes := xs\<rparr>)
       (try_insert_owned alloc (dg_notes d) note DlNotes (max_notes (dg_limits d)) ''diagnostic notes''))"

definition try_with_note ::
  "(nat \<Rightarrow> bool) \<Rightarrow> diagnostic \<Rightarrow> bytes \<Rightarrow> (diagnostic, diagnostic_error) res" where
  "try_with_note alloc d note = try_with_note_parts alloc d [note]"

definition try_with_help ::
  "(nat \<Rightarrow> bool) \<Rightarrow> diagnostic \<Rightarrow> bytes \<Rightarrow> (diagnostic, diagnostic_error) res" where
  "try_with_help alloc d h =
     map_ok (\<lambda>xs. d\<lparr>dg_help := xs\<rparr>)
       (try_insert_string alloc (dg_help d) h DlHelpItems (max_help_items (dg_limits d))
          DlHelpItemBytes (max_help_item_bytes (dg_limits d))
          ''diagnostic help items'' ''diagnostic help-item bytes'')"

text \<open>One call of the builder, and a chain of calls with \<open>?\<close> between them.\<close>

datatype diag_call =
    WithSecondary byte_span bytes
  | WithExpected bytes
  | WithFound bytes
  | WithNoteParts "bytes list"
  | WithHelp bytes

fun diag_step :: "(nat \<Rightarrow> bool) \<Rightarrow> diagnostic \<Rightarrow> diag_call \<Rightarrow> (diagnostic, diagnostic_error) res" where
  "diag_step alloc d (WithSecondary s m) = try_with_secondary alloc d s m"
| "diag_step alloc d (WithExpected e) = try_with_expected alloc d e"
| "diag_step alloc d (WithFound f) = try_with_found alloc d f"
| "diag_step alloc d (WithNoteParts ps) = try_with_note_parts alloc d ps"
| "diag_step alloc d (WithHelp h) = try_with_help alloc d h"

section \<open>What a call adds\<close>

lemma check_limit_Ok [res_simps]: "check_limit k r l = Ok u \<longleftrightarrow> r \<le> l"
  by (simp add: check_limit_def)

lemma check_limit_not_Panic [res_simps]: "check_limit k r l = Panic \<longleftrightarrow> False"
  by (simp add: check_limit_def)

lemma reserve_one_not_Panic [res_simps]: "reserve_one alloc xs w = Panic \<longleftrightarrow> False"
  by (simp add: reserve_one_def res_simps Let_def)

lemma copy_string_Ok [res_simps]: "copy_string alloc v w = Ok x \<longleftrightarrow> alloc (length v) \<and> x = v"
  by (auto simp: copy_string_def res_simps)

lemma copy_string_not_Panic [res_simps]: "copy_string alloc v w = Panic \<longleftrightarrow> False"
  by (simp add: copy_string_def res_simps)

lemma label_try_new_Ok [res_simps]:
  "label_try_new alloc s m l = Ok x \<longleftrightarrow>
     length m \<le> max_label_message_bytes l \<and> alloc (length m) \<and> x = Label s m"
  by (auto simp: label_try_new_def res_simps)

lemma label_try_new_not_Panic [res_simps]: "label_try_new alloc s m l = Panic \<longleftrightarrow> False"
  by (simp add: label_try_new_def res_simps)

lemma parts_total:
  "fold_res (\<lambda>total part. ok_or (checked_add total (length part)) e) n parts = Ok t \<Longrightarrow>
     t = n + length (concat parts)"
proof (induction parts arbitrary: n)
  case Nil
  then show ?case by simp
next
  case (Cons p parts)
  then have "t = (n + length p) + length (concat parts)"
    by (auto simp: res_simps usize_simps simp del: length_concat)
  then show ?case by (simp del: length_concat)
qed

lemma parts_not_Panic:
  "fold_res (\<lambda>total part. ok_or (checked_add total (length part)) e) n parts \<noteq> Panic"
  by (rule fold_res_not_Panic [where I = "\<lambda>_. True"]) (simp_all add: res_simps)

lemma copy_string_parts_Ok:
  "copy_string_parts alloc parts k l w = Ok x \<Longrightarrow> x = concat parts \<and> length x \<le> l"
  by (auto simp: copy_string_parts_def res_simps simp del: length_concat dest!: parts_total)

lemma copy_string_parts_not_Panic [res_simps]: "copy_string_parts alloc ps k l w = Panic \<longleftrightarrow> False"
  by (simp add: copy_string_parts_def res_simps parts_not_Panic)

text \<open>A collection of the builder: strictly sorted and within its limit.\<close>

definition bounded_set :: "nat \<Rightarrow> 'a::linorder list \<Rightarrow> bool" where
  "bounded_set limit xs \<longleftrightarrow> strict_sorted xs \<and> length xs \<le> limit"

lemma search_insert:
  assumes "bounded_set limit xs" and "binary_search v xs = Err index"
    and "saturating_add (length xs) 1 \<le> limit" and "length xs < usize_max"
  shows "bounded_set limit (insert_at index v xs) \<and> set (insert_at index v xs) = insert v (set xs)"
  using assms strict_sorted_insert_at [of v xs index]
  by (simp add: bounded_set_def saturating_add_def set_insert_at)

lemma search_present:
  "bounded_set limit xs \<Longrightarrow> binary_search v xs = Ok index \<Longrightarrow> insert v (set xs) = set xs"
  using binary_search_Ok_mem [of v xs index] by (auto simp: bounded_set_def strict_sorted_iff)

lemma try_insert_owned_props:
  assumes "try_insert_owned alloc xs v k limit w = Ok ys" and "bounded_set limit xs"
    and "limit < usize_max"
  shows "bounded_set limit ys \<and> set ys = insert v (set xs)"
proof (cases "binary_search v xs")
  case (Ok index)
  then show ?thesis using assms search_present [OF assms(2) Ok]
    by (simp add: try_insert_owned_def)
next
  case (Err index)
  then have "saturating_add (length xs) 1 \<le> limit" "ys = insert_at index v xs"
    using assms(1) by (auto simp: try_insert_owned_def res_simps)
  moreover have "length xs < usize_max"
    using assms(2,3) by (simp add: bounded_set_def)
  ultimately show ?thesis using search_insert [OF assms(2) Err] by simp
next
  case Panic
  then show ?thesis by (simp add: binary_search_def)
qed

lemma try_insert_string_owned:
  "try_insert_string alloc xs v ck cl bk bl w bw = Ok ys \<Longrightarrow> try_insert_owned alloc xs v ck cl w = Ok ys"
  by (auto simp: try_insert_string_def try_insert_owned_def binary_search_def res_simps
      split: res.splits)

lemma try_insert_not_Panic [res_simps]:
  "try_insert_owned alloc xs v k l w = Panic \<longleftrightarrow> False"
  "try_insert_string alloc zs s ck cl bk bl w bw = Panic \<longleftrightarrow> False"
  by (auto simp: try_insert_string_def try_insert_owned_def res_simps split: res.splits)

lemma diag_step_not_Panic: "diag_step alloc d c \<noteq> Panic"
  by (cases c) (auto simp: try_with_secondary_def try_with_expected_def try_with_found_def
      try_with_note_parts_def try_with_help_def res_simps)

text \<open>The invariant of a diagnostic, and the sets a chain of calls has put into it.\<close>

definition diagnostic_wf :: "diagnostic \<Rightarrow> bool" where
  "diagnostic_wf d \<longleftrightarrow>
     bounded_set (max_secondary_labels (dg_limits d)) (dg_secondary d) \<and>
     bounded_set (max_expected_items (dg_limits d)) (dg_expected d) \<and>
     bounded_set (max_notes (dg_limits d)) (dg_notes d) \<and>
     bounded_set (max_help_items (dg_limits d)) (dg_help d) \<and>
     (\<forall>f. dg_found d = Some f \<longrightarrow> length f \<le> max_found_bytes (dg_limits d))"

definition limits_fit :: "diagnostic_limits \<Rightarrow> bool" where
  "limits_fit l \<longleftrightarrow> max_secondary_labels l < usize_max \<and> max_expected_items l < usize_max \<and>
     max_notes l < usize_max \<and> max_help_items l < usize_max"

definition dg_fixed ::
  "diagnostic \<Rightarrow> diagnostic_code \<times> phase \<times> semantic_profile \<times> severity \<times> label \<times> diagnostic_limits" where
  "dg_fixed d = (dg_code d, dg_phase d, dg_profile d, dg_severity d, dg_primary d, dg_limits d)"

fun call_labels :: "diag_call \<Rightarrow> label set" where
  "call_labels (WithSecondary s m) = {Label s m}"
| "call_labels _ = {}"

fun call_expected :: "diag_call \<Rightarrow> bytes set" where
  "call_expected (WithExpected e) = {e}"
| "call_expected _ = {}"

fun call_notes :: "diag_call \<Rightarrow> bytes set" where
  "call_notes (WithNoteParts ps) = {concat ps}"
| "call_notes _ = {}"

fun call_help :: "diag_call \<Rightarrow> bytes set" where
  "call_help (WithHelp h) = {h}"
| "call_help _ = {}"

fun is_found :: "diag_call \<Rightarrow> bool" where
  "is_found (WithFound f) = True"
| "is_found _ = False"

definition adds :: "diagnostic \<Rightarrow> diag_call set \<Rightarrow> diagnostic \<Rightarrow> bool" where
  "adds d cs e \<longleftrightarrow> dg_fixed e = dg_fixed d \<and>
     set (dg_secondary e) = set (dg_secondary d) \<union> \<Union>(call_labels ` cs) \<and>
     set (dg_expected e) = set (dg_expected d) \<union> \<Union>(call_expected ` cs) \<and>
     set (dg_notes e) = set (dg_notes d) \<union> \<Union>(call_notes ` cs) \<and>
     set (dg_help e) = set (dg_help d) \<union> \<Union>(call_help ` cs) \<and>
     ((\<forall>c\<in>cs. \<not> is_found c) \<longrightarrow> dg_found e = dg_found d)"

lemma adds_trans: "adds d cs e \<Longrightarrow> adds e ds f \<Longrightarrow> adds d (cs \<union> ds) f"
  by (auto simp: adds_def)

lemma diag_step_adds:
  assumes "diag_step alloc d c = Ok e" and "diagnostic_wf d" and "limits_fit (dg_limits d)"
  shows "diagnostic_wf e \<and> adds d {c} e"
  using assms
  by (cases c)
    (auto simp: try_with_secondary_def try_with_expected_def try_with_found_def limits_fit_def
      try_with_note_parts_def try_with_help_def res_simps diagnostic_wf_def adds_def dg_fixed_def
      simp del: set_concat
      dest!: try_insert_owned_props try_insert_string_owned copy_string_parts_Ok)

lemma diag_steps_adds:
  assumes "fold_res (diag_step alloc) d cs = Ok e" and "diagnostic_wf d" and "limits_fit (dg_limits d)"
  shows "diagnostic_wf e \<and> adds d (set cs) e"
  using assms
proof (induction cs arbitrary: d)
  case Nil
  then show ?case by (simp add: adds_def)
next
  case (Cons c cs)
  then obtain m where m: "diag_step alloc d c = Ok m" "fold_res (diag_step alloc) m cs = Ok e"
    by (auto simp: res_simps)
  with Cons.prems have "diagnostic_wf m" "adds d {c} m" using diag_step_adds by blast+
  moreover from this(2) have "dg_limits m = dg_limits d" by (simp add: adds_def dg_fixed_def)
  ultimately show ?case using Cons m(2) adds_trans [of d "{c}" m "set cs" e] by simp
qed

lemma diagnostic_try_new_Ok:
  "diagnostic_try_new alloc c ph prof sev s m l = Ok d \<Longrightarrow>
     diagnostic_wf d \<and> dg_limits d = l \<and> dg_found d = None \<and> dg_secondary d = [] \<and> dg_expected d = [] \<and>
     dg_notes d = [] \<and> dg_help d = []"
  by (auto simp: diagnostic_try_new_def res_simps diagnostic_wf_def bounded_set_def)

text \<open>
  C23: a chain of builder calls on a new diagnostic never panics, and when it succeeds every
  collection is strictly sorted (hence free of duplicates) and within its limit, holds exactly
  the items the calls supplied, and the code, phase, profile, severity, primary label and
  limits are those of the start.
\<close>

theorem diagnostic_builder_sets:
  assumes "diagnostic_try_new alloc c ph prof sev s m l = Ok d" and "limits_fit l"
  shows "fold_res (diag_step alloc) d calls \<noteq> Panic \<and>
    (\<forall>e. fold_res (diag_step alloc) d calls = Ok e \<longrightarrow>
       diagnostic_wf e \<and> dg_fixed e = dg_fixed d \<and>
       set (dg_secondary e) = \<Union>(call_labels ` set calls) \<and>
       set (dg_expected e) = \<Union>(call_expected ` set calls) \<and>
       set (dg_notes e) = \<Union>(call_notes ` set calls) \<and>
       set (dg_help e) = \<Union>(call_help ` set calls))"
proof -
  note new = diagnostic_try_new_Ok [OF assms(1)]
  have "fold_res (diag_step alloc) d calls \<noteq> Panic"
    by (rule fold_res_not_Panic [where I = "\<lambda>_. True"]) (simp_all add: diag_step_not_Panic)
  moreover have "diagnostic_wf e \<and> adds d (set calls) e" if "fold_res (diag_step alloc) d calls = Ok e" for e
    using diag_steps_adds [OF that] new assms(2) by simp
  ultimately show ?thesis using new by (auto simp: adds_def)
qed

definition sample_diagnostic :: "(diagnostic, diagnostic_error) res" where
  "sample_diagnostic = diagnostic_try_new (\<lambda>_. True) (ascii ''BLU-1'') PhLex Blu SevError
     (ByteSpan 1 0 1) [] default_diagnostic_limits"

lemma sample_diagnostic_Ok: "\<exists>d. sample_diagnostic = Ok d"
  by (simp add: sample_diagnostic_def diagnostic_try_new_def diagnostic_code_new_def ascii_def
      index_at_def code_byte_def is_ascii_uppercase_def is_ascii_digit_def
      max_diagnostic_code_bytes_def default_diagnostic_limits_def res_simps)

lemma default_limits_fit: "limits_fit default_diagnostic_limits"
  by (simp add: limits_fit_def default_diagnostic_limits_def usize_max_def)

theorem diagnostic_builder_sets_witness:
  "\<exists>d. sample_diagnostic = Ok d \<and>
    fold_res (diag_step (\<lambda>_. True)) d [WithHelp [0x62], WithHelp [0x61], WithHelp [0x62]] \<noteq> Panic"
  using sample_diagnostic_Ok diagnostic_builder_sets [OF _ default_limits_fit]
  unfolding sample_diagnostic_def by blast

text \<open>
  The order and the repetition of the builder calls do not show: two chains that make the
  same set of calls (none of which sets the found bytes) on the same new diagnostic and both
  succeed build the same diagnostic.
\<close>

theorem diagnostic_order_insensitive:
  assumes "diagnostic_try_new alloc c ph prof sev s m l = Ok d" and "limits_fit l"
    and "fold_res (diag_step alloc) d calls = Ok e"
    and "fold_res (diag_step alloc) d calls' = Ok e'"
    and "set calls = set calls'" and "\<forall>c\<in>set calls. \<not> is_found c"
  shows "e = e'"
proof -
  note new = diagnostic_try_new_Ok [OF assms(1)]
  have l: "diagnostic_wf d" "limits_fit (dg_limits d)" using new assms(2) by simp_all
  note e = diag_steps_adds [OF assms(3) l] and e' = diag_steps_adds [OF assms(4) l]
  have "dg_fixed e = dg_fixed e'" "dg_found e = dg_found e'"
    using e e' assms(5,6) by (simp_all add: adds_def)
  moreover have "dg_secondary e = dg_secondary e'" "dg_expected e = dg_expected e'"
    "dg_notes e = dg_notes e'" "dg_help e = dg_help e'"
    using e e' assms(5)
    by (auto simp: adds_def diagnostic_wf_def bounded_set_def intro!: strict_sorted_set_unique)
  ultimately show ?thesis by (simp add: dg_fixed_def)
qed

theorem diagnostic_order_insensitive_witness:
  "\<exists>d e e'. sample_diagnostic = Ok d \<and>
    fold_res (diag_step (\<lambda>_. True)) d [WithHelp [0x62], WithHelp [0x61]] = Ok e \<and>
    fold_res (diag_step (\<lambda>_. True)) d [WithHelp [0x61], WithHelp [0x62], WithHelp [0x61]] = Ok e' \<and> e = e'"
proof -
  obtain d where d: "sample_diagnostic = Ok d" using sample_diagnostic_Ok by blast
  let ?a = "[WithHelp [0x62], WithHelp [0x61]]" and ?b = "[WithHelp [0x61], WithHelp [0x62], WithHelp [0x61]]"
  have "dg_help d = []" "dg_limits d = default_diagnostic_limits"
    using diagnostic_try_new_Ok d by (auto simp: sample_diagnostic_def)
  then have "\<exists>e. fold_res (diag_step (\<lambda>_. True)) d ?a = Ok e" "\<exists>e. fold_res (diag_step (\<lambda>_. True)) d ?b = Ok e"
    by (simp_all add: try_with_help_def try_insert_string_def binary_search_by_def bs_loop.simps
        default_diagnostic_limits_def res_simps insert_at_def reserve_one_def saturating_add_def
        usize_max_def cmp_of_def)
  then show ?thesis
    using diagnostic_order_insensitive [OF d [unfolded sample_diagnostic_def] default_limits_fit, of ?a _ ?b] d
    by fastforce
qed

end
