(* ===== verification/Package_Model.thy ===== *)
theory Package_Model
  imports Core_Span
begin

text \<open>
  \<open>blu-package/src/model.rs\<close>: the manifest of a package. Types whose derived \<open>Ord\<close> the codec
  uses to demand strictly sorted lists are datatypes with a \<open>linorder\<close> instance that compares
  their fields in declaration order; an enum compares by its constructors' order. A digest is
  its 32 bytes.
\<close>

section \<open>Digests, names and versions\<close>

datatype digest = Digest (digest_bytes: bytes)

definition digest_ZERO :: digest where
  "digest_ZERO = Digest (replicate 32 0)"

datatype name = Name (name_str: bytes)

text \<open>\<open>str::split\<close> on an ASCII character: the pieces between its occurrences, never none.\<close>

fun split_on :: "byte \<Rightarrow> bytes \<Rightarrow> bytes list" where
  "split_on c [] = [[]]"
| "split_on c (b # bs) =
     (if b = c then [] # split_on c bs
      else case split_on c bs of [] \<Rightarrow> [[b]] | s # ss \<Rightarrow> (b # s) # ss)"

definition name_edge :: "byte \<Rightarrow> bool" where
  "name_edge b \<longleftrightarrow> is_ascii_lowercase b \<or> is_ascii_digit b"

definition validate_name :: "bytes \<Rightarrow> (unit, string) res" where
  "validate_name bs =
     (if bs = [] then Err ''name is empty''
      else rbind (index_at bs 0) (\<lambda>first.
      if \<not> is_ascii_lowercase first \<and> \<not> is_ascii_digit first
      then Err ''name must start with a lowercase ASCII letter or digit''
      else rbind (plain_sub (length bs) 1) (\<lambda>final.
      rbind (index_at bs final) (\<lambda>b.
      if \<not> is_ascii_lowercase b \<and> \<not> is_ascii_digit b
      then Err ''name must end with a lowercase ASCII letter or digit''
      else if \<not> list_all (\<lambda>b. is_ascii_lowercase b \<or> is_ascii_digit b \<or> b \<in> set (ascii ''-_.'')) bs
      then Err ''name contains a non-portable character''
      else if list_ex (\<lambda>s. s = []) (split_on 0x2E bs)
      then Err ''name contains an empty dot-separated segment''
      else Ok ()))))"

definition name_new :: "bytes \<Rightarrow> (name, string) res" where
  "name_new value = rbind (validate_name value) (\<lambda>_. Ok (Name value))"

text \<open>
  What a portable name is: dot-separated nonempty segments of lowercase letters, digits, hyphens
  and underscores that starts and ends with a letter or digit.
\<close>

definition portable_segment :: "bytes \<Rightarrow> bool" where
  "portable_segment s \<longleftrightarrow> s \<noteq> [] \<and> (\<forall>b\<in>set s. name_edge b \<or> b = 0x2D \<or> b = 0x5F)"

definition portable_name :: "bytes \<Rightarrow> bool" where
  "portable_name bs \<longleftrightarrow>
     bs \<noteq> [] \<and> name_edge (hd bs) \<and> name_edge (last bs) \<and> (\<forall>s\<in>set (split_on 0x2E bs). portable_segment s)"

lemma split_on_nonempty [simp]: "split_on c bs \<noteq> []"
  by (cases bs) (auto split: list.splits)

lemma split_on_set: "(\<Union>s\<in>set (split_on c bs). set s) = set bs - {c}"
proof (induction bs)
  case Nil
  then show ?case by simp
next
  case (Cons b bs)
  obtain s ss where "split_on c bs = s # ss" using split_on_nonempty [of c bs] by (cases "split_on c bs") auto
  with Cons show ?case by auto
qed

lemma name_byte_iff:
  "is_ascii_lowercase b \<or> is_ascii_digit b \<or> b \<in> set (ascii ''-_.'') \<longleftrightarrow>
     name_edge b \<or> b = 0x2D \<or> b = 0x5F \<or> b = 0x2E"
  by (simp add: name_edge_def ascii_def disj_ac)

lemma name_edge_not_dot: "name_edge b \<Longrightarrow> b \<noteq> 0x2E"
  by (auto simp: name_edge_def is_ascii_lowercase_def is_ascii_digit_def)

lemma portable_segments_iff:
  "(\<forall>s\<in>set (split_on 0x2E bs). portable_segment s) \<longleftrightarrow>
     [] \<notin> set (split_on 0x2E bs) \<and> (\<forall>b\<in>set bs. name_edge b \<or> b = 0x2D \<or> b = 0x5F \<or> b = 0x2E)"
proof -
  have "(\<forall>s\<in>set (split_on 0x2E bs). \<forall>b\<in>set s. name_edge b \<or> b = 0x2D \<or> b = 0x5F) \<longleftrightarrow>
      (\<forall>b\<in>(\<Union>s\<in>set (split_on 0x2E bs). set s). name_edge b \<or> b = 0x2D \<or> b = 0x5F)" by simp
  also have "\<dots> \<longleftrightarrow> (\<forall>b\<in>set bs. name_edge b \<or> b = 0x2D \<or> b = 0x5F \<or> b = 0x2E)"
    unfolding split_on_set by (auto simp: name_edge_not_dot)
  finally show ?thesis unfolding portable_segment_def by metis
qed

lemma not_name_edge: "\<not> is_ascii_lowercase b \<and> \<not> is_ascii_digit b \<longleftrightarrow> \<not> name_edge b"
  by (simp add: name_edge_def)

lemma validate_name_empty: "validate_name [] = Err ''name is empty''"
  by (simp add: validate_name_def)

lemma validate_name_cases:
  assumes "bs \<noteq> []"
  shows "validate_name bs =
    (if \<not> name_edge (hd bs) then Err ''name must start with a lowercase ASCII letter or digit''
     else if \<not> name_edge (last bs) then Err ''name must end with a lowercase ASCII letter or digit''
     else if \<not> (\<forall>b\<in>set bs. name_edge b \<or> b = 0x2D \<or> b = 0x5F \<or> b = 0x2E)
     then Err ''name contains a non-portable character''
     else if [] \<in> set (split_on 0x2E bs) then Err ''name contains an empty dot-separated segment''
     else Ok ())"
proof -
  have "list_ex (\<lambda>s. s = []) (split_on 0x2E bs) \<longleftrightarrow> [] \<in> set (split_on 0x2E bs)"
    by (auto simp: list_ex_iff)
  then show ?thesis using assms
    by (simp add: validate_name_def not_name_edge index_at_def plain_sub_def Suc_le_eq hd_conv_nth
        last_conv_nth list_all_iff name_byte_iff) blast
qed

lemma validate_name_Ok: "validate_name bs = Ok u \<longleftrightarrow> portable_name bs"
  by (cases "bs = []")
    (simp_all add: validate_name_empty validate_name_cases portable_name_def portable_segments_iff)

lemma validate_name_not_Panic [res_simps]: "validate_name bs = Panic \<longleftrightarrow> False"
  by (cases "bs = []") (simp_all add: validate_name_empty validate_name_cases)

text \<open>A portable name is ASCII, hence well-formed UTF-8.\<close>

lemma portable_name_utf8: "portable_name bs \<Longrightarrow> utf8_valid bs"
proof (rule utf8_valid_ascii, rule ballI)
  fix b
  assume "portable_name bs" "b \<in> set bs"
  then have "name_edge b \<or> b = 0x2D \<or> b = 0x5F \<or> b = 0x2E"
    by (auto simp: portable_name_def portable_segments_iff)
  then show "b < 0x80"
    by (auto simp: name_edge_def is_ascii_lowercase_def is_ascii_digit_def intro: le_less_trans)
qed

datatype version = Version (major: "32 word") (minor: "32 word") (patch: "32 word")

section \<open>Orders\<close>

instantiation digest :: linorder
begin
definition less_eq_digest :: "digest \<Rightarrow> digest \<Rightarrow> bool" where
  "less_eq_digest a b \<longleftrightarrow> digest_bytes a \<le> digest_bytes b"
definition less_digest :: "digest \<Rightarrow> digest \<Rightarrow> bool" where
  "less_digest a b \<longleftrightarrow> digest_bytes a < digest_bytes b"
instance by standard (auto simp: less_eq_digest_def less_digest_def intro: digest.expand)
end

instantiation name :: linorder
begin
definition less_eq_name :: "name \<Rightarrow> name \<Rightarrow> bool" where
  "less_eq_name a b \<longleftrightarrow> name_str a \<le> name_str b"
definition less_name :: "name \<Rightarrow> name \<Rightarrow> bool" where
  "less_name a b \<longleftrightarrow> name_str a < name_str b"
instance by standard (auto simp: less_eq_name_def less_name_def intro: name.expand)
end

definition version_key :: "version \<Rightarrow> 32 word \<times> 32 word \<times> 32 word" where
  "version_key v = (major v, minor v, patch v)"

lemma version_key_inject: "version_key a = version_key b \<Longrightarrow> a = b"
  by (rule version.expand) (simp add: version_key_def)

instantiation version :: linorder
begin
definition less_eq_version :: "version \<Rightarrow> version \<Rightarrow> bool" where
  "less_eq_version a b \<longleftrightarrow> version_key a \<le> version_key b"
definition less_version :: "version \<Rightarrow> version \<Rightarrow> bool" where
  "less_version a b \<longleftrightarrow> version_key a < version_key b"
instance by standard (auto simp: less_eq_version_def less_version_def intro: version_key_inject)
end

section \<open>Services, imports, exports and authority\<close>

datatype import_source = Host | Component

fun import_source_tag :: "import_source \<Rightarrow> byte" where
  "import_source_tag Host = 1"
| "import_source_tag Component = 2"

datatype service_id = ServiceId (sv_namespace: name) (sv_name: name)

datatype import =
  Import (im_source: import_source) (im_service: service_id) (im_version: version)
    (im_schema: digest) (im_optional: bool)

datatype export = Export (ex_service: service_id) (ex_version: version) (ex_schema: digest)

datatype authority_profile = Pure | Confined | Trusted

fun authority_tag :: "authority_profile \<Rightarrow> byte" where
  "authority_tag Pure = 1"
| "authority_tag Confined = 2"
| "authority_tag Trusted = 3"

datatype capability_requirement = Capability (cap_name: name) (cap_scope: bytes)

instantiation service_id :: linorder
begin
definition less_eq_service_id :: "service_id \<Rightarrow> service_id \<Rightarrow> bool" where
  "less_eq_service_id a b \<longleftrightarrow> (sv_namespace a, sv_name a) \<le> (sv_namespace b, sv_name b)"
definition less_service_id :: "service_id \<Rightarrow> service_id \<Rightarrow> bool" where
  "less_service_id a b \<longleftrightarrow> (sv_namespace a, sv_name a) < (sv_namespace b, sv_name b)"
instance
  by standard (auto simp: less_eq_service_id_def less_service_id_def intro: service_id.expand)
end

definition import_key ::
  "import \<Rightarrow> byte \<times> service_id \<times> version \<times> digest \<times> bool" where
  "import_key i = (import_source_tag (im_source i), im_service i, im_version i, im_schema i, im_optional i)"

lemma import_source_tag_inject: "import_source_tag a = import_source_tag b \<Longrightarrow> a = b"
  by (cases a; cases b) auto

lemma import_key_inject: "import_key a = import_key b \<Longrightarrow> a = b"
  by (rule import.expand) (auto simp: import_key_def dest: import_source_tag_inject)

instantiation import :: linorder
begin
definition less_eq_import :: "import \<Rightarrow> import \<Rightarrow> bool" where
  "less_eq_import a b \<longleftrightarrow> import_key a \<le> import_key b"
definition less_import :: "import \<Rightarrow> import \<Rightarrow> bool" where
  "less_import a b \<longleftrightarrow> import_key a < import_key b"
instance by standard (auto simp: less_eq_import_def less_import_def intro: import_key_inject)
end

definition export_key :: "export \<Rightarrow> service_id \<times> version \<times> digest" where
  "export_key e = (ex_service e, ex_version e, ex_schema e)"

lemma export_key_inject: "export_key a = export_key b \<Longrightarrow> a = b"
  by (rule export.expand) (simp add: export_key_def)

instantiation export :: linorder
begin
definition less_eq_export :: "export \<Rightarrow> export \<Rightarrow> bool" where
  "less_eq_export a b \<longleftrightarrow> export_key a \<le> export_key b"
definition less_export :: "export \<Rightarrow> export \<Rightarrow> bool" where
  "less_export a b \<longleftrightarrow> export_key a < export_key b"
instance by standard (auto simp: less_eq_export_def less_export_def intro: export_key_inject)
end

instantiation capability_requirement :: linorder
begin
definition less_eq_capability_requirement ::
    "capability_requirement \<Rightarrow> capability_requirement \<Rightarrow> bool" where
  "less_eq_capability_requirement a b \<longleftrightarrow> (cap_name a, cap_scope a) \<le> (cap_name b, cap_scope b)"
definition less_capability_requirement ::
    "capability_requirement \<Rightarrow> capability_requirement \<Rightarrow> bool" where
  "less_capability_requirement a b \<longleftrightarrow> (cap_name a, cap_scope a) < (cap_name b, cap_scope b)"
instance
  by standard (auto simp: less_eq_capability_requirement_def less_capability_requirement_def
      intro: capability_requirement.expand)
end

section \<open>Manifests\<close>

datatype bytecode_format = FormatLuau

record bytecode_descriptor =
  bd_format :: bytecode_format
  bd_version :: byte
  bd_typeinfo_version :: byte

record package_identity =
  pi_name :: name
  pi_version :: version

record authority_requirement =
  au_profile :: authority_profile
  au_capabilities :: "capability_requirement list"

record manifest =
  mf_package :: package_identity
  mf_dialect :: semantic_profile
  mf_bytecode :: bytecode_descriptor
  mf_authority :: authority_requirement
  mf_imports :: "import list"
  mf_exports :: "export list"

end
