(* ===== verification/Luau_Opcode.thy ===== *)
theory Luau_Opcode
  imports Rust_Bytes
begin

text \<open>
  \<open>blu-bytecode/src/opcode.rs\<close>: the 89 Luau opcodes, their numbers, their names as
  \<open>{:?}\<close> prints them, and the three classifications the decoder and validator use.
\<close>

datatype (plugins only:) opcode =
    OpNop | OpBreak | OpLoadNil | OpLoadB | OpLoadN | OpLoadK | OpMove | OpGetGlobal |
    OpSetGlobal | OpGetUpval | OpSetUpval | OpCloseUpvals | OpGetImport | OpGetTable | OpSetTable | OpGetTableKs |
    OpSetTableKs | OpGetTableN | OpSetTableN | OpNewClosure | OpNameCall | OpCall | OpReturn | OpJump |
    OpJumpBack | OpJumpIf | OpJumpIfNot | OpJumpIfEq | OpJumpIfLe | OpJumpIfLt | OpJumpIfNotEq | OpJumpIfNotLe |
    OpJumpIfNotLt | OpAdd | OpSub | OpMul | OpDiv | OpMod | OpPow | OpAddK |
    OpSubK | OpMulK | OpDivK | OpModK | OpPowK | OpAnd | OpOr | OpAndK |
    OpOrK | OpConcat | OpNot | OpMinus | OpLength | OpNewTable | OpDupTable | OpSetList |
    OpForNPrep | OpForNLoop | OpForGLoop | OpForGPrepInext | OpFastCall3 | OpForGPrepNext | OpNativeCall | OpGetVarargs |
    OpDupClosure | OpPrepVarargs | OpLoadKx | OpJumpX | OpFastCall | OpCoverage | OpCapture | OpSubRk |
    OpDivRk | OpFastCall1 | OpFastCall2 | OpFastCall2K | OpForGPrep | OpJumpXEqKNil | OpJumpXEqKB | OpJumpXEqKN |
    OpJumpXEqKS | OpIDiv | OpIDivK | OpGetUdataKs | OpSetUdataKs | OpNameCallUdata | OpNewClassMember | OpCallFb |
    OpCmpProto

primrec opcode_code :: "opcode \<Rightarrow> nat" where
  "opcode_code OpNop = 0"
| "opcode_code OpBreak = 1"
| "opcode_code OpLoadNil = 2"
| "opcode_code OpLoadB = 3"
| "opcode_code OpLoadN = 4"
| "opcode_code OpLoadK = 5"
| "opcode_code OpMove = 6"
| "opcode_code OpGetGlobal = 7"
| "opcode_code OpSetGlobal = 8"
| "opcode_code OpGetUpval = 9"
| "opcode_code OpSetUpval = 10"
| "opcode_code OpCloseUpvals = 11"
| "opcode_code OpGetImport = 12"
| "opcode_code OpGetTable = 13"
| "opcode_code OpSetTable = 14"
| "opcode_code OpGetTableKs = 15"
| "opcode_code OpSetTableKs = 16"
| "opcode_code OpGetTableN = 17"
| "opcode_code OpSetTableN = 18"
| "opcode_code OpNewClosure = 19"
| "opcode_code OpNameCall = 20"
| "opcode_code OpCall = 21"
| "opcode_code OpReturn = 22"
| "opcode_code OpJump = 23"
| "opcode_code OpJumpBack = 24"
| "opcode_code OpJumpIf = 25"
| "opcode_code OpJumpIfNot = 26"
| "opcode_code OpJumpIfEq = 27"
| "opcode_code OpJumpIfLe = 28"
| "opcode_code OpJumpIfLt = 29"
| "opcode_code OpJumpIfNotEq = 30"
| "opcode_code OpJumpIfNotLe = 31"
| "opcode_code OpJumpIfNotLt = 32"
| "opcode_code OpAdd = 33"
| "opcode_code OpSub = 34"
| "opcode_code OpMul = 35"
| "opcode_code OpDiv = 36"
| "opcode_code OpMod = 37"
| "opcode_code OpPow = 38"
| "opcode_code OpAddK = 39"
| "opcode_code OpSubK = 40"
| "opcode_code OpMulK = 41"
| "opcode_code OpDivK = 42"
| "opcode_code OpModK = 43"
| "opcode_code OpPowK = 44"
| "opcode_code OpAnd = 45"
| "opcode_code OpOr = 46"
| "opcode_code OpAndK = 47"
| "opcode_code OpOrK = 48"
| "opcode_code OpConcat = 49"
| "opcode_code OpNot = 50"
| "opcode_code OpMinus = 51"
| "opcode_code OpLength = 52"
| "opcode_code OpNewTable = 53"
| "opcode_code OpDupTable = 54"
| "opcode_code OpSetList = 55"
| "opcode_code OpForNPrep = 56"
| "opcode_code OpForNLoop = 57"
| "opcode_code OpForGLoop = 58"
| "opcode_code OpForGPrepInext = 59"
| "opcode_code OpFastCall3 = 60"
| "opcode_code OpForGPrepNext = 61"
| "opcode_code OpNativeCall = 62"
| "opcode_code OpGetVarargs = 63"
| "opcode_code OpDupClosure = 64"
| "opcode_code OpPrepVarargs = 65"
| "opcode_code OpLoadKx = 66"
| "opcode_code OpJumpX = 67"
| "opcode_code OpFastCall = 68"
| "opcode_code OpCoverage = 69"
| "opcode_code OpCapture = 70"
| "opcode_code OpSubRk = 71"
| "opcode_code OpDivRk = 72"
| "opcode_code OpFastCall1 = 73"
| "opcode_code OpFastCall2 = 74"
| "opcode_code OpFastCall2K = 75"
| "opcode_code OpForGPrep = 76"
| "opcode_code OpJumpXEqKNil = 77"
| "opcode_code OpJumpXEqKB = 78"
| "opcode_code OpJumpXEqKN = 79"
| "opcode_code OpJumpXEqKS = 80"
| "opcode_code OpIDiv = 81"
| "opcode_code OpIDivK = 82"
| "opcode_code OpGetUdataKs = 83"
| "opcode_code OpSetUdataKs = 84"
| "opcode_code OpNameCallUdata = 85"
| "opcode_code OpNewClassMember = 86"
| "opcode_code OpCallFb = 87"
| "opcode_code OpCmpProto = 88"

definition opcode_ALL :: "opcode list" where
  "opcode_ALL =
     [OpNop, OpBreak, OpLoadNil, OpLoadB, OpLoadN, OpLoadK, OpMove, OpGetGlobal,
      OpSetGlobal, OpGetUpval, OpSetUpval, OpCloseUpvals, OpGetImport, OpGetTable, OpSetTable, OpGetTableKs,
      OpSetTableKs, OpGetTableN, OpSetTableN, OpNewClosure, OpNameCall, OpCall, OpReturn, OpJump,
      OpJumpBack, OpJumpIf, OpJumpIfNot, OpJumpIfEq, OpJumpIfLe, OpJumpIfLt, OpJumpIfNotEq, OpJumpIfNotLe,
      OpJumpIfNotLt, OpAdd, OpSub, OpMul, OpDiv, OpMod, OpPow, OpAddK,
      OpSubK, OpMulK, OpDivK, OpModK, OpPowK, OpAnd, OpOr, OpAndK,
      OpOrK, OpConcat, OpNot, OpMinus, OpLength, OpNewTable, OpDupTable, OpSetList,
      OpForNPrep, OpForNLoop, OpForGLoop, OpForGPrepInext, OpFastCall3, OpForGPrepNext, OpNativeCall, OpGetVarargs,
      OpDupClosure, OpPrepVarargs, OpLoadKx, OpJumpX, OpFastCall, OpCoverage, OpCapture, OpSubRk,
      OpDivRk, OpFastCall1, OpFastCall2, OpFastCall2K, OpForGPrep, OpJumpXEqKNil, OpJumpXEqKB, OpJumpXEqKN,
      OpJumpXEqKS, OpIDiv, OpIDivK, OpGetUdataKs, OpSetUdataKs, OpNameCallUdata, OpNewClassMember, OpCallFb,
      OpCmpProto]"

definition opcode_names :: "string list" where
  "opcode_names =
     [''Nop'', ''Break'', ''LoadNil'', ''LoadB'', ''LoadN'', ''LoadK'', ''Move'', ''GetGlobal'',
      ''SetGlobal'', ''GetUpval'', ''SetUpval'', ''CloseUpvals'', ''GetImport'', ''GetTable'', ''SetTable'', ''GetTableKs'',
      ''SetTableKs'', ''GetTableN'', ''SetTableN'', ''NewClosure'', ''NameCall'', ''Call'', ''Return'', ''Jump'',
      ''JumpBack'', ''JumpIf'', ''JumpIfNot'', ''JumpIfEq'', ''JumpIfLe'', ''JumpIfLt'', ''JumpIfNotEq'', ''JumpIfNotLe'',
      ''JumpIfNotLt'', ''Add'', ''Sub'', ''Mul'', ''Div'', ''Mod'', ''Pow'', ''AddK'',
      ''SubK'', ''MulK'', ''DivK'', ''ModK'', ''PowK'', ''And'', ''Or'', ''AndK'',
      ''OrK'', ''Concat'', ''Not'', ''Minus'', ''Length'', ''NewTable'', ''DupTable'', ''SetList'',
      ''ForNPrep'', ''ForNLoop'', ''ForGLoop'', ''ForGPrepInext'', ''FastCall3'', ''ForGPrepNext'', ''NativeCall'', ''GetVarargs'',
      ''DupClosure'', ''PrepVarargs'', ''LoadKx'', ''JumpX'', ''FastCall'', ''Coverage'', ''Capture'', ''SubRk'',
      ''DivRk'', ''FastCall1'', ''FastCall2'', ''FastCall2K'', ''ForGPrep'', ''JumpXEqKNil'', ''JumpXEqKB'', ''JumpXEqKN'',
      ''JumpXEqKS'', ''IDiv'', ''IDivK'', ''GetUdataKs'', ''SetUdataKs'', ''NameCallUdata'', ''NewClassMember'', ''CallFb'',
      ''CmpProto'']"

definition opcode_COUNT :: nat where "opcode_COUNT = 89"

definition opcode_try_from :: "byte \<Rightarrow> (opcode, byte) res" where
  "opcode_try_from v = (if unat v < opcode_COUNT then Ok (opcode_ALL ! unat v) else Err v)"

definition opcode_debug :: "opcode \<Rightarrow> string" where
  "opcode_debug op = opcode_names ! opcode_code op"

definition opcode_words :: "opcode \<Rightarrow> nat" where
  "opcode_words op = (if op \<in>
     {OpGetGlobal, OpSetGlobal, OpGetImport, OpGetTableKs, OpSetTableKs, OpNameCall, OpJumpIfEq, OpJumpIfLe,
      OpJumpIfLt, OpJumpIfNotEq, OpJumpIfNotLe, OpJumpIfNotLt, OpNewTable, OpSetList, OpForGLoop, OpLoadKx,
      OpFastCall2, OpFastCall2K, OpFastCall3, OpJumpXEqKNil, OpJumpXEqKB, OpJumpXEqKN, OpJumpXEqKS, OpGetUdataKs,
      OpSetUdataKs, OpNameCallUdata, OpNewClassMember, OpCallFb, OpCmpProto}
     then 2 else 1)"

definition is_fast_call :: "opcode \<Rightarrow> bool" where
  "is_fast_call op \<longleftrightarrow> op \<in> {OpFastCall, OpFastCall1, OpFastCall2, OpFastCall2K, OpFastCall3}"

definition uses_d_jump :: "opcode \<Rightarrow> bool" where
  "uses_d_jump op \<longleftrightarrow> op \<in>
     {OpJump, OpJumpIf, OpJumpIfNot, OpJumpIfEq, OpJumpIfLe, OpJumpIfLt, OpJumpIfNotEq, OpJumpIfNotLe,
      OpJumpIfNotLt, OpForNPrep, OpForNLoop, OpForGPrep, OpForGLoop, OpForGPrepInext, OpForGPrepNext, OpJumpBack,
      OpJumpXEqKNil, OpJumpXEqKB, OpJumpXEqKN, OpJumpXEqKS, OpCmpProto}"

section \<open>Numbers and opcodes correspond\<close>

lemma opcode_code_lt: "opcode_code op < opcode_COUNT"
  by (cases op) (simp_all add: opcode_COUNT_def)

lemma opcode_ALL_code: "opcode_ALL ! opcode_code op = op"
  by (cases op) (simp_all add: opcode_ALL_def)

lemma opcode_ALL_length: "length opcode_ALL = opcode_COUNT"
  by (simp add: opcode_ALL_def opcode_COUNT_def)

lemma opcode_code_ALL: "map opcode_code opcode_ALL = [0..<opcode_COUNT]"
  by (simp add: opcode_ALL_def opcode_COUNT_def upt_rec)

lemma opcode_code_eq [simp]: "opcode_code a = opcode_code b \<longleftrightarrow> a = b"
  by (metis opcode_ALL_code)

instantiation opcode :: equal
begin
definition equal_opcode :: "opcode \<Rightarrow> opcode \<Rightarrow> bool" where
  "equal_opcode a b \<longleftrightarrow> opcode_code a = opcode_code b"
instance by standard (simp add: equal_opcode_def)
end

lemma opcode_try_from_Ok:
  "opcode_try_from v = Ok op \<longleftrightarrow> unat v = opcode_code op"
proof
  assume "opcode_try_from v = Ok op"
  then have v: "unat v < opcode_COUNT" "op = opcode_ALL ! unat v"
    by (auto simp: opcode_try_from_def split: if_splits)
  have "opcode_code (opcode_ALL ! unat v) = map opcode_code opcode_ALL ! unat v"
    using v(1) by (simp add: opcode_ALL_length)
  with v show "unat v = opcode_code op" by (simp add: opcode_code_ALL)
next
  assume v: "unat v = opcode_code op"
  then have "unat v < opcode_COUNT" using opcode_code_lt [of op] by simp
  then show "opcode_try_from v = Ok op"
    using v opcode_ALL_code [of op] by (simp add: opcode_try_from_def)
qed

lemma opcode_try_from_not_Panic [simp]: "opcode_try_from v \<noteq> Panic"
  by (simp add: opcode_try_from_def)

text \<open>
  The opcode byte and the opcode correspond one to one: every opcode has its own byte
  below \<open>COUNT\<close>, reading that byte gives it back, and every other byte is refused.
\<close>

theorem opcode_byte_bijection:
  "opcode_try_from (word_of_nat (opcode_code op)) = Ok op \<and>
   (opcode_try_from v = Ok op \<longleftrightarrow> v = word_of_nat (opcode_code op)) \<and>
   (opcode_try_from v = Err v \<longleftrightarrow> opcode_COUNT \<le> unat v)"
proof -
  have lt: "opcode_code op < 256" using opcode_code_lt [of op] by (simp add: opcode_COUNT_def)
  then have "unat (word_of_nat (opcode_code op) :: byte) = opcode_code op"
    by (simp add: unat_of_nat_byte)
  moreover from this have "unat v = opcode_code op \<longleftrightarrow> v = word_of_nat (opcode_code op)"
    by (metis word_unat_eq_iff)
  moreover have "opcode_try_from v = Err v \<longleftrightarrow> opcode_COUNT \<le> unat v"
    by (simp add: opcode_try_from_def)
  ultimately show ?thesis by (simp only: opcode_try_from_Ok)
qed

lemma opcode_words_cases: "opcode_words op = 1 \<or> opcode_words op = 2"
  by (simp add: opcode_words_def)

end
