(* ===== verification/Luau_Instruction.thy ===== *)
theory Luau_Instruction
  imports Luau_Opcode
begin

text \<open>
  \<open>blu-bytecode/src/instruction.rs\<close>: one decoded instruction (its word, its auxiliary word
  and its position), the operand fields, the jump target, and the decoder over a code vector.
  The signed fields \<open>i16\<close> and \<open>i32\<close> are read as the integers they stand for.
\<close>

record instruction =
  ins_pc :: nat
  ins_word :: "32 word"
  ins_opcode :: opcode
  ins_aux :: "32 word option"

definition ins_a :: "instruction \<Rightarrow> byte" where
  "ins_a i = ucast (drop_bit 8 (ins_word i) AND 0xFF)"

definition ins_b :: "instruction \<Rightarrow> byte" where
  "ins_b i = ucast (drop_bit 16 (ins_word i) AND 0xFF)"

definition ins_c :: "instruction \<Rightarrow> byte" where
  "ins_c i = ucast (drop_bit 24 (ins_word i) AND 0xFF)"

definition ins_d :: "instruction \<Rightarrow> int" where
  "ins_d i = sint (ucast (drop_bit 16 (ins_word i)) :: 16 word)"

definition ins_e :: "instruction \<Rightarrow> int" where
  "ins_e i = drop_bit 8 (sint (ins_word i))"

definition ins_aux_a :: "instruction \<Rightarrow> byte option" where
  "ins_aux_a i = (case ins_aux i of Some aux \<Rightarrow> Some (ucast (aux AND 0xFF)) | None \<Rightarrow> None)"

definition ins_aux_b :: "instruction \<Rightarrow> byte option" where
  "ins_aux_b i = (case ins_aux i of Some aux \<Rightarrow> Some (ucast (drop_bit 8 aux AND 0xFF)) | None \<Rightarrow> None)"

definition i64_try_from :: "int \<Rightarrow> int option" where
  "i64_try_from x = (if i64_min \<le> x \<and> x \<le> i64_max then Some x else None)"

definition usize_try_from :: "int \<Rightarrow> nat option" where
  "usize_try_from x = (if 0 \<le> x \<and> x \<le> int usize_max then Some (nat x) else None)"

definition jump_delta :: "instruction \<Rightarrow> int option" where
  "jump_delta i =
     (if uses_d_jump (ins_opcode i) then Some (ins_d i + 1)
      else if is_fast_call (ins_opcode i) then Some (uint (ins_c i) + 2)
      else if ins_opcode i = OpLoadB \<and> ins_c i \<noteq> 0 then Some (uint (ins_c i) + 1)
      else if ins_opcode i = OpJumpX then Some (ins_e i + 1)
      else None)"

definition jump_target :: "instruction \<Rightarrow> nat option" where
  "jump_target i =
     (case jump_delta i of None \<Rightarrow> None
      | Some delta \<Rightarrow>
        (case i64_try_from (int (ins_pc i)) of None \<Rightarrow> None
         | Some pc \<Rightarrow>
           (case i64_try_from (pc + delta) of None \<Rightarrow> None
            | Some target \<Rightarrow> usize_try_from target)))"

datatype decode_error =
    InvalidOpcode nat byte
  | MissingAux nat opcode
  | DecodeAllocation nat

text \<open>\<open>InstructionIter::next\<close>: the item, and the position after it.\<close>

definition instruction_next ::
  "32 word list \<Rightarrow> nat \<Rightarrow> ((instruction, decode_error) res \<times> nat) option" where
  "instruction_next words pc =
     (case get words pc of None \<Rightarrow> None
      | Some word \<Rightarrow>
        (case opcode_try_from (ucast (word AND 0xFF)) of
           Err opcode \<Rightarrow> Some (Err (InvalidOpcode pc opcode), length words)
         | Panic \<Rightarrow> Some (Panic, length words)
         | Ok opcode \<Rightarrow>
             (if opcode_words opcode = 2
              then (case get words (pc + 1) of
                      Some aux \<Rightarrow> Some (Ok \<lparr>ins_pc = pc, ins_word = word, ins_opcode = opcode,
                          ins_aux = Some aux\<rparr>, pc + opcode_words opcode)
                    | None \<Rightarrow> Some (Err (MissingAux pc opcode), length words))
              else Some (Ok \<lparr>ins_pc = pc, ins_word = word, ins_opcode = opcode, ins_aux = None\<rparr>,
                     pc + opcode_words opcode))))"

lemma instruction_next_progress:
  "instruction_next words pc = Some (Ok i, pc') \<Longrightarrow> pc < pc' \<and> pc < length words"
  by (auto simp: instruction_next_def opcode_words_def res_simps split: option.splits res.splits if_splits)

function decode_from :: "32 word list \<Rightarrow> nat \<Rightarrow> (instruction list, decode_error) res" where
  "decode_from words pc =
     (case instruction_next words pc of
        None \<Rightarrow> Ok []
      | Some (Ok i, pc') \<Rightarrow> rbind (decode_from words pc') (\<lambda>rest. Ok (i # rest))
      | Some (Err e, pc') \<Rightarrow> Err e
      | Some (Panic, pc') \<Rightarrow> Panic)"
  by pat_completeness auto
termination
  by (relation "measure (\<lambda>(words, pc). length words - pc)")
    (auto dest!: instruction_next_progress intro: diff_less_mono2)

declare decode_from.simps [simp del]

definition decode ::
  "(nat \<Rightarrow> bool) \<Rightarrow> 32 word list \<Rightarrow> (instruction list, decode_error) res" where
  "decode alloc words =
     rbind (ensure (alloc (length words)) (DecodeAllocation (length words))) (\<lambda>_.
     decode_from words 0)"

section \<open>The decoder inverts the layout\<close>

definition ins_words :: "instruction \<Rightarrow> 32 word list" where
  "ins_words i = ins_word i # (case ins_aux i of Some aux \<Rightarrow> [aux] | None \<Rightarrow> [])"

definition ins_wf :: "instruction \<Rightarrow> bool" where
  "ins_wf i \<longleftrightarrow> opcode_try_from (ucast (ins_word i AND 0xFF)) = Ok (ins_opcode i) \<and>
     (ins_aux i \<noteq> None \<longleftrightarrow> opcode_words (ins_opcode i) = 2)"

text \<open>Instructions in a row: each well-formed, each at the position its predecessors leave.\<close>

fun laid_out :: "nat \<Rightarrow> instruction list \<Rightarrow> bool" where
  "laid_out pc [] = True"
| "laid_out pc (i # is) =
     (ins_pc i = pc \<and> ins_wf i \<and> laid_out (pc + opcode_words (ins_opcode i)) is)"

lemma ins_words_length: "ins_wf i \<Longrightarrow> length (ins_words i) = opcode_words (ins_opcode i)"
  using opcode_words_cases [of "ins_opcode i"] by (auto simp: ins_words_def ins_wf_def split: option.splits)

lemma instruction_next_Ok:
  "instruction_next words pc = Some (Ok i, pc') \<longleftrightarrow>
     ins_pc i = pc \<and> ins_wf i \<and> pc' = pc + opcode_words (ins_opcode i) \<and>
     (\<exists>rest. drop pc words = ins_words i @ rest)"
proof (cases "pc < length words")
  case True
  then have d: "drop pc words = words ! pc # drop (Suc pc) words" by (simp add: Cons_nth_drop_Suc)
  have d2: "drop (Suc pc) words = words ! Suc pc # drop (Suc (Suc pc)) words" if "Suc pc < length words"
    using that by (simp add: Cons_nth_drop_Suc)
  obtain ipc iw iop iaux where i: "i = \<lparr>ins_pc = ipc, ins_word = iw, ins_opcode = iop, ins_aux = iaux\<rparr>"
    by (cases i)
  show ?thesis
  proof (cases "Suc pc < length words")
    case long: True
    from True d d2 [OF this] show ?thesis
      by (cases iaux) (auto simp: i instruction_next_def get_def ins_wf_def ins_words_def
          split: res.splits)
  next
    case False
    with True d show ?thesis
      by (cases iaux) (auto simp: i instruction_next_def get_def ins_wf_def ins_words_def
          split: res.splits)
  qed
next
  case False
  then show ?thesis by (auto simp: instruction_next_def get_def ins_words_def)
qed

lemma instruction_next_None: "instruction_next words pc = None \<longleftrightarrow> length words \<le> pc"
  by (auto simp: instruction_next_def res_simps split: option.splits res.splits)

lemma instruction_next_not_Panic: "instruction_next words pc \<noteq> Some (Panic, pc')"
  by (auto simp: instruction_next_def split: option.splits res.splits if_splits)

lemma decode_from_not_Panic: "decode_from words pc \<noteq> Panic"
proof (induction words pc rule: decode_from.induct)
  case (1 words pc)
  then show ?case
    by (subst decode_from.simps)
      (auto simp: res_simps instruction_next_not_Panic split: option.splits res.splits)
qed

lemma decode_from_exact:
  "pc \<le> length words \<Longrightarrow> decode_from words pc = Ok is \<longleftrightarrow>
     laid_out pc is \<and> concat (map ins_words is) = drop pc words"
proof (induction words pc arbitrary: "is" rule: decode_from.induct)
  case (1 words pc)
  show ?case
  proof (cases "is")
    case Nil
    have "decode_from words pc = Ok [] \<longleftrightarrow> instruction_next words pc = None"
      by (subst decode_from.simps) (auto simp: res_simps split: option.splits res.splits)
    with Nil "1.prems" show ?thesis by (auto simp: instruction_next_None)
  next
    case (Cons i rest)
    have step: "decode_from words pc = Ok (i # rest) \<longleftrightarrow>
        (\<exists>pc'. instruction_next words pc = Some (Ok i, pc') \<and> decode_from words pc' = Ok rest)"
      by (subst decode_from.simps) (auto simp: res_simps split: option.splits res.splits)
    show ?thesis
    proof
      assume "decode_from words pc = Ok is"
      with step Cons obtain pc' where n: "instruction_next words pc = Some (Ok i, pc')"
        and r: "decode_from words pc' = Ok rest" by auto
      from n obtain tl where i: "ins_pc i = pc" "ins_wf i" "pc' = pc + opcode_words (ins_opcode i)"
        "drop pc words = ins_words i @ tl" by (auto simp: instruction_next_Ok)
      then have tl: "drop pc' words = tl"
        using ins_words_length [OF i(2)] by (metis add.commute append_eq_conv_conj drop_drop)
      from i have "pc' \<le> length words"
        using ins_words_length [OF i(2)] "1.prems" by (auto dest: arg_cong [where f = length])
      with "1.IH" [OF n refl refl, of rest] r
      have "laid_out pc' rest \<and> concat (map ins_words rest) = drop pc' words" by blast
      with i tl Cons show "laid_out pc is \<and> concat (map ins_words is) = drop pc words" by simp
    next
      assume a: "laid_out pc is \<and> concat (map ins_words is) = drop pc words"
      define pc' where "pc' = pc + opcode_words (ins_opcode i)"
      have dr: "drop pc words = ins_words i @ concat (map ins_words rest)" and wf: "ins_wf i"
        using a Cons by simp_all
      then have n: "instruction_next words pc = Some (Ok i, pc')"
        using a Cons by (auto simp: instruction_next_Ok pc'_def)
      have "drop pc' words = concat (map ins_words rest)"
        using dr ins_words_length [OF wf] by (metis add.commute append_eq_conv_conj drop_drop pc'_def)
      moreover have "pc' \<le> length words"
        using dr ins_words_length [OF wf] "1.prems"
        by (auto simp: pc'_def dest: arg_cong [where f = length])
      ultimately have "decode_from words pc' = Ok rest"
        using "1.IH" [OF n refl refl] a Cons by (simp add: pc'_def)
      with step n Cons show "decode_from words pc = Ok is" by auto
    qed
  qed
qed

text \<open>
  C20: decoding succeeds with exactly the instructions that are laid out one after the other
  over the code: the positions are consecutive, every instruction has its opcode's number of
  words, and together they are the code, word for word. Decoding never panics.
\<close>

theorem decode_exact:
  assumes "alloc (length words)"
  shows "(decode alloc words = Ok is \<longleftrightarrow> laid_out 0 is \<and> concat (map ins_words is) = words) \<and>
    decode alloc words \<noteq> Panic"
  using assms decode_from_exact [of 0 words "is"] decode_from_not_Panic [of words 0]
  by (simp add: decode_def)

theorem decode_exact_witness:
  "decode (\<lambda>_. True) [0x00010004, 0x00000007, 0x0000000C] =
     Ok [\<lparr>ins_pc = 0, ins_word = 0x00010004, ins_opcode = OpLoadN, ins_aux = None\<rparr>,
         \<lparr>ins_pc = 1, ins_word = 0x00000007, ins_opcode = OpGetGlobal, ins_aux = Some 0x0C\<rparr>]"
  using decode_exact [of "\<lambda>_. True"]
  by (simp add: ins_words_def ins_wf_def opcode_try_from_Ok opcode_words_def)

text \<open>Facts of a laid-out code vector that the validator rests on.\<close>

lemma laid_out_wf: "laid_out pc is \<Longrightarrow> i \<in> set is \<Longrightarrow> ins_wf i"
  by (induction pc "is" rule: laid_out.induct) auto

lemma laid_out_pc:
  "laid_out pc is \<Longrightarrow> i \<in> set is \<Longrightarrow>
     pc \<le> ins_pc i \<and> ins_pc i + opcode_words (ins_opcode i) \<le> pc + length (concat (map ins_words is))"
proof (induction pc "is" rule: laid_out.induct)
  case (2 pc j js)
  then show ?case using ins_words_length [of j] by (cases "i = j") fastforce+
qed simp

lemma laid_out_pc_lt:
  assumes "laid_out 0 is" and "concat (map ins_words is) = words" and "i \<in> set is"
  shows "ins_pc i < length words"
  using laid_out_pc [OF assms(1,3)] opcode_words_cases [of "ins_opcode i"] assms(2) by auto

lemma laid_out_sorted: "laid_out pc is \<Longrightarrow> strict_sorted (map ins_pc is)"
proof (induction pc "is" rule: laid_out.induct)
  case (2 pc j js)
  then show ?case using laid_out_pc [of "pc + opcode_words (ins_opcode j)" js]
    opcode_words_cases [of "ins_opcode j"] by fastforce
qed simp

text \<open>The jump target is the position plus the operand's offset, whenever there is one.\<close>

lemma jump_target_delta:
  "jump_target i = Some t \<Longrightarrow> \<exists>delta. jump_delta i = Some delta \<and> int t = int (ins_pc i) + delta"
  by (auto simp: jump_target_def i64_try_from_def usize_try_from_def split: option.splits if_splits)

end
