(* ===== verification/Luau_Reader.thy ===== *)
theory Luau_Reader
  imports Luau_Instruction
begin

text \<open>
  The byte reader of \<open>blu-bytecode/src/chunk.rs\<close>: fixed-width reads, the base-128 varint, and
  string references, with the errors of the loader. The reader is threaded as a record; it
  provides the contract of \<open>byte_cursor\<close> and \<open>growing_cursor\<close>, from which the facts about
  every parser built on it follow.
\<close>

record validation_allocation =
  va_what :: string
  va_requested :: nat

record validation_error =
  ve_prototype :: nat
  ve_pc :: "nat option"
  ve_message :: string
  ve_allocation :: "validation_allocation option"

datatype chunk_error =
    TooLarge string nat nat
  | UnexpectedEnd nat nat nat
  | InvalidVarint nat
  | CompileError bytes
  | UnsupportedVersion byte
  | UnsupportedTypeinfoVersion byte
  | InvalidConstantTag nat byte
  | InvalidStringRef nat "32 word" nat
  | InvalidIndex string nat nat
  | InvalidFeedbackType nat byte
  | InvalidPrototypeSize nat nat nat
  | TrailingBytes nat
  | ChunkInstruction nat decode_error
  | ChunkValidation validation_error

definition ensure_limit :: "string \<Rightarrow> nat \<Rightarrow> nat \<Rightarrow> (unit, chunk_error) res" where
  "ensure_limit what actual limit =
     (if limit < actual then Err (TooLarge what actual limit) else Ok ())"

definition valid_index :: "string \<Rightarrow> nat \<Rightarrow> nat \<Rightarrow> (unit, chunk_error) res" where
  "valid_index what index count =
     (if index < count then Ok () else Err (InvalidIndex what index count))"

lemma ensure_limit_simps [res_simps]:
  "ensure_limit w a l = Ok u \<longleftrightarrow> a \<le> l" "ensure_limit w a l = Panic \<longleftrightarrow> False"
  by (simp_all add: ensure_limit_def not_less)

lemma valid_index_simps [res_simps]:
  "valid_index w i n = Ok u \<longleftrightarrow> i < n" "valid_index w i n = Panic \<longleftrightarrow> False"
  by (simp_all add: valid_index_def)

section \<open>The reader\<close>

record reader =
  rd_bytes :: bytes
  rd_offset :: nat

type_synonym 'a read = "reader \<Rightarrow> ('a \<times> reader, chunk_error) res"

definition reader_new :: "bytes \<Rightarrow> reader" where
  "reader_new bs = \<lparr>rd_bytes = bs, rd_offset = 0\<rparr>"

definition reader_rest :: "bytes read" where
  "reader_rest r =
     rbind (slice_at (rd_bytes r) (rd_offset r) (length (rd_bytes r))) (\<lambda>rest.
     Ok (rest, r\<lparr>rd_offset := length (rd_bytes r)\<rparr>))"

definition reader_here :: "nat read" where
  "reader_here r = Ok (rd_offset r, r)"

definition reader_bytes :: "nat \<Rightarrow> bytes read" where
  "reader_bytes count r =
     (let remaining = saturating_sub (length (rd_bytes r)) (rd_offset r) in
      if remaining < count then Err (UnexpectedEnd (rd_offset r) count remaining)
      else rbind (slice_at (rd_bytes r) (rd_offset r) (rd_offset r + count)) (\<lambda>bs.
           Ok (bs, r\<lparr>rd_offset := rd_offset r + count\<rparr>)))"

definition reader_byte :: "byte read" where
  "reader_byte r = rbind (reader_bytes 1 r) (\<lambda>(bs, r). rbind (index_at bs 0) (\<lambda>b. Ok (b, r)))"

text \<open>\<open>slice.try_into().unwrap()\<close> for an array of \<open>n\<close> bytes.\<close>

definition to_array :: "nat \<Rightarrow> bytes \<Rightarrow> (bytes, chunk_error) res" where
  "to_array n bs = (if length bs = n then Ok bs else Panic)"

definition reader_u32 :: "32 word read" where
  "reader_u32 r =
     rbind (reader_bytes 4 r) (\<lambda>(bs, r). rbind (to_array 4 bs) (\<lambda>a. Ok (u32_from_le a, r)))"

definition reader_i32 :: "int read" where
  "reader_i32 r =
     rbind (reader_bytes 4 r) (\<lambda>(bs, r). rbind (to_array 4 bs) (\<lambda>a. Ok (sint (u32_from_le a), r)))"

text \<open>Floating-point constants are carried as their bit patterns.\<close>

definition reader_f32 :: "32 word read" where
  "reader_f32 r = reader_u32 r"

definition reader_f64 :: "64 word read" where
  "reader_f64 r =
     rbind (reader_bytes 8 r) (\<lambda>(bs, r). rbind (to_array 8 bs) (\<lambda>a. Ok (u64_from_le a, r)))"

fun varint_loop :: "nat \<Rightarrow> nat list \<Rightarrow> 64 word \<Rightarrow> 64 word read" where
  "varint_loop start [] result r = Err (InvalidVarint start)"
| "varint_loop start (shift # shifts) result r =
     rbind (reader_byte r) (\<lambda>(b, r).
     let payload = ucast (b AND 0x7F) :: 64 word in
     if shift = 63 \<and> 1 < payload then Err (InvalidVarint start)
     else let result = result OR push_bit shift payload in
       if b AND 0x80 = 0 then Ok (result, r)
       else varint_loop start shifts result r)"

definition varint_shifts :: "nat list" where
  "varint_shifts = [0, 7, 14, 21, 28, 35, 42, 49, 56, 63]"

definition u64_varint :: "64 word read" where
  "u64_varint r = rbind (reader_here r) (\<lambda>(start, r). varint_loop start varint_shifts 0 r)"

definition usize_varint :: "nat read" where
  "usize_varint r =
     rbind (u64_varint r) (\<lambda>(v, r).
     rbind (ensure (unat v \<le> usize_max) (InvalidVarint (rd_offset r))) (\<lambda>_. Ok (unat v, r)))"

definition u32_varint :: "32 word read" where
  "u32_varint r =
     rbind (u64_varint r) (\<lambda>(v, r).
     rbind (ensure (unat v < 2 ^ 32) (InvalidVarint (rd_offset r))) (\<lambda>_. Ok (ucast v, r)))"

definition reader_count :: "string \<Rightarrow> nat \<Rightarrow> nat read" where
  "reader_count what limit r =
     rbind (usize_varint r) (\<lambda>(count, r).
     rbind (ensure_limit what count limit) (\<lambda>_. Ok (count, r)))"

definition string_ref :: "nat \<Rightarrow> nat option read" where
  "string_ref count r =
     rbind (reader_here r) (\<lambda>(offset, r).
     rbind (u32_varint r) (\<lambda>(reference, r).
     if reference = 0 then Ok (None, r)
     else let index = unat (reference - 1) in
       if count \<le> index then Err (InvalidStringRef offset reference count)
       else Ok (Some index, r)))"

section \<open>The reader keeps the cursor contract\<close>

definition rd_sound :: "reader \<Rightarrow> bool" where
  "rd_sound r \<longleftrightarrow> rd_offset r \<le> length (rd_bytes r)"

definition rd_pending :: "reader \<Rightarrow> bytes" where
  "rd_pending r = drop (rd_offset r) (rd_bytes r)"

definition rd_adv :: "reader \<Rightarrow> nat \<Rightarrow> reader" where
  "rd_adv r n = r\<lparr>rd_offset := rd_offset r + n\<rparr>"

definition rd_ext :: "reader \<Rightarrow> bytes \<Rightarrow> reader" where
  "rd_ext r zs = r\<lparr>rd_bytes := rd_bytes r @ zs\<rparr>"

interpretation rd: growing_cursor "\<lambda>r n. reader_bytes n r" rd_pending rd_adv rd_sound rd_ext
proof unfold_locales
  fix r n
  assume "rd_sound r" "n \<le> length (rd_pending r)"
  then show "reader_bytes n r = Ok (take n (rd_pending r), rd_adv r n)"
    by (simp add: reader_bytes_def rd_sound_def rd_pending_def rd_adv_def saturating_sub_def slice_at_def)
next
  fix r n
  assume "rd_sound r" "length (rd_pending r) < n"
  then show "\<exists>e. reader_bytes n r = Err e"
    by (simp add: reader_bytes_def rd_pending_def saturating_sub_def)
qed (simp_all add: rd_sound_def rd_pending_def rd_adv_def rd_ext_def add.commute add.assoc)

abbreviation reads :: "'a read \<Rightarrow> ('a \<Rightarrow> bool) \<Rightarrow> bool" where
  "reads p Q \<equiv> parses rd_sound rd_pending rd_adv rd_ext p Q"

lemma reads_here: "reads reader_here (\<lambda>_. True)"
  unfolding parses_def parses_at_def
  by (auto simp: reader_here_def rd_adv_def rd_ext_def intro!: exI [of _ 0])

lemma reads_bytes: "reads (reader_bytes n) (\<lambda>bs. length bs = n)"
  using rd.parses_take [of n] by simp

lemma reads_byte: "reads reader_byte (\<lambda>_. True)"
  unfolding reader_byte_def
  by (rule rd.parses_bind [OF reads_bytes])
    (auto simp: index_at_def intro!: rd.parses_return)

lemma reads_u32: "reads reader_u32 (\<lambda>_. True)"
  unfolding reader_u32_def
  by (rule rd.parses_bind [OF reads_bytes]) (auto simp: to_array_def intro!: rd.parses_return)

lemma reads_i32: "reads reader_i32 (\<lambda>_. True)"
  unfolding reader_i32_def
  by (rule rd.parses_bind [OF reads_bytes]) (auto simp: to_array_def intro!: rd.parses_return)

lemma reads_f32: "reads reader_f32 (\<lambda>_. True)"
  unfolding reader_f32_def by (rule reads_u32)

lemma reads_f64: "reads reader_f64 (\<lambda>_. True)"
  unfolding reader_f64_def
  by (rule rd.parses_bind [OF reads_bytes]) (auto simp: to_array_def intro!: rd.parses_return)

lemma reads_varint_loop: "reads (varint_loop start shifts result) (\<lambda>_. True)"
proof (induction shifts arbitrary: result)
  case Nil
  have "varint_loop start [] result = (\<lambda>r. Err (InvalidVarint start))" by (rule ext) simp
  then show ?case by (simp add: rd.parses_fail)
next
  case (Cons shift shifts)
  show ?case unfolding varint_loop.simps Let_def
    by (intro rd.parses_bind [OF reads_byte] rd.parses_if rd.parses_fail rd.parses_return Cons TrueI)
qed

lemma reads_u64_varint: "reads u64_varint (\<lambda>_. True)"
  unfolding u64_varint_def by (intro rd.parses_bind [OF reads_here] reads_varint_loop)

lemma reads_usize_varint: "reads usize_varint (\<lambda>n. n \<le> usize_max)"
  unfolding usize_varint_def
  by (intro rd.parses_bind [OF reads_u64_varint] rd.parses_ensure rd.parses_return)

lemma reads_u32_varint: "reads u32_varint (\<lambda>_. True)"
  unfolding u32_varint_def
  by (intro rd.parses_bind [OF reads_u64_varint] rd.parses_ensure rd.parses_return TrueI)

lemma reads_count: "reads (reader_count what limit) (\<lambda>n. n \<le> limit)"
  unfolding reader_count_def
  by (intro rd.parses_bind [OF reads_usize_varint] rd.parses_pure rd.parses_return)
    (simp_all add: res_simps)

lemma reads_string_ref: "reads (string_ref count) (\<lambda>s. \<forall>i. s = Some i \<longrightarrow> i < count)"
  unfolding string_ref_def Let_def
  by (intro rd.parses_bind [OF reads_here] rd.parses_bind [OF reads_u32_varint] rd.parses_if
      rd.parses_fail rd.parses_return) auto

end
