(* ===== verification/Luau_Varint.thy ===== *)
theory Luau_Varint
  imports Luau_Reader
begin

text \<open>
  The varints of the bytecode are base 128, least significant group first, with the top bit
  of a byte marking continuation. The reader of \<open>chunk.rs\<close> inverts that encoding for every
  64-bit value.
\<close>

fun leb128 :: "nat \<Rightarrow> bytes" where
  "leb128 n = (if n < 128 then [word_of_nat n] else word_of_nat (128 + n mod 128) # leb128 (n div 128))"

declare leb128.simps [simp del]

lemma or_push_bit:
  fixes r p :: "64 word"
  assumes "unat r < 2 ^ s"
  shows "r OR push_bit s p = r + push_bit s p"
proof -
  have "\<not> bit r n \<or> \<not> bit (push_bit s p) n" for n
  proof (cases "n < s")
    case True
    then show ?thesis by (simp add: bit_push_bit_iff)
  next
    case False
    then have "(2::nat) ^ s \<le> 2 ^ n" by simp
    with assms have "unat r < 2 ^ n" by (rule less_le_trans)
    then have "\<not> bit (unat r) n" by (simp add: bit_iff_odd)
    then show ?thesis by (simp add: bit_unsigned_iff)
  qed
  then show ?thesis by (intro disjunctive_add_eq_or [symmetric] bit_eqI) (auto simp: bit_simps)
qed

lemma varint_shifts_map: "varint_shifts = map ((*) 7) [0..<10]"
  by (simp add: varint_shifts_def upt_rec)

lemma varint_shifts_drop: "k < 10 \<Longrightarrow> drop k varint_shifts = 7 * k # drop (Suc k) varint_shifts"
proof -
  assume k: "k < 10"
  then have "k < length varint_shifts" by (simp add: varint_shifts_def)
  then have "drop k varint_shifts = varint_shifts ! k # drop (Suc k) varint_shifts"
    by (simp only: Cons_nth_drop_Suc)
  moreover have "varint_shifts ! k = 7 * k"
    unfolding varint_shifts_map using k by (subst nth_map) (simp_all del: upt_Suc add: nth_upt)
  ultimately show ?thesis by simp
qed

lemma unat_and_7F: "unat (b AND 0x7F :: byte) = unat b mod 128"
proof -
  have "b AND 0x7F = take_bit 7 b" by (simp add: take_bit_eq_mask mask_eq_exp_minus_1)
  then have "unat (b AND 0x7F) = take_bit 7 (unat b)" by (simp only: unsigned_take_bit_eq)
  then show ?thesis by (simp add: take_bit_eq_mod)
qed

lemma and_80: "(b :: byte) AND 0x80 = 0 \<longleftrightarrow> unat b < 128"
proof -
  have "(b AND 2 ^ 7 = 0) = (\<not> bit b 7)" by (rule and_exp_eq_0_iff_not_bit)
  moreover have "bit b 7 = bit (unat b) 7" by (simp add: bit_unsigned_iff)
  moreover have "bit (unat b) 7 = odd (unat b div 128)" by (simp add: bit_iff_odd)
  moreover have "unat b div 128 = 0 \<or> unat b div 128 = 1" using unat_byte_lt [of b] by linarith
  ultimately show ?thesis by (auto simp: div_eq_0_iff)
qed

lemma reads_byte_as: "reads_as rd_sound rd_pending rd_adv reader_byte [b] b"
  using rd.reads_take [of "[b]" 1] by (simp add: reads_as_def reader_byte_def index_at_def)

lemma varint_loop_leb128:
  assumes "k < 10" and "unat result < 2 ^ (7 * k)" and "n < 2 ^ (64 - 7 * k)"
  shows "reads_as rd_sound rd_pending rd_adv (varint_loop start (drop k varint_shifts) result)
    (leb128 n) (result + word_of_nat (n * 2 ^ (7 * k)))"
  using assms
proof (induction n arbitrary: k result rule: leb128.induct)
  case (1 n)
  let ?s = "7 * k"
  have shifts: "drop k varint_shifts = ?s # drop (Suc k) varint_shifts"
    using "1.prems"(1) by (rule varint_shifts_drop)
  have or: "result OR word_of_nat m * 2 ^ ?s = result + word_of_nat m * 2 ^ ?s" for m
    using or_push_bit [OF "1.prems"(2), of "word_of_nat m"] by (simp add: push_bit_eq_mult)
  show ?case
  proof (cases "n < 128")
    case True
    define b :: byte where "b = word_of_nat n"
    have b: "unat b = n" using True by (simp add: b_def unat_of_nat_byte)
    have "unat (b AND 0x7F) = n" using True by (simp add: unat_and_7F b)
    then have pay: "ucast (b AND 0x7F) = (word_of_nat n :: 64 word)" by (metis of_nat_unat)
    have "\<not> (?s = 63 \<and> 1 < (word_of_nat n :: 64 word))"
    proof
      assume a: "?s = 63 \<and> 1 < (word_of_nat n :: 64 word)"
      then have "n < 2" using "1.prems"(3) by simp
      then have "n = 0 \<or> n = 1" by auto
      then show False using a by auto
    qed
    moreover have "b AND 0x80 = 0" using True by (simp add: and_80 b)
    moreover have "leb128 n = [b]" using True by (simp add: leb128.simps [of n] b_def)
    ultimately show ?thesis using reads_byte_as [of b]
      by (auto simp: shifts reads_as_def Let_def pay or push_bit_eq_mult)
  next
    case False
    define b :: byte where "b = word_of_nat (128 + n mod 128)"
    define m where "m = n mod 128"
    have b: "unat b = 128 + m" unfolding b_def m_def
      by (subst unat_of_nat_byte) (simp add: mod_less)
    have "unat (b AND 0x7F) = m" by (simp add: unat_and_7F b m_def)
    then have pay: "ucast (b AND 0x7F) = (word_of_nat m :: 64 word)" by (metis of_nat_unat)
    have k: "k < 9"
    proof (rule ccontr)
      assume "\<not> k < 9"
      then have "k = 9" using "1.prems"(1) by simp
      then show False using "1.prems"(3) False by simp
    qed
    define result' where "result' = result + word_of_nat (m * 2 ^ ?s)"
    have m: "m < 128" by (simp add: m_def)
    have "unat result + m * 2 ^ ?s < 2 ^ (7 * Suc k)"
    proof -
      have "m * 2 ^ ?s \<le> 127 * 2 ^ ?s" using m by simp
      then have "unat result + m * 2 ^ ?s < 2 ^ ?s + 127 * 2 ^ ?s"
        using "1.prems"(2) by linarith
      then show ?thesis by (simp add: power_add)
    qed
    moreover have "(2 :: nat) ^ (7 * Suc k) \<le> 2 ^ 64" using k by (intro power_increasing) auto
    moreover have "result' = word_of_nat (unat result + m * 2 ^ ?s)" by (simp add: result'_def)
    then have "unat result' = take_bit 64 (unat result + m * 2 ^ ?s)" by (simp only: unsigned_of_nat) simp
    then have "unat result' \<le> unat result + m * 2 ^ ?s" by (simp only: take_bit_nat_less_eq_self)
    ultimately have res: "unat result' < 2 ^ (7 * Suc k)" by linarith
    have rest: "n div 128 < 2 ^ (64 - 7 * Suc k)"
    proof -
      have "(2 :: nat) ^ (64 - ?s) = 128 * 2 ^ (64 - 7 * Suc k)"
      proof -
        have "64 - ?s = 7 + (64 - 7 * Suc k)" using k by simp
        then have "(2 :: nat) ^ (64 - ?s) = 2 ^ 7 * 2 ^ (64 - 7 * Suc k)" by (simp only: power_add)
        then show ?thesis by simp
      qed
      then show ?thesis using "1.prems"(3) by (simp add: less_mult_imp_div_less mult.commute)
    qed
    have nz: "b AND 0x80 \<noteq> 0" by (simp add: and_80 b)
    have leb: "leb128 n = b # leb128 (n div 128)" using False by (simp add: leb128.simps [of n] b_def)
    have sum: "result' + word_of_nat (n div 128 * 2 ^ (7 * Suc k)) = result + word_of_nat (n * 2 ^ ?s)"
    proof -
      have "n * 2 ^ ?s = m * 2 ^ ?s + n div 128 * 2 ^ (7 * Suc k)"
      proof -
        have "n = m + 128 * (n div 128)" by (simp add: m_def)
        then have "n * 2 ^ ?s = (m + 128 * (n div 128)) * 2 ^ ?s" by (rule arg_cong)
        also have "\<dots> = m * 2 ^ ?s + n div 128 * (128 * 2 ^ ?s)" by (simp only: distrib_right mult.assoc mult.left_commute)
        also have "(128 :: nat) * 2 ^ ?s = 2 ^ (7 * Suc k)" by (simp add: power_add)
        finally show ?thesis .
      qed
      then show ?thesis unfolding result'_def by (simp only: of_nat_add add.assoc)
    qed
    have "Suc k < 10" using k by simp
    from "1.IH" [OF False this res rest]
    have ih: "reads_as rd_sound rd_pending rd_adv (varint_loop start (drop (Suc k) varint_shifts) result')
        (leb128 (n div 128)) (result + word_of_nat (n * 2 ^ ?s))"
      by (simp only: sum)
    have "?s \<noteq> 63" using k by simp
    show ?thesis
      unfolding reads_as_def
    proof (intro allI impI)
      fix r tl
      assume r: "rd_sound r \<and> rd_pending r = leb128 n @ tl"
      then have "reader_byte r = Ok (b, rd_adv r 1)"
        using reads_byte_as [of b] by (simp add: reads_as_def leb)
      then have "varint_loop start (drop k varint_shifts) result r =
          varint_loop start (drop (Suc k) varint_shifts) result' (rd_adv r 1)"
        using \<open>?s \<noteq> 63\<close> nz by (simp add: shifts Let_def pay or push_bit_eq_mult result'_def)
      moreover have "rd_sound (rd_adv r 1)" "rd_pending (rd_adv r 1) = leb128 (n div 128) @ tl"
        using r rd.sound_adv [of r 1] rd.pending_adv [of r 1] by (simp_all add: leb)
      ultimately show "varint_loop start (drop k varint_shifts) result r =
          Ok (result + word_of_nat (n * 2 ^ ?s), rd_adv r (length (leb128 n)))"
        using ih by (simp add: reads_as_def leb rd.adv_adv)
    qed
  qed
qed

text \<open>
  The varint reader gives back every 64-bit value from its base-128 encoding, moves past
  exactly the bytes of the encoding, and leaves what follows untouched.
\<close>

theorem u64_varint_roundtrip:
  assumes "n < 2 ^ 64" and "rd_sound r" and "rd_pending r = leb128 n @ rest"
  shows "\<exists>r'. u64_varint r = Ok (word_of_nat n, r') \<and> rd_pending r' = rest \<and>
    rd_offset r' = rd_offset r + length (leb128 n)"
proof -
  have "u64_varint r = Ok (word_of_nat n, rd_adv r (length (leb128 n)))"
    using varint_loop_leb128 [of 0 0 n "rd_offset r"] assms
    by (simp add: reads_as_def u64_varint_def reader_here_def)
  moreover have "rd_pending (rd_adv r (length (leb128 n))) = rest"
    using rd.pending_adv [of r "length (leb128 n)"] assms by simp
  ultimately show ?thesis by (simp add: rd_adv_def)
qed

theorem u64_varint_roundtrip_witness:
  "\<exists>r'. u64_varint (reader_new [0xAC, 0x02, 0x07]) = Ok (300, r') \<and> rd_pending r' = [0x07]"
  using u64_varint_roundtrip [of 300 "reader_new [0xAC, 0x02, 0x07]" "[0x07]"]
  by (auto simp: leb128.simps reader_new_def rd_sound_def rd_pending_def)

end
