(* ===== verification/Luau_Chunk.thy ===== *)
theory Luau_Chunk
  imports Luau_Varint
begin

text \<open>
  The chunk of \<open>blu-bytecode/src/chunk.rs\<close>: limits, constants, prototypes, and the parsers of
  one constant and one prototype, with what each guarantees of its result. A floating-point
  constant is its bit pattern, an \<open>i32\<close> or \<open>i64\<close> the integer it stands for.
\<close>

record load_limits =
  max_bytes :: nat
  max_strings :: nat
  max_string_bytes :: nat
  max_prototypes :: nat
  max_code_words :: nat
  max_constants :: nat
  max_debug_entries :: nat

definition default_load_limits :: load_limits where
  "default_load_limits =
     \<lparr>max_bytes = 64 * 1024 * 1024, max_strings = 1000000, max_string_bytes = 32 * 1024 * 1024,
      max_prototypes = 100000, max_code_words = 8000000, max_constants = 8000000,
      max_debug_entries = 8000000\<rparr>"

datatype luau_constant =
    CNil
  | CBoolean bool
  | CNumber "64 word"
  | CInteger int
  | CVector "32 word list"
  | CVectorDouble "64 word list"
  | CString nat
  | CImport "32 word"
  | CTable "nat list"
  | CTableWithConstants "(nat \<times> int) list"
  | CClosure nat
  | CClassShape nat "nat list" "nat list"

record line_info =
  ln_gap_log2 :: byte
  ln_deltas :: bytes
  ln_absolute_deltas :: "int list"

record debug_local =
  dl_name :: "nat option"
  dl_start_pc :: "32 word"
  dl_end_pc :: "32 word"
  dl_register :: byte

record debug_info =
  di_locals :: "debug_local list"
  di_upvalue_names :: "nat option list"

record feedback_slot =
  fs_pc :: "32 word"

record prototype =
  p_max_stack_size :: byte
  p_parameter_count :: byte
  p_upvalue_count :: byte
  p_is_vararg :: bool
  p_flags :: byte
  p_typeinfo :: bytes
  p_code :: "32 word list"
  p_instructions :: "instruction list"
  p_constants :: "luau_constant list"
  p_children :: "nat list"
  p_line_defined :: "32 word"
  p_debug_name :: "nat option"
  p_line_info :: "line_info option"
  p_debug_info :: "debug_info option"
  p_feedback :: "feedback_slot list"
  p_cost :: "64 word option"

record chunk =
  ch_version :: byte
  ch_typeinfo_version :: byte
  ch_strings :: "bytes list"
  ch_userdata_types :: "(byte \<times> nat) list"
  ch_prototypes :: "prototype list"
  ch_main :: nat

section \<open>Capacities\<close>

text \<open>
  The vectors of the loader are allocated by \<open>Vec::with_capacity\<close> before their elements are read,
  one for each count of the input. It panics with a capacity overflow when the capacity times the
  size of an element exceeds \<open>isize::MAX\<close>. The sizes Rust gives the element types are not fixed by
  the source: they are the argument \<open>size_of\<close> of the loader.
\<close>

datatype vec_element =
    VecBytes
  | VecPrototype
  | VecWord
  | VecConstant
  | VecIndex
  | VecDelta
  | VecLocal
  | VecName
  | VecFeedback
  | VecEntry

type_synonym sizes = "vec_element \<Rightarrow> nat"

definition isize_max :: nat where "isize_max = 2 ^ 63 - 1"

definition with_capacity :: "sizes \<Rightarrow> vec_element \<Rightarrow> nat \<Rightarrow> (unit, 'e) res" where
  "with_capacity size_of t n = (if isize_max < n * size_of t then Panic else Ok ())"

lemma with_capacity_simps [res_simps]:
  "with_capacity size_of t n = Panic \<longleftrightarrow> isize_max < n * size_of t"
  "with_capacity size_of t n = Ok u \<longleftrightarrow> n * size_of t \<le> isize_max"
  "with_capacity size_of t n \<noteq> Err e"
  by (simp_all add: with_capacity_def not_less)

text \<open>
  Limits under which no capacity overflows: every bound times the size of what it counts. The names
  of the upvalues are at most as many as the prototype's byte says.
\<close>

definition capacities_fit :: "sizes \<Rightarrow> load_limits \<Rightarrow> bool" where
  "capacities_fit size_of limits \<longleftrightarrow>
     max_strings limits * size_of VecBytes \<le> isize_max \<and>
     max_prototypes limits * size_of VecPrototype \<le> isize_max \<and>
     max_prototypes limits * size_of VecIndex \<le> isize_max \<and>
     max_code_words limits * size_of VecWord \<le> isize_max \<and>
     max_code_words limits * size_of VecDelta \<le> isize_max \<and>
     max_code_words limits * size_of VecFeedback \<le> isize_max \<and>
     max_constants limits * size_of VecConstant \<le> isize_max \<and>
     max_constants limits * size_of VecIndex \<le> isize_max \<and>
     max_constants limits * size_of VecEntry \<le> isize_max \<and>
     max_debug_entries limits * size_of VecLocal \<le> isize_max \<and>
     255 * size_of VecName \<le> isize_max"

lemma capacity_within: "m * s \<le> isize_max \<Longrightarrow> n \<le> m \<Longrightarrow> n * s \<le> isize_max"
  by (rule order_trans [OF mult_le_mono1])

lemma capacities_within:
  assumes "capacities_fit size_of limits"
  shows "n \<le> max_strings limits \<Longrightarrow> n * size_of VecBytes \<le> isize_max"
    and "n \<le> max_prototypes limits \<Longrightarrow> n * size_of VecPrototype \<le> isize_max"
    and "n \<le> max_prototypes limits \<or> n \<le> max_constants limits \<Longrightarrow> n * size_of VecIndex \<le> isize_max"
    and "n \<le> max_code_words limits \<Longrightarrow> n * size_of VecWord \<le> isize_max"
    and "n \<le> max_code_words limits \<Longrightarrow> n * size_of VecDelta \<le> isize_max"
    and "n \<le> max_code_words limits \<Longrightarrow> n * size_of VecFeedback \<le> isize_max"
    and "n \<le> max_constants limits \<Longrightarrow> n * size_of VecConstant \<le> isize_max"
    and "n \<le> max_constants limits \<Longrightarrow> n * size_of VecEntry \<le> isize_max"
    and "n \<le> max_debug_entries limits \<Longrightarrow> n * size_of VecLocal \<le> isize_max"
    and "unat (b :: byte) * size_of VecName \<le> isize_max"
proof -
  have b: "unat b \<le> 255" using unat_byte_lt [of b] by linarith
  have "255 * size_of VecName \<le> isize_max" using assms unfolding capacities_fit_def by blast
  then show "unat b * size_of VecName \<le> isize_max" using b by (rule capacity_within)
qed (use assms in \<open>auto simp: capacities_fit_def intro: capacity_within\<close>)

lemma capacity_granted:
  "capacities_fit size_of limits \<Longrightarrow> n * size_of t \<le> isize_max \<Longrightarrow> with_capacity size_of t n \<noteq> Panic"
  by (simp add: res_simps)

lemma capacities_fit_zero [simp]: "capacities_fit (\<lambda>_. 0) limits"
  by (simp add: capacities_fit_def)

lemma default_capacities_fit: "(\<And>t. size_of t \<le> 2 ^ 40) \<Longrightarrow> capacities_fit size_of default_load_limits"
proof -
  assume s: "\<And>t. size_of t \<le> 2 ^ 40"
  have "n * size_of t \<le> isize_max" if "n \<le> 8000000" for n t
  proof -
    from that s [of t] have "n * size_of t \<le> 8000000 * 2 ^ 40" by (rule mult_le_mono)
    then show ?thesis by (simp add: isize_max_def)
  qed
  then show ?thesis by (simp add: capacities_fit_def default_load_limits_def)
qed

section \<open>Constants\<close>

definition load_table_key :: "nat \<Rightarrow> nat read" where
  "load_table_key constant_count r =
     rbind (usize_varint r) (\<lambda>(key, r).
     rbind (valid_index ''table key constant'' key constant_count) (\<lambda>_. Ok (key, r)))"

definition load_table_entry :: "nat \<Rightarrow> (nat \<times> int) read" where
  "load_table_entry constant_count r =
     rbind (usize_varint r) (\<lambda>(key, r).
     rbind (valid_index ''table key constant'' key constant_count) (\<lambda>_.
     rbind (reader_i32 r) (\<lambda>(value, r).
     rbind (if 0 \<le> value then valid_index ''table value constant'' (nat value) constant_count
            else Ok ()) (\<lambda>_.
     Ok ((key, value), r)))))"

definition load_class_member :: "string \<Rightarrow> nat \<Rightarrow> nat read" where
  "load_class_member what constant_count r =
     rbind (usize_varint r) (\<lambda>(v, r).
     rbind (valid_index what v constant_count) (\<lambda>_. Ok (v, r)))"

definition integer_of_magnitude :: "bool \<Rightarrow> 64 word \<Rightarrow> nat \<Rightarrow> (int, chunk_error) res" where
  "integer_of_magnitude negative magnitude offset =
     (if negative then
        (if magnitude = push_bit 63 1 then Ok i64_min
         else rbind (ok_or (i64_try_from (uint magnitude)) (InvalidVarint offset)) (\<lambda>v. Ok (- v)))
      else ok_or (i64_try_from (uint magnitude)) (InvalidVarint offset))"

definition load_constant :: "sizes \<Rightarrow> byte \<Rightarrow> nat \<Rightarrow> nat \<Rightarrow> nat \<Rightarrow> load_limits \<Rightarrow> luau_constant read" where
  "load_constant size_of version prototype_count string_count constant_count limits r =
     rbind (reader_here r) (\<lambda>(offset, r).
     rbind (reader_byte r) (\<lambda>(tag, r).
     if tag = 0 then Ok (CNil, r)
     else if tag = 1 then
       rbind (reader_byte r) (\<lambda>(b, r). Ok (CBoolean (b \<noteq> 0), r))
     else if tag = 2 then
       rbind (reader_f64 r) (\<lambda>(n, r). Ok (CNumber n, r))
     else if tag = 3 then
       rbind (string_ref string_count r) (\<lambda>(s, r).
       rbind (ok_or s (InvalidStringRef offset 0 string_count)) (\<lambda>i. Ok (CString i, r)))
     else if tag = 4 then
       rbind (reader_u32 r) (\<lambda>(n, r). Ok (CImport n, r))
     else if tag = 5 then
       rbind (reader_count ''table keys'' (max_constants limits) r) (\<lambda>(count, r).
       rbind (with_capacity size_of VecIndex count) (\<lambda>_.
       rbind (read_n count (load_table_key constant_count) r) (\<lambda>(keys, r). Ok (CTable keys, r))))
     else if tag = 6 then
       rbind (usize_varint r) (\<lambda>(proto, r).
       rbind (valid_index ''closure prototype'' proto prototype_count) (\<lambda>_. Ok (CClosure proto, r)))
     else if tag = 7 then
       rbind (read_n 4 reader_f32 r) (\<lambda>(v, r). Ok (CVector v, r))
     else if tag = 8 \<and> 7 \<le> version then
       rbind (reader_count ''constant table keys'' (max_constants limits) r) (\<lambda>(count, r).
       rbind (with_capacity size_of VecEntry count) (\<lambda>_.
       rbind (read_n count (load_table_entry constant_count) r) (\<lambda>(entries, r).
       Ok (CTableWithConstants entries, r))))
     else if tag = 9 \<and> 8 \<le> version then
       rbind (reader_byte r) (\<lambda>(negative, r).
       rbind (u64_varint r) (\<lambda>(magnitude, r).
       rbind (integer_of_magnitude (negative \<noteq> 0) magnitude offset) (\<lambda>v. Ok (CInteger v, r))))
     else if tag = 10 \<and> 10 \<le> version then
       rbind (usize_varint r) (\<lambda>(class_name, r).
       rbind (valid_index ''class name constant'' class_name constant_count) (\<lambda>_.
       rbind (reader_count ''class properties'' (max_constants limits) r) (\<lambda>(property_count, r).
       rbind (reader_count ''class methods'' (max_constants limits) r) (\<lambda>(method_count, r).
       rbind (with_capacity size_of VecIndex property_count) (\<lambda>_.
       rbind (with_capacity size_of VecIndex method_count) (\<lambda>_.
       rbind (read_n property_count (load_class_member ''class property constant'' constant_count) r)
         (\<lambda>(properties, r).
       rbind (read_n method_count (load_class_member ''class method constant'' constant_count) r)
         (\<lambda>(methods, r).
       Ok (CClassShape class_name properties methods, r)))))))))
     else if tag = 11 \<and> 12 \<le> version then
       rbind (read_n 4 reader_f64 r) (\<lambda>(v, r). Ok (CVectorDouble v, r))
     else Err (InvalidConstantTag offset tag)))"

text \<open>What a loaded constant may refer to.\<close>

fun constant_loaded :: "nat \<Rightarrow> nat \<Rightarrow> nat \<Rightarrow> load_limits \<Rightarrow> luau_constant \<Rightarrow> bool" where
  "constant_loaded pc sc cc l (CString i) = (i < sc)"
| "constant_loaded pc sc cc l (CTable ks) = (length ks \<le> max_constants l \<and> (\<forall>k\<in>set ks. k < cc))"
| "constant_loaded pc sc cc l (CTableWithConstants es) =
     (length es \<le> max_constants l \<and> (\<forall>(k, v)\<in>set es. k < cc \<and> v < int cc))"
| "constant_loaded pc sc cc l (CClosure i) = (i < pc)"
| "constant_loaded pc sc cc l (CVector v) = (length v = 4)"
| "constant_loaded pc sc cc l (CVectorDouble v) = (length v = 4)"
| "constant_loaded pc sc cc l (CInteger i) = (i64_min \<le> i \<and> i \<le> i64_max)"
| "constant_loaded pc sc cc l (CClassShape n ps ms) =
     (n < cc \<and> (\<forall>k\<in>set ps. k < cc) \<and> (\<forall>k\<in>set ms. k < cc) \<and>
      length ps \<le> max_constants l \<and> length ms \<le> max_constants l)"
| "constant_loaded pc sc cc l _ = True"

lemma integer_of_magnitude_range:
  "integer_of_magnitude neg m off \<noteq> Panic \<and>
   (integer_of_magnitude neg m off = Ok i \<longrightarrow> i64_min \<le> i \<and> i \<le> i64_max)"
proof -
  have "- uint m \<le> 9223372036854775807" using uint_ge_0 [of m] by linarith
  then show ?thesis
    by (auto simp: integer_of_magnitude_def i64_try_from_def i64_min_def i64_max_def res_simps
        split: if_splits)
qed

lemma reads_table_key: "reads (load_table_key n) (\<lambda>k. k < n)"
  unfolding load_table_key_def
  by (intro rd.parses_bind [OF reads_usize_varint] rd.parses_pure rd.parses_return)
    (simp_all add: res_simps)

lemma reads_class_member: "reads (load_class_member what n) (\<lambda>k. k < n)"
  unfolding load_class_member_def
  by (intro rd.parses_bind [OF reads_usize_varint] rd.parses_pure rd.parses_return)
    (simp_all add: res_simps)

lemma reads_table_entry: "reads (load_table_entry n) (\<lambda>(k, v). k < n \<and> v < int n)"
  unfolding load_table_entry_def
  by (intro rd.parses_bind [OF reads_usize_varint] rd.parses_bind [OF reads_i32] rd.parses_pure
      rd.parses_return)
    (auto simp: res_simps split: if_splits)

text \<open>The sequencing rule for every read of this theory, in one bundle.\<close>

lemmas reads_binds = rd.parses_bind [OF reads_here] rd.parses_bind [OF reads_byte]
  rd.parses_bind [OF reads_bytes] rd.parses_bind [OF reads_u32] rd.parses_bind [OF reads_i32]
  rd.parses_bind [OF reads_f64] rd.parses_bind [OF reads_u64_varint]
  rd.parses_bind [OF reads_usize_varint] rd.parses_bind [OF reads_u32_varint]
  rd.parses_bind [OF reads_count] rd.parses_bind [OF reads_string_ref]
  rd.parses_bind [OF rd.parses_n [OF reads_f32]] rd.parses_bind [OF rd.parses_n [OF reads_f64]]
  rd.parses_bind [OF rd.parses_n [OF reads_u32]] rd.parses_bind [OF rd.parses_n [OF reads_i32]]
  rd.parses_bind [OF rd.parses_n [OF reads_table_key]]
  rd.parses_bind [OF rd.parses_n [OF reads_class_member]]
  rd.parses_bind [OF rd.parses_n [OF reads_table_entry]]

lemma reads_constant:
  assumes "capacities_fit size_of limits"
  shows "reads (load_constant size_of version pc sc cc limits) (constant_loaded pc sc cc limits)"
  unfolding load_constant_def
  by (intro reads_binds rd.parses_if rd.parses_fail rd.parses_return rd.parses_ok_or rd.parses_pure
      capacity_granted [OF assms])
    (auto simp: res_simps integer_of_magnitude_range intro: capacities_within [OF assms])

section \<open>Prototypes\<close>

definition load_child :: "nat \<Rightarrow> nat read" where
  "load_child prototype_count r =
     rbind (usize_varint r) (\<lambda>(child, r).
     rbind (valid_index ''child prototype'' child prototype_count) (\<lambda>_. Ok (child, r)))"

definition line_intervals :: "nat \<Rightarrow> byte \<Rightarrow> nat" where
  "line_intervals code_count gap_log2 =
     (if code_count = 0 then 0 else drop_bit (unat gap_log2) (code_count - 1) + 1)"

definition load_line_info :: "sizes \<Rightarrow> nat \<Rightarrow> line_info option read" where
  "load_line_info size_of code_count r =
     rbind (reader_byte r) (\<lambda>(present, r).
     if present \<noteq> 0 then
       rbind (reader_byte r) (\<lambda>(gap_log2, r).
       if 64 \<le> gap_log2 then Err (InvalidIndex ''line gap shift'' (unat gap_log2) 64)
       else
       rbind (reader_bytes code_count r) (\<lambda>(deltas, r).
       rbind (with_capacity size_of VecDelta (line_intervals code_count gap_log2)) (\<lambda>_.
       rbind (read_n (line_intervals code_count gap_log2) reader_i32 r) (\<lambda>(absolute_deltas, r).
       Ok (Some \<lparr>ln_gap_log2 = gap_log2, ln_deltas = deltas, ln_absolute_deltas = absolute_deltas\<rparr>, r)))))
     else Ok (None, r))"

definition load_debug_local :: "nat \<Rightarrow> debug_local read" where
  "load_debug_local string_count r =
     rbind (string_ref string_count r) (\<lambda>(name, r).
     rbind (u32_varint r) (\<lambda>(start_pc, r).
     rbind (u32_varint r) (\<lambda>(end_pc, r).
     rbind (reader_byte r) (\<lambda>(register, r).
     Ok (\<lparr>dl_name = name, dl_start_pc = start_pc, dl_end_pc = end_pc, dl_register = register\<rparr>, r)))))"

definition load_debug_info :: "sizes \<Rightarrow> nat \<Rightarrow> byte \<Rightarrow> load_limits \<Rightarrow> debug_info option read" where
  "load_debug_info size_of string_count upvalue_count limits r =
     rbind (reader_byte r) (\<lambda>(present, r).
     if present \<noteq> 0 then
       rbind (reader_count ''debug locals'' (max_debug_entries limits) r) (\<lambda>(local_count, r).
       rbind (with_capacity size_of VecLocal local_count) (\<lambda>_.
       rbind (read_n local_count (load_debug_local string_count) r) (\<lambda>(locals, r).
       rbind (reader_count ''debug upvalues'' (max_debug_entries limits) r) (\<lambda>(named_upvalues, r).
       if named_upvalues \<noteq> unat upvalue_count
       then Err (InvalidIndex ''debug upvalue count'' named_upvalues (unat upvalue_count))
       else
       rbind (with_capacity size_of VecName named_upvalues) (\<lambda>_.
       rbind (read_n named_upvalues (string_ref string_count) r) (\<lambda>(upvalue_names, r).
       Ok (Some \<lparr>di_locals = locals, di_upvalue_names = upvalue_names\<rparr>, r)))))))
     else Ok (None, r))"

definition FEEDBACK_CALL_TARGET :: byte where "FEEDBACK_CALL_TARGET = 0"

definition load_feedback_slot :: "feedback_slot read" where
  "load_feedback_slot r =
     rbind (reader_here r) (\<lambda>(offset, r).
     rbind (reader_byte r) (\<lambda>(kind, r).
     if kind \<noteq> FEEDBACK_CALL_TARGET then Err (InvalidFeedbackType offset kind)
     else rbind (u32_varint r) (\<lambda>(pc, r). Ok (\<lparr>fs_pc = pc\<rparr>, r))))"

definition load_feedback :: "sizes \<Rightarrow> byte \<Rightarrow> load_limits \<Rightarrow> feedback_slot list read" where
  "load_feedback size_of version limits r =
     (if 11 \<le> version then
        rbind (reader_count ''feedback slots'' (max_code_words limits) r) (\<lambda>(count, r).
        rbind (with_capacity size_of VecFeedback count) (\<lambda>_.
        read_n count load_feedback_slot r))
      else Ok ([], r))"

definition PROTO_FLAG_INLINABLE :: byte where "PROTO_FLAG_INLINABLE = push_bit 3 1"

definition load_cost :: "byte \<Rightarrow> byte \<Rightarrow> 64 word option read" where
  "load_cost version flags r =
     (if 12 \<le> version \<and> flags AND PROTO_FLAG_INLINABLE \<noteq> 0 then
        rbind (u64_varint r) (\<lambda>(cost, r). Ok (Some cost, r))
      else Ok (None, r))"

definition load_flags :: "byte \<Rightarrow> byte read" where
  "load_flags version r = (if 4 \<le> version then reader_byte r else Ok (0, r))"

definition load_typeinfo :: "byte \<Rightarrow> load_limits \<Rightarrow> bytes read" where
  "load_typeinfo version limits r =
     (if 4 \<le> version then
        rbind (reader_count ''typeinfo bytes'' (max_bytes limits) r) (\<lambda>(n, r).
        reader_bytes n r)
      else Ok ([], r))"

definition load_prototype ::
  "sizes \<Rightarrow> (nat \<Rightarrow> bool) \<Rightarrow> byte \<Rightarrow> nat \<Rightarrow> nat \<Rightarrow> nat \<Rightarrow> load_limits \<Rightarrow> prototype read" where
  "load_prototype size_of alloc version prototype_index prototype_count string_count limits r =
     rbind (reader_byte r) (\<lambda>(max_stack_size, r).
     rbind (reader_byte r) (\<lambda>(parameter_count, r).
     rbind (reader_byte r) (\<lambda>(upvalue_count, r).
     rbind (reader_byte r) (\<lambda>(is_vararg, r).
     rbind (load_flags version r) (\<lambda>(flags, r).
     rbind (load_typeinfo version limits r) (\<lambda>(typeinfo, r).
     rbind (reader_count ''code words'' (max_code_words limits) r) (\<lambda>(code_count, r).
     rbind (with_capacity size_of VecWord code_count) (\<lambda>_.
     rbind (read_n code_count reader_u32 r) (\<lambda>(code, r).
     rbind (map_err (ChunkInstruction prototype_index) (decode alloc code)) (\<lambda>instructions.
     rbind (reader_count ''constants'' (max_constants limits) r) (\<lambda>(constant_count, r).
     rbind (with_capacity size_of VecConstant constant_count) (\<lambda>_.
     rbind (read_n constant_count
              (load_constant size_of version prototype_count string_count constant_count limits) r)
       (\<lambda>(constants, r).
     rbind (reader_count ''child prototypes'' (max_prototypes limits) r) (\<lambda>(child_count, r).
     rbind (with_capacity size_of VecIndex child_count) (\<lambda>_.
     rbind (read_n child_count (load_child prototype_count) r) (\<lambda>(children, r).
     rbind (u32_varint r) (\<lambda>(line_defined, r).
     rbind (string_ref string_count r) (\<lambda>(debug_name, r).
     rbind (load_line_info size_of code_count r) (\<lambda>(line_info, r).
     rbind (load_debug_info size_of string_count upvalue_count limits r) (\<lambda>(debug_info, r).
     rbind (load_feedback size_of version limits r) (\<lambda>(feedback, r).
     rbind (load_cost version flags r) (\<lambda>(cost, r).
     Ok (\<lparr>p_max_stack_size = max_stack_size, p_parameter_count = parameter_count,
          p_upvalue_count = upvalue_count, p_is_vararg = is_vararg \<noteq> 0, p_flags = flags,
          p_typeinfo = typeinfo, p_code = code, p_instructions = instructions,
          p_constants = constants, p_children = children, p_line_defined = line_defined,
          p_debug_name = debug_name, p_line_info = line_info, p_debug_info = debug_info,
          p_feedback = feedback, p_cost = cost\<rparr>, r)))))))))))))))))))))))"

text \<open>What a loaded prototype guarantees on its own, given the counts of its chunk.\<close>

definition line_info_fits :: "nat \<Rightarrow> line_info option \<Rightarrow> bool" where
  "line_info_fits code_count li \<longleftrightarrow> (\<forall>l. li = Some l \<longrightarrow> ln_gap_log2 l < 64 \<and>
     length (ln_deltas l) = code_count \<and>
     length (ln_absolute_deltas l) = line_intervals code_count (ln_gap_log2 l))"

definition debug_info_fits :: "nat \<Rightarrow> byte \<Rightarrow> load_limits \<Rightarrow> debug_info option \<Rightarrow> bool" where
  "debug_info_fits sc uc limits di \<longleftrightarrow> (\<forall>d. di = Some d \<longrightarrow>
     length (di_locals d) \<le> max_debug_entries limits \<and>
     length (di_upvalue_names d) \<le> max_debug_entries limits \<and> length (di_upvalue_names d) = unat uc \<and>
     (\<forall>l\<in>set (di_locals d). \<forall>i. dl_name l = Some i \<longrightarrow> i < sc) \<and>
     (\<forall>n\<in>set (di_upvalue_names d). \<forall>i. n = Some i \<longrightarrow> i < sc))"

definition prototype_loaded ::
  "(nat \<Rightarrow> bool) \<Rightarrow> nat \<Rightarrow> nat \<Rightarrow> load_limits \<Rightarrow> prototype \<Rightarrow> bool" where
  "prototype_loaded alloc pc sc limits p \<longleftrightarrow>
     decode alloc (p_code p) = Ok (p_instructions p) \<and>
     length (p_code p) \<le> max_code_words limits \<and>
     length (p_constants p) \<le> max_constants limits \<and>
     (\<forall>c\<in>set (p_constants p). constant_loaded pc sc (length (p_constants p)) limits c) \<and>
     length (p_children p) \<le> max_prototypes limits \<and> (\<forall>c\<in>set (p_children p). c < pc) \<and>
     (\<forall>i. p_debug_name p = Some i \<longrightarrow> i < sc) \<and>
     length (p_typeinfo p) \<le> max_bytes limits \<and>
     line_info_fits (length (p_code p)) (p_line_info p) \<and>
     debug_info_fits sc (p_upvalue_count p) limits (p_debug_info p) \<and>
     length (p_feedback p) \<le> max_code_words limits"

lemma reads_child: "reads (load_child n) (\<lambda>k. k < n)"
  unfolding load_child_def
  by (intro reads_binds rd.parses_pure rd.parses_return) (simp_all add: res_simps)

lemma line_intervals_le: "line_intervals n g \<le> n"
proof (cases "n = 0")
  case False
  have "drop_bit (unat g) (n - 1) \<le> n - 1" by (simp add: drop_bit_eq_div)
  with False show ?thesis unfolding line_intervals_def by simp
qed (simp add: line_intervals_def)

lemma reads_line_info:
  assumes fit: "capacities_fit size_of limits" and n: "n \<le> max_code_words limits"
  shows "reads (load_line_info size_of n) (line_info_fits n)"
proof -
  have "line_intervals n g * size_of VecDelta \<le> isize_max" for g
    using capacities_within(5) [OF fit] order_trans [OF line_intervals_le n] by blast
  then show ?thesis
    unfolding load_line_info_def
    by (intro reads_binds rd.parses_if rd.parses_fail rd.parses_return rd.parses_pure
        capacity_granted [OF fit])
      (auto simp: line_info_fits_def not_le)
qed

lemma reads_debug_local: "reads (load_debug_local sc) (\<lambda>l. \<forall>i. dl_name l = Some i \<longrightarrow> i < sc)"
  unfolding load_debug_local_def by (intro reads_binds rd.parses_return) simp

lemma reads_debug_info:
  assumes fit: "capacities_fit size_of limits"
  shows "reads (load_debug_info size_of sc uc limits) (debug_info_fits sc uc limits)"
  unfolding load_debug_info_def
  by (intro reads_binds rd.parses_if rd.parses_fail rd.parses_return rd.parses_pure
      capacity_granted [OF fit] rd.parses_bind [OF rd.parses_n [OF reads_debug_local]]
      rd.parses_bind [OF rd.parses_n [OF reads_string_ref]])
    (auto simp: debug_info_fits_def intro: capacities_within [OF fit])

lemma reads_feedback_slot: "reads load_feedback_slot (\<lambda>_. True)"
  unfolding load_feedback_slot_def
  by (intro reads_binds rd.parses_if rd.parses_fail rd.parses_return TrueI)

lemma reads_feedback:
  assumes fit: "capacities_fit size_of limits"
  shows "reads (load_feedback size_of version limits) (\<lambda>fs. length fs \<le> max_code_words limits)"
proof -
  have "reads (read_n n load_feedback_slot) (\<lambda>fs. length fs \<le> max_code_words limits)"
    if "n \<le> max_code_words limits" for n
    by (rule rd.parses_weaken [OF rd.parses_n [OF reads_feedback_slot]]) (use that in simp)
  then show ?thesis
    unfolding load_feedback_def
    by (intro reads_binds rd.parses_if rd.parses_return rd.parses_pure capacity_granted [OF fit])
      (auto intro: capacities_within [OF fit])
qed

lemma reads_cost: "reads (load_cost version flags) (\<lambda>_. True)"
  unfolding load_cost_def by (intro reads_binds rd.parses_if rd.parses_return TrueI)

lemma reads_flags: "reads (load_flags version) (\<lambda>_. True)"
  unfolding load_flags_def by (intro rd.parses_if rd.parses_return reads_byte TrueI)

lemma reads_typeinfo: "reads (load_typeinfo version limits) (\<lambda>t. length t \<le> max_bytes limits)"
proof -
  have "reads (reader_bytes n) (\<lambda>t. length t \<le> max_bytes limits)" if "n \<le> max_bytes limits" for n
    by (rule rd.parses_weaken [OF reads_bytes]) (use that in simp)
  then show ?thesis
    unfolding load_typeinfo_def by (intro reads_binds rd.parses_if rd.parses_return) auto
qed

lemma reads_prototype:
  assumes fit: "capacities_fit size_of limits"
  shows "reads (load_prototype size_of alloc version index pc sc limits) (prototype_loaded alloc pc sc limits)"
  unfolding load_prototype_def
  by (intro reads_binds rd.parses_pure rd.parses_return capacity_granted [OF fit]
      rd.parses_bind [OF reads_flags] rd.parses_bind [OF reads_typeinfo]
      rd.parses_bind [OF rd.parses_n [OF reads_constant [OF fit]]]
      rd.parses_bind [OF rd.parses_n [OF reads_child]]
      rd.parses_bind [OF reads_line_info [OF fit]] rd.parses_bind [OF reads_debug_info [OF fit]]
      rd.parses_bind [OF reads_feedback [OF fit]] rd.parses_bind [OF reads_cost])
    (auto simp: res_simps prototype_loaded_def decode_def decode_from_not_Panic
      intro: capacities_within [OF fit])

section \<open>Capacities change nothing else\<close>

text \<open>
  Whatever the element sizes are, a reader gives what it gives for elements without size, or
  panics: the relation, and the rules that carry it through a reader.
\<close>

definition panics_or :: "('a, 'e) res \<Rightarrow> ('a, 'e) res \<Rightarrow> bool" where
  "panics_or m m' \<longleftrightarrow> m = Panic \<or> m = m'"

lemma panics_or_refl [simp]: "panics_or m m"
  by (simp add: panics_or_def)

lemma panics_or_bind:
  "panics_or m m' \<Longrightarrow> (\<And>x. panics_or (f x) (g x)) \<Longrightarrow> panics_or (rbind m f) (rbind m' g)"
  unfolding panics_or_def by (cases "m = Panic"; cases m') auto

lemma panics_or_pair:
  "(\<And>a b. panics_or (f a b) (g a b)) \<Longrightarrow> panics_or (case x of (a, b) \<Rightarrow> f a b) (case x of (a, b) \<Rightarrow> g a b)"
  by (simp split: prod.split)

lemma panics_or_if:
  "panics_or a a' \<Longrightarrow> panics_or b b' \<Longrightarrow> panics_or (if c then a else b) (if c then a' else b')"
  by simp

lemma panics_or_capacity: "panics_or (with_capacity size_of t n) (with_capacity (\<lambda>_. 0) t n)"
  by (simp add: panics_or_def with_capacity_def)

lemma panics_or_n:
  assumes "\<And>r. panics_or (p r) (q r)"
  shows "panics_or (read_n n p r) (read_n n q r)"
proof (induction n arbitrary: r)
  case (Suc n)
  then show ?case by (auto intro!: panics_or_bind panics_or_pair assms)
qed simp

lemmas panics_or_rules = panics_or_capacity panics_or_bind panics_or_pair panics_or_if panics_or_n

lemma constant_capacities:
  "panics_or (load_constant size_of version pc sc cc limits r) (load_constant (\<lambda>_. 0) version pc sc cc limits r)"
  unfolding load_constant_def by (intro panics_or_rules) simp_all

lemma line_info_capacities: "panics_or (load_line_info size_of n r) (load_line_info (\<lambda>_. 0) n r)"
  unfolding load_line_info_def by (intro panics_or_rules) simp_all

lemma debug_info_capacities:
  "panics_or (load_debug_info size_of sc uc limits r) (load_debug_info (\<lambda>_. 0) sc uc limits r)"
  unfolding load_debug_info_def by (intro panics_or_rules) simp_all

lemma feedback_capacities:
  "panics_or (load_feedback size_of version limits r) (load_feedback (\<lambda>_. 0) version limits r)"
  unfolding load_feedback_def by (intro panics_or_rules) simp_all

lemma prototype_capacities:
  "panics_or (load_prototype size_of alloc version i pc sc limits r)
     (load_prototype (\<lambda>_. 0) alloc version i pc sc limits r)"
  unfolding load_prototype_def
  by (intro constant_capacities line_info_capacities debug_info_capacities feedback_capacities panics_or_rules)
    simp_all

end
