(* ===== verification/Package_Codec.thy ===== *)
theory Package_Codec
  imports Package_Model Luau_Chunk
begin

text \<open>
  \<open>blu-package/src/codec.rs\<close>: the manifest format. The encoder appends to a byte vector, the
  decoder reads through a bounds-checked cursor; the lemmas show that the decoder accepts
  precisely what the encoder writes for manifests within the limits.
\<close>

definition MAGIC :: bytes where
  "MAGIC = [0x42, 0x4C, 0x55, 0x50, 0x4B, 0x47, 0x0D, 0x0A]"
definition HEADER_BYTES :: nat where "HEADER_BYTES = 8 + 2 + 4 + 8"
definition DIGEST_BYTES :: nat where "DIGEST_BYTES = 32"

datatype package_error =
    PkTooLarge string nat nat
  | PkInvalidMagic
  | PkUnsupportedFormat "16 word"
  | PkTruncated
  | PkTrailingBytes nat
  | PkLengthOverflow
  | PkInvalidUtf8
  | PkInvalidName string
  | PkUnknownTag string byte
  | PkInvalidBoolean byte
  | PkNonCanonical string
  | PkInvalidAuthority string
  | PkUnsupportedDialect semantic_profile
  | PkZeroSchema string
  | PkDescriptorMismatch string byte byte
  | PkIntegrity digest digest
  | PkBytecode chunk_error

definition pk_limit :: "string \<Rightarrow> nat \<Rightarrow> nat \<Rightarrow> (unit, package_error) res" where
  "pk_limit what actual maximum =
     (if actual \<le> maximum then Ok () else Err (PkTooLarge what actual maximum))"

lemma pk_limit_simps [res_simps]:
  "pk_limit w a m = Ok u \<longleftrightarrow> a \<le> m" "pk_limit w a m = Panic \<longleftrightarrow> False"
  by (simp_all add: pk_limit_def)

section \<open>Encoding\<close>

text \<open>\<open>u16::try_from(len)\<close> and \<open>u32::try_from(len)\<close>.\<close>

definition u16_try_from :: "nat \<Rightarrow> (16 word, package_error) res" where
  "u16_try_from n = (if n < 2 ^ 16 then Ok (word_of_nat n) else Err PkLengthOverflow)"

definition u32_try_from :: "nat \<Rightarrow> (32 word, package_error) res" where
  "u32_try_from n = (if n < 2 ^ 32 then Ok (word_of_nat n) else Err PkLengthOverflow)"

type_synonym put = "bytes \<Rightarrow> (bytes, package_error) res"

definition put_name :: "name \<Rightarrow> put" where
  "put_name name bs =
     (let raw = name_str name in
      rbind (u16_try_from (length raw)) (\<lambda>len. Ok ((bs @ u16_to_le len) @ raw)))"

definition put_bytes :: "bytes \<Rightarrow> put" where
  "put_bytes v bs = rbind (u32_try_from (length v)) (\<lambda>len. Ok ((bs @ u32_to_le len) @ v))"

definition put_count :: "nat \<Rightarrow> put" where
  "put_count v bs = rbind (u32_try_from v) (\<lambda>v. Ok (bs @ u32_to_le v))"

definition put_version :: "version \<Rightarrow> bytes \<Rightarrow> bytes" where
  "put_version v bs = ((bs @ u32_to_le (major v)) @ u32_to_le (minor v)) @ u32_to_le (patch v)"

definition put_service :: "service_id \<Rightarrow> put" where
  "put_service s bs = rbind (put_name (sv_namespace s) bs) (put_name (sv_name s))"

fun semantic_profile_tag :: "semantic_profile \<Rightarrow> (byte, package_error) res" where
  "semantic_profile_tag Blu = Ok 1"
| "semantic_profile_tag Luau = Ok 2"
| "semantic_profile_tag Lua51 = Ok 3"
| "semantic_profile_tag Lua52 = Ok 4"
| "semantic_profile_tag Lua53 = Ok 5"
| "semantic_profile_tag Lua54 = Ok 6"
| "semantic_profile_tag Lua55 = Ok 7"

fun bytecode_format_tag :: "bytecode_format \<Rightarrow> byte" where
  "bytecode_format_tag FormatLuau = 1"

definition bool_byte :: "bool \<Rightarrow> byte" where
  "bool_byte b = (if b then 1 else 0)"

definition put_capability :: "bytes \<Rightarrow> capability_requirement \<Rightarrow> (bytes, package_error) res" where
  "put_capability bs c = rbind (put_name (cap_name c) bs) (put_bytes (cap_scope c))"

definition put_import :: "bytes \<Rightarrow> import \<Rightarrow> (bytes, package_error) res" where
  "put_import bs i =
     (let bs = bs @ [import_source_tag (im_source i)] in
      rbind (put_service (im_service i) bs) (\<lambda>bs.
      let bs = put_version (im_version i) bs;
          bs = bs @ digest_bytes (im_schema i)
      in Ok (bs @ [bool_byte (im_optional i)])))"

definition put_export :: "bytes \<Rightarrow> export \<Rightarrow> (bytes, package_error) res" where
  "put_export bs e =
     rbind (put_service (ex_service e) bs) (\<lambda>bs.
     let bs = put_version (ex_version e) bs
     in Ok (bs @ digest_bytes (ex_schema e)))"

definition encode_manifest :: "manifest \<Rightarrow> (bytes, package_error) res" where
  "encode_manifest m =
     rbind (put_name (pi_name (mf_package m)) []) (\<lambda>bs.
     let bs = put_version (pi_version (mf_package m)) bs in
     rbind (semantic_profile_tag (mf_dialect m)) (\<lambda>dialect.
     let bs = bs @ [dialect];
         bs = bs @ [bytecode_format_tag (bd_format (mf_bytecode m))];
         bs = bs @ [bd_version (mf_bytecode m)];
         bs = bs @ [bd_typeinfo_version (mf_bytecode m)];
         bs = bs @ [authority_tag (au_profile (mf_authority m))] in
     rbind (put_count (length (au_capabilities (mf_authority m))) bs) (\<lambda>bs.
     rbind (fold_res put_capability bs (au_capabilities (mf_authority m))) (\<lambda>bs.
     rbind (put_count (length (mf_imports m)) bs) (\<lambda>bs.
     rbind (fold_res put_import bs (mf_imports m)) (\<lambda>bs.
     rbind (put_count (length (mf_exports m)) bs) (\<lambda>bs.
     fold_res put_export bs (mf_exports m))))))))"

section \<open>Reading\<close>

record package_limits =
  pl_max_bytes :: nat
  pl_max_manifest_bytes :: nat
  pl_max_payload_bytes :: nat
  pl_max_name_bytes :: nat
  pl_max_imports :: nat
  pl_max_exports :: nat
  pl_max_capabilities :: nat
  pl_max_scope_bytes :: nat
  pl_bytecode :: load_limits

definition default_package_limits :: package_limits where
  "default_package_limits =
     \<lparr>pl_max_bytes = 66 * 1024 * 1024, pl_max_manifest_bytes = 1024 * 1024,
      pl_max_payload_bytes = 64 * 1024 * 1024, pl_max_name_bytes = 128, pl_max_imports = 4096,
      pl_max_exports = 4096, pl_max_capabilities = 1024, pl_max_scope_bytes = 4096,
      pl_bytecode = default_load_limits\<rparr>"

record pk_reader =
  pr_bytes :: bytes
  pr_offset :: nat

type_synonym 'a pk_read = "pk_reader \<Rightarrow> ('a \<times> pk_reader, package_error) res"

definition pk_reader_new :: "bytes \<Rightarrow> pk_reader" where
  "pk_reader_new bs = \<lparr>pr_bytes = bs, pr_offset = 0\<rparr>"

definition pk_remaining :: "pk_reader \<Rightarrow> (nat, package_error) res" where
  "pk_remaining r = plain_sub (length (pr_bytes r)) (pr_offset r)"

definition pk_bytes :: "nat \<Rightarrow> bytes pk_read" where
  "pk_bytes count r =
     rbind (ok_or (checked_add (pr_offset r) count) PkLengthOverflow) (\<lambda>stop.
     rbind (ok_or (get_range (pr_bytes r) (pr_offset r) stop) PkTruncated) (\<lambda>v.
     Ok (v, r\<lparr>pr_offset := stop\<rparr>)))"

definition pk_byte :: "byte pk_read" where
  "pk_byte r = rbind (pk_bytes 1 r) (\<lambda>(bs, r). rbind (index_at bs 0) (\<lambda>b. Ok (b, r)))"

definition exact_array :: "nat \<Rightarrow> bytes \<Rightarrow> (bytes, package_error) res" where
  "exact_array n bs = (if length bs = n then Ok bs else Panic)"

definition pk_u16 :: "16 word pk_read" where
  "pk_u16 r = rbind (pk_bytes 2 r) (\<lambda>(bs, r). rbind (exact_array 2 bs) (\<lambda>a. Ok (u16_from_le a, r)))"

definition pk_u32 :: "32 word pk_read" where
  "pk_u32 r = rbind (pk_bytes 4 r) (\<lambda>(bs, r). rbind (exact_array 4 bs) (\<lambda>a. Ok (u32_from_le a, r)))"

definition pk_u64 :: "64 word pk_read" where
  "pk_u64 r = rbind (pk_bytes 8 r) (\<lambda>(bs, r). rbind (exact_array 8 bs) (\<lambda>a. Ok (u64_from_le a, r)))"

definition usize_try_from :: "nat \<Rightarrow> (nat, package_error) res" where
  "usize_try_from n = (if n \<le> usize_max then Ok n else Err PkLengthOverflow)"

definition pk_usize_u32 :: "nat pk_read" where
  "pk_usize_u32 r = rbind (pk_u32 r) (\<lambda>(v, r). rbind (usize_try_from (unat v)) (\<lambda>n. Ok (n, r)))"

definition pk_usize_u64 :: "nat pk_read" where
  "pk_usize_u64 r = rbind (pk_u64 r) (\<lambda>(v, r). rbind (usize_try_from (unat v)) (\<lambda>n. Ok (n, r)))"

definition pk_count :: "string \<Rightarrow> nat \<Rightarrow> nat pk_read" where
  "pk_count what maximum r =
     rbind (pk_usize_u32 r) (\<lambda>(count, r).
     rbind (pk_limit what count maximum) (\<lambda>_. Ok (count, r)))"

definition pk_sized_bytes :: "string \<Rightarrow> nat \<Rightarrow> bytes pk_read" where
  "pk_sized_bytes what maximum r =
     rbind (pk_usize_u32 r) (\<lambda>(len, r).
     rbind (pk_limit what len maximum) (\<lambda>_. pk_bytes len r))"

text \<open>\<open>str::from_utf8\<close>.\<close>

definition from_utf8 :: "bytes \<Rightarrow> bytes option" where
  "from_utf8 bs = (if utf8_valid bs then Some bs else None)"

definition pk_name :: "package_limits \<Rightarrow> name pk_read" where
  "pk_name limits r =
     rbind (pk_u16 r) (\<lambda>(len, r).
     let len = unat len in
     rbind (pk_limit ''name bytes'' len (pl_max_name_bytes limits)) (\<lambda>_.
     rbind (pk_bytes len r) (\<lambda>(raw, r).
     rbind (ok_or (from_utf8 raw) PkInvalidUtf8) (\<lambda>v.
     rbind (map_err PkInvalidName (validate_name v)) (\<lambda>_.
     Ok (Name v, r))))))"

definition pk_version :: "version pk_read" where
  "pk_version r =
     rbind (pk_u32 r) (\<lambda>(a, r). rbind (pk_u32 r) (\<lambda>(b, r). rbind (pk_u32 r) (\<lambda>(c, r).
     Ok (Version a b c, r))))"

definition pk_service :: "package_limits \<Rightarrow> service_id pk_read" where
  "pk_service limits r =
     rbind (pk_name limits r) (\<lambda>(namespace, r). rbind (pk_name limits r) (\<lambda>(name, r).
     Ok (ServiceId namespace name, r)))"

definition pk_digest :: "digest pk_read" where
  "pk_digest r =
     rbind (pk_bytes 32 r) (\<lambda>(bs, r). rbind (exact_array 32 bs) (\<lambda>a. Ok (Digest a, r)))"

section \<open>Decoding a manifest\<close>

definition dialect_of_tag :: "byte \<Rightarrow> (semantic_profile, package_error) res" where
  "dialect_of_tag b =
     (if b = 1 then Ok Blu else if b = 2 then Ok Luau else if b = 3 then Ok Lua51
      else if b = 4 then Ok Lua52 else if b = 5 then Ok Lua53 else if b = 6 then Ok Lua54
      else if b = 7 then Ok Lua55 else Err (PkUnknownTag ''dialect'' b))"

definition format_of_tag :: "byte \<Rightarrow> (bytecode_format, package_error) res" where
  "format_of_tag b = (if b = 1 then Ok FormatLuau else Err (PkUnknownTag ''bytecode format'' b))"

definition authority_of_tag :: "byte \<Rightarrow> (authority_profile, package_error) res" where
  "authority_of_tag b =
     (if b = 1 then Ok Pure else if b = 2 then Ok Confined else if b = 3 then Ok Trusted
      else Err (PkUnknownTag ''authority profile'' b))"

definition import_source_of_tag :: "byte \<Rightarrow> (import_source, package_error) res" where
  "import_source_of_tag b =
     (if b = 1 then Ok Host else if b = 2 then Ok Component
      else Err (PkUnknownTag ''import source'' b))"

definition bool_of_byte :: "byte \<Rightarrow> (bool, package_error) res" where
  "bool_of_byte b = (if b = 0 then Ok False else if b = 1 then Ok True else Err (PkInvalidBoolean b))"

text \<open>A byte and what it stands for.\<close>

definition pk_tag :: "(byte \<Rightarrow> ('a, package_error) res) \<Rightarrow> 'a pk_read" where
  "pk_tag of_tag r = rbind (pk_byte r) (\<lambda>(b, r). rbind (of_tag b) (\<lambda>x. Ok (x, r)))"

definition pk_capability :: "package_limits \<Rightarrow> capability_requirement pk_read" where
  "pk_capability limits r =
     rbind (pk_name limits r) (\<lambda>(name, r).
     rbind (pk_sized_bytes ''capability scope bytes'' (pl_max_scope_bytes limits) r) (\<lambda>(scope, r).
     Ok (Capability name scope, r)))"

definition pk_import :: "package_limits \<Rightarrow> import pk_read" where
  "pk_import limits r =
     rbind (pk_tag import_source_of_tag r) (\<lambda>(source, r).
     rbind (pk_service limits r) (\<lambda>(service, r).
     rbind (pk_version r) (\<lambda>(version, r).
     rbind (pk_digest r) (\<lambda>(schema, r).
     rbind (pk_tag bool_of_byte r) (\<lambda>(optional, r).
     Ok (Import source service version schema optional, r))))))"

definition pk_export :: "package_limits \<Rightarrow> export pk_read" where
  "pk_export limits r =
     rbind (pk_service limits r) (\<lambda>(service, r).
     rbind (pk_version r) (\<lambda>(version, r).
     rbind (pk_digest r) (\<lambda>(schema, r).
     Ok (Export service version schema, r))))"

definition pk_list :: "string \<Rightarrow> nat \<Rightarrow> 'a pk_read \<Rightarrow> 'a list pk_read" where
  "pk_list what maximum p r = rbind (pk_count what maximum r) (\<lambda>(n, r). read_n n p r)"

definition pk_manifest :: "package_limits \<Rightarrow> manifest pk_read" where
  "pk_manifest limits r =
     rbind (pk_name limits r) (\<lambda>(name, r).
     rbind (pk_version r) (\<lambda>(version, r).
     rbind (pk_tag dialect_of_tag r) (\<lambda>(dialect, r).
     rbind (pk_tag format_of_tag r) (\<lambda>(format, r).
     rbind (pk_byte r) (\<lambda>(bytecode_version, r).
     rbind (pk_byte r) (\<lambda>(typeinfo_version, r).
     rbind (pk_tag authority_of_tag r) (\<lambda>(profile, r).
     rbind (pk_list ''capabilities'' (pl_max_capabilities limits) (pk_capability limits) r)
       (\<lambda>(capabilities, r).
     rbind (pk_list ''imports'' (pl_max_imports limits) (pk_import limits) r) (\<lambda>(imports, r).
     rbind (pk_list ''exports'' (pl_max_exports limits) (pk_export limits) r) (\<lambda>(exports, r).
     Ok (\<lparr>mf_package = \<lparr>pi_name = name, pi_version = version\<rparr>, mf_dialect = dialect,
          mf_bytecode = \<lparr>bd_format = format, bd_version = bytecode_version,
            bd_typeinfo_version = typeinfo_version\<rparr>,
          mf_authority = \<lparr>au_profile = profile, au_capabilities = capabilities\<rparr>,
          mf_imports = imports, mf_exports = exports\<rparr>, r)))))))))))"

definition decode_manifest :: "bytes \<Rightarrow> package_limits \<Rightarrow> (manifest, package_error) res" where
  "decode_manifest bs limits =
     rbind (pk_manifest limits (pk_reader_new bs)) (\<lambda>(m, r).
     rbind (pk_remaining r) (\<lambda>left.
     if left \<noteq> 0 then rbind (pk_remaining r) (\<lambda>left. Err (PkTrailingBytes left))
     else Ok m))"

section \<open>The layout of a manifest\<close>

text \<open>The encoding as a value, and the manifests the limits admit.\<close>

definition enc_name :: "name \<Rightarrow> bytes" where
  "enc_name n = u16_to_le (word_of_nat (length (name_str n))) @ name_str n"

definition enc_bytes :: "bytes \<Rightarrow> bytes" where
  "enc_bytes v = u32_to_le (word_of_nat (length v)) @ v"

definition enc_version :: "version \<Rightarrow> bytes" where
  "enc_version v = u32_to_le (major v) @ u32_to_le (minor v) @ u32_to_le (patch v)"

definition enc_service :: "service_id \<Rightarrow> bytes" where
  "enc_service s = enc_name (sv_namespace s) @ enc_name (sv_name s)"

definition enc_capability :: "capability_requirement \<Rightarrow> bytes" where
  "enc_capability c = enc_name (cap_name c) @ enc_bytes (cap_scope c)"

definition enc_import :: "import \<Rightarrow> bytes" where
  "enc_import i =
     [import_source_tag (im_source i)] @ enc_service (im_service i) @ enc_version (im_version i) @
     digest_bytes (im_schema i) @ [bool_byte (im_optional i)]"

definition enc_export :: "export \<Rightarrow> bytes" where
  "enc_export e = enc_service (ex_service e) @ enc_version (ex_version e) @ digest_bytes (ex_schema e)"

definition enc_list :: "('a \<Rightarrow> bytes) \<Rightarrow> 'a list \<Rightarrow> bytes" where
  "enc_list enc xs = u32_to_le (word_of_nat (length xs)) @ concat (map enc xs)"

fun dialect_tag :: "semantic_profile \<Rightarrow> byte" where
  "dialect_tag Blu = 1"
| "dialect_tag Luau = 2"
| "dialect_tag Lua51 = 3"
| "dialect_tag Lua52 = 4"
| "dialect_tag Lua53 = 5"
| "dialect_tag Lua54 = 6"
| "dialect_tag Lua55 = 7"

definition enc_manifest :: "manifest \<Rightarrow> bytes" where
  "enc_manifest m =
     enc_name (pi_name (mf_package m)) @ enc_version (pi_version (mf_package m)) @
     [dialect_tag (mf_dialect m)] @ [bytecode_format_tag (bd_format (mf_bytecode m))] @
     [bd_version (mf_bytecode m)] @ [bd_typeinfo_version (mf_bytecode m)] @
     [authority_tag (au_profile (mf_authority m))] @
     enc_list enc_capability (au_capabilities (mf_authority m)) @
     enc_list enc_import (mf_imports m) @ enc_list enc_export (mf_exports m)"

definition name_fits :: "name \<Rightarrow> bool" where
  "name_fits n \<longleftrightarrow> length (name_str n) < 2 ^ 16"

definition service_fits :: "service_id \<Rightarrow> bool" where
  "service_fits s \<longleftrightarrow> name_fits (sv_namespace s) \<and> name_fits (sv_name s)"

definition manifest_fits :: "manifest \<Rightarrow> bool" where
  "manifest_fits m \<longleftrightarrow>
     name_fits (pi_name (mf_package m)) \<and>
     length (au_capabilities (mf_authority m)) < 2 ^ 32 \<and>
     (\<forall>c\<in>set (au_capabilities (mf_authority m)). name_fits (cap_name c) \<and> length (cap_scope c) < 2 ^ 32) \<and>
     length (mf_imports m) < 2 ^ 32 \<and> (\<forall>i\<in>set (mf_imports m). service_fits (im_service i)) \<and>
     length (mf_exports m) < 2 ^ 32 \<and> (\<forall>e\<in>set (mf_exports m). service_fits (ex_service e))"

section \<open>The encoder writes the layout\<close>

lemma try_from_Ok [res_simps]:
  "u16_try_from n = Ok w \<longleftrightarrow> n < 2 ^ 16 \<and> w = word_of_nat n"
  "u32_try_from n = Ok v \<longleftrightarrow> n < 2 ^ 32 \<and> v = word_of_nat n"
  "usize_try_from n = Ok k \<longleftrightarrow> n \<le> usize_max \<and> k = n"
  "u16_try_from n = Panic \<longleftrightarrow> False" "u32_try_from n = Panic \<longleftrightarrow> False"
  "usize_try_from n = Panic \<longleftrightarrow> False"
  by (auto simp: u16_try_from_def u32_try_from_def usize_try_from_def)

lemma put_name_Ok: "put_name n bs = Ok out \<longleftrightarrow> name_fits n \<and> out = bs @ enc_name n"
  by (auto simp: put_name_def name_fits_def enc_name_def Let_def res_simps)

lemma put_bytes_Ok: "put_bytes v bs = Ok out \<longleftrightarrow> length v < 2 ^ 32 \<and> out = bs @ enc_bytes v"
  by (auto simp: put_bytes_def enc_bytes_def res_simps)

lemma put_count_Ok:
  "put_count n bs = Ok out \<longleftrightarrow> n < 2 ^ 32 \<and> out = bs @ u32_to_le (word_of_nat n)"
  by (auto simp: put_count_def res_simps)

lemma put_version_eq: "put_version v bs = bs @ enc_version v"
  by (simp add: put_version_def enc_version_def)

lemma put_service_Ok: "put_service s bs = Ok out \<longleftrightarrow> service_fits s \<and> out = bs @ enc_service s"
  by (auto simp: put_service_def service_fits_def enc_service_def res_simps put_name_Ok)

lemma put_capability_Ok:
  "put_capability bs c = Ok out \<longleftrightarrow>
     (name_fits (cap_name c) \<and> length (cap_scope c) < 2 ^ 32) \<and> out = bs @ enc_capability c"
  by (auto simp: put_capability_def enc_capability_def res_simps put_name_Ok put_bytes_Ok)

lemma put_import_Ok:
  "put_import bs i = Ok out \<longleftrightarrow> service_fits (im_service i) \<and> out = bs @ enc_import i"
  by (auto simp: put_import_def enc_import_def Let_def res_simps put_service_Ok put_version_eq)

lemma put_export_Ok:
  "put_export bs e = Ok out \<longleftrightarrow> service_fits (ex_service e) \<and> out = bs @ enc_export e"
  by (auto simp: put_export_def enc_export_def Let_def res_simps put_service_Ok put_version_eq)

lemma fold_put_Ok:
  assumes "\<And>bs x out. f bs x = Ok out \<longleftrightarrow> P x \<and> out = bs @ enc x"
  shows "fold_res f bs xs = Ok out \<longleftrightarrow> (\<forall>x\<in>set xs. P x) \<and> out = bs @ concat (map enc xs)"
  by (induction xs arbitrary: bs) (auto simp: assms res_simps)

lemma semantic_profile_tag_eq: "semantic_profile_tag d = Ok (dialect_tag d)"
  by (cases d) simp_all

lemmas put_Ok = put_name_Ok put_count_Ok put_version_eq semantic_profile_tag_eq
  fold_put_Ok [OF put_capability_Ok] fold_put_Ok [OF put_import_Ok] fold_put_Ok [OF put_export_Ok]

lemma encode_manifest_Ok: "encode_manifest m = Ok bs \<longleftrightarrow> manifest_fits m \<and> bs = enc_manifest m"
  by (auto simp: encode_manifest_def enc_manifest_def manifest_fits_def enc_list_def Let_def
      res_simps put_Ok)

lemma put_not_Panic [res_simps]:
  "put_name n bs = Panic \<longleftrightarrow> False" "put_bytes v bs = Panic \<longleftrightarrow> False"
  "put_count k bs = Panic \<longleftrightarrow> False" "put_service s bs = Panic \<longleftrightarrow> False"
  by (auto simp: put_name_def put_bytes_def put_count_def put_service_def Let_def res_simps)

lemma fold_put_not_Panic [res_simps]:
  "fold_res put_capability bs cs = Panic \<longleftrightarrow> False" "fold_res put_import bs is = Panic \<longleftrightarrow> False"
  "fold_res put_export bs es = Panic \<longleftrightarrow> False"
  using fold_res_not_Panic [where I = "\<lambda>_. True" and f = put_capability]
    fold_res_not_Panic [where I = "\<lambda>_. True" and f = put_import]
    fold_res_not_Panic [where I = "\<lambda>_. True" and f = put_export]
  by (auto simp: put_capability_def put_import_def put_export_def Let_def res_simps)

lemma encode_manifest_not_Panic [res_simps]: "encode_manifest m = Panic \<longleftrightarrow> False"
  by (auto simp: encode_manifest_def Let_def res_simps semantic_profile_tag_eq)

section \<open>The reader is exact\<close>

definition pk_sound :: "pk_reader \<Rightarrow> bool" where
  "pk_sound r \<longleftrightarrow> pr_offset r \<le> length (pr_bytes r) \<and> length (pr_bytes r) \<le> usize_max"

definition pk_pending :: "pk_reader \<Rightarrow> bytes" where
  "pk_pending r = drop (pr_offset r) (pr_bytes r)"

definition pk_adv :: "pk_reader \<Rightarrow> nat \<Rightarrow> pk_reader" where
  "pk_adv r n = r\<lparr>pr_offset := pr_offset r + n\<rparr>"

interpretation pk: byte_cursor "\<lambda>r n. pk_bytes n r" pk_pending pk_adv pk_sound
proof unfold_locales
  fix r n
  assume "pk_sound r" "n \<le> length (pk_pending r)"
  then have "pr_offset r + n \<le> length (pr_bytes r)" "length (pr_bytes r) \<le> usize_max"
    by (simp_all add: pk_sound_def pk_pending_def le_diff_conv2 add.commute)
  then show "pk_bytes n r = Ok (take n (pk_pending r), pk_adv r n)"
    by (simp add: pk_bytes_def pk_pending_def pk_adv_def checked_add_def get_range_def)
next
  fix r n
  assume "pk_sound r" "length (pk_pending r) < n"
  then show "\<exists>e. pk_bytes n r = Err e"
    by (simp add: pk_bytes_def pk_sound_def pk_pending_def checked_add_def get_range_def)
next
  fix r n
  assume "pk_sound r" "n \<le> length (pk_pending r)"
  then show "pk_sound (pk_adv r n)" by (simp add: pk_sound_def pk_pending_def pk_adv_def le_diff_conv2 add.commute)
qed (simp_all add: pk_pending_def pk_adv_def add.commute add.assoc)

abbreviation decodes :: "'a pk_read \<Rightarrow> ('a \<Rightarrow> bool) \<Rightarrow> ('a \<Rightarrow> bytes) \<Rightarrow> bool" where
  "decodes p ok enc \<equiv> exactly pk_sound pk_pending pk_adv p (\<lambda>bs x. ok x \<and> bs = enc x)"

lemma decodes_bytes: "decodes (pk_bytes n) (\<lambda>v. length v = n) (\<lambda>v. v)"
  by (rule pk.exactly_cong [OF pk.exactly_take [of n]]) auto

lemma decodes_byte: "decodes pk_byte (\<lambda>_. True) (\<lambda>b. [b])"
proof -
  have "decodes (\<lambda>r. rbind (pk_bytes 1 r) (\<lambda>(bs, r). rbind (index_at bs 0) (\<lambda>b. Ok (b, r))))
      (\<lambda>_. True) (\<lambda>b. [b])"
    by (rule pk.exactly_cong [OF pk.exactly_enc_bind [OF decodes_bytes pk.exactly_pure [OF _ pk.exactly_return]]])
      (auto simp: index_at_def length_Suc_conv)
  then show ?thesis by (simp only: pk_byte_def [abs_def])
qed

text \<open>A fixed-width integer, from the two halves of its little-endian round trip.\<close>

lemma decodes_array:
  assumes "\<And>v. length v = n \<Longrightarrow> to_le (from_le v) = v"
    and "\<And>w. length (to_le w) = n" and "\<And>w. from_le (to_le w) = w"
  shows "decodes (\<lambda>r. rbind (pk_bytes n r) (\<lambda>(bs, r). rbind (exact_array n bs) (\<lambda>a. Ok (from_le a, r))))
    (\<lambda>_. True) to_le"
  by (rule pk.exactly_cong [OF pk.exactly_enc_bind [OF decodes_bytes pk.exactly_pure [OF _ pk.exactly_return]]])
    (auto simp: exact_array_def assms intro: exI [of _ "to_le w" for w])

lemma decodes_u16: "decodes pk_u16 (\<lambda>_. True) u16_to_le"
  unfolding pk_u16_def [abs_def] by (rule decodes_array) (simp_all add: u16_to_from_le)

lemma decodes_u32: "decodes pk_u32 (\<lambda>_. True) u32_to_le"
  unfolding pk_u32_def [abs_def] by (rule decodes_array) (simp_all add: u32_to_from_le)

lemma decodes_u64: "decodes pk_u64 (\<lambda>_. True) u64_to_le"
  unfolding pk_u64_def [abs_def] by (rule decodes_array) (simp_all add: u64_to_from_le)

lemma decodes_digest: "decodes pk_digest (\<lambda>d. length (digest_bytes d) = 32) digest_bytes"
  unfolding pk_digest_def [abs_def]
  by (rule pk.exactly_cong [OF pk.exactly_enc_bind [OF decodes_bytes pk.exactly_pure [OF _ pk.exactly_return]]])
    (auto simp: exact_array_def intro: exI [of _ "digest_bytes d" for d])

lemma decodes_tag:
  assumes "\<And>b. of_tag b \<noteq> Panic" and "\<And>b x. of_tag b = Ok x \<longleftrightarrow> b = tag x"
  shows "decodes (pk_tag of_tag) (\<lambda>_. True) (\<lambda>x. [tag x])"
  unfolding pk_tag_def [abs_def]
  by (rule pk.exactly_cong [OF pk.exactly_enc_bind [OF decodes_byte pk.exactly_pure [OF _ pk.exactly_return]]])
    (auto simp: assms)

lemma decodes_dialect: "decodes (pk_tag dialect_of_tag) (\<lambda>_. True) (\<lambda>x. [dialect_tag x])"
proof (rule decodes_tag)
  show "dialect_of_tag b = Ok x \<longleftrightarrow> b = dialect_tag x" for b x
    by (cases x) (auto simp: dialect_of_tag_def)
qed (simp add: dialect_of_tag_def)

lemma decodes_format: "decodes (pk_tag format_of_tag) (\<lambda>_. True) (\<lambda>x. [bytecode_format_tag x])"
proof (rule decodes_tag)
  show "format_of_tag b = Ok x \<longleftrightarrow> b = bytecode_format_tag x" for b x
    by (cases x) (auto simp: format_of_tag_def)
qed (simp add: format_of_tag_def)

lemma decodes_authority: "decodes (pk_tag authority_of_tag) (\<lambda>_. True) (\<lambda>x. [authority_tag x])"
proof (rule decodes_tag)
  show "authority_of_tag b = Ok x \<longleftrightarrow> b = authority_tag x" for b x
    by (cases x) (auto simp: authority_of_tag_def)
qed (simp add: authority_of_tag_def)

lemma decodes_source: "decodes (pk_tag import_source_of_tag) (\<lambda>_. True) (\<lambda>x. [import_source_tag x])"
proof (rule decodes_tag)
  show "import_source_of_tag b = Ok x \<longleftrightarrow> b = import_source_tag x" for b x
    by (cases x) (auto simp: import_source_of_tag_def)
qed (simp add: import_source_of_tag_def)

lemma decodes_bool: "decodes (pk_tag bool_of_byte) (\<lambda>_. True) (\<lambda>x. [bool_byte x])"
proof (rule decodes_tag)
  show "bool_of_byte b = Ok x \<longleftrightarrow> b = bool_byte x" for b x
    by (cases x) (auto simp: bool_of_byte_def bool_byte_def)
qed (simp add: bool_of_byte_def)

text \<open>The lengths of the format fit a \<open>usize\<close>, so that \<open>usize::try_from\<close> never fails here.\<close>

lemma unat_u32_usize: "unat (w :: 32 word) \<le> usize_max"
proof -
  have "unat w < 2 ^ 32" using unsigned_less [of w, where ?'a = nat] by simp
  then show ?thesis by (simp add: usize_max_def)
qed

lemma decodes_usize_u32: "decodes pk_usize_u32 (\<lambda>n. n < 2 ^ 32) (\<lambda>n. u32_to_le (word_of_nat n))"
  unfolding pk_usize_u32_def [abs_def]
proof (rule pk.exactly_cong [OF pk.exactly_enc_bind [OF decodes_u32 pk.exactly_pure [OF _ pk.exactly_return]]])
  fix bs n
  have "unat (w :: 32 word) < 4294967296" for w using unsigned_less [of w, where ?'a = nat] by simp
  moreover have "unat (word_of_nat n :: 32 word) = n" if "n < 4294967296" using that by (simp add: unat_of_nat)
  ultimately show "(\<exists>x c. True \<and> (\<exists>xa. usize_try_from (unat x) = Ok xa \<and> c = [] \<and> n = xa) \<and> bs = u32_to_le x @ c) \<longleftrightarrow>
      n < 2 ^ 32 \<and> bs = u32_to_le (word_of_nat n)"
    by (auto simp: res_simps unat_u32_usize intro!: exI [of _ "word_of_nat n"])
qed (auto simp: res_simps)

lemma decodes_count:
  "decodes (pk_count what maximum) (\<lambda>n. n < 2 ^ 32 \<and> n \<le> maximum) (\<lambda>n. u32_to_le (word_of_nat n))"
  unfolding pk_count_def [abs_def]
  by (rule pk.exactly_cong [OF pk.exactly_enc_bind [OF decodes_usize_u32 pk.exactly_pure [OF _ pk.exactly_return]]])
    (auto simp: res_simps)

lemma decodes_sized_bytes:
  "decodes (pk_sized_bytes what maximum) (\<lambda>v. length v < 2 ^ 32 \<and> length v \<le> maximum) enc_bytes"
  unfolding pk_sized_bytes_def [abs_def]
  by (rule pk.exactly_cong [OF pk.exactly_enc_bind [OF decodes_usize_u32 pk.exactly_pure [OF _ decodes_bytes]]])
    (auto simp: res_simps enc_bytes_def)

definition name_ok :: "package_limits \<Rightarrow> name \<Rightarrow> bool" where
  "name_ok limits n \<longleftrightarrow> name_fits n \<and> length (name_str n) \<le> pl_max_name_bytes limits \<and>
     portable_name (name_str n)"

lemma decodes_name: "decodes (pk_name limits) (name_ok limits) enc_name"
  unfolding pk_name_def [abs_def] Let_def
proof (rule pk.exactly_cong [OF pk.exactly_enc_bind [OF decodes_u16 pk.exactly_pure
        [OF _ pk.exactly_enc_bind [OF decodes_bytes pk.exactly_pure [OF _ pk.exactly_pure
          [OF _ pk.exactly_return]]]]]])
  fix bs n
  have len: "unat (w :: 16 word) < 65536" for w using unsigned_less [of w, where ?'a = nat] by simp
  have "unat (word_of_nat k :: 16 word) = k" if "k < 65536" for k using that by (simp add: unat_of_nat)
  moreover have "(word_of_nat k = (w :: 16 word)) = (k = unat w)" if "k < 65536" for k w
    using that by (auto simp: unat_of_nat)
  ultimately show "(\<exists>x c. True \<and> (\<exists>xa. pk_limit ''name bytes'' (unat x) (pl_max_name_bytes limits) = Ok xa \<and>
        (\<exists>y d. length y = unat x \<and> (\<exists>xb. ok_or (from_utf8 y) PkInvalidUtf8 = Ok xb \<and>
          (\<exists>xc. map_err PkInvalidName (validate_name xb) = Ok xc \<and> d = [] \<and> n = Name xb)) \<and> c = y @ d)) \<and>
        bs = u16_to_le x @ c) \<longleftrightarrow> name_ok limits n \<and> bs = enc_name n"
    using len by (cases n) (auto simp: res_simps name_ok_def name_fits_def enc_name_def from_utf8_def
        validate_name_Ok portable_name_utf8 intro!: exI [of _ "word_of_nat (length (name_str n))"])
qed (auto simp: res_simps)

lemma decodes_version: "decodes pk_version (\<lambda>_. True) enc_version"
  unfolding pk_version_def [abs_def]
proof (rule pk.exactly_cong [OF pk.exactly_enc_bind [OF decodes_u32 pk.exactly_enc_bind [OF decodes_u32
        pk.exactly_enc_bind [OF decodes_u32 pk.exactly_return]]]], goal_cases)
  case (1 bs v)
  show ?case by (cases v) (auto simp: enc_version_def)
qed

definition service_ok :: "package_limits \<Rightarrow> service_id \<Rightarrow> bool" where
  "service_ok limits s \<longleftrightarrow> name_ok limits (sv_namespace s) \<and> name_ok limits (sv_name s)"

lemma decodes_service: "decodes (pk_service limits) (service_ok limits) enc_service"
  unfolding pk_service_def [abs_def]
proof (rule pk.exactly_cong [OF pk.exactly_enc_bind [OF decodes_name pk.exactly_enc_bind [OF decodes_name
        pk.exactly_return]]])
  fix bs s
  show "(\<exists>x c. name_ok limits x \<and> (\<exists>y d. name_ok limits y \<and> (d = [] \<and> s = ServiceId x y) \<and>
      c = enc_name y @ d) \<and> bs = enc_name x @ c) \<longleftrightarrow> service_ok limits s \<and> bs = enc_service s"
    by (cases s) (auto simp: enc_service_def service_ok_def)
qed

definition capability_ok :: "package_limits \<Rightarrow> capability_requirement \<Rightarrow> bool" where
  "capability_ok limits c \<longleftrightarrow> name_ok limits (cap_name c) \<and> length (cap_scope c) < 2 ^ 32 \<and>
     length (cap_scope c) \<le> pl_max_scope_bytes limits"

lemma decodes_capability: "decodes (pk_capability limits) (capability_ok limits) enc_capability"
  unfolding pk_capability_def [abs_def]
proof (rule pk.exactly_cong [OF pk.exactly_enc_bind [OF decodes_name
        pk.exactly_enc_bind [OF decodes_sized_bytes pk.exactly_return]]], goal_cases)
  case (1 bs c)
  show ?case by (cases c) (auto simp: enc_capability_def capability_ok_def)
qed

definition import_ok :: "package_limits \<Rightarrow> import \<Rightarrow> bool" where
  "import_ok limits i \<longleftrightarrow> service_ok limits (im_service i) \<and> length (digest_bytes (im_schema i)) = 32"

lemma decodes_import: "decodes (pk_import limits) (import_ok limits) enc_import"
  unfolding pk_import_def [abs_def]
proof (rule pk.exactly_cong [OF pk.exactly_enc_bind [OF decodes_source
        pk.exactly_enc_bind [OF decodes_service pk.exactly_enc_bind [OF decodes_version
        pk.exactly_enc_bind [OF decodes_digest pk.exactly_enc_bind [OF decodes_bool
        pk.exactly_return]]]]]], goal_cases)
  case (1 bs i)
  show ?case by (cases i) (auto simp: enc_import_def import_ok_def)
qed

definition export_ok :: "package_limits \<Rightarrow> export \<Rightarrow> bool" where
  "export_ok limits e \<longleftrightarrow> service_ok limits (ex_service e) \<and> length (digest_bytes (ex_schema e)) = 32"

lemma decodes_export: "decodes (pk_export limits) (export_ok limits) enc_export"
  unfolding pk_export_def [abs_def]
proof (rule pk.exactly_cong [OF pk.exactly_enc_bind [OF decodes_service
        pk.exactly_enc_bind [OF decodes_version pk.exactly_enc_bind [OF decodes_digest
        pk.exactly_return]]]], goal_cases)
  case (1 bs e)
  show ?case by (cases e) (auto simp: enc_export_def export_ok_def)
qed

lemma decodes_list:
  assumes "decodes p ok enc"
  shows "decodes (pk_list what maximum p)
    (\<lambda>xs. length xs < 2 ^ 32 \<and> length xs \<le> maximum \<and> (\<forall>x\<in>set xs. ok x)) (enc_list enc)"
  unfolding pk_list_def [abs_def]
  by (rule pk.exactly_cong [OF pk.exactly_enc_bind [OF decodes_count pk.exactly_enc_n [OF assms]]])
    (auto simp: enc_list_def)

text \<open>What the decoder checks of a manifest, beyond its layout.\<close>

definition manifest_decodable :: "package_limits \<Rightarrow> manifest \<Rightarrow> bool" where
  "manifest_decodable limits m \<longleftrightarrow>
     name_ok limits (pi_name (mf_package m)) \<and>
     length (au_capabilities (mf_authority m)) < 2 ^ 32 \<and>
     length (au_capabilities (mf_authority m)) \<le> pl_max_capabilities limits \<and>
     (\<forall>c\<in>set (au_capabilities (mf_authority m)). capability_ok limits c) \<and>
     length (mf_imports m) < 2 ^ 32 \<and> length (mf_imports m) \<le> pl_max_imports limits \<and>
     (\<forall>i\<in>set (mf_imports m). import_ok limits i) \<and>
     length (mf_exports m) < 2 ^ 32 \<and> length (mf_exports m) \<le> pl_max_exports limits \<and>
     (\<forall>e\<in>set (mf_exports m). export_ok limits e)"

lemma manifest_fields:
  obtains n v d f bv tv p cs ims exs where
    "m = \<lparr>mf_package = \<lparr>pi_name = n, pi_version = v\<rparr>, mf_dialect = d,
      mf_bytecode = \<lparr>bd_format = f, bd_version = bv, bd_typeinfo_version = tv\<rparr>,
      mf_authority = \<lparr>au_profile = p, au_capabilities = cs\<rparr>, mf_imports = ims, mf_exports = exs\<rparr>"
  by (metis manifest.cases package_identity.cases bytecode_descriptor.cases authority_requirement.cases)

lemma decodes_manifest: "decodes (pk_manifest limits) (manifest_decodable limits) enc_manifest"
  unfolding pk_manifest_def [abs_def]
proof (rule pk.exactly_cong [OF pk.exactly_enc_bind [OF decodes_name
        pk.exactly_enc_bind [OF decodes_version pk.exactly_enc_bind [OF decodes_dialect
        pk.exactly_enc_bind [OF decodes_format pk.exactly_enc_bind [OF decodes_byte
        pk.exactly_enc_bind [OF decodes_byte pk.exactly_enc_bind [OF decodes_authority
        pk.exactly_enc_bind [OF decodes_list [OF decodes_capability]
        pk.exactly_enc_bind [OF decodes_list [OF decodes_import]
        pk.exactly_enc_bind [OF decodes_list [OF decodes_export]
        pk.exactly_return]]]]]]]]]]], goal_cases)
  case (1 bs m)
  show ?case
    by (rule manifest_fields [of m]) (auto simp: manifest_decodable_def enc_manifest_def)
qed

section \<open>Both directions\<close>

lemma decodable_fits: "manifest_decodable limits m \<Longrightarrow> manifest_fits m"
  by (auto simp: manifest_decodable_def manifest_fits_def name_ok_def capability_ok_def import_ok_def
      export_ok_def service_ok_def service_fits_def)

lemma pk_reader_new_sound: "length bs \<le> usize_max \<Longrightarrow> pk_sound (pk_reader_new bs)"
  by (simp add: pk_sound_def pk_reader_new_def)

lemma pk_manifest_new:
  assumes "length bs \<le> usize_max"
  shows "pk_manifest limits (pk_reader_new bs) \<noteq> Panic"
    and "pk_manifest limits (pk_reader_new bs) = Ok (m, r) \<longleftrightarrow>
      (\<exists>zs. manifest_decodable limits m \<and> bs = enc_manifest m @ zs \<and>
         r = \<lparr>pr_bytes = bs, pr_offset = length (enc_manifest m)\<rparr>)"
  using pk.exactly_not_Panic [OF decodes_manifest pk_reader_new_sound [OF assms]]
    pk.exactly_Ok [OF decodes_manifest pk_reader_new_sound [OF assms], of limits m r]
  by (auto simp: pk_pending_def pk_adv_def pk_reader_new_def)

lemma manifest_codec_exact_aux:
  assumes "length bs \<le> usize_max"
  shows "decode_manifest bs limits \<noteq> Panic"
    and "decode_manifest bs limits = Ok m \<longleftrightarrow> encode_manifest m = Ok bs \<and> manifest_decodable limits m"
  using pk_manifest_new [OF assms, of limits] decodable_fits [of limits m]
  by (auto simp: decode_manifest_def pk_remaining_def res_simps encode_manifest_Ok split: if_splits)

text \<open>
  C26: the manifest decoder and encoder agree: the decoder never panics, it accepts precisely the
  bytes the encoder writes for manifests within the limits and with well-formed names and
  digests, and an accepted manifest followed by anything is refused with the number of extra
  bytes.
\<close>

theorem manifest_codec_exact:
  assumes "length bs \<le> usize_max"
  shows "decode_manifest bs limits \<noteq> Panic \<and>
    (decode_manifest bs limits = Ok m \<longleftrightarrow> encode_manifest m = Ok bs \<and> manifest_decodable limits m) \<and>
    (\<forall>zs. bs = enc_manifest m @ zs \<and> zs \<noteq> [] \<and> manifest_decodable limits m \<longrightarrow>
       decode_manifest bs limits = Err (PkTrailingBytes (length zs)))"
proof (intro conjI allI impI)
  fix zs
  assume z: "bs = enc_manifest m @ zs \<and> zs \<noteq> [] \<and> manifest_decodable limits m"
  then have "pk_manifest limits (pk_reader_new bs) =
      Ok (m, \<lparr>pr_bytes = bs, pr_offset = length (enc_manifest m)\<rparr>)"
    using pk_manifest_new(2) [OF assms, of limits] by blast
  with z show "decode_manifest bs limits = Err (PkTrailingBytes (length zs))"
    by (auto simp: decode_manifest_def pk_remaining_def plain_sub_def)
qed (simp_all only: manifest_codec_exact_aux [OF assms] not_False_eq_True)

text \<open>A confined package that needs one capability and imports one service.\<close>

definition sample_name :: name where
  "sample_name = Name [0x61, 0x2E, 0x62]"

definition sample_service :: service_id where
  "sample_service = ServiceId sample_name sample_name"

definition sample_manifest :: manifest where
  "sample_manifest =
     \<lparr>mf_package = \<lparr>pi_name = sample_name, pi_version = Version 1 2 3\<rparr>, mf_dialect = Blu,
      mf_bytecode = \<lparr>bd_format = FormatLuau, bd_version = 3, bd_typeinfo_version = 0\<rparr>,
      mf_authority = \<lparr>au_profile = Confined, au_capabilities = [Capability sample_name [7]]\<rparr>,
      mf_imports = [Import Host sample_service (Version 1 0 0) (Digest (replicate 32 1)) True],
      mf_exports = [Export sample_service (Version 1 0 0) (Digest (replicate 32 2))]\<rparr>"

lemma sample_portable: "portable_name [0x61, 0x2E, 0x62]"
  by (simp add: portable_name_def name_edge_def is_ascii_lowercase_def portable_segment_def)

lemma sample_name_ok: "name_ok default_package_limits sample_name"
  by (simp add: name_ok_def name_fits_def sample_name_def sample_portable default_package_limits_def)

lemma sample_decodable: "manifest_decodable default_package_limits sample_manifest"
proof -
  have lim: "pl_max_capabilities default_package_limits = 1024" "pl_max_imports default_package_limits = 4096"
    "pl_max_exports default_package_limits = 4096" "pl_max_scope_bytes default_package_limits = 4096"
    by (simp_all add: default_package_limits_def)
  show ?thesis
    by (simp add: manifest_decodable_def sample_manifest_def sample_name_ok capability_ok_def
        import_ok_def export_ok_def service_ok_def sample_service_def lim)
qed

lemma sample_manifest_length: "length (enc_manifest sample_manifest) = 154"
  by (simp add: enc_manifest_def sample_manifest_def enc_name_def sample_name_def enc_version_def
      enc_list_def enc_capability_def enc_bytes_def enc_import_def enc_service_def sample_service_def
      enc_export_def)

theorem manifest_codec_exact_witness:
  "decode_manifest (enc_manifest sample_manifest) default_package_limits = Ok sample_manifest"
proof -
  have "encode_manifest sample_manifest = Ok (enc_manifest sample_manifest)"
    by (simp add: encode_manifest_Ok decodable_fits [OF sample_decodable])
  moreover have "length (enc_manifest sample_manifest) \<le> usize_max"
    by (simp add: sample_manifest_length usize_max_def)
  ultimately show ?thesis
    using manifest_codec_exact [of "enc_manifest sample_manifest" default_package_limits sample_manifest]
      sample_decodable by simp
qed

end
