(* ===== verification/Luau_Validate.thy ===== *)
theory Luau_Validate
  imports Luau_Chunk
begin

text \<open>
  \<open>blu-bytecode/src/validate.rs\<close>: the structural validator of a chunk. Each method of
  \<open>Validator\<close> is a definition over the record \<open>validator\<close>; the open-capture stack is passed
  and returned; indexing that Rust checks at run time is \<open>index_at\<close>, whose failure is a panic.
  Messages are built as the code formats them.
\<close>

section \<open>Errors\<close>

record validator =
  vl_chunk :: chunk
  vl_prototype :: prototype
  vl_index :: nat

type_synonym 'a checked = "('a, validation_error) res"

definition MAX_TABLE_INITIAL_CAPACITY :: nat where
  "MAX_TABLE_INITIAL_CAPACITY = 1048576"

definition prototype_error :: "nat \<Rightarrow> nat option \<Rightarrow> string \<Rightarrow> validation_error" where
  "prototype_error proto pc message =
     \<lparr>ve_prototype = proto, ve_pc = pc, ve_message = message, ve_allocation = None\<rparr>"

definition make_error :: "validator \<Rightarrow> nat option \<Rightarrow> string \<Rightarrow> validation_error" where
  "make_error v pc message = prototype_error (vl_index v) pc message"

definition scratch_error :: "nat \<Rightarrow> string \<Rightarrow> nat \<Rightarrow> validation_error" where
  "scratch_error proto what requested =
     \<lparr>ve_prototype = proto, ve_pc = None, ve_message = [],
      ve_allocation = Some \<lparr>va_what = what, va_requested = requested\<rparr>\<rparr>"

definition allocation_error :: "validator \<Rightarrow> string \<Rightarrow> nat \<Rightarrow> validation_error" where
  "allocation_error v what requested = scratch_error (vl_index v) what requested"

definition try_bool_scratch :: "(nat \<Rightarrow> bool) \<Rightarrow> nat \<Rightarrow> nat \<Rightarrow> string \<Rightarrow> bool list checked" where
  "try_bool_scratch alloc proto requested what =
     rbind (ensure (alloc requested) (scratch_error proto what requested)) (\<lambda>_.
     Ok (replicate requested False))"

definition bool_scratch :: "(nat \<Rightarrow> bool) \<Rightarrow> validator \<Rightarrow> string \<Rightarrow> bool list checked" where
  "bool_scratch alloc v what =
     try_bool_scratch alloc (vl_index v) (length (p_code (vl_prototype v))) what"

text \<open>\<open>m1?; m2?; ...\<close> for checks that only succeed or fail.\<close>

definition seqs :: "unit checked list \<Rightarrow> unit checked" where
  "seqs ms = each (\<lambda>m. m) ms"

fun decode_error_display :: "decode_error \<Rightarrow> string" where
  "decode_error_display (InvalidOpcode pc opcode) =
     ''invalid opcode '' @ dec (unat opcode) @ '' at word '' @ dec pc"
| "decode_error_display (MissingAux pc opcode) =
     ''missing auxiliary word for '' @ opcode_debug opcode @ '' at word '' @ dec pc"
| "decode_error_display (DecodeAllocation requested) =
     ''failed to allocate space for '' @ dec requested @ '' decoded instructions''"

fun constant_kind :: "luau_constant \<Rightarrow> string" where
  "constant_kind CNil = ''nil''"
| "constant_kind (CBoolean _) = ''boolean''"
| "constant_kind (CNumber _) = ''number''"
| "constant_kind (CInteger _) = ''integer''"
| "constant_kind (CVector _) = ''vector''"
| "constant_kind (CVectorDouble _) = ''double vector''"
| "constant_kind (CString _) = ''string''"
| "constant_kind (CImport _) = ''import''"
| "constant_kind (CTable _) = ''table''"
| "constant_kind (CTableWithConstants _) = ''table''"
| "constant_kind (CClosure _) = ''closure''"
| "constant_kind (CClassShape _ _ _) = ''class shape''"

section \<open>Chunk structure\<close>

definition check_constant :: "nat \<Rightarrow> nat \<Rightarrow> nat \<Rightarrow> string \<Rightarrow> unit checked" where
  "check_constant proto index count what =
     ensure (index < count)
       (prototype_error proto None
          (what @ '' constant '' @ dec index @ '' exceeds constant count '' @ dec count))"

definition check_string :: "chunk \<Rightarrow> nat \<Rightarrow> nat \<Rightarrow> string \<Rightarrow> unit checked" where
  "check_string c proto index what =
     ensure (index < length (ch_strings c))
       (prototype_error proto None
          (what @ '' string '' @ dec index @ '' exceeds string count '' @ dec (length (ch_strings c))))"

definition check_prototype :: "chunk \<Rightarrow> nat \<Rightarrow> nat \<Rightarrow> string \<Rightarrow> unit checked" where
  "check_prototype c proto index what =
     ensure (index < length (ch_prototypes c))
       (prototype_error proto None
          (what @ '' prototype '' @ dec index @ '' exceeds prototype count ''
             @ dec (length (ch_prototypes c))))"

fun check_constant_refs :: "chunk \<Rightarrow> nat \<Rightarrow> nat \<Rightarrow> luau_constant \<Rightarrow> unit checked" where
  "check_constant_refs c proto count (CString s) = check_string c proto s ''constant''"
| "check_constant_refs c proto count (CClosure child) = check_prototype c proto child ''closure constant''"
| "check_constant_refs c proto count (CTable keys) =
     each (\<lambda>key. check_constant proto key count ''table'') keys"
| "check_constant_refs c proto count (CTableWithConstants entries) =
     each (\<lambda>(key, value). seqs [check_constant proto key count ''table'',
       if 0 \<le> value then check_constant proto (nat value) count ''table value'' else Ok ()]) entries"
| "check_constant_refs c proto count (CClassShape class_name properties methods) =
     seqs [check_string c proto class_name ''class'',
           each (\<lambda>p. check_string c proto p ''class property'') properties,
           each (\<lambda>m. check_string c proto m ''class method'') methods]"
| "check_constant_refs c proto count _ = Ok ()"

definition check_debug_names :: "chunk \<Rightarrow> nat \<Rightarrow> debug_info option \<Rightarrow> unit checked" where
  "check_debug_names c proto di =
     (case di of None \<Rightarrow> Ok ()
      | Some debug \<Rightarrow> seqs
          [each (\<lambda>l. case dl_name l of Some name \<Rightarrow> check_string c proto name ''debug local''
                                     | None \<Rightarrow> Ok ()) (di_locals debug),
           each (\<lambda>n. case n of Some name \<Rightarrow> check_string c proto name ''upvalue''
                             | None \<Rightarrow> Ok ()) (di_upvalue_names debug)])"

definition check_prototype_refs :: "chunk \<Rightarrow> nat \<times> prototype \<Rightarrow> unit checked" where
  "check_prototype_refs c = (\<lambda>(index, p). seqs
     [case p_debug_name p of Some name \<Rightarrow> check_string c index name ''debug name'' | None \<Rightarrow> Ok (),
      each (\<lambda>child. check_prototype c index child ''child'') (p_children p),
      check_debug_names c index (p_debug_info p),
      each (check_constant_refs c index (length (p_constants p))) (p_constants p)])"

definition validate_chunk_structure :: "chunk \<Rightarrow> unit checked" where
  "validate_chunk_structure c = seqs
     [ensure (ch_main c < length (ch_prototypes c))
        (prototype_error 0 None (''main prototype '' @ dec (ch_main c)
           @ '' exceeds prototype count '' @ dec (length (ch_prototypes c)))),
      each (\<lambda>(_, s). ensure (s < length (ch_strings c))
        (prototype_error (ch_main c) None (''userdata type string '' @ dec s
           @ '' exceeds string count '' @ dec (length (ch_strings c))))) (ch_userdata_types c),
      each (check_prototype_refs c) (enumerate 0 (ch_prototypes c))]"

section \<open>Operand checks\<close>

definition fail :: "validator \<Rightarrow> nat option \<Rightarrow> string \<Rightarrow> 'a checked" where
  "fail v pc message = Err (make_error v pc message)"

definition v_stack_size :: "validator \<Rightarrow> nat" where
  "v_stack_size v = unat (p_max_stack_size (vl_prototype v))"

definition v_aux :: "validator \<Rightarrow> nat \<Rightarrow> instruction \<Rightarrow> 32 word checked" where
  "v_aux v pc i = ok_or (ins_aux i) (make_error v (Some pc) ''missing auxiliary word'')"

definition v_register :: "validator \<Rightarrow> nat \<Rightarrow> byte \<Rightarrow> unit checked" where
  "v_register v pc reg =
     ensure (reg < p_max_stack_size (vl_prototype v))
       (make_error v (Some pc)
          (''register '' @ dec (unat reg) @ '' exceeds stack size '' @ dec (v_stack_size v)))"

definition v_register_u32 :: "validator \<Rightarrow> nat \<Rightarrow> 32 word \<Rightarrow> unit checked" where
  "v_register_u32 v pc reg =
     (if unat reg < 256 then v_register v pc (ucast reg)
      else fail v (Some pc) (''register '' @ dec (unat reg) @ '' exceeds 255''))"

definition v_register_offset :: "validator \<Rightarrow> nat \<Rightarrow> byte \<Rightarrow> nat \<Rightarrow> unit checked" where
  "v_register_offset v pc reg offset =
     rbind (ok_or (checked_add (unat reg) offset) (make_error v (Some pc) ''register overflow'')) (\<lambda>reg.
     ensure (reg < v_stack_size v)
       (make_error v (Some pc)
          (''register '' @ dec reg @ '' exceeds stack size '' @ dec (v_stack_size v))))"

definition v_register_range :: "validator \<Rightarrow> nat \<Rightarrow> nat \<Rightarrow> nat \<Rightarrow> unit checked" where
  "v_register_range v pc start count =
     rbind (ok_or (checked_add start count) (make_error v (Some pc) ''register range overflow'')) (\<lambda>stop.
     ensure (stop \<le> v_stack_size v)
       (make_error v (Some pc)
          (''register range '' @ dec start @ ''..'' @ dec stop @ '' exceeds stack size ''
             @ dec (v_stack_size v))))"

definition v_upvalue :: "validator \<Rightarrow> nat \<Rightarrow> byte \<Rightarrow> unit checked" where
  "v_upvalue v pc upvalue =
     ensure (upvalue < p_upvalue_count (vl_prototype v))
       (make_error v (Some pc)
          (''upvalue '' @ dec (unat upvalue) @ '' exceeds upvalue count ''
             @ dec (unat (p_upvalue_count (vl_prototype v)))))"

definition v_constant :: "validator \<Rightarrow> nat \<Rightarrow> nat \<Rightarrow> string option \<Rightarrow> unit checked" where
  "v_constant v pc index expected =
     (case get (p_constants (vl_prototype v)) index of
        None \<Rightarrow> fail v (Some pc) (''constant '' @ dec index @ '' exceeds constant count ''
                  @ dec (length (p_constants (vl_prototype v))))
      | Some c \<Rightarrow>
          (case expected of None \<Rightarrow> Ok ()
           | Some e \<Rightarrow>
               (if e = constant_kind c then Ok ()
                else fail v (Some pc) (''constant '' @ dec index @ '' is '' @ constant_kind c
                       @ '', expected '' @ e))))"

definition v_nonnegative_i16 :: "validator \<Rightarrow> nat \<Rightarrow> int \<Rightarrow> string \<Rightarrow> nat checked" where
  "v_nonnegative_i16 v pc x name =
     ok_or (usize_try_from x)
       (make_error v (Some pc) (name @ '' index '' @ dec_int x @ '' is negative''))"

definition v_constant_i16 :: "validator \<Rightarrow> nat \<Rightarrow> int \<Rightarrow> string option \<Rightarrow> nat checked" where
  "v_constant_i16 v pc x kind =
     rbind (v_nonnegative_i16 v pc x ''constant'') (\<lambda>index.
     rbind (v_constant v pc index kind) (\<lambda>_. Ok index))"

definition v_jump :: "validator \<Rightarrow> nat \<Rightarrow> nat option \<Rightarrow> bool list \<Rightarrow> unit checked" where
  "v_jump v pc target starts =
     (case target of
        None \<Rightarrow> fail v (Some pc) ''jump target underflow or overflow''
      | Some t \<Rightarrow>
          (if t < length starts \<and> starts ! t then Ok ()
           else fail v (Some pc) (''jump target word '' @ dec t @ '' is not an instruction'')))"

fun join_names :: "string list \<Rightarrow> string" where
  "join_names [] = []"
| "join_names [n] = n"
| "join_names (n # ns) = n @ '', '' @ join_names ns"

definition debug_opcodes :: "opcode list \<Rightarrow> string" where
  "debug_opcodes ops = ''['' @ join_names (map opcode_debug ops) @ '']''"

definition debug_opcode_option :: "opcode option \<Rightarrow> string" where
  "debug_opcode_option o1 = (case o1 of None \<Rightarrow> ''None'' | Some op \<Rightarrow> ''Some('' @ opcode_debug op @ '')'')"

definition v_expect_next :: "validator \<Rightarrow> nat \<Rightarrow> nat \<Rightarrow> opcode list \<Rightarrow> unit checked" where
  "v_expect_next v index pc expected =
     (let actual = map_option ins_opcode (get (p_instructions (vl_prototype v)) (index + 1)) in
      if (case actual of Some op \<Rightarrow> op \<in> set expected | None \<Rightarrow> False) then Ok ()
      else fail v (Some pc) (''expected next opcode '' @ debug_opcodes expected @ '', found ''
             @ debug_opcode_option actual))"

definition v_capture_at ::
  "validator \<Rightarrow> nat \<Rightarrow> nat \<Rightarrow> nat \<Rightarrow> bool \<Rightarrow> nat \<Rightarrow> unit checked" where
  "v_capture_at v index pc count value_or_upvalue_only offset =
     rbind (ok_or (get (p_instructions (vl_prototype v)) (index + offset))
              (make_error v (Some pc) (''missing capture '' @ dec offset @ '' of '' @ dec count))) (\<lambda>capture.
     if ins_opcode capture \<noteq> OpCapture
     then fail v (Some pc) (''expected CAPTURE '' @ dec offset @ '' of '' @ dec count @ '', found ''
            @ opcode_debug (ins_opcode capture))
     else if value_or_upvalue_only \<and> \<not> (ins_a capture = 0 \<or> ins_a capture = 2)
     then fail v (Some (ins_pc capture)) ''DUPCLOSURE capture must be by value or upvalue''
     else Ok ())"

definition v_capture_sequence :: "validator \<Rightarrow> nat \<Rightarrow> nat \<Rightarrow> byte \<Rightarrow> bool \<Rightarrow> unit checked" where
  "v_capture_sequence v index pc count value_or_upvalue_only =
     each (v_capture_at v index pc (unat count) value_or_upvalue_only) [1..<unat count + 1]"

section \<open>Instructions\<close>

definition v_import_path :: "validator \<Rightarrow> nat \<Rightarrow> instruction \<Rightarrow> unit checked" where
  "v_import_path v pc i =
     rbind (v_aux v pc i) (\<lambda>import.
     let count = unat (drop_bit 30 import) in
     if count = 0 then fail v (Some pc) ''GETIMPORT path cannot be empty''
     else each (\<lambda>part. let shift = 20 - 10 * part in
            v_constant v pc (unat (drop_bit shift import AND 1023)) (Some ''string'')) [0..<count])"

definition v_new_closure :: "validator \<Rightarrow> nat \<Rightarrow> nat \<Rightarrow> instruction \<Rightarrow> unit checked" where
  "v_new_closure v index pc i =
     rbind (v_nonnegative_i16 v pc (ins_d i) ''child prototype'') (\<lambda>child_index.
     rbind (ok_or (get (p_children (vl_prototype v)) child_index)
              (make_error v (Some pc) (''child prototype index '' @ dec child_index @ '' exceeds ''
                 @ dec (length (p_children (vl_prototype v))) @ '' children''))) (\<lambda>child.
     rbind (index_at (ch_prototypes (vl_chunk v)) child) (\<lambda>target.
     v_capture_sequence v index pc (p_upvalue_count target) False)))"

definition v_dup_closure :: "validator \<Rightarrow> nat \<Rightarrow> nat \<Rightarrow> instruction \<Rightarrow> unit checked" where
  "v_dup_closure v index pc i =
     rbind (v_constant_i16 v pc (ins_d i) (Some ''closure'')) (\<lambda>k.
     rbind (index_at (p_constants (vl_prototype v)) k) (\<lambda>c.
     rbind (case c of CClosure child \<Rightarrow> Ok child | _ \<Rightarrow> Panic) (\<lambda>child.
     rbind (index_at (ch_prototypes (vl_chunk v)) child) (\<lambda>target.
     v_capture_sequence v index pc (p_upvalue_count target) True))))"

definition v_name_call :: "validator \<Rightarrow> nat \<Rightarrow> nat \<Rightarrow> instruction \<Rightarrow> unit checked" where
  "v_name_call v index pc i =
     rbind (v_aux v pc i) (\<lambda>aux.
     let k = (if ins_opcode i = OpNameCall then aux else aux AND 0xFFFF) in
     seqs [v_constant v pc (unat k) (Some ''string''),
           if ins_opcode i = OpNameCall then v_expect_next v index pc [OpCall, OpCallFb]
           else v_expect_next v index pc [OpCall]])"

definition v_new_table :: "validator \<Rightarrow> nat \<Rightarrow> instruction \<Rightarrow> unit checked" where
  "v_new_table v pc i =
     rbind (v_aux v pc i) (\<lambda>aux.
     let array_capacity = unat aux in
     if MAX_TABLE_INITIAL_CAPACITY < array_capacity
     then fail v (Some pc) (''NEWTABLE array capacity '' @ dec array_capacity @ '' exceeds limit ''
            @ dec MAX_TABLE_INITIAL_CAPACITY)
     else
     let hash_capacity = (if ins_b i = 0 then 0
            else let shift = unat (ins_b i - 1) in if shift < 64 then 2 ^ shift else usize_max) in
     if MAX_TABLE_INITIAL_CAPACITY < hash_capacity
     then fail v (Some pc) (''NEWTABLE hash capacity '' @ dec hash_capacity @ '' exceeds limit ''
            @ dec MAX_TABLE_INITIAL_CAPACITY)
     else Ok ())"

definition v_for_g_loop :: "validator \<Rightarrow> nat \<Rightarrow> instruction \<Rightarrow> bool list \<Rightarrow> unit checked" where
  "v_for_g_loop v pc i starts =
     rbind (v_aux v pc i) (\<lambda>aux.
     let variables = ucast aux :: byte in
     if variables = 0 then fail v (Some pc) ''FORGLOOP requires a result variable''
     else seqs [v_register_offset v pc (ins_a i) (2 + unat variables),
                v_jump v pc (jump_target i) starts])"

definition v_prep_varargs :: "validator \<Rightarrow> nat \<Rightarrow> instruction \<Rightarrow> unit checked" where
  "v_prep_varargs v pc i =
     (if \<not> p_is_vararg (vl_prototype v) then fail v (Some pc) ''PREPVARARGS in non-variadic function''
      else if ins_a i \<noteq> p_parameter_count (vl_prototype v)
      then fail v (Some pc) (''PREPVARARGS has '' @ dec (unat (ins_a i)) @ '' fixed parameters, expected ''
             @ dec (unat (p_parameter_count (vl_prototype v))))
      else Ok ())"

definition call_at :: "validator \<Rightarrow> nat \<Rightarrow> instruction option" where
  "call_at v call_pc = find (\<lambda>candidate. ins_pc candidate = call_pc) (p_instructions (vl_prototype v))"

definition v_fast_call :: "validator \<Rightarrow> nat \<Rightarrow> instruction \<Rightarrow> unit checked" where
  "v_fast_call v pc i = seqs
     [if ins_opcode i \<noteq> OpFastCall then v_register v pc (ins_b i) else Ok (),
      if ins_opcode i = OpFastCall2 then rbind (v_aux v pc i) (v_register_u32 v pc)
      else if ins_opcode i = OpFastCall2K
      then rbind (v_aux v pc i) (\<lambda>aux. v_constant v pc (unat aux) None)
      else if ins_opcode i = OpFastCall3
      then rbind (v_aux v pc i) (\<lambda>aux.
             seqs [v_register v pc (ucast aux), v_register v pc (ucast (drop_bit 8 aux))])
      else Ok (),
      rbind (ok_or (checked_add pc (1 + unat (ins_c i)))
               (make_error v (Some pc) ''FASTCALL target overflow'')) (\<lambda>call_pc.
      if map_option ins_opcode (call_at v call_pc) \<noteq> Some OpCall
      then fail v (Some pc) (''FASTCALL target word '' @ dec call_pc @ '' is not CALL'')
      else Ok ())]"

text \<open>\<open>while open_captures.last().is_some_and(|r| r >= a) { pop }\<close>; the stack's top is the last element.\<close>

definition close_upvals :: "byte \<Rightarrow> bytes \<Rightarrow> bytes" where
  "close_upvals a open_captures = rev (dropWhile (\<lambda>register. a \<le> register) (rev open_captures))"

definition v_capture :: "validator \<Rightarrow> nat \<Rightarrow> instruction \<Rightarrow> bytes \<Rightarrow> bytes checked" where
  "v_capture v pc i open_captures =
     (if ins_a i = 0 then rbind (v_register v pc (ins_b i)) (\<lambda>_. Ok open_captures)
      else if ins_a i = 1 then rbind (v_register v pc (ins_b i)) (\<lambda>_. Ok (open_captures @ [ins_b i]))
      else if ins_a i = 2 then rbind (v_upvalue v pc (ins_b i)) (\<lambda>_. Ok open_captures)
      else fail v (Some pc) (''unsupported capture type '' @ dec (unat (ins_a i))))"

text \<open>A match arm that leaves the open captures as they are.\<close>

definition keeping :: "bytes \<Rightarrow> unit checked list \<Rightarrow> bytes checked" where
  "keeping open_captures ms = rbind (seqs ms) (\<lambda>_. Ok open_captures)"

end
