(* ===== verification/Luau_Validator.thy ===== *)
theory Luau_Validator
  imports Luau_Validate
begin

text \<open>
  The rest of \<open>blu-bytecode/src/validate.rs\<close>: the match over the opcode of one instruction,
  the pairing of variadic results, the debug ranges, one prototype, and the chunk. The arms of
  the match are kept in the source's order, each with its opcodes as a set.
\<close>

definition validate_instruction ::
  "validator \<Rightarrow> nat \<Rightarrow> instruction \<Rightarrow> bool list \<Rightarrow> bytes \<Rightarrow> bytes checked" where
  "validate_instruction v index i starts open_captures =
     (let pc = ins_pc i; op = ins_opcode i; k = keeping open_captures;
          ra = v_register v pc (ins_a i); rb = v_register v pc (ins_b i);
          rc = v_register v pc (ins_c i); jump = v_jump v pc (jump_target i) starts;
          aux = v_aux v pc i in
      if op \<in> {OpNop, OpBreak, OpCoverage} then Ok open_captures
      else if op = OpNativeCall then fail v (Some pc) ''NATIVECALL cannot be serialized''
      else if op \<in> {OpLoadNil, OpLoadN} then k [ra]
      else if op = OpLoadB then
        k [ra, if 1 < ins_b i then fail v (Some pc) ''LOADB value must be 0 or 1'' else Ok (),
           if ins_c i \<noteq> 0 then jump else Ok ()]
      else if op = OpLoadK then
        k [ra, map_ok (\<lambda>_. ()) (v_constant_i16 v pc (ins_d i) None)]
      else if op = OpMove then k [ra, rb]
      else if op \<in> {OpGetGlobal, OpSetGlobal} then
        k [ra, rbind aux (\<lambda>x. v_constant v pc (unat x) (Some ''string''))]
      else if op \<in> {OpGetUpval, OpSetUpval} then k [ra, v_upvalue v pc (ins_b i)]
      else if op = OpCloseUpvals then
        rbind ra (\<lambda>_. Ok (close_upvals (ins_a i) open_captures))
      else if op = OpGetImport then
        k [ra, map_ok (\<lambda>_. ()) (v_constant_i16 v pc (ins_d i) (Some ''import'')), v_import_path v pc i]
      else if op \<in> {OpGetTable, OpSetTable, OpAdd, OpSub, OpMul, OpDiv, OpMod, OpPow, OpAnd, OpOr, OpIDiv}
      then k [ra, rb, rc]
      else if op \<in> {OpGetTableKs, OpSetTableKs} then
        k [ra, rb, rbind aux (\<lambda>x. v_constant v pc (unat x) (Some ''string''))]
      else if op \<in> {OpGetTableN, OpSetTableN} then k [ra, rb]
      else if op = OpNewClosure then k [ra, v_new_closure v index pc i]
      else if op \<in> {OpNameCall, OpNameCallUdata} then k [ra, rb, v_name_call v index pc i]
      else if op \<in> {OpCall, OpCallFb} then
        k [ra, v_register_range v pc (unat (ins_a i) + 1) (unat (ins_b i) - 1),
           v_register_range v pc (unat (ins_a i)) (unat (ins_c i) - 1)]
      else if op = OpReturn then k [v_register_range v pc (unat (ins_a i)) (unat (ins_b i) - 1)]
      else if op \<in> {OpJump, OpJumpBack, OpJumpX} then k [jump]
      else if op \<in> {OpJumpIf, OpJumpIfNot} then k [ra, jump]
      else if op \<in> {OpJumpIfEq, OpJumpIfLe, OpJumpIfLt, OpJumpIfNotEq, OpJumpIfNotLe, OpJumpIfNotLt}
      then k [ra, rbind aux (v_register_u32 v pc), jump]
      else if op \<in> {OpJumpXEqKNil, OpJumpXEqKB} then k [ra, jump]
      else if op \<in> {OpJumpXEqKN, OpJumpXEqKS} then
        k [ra, rbind aux (\<lambda>x. v_constant v pc (unat (x AND 0x00FFFFFF))
                 (Some (if op = OpJumpXEqKN then ''number'' else ''string''))), jump]
      else if op \<in> {OpAddK, OpSubK, OpMulK, OpDivK, OpModK, OpPowK, OpIDivK} then
        k [ra, rb, v_constant v pc (unat (ins_c i)) (Some ''number'')]
      else if op \<in> {OpSubRk, OpDivRk} then
        k [ra, v_constant v pc (unat (ins_b i)) (Some ''number''), rc]
      else if op \<in> {OpAndK, OpOrK} then k [ra, rb, v_constant v pc (unat (ins_c i)) None]
      else if op = OpConcat then
        k [ra, rb, rc, if ins_c i < ins_b i
           then fail v (Some pc) ''CONCAT register range is reversed'' else Ok ()]
      else if op \<in> {OpNot, OpMinus, OpLength} then k [ra, rb]
      else if op = OpNewTable then k [ra, v_new_table v pc i]
      else if op = OpDupTable then
        k [ra, map_ok (\<lambda>_. ()) (v_constant_i16 v pc (ins_d i) (Some ''table''))]
      else if op = OpSetList then
        k [ra, v_register_range v pc (unat (ins_b i)) (unat (ins_c i) - 1)]
      else if op \<in> {OpForNPrep, OpForNLoop} then k [v_register_offset v pc (ins_a i) 2, jump]
      else if op = OpForGPrep then k [v_register_offset v pc (ins_a i) 3, jump]
      else if op = OpForGLoop then k [v_for_g_loop v pc i starts]
      else if op \<in> {OpForGPrepInext, OpForGPrepNext} then
        k [v_register_offset v pc (ins_a i) 4, jump]
      else if op = OpGetVarargs then k [v_register_range v pc (unat (ins_a i)) (unat (ins_b i) - 1)]
      else if op = OpDupClosure then k [ra, v_dup_closure v index pc i]
      else if op = OpPrepVarargs then k [v_prep_varargs v pc i]
      else if op = OpLoadKx then k [ra, rbind aux (\<lambda>x. v_constant v pc (unat x) None)]
      else if op \<in> {OpFastCall, OpFastCall1, OpFastCall2, OpFastCall2K, OpFastCall3} then
        k [v_fast_call v pc i]
      else if op = OpCapture then v_capture v pc i open_captures
      else if op \<in> {OpGetUdataKs, OpSetUdataKs} then
        k [ra, rb, rbind aux (\<lambda>x. v_constant v pc (unat (x AND 0xFFFF)) (Some ''string''))]
      else if op = OpNewClassMember then
        k [ra, if ins_b i \<noteq> 0 then fail v (Some pc) ''NEWCLASSMEMBER B must be zero'' else Ok (),
           rc, rbind aux (\<lambda>x. v_constant v pc (unat x) (Some ''string''))]
      else k [ra, jump])"

section \<open>Variadic results\<close>

definition mark_target :: "bool list \<Rightarrow> instruction \<Rightarrow> bool list checked" where
  "mark_target targets i =
     (if is_fast_call (ins_opcode i) then Ok targets
      else case jump_target i of
             None \<Rightarrow> Ok targets
           | Some target \<Rightarrow> if target < length targets then set_at targets target True else Ok targets)"

definition neutral_in_sequence :: "opcode \<Rightarrow> bool" where
  "neutral_in_sequence op \<longleftrightarrow> op \<in> {OpCloseUpvals, OpNameCall, OpGetImport, OpMove, OpGetUpval,
     OpGetGlobal, OpGetTableKs, OpCoverage}"

definition call_step :: "validator \<Rightarrow> bool \<Rightarrow> instruction \<Rightarrow> bool checked" where
  "call_step v sequence i =
     rbind (if ins_b i = 0 then
              (if \<not> sequence
               then fail v (Some (ins_pc i)) ''variadic CALL arguments have no producer''
               else Ok False)
            else if sequence
              then fail v (Some (ins_pc i)) ''fixed-argument CALL interrupts a variadic sequence''
            else Ok sequence) (\<lambda>sequence.
     if ins_c i = 0 then
       (if sequence then fail v (Some (ins_pc i)) ''CALL starts a nested variadic sequence''
        else Ok True)
     else Ok sequence)"

definition variadic_step :: "validator \<Rightarrow> bool list \<Rightarrow> bool \<Rightarrow> instruction \<Rightarrow> bool checked" where
  "variadic_step v targets sequence i =
     (let pc = ins_pc i; op = ins_opcode i in
      rbind (if sequence then index_at targets pc else Ok False) (\<lambda>hit.
      if hit then fail v (Some pc) ''jump target occurs inside a variadic result sequence''
      else if op \<in> {OpCall, OpCallFb} then call_step v sequence i
      else if op = OpGetVarargs \<and> ins_b i = 0 then
        (if sequence then fail v (Some pc) ''GETVARARGS starts a nested variadic sequence'' else Ok True)
      else if op = OpReturn \<and> ins_b i = 0 then
        (if \<not> sequence then fail v (Some pc) ''variadic RETURN has no result producer'' else Ok False)
      else if op = OpSetList \<and> ins_c i = 0 then
        (if \<not> sequence then fail v (Some pc) ''variadic SETLIST has no result producer'' else Ok False)
      else if op = OpFastCall then
        (case call_at v (pc + 1 + unat (ins_c i)) of
           None \<Rightarrow> Panic
         | Some call \<Rightarrow>
             if ins_b call = 0 \<and> \<not> sequence
             then fail v (Some pc) ''variadic FASTCALL arguments have no producer''
             else if ins_b call \<noteq> 0 \<and> sequence
             then fail v (Some pc) ''fixed-argument FASTCALL interrupts a variadic sequence''
             else Ok sequence)
      else if neutral_in_sequence op then Ok sequence
      else if sequence
      then fail v (Some pc) (opcode_debug op @ '' is not neutral inside a variadic sequence'')
      else Ok sequence))"

definition validate_variadic :: "(nat \<Rightarrow> bool) \<Rightarrow> validator \<Rightarrow> unit checked" where
  "validate_variadic alloc v =
     rbind (bool_scratch alloc v ''variadic jump-target map'') (\<lambda>targets.
     rbind (fold_res mark_target targets (p_instructions (vl_prototype v))) (\<lambda>targets.
     rbind (fold_res (variadic_step v targets) False (p_instructions (vl_prototype v))) (\<lambda>sequence.
     if sequence then fail v None ''unterminated variadic result sequence'' else Ok ())))"

section \<open>Debug information\<close>

text \<open>The condition on a local's range, with Rust's short-circuit evaluation of its indexing.\<close>

definition not_start :: "bool list \<Rightarrow> nat \<Rightarrow> nat \<Rightarrow> bool checked" where
  "not_start starts code_len pc =
     (if pc \<noteq> code_len then map_ok Not (index_at starts pc) else Ok False)"

definition bad_local_range :: "bool list \<Rightarrow> nat \<Rightarrow> debug_local \<Rightarrow> bool checked" where
  "bad_local_range starts code_len l =
     (if dl_end_pc l < dl_start_pc l then Ok True
      else if code_len < unat (dl_end_pc l) then Ok True
      else rbind (not_start starts code_len (unat (dl_start_pc l))) (\<lambda>bad.
           if bad then Ok True else not_start starts code_len (unat (dl_end_pc l))))"

definition validate_local :: "validator \<Rightarrow> bool list \<Rightarrow> debug_local \<Rightarrow> unit checked" where
  "validate_local v starts l =
     rbind (bad_local_range starts (length (p_code (vl_prototype v))) l) (\<lambda>bad.
     if bad
     then fail v None (''invalid debug local range '' @ dec (unat (dl_start_pc l)) @ ''..''
            @ dec (unat (dl_end_pc l)))
     else v_register v (unat (dl_start_pc l)) (dl_register l))"

definition validate_feedback :: "validator \<Rightarrow> bool list \<Rightarrow> feedback_slot \<Rightarrow> unit checked" where
  "validate_feedback v starts f =
     (let pc = unat (fs_pc f) in
      if length starts \<le> pc \<or> \<not> starts ! pc
      then fail v None (''feedback word '' @ dec pc @ '' is not an instruction'')
      else Ok ())"

definition validate_debug_info :: "validator \<Rightarrow> bool list \<Rightarrow> unit checked" where
  "validate_debug_info v starts = seqs
     [case p_debug_info (vl_prototype v) of
        None \<Rightarrow> Ok () | Some debug \<Rightarrow> each (validate_local v starts) (di_locals debug),
      each (validate_feedback v starts) (p_feedback (vl_prototype v))]"

section \<open>Prototypes and chunks\<close>

definition mark_start :: "bool list \<Rightarrow> instruction \<Rightarrow> bool list checked" where
  "mark_start starts i = set_at starts (ins_pc i) True"

definition validate_instructions :: "validator \<Rightarrow> bool list \<Rightarrow> bytes checked" where
  "validate_instructions v starts =
     fold_res (\<lambda>open_captures (index, i). validate_instruction v index i starts open_captures) []
       (enumerate 0 (p_instructions (vl_prototype v)))"

definition validate_prototype :: "(nat \<Rightarrow> bool) \<Rightarrow> validator \<Rightarrow> unit checked" where
  "validate_prototype alloc v =
     (let p = vl_prototype v in
     rbind (map_err (\<lambda>e. make_error v None (''instruction decoding failed: '' @ decode_error_display e))
              (decode alloc (p_code p))) (\<lambda>decoded.
     if decoded \<noteq> p_instructions p
     then fail v None ''cached instructions do not match prototype code''
     else if p_max_stack_size p < p_parameter_count p
     then fail v None (''parameter count '' @ dec (unat (p_parameter_count p))
            @ '' exceeds stack size '' @ dec (v_stack_size v))
     else
     rbind (bool_scratch alloc v ''instruction-start map'') (\<lambda>starts.
     rbind (fold_res mark_start starts (p_instructions p)) (\<lambda>starts.
     rbind (ensure (alloc (length (p_instructions p)))
              (allocation_error v ''open-capture stack'' (length (p_instructions p)))) (\<lambda>_.
     rbind (validate_instructions v starts) (\<lambda>open_captures.
     if open_captures \<noteq> []
     then fail v None ''captured register remains open without CLOSEUPVALS''
     else
     rbind (validate_variadic alloc v) (\<lambda>_.
     validate_debug_info v starts)))))))"

definition validate_chunk :: "(nat \<Rightarrow> bool) \<Rightarrow> chunk \<Rightarrow> unit checked" where
  "validate_chunk alloc c =
     rbind (validate_chunk_structure c) (\<lambda>_.
     each (\<lambda>(index, p). validate_prototype alloc
              \<lparr>vl_chunk = c, vl_prototype = p, vl_index = index\<rparr>)
       (enumerate 0 (ch_prototypes c)))"

end
