(* ===== verification/Luau_Safety.thy ===== *)
theory Luau_Safety
  imports Luau_Validator
begin

text \<open>
  What the validator promises. It never panics, on any chunk; and in a chunk it accepts every
  instruction names registers, constants, upvalues, prototypes and jump targets that exist.
\<close>

named_theorems check_simps \<open>what an accepted check establishes\<close>

section \<open>Accepted checks\<close>

lemma fail_simps [check_simps]:
  "fail v pc m = Ok x \<longleftrightarrow> False" "fail v pc m = Panic \<longleftrightarrow> False"
  by (simp_all add: fail_def)

lemma seqs_Ok [check_simps]: "seqs ms = Ok u \<longleftrightarrow> (\<forall>m\<in>set ms. m = Ok ())"
  by (simp add: seqs_def res_simps)

lemma each_PanicD: "each f xs = Panic \<Longrightarrow> \<exists>x\<in>set xs. f x = Panic"
  using each_not_Panic [of xs f] by blast

lemma seqs_PanicD: "seqs ms = Panic \<Longrightarrow> \<exists>m\<in>set ms. m = Panic"
  unfolding seqs_def by (drule each_PanicD) simp

lemma Panic_commute [check_simps]: "Panic = m \<longleftrightarrow> m = Panic"
  by auto

lemma if_not_Panic: "m \<noteq> Panic \<Longrightarrow> n \<noteq> Panic \<Longrightarrow> (if b then m else n) \<noteq> Panic"
  by simp

lemma seqs_not_Panic: "\<forall>m\<in>set ms. m \<noteq> Panic \<Longrightarrow> seqs ms \<noteq> Panic"
  unfolding seqs_def by (rule each_not_Panic) auto

lemma keeping_Ok [check_simps]: "keeping c ms = Ok d \<longleftrightarrow> (\<forall>m\<in>set ms. m = Ok ()) \<and> d = c"
  by (auto simp: keeping_def res_simps check_simps)

lemma keeping_not_Panic: "\<forall>m\<in>set ms. m \<noteq> Panic \<Longrightarrow> keeping c ms \<noteq> Panic"
  using seqs_not_Panic by (auto simp: keeping_def res_simps)

lemma v_aux_simps [check_simps]:
  "v_aux v pc i = Ok x \<longleftrightarrow> ins_aux i = Some x" "v_aux v pc i = Panic \<longleftrightarrow> False"
  by (simp_all add: v_aux_def res_simps)

lemma v_register_simps [check_simps]:
  "v_register v pc reg = Ok u \<longleftrightarrow> reg < p_max_stack_size (vl_prototype v)"
  "v_register v pc reg = Panic \<longleftrightarrow> False"
  by (simp_all add: v_register_def res_simps)

lemma unat_ucast_byte: "unat (w :: 32 word) < 256 \<Longrightarrow> unat (ucast w :: byte) = unat w"
  by (simp add: unsigned_ucast_eq take_bit_nat_eq_self)

lemma v_register_u32_simps [check_simps]:
  "v_register_u32 v pc reg = Ok u \<longleftrightarrow> unat reg < v_stack_size v"
  "v_register_u32 v pc reg = Panic \<longleftrightarrow> False"
proof -
  have "\<not> unat reg < v_stack_size v" if "\<not> unat reg < 256"
    using that unat_byte_lt [of "p_max_stack_size (vl_prototype v)"] unfolding v_stack_size_def by linarith
  then show "v_register_u32 v pc reg = Ok u \<longleftrightarrow> unat reg < v_stack_size v"
    by (cases "unat reg < 256")
      (simp_all add: v_register_u32_def check_simps word_less_nat_alt unat_ucast_byte v_stack_size_def)
  show "v_register_u32 v pc reg = Panic \<longleftrightarrow> False" by (simp add: v_register_u32_def check_simps)
qed

lemma v_register_offset_simps [check_simps]:
  "v_register_offset v pc reg n = Ok u \<longleftrightarrow> unat reg + n \<le> usize_max \<and> unat reg + n < v_stack_size v"
  "v_register_offset v pc reg n = Panic \<longleftrightarrow> False"
  by (auto simp: v_register_offset_def res_simps usize_simps)

lemma v_register_range_simps [check_simps]:
  "v_register_range v pc start n = Ok u \<longleftrightarrow> start + n \<le> usize_max \<and> start + n \<le> v_stack_size v"
  "v_register_range v pc start n = Panic \<longleftrightarrow> False"
  by (auto simp: v_register_range_def res_simps usize_simps)

lemma v_upvalue_simps [check_simps]:
  "v_upvalue v pc n = Ok u \<longleftrightarrow> n < p_upvalue_count (vl_prototype v)"
  "v_upvalue v pc n = Panic \<longleftrightarrow> False"
  by (simp_all add: v_upvalue_def res_simps)

text \<open>A constant operand: in range, and of the expected kind when one is expected.\<close>

definition constant_at :: "prototype \<Rightarrow> nat \<Rightarrow> string option \<Rightarrow> bool" where
  "constant_at p k kind \<longleftrightarrow> k < length (p_constants p) \<and>
     (\<forall>e. kind = Some e \<longrightarrow> constant_kind (p_constants p ! k) = e)"

lemma v_constant_simps [check_simps]:
  "v_constant v pc k kind = Ok u \<longleftrightarrow> constant_at (vl_prototype v) k kind"
  "v_constant v pc k kind = Panic \<longleftrightarrow> False"
  by (auto simp: v_constant_def constant_at_def check_simps get_def split: option.splits)

lemma usize_try_from_Some [res_simps]: "usize_try_from x = Some n \<longleftrightarrow> x = int n \<and> n \<le> usize_max"
  by (auto simp: usize_try_from_def)

lemma v_nonnegative_i16_simps [check_simps]:
  "v_nonnegative_i16 v pc x name = Ok n \<longleftrightarrow> x = int n \<and> n \<le> usize_max"
  "v_nonnegative_i16 v pc x name = Panic \<longleftrightarrow> False"
  by (simp_all add: v_nonnegative_i16_def res_simps)

lemma v_constant_i16_simps [check_simps]:
  "v_constant_i16 v pc x kind = Ok n \<longleftrightarrow>
     x = int n \<and> n \<le> usize_max \<and> constant_at (vl_prototype v) n kind"
  "v_constant_i16 v pc x kind = Panic \<longleftrightarrow> False"
  by (auto simp: v_constant_i16_def res_simps check_simps)

lemma v_jump_simps [check_simps]:
  "v_jump v pc target starts = Ok u \<longleftrightarrow> (\<exists>t. target = Some t \<and> t < length starts \<and> starts ! t)"
  "v_jump v pc target starts = Panic \<longleftrightarrow> False"
  by (auto simp: v_jump_def check_simps split: option.splits)

lemma v_expect_next_not_Panic [check_simps]: "v_expect_next v k pc ops = Panic \<longleftrightarrow> False"
  by (simp add: v_expect_next_def Let_def check_simps)

lemma v_capture_sequence_not_Panic [check_simps]: "v_capture_sequence v k pc n flag = Panic \<longleftrightarrow> False"
proof -
  have "v_capture_sequence v k pc n flag \<noteq> Panic"
    unfolding v_capture_sequence_def
    by (rule each_not_Panic) (auto simp: v_capture_at_def res_simps check_simps)
  then show ?thesis by simp
qed

lemma v_import_path_not_Panic [check_simps]: "v_import_path v pc i = Panic \<longleftrightarrow> False"
  by (auto simp: v_import_path_def res_simps check_simps Let_def dest!: each_PanicD)

lemma v_arm_not_Panic [check_simps]:
  "v_name_call v k pc i = Panic \<longleftrightarrow> False" "v_new_table v pc i = Panic \<longleftrightarrow> False"
  "v_for_g_loop v pc i starts = Panic \<longleftrightarrow> False" "v_prep_varargs v pc i = Panic \<longleftrightarrow> False"
  "v_fast_call v pc i = Panic \<longleftrightarrow> False" "v_capture v pc i caps = Panic \<longleftrightarrow> False"
  by (auto simp: v_name_call_def v_new_table_def v_for_g_loop_def v_prep_varargs_def v_fast_call_def
      v_capture_def res_simps check_simps Let_def split: if_splits dest!: seqs_PanicD)

section \<open>No panic\<close>

text \<open>The references the chunk-structure pass has checked before any instruction is looked at.\<close>

definition refs_checked :: "chunk \<Rightarrow> prototype \<Rightarrow> bool" where
  "refs_checked c p \<longleftrightarrow>
     (\<forall>child\<in>set (p_children p). child < length (ch_prototypes c)) \<and>
     (\<forall>child. CClosure child \<in> set (p_constants p) \<longrightarrow> child < length (ch_prototypes c))"

lemma check_refs_not_Panic:
  "check_string c i n w \<noteq> Panic" "check_prototype c i n w \<noteq> Panic" "check_constant i n m w \<noteq> Panic"
  by (simp_all add: check_string_def check_prototype_def check_constant_def res_simps)

lemma check_constant_refs_not_Panic: "check_constant_refs c i n k \<noteq> Panic"
  by (cases k)
    (auto simp: check_refs_not_Panic Panic_commute split: if_splits dest!: each_PanicD seqs_PanicD)

lemma validate_chunk_structure_not_Panic: "validate_chunk_structure c \<noteq> Panic"
  unfolding validate_chunk_structure_def check_prototype_refs_def check_debug_names_def
  by (auto simp: res_simps check_refs_not_Panic check_constant_refs_not_Panic Panic_commute
      split: option.splits dest!: each_PanicD seqs_PanicD)

lemma enumerate_mem: "p \<in> set ps \<Longrightarrow> \<exists>k. (k, p) \<in> set (enumerate 0 ps)"
proof -
  assume "p \<in> set ps"
  then obtain k where "k < length ps" "ps ! k = p" by (auto simp: in_set_conv_nth)
  then have "(k, p) \<in> set (enumerate 0 ps)" by (simp add: in_set_enumerate_eq)
  then show ?thesis by blast
qed

lemma validate_chunk_structure_refs:
  assumes "validate_chunk_structure c = Ok u" and "p \<in> set (ch_prototypes c)"
  shows "refs_checked c p"
proof -
  obtain k where "(k, p) \<in> set (enumerate 0 (ch_prototypes c))" using enumerate_mem [OF assms(2)] by blast
  then have "check_prototype_refs c (k, p) = Ok ()"
    using assms(1) by (auto simp: validate_chunk_structure_def check_simps res_simps)
  then show ?thesis
    by (force simp: check_prototype_refs_def refs_checked_def check_simps res_simps check_prototype_def)
qed

lemma constant_kind_closure: "constant_kind k = ''closure'' \<longleftrightarrow> (\<exists>child. k = CClosure child)"
  by (cases k) simp_all

lemma v_closure_not_Panic:
  assumes "refs_checked (vl_chunk v) (vl_prototype v)"
  shows "v_new_closure v k pc i \<noteq> Panic" "v_dup_closure v k pc i \<noteq> Panic"
proof -
  let ?p = "vl_prototype v" and ?n = "length (ch_prototypes (vl_chunk v))"
  show "v_new_closure v k pc i \<noteq> Panic"
  proof
    assume "v_new_closure v k pc i = Panic"
    then obtain n where "n < length (p_children ?p)" "?n \<le> p_children ?p ! n"
      by (auto simp: v_new_closure_def res_simps check_simps)
    moreover from this(1) assms have "p_children ?p ! n < ?n" by (simp add: refs_checked_def)
    ultimately show False by simp
  qed
  show "v_dup_closure v k pc i \<noteq> Panic"
  proof
    assume "v_dup_closure v k pc i = Panic"
    then obtain n where n: "constant_at ?p n (Some ''closure'')"
      and p: "rbind (case p_constants ?p ! n of CClosure child \<Rightarrow> Ok child | _ \<Rightarrow> Panic) (\<lambda>child.
          rbind (index_at (ch_prototypes (vl_chunk v)) child) (\<lambda>target.
          v_capture_sequence v k pc (p_upvalue_count target) True)) = Panic"
      by (auto simp: v_dup_closure_def res_simps check_simps constant_at_def)
    from n obtain child where child: "p_constants ?p ! n = CClosure child" "n < length (p_constants ?p)"
      by (auto simp: constant_at_def constant_kind_closure)
    then have "CClosure child \<in> set (p_constants ?p)" by (metis nth_mem)
    with assms have "child < ?n" by (simp add: refs_checked_def)
    with p child show False by (simp add: res_simps check_simps)
  qed
qed

lemma validate_instruction_not_Panic:
  assumes "refs_checked (vl_chunk v) (vl_prototype v)"
  shows "validate_instruction v k i starts caps \<noteq> Panic"
  unfolding validate_instruction_def Let_def
  using v_closure_not_Panic [OF assms]
  by (intro if_not_Panic keeping_not_Panic) (auto simp: check_simps res_simps)

text \<open>Marking positions in a map the length of the code.\<close>

lemma mark_starts:
  assumes "\<forall>i\<in>set is. ins_pc i < length starts"
  shows "\<exists>starts'. fold_res mark_start starts is = Ok starts' \<and> length starts' = length starts \<and>
    (\<forall>pc<length starts. starts' ! pc \<longleftrightarrow> starts ! pc \<or> (\<exists>i\<in>set is. ins_pc i = pc))"
  using assms
proof (induction "is" arbitrary: starts)
  case Nil
  then show ?case by simp
next
  case (Cons i "is")
  then have i: "mark_start starts i = Ok (starts[ins_pc i := True])" by (simp add: mark_start_def set_at_def)
  from Cons.IH [of "starts[ins_pc i := True]"] Cons.prems i show ?case
    by (fastforce simp: nth_list_update)
qed

lemma mark_targets:
  "\<exists>targets'. fold_res mark_target targets is = Ok targets' \<and> length targets' = length targets \<and>
    (\<forall>pc<length targets. targets' ! pc \<longleftrightarrow> targets ! pc \<or>
      (\<exists>i\<in>set is. \<not> is_fast_call (ins_opcode i) \<and> jump_target i = Some pc))"
proof (induction "is" arbitrary: targets)
  case Nil
  then show ?case by simp
next
  case (Cons i "is")
  define m where "m = (if is_fast_call (ins_opcode i) then targets
    else case jump_target i of None \<Rightarrow> targets
         | Some t \<Rightarrow> if t < length targets then targets[t := True] else targets)"
  have "mark_target targets i = Ok m"
    by (simp add: mark_target_def m_def set_at_def split: option.splits)
  moreover have "length m = length targets" by (simp add: m_def split: option.splits)
  moreover have "\<forall>pc<length targets. m ! pc \<longleftrightarrow> targets ! pc \<or>
      \<not> is_fast_call (ins_opcode i) \<and> jump_target i = Some pc"
    by (auto simp: m_def nth_list_update split: option.splits)
  ultimately show ?case using Cons.IH [of m] by fastforce
qed

text \<open>One accepted prototype: what each pass of \<open>Validator::validate\<close> has established.\<close>

definition starts_map :: "prototype \<Rightarrow> bool list \<Rightarrow> bool" where
  "starts_map p starts \<longleftrightarrow> length starts = length (p_code p) \<and>
     (\<forall>pc<length (p_code p). starts ! pc \<longleftrightarrow> (\<exists>i\<in>set (p_instructions p). ins_pc i = pc))"

definition accepted :: "(nat \<Rightarrow> bool) \<Rightarrow> validator \<Rightarrow> bool list \<Rightarrow> bool" where
  "accepted alloc v starts \<longleftrightarrow>
     laid_out 0 (p_instructions (vl_prototype v)) \<and>
     concat (map ins_words (p_instructions (vl_prototype v))) = p_code (vl_prototype v) \<and>
     p_parameter_count (vl_prototype v) \<le> p_max_stack_size (vl_prototype v) \<and>
     starts_map (vl_prototype v) starts \<and>
     validate_instructions v starts = Ok [] \<and>
     validate_variadic alloc v = Ok () \<and>
     validate_debug_info v starts = Ok ()"

lemma decode_Ok: "decode alloc words = Ok is \<Longrightarrow> laid_out 0 is \<and> concat (map ins_words is) = words"
  using decode_from_exact [of 0 words "is"] by (auto simp: decode_def res_simps)

lemma marked_starts:
  assumes "decode alloc (p_code p) = Ok (p_instructions p)"
  shows "\<exists>starts. fold_res mark_start (replicate (length (p_code p)) False) (p_instructions p) = Ok starts \<and>
    starts_map p starts"
proof -
  have "\<forall>i\<in>set (p_instructions p). ins_pc i < length (replicate (length (p_code p)) False)"
    using decode_Ok [OF assms] laid_out_pc_lt by auto
  from mark_starts [OF this] show ?thesis by (auto simp: starts_map_def)
qed

lemma validate_prototype_Ok:
  assumes "validate_prototype alloc v = Ok u"
  shows "\<exists>starts. accepted alloc v starts"
proof -
  let ?p = "vl_prototype v"
  from assms have dec: "decode alloc (p_code ?p) = Ok (p_instructions ?p)"
    and par: "p_parameter_count ?p \<le> p_max_stack_size ?p"
    by (auto simp: validate_prototype_def Let_def res_simps check_simps not_less split: if_splits)
  from marked_starts [OF dec] obtain starts
    where st: "fold_res mark_start (replicate (length (p_code ?p)) False) (p_instructions ?p) = Ok starts"
      and map: "starts_map ?p starts" by blast
  from assms st have "validate_instructions v starts = Ok []" "validate_variadic alloc v = Ok ()"
    "validate_debug_info v starts = Ok ()"
    by (auto simp: validate_prototype_def Let_def res_simps check_simps bool_scratch_def
        try_bool_scratch_def split: if_splits)
  with dec par map decode_Ok [OF dec] show ?thesis by (auto simp: accepted_def)
qed

text \<open>Every instruction of an accepted prototype has passed its arm of the match.\<close>

lemma fold_res_passed:
  assumes "fold_res f s xs = Ok t" and "x \<in> set xs"
  shows "\<exists>s1 s2. f s1 x = Ok s2"
  using assms by (induction xs arbitrary: s) (auto simp: res_simps)

lemma validate_instructions_passed:
  assumes "validate_instructions v starts = Ok caps" and "k < length (p_instructions (vl_prototype v))"
  shows "\<exists>c d. validate_instruction v k (p_instructions (vl_prototype v) ! k) starts c = Ok d"
proof -
  have "(k, p_instructions (vl_prototype v) ! k) \<in> set (enumerate 0 (p_instructions (vl_prototype v)))"
    using assms(2) by (simp add: in_set_enumerate_eq)
  from fold_res_passed [OF assms(1) [unfolded validate_instructions_def] this] show ?thesis by simp
qed

lemma validate_instructions_mem:
  assumes "validate_instructions v starts = Ok caps" and "i \<in> set (p_instructions (vl_prototype v))"
  obtains k c d where "k < length (p_instructions (vl_prototype v))"
    "p_instructions (vl_prototype v) ! k = i" "validate_instruction v k i starts c = Ok d"
  using assms validate_instructions_passed [OF assms(1)] by (metis in_set_conv_nth)

lemma v_fast_call_Ok:
  "v_fast_call v pc i = Ok u \<Longrightarrow>
     \<exists>call. call_at v (pc + 1 + unat (ins_c i)) = Some call \<and> ins_opcode call = OpCall"
  by (auto simp: v_fast_call_def check_simps res_simps usize_simps split: if_splits)

lemma fast_call_passed:
  assumes "validate_instruction v k i starts c = Ok d" and "is_fast_call (ins_opcode i)"
  shows "\<exists>call. call_at v (ins_pc i + 1 + unat (ins_c i)) = Some call \<and> ins_opcode call = OpCall"
  using assms v_fast_call_Ok [of v "ins_pc i" i]
  by (auto simp: is_fast_call_def validate_instruction_def Let_def check_simps)

lemma validate_variadic_not_Panic:
  assumes "laid_out 0 (p_instructions (vl_prototype v))"
    and "concat (map ins_words (p_instructions (vl_prototype v))) = p_code (vl_prototype v)"
    and "\<forall>i\<in>set (p_instructions (vl_prototype v)). is_fast_call (ins_opcode i) \<longrightarrow>
      call_at v (ins_pc i + 1 + unat (ins_c i)) \<noteq> None"
  shows "validate_variadic alloc v \<noteq> Panic"
proof -
  let ?is = "p_instructions (vl_prototype v)"
  obtain targets where t: "fold_res mark_target (replicate (length (p_code (vl_prototype v))) False) ?is = Ok targets"
    "length targets = length (p_code (vl_prototype v))"
    using mark_targets [of "replicate (length (p_code (vl_prototype v))) False" ?is] by auto
  have "fold_res (variadic_step v targets) False ?is \<noteq> Panic"
  proof (rule fold_res_not_Panic [where I = "\<lambda>_. True"])
    fix s i
    assume i: "i \<in> set ?is"
    then have "ins_pc i < length targets" using laid_out_pc_lt [OF assms(1,2)] t(2) by simp
    moreover have "ins_opcode i = OpFastCall \<Longrightarrow> call_at v (Suc (ins_pc i + unat (ins_c i))) \<noteq> None"
      using assms(3) i by (force simp: is_fast_call_def)
    ultimately show "variadic_step v targets s i \<noteq> Panic"
      by (auto simp: variadic_step_def call_step_def Let_def res_simps check_simps split: option.splits if_splits)
  qed simp_all
  with t(1) show ?thesis
    by (auto simp: validate_variadic_def bool_scratch_def try_bool_scratch_def res_simps check_simps)
qed

lemma validate_debug_info_not_Panic:
  assumes "starts_map (vl_prototype v) starts"
  shows "validate_debug_info v starts \<noteq> Panic"
  using assms
  by (auto simp: validate_debug_info_def validate_local_def validate_feedback_def bad_local_range_def
      not_start_def starts_map_def res_simps check_simps Let_def word_less_nat_alt
      split: option.splits if_splits dest!: seqs_PanicD each_PanicD)

lemma validate_prototype_not_Panic:
  assumes "refs_checked (vl_chunk v) (vl_prototype v)"
  shows "validate_prototype alloc v \<noteq> Panic"
proof
  let ?p = "vl_prototype v"
  assume panic: "validate_prototype alloc v = Panic"
  have "decode alloc (p_code ?p) \<noteq> Panic" by (simp add: decode_def res_simps decode_from_not_Panic)
  with panic have dec: "decode alloc (p_code ?p) = Ok (p_instructions ?p)"
    by (auto simp: validate_prototype_def Let_def res_simps check_simps split: if_splits)
  from marked_starts [OF dec] obtain starts
    where st: "fold_res mark_start (replicate (length (p_code ?p)) False) (p_instructions ?p) = Ok starts"
      and map: "starts_map ?p starts" by blast
  have vi: "validate_instructions v starts \<noteq> Panic"
    unfolding validate_instructions_def
    by (rule fold_res_not_Panic [where I = "\<lambda>_. True"])
      (auto simp: validate_instruction_not_Panic [OF assms])
  have "validate_variadic alloc v \<noteq> Panic" if "validate_instructions v starts = Ok caps" for caps
    using validate_variadic_not_Panic [of v alloc] decode_Ok [OF dec]
      fast_call_passed validate_instructions_mem [OF that] by (metis option.distinct(1))
  with panic dec st vi validate_debug_info_not_Panic [OF map] show False
    by (auto simp: validate_prototype_def Let_def res_simps check_simps bool_scratch_def
        try_bool_scratch_def split: if_splits)
qed

lemma validate_chunk_not_Panic: "validate_chunk alloc c \<noteq> Panic"
proof -
  have "each (\<lambda>(index, p). validate_prototype alloc \<lparr>vl_chunk = c, vl_prototype = p, vl_index = index\<rparr>)
      (enumerate 0 (ch_prototypes c)) \<noteq> Panic"
    if s: "validate_chunk_structure c = Ok u" for u
  proof (rule each_not_Panic)
    fix x
    assume x: "x \<in> set (enumerate 0 (ch_prototypes c))"
    obtain k p where kp: "x = (k, p)" by (cases x)
    with x have "p \<in> set (ch_prototypes c)" by (auto simp: in_set_enumerate_eq)
    then have "refs_checked c p" by (rule validate_chunk_structure_refs [OF s])
    then show "(case x of (index, p) \<Rightarrow>
        validate_prototype alloc \<lparr>vl_chunk = c, vl_prototype = p, vl_index = index\<rparr>) \<noteq> Panic"
      by (simp add: kp validate_prototype_not_Panic)
  qed
  then show ?thesis by (auto simp: validate_chunk_def res_simps validate_chunk_structure_not_Panic)
qed

text \<open>
  C6: the validator returns on every chunk, whatever its contents and whatever the allocator
  grants: none of its unchecked indexing, its \<open>expect\<close> and its \<open>unreachable!\<close> is ever reached
  out of range.
\<close>

theorem validate_never_panics: "validate_chunk alloc c \<noteq> Panic"
  by (rule validate_chunk_not_Panic)

text \<open>A chunk the validator has accepted, prototype by prototype.\<close>

definition validator_of :: "chunk \<Rightarrow> nat \<Rightarrow> validator" where
  "validator_of c k = \<lparr>vl_chunk = c, vl_prototype = ch_prototypes c ! k, vl_index = k\<rparr>"

lemma validator_of_sel [simp]:
  "vl_chunk (validator_of c k) = c" "vl_prototype (validator_of c k) = ch_prototypes c ! k"
  by (simp_all add: validator_of_def)

lemma validate_chunk_accepted:
  assumes "validate_chunk alloc c = Ok u" and "p \<in> set (ch_prototypes c)"
  obtains k starts where "k < length (ch_prototypes c)" "ch_prototypes c ! k = p" "refs_checked c p"
    "accepted alloc (validator_of c k) starts"
proof -
  from assms(2) obtain k where k: "k < length (ch_prototypes c)" "ch_prototypes c ! k = p"
    by (auto simp: in_set_conv_nth)
  then have mem: "(k, p) \<in> set (enumerate 0 (ch_prototypes c))" by (simp add: in_set_enumerate_eq)
  from assms(1) have s: "validate_chunk_structure c = Ok ()"
    and "\<forall>x\<in>set (enumerate 0 (ch_prototypes c)). (case x of (index, p) \<Rightarrow>
      validate_prototype alloc \<lparr>vl_chunk = c, vl_prototype = p, vl_index = index\<rparr>) = Ok ()"
    by (simp_all add: validate_chunk_def res_simps)
  from this(2) mem k have "validate_prototype alloc (validator_of c k) = Ok ()"
    by (auto simp: validator_of_def)
  from validate_prototype_Ok [OF this] validate_chunk_structure_refs [OF s assms(2)] k that
  show thesis by blast
qed

end
