(* ===== verification/Luau_Sample.thy ===== *)
theory Luau_Sample
  imports Luau_Safety
begin

text \<open>
  A small chunk the validator accepts: a main function that loads a constant, jumps over it,
  builds a closure with one captured register and closes it, and the closure's prototype. The
  properties of accepted chunks are applied to it.
\<close>

definition ins :: "nat \<Rightarrow> 32 word \<Rightarrow> opcode \<Rightarrow> instruction" where
  "ins pc w op = \<lparr>ins_pc = pc, ins_word = w, ins_opcode = op, ins_aux = None\<rparr>"

definition sample_child :: prototype where
  "sample_child =
     \<lparr>p_max_stack_size = 1, p_parameter_count = 0, p_upvalue_count = 1, p_is_vararg = False,
      p_flags = 0, p_typeinfo = [], p_code = [0x00000009, 0x00020016],
      p_instructions = [ins 0 0x00000009 OpGetUpval, ins 1 0x00020016 OpReturn],
      p_constants = [], p_children = [], p_line_defined = 0, p_debug_name = None,
      p_line_info = None, p_debug_info = None, p_feedback = [], p_cost = None\<rparr>"

definition sample_main :: prototype where
  "sample_main =
     \<lparr>p_max_stack_size = 3, p_parameter_count = 0, p_upvalue_count = 0, p_is_vararg = True,
      p_flags = 0, p_typeinfo = [],
      p_code = [0x00000041, 0x01010003, 0x00000105, 0x00000213, 0x00000146, 0x0000000B, 0x0000003F,
        0x00000016],
      p_instructions = [ins 0 0x00000041 OpPrepVarargs, ins 1 0x01010003 OpLoadB,
        ins 2 0x00000105 OpLoadK, ins 3 0x00000213 OpNewClosure, ins 4 0x00000146 OpCapture,
        ins 5 0x0000000B OpCloseUpvals, ins 6 0x0000003F OpGetVarargs,
        ins 7 0x00000016 OpReturn],
      p_constants = [CNumber 0], p_children = [1], p_line_defined = 0, p_debug_name = None,
      p_line_info = None,
      p_debug_info = Some \<lparr>di_locals = [\<lparr>dl_name = None, dl_start_pc = 2, dl_end_pc = 8, dl_register = 1\<rparr>],
        di_upvalue_names = []\<rparr>,
      p_feedback = [\<lparr>fs_pc = 3\<rparr>], p_cost = None\<rparr>"

definition sample_chunk :: chunk where
  "sample_chunk =
     \<lparr>ch_version = 12, ch_typeinfo_version = 3, ch_strings = [], ch_userdata_types = [],
      ch_prototypes = [sample_main, sample_child], ch_main = 0\<rparr>"

lemma sample_decode:
  "decode (\<lambda>_. True) (p_code sample_main) = Ok (p_instructions sample_main)"
  "decode (\<lambda>_. True) (p_code sample_child) = Ok (p_instructions sample_child)"
  by (simp_all add: decode_def decode_from_exact sample_main_def sample_child_def ins_def ins_words_def ins_wf_def
      opcode_try_from_Ok opcode_words_def)

lemma sample_starts:
  "fold_res mark_start (replicate 8 False) (p_instructions sample_main) = Ok (replicate 8 True)"
  "fold_res mark_start (replicate 2 False) (p_instructions sample_child) = Ok (replicate 2 True)"
  by (simp_all add: sample_main_def sample_child_def mark_start_def set_at_def ins_def eval_nat_numeral)

lemmas ins_fields = ins_def ins_a_def ins_b_def ins_c_def ins_d_def

lemmas check_defs = validate_instructions_def validate_instruction_def Let_def keeping_def seqs_def
  v_prep_varargs_def v_register_def v_jump_def jump_target_def jump_delta_def uses_d_jump_def
  is_fast_call_def i64_try_from_def i64_min_def i64_max_def usize_try_from_def usize_max_def
  v_constant_i16_def v_nonnegative_i16_def v_constant_def get_def v_new_closure_def index_at_def
  v_capture_sequence_def v_capture_at_def v_capture_def close_upvals_def v_register_range_def
  checked_add_def v_stack_size_def v_upvalue_def

lemmas sample_defs = validator_of_def sample_chunk_def sample_main_def sample_child_def ins_fields

lemma sample_instructions:
  "validate_instructions (validator_of sample_chunk 0) (replicate 8 True) = Ok []"
  "validate_instructions (validator_of sample_chunk 1) (replicate 2 True) = Ok []"
  by (simp_all add: sample_defs check_defs)

lemma sample_variadic:
  "validate_variadic (\<lambda>_. True) (validator_of sample_chunk 0) = Ok ()"
  "validate_variadic (\<lambda>_. True) (validator_of sample_chunk 1) = Ok ()"
  by (simp_all add: sample_defs check_defs validate_variadic_def bool_scratch_def try_bool_scratch_def
      mark_target_def set_at_def variadic_step_def neutral_in_sequence_def)

lemma sample_debug:
  "validate_debug_info (validator_of sample_chunk 0) (replicate 8 True) = Ok ()"
  "validate_debug_info (validator_of sample_chunk 1) (replicate 2 True) = Ok ()"
  by (simp_all add: sample_defs check_defs validate_debug_info_def validate_local_def
      bad_local_range_def not_start_def validate_feedback_def)

lemma sample_prototypes:
  "validate_prototype (\<lambda>_. True) (validator_of sample_chunk 0) = Ok ()"
  "validate_prototype (\<lambda>_. True) (validator_of sample_chunk 1) = Ok ()"
proof -
  have "ch_prototypes sample_chunk = [sample_main, sample_child]"
    "length (p_code sample_main) = 8" "length (p_code sample_child) = 2"
    "\<not> p_max_stack_size sample_main < p_parameter_count sample_main"
    "\<not> p_max_stack_size sample_child < p_parameter_count sample_child"
    by (simp_all add: sample_defs)
  then show "validate_prototype (\<lambda>_. True) (validator_of sample_chunk 0) = Ok ()"
    "validate_prototype (\<lambda>_. True) (validator_of sample_chunk 1) = Ok ()"
    using sample_instructions sample_variadic sample_debug
    by (simp_all add: validate_prototype_def sample_decode sample_starts bool_scratch_def
        try_bool_scratch_def)
qed

lemma sample_accepted: "validate_chunk (\<lambda>_. True) sample_chunk = Ok ()"
proof -
  have "ch_prototypes sample_chunk = [ch_prototypes sample_chunk ! 0, ch_prototypes sample_chunk ! 1]"
    by (simp add: sample_chunk_def)
  then have e: "enumerate 0 (ch_prototypes sample_chunk) =
      [(0, ch_prototypes sample_chunk ! 0), (1, ch_prototypes sample_chunk ! 1)]"
    by (metis One_nat_def enumerate_simps)
  have "validate_chunk_structure sample_chunk = Ok ()"
    by (simp add: sample_defs validate_chunk_structure_def seqs_def check_prototype_refs_def
        check_debug_names_def check_prototype_def)
  then show ?thesis
    using sample_prototypes unfolding validate_chunk_def e validator_of_def by simp
qed

end
