(* ===== verification/Luau_Accept.thy ===== *)
theory Luau_Accept
  imports Luau_Sample
begin

text \<open>
  The operands of an accepted chunk. Which registers, constants, upvalues and jump targets an
  instruction names is stated here from the instruction format alone; the theorems say that
  the validator lets an instruction through only when all of them exist.
\<close>

section \<open>What an instruction names\<close>

definition names_a :: "opcode set" where
  "names_a = {OpLoadNil, OpLoadB, OpLoadN, OpLoadK, OpMove, OpGetGlobal, OpSetGlobal, OpGetUpval,
     OpSetUpval, OpCloseUpvals, OpGetImport, OpGetTable, OpSetTable, OpGetTableKs, OpSetTableKs,
     OpGetTableN, OpSetTableN, OpNewClosure, OpNameCall, OpNameCallUdata, OpCall, OpCallFb,
     OpJumpIf, OpJumpIfNot, OpJumpIfEq, OpJumpIfLe, OpJumpIfLt, OpJumpIfNotEq, OpJumpIfNotLe,
     OpJumpIfNotLt, OpAdd, OpSub, OpMul, OpDiv, OpMod, OpPow, OpIDiv, OpAddK, OpSubK, OpMulK, OpDivK,
     OpModK, OpPowK, OpIDivK, OpSubRk, OpDivRk, OpAnd, OpOr, OpAndK, OpOrK, OpConcat, OpNot,
     OpMinus, OpLength, OpNewTable, OpDupTable, OpSetList, OpDupClosure, OpLoadKx, OpJumpXEqKNil,
     OpJumpXEqKB, OpJumpXEqKN, OpJumpXEqKS, OpGetUdataKs, OpSetUdataKs, OpNewClassMember, OpCmpProto}"

definition names_b :: "opcode set" where
  "names_b = {OpMove, OpGetTable, OpSetTable, OpGetTableKs, OpSetTableKs, OpGetTableN, OpSetTableN,
     OpNameCall, OpNameCallUdata, OpAdd, OpSub, OpMul, OpDiv, OpMod, OpPow, OpIDiv, OpAddK, OpSubK,
     OpMulK, OpDivK, OpModK, OpPowK, OpIDivK, OpAnd, OpOr, OpAndK, OpOrK, OpConcat, OpNot, OpMinus,
     OpLength, OpFastCall1, OpFastCall2, OpFastCall2K, OpFastCall3, OpGetUdataKs, OpSetUdataKs}"

definition names_c :: "opcode set" where
  "names_c = {OpGetTable, OpSetTable, OpAdd, OpSub, OpMul, OpDiv, OpMod, OpPow, OpIDiv, OpAnd, OpOr,
     OpConcat, OpSubRk, OpDivRk, OpNewClassMember}"

definition names_aux_register :: "opcode set" where
  "names_aux_register = {OpJumpIfEq, OpJumpIfLe, OpJumpIfLt, OpJumpIfNotEq, OpJumpIfNotLe,
     OpJumpIfNotLt, OpFastCall2}"

text \<open>Registers used as a block: from a first one, so many.\<close>

definition register_block :: "instruction \<Rightarrow> nat \<times> nat" where
  "register_block i =
     (let op = ins_opcode i; a = unat (ins_a i); b = unat (ins_b i); c = unat (ins_c i) in
      if op \<in> {OpCall, OpCallFb} then (a, max b (c - 1))
      else if op \<in> {OpReturn, OpGetVarargs} then (a, b - 1)
      else if op \<in> {OpForNPrep, OpForNLoop} then (a, 3)
      else if op = OpForGPrep then (a, 4)
      else if op \<in> {OpForGPrepInext, OpForGPrepNext} then (a, 5)
      else if op = OpForGLoop
      then (case ins_aux i of Some aux \<Rightarrow> (a, 3 + unat (ucast aux :: byte)) | None \<Rightarrow> (a, 0))
      else if op = OpSetList then (b, c - 1)
      else (a, 0))"

definition operand_registers :: "instruction \<Rightarrow> nat list" where
  "operand_registers i =
     (if ins_opcode i \<in> names_a then [unat (ins_a i)] else []) @
     (if ins_opcode i \<in> names_b then [unat (ins_b i)] else []) @
     (if ins_opcode i \<in> names_c then [unat (ins_c i)] else []) @
     (if ins_opcode i \<in> names_aux_register
      then (case ins_aux i of Some aux \<Rightarrow> [unat aux] | None \<Rightarrow> []) else []) @
     (if ins_opcode i = OpFastCall3
      then (case ins_aux i of Some aux \<Rightarrow> [unat (ucast aux :: byte), unat (ucast (drop_bit 8 aux) :: byte)]
                            | None \<Rightarrow> []) else []) @
     (if ins_opcode i = OpCapture \<and> ins_a i < 2 then [unat (ins_b i)] else []) @
     [fst (register_block i)..<fst (register_block i) + snd (register_block i)]"

lemma accepted_instruction:
  assumes "accepted alloc v starts" and "i \<in> set (p_instructions (vl_prototype v))"
  obtains k x y where "k < length (p_instructions (vl_prototype v))"
    "p_instructions (vl_prototype v) ! k = i" "validate_instruction v k i starts x = Ok y"
  using assms validate_instructions_mem by (auto simp: accepted_def elim!: validate_instructions_mem)

text \<open>Every instruction of an accepted chunk, with the arm it has passed.\<close>

lemma chunk_instruction_passed:
  assumes "validate_chunk alloc c = Ok u" and "p \<in> set (ch_prototypes c)"
    and "i \<in> set (p_instructions p)"
  obtains v starts n x y where "vl_prototype v = p" "vl_chunk v = c" "starts_map p starts" "ins_wf i"
    "validate_instruction v n i starts x = Ok y"
proof -
  from validate_chunk_accepted [OF assms(1,2)] obtain k starts where
    k: "ch_prototypes c ! k = p" and acc: "accepted alloc (validator_of c k) starts" by blast
  have "i \<in> set (p_instructions (vl_prototype (validator_of c k)))" using assms(3) k by simp
  from accepted_instruction [OF acc this] obtain n x y where
    "validate_instruction (validator_of c k) n i starts x = Ok y" by metis
  moreover have "ins_wf i" using acc assms(3) k laid_out_wf by (auto simp: accepted_def)
  moreover have "starts_map p starts" using acc k by (simp add: accepted_def)
  ultimately show thesis using that k by (metis validator_of_sel)
qed

section \<open>Registers\<close>

lemma operand_registers_a: "ins_opcode i \<in> names_a \<Longrightarrow> unat (ins_a i) \<in> set (operand_registers i)"
  by (simp only: operand_registers_def if_True set_append list.set Un_iff insert_iff simp_thms)

lemma word_lt_stack: "reg < p_max_stack_size (vl_prototype v) \<longleftrightarrow> unat reg < v_stack_size v"
  by (simp add: word_less_nat_alt v_stack_size_def)

lemma instruction_registers:
  assumes "validate_instruction v k i starts x = Ok y"
  shows "\<forall>r\<in>set (operand_registers i). r < v_stack_size v"
  using assms
  by (cases "ins_opcode i")
    (auto simp: validate_instruction_def operand_registers_def names_a_def names_b_def names_c_def
      names_aux_register_def register_block_def Let_def check_simps res_simps word_lt_stack
      v_fast_call_def v_capture_def v_for_g_loop_def
      split: if_splits)

text \<open>
  C8: in an accepted chunk every register an instruction names, one by one or as a block, is
  below its prototype's stack size.
\<close>

theorem accepted_registers_in_frame:
  assumes "validate_chunk alloc c = Ok ()" and "p \<in> set (ch_prototypes c)"
    and "i \<in> set (p_instructions p)" and "r \<in> set (operand_registers i)"
  shows "r < unat (p_max_stack_size p)"
proof -
  from chunk_instruction_passed [OF assms(1,2,3)] obtain v starts n x y where
    v: "vl_prototype v = p" and ok: "validate_instruction v n i starts x = Ok y" by metis
  from instruction_registers [OF ok] assms(4) v show ?thesis by (simp add: v_stack_size_def)
qed

theorem accepted_registers_in_frame_witness:
  "2 \<in> set (operand_registers (ins 3 0x00000213 OpNewClosure)) \<and>
   (2 :: nat) < unat (p_max_stack_size sample_main)"
proof -
  have "ins_opcode (ins 3 0x00000213 OpNewClosure) \<in> names_a" by (simp add: ins_def names_a_def)
  moreover have "unat (ins_a (ins 3 0x00000213 OpNewClosure)) = 2" by (simp add: ins_fields)
  ultimately have r: "2 \<in> set (operand_registers (ins 3 0x00000213 OpNewClosure))"
    using operand_registers_a by metis
  have "sample_main \<in> set (ch_prototypes sample_chunk)" by (simp add: sample_chunk_def)
  moreover have "ins 3 0x00000213 OpNewClosure \<in> set (p_instructions sample_main)"
    by (simp add: sample_main_def)
  ultimately show ?thesis using accepted_registers_in_frame [OF sample_accepted] r by blast
qed

section \<open>Jumps\<close>

text \<open>
  The instructions with a jump target. A FASTCALL gives as its target the word after the CALL it
  stands for, which is past the code when that CALL is the last instruction; every other target is
  where the program continues.
\<close>

definition has_jump :: "instruction \<Rightarrow> bool" where
  "has_jump i \<longleftrightarrow> uses_d_jump (ins_opcode i) \<or> is_fast_call (ins_opcode i) \<or> ins_opcode i = OpJumpX \<or>
     (ins_opcode i = OpLoadB \<and> ins_c i \<noteq> 0)"

definition starts_instruction :: "prototype \<Rightarrow> nat \<Rightarrow> bool" where
  "starts_instruction p pc \<longleftrightarrow> (\<exists>j\<in>set (p_instructions p). ins_pc j = pc)"

definition jump_lands :: "prototype \<Rightarrow> instruction \<Rightarrow> nat \<Rightarrow> bool" where
  "jump_lands p i t \<longleftrightarrow>
     (if is_fast_call (ins_opcode i)
      then (\<exists>call\<in>set (p_instructions p). ins_opcode call = OpCall \<and> t = ins_pc call + 1) \<and>
        (starts_instruction p t \<or> t = length (p_code p))
      else starts_instruction p t)"

lemma laid_out_next:
  "laid_out pc is \<Longrightarrow> i \<in> set is \<Longrightarrow>
     ins_pc i + opcode_words (ins_opcode i) = pc + length (concat (map ins_words is)) \<or>
     (\<exists>j\<in>set is. ins_pc j = ins_pc i + opcode_words (ins_opcode i))"
proof (induction pc "is" rule: laid_out.induct)
  case (2 pc k ks)
  show ?case
  proof (cases "i \<in> set ks")
    case True
    with 2 show ?thesis by (auto simp: ins_words_length)
  next
    case False
    with 2 show ?thesis by (cases ks) (auto simp: ins_words_length)
  qed
qed simp

lemma instruction_jump:
  assumes "validate_instruction v k i starts x = Ok y" and "has_jump i" and "\<not> is_fast_call (ins_opcode i)"
  shows "\<exists>t. jump_target i = Some t \<and> t < length starts \<and> starts ! t"
  using assms
  by (cases "ins_opcode i")
    (auto simp: validate_instruction_def has_jump_def uses_d_jump_def is_fast_call_def Let_def check_simps
      res_simps v_for_g_loop_def split: if_splits)

lemma no_jump_target: "\<not> has_jump i \<Longrightarrow> jump_target i = None"
  by (auto simp: has_jump_def jump_target_def jump_delta_def)

lemma call_at_Some:
  "call_at v pc = Some call \<Longrightarrow> call \<in> set (p_instructions (vl_prototype v)) \<and> ins_pc call = pc"
  by (auto simp: call_at_def find_Some_iff)

text \<open>The CALL of an accepted FASTCALL, and the word after it.\<close>

lemma fast_call_lands:
  assumes acc: "accepted alloc v starts" and ok: "validate_instruction v k i starts x = Ok y"
    and fast: "is_fast_call (ins_opcode i)"
  shows "jump_lands (vl_prototype v) i (ins_pc i + unat (ins_c i) + 2) \<and>
    ins_pc i + unat (ins_c i) + 2 \<le> length (p_code (vl_prototype v))"
proof -
  from fast_call_passed [OF ok fast] obtain call where
    call: "call \<in> set (p_instructions (vl_prototype v))" "ins_pc call = ins_pc i + unat (ins_c i) + 1"
      "ins_opcode call = OpCall" using call_at_Some by fastforce
  from acc have l: "laid_out 0 (p_instructions (vl_prototype v))"
    and code: "concat (map ins_words (p_instructions (vl_prototype v))) = p_code (vl_prototype v)"
    by (simp_all add: accepted_def)
  from laid_out_next [OF l call(1)] call(2,3) code
  have "starts_instruction (vl_prototype v) (ins_pc i + unat (ins_c i) + 2) \<or>
      ins_pc i + unat (ins_c i) + 2 = length (p_code (vl_prototype v))"
    by (auto simp: starts_instruction_def opcode_words_def)
  moreover from this have "ins_pc i + unat (ins_c i) + 2 \<le> length (p_code (vl_prototype v))"
    using laid_out_pc_lt [OF l] code by (fastforce simp: starts_instruction_def)
  ultimately show ?thesis using call fast by (auto simp: jump_lands_def)
qed

lemma fast_call_delta: "is_fast_call (ins_opcode i) \<Longrightarrow> jump_delta i = Some (int (unat (ins_c i) + 2))"
  by (cases "ins_opcode i") (simp_all add: jump_delta_def is_fast_call_def uses_d_jump_def)

lemma fast_call_target:
  assumes "is_fast_call (ins_opcode i)" and "ins_pc i + unat (ins_c i) + 2 \<le> isize_max"
  shows "jump_target i = Some (ins_pc i + unat (ins_c i) + 2)"
proof -
  define n where "n = unat (ins_c i) + 2"
  have d: "jump_delta i = Some (int n)" using fast_call_delta [OF assms(1)] by (simp only: n_def)
  have le: "ins_pc i + n \<le> 9223372036854775807" using assms(2) by (simp add: n_def isize_max_def)
  then have "jump_target i = Some (ins_pc i + n)"
    by (simp add: jump_target_def d i64_try_from_def usize_try_from_def i64_min_def i64_max_def usize_max_def)
  then show ?thesis by (simp add: n_def)
qed

lemma fast_call_only_target:
  assumes "is_fast_call (ins_opcode i)" and "jump_target i = Some t"
  shows "t = ins_pc i + unat (ins_c i) + 2"
proof -
  from jump_target_delta [OF assms(2)] fast_call_delta [OF assms(1)]
  have "int t = int (ins_pc i) + int (unat (ins_c i) + 2)" by (simp only: option.inject) blast
  then show ?thesis by linarith
qed

text \<open>
  C9: in an accepted chunk every jump target, of whatever instruction, lands: it is where an
  instruction of the same prototype starts, neither outside the code nor in an auxiliary word; or,
  for a FASTCALL, the word after a CALL of the prototype, which starts an instruction or is the end
  of the code. And every instruction that jumps has its target, as long as the code has a length a
  vector can have.
\<close>

theorem accepted_jumps_land:
  assumes "validate_chunk alloc c = Ok ()" and "p \<in> set (ch_prototypes c)"
    and "i \<in> set (p_instructions p)"
  shows "(\<forall>t. jump_target i = Some t \<longrightarrow> jump_lands p i t) \<and>
    (has_jump i \<and> length (p_code p) \<le> isize_max \<longrightarrow> jump_target i \<noteq> None) \<and>
    (has_jump i \<and> \<not> is_fast_call (ins_opcode i) \<longrightarrow>
       (\<exists>j\<in>set (p_instructions p). jump_target i = Some (ins_pc j)))"
proof -
  from validate_chunk_accepted [OF assms(1,2)] obtain k starts where
    k: "ch_prototypes c ! k = p" and acc: "accepted alloc (validator_of c k) starts" by blast
  have p: "vl_prototype (validator_of c k) = p" using k by simp
  have i: "i \<in> set (p_instructions (vl_prototype (validator_of c k)))" using assms(3) p by simp
  from accepted_instruction [OF acc i] obtain n x y where
    ok: "validate_instruction (validator_of c k) n i starts x = Ok y" by metis
  show ?thesis
  proof (cases "is_fast_call (ins_opcode i)")
    case True
    from fast_call_lands [OF acc ok True] p
    have land: "jump_lands p i (ins_pc i + unat (ins_c i) + 2)"
      and le: "ins_pc i + unat (ins_c i) + 2 \<le> length (p_code p)" by simp_all
    have "jump_lands p i t" if "jump_target i = Some t" for t
      using fast_call_only_target [OF True that] land by simp
    moreover have "jump_target i \<noteq> None" if "length (p_code p) \<le> isize_max"
      using fast_call_target [OF True order_trans [OF le that]] by simp
    ultimately show ?thesis using True by blast
  next
    case False
    have st: "starts_map p starts" using acc p by (simp add: accepted_def)
    have land: "\<exists>j\<in>set (p_instructions p). jump_target i = Some (ins_pc j)" if "has_jump i"
      using instruction_jump [OF ok that False] st by (auto simp: starts_map_def)
    show ?thesis
    proof (cases "has_jump i")
      case True
      with land False show ?thesis by (force simp: jump_lands_def starts_instruction_def)
    qed (simp add: no_jump_target)
  qed
qed

theorem accepted_jumps_land_witness:
  "\<exists>j\<in>set (p_instructions sample_main). jump_target (ins 1 0x01010003 OpLoadB) = Some (ins_pc j)"
proof -
  have "sample_main \<in> set (ch_prototypes sample_chunk)" by (simp add: sample_chunk_def)
  moreover have "ins 1 0x01010003 OpLoadB \<in> set (p_instructions sample_main)"
    by (simp add: sample_main_def)
  moreover have "has_jump (ins 1 0x01010003 OpLoadB)" by (simp add: has_jump_def ins_fields)
  moreover have "\<not> is_fast_call (ins_opcode (ins 1 0x01010003 OpLoadB))"
    by (simp add: is_fast_call_def ins_fields)
  ultimately show ?thesis
    using accepted_jumps_land [OF sample_accepted, of sample_main "ins 1 0x01010003 OpLoadB"] by blast
qed

section \<open>Constants and upvalues\<close>

definition import_parts :: "32 word \<Rightarrow> nat list" where
  "import_parts import =
     map (\<lambda>part. unat (drop_bit (20 - 10 * part) import AND 1023)) [0..<unat (drop_bit 30 import)]"

definition aux_constant :: "instruction \<Rightarrow> 32 word \<Rightarrow> string option \<Rightarrow> (nat \<times> string option) list" where
  "aux_constant i m kind =
     (case ins_aux i of Some aux \<Rightarrow> [(unat (aux AND m), kind)] | None \<Rightarrow> [])"

definition operand_constants :: "instruction \<Rightarrow> (nat \<times> string option) list" where
  "operand_constants i =
     (let op = ins_opcode i; d = nat (ins_d i) in
      if op = OpLoadK then [(d, None)]
      else if op \<in> {OpGetGlobal, OpSetGlobal, OpGetTableKs, OpSetTableKs, OpNameCall, OpNewClassMember}
      then aux_constant i (- 1) (Some ''string'')
      else if op = OpGetImport then (d, Some ''import'') #
        (case ins_aux i of Some aux \<Rightarrow> map (\<lambda>k. (k, Some ''string'')) (import_parts aux) | None \<Rightarrow> [])
      else if op \<in> {OpNameCallUdata, OpGetUdataKs, OpSetUdataKs}
      then aux_constant i 0xFFFF (Some ''string'')
      else if op = OpJumpXEqKN then aux_constant i 0x00FFFFFF (Some ''number'')
      else if op = OpJumpXEqKS then aux_constant i 0x00FFFFFF (Some ''string'')
      else if op \<in> {OpAddK, OpSubK, OpMulK, OpDivK, OpModK, OpPowK, OpIDivK}
      then [(unat (ins_c i), Some ''number'')]
      else if op \<in> {OpSubRk, OpDivRk} then [(unat (ins_b i), Some ''number'')]
      else if op \<in> {OpAndK, OpOrK} then [(unat (ins_c i), None)]
      else if op = OpDupTable then [(d, Some ''table'')]
      else if op = OpDupClosure then [(d, Some ''closure'')]
      else if op \<in> {OpLoadKx, OpFastCall2K} then aux_constant i (- 1) None
      else [])"

lemma v_import_path_Ok:
  "v_import_path v pc i = Ok u \<Longrightarrow>
     \<exists>aux. ins_aux i = Some aux \<and> (\<forall>k\<in>set (import_parts aux). constant_at (vl_prototype v) k (Some ''string''))"
  by (auto simp: v_import_path_def import_parts_def res_simps check_simps Let_def split: if_splits)

lemma v_dup_closure_Ok:
  "v_dup_closure v k pc i = Ok u \<Longrightarrow>
     0 \<le> ins_d i \<and> constant_at (vl_prototype v) (nat (ins_d i)) (Some ''closure'')"
  by (auto simp: v_dup_closure_def res_simps check_simps)

lemma instruction_constants:
  assumes "validate_instruction v k i starts x = Ok y"
  shows "\<forall>(n, kind)\<in>set (operand_constants i). constant_at (vl_prototype v) n kind"
  using assms
  by (cases "ins_opcode i")
    (auto simp: validate_instruction_def operand_constants_def aux_constant_def Let_def check_simps
      res_simps v_fast_call_def v_name_call_def dest!: v_import_path_Ok v_dup_closure_Ok
      split: if_splits)

definition operand_upvalues :: "instruction \<Rightarrow> nat list" where
  "operand_upvalues i =
     (if ins_opcode i \<in> {OpGetUpval, OpSetUpval} \<or> (ins_opcode i = OpCapture \<and> ins_a i = 2)
      then [unat (ins_b i)] else [])"

lemma instruction_upvalues:
  assumes "validate_instruction v k i starts x = Ok y"
  shows "\<forall>n\<in>set (operand_upvalues i). n < unat (p_upvalue_count (vl_prototype v))"
  using assms
  by (auto simp: operand_upvalues_def validate_instruction_def Let_def check_simps res_simps
      v_capture_def word_less_nat_alt split: if_splits)

text \<open>
  C10: in an accepted chunk every constant operand is in the prototype's table and has the kind
  the instruction needs, and every upvalue operand is below the prototype's upvalue count.
\<close>

theorem accepted_constants_exist:
  assumes "validate_chunk alloc c = Ok ()" and "p \<in> set (ch_prototypes c)"
    and "i \<in> set (p_instructions p)"
  shows "(\<forall>(n, kind)\<in>set (operand_constants i). n < length (p_constants p) \<and>
      (\<forall>e. kind = Some e \<longrightarrow> constant_kind (p_constants p ! n) = e)) \<and>
    (\<forall>n\<in>set (operand_upvalues i). n < unat (p_upvalue_count p))"
proof -
  from chunk_instruction_passed [OF assms] obtain v starts n x y where
    v: "vl_prototype v = p" and wf: "ins_wf i" and ok: "validate_instruction v n i starts x = Ok y" by metis
  from instruction_constants [OF ok] instruction_upvalues [OF ok] v show ?thesis
    by (auto simp: constant_at_def)
qed

theorem accepted_constants_exist_witness:
  "operand_constants (ins 2 0x00000105 OpLoadK) = [(0, None)] \<and> 0 < length (p_constants sample_main)"
proof -
  have k: "operand_constants (ins 2 0x00000105 OpLoadK) = [(0, None)]"
    by (simp add: operand_constants_def ins_fields)
  have "sample_main \<in> set (ch_prototypes sample_chunk)" by (simp add: sample_chunk_def)
  moreover have "ins 2 0x00000105 OpLoadK \<in> set (p_instructions sample_main)"
    by (simp add: sample_main_def)
  ultimately show ?thesis using accepted_constants_exist [OF sample_accepted, of sample_main] k by force
qed

section \<open>Closures\<close>

text \<open>The prototype a closure instruction instantiates.\<close>

definition closure_child :: "prototype \<Rightarrow> instruction \<Rightarrow> nat option" where
  "closure_child p i =
     (if ins_opcode i = OpNewClosure then get (p_children p) (nat (ins_d i))
      else if ins_opcode i = OpDupClosure
      then (case get (p_constants p) (nat (ins_d i)) of Some (CClosure child) \<Rightarrow> Some child | _ \<Rightarrow> None)
      else None)"

lemma v_capture_sequence_Ok:
  assumes "v_capture_sequence v k pc n flag = Ok u" and "1 \<le> m" and "m \<le> unat n"
  shows "k + m < length (p_instructions (vl_prototype v)) \<and>
    ins_opcode (p_instructions (vl_prototype v) ! (k + m)) = OpCapture \<and>
    (flag \<longrightarrow> ins_a (p_instructions (vl_prototype v) ! (k + m)) \<noteq> 1)"
proof -
  have "v_capture_at v k pc (unat n) flag m = Ok ()"
    using assms by (auto simp: v_capture_sequence_def res_simps)
  then show ?thesis by (auto simp: v_capture_at_def res_simps check_simps split: if_splits)
qed

lemma v_new_closure_child:
  "v_new_closure v k pc i = Ok u \<Longrightarrow> \<exists>child. get (p_children (vl_prototype v)) (nat (ins_d i)) = Some child \<and>
     child < length (ch_prototypes (vl_chunk v)) \<and>
     v_capture_sequence v k pc (p_upvalue_count (ch_prototypes (vl_chunk v) ! child)) False = Ok ()"
  by (auto simp: v_new_closure_def check_simps res_simps)

lemma v_dup_closure_child:
  assumes "v_dup_closure v k pc i = Ok u"
  shows "\<exists>child. get (p_constants (vl_prototype v)) (nat (ins_d i)) = Some (CClosure child) \<and>
     child < length (ch_prototypes (vl_chunk v)) \<and>
     v_capture_sequence v k pc (p_upvalue_count (ch_prototypes (vl_chunk v) ! child)) True = Ok ()"
proof -
  from assms obtain n child where "ins_d i = int n" "n < length (p_constants (vl_prototype v))"
    "(case p_constants (vl_prototype v) ! n of CClosure child \<Rightarrow> Ok child | _ \<Rightarrow> Panic) = (Ok child :: nat checked)"
    "child < length (ch_prototypes (vl_chunk v))"
    "v_capture_sequence v k pc (p_upvalue_count (ch_prototypes (vl_chunk v) ! child)) True = Ok ()"
    by (auto simp: v_dup_closure_def check_simps res_simps)
  moreover from this(3) have "p_constants (vl_prototype v) ! n = CClosure child"
    by (cases "p_constants (vl_prototype v) ! n") simp_all
  ultimately show ?thesis by (auto simp: res_simps)
qed

lemma instruction_closure:
  assumes "validate_instruction v k i starts x = Ok y"
    and "ins_opcode i \<in> {OpNewClosure, OpDupClosure}"
  shows "\<exists>child. closure_child (vl_prototype v) i = Some child \<and> child < length (ch_prototypes (vl_chunk v)) \<and>
    v_capture_sequence v k (ins_pc i) (p_upvalue_count (ch_prototypes (vl_chunk v) ! child))
      (ins_opcode i = OpDupClosure) = Ok ()"
proof (cases "ins_opcode i = OpNewClosure")
  case True
  with assms(1) have "v_new_closure v k (ins_pc i) i = Ok ()"
    by (simp add: validate_instruction_def Let_def check_simps)
  from v_new_closure_child [OF this] True show ?thesis by (auto simp: closure_child_def)
next
  case False
  with assms have op: "ins_opcode i = OpDupClosure" by simp
  with assms(1) have "v_dup_closure v k (ins_pc i) i = Ok ()"
    by (simp add: validate_instruction_def Let_def check_simps)
  from v_dup_closure_child [OF this] op show ?thesis by (auto simp: closure_child_def)
qed

text \<open>
  C11: in an accepted chunk every closure instruction instantiates a prototype that exists and
  is followed by one CAPTURE at least for each upvalue of that prototype; a duplicated closure
  captures no register by reference.
\<close>

theorem accepted_closures_captured:
  assumes "validate_chunk alloc c = Ok ()" and "p \<in> set (ch_prototypes c)"
    and "k < length (p_instructions p)"
    and "ins_opcode (p_instructions p ! k) \<in> {OpNewClosure, OpDupClosure}"
  shows "\<exists>child. closure_child p (p_instructions p ! k) = Some child \<and> child < length (ch_prototypes c) \<and>
    (\<forall>m. 1 \<le> m \<and> m \<le> unat (p_upvalue_count (ch_prototypes c ! child)) \<longrightarrow>
       k + m < length (p_instructions p) \<and> ins_opcode (p_instructions p ! (k + m)) = OpCapture \<and>
       (ins_opcode (p_instructions p ! k) = OpDupClosure \<longrightarrow> ins_a (p_instructions p ! (k + m)) \<noteq> 1))"
proof -
  from validate_chunk_accepted [OF assms(1,2)] obtain n starts where
    n: "ch_prototypes c ! n = p" "accepted alloc (validator_of c n) starts" by blast
  with assms(3) obtain x y where "validate_instruction (validator_of c n) k (p_instructions p ! k) starts x = Ok y"
    using validate_instructions_passed [of "validator_of c n" starts "[]" k] by (auto simp: accepted_def)
  from instruction_closure [OF this assms(4)] v_capture_sequence_Ok [of "validator_of c n" k] n(1)
  show ?thesis by fastforce
qed

theorem accepted_closures_captured_witness:
  "\<exists>child. closure_child sample_main (p_instructions sample_main ! 3) = Some child \<and>
    child < length (ch_prototypes sample_chunk)"
proof -
  have "sample_main \<in> set (ch_prototypes sample_chunk)" by (simp add: sample_chunk_def)
  moreover have "3 < length (p_instructions sample_main)" by (simp add: sample_main_def)
  moreover have "ins_opcode (p_instructions sample_main ! 3) \<in> {OpNewClosure, OpDupClosure}"
    by (simp add: sample_main_def ins_def)
  ultimately show ?thesis using accepted_closures_captured [OF sample_accepted] by blast
qed

end
