(* ===== verification/Luau_Flow.thy ===== *)
theory Luau_Flow
  imports Luau_Accept
begin

text \<open>
  What the validator's linear passes establish about sequences of instructions of an accepted
  chunk: variable-length results are produced and consumed in pairs, registers captured by
  reference are closed later on, and debug ranges delimit instructions.
\<close>

section \<open>Variadic results come in pairs\<close>

definition produces :: "instruction \<Rightarrow> bool" where
  "produces i \<longleftrightarrow> ins_opcode i \<in> {OpCall, OpCallFb} \<and> ins_c i = 0 \<or>
     ins_opcode i = OpGetVarargs \<and> ins_b i = 0"

definition consumes :: "instruction \<Rightarrow> bool" where
  "consumes i \<longleftrightarrow> ins_opcode i \<in> {OpCall, OpCallFb} \<and> ins_b i = 0 \<or>
     ins_opcode i = OpReturn \<and> ins_b i = 0 \<or> ins_opcode i = OpSetList \<and> ins_c i = 0"

definition quiet :: "instruction \<Rightarrow> bool" where
  "quiet i \<longleftrightarrow> neutral_in_sequence (ins_opcode i) \<or> ins_opcode i = OpFastCall"

definition jumped_to :: "prototype \<Rightarrow> nat \<Rightarrow> bool" where
  "jumped_to p pc \<longleftrightarrow>
     (\<exists>i\<in>set (p_instructions p). \<not> is_fast_call (ins_opcode i) \<and> jump_target i = Some pc)"

text \<open>Producer \<open>j\<close> feeds consumer \<open>k\<close>: nothing but quiet instructions between, and no way in.\<close>

definition feeds :: "prototype \<Rightarrow> nat \<Rightarrow> nat \<Rightarrow> bool" where
  "feeds p j k \<longleftrightarrow> j < k \<and> k < length (p_instructions p) \<and>
     produces (p_instructions p ! j) \<and> consumes (p_instructions p ! k) \<and>
     (\<forall>m. j < m \<and> m < k \<longrightarrow> quiet (p_instructions p ! m) \<and> \<not> consumes (p_instructions p ! m)) \<and>
     (\<forall>m. j < m \<and> m \<le> k \<longrightarrow> \<not> jumped_to p (ins_pc (p_instructions p ! m)))"

lemma variadic_step_props:
  assumes "variadic_step v targets s i = Ok s'"
  shows "s \<Longrightarrow> ins_pc i < length targets \<and> \<not> targets ! ins_pc i"
    and "consumes i \<Longrightarrow> s"
    and "produces i \<Longrightarrow> s'"
    and "s \<Longrightarrow> \<not> consumes i \<Longrightarrow> s' \<and> quiet i \<and> \<not> produces i"
    and "s' \<Longrightarrow> \<not> produces i \<Longrightarrow> s \<and> \<not> consumes i \<and> quiet i"
  using assms
  by (auto simp: variadic_step_def call_step_def Let_def res_simps check_simps produces_def consumes_def
      quiet_def neutral_in_sequence_def split: if_splits option.splits)

text \<open>A sequence open before instruction \<open>k\<close>, and since which producer.\<close>

definition open_since :: "bool list \<Rightarrow> instruction list \<Rightarrow> nat \<Rightarrow> nat \<Rightarrow> bool" where
  "open_since targets is j k \<longleftrightarrow> j < k \<and> produces (is ! j) \<and>
     (\<forall>m. j < m \<and> m < k \<longrightarrow> quiet (is ! m) \<and> \<not> consumes (is ! m) \<and> \<not> targets ! ins_pc (is ! m))"

lemma open_sequence:
  assumes run: "fold_res (variadic_step v targets) False is = Ok t" and "k \<le> length is"
    and "fold_res (variadic_step v targets) False (take k is) = Ok True"
  shows "\<exists>j. open_since targets is j k"
  using assms(2,3)
proof (induction k)
  case 0
  then show ?case by simp
next
  case (Suc k)
  from fold_res_take [OF run, of k] Suc.prems obtain s where
    s: "fold_res (variadic_step v targets) False (take k is) = Ok s"
      "variadic_step v targets s (is ! k) = Ok True" by auto
  note step = variadic_step_props [OF s(2)]
  show ?case
  proof (cases "produces (is ! k)")
    case True
    then have "open_since targets is k (Suc k)" by (auto simp: open_since_def)
    then show ?thesis by blast
  next
    case False
    with step(5) have sk: "s" "\<not> consumes (is ! k)" "quiet (is ! k)" by simp_all
    with s Suc obtain j where j: "open_since targets is j k" by auto
    have "open_since targets is j (Suc k)"
      using j sk step(1) by (auto simp: open_since_def less_Suc_eq)
    then show ?thesis by blast
  qed
qed

lemma closed_sequence:
  assumes run: "fold_res (variadic_step v targets) False is = Ok False" and "k \<le> length is"
    and "fold_res (variadic_step v targets) False (take k is) = Ok True"
    and "open_since targets is j k"
  shows "\<exists>m<length is. consumes (is ! m) \<and> open_since targets is j m \<and> \<not> targets ! ins_pc (is ! m)"
  using assms(2,3,4)
proof (induction "length is - k" arbitrary: k)
  case 0
  then show ?case using run by simp
next
  case (Suc n)
  then have k: "k < length is" by simp
  from fold_res_take [OF run k] Suc.prems(2) obtain s' where
    s: "variadic_step v targets True (is ! k) = Ok s'"
      "fold_res (variadic_step v targets) False (take (Suc k) is) = Ok s'" by auto
  note step = variadic_step_props [OF s(1)]
  show ?case
  proof (cases "consumes (is ! k)")
    case True
    with k Suc.prems(3) step(1) show ?thesis by auto
  next
    case False
    with step(4) have "s'" "quiet (is ! k)" by simp_all
    moreover have "open_since targets is j (Suc k)"
      using Suc.prems(3) False step(1) \<open>quiet (is ! k)\<close> by (auto simp: open_since_def less_Suc_eq)
    ultimately show ?thesis using Suc.hyps(1) [of "Suc k"] Suc.hyps(2) s(2) k by simp
  qed
qed

lemma variadic_targets:
  assumes "validate_variadic alloc v = Ok u"
  obtains targets where "fold_res (variadic_step v targets) False (p_instructions (vl_prototype v)) = Ok False"
    "\<forall>pc<length (p_code (vl_prototype v)). targets ! pc \<longleftrightarrow> jumped_to (vl_prototype v) pc"
proof -
  let ?p = "vl_prototype v"
  obtain targets where t: "fold_res mark_target (replicate (length (p_code ?p)) False) (p_instructions ?p) = Ok targets"
    "\<forall>pc<length (p_code ?p). targets ! pc \<longleftrightarrow> jumped_to ?p pc"
    using mark_targets [of "replicate (length (p_code ?p)) False" "p_instructions ?p"]
    by (auto simp: jumped_to_def)
  with assms have "fold_res (variadic_step v targets) False (p_instructions ?p) = Ok False"
    by (auto simp: validate_variadic_def bool_scratch_def try_bool_scratch_def res_simps check_simps
        split: if_splits)
  with t(2) that show thesis by blast
qed

lemma variadic_feeds:
  assumes acc: "accepted alloc v starts" and p: "vl_prototype v = p"
  shows "(\<forall>k<length (p_instructions p). consumes (p_instructions p ! k) \<longrightarrow> (\<exists>j. feeds p j k)) \<and>
    (\<forall>j<length (p_instructions p). produces (p_instructions p ! j) \<longrightarrow> (\<exists>k. feeds p j k))"
proof -
  let ?is = "p_instructions p"
  have "validate_variadic alloc v = Ok ()" using acc by (simp add: accepted_def)
  from variadic_targets [OF this] obtain targets where
    run: "fold_res (variadic_step v targets) False ?is = Ok False"
      and tg: "\<forall>pc<length (p_code p). targets ! pc \<longleftrightarrow> jumped_to p pc" using p by metis
  have pc: "targets ! ins_pc (?is ! m) \<longleftrightarrow> jumped_to p (ins_pc (?is ! m))" if "m < length ?is" for m
    using tg laid_out_pc_lt [of ?is "p_code p" "?is ! m"] acc that p by (simp add: accepted_def)
  have feeds: "feeds p j k"
    if "open_since targets ?is j k" "k < length ?is" "consumes (?is ! k)" "\<not> targets ! ins_pc (?is ! k)" for j k
  proof -
    have o: "j < k" "produces (?is ! j)"
      "\<And>m. j < m \<Longrightarrow> m < k \<Longrightarrow> quiet (?is ! m) \<and> \<not> consumes (?is ! m) \<and> \<not> targets ! ins_pc (?is ! m)"
      using that(1) by (simp_all add: open_since_def)
    have "\<not> targets ! ins_pc (?is ! m)" if "j < m" "m \<le> k" for m
      using o(3) [of m] that \<open>\<not> targets ! ins_pc (?is ! k)\<close> by (cases "m = k") simp_all
    then have "\<not> jumped_to p (ins_pc (?is ! m))" if "j < m" "m \<le> k" for m
      using that pc [of m] \<open>k < length ?is\<close> by simp
    with o that(2,3) show ?thesis unfolding feeds_def by blast
  qed
  have "\<exists>j. feeds p j k" if k: "k < length ?is" "consumes (?is ! k)" for k
  proof -
    from fold_res_take [OF run k(1)] obtain s s' where
      s: "fold_res (variadic_step v targets) False (take k ?is) = Ok s"
        "variadic_step v targets s (?is ! k) = Ok s'" by blast
    note step = variadic_step_props [OF s(2)]
    have "s" using step(2) k(2) by blast
    with s(1) have "fold_res (variadic_step v targets) False (take k ?is) = Ok True" by simp
    then obtain j where "open_since targets ?is j k"
      using open_sequence [OF run less_imp_le [OF k(1)]] by blast
    with feeds k step(1) \<open>s\<close> show ?thesis by blast
  qed
  moreover have "\<exists>k. feeds p j k" if j: "j < length ?is" "produces (?is ! j)" for j
  proof -
    from fold_res_take [OF run j(1)] obtain s s' where
      s: "variadic_step v targets s (?is ! j) = Ok s'"
        "fold_res (variadic_step v targets) False (take (Suc j) ?is) = Ok s'" by blast
    with variadic_step_props(3) [OF s(1) j(2)]
    have "fold_res (variadic_step v targets) False (take (Suc j) ?is) = Ok True" by simp
    moreover have "open_since targets ?is j (Suc j)" using j by (auto simp: open_since_def)
    ultimately obtain m where "m < length ?is" "consumes (?is ! m)" "open_since targets ?is j m"
      "\<not> targets ! ins_pc (?is ! m)"
      using closed_sequence [OF run Suc_leI [OF j(1)]] by blast
    with feeds show ?thesis by blast
  qed
  ultimately show ?thesis by blast
qed

text \<open>
  C12: in an accepted chunk variable-length results are consumed exactly where they are
  produced: every consumer has a producer before it and every producer a consumer after it,
  with only neutral instructions between the two and no jump landing between them.
\<close>

theorem accepted_variadics_paired:
  assumes "validate_chunk alloc c = Ok ()" and "p \<in> set (ch_prototypes c)"
    and "k < length (p_instructions p)"
  shows "(consumes (p_instructions p ! k) \<longrightarrow> (\<exists>j. feeds p j k)) \<and>
    (produces (p_instructions p ! k) \<longrightarrow> (\<exists>m. feeds p k m))"
proof -
  from validate_chunk_accepted [OF assms(1,2)] obtain n starts where
    n: "ch_prototypes c ! n = p" and acc: "accepted alloc (validator_of c n) starts" by blast
  from variadic_feeds [OF acc, of p] n assms(3) show ?thesis by simp
qed

theorem accepted_variadics_paired_witness: "\<exists>j. feeds sample_main j 7"
proof -
  have "sample_main \<in> set (ch_prototypes sample_chunk)" by (simp add: sample_chunk_def)
  moreover have "7 < length (p_instructions sample_main)" by (simp add: sample_main_def)
  moreover have "consumes (p_instructions sample_main ! 7)"
    by (simp add: consumes_def sample_main_def ins_fields)
  ultimately show ?thesis using accepted_variadics_paired [OF sample_accepted] by blast
qed

section \<open>Captured registers are closed\<close>

lemma close_upvals_removes:
  assumes "r \<in> set caps" and "r \<notin> set (close_upvals a caps)"
  shows "a \<le> r"
proof -
  have "set caps = set (takeWhile (\<lambda>x. a \<le> x) (rev caps)) \<union> set (dropWhile (\<lambda>x. a \<le> x) (rev caps))"
    by (metis set_append set_rev takeWhile_dropWhile_id)
  with assms have "r \<in> set (takeWhile (\<lambda>x. a \<le> x) (rev caps))" by (auto simp: close_upvals_def)
  then show ?thesis by (auto dest: set_takeWhileD)
qed

lemma instruction_captures:
  assumes "validate_instruction v k i starts caps = Ok caps'"
  shows "r \<in> set caps \<Longrightarrow> r \<notin> set caps' \<Longrightarrow> ins_opcode i = OpCloseUpvals \<and> ins_a i \<le> r"
    and "ins_opcode i = OpCapture \<Longrightarrow> ins_a i = 1 \<Longrightarrow> ins_b i \<in> set caps'"
  using assms close_upvals_removes [of r caps "ins_a i"]
  by (auto simp: validate_instruction_def Let_def check_simps res_simps v_capture_def split: if_splits)

lemma captured_closed:
  assumes run: "validate_instructions v starts = Ok []"
    and "k < length (p_instructions (vl_prototype v))"
    and "p_instructions (vl_prototype v) ! k = i" "ins_opcode i = OpCapture" "ins_a i = 1"
  shows "\<exists>m>k. m < length (p_instructions (vl_prototype v)) \<and>
    ins_opcode (p_instructions (vl_prototype v) ! m) = OpCloseUpvals \<and>
    ins_a (p_instructions (vl_prototype v) ! m) \<le> ins_b i"
proof -
  let ?is = "p_instructions (vl_prototype v)"
  let ?f = "\<lambda>caps (index, i). validate_instruction v index i starts caps"
  let ?run = "\<lambda>k. fold_res ?f [] (take k (enumerate 0 ?is))"
  have at: "\<exists>a b. ?run n = Ok a \<and> validate_instruction v n (?is ! n) starts a = Ok b \<and> ?run (Suc n) = Ok b"
    if "n < length ?is" for n
    using fold_res_take [OF run [unfolded validate_instructions_def], of n] that
    by (simp add: nth_enumerate_eq)
  have later: "\<exists>m\<ge>n. m < length ?is \<and> ins_opcode (?is ! m) = OpCloseUpvals \<and> ins_a (?is ! m) \<le> r"
    if "n \<le> length ?is" "?run n = Ok caps" "r \<in> set caps" for n r caps
    using that
  proof (induction "length ?is - n" arbitrary: n caps)
    case 0
    then have "n = length ?is" by simp
    with 0 run show ?case by (simp add: validate_instructions_def)
  next
    case (Suc d)
    then have n: "n < length ?is" by simp
    from at [OF n] Suc.prems(2) obtain b where
      b: "validate_instruction v n (?is ! n) starts caps = Ok b" "?run (Suc n) = Ok b" by auto
    show ?case
    proof (cases "r \<in> set b")
      case True
      then show ?thesis using Suc.hyps(1) [of "Suc n" b] Suc.hyps(2) b(2) n Suc_leD by fastforce
    next
      case False
      with instruction_captures(1) [OF b(1) Suc.prems(3)] n show ?thesis by blast
    qed
  qed
  from at [OF assms(2)] obtain a b where
    b: "validate_instruction v k i starts a = Ok b" "?run (Suc k) = Ok b" using assms(3) by blast
  from instruction_captures(2) [OF b(1) assms(4,5)] have "ins_b i \<in> set b" .
  from later [OF _ b(2) this] assms(2) show ?thesis using Suc_le_eq by auto
qed

text \<open>
  C13: in an accepted chunk every register captured by reference is closed by a later
  CLOSEUPVALS of its prototype that reaches down to it.
\<close>

theorem accepted_captures_closed:
  assumes "validate_chunk alloc c = Ok ()" and "p \<in> set (ch_prototypes c)"
    and "k < length (p_instructions p)" and "ins_opcode (p_instructions p ! k) = OpCapture"
    and "ins_a (p_instructions p ! k) = 1"
  shows "\<exists>m>k. m < length (p_instructions p) \<and> ins_opcode (p_instructions p ! m) = OpCloseUpvals \<and>
    ins_a (p_instructions p ! m) \<le> ins_b (p_instructions p ! k)"
proof -
  from validate_chunk_accepted [OF assms(1,2)] obtain n starts where
    n: "ch_prototypes c ! n = p" and acc: "accepted alloc (validator_of c n) starts" by blast
  from captured_closed [of "validator_of c n" starts k] acc n assms(3-5) show ?thesis
    by (simp add: accepted_def)
qed

theorem accepted_captures_closed_witness:
  "\<exists>m>4. m < length (p_instructions sample_main) \<and>
    ins_opcode (p_instructions sample_main ! m) = OpCloseUpvals"
proof -
  have "sample_main \<in> set (ch_prototypes sample_chunk)" by (simp add: sample_chunk_def)
  moreover have "4 < length (p_instructions sample_main)"
    "ins_opcode (p_instructions sample_main ! 4) = OpCapture" "ins_a (p_instructions sample_main ! 4) = 1"
    by (simp_all add: sample_main_def ins_fields)
  ultimately show ?thesis using accepted_captures_closed [OF sample_accepted] by blast
qed

section \<open>Debug information\<close>

definition code_boundary :: "prototype \<Rightarrow> nat \<Rightarrow> bool" where
  "code_boundary p pc \<longleftrightarrow> pc = length (p_code p) \<or> (\<exists>i\<in>set (p_instructions p). ins_pc i = pc)"

lemma bad_local_range_Ok:
  assumes "bad_local_range starts (length (p_code p)) l = Ok False" and "starts_map p starts"
  shows "dl_start_pc l \<le> dl_end_pc l \<and> unat (dl_end_pc l) \<le> length (p_code p) \<and>
    code_boundary p (unat (dl_start_pc l)) \<and> code_boundary p (unat (dl_end_pc l))"
  using assms
  by (auto simp: bad_local_range_def not_start_def res_simps starts_map_def code_boundary_def not_less
      split: if_splits)

text \<open>
  In an accepted chunk every debug local has a forward range that starts and ends at an
  instruction or at the end of the code, and a register of the frame; every feedback slot
  belongs to an instruction.
\<close>

theorem accepted_debug_ranges:
  assumes "validate_chunk alloc c = Ok ()" and "p \<in> set (ch_prototypes c)"
  shows "(\<forall>d l. p_debug_info p = Some d \<and> l \<in> set (di_locals d) \<longrightarrow>
      dl_start_pc l \<le> dl_end_pc l \<and> code_boundary p (unat (dl_start_pc l)) \<and>
      code_boundary p (unat (dl_end_pc l)) \<and> dl_register l < p_max_stack_size p) \<and>
    (\<forall>f\<in>set (p_feedback p). \<exists>i\<in>set (p_instructions p). ins_pc i = unat (fs_pc f))"
proof -
  from validate_chunk_accepted [OF assms] obtain n starts where
    n: "ch_prototypes c ! n = p" and acc: "accepted alloc (validator_of c n) starts" by blast
  have map: "starts_map p starts" and dbg: "validate_debug_info (validator_of c n) starts = Ok ()"
    using acc n by (simp_all add: accepted_def)
  have "dl_start_pc l \<le> dl_end_pc l \<and> code_boundary p (unat (dl_start_pc l)) \<and>
      code_boundary p (unat (dl_end_pc l)) \<and> dl_register l < p_max_stack_size p"
    if "p_debug_info p = Some d" "l \<in> set (di_locals d)" for d l
  proof -
    have "validate_local (validator_of c n) starts l = Ok ()"
      using dbg that n by (auto simp: validate_debug_info_def check_simps res_simps)
    then have "bad_local_range starts (length (p_code p)) l = Ok False"
      "dl_register l < p_max_stack_size p"
      using n by (auto simp: validate_local_def res_simps check_simps split: if_splits)
    with bad_local_range_Ok [OF _ map, of l] show ?thesis by blast
  qed
  moreover have "\<exists>i\<in>set (p_instructions p). ins_pc i = unat (fs_pc f)" if "f \<in> set (p_feedback p)" for f
  proof -
    have "validate_feedback (validator_of c n) starts f = Ok ()"
      using dbg that n by (auto simp: validate_debug_info_def check_simps res_simps)
    then show ?thesis using map
      by (auto simp: validate_feedback_def check_simps Let_def starts_map_def split: if_splits)
  qed
  ultimately show ?thesis by blast
qed

theorem accepted_debug_ranges_witness:
  "\<exists>i\<in>set (p_instructions sample_main). ins_pc i = 3"
proof -
  have "sample_main \<in> set (ch_prototypes sample_chunk)" by (simp add: sample_chunk_def)
  from accepted_debug_ranges [OF sample_accepted this]
  have "\<forall>f\<in>set (p_feedback sample_main). \<exists>i\<in>set (p_instructions sample_main). ins_pc i = unat (fs_pc f)"
    by blast
  moreover have "\<lparr>fs_pc = 3\<rparr> \<in> set (p_feedback sample_main)" by (simp add: sample_main_def)
  ultimately show ?thesis by fastforce
qed

end
