(* ===== verification/Luau_Load.thy ===== *)
theory Luau_Load
  imports Core_Span Luau_Flow
begin

text \<open>
  \<open>load\<close> and \<open>load_validated\<close> of \<open>blu-bytecode/src/chunk.rs\<close>: from untrusted bytes to a
  validated chunk. Loading never panics within limits whose capacities fit, accepts no proper prefix of a chunk it accepts, and
  its result respects the limits.
\<close>

definition BYTECODE_VERSION_MIN :: byte where "BYTECODE_VERSION_MIN = 3"
definition BYTECODE_VERSION_MAX :: byte where "BYTECODE_VERSION_MAX = 12"
definition TYPEINFO_VERSION_MIN :: byte where "TYPEINFO_VERSION_MIN = 1"
definition TYPEINFO_VERSION_MAX :: byte where "TYPEINFO_VERSION_MAX = 3"

definition load_typeinfo_version :: "byte \<Rightarrow> byte read" where
  "load_typeinfo_version version r =
     rbind (if 4 \<le> version then reader_byte r else Ok (0, r)) (\<lambda>(typeinfo_version, r).
     if 4 \<le> version \<and> \<not> (TYPEINFO_VERSION_MIN \<le> typeinfo_version \<and> typeinfo_version \<le> TYPEINFO_VERSION_MAX)
     then Err (UnsupportedTypeinfoVersion typeinfo_version)
     else Ok (typeinfo_version, r))"

fun load_strings :: "load_limits \<Rightarrow> nat \<Rightarrow> nat \<Rightarrow> bytes list read" where
  "load_strings limits 0 acc r = Ok ([], r)"
| "load_strings limits (Suc n) acc r =
     rbind (reader_count ''string bytes'' (max_string_bytes limits) r) (\<lambda>(len, r).
     rbind (ok_or (checked_add acc len)
              (TooLarge ''total string bytes'' usize_max (max_string_bytes limits))) (\<lambda>acc.
     rbind (ensure_limit ''total string bytes'' acc (max_string_bytes limits)) (\<lambda>_.
     rbind (reader_bytes len r) (\<lambda>(s, r).
     rbind (load_strings limits n acc r) (\<lambda>(rest, r). Ok (s # rest, r))))))"

lemma reader_byte_adv: "reader_byte r = Ok (b, r') \<Longrightarrow> rd_offset r < length (rd_bytes r) \<and> r' = rd_adv r 1"
  by (auto simp: reader_byte_def reader_bytes_def saturating_sub_def Let_def res_simps rd_adv_def split: if_splits)

lemma reads_forward:
  "reads p Q \<Longrightarrow> rd_sound r \<Longrightarrow> p r = Ok (x, r') \<Longrightarrow> rd_bytes r' = rd_bytes r \<and> rd_offset r \<le> rd_offset r'"
  using rd.parses_Ok [of p Q r x r'] by (auto simp: rd_adv_def)

function load_userdata_types :: "nat \<Rightarrow> (byte \<times> nat) list read" where
  "load_userdata_types string_count r =
     rbind (reader_byte r) (\<lambda>(index, r1).
     if index = 0 then Ok ([], r1)
     else rbind (string_ref string_count r1) (\<lambda>(name, r2).
       rbind (ok_or name (InvalidStringRef (rd_offset r2) 0 string_count)) (\<lambda>name.
       rbind (load_userdata_types string_count r2) (\<lambda>(rest, r). Ok ((index, name) # rest, r)))))"
  by pat_completeness auto
termination
proof (relation "measure (\<lambda>(n, r). length (rd_bytes r) - rd_offset r)", goal_cases)
  case 1
  then show ?case by simp
next
  case (2 string_count r x index r1 y name r2 name')
  then have b: "reader_byte r = Ok (index, r1)" and s: "string_ref string_count r1 = Ok (name, r2)"
    by simp_all
  from reader_byte_adv [OF b] have r1: "rd_offset r < length (rd_bytes r)" "r1 = rd_adv r 1" by simp_all
  then have "rd_sound r1" by (simp add: rd_sound_def rd_adv_def)
  from reads_forward [OF reads_string_ref this s] r1 show ?case
    by (auto simp: rd_adv_def intro!: diff_less_mono2)
qed

declare load_userdata_types.simps [simp del]

definition load_declared_end :: "byte \<Rightarrow> nat option read" where
  "load_declared_end version r =
     (if 12 \<le> version then
        rbind (usize_varint r) (\<lambda>(n, r).
        rbind (reader_here r) (\<lambda>(start, r).
        rbind (ok_or (checked_add start n)
                 (TooLarge ''prototype bytes'' usize_max (length (rd_bytes r)))) (\<lambda>stop.
        Ok (Some stop, r))))
      else Ok (None, r))"

definition end_prototype :: "nat \<Rightarrow> nat option \<Rightarrow> unit read" where
  "end_prototype index declared r =
     (case declared of
        None \<Rightarrow> Ok ((), r)
      | Some declared_end \<Rightarrow>
          (if declared_end < rd_offset r \<or> length (rd_bytes r) < declared_end
           then Err (InvalidPrototypeSize index declared_end (rd_offset r))
           else Ok ((), r\<lparr>rd_offset := declared_end\<rparr>)))"

definition load_indexed_prototype ::
  "sizes \<Rightarrow> (nat \<Rightarrow> bool) \<Rightarrow> byte \<Rightarrow> nat \<Rightarrow> nat \<Rightarrow> load_limits \<Rightarrow> nat \<Rightarrow> prototype read" where
  "load_indexed_prototype size_of alloc version prototype_count string_count limits index r =
     rbind (load_declared_end version r) (\<lambda>(declared, r).
     rbind (load_prototype size_of alloc version index prototype_count string_count limits r) (\<lambda>(p, r).
     rbind (end_prototype index declared r) (\<lambda>(_, r).
     Ok (p, r))))"

fun load_prototypes ::
  "sizes \<Rightarrow> (nat \<Rightarrow> bool) \<Rightarrow> byte \<Rightarrow> nat \<Rightarrow> nat \<Rightarrow> load_limits \<Rightarrow> nat list \<Rightarrow> prototype list read" where
  "load_prototypes size_of alloc version pc sc limits [] r = Ok ([], r)"
| "load_prototypes size_of alloc version pc sc limits (k # ks) r =
     rbind (load_indexed_prototype size_of alloc version pc sc limits k r) (\<lambda>(p, r).
     rbind (load_prototypes size_of alloc version pc sc limits ks r) (\<lambda>(ps, r). Ok (p # ps, r)))"

definition load_compile_error :: "chunk read" where
  "load_compile_error r =
     rbind (reader_rest r) (\<lambda>(rest, r). Err (CompileError (from_utf8_lossy rest)))"

definition load_chunk :: "sizes \<Rightarrow> (nat \<Rightarrow> bool) \<Rightarrow> load_limits \<Rightarrow> chunk read" where
  "load_chunk size_of alloc limits r =
     rbind (reader_byte r) (\<lambda>(version, r).
     if version = 0 then load_compile_error r
     else if \<not> (BYTECODE_VERSION_MIN \<le> version \<and> version \<le> BYTECODE_VERSION_MAX)
     then Err (UnsupportedVersion version)
     else
     rbind (load_typeinfo_version version r) (\<lambda>(typeinfo_version, r).
     rbind (reader_count ''strings'' (max_strings limits) r) (\<lambda>(string_count, r).
     rbind (with_capacity size_of VecBytes string_count) (\<lambda>_.
     rbind (load_strings limits string_count 0 r) (\<lambda>(strings, r).
     rbind (if typeinfo_version = 3 then load_userdata_types (length strings) r else Ok ([], r))
       (\<lambda>(userdata_types, r).
     rbind (reader_count ''prototypes'' (max_prototypes limits) r) (\<lambda>(prototype_count, r).
     rbind (with_capacity size_of VecPrototype prototype_count) (\<lambda>_.
     rbind (load_prototypes size_of alloc version prototype_count (length strings) limits [0..<prototype_count] r)
       (\<lambda>(prototypes, r).
     rbind (usize_varint r) (\<lambda>(main, r).
     rbind (valid_index ''main prototype'' main (length prototypes)) (\<lambda>_.
     Ok (\<lparr>ch_version = version, ch_typeinfo_version = typeinfo_version, ch_strings = strings,
          ch_userdata_types = userdata_types, ch_prototypes = prototypes, ch_main = main\<rparr>, r))))))))))))"

definition load :: "sizes \<Rightarrow> (nat \<Rightarrow> bool) \<Rightarrow> bytes \<Rightarrow> load_limits \<Rightarrow> (chunk, chunk_error) res" where
  "load size_of alloc bs limits =
     rbind (ensure_limit ''bytecode bytes'' (length bs) (max_bytes limits)) (\<lambda>_.
     rbind (load_chunk size_of alloc limits (reader_new bs)) (\<lambda>(chunk, r).
     if rd_offset r \<noteq> length bs then Err (TrailingBytes (length bs - rd_offset r))
     else rbind (map_err ChunkValidation (validate_chunk alloc chunk)) (\<lambda>_. Ok chunk)))"

record validated_chunk =
  vc_chunk :: chunk
  vc_semantic_profile :: "semantic_profile option"

definition validated_chunk_new ::
  "(nat \<Rightarrow> bool) \<Rightarrow> chunk \<Rightarrow> (validated_chunk, validation_error) res" where
  "validated_chunk_new alloc c =
     rbind (validate_chunk alloc c) (\<lambda>_. Ok \<lparr>vc_chunk = c, vc_semantic_profile = None\<rparr>)"

definition validated_chunk_new_profiled ::
  "(nat \<Rightarrow> bool) \<Rightarrow> chunk \<Rightarrow> semantic_profile \<Rightarrow> (validated_chunk, validation_error) res" where
  "validated_chunk_new_profiled alloc c profile =
     rbind (validate_chunk alloc c) (\<lambda>_. Ok \<lparr>vc_chunk = c, vc_semantic_profile = Some profile\<rparr>)"

definition load_validated ::
  "sizes \<Rightarrow> (nat \<Rightarrow> bool) \<Rightarrow> bytes \<Rightarrow> load_limits \<Rightarrow> (validated_chunk, chunk_error) res" where
  "load_validated size_of alloc bs limits =
     rbind (load size_of alloc bs limits) (\<lambda>chunk.
     map_err ChunkValidation (validated_chunk_new alloc chunk))"

section \<open>The parsers\<close>

definition chunk_loaded :: "(nat \<Rightarrow> bool) \<Rightarrow> load_limits \<Rightarrow> chunk \<Rightarrow> bool" where
  "chunk_loaded alloc limits c \<longleftrightarrow>
     BYTECODE_VERSION_MIN \<le> ch_version c \<and> ch_version c \<le> BYTECODE_VERSION_MAX \<and>
     ch_typeinfo_version c \<le> TYPEINFO_VERSION_MAX \<and>
     length (ch_strings c) \<le> max_strings limits \<and>
     length (concat (ch_strings c)) \<le> max_string_bytes limits \<and>
     length (ch_prototypes c) \<le> max_prototypes limits \<and>
     (\<forall>p\<in>set (ch_prototypes c).
        prototype_loaded alloc (length (ch_prototypes c)) (length (ch_strings c)) limits p) \<and>
     (\<forall>(_, name)\<in>set (ch_userdata_types c). name < length (ch_strings c)) \<and>
     ch_main c < length (ch_prototypes c)"

lemma reads_typeinfo_version: "reads (load_typeinfo_version version) (\<lambda>t. t \<le> TYPEINFO_VERSION_MAX)"
proof -
  have "reads (\<lambda>r. if 4 \<le> version then reader_byte r else Ok (0, r)) (\<lambda>t. 4 \<le> version \<or> t = 0)"
    by (intro rd.parses_if rd.parses_return rd.parses_weaken [OF reads_byte]) auto
  then show ?thesis
    unfolding load_typeinfo_version_def
    by (rule rd.parses_bind) (intro rd.parses_if rd.parses_fail rd.parses_return, auto)
qed

lemma reads_strings:
  "acc \<le> max_string_bytes limits \<Longrightarrow>
   reads (load_strings limits n acc)
     (\<lambda>ss. length ss = n \<and> acc + length (concat ss) \<le> max_string_bytes limits)"
proof (induction n arbitrary: acc)
  case 0
  have "load_strings limits 0 acc = (\<lambda>r. Ok ([], r))" by (rule ext) simp
  with 0 show ?case by (simp add: rd.parses_return)
next
  case (Suc n)
  show ?case unfolding load_strings.simps
  proof (intro rd.parses_bind [OF reads_count] rd.parses_ok_or rd.parses_pure)
    fix len acc' and u :: unit
    assume "checked_add acc len = Some acc'"
      and "ensure_limit ''total string bytes'' acc' (max_string_bytes limits) = Ok u"
    then have t: "acc' = acc + len" "acc' \<le> max_string_bytes limits"
      by (simp_all add: usize_simps res_simps)
    show "reads (\<lambda>r. rbind (reader_bytes len r) (\<lambda>(s, r).
        rbind (load_strings limits n acc' r) (\<lambda>(rest, r). Ok (s # rest, r))))
      (\<lambda>ss. length ss = Suc n \<and> acc + length (concat ss) \<le> max_string_bytes limits)"
      by (intro rd.parses_bind [OF reads_bytes] rd.parses_bind [OF Suc.IH [OF t(2)]] rd.parses_return)
        (use t in auto)
  qed (simp_all add: res_simps)
qed

abbreviation reads_at :: "'a read \<Rightarrow> ('a \<Rightarrow> bool) \<Rightarrow> reader \<Rightarrow> bool" where
  "reads_at p Q r \<equiv> parses_at rd_sound rd_pending rd_adv rd_ext p Q r"

lemma reads_reads_at: "reads p Q \<Longrightarrow> rd_sound r \<Longrightarrow> reads_at p Q r"
  by (simp add: parses_def)

lemma reads_at_userdata_types:
  "rd_sound r \<Longrightarrow> reads_at (load_userdata_types sc) (\<lambda>us. \<forall>(_, n)\<in>set us. n < sc) r"
proof (induction sc r rule: load_userdata_types.induct)
  case (1 sc r)
  let ?Q = "\<lambda>us :: (byte \<times> nat) list. \<forall>(_, n)\<in>set us. n < sc"
  have eq: "load_userdata_types sc = (\<lambda>r. rbind (reader_byte r) (\<lambda>(index, r1).
     if index = 0 then Ok ([], r1)
     else rbind (string_ref sc r1) (\<lambda>(name, r2).
       rbind (ok_or name (InvalidStringRef (rd_offset r2) 0 sc)) (\<lambda>name.
       rbind (load_userdata_types sc r2) (\<lambda>(rest, r). Ok ((index, name) # rest, r))))))"
    by (rule ext) (rule load_userdata_types.simps)
  show ?case
  proof (subst eq, rule rd.parses_bind_at [OF "1.prems" reads_reads_at [OF reads_byte "1.prems"]])
    fix index r1
    assume s1: "rd_sound r1" and b: "reader_byte r = Ok (index, r1)"
    show "reads_at (\<lambda>r1. if index = 0 then Ok ([], r1)
     else rbind (string_ref sc r1) (\<lambda>(name, r2).
       rbind (ok_or name (InvalidStringRef (rd_offset r2) 0 sc)) (\<lambda>name.
       rbind (load_userdata_types sc r2) (\<lambda>(rest, r). Ok ((index, name) # rest, r))))) ?Q r1"
    proof (cases "index = 0")
      case True
      have "reads (\<lambda>r. Ok ([], r)) ?Q" by (rule rd.parses_return) simp
      with True s1 show ?thesis by (simp add: parses_def)
    next
      case False
      have "reads_at (\<lambda>r1. rbind (string_ref sc r1) (\<lambda>(name, r2).
         rbind (ok_or name (InvalidStringRef (rd_offset r2) 0 sc)) (\<lambda>name.
         rbind (load_userdata_types sc r2) (\<lambda>(rest, r). Ok ((index, name) # rest, r))))) ?Q r1"
      proof (rule rd.parses_bind_at [OF s1 reads_reads_at [OF reads_string_ref s1]])
        fix name r2
        assume n: "\<forall>i. name = Some i \<longrightarrow> i < sc" and s2: "rd_sound r2"
          and sr: "string_ref sc r1 = Ok (name, r2)"
        show "reads_at (\<lambda>r2. rbind (ok_or name (InvalidStringRef (rd_offset r2) 0 sc)) (\<lambda>name.
           rbind (load_userdata_types sc r2) (\<lambda>(rest, r). Ok ((index, name) # rest, r)))) ?Q r2"
        proof (cases name)
          case None
          then show ?thesis by (simp add: parses_at_def)
        next
          case (Some i)
          have "reads_at (load_userdata_types sc) ?Q r2"
            using "1.IH" [OF b refl False sr refl _ s2] Some by simp
          then have "reads_at (\<lambda>r. rbind (load_userdata_types sc r)
              (\<lambda>(rest, r). Ok ((index, i) # rest, r))) ?Q r2"
          proof (rule rd.parses_bind_at [OF s2])
            fix rest r3
            assume "?Q rest" and "rd_sound r3"
            moreover have "i < sc" using n Some by simp
            ultimately show "reads_at (\<lambda>r. Ok ((index, i) # rest, r)) ?Q r3"
              by (intro reads_reads_at rd.parses_return) auto
          qed
          with Some show ?thesis by simp
        qed
      qed
      with False show ?thesis by simp
    qed
  qed
qed

lemma reads_userdata_types: "reads (load_userdata_types sc) (\<lambda>us. \<forall>(_, n)\<in>set us. n < sc)"
  using reads_at_userdata_types by (simp add: parses_def)

lemma reads_declared_end: "reads (load_declared_end version) (\<lambda>_. True)"
  unfolding load_declared_end_def
  by (intro rd.parses_if reads_binds rd.parses_ok_or rd.parses_return TrueI)

lemma reads_end_prototype: "reads (end_prototype index declared) (\<lambda>_. True)"
proof (cases declared)
  case None
  have "end_prototype index None = (\<lambda>r. Ok ((), r))" by (rule ext) (simp add: end_prototype_def)
  with None show ?thesis by (simp add: rd.parses_return)
next
  case (Some stop)
  show ?thesis
    unfolding parses_def
  proof (intro allI impI)
    fix r
    assume "rd_sound r"
    have "r\<lparr>rd_offset := stop\<rparr> = rd_adv r (stop - rd_offset r)" if "rd_offset r \<le> stop"
      using that by (simp add: rd_adv_def)
    then show "reads_at (end_prototype index declared) (\<lambda>_. True) r"
      unfolding parses_at_def using Some
      by (auto simp: end_prototype_def rd_adv_def rd_ext_def rd_pending_def
          intro!: exI [of _ "stop - rd_offset r"])
  qed
qed

lemma reads_indexed_prototype:
  assumes "capacities_fit size_of limits"
  shows "reads (load_indexed_prototype size_of alloc version pc sc limits k) (prototype_loaded alloc pc sc limits)"
  unfolding load_indexed_prototype_def
  by (intro rd.parses_bind [OF reads_declared_end] rd.parses_bind [OF reads_prototype [OF assms]]
      rd.parses_bind [OF reads_end_prototype] rd.parses_return)

lemma reads_prototypes:
  assumes "capacities_fit size_of limits"
  shows "reads (load_prototypes size_of alloc version pc sc limits ks)
     (\<lambda>ps. length ps = length ks \<and> (\<forall>p\<in>set ps. prototype_loaded alloc pc sc limits p))"
proof (induction ks)
  case Nil
  have "load_prototypes size_of alloc version pc sc limits [] = (\<lambda>r. Ok ([], r))" by (rule ext) simp
  then show ?case by (simp add: rd.parses_return)
next
  case (Cons k ks)
  show ?case unfolding load_prototypes.simps
    by (intro rd.parses_bind [OF reads_indexed_prototype [OF assms]] rd.parses_bind [OF Cons.IH] rd.parses_return)
      auto
qed

lemma reads_compile_error: "reads load_compile_error Q"
  unfolding parses_def parses_at_def
  by (auto simp: load_compile_error_def reader_rest_def res_simps rd_sound_def)

lemma reads_chunk:
  assumes fit: "capacities_fit size_of limits"
  shows "reads (load_chunk size_of alloc limits) (chunk_loaded alloc limits)"
proof -
  have ut: "reads (\<lambda>r. if t = 3 then load_userdata_types sc r else Ok ([], r))
      (\<lambda>us. \<forall>(_, n)\<in>set us. n < sc)" for t :: byte and sc
    by (intro rd.parses_if reads_userdata_types rd.parses_return) simp
  show ?thesis
    unfolding load_chunk_def
    by (intro reads_binds rd.parses_if rd.parses_fail reads_compile_error capacity_granted [OF fit]
        rd.parses_bind [OF reads_typeinfo_version] rd.parses_bind [OF reads_strings]
        rd.parses_bind [OF ut] rd.parses_bind [OF reads_prototypes [OF fit]] rd.parses_pure rd.parses_return)
      (auto simp: res_simps chunk_loaded_def intro: capacities_within [OF fit])
qed

section \<open>Loading untrusted bytes\<close>

lemma reader_new_sound [simp]: "rd_sound (reader_new bs)"
  by (simp add: rd_sound_def reader_new_def)

lemma chunk_capacities: "panics_or (load_chunk size_of alloc limits r) (load_chunk (\<lambda>_. 0) alloc limits r)"
proof -
  have one: "panics_or (load_indexed_prototype size_of alloc version pc sc limits k r)
      (load_indexed_prototype (\<lambda>_. 0) alloc version pc sc limits k r)" for version pc sc k r
    unfolding load_indexed_prototype_def by (intro prototype_capacities panics_or_rules) simp_all
  have all: "panics_or (load_prototypes size_of alloc version pc sc limits ks r)
      (load_prototypes (\<lambda>_. 0) alloc version pc sc limits ks r)" for version pc sc ks r
  proof (induction ks arbitrary: r)
    case (Cons k ks)
    then show ?case by (auto intro!: panics_or_bind panics_or_pair one)
  qed simp
  show ?thesis unfolding load_chunk_def by (intro all panics_or_rules) simp_all
qed

text \<open>The sizes of the elements decide only whether loading panics, never what it returns.\<close>

lemma load_capacities: "panics_or (load size_of alloc bs limits) (load (\<lambda>_. 0) alloc bs limits)"
  unfolding load_def by (intro chunk_capacities panics_or_rules) simp_all

lemma load_Ok_zero: "load size_of alloc bs limits = Ok c \<Longrightarrow> load (\<lambda>_. 0) alloc bs limits = Ok c"
  using load_capacities [of size_of alloc bs limits] by (auto simp: panics_or_def)

lemma load_not_Panic:
  assumes "capacities_fit size_of limits"
  shows "load size_of alloc bs limits \<noteq> Panic \<and> load_validated size_of alloc bs limits \<noteq> Panic"
proof -
  have "load_chunk size_of alloc limits (reader_new bs) \<noteq> Panic"
    using rd.parses_not_Panic [OF reads_chunk [OF assms]] by simp
  then have "load size_of alloc bs limits \<noteq> Panic"
    by (auto simp: load_def res_simps validate_chunk_not_Panic split: if_splits)
  then show ?thesis
    by (auto simp: load_validated_def validated_chunk_new_def res_simps validate_chunk_not_Panic)
qed

text \<open>
  C7: under limits whose capacities fit (each limit times the size of the elements it bounds is at
  most \<open>isize::MAX\<close>, as the default limits are for elements up to a tebibyte) loading returns on
  every byte string and whatever the allocator grants, with just the result it has for elements
  without size: no read, shift, slice, capacity, conversion or check of the loader and the
  validator panics.
\<close>

theorem load_never_panics:
  assumes "capacities_fit size_of limits"
  shows "load size_of alloc bs limits \<noteq> Panic \<and> load_validated size_of alloc bs limits \<noteq> Panic \<and>
    load size_of alloc bs limits = load (\<lambda>_. 0) alloc bs limits"
  using load_not_Panic [OF assms] load_capacities [of size_of alloc bs limits] by (auto simp: panics_or_def)

lemma load_Ok:
  "load size_of alloc bs limits = Ok c \<longleftrightarrow> length bs \<le> max_bytes limits \<and>
     (\<exists>r. load_chunk size_of alloc limits (reader_new bs) = Ok (c, r) \<and> rd_offset r = length bs) \<and>
     validate_chunk alloc c = Ok ()"
  by (auto simp: load_def res_simps split: if_splits)

text \<open>
  C14: a loaded chunk was accepted by the validator, its instructions are the decoding of its
  code, and every count and size that the limits bound is within them.
\<close>

theorem loaded_chunk_sound:
  assumes "load size_of alloc bs limits = Ok c"
  shows "chunk_loaded alloc limits c \<and> validate_chunk alloc c = Ok () \<and>
    length bs \<le> max_bytes limits \<and>
    load_validated size_of alloc bs limits = Ok \<lparr>vc_chunk = c, vc_semantic_profile = None\<rparr>"
proof -
  from load_Ok_zero [OF assms] obtain r where r: "load_chunk (\<lambda>_. 0) alloc limits (reader_new bs) = Ok (c, r)"
    "validate_chunk alloc c = Ok ()" "length bs \<le> max_bytes limits" by (auto simp: load_Ok)
  from rd.parses_Ok [OF reads_chunk [OF capacities_fit_zero] reader_new_sound r(1)]
  have "chunk_loaded alloc limits c" by blast
  with r assms show ?thesis by (simp add: load_validated_def validated_chunk_new_def)
qed

text \<open>
  C15: no chunk is a proper prefix of another: when a byte string loads, neither a truncation
  of it nor an extension of it loads.
\<close>

theorem load_prefix_free:
  assumes "load size_of alloc bs limits = Ok c" and "load size_of alloc (bs @ zs) limits = Ok d"
  shows "zs = [] \<and> c = d"
proof -
  from assms [THEN load_Ok_zero] obtain r s where
    r: "load_chunk (\<lambda>_. 0) alloc limits (reader_new bs) = Ok (c, r)" "rd_offset r = length bs" and
    s: "load_chunk (\<lambda>_. 0) alloc limits (reader_new (bs @ zs)) = Ok (d, s)" "rd_offset s = length (bs @ zs)"
    by (auto simp: load_Ok)
  have ext: "rd_ext (reader_new bs) zs = reader_new (bs @ zs)"
    by (simp add: rd_ext_def reader_new_def)
  from rd.parses_Ok [OF reads_chunk [OF capacities_fit_zero] reader_new_sound r(1)] obtain n where
    n: "r = rd_adv (reader_new bs) n"
      "\<forall>ys. rd_sound (rd_ext (reader_new bs) ys) \<longrightarrow>
         load_chunk (\<lambda>_. 0) alloc limits (rd_ext (reader_new bs) ys) = Ok (c, rd_adv (rd_ext (reader_new bs) ys) n)"
    by blast
  then have "load_chunk (\<lambda>_. 0) alloc limits (reader_new (bs @ zs)) = Ok (c, rd_adv (reader_new (bs @ zs)) n)"
    using ext by (metis reader_new_sound)
  with s have "c = d" "s = rd_adv (reader_new (bs @ zs)) n" by simp_all
  with r(2) s(2) n(1) show ?thesis by (simp add: rd_adv_def reader_new_def)
qed

text \<open>
  Limits beyond what a vector can hold make the version byte and a varint panic: the count of
  strings is checked against the limit only, and the capacity overflows before a string is read.
\<close>

theorem huge_string_count_panics:
  assumes "n \<le> max_strings limits" and "n < 2 ^ 64" and "isize_max < n * size_of VecBytes"
    and "length (3 # leb128 n) \<le> max_bytes limits"
  shows "load size_of alloc (3 # leb128 n) limits = Panic"
proof -
  define r where "r = rd_adv (reader_new (3 # leb128 n)) 1"
  have b: "reader_byte (reader_new (3 # leb128 n)) = Ok (3, r)"
    using reads_byte_as [of 3] by (simp add: reads_as_def reader_new_def rd_sound_def rd_pending_def r_def)
  have "u64_varint r = Ok (word_of_nat n, rd_adv r (length (leb128 n)))"
    using varint_loop_leb128 [of 0 0 n 1] assms(2)
    by (simp add: reads_as_def u64_varint_def reader_here_def r_def reader_new_def rd_adv_def
        rd_sound_def rd_pending_def)
  moreover have "unat (word_of_nat n :: 64 word) = n" using assms(2) by (simp add: unat_of_nat)
  ultimately have "reader_count ''strings'' (max_strings limits) r = Ok (n, rd_adv r (length (leb128 n)))"
    using assms(1,2) by (simp add: reader_count_def usize_varint_def usize_max_def ensure_limit_def)
  then show ?thesis
    using assms(3,4) b by (simp add: load_def load_chunk_def load_typeinfo_version_def ensure_limit_def
        with_capacity_def BYTECODE_VERSION_MIN_def BYTECODE_VERSION_MAX_def)
qed

text \<open>Element sizes for the samples: no element type takes more than a kibibyte.\<close>

definition sample_sizes :: sizes where
  "sample_sizes t = 1024"

text \<open>The smallest chunk: version 3, no strings, one prototype that returns nothing.\<close>

definition tiny_bytes :: bytes where
  "tiny_bytes = [3, 0, 1, 1, 0, 0, 0, 1, 0x16, 0, 1, 0, 0, 0, 0, 0, 0, 0, 0]"

definition tiny_prototype :: prototype where
  "tiny_prototype =
     \<lparr>p_max_stack_size = 1, p_parameter_count = 0, p_upvalue_count = 0, p_is_vararg = False,
      p_flags = 0, p_typeinfo = [], p_code = [0x00010016],
      p_instructions = [ins 0 0x00010016 OpReturn],
      p_constants = [], p_children = [], p_line_defined = 0, p_debug_name = None,
      p_line_info = None, p_debug_info = None, p_feedback = [], p_cost = None\<rparr>"

definition tiny_chunk :: chunk where
  "tiny_chunk =
     \<lparr>ch_version = 3, ch_typeinfo_version = 0, ch_strings = [], ch_userdata_types = [],
      ch_prototypes = [tiny_prototype], ch_main = 0\<rparr>"

lemma tiny_decode: "decode (\<lambda>_. True) [0x00010016] = Ok [ins 0 0x00010016 OpReturn]"
  by (simp add: decode_def decode_from_exact ins_def ins_words_def ins_wf_def
      opcode_try_from_Ok opcode_words_def)

lemma tiny_accepted: "validate_chunk (\<lambda>_. True) tiny_chunk = Ok ()"
  by (simp add: validate_chunk_def validate_chunk_structure_def check_prototype_refs_def
      check_debug_names_def tiny_chunk_def tiny_prototype_def validate_prototype_def tiny_decode
      bool_scratch_def try_bool_scratch_def mark_start_def set_at_def check_defs ins_fields
      validate_variadic_def mark_target_def variadic_step_def neutral_in_sequence_def
      validate_debug_info_def)

text \<open>Reading at a position of a concrete input, for bytes that are their own varint.\<close>

definition at :: "bytes \<Rightarrow> nat \<Rightarrow> reader" where
  "at bs n = \<lparr>rd_bytes = bs, rd_offset = n\<rparr>"

lemma read_at_byte: "n < length bs \<Longrightarrow> reader_byte (at bs n) = Ok (bs ! n, at bs (Suc n))"
  by (simp add: reader_byte_def reader_bytes_def at_def saturating_sub_def slice_at_def index_at_def)

lemma read_at_u64_varint:
  assumes "n < length bs" and "unat (bs ! n) < 128"
  shows "u64_varint (at bs n) = Ok (word_of_nat (unat (bs ! n)), at bs (Suc n))"
proof -
  have "rd_pending (at bs n) = leb128 (unat (bs ! n)) @ drop (Suc n) bs"
    using assms by (simp add: rd_pending_def at_def leb128.simps [of "unat (bs ! n)"] Cons_nth_drop_Suc)
  then show ?thesis
    using varint_loop_leb128 [of 0 0 "unat (bs ! n)" n] assms
    by (simp add: reads_as_def u64_varint_def reader_here_def rd_sound_def at_def rd_adv_def
        leb128.simps [of "unat (bs ! n)"])
qed

lemma unat_ucast_u64 [simp]: "unat (ucast (b :: byte) :: 64 word) = unat b"
proof -
  have "unat b < 2 ^ 64" by (rule less_trans [OF unat_byte_lt]) simp
  then show ?thesis by (simp add: unsigned_ucast_eq take_bit_nat_eq_self)
qed

lemma unat_byte_le_usize: "unat (b :: byte) \<le> usize_max"
  using unat_byte_lt [of b] by (simp add: usize_max_def del: unat_byte_lt)

lemma unat_byte_lt_u32: "unat (b :: byte) < 2 ^ 32"
  using unat_byte_lt [of b] by (simp del: unat_byte_lt)

lemma read_at_usize_varint:
  "n < length bs \<Longrightarrow> unat (bs ! n) < 128 \<Longrightarrow> usize_varint (at bs n) = Ok (unat (bs ! n), at bs (Suc n))"
  by (simp add: usize_varint_def read_at_u64_varint unat_byte_le_usize)

lemma read_at_u32_varint:
  "n < length bs \<Longrightarrow> unat (bs ! n) < 128 \<Longrightarrow>
     u32_varint (at bs n) = Ok (ucast (ucast (bs ! n) :: 64 word), at bs (Suc n))"
  using unat_byte_lt_u32 [of "bs ! n"] by (simp add: u32_varint_def read_at_u64_varint)

lemma read_at_count:
  "n < length bs \<Longrightarrow> unat (bs ! n) < 128 \<Longrightarrow> unat (bs ! n) \<le> limit \<Longrightarrow>
     reader_count what limit (at bs n) = Ok (unat (bs ! n), at bs (Suc n))"
  by (simp add: reader_count_def read_at_usize_varint ensure_limit_def)

lemma read_at_no_string:
  "n < length bs \<Longrightarrow> bs ! n = 0 \<Longrightarrow> string_ref count (at bs n) = Ok (None, at bs (Suc n))"
  by (simp add: string_ref_def reader_here_def read_at_u32_varint)

lemmas read_at = read_at_byte read_at_usize_varint read_at_u32_varint read_at_count read_at_no_string

lemma tiny_u32: "reader_u32 (at tiny_bytes 8) = Ok (0x00010016, at tiny_bytes 12)"
  by (simp add: reader_u32_def reader_bytes_def at_def saturating_sub_def slice_at_def to_array_def
      tiny_bytes_def u32_from_le_def)

lemma tiny_length: "length tiny_bytes = 19"
  by (simp add: tiny_bytes_def)

lemma tiny_nth:
  "tiny_bytes ! 0 = 3" "tiny_bytes ! 1 = 0" "tiny_bytes ! 2 = 1" "tiny_bytes ! 3 = 1"
  "tiny_bytes ! 4 = 0" "tiny_bytes ! 5 = 0" "tiny_bytes ! 6 = 0" "tiny_bytes ! 7 = 1"
  "tiny_bytes ! 12 = 0" "tiny_bytes ! 13 = 0" "tiny_bytes ! 14 = 0" "tiny_bytes ! 15 = 0"
  "tiny_bytes ! 16 = 0" "tiny_bytes ! 17 = 0" "tiny_bytes ! 18 = 0"
  by (simp_all add: tiny_bytes_def)

lemmas tiny_reads = read_at tiny_length tiny_nth tiny_nth(2) [unfolded One_nat_def] tiny_u32
  numeral_2_eq_2 [symmetric]

lemma tiny_prototype_loads:
  "load_prototype sample_sizes (\<lambda>_. True) 3 0 1 0 default_load_limits (at tiny_bytes 3) = Ok (tiny_prototype, at tiny_bytes 18)"
  by (simp add: load_prototype_def tiny_reads default_load_limits_def load_flags_def load_typeinfo_def
      tiny_decode load_line_info_def load_debug_info_def load_feedback_def load_cost_def tiny_prototype_def
      with_capacity_def sample_sizes_def isize_max_def)

lemma default_limits_sel:
  "max_strings default_load_limits = 1000000" "max_prototypes default_load_limits = 100000"
  by (simp_all add: default_load_limits_def)

lemma tiny_loads: "load sample_sizes (\<lambda>_. True) tiny_bytes default_load_limits = Ok tiny_chunk"
proof -
  have "reader_new tiny_bytes = at tiny_bytes 0" by (simp add: reader_new_def at_def)
  moreover have "load_chunk sample_sizes (\<lambda>_. True) default_load_limits (at tiny_bytes 0) = Ok (tiny_chunk, at tiny_bytes 19)"
    by (simp add: load_chunk_def tiny_reads default_limits_sel load_typeinfo_version_def
        load_indexed_prototype_def load_declared_end_def end_prototype_def
        tiny_prototype_loads [unfolded One_nat_def] tiny_chunk_def valid_index_def
        with_capacity_def sample_sizes_def isize_max_def
        BYTECODE_VERSION_MIN_def BYTECODE_VERSION_MAX_def)
  moreover have "length tiny_bytes \<le> max_bytes default_load_limits"
    by (simp add: tiny_length default_load_limits_def)
  ultimately show ?thesis by (simp add: load_Ok tiny_accepted at_def tiny_length)
qed

theorem load_never_panics_witness:
  "load sample_sizes (\<lambda>_. True) [3, 0x80, 0x80, 0x80] default_load_limits \<noteq> Panic"
proof -
  have "capacities_fit sample_sizes default_load_limits"
    by (rule default_capacities_fit) (simp add: sample_sizes_def)
  from load_never_panics [OF this] show ?thesis by blast
qed

theorem huge_string_count_panics_witness:
  "load sample_sizes (\<lambda>_. True) (3 # leb128 (2 ^ 60)) (default_load_limits\<lparr>max_strings := usize_max\<rparr>) = Panic"
proof -
  have "length (3 # leb128 (2 ^ 60)) \<le> 64 * 1024 * 1024" by (simp add: leb128.simps)
  then show ?thesis
    by (intro huge_string_count_panics)
      (simp_all add: default_load_limits_def usize_max_def isize_max_def sample_sizes_def)
qed

theorem loaded_chunk_sound_witness:
  "load_validated sample_sizes (\<lambda>_. True) tiny_bytes default_load_limits =
     Ok \<lparr>vc_chunk = tiny_chunk, vc_semantic_profile = None\<rparr>"
  using loaded_chunk_sound [OF tiny_loads] by blast

theorem load_prefix_free_witness:
  "load sample_sizes (\<lambda>_. True) (tiny_bytes @ []) default_load_limits = Ok tiny_chunk \<and> [] = ([] :: bytes)"
  using load_prefix_free [OF tiny_loads, of "[]" tiny_chunk] tiny_loads by simp

section \<open>Class shapes\<close>

text \<open>
  The two passes disagree on what a class shape's members index. The loader bounds them
  by the constant table; the validator checks the same numbers against the string table, so a
  class shape whose name is a constant beyond the last string is loaded and then rejected.
\<close>

theorem class_shape_members_two_tables:
  assumes "length (ch_strings c) \<le> name" and "name < constant_count"
  shows "constant_loaded prototype_count (length (ch_strings c)) constant_count limits (CClassShape name [] []) \<and>
    check_constant_refs c index constant_count (CClassShape name [] []) =
      Err (prototype_error index None (''class string '' @ dec name @ '' exceeds string count ''
        @ dec (length (ch_strings c))))"
  using assms by (simp add: seqs_def check_string_def not_less)

theorem class_shape_members_two_tables_witness:
  "\<exists>e. check_constant_refs (tiny_chunk\<lparr>ch_strings := [[0x41]]\<rparr>) 0 3 (CClassShape 1 [] []) = Err e"
  using class_shape_members_two_tables [of "tiny_chunk\<lparr>ch_strings := [[0x41]]\<rparr>" 1 3] by simp

end
