(* ===== verification/Package_Envelope.thy ===== *)
theory Package_Envelope
  imports Package_Codec Luau_Load
begin

text \<open>
  The package envelope of \<open>blu-package/src/codec.rs\<close>: checks on a manifest, the header, the
  digest, and the three operations \<open>Package::new\<close>, \<open>decode\<close> and \<open>encode\<close>. SHA-256 is the crate
  \<open>sha2\<close>, a parameter \<open>sha\<close> of which only the length of its result is used.
\<close>

unbundle bit_operations_syntax

section \<open>Checks\<close>

definition validate_one_name :: "name \<Rightarrow> package_limits \<Rightarrow> (unit, package_error) res" where
  "validate_one_name name limits =
     rbind (pk_limit ''name bytes'' (length (name_str name)) (pl_max_name_bytes limits)) (\<lambda>_.
     map_err PkInvalidName (validate_name (name_str name)))"

definition import_names :: "import list \<Rightarrow> name list" where
  "import_names items = concat (map (\<lambda>i. [sv_namespace (im_service i), sv_name (im_service i)]) items)"

definition export_names :: "export list \<Rightarrow> name list" where
  "export_names items = concat (map (\<lambda>e. [sv_namespace (ex_service e), sv_name (ex_service e)]) items)"

text \<open>The visitor keeps the first error and is called on every name all the same.\<close>

definition visit_name ::
  "package_limits \<Rightarrow> package_error option \<Rightarrow> name \<Rightarrow> (package_error option, package_error) res" where
  "visit_name limits err name =
     (if err = None then
        (case validate_one_name name limits of
           Ok _ \<Rightarrow> Ok None | Err e \<Rightarrow> Ok (Some e) | Panic \<Rightarrow> Panic)
      else Ok err)"

definition validate_names :: "name list \<Rightarrow> package_limits \<Rightarrow> (unit, package_error) res" where
  "validate_names names limits =
     rbind (fold_res (visit_name limits) None names) (\<lambda>err.
     case err of None \<Rightarrow> Ok () | Some e \<Rightarrow> Err e)"

definition ensure_strictly_sorted :: "'a::linorder list \<Rightarrow> string \<Rightarrow> (unit, package_error) res" where
  "ensure_strictly_sorted items what =
     (if list_all (\<lambda>(a, b). a < b) (zip items (tl items)) then Ok () else Err (PkNonCanonical what))"

definition check_authority :: "authority_requirement \<Rightarrow> (unit, package_error) res" where
  "check_authority a =
     (case (au_profile a, au_capabilities a = []) of
        (Pure, False) \<Rightarrow> Err (PkInvalidAuthority ''pure and trusted profiles cannot carry confined capabilities'')
      | (Trusted, False) \<Rightarrow> Err (PkInvalidAuthority ''pure and trusted profiles cannot carry confined capabilities'')
      | (Confined, True) \<Rightarrow> Err (PkInvalidAuthority ''confined profile requires at least one capability'')
      | _ \<Rightarrow> Ok ())"

definition validate_manifest :: "manifest \<Rightarrow> package_limits \<Rightarrow> (unit, package_error) res" where
  "validate_manifest m limits =
     rbind (validate_one_name (pi_name (mf_package m)) limits) (\<lambda>_.
     rbind (validate_names (export_names (mf_exports m)) limits) (\<lambda>_.
     rbind (validate_names (import_names (mf_imports m)) limits) (\<lambda>_.
     rbind (pk_limit ''capabilities'' (length (au_capabilities (mf_authority m))) (pl_max_capabilities limits)) (\<lambda>_.
     rbind (pk_limit ''imports'' (length (mf_imports m)) (pl_max_imports limits)) (\<lambda>_.
     rbind (pk_limit ''exports'' (length (mf_exports m)) (pl_max_exports limits)) (\<lambda>_.
     rbind (check_authority (mf_authority m)) (\<lambda>_.
     rbind (ensure_strictly_sorted (au_capabilities (mf_authority m)) ''capabilities'') (\<lambda>_.
     rbind (ensure_strictly_sorted (mf_imports m) ''imports'') (\<lambda>_.
     rbind (ensure_strictly_sorted (mf_exports m) ''exports'') (\<lambda>_.
     rbind (each (\<lambda>c. rbind (validate_one_name (cap_name c) limits) (\<lambda>_.
                      pk_limit ''capability scope bytes'' (length (cap_scope c)) (pl_max_scope_bytes limits)))
              (au_capabilities (mf_authority m))) (\<lambda>_.
     rbind (each (\<lambda>i. if im_schema i = digest_ZERO then Err (PkZeroSchema ''import'') else Ok ())
              (mf_imports m)) (\<lambda>_.
     each (\<lambda>e. if ex_schema e = digest_ZERO then Err (PkZeroSchema ''export'') else Ok ())
       (mf_exports m)))))))))))))"

definition validate_descriptor :: "manifest \<Rightarrow> chunk \<Rightarrow> (unit, package_error) res" where
  "validate_descriptor m c =
     (if \<not> (mf_dialect m = Blu \<or> mf_dialect m = Luau) then Err (PkUnsupportedDialect (mf_dialect m))
      else if bd_version (mf_bytecode m) \<noteq> ch_version c
      then Err (PkDescriptorMismatch ''bytecode version'' (bd_version (mf_bytecode m)) (ch_version c))
      else if bd_typeinfo_version (mf_bytecode m) \<noteq> ch_typeinfo_version c
      then Err (PkDescriptorMismatch ''typeinfo version'' (bd_typeinfo_version (mf_bytecode m)) (ch_typeinfo_version c))
      else Ok ())"

section \<open>The envelope\<close>

definition PACKAGE_FORMAT_V1 :: "16 word" where "PACKAGE_FORMAT_V1 = 1"

definition DOMAIN :: bytes where
  "DOMAIN = ascii ''blu.package.v1'' @ [0]"

definition u64_try_from :: "nat \<Rightarrow> (64 word, package_error) res" where
  "u64_try_from n = (if n < 2 ^ 64 then Ok (word_of_nat n) else Err PkLengthOverflow)"

definition unsigned_capacity :: "nat \<Rightarrow> nat \<Rightarrow> nat option" where
  "unsigned_capacity manifest_len payload_len =
     (case checked_add HEADER_BYTES manifest_len of
        None \<Rightarrow> None | Some v \<Rightarrow> checked_add v payload_len)"

definition encode_unsigned :: "bytes \<Rightarrow> bytes \<Rightarrow> (bytes, package_error) res" where
  "encode_unsigned manifest payload =
     rbind (u32_try_from (length manifest)) (\<lambda>manifest_len.
     rbind (u64_try_from (length payload)) (\<lambda>payload_len.
     rbind (ok_or (unsigned_capacity (length manifest) (length payload)) PkLengthOverflow) (\<lambda>_.
     Ok (MAGIC @ u16_to_le PACKAGE_FORMAT_V1 @ u32_to_le manifest_len @ u64_to_le payload_len @
         manifest @ payload))))"

definition hash :: "(bytes \<Rightarrow> bytes) \<Rightarrow> bytes \<Rightarrow> digest" where
  "hash sha bs = Digest (sha (DOMAIN @ bs))"

definition constant_time_eq :: "bytes \<Rightarrow> bytes \<Rightarrow> bool" where
  "constant_time_eq left right =
     (fold (\<lambda>(l, r) difference. difference OR (l XOR r)) (zip left right) 0 = (0 :: byte))"

record package =
  pk_manifest_of :: manifest
  pk_payload :: bytes
  pk_digest_of :: digest
  pk_chunk :: validated_chunk

definition package_new ::
  "sizes \<Rightarrow> (bytes \<Rightarrow> bytes) \<Rightarrow> (nat \<Rightarrow> bool) \<Rightarrow> manifest \<Rightarrow> bytes \<Rightarrow> package_limits \<Rightarrow> (package, package_error) res" where
  "package_new size_of sha alloc m payload limits =
     rbind (validate_manifest m limits) (\<lambda>_.
     rbind (pk_limit ''payload bytes'' (length payload) (pl_max_payload_bytes limits)) (\<lambda>_.
     rbind (map_err PkBytecode (load_validated size_of alloc payload (pl_bytecode limits))) (\<lambda>chunk.
     rbind (validate_descriptor m (vc_chunk chunk)) (\<lambda>_.
     rbind (encode_manifest m) (\<lambda>manifest_bytes.
     rbind (pk_limit ''manifest bytes'' (length manifest_bytes) (pl_max_manifest_bytes limits)) (\<lambda>_.
     rbind (encode_unsigned manifest_bytes payload) (\<lambda>unsigned_bytes.
     rbind (ok_or (checked_add (length unsigned_bytes) DIGEST_BYTES) PkLengthOverflow) (\<lambda>sum_len.
     rbind (pk_limit ''package bytes'' sum_len (pl_max_bytes limits)) (\<lambda>_.
     Ok \<lparr>pk_manifest_of = m, pk_payload = payload, pk_digest_of = hash sha unsigned_bytes,
         pk_chunk = chunk\<rparr>)))))))))"

text \<open>
  The first half of \<open>decode\<close>: the fields after the magic, and from the bytes to the two lengths,
  checked against the input.
\<close>

definition package_fields :: "(nat \<times> nat) pk_read" where
  "package_fields r =
     rbind (pk_u16 r) (\<lambda>(format, r).
     if format \<noteq> PACKAGE_FORMAT_V1 then Err (PkUnsupportedFormat format)
     else rbind (pk_usize_u32 r) (\<lambda>(manifest_len, r).
     rbind (pk_usize_u64 r) (\<lambda>(payload_len, r).
     Ok ((manifest_len, payload_len), r))))"

definition package_header :: "bytes \<Rightarrow> package_limits \<Rightarrow> (nat \<times> nat, package_error) res" where
  "package_header bs limits =
     rbind (pk_limit ''package bytes'' (length bs) (pl_max_bytes limits)) (\<lambda>_.
     if length bs < HEADER_BYTES + DIGEST_BYTES then Err PkTruncated
     else rbind (slice_at bs 0 (length MAGIC)) (\<lambda>magic.
     if magic \<noteq> MAGIC then Err PkInvalidMagic
     else rbind (slice_at bs (length MAGIC) (length bs)) (\<lambda>rest.
     rbind (package_fields (pk_reader_new rest)) (\<lambda>((manifest_len, payload_len), _).
     rbind (pk_limit ''manifest bytes'' manifest_len (pl_max_manifest_bytes limits)) (\<lambda>_.
     rbind (pk_limit ''payload bytes'' payload_len (pl_max_payload_bytes limits)) (\<lambda>_.
     rbind (ok_or (unsigned_capacity manifest_len payload_len) PkLengthOverflow) (\<lambda>unsigned_len.
     rbind (ok_or (checked_add unsigned_len DIGEST_BYTES) PkLengthOverflow) (\<lambda>expected_len.
     if length bs < expected_len then Err PkTruncated
     else if expected_len < length bs then Err (PkTrailingBytes (length bs - expected_len))
     else Ok (manifest_len, payload_len)))))))))"

definition package_decode ::
  "sizes \<Rightarrow> (bytes \<Rightarrow> bytes) \<Rightarrow> (nat \<Rightarrow> bool) \<Rightarrow> bytes \<Rightarrow> package_limits \<Rightarrow> (package, package_error) res" where
  "package_decode size_of sha alloc bs limits =
     rbind (package_header bs limits) (\<lambda>(manifest_len, payload_len).
     rbind (plain_add HEADER_BYTES manifest_len) (\<lambda>payload_start.
     rbind (plain_add payload_start payload_len) (\<lambda>digest_start.
     rbind (slice_at bs 0 digest_start) (\<lambda>unsigned_bytes.
     let expected = hash sha unsigned_bytes in
     rbind (slice_at bs digest_start (length bs)) (\<lambda>tail.
     rbind (exact_array DIGEST_BYTES tail) (\<lambda>stored.
     if \<not> constant_time_eq (digest_bytes expected) stored then Err (PkIntegrity expected (Digest stored))
     else rbind (slice_at bs HEADER_BYTES payload_start) (\<lambda>manifest_bytes.
     rbind (decode_manifest manifest_bytes limits) (\<lambda>m.
     rbind (validate_manifest m limits) (\<lambda>_.
     rbind (slice_at bs payload_start digest_start) (\<lambda>payload.
     rbind (map_err PkBytecode (load_validated size_of alloc payload (pl_bytecode limits))) (\<lambda>chunk.
     rbind (validate_descriptor m (vc_chunk chunk)) (\<lambda>_.
     Ok \<lparr>pk_manifest_of = m, pk_payload = payload, pk_digest_of = expected, pk_chunk = chunk\<rparr>))))))))))))"

definition package_encode :: "package \<Rightarrow> (bytes, package_error) res" where
  "package_encode p =
     rbind (expect_ok (encode_manifest (pk_manifest_of p))) (\<lambda>manifest.
     rbind (expect_ok (encode_unsigned manifest (pk_payload p))) (\<lambda>bs.
     Ok (bs @ digest_bytes (pk_digest_of p))))"

section \<open>What the checks establish\<close>

lemma validate_one_name_simps [res_simps]:
  "validate_one_name n limits = Ok u \<longleftrightarrow>
     length (name_str n) \<le> pl_max_name_bytes limits \<and> portable_name (name_str n)"
  "validate_one_name n limits = Panic \<longleftrightarrow> False"
  by (auto simp: validate_one_name_def res_simps validate_name_Ok)

lemma visit_names_Ok:
  "fold_res (visit_name limits) err names = Ok None \<longleftrightarrow>
     err = None \<and> (\<forall>n\<in>set names. validate_one_name n limits = Ok ())"
proof (induction names arbitrary: err)
  case Nil
  then show ?case by simp
next
  case (Cons n names)
  then show ?case
    by (cases err; cases "validate_one_name n limits") (auto simp: visit_name_def)
qed

lemma visit_names_not_Panic [res_simps]: "fold_res (visit_name limits) err names = Panic \<longleftrightarrow> False"
  using fold_res_not_Panic [where I = "\<lambda>_. True" and f = "visit_name limits"]
  by (auto simp: visit_name_def res_simps split: res.splits)

lemma validate_names_simps [res_simps]:
  "validate_names names limits = Ok u \<longleftrightarrow> (\<forall>n\<in>set names. validate_one_name n limits = Ok ())"
  "validate_names names limits = Panic \<longleftrightarrow> False"
proof -
  have "validate_names names limits = Ok u \<longleftrightarrow> fold_res (visit_name limits) None names = Ok None"
    by (auto simp: validate_names_def rbind_eq_Ok split: option.splits)
  then show "validate_names names limits = Ok u \<longleftrightarrow> (\<forall>n\<in>set names. validate_one_name n limits = Ok ())"
    by (simp add: visit_names_Ok)
  show "validate_names names limits = Panic \<longleftrightarrow> False"
    by (auto simp: validate_names_def res_simps split: option.splits)
qed

lemma adjacent_strict_sorted:
  "list_all (\<lambda>(a, b). a < b) (zip xs (tl xs)) \<longleftrightarrow> strict_sorted (xs :: 'a::linorder list)"
proof (induction xs)
  case Nil
  then show ?case by simp
next
  case (Cons x xs)
  then show ?case by (cases xs) (auto dest: less_trans)
qed

lemma ensure_strictly_sorted_simps [res_simps]:
  "ensure_strictly_sorted xs what = Ok u \<longleftrightarrow> strict_sorted xs"
  "ensure_strictly_sorted xs what = Panic \<longleftrightarrow> False"
  by (simp_all add: ensure_strictly_sorted_def adjacent_strict_sorted)

lemma check_authority_simps [res_simps]:
  "check_authority a = Ok u \<longleftrightarrow> (au_profile a = Confined \<longleftrightarrow> au_capabilities a \<noteq> [])"
  "check_authority a = Panic \<longleftrightarrow> False"
  by (auto simp: check_authority_def split: authority_profile.splits bool.splits)

lemma validate_descriptor_simps [res_simps]:
  "validate_descriptor m c = Ok u \<longleftrightarrow> (mf_dialect m = Blu \<or> mf_dialect m = Luau) \<and>
     bd_version (mf_bytecode m) = ch_version c \<and>
     bd_typeinfo_version (mf_bytecode m) = ch_typeinfo_version c"
  "validate_descriptor m c = Panic \<longleftrightarrow> False"
  by (auto simp: validate_descriptor_def)

text \<open>The contract of a manifest, without the order in which the code looks.\<close>

definition name_within :: "package_limits \<Rightarrow> name \<Rightarrow> bool" where
  "name_within limits n \<longleftrightarrow> length (name_str n) \<le> pl_max_name_bytes limits \<and> portable_name (name_str n)"

definition service_within :: "package_limits \<Rightarrow> service_id \<Rightarrow> bool" where
  "service_within limits s \<longleftrightarrow> name_within limits (sv_namespace s) \<and> name_within limits (sv_name s)"

definition manifest_valid :: "package_limits \<Rightarrow> manifest \<Rightarrow> bool" where
  "manifest_valid limits m \<longleftrightarrow>
     name_within limits (pi_name (mf_package m)) \<and>
     (\<forall>e\<in>set (mf_exports m). service_within limits (ex_service e) \<and> ex_schema e \<noteq> digest_ZERO) \<and>
     (\<forall>i\<in>set (mf_imports m). service_within limits (im_service i) \<and> im_schema i \<noteq> digest_ZERO) \<and>
     (\<forall>c\<in>set (au_capabilities (mf_authority m)). name_within limits (cap_name c) \<and>
        length (cap_scope c) \<le> pl_max_scope_bytes limits) \<and>
     length (au_capabilities (mf_authority m)) \<le> pl_max_capabilities limits \<and>
     length (mf_imports m) \<le> pl_max_imports limits \<and>
     length (mf_exports m) \<le> pl_max_exports limits \<and>
     (au_profile (mf_authority m) = Confined \<longleftrightarrow> au_capabilities (mf_authority m) \<noteq> []) \<and>
     strict_sorted (au_capabilities (mf_authority m)) \<and>
     strict_sorted (mf_imports m) \<and> strict_sorted (mf_exports m)"

lemma each_not_Panic_iff:
  "(\<And>x. f x \<noteq> Panic) \<Longrightarrow> each f xs = Panic \<longleftrightarrow> False"
  using each_not_Panic [of xs f] by blast

lemma validate_manifest_Ok: "validate_manifest m limits = Ok () \<longleftrightarrow> manifest_valid limits m"
  unfolding validate_manifest_def manifest_valid_def service_within_def name_within_def
  by (auto simp: res_simps import_names_def export_names_def if_distrib [of "\<lambda>x. x = Ok ()"] cong: if_cong)

lemma validate_manifest_not_Panic [res_simps]: "validate_manifest m limits = Panic \<longleftrightarrow> False"
  unfolding validate_manifest_def by (auto simp: res_simps each_not_Panic_iff)

text \<open>
  C27: a manifest passes the checks just when every name is portable and within the limit, every list
  is within its limit and strictly sorted, no schema digest is zero, scopes are within the limit, and capabilities are
  declared by confined packages and only by them; the checks never panic.
\<close>

theorem validate_manifest_contract:
  "validate_manifest m limits \<noteq> Panic \<and> (validate_manifest m limits = Ok () \<longleftrightarrow> manifest_valid limits m)"
  by (simp add: validate_manifest_Ok validate_manifest_not_Panic)

section \<open>The envelope is exact\<close>

lemma xor_eq_0: "(l XOR r = (0 :: byte)) = (l = r)"
  by (auto simp: bit_eq_iff bit_simps)

lemma difference_fold:
  "fold (\<lambda>(l, r) d. d OR (l XOR r)) ps d = (0 :: byte) \<longleftrightarrow> d = 0 \<and> (\<forall>(l, r)\<in>set ps. l = r)"
  by (induction ps arbitrary: d) (auto simp: or_eq_0_iff xor_eq_0)

lemma constant_time_eq_iff: "length a = length b \<Longrightarrow> constant_time_eq a b \<longleftrightarrow> a = b"
proof -
  assume len: "length a = length b"
  have "(\<forall>(l, r)\<in>set (zip a b). l = r) \<longleftrightarrow> a = b"
    using len by (induction rule: list_induct2) auto
  then show ?thesis by (simp add: constant_time_eq_def difference_fold)
qed

definition envelope :: "bytes \<Rightarrow> bytes \<Rightarrow> bytes" where
  "envelope manifest payload =
     MAGIC @ u16_to_le PACKAGE_FORMAT_V1 @ u32_to_le (word_of_nat (length manifest)) @
     u64_to_le (word_of_nat (length payload)) @ manifest @ payload"

lemma envelope_length: "length (envelope mb pl) = HEADER_BYTES + length mb + length pl"
  by (simp add: envelope_def MAGIC_def HEADER_BYTES_def)

lemma envelope_split: "\<exists>h. length h = HEADER_BYTES \<and> envelope mb pl = h @ mb @ pl"
  by (rule exI [of _ "MAGIC @ u16_to_le PACKAGE_FORMAT_V1 @ u32_to_le (word_of_nat (length mb)) @
      u64_to_le (word_of_nat (length pl))"]) (simp add: envelope_def HEADER_BYTES_def MAGIC_def)

lemma unsigned_capacity_Some:
  "unsigned_capacity a b = Some n \<longleftrightarrow> n = HEADER_BYTES + a + b \<and> n \<le> usize_max"
  by (auto simp: unsigned_capacity_def usize_simps split: option.splits)

lemma encode_unsigned_Ok:
  "encode_unsigned mb pl = Ok out \<longleftrightarrow>
     length mb < 2 ^ 32 \<and> HEADER_BYTES + length mb + length pl \<le> usize_max \<and> out = envelope mb pl"
proof -
  have "length pl < 2 ^ 64" if "HEADER_BYTES + length mb + length pl \<le> usize_max"
    using that by (simp add: usize_max_def)
  then show ?thesis
    by (auto simp: encode_unsigned_def res_simps u64_try_from_def envelope_def unsigned_capacity_Some
        split: if_splits)
qed

lemma encode_unsigned_not_Panic [res_simps]: "encode_unsigned mb pl = Panic \<longleftrightarrow> False"
  by (auto simp: encode_unsigned_def res_simps u64_try_from_def split: if_splits)

lemma decodes_usize_u64: "decodes pk_usize_u64 (\<lambda>n. n < 2 ^ 64) (\<lambda>n. u64_to_le (word_of_nat n))"
  unfolding pk_usize_u64_def [abs_def]
proof (rule pk.exactly_cong [OF pk.exactly_enc_bind [OF decodes_u64 pk.exactly_pure [OF _ pk.exactly_return]]], goal_cases)
  case (2 bs n)
  have "unat (w :: 64 word) < 18446744073709551616" for w using unsigned_less [of w, where ?'a = nat] by simp
  moreover from this have "unat (w :: 64 word) \<le> usize_max" for w by (simp add: usize_max_def less_Suc_eq_le [symmetric])
  moreover have "unat (word_of_nat n :: 64 word) = n" if "n < 18446744073709551616"
    using that by (simp add: unat_of_nat)
  ultimately show ?case
    by (auto simp: res_simps intro!: exI [of _ "word_of_nat n"])
qed (auto simp: res_simps)

lemma decodes_fields:
  "decodes package_fields (\<lambda>(a, b). a < 2 ^ 32 \<and> b < 2 ^ 64)
     (\<lambda>(a, b). u16_to_le PACKAGE_FORMAT_V1 @ u32_to_le (word_of_nat a) @ u64_to_le (word_of_nat b))"
proof -
  have tail: "exactly pk_sound pk_pending pk_adv
      (\<lambda>r. if f \<noteq> PACKAGE_FORMAT_V1 then Err (PkUnsupportedFormat f)
        else rbind (pk_usize_u32 r) (\<lambda>(a, r). rbind (pk_usize_u64 r) (\<lambda>(b, r). Ok ((a, b), r))))
      (\<lambda>bs y. f = PACKAGE_FORMAT_V1 \<and> (\<exists>a c. a < 2 ^ 32 \<and> (\<exists>b d. b < 2 ^ 64 \<and> (d = [] \<and> y = (a, b)) \<and>
        c = u64_to_le (word_of_nat b) @ d) \<and> bs = u32_to_le (word_of_nat a) @ c))" for f
  proof (cases "f = PACKAGE_FORMAT_V1")
    case True
    show ?thesis unfolding True
      using pk.exactly_enc_bind [OF decodes_usize_u32 pk.exactly_enc_bind [OF decodes_usize_u64 pk.exactly_return]]
      by simp
  next
    case False
    then show ?thesis using pk.exactly_fail by simp
  qed
  show ?thesis unfolding package_fields_def [abs_def]
    by (rule pk.exactly_cong [OF pk.exactly_enc_bind [OF decodes_u16 tail]]) auto
qed

text \<open>The header accepts precisely an envelope of two byte strings followed by 32 bytes.\<close>

lemma package_fields_Ok:
  assumes "length rest \<le> usize_max"
  shows "package_fields (pk_reader_new rest) = Ok ((a, b), r) \<longleftrightarrow>
    (\<exists>zs. a < 2 ^ 32 \<and> b < 2 ^ 64 \<and> r = pk_adv (pk_reader_new rest) 14 \<and>
       rest = u16_to_le PACKAGE_FORMAT_V1 @ u32_to_le (word_of_nat a) @ u64_to_le (word_of_nat b) @ zs)"
  using pk.exactly_Ok [OF decodes_fields pk_reader_new_sound [OF assms], of "(a, b)" r]
  by (auto simp: pk_pending_def pk_reader_new_def)

lemma package_fields_not_Panic: "length rest \<le> usize_max \<Longrightarrow> package_fields (pk_reader_new rest) \<noteq> Panic"
  by (rule pk.exactly_not_Panic [OF decodes_fields pk_reader_new_sound])

lemma package_header_not_Panic:
  assumes "length bs \<le> usize_max"
  shows "package_header bs limits \<noteq> Panic"
proof -
  have "package_fields (pk_reader_new (drop k bs)) \<noteq> Panic" for k
    by (rule package_fields_not_Panic) (use assms in simp)
  then show ?thesis
    by (auto simp: package_header_def res_simps HEADER_BYTES_def MAGIC_def split: if_splits)
qed

lemma package_header_Ok:
  assumes "length bs \<le> usize_max"
  shows "package_header bs limits = Ok (a, b) \<longleftrightarrow>
    length bs \<le> pl_max_bytes limits \<and> a \<le> pl_max_manifest_bytes limits \<and>
    b \<le> pl_max_payload_bytes limits \<and> a < 2 ^ 32 \<and>
    (\<exists>mb pl d. bs = envelope mb pl @ d \<and> length mb = a \<and> length pl = b \<and> length d = DIGEST_BYTES)"
    (is "?L \<longleftrightarrow> ?R")
proof
  assume ?L
  then obtain r where m: "take (length MAGIC) bs = MAGIC" and n: "length bs = HEADER_BYTES + a + b + DIGEST_BYTES"
    and f: "package_fields (pk_reader_new (drop (length MAGIC) bs)) = Ok ((a, b), r)"
    and lim: "length bs \<le> pl_max_bytes limits" "a \<le> pl_max_manifest_bytes limits" "b \<le> pl_max_payload_bytes limits"
    by (auto simp: package_header_def res_simps usize_simps unsigned_capacity_Some split: if_splits)
  from f obtain zs where zs: "a < 2 ^ 32"
    "drop (length MAGIC) bs = u16_to_le PACKAGE_FORMAT_V1 @ u32_to_le (word_of_nat a) @ u64_to_le (word_of_nat b) @ zs"
    using assms by (auto simp: package_fields_Ok)
  have bs: "bs = MAGIC @ u16_to_le PACKAGE_FORMAT_V1 @ u32_to_le (word_of_nat a) @ u64_to_le (word_of_nat b) @ zs"
    using m zs(2) append_take_drop_id [of "length MAGIC" bs] by simp
  then have "length zs = a + b + DIGEST_BYTES" using n by (simp add: HEADER_BYTES_def MAGIC_def)
  moreover have "zs = take a zs @ take b (drop a zs) @ drop b (drop a zs)" by (simp del: drop_drop)
  ultimately obtain mb pl d where "zs = mb @ pl @ d" "length mb = a" "length pl = b" "length d = DIGEST_BYTES"
    by (metis (no_types) add_diff_cancel_left' add.assoc length_append length_drop length_take le_add1 min_absorb2)
  with bs have "bs = envelope mb pl @ d" "length mb = a" "length pl = b" "length d = DIGEST_BYTES"
    by (simp_all add: envelope_def)
  with lim zs(1) show ?R by blast
next
  assume ?R
  then obtain mb pl d where bs: "bs = envelope mb pl @ d" and d: "length mb = a" "length pl = b" "length d = DIGEST_BYTES"
    and lim: "length bs \<le> pl_max_bytes limits" "a \<le> pl_max_manifest_bytes limits" "b \<le> pl_max_payload_bytes limits"
      "a < 2 ^ 32" by blast
  have n: "length bs = HEADER_BYTES + a + b + DIGEST_BYTES" using bs d by (simp add: envelope_length)
  then have "b < 2 ^ 64" using assms by (simp add: usize_max_def)
  moreover have short: "length (drop (length MAGIC) bs) \<le> usize_max" using assms by simp
  moreover have "drop (length MAGIC) bs = u16_to_le PACKAGE_FORMAT_V1 @ u32_to_le (word_of_nat a) @
      u64_to_le (word_of_nat b) @ mb @ pl @ d" using bs d by (simp add: envelope_def)
  ultimately have "package_fields (pk_reader_new (drop (length MAGIC) bs)) =
      Ok ((a, b), pk_adv (pk_reader_new (drop (length MAGIC) bs)) 14)"
    using lim(4) short by (simp add: package_fields_Ok)
  moreover have "take (length MAGIC) bs = MAGIC" using bs by (simp add: envelope_def)
  moreover have "length MAGIC \<le> length bs" using n by (simp add: HEADER_BYTES_def MAGIC_def)
  ultimately show ?L
    using lim n assms by (simp add: package_header_def pk_limit_def slice_at_def unsigned_capacity_def checked_add_def)
qed

section \<open>Packages\<close>

text \<open>What \<open>decode\<close> does once the header is accepted.\<close>

lemma package_decode_envelope:
  assumes "length bs \<le> usize_max" and sha: "\<And>x. length (sha x) = 32"
    and header: "package_header bs limits = Ok (length mb, length pl)"
    and bs: "bs = envelope mb pl @ d" and d: "length d = DIGEST_BYTES"
  shows "package_decode size_of sha alloc bs limits =
    (if digest_bytes (hash sha (envelope mb pl)) \<noteq> d
     then Err (PkIntegrity (hash sha (envelope mb pl)) (Digest d))
     else rbind (decode_manifest mb limits) (\<lambda>m.
       rbind (validate_manifest m limits) (\<lambda>_.
       rbind (map_err PkBytecode (load_validated size_of alloc pl (pl_bytecode limits))) (\<lambda>chunk.
       rbind (validate_descriptor m (vc_chunk chunk)) (\<lambda>_.
       Ok \<lparr>pk_manifest_of = m, pk_payload = pl, pk_digest_of = hash sha (envelope mb pl), pk_chunk = chunk\<rparr>)))))"
proof -
  have len: "length bs = HEADER_BYTES + length mb + length pl + DIGEST_BYTES"
    using bs d by (simp add: envelope_length)
  obtain h where h: "length h = HEADER_BYTES" "envelope mb pl = h @ mb @ pl"
    using envelope_split by blast
  have add: "plain_add HEADER_BYTES (length mb) = Ok (HEADER_BYTES + length mb)"
    "plain_add (HEADER_BYTES + length mb) (length pl) = Ok (HEADER_BYTES + length mb + length pl)"
    using assms(1) len by (simp_all add: plain_add_def)
  have slices: "slice_at bs 0 (HEADER_BYTES + length mb + length pl) = Ok (envelope mb pl)"
    "slice_at bs (HEADER_BYTES + length mb + length pl) (length bs) = Ok d"
    using bs d len by (simp_all add: slice_at_def envelope_length)
  have body: "slice_at bs HEADER_BYTES (HEADER_BYTES + length mb) = Ok mb"
    "slice_at bs (HEADER_BYTES + length mb) (HEADER_BYTES + length mb + length pl) = Ok pl"
    using h bs d len by (simp_all add: slice_at_def)
  have eq: "constant_time_eq (digest_bytes (hash sha (envelope mb pl))) d \<longleftrightarrow>
      digest_bytes (hash sha (envelope mb pl)) = d"
    using constant_time_eq_iff [of "digest_bytes (hash sha (envelope mb pl))" d] sha d
    by (simp add: hash_def DIGEST_BYTES_def)
  show ?thesis
    by (simp add: package_decode_def header add slices body eq Let_def exact_array_def d)
qed

definition package_valid ::
  "sizes \<Rightarrow> (bytes \<Rightarrow> bytes) \<Rightarrow> (nat \<Rightarrow> bool) \<Rightarrow> package_limits \<Rightarrow> package \<Rightarrow> bool" where
  "package_valid size_of sha alloc limits p \<longleftrightarrow>
     manifest_valid limits (pk_manifest_of p) \<and> manifest_fits (pk_manifest_of p) \<and>
     load_validated size_of alloc (pk_payload p) (pl_bytecode limits) = Ok (pk_chunk p) \<and>
     validate_descriptor (pk_manifest_of p) (vc_chunk (pk_chunk p)) = Ok () \<and>
     length (pk_payload p) \<le> pl_max_payload_bytes limits \<and>
     length (enc_manifest (pk_manifest_of p)) \<le> pl_max_manifest_bytes limits \<and>
     length (enc_manifest (pk_manifest_of p)) < 2 ^ 32 \<and>
     length (envelope (enc_manifest (pk_manifest_of p)) (pk_payload p)) + DIGEST_BYTES \<le> usize_max \<and>
     length (envelope (enc_manifest (pk_manifest_of p)) (pk_payload p)) + DIGEST_BYTES \<le> pl_max_bytes limits \<and>
     pk_digest_of p = hash sha (envelope (enc_manifest (pk_manifest_of p)) (pk_payload p))"

text \<open>The digests of a manifest as Rust types them, 32 bytes each.\<close>

definition manifest_typed :: "manifest \<Rightarrow> bool" where
  "manifest_typed m \<longleftrightarrow> (\<forall>i\<in>set (mf_imports m). length (digest_bytes (im_schema i)) = 32) \<and>
     (\<forall>e\<in>set (mf_exports m). length (digest_bytes (ex_schema e)) = 32)"

lemma decodable_iff:
  "manifest_valid limits m \<Longrightarrow> manifest_decodable limits m \<longleftrightarrow> manifest_fits m \<and> manifest_typed m"
  by (auto simp: manifest_valid_def manifest_decodable_def manifest_fits_def manifest_typed_def
      name_ok_def name_within_def service_ok_def service_within_def service_fits_def capability_ok_def
      import_ok_def export_ok_def)

lemma package_new_Ok:
  "package_new size_of sha alloc m payload limits = Ok p \<longleftrightarrow>
     pk_manifest_of p = m \<and> pk_payload p = payload \<and> package_valid size_of sha alloc limits p"
  using validate_manifest_Ok [of m limits]
  by (cases p) (auto simp: package_new_def package_valid_def res_simps usize_simps
      encode_manifest_Ok encode_unsigned_Ok envelope_length)

lemma package_encode_Ok:
  assumes "package_valid size_of sha alloc limits p"
  shows "package_encode p = Ok (envelope (enc_manifest (pk_manifest_of p)) (pk_payload p) @ digest_bytes (pk_digest_of p))"
proof -
  have "encode_manifest (pk_manifest_of p) = Ok (enc_manifest (pk_manifest_of p))"
    using assms by (simp add: encode_manifest_Ok package_valid_def)
  moreover have "encode_unsigned (enc_manifest (pk_manifest_of p)) (pk_payload p) =
      Ok (envelope (enc_manifest (pk_manifest_of p)) (pk_payload p))"
    using assms by (simp add: encode_unsigned_Ok package_valid_def envelope_length)
  ultimately show ?thesis by (simp add: package_encode_def)
qed

text \<open>
  C24: \<open>Package::decode\<close> inverts \<open>Package::encode\<close> in both directions: a byte string decodes to a
  package just when it is that package's encoding and the package is one \<open>Package::new\<close> builds
  from its manifest and payload (and its digests are 32 bytes). So packages have one encoding
  each, and building, encoding and decoding is the identity.
\<close>

theorem package_decode_exact:
  assumes "length bs \<le> usize_max" and sha: "\<And>x. length (sha x) = 32"
  shows "package_decode size_of sha alloc bs limits = Ok p \<longleftrightarrow>
    package_encode p = Ok bs \<and> manifest_typed (pk_manifest_of p) \<and>
    package_new size_of sha alloc (pk_manifest_of p) (pk_payload p) limits = Ok p"
    (is "?L \<longleftrightarrow> ?R")
proof
  assume L: ?L
  then obtain a b where header: "package_header bs limits = Ok (a, b)"
    by (auto simp: package_decode_def res_simps)
  then obtain mb pl d where bs: "bs = envelope mb pl @ d" "length mb = a" "length pl = b"
    "length d = DIGEST_BYTES" and lim: "length bs \<le> pl_max_bytes limits" "a \<le> pl_max_manifest_bytes limits"
      "b \<le> pl_max_payload_bytes limits" "a < 2 ^ 32"
    using assms(1) by (auto simp: package_header_Ok)
  from header bs(2,3) have "package_header bs limits = Ok (length mb, length pl)" by simp
  from L [unfolded package_decode_envelope [OF assms(1) sha this bs(1,4)]] have m: "digest_bytes (hash sha (envelope mb pl)) = d"
    "decode_manifest mb limits = Ok (pk_manifest_of p)" "validate_manifest (pk_manifest_of p) limits = Ok ()"
    "load_validated size_of alloc pl (pl_bytecode limits) = Ok (pk_chunk p)"
    "validate_descriptor (pk_manifest_of p) (vc_chunk (pk_chunk p)) = Ok ()" "pk_payload p = pl"
    "pk_digest_of p = hash sha (envelope mb pl)"
    by (auto simp: res_simps split: if_splits)
  have "length mb \<le> usize_max" using assms(1) bs(1) by (simp add: envelope_length)
  from manifest_codec_exact_aux [OF this] m(2)
  have e: "encode_manifest (pk_manifest_of p) = Ok mb" "manifest_decodable limits (pk_manifest_of p)" by blast+
  have v: "manifest_valid limits (pk_manifest_of p)" using m(3) validate_manifest_Ok by blast
  have mb: "mb = enc_manifest (pk_manifest_of p)" "manifest_fits (pk_manifest_of p)"
    using e(1) by (simp_all add: encode_manifest_Ok)
  have "package_valid size_of sha alloc limits p"
    using m v mb lim bs assms(1) by (simp add: package_valid_def)
  then show ?R
    using package_encode_Ok [of size_of sha alloc limits p] package_new_Ok m(1,6,7) mb(1) bs(1) decodable_iff [OF v] e(2)
    by metis
next
  assume R: ?R
  then have v: "package_valid size_of sha alloc limits p" by (simp add: package_new_Ok)
  define mb where "mb = enc_manifest (pk_manifest_of p)"
  define pl where "pl = pk_payload p"
  have bs: "bs = envelope mb pl @ digest_bytes (pk_digest_of p)"
    using R package_encode_Ok [OF v] by (simp add: mb_def pl_def)
  have d: "length (digest_bytes (pk_digest_of p)) = DIGEST_BYTES" "digest_bytes (hash sha (envelope mb pl)) = digest_bytes (pk_digest_of p)"
    using v sha by (simp_all add: package_valid_def hash_def DIGEST_BYTES_def mb_def pl_def)
  have "package_header bs limits = Ok (length mb, length pl)"
    using v d(1) assms(1) bs by (auto simp: package_header_Ok package_valid_def mb_def pl_def)
  note eq = package_decode_envelope [OF assms(1) sha this bs d(1), where alloc = alloc]
  have "manifest_decodable limits (pk_manifest_of p)"
    using R v decodable_iff by (auto simp: package_valid_def)
  moreover have "length mb \<le> usize_max" using assms(1) bs by (simp add: envelope_length)
  ultimately have "decode_manifest mb limits = Ok (pk_manifest_of p)"
    using v manifest_codec_exact_aux by (simp add: mb_def package_valid_def encode_manifest_Ok)
  moreover have "validate_manifest (pk_manifest_of p) limits = Ok ()"
    using v by (simp add: validate_manifest_Ok package_valid_def)
  ultimately show ?L
    using v d(2) by (simp add: eq package_valid_def mb_def pl_def)
qed

text \<open>
  Decoding never panics, whatever the bytes, the hash values and the allocator, under limits whose
  capacities fit: every slice, sum and array conversion of \<open>decode\<close> is in range.
\<close>

theorem package_decode_never_panics:
  assumes "length bs \<le> usize_max" and sha: "\<And>x. length (sha x) = 32"
    and fit: "capacities_fit size_of (pl_bytecode limits)"
  shows "package_decode size_of sha alloc bs limits \<noteq> Panic"
proof (cases "package_header bs limits")
  case (Ok ab)
  obtain a b where ab: "ab = (a, b)" by (cases ab)
  with Ok obtain mb pl d where bs: "bs = envelope mb pl @ d" "length mb = a" "length pl = b"
    "length d = DIGEST_BYTES" using assms(1) by (auto simp: package_header_Ok)
  with Ok ab have "package_header bs limits = Ok (length mb, length pl)" by simp
  note eq = package_decode_envelope [OF assms(1) sha this bs(1,4), where alloc = alloc and size_of = size_of]
  have "length mb \<le> usize_max" using assms(1) bs(1) by (simp add: envelope_length)
  then show ?thesis
    using manifest_codec_exact_aux(1) load_not_Panic [OF fit, of alloc pl]
    by (auto simp: eq res_simps)
next
  case (Err e)
  then show ?thesis by (simp add: package_decode_def)
next
  case Panic
  with package_header_not_Panic [OF assms(1)] show ?thesis by blast
qed

text \<open>
  C25: any bytes whose last 32 are not the hash of the rest are refused: when their header is in order
  the answer is the integrity error, with the hash of the bytes and the stored digest, before
  the manifest or the payload is looked at, and otherwise it is the error of the header. So a change
  to a package, in its digest or anywhere before it, is detected unless it is a hash collision.
\<close>

theorem package_tampering_detected:
  assumes len: "length bs \<le> usize_max" and sha: "\<And>x. length (sha x) = 32"
    and wrong: "sha (DOMAIN @ take (length bs - 32) bs) \<noteq> drop (length bs - 32) bs"
  shows "package_header bs limits \<noteq> Panic \<and>
    package_decode size_of sha alloc bs limits =
      (case package_header bs limits of
         Ok _ \<Rightarrow> Err (PkIntegrity (Digest (sha (DOMAIN @ take (length bs - 32) bs))) (Digest (drop (length bs - 32) bs)))
       | Err e \<Rightarrow> Err e
       | Panic \<Rightarrow> Panic)"
proof (cases "package_header bs limits")
  case (Ok ab)
  obtain a b where ab: "ab = (a, b)" by (cases ab)
  with Ok obtain mb pl d where bs: "bs = envelope mb pl @ d" "length mb = a" "length pl = b" "length d = DIGEST_BYTES"
    using len by (auto simp: package_header_Ok)
  with Ok ab have h: "package_header bs limits = Ok (length mb, length pl)" by simp
  have split: "take (length bs - 32) bs = envelope mb pl" "drop (length bs - 32) bs = d"
    using bs(1,4) by (simp_all add: DIGEST_BYTES_def)
  show ?thesis
    using wrong unfolding package_decode_envelope [OF len sha h bs(1,4)] split
    by (simp add: h hash_def)
next
  case (Err e)
  then show ?thesis by (simp add: package_decode_def)
next
  case Panic
  with package_header_not_Panic [OF len] show ?thesis by blast
qed

section \<open>A package\<close>

definition zero_hash :: "bytes \<Rightarrow> bytes" where
  "zero_hash x = replicate 32 0"

definition sample_package :: package where
  "sample_package =
     \<lparr>pk_manifest_of = sample_manifest, pk_payload = tiny_bytes, pk_digest_of = Digest (replicate 32 0),
      pk_chunk = \<lparr>vc_chunk = tiny_chunk, vc_semantic_profile = None\<rparr>\<rparr>"

definition sample_envelope :: bytes where
  "sample_envelope = envelope (enc_manifest sample_manifest) tiny_bytes"

lemma zero_hash_length: "length (zero_hash x) = 32"
  by (simp add: zero_hash_def)

lemma tiny_load_validated:
  "load_validated sample_sizes (\<lambda>_. True) tiny_bytes default_load_limits = Ok \<lparr>vc_chunk = tiny_chunk, vc_semantic_profile = None\<rparr>"
  by (simp add: load_validated_def tiny_loads validated_chunk_new_def tiny_accepted)

lemma sample_envelope_length: "length sample_envelope = 195"
  by (simp add: sample_envelope_def envelope_length HEADER_BYTES_def sample_manifest_length tiny_length)

lemma sample_manifest_valid: "manifest_valid default_package_limits sample_manifest"
  by (simp add: manifest_valid_def sample_manifest_def name_within_def service_within_def
      sample_service_def sample_name_def sample_portable digest_ZERO_def default_package_limits_def)

lemma default_package_limits_sel:
  "pl_max_bytes default_package_limits = 69206016" "pl_max_manifest_bytes default_package_limits = 1048576"
  "pl_max_payload_bytes default_package_limits = 67108864" "pl_bytecode default_package_limits = default_load_limits"
  by (simp_all add: default_package_limits_def)

lemma sample_package_valid: "package_valid sample_sizes zero_hash (\<lambda>_. True) default_package_limits sample_package"
  using sample_envelope_length
  by (simp add: package_valid_def sample_package_def sample_manifest_valid decodable_fits [OF sample_decodable]
      default_package_limits_sel tiny_load_validated validate_descriptor_simps sample_manifest_length tiny_length
      usize_max_def DIGEST_BYTES_def hash_def zero_hash_def sample_envelope_def)
    (simp add: sample_manifest_def tiny_chunk_def)

lemma sample_package_bytes:
  "package_encode sample_package = Ok (sample_envelope @ replicate 32 0)"
  using package_encode_Ok [OF sample_package_valid] by (simp add: sample_package_def sample_envelope_def)

lemma sample_package_bound: "length (sample_envelope @ replicate 32 (0 :: byte)) \<le> usize_max"
  by (simp add: sample_envelope_length usize_max_def)

lemma sample_package_new:
  "package_new sample_sizes zero_hash (\<lambda>_. True) sample_manifest tiny_bytes default_package_limits = Ok sample_package"
  using sample_package_valid by (simp add: package_new_Ok) (simp add: sample_package_def)

lemma sample_header:
  assumes "length d = 32"
  shows "package_header (sample_envelope @ d) default_package_limits =
    Ok (length (enc_manifest sample_manifest), length tiny_bytes)"
proof -
  have bound: "length (sample_envelope @ d) \<le> usize_max"
    using assms by (simp add: sample_envelope_length usize_max_def)
  show ?thesis
    unfolding package_header_Ok [OF bound] sample_manifest_length tiny_length
  proof (intro conjI exI)
    show "sample_envelope @ d = envelope (enc_manifest sample_manifest) tiny_bytes @ d"
      by (simp add: sample_envelope_def)
  qed (simp_all add: default_package_limits_sel sample_envelope_length sample_manifest_length tiny_length
      DIGEST_BYTES_def assms)
qed

lemma sample_package_decodes:
  "package_decode sample_sizes zero_hash (\<lambda>_. True) (sample_envelope @ replicate 32 0) default_package_limits = Ok sample_package"
proof -
  have h: "package_header (sample_envelope @ replicate 32 0) default_package_limits =
      Ok (length (enc_manifest sample_manifest), length tiny_bytes)" by (rule sample_header) simp
  have "decode_manifest (enc_manifest sample_manifest) default_package_limits = Ok sample_manifest"
    using manifest_codec_exact_aux(2) sample_decodable decodable_fits
    by (simp add: sample_manifest_length usize_max_def encode_manifest_Ok)
  moreover have "validate_descriptor sample_manifest tiny_chunk = Ok ()"
    using sample_package_valid by (simp add: package_valid_def sample_package_def)
  moreover have "validate_manifest sample_manifest default_package_limits = Ok ()"
    by (simp add: validate_manifest_Ok sample_manifest_valid)
  ultimately show ?thesis
    using package_decode_envelope [OF sample_package_bound zero_hash_length h, where d = "replicate 32 0"
      and alloc = "\<lambda>_. True" and size_of = sample_sizes]
    by (simp add: sample_envelope_def DIGEST_BYTES_def hash_def default_package_limits_sel
        tiny_load_validated sample_package_def) (simp add: zero_hash_def)
qed

theorem package_decode_exact_witness:
  "\<exists>bs. package_encode sample_package = Ok bs \<and>
     package_decode sample_sizes zero_hash (\<lambda>_. True) bs default_package_limits = Ok sample_package"
proof -
  have "manifest_typed sample_manifest" by (simp add: manifest_typed_def sample_manifest_def)
  then show ?thesis
    using package_decode_exact [OF sample_package_bound zero_hash_length, where alloc = "\<lambda>_. True" and size_of = sample_sizes
        and limits = default_package_limits and p = sample_package]
      sample_package_bytes sample_package_new by (simp add: sample_package_def)
qed

theorem package_decode_never_panics_witness:
  "package_decode sample_sizes zero_hash (\<lambda>_. True) (sample_envelope @ replicate 32 0) default_package_limits \<noteq> Panic"
proof (rule package_decode_never_panics [OF sample_package_bound zero_hash_length])
  show "capacities_fit sample_sizes (pl_bytecode default_package_limits)"
    unfolding default_package_limits_sel by (rule default_capacities_fit) (simp add: sample_sizes_def)
qed

theorem package_tampering_detected_witness:
  "package_decode sample_sizes zero_hash (\<lambda>_. True) (sample_envelope @ replicate 32 1) default_package_limits =
     Err (PkIntegrity (Digest (replicate 32 0)) (Digest (replicate 32 1)))"
proof -
  have "length (sample_envelope @ replicate 32 (1 :: byte)) \<le> usize_max"
    by (simp add: sample_envelope_length usize_max_def)
  moreover have "replicate 32 (0 :: byte) \<noteq> replicate 32 1" by simp
  ultimately show ?thesis
    using package_tampering_detected [of "sample_envelope @ replicate 32 1" zero_hash default_package_limits
        sample_sizes "\<lambda>_. True"]
      zero_hash_length sample_header [of "replicate 32 1"]
    by (simp add: sample_envelope_length) (simp add: zero_hash_def)
qed

end
