(* ===== verification/Rust_Float.thy ===== *)
theory Rust_Float
  imports Rust_Std
begin

text \<open>
  The part of \<open>f64\<close> the runtime uses on values: classification, comparison, truncation and the
  conversions to and from \<open>i64\<close>. A number is its IEEE-754 bit pattern; a finite one is an
  integer count of units of \<open>2 ^ -1074\<close>, the least subnormal, so that comparisons are exact.
  An \<open>i64\<close> is an integer in range.
\<close>

type_synonym f64 = "64 word"

section \<open>Bit patterns\<close>

definition f64_fraction :: "f64 \<Rightarrow> nat" where
  "f64_fraction w = unat w mod 2 ^ 52"

definition f64_exponent :: "f64 \<Rightarrow> nat" where
  "f64_exponent w = unat w div 2 ^ 52 mod 2 ^ 11"

definition f64_negative :: "f64 \<Rightarrow> bool" where
  "f64_negative w \<longleftrightarrow> 2 ^ 63 \<le> unat w"

definition f64_is_nan :: "f64 \<Rightarrow> bool" where
  "f64_is_nan w \<longleftrightarrow> f64_exponent w = 2047 \<and> f64_fraction w \<noteq> 0"

definition f64_is_infinite :: "f64 \<Rightarrow> bool" where
  "f64_is_infinite w \<longleftrightarrow> f64_exponent w = 2047 \<and> f64_fraction w = 0"

definition f64_is_finite :: "f64 \<Rightarrow> bool" where
  "f64_is_finite w \<longleftrightarrow> f64_exponent w \<noteq> 2047"

definition f64_scale :: nat where
  "f64_scale = 2 ^ 1074"

definition f64_one :: int where
  "f64_one = int f64_scale"

definition f64_magnitude :: "f64 \<Rightarrow> nat" where
  "f64_magnitude w =
     (if f64_exponent w = 0 then f64_fraction w
      else (2 ^ 52 + f64_fraction w) * 2 ^ (f64_exponent w - 1))"

definition f64_units :: "f64 \<Rightarrow> int" where
  "f64_units w = (if f64_negative w then - int (f64_magnitude w) else int (f64_magnitude w))"

section \<open>Comparison\<close>

text \<open>The extended line: minus infinity, the finite values in order, infinity.\<close>

definition f64_key :: "f64 \<Rightarrow> int \<times> int" where
  "f64_key w =
     (if f64_is_infinite w then (if f64_negative w then (-1, 0) else (1, 0)) else (0, f64_units w))"

definition ext_less :: "int \<times> int \<Rightarrow> int \<times> int \<Rightarrow> bool" where
  "ext_less a b \<longleftrightarrow> fst a < fst b \<or> fst a = fst b \<and> snd a < snd b"

definition ext_cmp :: "int \<times> int \<Rightarrow> int \<times> int \<Rightarrow> ordering" where
  "ext_cmp a b = (if ext_less a b then Less else if a = b then Equal else Greater)"

definition f64_partial_cmp :: "f64 \<Rightarrow> f64 \<Rightarrow> ordering option" where
  "f64_partial_cmp a b =
     (if f64_is_nan a \<or> f64_is_nan b then None else Some (ext_cmp (f64_key a) (f64_key b)))"

definition f64_lt :: "f64 \<Rightarrow> f64 \<Rightarrow> bool" where
  "f64_lt a b \<longleftrightarrow> f64_partial_cmp a b = Some Less"

definition f64_le :: "f64 \<Rightarrow> f64 \<Rightarrow> bool" where
  "f64_le a b \<longleftrightarrow> f64_partial_cmp a b = Some Less \<or> f64_partial_cmp a b = Some Equal"

definition f64_eq :: "f64 \<Rightarrow> f64 \<Rightarrow> bool" where
  "f64_eq a b \<longleftrightarrow> f64_partial_cmp a b = Some Equal"

section \<open>Truncation and conversions\<close>

definition is_i64 :: "int \<Rightarrow> bool" where
  "is_i64 n \<longleftrightarrow> i64_min \<le> n \<and> n \<le> i64_max"

definition f64_trunc :: "f64 \<Rightarrow> int" where
  "f64_trunc w =
     (if f64_negative w then - int (f64_magnitude w div f64_scale) else int (f64_magnitude w div f64_scale))"

text \<open>\<open>x.fract() == 0.0\<close>; an infinity minus itself is not a number.\<close>

definition f64_fract_is_zero :: "f64 \<Rightarrow> bool" where
  "f64_fract_is_zero w \<longleftrightarrow> f64_is_finite w \<and> f64_magnitude w mod f64_scale = 0"

text \<open>\<open>x as i64\<close>: truncates, saturates, and takes NaN to 0.\<close>

definition f64_to_i64 :: "f64 \<Rightarrow> int" where
  "f64_to_i64 w =
     (if f64_is_nan w then 0
      else if f64_is_infinite w then (if f64_negative w then i64_min else i64_max)
      else max i64_min (min i64_max (f64_trunc w)))"

fun bit_length :: "nat \<Rightarrow> nat" where
  "bit_length n = (if n = 0 then 0 else Suc (bit_length (n div 2)))"

declare bit_length.simps [simp del]

text \<open>
  \<open>n as f64\<close>: the bits of the nearest number, ties to even. A carry out of the fraction
  increments the exponent.
\<close>

definition nat_to_f64_bits :: "nat \<Rightarrow> nat" where
  "nat_to_f64_bits n =
     (if n = 0 then 0
      else let len = bit_length n in
        if len \<le> 53 then (len + 1022) * 2 ^ 52 + (n * 2 ^ (53 - len) - 2 ^ 52)
        else let s = len - 53; q = n div 2 ^ s; r = n mod 2 ^ s; half = 2 ^ (s - 1);
                 q' = (if half < r \<or> r = half \<and> odd q then q + 1 else q)
             in (len + 1022) * 2 ^ 52 + (q' - 2 ^ 52))"

definition int_to_f64 :: "int \<Rightarrow> f64" where
  "int_to_f64 n =
     word_of_nat ((if n < 0 then 2 ^ 63 else 0) + nat_to_f64_bits (nat \<bar>n\<bar>))"

definition f64_neg :: "f64 \<Rightarrow> f64" where
  "f64_neg w = (if f64_negative w then w - 2 ^ 63 else w + 2 ^ 63)"

section \<open>Exact conversion\<close>

lemma bit_length_bounds: "0 < n \<Longrightarrow> 2 ^ (bit_length n - 1) \<le> n \<and> n < 2 ^ bit_length n \<and> 0 < bit_length n"
proof (induction n rule: bit_length.induct)
  case (1 n)
  show ?case
  proof (cases "n = 1")
    case True
    then show ?thesis by (simp add: bit_length.simps)
  next
    case False
    with 1 have pos: "0 < n div 2" by simp
    with 1 have ih: "2 ^ (bit_length (n div 2) - 1) \<le> n div 2" "n div 2 < 2 ^ bit_length (n div 2)"
      "0 < bit_length (n div 2)" by auto
    have l: "bit_length n = Suc (bit_length (n div 2))" using 1 by (simp add: bit_length.simps [of n])
    obtain k where k: "bit_length (n div 2) = Suc k" using ih(3) gr0_implies_Suc by blast
    have "2 * 2 ^ k \<le> 2 * (n div 2)" using ih(1) k by simp
    moreover have "2 * (n div 2) \<le> n" by simp
    moreover have "n < 2 * (n div 2) + 2" by presburger
    moreover have "n div 2 + 1 \<le> 2 ^ Suc k" using ih(2) k by simp
    ultimately show ?thesis using l k by simp
  qed
qed

text \<open>A number of at most 53 significant bits keeps its value.\<close>

lemma nat_to_f64_exact:
  assumes n: "n = m * 2 ^ k" and m: "m < 2 ^ 53" and big: "n < 2 ^ 1000" and pos: "0 < n"
  shows "\<exists>e f. nat_to_f64_bits n = e * 2 ^ 52 + f \<and> f < 2 ^ 52 \<and> 0 < e \<and> e < 2047 \<and>
    (2 ^ 52 + f) * 2 ^ (e - 1) = n * 2 ^ 1074"
proof -
  define len where "len = bit_length n"
  have b: "2 ^ (len - 1) \<le> n" "n < 2 ^ len" "0 < len" using bit_length_bounds [OF pos] by (simp_all add: len_def)
  have len: "len \<le> 1000"
  proof (rule ccontr)
    assume "\<not> len \<le> 1000"
    then have "(2 :: nat) ^ 1000 \<le> 2 ^ (len - 1)" by (intro power_increasing) auto
    with b(1) big show False by linarith
  qed
  show ?thesis
  proof (cases "len \<le> 53")
    case True
    define f where "f = n * 2 ^ (53 - len) - 2 ^ 52"
    have "2 ^ (len - 1) * 2 ^ (53 - len) \<le> n * 2 ^ (53 - len)" using b(1) by simp
    then have lo: "2 ^ 52 \<le> n * 2 ^ (53 - len)"
      using True b(3) by (simp flip: power_add)
    have "n * 2 ^ (53 - len) < 2 ^ len * 2 ^ (53 - len)" using b(2) by simp
    then have hi: "n * 2 ^ (53 - len) < 2 ^ 53" using True by (simp flip: power_add)
    have "(2 ^ 52 + f) * 2 ^ (len + 1022 - 1) = n * 2 ^ (53 - len) * 2 ^ (len + 1021)"
      using lo by (simp add: f_def)
    also have "\<dots> = n * 2 ^ 1074" using True by (simp add: mult.assoc flip: power_add)
    finally have v: "(2 ^ 52 + f) * 2 ^ (len + 1022 - 1) = n * 2 ^ 1074" .
    have "nat_to_f64_bits n = (len + 1022) * 2 ^ 52 + f"
      using pos True by (simp add: nat_to_f64_bits_def Let_def f_def flip: len_def)
    moreover have "f < 2 ^ 52" "0 < len + 1022" "len + 1022 < 2047" using lo hi len by (simp_all add: f_def)
    ultimately show ?thesis using v by blast
  next
    case False
    define s where "s = len - 53"
    have "s \<le> k"
    proof (rule ccontr)
      assume "\<not> s \<le> k"
      then have "(2 :: nat) ^ (k + 53) \<le> 2 ^ (len - 1)" using False by (intro power_increasing) (auto simp: s_def)
      moreover have "m * 2 ^ k < 2 ^ 53 * 2 ^ k" using m by simp
      moreover have "(2 :: nat) ^ (k + 53) = 2 ^ 53 * 2 ^ k" by (simp only: power_add mult.commute)
      ultimately show False using b(1) n by linarith
    qed
    then have r: "n mod 2 ^ s = 0" "n div 2 ^ s * 2 ^ s = n"
      using n by (auto simp: le_imp_power_dvd dvd_mult mod_eq_0_iff_dvd)
    define q where "q = n div 2 ^ s"
    have q: "q * 2 ^ s = n" using r by (simp add: q_def)
    have "len - 1 = 52 + s" "len = 53 + s" using False by (simp_all add: s_def)
    then have "(2 :: nat) ^ (len - 1) = 2 ^ 52 * 2 ^ s" "(2 :: nat) ^ len = 2 ^ 53 * 2 ^ s"
      by (metis power_add)+
    with b(1,2) q have lo: "2 ^ 52 \<le> q" and hi: "q < 2 ^ 53"
      by (metis mult_le_cancel2 zero_less_numeral zero_less_power, metis mult_less_cancel2)
    have "(2 ^ 52 + (q - 2 ^ 52)) * 2 ^ (len + 1022 - 1) = q * 2 ^ (s + 1074)"
      using lo False by (simp add: s_def)
    also have "\<dots> = n * 2 ^ 1074" using q by (simp add: power_add mult.assoc [symmetric])
    finally have v: "(2 ^ 52 + (q - 2 ^ 52)) * 2 ^ (len + 1022 - 1) = n * 2 ^ 1074" .
    have "nat_to_f64_bits n = (len + 1022) * 2 ^ 52 + (q - 2 ^ 52)"
      using pos False r by (simp add: nat_to_f64_bits_def Let_def flip: len_def s_def q_def)
    moreover have "q - 2 ^ 52 < 2 ^ 52" "0 < len + 1022" "len + 1022 < 2047" using lo hi len by simp_all
    ultimately show ?thesis using v by blast
  qed
qed

lemma unat_u64_of_nat: "n < 2 ^ 64 \<Longrightarrow> unat (word_of_nat n :: 64 word) = n"
  by (simp add: unat_of_nat)

lemma low_part: "f < c \<Longrightarrow> (f + x * c) mod c = f" "f < c \<Longrightarrow> (f + x * c) div c = x" for c :: nat
  by simp_all

lemma int_to_f64_exact:
  assumes m: "nat \<bar>n\<bar> = m * 2 ^ k" "m < 2 ^ 53" and big: "nat \<bar>n\<bar> < 2 ^ 1000"
  shows "f64_is_finite (int_to_f64 n) \<and> f64_units (int_to_f64 n) = n * f64_one"
proof (cases "n = 0")
  case True
  then show ?thesis
    by (simp add: int_to_f64_def nat_to_f64_bits_def f64_is_finite_def f64_exponent_def f64_units_def
        f64_magnitude_def f64_fraction_def)
next
  case False
  then have "0 < nat \<bar>n\<bar>" by simp
  from nat_to_f64_exact [OF m big this] obtain e f where
    bits: "nat_to_f64_bits (nat \<bar>n\<bar>) = e * 2 ^ 52 + f" and ef: "f < 2 ^ 52" "0 < e" "e < 2047"
    and v: "(2 ^ 52 + f) * 2 ^ (e - 1) = nat \<bar>n\<bar> * 2 ^ 1074" by blast
  define s :: nat where "s = (if n < 0 then 1 else 0)"
  have "e * 2 ^ 52 + f < 2047 * 2 ^ 52" using ef by simp
  then have lt: "s * 2 ^ 63 + (e * 2 ^ 52 + f) < 2 ^ 64" by (simp add: s_def)
  have "int_to_f64 n = word_of_nat (s * 2 ^ 63 + (e * 2 ^ 52 + f))"
    by (simp add: int_to_f64_def bits s_def)
  then have u: "unat (int_to_f64 n) = s * 2 ^ 63 + (e * 2 ^ 52 + f)"
    using unat_u64_of_nat [OF lt] by simp
  have split: "s * 2 ^ 63 + (e * 2 ^ 52 + f) = f + (e + s * 2 ^ 11) * 2 ^ 52" by simp
  have frac: "f64_fraction (int_to_f64 n) = f"
    unfolding f64_fraction_def u split by (rule low_part(1) [OF ef(1)])
  have "(f + (e + s * 2 ^ 11) * 2 ^ 52) div 2 ^ 52 = e + s * 2 ^ 11"
    by (rule low_part(2) [OF ef(1)])
  then have expo: "f64_exponent (int_to_f64 n) = e"
    unfolding f64_exponent_def u split using ef(3) by simp
  have neg: "f64_negative (int_to_f64 n) \<longleftrightarrow> n < 0"
    unfolding f64_negative_def u using ef by (simp add: s_def)
  have "f64_magnitude (int_to_f64 n) = nat \<bar>n\<bar> * f64_scale"
    using ef(2) v [folded f64_scale_def] by (simp add: f64_magnitude_def expo frac)
  then have "int (f64_magnitude (int_to_f64 n)) = \<bar>n\<bar> * f64_one"
    by (simp add: f64_one_def)
  then show ?thesis
    using ef(3) by (simp add: f64_is_finite_def expo f64_units_def neg)
qed

text \<open>The integer part of a number has at most 53 significant bits, so converting it back is exact.\<close>

lemma f64_scale_pos: "0 < f64_scale"
  by (simp only: f64_scale_def) simp

lemma f64_fraction_lt: "f64_fraction w < 2 ^ 52"
  by (simp add: f64_fraction_def)

lemma f64_trunc_bits: "\<exists>m k. nat \<bar>f64_trunc w\<bar> = m * 2 ^ k \<and> m < 2 ^ 53"
proof -
  define M where "M = (if f64_exponent w = 0 then f64_fraction w else 2 ^ 52 + f64_fraction w)"
  define j where "j = f64_exponent w - 1"
  have M: "M < 2 ^ 53" using f64_fraction_lt [of w] by (simp add: M_def)
  have mag: "f64_magnitude w = M * 2 ^ j" by (simp add: f64_magnitude_def M_def j_def)
  have abs: "nat \<bar>f64_trunc w\<bar> = f64_magnitude w div f64_scale" by (simp add: f64_trunc_def)
  show ?thesis
  proof (cases "1074 \<le> j")
    case True
    then have "j = (j - 1074) + 1074" by simp
    then have "(2 :: nat) ^ j = 2 ^ (j - 1074) * f64_scale" unfolding f64_scale_def by (metis power_add)
    then have "f64_magnitude w div f64_scale = M * 2 ^ (j - 1074)"
      by (simp add: mag f64_scale_pos flip: mult.assoc)
    with M abs show ?thesis by metis
  next
    case False
    then have "1074 = j + (1074 - j)" by simp
    then have "f64_scale = 2 ^ j * 2 ^ (1074 - j)" unfolding f64_scale_def by (metis power_add)
    then have "f64_magnitude w div f64_scale = M * 2 ^ j div 2 ^ j div 2 ^ (1074 - j)"
      by (metis mag div_mult2_eq)
    also have "\<dots> = M div 2 ^ (1074 - j)" by simp
    also have "\<dots> \<le> M" by simp
    finally show ?thesis using M abs by (intro exI [of _ "f64_magnitude w div f64_scale"] exI [of _ 0]) simp
  qed
qed

lemma f64_units_trunc:
  "f64_units w = f64_trunc w * f64_one +
     (if f64_negative w then - int (f64_magnitude w mod f64_scale) else int (f64_magnitude w mod f64_scale))"
proof -
  have "int (f64_magnitude w) = int (f64_magnitude w div f64_scale) * f64_one + int (f64_magnitude w mod f64_scale)"
    using div_mult_mod_eq [of "f64_magnitude w" f64_scale]
    by (simp only: f64_one_def flip: of_nat_mult of_nat_add)
  then show ?thesis by (simp add: f64_units_def f64_trunc_def)
qed

lemma f64_one_pos: "0 < f64_one"
  by (simp add: f64_one_def f64_scale_pos)

lemma f64_rest_lt: "int (f64_magnitude w mod f64_scale) < f64_one"
  by (simp add: f64_one_def f64_scale_pos)

end
