(* ===== verification/Runtime_Value.thy ===== *)
theory Runtime_Value
  imports Rust_Float
begin

text \<open>
  \<open>blu-runtime/src/value.rs\<close>: values, their truth and type names, equality and the comparison of
  integers with floating-point numbers, which is shown to be exact. The five handle types share
  one shape, an index and a generation.
\<close>

section \<open>Values\<close>

datatype object_id = ObjectId (id_index: "32 word") (id_generation: "32 word")

type_synonym table_id = object_id
type_synonym closure_id = object_id
type_synonym upvalue_id = object_id
type_synonym thread_id = object_id
type_synonym userdata_id = object_id
type_synonym native_function_id = "32 word"

datatype val =
    VNil
  | VBoolean bool
  | VNumber f64
  | VInteger int
  | VString bytes
  | VTable table_id
  | VClosure closure_id
  | VThread thread_id
  | VCoroutineFunction thread_id
  | VLightUserData upvalue_id
  | VUserData userdata_id
  | VNativeFunction native_function_id

definition is_truthy :: "val \<Rightarrow> bool" where
  "is_truthy v \<longleftrightarrow> \<not> (v = VNil \<or> v = VBoolean False)"

fun type_name :: "val \<Rightarrow> string" where
  "type_name VNil = ''nil''"
| "type_name (VBoolean _) = ''boolean''"
| "type_name (VNumber _) = ''number''"
| "type_name (VInteger _) = ''number''"
| "type_name (VString _) = ''string''"
| "type_name (VTable _) = ''table''"
| "type_name (VClosure _) = ''function''"
| "type_name (VThread _) = ''thread''"
| "type_name (VCoroutineFunction _) = ''function''"
| "type_name (VLightUserData _) = ''userdata''"
| "type_name (VUserData _) = ''userdata''"
| "type_name (VNativeFunction _) = ''function''"

fun contains_heap_reference :: "val \<Rightarrow> bool" where
  "contains_heap_reference (VTable _) = True"
| "contains_heap_reference (VClosure _) = True"
| "contains_heap_reference (VThread _) = True"
| "contains_heap_reference (VCoroutineFunction _) = True"
| "contains_heap_reference (VUserData _) = True"
| "contains_heap_reference _ = False"

fun contains_gc_storage :: "val \<Rightarrow> bool" where
  "contains_gc_storage (VString _) = True"
| "contains_gc_storage v = contains_heap_reference v"

fun as_number :: "val \<Rightarrow> f64 option" where
  "as_number (VNumber x) = Some x"
| "as_number (VInteger n) = Some (int_to_f64 n)"
| "as_number _ = None"

section \<open>Comparison of numbers\<close>

definition integer_number_order :: "int \<Rightarrow> f64 \<Rightarrow> ordering option" where
  "integer_number_order i number =
     (if f64_is_nan number then None
      else if f64_le (f64_neg (int_to_f64 i64_min)) number then Some Less
      else if f64_lt number (int_to_f64 i64_min) then Some Greater
      else let truncated = f64_to_i64 number in
        (case cmp_of i truncated of
           Equal \<Rightarrow>
             (if f64_lt (int_to_f64 truncated) number then Some Less
              else if f64_lt number (int_to_f64 truncated) then Some Greater
              else Some Equal)
         | other \<Rightarrow> Some other))"

fun numeric_equal :: "val \<Rightarrow> val \<Rightarrow> bool option" where
  "numeric_equal (VNumber a) (VNumber b) = Some (f64_eq a b)"
| "numeric_equal (VInteger a) (VInteger b) = Some (a = b)"
| "numeric_equal (VInteger i) (VNumber x) = Some (integer_number_order i x = Some Equal)"
| "numeric_equal (VNumber x) (VInteger i) = Some (integer_number_order i x = Some Equal)"
| "numeric_equal _ _ = None"

fun numeric_less :: "val \<Rightarrow> val \<Rightarrow> bool option" where
  "numeric_less (VNumber a) (VNumber b) = Some (f64_lt a b)"
| "numeric_less (VInteger a) (VInteger b) = Some (a < b)"
| "numeric_less (VInteger i) (VNumber x) = Some (integer_number_order i x = Some Less)"
| "numeric_less (VNumber x) (VInteger i) = Some (integer_number_order i x = Some Greater)"
| "numeric_less _ _ = None"

fun numeric_less_equal :: "val \<Rightarrow> val \<Rightarrow> bool option" where
  "numeric_less_equal (VNumber a) (VNumber b) = Some (f64_le a b)"
| "numeric_less_equal (VInteger a) (VInteger b) = Some (a \<le> b)"
| "numeric_less_equal (VInteger i) (VNumber x) =
     Some (integer_number_order i x = Some Less \<or> integer_number_order i x = Some Equal)"
| "numeric_less_equal (VNumber x) (VInteger i) =
     Some (integer_number_order i x = Some Greater \<or> integer_number_order i x = Some Equal)"
| "numeric_less_equal _ _ = None"

text \<open>\<open>PartialEq\<close>: numbers by value, so that a NaN is unequal to itself.\<close>

fun value_eq :: "val \<Rightarrow> val \<Rightarrow> bool" where
  "value_eq (VNumber a) b = (numeric_equal (VNumber a) b = Some True)"
| "value_eq (VInteger a) b = (numeric_equal (VInteger a) b = Some True)"
| "value_eq a b = (a = b)"

section \<open>Exactness\<close>

text \<open>The value of a number on the extended line; an integer is a whole number of units.\<close>

fun number_key :: "val \<Rightarrow> (int \<times> int) option" where
  "number_key (VInteger n) = Some (0, n * f64_one)"
| "number_key (VNumber x) = (if f64_is_nan x then None else Some (f64_key x))"
| "number_key _ = None"

lemma ext_cmp_simps [simp]:
  "ext_cmp a b = Less \<longleftrightarrow> ext_less a b" "ext_cmp a b = Equal \<longleftrightarrow> a = b"
  "ext_cmp a b = Greater \<longleftrightarrow> ext_less b a"
  by (cases a; cases b; auto simp: ext_cmp_def ext_less_def)+

lemma f64_lt_iff: "f64_lt a b \<longleftrightarrow> \<not> f64_is_nan a \<and> \<not> f64_is_nan b \<and> ext_less (f64_key a) (f64_key b)"
  by (simp add: f64_lt_def f64_partial_cmp_def)

lemma f64_le_iff:
  "f64_le a b \<longleftrightarrow> \<not> f64_is_nan a \<and> \<not> f64_is_nan b \<and> (ext_less (f64_key a) (f64_key b) \<or> f64_key a = f64_key b)"
  by (auto simp: f64_le_def f64_partial_cmp_def)

lemma f64_finite_key: "f64_is_finite w \<Longrightarrow> \<not> f64_is_nan w \<and> f64_key w = (0, f64_units w)"
  by (simp add: f64_is_finite_def f64_is_nan_def f64_key_def f64_is_infinite_def)

lemma f64_neg_fields:
  assumes "f64_negative w"
  shows "f64_fraction (f64_neg w) = f64_fraction w \<and> f64_exponent (f64_neg w) = f64_exponent w \<and>
    \<not> f64_negative (f64_neg w)"
proof -
  define u where "u = unat w - 2 ^ 63"
  have w: "unat w = u + 2 ^ 63" and lt: "u < 2 ^ 63"
    using assms unsigned_less [of w, where ?'a = nat] by (simp_all add: u_def f64_negative_def)
  have "(2 ^ 63 :: 64 word) \<le> w" using assms by (simp add: word_le_nat_alt f64_negative_def)
  then have n: "unat (f64_neg w) = u"
    using assms by (simp add: f64_neg_def unat_sub u_def)
  have "(u + 2 ^ 63) mod 2 ^ 52 = u mod 2 ^ 52"
    using mod_mult_self1 [of u "2 ^ 11" "2 ^ 52"] by simp
  moreover have "(u + 2 ^ 63) div 2 ^ 52 = u div 2 ^ 52 + 2 ^ 11"
    using div_mult_self1 [of "2 ^ 52" u "2 ^ 11"] by simp
  ultimately show ?thesis
    using lt by (simp add: f64_fraction_def f64_exponent_def f64_negative_def w n)
qed

lemma f64_limits:
  "f64_is_finite (int_to_f64 i64_min)" "f64_units (int_to_f64 i64_min) = i64_min * f64_one"
  "f64_is_finite (f64_neg (int_to_f64 i64_min))" "f64_units (f64_neg (int_to_f64 i64_min)) = - i64_min * f64_one"
proof -
  have e: "f64_is_finite (int_to_f64 i64_min) \<and> f64_units (int_to_f64 i64_min) = i64_min * f64_one"
    by (rule int_to_f64_exact [of _ 1 63]) (simp_all add: i64_min_def)
  then show fin: "f64_is_finite (int_to_f64 i64_min)" and u: "f64_units (int_to_f64 i64_min) = i64_min * f64_one"
    by simp_all
  have neg: "f64_negative (int_to_f64 i64_min)"
  proof (rule ccontr)
    assume "\<not> ?thesis"
    then have "0 \<le> f64_units (int_to_f64 i64_min)" by (simp add: f64_units_def)
    then show False using u f64_one_pos by (simp add: i64_min_def zero_le_mult_iff)
  qed
  note n = f64_neg_fields [OF neg]
  then show "f64_is_finite (f64_neg (int_to_f64 i64_min))" using fin by (simp add: f64_is_finite_def)
  have "f64_magnitude (f64_neg (int_to_f64 i64_min)) = f64_magnitude (int_to_f64 i64_min)"
    using n by (simp add: f64_magnitude_def)
  then show "f64_units (f64_neg (int_to_f64 i64_min)) = - i64_min * f64_one"
    using n neg u by (simp add: f64_units_def)
qed

text \<open>
  On a finite number the three tests of \<open>integer_number_order\<close> leave its integer part in range
  and decide the comparison in units.
\<close>

definition int_units_order :: "int \<Rightarrow> int \<Rightarrow> ordering" where
  "int_units_order n u = (if n * f64_one < u then Less else if n * f64_one = u then Equal else Greater)"

lemma scaled_less: "a < b \<Longrightarrow> a * f64_one + f64_one \<le> b * f64_one"
proof -
  assume "a < b"
  then have "(a + 1) * f64_one \<le> b * f64_one" using f64_one_pos by (intro mult_right_mono) auto
  then show ?thesis by (simp add: distrib_right)
qed

lemma scaled_less_iff: "a * f64_one < b * f64_one \<longleftrightarrow> a < b" "a * f64_one \<le> b * f64_one \<longleftrightarrow> a \<le> b"
  using f64_one_pos by (simp_all add: mult_less_cancel_right mult_le_cancel_right)

lemma f64_trunc_rest:
  obtains r where "f64_units w = f64_trunc w * f64_one + r" "- f64_one < r" "r < f64_one"
    "f64_negative w \<longrightarrow> r \<le> 0 \<and> f64_trunc w \<le> 0" "\<not> f64_negative w \<longrightarrow> 0 \<le> r \<and> 0 \<le> f64_trunc w"
proof
  show "f64_units w = f64_trunc w * f64_one +
      (if f64_negative w then - int (f64_magnitude w mod f64_scale) else int (f64_magnitude w mod f64_scale))"
    by (rule f64_units_trunc)
qed (use f64_rest_lt [of w] f64_one_pos in \<open>auto simp: f64_trunc_def\<close>)

lemma integer_number_order_finite:
  assumes "is_i64 n" and fin: "f64_is_finite w"
  shows "integer_number_order n w = Some (int_units_order n (f64_units w))"
proof -
  let ?u = "f64_units w" and ?t = "f64_trunc w"
  obtain r where r: "?u = ?t * f64_one + r" "- f64_one < r" "r < f64_one"
    "f64_negative w \<longrightarrow> r \<le> 0 \<and> ?t \<le> 0" "\<not> f64_negative w \<longrightarrow> 0 \<le> r \<and> 0 \<le> ?t"
    by (rule f64_trunc_rest [of w])
  note keys = f64_finite_key [OF fin] f64_finite_key [OF f64_limits(1)] f64_finite_key [OF f64_limits(3)]
  have high: "f64_le (f64_neg (int_to_f64 i64_min)) w \<longleftrightarrow> - i64_min * f64_one \<le> ?u"
    using keys by (auto simp: f64_le_iff ext_less_def f64_limits)
  have low: "f64_lt w (int_to_f64 i64_min) \<longleftrightarrow> ?u < i64_min * f64_one"
    using keys by (auto simp: f64_lt_iff ext_less_def f64_limits)
  consider "- i64_min * f64_one \<le> ?u" | "?u < i64_min * f64_one" "\<not> - i64_min * f64_one \<le> ?u"
    | "i64_min * f64_one \<le> ?u" "?u < - i64_min * f64_one" by linarith
  then show ?thesis
  proof cases
    case 1
    have "n * f64_one < - i64_min * f64_one"
      using assms(1) by (subst scaled_less_iff) (simp add: is_i64_def i64_min_def i64_max_def)
    with 1 have "n * f64_one < ?u" by linarith
    with 1 keys show ?thesis by (simp add: integer_number_order_def high int_units_order_def)
  next
    case 2
    have "i64_min * f64_one \<le> n * f64_one"
      using assms(1) by (subst scaled_less_iff) (simp add: is_i64_def)
    with 2 have "?u < n * f64_one" by linarith
    with 2 keys show ?thesis by (simp add: integer_number_order_def high low int_units_order_def)
  next
    case 3
    have "?t < - i64_min"
    proof (rule ccontr)
      assume "\<not> ?thesis"
      then have "- i64_min * f64_one \<le> ?t * f64_one" by (subst scaled_less_iff) simp
      moreover from \<open>\<not> ?thesis\<close> have "0 < ?t" by (simp add: i64_min_def)
      ultimately show False using 3 r by fastforce
    qed
    moreover have "i64_min \<le> ?t"
    proof (rule ccontr)
      assume "\<not> ?thesis"
      then have "?t * f64_one + f64_one \<le> i64_min * f64_one" by (intro scaled_less) simp
      with 3 r(1,3) show False by linarith
    qed
    ultimately have range: "i64_min \<le> ?t" "?t \<le> i64_max" by (simp_all add: i64_min_def i64_max_def)
    then have conv: "f64_to_i64 w = ?t"
      using keys fin by (simp add: f64_to_i64_def f64_is_infinite_def f64_is_finite_def f64_is_nan_def)
    obtain m k where "nat \<bar>?t\<bar> = m * 2 ^ k" "m < 2 ^ 53" using f64_trunc_bits by blast
    moreover have "nat \<bar>?t\<bar> < 2 ^ 1000"
    proof -
      have "nat \<bar>?t\<bar> \<le> 2 ^ 63" using range by (simp add: i64_min_def i64_max_def)
      also have "(2 :: nat) ^ 63 < 2 ^ 1000" by (rule power_strict_increasing) simp_all
      finally show ?thesis .
    qed
    ultimately have exact: "f64_is_finite (int_to_f64 ?t)" "f64_units (int_to_f64 ?t) = ?t * f64_one"
      using int_to_f64_exact by blast+
    note bkey = f64_finite_key [OF exact(1)]
    have tests: "f64_lt (int_to_f64 ?t) w \<longleftrightarrow> ?t * f64_one < ?u" "f64_lt w (int_to_f64 ?t) \<longleftrightarrow> ?u < ?t * f64_one"
      using keys(1) bkey by (simp_all add: f64_lt_iff ext_less_def exact(2))
    have first: "integer_number_order n w =
        (case cmp_of n ?t of Equal \<Rightarrow> (if ?t * f64_one < ?u then Some Less else if ?u < ?t * f64_one then Some Greater else Some Equal)
          | other \<Rightarrow> Some other)"
      using 3 keys by (simp add: integer_number_order_def high low conv tests Let_def)
    consider "n < ?t" | "n = ?t" | "?t < n" by linarith
    then show ?thesis
    proof cases
      case 1
      with scaled_less [of n ?t] r show ?thesis by (simp add: first cmp_of_def int_units_order_def)
    next
      case 2
      then show ?thesis unfolding first by (auto simp: cmp_of_def int_units_order_def)
    next
      case 3
      with scaled_less [of ?t n] r show ?thesis by (simp add: first cmp_of_def int_units_order_def)
    qed
  qed
qed

lemma integer_number_order_exact:
  assumes "is_i64 n"
  shows "integer_number_order n w =
    (if f64_is_nan w then None else Some (ext_cmp (0, n * f64_one) (f64_key w)))"
proof (cases "f64_is_finite w")
  case True
  then show ?thesis
    using integer_number_order_finite [OF assms True] f64_finite_key [OF True]
    by (auto simp: ext_cmp_def ext_less_def int_units_order_def)
next
  case False
  then have inf: "f64_is_nan w \<or> f64_is_infinite w" by (auto simp: f64_is_finite_def f64_is_nan_def f64_is_infinite_def)
  have "f64_is_infinite w \<Longrightarrow> \<not> f64_is_nan w" by (simp add: f64_is_infinite_def f64_is_nan_def)
  with inf f64_finite_key [OF f64_limits(1)] f64_finite_key [OF f64_limits(3)] show ?thesis
    by (auto simp: integer_number_order_def f64_le_iff f64_lt_iff ext_less_def ext_cmp_def f64_key_def)
qed

fun in_range :: "val \<Rightarrow> bool" where
  "in_range (VInteger n) = is_i64 n"
| "in_range _ = True"

definition key_rel :: "(int \<times> int \<Rightarrow> int \<times> int \<Rightarrow> bool) \<Rightarrow> val \<Rightarrow> val \<Rightarrow> bool" where
  "key_rel rel a b \<longleftrightarrow>
     (case (number_key a, number_key b) of (Some x, Some y) \<Rightarrow> rel x y | _ \<Rightarrow> False)"

fun is_number :: "val \<Rightarrow> bool" where
  "is_number (VNumber _) = True"
| "is_number (VInteger _) = True"
| "is_number _ = False"

lemma f64_eq_iff: "f64_eq a b \<longleftrightarrow> \<not> f64_is_nan a \<and> \<not> f64_is_nan b \<and> f64_key a = f64_key b"
  by (simp add: f64_eq_def f64_partial_cmp_def)

text \<open>
  C29: comparing two numbers, integer or floating point in any combination, is exact: equality,
  less and less-or-equal are those of the two values on the extended line with no rounding of
  either, and all three are false when one is NaN; comparing with anything else is undefined.
\<close>

theorem numeric_comparisons_exact:
  assumes "in_range a" and "in_range b"
  shows "(is_number a \<and> is_number b \<longrightarrow>
      numeric_equal a b = Some (key_rel (=) a b) \<and>
      numeric_less a b = Some (key_rel ext_less a b) \<and>
      numeric_less_equal a b = Some (key_rel (\<lambda>x y. ext_less x y \<or> x = y) a b)) \<and>
    (\<not> (is_number a \<and> is_number b) \<longrightarrow>
      numeric_equal a b = None \<and> numeric_less a b = None \<and> numeric_less_equal a b = None)"
proof -
  note order = integer_number_order_exact
  have int: "ext_less (0, i * f64_one) (0, j * f64_one) \<longleftrightarrow> i < j" "((0 :: int, i * f64_one) = (0, j * f64_one)) \<longleftrightarrow> i = j"
    for i j using f64_one_pos by (simp_all add: ext_less_def scaled_less_iff)
  show ?thesis
    using assms f64_one_pos by (cases a; cases b)
      (auto simp: key_rel_def order f64_eq_iff f64_lt_iff f64_le_iff int)
qed

text \<open>The largest integer is below 2 ^ 63, to which its own conversion rounds.\<close>

theorem numeric_comparisons_exact_witness:
  "numeric_less (VInteger i64_max) (VNumber 0x43E0000000000000) = Some True \<and>
   int_to_f64 i64_max = 0x43E0000000000000"
proof -
  have "f64_exponent 0x43E0000000000000 = 1086" "f64_fraction 0x43E0000000000000 = 0"
    by (simp_all add: f64_exponent_def f64_fraction_def)
  then have k: "f64_is_finite 0x43E0000000000000" "f64_magnitude 0x43E0000000000000 = 2 ^ 52 * 2 ^ 1085"
    by (simp_all only: f64_is_finite_def f64_magnitude_def) simp_all
  have "f64_units 0x43E0000000000000 = 2 ^ 63 * f64_one"
  proof -
    have "(2 :: nat) ^ 52 * 2 ^ 1085 = 2 ^ 63 * f64_scale"
      unfolding f64_scale_def by (simp only: flip: power_add) simp
    then show ?thesis using k by (simp add: f64_units_def f64_negative_def f64_one_def)
  qed
  then have "number_key (VNumber 0x43E0000000000000) = Some (0, 2 ^ 63 * f64_one)"
    using f64_finite_key [OF k(1)] by simp
  moreover have "ext_less (0, i64_max * f64_one) (0, 2 ^ 63 * f64_one)"
    by (simp add: ext_less_def i64_max_def f64_one_pos)
  moreover have "int_to_f64 i64_max = 0x43E0000000000000"
    by (simp add: int_to_f64_def nat_to_f64_bits_def i64_max_def bit_length.simps Let_def)
  ultimately show ?thesis
    using numeric_comparisons_exact [of "VInteger i64_max" "VNumber 0x43E0000000000000"]
    by (simp add: key_rel_def is_i64_def i64_min_def i64_max_def)
qed

end
