(* ===== verification/Runtime_Memory.thy ===== *)
theory Runtime_Memory
  imports Blu_Prelude "HOL-Library.Multiset"
begin

text \<open>
  \<open>blu-runtime/src/memory.rs\<close>: the memory account of the virtual machine. A reservation is a
  charge already made; committing keeps it, dropping it uncommitted takes it back, and
  \<open>commit_replacing\<close> keeps it while releasing the allocation it replaces. The account is shown to
  be a faithful ledger of the charges that are live.

  The size and alignment of a Rust type are arguments; a \<open>u64\<close> counter is a natural number that
  saturates.
\<close>

unbundle bit_operations_syntax

section \<open>Charges\<close>

datatype memory_error =
    LimitExceeded nat nat nat
  | AllocationFailed nat
  | SizeOverflow
  | AccountingUnderflow nat nat

definition checked_vector_bytes :: "nat \<Rightarrow> nat \<Rightarrow> (nat, memory_error) res" where
  "checked_vector_bytes elem capacity = ok_or (checked_mul capacity elem) SizeOverflow"

text \<open>\<open>(value + mask) & !mask\<close>, after the assertion that the alignment is a power of two.\<close>

definition is_power_of_two :: "nat \<Rightarrow> bool" where
  "is_power_of_two n \<longleftrightarrow> n \<noteq> 0 \<and> n AND (n - 1) = 0"

definition checked_align_up :: "nat \<Rightarrow> nat \<Rightarrow> (nat option, memory_error) res" where
  "checked_align_up v alignment =
     (if \<not> is_power_of_two alignment then Panic
      else rbind (plain_sub alignment 1) (\<lambda>m.
        case checked_add v m of
          Some s \<Rightarrow> Ok (Some (s - (s AND m)))
        | None \<Rightarrow> Ok None))"

definition checked_hash_bytes :: "nat \<Rightarrow> nat \<Rightarrow> nat \<Rightarrow> (nat, memory_error) res" where
  "checked_hash_bytes entry alignment capacity =
     rbind (ok_or (checked_add entry 1) SizeOverflow) (\<lambda>bucket.
     rbind (checked_align_up bucket alignment) (\<lambda>aligned.
     rbind (ok_or aligned SizeOverflow) (\<lambda>bucket.
     rbind (ok_or (checked_mul capacity 2) SizeOverflow) (\<lambda>raw_buckets.
     ok_or (checked_mul raw_buckets bucket) SizeOverflow))))"

definition checked_reallocation_peak :: "nat \<Rightarrow> nat \<Rightarrow> (nat, memory_error) res" where
  "checked_reallocation_peak old_bytes new_bytes = ok_or (checked_add old_bytes new_bytes) SizeOverflow"

section \<open>The account\<close>

record memory_config =
  mc_hard_limit_bytes :: "nat option"
  mc_gc_start_bytes :: nat
  mc_gc_growth_percent :: "16 word"
  mc_max_single_allocation_bytes :: nat

definition default_memory_config :: memory_config where
  "default_memory_config =
     \<lparr>mc_hard_limit_bytes = None, mc_gc_start_bytes = 1024 * 1024, mc_gc_growth_percent = 50,
      mc_max_single_allocation_bytes = usize_max\<rparr>"

record memory_account =
  ma_config :: memory_config
  ma_current_bytes :: nat
  ma_peak_bytes :: nat
  ma_next_gc_bytes :: nat
  ma_collections :: nat

record memory_usage =
  mu_current_bytes :: nat
  mu_peak_bytes :: nat
  mu_hard_limit_bytes :: "nat option"
  mu_next_gc_bytes :: nat
  mu_collections :: nat

definition memory_account_new :: "memory_config \<Rightarrow> memory_account" where
  "memory_account_new config =
     \<lparr>ma_config = config, ma_current_bytes = 0, ma_peak_bytes = 0,
      ma_next_gc_bytes =
        (case mc_hard_limit_bytes config of
           None \<Rightarrow> mc_gc_start_bytes config
         | Some limit \<Rightarrow> min (mc_gc_start_bytes config) limit),
      ma_collections = 0\<rparr>"

definition account_usage :: "memory_account \<Rightarrow> memory_usage" where
  "account_usage a =
     \<lparr>mu_current_bytes = ma_current_bytes a, mu_peak_bytes = ma_peak_bytes a,
      mu_hard_limit_bytes = mc_hard_limit_bytes (ma_config a), mu_next_gc_bytes = ma_next_gc_bytes a,
      mu_collections = ma_collections a\<rparr>"

definition should_collect :: "memory_account \<Rightarrow> nat \<Rightarrow> bool" where
  "should_collect a requested =
     (case checked_add (ma_current_bytes a) requested of
        Some required \<Rightarrow> ma_next_gc_bytes a < required
      | None \<Rightarrow> True)"

text \<open>A reservation is its size; the account it borrows is the state.\<close>

definition account_reserve :: "memory_account \<Rightarrow> nat \<Rightarrow> (memory_account, memory_error) res" where
  "account_reserve a bytes =
     (if mc_max_single_allocation_bytes (ma_config a) < bytes
      then Err (LimitExceeded bytes (ma_current_bytes a) (mc_max_single_allocation_bytes (ma_config a)))
      else rbind (ok_or (checked_add (ma_current_bytes a) bytes) SizeOverflow) (\<lambda>required.
        case mc_hard_limit_bytes (ma_config a) of
          Some limit \<Rightarrow>
            (if limit < required then Err (LimitExceeded bytes (ma_current_bytes a) limit)
             else Ok (a\<lparr>ma_current_bytes := required, ma_peak_bytes := max (ma_peak_bytes a) required\<rparr>))
        | None \<Rightarrow> Ok (a\<lparr>ma_current_bytes := required, ma_peak_bytes := max (ma_peak_bytes a) required\<rparr>)))"

definition account_release :: "memory_account \<Rightarrow> nat \<Rightarrow> (memory_account, memory_error) res" where
  "account_release a bytes =
     rbind (ok_or (checked_sub (ma_current_bytes a) bytes) (AccountingUnderflow bytes (ma_current_bytes a)))
       (\<lambda>rest. Ok (a\<lparr>ma_current_bytes := rest\<rparr>))"

text \<open>Dropping a reservation that was not committed, and committing one.\<close>

definition reservation_drop :: "memory_account \<Rightarrow> nat \<Rightarrow> (memory_account, memory_error) res" where
  "reservation_drop a bytes =
     rbind (plain_sub (ma_current_bytes a) bytes) (\<lambda>rest. Ok (a\<lparr>ma_current_bytes := rest\<rparr>))"

definition reservation_commit :: "memory_account \<Rightarrow> nat \<Rightarrow> memory_account" where
  "reservation_commit a bytes = a"

text \<open>\<open>commit_replacing\<close> ends the reservation either way: on an error it is dropped.\<close>

definition commit_replacing ::
  "memory_account \<Rightarrow> nat \<Rightarrow> nat \<Rightarrow> (memory_account \<times> (unit, memory_error) res, memory_error) res" where
  "commit_replacing a bytes replaced =
     (case checked_sub (ma_current_bytes a) bytes of
        None \<Rightarrow> rbind (reservation_drop a bytes) (\<lambda>a'.
          Ok (a', Err (AccountingUnderflow bytes (ma_current_bytes a))))
      | Some used_before \<Rightarrow>
          (if used_before < replaced
           then rbind (reservation_drop a bytes) (\<lambda>a'. Ok (a', Err (AccountingUnderflow replaced used_before)))
           else rbind (plain_sub (ma_current_bytes a) replaced) (\<lambda>rest.
             Ok (a\<lparr>ma_current_bytes := rest\<rparr>, Ok ()))))"

definition finish_collection :: "memory_account \<Rightarrow> memory_account" where
  "finish_collection a =
     (let proportional_growth =
            saturating_mul (ma_current_bytes a) (unat (mc_gc_growth_percent (ma_config a))) div 100;
          growth = max proportional_growth (mc_gc_start_bytes (ma_config a));
          threshold = saturating_add (ma_current_bytes a) growth
      in a\<lparr>ma_collections := min (ma_collections a + 1) (2 ^ 64 - 1),
           ma_next_gc_bytes :=
             (case mc_hard_limit_bytes (ma_config a) of
                None \<Rightarrow> threshold
              | Some limit \<Rightarrow> min threshold limit)\<rparr>)"

section \<open>Simple facts\<close>

lemma checked_vector_bytes_simps [res_simps]:
  "checked_vector_bytes s c = Ok n \<longleftrightarrow> n = c * s \<and> c * s \<le> usize_max"
  "checked_vector_bytes s c = Panic \<longleftrightarrow> False"
  "checked_vector_bytes s c = Err e \<longleftrightarrow> usize_max < c * s \<and> e = SizeOverflow"
  by (auto simp: checked_vector_bytes_def res_simps usize_simps)

definition charge_fits :: "memory_account \<Rightarrow> nat \<Rightarrow> bool" where
  "charge_fits a bytes \<longleftrightarrow>
     bytes \<le> mc_max_single_allocation_bytes (ma_config a) \<and> ma_current_bytes a + bytes \<le> usize_max \<and>
     (case mc_hard_limit_bytes (ma_config a) of None \<Rightarrow> True | Some l \<Rightarrow> ma_current_bytes a + bytes \<le> l)"

definition charge :: "memory_account \<Rightarrow> nat \<Rightarrow> memory_account" where
  "charge a bytes = a\<lparr>ma_current_bytes := ma_current_bytes a + bytes,
     ma_peak_bytes := max (ma_peak_bytes a) (ma_current_bytes a + bytes)\<rparr>"

lemma account_reserve_simps [res_simps]:
  "account_reserve a n = Ok a' \<longleftrightarrow> charge_fits a n \<and> a' = charge a n"
  "account_reserve a n = Panic \<longleftrightarrow> False"
  by (auto simp: account_reserve_def charge_fits_def charge_def res_simps usize_simps split: option.splits)

lemma account_release_simps [res_simps]:
  "account_release a n = Ok a' \<longleftrightarrow> n \<le> ma_current_bytes a \<and> a' = a\<lparr>ma_current_bytes := ma_current_bytes a - n\<rparr>"
  "account_release a n = Panic \<longleftrightarrow> False"
  by (auto simp: account_release_def checked_sub_def)

lemma reservation_drop_charge [simp]:
  "reservation_drop (charge a n) n = Ok (a\<lparr>ma_peak_bytes := max (ma_peak_bytes a) (ma_current_bytes a + n)\<rparr>)"
  by (simp add: reservation_drop_def charge_def plain_sub_def)

lemma commit_replacing_charge:
  "commit_replacing (charge a n) n old =
     (if ma_current_bytes a < old
      then Ok (a\<lparr>ma_peak_bytes := max (ma_peak_bytes a) (ma_current_bytes a + n)\<rparr>,
               Err (AccountingUnderflow old (ma_current_bytes a)))
      else Ok ((charge a n)\<lparr>ma_current_bytes := ma_current_bytes a + n - old\<rparr>, Ok ()))"
  by (auto simp: commit_replacing_def usize_simps checked_sub_def)
    (simp_all add: charge_def plain_sub_def)

section \<open>The ledger\<close>

text \<open>
  Uses of an account that keep Rust's rules: a reservation is committed, dropped, or committed in
  place of a live charge, and only live charges are released. The multiset holds the live charges.
\<close>

inductive ledger :: "memory_config \<Rightarrow> memory_account \<Rightarrow> nat multiset \<Rightarrow> bool" for config where
  ledger_new: "ledger config (memory_account_new config) {#}"
| ledger_commit: "ledger config a L \<Longrightarrow> account_reserve a n = Ok a' \<Longrightarrow>
    ledger config (reservation_commit a' n) (add_mset n L)"
| ledger_drop: "ledger config a L \<Longrightarrow> account_reserve a n = Ok a' \<Longrightarrow> reservation_drop a' n = Ok a'' \<Longrightarrow>
    ledger config a'' L"
| ledger_replace: "ledger config a L \<Longrightarrow> old \<in># L \<Longrightarrow> account_reserve a n = Ok a' \<Longrightarrow>
    commit_replacing a' n old = Ok (a'', r) \<Longrightarrow> ledger config a'' (add_mset n (L - {#old#}))"
| ledger_release: "ledger config a L \<Longrightarrow> n \<in># L \<Longrightarrow> account_release a n = Ok a' \<Longrightarrow> ledger config a' (L - {#n#})"
| ledger_collect: "ledger config a L \<Longrightarrow> ledger config (finish_collection a) L"

definition account_sound :: "memory_config \<Rightarrow> memory_account \<Rightarrow> nat multiset \<Rightarrow> bool" where
  "account_sound config a L \<longleftrightarrow>
     ma_config a = config \<and> ma_current_bytes a = sum_mset L \<and> ma_current_bytes a \<le> ma_peak_bytes a \<and>
     ma_peak_bytes a \<le> usize_max \<and>
     (\<forall>limit. mc_hard_limit_bytes config = Some limit \<longrightarrow>
        ma_peak_bytes a \<le> limit \<and> ma_next_gc_bytes a \<le> limit)"

lemma account_sound_charge:
  "account_sound config a L \<Longrightarrow> charge_fits a n \<Longrightarrow> account_sound config (charge a n) (add_mset n L)"
  by (auto simp: account_sound_def charge_fits_def charge_def)

lemma sum_mset_remove: "n \<in># L \<Longrightarrow> sum_mset (L - {#n#}) = sum_mset L - (n :: nat) \<and> n \<le> sum_mset L"
  by (drule multi_member_split) auto

lemma account_sound_replace:
  assumes "account_sound config a L" and "old \<in># L" and "charge_fits a n"
    and "commit_replacing (charge a n) n old = Ok (a', r)"
  shows "account_sound config a' (add_mset n (L - {#old#})) \<and> r = Ok ()"
proof -
  note old = sum_mset_remove [OF assms(2)]
  have "a' = (charge a n)\<lparr>ma_current_bytes := ma_current_bytes a + n - old\<rparr>" "r = Ok ()"
    using assms(1,4) old by (auto simp: commit_replacing_charge account_sound_def split: if_splits)
  then show ?thesis
    using assms(1,3) old by (auto simp: account_sound_def charge_def charge_fits_def)
qed

lemma account_sound_finish: "account_sound config a L \<Longrightarrow> account_sound config (finish_collection a) L"
  by (auto simp: account_sound_def finish_collection_def Let_def)

lemma ledger_sound: "ledger config a L \<Longrightarrow> account_sound config a L"
proof (induction rule: ledger.induct)
  case ledger_new
  then show ?case by (auto simp: account_sound_def memory_account_new_def)
next
  case (ledger_commit a L n a')
  then show ?case by (simp add: res_simps account_sound_charge reservation_commit_def)
next
  case (ledger_drop a L n a' a'')
  then show ?case by (auto simp: res_simps account_sound_def charge_fits_def)
next
  case (ledger_replace a L old n a' a'' r)
  then show ?case using account_sound_replace by (auto simp: res_simps)
next
  case (ledger_release a L n a')
  then show ?case using sum_mset_remove [OF ledger_release(2)] by (auto simp: res_simps account_sound_def)
next
  case (ledger_collect a L)
  show ?case by (rule account_sound_finish [OF ledger_collect.IH])
qed

text \<open>
  C28: however reservations are committed, dropped, replaced and released, the account holds
  exactly the sum of the live charges, never exceeds the hard limit or a \<open>usize\<close>, can release
  every live charge, and ending a reservation never fails or underflows.
\<close>

theorem account_is_ledger:
  assumes "ledger config a L"
  shows "account_sound config a L \<and>
    (\<forall>n. n \<in># L \<longrightarrow> account_release a n = Ok (a\<lparr>ma_current_bytes := sum_mset (L - {#n#})\<rparr>)) \<and>
    (\<forall>n a'. account_reserve a n = Ok a' \<longrightarrow> (\<exists>a''. reservation_drop a' n = Ok a'') \<and>
       (\<forall>old. old \<in># L \<longrightarrow> (\<exists>a''. commit_replacing a' n old = Ok (a'', Ok ()))))"
proof (intro conjI allI impI)
  note s = ledger_sound [OF assms]
  then show "account_sound config a L" .
  show "account_release a n = Ok (a\<lparr>ma_current_bytes := sum_mset (L - {#n#})\<rparr>)" if "n \<in># L" for n
    using s sum_mset_remove [OF that] by (simp add: res_simps account_sound_def)
  show "\<exists>a''. reservation_drop a' n = Ok a''" if "account_reserve a n = Ok a'" for n a'
    using that by (auto simp: res_simps)
  show "\<exists>a''. commit_replacing a' n old = Ok (a'', Ok ())" if "account_reserve a n = Ok a'" "old \<in># L" for n a' old
    using that s sum_mset_remove [OF that(2)]
    by (auto simp: res_simps commit_replacing_charge account_sound_def)
qed

text \<open>A small account after a committed and a replaced reservation.\<close>

definition small_config :: memory_config where
  "small_config = \<lparr>mc_hard_limit_bytes = Some 100, mc_gc_start_bytes = 64, mc_gc_growth_percent = 50,
     mc_max_single_allocation_bytes = 80\<rparr>"

lemma small_ledger: "ledger small_config (charge (memory_account_new small_config) 40) {#40#}"
proof -
  have "account_reserve (memory_account_new small_config) 40 = Ok (charge (memory_account_new small_config) 40)"
    by (simp add: res_simps charge_fits_def memory_account_new_def small_config_def usize_max_def)
  from ledger_commit [OF ledger_new this] show ?thesis by (simp add: reservation_commit_def)
qed

theorem account_is_ledger_witness:
  "account_sound small_config (charge (memory_account_new small_config) 40) {#40#} \<and>
   ma_current_bytes (charge (memory_account_new small_config) 40) = 40"
  using account_is_ledger [OF small_ledger] by (simp add: account_sound_def)

text \<open>
  a reservation that is refused changes nothing, and is refused exactly when it exceeds the
  single-allocation limit, a \<open>usize\<close> or the hard limit; after a collection the next one is not
  requested before the account has grown by the start size or stands at its hard limit.
\<close>

theorem reserve_and_threshold:
  "((\<exists>a'. account_reserve a n = Ok a') \<longleftrightarrow> charge_fits a n) \<and>
    (charge_fits a n \<and> n \<le> mc_gc_start_bytes (ma_config a) \<longrightarrow> \<not> should_collect (finish_collection a) n)"
proof
  show "(\<exists>a'. account_reserve a n = Ok a') \<longleftrightarrow> charge_fits a n" by (simp add: res_simps)
  show "charge_fits a n \<and> n \<le> mc_gc_start_bytes (ma_config a) \<longrightarrow> \<not> should_collect (finish_collection a) n"
    by (auto simp: should_collect_def finish_collection_def Let_def charge_fits_def checked_add_def
        saturating_add_def split: option.splits)
qed

theorem reserve_and_threshold_witness:
  "\<not> should_collect (finish_collection (charge (memory_account_new small_config) 40)) 50"
  using reserve_and_threshold [of "charge (memory_account_new small_config) 40" 50]
  by (simp add: charge_fits_def charge_def memory_account_new_def small_config_def usize_max_def)

end
