(* ===== verification/Runtime_Table.thy ===== *)
theory Runtime_Table
  imports Runtime_Value Runtime_Memory Core_Span
begin

text \<open>
  Tables of \<open>blu-runtime/src/heap.rs\<close>: keys, the array and hash parts, reading and writing.
  A \<open>HashMap\<close> is an association list with distinct keys: an insertion replaces in place or
  appends, iteration follows the list. A \<open>&mut\<close> table and the account it charges are threaded
  explicitly and returned on errors too, so that what a failed call leaves behind is visible.

  \<open>env\<close> holds what the platform decides: the sizes of the element types, whether the allocator
  grants a request, and how much room a growing vector ends up with beyond what was asked.
\<close>

section \<open>Errors and the platform\<close>

datatype heap_error =
    HeMemory memory_error
  | StaleTable table_id
  | StaleClosure closure_id
  | ClosureFormat closure_id string
  | StaleUpvalue upvalue_id
  | StaleThread thread_id
  | StaleUserData userdata_id
  | NilKey
  | NanKey
  | InvalidIterationKey
  | FrozenTable
  | AlreadyFrozen

record platform =
  env_grants :: "nat \<Rightarrow> bool"
  env_spare :: "nat \<Rightarrow> nat"
  sz_value :: nat
  sz_key :: nat
  sz_upvalue :: nat
  sz_slot :: nat
  sz_key_value :: nat
  al_key_value :: nat
  sz_key_usize :: nat
  al_key_usize :: nat

definition he :: "('a, memory_error) res \<Rightarrow> ('a, heap_error) res" where
  "he = map_err HeMemory"

definition try_reserve_bytes :: "platform \<Rightarrow> (nat, memory_error) res \<Rightarrow> (unit, heap_error) res" where
  "try_reserve_bytes env requested =
     rbind (he requested) (\<lambda>n. ensure (env_grants env n) (HeMemory (AllocationFailed n)))"

text \<open>\<open>try_reserve_vec_exact\<close>, \<open>try_reserve_vec_to\<close> and their hash-table forms.\<close>

definition try_reserve_vec_exact :: "platform \<Rightarrow> nat \<Rightarrow> nat \<Rightarrow> nat \<Rightarrow> (unit, heap_error) res" where
  "try_reserve_vec_exact env elem len additional =
     rbind (ok_or (checked_add len additional) (HeMemory SizeOverflow)) (\<lambda>required.
     try_reserve_bytes env (checked_vector_bytes elem required))"

definition try_reserve_vec_to :: "platform \<Rightarrow> nat \<Rightarrow> nat \<Rightarrow> (unit, heap_error) res" where
  "try_reserve_vec_to env elem capacity = try_reserve_bytes env (checked_vector_bytes elem capacity)"

definition try_reserve_hash :: "platform \<Rightarrow> nat \<Rightarrow> nat \<Rightarrow> nat \<Rightarrow> nat \<Rightarrow> (unit, heap_error) res" where
  "try_reserve_hash env entry alignment len additional =
     rbind (ok_or (checked_add len additional) (HeMemory SizeOverflow)) (\<lambda>required.
     try_reserve_bytes env (checked_hash_bytes entry alignment required))"

definition try_reserve_hash_to :: "platform \<Rightarrow> nat \<Rightarrow> nat \<Rightarrow> nat \<Rightarrow> (unit, heap_error) res" where
  "try_reserve_hash_to env entry alignment capacity =
     try_reserve_bytes env (checked_hash_bytes entry alignment capacity)"

definition mem_add :: "nat \<Rightarrow> nat \<Rightarrow> (nat, memory_error) res" where
  "mem_add left right = ok_or (checked_add left right) SizeOverflow"

text \<open>
  A charge around fallible work: \<open>let reservation = memory.reserve(new)?; work?;
  reservation.commit_replacing(old)?\<close>. When the work fails the reservation is dropped.
\<close>

definition reserving ::
  "memory_account \<Rightarrow> nat \<Rightarrow> (unit, heap_error) res \<Rightarrow> nat \<Rightarrow> (unit, heap_error) res \<times> memory_account" where
  "reserving m new_bytes work old_bytes =
     (case account_reserve m new_bytes of
        Err e \<Rightarrow> (Err (HeMemory e), m)
      | Panic \<Rightarrow> (Panic, m)
      | Ok m1 \<Rightarrow>
          (case work of
             Ok _ \<Rightarrow>
               (case commit_replacing m1 new_bytes old_bytes of
                  Ok (m2, r) \<Rightarrow> (he r, m2)
                | Err e \<Rightarrow> (Err (HeMemory e), m1)
                | Panic \<Rightarrow> (Panic, m1))
           | Err e \<Rightarrow>
               (case reservation_drop m1 new_bytes of
                  Ok m2 \<Rightarrow> (Err e, m2)
                | Err e' \<Rightarrow> (Err (HeMemory e'), m1)
                | Panic \<Rightarrow> (Panic, m1))
           | Panic \<Rightarrow> (Panic, m1)))"

section \<open>Keys\<close>

datatype key =
    KBoolean bool
  | KInteger int
  | KNumber f64
  | KString bytes
  | KTable table_id
  | KClosure closure_id
  | KThread thread_id
  | KCoroutineFunction thread_id
  | KLightUserData upvalue_id
  | KUserData userdata_id
  | KNativeFunction native_function_id

fun key_from_value :: "val \<Rightarrow> (key, heap_error) res" where
  "key_from_value VNil = Err NilKey"
| "key_from_value (VBoolean b) = Ok (KBoolean b)"
| "key_from_value (VInteger n) = Ok (KInteger n)"
| "key_from_value (VNumber x) =
     (if f64_is_nan x then Err NanKey
      else if f64_fract_is_zero x \<and> f64_le (int_to_f64 i64_min) x \<and> f64_le x (int_to_f64 i64_max)
      then Ok (KInteger (f64_to_i64 x))
      else Ok (KNumber (if f64_eq x 0 then 0 else x)))"
| "key_from_value (VString s) = Ok (KString s)"
| "key_from_value (VTable i) = Ok (KTable i)"
| "key_from_value (VClosure i) = Ok (KClosure i)"
| "key_from_value (VThread i) = Ok (KThread i)"
| "key_from_value (VCoroutineFunction i) = Ok (KCoroutineFunction i)"
| "key_from_value (VLightUserData i) = Ok (KLightUserData i)"
| "key_from_value (VUserData i) = Ok (KUserData i)"
| "key_from_value (VNativeFunction i) = Ok (KNativeFunction i)"

fun key_to_value :: "key \<Rightarrow> val" where
  "key_to_value (KBoolean b) = VBoolean b"
| "key_to_value (KInteger n) = VInteger n"
| "key_to_value (KNumber x) = VNumber x"
| "key_to_value (KString s) = VString s"
| "key_to_value (KTable i) = VTable i"
| "key_to_value (KClosure i) = VClosure i"
| "key_to_value (KThread i) = VThread i"
| "key_to_value (KCoroutineFunction i) = VCoroutineFunction i"
| "key_to_value (KLightUserData i) = VLightUserData i"
| "key_to_value (KUserData i) = VUserData i"
| "key_to_value (KNativeFunction i) = VNativeFunction i"

fun key_array_index :: "key \<Rightarrow> nat option" where
  "key_array_index (KInteger n) = (if 0 < n then Some (nat n) else None)"
| "key_array_index _ = None"

fun key_contains_heap_reference :: "key \<Rightarrow> bool" where
  "key_contains_heap_reference (KTable _) = True"
| "key_contains_heap_reference (KClosure _) = True"
| "key_contains_heap_reference (KThread _) = True"
| "key_contains_heap_reference (KCoroutineFunction _) = True"
| "key_contains_heap_reference (KUserData _) = True"
| "key_contains_heap_reference _ = False"

fun key_is_numeric :: "key \<Rightarrow> bool" where
  "key_is_numeric (KInteger _) = True"
| "key_is_numeric (KNumber _) = True"
| "key_is_numeric _ = False"

section \<open>Hash maps\<close>

type_synonym ('k, 'v) hash_map = "('k \<times> 'v) list"

fun hm_insert :: "'k \<Rightarrow> 'v \<Rightarrow> ('k, 'v) hash_map \<Rightarrow> ('k, 'v) hash_map" where
  "hm_insert k v [] = [(k, v)]"
| "hm_insert k v ((k', v') # h) = (if k = k' then (k, v) # h else (k', v') # hm_insert k v h)"

definition hm_remove :: "'k \<Rightarrow> ('k, 'v) hash_map \<Rightarrow> ('k, 'v) hash_map" where
  "hm_remove k h = filter (\<lambda>p. fst p \<noteq> k) h"

definition hm_contains :: "'k \<Rightarrow> ('k, 'v) hash_map \<Rightarrow> bool" where
  "hm_contains k h \<longleftrightarrow> k \<in> fst ` set h"

lemma map_of_hm_insert [simp]: "map_of (hm_insert k v h) = (map_of h)(k \<mapsto> v)"
  by (induction h) (auto simp: fun_eq_iff)

lemma map_of_hm_remove [simp]: "map_of (hm_remove k h) = (map_of h)(k := None)"
  by (induction h) (auto simp: hm_remove_def fun_eq_iff)

lemma hm_contains_iff: "hm_contains k h \<longleftrightarrow> map_of h k \<noteq> None"
  by (simp add: hm_contains_def map_of_eq_None_iff)

lemma keys_hm_insert: "fst ` set (hm_insert k v h) = insert k (fst ` set h)"
  by (induction k v h rule: hm_insert.induct) (simp_all add: insert_commute)

lemma distinct_hm_insert: "distinct (map fst h) \<Longrightarrow> distinct (map fst (hm_insert k v h))"
proof (induction h)
  case Nil
  then show ?case by simp
next
  case (Cons p h)
  then show ?case by (cases p) (simp add: keys_hm_insert)
qed

lemma distinct_hm_remove: "distinct (map fst h) \<Longrightarrow> distinct (map fst (hm_remove k h))"
  by (simp add: hm_remove_def distinct_map_filter)

section \<open>Tables\<close>

datatype hash_iteration_order = Unordered | Insertion | LuauOrder

record table =
  tb_array :: "val list"
  tb_array_room :: nat
  tb_array_capacity :: nat
  tb_legacy_array_capacity :: nat
  tb_tracks_legacy_array_layout :: bool
  tb_preallocated_array_boundary :: bool
  tb_nil_write_boundary :: bool
  tb_array_contains_heap_reference :: bool
  tb_hash_contains_heap_key :: bool
  tb_hash_contains_heap_value :: bool
  tb_preserve_hash_order :: bool
  tb_hash_iteration_order :: hash_iteration_order
  tb_hash_order_enabled :: bool
  tb_hash :: "(key, val) hash_map"
  tb_hash_capacity :: nat
  tb_hash_tombstones :: nat
  tb_hash_order :: "key list"
  tb_hash_order_capacity :: nat
  tb_hash_order_positions :: "(key, nat) hash_map"
  tb_mutation :: "64 word"
  tb_metatable :: "table_id option"
  tb_finalizer_armed :: bool
  tb_finalizer_done :: bool
  tb_finalizer_profile :: "semantic_profile option"
  tb_finalizer_order :: "64 word"
  tb_frozen :: bool

end
