(* ===== verification/Runtime_Table_Ops.thy ===== *)
theory Runtime_Table_Ops
  imports Runtime_Table
begin

text \<open>
  The operations of \<open>Table\<close> in \<open>blu-runtime/src/heap.rs\<close>: growth of the two parts under the
  memory account, reading, writing, promotion of hash entries to the array, tombstones, the
  order in which keys are visited, and the length boundaries.
\<close>

type_synonym tres = "(unit, heap_error) res \<times> table \<times> memory_account"

fun then_t :: "tres \<Rightarrow> (table \<Rightarrow> memory_account \<Rightarrow> tres) \<Rightarrow> tres" where
  "then_t (Ok u, t, m) f = f t m"
| "then_t (Err e, t, m) f = (Err e, t, m)"
| "then_t (Panic, t, m) f = (Panic, t, m)"

fun need :: "('a, heap_error) res \<Rightarrow> table \<Rightarrow> memory_account \<Rightarrow> ('a \<Rightarrow> tres) \<Rightarrow> tres" where
  "need (Ok x) t m f = f x"
| "need (Err e) t m f = (Err e, t, m)"
| "need Panic t m f = (Panic, t, m)"

abbreviation overflow :: heap_error where "overflow \<equiv> HeMemory SizeOverflow"

section \<open>Reading\<close>

definition tb_get :: "table \<Rightarrow> key \<Rightarrow> val option" where
  "tb_get t k =
     (case key_array_index k of
        Some index \<Rightarrow>
          (if index \<le> length (tb_array t) then get (tb_array t) (index - 1) else map_of (tb_hash t) k)
      | None \<Rightarrow> map_of (tb_hash t) k)"

section \<open>Iteration order and the hash part\<close>

definition HASH_ITERATION_ORDER_THRESHOLD :: nat where "HASH_ITERATION_ORDER_THRESHOLD = 1024"

definition rebuild_hash_order :: "table \<Rightarrow> table" where
  "rebuild_hash_order t =
     t\<lparr>tb_hash_order_positions :=
         fold (\<lambda>(position, k) h. hm_insert k position h) (enumerate 0 (tb_hash_order t)) []\<rparr>"

definition push_hash_order_key :: "key \<Rightarrow> table \<Rightarrow> table" where
  "push_hash_order_key k t =
     (if hm_contains k (tb_hash_order_positions t) then t
      else rebuild_hash_order (t\<lparr>tb_hash_order := tb_hash_order t @ [k]\<rparr>))"

definition retain_live :: "(key, val) hash_map \<Rightarrow> (key, val) hash_map" where
  "retain_live h = filter (\<lambda>p. snd p \<noteq> VNil) h"

definition compact_hash :: "table \<Rightarrow> table" where
  "compact_hash t =
     (if tb_hash_tombstones t = 0 then t
      else
        let t = t\<lparr>tb_hash := retain_live (tb_hash t)\<rparr>;
            t = (if tb_hash_iteration_order t = Unordered \<and> tb_hash_order_capacity t \<noteq> 0
                 then rebuild_hash_order
                        (t\<lparr>tb_hash_order := filter (\<lambda>k. hm_contains k (tb_hash t)) (tb_hash_order t)\<rparr>)
                 else t)
        in t\<lparr>tb_hash_tombstones := 0\<rparr>)"

definition remove_hash_entry :: "key \<Rightarrow> table \<Rightarrow> val option \<times> table" where
  "remove_hash_entry k t =
     (let v = map_of (tb_hash t) k;
          t = t\<lparr>tb_hash := hm_remove k (tb_hash t)\<rparr>;
          t = (if v = Some VNil then t\<lparr>tb_hash_tombstones := saturating_sub (tb_hash_tombstones t) 1\<rparr> else t)
      in (v, t))"

text \<open>What the hash part with its order is charged.\<close>

definition hash_part_bytes :: "platform \<Rightarrow> nat \<Rightarrow> nat \<Rightarrow> (nat, memory_error) res" where
  "hash_part_bytes env hash_capacity order_capacity =
     rbind (checked_hash_bytes (sz_key_value env) (al_key_value env) hash_capacity) (\<lambda>a.
     rbind (checked_vector_bytes (sz_key env) order_capacity) (\<lambda>b.
     rbind (checked_hash_bytes (sz_key_usize env) (al_key_usize env) order_capacity) (\<lambda>c.
     rbind (mem_add b c) (\<lambda>d. mem_add a d))))"

definition grown_order_capacity :: "table \<Rightarrow> nat \<Rightarrow> bool \<Rightarrow> nat" where
  "grown_order_capacity t required track =
     (if track \<or> tb_hash_order_enabled t \<or> tb_hash_order_capacity t \<noteq> 0 \<or>
         HASH_ITERATION_ORDER_THRESHOLD \<le> required
      then max (tb_hash_order_capacity t) required else 0)"

definition try_reserve_hash_part :: "platform \<Rightarrow> nat \<Rightarrow> nat \<Rightarrow> (unit, heap_error) res" where
  "try_reserve_hash_part env hash_capacity order_capacity =
     rbind (try_reserve_hash_to env (sz_key_value env) (al_key_value env) hash_capacity) (\<lambda>_.
     rbind (try_reserve_vec_to env (sz_key env) order_capacity) (\<lambda>_.
     try_reserve_hash_to env (sz_key_usize env) (al_key_usize env) order_capacity))"

text \<open>When the order is first kept, the keys already there come first, as the map lists them.\<close>

definition start_hash_order :: "nat \<Rightarrow> table \<Rightarrow> table" where
  "start_hash_order order_capacity t =
     (if tb_hash_order_capacity t = 0 \<and> order_capacity \<noteq> 0
      then fold (\<lambda>k t. t\<lparr>tb_hash_order := tb_hash_order t @ [k],
                        tb_hash_order_positions :=
                          hm_insert k (length (tb_hash_order t)) (tb_hash_order_positions t)\<rparr>)
             (map fst (tb_hash t)) t
      else t)"

definition grow_hash :: "platform \<Rightarrow> nat \<Rightarrow> table \<Rightarrow> memory_account \<Rightarrow> tres" where
  "grow_hash env required t m =
     (let hash_capacity = max (tb_hash_capacity t) required;
          order_capacity = grown_order_capacity t required False in
      if hash_capacity = tb_hash_capacity t \<and> order_capacity = tb_hash_order_capacity t then (Ok (), t, m)
      else need (he (hash_part_bytes env (tb_hash_capacity t) (tb_hash_order_capacity t))) t m (\<lambda>old_bytes.
           need (he (hash_part_bytes env hash_capacity order_capacity)) t m (\<lambda>new_bytes.
             let work = try_reserve_hash_part env hash_capacity order_capacity;
                 (r, m') = reserving m new_bytes work old_bytes;
                 reached = (is_ok (account_reserve m new_bytes) \<and> is_ok work);
                 t' = (if reached then start_hash_order order_capacity t else t)
             in case r of
                  Ok _ \<Rightarrow> (Ok (), rebuild_hash_order
                             (t'\<lparr>tb_hash_capacity := hash_capacity, tb_hash_order_capacity := order_capacity\<rparr>), m')
                | Err e \<Rightarrow> (Err e, t', m')
                | Panic \<Rightarrow> (Panic, t', m'))))"

definition hash_growth_bytes :: "platform \<Rightarrow> table \<Rightarrow> nat \<Rightarrow> bool \<Rightarrow> (nat, heap_error) res" where
  "hash_growth_bytes env t required track_hash_order =
     (let hash_capacity = max (tb_hash_capacity t) required;
          order_capacity = grown_order_capacity t required track_hash_order in
      rbind (he (hash_part_bytes env (tb_hash_capacity t) (tb_hash_order_capacity t))) (\<lambda>old_bytes.
      rbind (he (hash_part_bytes env hash_capacity order_capacity)) (\<lambda>new_bytes.
      Ok (saturating_sub new_bytes old_bytes))))"

definition trim_hash :: "platform \<Rightarrow> table \<Rightarrow> (nat, memory_error) res \<times> table" where
  "trim_hash env t =
     (case hash_part_bytes env (tb_hash_capacity t) (tb_hash_order_capacity t) of
        Err e \<Rightarrow> (Err e, t)
      | Panic \<Rightarrow> (Panic, t)
      | Ok old_bytes \<Rightarrow>
          let h = retain_live (tb_hash t);
              t = t\<lparr>tb_hash := h, tb_hash_tombstones := 0, tb_hash_capacity := length h\<rparr>;
              t = (if tb_hash_order_capacity t \<noteq> 0
                   then let order = filter (\<lambda>k. hm_contains k h) (tb_hash_order t)
                        in rebuild_hash_order (t\<lparr>tb_hash_order := order, tb_hash_order_capacity := length order\<rparr>)
                   else t)
          in (rbind (hash_part_bytes env (tb_hash_capacity t) (tb_hash_order_capacity t)) (\<lambda>new_bytes.
                Ok (saturating_sub old_bytes new_bytes)), t))"

section \<open>The array part\<close>

definition grow_array :: "platform \<Rightarrow> nat \<Rightarrow> table \<Rightarrow> memory_account \<Rightarrow> tres" where
  "grow_array env required t m =
     (if required \<le> tb_array_capacity t then (Ok (), t, m)
      else if required \<le> tb_array_room t then
        need (he (checked_vector_bytes (sz_value env) (tb_array_capacity t))) t m (\<lambda>old_bytes.
        need (he (checked_vector_bytes (sz_value env) required)) t m (\<lambda>new_bytes.
          let additional_bytes = saturating_sub new_bytes old_bytes in
          if additional_bytes \<noteq> 0 then
            (case account_reserve m additional_bytes of
               Ok m' \<Rightarrow> (Ok (), t\<lparr>tb_array_capacity := required\<rparr>, reservation_commit m' additional_bytes)
             | Err e \<Rightarrow> (Err (HeMemory e), t, m)
             | Panic \<Rightarrow> (Panic, t, m))
          else (Ok (), t\<lparr>tb_array_capacity := required\<rparr>, m)))
      else
        need (he (checked_vector_bytes (sz_value env) (tb_array_capacity t))) t m (\<lambda>old_bytes.
        need (he (checked_vector_bytes (sz_value env) required)) t m (\<lambda>new_bytes.
          let work = try_reserve_vec_to env (sz_value env) required;
              (r, m') = reserving m new_bytes work old_bytes;
              reached = (is_ok (account_reserve m new_bytes) \<and> is_ok work);
              t' = (if reached then t\<lparr>tb_array_room := required + env_spare env required\<rparr> else t)
          in case r of
               Ok _ \<Rightarrow> (Ok (), t'\<lparr>tb_array_capacity := required\<rparr>, m')
             | Err e \<Rightarrow> (Err e, t', m')
             | Panic \<Rightarrow> (Panic, t', m'))))"

definition hash_integer :: "nat \<Rightarrow> (key, heap_error) res" where
  "hash_integer n = (if int n \<le> i64_max then Ok (KInteger (int n)) else Err overflow)"

fun present_integer :: "(key, val) hash_map \<Rightarrow> nat \<Rightarrow> bool" where
  "present_integer h n = (case map_of h (KInteger (int n)) of None \<Rightarrow> False | Some v \<Rightarrow> v \<noteq> VNil)"

text \<open>The integer keys of a map from \<open>n\<close> on: what the search for a contiguous run consumes.\<close>

fun integer_ge :: "nat \<Rightarrow> key \<Rightarrow> bool" where
  "integer_ge n (KInteger i) = (int n \<le> i)"
| "integer_ge n _ = False"

definition integers_from :: "(key, val) hash_map \<Rightarrow> nat \<Rightarrow> key list" where
  "integers_from h n = filter (integer_ge n) (map fst h)"

lemma filter_length_less:
  "x \<in> set xs \<Longrightarrow> P x \<Longrightarrow> \<not> Q x \<Longrightarrow> (\<And>y. Q y \<Longrightarrow> P y) \<Longrightarrow> length (filter Q xs) < length (filter P xs)"
proof (induction xs)
  case Nil
  then show ?case by simp
next
  case (Cons y ys)
  have "length (filter Q ys) \<le> length (filter P ys)" using Cons.prems(4) by (induction ys) auto
  with Cons show ?case by auto
qed

lemma present_integer_mem: "present_integer h n \<Longrightarrow> KInteger (int n) \<in> set (map fst h)"
  by (auto dest!: map_of_SomeD split: option.splits intro: rev_image_eqI)

lemma integers_from_Suc:
  assumes "present_integer h n"
  shows "length (integers_from h (Suc n)) < length (integers_from h n)"
proof -
  have "integer_ge (Suc n) k \<Longrightarrow> integer_ge n k" for k by (cases k) auto
  with present_integer_mem [OF assms] show ?thesis
    unfolding integers_from_def by (intro filter_length_less) auto
qed

function contiguous_from :: "(key, val) hash_map \<Rightarrow> nat \<Rightarrow> nat \<Rightarrow> (nat, heap_error) res" where
  "contiguous_from h next_index found =
     rbind (hash_integer next_index) (\<lambda>_.
     if \<not> present_integer h next_index then Ok found
     else rbind (ok_or (checked_add found 1) overflow) (\<lambda>found.
          rbind (ok_or (checked_add next_index 1) overflow) (\<lambda>next_index.
          contiguous_from h next_index found)))"
  by pat_completeness auto
termination
proof (relation "measure (\<lambda>(h, n, c). length (integers_from h n))", goal_cases)
  case 1
  then show ?case by simp
next
  case (2 h n found k found' next')
  then have "present_integer h n" "next' = Suc n" by (auto simp: res_simps usize_simps)
  then show ?case using integers_from_Suc by simp
qed

declare contiguous_from.simps [simp del]

definition contiguous_hash_values_after :: "table \<Rightarrow> nat \<Rightarrow> (nat, heap_error) res" where
  "contiguous_hash_values_after t index =
     rbind (ok_or (checked_add index 1) overflow) (\<lambda>next_index. contiguous_from (tb_hash t) next_index 0)"

definition push_array :: "val \<Rightarrow> table \<Rightarrow> table" where
  "push_array v t = t\<lparr>tb_array := tb_array t @ [v]\<rparr>"

definition note_array_reference :: "bool \<Rightarrow> table \<Rightarrow> table" where
  "note_array_reference r t =
     t\<lparr>tb_array_contains_heap_reference := tb_array_contains_heap_reference t \<or> r\<rparr>"

fun promote_contiguous :: "nat \<Rightarrow> table \<Rightarrow> table" where
  "promote_contiguous 0 t = t"
| "promote_contiguous (Suc n) t =
     (case remove_hash_entry (KInteger (int (length (tb_array t) + 1))) t of
        (None, t') \<Rightarrow> t'
      | (Some v, t') \<Rightarrow>
          promote_contiguous n (push_array v (note_array_reference (contains_heap_reference v) t')))"

section \<open>Writing\<close>

definition bump_tombstones :: "table \<Rightarrow> table" where
  "bump_tombstones t = t\<lparr>tb_hash_tombstones := saturating_add (tb_hash_tombstones t) 1\<rparr>"

definition drop_tombstone :: "table \<Rightarrow> table" where
  "drop_tombstone t = t\<lparr>tb_hash_tombstones := saturating_sub (tb_hash_tombstones t) 1\<rparr>"

definition hash_put :: "key \<Rightarrow> val \<Rightarrow> table \<Rightarrow> table" where
  "hash_put k v t = t\<lparr>tb_hash := hm_insert k v (tb_hash t)\<rparr>"

definition track_key :: "key \<Rightarrow> table \<Rightarrow> table" where
  "track_key k t = (if tb_hash_order_capacity t \<noteq> 0 then push_hash_order_key k t else t)"

text \<open>An index of the array: clearing a live slot leaves a tombstone in the hash part.\<close>

definition set_in_array ::
  "platform \<Rightarrow> key \<Rightarrow> val \<Rightarrow> nat \<Rightarrow> table \<Rightarrow> memory_account \<Rightarrow> tres" where
  "set_in_array env k v index t m =
     (let store = (\<lambda>t m. need (set_at (tb_array t) (index - 1) v) t m (\<lambda>a.
            (Ok (), (note_array_reference (contains_heap_reference v) t)\<lparr>tb_array := a\<rparr>, m))) in
      need (index_at (tb_array t) (index - 1)) t m (\<lambda>old.
      if v = VNil \<and> old \<noteq> VNil then
        need (hash_integer index) t m (\<lambda>tombstone.
        then_t
          (if \<not> hm_contains tombstone (tb_hash t) then
             need (ok_or (checked_add (length (tb_hash t)) 1) overflow) t m (\<lambda>required.
             then_t (grow_hash env required t m) (\<lambda>t m. (Ok (), bump_tombstones (track_key tombstone t), m)))
           else (Ok (), t, m))
          (\<lambda>t m. store (hash_put tombstone VNil t) m))
      else if v \<noteq> VNil then store (snd (remove_hash_entry k t)) m
      else store t m))"

text \<open>Writing nil just past the array only moves its boundary.\<close>

definition set_nil_boundary :: "nat \<Rightarrow> table \<Rightarrow> table" where
  "set_nil_boundary index t =
     (let t = t\<lparr>tb_nil_write_boundary := True\<rparr> in
      if tb_tracks_legacy_array_layout t \<or> tb_array t \<noteq> []
      then t\<lparr>tb_tracks_legacy_array_layout := True,
             tb_legacy_array_capacity := max (tb_legacy_array_capacity t) index\<rparr>
      else t)"

definition settle_legacy :: "table \<Rightarrow> table" where
  "settle_legacy t =
     t\<lparr>tb_legacy_array_capacity := max (tb_legacy_array_capacity t) (length (tb_array t))\<rparr>"

definition fill_array :: "nat \<Rightarrow> table \<Rightarrow> table" where
  "fill_array index t = t\<lparr>tb_array := tb_array t @ replicate (index - 1 - length (tb_array t)) VNil\<rparr>"

definition set_past_boundary ::
  "platform \<Rightarrow> val \<Rightarrow> nat \<Rightarrow> table \<Rightarrow> memory_account \<Rightarrow> tres" where
  "set_past_boundary env v index t m =
     need (contiguous_hash_values_after t index) t m (\<lambda>promoted.
     need (ok_or (checked_add index promoted) overflow) t m (\<lambda>required.
     then_t (grow_array env required t m) (\<lambda>t m.
       (Ok (), settle_legacy (promote_contiguous promoted
          (push_array v (note_array_reference (contains_heap_reference v) (fill_array index t)))), m))))"

definition set_append :: "platform \<Rightarrow> val \<Rightarrow> nat \<Rightarrow> table \<Rightarrow> memory_account \<Rightarrow> tres" where
  "set_append env v index t m =
     need (contiguous_hash_values_after t index) t m (\<lambda>promoted.
     need (ok_or (checked_add promoted 1) overflow) t m (\<lambda>additional.
     need (ok_or (checked_add (length (tb_array t)) additional) overflow) t m (\<lambda>required.
     then_t (grow_array env required t m) (\<lambda>t m.
       (Ok (), settle_legacy (promote_contiguous promoted
          (push_array v (note_array_reference (contains_heap_reference v) t))), m)))))"

definition clear_in_hash :: "key \<Rightarrow> table \<Rightarrow> table" where
  "clear_in_hash k t =
     (if hm_contains k (tb_hash t) then
        let t = t\<lparr>tb_hash_contains_heap_key := tb_hash_contains_heap_key t \<or> key_contains_heap_reference k\<rparr>;
            t = (if map_of (tb_hash t) k \<noteq> Some VNil then bump_tombstones t else t)
        in hash_put k VNil t
      else t)"

definition wants_order :: "key \<Rightarrow> table \<Rightarrow> bool" where
  "wants_order k t \<longleftrightarrow> (tb_preserve_hash_order t \<and> \<not> key_is_numeric k) \<or> key_contains_heap_reference k"

definition note_hash_references :: "key \<Rightarrow> val \<Rightarrow> table \<Rightarrow> table" where
  "note_hash_references k v t =
     t\<lparr>tb_hash_contains_heap_key := tb_hash_contains_heap_key t \<or> key_contains_heap_reference k,
       tb_hash_contains_heap_value := tb_hash_contains_heap_value t \<or> contains_heap_reference v\<rparr>"

definition compact_when_sparse :: "table \<Rightarrow> table" where
  "compact_when_sparse t =
     (if tb_hash_iteration_order t = Unordered \<and> 1024 \<le> tb_hash_tombstones t \<and>
         saturating_sub (length (tb_hash t)) (tb_hash_tombstones t) \<le> tb_hash_tombstones t
      then compact_hash t else t)"

definition set_in_hash :: "platform \<Rightarrow> key \<Rightarrow> val \<Rightarrow> table \<Rightarrow> memory_account \<Rightarrow> tres" where
  "set_in_hash env k v t m =
     (if v = VNil then (Ok (), clear_in_hash k t, m)
      else
        let t = compact_when_sparse (note_hash_references k v t) in
        then_t
          (if \<not> hm_contains k (tb_hash t) then
             let t = t\<lparr>tb_hash_order_enabled := tb_hash_order_enabled t \<or> wants_order k t\<rparr> in
             need (ok_or (checked_add (length (tb_hash t)) 1) overflow) t m (\<lambda>required.
             then_t (grow_hash env required t m) (\<lambda>t m. (Ok (), track_key k t, m)))
           else if map_of (tb_hash t) k = Some VNil then (Ok (), drop_tombstone t, m)
           else (Ok (), t, m))
          (\<lambda>t m. (Ok (), hash_put k v t, m)))"

definition tb_set :: "platform \<Rightarrow> key \<Rightarrow> val \<Rightarrow> table \<Rightarrow> memory_account \<Rightarrow> tres" where
  "tb_set env k v t m =
     (case key_array_index k of
        None \<Rightarrow> set_in_hash env k v t m
      | Some index \<Rightarrow>
          if index \<le> length (tb_array t) then set_in_array env k v index t m
          else need (ok_or (checked_add (length (tb_array t)) 1) overflow) t m (\<lambda>next_array_index.
            if index = next_array_index \<and> v = VNil then (Ok (), set_nil_boundary index t, m)
            else if next_array_index < index \<and> tb_tracks_legacy_array_layout t \<and>
                    index \<le> saturating_add (tb_legacy_array_capacity t) 1 \<and> v \<noteq> VNil
            then set_past_boundary env v index t m
            else if index = next_array_index \<and> v \<noteq> VNil then set_append env v index t m
            else set_in_hash env k v t m))"

text \<open>What a write may need, asked before it is made.\<close>

definition set_bytes :: "platform \<Rightarrow> table \<Rightarrow> key \<Rightarrow> val \<Rightarrow> (nat, heap_error) res" where
  "set_bytes env t k v =
     (let in_hash =
        (if v = VNil \<or> hm_contains k (tb_hash t) then Ok 0
         else rbind (ok_or (checked_add (length (tb_hash t)) 1) overflow) (\<lambda>required.
              hash_growth_bytes env t required (wants_order k t)))
      in case key_array_index k of
        None \<Rightarrow> in_hash
      | Some index \<Rightarrow>
          if index \<le> length (tb_array t) then
            rbind (index_at (tb_array t) (index - 1)) (\<lambda>old.
            if v = VNil \<and> old \<noteq> VNil \<and> \<not> hm_contains k (tb_hash t) then
              rbind (ok_or (checked_add (length (tb_hash t)) 1) overflow) (\<lambda>required.
              hash_growth_bytes env t required False)
            else Ok 0)
          else rbind (ok_or (checked_add (length (tb_array t)) 1) overflow) (\<lambda>next_array_index.
            if index = next_array_index \<and> v \<noteq> VNil then
              rbind (contiguous_hash_values_after t index) (\<lambda>promoted.
              rbind (ok_or (checked_add promoted 1) overflow) (\<lambda>additional.
              rbind (ok_or (checked_add (length (tb_array t)) additional) overflow) (\<lambda>required.
              if required \<le> tb_array_capacity t then Ok 0
              else rbind (he (checked_vector_bytes (sz_value env) required)) (\<lambda>new_bytes.
                if required \<le> tb_array_room t then
                  rbind (he (checked_vector_bytes (sz_value env) (tb_array_capacity t))) (\<lambda>old_bytes.
                  Ok (saturating_sub new_bytes old_bytes))
                else Ok new_bytes))))
            else in_hash))"

section \<open>Lengths\<close>

fun first_nil :: "nat \<Rightarrow> val list \<Rightarrow> nat" where
  "first_nil i [] = i"
| "first_nil i (v # vs) = (if v = VNil then i else first_nil (Suc i) vs)"

text \<open>\<open>rposition(non-nil).map_or(0, |i| i + 1)\<close>.\<close>

definition last_live :: "val list \<Rightarrow> nat" where
  "last_live vs = length (dropWhile (\<lambda>v. v = VNil) (rev vs))"

definition tb_length :: "table \<Rightarrow> nat" where
  "tb_length t = first_nil 0 (tb_array t)"

text \<open>
  The search of \<open>dynamic_modern_length\<close>; its fuel is more than the entries there are. Beyond
  \<open>i64\<close> the key saturates, which needs more entries than an address space holds.
\<close>

fun modern_run :: "nat \<Rightarrow> (key, val) hash_map \<Rightarrow> nat \<Rightarrow> nat" where
  "modern_run 0 h index = index"
| "modern_run (Suc fuel) h index =
     (if present_integer h (min index (nat i64_max)) then modern_run fuel h (saturating_add index 1)
      else index)"

definition dynamic_modern_length :: "table \<Rightarrow> nat" where
  "dynamic_modern_length t =
     (if tb_tracks_legacy_array_layout t then 0
      else if tb_preserve_hash_order t \<and> \<not> present_integer (tb_hash t) 1 then 0
      else let index = modern_run (length (tb_hash t) + 1) (tb_hash t) 2
           in if 4 \<le> index then index - 1 else 0)"

definition modern_length :: "table \<Rightarrow> nat" where
  "modern_length t =
     (if tb_preallocated_array_boundary t then last_live (tb_array t)
      else case tb_array t of
        [] \<Rightarrow>
          (if 0 < tb_array_capacity t \<and> int (tb_array_capacity t) \<le> i64_max \<and>
              present_integer (tb_hash t) (tb_array_capacity t)
           then tb_array_capacity t else dynamic_modern_length t)
      | first # rest \<Rightarrow>
          (if first \<noteq> VNil then tb_length t
           else if length (tb_array t) = tb_array_capacity t \<and> last (tb_array t) \<noteq> VNil
           then tb_array_capacity t
           else if 3 \<le> length (tb_array t) \<and> list_all (\<lambda>v. v \<noteq> VNil) rest then length (tb_array t)
           else 0))"

text \<open>The whole positive number a numeric key stands for, as \<open>legacy_length\<close> reads it.\<close>

definition f64_usize_max :: f64 where "f64_usize_max = int_to_f64 (int usize_max)"

fun key_position :: "key \<Rightarrow> int option" where
  "key_position (KInteger n) = Some n"
| "key_position (KNumber x) =
     (if \<not> f64_is_finite x \<or> f64_lt x (int_to_f64 1) \<or> \<not> f64_fract_is_zero x then None
      else if f64_lt f64_usize_max x then None
      else Some (f64_to_i64 x))"
| "key_position _ = None"

definition legacy_candidate :: "nat \<Rightarrow> key \<times> val \<Rightarrow> nat" where
  "legacy_candidate bound p =
     (if snd p = VNil then 0
      else case key_position (fst p) of
        None \<Rightarrow> 0
      | Some n \<Rightarrow> (if 1 \<le> n \<and> nat n \<le> bound then nat n else 0))"

definition legacy_length :: "table \<Rightarrow> nat" where
  "legacy_length t =
     fold (\<lambda>p maximum. max maximum (legacy_candidate (tb_legacy_array_capacity t) p)) (tb_hash t)
       (last_live (tb_array t))"

definition luau_length :: "table \<Rightarrow> nat" where
  "luau_length t =
     (if \<not> tb_tracks_legacy_array_layout t \<and> tb_nil_write_boundary t \<and>
         present_integer (tb_hash t) 2 \<and> \<not> present_integer (tb_hash t) 3
      then 2 else legacy_length t)"

fun trim_array :: "nat \<Rightarrow> table \<Rightarrow> table" where
  "trim_array 0 t = t"
| "trim_array (Suc n) t =
     (if tb_array t \<noteq> [] \<and> last (tb_array t) = VNil then
        trim_array n ((snd (remove_hash_entry (KInteger (int (length (tb_array t)))) t))
          \<lparr>tb_array := butlast (tb_array t)\<rparr>)
      else t)"

end
