(* ===== verification/Runtime_Table_Map.thy ===== *)
theory Runtime_Table_Map
  imports Runtime_Table_Ops
begin

text \<open>
  What a table means: a map from keys to values. The lemmas show that a successful write updates
  that map at its key and nowhere else, that a failed one leaves it unchanged, and that no write
  panics. They rest on the invariant \<open>table_sound\<close> of the split between array and hash part.
\<close>

section \<open>The map and the invariant\<close>

definition lookup :: "table \<Rightarrow> key \<Rightarrow> val" where
  "lookup t k = (case tb_get t k of Some v \<Rightarrow> v | None \<Rightarrow> VNil)"

text \<open>The fields the map and the invariant depend on.\<close>

definition core :: "table \<Rightarrow> val list \<times> (key, val) hash_map \<times> nat \<times> bool" where
  "core t = (tb_array t, tb_hash t, tb_legacy_array_capacity t, tb_tracks_legacy_array_layout t)"

definition table_sound :: "table \<Rightarrow> bool" where
  "table_sound t \<longleftrightarrow> distinct (map fst (tb_hash t)) \<and>
     \<not> present_integer (tb_hash t) (length (tb_array t) + 1) \<and>
     (tb_tracks_legacy_array_layout t \<longrightarrow>
        (\<forall>n. length (tb_array t) < n \<and> n \<le> tb_legacy_array_capacity t \<longrightarrow> \<not> present_integer (tb_hash t) n)) \<and>
     (\<not> tb_tracks_legacy_array_layout t \<longrightarrow> tb_legacy_array_capacity t \<le> length (tb_array t))"

lemma core_eqD:
  "core t' = core t \<Longrightarrow> tb_array t' = tb_array t \<and> tb_hash t' = tb_hash t \<and>
     tb_legacy_array_capacity t' = tb_legacy_array_capacity t \<and>
     tb_tracks_legacy_array_layout t' = tb_tracks_legacy_array_layout t"
  by (simp add: core_def)

lemma lookup_core: "core t' = core t \<Longrightarrow> lookup t' = lookup t"
  by (rule ext, drule core_eqD) (simp add: lookup_def tb_get_def split: option.split)

lemma sound_core: "core t' = core t \<Longrightarrow> table_sound t' = table_sound t"
  by (auto simp: table_sound_def dest!: core_eqD)

named_theorems core_simps \<open>updates that leave the map alone\<close>

lemma core_updates [core_simps]:
  "core (t\<lparr>tb_array_room := a\<rparr>) = core t" "core (t\<lparr>tb_array_capacity := b\<rparr>) = core t"
  "core (t\<lparr>tb_hash_capacity := c\<rparr>) = core t" "core (t\<lparr>tb_hash_order_capacity := d\<rparr>) = core t"
  "core (t\<lparr>tb_hash_order_positions := p\<rparr>) = core t" "core (t\<lparr>tb_hash_order := q\<rparr>) = core t"
  "core (t\<lparr>tb_hash_tombstones := e\<rparr>) = core t" "core (t\<lparr>tb_hash_order_enabled := f\<rparr>) = core t"
  "core (t\<lparr>tb_hash_contains_heap_key := g\<rparr>) = core t"
  "core (t\<lparr>tb_hash_contains_heap_value := h\<rparr>) = core t"
  "core (t\<lparr>tb_array_contains_heap_reference := i\<rparr>) = core t"
  "core (t\<lparr>tb_nil_write_boundary := j\<rparr>) = core t"
  by (simp_all add: core_def)

lemma core_steps [core_simps]:
  "core (rebuild_hash_order t) = core t" "core (push_hash_order_key k t) = core t"
  "core (bump_tombstones t) = core t" "core (drop_tombstone t) = core t" "core (track_key k t) = core t"
  "core (note_array_reference r t) = core t" "core (note_hash_references k v t) = core t"
  by (simp_all add: rebuild_hash_order_def push_hash_order_key_def bump_tombstones_def drop_tombstone_def
      track_key_def note_array_reference_def note_hash_references_def core_def)

lemma core_fold:
  "(\<And>x t. core (f x t) = core t) \<Longrightarrow> core (fold f xs t) = core t"
  by (induction xs arbitrary: t) simp_all

lemma core_start_hash_order [core_simps]: "core (start_hash_order n t) = core t"
  unfolding start_hash_order_def by (auto intro!: core_fold simp: core_simps)

lemma need_cases:
  "need r t m f = (x, t', m') \<Longrightarrow>
     (\<exists>y. r = Ok y \<and> f y = (x, t', m')) \<or> (\<exists>e. r = Err e \<and> x = Err e \<and> t' = t \<and> m' = m) \<or>
     r = Panic \<and> x = Panic \<and> t' = t \<and> m' = m"
  by (cases r) auto

lemma then_t_cases:
  "then_t r f = (x, t', m') \<Longrightarrow>
     (\<exists>t1 m1. r = (Ok (), t1, m1) \<and> f t1 m1 = (x, t', m')) \<or>
     (\<exists>e. r = (Err e, t', m') \<and> x = Err e) \<or> r = (Panic, t', m') \<and> x = Panic"
  by (cases "(r, f)" rule: then_t.cases) auto

lemma grow_hash_core: "grow_hash env n t m = (r, t', m') \<Longrightarrow> core t' = core t"
  by (auto simp: grow_hash_def Let_def core_simps split: if_splits res.splits prod.splits dest!: need_cases)

lemma grow_array_core: "grow_array env n t m = (r, t', m') \<Longrightarrow> core t' = core t"
  by (auto simp: grow_array_def Let_def core_simps split: if_splits res.splits prod.splits dest!: need_cases)

section \<open>No panic\<close>

definition platform_ok :: "platform \<Rightarrow> bool" where
  "platform_ok env \<longleftrightarrow> is_power_of_two (al_key_value env) \<and> is_power_of_two (al_key_usize env)"

lemma is_power_of_two_pos: "is_power_of_two n \<Longrightarrow> 1 \<le> n"
  by (simp add: is_power_of_two_def)

lemma checked_hash_bytes_not_Panic: "is_power_of_two a \<Longrightarrow> checked_hash_bytes e a c \<noteq> Panic"
  by (auto simp: checked_hash_bytes_def checked_align_up_def res_simps dest!: is_power_of_two_pos
      split: option.splits)

lemma he_not_Panic [res_simps]: "he r = Panic \<longleftrightarrow> r = Panic"
  by (simp add: he_def res_simps)

lemma he_Ok [res_simps]: "he r = Ok x \<longleftrightarrow> r = Ok x"
  by (simp add: he_def res_simps)

lemma mem_add_simps [res_simps]:
  "mem_add a b = Ok c \<longleftrightarrow> c = a + b \<and> a + b \<le> usize_max" "mem_add a b = Panic \<longleftrightarrow> False"
  by (simp_all add: mem_add_def res_simps usize_simps)

lemma hash_part_bytes_not_Panic: "platform_ok env \<Longrightarrow> hash_part_bytes env a b \<noteq> Panic"
  by (auto simp: hash_part_bytes_def res_simps platform_ok_def dest: checked_hash_bytes_not_Panic)

lemma try_reserve_not_Panic:
  "platform_ok env \<Longrightarrow> try_reserve_hash_part env a b \<noteq> Panic" "try_reserve_vec_to env x n \<noteq> Panic"
  "try_reserve_vec_exact env x l n \<noteq> Panic"
  by (auto simp: try_reserve_hash_part_def try_reserve_hash_to_def try_reserve_vec_to_def
      try_reserve_vec_exact_def try_reserve_bytes_def res_simps platform_ok_def dest: checked_hash_bytes_not_Panic)

lemma reserving_not_Panic: "work \<noteq> Panic \<Longrightarrow> fst (reserving m n work old) \<noteq> Panic"
  by (auto simp: reserving_def commit_replacing_charge he_def res_simps split: res.splits prod.splits if_splits)

lemma grow_hash_not_Panic: "platform_ok env \<Longrightarrow> grow_hash env n t m \<noteq> (Panic, t', m')"
  using reserving_not_Panic [OF try_reserve_not_Panic(1)]
  by (auto simp: grow_hash_def Let_def res_simps hash_part_bytes_not_Panic
      split: if_splits res.splits prod.splits dest!: need_cases) (metis fst_conv)+

lemma grow_hash_props:
  "grow_hash env n t m = (r, t', m') \<Longrightarrow> core t' = core t \<and> (r = Panic \<longrightarrow> \<not> platform_ok env)"
  using grow_hash_core grow_hash_not_Panic by blast

lemma grow_array_not_Panic: "grow_array env n t m \<noteq> (Panic, t', m')"
  using reserving_not_Panic [OF try_reserve_not_Panic(2)]
  by (auto simp: grow_array_def Let_def res_simps split: if_splits res.splits prod.splits dest!: need_cases)
    (metis fst_conv)+

lemma contiguous_not_Panic: "contiguous_from h n c \<noteq> Panic"
  by (induction h n c rule: contiguous_from.induct)
    (subst contiguous_from.simps, auto simp: res_simps hash_integer_def split: if_splits)

section \<open>Reading the two parts\<close>

lemma key_array_index_Some: "key_array_index k = Some i \<longleftrightarrow> 0 < i \<and> k = KInteger (int i)"
  by (cases k) auto

lemma key_array_index_pos [simp]: "0 < n \<Longrightarrow> key_array_index (KInteger (int n)) = Some n"
  by simp

lemma lookup_array: "0 < n \<Longrightarrow> n \<le> length (tb_array t) \<Longrightarrow> lookup t (KInteger (int n)) = tb_array t ! (n - 1)"
  by (auto simp: lookup_def tb_get_def get_def)

definition hash_lookup :: "(key, val) hash_map \<Rightarrow> key \<Rightarrow> val" where
  "hash_lookup h k = (case map_of h k of Some v \<Rightarrow> v | None \<Rightarrow> VNil)"

lemma lookup_hash:
  "(\<forall>n. key_array_index k = Some n \<longrightarrow> length (tb_array t) < n) \<Longrightarrow> lookup t k = hash_lookup (tb_hash t) k"
  by (auto simp: lookup_def tb_get_def hash_lookup_def split: option.splits)

lemma present_iff: "present_integer h n \<longleftrightarrow> hash_lookup h (KInteger (int n)) \<noteq> VNil"
  by (auto simp: hash_lookup_def split: option.splits)

declare present_integer.simps [simp del]

lemma hash_lookup_simps [simp]:
  "hash_lookup (hm_insert k v h) k' = (if k' = k then v else hash_lookup h k')"
  "hash_lookup (hm_remove k h) k' = (if k' = k then VNil else hash_lookup h k')"
  by (simp_all add: hash_lookup_def)

text \<open>Two tables mean the same map when they agree on array indices and on the other keys.\<close>

lemma lookup_eqI:
  assumes "\<And>n. 0 < n \<Longrightarrow> lookup t (KInteger (int n)) = f (KInteger (int n))"
    and "\<And>k. key_array_index k = None \<Longrightarrow> lookup t k = f k"
  shows "lookup t = f"
proof
  fix k
  show "lookup t k = f k"
    using assms by (cases "key_array_index k") (auto simp: key_array_index_Some)
qed

lemma lookup_non_index: "key_array_index k = None \<Longrightarrow> lookup t k = hash_lookup (tb_hash t) k"
  by (rule lookup_hash) simp

lemma lookup_index:
  "0 < n \<Longrightarrow> lookup t (KInteger (int n)) =
     (if n \<le> length (tb_array t) then tb_array t ! (n - 1) else hash_lookup (tb_hash t) (KInteger (int n)))"
  by (simp add: lookup_array lookup_hash)

section \<open>Appending and promotion\<close>

lemma contiguous_from_Ok:
  "contiguous_from h n c = Ok c' \<Longrightarrow>
     c \<le> c' \<and> (\<forall>j. n \<le> j \<and> j < n + (c' - c) \<longrightarrow> present_integer h j) \<and> \<not> present_integer h (n + (c' - c))"
proof (induction h n c rule: contiguous_from.induct)
  case (1 h n c)
  show ?case
  proof (cases "present_integer h n")
    case False
    with 1(2) show ?thesis by (subst (asm) contiguous_from.simps) (auto simp: res_simps)
  next
    case True
    with 1(2) have rest: "contiguous_from h (n + 1) (c + 1) = Ok c'" and k: "\<exists>k. hash_integer n = Ok k"
      and b: "checked_add c 1 = Some (c + 1)" "checked_add n 1 = Some (n + 1)"
      by (subst (asm) contiguous_from.simps; auto simp: res_simps usize_simps)+
    from k obtain k where "hash_integer n = Ok k" by blast
    have ih: "c + 1 \<le> c' \<and> (\<forall>j. n + 1 \<le> j \<and> j < n + 1 + (c' - (c + 1)) \<longrightarrow> present_integer h j) \<and>
        \<not> present_integer h (n + 1 + (c' - (c + 1)))"
      by (rule 1(1) [OF \<open>hash_integer n = Ok k\<close> _ _ _ rest]) (use True b in \<open>simp_all add: res_simps\<close>)
    then have "c + 1 \<le> c'" by blast
    then have e: "n + 1 + (c' - (c + 1)) = n + (c' - c)" by simp
    have "present_integer h j" if "n \<le> j" "j < n + (c' - c)" for j
      using that True ih e by (cases "j = n") auto
    with ih e show ?thesis by (metis Suc_eq_plus1 Suc_leD)
  qed
qed

lemma contiguous_after_Ok:
  "contiguous_hash_values_after t i = Ok c \<Longrightarrow>
     (\<forall>j. i < j \<and> j \<le> i + c \<longrightarrow> present_integer (tb_hash t) j) \<and> \<not> present_integer (tb_hash t) (i + c + 1)"
  unfolding contiguous_hash_values_after_def
  by (auto simp: res_simps usize_simps dest!: contiguous_from_Ok)

lemma push_array_sel [simp]:
  "tb_array (push_array v t) = tb_array t @ [v]" "tb_hash (push_array v t) = tb_hash t"
  "tb_legacy_array_capacity (push_array v t) = tb_legacy_array_capacity t"
  "tb_tracks_legacy_array_layout (push_array v t) = tb_tracks_legacy_array_layout t"
  by (simp_all add: push_array_def)

lemma note_array_reference_sel [simp]:
  "tb_array (note_array_reference r t) = tb_array t" "tb_hash (note_array_reference r t) = tb_hash t"
  "tb_legacy_array_capacity (note_array_reference r t) = tb_legacy_array_capacity t"
  "tb_tracks_legacy_array_layout (note_array_reference r t) = tb_tracks_legacy_array_layout t"
  by (simp_all add: note_array_reference_def)

lemma lookup_push_array:
  "lookup (push_array v t) = (lookup t)(KInteger (int (length (tb_array t) + 1)) := v)"
  by (rule lookup_eqI) (auto simp: lookup_index lookup_non_index nth_append simp del: of_nat_Suc of_nat_add)

lemma remove_hash_entry_sel [simp]:
  "fst (remove_hash_entry k t) = map_of (tb_hash t) k"
  "tb_array (snd (remove_hash_entry k t)) = tb_array t"
  "tb_hash (snd (remove_hash_entry k t)) = hm_remove k (tb_hash t)"
  "tb_legacy_array_capacity (snd (remove_hash_entry k t)) = tb_legacy_array_capacity t"
  "tb_tracks_legacy_array_layout (snd (remove_hash_entry k t)) = tb_tracks_legacy_array_layout t"
  by (simp_all add: remove_hash_entry_def Let_def)

text \<open>Promotion moves a run of entries; the map stays the same.\<close>

lemma promote_contiguous_props:
  assumes "distinct (map fst (tb_hash t))"
    and "\<forall>j. length (tb_array t) < j \<and> j \<le> length (tb_array t) + n \<longrightarrow> present_integer (tb_hash t) j"
  shows "lookup (promote_contiguous n t) = lookup t \<and>
    length (tb_array (promote_contiguous n t)) = length (tb_array t) + n \<and>
    distinct (map fst (tb_hash (promote_contiguous n t))) \<and>
    (\<forall>k. (\<forall>j. length (tb_array t) < j \<and> j \<le> length (tb_array t) + n \<longrightarrow> k \<noteq> KInteger (int j)) \<longrightarrow>
       hash_lookup (tb_hash (promote_contiguous n t)) k = hash_lookup (tb_hash t) k) \<and>
    tb_legacy_array_capacity (promote_contiguous n t) = tb_legacy_array_capacity t \<and>
    tb_tracks_legacy_array_layout (promote_contiguous n t) = tb_tracks_legacy_array_layout t"
  using assms
proof (induction n arbitrary: t)
  case 0
  then show ?case by simp
next
  case (Suc n)
  let ?k = "KInteger (int (length (tb_array t) + 1))"
  have "present_integer (tb_hash t) (length (tb_array t) + 1)" using Suc.prems(2) by simp
  then obtain v where v: "map_of (tb_hash t) ?k = Some v"
    by (auto simp: present_integer.simps split: option.splits)
  define t1 where "t1 = push_array v (note_array_reference (contains_heap_reference v) (snd (remove_hash_entry ?k t)))"
  have step: "promote_contiguous (Suc n) t = promote_contiguous n t1"
  proof -
    have "remove_hash_entry ?k t = (Some v, snd (remove_hash_entry ?k t))"
      by (rule prod_eqI) (simp_all only: remove_hash_entry_sel v fst_conv snd_conv)
    then show ?thesis by (metis (no_types, lifting) promote_contiguous.simps(2) case_prod_conv option.simps(5) t1_def)
  qed
  have t1: "tb_array t1 = tb_array t @ [v]" "tb_hash t1 = hm_remove ?k (tb_hash t)"
    "tb_legacy_array_capacity t1 = tb_legacy_array_capacity t"
    "tb_tracks_legacy_array_layout t1 = tb_tracks_legacy_array_layout t"
    by (simp_all add: t1_def)
  have look: "lookup t1 = lookup t"
    by (rule lookup_eqI)
      (auto simp: lookup_index lookup_non_index t1 nth_append hash_lookup_def v [simplified] le_Suc_eq)
  have "distinct (map fst (tb_hash t1))" using Suc.prems(1) by (simp add: t1 distinct_hm_remove)
  moreover have "\<forall>j. length (tb_array t1) < j \<and> j \<le> length (tb_array t1) + n \<longrightarrow> present_integer (tb_hash t1) j"
    using Suc.prems(2) by (auto simp: t1 present_iff)
  ultimately have ih: "lookup (promote_contiguous n t1) = lookup t1"
    "length (tb_array (promote_contiguous n t1)) = length (tb_array t1) + n"
    "distinct (map fst (tb_hash (promote_contiguous n t1)))"
    "\<forall>k. (\<forall>j. length (tb_array t1) < j \<and> j \<le> length (tb_array t1) + n \<longrightarrow> k \<noteq> KInteger (int j)) \<longrightarrow>
       hash_lookup (tb_hash (promote_contiguous n t1)) k = hash_lookup (tb_hash t1) k"
    "tb_legacy_array_capacity (promote_contiguous n t1) = tb_legacy_array_capacity t1"
    "tb_tracks_legacy_array_layout (promote_contiguous n t1) = tb_tracks_legacy_array_layout t1"
    using Suc.IH [of t1] by blast+
  show ?case
    unfolding step using ih look by (auto simp: t1)
qed

section \<open>Each kind of write\<close>

lemma hash_step_sel [simp]:
  "tb_array (hash_put k v t) = tb_array t" "tb_hash (hash_put k v t) = hm_insert k v (tb_hash t)"
  "tb_legacy_array_capacity (hash_put k v t) = tb_legacy_array_capacity t"
  "tb_tracks_legacy_array_layout (hash_put k v t) = tb_tracks_legacy_array_layout t"
  "tb_legacy_array_capacity (settle_legacy t) = max (tb_legacy_array_capacity t) (length (tb_array t))"
  "tb_array (settle_legacy t) = tb_array t" "tb_hash (settle_legacy t) = tb_hash t"
  "tb_tracks_legacy_array_layout (settle_legacy t) = tb_tracks_legacy_array_layout t"
  by (simp_all add: hash_put_def settle_legacy_def)

definition array_write :: "key \<Rightarrow> val \<Rightarrow> nat \<Rightarrow> table \<Rightarrow> table \<Rightarrow> bool" where
  "array_write k v index t t' \<longleftrightarrow>
     tb_array t' = (tb_array t)[index - 1 := v] \<and>
     tb_hash t' \<in> {tb_hash t, hm_insert (KInteger (int index)) VNil (tb_hash t), hm_remove k (tb_hash t)} \<and>
     tb_legacy_array_capacity t' = tb_legacy_array_capacity t \<and>
     tb_tracks_legacy_array_layout t' = tb_tracks_legacy_array_layout t"

lemma set_in_array_outcome:
  assumes "set_in_array env k v index t m = (r, t', m')" and "0 < index" and "index \<le> length (tb_array t)"
  shows "(r = Ok () \<and> array_write k v index t t') \<or> (\<exists>e. r = Err e \<and> core t' = core t) \<or>
    r = Panic \<and> \<not> platform_ok env"
proof -
  have store: "need (set_at (tb_array s) (index - 1) v) s n (\<lambda>a.
      (Ok (), (note_array_reference (contains_heap_reference v) s)\<lparr>tb_array := a\<rparr>, n)) =
      (Ok (), (note_array_reference (contains_heap_reference v) s)\<lparr>tb_array := (tb_array s)[index - 1 := v]\<rparr>, n)"
    if "tb_array s = tb_array t" for s n
    using that assms(2,3) by (simp add: set_at_def)
  have old: "index_at (tb_array t) (index - 1) = Ok (tb_array t ! (index - 1))"
    using assms(2,3) by (simp add: index_at_def)
  consider "v = VNil" "tb_array t ! (index - 1) \<noteq> VNil" | "v \<noteq> VNil" | "v = VNil" "tb_array t ! (index - 1) = VNil"
    by blast
  then show ?thesis
  proof cases
    case 1
    note eq = assms(1) [unfolded set_in_array_def Let_def old need.simps, simplified 1, simplified]
    show ?thesis
    proof (cases "hash_integer index")
      case (Ok tombstone)
      then have ts: "tombstone = KInteger (int index)" by (simp add: hash_integer_def split: if_splits)
      let ?first = "if \<not> hm_contains tombstone (tb_hash t)
         then need (ok_or (checked_add (length (tb_hash t)) 1) overflow) t m (\<lambda>required.
                then_t (grow_hash env required t m) (\<lambda>t m. (Ok (), bump_tombstones (track_key tombstone t), m)))
         else (Ok (), t, m)"
      have first: "core t1 = core t \<and> (r1 = Panic \<longrightarrow> \<not> platform_ok env)" if "?first = (r1, t1, m1)" for r1 t1 m1
        using that grow_hash_not_Panic
        by (auto simp: core_simps res_simps split: if_splits dest!: need_cases then_t_cases dest: grow_hash_core)
      have "then_t ?first (\<lambda>s n. need (set_at (tb_array (hash_put tombstone VNil s)) (index - 1) v)
          (hash_put tombstone VNil s) n (\<lambda>a. (Ok (), (note_array_reference (contains_heap_reference v)
             (hash_put tombstone VNil s))\<lparr>tb_array := a\<rparr>, n))) = (r, t', m')"
        using eq Ok by (simp add: 1)
      from then_t_cases [OF this] show ?thesis
      proof (elim disjE exE conjE)
        fix t1 m1
        assume f: "?first = (Ok (), t1, m1)"
          and "need (set_at (tb_array (hash_put tombstone VNil t1)) (index - 1) v) (hash_put tombstone VNil t1) m1
            (\<lambda>a. (Ok (), (note_array_reference (contains_heap_reference v) (hash_put tombstone VNil t1))\<lparr>tb_array := a\<rparr>, m1)) =
            (r, t', m')"
        moreover have "core t1 = core t" using first [OF f] by blast
        note core_eqD [OF this]
        ultimately show ?thesis using store [of "hash_put tombstone VNil t1" m1]
          by (auto simp: array_write_def ts)
      next
        fix e
        assume "?first = (Err e, t', m')" "r = Err e"
        then show ?thesis using first by blast
      next
        assume "?first = (Panic, t', m')" "r = Panic"
        then show ?thesis using first by blast
      qed
    next
      case (Err e)
      with eq show ?thesis by auto
    next
      case Panic
      then show ?thesis by (simp add: hash_integer_def split: if_splits)
    qed
  next
    case 2
    note eq = assms(1) [unfolded set_in_array_def Let_def old need.simps]
    have "need (set_at (tb_array (snd (remove_hash_entry k t))) (index - 1) v) (snd (remove_hash_entry k t)) m
        (\<lambda>a. (Ok (), (note_array_reference (contains_heap_reference v) (snd (remove_hash_entry k t)))\<lparr>tb_array := a\<rparr>, m)) =
        (r, t', m')"
      using eq by (simp only: 2 simp_thms if_True if_False)
    then show ?thesis unfolding store [of "snd (remove_hash_entry k t)" m, OF remove_hash_entry_sel(2)]
      by (auto simp: array_write_def)
  next
    case 3
    note eq = assms(1) [unfolded set_in_array_def Let_def old need.simps]
    have "need (set_at (tb_array t) (index - 1) v) t m
        (\<lambda>a. (Ok (), (note_array_reference (contains_heap_reference v) t)\<lparr>tb_array := a\<rparr>, m)) = (r, t', m')"
      using eq by (simp only: 3 simp_thms if_True if_False)
    then show ?thesis unfolding store [of t m, OF refl] by (auto simp: array_write_def)
  qed
qed

lemma array_write_map:
  assumes "array_write (KInteger (int index)) v index t t'" and "0 < index" and "index \<le> length (tb_array t)"
    and "table_sound t"
  shows "lookup t' = (lookup t)(KInteger (int index) := v) \<and> table_sound t'"
proof
  have h: "hash_lookup (tb_hash t') k = hash_lookup (tb_hash t) k" if "k \<noteq> KInteger (int index)" for k
    using assms(1) that by (auto simp: array_write_def)
  have a: "tb_array t' = (tb_array t)[index - 1 := v]" using assms(1) by (simp add: array_write_def)
  show "lookup t' = (lookup t)(KInteger (int index) := v)"
  proof (rule lookup_eqI)
    fix n :: nat
    assume "0 < n"
    then show "lookup t' (KInteger (int n)) = ((lookup t)(KInteger (int index) := v)) (KInteger (int n))"
      using assms(2,3) h by (auto simp: lookup_index a nth_list_update)
  next
    fix k
    assume "key_array_index k = None"
    then show "lookup t' k = ((lookup t)(KInteger (int index) := v)) k"
      using h assms(2) by (auto simp: lookup_non_index)
  qed
  have "distinct (map fst (tb_hash t'))"
    using assms(1,4) by (auto simp: array_write_def table_sound_def intro: distinct_hm_insert distinct_hm_remove)
  then show "table_sound t'"
    using assms h by (simp add: table_sound_def array_write_def present_iff)
qed

lemma set_nil_boundary_map:
  assumes "table_sound t" and "index = length (tb_array t) + 1"
  shows "lookup (set_nil_boundary index t) = (lookup t)(KInteger (int index) := VNil) \<and>
    table_sound (set_nil_boundary index t)"
proof
  have parts: "tb_array (set_nil_boundary index t) = tb_array t" "tb_hash (set_nil_boundary index t) = tb_hash t"
    by (simp_all add: set_nil_boundary_def Let_def)
  have "lookup t (KInteger (int index)) = VNil"
    using assms by (simp add: lookup_index table_sound_def present_iff del: of_nat_Suc of_nat_add)
  then show "lookup (set_nil_boundary index t) = (lookup t)(KInteger (int index) := VNil)"
    by (intro lookup_eqI) (auto simp: lookup_index lookup_non_index parts)
  show "table_sound (set_nil_boundary index t)"
    using assms by (auto simp: table_sound_def set_nil_boundary_def Let_def max_def le_Suc_eq)
qed

text \<open>Storing past the array: fill with nil, store, promote what follows.\<close>

definition extended :: "val \<Rightarrow> nat \<Rightarrow> nat \<Rightarrow> table \<Rightarrow> table" where
  "extended v index promoted t =
     settle_legacy (promote_contiguous promoted
       (push_array v (note_array_reference (contains_heap_reference v) (fill_array index t))))"

lemma fill_array_sel [simp]:
  "tb_array (fill_array i t) = tb_array t @ replicate (i - 1 - length (tb_array t)) VNil"
  "tb_hash (fill_array i t) = tb_hash t" "tb_legacy_array_capacity (fill_array i t) = tb_legacy_array_capacity t"
  "tb_tracks_legacy_array_layout (fill_array i t) = tb_tracks_legacy_array_layout t"
  by (simp_all add: fill_array_def)

lemma fill_array_next [simp]: "i = length (tb_array t) + 1 \<Longrightarrow> fill_array i t = t"
  by (simp add: fill_array_def)

lemma lookup_fill_array:
  assumes "\<forall>n. length (tb_array t) < n \<and> n < index \<longrightarrow> \<not> present_integer (tb_hash t) n"
  shows "lookup (fill_array index t) = lookup t"
proof (rule lookup_eqI)
  fix n :: nat
  assume "0 < n"
  then show "lookup (fill_array index t) (KInteger (int n)) = lookup t (KInteger (int n))"
    using assms by (auto simp: lookup_index nth_append present_iff)
next
  fix k
  assume "key_array_index k = None"
  then show "lookup (fill_array index t) k = lookup t k" by (simp add: lookup_non_index)
qed

lemma lookup_note [simp]: "lookup (note_array_reference r t) = lookup t"
  by (rule lookup_core) (simp add: core_simps)

lemma lookup_settle [simp]: "lookup (settle_legacy t) = lookup t"
  by (rule ext) (simp add: lookup_def tb_get_def split: option.split)

lemma extended_map:
  assumes sound: "table_sound t" and len: "length (tb_array t) < index"
    and gap: "\<forall>n. length (tb_array t) < n \<and> n < index \<longrightarrow> \<not> present_integer (tb_hash t) n"
    and run: "contiguous_hash_values_after t index = Ok promoted"
  shows "lookup (extended v index promoted t) = (lookup t)(KInteger (int index) := v) \<and>
    table_sound (extended v index promoted t)"
proof -
  define s where "s = push_array v (note_array_reference (contains_heap_reference v) (fill_array index t))"
  have s: "tb_hash s = tb_hash t" "length (tb_array s) = index"
    "tb_legacy_array_capacity s = tb_legacy_array_capacity t"
    "tb_tracks_legacy_array_layout s = tb_tracks_legacy_array_layout t"
    using len by (simp_all add: s_def)
  have ls: "lookup s = (lookup t)(KInteger (int index) := v)"
    unfolding s_def using len by (simp add: lookup_push_array lookup_fill_array [OF gap] del: of_nat_Suc of_nat_add)
  have r: "\<forall>j. index < j \<and> j \<le> index + promoted \<longrightarrow> present_integer (tb_hash t) j"
    "\<not> present_integer (tb_hash t) (index + promoted + 1)"
    using contiguous_after_Ok [OF run] by blast+
  have d: "distinct (map fst (tb_hash s))" using sound by (simp add: s table_sound_def)
  let ?p = "promote_contiguous promoted s"
  have p: "lookup ?p = lookup s" "length (tb_array ?p) = index + promoted" "distinct (map fst (tb_hash ?p))"
    "\<forall>k. (\<forall>j. index < j \<and> j \<le> index + promoted \<longrightarrow> k \<noteq> KInteger (int j)) \<longrightarrow>
       hash_lookup (tb_hash ?p) k = hash_lookup (tb_hash t) k"
    "tb_legacy_array_capacity ?p = tb_legacy_array_capacity t"
    "tb_tracks_legacy_array_layout ?p = tb_tracks_legacy_array_layout t"
    using promote_contiguous_props [OF d] r by (simp_all add: s)
  have beyond: "present_integer (tb_hash ?p) n = present_integer (tb_hash t) n" if "index + promoted < n" for n
    using p(4) that by (simp add: present_iff)
  have e: "extended v index promoted t = settle_legacy ?p" by (simp add: extended_def s_def)
  have "\<not> present_integer (tb_hash ?p) (index + promoted + 1)" using r(2) beyond by simp
  moreover have "\<not> present_integer (tb_hash ?p) n"
    if "tb_tracks_legacy_array_layout t" "index + promoted < n" "n \<le> tb_legacy_array_capacity t" for n
    using sound that len beyond [OF that(2)] by (simp add: table_sound_def)
  ultimately have "table_sound (settle_legacy ?p)"
    using sound p(3) len by (auto simp: table_sound_def p le_max_iff_disj)
  then show ?thesis using p(1) ls e by simp
qed

text \<open>Writing into the hash part.\<close>

lemma hash_lookup_retain_live:
  "distinct (map fst h) \<Longrightarrow> hash_lookup (retain_live h) k = hash_lookup h k"
  by (induction h) (auto simp: retain_live_def hash_lookup_def rev_image_eqI split: option.splits
      dest!: map_of_SomeD)

lemma distinct_retain_live: "distinct (map fst h) \<Longrightarrow> distinct (map fst (retain_live h))"
  by (simp add: retain_live_def distinct_map_filter)

text \<open>The same meaning in both parts, whatever the list of the hash part is.\<close>

definition same_map :: "table \<Rightarrow> table \<Rightarrow> bool" where
  "same_map t' t \<longleftrightarrow> tb_array t' = tb_array t \<and> hash_lookup (tb_hash t') = hash_lookup (tb_hash t) \<and>
     distinct (map fst (tb_hash t')) = distinct (map fst (tb_hash t)) \<and>
     tb_legacy_array_capacity t' = tb_legacy_array_capacity t \<and>
     tb_tracks_legacy_array_layout t' = tb_tracks_legacy_array_layout t"

lemma same_map_refl [simp]: "same_map t t"
  by (simp add: same_map_def)

lemma same_map_core: "core t' = core t \<Longrightarrow> same_map t' t"
  by (auto simp: same_map_def dest!: core_eqD)

lemma same_map_trans: "same_map a b \<Longrightarrow> same_map b c \<Longrightarrow> same_map a c"
  by (simp add: same_map_def)

lemma lookup_parts: "lookup t k = (case key_array_index k of
     Some i \<Rightarrow> if i \<le> length (tb_array t) then tb_array t ! (i - 1) else hash_lookup (tb_hash t) k
   | None \<Rightarrow> hash_lookup (tb_hash t) k)"
  by (cases "key_array_index k") (auto simp: lookup_non_index key_array_index_Some lookup_index)

lemma same_map_lookup: "same_map t' t \<Longrightarrow> lookup t' = lookup t"
  by (rule ext) (simp add: lookup_parts same_map_def split: option.split)

lemma same_map_sound: "same_map t' t \<Longrightarrow> table_sound t' = table_sound t"
  by (simp add: same_map_def table_sound_def present_iff)

lemma compact_hash_same: "distinct (map fst (tb_hash t)) \<Longrightarrow> same_map (compact_hash t) t"
  by (auto simp: compact_hash_def Let_def same_map_def rebuild_hash_order_def hash_lookup_retain_live
      distinct_retain_live fun_eq_iff)

lemma prepare_hash_same:
  assumes "distinct (map fst (tb_hash t))"
  shows "same_map (compact_when_sparse (note_hash_references k v t)) t"
proof -
  have n: "core (note_hash_references k v t) = core t" by (simp add: core_simps)
  then have "same_map (compact_hash (note_hash_references k v t)) (note_hash_references k v t)"
    using assms core_eqD [OF n] by (intro compact_hash_same) simp
  then show ?thesis
    using same_map_core [OF n] by (auto simp: compact_when_sparse_def intro: same_map_trans)
qed

definition hash_write :: "key \<Rightarrow> val \<Rightarrow> table \<Rightarrow> table \<Rightarrow> bool" where
  "hash_write k v t t' \<longleftrightarrow>
     tb_array t' = tb_array t \<and> distinct (map fst (tb_hash t')) \<and>
     hash_lookup (tb_hash t') = (hash_lookup (tb_hash t))(k := v) \<and>
     tb_legacy_array_capacity t' = tb_legacy_array_capacity t \<and>
     tb_tracks_legacy_array_layout t' = tb_tracks_legacy_array_layout t"

lemma clear_in_hash_write:
  assumes "distinct (map fst (tb_hash t))"
  shows "hash_write k VNil t (clear_in_hash k t)"
proof (cases "hm_contains k (tb_hash t)")
  case True
  have "core (t\<lparr>tb_hash_contains_heap_key := b\<rparr>) = core t"
    "core (bump_tombstones (t\<lparr>tb_hash_contains_heap_key := b\<rparr>)) = core t" for b
    by (simp_all add: core_simps)
  note this [THEN core_eqD]
  with True assms show ?thesis
    by (auto simp: clear_in_hash_def Let_def hash_write_def fun_eq_iff intro: distinct_hm_insert)
next
  case False
  then have "hash_lookup (tb_hash t) k = VNil" by (simp add: hm_contains_iff hash_lookup_def)
  with False assms show ?thesis by (auto simp: clear_in_hash_def hash_write_def)
qed

lemma hash_put_write:
  assumes "same_map s t" and "distinct (map fst (tb_hash t))"
  shows "hash_write k v t (hash_put k v s)"
  using assms by (auto simp: hash_write_def same_map_def fun_eq_iff intro: distinct_hm_insert)

lemma set_in_hash_outcome:
  assumes "set_in_hash env k v t m = (r, t', m')" and "distinct (map fst (tb_hash t))"
  shows "(r = Ok () \<and> hash_write k v t t') \<or> (\<exists>e. r = Err e \<and> same_map t' t) \<or> r = Panic \<and> \<not> platform_ok env"
proof (cases "v = VNil")
  case True
  with assms show ?thesis by (auto simp: set_in_hash_def clear_in_hash_write)
next
  case False
  define s where "s = compact_when_sparse (note_hash_references k v t)"
  have s: "same_map s t" using prepare_hash_same [OF assms(2)] by (simp add: s_def)
  let ?on = "s\<lparr>tb_hash_order_enabled := tb_hash_order_enabled s \<or> wants_order k s\<rparr>"
  let ?first = "if \<not> hm_contains k (tb_hash s) then
      need (ok_or (checked_add (length (tb_hash ?on)) 1) overflow) ?on m (\<lambda>required.
        then_t (grow_hash env required ?on m) (\<lambda>t m. (Ok (), track_key k t, m)))
    else if map_of (tb_hash s) k = Some VNil then (Ok (), drop_tombstone s, m) else (Ok (), s, m)"
  have on: "core ?on = core s" by (simp add: core_simps)
  have first: "core t1 = core s \<and> (r1 = Panic \<longrightarrow> \<not> platform_ok env)" if "?first = (r1, t1, m1)" for r1 t1 m1
    using that
    by (auto simp: core_simps res_simps split: if_splits dest!: need_cases then_t_cases grow_hash_props)
  have "then_t ?first (\<lambda>t m. (Ok (), hash_put k v t, m)) = (r, t', m')"
    using assms(1) False by (simp only: set_in_hash_def Let_def s_def if_False)
  from then_t_cases [OF this] show ?thesis
  proof (elim disjE exE conjE)
    fix t1 m1
    assume f: "?first = (Ok (), t1, m1)" and "(Ok (), hash_put k v t1, m1) = (r, t', m')"
    moreover have "same_map t1 t" using same_map_trans [OF same_map_core s] first [OF f] by blast
    ultimately show ?thesis using hash_put_write [OF _ assms(2)] by auto
  next
    fix e
    assume "?first = (Err e, t', m')" "r = Err e"
    then show ?thesis using first same_map_trans [OF same_map_core s] by blast
  next
    assume "?first = (Panic, t', m')" "r = Panic"
    then show ?thesis using first by blast
  qed
qed

text \<open>Where the hash part is written: past the next index, and past a tracked layout.\<close>

definition hash_place :: "key \<Rightarrow> val \<Rightarrow> table \<Rightarrow> bool" where
  "hash_place k v t \<longleftrightarrow> (\<forall>n. key_array_index k = Some n \<longrightarrow>
     length (tb_array t) + 1 < n \<and>
     (v \<noteq> VNil \<and> tb_tracks_legacy_array_layout t \<longrightarrow> tb_legacy_array_capacity t < n))"

lemma hash_write_map:
  assumes w: "hash_write k v t t'" and sound: "table_sound t" and place: "hash_place k v t"
  shows "lookup t' = (lookup t)(k := v) \<and> table_sound t'"
proof
  have out: "length (tb_array t) < n" if "key_array_index k = Some n" for n
    using place that by (auto simp: hash_place_def)
  show "lookup t' = (lookup t)(k := v)"
  proof
    fix k'
    show "lookup t' k' = ((lookup t)(k := v)) k'"
      using w out by (cases "key_array_index k'") (auto simp: lookup_parts hash_write_def fun_upd_def)
  qed
  have "present_integer (tb_hash t') n \<Longrightarrow> present_integer (tb_hash t) n \<or> (v \<noteq> VNil \<and> k = KInteger (int n))" for n
    using w by (auto simp: present_iff hash_write_def split: if_splits)
  moreover have "hash_place (KInteger (int n)) v t \<Longrightarrow> 0 < n \<Longrightarrow> length (tb_array t) + 1 < n \<and>
      (v \<noteq> VNil \<and> tb_tracks_legacy_array_layout t \<longrightarrow> tb_legacy_array_capacity t < n)" for n
    by (simp add: hash_place_def)
  ultimately show "table_sound t'"
    using sound w place unfolding table_sound_def hash_write_def
    by (metis (no_types, opaque_lifting) add_gr_0 less_imp_neq linorder_not_less not_gr_zero not_less_zero zero_less_one)
qed

lemma contiguous_after_not_Panic: "contiguous_hash_values_after t i \<noteq> Panic"
  by (simp add: contiguous_hash_values_after_def res_simps contiguous_not_Panic)

lemma contiguous_after_core: "core s = core t \<Longrightarrow> contiguous_hash_values_after s i = contiguous_hash_values_after t i"
  by (drule core_eqD) (simp add: contiguous_hash_values_after_def)

lemma extend_outcome:
  assumes "then_t (grow_array env required t m) (\<lambda>t m. (Ok (), extended v index promoted t, m)) = (r, t', m')"
  shows "(\<exists>s. r = Ok () \<and> core s = core t \<and> t' = extended v index promoted s) \<or>
    (\<exists>e. r = Err e \<and> core t' = core t)"
  using then_t_cases [OF assms]
proof (elim disjE exE conjE)
  fix t1 m1
  assume g: "grow_array env required t m = (Ok (), t1, m1)" and "(Ok (), extended v index promoted t1, m1) = (r, t', m')"
  then have "r = Ok ()" "t' = extended v index promoted t1" "core t1 = core t"
    using grow_array_core [OF g] by simp_all
  then show ?thesis by (intro disjI1 exI [of _ t1]) simp
next
  fix e
  assume g: "grow_array env required t m = (Err e, t', m')" and "r = Err e"
  then show ?thesis using grow_array_core [OF g] by simp
qed (simp add: grow_array_not_Panic)

text \<open>One write, whichever part it reaches.\<close>

definition write_outcome :: "platform \<Rightarrow> key \<Rightarrow> val \<Rightarrow> table \<Rightarrow> (unit, heap_error) res \<Rightarrow> table \<Rightarrow> bool" where
  "write_outcome env k v t r t' \<longleftrightarrow>
     (r = Ok () \<and> lookup t' = (lookup t)(k := v) \<and> table_sound t') \<or>
     (\<exists>e. r = Err e \<and> lookup t' = lookup t \<and> table_sound t') \<or> r = Panic \<and> \<not> platform_ok env"

lemma write_outcome_core: "core t' = core t \<Longrightarrow> table_sound t \<Longrightarrow> write_outcome env k v t (Err e) t'"
  using lookup_core [of t' t] sound_core [of t' t] by (simp add: write_outcome_def)

lemma extend_write:
  assumes "then_t (grow_array env required t m) (\<lambda>t m. (Ok (), extended v index promoted t, m)) = (r, t', m')"
    and sound: "table_sound t" and len: "length (tb_array t) < index"
    and gap: "\<forall>n. length (tb_array t) < n \<and> n < index \<longrightarrow> \<not> present_integer (tb_hash t) n"
    and run: "contiguous_hash_values_after t index = Ok promoted"
  shows "write_outcome env (KInteger (int index)) v t r t'"
  using extend_outcome [OF assms(1)]
proof (elim disjE exE conjE)
  fix s
  assume r: "r = Ok ()" "t' = extended v index promoted s" and c: "core s = core t"
  have "table_sound s" "contiguous_hash_values_after s index = Ok promoted"
    using sound run sound_core [OF c] contiguous_after_core [OF c] by auto
  moreover have "length (tb_array s) < index"
    "\<forall>n. length (tb_array s) < n \<and> n < index \<longrightarrow> \<not> present_integer (tb_hash s) n"
    using core_eqD [OF c] len gap by auto
  ultimately show ?thesis
    using r extended_map [of s index promoted v] lookup_core [OF c] by (simp add: write_outcome_def)
next
  fix e
  assume "r = Err e" "core t' = core t"
  then show ?thesis using write_outcome_core sound by simp
qed

lemma set_past_boundary_write:
  assumes "set_past_boundary env v index t m = (r, t', m')" and sound: "table_sound t"
    and "length (tb_array t) + 1 < index" "tb_tracks_legacy_array_layout t"
    "index \<le> saturating_add (tb_legacy_array_capacity t) 1"
  shows "write_outcome env (KInteger (int index)) v t r t'"
  using need_cases [OF assms(1) [unfolded set_past_boundary_def]]
proof (elim disjE exE conjE)
  fix promoted
  assume run: "contiguous_hash_values_after t index = Ok promoted"
    and "need (ok_or (checked_add index promoted) overflow) t m (\<lambda>required.
      then_t (grow_array env required t m) (\<lambda>t m. (Ok (), settle_legacy (promote_contiguous promoted
        (push_array v (note_array_reference (contains_heap_reference v) (fill_array index t)))), m))) = (r, t', m')"
  note rest = this(2) [folded extended_def]
  have "index \<le> tb_legacy_array_capacity t + 1" using assms(5) by (simp add: saturating_add_def)
  then have gap: "\<forall>n. length (tb_array t) < n \<and> n < index \<longrightarrow> \<not> present_integer (tb_hash t) n"
    using sound assms(4) by (simp add: table_sound_def)
  show ?thesis
    using need_cases [OF rest] extend_write [OF _ sound _ gap run] write_outcome_core [OF refl sound] assms(3)
    by (auto simp: res_simps)
qed (use write_outcome_core [OF refl sound] contiguous_after_not_Panic in auto)

lemma set_append_write:
  assumes "set_append env v index t m = (r, t', m')" and sound: "table_sound t"
    and next_index: "index = length (tb_array t) + 1"
  shows "write_outcome env (KInteger (int index)) v t r t'"
  using need_cases [OF assms(1) [unfolded set_append_def]]
proof (elim disjE exE conjE)
  fix promoted
  assume run: "contiguous_hash_values_after t index = Ok promoted"
    and rest: "need (ok_or (checked_add promoted 1) overflow) t m (\<lambda>additional.
      need (ok_or (checked_add (length (tb_array t)) additional) overflow) t m (\<lambda>required.
      then_t (grow_array env required t m) (\<lambda>t m. (Ok (), settle_legacy (promote_contiguous promoted
        (push_array v (note_array_reference (contains_heap_reference v) t))), m)))) = (r, t', m')"
  have gap: "\<forall>n. length (tb_array t) < n \<and> n < index \<longrightarrow> \<not> present_integer (tb_hash t) n"
    using next_index by auto
  have ext: "then_t (grow_array env required t m) (\<lambda>t m. (Ok (), settle_legacy (promote_contiguous promoted
        (push_array v (note_array_reference (contains_heap_reference v) t))), m)) =
      then_t (grow_array env required t m) (\<lambda>t m. (Ok (), extended v index promoted t, m))" for required
  proof (cases "grow_array env required t m")
    case (fields r1 t1 m1)
    then have "fill_array index t1 = t1"
      using next_index core_eqD [OF grow_array_core [OF fields]] by simp
    then show ?thesis by (cases r1) (simp_all add: fields extended_def)
  qed
  show ?thesis
    using need_cases [OF rest [unfolded ext]] extend_write [OF _ sound _ gap run]
      write_outcome_core [OF refl sound] next_index
    by (auto simp: res_simps dest!: need_cases)
qed (use write_outcome_core [OF refl sound] contiguous_after_not_Panic in auto)

section \<open>Writing\<close>

fun key_typed :: "key \<Rightarrow> bool" where
  "key_typed (KInteger n) = (i64_min \<le> n \<and> n \<le> i64_max)"
| "key_typed _ = True"

lemma set_in_hash_write:
  assumes "set_in_hash env k v t m = (r, t', m')" and "table_sound t" and "hash_place k v t"
  shows "write_outcome env k v t r t'"
proof -
  have d: "distinct (map fst (tb_hash t))" using assms(2) by (simp add: table_sound_def)
  from set_in_hash_outcome [OF assms(1) d] show ?thesis
    using hash_write_map [OF _ assms(2,3)] same_map_lookup [of t' t] same_map_sound [of t' t] assms(2)
    unfolding write_outcome_def by blast
qed

lemma tb_set_outcome:
  assumes s: "tb_set env k v t m = (r, t', m')" and sound: "table_sound t" and typed: "key_typed k"
  shows "write_outcome env k v t r t'"
proof (cases "key_array_index k")
  case None
  with s have "set_in_hash env k v t m = (r, t', m')" by (simp add: tb_set_def)
  then show ?thesis by (rule set_in_hash_write [OF _ sound]) (simp add: hash_place_def None)
next
  case (Some index)
  then have k: "k = KInteger (int index)" "0 < index" by (simp_all add: key_array_index_Some)
  then have room: "index \<le> usize_max" using typed by (simp add: i64_max_def usize_max_def)
  show ?thesis
  proof (cases "index \<le> length (tb_array t)")
    case True
    with s Some have "set_in_array env k v index t m = (r, t', m')" by (simp add: tb_set_def)
    from set_in_array_outcome [OF this [unfolded k(1)] k(2) True] show ?thesis unfolding k(1)
    proof (elim disjE exE conjE)
      assume "r = Ok ()" "array_write (KInteger (int index)) v index t t'"
      then show "write_outcome env (KInteger (int index)) v t r t'"
        using array_write_map [OF _ k(2) True sound] by (simp add: write_outcome_def)
    next
      fix e
      assume "r = Err e" "core t' = core t"
      then show "write_outcome env (KInteger (int index)) v t r t'"
        using write_outcome_core [OF _ sound] by simp
    qed (simp add: write_outcome_def)
  next
    case False
    let ?next = "length (tb_array t) + 1"
    have next_index: "ok_or (checked_add (length (tb_array t)) 1) overflow = Ok ?next"
      using False room by (simp add: checked_add_def)
    note step = s [unfolded tb_set_def Some option.case if_not_P [OF False] next_index need.simps]
    consider (boundary) "index = ?next" "v = VNil"
      | (past) "?next < index" "tb_tracks_legacy_array_layout t"
          "index \<le> saturating_add (tb_legacy_array_capacity t) 1" "v \<noteq> VNil"
      | (append) "index = ?next" "v \<noteq> VNil"
      | (hash) "?next < index" "\<not> (tb_tracks_legacy_array_layout t \<and>
          index \<le> saturating_add (tb_legacy_array_capacity t) 1 \<and> v \<noteq> VNil)"
      using False by force
    then show ?thesis
    proof cases
      case boundary
      with step show ?thesis
        using set_nil_boundary_map [OF sound boundary(1)] k by (auto simp: write_outcome_def)
    next
      case past
      with step have "set_past_boundary env v index t m = (r, t', m')" by simp
      from set_past_boundary_write [OF this sound past(1,2,3)] show ?thesis by (simp add: k)
    next
      case append
      with step have "set_append env v index t m = (r, t', m')" by simp
      from set_append_write [OF this sound append(1)] show ?thesis unfolding k(1) .
    next
      case hash
      then have "\<not> (index = ?next \<and> v = VNil)" "\<not> (index = ?next \<and> v \<noteq> VNil)"
        "\<not> (?next < index \<and> tb_tracks_legacy_array_layout t \<and>
          index \<le> saturating_add (tb_legacy_array_capacity t) 1 \<and> v \<noteq> VNil)" by auto
      with step have "set_in_hash env k v t m = (r, t', m')" by (simp only: if_False)
      moreover have "hash_place k v t"
        using hash Some room by (auto simp: hash_place_def saturating_add_def)
      ultimately show ?thesis by (rule set_in_hash_write [OF _ sound])
    qed
  qed
qed

definition new_table :: table where
  "new_table = \<lparr>tb_array = [], tb_array_room = 0, tb_array_capacity = 0, tb_legacy_array_capacity = 0,
     tb_tracks_legacy_array_layout = False, tb_preallocated_array_boundary = False,
     tb_nil_write_boundary = False, tb_array_contains_heap_reference = False,
     tb_hash_contains_heap_key = False, tb_hash_contains_heap_value = False,
     tb_preserve_hash_order = False, tb_hash_iteration_order = Unordered, tb_hash_order_enabled = False,
     tb_hash = [], tb_hash_capacity = 0, tb_hash_tombstones = 0, tb_hash_order = [],
     tb_hash_order_capacity = 0, tb_hash_order_positions = [], tb_mutation = 0, tb_metatable = None,
     tb_finalizer_armed = False, tb_finalizer_done = False, tb_finalizer_profile = None,
     tb_finalizer_order = 0, tb_frozen = False\<rparr>"

lemma new_table_sound: "table_sound new_table"
  by (simp add: table_sound_def new_table_def present_integer.simps)

definition sample_platform :: platform where
  "sample_platform = \<lparr>env_grants = (\<lambda>_. True), env_spare = (\<lambda>_. 0), sz_value = 16, sz_key = 16,
     sz_upvalue = 8, sz_slot = 8, sz_key_value = 32, al_key_value = 8, sz_key_usize = 24, al_key_usize = 8\<rparr>"

text \<open>Writes in a row, stopping at the first that fails.\<close>

fun tb_sets :: "platform \<Rightarrow> (key \<times> val) list \<Rightarrow> table \<Rightarrow> memory_account \<Rightarrow> tres" where
  "tb_sets env [] t m = (Ok (), t, m)"
| "tb_sets env ((k, v) # ws) t m = then_t (tb_set env k v t m) (\<lambda>t m. tb_sets env ws t m)"

text \<open>The rules that evaluate an operation on a concrete table.\<close>

lemma contiguous_from_eval:
  "int n \<le> i64_max \<Longrightarrow> \<not> present_integer h n \<Longrightarrow> contiguous_from h n c = Ok c"
  "int n \<le> i64_max \<Longrightarrow> present_integer h n \<Longrightarrow> c < usize_max \<Longrightarrow> contiguous_from h n c = contiguous_from h (n + 1) (c + 1)"
  by (subst contiguous_from.simps, simp add: hash_integer_def checked_add_def i64_max_def usize_max_def)+

lemmas table_eval = tb_set_def set_in_hash_def set_append_def set_past_boundary_def set_in_array_def set_nil_boundary_def
  grow_array_def grow_hash_def hash_part_bytes_def checked_hash_bytes_def checked_align_up_def checked_vector_bytes_def
  he_def mem_add_def try_reserve_hash_part_def try_reserve_hash_to_def try_reserve_vec_to_def try_reserve_bytes_def
  reserving_def account_reserve_def commit_replacing_def sample_platform_def new_table_def
  grown_order_capacity_def HASH_ITERATION_ORDER_THRESHOLD_def compact_when_sparse_def note_hash_references_def hm_contains_def
  wants_order_def track_key_def rebuild_hash_order_def start_hash_order_def hash_put_def
  contiguous_hash_values_after_def contiguous_from_eval hash_integer_def present_integer.simps
  push_array_def note_array_reference_def fill_array_def settle_legacy_def reservation_drop_def reservation_commit_def
  memory_account_new_def default_memory_config_def index_at_def set_at_def
  remove_hash_entry_def hm_remove_def bump_tombstones_def drop_tombstone_def is_power_of_two_def
  checked_add_def checked_sub_def checked_mul_def saturating_add_def saturating_sub_def plain_sub_def usize_max_def i64_max_def
  ensure_def Let_def

text \<open>A table whose layout is tracked, and that account.\<close>

definition sample_writes :: "(key \<times> val) list" where
  "sample_writes = [(KInteger 3, VInteger 7), (KInteger 1, VBoolean True), (KInteger 2, VNil)]"

definition sample_table :: table where
  "sample_table =
     fst (snd (tb_sets sample_platform sample_writes new_table (memory_account_new default_memory_config)))"

definition sample_account :: memory_account where
  "sample_account =
     snd (snd (tb_sets sample_platform sample_writes new_table (memory_account_new default_memory_config)))"

lemma platform_ok_sample: "platform_ok sample_platform"
  by (simp add: platform_ok_def sample_platform_def is_power_of_two_def)

lemma then_t_elim:
  assumes "then_t r f = (x, t', m')"
  obtains t1 m1 where "r = (Ok (), t1, m1)" "f t1 m1 = (x, t', m')"
    | e where "r = (Err e, t', m')" "x = Err e"
    | "r = (Panic, t', m')" "x = Panic"
  using then_t_cases [OF assms] by blast

lemma tb_sets_sound:
  assumes "tb_sets env ws t m = (r, t', m')" and "table_sound t" and "\<forall>w\<in>set ws. key_typed (fst w)"
    and "platform_ok env"
  shows "table_sound t'"
  using assms
proof (induction ws arbitrary: t m)
  case Nil
  then show ?case by simp
next
  case (Cons w ws)
  obtain k v where w: "w = (k, v)" by (cases w)
  with Cons.prems have typed: "key_typed k"
    and "then_t (tb_set env k v t m) (\<lambda>t m. tb_sets env ws t m) = (r, t', m')" by auto
  from this(2) show ?case
  proof (cases rule: then_t_elim)
    case (1 t1 m1)
    with tb_set_outcome [OF 1(1) Cons.prems(2) typed] show ?thesis
      using Cons.IH [of t1 m1] Cons.prems by (simp add: write_outcome_def)
  next
    case (2 e)
    with tb_set_outcome [OF 2(1) Cons.prems(2) typed] show ?thesis by (simp add: write_outcome_def)
  next
    case 3
    with tb_set_outcome [OF 3(1) Cons.prems(2) typed] Cons.prems(4) show ?thesis by (simp add: write_outcome_def)
  qed
qed

lemma sample_table_sound: "table_sound sample_table"
proof -
  obtain r t m where s: "tb_sets sample_platform sample_writes new_table (memory_account_new default_memory_config) = (r, t, m)"
    by (metis prod_cases3)
  have "table_sound t"
    by (rule tb_sets_sound [OF s new_table_sound _ platform_ok_sample])
      (simp add: sample_writes_def i64_min_def i64_max_def)
  then show ?thesis by (simp add: sample_table_def s)
qed

text \<open>C30: A table whose split between array and hash part is sound is a map: a write that returns
  has changed the value of its key and of no other key, one that fails has changed none, both leave
  the split sound, and no write panics. A new table has a sound split, so a table that is only written
  to is a map; removing an entry of a weak table behind the back of the split can end that.\<close>

theorem tb_set_is_map_update:
  assumes "tb_set env k v t m = (r, t', m')" and "table_sound t" and "key_typed k" and "platform_ok env"
  shows "table_sound new_table \<and> table_sound t' \<and> r \<noteq> Panic \<and>
    lookup t' = (if is_ok r then (lookup t)(k := v) else lookup t)"
  using tb_set_outcome [OF assms(1-3)] assms(4) new_table_sound by (auto simp: write_outcome_def)

theorem tb_set_is_map_update_witness:
  "\<exists>t' m'. tb_set sample_platform (KInteger 3) (VInteger 8) sample_table sample_account = (Ok (), t', m') \<and>
     lookup t' = (lookup sample_table)(KInteger 3 := VInteger 8) \<and> table_sound t'"
proof -
  have "fst (tb_set sample_platform (KInteger 3) (VInteger 8) sample_table sample_account) = Ok ()"
    by (simp add: sample_table_def sample_account_def sample_writes_def table_eval)
  then obtain t' m' where s: "tb_set sample_platform (KInteger 3) (VInteger 8) sample_table sample_account = (Ok (), t', m')"
    by (metis fst_conv prod_cases3)
  have "key_typed (KInteger 3)" by (simp add: i64_min_def i64_max_def)
  from tb_set_is_map_update [OF s sample_table_sound this platform_ok_sample] s show ?thesis by simp
qed

end
