(* ===== verification/Runtime_Table_Charge.thy ===== *)
theory Runtime_Table_Charge
  imports Runtime_Table_Map
begin

text \<open>
  What a table is charged. Every write, successful or not, moves the account by exactly what the
  logical capacities of the table moved, so that the account stays the sum of what the live
  objects hold.
\<close>

text \<open>The share of \<open>Object::dynamic_bytes\<close> that a table has.\<close>

definition table_bytes :: "platform \<Rightarrow> table \<Rightarrow> (nat, memory_error) res" where
  "table_bytes env t =
     rbind (checked_vector_bytes (sz_value env) (tb_array_capacity t)) (\<lambda>array_bytes.
     rbind (hash_part_bytes env (tb_hash_capacity t) (tb_hash_order_capacity t)) (\<lambda>hash_bytes.
     mem_add array_bytes hash_bytes))"

definition caps :: "table \<Rightarrow> nat \<times> nat \<times> nat" where
  "caps t = (tb_array_capacity t, tb_hash_capacity t, tb_hash_order_capacity t)"

lemma table_bytes_caps: "caps t' = caps t \<Longrightarrow> table_bytes env t' = table_bytes env t"
  by (simp add: caps_def table_bytes_def)

text \<open>One step: the account moves with the capacities, and its configuration stays.\<close>

definition charge_step :: "platform \<Rightarrow> table \<Rightarrow> memory_account \<Rightarrow> table \<Rightarrow> memory_account \<Rightarrow> bool" where
  "charge_step env t m t' m' \<longleftrightarrow>
     (\<forall>b. table_bytes env t = Ok b \<and> b \<le> ma_current_bytes m \<longrightarrow>
        (\<exists>b'. table_bytes env t' = Ok b' \<and> b' \<le> ma_current_bytes m' \<and>
           ma_current_bytes m' + b = ma_current_bytes m + b')) \<and>
     ma_config m' = ma_config m"

lemma charge_step_same:
  "caps t' = caps t \<Longrightarrow> ma_current_bytes m' = ma_current_bytes m \<Longrightarrow> ma_config m' = ma_config m \<Longrightarrow>
     charge_step env t m t' m'"
  by (simp add: charge_step_def table_bytes_caps [of t' t])

lemma charge_step_refl: "caps t' = caps t \<Longrightarrow> charge_step env t m t' m"
  by (rule charge_step_same) simp_all

lemma charge_step_trans:
  assumes "charge_step env t m t1 m1" and "charge_step env t1 m1 t2 m2"
  shows "charge_step env t m t2 m2"
  unfolding charge_step_def
proof (intro conjI allI impI)
  fix b
  assume b: "table_bytes env t = Ok b \<and> b \<le> ma_current_bytes m"
  with assms(1) obtain b1 where 1: "table_bytes env t1 = Ok b1" "b1 \<le> ma_current_bytes m1"
    "ma_current_bytes m1 + b = ma_current_bytes m + b1" by (auto simp: charge_step_def)
  with assms(2) obtain b2 where "table_bytes env t2 = Ok b2" "b2 \<le> ma_current_bytes m2"
    "ma_current_bytes m2 + b1 = ma_current_bytes m1 + b2" by (auto simp: charge_step_def)
  with 1 show "\<exists>b'. table_bytes env t2 = Ok b' \<and> b' \<le> ma_current_bytes m2 \<and>
      ma_current_bytes m2 + b = ma_current_bytes m + b'" by (intro exI [of _ b2]) simp
qed (use assms in \<open>simp add: charge_step_def\<close>)

definition charged :: "platform \<Rightarrow> table \<Rightarrow> memory_account \<Rightarrow> tres \<Rightarrow> bool" where
  "charged env t m r \<longleftrightarrow> charge_step env t m (fst (snd r)) (snd (snd r))"

named_theorems charged_intros \<open>compositions that keep the account exact\<close>

lemma charged_same [charged_intros]: "caps t' = caps t \<Longrightarrow> charged env t m (x, t', m)"
  by (simp add: charged_def charge_step_refl)

lemma charged_need [charged_intros]:
  "(\<And>x. r = Ok x \<Longrightarrow> charged env t m (f x)) \<Longrightarrow> caps s = caps t \<Longrightarrow> charged env t m (need r s m f)"
  by (cases r) (simp_all add: charged_same)

lemma charged_then [charged_intros]:
  assumes "charged env t m r" and "\<And>t1 m1. charged env t1 m1 (f t1 m1)"
  shows "charged env t m (then_t r f)"
proof -
  obtain x t1 m1 where r: "r = (x, t1, m1)" by (cases r)
  show ?thesis
  proof (cases x)
    case (Ok u)
    with r assms assms(2) [of t1 m1] show ?thesis
      unfolding charged_def by (auto intro: charge_step_trans)
  qed (use r assms(1) in \<open>simp_all add: charged_def\<close>)
qed

lemma charged_from: "charged env s m r \<Longrightarrow> caps s = caps t \<Longrightarrow> charged env t m r"
  unfolding charged_def by (blast intro: charge_step_trans charge_step_refl)

section \<open>Growth\<close>

text \<open>A replaced charge moves the account by the difference; any other outcome restores it.\<close>

lemma charge_sel [simp]:
  "ma_current_bytes (charge m n) = ma_current_bytes m + n" "ma_config (charge m n) = ma_config m"
  by (simp_all add: charge_def)

lemma reserving_charge:
  assumes "reserving m n work old = (r, m')" and "work \<noteq> Panic"
  shows "ma_config m' = ma_config m \<and>
    (if is_ok r then ma_current_bytes m' + old = ma_current_bytes m + n \<and> is_ok work \<and> is_ok (account_reserve m n)
     else ma_current_bytes m' = ma_current_bytes m)"
proof (cases "account_reserve m n")
  case (Ok m1)
  then have "m1 = charge m n" by (simp add: res_simps)
  with Ok assms show ?thesis
    by (cases work) (auto simp: reserving_def commit_replacing_charge he_def split: if_splits)
qed (use assms in \<open>auto simp: reserving_def\<close>)

text \<open>A part that grows from \<open>a\<close> bytes to \<open>a'\<close> within what an account can hold.\<close>

lemma array_charge_step:
  assumes "caps t' = (n, tb_hash_capacity t, tb_hash_order_capacity t)" and "ma_config m' = ma_config m"
    and "tb_array_capacity t * sz_value env \<le> ma_current_bytes m \<longrightarrow>
      ma_current_bytes m' + tb_array_capacity t * sz_value env = ma_current_bytes m + n * sz_value env \<and>
      (ma_current_bytes m' \<le> usize_max \<or> n * sz_value env = tb_array_capacity t * sz_value env)"
  shows "charge_step env t m t' m'"
  unfolding charge_step_def
proof (intro conjI allI impI)
  fix b
  assume b: "table_bytes env t = Ok b \<and> b \<le> ma_current_bytes m"
  let ?a = "tb_array_capacity t * sz_value env"
  from b obtain h where h: "hash_part_bytes env (tb_hash_capacity t) (tb_hash_order_capacity t) = Ok h" "b = ?a + h"
    by (auto simp: table_bytes_def res_simps)
  with b assms(3) have c: "ma_current_bytes m' + ?a = ma_current_bytes m + n * sz_value env"
    "ma_current_bytes m' \<le> usize_max \<or> n * sz_value env = ?a"
    by simp_all
  with b h have "n * sz_value env + h \<le> ma_current_bytes m'" by simp
  moreover from this c(2) h(1) b have "table_bytes env t' = Ok (n * sz_value env + h)"
    using assms(1) by (auto simp: table_bytes_def caps_def res_simps)
  ultimately show "\<exists>b'. table_bytes env t' = Ok b' \<and> b' \<le> ma_current_bytes m' \<and>
      ma_current_bytes m' + b = ma_current_bytes m + b'" using c h(2) by simp
qed (rule assms(2))

lemma hash_charge_step:
  assumes "caps t' = (tb_array_capacity t, c, d)" and "ma_config m' = ma_config m"
    and "hash_part_bytes env (tb_hash_capacity t) (tb_hash_order_capacity t) = Ok h"
    and "hash_part_bytes env c d = Ok h'"
    and "h \<le> ma_current_bytes m \<longrightarrow> ma_current_bytes m' + h = ma_current_bytes m + h' \<and> ma_current_bytes m' \<le> usize_max"
  shows "charge_step env t m t' m'"
  unfolding charge_step_def
proof (intro conjI allI impI)
  fix b
  assume b: "table_bytes env t = Ok b \<and> b \<le> ma_current_bytes m"
  let ?a = "tb_array_capacity t * sz_value env"
  from b assms(3) have a: "b = ?a + h" by (auto simp: table_bytes_def res_simps)
  with b assms(5) have c: "ma_current_bytes m' + h = ma_current_bytes m + h'" "ma_current_bytes m' \<le> usize_max"
    by simp_all
  with b a have "?a + h' \<le> ma_current_bytes m'" by simp
  moreover from this c(2) assms(4) have "table_bytes env t' = Ok (?a + h')"
    using assms(1) by (auto simp: table_bytes_def caps_def res_simps)
  ultimately show "\<exists>b'. table_bytes env t' = Ok b' \<and> b' \<le> ma_current_bytes m' \<and>
      ma_current_bytes m' + b = ma_current_bytes m + b'" using c a by simp
qed (rule assms(2))

lemma charge_fits_usize: "charge_fits m n \<Longrightarrow> ma_current_bytes m + n \<le> usize_max"
  by (simp add: charge_fits_def)

lemma caps_simps [simp]:
  "caps (t\<lparr>tb_array_capacity := a\<rparr>) = (a, tb_hash_capacity t, tb_hash_order_capacity t)"
  "caps (t\<lparr>tb_array_room := r\<rparr>) = caps t"
  "caps (rebuild_hash_order t) = caps t"
  "caps (t\<lparr>tb_hash_order := o1, tb_hash_order_positions := o2\<rparr>) = caps t"
  "caps (t\<lparr>tb_hash_capacity := c, tb_hash_order_capacity := d\<rparr>) = (tb_array_capacity t, c, d)"
  by (simp_all add: caps_def rebuild_hash_order_def)

lemma caps_fold: "(\<And>x t. caps (f x t) = caps t) \<Longrightarrow> caps (fold f xs t) = caps t"
  by (induction xs arbitrary: t) simp_all

lemma grow_array_charged: "charged env t m (grow_array env n t m)"
proof -
  let ?a = "tb_array_capacity t * sz_value env"
  consider (fits) "n \<le> tb_array_capacity t" | (room) "tb_array_capacity t < n" "n \<le> tb_array_room t"
    | (move) "tb_array_capacity t < n" "tb_array_room t < n" by linarith
  then show ?thesis
  proof cases
    case fits
    then show ?thesis by (simp add: grow_array_def charged_same)
  next
    case room
    then have le: "?a \<le> n * sz_value env" by simp
    have step: "charge_step env t m (t\<lparr>tb_array_capacity := n\<rparr>) m'"
      if "ma_config m' = ma_config m" "ma_current_bytes m' + ?a = ma_current_bytes m + n * sz_value env"
        "ma_current_bytes m' \<le> usize_max \<or> n * sz_value env = ?a" for m'
      using that by (intro array_charge_step [where n = n]) simp_all
    have grown: "charge_step env t m (t\<lparr>tb_array_capacity := n\<rparr>) (charge m (n * sz_value env - ?a))"
      if "charge_fits m (n * sz_value env - ?a)"
      using charge_fits_usize [OF that] le by (intro step) (simp_all only: charge_sel, simp_all)
    have flat: "charge_step env t m (t\<lparr>tb_array_capacity := n\<rparr>) m" if "n * sz_value env - ?a = 0"
      using that le by (intro step) auto
    show ?thesis
      using room flat grown
      by (auto simp: grow_array_def Let_def saturating_sub_def charged_def res_simps charge_step_refl
          reservation_commit_def dest: charge_fits_usize
          split: res.splits intro!: charged_need [unfolded charged_def])
  next
    case move
    let ?work = "try_reserve_vec_to env (sz_value env) n"
    obtain r m' where g: "reserving m (n * sz_value env) ?work ?a = (r, m')"
      by (cases "reserving m (n * sz_value env) ?work ?a")
    have work: "?work \<noteq> Panic" by (rule try_reserve_not_Panic(2))
    have step: "charge_step env t m t' m'"
      if "caps t' = (if is_ok r then (n, tb_hash_capacity t, tb_hash_order_capacity t) else caps t)" for t'
    proof (cases "is_ok r")
      case True
      with reserving_charge [OF g work] that show ?thesis
        by (intro array_charge_step [where n = n]) (auto simp: is_ok_iff res_simps dest: charge_fits_usize)
    next
      case False
      with reserving_charge [OF g work] that show ?thesis by (intro charge_step_same) simp_all
    qed
    show ?thesis
      using move step
      by (auto simp: grow_array_def Let_def g charged_def res_simps charge_step_refl
          split: res.splits intro!: charged_need [unfolded charged_def])
  qed
qed

lemma grow_hash_charged:
  assumes "platform_ok env"
  shows "charged env t m (grow_hash env n t m)"
proof (cases "max (tb_hash_capacity t) n = tb_hash_capacity t \<and> grown_order_capacity t n False = tb_hash_order_capacity t")
  case True
  then show ?thesis by (simp add: grow_hash_def Let_def charged_same)
next
  case False
  let ?c = "max (tb_hash_capacity t) n" and ?d = "grown_order_capacity t n False"
  let ?work = "try_reserve_hash_part env ?c ?d"
  have part: "charged env t m
     (let (r, m') = reserving m new_bytes ?work old_bytes;
          t' = (if is_ok (account_reserve m new_bytes) \<and> is_ok ?work then start_hash_order ?d t else t)
      in case r of
           Ok _ \<Rightarrow> (Ok (), rebuild_hash_order (t'\<lparr>tb_hash_capacity := ?c, tb_hash_order_capacity := ?d\<rparr>), m')
         | Err e \<Rightarrow> (Err e, t', m') | Panic \<Rightarrow> (Panic, t', m'))"
    if h: "hash_part_bytes env (tb_hash_capacity t) (tb_hash_order_capacity t) = Ok old_bytes"
      "hash_part_bytes env ?c ?d = Ok new_bytes" for old_bytes new_bytes
  proof -
    have work: "?work \<noteq> Panic" by (rule try_reserve_not_Panic(1) [OF assms])
    obtain r m' where g: "reserving m new_bytes ?work old_bytes = (r, m')"
      by (cases "reserving m new_bytes ?work old_bytes")
    note r = reserving_charge [OF g work]
    have start: "caps (start_hash_order ?d t) = caps t"
      unfolding start_hash_order_def by (auto intro!: caps_fold)
    show ?thesis
    proof (cases "is_ok r")
      case True
      then obtain u where u: "r = Ok u" by (auto simp: is_ok_iff)
      have "charge_step env t m t' m'" if "caps t' = (tb_array_capacity t, ?c, ?d)" for t'
        by (rule hash_charge_step [OF that _ h]) (use r True in \<open>auto simp: is_ok_iff res_simps dest: charge_fits_usize\<close>)
      moreover have "tb_array_capacity (start_hash_order ?d t) = tb_array_capacity t"
        using start by (simp add: caps_def)
      ultimately show ?thesis by (simp add: g u charged_def Let_def)
    next
      case False
      have "charge_step env t m t' m'" if "caps t' = caps t" for t'
        by (rule charge_step_same [OF that]) (use r False in simp_all)
      then show ?thesis using start False by (cases r) (simp_all add: g charged_def Let_def)
    qed
  qed
  show ?thesis
    using False part
    by (auto simp: grow_hash_def Let_def res_simps intro!: charged_need)
qed

section \<open>Writes\<close>

lemma caps_updates [simp]:
  "caps (t\<lparr>tb_array := a\<rparr>) = caps t" "caps (t\<lparr>tb_hash := h\<rparr>) = caps t"
  "caps (t\<lparr>tb_hash_tombstones := n\<rparr>) = caps t" "caps (t\<lparr>tb_hash_order := ks\<rparr>) = caps t"
  "caps (t\<lparr>tb_hash_order_enabled := b\<rparr>) = caps t" "caps (t\<lparr>tb_legacy_array_capacity := l\<rparr>) = caps t"
  "caps (t\<lparr>tb_nil_write_boundary := c\<rparr>) = caps t" "caps (t\<lparr>tb_hash_contains_heap_key := d\<rparr>) = caps t"
  "caps (t\<lparr>tb_tracks_legacy_array_layout := e\<rparr>) = caps t"
  "caps (t\<lparr>tb_hash_contains_heap_key := d, tb_hash_contains_heap_value := f\<rparr>) = caps t"
  "caps (t\<lparr>tb_array_contains_heap_reference := g\<rparr>) = caps t"
  by (simp_all add: caps_def)

lemma caps_steps [simp]:
  "caps (bump_tombstones t) = caps t" "caps (drop_tombstone t) = caps t" "caps (hash_put k v t) = caps t"
  "caps (push_array v t) = caps t" "caps (note_array_reference r t) = caps t" "caps (fill_array i t) = caps t"
  "caps (settle_legacy t) = caps t" "caps (note_hash_references k v t) = caps t"
  "caps (push_hash_order_key k t) = caps t" "caps (track_key k t) = caps t" "caps (compact_hash t) = caps t"
  "caps (compact_when_sparse t) = caps t" "caps (clear_in_hash k t) = caps t" "caps (set_nil_boundary i t) = caps t"
  "caps (snd (remove_hash_entry k t)) = caps t"
  by (simp_all add: bump_tombstones_def drop_tombstone_def hash_put_def push_array_def note_array_reference_def
      fill_array_def settle_legacy_def note_hash_references_def push_hash_order_key_def track_key_def
      compact_hash_def compact_when_sparse_def clear_in_hash_def set_nil_boundary_def remove_hash_entry_def Let_def)

lemma caps_promote [simp]: "caps (promote_contiguous n t) = caps t"
proof (induction n arbitrary: t)
  case (Suc n)
  have "caps (snd (remove_hash_entry k t)) = caps t" for k by simp
  then show ?case using Suc by (auto split: prod.split option.split simp del: caps_steps(15)) (metis snd_conv)+
qed simp

lemma tb_set_charged:
  assumes "platform_ok env"
  shows "charged env t m (tb_set env k v t m)"
proof -
  note grow = grow_array_charged grow_hash_charged [OF assms]
  have hash: "charged env t m (set_in_hash env k v t m)"
    unfolding set_in_hash_def Let_def
    by (auto intro!: charged_intros grow charged_from [OF grow_hash_charged [OF assms]])
  have arr: "charged env t m (set_in_array env k v i t m)" for i
    unfolding set_in_array_def Let_def by (auto intro!: charged_intros grow)
  have past: "charged env t m (set_past_boundary env v i t m)" for i
    unfolding set_past_boundary_def by (intro charged_intros grow) simp_all
  have app: "charged env t m (set_append env v i t m)" for i
    unfolding set_append_def by (intro charged_intros grow) simp_all
  show ?thesis
    unfolding tb_set_def using hash arr past app by (auto split: option.split intro!: charged_intros)
qed

text \<open>
  C31: writing to a table keeps its charge exact. Whatever the outcome, the account moves by the
  difference of what the table's capacities are charged, and never falls short of it.
\<close>

theorem tb_set_charge_exact:
  assumes "platform_ok env" and "tb_set env k v t m = (r, t', m')"
    and "table_bytes env t = Ok b" and "b \<le> ma_current_bytes m"
  shows "\<exists>b'. table_bytes env t' = Ok b' \<and> b' \<le> ma_current_bytes m' \<and>
    ma_current_bytes m' + b = ma_current_bytes m + b' \<and> ma_config m' = ma_config m"
  using tb_set_charged [OF assms(1), of t m k v] assms(2-4) by (auto simp: charged_def charge_step_def)

theorem tb_set_charge_exact_witness:
  "\<exists>r t' m' b'. tb_set sample_platform (KString [1]) (VInteger 8) new_table (memory_account_new default_memory_config) = (r, t', m') \<and>
     table_bytes sample_platform t' = Ok b' \<and> ma_current_bytes m' = b'"
proof -
  obtain r t' m' where s: "tb_set sample_platform (KString [1]) (VInteger 8) new_table (memory_account_new default_memory_config) = (r, t', m')"
    by (metis prod_cases3)
  have "table_bytes sample_platform new_table = Ok 0" by (simp add: table_bytes_def table_eval)
  from tb_set_charge_exact [OF platform_ok_sample s this] show ?thesis
    using s by (auto simp: memory_account_new_def)
qed

end
