(* ===== verification/Runtime_Heap.thy ===== *)
theory Runtime_Heap
  imports Runtime_Table_Charge Luau_Chunk
begin

text \<open>
  The arena of \<open>blu-runtime/src/heap.rs\<close>: slots with generations, allocation and the operations
  on the objects. The type parameter is the BluV1 artifact, which the heap only stores. A mutable
  operation returns its result and the heap it leaves.
\<close>

section \<open>Objects and slots\<close>

datatype 'b closure_code = CodeLuau chunk | CodeBlu 'b

record 'b closure =
  cl_code :: "'b closure_code"
  cl_prototype :: nat
  cl_profile :: semantic_profile
  cl_upvalues :: "upvalue_id list"
  cl_upvalue_capacity :: nat
  cl_environment :: "table_id option"

record native_closure =
  nc_function :: "32 word"
  nc_upvalues :: "upvalue_id list"
  nc_upvalue_capacity :: nat

record thread =
  th_roots :: "val list"
  th_root_capacity :: nat
  th_upvalues :: "upvalue_id list"
  th_upvalue_capacity :: nat

record userdata =
  ud_tag :: bytes
  ud_metatable :: "table_id option"
  ud_user_values :: "val list"
  ud_user_value_capacity :: nat
  ud_finalizer_armed :: bool
  ud_finalizer_done :: bool
  ud_finalizer_profile :: "semantic_profile option"
  ud_finalizer_order :: "64 word"

datatype 'b obj =
    OTable table
  | OClosure "'b closure"
  | ONativeClosure native_closure
  | OUpvalue val
  | OThread thread
  | OUserData userdata

record 'b slot =
  sl_generation :: "32 word"
  sl_marked :: bool
  sl_object :: "'b obj option"

record 'b heap =
  hp_slots :: "'b slot list"
  hp_free :: "32 word list"
  hp_live_indices :: "32 word list"
  hp_live :: nat
  hp_memory :: memory_account
  hp_string_bytes :: nat
  hp_has_weak_tables :: bool
  hp_next_finalizer_order :: "64 word"

definition heap_try_new :: "memory_config \<Rightarrow> 'b heap" where
  "heap_try_new config =
     \<lparr>hp_slots = [], hp_free = [], hp_live_indices = [], hp_live = 0,
      hp_memory = memory_account_new config, hp_string_bytes = 0, hp_has_weak_tables = False,
      hp_next_finalizer_order = 0\<rparr>"

fun dynamic_bytes :: "platform \<Rightarrow> 'b obj \<Rightarrow> (nat, memory_error) res" where
  "dynamic_bytes env (OTable t) = table_bytes env t"
| "dynamic_bytes env (OClosure c) = checked_vector_bytes (sz_upvalue env) (cl_upvalue_capacity c)"
| "dynamic_bytes env (ONativeClosure c) = checked_vector_bytes (sz_upvalue env) (nc_upvalue_capacity c)"
| "dynamic_bytes env (OThread th) =
     rbind (checked_vector_bytes (sz_value env) (th_root_capacity th)) (\<lambda>a.
     rbind (checked_vector_bytes (sz_upvalue env) (th_upvalue_capacity th)) (\<lambda>b. mem_add a b))"
| "dynamic_bytes env (OUpvalue v) = Ok 0"
| "dynamic_bytes env (OUserData u) = checked_vector_bytes (sz_value env) (ud_user_value_capacity u)"

section \<open>Handles\<close>

definition slot_of :: "'b slot list \<Rightarrow> object_id \<Rightarrow> 'b slot option" where
  "slot_of slots i =
     (case get slots (unat (id_index i)) of
        Some s \<Rightarrow> (if sl_generation s = id_generation i then Some s else None)
      | None \<Rightarrow> None)"

definition object_in :: "'b slot list \<Rightarrow> object_id \<Rightarrow> 'b obj option" where
  "object_in slots i = (case slot_of slots i of Some s \<Rightarrow> sl_object s | None \<Rightarrow> None)"

definition heap_object :: "'b heap \<Rightarrow> object_id \<Rightarrow> 'b obj option" where
  "heap_object h i = object_in (hp_slots h) i"

text \<open>Writing through \<open>object_mut\<close>, once the handle has been checked.\<close>

definition put_in :: "'b slot list \<Rightarrow> object_id \<Rightarrow> 'b obj \<Rightarrow> 'b slot list" where
  "put_in slots i x =
     slots[unat (id_index i) := (slots ! unat (id_index i))\<lparr>sl_object := Some x\<rparr>]"

definition put_object :: "object_id \<Rightarrow> 'b obj \<Rightarrow> 'b heap \<Rightarrow> 'b heap" where
  "put_object i x h = h\<lparr>hp_slots := put_in (hp_slots h) i x\<rparr>"

definition heap_table :: "'b heap \<Rightarrow> table_id \<Rightarrow> (table, heap_error) res" where
  "heap_table h i = (case heap_object h i of Some (OTable t) \<Rightarrow> Ok t | _ \<Rightarrow> Err (StaleTable i))"

definition heap_closure :: "'b heap \<Rightarrow> closure_id \<Rightarrow> ('b closure, heap_error) res" where
  "heap_closure h i = (case heap_object h i of Some (OClosure c) \<Rightarrow> Ok c | _ \<Rightarrow> Err (StaleClosure i))"

definition heap_userdata :: "'b heap \<Rightarrow> userdata_id \<Rightarrow> (userdata, heap_error) res" where
  "heap_userdata h i = (case heap_object h i of Some (OUserData u) \<Rightarrow> Ok u | _ \<Rightarrow> Err (StaleUserData i))"

definition heap_thread :: "'b heap \<Rightarrow> thread_id \<Rightarrow> (thread, heap_error) res" where
  "heap_thread h i = (case heap_object h i of Some (OThread th) \<Rightarrow> Ok th | _ \<Rightarrow> Err (StaleThread i))"

section \<open>Allocation\<close>

type_synonym ('a, 'b) hres = "('a, heap_error) res \<times> 'b heap"

definition slot_bytes :: "platform \<Rightarrow> 'b heap \<Rightarrow> (nat, memory_error) res" where
  "slot_bytes env h = (if hp_free h = [] then checked_vector_bytes (sz_slot env) 1 else Ok 0)"

definition allocation_bytes :: "platform \<Rightarrow> 'b heap \<Rightarrow> nat \<Rightarrow> (nat, heap_error) res" where
  "allocation_bytes env h dynamic =
     rbind (he (slot_bytes env h)) (\<lambda>s. he (mem_add s dynamic))"

text \<open>The size of an index in \<open>live_indices\<close> and \<open>free\<close>, a \<open>u32\<close>.\<close>

definition sz_index :: nat where "sz_index = 4"

text \<open>The fallible part of \<open>allocate\<close>: when it fails, the reservation is dropped.\<close>

definition allocate_work ::
  "platform \<Rightarrow> 'b heap \<Rightarrow> ('b obj, heap_error) res \<Rightarrow> ('b obj, heap_error) res" where
  "allocate_work env h build =
     rbind (try_reserve_vec_exact env sz_index (length (hp_live_indices h)) 1) (\<lambda>_.
     rbind build (\<lambda>x.
     if hp_free h = []
     then rbind (ensure (length (hp_slots h) < 2 ^ 32) overflow) (\<lambda>_.
          rbind (try_reserve_vec_exact env (sz_slot env) (length (hp_slots h)) 1) (\<lambda>_. Ok x))
     else Ok x))"

definition allocate_at :: "'b obj \<Rightarrow> 'b heap \<Rightarrow> object_id \<times> 'b heap" where
  "allocate_at x h =
     (if hp_free h = [] then
        let index = word_of_nat (length (hp_slots h)) in
        (ObjectId index 0,
         h\<lparr>hp_slots := hp_slots h @ [\<lparr>sl_generation = 0, sl_marked = False, sl_object = Some x\<rparr>],
           hp_live_indices := hp_live_indices h @ [index], hp_live := hp_live h + 1\<rparr>)
      else
        let index = last (hp_free h); s = hp_slots h ! unat index in
        (ObjectId index (sl_generation s),
         h\<lparr>hp_free := butlast (hp_free h),
           hp_slots := (hp_slots h)[unat index := s\<lparr>sl_object := Some x\<rparr>],
           hp_live_indices := hp_live_indices h @ [index], hp_live := hp_live h + 1\<rparr>))"

definition heap_allocate ::
  "platform \<Rightarrow> nat \<Rightarrow> ('b obj, heap_error) res \<Rightarrow> 'b heap \<Rightarrow> (object_id, 'b) hres" where
  "heap_allocate env dynamic build h =
     (case rbind (slot_bytes env h) (\<lambda>s. mem_add s dynamic) of
        Err e \<Rightarrow> (Err (HeMemory e), h)
      | Panic \<Rightarrow> (Panic, h)
      | Ok bytes \<Rightarrow>
          (case account_reserve (hp_memory h) bytes of
             Err e \<Rightarrow> (Err (HeMemory e), h)
           | Panic \<Rightarrow> (Panic, h)
           | Ok m \<Rightarrow>
               (case allocate_work env h build of
                  Ok x \<Rightarrow>
                    (if hp_free h \<noteq> [] \<and> length (hp_slots h) \<le> unat (last (hp_free h))
                     then (Panic, h\<lparr>hp_memory := m\<rparr>)
                     else let (i, h') = allocate_at x (h\<lparr>hp_memory := reservation_commit m bytes\<rparr>) in (Ok i, h'))
                | Err e \<Rightarrow>
                    (case reservation_drop m bytes of
                       Ok m' \<Rightarrow> (Err e, h\<lparr>hp_memory := m'\<rparr>)
                     | Err e' \<Rightarrow> (Err (HeMemory e'), h\<lparr>hp_memory := m\<rparr>)
                     | Panic \<Rightarrow> (Panic, h\<lparr>hp_memory := m\<rparr>))
                | Panic \<Rightarrow> (Panic, h\<lparr>hp_memory := m\<rparr>))))"

definition try_build :: "(unit, heap_error) res \<Rightarrow> 'b obj \<Rightarrow> ('b obj, heap_error) res" where
  "try_build r x = rbind r (\<lambda>_. Ok x)"

text \<open>An allocation whose size may not be representable.\<close>

definition sized ::
  "(nat, memory_error) res \<Rightarrow> 'b heap \<Rightarrow> (nat \<Rightarrow> (object_id, 'b) hres) \<Rightarrow> (object_id, 'b) hres" where
  "sized bytes h f =
     (case bytes of Ok n \<Rightarrow> f n | Err e \<Rightarrow> (Err (HeMemory e), h) | Panic \<Rightarrow> (Panic, h))"

definition table_capacity_bytes :: "platform \<Rightarrow> nat \<Rightarrow> nat \<Rightarrow> (nat, memory_error) res" where
  "table_capacity_bytes env array_capacity hash_capacity =
     rbind (checked_vector_bytes (sz_value env) array_capacity) (\<lambda>array_bytes.
     rbind (checked_hash_bytes (sz_key_value env) (al_key_value env) hash_capacity) (\<lambda>hash_bytes.
     mem_add array_bytes hash_bytes))"

definition table_allocation_bytes :: "platform \<Rightarrow> 'b heap \<Rightarrow> nat \<Rightarrow> nat \<Rightarrow> (nat, heap_error) res" where
  "table_allocation_bytes env h array_capacity hash_capacity =
     rbind (he (table_capacity_bytes env array_capacity hash_capacity)) (allocation_bytes env h)"

definition fresh_table :: "platform \<Rightarrow> nat \<Rightarrow> nat \<Rightarrow> hash_iteration_order \<Rightarrow> table" where
  "fresh_table env array_capacity hash_capacity order =
     new_table\<lparr>tb_array_room := (if array_capacity = 0 then 0 else array_capacity + env_spare env array_capacity),
       tb_array_capacity := array_capacity, tb_legacy_array_capacity := array_capacity,
       tb_tracks_legacy_array_layout := 0 < array_capacity \<or> 0 < hash_capacity,
       tb_preserve_hash_order := order \<noteq> Unordered, tb_hash_iteration_order := order,
       tb_hash_capacity := hash_capacity\<rparr>"

definition allocate_table ::
  "platform \<Rightarrow> nat \<Rightarrow> nat \<Rightarrow> hash_iteration_order \<Rightarrow> 'b heap \<Rightarrow> (table_id, 'b) hres" where
  "allocate_table env array_capacity hash_capacity order h =
     sized (table_capacity_bytes env array_capacity hash_capacity) h (\<lambda>dynamic.
       heap_allocate env dynamic
         (try_build
            (rbind (try_reserve_vec_exact env (sz_value env) 0 array_capacity) (\<lambda>_.
             try_reserve_hash env (sz_key_value env) (al_key_value env) 0 hash_capacity))
            (OTable (fresh_table env array_capacity hash_capacity order))) h)"

definition allocate_upvalue :: "platform \<Rightarrow> val \<Rightarrow> 'b heap \<Rightarrow> (upvalue_id, 'b) hres" where
  "allocate_upvalue env v h = heap_allocate env 0 (Ok (OUpvalue v)) h"

text \<open>\<open>allocate_closure\<close> and \<open>allocate_blu_closure\<close> differ in the code they store.\<close>

definition allocate_closure ::
  "platform \<Rightarrow> 'b closure_code \<Rightarrow> nat \<Rightarrow> semantic_profile \<Rightarrow> nat \<Rightarrow> 'b heap \<Rightarrow> (closure_id, 'b) hres" where
  "allocate_closure env code prototype profile upvalue_capacity h =
     sized (checked_vector_bytes (sz_upvalue env) upvalue_capacity) h (\<lambda>dynamic.
       heap_allocate env dynamic
         (try_build (try_reserve_vec_exact env (sz_upvalue env) 0 upvalue_capacity)
            (OClosure \<lparr>cl_code = code, cl_prototype = prototype, cl_profile = profile, cl_upvalues = [],
               cl_upvalue_capacity = upvalue_capacity, cl_environment = None\<rparr>)) h)"

definition allocate_native_closure ::
  "platform \<Rightarrow> 32 word \<Rightarrow> upvalue_id list \<Rightarrow> 'b heap \<Rightarrow> (closure_id, 'b) hres" where
  "allocate_native_closure env function upvalues h =
     sized (checked_vector_bytes (sz_upvalue env) (length upvalues)) h (\<lambda>dynamic.
       heap_allocate env dynamic
         (Ok (ONativeClosure \<lparr>nc_function = function, nc_upvalues = upvalues,
            nc_upvalue_capacity = length upvalues\<rparr>)) h)"

definition allocate_thread :: "platform \<Rightarrow> val list \<Rightarrow> 'b heap \<Rightarrow> (thread_id, 'b) hres" where
  "allocate_thread env roots h =
     sized (checked_vector_bytes (sz_value env) (length roots)) h (\<lambda>dynamic.
       heap_allocate env dynamic
         (try_build (try_reserve_vec_exact env (sz_value env) 0 (length roots))
            (OThread \<lparr>th_roots = roots, th_root_capacity = length roots, th_upvalues = [],
               th_upvalue_capacity = 0\<rparr>)) h)"

definition allocate_userdata :: "platform \<Rightarrow> bytes \<Rightarrow> nat \<Rightarrow> 'b heap \<Rightarrow> (userdata_id, 'b) hres" where
  "allocate_userdata env tag user_value_capacity h =
     sized (checked_vector_bytes (sz_value env) user_value_capacity) h (\<lambda>dynamic.
       heap_allocate env dynamic
         (try_build (try_reserve_vec_exact env (sz_value env) 0 user_value_capacity)
            (OUserData \<lparr>ud_tag = tag, ud_metatable = None, ud_user_values = replicate user_value_capacity VNil,
               ud_user_value_capacity = user_value_capacity, ud_finalizer_armed = False,
               ud_finalizer_done = False, ud_finalizer_profile = None, ud_finalizer_order = 0\<rparr>)) h)"

section \<open>Accounting views\<close>

definition collectgarbage_bytes :: "platform \<Rightarrow> 'b heap \<Rightarrow> nat" where
  "collectgarbage_bytes env h =
     (let dead_slots = saturating_sub (length (hp_slots h)) (hp_live h);
          dead_slot_bytes = saturating_mul dead_slots (sz_slot env)
      in saturating_sub (mu_current_bytes (account_usage (hp_memory h))) dead_slot_bytes)"

definition heap_should_collect :: "'b heap \<Rightarrow> nat \<Rightarrow> bool" where
  "heap_should_collect h requested = should_collect (hp_memory h) requested"

definition charge_external :: "nat \<Rightarrow> 'b heap \<Rightarrow> (unit, 'b) hres" where
  "charge_external n h =
     (case account_reserve (hp_memory h) n of
        Ok m \<Rightarrow> (Ok (), h\<lparr>hp_memory := reservation_commit m n\<rparr>)
      | Err e \<Rightarrow> (Err (HeMemory e), h)
      | Panic \<Rightarrow> (Panic, h))"

definition release_external :: "nat \<Rightarrow> 'b heap \<Rightarrow> (unit, 'b) hres" where
  "release_external n h =
     (case account_release (hp_memory h) n of
        Ok m \<Rightarrow> (Ok (), h\<lparr>hp_memory := m\<rparr>)
      | Err e \<Rightarrow> (Err (HeMemory e), h)
      | Panic \<Rightarrow> (Panic, h))"

end
