(* ===== verification/Runtime_Luau_Hash.thy ===== *)
theory Runtime_Luau_Hash
  imports Runtime_Table_Map
begin

text \<open>
  The traversal order of Luau tables in \<open>blu-runtime/src/heap.rs\<close>: the hash of a key and the
  bucket layout \<open>LuauHashLayout\<close>, chained scatter with Brent's variation, which
  \<open>Table::luau_hash_order\<close> replays. The layout is shown to hold every key exactly once, with no
  panic on a broken chain and no endless walk.
\<close>

section \<open>Hashing\<close>

text \<open>Shifts by a constant below the width: \<open>wrapping_shl\<close> and \<open>>>\<close>.\<close>

definition luau_hash_u64 :: "64 word \<Rightarrow> 32 word" where
  "luau_hash_u64 x =
     (let m = 0x5bd1e995;
          low = ucast x; high = ucast (drop_bit 32 x);
          low = low XOR drop_bit 18 high;
          low = low * m;
          high = high XOR drop_bit 22 low;
          high = high * m;
          low = low XOR drop_bit 17 high;
          low = low * m;
          high = high XOR drop_bit 19 low
      in high * m)"

definition luau_hash_object :: "object_id \<Rightarrow> 32 word" where
  "luau_hash_object i = luau_hash_u64 (push_bit 32 (ucast (id_generation i)) OR ucast (id_index i))"

definition luau_hash_string :: "bytes \<Rightarrow> 32 word" where
  "luau_hash_string s =
     fold (\<lambda>byte h. h XOR (push_bit 5 h + drop_bit 2 h + ucast byte)) (rev s) (word_of_nat (length s))"

fun luau_hash :: "key \<Rightarrow> 32 word" where
  "luau_hash (KBoolean b) = (if b then 1 else 0)"
| "luau_hash (KInteger n) = luau_hash_u64 (word_of_int n)"
| "luau_hash (KNumber w) = luau_hash_u64 (if w = 0x8000000000000000 then 0 else w)"
| "luau_hash (KString s) = luau_hash_string s"
| "luau_hash (KTable i) = luau_hash_object i"
| "luau_hash (KClosure i) = luau_hash_object i"
| "luau_hash (KThread i) = luau_hash_object i"
| "luau_hash (KCoroutineFunction i) = luau_hash_object i"
| "luau_hash (KLightUserData i) = luau_hash_object i"
| "luau_hash (KUserData i) = luau_hash_object i"
| "luau_hash (KNativeFunction n) = luau_hash_u64 (ucast n)"

section \<open>The layout\<close>

record luau_layout =
  ly_slots :: "key option list"
  ly_next :: "nat option list"
  ly_last_free :: nat

datatype endless = Endless

definition layout_new :: "nat \<Rightarrow> luau_layout" where
  "layout_new capacity =
     \<lparr>ly_slots = replicate (max capacity 1) None, ly_next = replicate (max capacity 1) None,
      ly_last_free = max capacity 1\<rparr>"

definition layout_mask :: "luau_layout \<Rightarrow> 32 word" where
  "layout_mask l = word_of_nat (saturating_sub (length (ly_slots l)) 1)"

definition layout_main :: "luau_layout \<Rightarrow> key \<Rightarrow> nat" where
  "layout_main l k = unat (luau_hash k AND layout_mask l)"

fun free_from :: "nat \<Rightarrow> key option list \<Rightarrow> nat option \<times> nat" where
  "free_from 0 slots = (None, 0)"
| "free_from (Suc n) slots = (if slots ! n = None then (Some n, n) else free_from n slots)"

definition free_slot :: "luau_layout \<Rightarrow> nat option \<times> luau_layout" where
  "free_slot l =
     (let (r, last_free) = free_from (ly_last_free l) (ly_slots l)
      in (r, l\<lparr>ly_last_free := last_free\<rparr>))"

text \<open>
  \<open>while next[previous] != Some(main) { previous = next[previous].expect(..) }\<close>. A walk longer
  than the table is one that never ends.
\<close>

fun chain_walk :: "nat \<Rightarrow> nat option list \<Rightarrow> nat \<Rightarrow> nat \<Rightarrow> (nat, endless) res" where
  "chain_walk 0 next main previous = Err Endless"
| "chain_walk (Suc fuel) next main previous =
     rbind (index_at next previous) (\<lambda>n.
     if n = Some main then Ok previous
     else case n of None \<Rightarrow> Panic | Some p \<Rightarrow> chain_walk fuel next main p)"

text \<open>The insertion when there is a free slot; \<open>free\<close> is what \<open>free_slot\<close> found.\<close>

definition insert_colliding ::
  "key \<Rightarrow> nat \<Rightarrow> nat \<Rightarrow> key \<Rightarrow> luau_layout \<Rightarrow> (luau_layout, endless) res" where
  "insert_colliding k main free occupant l =
     (let occupant_main = layout_main l occupant in
      if occupant_main \<noteq> main then
        rbind (chain_walk (length (ly_next l)) (ly_next l) main occupant_main) (\<lambda>previous.
        Ok (l\<lparr>ly_slots := ((ly_slots l)[free := ly_slots l ! main])[main := Some k],
              ly_next := ((ly_next l)[free := ly_next l ! main, main := None])[previous := Some free]\<rparr>))
      else
        Ok (l\<lparr>ly_next := (ly_next l)[free := ly_next l ! main, main := Some free],
              ly_slots := (ly_slots l)[free := Some k]\<rparr>))"

text \<open>
  A full table is doubled and filled again from the last slot down. The depth is the number of
  doublings allowed in one insertion; a depth of one suffices, and traversal needs none.
\<close>

fun layout_insert :: "nat \<Rightarrow> key \<Rightarrow> luau_layout \<Rightarrow> (luau_layout, endless) res" where
  "layout_insert depth k l =
     rbind (index_at (ly_slots l) (layout_main l k)) (\<lambda>main_slot.
     case main_slot of
       None \<Rightarrow> Ok (l\<lparr>ly_slots := (ly_slots l)[layout_main l k := Some k]\<rparr>)
     | Some occupant \<Rightarrow>
         (case free_slot l of
            (Some free, l') \<Rightarrow> insert_colliding k (layout_main l k) free occupant l'
          | (None, l') \<Rightarrow>
              (case depth of
                 0 \<Rightarrow> Err Endless
               | Suc d \<Rightarrow>
                   rbind (fold_res (\<lambda>r key. case key of None \<Rightarrow> Ok r | Some key \<Rightarrow> layout_insert d key r)
                            (layout_new (max (saturating_mul (length (ly_slots l')) 2) 1)) (rev (ly_slots l')))
                     (\<lambda>l'. layout_insert d k l'))))"

text \<open>\<open>checked_next_power_of_two\<close>.\<close>

definition next_power_of_two :: "nat \<Rightarrow> nat option" where
  "next_power_of_two n =
     (let p = (if n \<le> 1 then 1 else 2 ^ bit_length (n - 1)) in if p \<le> usize_max then Some p else None)"

definition luau_order_capacity :: "table \<Rightarrow> nat" where
  "luau_order_capacity t =
     (case next_power_of_two (max (max (tb_hash_capacity t) (length (tb_hash_order t))) 1) of
        Some p \<Rightarrow> p | None \<Rightarrow> usize_max)"

definition luau_hash_order :: "table \<Rightarrow> (key list, endless) res" where
  "luau_hash_order t =
     rbind (fold_res (\<lambda>l k. layout_insert 1 k l) (layout_new (luau_order_capacity t)) (tb_hash_order t)) (\<lambda>l.
     Ok (map the (filter (\<lambda>s. s \<noteq> None) (ly_slots l))))"

section \<open>Chains\<close>

text \<open>
  The keys of one home slot form a chain: the slots are distinct, the first is the home slot, and
  each \<open>next\<close> leads to the following one. \<open>c\<close> gives the chain of every home slot.
\<close>

definition linked :: "nat option list \<Rightarrow> nat list \<Rightarrow> bool" where
  "linked next is \<longleftrightarrow> successively (\<lambda>i j. next ! i = Some j) is \<and> (is \<noteq> [] \<longrightarrow> next ! last is = None)"

definition layout_ok :: "luau_layout \<Rightarrow> (nat \<Rightarrow> nat list) \<Rightarrow> bool" where
  "layout_ok l c \<longleftrightarrow>
     length (ly_next l) = length (ly_slots l) \<and> 0 < length (ly_slots l) \<and>
     ly_last_free l \<le> length (ly_slots l) \<and>
     (\<forall>i. ly_last_free l \<le> i \<and> i < length (ly_slots l) \<longrightarrow> ly_slots l ! i \<noteq> None) \<and>
     (\<forall>h. distinct (c h) \<and> (c h \<noteq> [] \<longrightarrow> hd (c h) = h) \<and> linked (ly_next l) (c h)) \<and>
     (\<forall>h i. i \<in> set (c h) \<longrightarrow> i < length (ly_slots l) \<and> (\<exists>k. ly_slots l ! i = Some k \<and> layout_main l k = h)) \<and>
     (\<forall>i < length (ly_slots l). if ly_slots l ! i = None then ly_next l ! i = None else \<exists>h. i \<in> set (c h))"

lemma links_cong:
  "(\<And>i. i \<in> set is \<Longrightarrow> n' ! i = n ! i) \<Longrightarrow>
     successively (\<lambda>i j. n' ! i = Some j) is = successively (\<lambda>i j. n ! i = Some j) is" for n n' :: "nat option list"
  by (intro successively_cong) auto

lemma linked_update: "x \<notin> set is \<Longrightarrow> linked (next[x := v]) is \<longleftrightarrow> linked next is"
proof -
  assume x: "x \<notin> set is"
  then have same: "i \<in> set is \<Longrightarrow> next[x := v] ! i = next ! i" for i by (metis nth_list_update_neq)
  then have "successively (\<lambda>i j. next[x := v] ! i = Some j) is = successively (\<lambda>i j. next ! i = Some j) is"
    by (rule links_cong)
  moreover have "is \<noteq> [] \<Longrightarrow> next[x := v] ! last is = next ! last is" using same by simp
  ultimately show ?thesis by (auto simp: linked_def)
qed

lemma chain_walk_finds:
  assumes "successively (\<lambda>i j. next ! i = Some j) (p # ps @ [main])" and "main \<notin> set (p # ps)"
    and "\<forall>i\<in>set (p # ps). i < length next" and "length ps < fuel"
  shows "chain_walk fuel next main p = Ok (last (p # ps))"
  using assms
proof (induction ps arbitrary: p fuel)
  case Nil
  then obtain f where "fuel = Suc f" by (cases fuel) auto
  with Nil show ?case by (simp add: index_at_def)
next
  case (Cons q qs)
  then obtain f where f: "fuel = Suc f" by (cases fuel) auto
  have "chain_walk f next main q = Ok (last (q # qs))"
    by (rule Cons.IH) (use Cons.prems f in auto)
  with Cons.prems f show ?case by (simp add: index_at_def)
qed

lemma free_from_props:
  assumes "\<forall>i. n \<le> i \<and> i < length slots \<longrightarrow> slots ! i \<noteq> None" and "n \<le> length slots" and "None \<in> set slots"
  shows "\<exists>f. free_from n slots = (Some f, f) \<and> f < length slots \<and> slots ! f = None \<and>
    (\<forall>i. f < i \<and> i < length slots \<longrightarrow> slots ! i \<noteq> None)"
  using assms
proof (induction n)
  case 0
  then show ?case by (auto simp: in_set_conv_nth)
next
  case (Suc n)
  show ?case
  proof (cases "slots ! n = None")
    case True
    with Suc.prems show ?thesis by auto
  next
    case False
    have "\<forall>i. n \<le> i \<and> i < length slots \<longrightarrow> slots ! i \<noteq> None"
      using Suc.prems(1) False by (metis le_eq_less_or_eq Suc_leI)
    with Suc False show ?thesis by simp
  qed
qed

text \<open>The keys a layout holds.\<close>

definition slot_keys :: "key option list \<Rightarrow> key multiset" where
  "slot_keys slots = image_mset the (filter_mset (\<lambda>s. s \<noteq> None) (mset slots))"

lemma slot_keys_fill:
  assumes "i < length slots" and "slots ! i = None"
  shows "slot_keys (slots[i := Some k]) = add_mset k (slot_keys slots)"
  using assms by (simp add: slot_keys_def mset_update)

lemma slot_keys_move:
  assumes "f < length slots" "slots ! f = None" "m < length slots" "slots ! m = Some o1"
  shows "slot_keys ((slots[f := slots ! m])[m := Some k]) = add_mset k (slot_keys slots)"
proof -
  have "f \<noteq> m" using assms by auto
  then have n: "slots[f := slots ! m] ! m = Some o1" using assms by simp
  have "mset ((slots[f := slots ! m])[m := Some k]) = add_mset (Some k) (mset (slots[f := slots ! m]) - {#Some o1#})"
    using assms(3) n by (simp add: mset_update)
  also have "mset (slots[f := slots ! m]) = add_mset (Some o1) (mset slots - {#None#})"
    using assms by (simp add: mset_update)
  finally show ?thesis by (simp add: slot_keys_def)
qed

lemma slot_keys_size: "None \<notin> set slots \<Longrightarrow> size (slot_keys slots) = length slots"
proof -
  assume "None \<notin> set slots"
  then have "filter (\<lambda>s. s \<noteq> None) slots = slots" by (intro filter_True) metis
  then show ?thesis by (simp add: slot_keys_def flip: mset_filter)
qed

text \<open>The slot a chain grows into: one that holds no key.\<close>

lemma linked_split:
  assumes l: "linked next (xs @ p # m # ys)" and d: "distinct (xs @ p # m # ys)" and f: "f \<notin> set (xs @ p # m # ys)"
    and b: "p < length next" "m < length next" "f < length next"
  shows "linked ((next[f := next ! m, m := None])[p := Some f]) (xs @ p # f # ys)"
proof -
  let ?n = "(next[f := next ! m, m := None])[p := Some f]"
  have same: "?n ! i = next ! i" if "i \<noteq> f" "i \<noteq> m" "i \<noteq> p" for i using that by simp
  have at: "?n ! p = Some f" "?n ! f = next ! m" using b d f by auto
  have s: "successively (\<lambda>i j. next ! i = Some j) (xs @ [p])" "successively (\<lambda>i j. next ! i = Some j) (m # ys)"
    using l by (auto simp: linked_def successively_append_iff successively_Cons)
  have xs: "?n ! i = next ! i" if "i \<in> set xs" for i using that d f by (intro same) auto
  have ys: "?n ! i = next ! i" if "i \<in> set ys" for i using that d f by (intro same) auto
  have "successively (\<lambda>i j. ?n ! i = Some j) (xs @ [p])"
  proof (cases "xs = []")
    case False
    then have "?n ! last xs = next ! last xs" by (intro xs) simp
    with s(1) False show ?thesis by (simp only: successively_append_iff links_cong [OF xs]) simp
  qed simp
  moreover have "successively (\<lambda>i j. ?n ! i = Some j) (f # ys)"
    using s(2) links_cong [OF ys] at by (auto simp: successively_Cons)
  ultimately have "successively (\<lambda>i j. ?n ! i = Some j) (xs @ p # f # ys)"
    using at by (auto simp: successively_append_iff successively_Cons)
  moreover have "?n ! last (f # ys) = None"
  proof (cases ys rule: rev_cases)
    case Nil
    then show ?thesis using l at by (simp add: linked_def)
  next
    case (snoc zs z)
    then show ?thesis using l same [of z] d f by (auto simp: linked_def)
  qed
  ultimately show ?thesis by (simp add: linked_def)
qed

lemma linked_insert_second:
  assumes l: "linked next (m # ys)" and d: "distinct (m # ys)" and f: "f \<notin> set (m # ys)"
    and b: "m < length next" "f < length next"
  shows "linked (next[f := next ! m, m := Some f]) (m # f # ys)"
proof -
  let ?n = "next[f := next ! m, m := Some f]"
  have same: "?n ! i = next ! i" if "i \<noteq> f" "i \<noteq> m" for i using that by simp
  have at: "?n ! m = Some f" "?n ! f = next ! m" using b d f by auto
  have ys: "?n ! i = next ! i" if "i \<in> set ys" for i using that d f by (intro same) auto
  have "successively (\<lambda>i j. ?n ! i = Some j) (f # ys)"
    using l links_cong [OF ys] at by (auto simp: linked_def successively_Cons)
  moreover have "?n ! last (f # ys) = None"
  proof (cases ys rule: rev_cases)
    case Nil
    then show ?thesis using l at by (simp add: linked_def)
  next
    case (snoc zs z)
    then show ?thesis using l same [of z] d f by (auto simp: linked_def)
  qed
  ultimately show ?thesis using at by (simp add: linked_def successively_Cons)
qed

lemma layout_okD:
  assumes "layout_ok l c"
  shows "length (ly_next l) = length (ly_slots l)" "0 < length (ly_slots l)"
    "ly_last_free l \<le> length (ly_slots l)"
    "\<And>i. ly_last_free l \<le> i \<Longrightarrow> i < length (ly_slots l) \<Longrightarrow> ly_slots l ! i \<noteq> None"
    "\<And>h. distinct (c h)" "\<And>h. c h \<noteq> [] \<Longrightarrow> hd (c h) = h" "\<And>h. linked (ly_next l) (c h)"
    "\<And>h i. i \<in> set (c h) \<Longrightarrow> i < length (ly_slots l)"
    "\<And>h i. i \<in> set (c h) \<Longrightarrow> \<exists>k. ly_slots l ! i = Some k \<and> layout_main l k = h"
    "\<And>i. i < length (ly_slots l) \<Longrightarrow> ly_slots l ! i = None \<Longrightarrow> ly_next l ! i = None"
    "\<And>i. i < length (ly_slots l) \<Longrightarrow> ly_slots l ! i \<noteq> None \<Longrightarrow> \<exists>h. i \<in> set (c h)"
  using assms unfolding layout_ok_def by (blast, blast, blast, blast, blast, blast, blast, blast, blast, metis, metis)

lemma layout_main_less: "0 < length (ly_slots l) \<Longrightarrow> layout_main l k < length (ly_slots l)"
proof -
  assume pos: "0 < length (ly_slots l)"
  have "unat (luau_hash k AND layout_mask l) \<le> unat (layout_mask l)"
    by (simp add: word_and_le1 flip: word_le_nat_alt)
  also have "\<dots> \<le> length (ly_slots l) - 1" by (simp add: layout_mask_def saturating_sub_def unat_of_nat)
  finally show ?thesis unfolding layout_main_def using pos by linarith
qed

lemma layout_main_length: "length (ly_slots l') = length (ly_slots l) \<Longrightarrow> layout_main l' k = layout_main l k"
  by (simp add: layout_main_def layout_mask_def)

lemma layout_main_update [simp]: "layout_main (l\<lparr>ly_slots := (ly_slots l)[j := x]\<rparr>) y = layout_main l y"
  by (rule layout_main_length) simp

text \<open>A home slot that is empty or held by a key from elsewhere has no chain yet.\<close>

lemma no_chain:
  assumes "layout_ok l c" and "\<And>o1. ly_slots l ! h = Some o1 \<Longrightarrow> layout_main l o1 \<noteq> h"
  shows "c h = []"
proof (rule ccontr)
  assume "c h \<noteq> []"
  then have "h \<in> set (c h)" using layout_okD(6) [OF assms(1)] by (metis list.set_sel(1))
  with layout_okD(9) [OF assms(1)] assms(2) show False by blast
qed

lemma insert_empty_ok:
  assumes ok: "layout_ok l c" and m: "m = layout_main l k" "ly_slots l ! m = None"
  shows "layout_ok (l\<lparr>ly_slots := (ly_slots l)[m := Some k]\<rparr>) (c(m := [m]))"
proof -
  note D = layout_okD [OF ok]
  have less: "m < length (ly_slots l)" using layout_main_less D(2) m(1) by simp
  have none: "c m = []" using m by (intro no_chain [OF ok]) simp
  have out: "m \<notin> set (c h)" for h using D(9) [of m h] m(2) by auto
  let ?l = "l\<lparr>ly_slots := (ly_slots l)[m := Some k]\<rparr>"
  show ?thesis
    unfolding layout_ok_def
  proof (intro conjI allI impI)
    fix h
    show "hd ((c(m := [m])) h) = h" if "(c(m := [m])) h \<noteq> []" using D(6) [of h] that by (cases "h = m") simp_all
    show "linked (ly_next ?l) ((c(m := [m])) h)" using D(7) [of h] D(10) [OF less m(2)] by (simp add: linked_def)
    fix i
    assume "i \<in> set ((c(m := [m])) h)"
    then consider "h = m" "i = m" | "i \<in> set (c h)" "i \<noteq> m" using out [of h] by (auto split: if_splits)
    then have "(\<exists>x. ly_slots ?l ! i = Some x \<and> layout_main l x = h) \<and> i < length (ly_slots l)"
    proof cases
      case 1
      then show ?thesis using less m(1) by simp
    next
      case 2
      have "ly_slots ?l ! i = ly_slots l ! i" using 2(2) by simp
      with D(8) [OF 2(1)] D(9) [OF 2(1)] show ?thesis by metis
    qed
    then show "\<exists>x. ly_slots ?l ! i = Some x \<and> layout_main ?l x = h" "i < length (ly_slots ?l)" by simp_all
  next
    fix i
    assume "i < length (ly_slots ?l)"
    then have i: "i < length (ly_slots l)" by simp
    show "if ly_slots ?l ! i = None then ly_next ?l ! i = None else \<exists>h. i \<in> set ((c(m := [m])) h)"
    proof (cases "i = m")
      case True
      then have "i \<in> set ((c(m := [m])) m)" by simp
      moreover have "ly_slots ?l ! i \<noteq> None" using True less by simp
      ultimately show ?thesis by (simp only: if_False) blast
    next
      case False
      then have same: "ly_slots ?l ! i = ly_slots l ! i" by simp
      show ?thesis
      proof (cases "ly_slots l ! i = None")
        case True
        with D(10) [OF i] same show ?thesis by simp
      next
        case False
        then obtain h where h: "i \<in> set (c h)" using D(11) [OF i] by blast
        with none have "h \<noteq> m" by auto
        with h have "i \<in> set ((c(m := [m])) h)" by simp
        with False same show ?thesis by (simp only: if_False) blast
      qed
    qed
  next
    fix i
    assume "ly_last_free ?l \<le> i \<and> i < length (ly_slots ?l)"
    then show "ly_slots ?l ! i \<noteq> None" using D(4) [of i] less by (cases "i = m") simp_all
  qed (use D less in simp_all)
qed

text \<open>A free slot that takes a key or a moved one, with the chains that grew.\<close>

lemma grown_ok:
  assumes ok: "layout_ok l c" and f: "f < length (ly_slots l)" "ly_slots l ! f = None"
    "\<forall>i. f < i \<and> i < length (ly_slots l) \<longrightarrow> ly_slots l ! i \<noteq> None"
    and len: "length slots' = length (ly_slots l)" "length next' = length (ly_slots l)"
    and keep: "\<forall>i < length (ly_slots l). slots' ! i = None \<longleftrightarrow> ly_slots l ! i = None \<and> i \<noteq> f"
    and nexts: "\<forall>i < length (ly_slots l). slots' ! i = None \<longrightarrow> next' ! i = ly_next l ! i"
    and chains: "\<And>h. distinct (c' h) \<and> (c' h \<noteq> [] \<longrightarrow> hd (c' h) = h) \<and> linked next' (c' h)"
    and members: "\<And>h i. i \<in> set (c' h) \<Longrightarrow> i < length (ly_slots l) \<and> (\<exists>k. slots' ! i = Some k \<and> layout_main l k = h)"
    and cover: "\<And>i. i < length (ly_slots l) \<Longrightarrow> slots' ! i \<noteq> None \<Longrightarrow> \<exists>h. i \<in> set (c' h)"
  shows "layout_ok (l\<lparr>ly_slots := slots', ly_next := next', ly_last_free := f\<rparr>) c'"
proof -
  let ?l = "l\<lparr>ly_slots := slots', ly_next := next', ly_last_free := f\<rparr>"
  note D = layout_okD [OF ok]
  have main: "layout_main ?l k = layout_main l k" for k by (rule layout_main_length) (simp add: len)
  show ?thesis
    unfolding layout_ok_def
  proof (intro conjI allI impI)
    fix h
    show "distinct (c' h)" "c' h \<noteq> [] \<Longrightarrow> hd (c' h) = h" "linked (ly_next ?l) (c' h)" using chains by auto
    fix i
    assume "i \<in> set (c' h)"
    then show "i < length (ly_slots ?l)" "\<exists>k. ly_slots ?l ! i = Some k \<and> layout_main ?l k = h"
      using members [of i h] len by (auto simp: main)
  next
    fix i
    assume i: "i < length (ly_slots ?l)"
    show "if ly_slots ?l ! i = None then ly_next ?l ! i = None else \<exists>h. i \<in> set (c' h)"
      using keep nexts D(10) [of i] cover [of i] i len by auto
  next
    fix i
    assume "ly_last_free ?l \<le> i \<and> i < length (ly_slots ?l)"
    then show "ly_slots ?l ! i \<noteq> None" using keep f(3) len by (cases "i = f") auto
  qed (use D f len in auto)
qed

lemma free_slot_props:
  assumes "layout_ok l c" and "None \<in> set (ly_slots l)"
  obtains f where "free_slot l = (Some f, l\<lparr>ly_last_free := f\<rparr>)" "f < length (ly_slots l)" "ly_slots l ! f = None"
    "\<forall>i. f < i \<and> i < length (ly_slots l) \<longrightarrow> ly_slots l ! i \<noteq> None"
proof -
  from free_from_props [of "ly_last_free l" "ly_slots l"] layout_okD(3,4) [OF assms(1)] assms(2)
  obtain f where "free_from (ly_last_free l) (ly_slots l) = (Some f, f)" "f < length (ly_slots l)" "ly_slots l ! f = None"
    "\<forall>i. f < i \<and> i < length (ly_slots l) \<longrightarrow> ly_slots l ! i \<noteq> None" by blast
  then show ?thesis using that by (simp add: free_slot_def)
qed

text \<open>The home slot is held by a key of the same home: the new key goes second in its chain.\<close>

lemma insert_second_ok:
  assumes ok: "layout_ok l c" and f: "f < length (ly_slots l)" "ly_slots l ! f = None"
    "\<forall>i. f < i \<and> i < length (ly_slots l) \<longrightarrow> ly_slots l ! i \<noteq> None"
    and m: "m = layout_main l k" "ly_slots l ! m = Some o1" "layout_main l o1 = m"
  shows "\<exists>c'. layout_ok (l\<lparr>ly_slots := (ly_slots l)[f := Some k],
      ly_next := (ly_next l)[f := ly_next l ! m, m := Some f], ly_last_free := f\<rparr>) c'"
proof -
  note D = layout_okD [OF ok]
  have less: "m < length (ly_slots l)" using layout_main_less D(2) m(1) by simp
  have out: "f \<notin> set (c h)" for h using D(9) [of f h] f(2) by auto
  obtain h where h: "m \<in> set (c h)" using D(11) [OF less] m(2) by blast
  with D(9) [OF h] m(2,3) have "h = m" by simp
  with h D(6) [of m] obtain ys where c: "c m = m # ys" by (metis empty_iff empty_set hd_Cons_tl list.set(1))
  let ?c = "c(m := m # f # ys)" and ?n = "(ly_next l)[f := ly_next l ! m, m := Some f]"
  have dist: "distinct (m # ys)" using D(5) [of m] c by simp
  have fm: "f \<noteq> m" using f(2) m(2) by auto
  have "layout_ok (l\<lparr>ly_slots := (ly_slots l)[f := Some k], ly_next := ?n, ly_last_free := f\<rparr>) ?c"
  proof (rule grown_ok [OF ok f])
    show "\<forall>i < length (ly_slots l). (ly_slots l)[f := Some k] ! i = None \<longleftrightarrow> ly_slots l ! i = None \<and> i \<noteq> f"
      using f by (simp add: nth_list_update)
    show "\<forall>i < length (ly_slots l). (ly_slots l)[f := Some k] ! i = None \<longrightarrow> ?n ! i = ly_next l ! i"
    proof (intro allI impI)
      fix i
      assume "i < length (ly_slots l)" "(ly_slots l)[f := Some k] ! i = None"
      then have "i \<noteq> f" "i \<noteq> m" using f m(2) by (auto simp: nth_list_update split: if_splits)
      then show "?n ! i = ly_next l ! i" by simp
    qed
    show "distinct (?c h) \<and> (?c h \<noteq> [] \<longrightarrow> hd (?c h) = h) \<and> linked ?n (?c h)" for h
    proof (cases "h = m")
      case True
      have "linked ?n (m # f # ys)"
        using linked_insert_second [of "ly_next l" m ys f] D(7) [of m] D(1) c dist out [of m] less f(1) by simp
      with True dist out [of m] c fm show ?thesis by simp
    next
      case False
      have "m \<notin> set (c h)" using D(9) [of m h] m(2,3) False by auto
      with False D(5,6,7) [of h] out [of h] show ?thesis by (simp add: linked_update)
    qed
    show "i < length (ly_slots l) \<and> (\<exists>x. (ly_slots l)[f := Some k] ! i = Some x \<and> layout_main l x = h)"
      if i: "i \<in> set (?c h)" for h i
    proof (cases "i = f")
      case True
      with i out [of h] have "h = m" by (auto split: if_splits)
      with True f(1) m(1) show ?thesis by simp
    next
      case False
      with i c have "i \<in> set (c h)" by (auto split: if_splits)
      with D(8,9) [of i h] False show ?thesis by simp
    qed
    show "\<exists>h. i \<in> set (?c h)" if i: "i < length (ly_slots l)" "(ly_slots l)[f := Some k] ! i \<noteq> None" for i
    proof (cases "i = f")
      case True
      then have "i \<in> set (?c m)" by simp
      then show ?thesis ..
    next
      case False
      with i D(11) [of i] obtain h where "i \<in> set (c h)" by auto
      with c have "i \<in> set (?c h)" by auto
      then show ?thesis ..
    qed
  qed (use D(1) in simp_all)
  then show ?thesis by blast
qed

text \<open>The home slot is held by a key from elsewhere, which moves to the free slot.\<close>

lemma insert_moving_ok:
  assumes ok: "layout_ok l c" and f: "f < length (ly_slots l)" "ly_slots l ! f = None"
    "\<forall>i. f < i \<and> i < length (ly_slots l) \<longrightarrow> ly_slots l ! i \<noteq> None"
    and m: "m = layout_main l k" "ly_slots l ! m = Some o1" "layout_main l o1 = h1" "h1 \<noteq> m"
  shows "\<exists>p c'. chain_walk (length (ly_next l)) (ly_next l) m h1 = Ok p \<and>
    layout_ok (l\<lparr>ly_slots := (ly_slots l)[f := ly_slots l ! m, m := Some k],
      ly_next := ((ly_next l)[f := ly_next l ! m, m := None])[p := Some f], ly_last_free := f\<rparr>) c'"
proof -
  note D = layout_okD [OF ok]
  have less: "m < length (ly_slots l)" using layout_main_less D(2) m(1) by simp
  have out: "f \<notin> set (c h)" for h using D(9) [of f h] f(2) by auto
  obtain h where h: "m \<in> set (c h)" using D(11) [OF less] m(2) by blast
  with D(9) [OF h] m(2,3) have "m \<in> set (c h1)" by simp
  then obtain us ys where split: "c h1 = us @ m # ys" by (metis split_list)
  have hd: "hd (c h1) = h1" using D(6) [of h1] split by simp
  with split m(4) have "us \<noteq> []" by auto
  then obtain xs p where us: "us = xs @ [p]" by (metis rev_exhaust)
  obtain ps where h1: "us = h1 # ps" using hd split \<open>us \<noteq> []\<close> by (metis hd_append2 list.collapse)
  have c: "c h1 = xs @ p # m # ys" using split us by simp
  have dist: "distinct (xs @ p # m # ys)" using D(5) [of h1] c by simp
  have bound: "\<forall>i\<in>set (c h1). i < length (ly_next l)" using D(1,8) by metis
  have walk: "chain_walk (length (ly_next l)) (ly_next l) m h1 = Ok p"
  proof -
    have "successively (\<lambda>i j. ly_next l ! i = Some j) (us @ [m])"
      using D(7) [of h1] split by (auto simp: linked_def successively_append_iff)
    moreover have "length (c h1) \<le> length (ly_next l)"
      using card_mono [of "{..<length (ly_next l)}" "set (c h1)"] bound distinct_card [OF D(5) [of h1]] by auto
    then have "length ps < length (ly_next l)" using split h1 by simp
    moreover have "m \<notin> set us" "\<forall>i\<in>set us. i < length (ly_next l)" using dist us bound split by auto
    ultimately have "chain_walk (length (ly_next l)) (ly_next l) m h1 = Ok (last us)"
      unfolding h1 by (intro chain_walk_finds) auto
    with us show ?thesis by simp
  qed
  have none: "c m = []" using m by (intro no_chain [OF ok]) simp
  let ?c = "c(h1 := xs @ p # f # ys, m := [m])"
  let ?s = "(ly_slots l)[f := ly_slots l ! m, m := Some k]"
  let ?n = "((ly_next l)[f := ly_next l ! m, m := None])[p := Some f]"
  have fm: "f \<noteq> m" using f(2) m(2) by auto
  have pf: "p \<noteq> f" "p \<noteq> m" "p < length (ly_slots l)" using out [of h1] c dist bound D(1) by auto
  have "ly_slots l ! p \<noteq> None" using D(9) [of p h1] c by auto
  have "layout_ok (l\<lparr>ly_slots := ?s, ly_next := ?n, ly_last_free := f\<rparr>) ?c"
  proof (rule grown_ok [OF ok f])
    show "\<forall>i < length (ly_slots l). ?s ! i = None \<longleftrightarrow> ly_slots l ! i = None \<and> i \<noteq> f"
      using f m(2) less by (auto simp: nth_list_update)
    show "\<forall>i < length (ly_slots l). ?s ! i = None \<longrightarrow> ?n ! i = ly_next l ! i"
    proof (intro allI impI)
      fix i
      assume "i < length (ly_slots l)" "?s ! i = None"
      then have "i \<noteq> f" "i \<noteq> m" "i \<noteq> p"
        using f m(2) less \<open>ly_slots l ! p \<noteq> None\<close> by (auto simp: nth_list_update split: if_splits)
      then show "?n ! i = ly_next l ! i" by simp
    qed
    show "distinct (?c h) \<and> (?c h \<noteq> [] \<longrightarrow> hd (?c h) = h) \<and> linked ?n (?c h)" for h
    proof -
      consider "h = m" | "h = h1" | "h \<noteq> m" "h \<noteq> h1" by blast
      then show ?thesis
      proof cases
        case 1
        have "?n ! m = None" using less pf D(1) by simp
        with 1 show ?thesis by (simp add: linked_def)
      next
        case 2
        have "linked ?n (xs @ p # f # ys)"
          using linked_split [of "ly_next l" xs p m ys f] D(7) [of h1] D(1) c dist out [of h1] less f(1) pf by simp
        moreover have "hd (xs @ p # f # ys) = h1" using hd c by (cases xs) simp_all
        ultimately show ?thesis using 2 m(4) dist out [of h1] c by auto
      next
        case 3
        have "m \<notin> set (c h)" "p \<notin> set (c h)" using D(9) [of m h] D(9) [of p h] D(9) [of p h1] m(2,3) 3 c by auto
        with 3 D(5,6,7) [of h] out [of h] show ?thesis by (simp add: linked_update)
      qed
    qed
    show "i < length (ly_slots l) \<and> (\<exists>x. ?s ! i = Some x \<and> layout_main l x = h)" if i: "i \<in> set (?c h)" for h i
    proof -
      consider "i = m" | "i = f" | "i \<noteq> m" "i \<noteq> f" by blast
      then show ?thesis
      proof cases
        case 1
        have "m \<notin> set (c h)" if "h \<noteq> h1" using D(9) [of m h] m(2,3) that by auto
        with i 1 dist fm have "h = m" by (auto split: if_splits)
        with 1 less m(1) show ?thesis by simp
      next
        case 2
        with i out [of h] fm have "h = h1" by (auto split: if_splits)
        with 2 f(1) fm m show ?thesis by simp
      next
        case 3
        with i c have "i \<in> set (c h)" by (auto split: if_splits)
        with D(8,9) [of i h] 3 show ?thesis by simp
      qed
    qed
    show "\<exists>h. i \<in> set (?c h)" if i: "i < length (ly_slots l)" "?s ! i \<noteq> None" for i
    proof -
      consider "i = m" | "i = f" | "i \<noteq> m" "i \<noteq> f" by blast
      then show ?thesis
      proof cases
        case 1
        then have "i \<in> set (?c m)" by simp
        then show ?thesis ..
      next
        case 2
        then have "i \<in> set (?c h1)" using m(4) by simp
        then show ?thesis ..
      next
        case 3
        with i D(11) [of i] obtain h where h: "i \<in> set (c h)" by auto
        with none have "h \<noteq> m" by auto
        with h c 3 have "i \<in> set (?c h)" by auto
        then show ?thesis ..
      qed
    qed
  qed (use D(1) in simp_all)
  with walk show ?thesis by blast
qed

section \<open>The order of a Luau table\<close>

lemma layout_insert_ok:
  assumes ok: "layout_ok l c" and room: "size (slot_keys (ly_slots l)) < length (ly_slots l)"
  shows "\<exists>l' c'. layout_insert d k l = Ok l' \<and> layout_ok l' c' \<and> length (ly_slots l') = length (ly_slots l) \<and>
    slot_keys (ly_slots l') = add_mset k (slot_keys (ly_slots l))"
proof -
  note D = layout_okD [OF ok]
  define m where "m = layout_main l k"
  have less: "m < length (ly_slots l)" using layout_main_less D(2) by (simp add: m_def)
  have empty: "None \<in> set (ly_slots l)" using slot_keys_size room by fastforce
  show ?thesis
  proof (cases "ly_slots l ! m")
    case None
    then have "layout_insert d k l = Ok (l\<lparr>ly_slots := (ly_slots l)[m := Some k]\<rparr>)"
      using less by (simp add: layout_insert.simps [of d] index_at_def m_def)
    then show ?thesis
      using insert_empty_ok [OF ok m_def None] slot_keys_fill [OF less None] by auto
  next
    case (Some o1)
    obtain f where f: "free_slot l = (Some f, l\<lparr>ly_last_free := f\<rparr>)" "f < length (ly_slots l)" "ly_slots l ! f = None"
      "\<forall>i. f < i \<and> i < length (ly_slots l) \<longrightarrow> ly_slots l ! i \<noteq> None"
      by (rule free_slot_props [OF ok empty])
    have step: "layout_insert d k l = insert_colliding k m f o1 (l\<lparr>ly_last_free := f\<rparr>)"
      using less Some f(1) by (simp add: layout_insert.simps [of d] index_at_def m_def)
    have main: "layout_main (l\<lparr>ly_last_free := f\<rparr>) o1 = layout_main l o1" by (rule layout_main_length) simp
    have fm: "f \<noteq> m" using f(3) Some by auto
    show ?thesis
    proof (cases "layout_main l o1 = m")
      case True
      let ?l = "l\<lparr>ly_slots := (ly_slots l)[f := Some k], ly_next := (ly_next l)[f := ly_next l ! m, m := Some f], ly_last_free := f\<rparr>"
      have "layout_insert d k l = Ok ?l" using step True main by (simp add: insert_colliding_def)
      then show ?thesis
        using insert_second_ok [OF ok f(2-4) m_def Some True] slot_keys_fill [OF f(2,3)] by auto
    next
      case False
      from insert_moving_ok [OF ok f(2-4) m_def Some refl False] obtain p c' where
        p: "chain_walk (length (ly_next l)) (ly_next l) m (layout_main l o1) = Ok p"
        and ok': "layout_ok (l\<lparr>ly_slots := (ly_slots l)[f := ly_slots l ! m, m := Some k],
          ly_next := ((ly_next l)[f := ly_next l ! m, m := None])[p := Some f], ly_last_free := f\<rparr>) c'" by blast
      have "layout_insert d k l = Ok (l\<lparr>ly_slots := (ly_slots l)[f := ly_slots l ! m, m := Some k],
          ly_next := ((ly_next l)[f := ly_next l ! m, m := None])[p := Some f], ly_last_free := f\<rparr>)"
        using step False main p by (simp add: insert_colliding_def)
      then show ?thesis using ok' slot_keys_move [OF f(2,3) less Some] by auto
    qed
  qed
qed

declare layout_insert.simps [simp del]

lemma layout_inserts_ok:
  assumes "layout_ok l c" and "size (slot_keys (ly_slots l)) + length ks \<le> length (ly_slots l)"
  shows "\<exists>l'. fold_res (\<lambda>l k. layout_insert d k l) l ks = Ok l' \<and> length (ly_slots l') = length (ly_slots l) \<and>
    slot_keys (ly_slots l') = slot_keys (ly_slots l) + mset ks"
  using assms
proof (induction ks arbitrary: l c)
  case Nil
  then show ?case by simp
next
  case (Cons k ks)
  then have "size (slot_keys (ly_slots l)) < length (ly_slots l)" by simp
  from layout_insert_ok [OF Cons.prems(1) this] obtain l1 c1 where
    l1: "layout_insert d k l = Ok l1" "layout_ok l1 c1" "length (ly_slots l1) = length (ly_slots l)"
    "slot_keys (ly_slots l1) = add_mset k (slot_keys (ly_slots l))" by blast
  with Cons.IH [OF l1(2)] Cons.prems(2) show ?case by auto
qed

lemma layout_new_ok: "layout_ok (layout_new n) (\<lambda>_. [])"
  by (auto simp: layout_ok_def layout_new_def linked_def)

lemma slot_keys_new: "slot_keys (replicate n None) = {#}"
  by (simp add: slot_keys_def)

lemma next_power_of_two_ge: "next_power_of_two n = Some p \<Longrightarrow> n \<le> p"
  using bit_length_bounds [of "n - 1"] by (cases "n \<le> 1") (auto simp: next_power_of_two_def Let_def split: if_splits)

lemma luau_order_capacity_ge:
  assumes "length (tb_hash_order t) \<le> usize_max"
  shows "length (tb_hash_order t) \<le> luau_order_capacity t"
  unfolding luau_order_capacity_def using assms by (auto split: option.split dest!: next_power_of_two_ge)

text \<open>The layout of a table after any number of its keys: as many slots as at the start, and those keys in them.\<close>

lemma luau_order_layout:
  assumes "length (tb_hash_order t) \<le> usize_max" and "n \<le> length (tb_hash_order t)"
  shows "\<exists>l. fold_res (\<lambda>l k. layout_insert d k l) (layout_new (luau_order_capacity t)) (take n (tb_hash_order t)) = Ok l \<and>
    length (ly_slots l) = max (luau_order_capacity t) 1 \<and> slot_keys (ly_slots l) = mset (take n (tb_hash_order t)) \<and>
    (n < length (tb_hash_order t) \<longrightarrow> None \<in> set (ly_slots l))"
proof -
  let ?l = "layout_new (luau_order_capacity t)" and ?ks = "take n (tb_hash_order t)"
  have new: "length (ly_slots ?l) = max (luau_order_capacity t) 1" "slot_keys (ly_slots ?l) = {#}"
    by (simp_all add: layout_new_def slot_keys_new)
  have cap: "length (tb_hash_order t) \<le> luau_order_capacity t" by (rule luau_order_capacity_ge [OF assms(1)])
  then have "size (slot_keys (ly_slots ?l)) + length ?ks \<le> length (ly_slots ?l)" using assms(2) by (simp add: new)
  from layout_inserts_ok [OF layout_new_ok this, of d] obtain l where
    l: "fold_res (\<lambda>l k. layout_insert d k l) ?l ?ks = Ok l" "length (ly_slots l) = max (luau_order_capacity t) 1"
      "slot_keys (ly_slots l) = mset ?ks" by (auto simp: new)
  have "None \<in> set (ly_slots l)" if "n < length (tb_hash_order t)"
  proof (rule ccontr)
    assume "None \<notin> set (ly_slots l)"
    then have "size (slot_keys (ly_slots l)) = length (ly_slots l)" using slot_keys_size by blast
    then show False using l(2,3) cap that by simp
  qed
  with l show ?thesis by blast
qed

text \<open>
  C33: replaying the buckets of a Luau table visits every key of its order exactly once: the layout
  never panics on a broken chain and no walk along a chain is endless. The capacity it starts with is enough:
  before every insertion a slot is vacant, so the layout never doubles.
\<close>

theorem luau_hash_order_permutes:
  assumes "length (tb_hash_order t) \<le> usize_max"
  shows "(\<exists>ks. luau_hash_order t = Ok ks \<and> mset ks = mset (tb_hash_order t)) \<and>
    (\<forall>n \<le> length (tb_hash_order t). \<exists>l.
       fold_res (\<lambda>l k. layout_insert 1 k l) (layout_new (luau_order_capacity t)) (take n (tb_hash_order t)) = Ok l \<and>
       length (ly_slots l) = max (luau_order_capacity t) 1 \<and> slot_keys (ly_slots l) = mset (take n (tb_hash_order t)) \<and>
       (n < length (tb_hash_order t) \<longrightarrow> None \<in> set (ly_slots l)))"
proof -
  from luau_order_layout [OF assms order_refl, of 1] obtain l where
    l: "fold_res (\<lambda>l k. layout_insert 1 k l) (layout_new (luau_order_capacity t)) (tb_hash_order t) = Ok l"
      "slot_keys (ly_slots l) = mset (tb_hash_order t)" by auto
  have "mset (map the (filter (\<lambda>s. s \<noteq> None) (ly_slots l))) = slot_keys (ly_slots l)"
    by (simp add: slot_keys_def)
  with l have "\<exists>ks. luau_hash_order t = Ok ks \<and> mset ks = mset (tb_hash_order t)" by (simp add: luau_hash_order_def)
  then show ?thesis using luau_order_layout [OF assms, of _ 1] by blast
qed

text \<open>Three keys of two kinds.\<close>

theorem luau_hash_order_permutes_witness:
  "\<exists>ks. luau_hash_order (new_table\<lparr>tb_hash_order := [KBoolean True, KBoolean False, KString [0]]\<rparr>) = Ok ks \<and>
     mset ks = {#KBoolean True, KBoolean False, KString [0]#}"
  using luau_hash_order_permutes [of "new_table\<lparr>tb_hash_order := [KBoolean True, KBoolean False, KString [0]]\<rparr>"]
  by (simp add: usize_max_def)

end
