(* ===== verification/Runtime_Key.thy ===== *)
theory Runtime_Key
  imports Runtime_Table
begin

text \<open>
  What \<open>Key::from_value\<close> of \<open>blu-runtime/src/heap.rs\<close> promises: two values index the same entry
  of a table exactly when they are equal. It holds for every pair of values but one kind: the
  floating-point number \<open>2 ^ 63\<close> becomes the key of the integer \<open>2 ^ 63 - 1\<close>.
\<close>

section \<open>A bit pattern is determined by its value, up to the sign of zero\<close>

lemma f64_bits:
  "unat w = (if f64_negative w then 2 ^ 63 else 0) + f64_exponent w * 2 ^ 52 + f64_fraction w"
proof -
  define u where "u = unat w"
  define e f s where "e = u div 2 ^ 52" and "f = u mod 2 ^ 52" and "s = u div 2 ^ 63"
  have u: "u = e * 2 ^ 52 + f" unfolding e_def f_def by (simp only: div_mult_mod_eq)
  have "s = e div 2 ^ 11" unfolding s_def e_def by (simp flip: div_mult2_eq)
  then have e: "e = s * 2 ^ 11 + e mod 2 ^ 11" by (simp only: div_mult_mod_eq)
  have "u < 2 * 2 ^ 63" using unsigned_less [of w, where ?'a = nat] by (simp add: u_def)
  then have "s < 2" unfolding s_def by (rule less_mult_imp_div_less)
  moreover have "2 ^ 63 \<le> u \<longleftrightarrow> 0 < s" unfolding s_def by (simp add: div_greater_zero_iff)
  ultimately have s: "s = (if 2 ^ 63 \<le> u then 1 else 0)" by auto
  have "e * 2 ^ 52 = s * 2 ^ 63 + (e mod 2 ^ 11) * 2 ^ 52"
    by (subst e) (simp only: add_mult_distrib mult.assoc flip: power_add, simp)
  with u have "u = s * 2 ^ 63 + (e mod 2 ^ 11) * 2 ^ 52 + f" by simp
  moreover have "s * 2 ^ 63 = (if 2 ^ 63 \<le> u then 2 ^ 63 else 0)" by (simp add: s)
  ultimately have "u = (if 2 ^ 63 \<le> u then 2 ^ 63 else 0) + (e mod 2 ^ 11) * 2 ^ 52 + f" by (rule subst [rotated])
  then show ?thesis
    unfolding f64_negative_def f64_exponent_def f64_fraction_def u_def [symmetric] e_def f_def .
qed

lemma scaled_mantissa_inj:
  fixes a b :: nat
  assumes "(2 ^ 52 + a) * 2 ^ i = (2 ^ 52 + b) * 2 ^ j" and "a < 2 ^ 52" and "b < 2 ^ 52"
  shows "i = j \<and> a = b"
proof -
  have less: False if h: "(2 ^ 52 + a) * 2 ^ i = (2 ^ 52 + b) * 2 ^ j" "b < 2 ^ 52" "j < i" for a b i j :: nat
  proof -
    have "(2 :: nat) ^ i = 2 ^ (i - j) * 2 ^ j" using h(3) by (simp flip: power_add)
    with h(1) have "(2 ^ 52 + a) * 2 ^ (i - j) = 2 ^ 52 + b" by (simp only: mult.assoc [symmetric] mult_right_cancel) simp
    moreover have "(2 :: nat) ^ 1 \<le> 2 ^ (i - j)" using h(3) by (intro power_increasing) auto
    then have "(2 ^ 52 + a) * 2 \<le> (2 ^ 52 + a) * 2 ^ (i - j)" by (intro mult_le_mono) simp_all
    ultimately show False using h(2) by simp
  qed
  have "i = j"
    using less [of a i b j] less [of b j a i] assms by (metis linorder_neqE_nat)
  with assms show ?thesis by simp
qed

lemma f64_magnitude_inj:
  assumes "f64_magnitude v = f64_magnitude w"
  shows "f64_exponent v = f64_exponent w \<and> f64_fraction v = f64_fraction w"
proof -
  have low: "f64_magnitude x < 2 ^ 52 \<longleftrightarrow> f64_exponent x = 0" for x
  proof -
    have "(2 :: nat) ^ 52 * 1 \<le> (2 ^ 52 + f64_fraction x) * 2 ^ (f64_exponent x - 1)"
      by (intro mult_le_mono) simp_all
    then show ?thesis using f64_fraction_lt [of x] by (auto simp: f64_magnitude_def not_less)
  qed
  show ?thesis
  proof (cases "f64_exponent v = 0")
    case True
    with low assms have "f64_exponent w = 0" by metis
    with True assms show ?thesis by (simp add: f64_magnitude_def)
  next
    case False
    with low assms have w: "f64_exponent w \<noteq> 0" by metis
    with False assms have "(2 ^ 52 + f64_fraction v) * 2 ^ (f64_exponent v - 1) =
        (2 ^ 52 + f64_fraction w) * 2 ^ (f64_exponent w - 1)" by (simp add: f64_magnitude_def)
    from scaled_mantissa_inj [OF this f64_fraction_lt f64_fraction_lt] False w show ?thesis by auto
  qed
qed

lemma f64_key_inj:
  assumes "\<not> f64_is_nan v" and "\<not> f64_is_nan w" and "f64_key v = f64_key w" and "f64_magnitude v \<noteq> 0"
  shows "v = w"
proof -
  have "f64_negative v = f64_negative w \<and> f64_exponent v = f64_exponent w \<and> f64_fraction v = f64_fraction w"
  proof (cases "f64_is_infinite v")
    case True
    with assms(3) show ?thesis by (auto simp: f64_key_def f64_is_infinite_def split: if_splits)
  next
    case False
    with assms(3) have u: "f64_units v = f64_units w"
      by (auto simp: f64_key_def split: if_splits)
    with assms(4) have "f64_negative v = f64_negative w \<and> f64_magnitude v = f64_magnitude w"
      by (auto simp: f64_units_def split: if_splits)
    with f64_magnitude_inj show ?thesis by blast
  qed
  then have "unat v = unat w" using f64_bits [of v] f64_bits [of w] by simp
  then show ?thesis by (rule unsigned_word_eqI)
qed

section \<open>Which numbers become integer keys\<close>

text \<open>The number \<open>2 ^ 63\<close>; it is also what the largest \<open>i64\<close> converts to.\<close>

definition f64_2_63 :: f64 where "f64_2_63 = 0x43E0000000000000"

lemma i64_max_to_f64: "int_to_f64 i64_max = f64_2_63"
  by (simp add: f64_2_63_def int_to_f64_def nat_to_f64_bits_def i64_max_def bit_length.simps Let_def)

lemma f64_2_63_value: "f64_is_finite f64_2_63" "f64_units f64_2_63 = 2 ^ 63 * f64_one"
proof -
  have e: "f64_is_finite (int_to_f64 (2 ^ 63)) \<and> f64_units (int_to_f64 (2 ^ 63)) = 2 ^ 63 * f64_one"
    by (rule int_to_f64_exact [of _ 1 63]) simp_all
  have "int_to_f64 (2 ^ 63) = f64_2_63"
    by (simp add: f64_2_63_def int_to_f64_def nat_to_f64_bits_def bit_length.simps Let_def)
  with e show "f64_is_finite f64_2_63" "f64_units f64_2_63 = 2 ^ 63 * f64_one" by simp_all
qed

lemma fract_zero_iff: "f64_fract_is_zero w \<longleftrightarrow> f64_is_finite w \<and> f64_units w = f64_trunc w * f64_one"
  using f64_units_trunc [of w] by (auto simp: f64_fract_is_zero_def)

lemma trunc_of_units:
  assumes "f64_units w = n * f64_one"
  shows "f64_trunc w = n"
proof -
  obtain r where r: "f64_units w = f64_trunc w * f64_one + r" "- f64_one < r" "r < f64_one"
    by (rule f64_trunc_rest [of w])
  show ?thesis
  proof (rule ccontr)
    assume "f64_trunc w \<noteq> n"
    then consider "f64_trunc w < n" | "n < f64_trunc w" by linarith
    then show False
    proof cases
      case 1
      from scaled_less [OF this] assms r show False by linarith
    next
      case 2
      from scaled_less [OF this] assms r show False by linarith
    qed
  qed
qed

definition integral :: "f64 \<Rightarrow> bool" where
  "integral w \<longleftrightarrow> f64_fract_is_zero w \<and> f64_le (int_to_f64 i64_min) w \<and> f64_le w (int_to_f64 i64_max)"

lemma integral_iff:
  "integral w \<longleftrightarrow> f64_is_finite w \<and> f64_units w = f64_trunc w * f64_one \<and> i64_min \<le> f64_trunc w \<and> f64_trunc w \<le> 2 ^ 63"
proof (cases "f64_is_finite w \<and> f64_units w = f64_trunc w * f64_one")
  case True
  then have k: "\<not> f64_is_nan w" "f64_key w = (0, f64_trunc w * f64_one)" using f64_finite_key by auto
  have lo: "f64_le (int_to_f64 i64_min) w \<longleftrightarrow> i64_min \<le> f64_trunc w"
    using k f64_finite_key [OF f64_limits(1)] f64_limits(2) f64_one_pos
    by (auto simp: f64_le_iff ext_less_def scaled_less_iff)
  have hi: "f64_le w (int_to_f64 i64_max) \<longleftrightarrow> f64_trunc w \<le> 2 ^ 63"
    using k f64_finite_key [OF f64_2_63_value(1)] f64_2_63_value(2) f64_one_pos
      scaled_less_iff(1) [of "f64_trunc w" "2 ^ 63"]
    by (auto simp: i64_max_to_f64 f64_le_iff ext_less_def)
  from True show ?thesis by (simp add: integral_def fract_zero_iff lo hi)
next
  case False
  then show ?thesis by (auto simp: integral_def fract_zero_iff)
qed

lemma integral_to_i64:
  assumes "integral w" and "\<not> f64_eq w f64_2_63"
  shows "f64_to_i64 w = f64_trunc w \<and> is_i64 (f64_trunc w) \<and> f64_key w = (0, f64_trunc w * f64_one)"
proof -
  have i: "f64_is_finite w" "f64_units w = f64_trunc w * f64_one" "i64_min \<le> f64_trunc w" "f64_trunc w \<le> 2 ^ 63"
    using assms(1) integral_iff by blast+
  have k: "\<not> f64_is_nan w" "f64_key w = (0, f64_trunc w * f64_one)" using i f64_finite_key by auto
  have "f64_trunc w \<noteq> 2 ^ 63"
    using assms(2) k f64_finite_key [OF f64_2_63_value(1)] f64_2_63_value(2) by (auto simp: f64_eq_iff)
  with i k show ?thesis
    by (simp add: f64_to_i64_def f64_is_infinite_def f64_is_finite_def is_i64_def i64_min_def i64_max_def)
qed

lemma not_integral_key: "\<not> integral w \<Longrightarrow> \<not> f64_is_nan w \<Longrightarrow> is_i64 n \<Longrightarrow> f64_key w \<noteq> (0, n * f64_one)"
proof
  assume h: "\<not> integral w" "\<not> f64_is_nan w" "is_i64 n" "f64_key w = (0, n * f64_one)"
  then have fin: "f64_is_finite w" and u: "f64_units w = n * f64_one"
    by (auto simp: f64_key_def f64_is_finite_def f64_is_infinite_def f64_is_nan_def split: if_splits)
  with trunc_of_units [OF u] h(1,3) show False
    by (simp add: integral_iff is_i64_def i64_max_def)
qed

lemma not_integral_magnitude: "\<not> integral w \<Longrightarrow> \<not> f64_is_nan w \<Longrightarrow> f64_magnitude w \<noteq> 0"
  using not_integral_key [of w 0]
  by (auto simp: is_i64_def i64_min_def i64_max_def f64_key_def f64_units_def f64_is_infinite_def
      f64_magnitude_def split: if_splits)

section \<open>Keys and equality\<close>

fun exact_as_key :: "val \<Rightarrow> bool" where
  "exact_as_key (VNumber w) = (\<not> f64_eq w f64_2_63)"
| "exact_as_key _ = True"

lemma value_eq_numbers:
  assumes "in_range a" and "in_range b" and "is_number a" and "is_number b"
  shows "value_eq a b \<longleftrightarrow> (\<exists>x. number_key a = Some x \<and> number_key b = Some x)"
  using assms f64_one_pos
  by (cases a; cases b) (auto simp: f64_eq_iff integer_number_order_exact scaled_less_iff)

lemma value_eq_other: "\<not> is_number a \<or> \<not> is_number b \<Longrightarrow> value_eq a b \<longleftrightarrow> a = b \<and> \<not> is_number a"
  by (cases a; cases b) auto

text \<open>The two kinds of key a number has.\<close>

lemma number_key_cases:
  assumes "key_from_value a = Ok k" and "is_number a" and "in_range a" and "exact_as_key a"
  obtains n where "k = KInteger n" "is_i64 n" "number_key a = Some (0, n * f64_one)"
    | w where "k = KNumber w" "a = VNumber w" "\<not> integral w" "\<not> f64_is_nan w"
proof (cases a)
  case (VNumber w)
  with assms(1) have nan: "\<not> f64_is_nan w" by (auto split: if_splits)
  show ?thesis
  proof (cases "integral w")
    case True
    moreover have "k = KInteger (f64_to_i64 w)"
      using assms(1) VNumber nan True by (simp add: integral_def)
    ultimately show ?thesis
      using integral_to_i64 [OF True] assms(4) VNumber nan that(1) [of "f64_trunc w"] by simp
  next
    case False
    have "\<not> f64_eq w 0"
    proof
      assume "f64_eq w 0"
      then have "f64_key w = (0, 0 * f64_one)"
        by (simp add: f64_eq_iff f64_key_def f64_is_infinite_def f64_exponent_def f64_units_def f64_magnitude_def
            f64_fraction_def)
      with not_integral_key [OF False nan, of 0] show False by (simp add: is_i64_def i64_min_def i64_max_def)
    qed
    with assms(1) VNumber nan False have "k = KNumber w" by (auto simp: integral_def split: if_splits)
    with VNumber nan False that(2) show ?thesis by blast
  qed
next
  case (VInteger n)
  with assms that(1) [of n] show ?thesis by simp
qed (use assms in simp_all)

lemma key_not_number: "key_from_value a = Ok k \<Longrightarrow> \<not> is_number a \<Longrightarrow> key_to_value k = a \<and> \<not> key_is_numeric k"
  by (cases a) auto

lemma key_number: "key_from_value a = Ok k \<Longrightarrow> is_number a \<Longrightarrow> key_is_numeric k"
  by (cases a) (auto split: if_splits)

lemma number_keys_agree:
  assumes "key_from_value a = Ok ka" "is_number a" "in_range a" "exact_as_key a"
    and "key_from_value b = Ok kb" "is_number b" "in_range b" "exact_as_key b"
  shows "ka = kb \<longleftrightarrow> (\<exists>x. number_key a = Some x \<and> number_key b = Some x)"
proof (cases rule: number_key_cases [OF assms(1-4), case_names AI AN])
  case (AI n)
  show ?thesis
  proof (cases rule: number_key_cases [OF assms(5-8), case_names BI BN])
    case (BI m)
    with AI f64_one_pos show ?thesis by auto
  next
    case (BN w)
    with AI not_integral_key [of w n] show ?thesis by auto
  qed
next
  case (AN v)
  show ?thesis
  proof (cases rule: number_key_cases [OF assms(5-8), case_names BI BN])
    case (BI m)
    with AN not_integral_key [of v m] show ?thesis by auto
  next
    case (BN w)
    with AN f64_key_inj [of v w] not_integral_magnitude [of v] show ?thesis by auto
  qed
qed

lemma key_to_value_key:
  assumes "key_from_value a = Ok k" and "in_range a" and "exact_as_key a"
  shows "key_from_value (key_to_value k) = Ok k"
proof (cases "is_number a")
  case False
  with key_not_number [OF assms(1)] assms(1) show ?thesis by simp
next
  case True
  from number_key_cases [OF assms(1) True assms(2,3)] show ?thesis
    by cases (use assms(1) in simp_all)
qed

text \<open>
  C32: two values, neither the floating-point number \<open>2 ^ 63\<close>, index the same entry of a table
  exactly when they compare equal, whatever their types; only nil and NaN index none; and the key
  read back as a value, as iteration does, gives the same key.
\<close>

theorem keys_agree_with_equality:
  assumes "in_range a" and "in_range b" and "exact_as_key a" and "exact_as_key b"
    and "key_from_value a = Ok ka" and "key_from_value b = Ok kb"
  shows "(ka = kb \<longleftrightarrow> value_eq a b) \<and> key_from_value (key_to_value ka) = Ok ka \<and>
    (key_from_value v = Err NilKey \<longleftrightarrow> v = VNil) \<and>
    (key_from_value v = Err NanKey \<longleftrightarrow> (\<exists>x. v = VNumber x \<and> f64_is_nan x)) \<and> key_from_value v \<noteq> Panic"
proof (intro conjI)
  show "ka = kb \<longleftrightarrow> value_eq a b"
  proof (cases "is_number a \<and> is_number b")
    case True
    with number_keys_agree [OF assms(5) _ assms(1,3) assms(6) _ assms(2,4)] value_eq_numbers [OF assms(1,2)]
    show ?thesis by blast
  next
    case False
    then have "value_eq a b \<longleftrightarrow> a = b \<and> \<not> is_number a" by (intro value_eq_other) blast
    with False key_not_number [OF assms(5)] key_not_number [OF assms(6)] key_number [OF assms(5)]
      key_number [OF assms(6)] assms(5,6) show ?thesis by (metis res.inject(1))
  qed
  show "key_from_value (key_to_value ka) = Ok ka" by (rule key_to_value_key [OF assms(5,1,3)])
qed (cases v; auto split: if_splits)+

text \<open>1 and 1.0 are one key.\<close>

theorem keys_agree_with_equality_witness:
  "key_from_value (VInteger 1) = key_from_value (VNumber (int_to_f64 1)) \<and>
   value_eq (VInteger 1) (VNumber (int_to_f64 1))"
proof -
  have one: "f64_is_finite (int_to_f64 1)" "f64_units (int_to_f64 1) = 1 * f64_one"
    using int_to_f64_exact [of 1 1 0] by (simp_all add: one_less_power)
  then have trunc: "f64_trunc (int_to_f64 1) = 1" by (intro trunc_of_units) simp
  have nan: "\<not> f64_is_nan (int_to_f64 1)" "f64_key (int_to_f64 1) = (0, 1 * f64_one)"
    using one f64_finite_key by auto
  have i: "integral (int_to_f64 1)" using one trunc by (simp add: integral_iff i64_min_def)
  have e: "\<not> f64_eq (int_to_f64 1) f64_2_63"
    using nan one f64_finite_key [OF f64_2_63_value(1)] f64_2_63_value(2) f64_one_pos by (simp add: f64_eq_iff)
  have k: "key_from_value (VNumber (int_to_f64 1)) = Ok (KInteger 1)"
    using integral_to_i64 [OF i e] i nan trunc by (simp add: integral_def)
  have "(KInteger 1 = KInteger 1) = value_eq (VInteger 1) (VNumber (int_to_f64 1))"
    using keys_agree_with_equality [of "VInteger 1" "VNumber (int_to_f64 1)" "KInteger 1" "KInteger 1"] k e
    by (simp add: is_i64_def i64_min_def i64_max_def)
  with k show ?thesis by simp
qed

text \<open>
  The one exception. The floating-point number \<open>2 ^ 63\<close> is at most \<open>i64::MAX as f64\<close>, which
  rounds up to it, and its conversion saturates: it shares the key of the largest integer, to which
  it is not equal, so that writing either overwrites the other.
\<close>

theorem key_collision_at_2_63:
  "key_from_value (VNumber f64_2_63) = Ok (KInteger i64_max) \<and> key_from_value (VInteger i64_max) = Ok (KInteger i64_max) \<and>
   \<not> value_eq (VInteger i64_max) (VNumber f64_2_63) \<and> \<not> value_eq (VNumber f64_2_63) (VInteger i64_max)"
proof -
  note fin = f64_finite_key [OF f64_2_63_value(1)]
  have trunc: "f64_trunc f64_2_63 = 2 ^ 63" by (rule trunc_of_units) (rule f64_2_63_value(2))
  have "integral f64_2_63" using f64_2_63_value by (simp add: integral_iff trunc i64_min_def)
  moreover have "f64_to_i64 f64_2_63 = i64_max"
    using fin f64_2_63_value(1) trunc
    by (simp add: f64_to_i64_def f64_is_infinite_def f64_is_finite_def i64_min_def i64_max_def)
  ultimately have "key_from_value (VNumber f64_2_63) = Ok (KInteger i64_max)"
    using fin by (simp add: integral_def)
  moreover have "i64_max * f64_one \<noteq> 2 ^ 63 * f64_one" using f64_one_pos by (simp add: i64_max_def)
  then have "\<not> value_eq (VInteger i64_max) (VNumber f64_2_63) \<and> \<not> value_eq (VNumber f64_2_63) (VInteger i64_max)"
    using fin f64_2_63_value(2) by (simp add: integer_number_order_exact is_i64_def i64_min_def i64_max_def)
  ultimately show ?thesis by simp
qed

end
