(* ===== verification/Runtime_Heap_Ops.thy ===== *)
theory Runtime_Heap_Ops
  imports Runtime_Heap Runtime_Luau_Hash Runtime_Key Rust_Bytes
begin

text \<open>
  The operations of \<open>Heap\<close> in \<open>blu-runtime/src/heap.rs\<close> on objects behind handles: tables with
  their iteration and lengths, metatables and finalizer state, userdata, threads, closures and
  upvalues. A stale handle is an error, never another object.
\<close>

section \<open>Results\<close>

definition on_table :: "table_id \<Rightarrow> 'b heap \<Rightarrow> (table \<Rightarrow> ('a, 'b) hres) \<Rightarrow> ('a, 'b) hres" where
  "on_table i h f =
     (case heap_table h i of Ok t \<Rightarrow> f t | Err e \<Rightarrow> (Err e, h) | Panic \<Rightarrow> (Panic, h))"

definition on_closure :: "closure_id \<Rightarrow> 'b heap \<Rightarrow> ('b closure \<Rightarrow> ('a, 'b) hres) \<Rightarrow> ('a, 'b) hres" where
  "on_closure i h f =
     (case heap_closure h i of Ok c \<Rightarrow> f c | Err e \<Rightarrow> (Err e, h) | Panic \<Rightarrow> (Panic, h))"

definition on_userdata :: "userdata_id \<Rightarrow> 'b heap \<Rightarrow> (userdata \<Rightarrow> ('a, 'b) hres) \<Rightarrow> ('a, 'b) hres" where
  "on_userdata i h f =
     (case heap_userdata h i of Ok u \<Rightarrow> f u | Err e \<Rightarrow> (Err e, h) | Panic \<Rightarrow> (Panic, h))"

section \<open>Tables\<close>

definition MODE_NAME :: bytes where "MODE_NAME = ascii ''__mode''"

fun is_nan_value :: "val \<Rightarrow> bool" where
  "is_nan_value (VNumber x) = f64_is_nan x"
| "is_nan_value _ = False"

definition table_get :: "'b heap \<Rightarrow> table_id \<Rightarrow> val \<Rightarrow> (val, heap_error) res" where
  "table_get h i k =
     rbind (heap_table h i) (\<lambda>t.
     if k = VNil \<or> is_nan_value k then Ok VNil
     else rbind (key_from_value k) (\<lambda>key. Ok (case tb_get t key of Some v \<Rightarrow> v | None \<Rightarrow> VNil)))"

definition table_mutation :: "'b heap \<Rightarrow> table_id \<Rightarrow> (64 word, heap_error) res" where
  "table_mutation h i = map_ok tb_mutation (heap_table h i)"

definition live_objects_of :: "'b heap \<Rightarrow> 'b obj list" where
  "live_objects_of h =
     List.map_filter (\<lambda>n. case get (hp_slots h) (unat n) of Some s \<Rightarrow> sl_object s | None \<Rightarrow> None) (hp_live_indices h)"

definition table_is_metatable :: "'b heap \<Rightarrow> table_id \<Rightarrow> (bool, heap_error) res" where
  "table_is_metatable h candidate =
     rbind (heap_table h candidate) (\<lambda>_.
     Ok (list_ex (\<lambda>x. case x of OTable t \<Rightarrow> tb_metatable t = Some candidate | _ \<Rightarrow> False) (live_objects_of h)))"

definition table_set :: "platform \<Rightarrow> table_id \<Rightarrow> val \<Rightarrow> val \<Rightarrow> 'b heap \<Rightarrow> (unit, 'b) hres" where
  "table_set env i k v h =
     (case rbind (key_from_value k) (\<lambda>key.
             map_ok (\<lambda>mode. (key, mode)) (if key = KString MODE_NAME then table_is_metatable h i else Ok False)) of
        Err e \<Rightarrow> (Err e, h)
      | Panic \<Rightarrow> (Panic, h)
      | Ok (key, mode_mutation) \<Rightarrow>
          on_table i h (\<lambda>t.
          if tb_frozen t then (Err FrozenTable, h)
          else let (r, t', m') = tb_set env key v (t\<lparr>tb_mutation := tb_mutation t + 1\<rparr>) (hp_memory h);
                   h' = (put_object i (OTable t') h)\<lparr>hp_memory := m'\<rparr>
               in (r, h'\<lparr>hp_has_weak_tables := hp_has_weak_tables h' \<or> is_ok r \<and> mode_mutation\<rparr>)))"

definition table_set_bytes :: "platform \<Rightarrow> 'b heap \<Rightarrow> table_id \<Rightarrow> val \<Rightarrow> val \<Rightarrow> (nat, heap_error) res" where
  "table_set_bytes env h i k v =
     rbind (key_from_value k) (\<lambda>key.
     rbind (heap_table h i) (\<lambda>t.
     if tb_frozen t then Err FrozenTable else set_bytes env t key v))"

definition table_length :: "'b heap \<Rightarrow> table_id \<Rightarrow> (nat, heap_error) res" where
  "table_length h i = map_ok tb_length (heap_table h i)"

definition table_modern_length :: "'b heap \<Rightarrow> table_id \<Rightarrow> (nat, heap_error) res" where
  "table_modern_length h i = map_ok modern_length (heap_table h i)"

definition table_luau_length :: "'b heap \<Rightarrow> table_id \<Rightarrow> (nat, heap_error) res" where
  "table_luau_length h i = map_ok luau_length (heap_table h i)"

definition table_legacy_length :: "'b heap \<Rightarrow> table_id \<Rightarrow> (nat, heap_error) res" where
  "table_legacy_length h i = map_ok legacy_length (heap_table h i)"

fun key_number :: "key \<Rightarrow> f64 option" where
  "key_number (KInteger n) = Some (int_to_f64 n)"
| "key_number (KNumber x) = Some x"
| "key_number _ = None"

definition max_numeric_step :: "key \<times> val \<Rightarrow> f64 \<Rightarrow> f64" where
  "max_numeric_step p maximum =
     (if snd p = VNil then maximum
      else case key_number (fst p) of
        None \<Rightarrow> maximum
      | Some n \<Rightarrow> (if f64_lt maximum n then n else maximum))"

definition table_max_numeric_key :: "'b heap \<Rightarrow> table_id \<Rightarrow> (f64, heap_error) res" where
  "table_max_numeric_key h i =
     map_ok (\<lambda>t. fold max_numeric_step (tb_hash t) (int_to_f64 (int (last_live (tb_array t))))) (heap_table h i)"

definition cleared :: "table \<Rightarrow> table" where
  "cleared t =
     t\<lparr>tb_mutation := tb_mutation t + 1, tb_array := map (\<lambda>_. VNil) (tb_array t), tb_hash := [],
       tb_hash_tombstones := 0, tb_hash_order := [], tb_hash_order_positions := [],
       tb_hash_order_enabled := False,
       tb_preallocated_array_boundary := tb_preallocated_array_boundary t \<or> tb_array t \<noteq> []\<rparr>"

definition table_clear :: "table_id \<Rightarrow> 'b heap \<Rightarrow> (unit, 'b) hres" where
  "table_clear i h =
     on_table i h (\<lambda>t.
     if tb_frozen t then (Err FrozenTable, h) else (Ok (), put_object i (OTable (cleared t)) h))"

definition table_mark_preallocated_array_boundary :: "table_id \<Rightarrow> 'b heap \<Rightarrow> (unit, 'b) hres" where
  "table_mark_preallocated_array_boundary i h =
     on_table i h (\<lambda>t. (Ok (), put_object i (OTable (t\<lparr>tb_preallocated_array_boundary := True\<rparr>)) h))"

definition table_has_preallocated_array_boundary :: "'b heap \<Rightarrow> table_id \<Rightarrow> (bool, heap_error) res" where
  "table_has_preallocated_array_boundary h i = map_ok tb_preallocated_array_boundary (heap_table h i)"

definition table_array_capacity :: "'b heap \<Rightarrow> table_id \<Rightarrow> (nat, heap_error) res" where
  "table_array_capacity h i = map_ok tb_array_capacity (heap_table h i)"

definition table_is_frozen :: "'b heap \<Rightarrow> table_id \<Rightarrow> (bool, heap_error) res" where
  "table_is_frozen h i = map_ok tb_frozen (heap_table h i)"

definition table_freeze :: "table_id \<Rightarrow> 'b heap \<Rightarrow> (unit, 'b) hres" where
  "table_freeze i h =
     on_table i h (\<lambda>t.
     if tb_frozen t then (Err AlreadyFrozen, h) else (Ok (), put_object i (OTable (t\<lparr>tb_frozen := True\<rparr>)) h))"

definition table_metatable :: "'b heap \<Rightarrow> table_id \<Rightarrow> (table_id option, heap_error) res" where
  "table_metatable h i = map_ok tb_metatable (heap_table h i)"

text \<open>Both forms of \<open>__mode\<close> are looked for by byte.\<close>

definition declares_weak_mode :: "'b heap \<Rightarrow> table_id option \<Rightarrow> bool" where
  "declares_weak_mode h metatable =
     (case metatable of
        None \<Rightarrow> False
      | Some i \<Rightarrow>
          (case table_get h i (VString MODE_NAME) of
             Ok (VString mode) \<Rightarrow> list_ex (\<lambda>b. b = 107 \<or> b = 118) mode
           | _ \<Rightarrow> False))"

definition reset_finalizer :: "table \<Rightarrow> table" where
  "reset_finalizer t =
     t\<lparr>tb_finalizer_armed := False, tb_finalizer_done := False, tb_finalizer_profile := None,
       tb_finalizer_order := 0\<rparr>"

definition set_table_metatable :: "table_id \<Rightarrow> table_id option \<Rightarrow> 'b heap \<Rightarrow> (unit, 'b) hres" where
  "set_table_metatable i metatable h =
     (case (case metatable of None \<Rightarrow> Ok () | Some mt \<Rightarrow> map_ok (\<lambda>_. ()) (heap_table h mt)) of
        Err e \<Rightarrow> (Err e, h)
      | Panic \<Rightarrow> (Panic, h)
      | Ok _ \<Rightarrow>
          on_table i h (\<lambda>t.
          if tb_frozen t then (Err FrozenTable, h)
          else (Ok (), (put_object i (OTable (reset_finalizer (t\<lparr>tb_metatable := metatable\<rparr>))) h)
                 \<lparr>hp_has_weak_tables := hp_has_weak_tables h \<or> declares_weak_mode h metatable\<rparr>)))"

definition table_finalizer_done :: "'b heap \<Rightarrow> table_id \<Rightarrow> (bool, heap_error) res" where
  "table_finalizer_done h i = map_ok tb_finalizer_done (heap_table h i)"

text \<open>An order is drawn before the handle is checked.\<close>

definition draw_finalizer_order :: "bool \<Rightarrow> bool \<Rightarrow> 'b heap \<Rightarrow> 64 word option \<times> 'b heap" where
  "draw_finalizer_order armed done_already h =
     (if armed \<and> \<not> done_already
      then (Some (hp_next_finalizer_order h), h\<lparr>hp_next_finalizer_order := hp_next_finalizer_order h + 1\<rparr>)
      else (None, h))"

definition set_table_finalizer_state ::
  "table_id \<Rightarrow> bool \<Rightarrow> bool \<Rightarrow> semantic_profile option \<Rightarrow> 'b heap \<Rightarrow> (unit, 'b) hres" where
  "set_table_finalizer_state i armed done_already profile h =
     (let (order, h) = draw_finalizer_order armed done_already h in
      on_table i h (\<lambda>t.
        (Ok (), put_object i
          (OTable (t\<lparr>tb_finalizer_armed := armed, tb_finalizer_done := done_already,
             tb_finalizer_profile := (if armed then profile else None),
             tb_finalizer_order := (case order of Some n \<Rightarrow> n | None \<Rightarrow> tb_finalizer_order t)\<rparr>)) h)))"

section \<open>Iteration\<close>

fun first_live :: "(key, val) hash_map \<Rightarrow> key list \<Rightarrow> (val \<times> val) option" where
  "first_live h [] = None"
| "first_live h (k # ks) =
     (case map_of h k of
        Some v \<Rightarrow> (if v \<noteq> VNil then Some (key_to_value k, v) else first_live h ks)
      | None \<Rightarrow> first_live h ks)"

definition map_endless :: "('a, endless) res \<Rightarrow> ('a, heap_error) res" where
  "map_endless r = (case r of Ok x \<Rightarrow> Ok x | _ \<Rightarrow> Panic)"

text \<open>The keys of the hash part in the order of the table; unordered, that of the map itself.\<close>

definition visit_order :: "table \<Rightarrow> (key list, heap_error) res" where
  "visit_order t =
     (if tb_hash_order_capacity t \<noteq> 0 then
        (if tb_hash_iteration_order t = LuauOrder then map_endless (luau_hash_order t)
         else Ok (tb_hash_order t))
      else Ok (map fst (tb_hash t)))"

definition next_in_order :: "table \<Rightarrow> key \<Rightarrow> ((val \<times> val) option, heap_error) res" where
  "next_in_order t k =
     rbind (visit_order t) (\<lambda>order.
     case dropWhile (\<lambda>c. c \<noteq> k) order of
       [] \<Rightarrow> Err InvalidIterationKey
     | _ # rest \<Rightarrow> Ok (first_live (tb_hash t) rest))"

fun next_in_array :: "nat \<Rightarrow> val list \<Rightarrow> (val \<times> val) option" where
  "next_in_array i [] = None"
| "next_in_array i (v # vs) =
     (if v \<noteq> VNil then Some (VInteger (int (i + 1)), v) else next_in_array (i + 1) vs)"

definition next_from :: "table \<Rightarrow> nat \<Rightarrow> ((val \<times> val) option, heap_error) res" where
  "next_from t start =
     (case next_in_array start (drop start (tb_array t)) of
        Some p \<Rightarrow> Ok (Some p)
      | None \<Rightarrow> rbind (visit_order t) (\<lambda>order. Ok (first_live (tb_hash t) order)))"

definition tb_next :: "table \<Rightarrow> val \<Rightarrow> ((val \<times> val) option, heap_error) res" where
  "tb_next t k =
     (if k = VNil then next_from t 0
      else rbind (key_from_value k) (\<lambda>key.
        case key_array_index key of
          Some index \<Rightarrow>
            (if index \<le> length (tb_array t) then
               rbind (index_at (tb_array t) (index - 1)) (\<lambda>v.
               if v \<noteq> VNil \<or> map_of (tb_hash t) key = Some VNil then next_from t index
               else Err InvalidIterationKey)
             else next_in_order t key)
        | None \<Rightarrow> next_in_order t key))"

definition table_next :: "'b heap \<Rightarrow> table_id \<Rightarrow> val \<Rightarrow> ((val \<times> val) option, heap_error) res" where
  "table_next h i k = rbind (heap_table h i) (\<lambda>t. tb_next t k)"

section \<open>Userdata\<close>

definition userdata_tag :: "'b heap \<Rightarrow> userdata_id \<Rightarrow> (bytes, heap_error) res" where
  "userdata_tag h i = map_ok ud_tag (heap_userdata h i)"

definition userdata_metatable :: "'b heap \<Rightarrow> userdata_id \<Rightarrow> (table_id option, heap_error) res" where
  "userdata_metatable h i = map_ok ud_metatable (heap_userdata h i)"

definition set_userdata_metatable :: "userdata_id \<Rightarrow> table_id option \<Rightarrow> 'b heap \<Rightarrow> (unit, 'b) hres" where
  "set_userdata_metatable i metatable h =
     (case (case metatable of None \<Rightarrow> Ok () | Some mt \<Rightarrow> map_ok (\<lambda>_. ()) (heap_table h mt)) of
        Err e \<Rightarrow> (Err e, h)
      | Panic \<Rightarrow> (Panic, h)
      | Ok _ \<Rightarrow>
          on_userdata i h (\<lambda>u.
            (Ok (), put_object i
              (OUserData (u\<lparr>ud_metatable := metatable, ud_finalizer_armed := False,
                 ud_finalizer_done := False, ud_finalizer_profile := None, ud_finalizer_order := 0\<rparr>)) h)))"

definition contains_userdata :: "'b heap \<Rightarrow> userdata_id \<Rightarrow> bool" where
  "contains_userdata h i = is_ok (heap_userdata h i)"

definition userdata_finalizer_done :: "'b heap \<Rightarrow> userdata_id \<Rightarrow> (bool, heap_error) res" where
  "userdata_finalizer_done h i = map_ok ud_finalizer_done (heap_userdata h i)"

definition set_userdata_finalizer_state ::
  "userdata_id \<Rightarrow> bool \<Rightarrow> bool \<Rightarrow> semantic_profile option \<Rightarrow> 'b heap \<Rightarrow> (unit, 'b) hres" where
  "set_userdata_finalizer_state i armed done_already profile h =
     (let (order, h) = draw_finalizer_order armed done_already h in
      on_userdata i h (\<lambda>u.
        (Ok (), put_object i
          (OUserData (u\<lparr>ud_finalizer_armed := armed, ud_finalizer_done := done_already,
             ud_finalizer_profile := (if armed then profile else None),
             ud_finalizer_order := (case order of Some n \<Rightarrow> n | None \<Rightarrow> ud_finalizer_order u)\<rparr>)) h)))"

text \<open>User values are numbered from one.\<close>

definition userdata_user_value :: "'b heap \<Rightarrow> userdata_id \<Rightarrow> nat \<Rightarrow> (val option, heap_error) res" where
  "userdata_user_value h i index =
     (if index = 0 then Ok None
      else map_ok (\<lambda>u. get (ud_user_values u) (index - 1)) (heap_userdata h i))"

definition userdata_set_user_value :: "userdata_id \<Rightarrow> nat \<Rightarrow> val \<Rightarrow> 'b heap \<Rightarrow> (bool, 'b) hres" where
  "userdata_set_user_value i index v h =
     (if index = 0 then (Ok False, h)
      else on_userdata i h (\<lambda>u.
        if length (ud_user_values u) \<le> index - 1 then (Ok False, h)
        else (Ok True, put_object i
               (OUserData (u\<lparr>ud_user_values := (ud_user_values u)[index - 1 := v]\<rparr>)) h)))"

section \<open>Threads\<close>

definition thread_root_bytes :: "platform \<Rightarrow> nat \<Rightarrow> nat \<Rightarrow> (nat, memory_error) res" where
  "thread_root_bytes env root_capacity upvalue_capacity =
     rbind (checked_vector_bytes (sz_value env) root_capacity) (\<lambda>a.
     rbind (checked_vector_bytes (sz_upvalue env) upvalue_capacity) (\<lambda>b. mem_add a b))"

definition try_clone_roots :: "platform \<Rightarrow> nat \<Rightarrow> nat \<Rightarrow> (unit, heap_error) res" where
  "try_clone_roots env roots upvalues =
     rbind (try_reserve_vec_exact env (sz_value env) 0 roots) (\<lambda>_.
     try_reserve_vec_exact env (sz_upvalue env) 0 upvalues)"

definition thread_set_gc_roots ::
  "platform \<Rightarrow> thread_id \<Rightarrow> val list \<Rightarrow> upvalue_id list \<Rightarrow> 'b heap \<Rightarrow> (unit, 'b) hres" where
  "thread_set_gc_roots env i roots upvalues h =
     (case rbind (heap_thread h i) (\<lambda>th.
           rbind (he (thread_root_bytes env (th_root_capacity th) (th_upvalue_capacity th))) (\<lambda>old_bytes.
           rbind (he (thread_root_bytes env (length roots) (length upvalues))) (\<lambda>new_bytes.
           Ok (th, old_bytes, new_bytes)))) of
        Err e \<Rightarrow> (Err e, h)
      | Panic \<Rightarrow> (Panic, h)
      | Ok (th, old_bytes, new_bytes) \<Rightarrow>
          (let (r, m) = reserving (hp_memory h) new_bytes
                          (try_clone_roots env (length roots) (length upvalues)) old_bytes;
               h = h\<lparr>hp_memory := m\<rparr>
           in case r of
                Ok _ \<Rightarrow> (Ok (), put_object i
                  (OThread \<lparr>th_roots = roots, th_root_capacity = length roots, th_upvalues = upvalues,
                     th_upvalue_capacity = length upvalues\<rparr>) h)
              | other \<Rightarrow> (other, h)))"

definition thread_set_gc_roots_bytes ::
  "platform \<Rightarrow> 'b heap \<Rightarrow> thread_id \<Rightarrow> nat \<Rightarrow> nat \<Rightarrow> (nat, heap_error) res" where
  "thread_set_gc_roots_bytes env h i root_capacity upvalue_capacity =
     rbind (heap_thread h i) (\<lambda>_. he (thread_root_bytes env root_capacity upvalue_capacity))"

definition contains_thread :: "'b heap \<Rightarrow> thread_id \<Rightarrow> bool" where
  "contains_thread h i = is_ok (heap_thread h i)"

definition live_objects :: "'b heap \<Rightarrow> nat" where
  "live_objects h = hp_live h"

section \<open>Closures and upvalues\<close>

definition try_clone_upvalues :: "platform \<Rightarrow> upvalue_id list \<Rightarrow> (upvalue_id list, heap_error) res" where
  "try_clone_upvalues env us =
     rbind (try_reserve_vec_exact env (sz_upvalue env) 0 (length us)) (\<lambda>_. Ok us)"

definition closure_parts ::
  "platform \<Rightarrow> 'b heap \<Rightarrow> closure_id \<Rightarrow> (chunk \<times> nat \<times> semantic_profile \<times> upvalue_id list, heap_error) res" where
  "closure_parts env h i =
     rbind (heap_closure h i) (\<lambda>c.
     case cl_code c of
       CodeLuau chunk \<Rightarrow>
         map_ok (\<lambda>us. (chunk, cl_prototype c, cl_profile c, us)) (try_clone_upvalues env (cl_upvalues c))
     | CodeBlu _ \<Rightarrow> Err (ClosureFormat i ''Luau''))"

definition blu_closure_parts ::
  "platform \<Rightarrow> 'b heap \<Rightarrow> closure_id \<Rightarrow> ('b \<times> nat \<times> semantic_profile \<times> upvalue_id list, heap_error) res" where
  "blu_closure_parts env h i =
     rbind (heap_closure h i) (\<lambda>c.
     case cl_code c of
       CodeBlu artifact \<Rightarrow>
         map_ok (\<lambda>us. (artifact, cl_prototype c, cl_profile c, us)) (try_clone_upvalues env (cl_upvalues c))
     | CodeLuau _ \<Rightarrow> Err (ClosureFormat i ''BluV1''))"

fun is_blu_code :: "'b closure_code \<Rightarrow> bool" where
  "is_blu_code (CodeBlu _) = True"
| "is_blu_code (CodeLuau _) = False"

definition is_blu_closure :: "'b heap \<Rightarrow> closure_id \<Rightarrow> (bool, heap_error) res" where
  "is_blu_closure h i =
     (case heap_object h i of
        Some (OClosure c) \<Rightarrow> Ok (is_blu_code (cl_code c))
      | Some (ONativeClosure _) \<Rightarrow> Ok False
      | _ \<Rightarrow> Err (StaleClosure i))"

definition on_native :: "'b heap \<Rightarrow> closure_id \<Rightarrow> (native_closure \<Rightarrow> 'a option) \<Rightarrow> ('a option, heap_error) res" where
  "on_native h i f =
     (case heap_object h i of
        Some (OClosure _) \<Rightarrow> Ok None
      | Some (ONativeClosure c) \<Rightarrow> Ok (f c)
      | _ \<Rightarrow> Err (StaleClosure i))"

definition native_closure_function :: "'b heap \<Rightarrow> closure_id \<Rightarrow> (32 word option, heap_error) res" where
  "native_closure_function h i = on_native h i (\<lambda>c. Some (nc_function c))"

definition native_closure_upvalue :: "'b heap \<Rightarrow> closure_id \<Rightarrow> (upvalue_id option, heap_error) res" where
  "native_closure_upvalue h i = on_native h i (\<lambda>c. get (nc_upvalues c) 0)"

definition native_closure_upvalues :: "'b heap \<Rightarrow> closure_id \<Rightarrow> (upvalue_id list option, heap_error) res" where
  "native_closure_upvalues h i = on_native h i (\<lambda>c. Some (nc_upvalues c))"

definition contains_closure :: "'b heap \<Rightarrow> closure_id \<Rightarrow> bool" where
  "contains_closure h i =
     (case heap_object h i of Some (OClosure _) \<Rightarrow> True | Some (ONativeClosure _) \<Rightarrow> True | _ \<Rightarrow> False)"

definition blu_closure_environment :: "'b heap \<Rightarrow> closure_id \<Rightarrow> (table_id option, heap_error) res" where
  "blu_closure_environment h i =
     rbind (heap_closure h i) (\<lambda>c.
     if \<not> is_blu_code (cl_code c) then Err (ClosureFormat i ''BluV1'') else Ok (cl_environment c))"

definition closure_set_environment :: "closure_id \<Rightarrow> table_id \<Rightarrow> 'b heap \<Rightarrow> (unit, 'b) hres" where
  "closure_set_environment i environment h =
     on_table environment h (\<lambda>_.
     on_closure i h (\<lambda>c.
     if \<not> is_blu_code (cl_code c) then (Err (ClosureFormat i ''BluV1''), h)
     else (Ok (), put_object i (OClosure (c\<lparr>cl_environment := Some environment\<rparr>)) h)))"

definition closure_push_upvalue :: "platform \<Rightarrow> closure_id \<Rightarrow> upvalue_id \<Rightarrow> 'b heap \<Rightarrow> (unit, 'b) hres" where
  "closure_push_upvalue env i upvalue h =
     on_closure i h (\<lambda>c.
     let pushed = c\<lparr>cl_upvalues := cl_upvalues c @ [upvalue]\<rparr> in
     case rbind (ok_or (checked_add (length (cl_upvalues c)) 1) overflow) (\<lambda>required.
          if required \<le> cl_upvalue_capacity c then Ok None
          else rbind (he (checked_vector_bytes (sz_upvalue env) (cl_upvalue_capacity c))) (\<lambda>old_bytes.
               rbind (he (checked_vector_bytes (sz_upvalue env) required)) (\<lambda>new_bytes.
               Ok (Some (required, old_bytes, new_bytes))))) of
       Err e \<Rightarrow> (Err e, h)
     | Panic \<Rightarrow> (Panic, h)
     | Ok None \<Rightarrow> (Ok (), put_object i (OClosure pushed) h)
     | Ok (Some (required, old_bytes, new_bytes)) \<Rightarrow>
         (let (r, m) = reserving (hp_memory h) new_bytes
                         (try_reserve_vec_to env (sz_upvalue env) required) old_bytes;
              h = h\<lparr>hp_memory := m\<rparr>
          in case r of
               Ok _ \<Rightarrow> (Ok (), put_object i (OClosure (pushed\<lparr>cl_upvalue_capacity := required\<rparr>)) h)
             | other \<Rightarrow> (other, h)))"

definition closure_set_upvalue :: "closure_id \<Rightarrow> nat \<Rightarrow> upvalue_id \<Rightarrow> 'b heap \<Rightarrow> (unit, 'b) hres" where
  "closure_set_upvalue i index upvalue h =
     on_closure i h (\<lambda>c.
     if length (cl_upvalues c) \<le> index
     then (Err (ClosureFormat i ''closure with the requested upvalue''), h)
     else (Ok (), put_object i (OClosure (c\<lparr>cl_upvalues := (cl_upvalues c)[index := upvalue]\<rparr>)) h))"

definition closure_push_upvalue_bytes :: "platform \<Rightarrow> 'b heap \<Rightarrow> closure_id \<Rightarrow> (nat, heap_error) res" where
  "closure_push_upvalue_bytes env h i =
     rbind (heap_closure h i) (\<lambda>c.
     rbind (ok_or (checked_add (length (cl_upvalues c)) 1) overflow) (\<lambda>required.
     if required \<le> cl_upvalue_capacity c then Ok 0
     else he (checked_vector_bytes (sz_upvalue env) required)))"

definition upvalue_get :: "'b heap \<Rightarrow> upvalue_id \<Rightarrow> (val, heap_error) res" where
  "upvalue_get h i = (case heap_object h i of Some (OUpvalue v) \<Rightarrow> Ok v | _ \<Rightarrow> Err (StaleUpvalue i))"

definition upvalue_set :: "upvalue_id \<Rightarrow> val \<Rightarrow> 'b heap \<Rightarrow> (unit, 'b) hres" where
  "upvalue_set i v h =
     (case heap_object h i of
        Some (OUpvalue _) \<Rightarrow> (Ok (), put_object i (OUpvalue v) h)
      | _ \<Rightarrow> (Err (StaleUpvalue i), h))"

end
