(* ===== verification/Runtime_Iteration.thy ===== *)
theory Runtime_Iteration
  imports Runtime_Heap_Ops
begin

text \<open>
  Iteration of tables in \<open>blu-runtime/src/heap.rs\<close>. Started at nil and continued at the key
  returned last, \<open>table_next\<close> lists the live entries once each and then ends, provided no live
  entry of the hash part lies at an index of the array. Writes past a boundary set by a nil
  assignment break that proviso, and then iteration does not end.
\<close>

section \<open>The entries in order\<close>

fun head_opt :: "'a list \<Rightarrow> 'a option" where
  "head_opt [] = None"
| "head_opt (x # xs) = Some x"

fun live_array :: "nat \<Rightarrow> val list \<Rightarrow> (val \<times> val) list" where
  "live_array i [] = []"
| "live_array i (v # vs) = (if v \<noteq> VNil then [(VInteger (int (i + 1)), v)] else []) @ live_array (i + 1) vs"

fun live_hash :: "(key, val) hash_map \<Rightarrow> key list \<Rightarrow> (val \<times> val) list" where
  "live_hash h [] = []"
| "live_hash h (k # ks) =
     (if hash_lookup h k \<noteq> VNil then [(key_to_value k, hash_lookup h k)] else []) @ live_hash h ks"

definition table_entries :: "table \<Rightarrow> key list \<Rightarrow> (val \<times> val) list" where
  "table_entries t order = live_array 0 (tb_array t) @ live_hash (tb_hash t) order"

lemma next_in_array_head: "next_in_array i vs = head_opt (live_array i vs)"
  by (induction i vs rule: next_in_array.induct) auto

lemma first_live_head: "first_live h ks = head_opt (live_hash h ks)"
  by (induction h ks rule: first_live.induct) (auto simp: hash_lookup_def split: option.splits)

lemma head_opt_append: "head_opt (xs @ ys) = (case head_opt xs of None \<Rightarrow> head_opt ys | Some x \<Rightarrow> Some x)"
  by (cases xs) auto

lemma next_from_entries:
  "visit_order t = Ok order \<Longrightarrow>
     next_from t start = Ok (head_opt (live_array start (drop start (tb_array t)) @ live_hash (tb_hash t) order))"
  by (auto simp: next_from_def next_in_array_head first_live_head head_opt_append split: option.splits)

text \<open>An entry in the array part, and what follows it.\<close>

lemma live_array_split:
  "live_array i vs = pre @ (k, v) # post \<Longrightarrow>
     \<exists>n. n < length vs \<and> vs ! n = v \<and> v \<noteq> VNil \<and> k = VInteger (int (i + n + 1)) \<and>
       post = live_array (i + n + 1) (drop (n + 1) vs)"
proof (induction i vs arbitrary: pre rule: live_array.induct)
  case (1 i)
  then show ?case by simp
next
  case (2 i w vs)
  have later: ?case if "live_array (i + 1) vs = pre' @ (k, v) # post" for pre'
  proof -
    from "2.IH" [OF that] obtain n where "n < length vs" "vs ! n = v" "v \<noteq> VNil" "k = VInteger (int (i + 1 + n + 1))"
      "post = live_array (i + 1 + n + 1) (drop (n + 1) vs)" by blast
    then show ?thesis by (intro exI [of _ "Suc n"]) simp
  qed
  show ?case
  proof (cases "w \<noteq> VNil")
    case True
    show ?thesis
    proof (cases pre)
      case Nil
      with 2(2) True show ?thesis by (intro exI [of _ 0]) auto
    next
      case (Cons p ps)
      with 2(2) True later show ?thesis by simp
    qed
  next
    case False
    with 2(2) later show ?thesis by simp
  qed
qed

lemma live_hash_split:
  "live_hash h ks = pre @ (k, v) # post \<Longrightarrow> distinct ks \<Longrightarrow>
     \<exists>key rest. key \<in> set ks \<and> k = key_to_value key \<and> hash_lookup h key = v \<and> v \<noteq> VNil \<and>
       dropWhile (\<lambda>c. c \<noteq> key) ks = key # rest \<and> post = live_hash h rest"
proof (induction ks arbitrary: pre)
  case Nil
  then show ?case by simp
next
  case (Cons a ks)
  have later: ?case if "live_hash h ks = pre' @ (k, v) # post" for pre'
  proof -
    from Cons.IH [OF that] Cons.prems(2) obtain key rest where key: "key \<in> set ks" "k = key_to_value key"
      "hash_lookup h key = v" "v \<noteq> VNil" "dropWhile (\<lambda>c. c \<noteq> key) ks = key # rest" "post = live_hash h rest" by auto
    moreover have "a \<noteq> key" using Cons.prems(2) key(1) by auto
    ultimately show ?thesis by (intro exI [of _ key] exI [of _ rest]) simp
  qed
  show ?case
  proof (cases "hash_lookup h a \<noteq> VNil")
    case True
    show ?thesis
    proof (cases pre)
      case Nil
      with Cons.prems True show ?thesis by (intro exI [of _ a] exI [of _ ks]) auto
    next
      case (Cons p ps)
      with Cons.prems True later show ?thesis by simp
    qed
  next
    case False
    with Cons.prems later show ?thesis by simp
  qed
qed

section \<open>Iteration\<close>

text \<open>Each key of the order is one a value has, and a live one lies beyond the array.\<close>

definition iterable :: "table \<Rightarrow> key list \<Rightarrow> bool" where
  "iterable t order \<longleftrightarrow>
     visit_order t = Ok order \<and> distinct order \<and> fst ` set (tb_hash t) \<subseteq> set order \<and>
     (\<forall>k\<in>set order. key_from_value (key_to_value k) = Ok k) \<and>
     (\<forall>n. 0 < n \<and> n \<le> length (tb_array t) \<longrightarrow> \<not> present_integer (tb_hash t) n)"

lemma key_to_value_not_nil [simp]: "key_to_value k \<noteq> VNil"
  by (cases k) auto

lemma tb_next_array:
  assumes "visit_order t = Ok order" and "n < length (tb_array t)" and "tb_array t ! n \<noteq> VNil"
  shows "tb_next t (VInteger (int (n + 1))) =
    Ok (head_opt (live_array (n + 1) (drop (n + 1) (tb_array t)) @ live_hash (tb_hash t) order))"
  using assms next_from_entries [OF assms(1), of "n + 1"]
  by (simp add: tb_next_def index_at_def nat_add_distrib)

lemma tb_next_hash:
  assumes "iterable t order" and "key \<in> set order" and "hash_lookup (tb_hash t) key \<noteq> VNil"
    and "dropWhile (\<lambda>c. c \<noteq> key) order = key # rest"
  shows "tb_next t (key_to_value key) = Ok (head_opt (live_hash (tb_hash t) rest))"
proof -
  have key: "key_from_value (key_to_value key) = Ok key" "visit_order t = Ok order"
    using assms(1,2) by (simp_all add: iterable_def)
  have "next_in_order t key = Ok (head_opt (live_hash (tb_hash t) rest))"
    using assms(4) key(2) by (simp add: next_in_order_def first_live_head)
  moreover have "length (tb_array t) < n" if "key_array_index key = Some n" for n
  proof (rule ccontr)
    assume "\<not> length (tb_array t) < n"
    with that assms(1) have "\<not> present_integer (tb_hash t) n" "key = KInteger (int n)"
      by (auto simp: iterable_def key_array_index_Some)
    with assms(3) show False by (simp add: present_iff)
  qed
  ultimately show ?thesis using key by (auto simp: tb_next_def split: option.split)
qed

lemma live_array_mem: "e \<in> set (live_array i vs) \<longleftrightarrow> (\<exists>n < length vs. vs ! n \<noteq> VNil \<and> e = (VInteger (int (i + n + 1)), vs ! n))"
  by (induction i vs rule: live_array.induct) (auto simp: less_Suc_eq_0_disj)

lemma live_hash_mem: "e \<in> set (live_hash h ks) \<longleftrightarrow> (\<exists>k\<in>set ks. hash_lookup h k \<noteq> VNil \<and> e = (key_to_value k, hash_lookup h k))"
  by (induction ks) auto

text \<open>The entries are those of the map, each once.\<close>

lemma table_entries_complete:
  assumes "iterable t order"
  shows "set (table_entries t order) = {(key_to_value k, lookup t k) | k. lookup t k \<noteq> VNil}"
proof (intro set_eqI iffI)
  fix e
  assume "e \<in> set (table_entries t order)"
  then consider n where "n < length (tb_array t)" "tb_array t ! n \<noteq> VNil" "e = (VInteger (int (n + 1)), tb_array t ! n)"
    | k where "k \<in> set order" "hash_lookup (tb_hash t) k \<noteq> VNil" "e = (key_to_value k, hash_lookup (tb_hash t) k)"
    by (auto simp: table_entries_def live_array_mem live_hash_mem)
  then show "e \<in> {(key_to_value k, lookup t k) | k. lookup t k \<noteq> VNil}"
  proof cases
    case 1
    then have "lookup t (KInteger (int (n + 1))) = tb_array t ! n" by (subst lookup_array) simp_all
    with 1 show ?thesis by (intro CollectI exI [of _ "KInteger (int (n + 1))"]) simp
  next
    case 2
    have "lookup t k = hash_lookup (tb_hash t) k"
    proof (rule lookup_hash, intro allI impI, rule ccontr)
      fix n
      assume "key_array_index k = Some n" "\<not> length (tb_array t) < n"
      with assms 2(2) show False by (auto simp: iterable_def key_array_index_Some present_iff)
    qed
    with 2 show ?thesis by auto
  qed
next
  fix e
  assume "e \<in> {(key_to_value k, lookup t k) | k. lookup t k \<noteq> VNil}"
  then obtain k where k: "e = (key_to_value k, lookup t k)" "lookup t k \<noteq> VNil" by blast
  show "e \<in> set (table_entries t order)"
  proof (cases "\<exists>n. key_array_index k = Some n \<and> n \<le> length (tb_array t)")
    case True
    then obtain n where n: "k = KInteger (int n)" "0 < n" "n \<le> length (tb_array t)"
      by (auto simp: key_array_index_Some)
    then have "n - 1 < length (tb_array t)" "n = n - 1 + 1" by auto
    with n k show ?thesis
      by (auto simp: table_entries_def live_array_mem lookup_array intro!: exI [of _ "n - 1"])
  next
    case False
    then have h: "lookup t k = hash_lookup (tb_hash t) k" by (intro lookup_hash) auto
    with k(2) have "k \<in> fst ` set (tb_hash t)"
      by (auto simp: hash_lookup_def rev_image_eqI dest!: map_of_SomeD split: option.splits)
    with assms have "k \<in> set order" by (auto simp: iterable_def)
    with k h show ?thesis by (auto simp: table_entries_def live_hash_mem)
  qed
qed

lemma key_to_value_inj:
  assumes "key_from_value (key_to_value a) = Ok a" and "key_from_value (key_to_value b) = Ok b"
  shows "key_to_value a = key_to_value b \<longleftrightarrow> a = b"
  using assms by (metis res.inject(1))

lemma distinct_live_array: "distinct (map fst (live_array i vs))"
proof (induction i vs rule: live_array.induct)
  case (2 i v vs)
  have "VInteger (int (i + 1)) \<notin> fst ` set (live_array (i + 1) vs)" by (auto simp: live_array_mem)
  with 2 show ?case by simp
qed simp

lemma distinct_live_hash:
  assumes "distinct ks" and "\<forall>k\<in>set ks. key_from_value (key_to_value k) = Ok k"
  shows "distinct (map fst (live_hash h ks))"
  using assms
proof (induction ks)
  case (Cons k ks)
  have "key_to_value k \<notin> fst ` set (live_hash h ks)"
    using Cons.prems key_to_value_inj by (auto simp: live_hash_mem)
  with Cons show ?case by simp
qed simp

lemma table_entries_distinct:
  assumes "iterable t order"
  shows "distinct (map fst (table_entries t order))"
proof -
  have keys: "\<forall>k\<in>set order. key_from_value (key_to_value k) = Ok k" using assms by (simp add: iterable_def)
  have "fst ` set (live_array 0 (tb_array t)) \<inter> fst ` set (live_hash (tb_hash t) order) = {}"
  proof (rule ccontr)
    assume "\<not> ?thesis"
    then obtain n k where n: "n < length (tb_array t)" and k: "k \<in> set order" "hash_lookup (tb_hash t) k \<noteq> VNil"
      and e: "key_to_value k = VInteger (int (n + 1))"
      by (fastforce simp: live_array_mem live_hash_mem)
    from e have "k = KInteger (int (n + 1))" by (cases k) auto
    with k(2) have "present_integer (tb_hash t) (n + 1)" by (simp only: present_iff) simp
    with assms n show False by (auto simp: iterable_def)
  qed
  then show ?thesis
    using distinct_live_array [of 0 "tb_array t"] distinct_live_hash [OF _ keys, of "tb_hash t"] assms
    by (simp add: table_entries_def iterable_def)
qed

text \<open>
  C34: iterating a table lists the entries of its map, each once: from nil comes the first, from the
  key of each comes the next, and from the last the end.
\<close>

theorem table_next_enumerates:
  assumes "iterable t order"
  shows "distinct (map fst (table_entries t order)) \<and>
    set (table_entries t order) = {(key_to_value k, lookup t k) | k. lookup t k \<noteq> VNil} \<and>
    tb_next t VNil = Ok (head_opt (table_entries t order)) \<and>
    (\<forall>pre k v post. table_entries t order = pre @ (k, v) # post \<longrightarrow> tb_next t k = Ok (head_opt post))"
proof (intro conjI allI impI)
  show "distinct (map fst (table_entries t order))" by (rule table_entries_distinct [OF assms])
  show "set (table_entries t order) = {(key_to_value k, lookup t k) | k. lookup t k \<noteq> VNil}"
    by (rule table_entries_complete [OF assms])
  have order: "visit_order t = Ok order" "distinct order" using assms by (simp_all add: iterable_def)
  show "tb_next t VNil = Ok (head_opt (table_entries t order))"
    using next_from_entries [OF order(1), of 0] by (simp add: tb_next_def table_entries_def)
  fix pre k v post
  assume "table_entries t order = pre @ (k, v) # post"
  then consider us where "live_array 0 (tb_array t) = pre @ (k, v) # us" "post = us @ live_hash (tb_hash t) order"
    | us where "live_hash (tb_hash t) order = us @ (k, v) # post"
    by (auto simp: table_entries_def append_eq_append_conv2 Cons_eq_append_conv append_eq_Cons_conv)
  then show "tb_next t k = Ok (head_opt post)"
  proof cases
    case 1
    from live_array_split [OF 1(1)] obtain n where "n < length (tb_array t)" "tb_array t ! n = v" "v \<noteq> VNil"
      "k = VInteger (int (n + 1))" "us = live_array (n + 1) (drop (n + 1) (tb_array t))" by auto
    with tb_next_array [OF order(1), of n] 1(2) show ?thesis by simp
  next
    case 2
    from live_hash_split [OF this order(2)] obtain key rest where "key \<in> set order" "k = key_to_value key"
      "hash_lookup (tb_hash t) key = v" "v \<noteq> VNil" "dropWhile (\<lambda>c. c \<noteq> key) order = key # rest"
      "post = live_hash (tb_hash t) rest" by blast
    with tb_next_hash [OF assms] show ?thesis by blast
  qed
qed

theorem table_next_enumerates_witness:
  "let t = new_table\<lparr>tb_array := [VInteger 5], tb_hash := [(KBoolean True, VInteger 6)]\<rparr> in
   tb_next t VNil = Ok (Some (VInteger 1, VInteger 5)) \<and>
   tb_next t (VInteger 1) = Ok (Some (VBoolean True, VInteger 6)) \<and> tb_next t (VBoolean True) = Ok None"
proof -
  let ?t = "new_table\<lparr>tb_array := [VInteger 5], tb_hash := [(KBoolean True, VInteger 6)]\<rparr>"
  have "iterable ?t [KBoolean True]"
    by (simp add: iterable_def visit_order_def new_table_def present_integer.simps)
  note steps = table_next_enumerates [OF this]
  have first: "tb_next ?t VNil = Ok (head_opt (table_entries ?t [KBoolean True]))" using steps by blast
  have later: "tb_next ?t k = Ok (head_opt post)" if "table_entries ?t [KBoolean True] = pre @ (k, v) # post" for pre k v post
    using steps that by blast
  have e: "table_entries ?t [KBoolean True] = [(VInteger 1, VInteger 5), (VBoolean True, VInteger 6)]"
    by (simp add: table_entries_def new_table_def hash_lookup_def)
  show ?thesis
    using first e later [of "[]" "VInteger 1" "VInteger 5" "[(VBoolean True, VInteger 6)]"]
      later [of "[(VInteger 1, VInteger 5)]" "VBoolean True" "VInteger 6" "[]"]
    by (simp add: Let_def)
qed

section \<open>Where the proviso fails\<close>

text \<open>
  \<open>t[3] = 7; t[1] = true; t[2] = nil; t[3] = 8\<close>: the last write fills the array up to index 3 and
  leaves the entry the first one made in the hash part.
\<close>

definition shadowed_writes :: "(key \<times> val) list" where
  "shadowed_writes = [(KInteger 3, VInteger 7), (KInteger 1, VBoolean True), (KInteger 2, VNil), (KInteger 3, VInteger 8)]"

text \<open>
  C35: the invariant of the two parts does not keep live hash entries off the indices of the array.
  After four plain writes to a new table, index 3 reads 8, but an entry for key 3 with the
  overwritten value 7 stays in the hash part: iteration lists key 3 twice and, continued at key 3,
  returns key 3 with the old value again, so that a loop over the table never ends.
\<close>

theorem shadowed_entry_iterates_forever:
  "\<exists>t m. tb_sets sample_platform shadowed_writes new_table (memory_account_new default_memory_config) = (Ok (), t, m) \<and>
     table_sound t \<and> lookup t (KInteger 3) = VInteger 8 \<and>
     tb_next t (VInteger 1) = Ok (Some (VInteger 3, VInteger 8)) \<and>
     tb_next t (VInteger 3) = Ok (Some (VInteger 3, VInteger 7))"
proof -
  let ?r = "tb_sets sample_platform shadowed_writes new_table (memory_account_new default_memory_config)"
  have ok: "fst ?r = Ok ()" by (simp add: shadowed_writes_def table_eval)
  have parts: "tb_array (fst (snd ?r)) = [VBoolean True, VNil, VInteger 8]" "tb_hash (fst (snd ?r)) = [(KInteger 3, VInteger 7)]"
    "tb_hash_order_capacity (fst (snd ?r)) = 0"
    by (simp_all add: shadowed_writes_def table_eval)
  obtain t m where r: "?r = (Ok (), t, m)" using ok by (metis fst_conv prod_cases3)
  have "table_sound t"
    by (rule tb_sets_sound [OF r new_table_sound _ platform_ok_sample])
      (simp add: shadowed_writes_def i64_min_def i64_max_def)
  moreover have "lookup t (KInteger 3) = VInteger 8" using parts r by (simp add: lookup_def tb_get_def get_def)
  moreover have "visit_order t = Ok [KInteger 3]" using parts r by (simp add: visit_order_def)
  note from_start = next_from_entries [OF this]
  have "tb_next t (VInteger 1) = Ok (Some (VInteger 3, VInteger 8))" "tb_next t (VInteger 3) = Ok (Some (VInteger 3, VInteger 7))"
    using parts r by (simp_all add: tb_next_def from_start index_at_def hash_lookup_def)
  ultimately show ?thesis using r by blast
qed

end
