(* ===== verification/Runtime_Mark.thy ===== *)
theory Runtime_Mark
  imports Runtime_Heap_Ops
begin

text \<open>
  The mark phase of \<open>Heap::collect\<close> in \<open>blu-runtime/src/heap.rs\<close>: a queue of handles is drained,
  each object marked and its references queued; tables with weak keys give up a value once its key
  is marked. The marked objects are shown to be exactly the live ones, and the phase to end on
  every heap whose weak-keyed tables hold no stale handle.
\<close>

section \<open>References\<close>

fun value_ref :: "val \<Rightarrow> object_id option" where
  "value_ref (VTable i) = Some i"
| "value_ref (VClosure i) = Some i"
| "value_ref (VThread i) = Some i"
| "value_ref (VCoroutineFunction i) = Some i"
| "value_ref (VUserData i) = Some i"
| "value_ref _ = None"

definition enqueue_value :: "val \<Rightarrow> object_id list" where
  "enqueue_value v = (case value_ref v of Some i \<Rightarrow> [i] | None \<Rightarrow> [])"

fun key_ref :: "key \<Rightarrow> object_id option" where
  "key_ref (KTable i) = Some i"
| "key_ref (KClosure i) = Some i"
| "key_ref (KThread i) = Some i"
| "key_ref (KCoroutineFunction i) = Some i"
| "key_ref (KUserData i) = Some i"
| "key_ref _ = None"

definition key_enqueue :: "key \<Rightarrow> object_id list" where
  "key_enqueue k = (case key_ref k of Some i \<Rightarrow> [i] | None \<Rightarrow> [])"

record weak_mode =
  wm_keys :: bool
  wm_values :: bool

definition default_weak_mode :: weak_mode where
  "default_weak_mode = \<lparr>wm_keys = False, wm_values = False\<rparr>"

definition table_weak_mode :: "'b slot list \<Rightarrow> table \<Rightarrow> weak_mode" where
  "table_weak_mode slots t =
     (case tb_metatable t of
        None \<Rightarrow> default_weak_mode
      | Some i \<Rightarrow>
          (case object_in slots i of
             Some (OTable mt) \<Rightarrow>
               (case tb_get mt (KString MODE_NAME) of
                  Some (VString mode) \<Rightarrow> \<lparr>wm_keys = 107 \<in> set mode, wm_values = 118 \<in> set mode\<rparr>
                | _ \<Rightarrow> default_weak_mode)
           | _ \<Rightarrow> default_weak_mode))"

definition ref_is_marked :: "'b slot list \<Rightarrow> object_id option \<Rightarrow> bool" where
  "ref_is_marked slots r =
     (case r of
        None \<Rightarrow> True
      | Some i \<Rightarrow> (case slot_of slots i of Some s \<Rightarrow> sl_object s \<noteq> None \<and> sl_marked s | None \<Rightarrow> False))"

definition value_is_marked :: "'b slot list \<Rightarrow> val \<Rightarrow> bool" where
  "value_is_marked slots v = ref_is_marked slots (value_ref v)"

definition key_is_marked :: "'b slot list \<Rightarrow> key \<Rightarrow> bool" where
  "key_is_marked slots k = ref_is_marked slots (key_ref k)"

section \<open>Draining the queue\<close>

definition live_entries :: "(key, val) hash_map \<Rightarrow> (key \<times> val) list" where
  "live_entries h = filter (\<lambda>p. snd p \<noteq> VNil) h"

definition table_children :: "'b slot list \<Rightarrow> table \<Rightarrow> object_id list" where
  "table_children slots t =
     (let weak = table_weak_mode slots t in
      (case tb_metatable t of Some i \<Rightarrow> [i] | None \<Rightarrow> []) @
      (if \<not> wm_keys weak \<and> tb_hash_contains_heap_key t
       then concat (map (\<lambda>p. key_enqueue (fst p)) (live_entries (tb_hash t))) else []) @
      (if \<not> wm_values weak \<and> tb_array_contains_heap_reference t
       then concat (map enqueue_value (filter (\<lambda>v. v \<noteq> VNil) (tb_array t))) else []) @
      (if \<not> wm_values weak \<and> tb_hash_contains_heap_value t
       then concat (map (\<lambda>p. enqueue_value (snd p))
              (filter (\<lambda>p. (\<not> wm_keys weak \<or> key_is_marked slots (fst p)) \<and> \<not> value_is_marked slots (snd p))
                 (live_entries (tb_hash t)))) else []))"

definition opt_list :: "'a option \<Rightarrow> 'a list" where
  "opt_list r = (case r of Some x \<Rightarrow> [x] | None \<Rightarrow> [])"

fun object_children :: "'b slot list \<Rightarrow> 'b obj \<Rightarrow> object_id list" where
  "object_children slots (OTable t) = table_children slots t"
| "object_children slots (OClosure c) = cl_upvalues c @ opt_list (cl_environment c)"
| "object_children slots (ONativeClosure c) = nc_upvalues c"
| "object_children slots (OUpvalue v) = enqueue_value v"
| "object_children slots (OThread th) = concat (map enqueue_value (th_roots th)) @ th_upvalues th"
| "object_children slots (OUserData u) = opt_list (ud_metatable u) @ concat (map enqueue_value (ud_user_values u))"

definition mark_in :: "'b slot list \<Rightarrow> object_id \<Rightarrow> 'b slot list" where
  "mark_in slots i =
     slots[unat (id_index i) := (slots ! unat (id_index i))\<lparr>sl_marked := True\<rparr>]"

definition unmarked_count :: "'b slot list \<Rightarrow> nat" where
  "unmarked_count slots = length (filter (\<lambda>s. \<not> sl_marked s) slots)"

lemma slot_of_Some: "slot_of slots i = Some s \<longleftrightarrow>
    unat (id_index i) < length slots \<and> slots ! unat (id_index i) = s \<and> sl_generation s = id_generation i"
  by (auto simp: slot_of_def get_def split: option.splits if_splits)

lemma filter_update_less:
  "n < length xs \<Longrightarrow> P (xs ! n) \<Longrightarrow> \<not> P y \<Longrightarrow> length (filter P (xs[n := y])) < length (filter P xs)"
  by (induction xs arbitrary: n) (auto simp: nth_Cons split: nat.splits)

lemma unmarked_count_mark:
  "slot_of slots i = Some s \<Longrightarrow> \<not> sl_marked s \<Longrightarrow> unmarked_count (mark_in slots i) < unmarked_count slots"
  unfolding unmarked_count_def mark_in_def by (rule filter_update_less) (simp_all add: slot_of_Some)

definition next_queue :: "'b slot list \<Rightarrow> 'b slot \<Rightarrow> object_id list \<Rightarrow> object_id list" where
  "next_queue slots s queue = queue @ (case sl_object s of None \<Rightarrow> [] | Some x \<Rightarrow> object_children slots x)"

function drain :: "'b slot list \<Rightarrow> object_id list \<Rightarrow> 'b slot list" where
  "drain slots [] = slots"
| "drain slots (i # queue) =
     (case slot_of slots i of
        None \<Rightarrow> drain slots queue
      | Some s \<Rightarrow>
          (if sl_marked s then drain slots queue
           else let slots' = mark_in slots i in
                drain slots' (next_queue slots' s queue)))"
  by pat_completeness auto
termination
  by (relation "measures [\<lambda>(slots, queue). unmarked_count slots, \<lambda>(slots, queue). length queue]")
    (auto simp: unmarked_count_mark)

text \<open>Values of weak-keyed tables whose key is marked and which are not.\<close>

definition ephemeron_refs :: "'b slot list \<Rightarrow> 32 word list \<Rightarrow> object_id list" where
  "ephemeron_refs slots live_indices =
     concat (map (\<lambda>n.
       case get slots (unat n) of
         Some s \<Rightarrow>
           (case sl_object s of
              Some (OTable t) \<Rightarrow>
                (let mode = table_weak_mode slots t in
                 if \<not> sl_marked s \<or> \<not> wm_keys mode \<or> wm_values mode then []
                 else concat (map (\<lambda>p. enqueue_value (snd p))
                        (filter (\<lambda>p. key_is_marked slots (fst p) \<and> \<not> value_is_marked slots (snd p))
                           (live_entries (tb_hash t)))))
            | _ \<Rightarrow> [])
       | None \<Rightarrow> []) live_indices)"

partial_function (option) mark_loop ::
  "'b slot list \<Rightarrow> 32 word list \<Rightarrow> object_id list \<Rightarrow> 'b slot list option" where
  "mark_loop slots live_indices queue =
     (let slots = drain slots queue; queue = ephemeron_refs slots live_indices in
      if queue = [] then Some slots else mark_loop slots live_indices queue)"

section \<open>Live objects\<close>

text \<open>What an object refers to strongly; the weak side of a table does not count.\<close>

fun strong_refs :: "'b slot list \<Rightarrow> 'b obj \<Rightarrow> object_id set" where
  "strong_refs slots (OTable t) =
     (let weak = table_weak_mode slots t in
      set (opt_list (tb_metatable t)) \<union>
      (if wm_keys weak then {} else {j. \<exists>p\<in>set (live_entries (tb_hash t)). key_ref (fst p) = Some j}) \<union>
      (if wm_values weak then {} else {j. \<exists>v\<in>set (tb_array t). value_ref v = Some j}) \<union>
      (if wm_keys weak \<or> wm_values weak then {} else {j. \<exists>p\<in>set (live_entries (tb_hash t)). value_ref (snd p) = Some j}))"
| "strong_refs slots x = set (object_children slots x)"

text \<open>
  Live are the roots, what a live object refers to strongly, and the value of an entry of a live
  table with weak keys once the key is live. Only handles of the current generation count.
\<close>

inductive live :: "'b slot list \<Rightarrow> object_id set \<Rightarrow> object_id \<Rightarrow> bool" for slots roots where
  live_root: "i \<in> roots \<Longrightarrow> slot_of slots i \<noteq> None \<Longrightarrow> live slots roots i"
| live_strong: "live slots roots i \<Longrightarrow> object_in slots i = Some x \<Longrightarrow> j \<in> strong_refs slots x \<Longrightarrow>
    slot_of slots j \<noteq> None \<Longrightarrow> live slots roots j"
| live_ephemeron: "live slots roots i \<Longrightarrow> object_in slots i = Some (OTable t) \<Longrightarrow>
    wm_keys (table_weak_mode slots t) \<Longrightarrow> \<not> wm_values (table_weak_mode slots t) \<Longrightarrow>
    p \<in> set (live_entries (tb_hash t)) \<Longrightarrow>
    (\<forall>k. key_ref (fst p) = Some k \<longrightarrow> live slots roots k \<and> object_in slots k \<noteq> None) \<Longrightarrow>
    value_ref (snd p) = Some j \<Longrightarrow> slot_of slots j \<noteq> None \<Longrightarrow> live slots roots j"

definition marked :: "'b slot list \<Rightarrow> object_id \<Rightarrow> bool" where
  "marked slots i \<longleftrightarrow> (\<exists>s. slot_of slots i = Some s \<and> sl_marked s)"

definition settled :: "'b slot list \<Rightarrow> object_id \<Rightarrow> bool" where
  "settled slots i \<longleftrightarrow> (\<forall>s. slot_of slots i = Some s \<longrightarrow> sl_marked s)"

text \<open>The flags of a table that let the collector skip a part of it tell the truth.\<close>

definition table_flags :: "table \<Rightarrow> bool" where
  "table_flags t \<longleftrightarrow>
     ((\<exists>p\<in>set (live_entries (tb_hash t)). key_ref (fst p) \<noteq> None) \<longrightarrow> tb_hash_contains_heap_key t) \<and>
     ((\<exists>v\<in>set (tb_array t). value_ref v \<noteq> None) \<longrightarrow> tb_array_contains_heap_reference t) \<and>
     ((\<exists>p\<in>set (live_entries (tb_hash t)). value_ref (snd p) \<noteq> None) \<longrightarrow> tb_hash_contains_heap_value t)"

fun flags_ok :: "'b obj \<Rightarrow> bool" where
  "flags_ok (OTable t) = table_flags t"
| "flags_ok x = True"

definition all_flags :: "'b slot list \<Rightarrow> bool" where
  "all_flags slots \<longleftrightarrow> (\<forall>i x. object_in slots i = Some x \<longrightarrow> flags_ok x)"

section \<open>Marking changes nothing else\<close>

definition same_objects :: "'b slot list \<Rightarrow> 'b slot list \<Rightarrow> bool" where
  "same_objects a b \<longleftrightarrow> map (\<lambda>s. (sl_generation s, sl_object s)) a = map (\<lambda>s. (sl_generation s, sl_object s)) b"

lemma same_objects_refl [simp]: "same_objects a a"
  by (simp add: same_objects_def)

lemma same_objects_trans: "same_objects a b \<Longrightarrow> same_objects b c \<Longrightarrow> same_objects a c"
  by (simp add: same_objects_def)

lemma same_objects_nth:
  assumes "same_objects a b"
  shows "length a = length b \<and> (\<forall>n < length a. sl_generation (a ! n) = sl_generation (b ! n) \<and> sl_object (a ! n) = sl_object (b ! n))"
proof -
  have "length a = length b" using assms unfolding same_objects_def by (rule map_eq_imp_length_eq)
  with assms show ?thesis by (simp add: same_objects_def list_eq_iff_nth_eq)
qed

lemma same_objects_slot_of:
  assumes "same_objects a b"
  shows "slot_of a i = None \<longleftrightarrow> slot_of b i = None" "object_in a i = object_in b i"
  using same_objects_nth [OF assms] by (auto simp: slot_of_def object_in_def get_def)

lemma same_objects_weak_mode: "same_objects a b \<Longrightarrow> table_weak_mode a t = table_weak_mode b t"
  by (simp add: table_weak_mode_def same_objects_slot_of split: option.split)

lemma same_objects_strong: "same_objects a b \<Longrightarrow> strong_refs a x = strong_refs b x"
  by (cases x) (simp_all add: same_objects_weak_mode)

lemma same_objects_flags: "same_objects a b \<Longrightarrow> all_flags a = all_flags b"
  by (simp add: all_flags_def same_objects_slot_of)

lemma nth_update: "j < length xs \<Longrightarrow> xs[i := x] ! j = (if i = j then x else xs ! j)"
  by auto

lemma slot_of_mark:
  assumes "slot_of slots i = Some s"
  shows "slot_of (mark_in slots i) j = (if j = i then Some (s\<lparr>sl_marked := True\<rparr>) else slot_of slots j)"
proof -
  have n: "unat (id_index i) < length slots" "slots ! unat (id_index i) = s" "sl_generation s = id_generation i"
    using assms by (simp_all add: slot_of_Some)
  show ?thesis
  proof (cases "id_index j = id_index i")
    case True
    then have "j = i \<longleftrightarrow> id_generation j = id_generation i" by (cases i; cases j) simp
    with n True show ?thesis by (auto simp: slot_of_def get_def mark_in_def)
  next
    case False
    then have "unat (id_index j) \<noteq> unat (id_index i)" "j \<noteq> i" using unsigned_word_eqI by auto
    then show ?thesis by (simp add: slot_of_def get_def mark_in_def)
  qed
qed

lemma same_objects_mark: "same_objects slots (mark_in slots i)"
  by (simp add: same_objects_def mark_in_def list_eq_iff_nth_eq nth_update)

lemma marked_mark: "slot_of slots i = Some s \<Longrightarrow> marked (mark_in slots i) j \<longleftrightarrow> j = i \<or> marked slots j"
  by (auto simp: marked_def slot_of_mark)

lemma settled_iff: "settled slots i \<longleftrightarrow> slot_of slots i = None \<or> marked slots i"
  by (auto simp: settled_def marked_def)

text \<open>What is queued for an object against what it refers to.\<close>

lemma enqueue_set [simp]: "set (enqueue_value v) = {j. value_ref v = Some j}" "set (key_enqueue k) = {j. key_ref k = Some j}"
  by (auto simp: enqueue_value_def key_enqueue_def split: option.splits)

lemma opt_list_set [simp]: "set (opt_list r) = {j. r = Some j}"
  by (auto simp: opt_list_def split: option.splits)

lemma opt_case_list: "(case r of Some i \<Rightarrow> [i] | None \<Rightarrow> []) = opt_list r"
  by (simp add: opt_list_def)

lemma ref_is_marked_Some: "ref_is_marked slots (Some i) \<longleftrightarrow> marked slots i \<and> object_in slots i \<noteq> None"
  by (auto simp: ref_is_marked_def marked_def object_in_def split: option.splits)

lemma ref_is_marked_None [simp]: "ref_is_marked slots None"
  by (simp add: ref_is_marked_def)

lemma array_refs: "(\<exists>v\<in>set (filter (\<lambda>v. v \<noteq> VNil) vs). value_ref v = Some j) \<longleftrightarrow> (\<exists>v\<in>set vs. value_ref v = Some j)"
proof -
  have "value_ref v = Some j \<Longrightarrow> v \<noteq> VNil" for v by auto
  then show ?thesis by (simp only: set_filter) blast
qed

lemma table_children_set:
  "j \<in> set (table_children slots t) \<longleftrightarrow>
     (let weak = table_weak_mode slots t; entries = set (live_entries (tb_hash t)) in
      tb_metatable t = Some j \<or>
      (\<not> wm_keys weak \<and> tb_hash_contains_heap_key t \<and> (\<exists>p\<in>entries. key_ref (fst p) = Some j)) \<or>
      (\<not> wm_values weak \<and> tb_array_contains_heap_reference t \<and> (\<exists>v\<in>set (tb_array t). value_ref v = Some j)) \<or>
      (\<not> wm_values weak \<and> tb_hash_contains_heap_value t \<and>
         (\<exists>p\<in>entries. (wm_keys weak \<longrightarrow> key_is_marked slots (fst p)) \<and> \<not> value_is_marked slots (snd p) \<and>
            value_ref (snd p) = Some j)))"
proof -
  have concat_mem: "j \<in> set (concat (map f xs)) \<longleftrightarrow> (\<exists>x\<in>set xs. j \<in> set (f x))" for f :: "'c \<Rightarrow> object_id list" and xs
    by simp
  show ?thesis
    unfolding table_children_def Let_def opt_case_list set_append Un_iff concat_mem
    by (simp only: if_distrib [of set] if_distrib [of "\<lambda>A. j \<in> A"] concat_mem enqueue_set opt_list_set mem_Collect_eq array_refs
        list.set empty_iff) (auto simp: Bex_def)
qed

lemma children_complete:
  assumes "flags_ok x" and "j \<in> strong_refs slots x"
  shows "j \<in> set (object_children slots x) \<or> marked slots j"
proof (cases x)
  case (OTable t)
  let ?w = "table_weak_mode slots t"
  have refs: "tb_metatable t = Some j \<or>
      \<not> wm_keys ?w \<and> (\<exists>p\<in>set (live_entries (tb_hash t)). key_ref (fst p) = Some j) \<or>
      \<not> wm_values ?w \<and> (\<exists>v\<in>set (tb_array t). value_ref v = Some j) \<or>
      \<not> wm_keys ?w \<and> \<not> wm_values ?w \<and> (\<exists>p\<in>set (live_entries (tb_hash t)). value_ref (snd p) = Some j)"
    using assms(2) unfolding OTable strong_refs.simps Let_def by (simp split: if_splits)
  have flags: "\<And>p i. p \<in> set (live_entries (tb_hash t)) \<Longrightarrow> key_ref (fst p) = Some i \<Longrightarrow> tb_hash_contains_heap_key t"
    "\<And>v i. v \<in> set (tb_array t) \<Longrightarrow> value_ref v = Some i \<Longrightarrow> tb_array_contains_heap_reference t"
    "\<And>p i. p \<in> set (live_entries (tb_hash t)) \<Longrightarrow> value_ref (snd p) = Some i \<Longrightarrow> tb_hash_contains_heap_value t"
    using assms(1) unfolding OTable flags_ok.simps table_flags_def by blast+
  have unmarked: "\<not> value_is_marked slots v" if "value_ref v = Some j" "\<not> marked slots j" for v
    using that by (simp add: value_is_marked_def ref_is_marked_Some)
  show ?thesis
    unfolding OTable object_children.simps table_children_set Let_def
    using refs flags unmarked by metis
qed (use assms in simp_all)

lemma children_sound:
  assumes "j \<in> set (object_children slots x)"
  shows "j \<in> strong_refs slots x \<or>
    (\<exists>t p. x = OTable t \<and> wm_keys (table_weak_mode slots t) \<and> \<not> wm_values (table_weak_mode slots t) \<and>
       p \<in> set (live_entries (tb_hash t)) \<and> key_is_marked slots (fst p) \<and> value_ref (snd p) = Some j)"
proof (cases x)
  case (OTable t)
  show ?thesis
    using assms unfolding OTable object_children.simps table_children_set strong_refs.simps Let_def
    by (cases "wm_keys (table_weak_mode slots t)"; cases "wm_values (table_weak_mode slots t)") auto
qed (use assms in simp_all)

section \<open>Draining marks what is live\<close>

lemma drain_skip: "settled slots i \<Longrightarrow> drain slots (i # queue) = drain slots queue"
  by (simp add: settled_def split: option.split)

lemma drain_mark:
  "slot_of slots i = Some s \<Longrightarrow> \<not> sl_marked s \<Longrightarrow>
     drain slots (i # queue) = drain (mark_in slots i) (next_queue (mark_in slots i) s queue)"
  by (simp add: Let_def)

declare drain.simps(2) [simp del]

lemma drain_steps [case_names nil skip mark]:
  assumes "\<And>slots. P slots []"
    and "\<And>slots i queue. settled slots i \<Longrightarrow> P slots queue \<Longrightarrow> P slots (i # queue)"
    and "\<And>slots i queue s. slot_of slots i = Some s \<Longrightarrow> \<not> sl_marked s \<Longrightarrow>
      P (mark_in slots i) (next_queue (mark_in slots i) s queue) \<Longrightarrow> P slots (i # queue)"
  shows "P slots queue"
proof (induction slots queue rule: drain.induct)
  case (1 slots)
  show ?case by (rule assms(1))
next
  case (2 slots i queue)
  show ?case
  proof (cases "slot_of slots i")
    case None
    with 2(1) show ?thesis by (intro assms(2)) (simp_all add: settled_def)
  next
    case (Some s)
    show ?thesis
    proof (cases "sl_marked s")
      case True
      with 2(2) Some show ?thesis by (intro assms(2)) (simp_all add: settled_def)
    next
      case False
      then show ?thesis by (rule assms(3) [OF Some]) (rule 2(3) [OF Some False refl])
    qed
  qed
qed

lemma drain_same: "same_objects slots (drain slots queue)"
proof (induction slots queue rule: drain_steps)
  case (mark slots i queue s)
  show ?case
    unfolding drain_mark [OF mark(1,2)] by (rule same_objects_trans [OF same_objects_mark mark(3)])
qed (simp_all add: drain_skip)

text \<open>The tricolour invariant: a marked object refers to marked or queued ones.\<close>

definition grey :: "'b slot list \<Rightarrow> object_id list \<Rightarrow> bool" where
  "grey slots queue \<longleftrightarrow>
     (\<forall>i x j. marked slots i \<and> object_in slots i = Some x \<and> j \<in> strong_refs slots x \<longrightarrow> j \<in> set queue \<or> settled slots j)"

lemma settled_mark: "slot_of slots i = Some s \<Longrightarrow> settled (mark_in slots i) j \<longleftrightarrow> j = i \<or> settled slots j"
  using slot_of_mark [of slots i s j] by (auto simp: settled_iff marked_mark)

lemma grey_mark:
  assumes g: "grey slots (i # queue)" and s: "slot_of slots i = Some s" and flags: "all_flags slots"
  shows "grey (mark_in slots i) (next_queue (mark_in slots i) s queue)"
  unfolding grey_def
proof (intro allI impI)
  fix a x j
  let ?m = "mark_in slots i"
  note same = same_objects_mark [of slots i]
  assume "marked ?m a \<and> object_in ?m a = Some x \<and> j \<in> strong_refs ?m x"
  then have a: "a = i \<or> marked slots a" and x: "object_in slots a = Some x" and j: "j \<in> strong_refs slots x"
    and j': "j \<in> strong_refs ?m x"
    by (simp_all add: marked_mark [OF s] same_objects_slot_of [OF same, symmetric] same_objects_strong [OF same, symmetric])
  show "j \<in> set (next_queue ?m s queue) \<or> settled ?m j"
  proof (cases "a = i")
    case True
    then have "sl_object s = Some x" using x s by (simp add: object_in_def)
    moreover have "flags_ok x" using flags x unfolding all_flags_def by blast
    ultimately show ?thesis using children_complete [OF _ j'] by (auto simp: settled_iff next_queue_def)
  next
    case False
    with a have "marked slots a" by simp
    with g x j have "j \<in> set (i # queue) \<or> settled slots j" unfolding grey_def by blast
    then show ?thesis by (auto simp: settled_mark [OF s] next_queue_def)
  qed
qed

lemma drain_complete:
  "grey slots queue \<Longrightarrow> all_flags slots \<Longrightarrow>
     grey (drain slots queue) [] \<and> (\<forall>j. j \<in> set queue \<or> settled slots j \<longrightarrow> settled (drain slots queue) j)"
proof (induction slots queue rule: drain_steps)
  case (nil slots)
  then show ?case by simp
next
  case (skip slots i queue)
  have "grey slots queue" using skip(1,3) unfolding grey_def by auto
  with skip show ?case unfolding drain_skip [OF skip(1)] by auto
next
  case (mark slots i queue s)
  have "all_flags (mark_in slots i)" using mark(5) same_objects_flags [OF same_objects_mark] by blast
  from mark(3) [OF grey_mark [OF mark(4,1,5)] this] show ?case
    unfolding drain_mark [OF mark(1,2)] by (auto simp: settled_mark [OF mark(1)] next_queue_def)
qed

text \<open>Only live objects are marked: the queue holds live handles and the marked are live.\<close>

definition sound :: "(object_id \<Rightarrow> bool) \<Rightarrow> 'b slot list \<Rightarrow> object_id list \<Rightarrow> bool" where
  "sound L slots queue \<longleftrightarrow> (\<forall>i. marked slots i \<longrightarrow> L i) \<and> (\<forall>i\<in>set queue. slot_of slots i \<noteq> None \<longrightarrow> L i)"

lemma key_is_marked_live:
  assumes "key_is_marked slots k" and "\<forall>i. marked slots i \<longrightarrow> live slots0 roots i" and "same_objects slots0 slots"
  shows "\<forall>i. key_ref k = Some i \<longrightarrow> live slots0 roots i \<and> object_in slots0 i \<noteq> None"
  using assms by (auto simp: key_is_marked_def ref_is_marked_Some same_objects_slot_of)

lemma children_live:
  assumes same: "same_objects slots0 m" and m: "\<forall>a. marked m a \<longrightarrow> live slots0 roots a"
    and i: "live slots0 roots i" "object_in slots0 i = Some x"
    and j: "j \<in> set (object_children m x)" "slot_of m j \<noteq> None"
  shows "live slots0 roots j"
proof -
  have j0: "slot_of slots0 j \<noteq> None" using j(2) by (simp add: same_objects_slot_of(1) [OF same])
  from children_sound [OF j(1)] show ?thesis
  proof (elim disjE exE conjE)
    assume "j \<in> strong_refs m x"
    then have "j \<in> strong_refs slots0 x" by (simp add: same_objects_strong [OF same])
    with i j0 show ?thesis by (blast intro: live_strong)
  next
    fix t p
    assume t: "x = OTable t" "wm_keys (table_weak_mode m t)" "\<not> wm_values (table_weak_mode m t)"
      "p \<in> set (live_entries (tb_hash t))" "key_is_marked m (fst p)" "value_ref (snd p) = Some j"
    note mode = same_objects_weak_mode [OF same, of t]
    show ?thesis
      by (rule live_ephemeron [OF i(1) _ _ _ t(4) key_is_marked_live [OF t(5) m same] t(6) j0])
        (use i(2) t mode in simp_all)
  qed
qed

lemma drain_sound:
  "same_objects slots0 slots \<Longrightarrow> sound (live slots0 roots) slots queue \<Longrightarrow>
     \<forall>i. marked (drain slots queue) i \<longrightarrow> live slots0 roots i"
proof (induction slots queue rule: drain_steps)
  case (nil slots)
  then show ?case by (simp add: sound_def)
next
  case (skip slots i queue)
  have "sound (live slots0 roots) slots queue" using skip(4) unfolding sound_def by simp
  from skip(2) [OF skip(3) this] show ?case unfolding drain_skip [OF skip(1)] .
next
  case (mark slots i queue s)
  let ?m = "mark_in slots i"
  note same = same_objects_mark [of slots i]
  have same0: "same_objects slots0 ?m" by (rule same_objects_trans [OF mark(4) same])
  have i: "live slots0 roots i" using mark(1,5) by (simp add: sound_def)
  have m: "\<forall>a. marked ?m a \<longrightarrow> live slots0 roots a"
    using mark(5) i unfolding sound_def marked_mark [OF mark(1)] by blast
  have q: "live slots0 roots j" if "j \<in> set (next_queue ?m s queue)" "slot_of ?m j \<noteq> None" for j
  proof -
    from that(1) consider "j \<in> set queue" | x where "sl_object s = Some x" "j \<in> set (object_children ?m x)"
      unfolding next_queue_def by (cases "sl_object s") auto
    then show ?thesis
    proof cases
      case 1
      have "slot_of slots j \<noteq> None" using that(2) by (simp add: same_objects_slot_of(1) [OF same])
      with 1 mark(5) show ?thesis by (simp add: sound_def)
    next
      case 2
      have "object_in slots0 i = Some x"
        using 2(1) mark(1) same_objects_slot_of(2) [OF mark(4)] by (simp add: object_in_def)
      from children_live [OF same0 m i this 2(2) that(2)] show ?thesis .
    qed
  qed
  have "sound (live slots0 roots) ?m (next_queue ?m s queue)" unfolding sound_def using m q by blast
  from mark(3) [OF same0 this] show ?case unfolding drain_mark [OF mark(1,2)] .
qed

section \<open>The whole phase\<close>

text \<open>The queue after a round: handles of values that are not marked though their keys are.\<close>

lemma ephemeron_refs_mem:
  "j \<in> set (ephemeron_refs slots indices) \<longleftrightarrow>
     (\<exists>n\<in>set indices. \<exists>s t p. get slots (unat n) = Some s \<and> sl_object s = Some (OTable t) \<and> sl_marked s \<and>
        wm_keys (table_weak_mode slots t) \<and> \<not> wm_values (table_weak_mode slots t) \<and>
        p \<in> set (live_entries (tb_hash t)) \<and> key_is_marked slots (fst p) \<and> \<not> value_is_marked slots (snd p) \<and>
        value_ref (snd p) = Some j)"
proof -
  have concat_mem: "j \<in> set (concat (map f xs)) \<longleftrightarrow> (\<exists>x\<in>set xs. j \<in> set (f x))" for f :: "'c \<Rightarrow> object_id list" and xs
    by simp
  have at: "j \<in> set (case get slots (unat n) of Some s \<Rightarrow>
           (case sl_object s of
              Some (OTable t) \<Rightarrow>
                (let mode = table_weak_mode slots t in
                 if \<not> sl_marked s \<or> \<not> wm_keys mode \<or> wm_values mode then []
                 else concat (map (\<lambda>p. enqueue_value (snd p))
                        (filter (\<lambda>p. key_is_marked slots (fst p) \<and> \<not> value_is_marked slots (snd p))
                           (live_entries (tb_hash t)))))
            | _ \<Rightarrow> [])
       | None \<Rightarrow> []) \<longleftrightarrow> (\<exists>s t p. get slots (unat n) = Some s \<and> sl_object s = Some (OTable t) \<and> sl_marked s \<and>
        wm_keys (table_weak_mode slots t) \<and> \<not> wm_values (table_weak_mode slots t) \<and>
        p \<in> set (live_entries (tb_hash t)) \<and> key_is_marked slots (fst p) \<and> \<not> value_is_marked slots (snd p) \<and>
        value_ref (snd p) = Some j)" for n
  proof (cases "get slots (unat n)")
    case (Some s)
    show ?thesis
    proof (cases "\<exists>t. sl_object s = Some (OTable t)")
      case True
      then obtain t where t: "sl_object s = Some (OTable t)" by blast
      show ?thesis
        unfolding Some option.case t obj.case Let_def
        by (simp only: if_distrib [of set] if_distrib [of "\<lambda>A. j \<in> A"] concat_mem enqueue_set mem_Collect_eq list.set empty_iff)
          (auto simp: t)
    next
      case False
      with Some show ?thesis by (cases "sl_object s" rule: option.exhaust; simp) (rename_tac x, case_tac x; simp)
    qed
  qed simp
  show ?thesis unfolding ephemeron_refs_def concat_mem at ..
qed

lemma slot_of_index: "get slots (unat n) = Some s \<Longrightarrow> slot_of slots (ObjectId n (sl_generation s)) = Some s"
  by (simp add: slot_of_def)

lemma ephemeron_live:
  assumes same: "same_objects slots0 slots" and m: "\<forall>i. marked slots i \<longrightarrow> live slots0 roots i"
    and j: "j \<in> set (ephemeron_refs slots indices)" "slot_of slots j \<noteq> None"
  shows "live slots0 roots j"
proof -
  from j(1) obtain n :: "32 word" and s t p where e: "get slots (unat n) = Some s" "sl_object s = Some (OTable t)" "sl_marked s"
    "wm_keys (table_weak_mode slots t)" "\<not> wm_values (table_weak_mode slots t)" "p \<in> set (live_entries (tb_hash t))"
    "key_is_marked slots (fst p)" "value_ref (snd p) = Some j"
    unfolding ephemeron_refs_mem by blast
  let ?i = "ObjectId n (sl_generation s)"
  note i = slot_of_index [OF e(1)]
  have "live slots0 roots ?i" using m i e(3) by (auto simp: marked_def)
  moreover have "object_in slots0 ?i = Some (OTable t)"
    using i e(2) same_objects_slot_of(2) [OF same] by (simp add: object_in_def)
  moreover have "slot_of slots0 j \<noteq> None" using j(2) by (simp add: same_objects_slot_of(1) [OF same])
  ultimately show ?thesis
    using live_ephemeron [OF _ _ _ _ e(6) key_is_marked_live [OF e(7) m same] e(8)] e(4,5)
    by (simp add: same_objects_weak_mode [OF same])
qed

text \<open>When nothing is queued any more, the live objects are marked.\<close>

definition tables_indexed :: "'b slot list \<Rightarrow> 32 word list \<Rightarrow> bool" where
  "tables_indexed slots indices \<longleftrightarrow>
     (\<forall>i t. object_in slots i = Some (OTable t) \<longrightarrow> id_index i \<in> set indices)"

lemma live_settled:
  assumes same: "same_objects slots0 slots" and g: "grey slots []" and roots: "\<forall>i\<in>roots. settled slots i"
    and e: "ephemeron_refs slots indices = []" and idx: "tables_indexed slots indices"
    and l: "live slots0 roots i"
  shows "settled slots i"
  using l
proof (induction rule: live.induct)
  case (live_root i)
  then show ?case using roots by blast
next
  case (live_strong i x j)
  have "slot_of slots0 i \<noteq> None" using live_strong.hyps(1) by (cases rule: live.cases) auto
  then have "slot_of slots i \<noteq> None" by (simp only: same_objects_slot_of(1) [OF same, symmetric] not_False_eq_True)
  then have "marked slots i" using live_strong.IH by (simp only: settled_iff) simp
  moreover have "object_in slots i = Some x" "j \<in> strong_refs slots x"
    using live_strong.hyps(2,3) by (simp_all add: same_objects_slot_of(2) [OF same] same_objects_strong [OF same])
  ultimately show ?case using g unfolding grey_def by auto
next
  case (live_ephemeron i t p j)
  have "slot_of slots0 i \<noteq> None" using live_ephemeron.hyps(1) by (cases rule: live.cases) auto
  then have "slot_of slots i \<noteq> None" by (simp only: same_objects_slot_of(1) [OF same, symmetric] not_False_eq_True)
  then have i: "marked slots i" using live_ephemeron.IH(1) by (simp only: settled_iff) simp
  then obtain s where s: "slot_of slots i = Some s" "sl_marked s" by (auto simp: marked_def)
  have o: "object_in slots i = Some (OTable t)" using live_ephemeron.hyps(2) by (simp add: same_objects_slot_of(2) [OF same])
  have n: "id_index i \<in> set indices" using idx o by (auto simp: tables_indexed_def)
  have at: "get slots (unat (id_index i)) = Some s" using s(1) by (simp add: slot_of_Some get_def)
  have k: "key_is_marked slots (fst p)"
  proof (cases "key_ref (fst p)")
    case (Some k)
    with live_ephemeron.IH(2) have "settled slots k" "object_in slots0 k \<noteq> None" by auto
    then have "settled slots k" "object_in slots k \<noteq> None" using same_objects_slot_of(2) [OF same, of k] by simp_all
    moreover from this(2) have "slot_of slots k \<noteq> None" by (auto simp: object_in_def split: option.splits)
    ultimately have "marked slots k \<and> object_in slots k \<noteq> None" unfolding settled_iff by blast
    then show ?thesis by (simp only: key_is_marked_def ref_is_marked_Some Some) blast
  qed (simp add: key_is_marked_def)
  show ?case
  proof (rule ccontr)
    assume "\<not> settled slots j"
    then have "\<not> value_is_marked slots (snd p)"
      using live_ephemeron.hyps(6) by (simp add: value_is_marked_def ref_is_marked_Some settled_iff)
    moreover have "sl_object s = Some (OTable t)" using o s(1) by (simp add: object_in_def)
    ultimately have "j \<in> set (ephemeron_refs slots indices)"
      using n at s(2) k live_ephemeron.hyps(3,4,5,6) unfolding ephemeron_refs_mem same_objects_weak_mode [OF same] by blast
    with e show False by simp
  qed
qed

lemma mark_round:
  assumes "same_objects slots0 slots" and "sound (live slots0 roots) slots queue" and "grey slots queue"
    and "all_flags slots" and "\<forall>i\<in>roots. i \<in> set queue \<or> settled slots i"
  shows "same_objects slots0 (drain slots queue)" "\<forall>i. marked (drain slots queue) i \<longrightarrow> live slots0 roots i"
    "grey (drain slots queue) []" "\<forall>i\<in>roots. settled (drain slots queue) i" "all_flags (drain slots queue)"
    "\<forall>j. settled slots j \<longrightarrow> settled (drain slots queue) j"
proof -
  show same: "same_objects slots0 (drain slots queue)" by (rule same_objects_trans [OF assms(1) drain_same])
  show "\<forall>i. marked (drain slots queue) i \<longrightarrow> live slots0 roots i" by (rule drain_sound [OF assms(1,2)])
  note c = drain_complete [OF assms(3,4)]
  show "grey (drain slots queue) []" "\<forall>i\<in>roots. settled (drain slots queue) i"
    "\<forall>j. settled slots j \<longrightarrow> settled (drain slots queue) j"
    using c assms(5) by blast+
  show "all_flags (drain slots queue)" using assms(4) same_objects_flags [OF drain_same] by blast
qed

lemma mark_loop_props_core:
  "mark_loop slots indices queue = Some slots' \<longrightarrow>
    same_objects slots0 slots \<and> sound (live slots0 roots) slots queue \<and> grey slots queue \<and> all_flags slots \<and>
    (\<forall>i\<in>roots. i \<in> set queue \<or> settled slots i) \<longrightarrow>
    same_objects slots0 slots' \<and> (\<forall>i. marked slots' i \<longrightarrow> live slots0 roots i) \<and> grey slots' [] \<and>
    (\<forall>i\<in>roots. settled slots' i) \<and> ephemeron_refs slots' indices = []"
proof (rule impI, erule mark_loop.raw_induct
    [of "\<lambda>slots indices queue slots'. same_objects slots0 slots \<and> sound (live slots0 roots) slots queue \<and> grey slots queue \<and>
    all_flags slots \<and> (\<forall>i\<in>roots. i \<in> set queue \<or> settled slots i) \<longrightarrow>
    same_objects slots0 slots' \<and> (\<forall>i. marked slots' i \<longrightarrow> live slots0 roots i) \<and> grey slots' [] \<and>
    (\<forall>i\<in>roots. settled slots' i) \<and> ephemeron_refs slots' indices = []", rotated])
  fix self and slots :: "'a slot list" and indices queue r
  assume IH: "\<And>slots indices queue r. self slots indices queue = Some r \<Longrightarrow>
      same_objects slots0 slots \<and> sound (live slots0 roots) slots queue \<and> grey slots queue \<and>
      all_flags slots \<and> (\<forall>i\<in>roots. i \<in> set queue \<or> settled slots i) \<longrightarrow>
      same_objects slots0 r \<and> (\<forall>i. marked r i \<longrightarrow> live slots0 roots i) \<and> grey r [] \<and>
      (\<forall>i\<in>roots. settled r i) \<and> ephemeron_refs r indices = []"
    and step: "(let slots = drain slots queue; queue = ephemeron_refs slots indices in
      if queue = [] then Some slots else self slots indices queue) = Some r"
  show "same_objects slots0 slots \<and> sound (live slots0 roots) slots queue \<and> grey slots queue \<and>
      all_flags slots \<and> (\<forall>i\<in>roots. i \<in> set queue \<or> settled slots i) \<longrightarrow>
      same_objects slots0 r \<and> (\<forall>i. marked r i \<longrightarrow> live slots0 roots i) \<and> grey r [] \<and>
      (\<forall>i\<in>roots. settled r i) \<and> ephemeron_refs r indices = []"
  proof (intro impI, elim conjE)
    assume a: "same_objects slots0 slots" "sound (live slots0 roots) slots queue" "grey slots queue"
      "all_flags slots" "\<forall>i\<in>roots. i \<in> set queue \<or> settled slots i"
    let ?d = "drain slots queue"
    note round = mark_round [OF a]
    show "same_objects slots0 r \<and> (\<forall>i. marked r i \<longrightarrow> live slots0 roots i) \<and> grey r [] \<and>
      (\<forall>i\<in>roots. settled r i) \<and> ephemeron_refs r indices = []"
    proof (cases "ephemeron_refs ?d indices = []")
      case True
      then have "r = ?d" using step by (simp add: Let_def)
      with True round show ?thesis by blast
    next
      case False
      then have r: "self ?d indices (ephemeron_refs ?d indices) = Some r" using step by (simp add: Let_def)
      have "sound (live slots0 roots) ?d (ephemeron_refs ?d indices)"
        using round(2) ephemeron_live [OF round(1,2)] unfolding sound_def by blast
      moreover have "grey ?d (ephemeron_refs ?d indices)" using round(3) unfolding grey_def by auto
      ultimately show ?thesis using IH [OF r] round by blast
    qed
  qed
qed

lemma mark_loop_props:
  assumes "mark_loop slots indices queue = Some slots'" and "same_objects slots0 slots"
    and "sound (live slots0 roots) slots queue" and "grey slots queue" and "all_flags slots"
    and "\<forall>i\<in>roots. i \<in> set queue \<or> settled slots i"
  shows "same_objects slots0 slots'" "\<forall>i. marked slots' i \<longrightarrow> live slots0 roots i" "grey slots' []"
    "\<forall>i\<in>roots. settled slots' i" "ephemeron_refs slots' indices = []"
  using mark_loop_props_core assms by blast+

section \<open>When the phase ends\<close>

lemma unmarked_count_drain:
  "unmarked_count (drain slots queue) \<le> unmarked_count slots \<and>
   ((\<exists>j\<in>set queue. \<not> settled slots j) \<longrightarrow> unmarked_count (drain slots queue) < unmarked_count slots)"
proof (induction slots queue rule: drain_steps)
  case (mark slots i queue s)
  then show ?case unfolding drain_mark [OF mark(1,2)] using unmarked_count_mark [OF mark(1,2)] by linarith
qed (auto simp: drain_skip)

text \<open>
  An entry of a live table with weak keys whose key is live, but whose value is a handle to nothing.
  No round can mark such a value, and every round queues it again.
\<close>

definition stale_entry :: "'b slot list \<Rightarrow> object_id set \<Rightarrow> bool" where
  "stale_entry slots roots \<longleftrightarrow>
     (\<exists>i t p j. live slots roots i \<and> object_in slots i = Some (OTable t) \<and>
        wm_keys (table_weak_mode slots t) \<and> \<not> wm_values (table_weak_mode slots t) \<and>
        p \<in> set (live_entries (tb_hash t)) \<and>
        (\<forall>k. key_ref (fst p) = Some k \<longrightarrow> live slots roots k \<and> object_in slots k \<noteq> None) \<and>
        value_ref (snd p) = Some j \<and> object_in slots j = None)"

lemma ephemeron_not_stale:
  assumes same: "same_objects slots0 slots" and m: "\<forall>i. marked slots i \<longrightarrow> live slots0 roots i"
    and j: "j \<in> set (ephemeron_refs slots indices)" and no: "\<not> stale_entry slots0 roots"
  shows "\<not> settled slots j"
proof -
  from j obtain n :: "32 word" and s t p where e: "get slots (unat n) = Some s" "sl_object s = Some (OTable t)" "sl_marked s"
    "wm_keys (table_weak_mode slots t)" "\<not> wm_values (table_weak_mode slots t)" "p \<in> set (live_entries (tb_hash t))"
    "key_is_marked slots (fst p)" "\<not> value_is_marked slots (snd p)" "value_ref (snd p) = Some j"
    unfolding ephemeron_refs_mem by blast
  let ?i = "ObjectId n (sl_generation s)"
  note i = slot_of_index [OF e(1)]
  have "live slots0 roots ?i" using m i e(3) by (auto simp: marked_def)
  moreover have "object_in slots0 ?i = Some (OTable t)"
    using i e(2) same_objects_slot_of(2) [OF same] by (simp add: object_in_def)
  ultimately have "object_in slots0 j = None \<Longrightarrow> stale_entry slots0 roots"
    unfolding stale_entry_def same_objects_weak_mode [OF same]
    by (intro exI [of _ ?i] exI [of _ t] exI [of _ p] exI [of _ j] conjI e(4,5,6,9) key_is_marked_live [OF e(7) m same])
      assumption+
  with no have "object_in slots0 j \<noteq> None" by blast
  then have "object_in slots j \<noteq> None" unfolding same_objects_slot_of(2) [OF same] .
  moreover have "\<not> (marked slots j \<and> object_in slots j \<noteq> None)"
    using e(8) unfolding value_is_marked_def e(9) ref_is_marked_Some .
  ultimately show ?thesis unfolding settled_iff by (auto simp: object_in_def split: option.splits)
qed

lemma mark_loop_ends:
  assumes "same_objects slots0 slots" and "sound (live slots0 roots) slots queue" and "grey slots queue"
    and "all_flags slots" and "\<forall>i\<in>roots. i \<in> set queue \<or> settled slots i" and no: "\<not> stale_entry slots0 roots"
  shows "\<exists>slots'. mark_loop slots indices queue = Some slots'"
  using assms(1-5)
proof (induction "unmarked_count (drain slots queue)" arbitrary: slots queue rule: less_induct)
  case (less slots queue)
  let ?d = "drain slots queue" let ?q = "ephemeron_refs ?d indices"
  note round = mark_round [OF less.prems]
  show ?case
  proof (cases "?q = []")
    case True
    then show ?thesis by (subst mark_loop.simps) (simp add: Let_def)
  next
    case False
    then obtain j where j: "j \<in> set ?q" by (meson last_in_set)
    have "\<exists>j\<in>set ?q. \<not> settled ?d j" using j ephemeron_not_stale [OF round(1,2) j no] by blast
    then have "unmarked_count (drain ?d ?q) < unmarked_count ?d" using unmarked_count_drain by blast
    moreover have "sound (live slots0 roots) ?d ?q"
      using round(2) ephemeron_live [OF round(1,2)] unfolding sound_def by blast
    moreover have "grey ?d ?q" using round(3) unfolding grey_def by auto
    ultimately obtain slots' where "mark_loop ?d indices ?q = Some slots'"
      using less.hyps [of ?d ?q] round by blast
    with False show ?thesis by (subst mark_loop.simps) (simp add: Let_def)
  qed
qed

lemma live_slot_exists: "live slots roots i \<Longrightarrow> slot_of slots i \<noteq> None"
  by (cases rule: live.cases) auto

lemma mark_loop_stuck:
  assumes loop: "mark_loop slots indices queue = Some slots'" and "same_objects slots0 slots"
    and "sound (live slots0 roots) slots queue" and "grey slots queue" and "all_flags slots"
    and "\<forall>i\<in>roots. i \<in> set queue \<or> settled slots i" and idx: "tables_indexed slots indices"
  shows "(\<forall>i. marked slots' i \<longleftrightarrow> live slots0 roots i) \<and> \<not> stale_entry slots0 roots"
proof -
  note p = mark_loop_props [OF assms(1-6)]
  have idx': "tables_indexed slots' indices"
    using idx unfolding tables_indexed_def same_objects_slot_of(2) [OF p(1), symmetric] same_objects_slot_of(2) [OF assms(2)] .
  have settled: "live slots0 roots i \<Longrightarrow> settled slots' i" for i
    by (rule live_settled [OF p(1,3,4,5) idx'])
  have exact: "marked slots' i \<longleftrightarrow> live slots0 roots i" for i
  proof
    assume l: "live slots0 roots i"
    then have "slot_of slots' i \<noteq> None" using live_slot_exists same_objects_slot_of(1) [OF p(1)] by blast
    with settled [OF l] show "marked slots' i" unfolding settled_iff by blast
  qed (use p(2) in blast)
  have "\<not> stale_entry slots0 roots"
  proof
    assume "stale_entry slots0 roots"
    then obtain i t q j where e: "live slots0 roots i" "object_in slots0 i = Some (OTable t)"
      "wm_keys (table_weak_mode slots0 t)" "\<not> wm_values (table_weak_mode slots0 t)" "q \<in> set (live_entries (tb_hash t))"
      "\<forall>k. key_ref (fst q) = Some k \<longrightarrow> live slots0 roots k \<and> object_in slots0 k \<noteq> None"
      "value_ref (snd q) = Some j" "object_in slots0 j = None"
      unfolding stale_entry_def by blast
    obtain s where s: "slot_of slots' i = Some s" "sl_marked s" using e(1) exact unfolding marked_def by blast
    have o: "object_in slots' i = Some (OTable t)" using e(2) unfolding same_objects_slot_of(2) [OF p(1)] .
    have "id_index i \<in> set indices" using idx' o unfolding tables_indexed_def by blast
    moreover have "get slots' (unat (id_index i)) = Some s" using s(1) by (simp add: slot_of_Some get_def)
    moreover have "sl_object s = Some (OTable t)" using o s(1) by (simp add: object_in_def)
    moreover have "key_is_marked slots' (fst q)"
    proof (cases "key_ref (fst q)")
      case (Some k)
      with e(6) have "marked slots' k \<and> object_in slots' k \<noteq> None"
        unfolding exact same_objects_slot_of(2) [OF p(1)] by blast
      then show ?thesis unfolding key_is_marked_def Some ref_is_marked_Some .
    qed (simp add: key_is_marked_def)
    moreover have "\<not> value_is_marked slots' (snd q)"
      using e(8) unfolding value_is_marked_def e(7) ref_is_marked_Some same_objects_slot_of(2) [OF p(1)] by blast
    ultimately have "j \<in> set (ephemeron_refs slots' indices)"
      using s(2) e(3,4,5,7) unfolding ephemeron_refs_mem same_objects_weak_mode [OF p(1)] by blast
    with p(5) show False by simp
  qed
  with exact show ?thesis by blast
qed

text \<open>From slots without marks, the queue being the roots.\<close>

definition clean :: "'b slot list \<Rightarrow> bool" where
  "clean slots \<longleftrightarrow> (\<forall>s\<in>set slots. \<not> sl_marked s)"

lemma clean_start:
  assumes "clean slots"
  shows "sound (live slots (set queue)) slots queue" "grey slots queue" "\<forall>i\<in>set queue. i \<in> set queue \<or> settled slots i"
proof -
  have "\<not> marked slots i" for i using assms by (auto simp: clean_def marked_def slot_of_Some)
  then show "sound (live slots (set queue)) slots queue" "grey slots queue"
    by (auto simp: sound_def grey_def intro: live_root)
qed simp

lemma mark_phase:
  assumes "clean slots" and "all_flags slots" and "tables_indexed slots indices"
  shows "(\<exists>slots'. mark_loop slots indices queue = Some slots') \<longleftrightarrow> \<not> stale_entry slots (set queue)"
    and "mark_loop slots indices queue = Some slots' \<Longrightarrow>
      same_objects slots slots' \<and> (\<forall>i. marked slots' i \<longleftrightarrow> live slots (set queue) i)"
proof -
  note c = clean_start [OF assms(1)]
  show "(\<exists>slots'. mark_loop slots indices queue = Some slots') \<longleftrightarrow> \<not> stale_entry slots (set queue)"
    using mark_loop_ends [OF same_objects_refl c(1,2) assms(2) c(3)]
      mark_loop_stuck [OF _ same_objects_refl c(1,2) assms(2) c(3) assms(3)] by blast
  assume "mark_loop slots indices queue = Some slots'"
  from mark_loop_stuck [OF this same_objects_refl c(1,2) assms(2) c(3) assms(3)]
    mark_loop_props(1) [OF this same_objects_refl c(1,2) assms(2) c(3)]
  show "same_objects slots slots' \<and> (\<forall>i. marked slots' i \<longleftrightarrow> live slots (set queue) i)" by blast
qed

text \<open>A second phase from what the first has marked adds its queue to the roots.\<close>

lemma live_mono: "live slots roots i \<Longrightarrow> roots \<subseteq> more_roots \<Longrightarrow> live slots more_roots i"
proof (induction rule: live.induct)
  case (live_ephemeron i t p j)
  then show ?case by (intro live.live_ephemeron [of slots more_roots i t p j]) blast+
qed (blast intro: live.live_root live.live_strong)+

lemma stale_entry_mono:
  assumes "stale_entry slots roots" and "roots \<subseteq> more_roots"
  shows "stale_entry slots more_roots"
proof -
  from assms(1) obtain i t p j where e: "live slots roots i" "object_in slots i = Some (OTable t)"
    "wm_keys (table_weak_mode slots t)" "\<not> wm_values (table_weak_mode slots t)" "p \<in> set (live_entries (tb_hash t))"
    "\<forall>k. key_ref (fst p) = Some k \<longrightarrow> live slots roots k \<and> object_in slots k \<noteq> None"
    "value_ref (snd p) = Some j" "object_in slots j = None"
    unfolding stale_entry_def by blast
  show ?thesis
    unfolding stale_entry_def
    by (intro exI [of _ i] exI [of _ t] exI [of _ p] exI [of _ j] conjI e(2-5,7,8) live_mono [OF e(1) assms(2)])
      (use e(6) live_mono [OF _ assms(2)] in blast)
qed

lemma second_phase:
  assumes "clean slots" and "all_flags slots" and idx: "tables_indexed slots indices"
    and first: "mark_loop slots indices queue = Some slots1"
  shows "(\<exists>slots2. mark_loop slots1 indices targets = Some slots2) \<longleftrightarrow> \<not> stale_entry slots (set queue \<union> set targets)"
    and "mark_loop slots1 indices targets = Some slots2 \<Longrightarrow>
      same_objects slots slots2 \<and> (\<forall>i. marked slots2 i \<longleftrightarrow> live slots (set queue \<union> set targets) i)"
proof -
  let ?R = "set queue \<union> set targets"
  note c = clean_start [OF assms(1), of queue]
  note p = mark_loop_props [OF first same_objects_refl c(1,2) assms(2) c(3)]
  have "sound (live slots ?R) slots1 targets"
    unfolding sound_def
  proof (intro conjI allI impI ballI)
    show "live slots ?R i" if "marked slots1 i" for i using live_mono [of slots "set queue" i ?R] p(2) that by blast
    show "live slots ?R i" if "i \<in> set targets" "slot_of slots1 i \<noteq> None" for i
      using that same_objects_slot_of(1) [OF p(1)] by (intro live_root) auto
  qed
  moreover have "grey slots1 targets" using p(3) unfolding grey_def by auto
  moreover have "all_flags slots1" using assms(2) same_objects_flags [OF p(1)] by blast
  moreover have "\<forall>i\<in>?R. i \<in> set targets \<or> settled slots1 i" using p(4) by blast
  ultimately have s: "sound (live slots ?R) slots1 targets" "grey slots1 targets" "all_flags slots1"
    "\<forall>i\<in>?R. i \<in> set targets \<or> settled slots1 i" .
  show "(\<exists>slots2. mark_loop slots1 indices targets = Some slots2) \<longleftrightarrow> \<not> stale_entry slots ?R"
    using mark_loop_ends [OF p(1) s] mark_loop_stuck [OF _ p(1) s] idx
    unfolding tables_indexed_def same_objects_slot_of(2) [OF p(1)] by blast
  assume two: "mark_loop slots1 indices targets = Some slots2"
  have "tables_indexed slots1 indices" using idx unfolding tables_indexed_def same_objects_slot_of(2) [OF p(1)] .
  from mark_loop_stuck [OF two p(1) s this] mark_loop_props(1) [OF two p(1) s]
  show "same_objects slots slots2 \<and> (\<forall>i. marked slots2 i \<longleftrightarrow> live slots ?R i)" by blast
qed

end
