(* ===== verification/Runtime_Table_Room.thy ===== *)
theory Runtime_Table_Room
  imports Runtime_Mark
begin

text \<open>
  Two more invariants of the tables of \<open>blu-runtime/src/heap.rs\<close> that the collector relies on:
  the flags by which it skips a part of a table tell the truth, and the logical capacities cover
  what the hash part holds, so that trimming a table never charges it more.
\<close>

section \<open>Writes that keep an invariant\<close>

definition keeps :: "(table \<Rightarrow> bool) \<Rightarrow> tres \<Rightarrow> bool" where
  "keeps Q r \<longleftrightarrow> Q (fst (snd r))"

named_theorems keeps_intros \<open>compositions that keep an invariant of the table\<close>

lemma keeps_pair [keeps_intros]: "Q t \<Longrightarrow> keeps Q (r, t, m)"
  by (simp add: keeps_def)

lemma keeps_need [keeps_intros]: "(\<And>x. r = Ok x \<Longrightarrow> keeps Q (f x)) \<Longrightarrow> Q t \<Longrightarrow> keeps Q (need r t m f)"
  by (cases r) (simp_all add: keeps_def)

lemma keeps_then [keeps_intros]:
  "keeps Q r \<Longrightarrow> (\<And>t1 m1. Q t1 \<Longrightarrow> keeps Q (f t1 m1)) \<Longrightarrow> keeps Q (then_t r f)"
  by (cases "(r, f)" rule: then_t.cases) (auto simp: keeps_def)

section \<open>The flags tell the truth\<close>

lemma contains_heap_reference_iff: "contains_heap_reference v \<longleftrightarrow> value_ref v \<noteq> None"
  by (cases v) simp_all

lemma key_contains_heap_reference_iff: "key_contains_heap_reference k \<longleftrightarrow> key_ref k \<noteq> None"
  by (cases k) simp_all

lemma live_entries_mem: "p \<in> set (live_entries h) \<longleftrightarrow> p \<in> set h \<and> snd p \<noteq> VNil"
  by (auto simp: live_entries_def)

lemma flags_step:
  assumes f: "table_flags t"
    and hash: "\<And>p. p \<in> set (tb_hash t') \<Longrightarrow> snd p \<noteq> VNil \<Longrightarrow> p \<in> set (tb_hash t) \<or>
      (key_ref (fst p) \<noteq> None \<longrightarrow> tb_hash_contains_heap_key t') \<and> (value_ref (snd p) \<noteq> None \<longrightarrow> tb_hash_contains_heap_value t')"
    and arr: "\<And>v. v \<in> set (tb_array t') \<Longrightarrow> v \<in> set (tb_array t) \<or> v = VNil \<or> (value_ref v \<noteq> None \<longrightarrow> tb_array_contains_heap_reference t')"
    and mono: "tb_hash_contains_heap_key t \<longrightarrow> tb_hash_contains_heap_key t'"
      "tb_hash_contains_heap_value t \<longrightarrow> tb_hash_contains_heap_value t'"
      "tb_array_contains_heap_reference t \<longrightarrow> tb_array_contains_heap_reference t'"
  shows "table_flags t'"
  unfolding table_flags_def
proof (intro conjI impI; elim bexE)
  fix p
  assume p: "p \<in> set (live_entries (tb_hash t'))" "key_ref (fst p) \<noteq> None"
  then have "p \<in> set (live_entries (tb_hash t)) \<or> tb_hash_contains_heap_key t'"
    using hash [of p] by (auto simp: live_entries_mem)
  then show "tb_hash_contains_heap_key t'" using p(2) f mono(1) unfolding table_flags_def by blast
next
  fix p
  assume p: "p \<in> set (live_entries (tb_hash t'))" "value_ref (snd p) \<noteq> None"
  then have "p \<in> set (live_entries (tb_hash t)) \<or> tb_hash_contains_heap_value t'"
    using hash [of p] by (auto simp: live_entries_mem)
  then show "tb_hash_contains_heap_value t'" using p(2) f mono(2) unfolding table_flags_def by blast
next
  fix v
  assume v: "v \<in> set (tb_array t')" "value_ref v \<noteq> None"
  then have "v \<noteq> VNil" by auto
  with v show "tb_array_contains_heap_reference t'"
    using arr [of v] f mono(3) unfolding table_flags_def by blast
qed

text \<open>The part of a table the flags speak about.\<close>

definition view :: "table \<Rightarrow> val list \<times> (key, val) hash_map \<times> bool \<times> bool \<times> bool" where
  "view t = (tb_array t, tb_hash t, tb_hash_contains_heap_key t, tb_hash_contains_heap_value t, tb_array_contains_heap_reference t)"

lemma flags_view: "view t' = view t \<Longrightarrow> table_flags t \<Longrightarrow> table_flags t'"
  by (simp add: view_def table_flags_def)

named_theorems view_simps \<open>updates outside the view\<close>

lemma view_updates [view_simps]:
  "view (t\<lparr>tb_array_room := a\<rparr>) = view t" "view (t\<lparr>tb_array_capacity := b\<rparr>) = view t"
  "view (t\<lparr>tb_hash_capacity := c\<rparr>) = view t" "view (t\<lparr>tb_hash_order_capacity := d\<rparr>) = view t"
  "view (t\<lparr>tb_hash_order_positions := p\<rparr>) = view t" "view (t\<lparr>tb_hash_order := q\<rparr>) = view t"
  "view (t\<lparr>tb_hash_tombstones := e\<rparr>) = view t" "view (t\<lparr>tb_hash_order_enabled := f\<rparr>) = view t"
  "view (t\<lparr>tb_nil_write_boundary := j\<rparr>) = view t" "view (t\<lparr>tb_legacy_array_capacity := l\<rparr>) = view t"
  "view (t\<lparr>tb_tracks_legacy_array_layout := l'\<rparr>) = view t" "view (t\<lparr>tb_mutation := mu\<rparr>) = view t"
  "view (t\<lparr>tb_frozen := fr\<rparr>) = view t" "view (t\<lparr>tb_metatable := mt\<rparr>) = view t"
  "view (t\<lparr>tb_preallocated_array_boundary := pa\<rparr>) = view t"
  by (simp_all add: view_def)

lemma view_steps [view_simps]:
  "view (rebuild_hash_order t) = view t" "view (push_hash_order_key k t) = view t"
  "view (bump_tombstones t) = view t" "view (drop_tombstone t) = view t" "view (track_key k t) = view t"
  "view (settle_legacy t) = view t" "view (set_nil_boundary i t) = view t"
  by (simp_all add: rebuild_hash_order_def push_hash_order_key_def bump_tombstones_def drop_tombstone_def
      track_key_def settle_legacy_def set_nil_boundary_def view_def Let_def)

lemma view_fold: "(\<And>x t. view (f x t) = view t) \<Longrightarrow> view (fold f xs t) = view t"
  by (induction xs arbitrary: t) simp_all

lemma view_start_hash_order [view_simps]: "view (start_hash_order n t) = view t"
  unfolding start_hash_order_def by (auto intro!: view_fold simp: view_simps)

lemma grow_hash_view_core: "grow_hash env n t m = (r, t', m') \<Longrightarrow> view t' = view t"
  by (auto simp: grow_hash_def Let_def view_simps split: if_splits res.splits prod.splits dest!: need_cases)

lemma grow_array_view_core: "grow_array env n t m = (r, t', m') \<Longrightarrow> view t' = view t"
  by (auto simp: grow_array_def Let_def view_simps split: if_splits res.splits prod.splits dest!: need_cases)

lemma grow_hash_view: "keeps (\<lambda>t'. view t' = view t) (grow_hash env n t m)"
  by (cases "grow_hash env n t m") (simp add: keeps_def grow_hash_view_core)

lemma grow_array_view: "keeps (\<lambda>t'. view t' = view t) (grow_array env n t m)"
  by (cases "grow_array env n t m") (simp add: keeps_def grow_array_view_core)

lemma keeps_flags: "keeps (\<lambda>t'. view t' = view t) r \<Longrightarrow> table_flags t \<Longrightarrow> keeps table_flags r"
  using flags_view unfolding keeps_def by blast

lemma flags_grow:
  assumes "table_flags t"
  shows "keeps table_flags (grow_hash env n t m)" "keeps table_flags (grow_array env n t m)"
  by (rule keeps_flags [OF grow_hash_view assms], rule keeps_flags [OF grow_array_view assms])

lemma set_hm_insert: "set (hm_insert k v h) \<subseteq> insert (k, v) (set h)"
  by (induction k v h rule: hm_insert.induct) auto

lemma flags_put_nil: "table_flags t \<Longrightarrow> table_flags (hash_put k VNil t)"
  by (erule flags_step) (use set_hm_insert in \<open>fastforce simp: hash_put_def\<close>)+

lemma flags_remove: "table_flags t \<Longrightarrow> table_flags (snd (remove_hash_entry k t))"
  by (erule flags_step) (auto simp: hm_remove_def, auto simp: remove_hash_entry_def Let_def)

lemma flags_push: "table_flags t \<Longrightarrow> table_flags (push_array v (note_array_reference (contains_heap_reference v) t))"
  by (erule flags_step) (auto simp: contains_heap_reference_iff, auto simp: push_array_def note_array_reference_def)

lemma flags_store:
  assumes "table_flags t" and "set_at b n v = Ok a" and "tb_array t = b" and "c = contains_heap_reference v"
  shows "table_flags ((note_array_reference c t)\<lparr>tb_array := a\<rparr>)"
proof (rule flags_step [OF assms(1)])
  fix x
  assume "x \<in> set (tb_array ((note_array_reference c t)\<lparr>tb_array := a\<rparr>))"
  moreover have "a = b[n := v]" using assms(2) by (simp add: set_at_def split: if_splits)
  ultimately have "x \<in> set (tb_array t) \<or> x = v" using set_update_subset_insert [of b n v] assms(3) by auto
  then show "x \<in> set (tb_array t) \<or> x = VNil \<or> (value_ref x \<noteq> None \<longrightarrow>
      tb_array_contains_heap_reference ((note_array_reference c t)\<lparr>tb_array := a\<rparr>))"
    using assms(4) by (auto simp: note_array_reference_def contains_heap_reference_iff)
qed (auto simp: note_array_reference_def)

lemma flags_fill: "table_flags t \<Longrightarrow> table_flags (fill_array i t)"
  by (erule flags_step) (auto simp: fill_array_def split: if_splits)

lemma flags_promote: "table_flags t \<Longrightarrow> table_flags (promote_contiguous n t)"
proof (induction n arbitrary: t)
  case (Suc n)
  let ?k = "KInteger (int (length (tb_array t) + 1))"
  obtain r t1 where r: "remove_hash_entry ?k t = (r, t1)" by (cases "remove_hash_entry ?k t")
  with flags_remove [OF Suc.prems, of ?k] have "table_flags t1" by simp
  then show ?case using Suc.IH flags_push r by (auto split: option.split)
qed simp

lemma flags_compact: "table_flags t \<Longrightarrow> table_flags (compact_when_sparse t)"
  by (erule flags_step)
    (auto simp: compact_when_sparse_def compact_hash_def Let_def retain_live_def rebuild_hash_order_def split: if_splits)

lemma flags_note: "table_flags t \<Longrightarrow> table_flags (note_hash_references k v t)"
  by (erule flags_step) (auto simp: note_hash_references_def)

lemma flags_clear: "table_flags t \<Longrightarrow> table_flags (clear_in_hash k t)"
  by (erule flags_step)
    (use set_hm_insert in \<open>fastforce simp: clear_in_hash_def Let_def hash_put_def bump_tombstones_def split: if_splits\<close>)+

text \<open>Putting a noted entry.\<close>

definition noted :: "key \<Rightarrow> val \<Rightarrow> table \<Rightarrow> bool" where
  "noted k v t \<longleftrightarrow> table_flags t \<and> (key_ref k \<noteq> None \<longrightarrow> tb_hash_contains_heap_key t) \<and>
     (value_ref v \<noteq> None \<longrightarrow> tb_hash_contains_heap_value t)"

lemma noted_view: "view t' = view t \<Longrightarrow> noted k v t \<Longrightarrow> noted k v t'"
  using flags_view [of t' t] by (simp add: noted_def) (simp add: view_def)

lemma noted_put:
  assumes "noted k v t"
  shows "table_flags (hash_put k v t)"
proof (rule flags_step)
  show "table_flags t" using assms by (simp add: noted_def)
  fix p
  assume "p \<in> set (tb_hash (hash_put k v t))" "snd p \<noteq> VNil"
  then have "p = (k, v) \<or> p \<in> set (tb_hash t)" using set_hm_insert [of k v "tb_hash t"] by auto
  then show "p \<in> set (tb_hash t) \<or> (key_ref (fst p) \<noteq> None \<longrightarrow> tb_hash_contains_heap_key (hash_put k v t)) \<and>
      (value_ref (snd p) \<noteq> None \<longrightarrow> tb_hash_contains_heap_value (hash_put k v t))"
    using assms by (auto simp: noted_def hash_put_def)
qed (auto simp: hash_put_def)

lemma noted_prepared: "table_flags t \<Longrightarrow> noted k v (compact_when_sparse (note_hash_references k v t))"
  using flags_compact [OF flags_note]
  by (auto simp: noted_def) (auto simp: compact_when_sparse_def compact_hash_def Let_def rebuild_hash_order_def
      note_hash_references_def contains_heap_reference_iff key_contains_heap_reference_iff)

lemma set_in_hash_flags:
  assumes "table_flags t"
  shows "keeps table_flags (set_in_hash env k v t m)"
proof -
  let ?t = "compact_when_sparse (note_hash_references k v t)"
  have grow: "keeps (noted k v) (grow_hash env n s m)" if "noted k v s" for n s
    using grow_hash_view noted_view that unfolding keeps_def by blast
  have enabled: "noted k v (s\<lparr>tb_hash_order_enabled := b\<rparr>)" "noted k v (track_key k s)" "noted k v (drop_tombstone s)"
    if "noted k v s" for s b by (rule noted_view [OF _ that], simp add: view_simps)+
  have ready: "noted k v ?t" by (rule noted_prepared [OF assms])
  have first: "keeps (noted k v)
      (if \<not> hm_contains k (tb_hash ?t) then
         let t = ?t\<lparr>tb_hash_order_enabled := tb_hash_order_enabled ?t \<or> wants_order k ?t\<rparr> in
         need (ok_or (checked_add (length (tb_hash t)) 1) overflow) t m (\<lambda>required.
         then_t (grow_hash env required t m) (\<lambda>t m. (Ok (), track_key k t, m)))
       else if map_of (tb_hash ?t) k = Some VNil then (Ok (), drop_tombstone ?t, m) else (Ok (), ?t, m))"
    unfolding Let_def by (auto intro!: keeps_intros grow enabled ready)
  have weaken: "keeps table_flags r" if "keeps (noted k v) r" for r using that by (simp add: keeps_def noted_def)
  have rest: "keeps table_flags (then_t r (\<lambda>t m. (Ok (), hash_put k v t, m)))" if "keeps (noted k v) r" for r
  proof -
    obtain x s m' where "r = (x, s, m')" by (cases r)
    with that noted_put show ?thesis by (cases x) (auto simp: keeps_def noted_def)
  qed
  show ?thesis
    unfolding set_in_hash_def
    using rest [OF first] flags_clear [OF assms] by (auto simp: keeps_def Let_def)
qed

lemma keeps_case_prod: "keeps Q (case p of (a, b) \<Rightarrow> f a b) = keeps Q (f (fst p) (snd p))"
  by (simp add: case_prod_beta)

lemma tb_set_flags:
  assumes "table_flags t"
  shows "keeps table_flags (tb_set env k v t m)"
proof -
  have arr: "keeps table_flags (set_in_array env k v i t m)" for i
  proof -
    have track: "table_flags (bump_tombstones (track_key k s))" if "table_flags s" for s k
      by (rule flags_view [OF _ that]) (simp add: view_simps)
    show ?thesis
      unfolding set_in_array_def Let_def
      using assms by (auto intro!: keeps_intros flags_store flags_grow track flags_put_nil flags_remove)
  qed
  have settle: "table_flags (settle_legacy s)" if "table_flags s" for s by (rule flags_view [OF _ that]) (simp add: view_simps)
  have ext: "keeps table_flags (set_past_boundary env v i t m)" "keeps table_flags (set_append env v i t m)" for i
    unfolding set_past_boundary_def set_append_def
    using assms by (auto intro!: keeps_intros flags_grow settle flags_promote flags_push flags_fill)
  have nil: "table_flags (set_nil_boundary i t)" for i by (rule flags_view [OF _ assms]) (simp add: view_simps)
  show ?thesis
    unfolding tb_set_def using arr ext set_in_hash_flags [OF assms] assms nil
    by (auto split: option.split intro!: keeps_intros)
qed

section \<open>The capacities cover the hash part\<close>

definition keys :: "table \<Rightarrow> key set" where
  "keys t = fst ` set (tb_hash t)"

text \<open>The order lists each key once, its positions know the same keys, and it is empty unless it is kept.\<close>

definition order_ok :: "table \<Rightarrow> bool" where
  "order_ok t \<longleftrightarrow> distinct (tb_hash_order t) \<and>
     (\<forall>k. hm_contains k (tb_hash_order_positions t) \<longleftrightarrow> k \<in> set (tb_hash_order t)) \<and>
     (tb_hash_order_capacity t = 0 \<longrightarrow> tb_hash_order t = [])"

definition fits :: "key set \<Rightarrow> table \<Rightarrow> bool" where
  "fits K t \<longleftrightarrow> card K \<le> tb_hash_capacity t \<and>
     (tb_hash_order_capacity t \<noteq> 0 \<longrightarrow> card K \<le> tb_hash_order_capacity t \<and> K \<subseteq> set (tb_hash_order t))"

definition ready :: "key \<Rightarrow> table \<Rightarrow> bool" where
  "ready k t \<longleftrightarrow> distinct (map fst (tb_hash t)) \<and> order_ok t \<and> fits (insert k (keys t)) t"

definition table_room :: "table \<Rightarrow> bool" where
  "table_room t \<longleftrightarrow> distinct (map fst (tb_hash t)) \<and> order_ok t \<and> fits (keys t) t"

lemma card_keys: "distinct (map fst (tb_hash t)) \<Longrightarrow> card (keys t) = length (tb_hash t)"
  by (metis distinct_card keys_def length_map list.set_map)

lemma finite_keys [simp]: "finite (keys t)"
  by (simp add: keys_def)

lemma fits_subset: "fits K t \<Longrightarrow> finite K \<Longrightarrow> K' \<subseteq> K \<Longrightarrow> fits K' t"
  using card_mono [of K K'] by (auto simp: fits_def)

lemma ready_put: "ready k t \<Longrightarrow> table_room (hash_put k v t)"
  by (simp add: ready_def table_room_def keys_def hash_put_def keys_hm_insert distinct_hm_insert order_ok_def fits_def)

lemma room_ready: "table_room t \<Longrightarrow> hm_contains k (tb_hash t) \<Longrightarrow> ready k t"
  by (simp add: table_room_def ready_def keys_def hm_contains_def insert_absorb)

text \<open>The part of a table the invariant speaks about.\<close>

definition hash_view :: "table \<Rightarrow> (key, val) hash_map \<times> nat \<times> key list \<times> nat \<times> (key, nat) hash_map" where
  "hash_view t = (tb_hash t, tb_hash_capacity t, tb_hash_order t, tb_hash_order_capacity t, tb_hash_order_positions t)"

lemma room_view: "hash_view t' = hash_view t \<Longrightarrow> table_room t \<Longrightarrow> table_room t'"
  by (simp add: hash_view_def table_room_def order_ok_def fits_def keys_def)

lemma ready_view: "hash_view t' = hash_view t \<Longrightarrow> ready k t \<Longrightarrow> ready k t'"
  by (simp add: hash_view_def ready_def order_ok_def fits_def keys_def)

named_theorems hash_view_simps \<open>updates outside the hash part\<close>

lemma hash_view_updates [hash_view_simps]:
  "hash_view (t\<lparr>tb_array := a\<rparr>) = hash_view t" "hash_view (t\<lparr>tb_array_room := ar\<rparr>) = hash_view t"
  "hash_view (t\<lparr>tb_array_capacity := b\<rparr>) = hash_view t" "hash_view (t\<lparr>tb_hash_tombstones := e\<rparr>) = hash_view t"
  "hash_view (t\<lparr>tb_hash_order_enabled := f\<rparr>) = hash_view t" "hash_view (t\<lparr>tb_metatable := mt\<rparr>) = hash_view t"
  "hash_view (t\<lparr>tb_mutation := mu\<rparr>) = hash_view t" "hash_view (t\<lparr>tb_frozen := fr\<rparr>) = hash_view t"
  "hash_view (t\<lparr>tb_preallocated_array_boundary := pa\<rparr>) = hash_view t"
  "hash_view (bump_tombstones t) = hash_view t" "hash_view (drop_tombstone t) = hash_view t"
  "hash_view (settle_legacy t) = hash_view t" "hash_view (set_nil_boundary i t) = hash_view t"
  "hash_view (push_array v t) = hash_view t" "hash_view (note_array_reference r t) = hash_view t"
  "hash_view (fill_array i t) = hash_view t" "hash_view (note_hash_references k v t) = hash_view t"
  by (simp_all add: hash_view_def bump_tombstones_def drop_tombstone_def settle_legacy_def set_nil_boundary_def
      push_array_def note_array_reference_def fill_array_def note_hash_references_def Let_def)

lemma positions_fold:
  "hm_contains k (fold (\<lambda>(position, k) h. hm_insert k position h) (enumerate n ks) h) \<longleftrightarrow> k \<in> set ks \<or> hm_contains k h"
  by (induction ks arbitrary: n h) (auto simp: hm_contains_def keys_hm_insert)

lemma order_ok_rebuild: "distinct (tb_hash_order t) \<Longrightarrow> (tb_hash_order_capacity t = 0 \<longrightarrow> tb_hash_order t = []) \<Longrightarrow>
    order_ok (rebuild_hash_order t)"
  by (simp add: order_ok_def rebuild_hash_order_def positions_fold) (simp add: hm_contains_def)

lemma rebuild_sel [simp]:
  "tb_hash (rebuild_hash_order t) = tb_hash t" "tb_hash_order (rebuild_hash_order t) = tb_hash_order t"
  "tb_hash_capacity (rebuild_hash_order t) = tb_hash_capacity t"
  "tb_hash_order_capacity (rebuild_hash_order t) = tb_hash_order_capacity t"
  by (simp_all add: rebuild_hash_order_def)

lemma track_ready:
  assumes "distinct (map fst (tb_hash t))" and "order_ok t" and "fits (keys t) t"
    and "card (insert k (keys t)) \<le> tb_hash_capacity t"
    and "tb_hash_order_capacity t \<noteq> 0 \<longrightarrow> card (insert k (keys t)) \<le> tb_hash_order_capacity t"
  shows "ready k (track_key k t)"
proof (cases "tb_hash_order_capacity t = 0 \<or> k \<in> set (tb_hash_order t)")
  case True
  then have "track_key k t = t"
    using assms(2) by (auto simp: track_key_def push_hash_order_key_def order_ok_def)
  with True assms show ?thesis by (auto simp: ready_def fits_def)
next
  case False
  let ?t = "rebuild_hash_order (t\<lparr>tb_hash_order := tb_hash_order t @ [k]\<rparr>)"
  have "track_key k t = ?t" using False assms(2) by (auto simp: track_key_def push_hash_order_key_def order_ok_def)
  moreover have "order_ok ?t" by (rule order_ok_rebuild) (use False assms(2) in \<open>simp_all add: order_ok_def\<close>)
  ultimately show ?thesis using False assms by (auto simp: ready_def fits_def keys_def)
qed

lemma start_fold:
  "fold (\<lambda>k t. t\<lparr>tb_hash_order := tb_hash_order t @ [k],
           tb_hash_order_positions := hm_insert k (length (tb_hash_order t)) (tb_hash_order_positions t)\<rparr>) ks t =
     t\<lparr>tb_hash_order := tb_hash_order t @ ks, tb_hash_order_positions := tb_hash_order_positions
         (fold (\<lambda>k t. t\<lparr>tb_hash_order := tb_hash_order t @ [k],
           tb_hash_order_positions := hm_insert k (length (tb_hash_order t)) (tb_hash_order_positions t)\<rparr>) ks t)\<rparr>"
proof (induction ks arbitrary: t)
  case (Cons k ks)
  show ?case by (simp only: fold_Cons comp_apply, subst Cons.IH) simp
qed simp

lemma start_sel:
  "tb_hash (start_hash_order n t) = tb_hash t"
  "tb_hash_order (start_hash_order n t) = (if tb_hash_order_capacity t = 0 \<and> n \<noteq> 0
     then tb_hash_order t @ map fst (tb_hash t) else tb_hash_order t)"
  unfolding start_hash_order_def by (auto simp del: fold_map) (subst start_fold, simp)+

text \<open>Growing the hash part: on an error the table is as it was.\<close>

definition held :: "platform \<Rightarrow> table \<Rightarrow> memory_account \<Rightarrow> bool" where
  "held env t m \<longleftrightarrow> (\<exists>b. table_bytes env t = Ok b \<and> b \<le> ma_current_bytes m)"

lemma reserving_reached:
  assumes "reserving m n work old = (r, m')" and "work \<noteq> Panic" and "old \<le> ma_current_bytes m"
  shows "is_ok r \<longleftrightarrow> is_ok (account_reserve m n) \<and> is_ok work"
proof (cases "account_reserve m n")
  case (Ok m1)
  then have "m1 = charge m n" by (simp add: res_simps)
  with Ok assms show ?thesis
    by (cases work) (auto simp: reserving_def commit_replacing_charge he_def split: if_splits)
qed (use assms in \<open>auto simp: reserving_def\<close>)

lemma grown_order_capacity_props:
  "tb_hash_order_capacity t \<noteq> 0 \<longrightarrow> grown_order_capacity t n b = max (tb_hash_order_capacity t) n"
  "grown_order_capacity t n b = 0 \<or> n \<le> grown_order_capacity t n b"
  by (simp_all add: grown_order_capacity_def)

definition grown_to :: "table \<Rightarrow> nat \<Rightarrow> table \<Rightarrow> bool" where
  "grown_to t n t' \<longleftrightarrow> tb_hash t' = tb_hash t \<and> order_ok t' \<and> fits (keys t) t' \<and> n \<le> tb_hash_capacity t' \<and>
     (tb_hash_order_capacity t' \<noteq> 0 \<longrightarrow> n \<le> tb_hash_order_capacity t')"

lemma grown_part:
  assumes room: "table_room t" and n: "c = max (tb_hash_capacity t) n" "d = grown_order_capacity t n False"
    and few: "card (keys t) \<le> n"
  shows "grown_to t n (rebuild_hash_order ((start_hash_order d t)\<lparr>tb_hash_capacity := c, tb_hash_order_capacity := d\<rparr>))"
proof -
  let ?s = "start_hash_order d t" let ?t = "?s\<lparr>tb_hash_capacity := c, tb_hash_order_capacity := d\<rparr>"
  note g = grown_order_capacity_props [of t n False]
  have r: "distinct (map fst (tb_hash t))" "order_ok t" "fits (keys t) t" using room by (simp_all add: table_room_def)
  then have d: "distinct (tb_hash_order t)" "tb_hash_order_capacity t = 0 \<Longrightarrow> tb_hash_order t = []"
    by (simp_all add: order_ok_def)
  have "distinct (tb_hash_order ?s)" using r(1) d by (auto simp: start_sel)
  moreover have "d = 0 \<longrightarrow> tb_hash_order ?s = []" using g d by (auto simp: start_sel n)
  ultimately have ok: "order_ok (rebuild_hash_order ?t)" by (intro order_ok_rebuild) simp_all
  have card: "card (keys t) \<le> c" using r(3) n(1) by (auto simp: fits_def)
  have order: "d \<noteq> 0 \<Longrightarrow> card (keys t) \<le> d \<and> keys t \<subseteq> set (tb_hash_order ?s)"
  proof (cases "tb_hash_order_capacity t = 0")
    case True
    assume "d \<noteq> 0"
    have "card (keys t) \<le> d" using g(2) \<open>d \<noteq> 0\<close> few by (simp add: n)
    with True \<open>d \<noteq> 0\<close> show ?thesis by (simp add: start_sel keys_def)
  next
    case False
    then show ?thesis using r(3) g by (auto simp: fits_def start_sel n)
  qed
  show ?thesis
    unfolding grown_to_def using ok card order n g(2) by (auto simp: fits_def start_sel)
qed

lemma grow_hash_room:
  assumes g: "grow_hash env n t m = (r, t', m')" and room: "table_room t" and h: "held env t m"
    and env: "platform_ok env" and few: "card (keys t) \<le> n"
  shows "if r = Ok () then grown_to t n t' else t' = t"
proof (cases "max (tb_hash_capacity t) n = tb_hash_capacity t \<and> grown_order_capacity t n False = tb_hash_order_capacity t")
  case True
  then have "n \<le> tb_hash_capacity t" "tb_hash_order_capacity t = 0 \<or> n \<le> tb_hash_order_capacity t"
    using grown_order_capacity_props(2) [of t n False] by (auto simp: max_def split: if_splits)
  with True g room show ?thesis by (auto simp: grow_hash_def Let_def grown_to_def table_room_def)
next
  case False
  let ?c = "max (tb_hash_capacity t) n" and ?d = "grown_order_capacity t n False"
  let ?work = "try_reserve_hash_part env ?c ?d"
  obtain old where old: "hash_part_bytes env (tb_hash_capacity t) (tb_hash_order_capacity t) = Ok old"
    "old \<le> ma_current_bytes m"
    using h by (auto simp: held_def table_bytes_def res_simps)
  note g1 = g [unfolded grow_hash_def Let_def if_not_P [OF False] old(1)]
  show ?thesis
  proof (cases "hash_part_bytes env ?c ?d")
    case (Ok new)
    obtain r' m1 where res: "reserving m new ?work old = (r', m1)" by (cases "reserving m new ?work old")
    note reached = reserving_reached [OF res try_reserve_not_Panic(1) [OF env] old(2)]
    note g2 = g1 [unfolded Ok he_Ok, simplified res he_def map_err.simps need.simps prod.case, unfolded reached [symmetric]]
    show ?thesis
      using g2 grown_part [OF room refl refl few] by (cases r') (auto simp: res_simps)
  qed (use g1 in \<open>auto simp: he_def\<close>)
qed

lemma held_caps: "caps t' = caps t \<Longrightarrow> held env t m \<Longrightarrow> held env t' m"
  by (simp add: held_def table_bytes_caps [of t' t])

text \<open>Room for a key that is not there yet.\<close>

lemma grow_track_room:
  assumes g: "need (ok_or (checked_add (length (tb_hash t)) 1) overflow) t m (\<lambda>required.
      then_t (grow_hash env required t m) (\<lambda>t m. (Ok (), f (track_key k t), m))) = (r, t', m')"
    and f: "\<And>s. hash_view (f s) = hash_view s"
    and room: "table_room t" and h: "held env t m" and env: "platform_ok env" and new: "\<not> hm_contains k (tb_hash t)"
  shows "if r = Ok () then ready k t' else t' = t"
proof -
  have d: "distinct (map fst (tb_hash t))" using room by (simp add: table_room_def)
  note card = card_keys [OF d]
  let ?n = "length (tb_hash t) + 1"
  from need_cases [OF g] show ?thesis
  proof (elim disjE exE conjE)
    fix y
    assume "ok_or (checked_add (length (tb_hash t)) 1) overflow = Ok y"
      and s: "then_t (grow_hash env y t m) (\<lambda>t m. (Ok (), f (track_key k t), m)) = (r, t', m')"
    then have y: "y = ?n" by (simp add: res_simps usize_simps)
    from s show ?thesis
    proof (cases rule: then_t_elim)
      case (1 t1 m1)
      from grow_hash_room [OF 1(1) room h env] y card have grown: "grown_to t ?n t1" by simp
      have "keys t1 = keys t" "card (insert k (keys t)) = ?n"
        using grown card new by (simp_all add: grown_to_def keys_def hm_contains_def)
      then have "ready k (track_key k t1)"
        using grown d by (intro track_ready) (simp_all add: grown_to_def)
      with 1 show ?thesis using ready_view [OF f] by auto
    next
      case (2 e)
      from grow_hash_room [OF 2(1) room h env] y card 2 show ?thesis by simp
    next
      case 3
      from grow_hash_room [OF 3(1) room h env] y card 3 show ?thesis by simp
    qed
  qed auto
qed

lemma room_subset:
  assumes "table_room t" and "distinct (map fst (tb_hash t'))" and "keys t' \<subseteq> keys t"
    and "tb_hash_capacity t' = tb_hash_capacity t" "tb_hash_order t' = tb_hash_order t"
    "tb_hash_order_capacity t' = tb_hash_order_capacity t" "tb_hash_order_positions t' = tb_hash_order_positions t"
  shows "table_room t'"
  using assms fits_subset [of "keys t" t "keys t'"] by (auto simp: table_room_def order_ok_def fits_def)

lemma keys_remove: "fst ` set (hm_remove k h) \<subseteq> fst ` set h"
  by (auto simp: hm_remove_def)

lemma remove_hash_view [simp]:
  "tb_hash_capacity (snd (remove_hash_entry k t)) = tb_hash_capacity t"
  "tb_hash_order (snd (remove_hash_entry k t)) = tb_hash_order t"
  "tb_hash_order_capacity (snd (remove_hash_entry k t)) = tb_hash_order_capacity t"
  "tb_hash_order_positions (snd (remove_hash_entry k t)) = tb_hash_order_positions t"
  by (simp_all add: remove_hash_entry_def Let_def)

lemma room_remove: "table_room t \<Longrightarrow> table_room (snd (remove_hash_entry k t))"
  by (rule room_subset [of t]) (simp_all add: table_room_def keys_def distinct_hm_remove keys_remove)

lemma room_promote: "table_room t \<Longrightarrow> table_room (promote_contiguous n t)"
proof (induction n arbitrary: t)
  case (Suc n)
  let ?k = "KInteger (int (length (tb_array t) + 1))"
  obtain r t1 where r: "remove_hash_entry ?k t = (r, t1)" by (cases "remove_hash_entry ?k t")
  with room_remove [OF Suc.prems, of ?k] have "table_room t1" by simp
  then have "table_room (push_array v (note_array_reference b t1))" for v b
    by (rule room_view [rotated]) (simp add: hash_view_simps)
  then show ?case using Suc.IH r \<open>table_room t1\<close> by (auto split: option.split)
qed simp

lemma keys_retain: "fst ` set (retain_live h) \<subseteq> fst ` set h"
  by (auto simp: retain_live_def)

lemma room_compact:
  assumes "table_room t"
  shows "table_room (compact_when_sparse t)"
proof -
  have r: "distinct (map fst (tb_hash t))" "order_ok t" "fits (keys t) t" using assms by (simp_all add: table_room_def)
  note d = distinct_retain_live [OF r(1)]
  let ?u = "t\<lparr>tb_hash := retain_live (tb_hash t)\<rparr>"
  have sub: "keys ?u \<subseteq> keys t" using keys_retain by (simp add: keys_def)
  have u: "table_room ?u" by (rule room_subset [OF assms]) (use d sub in simp_all)
  let ?v = "?u\<lparr>tb_hash_order := filter (\<lambda>k. hm_contains k (tb_hash ?u)) (tb_hash_order ?u)\<rparr>"
  have v: "table_room (rebuild_hash_order ?v)"
  proof -
    have "order_ok (rebuild_hash_order ?v)" by (rule order_ok_rebuild) (use r(2) in \<open>auto simp: order_ok_def\<close>)
    then show ?thesis using u by (auto simp: table_room_def fits_def keys_def hm_contains_def)
  qed
  show ?thesis
    using assms room_view [OF hash_view_updates(4) u] room_view [OF hash_view_updates(4) v]
    by (auto simp: compact_when_sparse_def compact_hash_def Let_def)
qed

lemma room_clear:
  assumes "table_room t"
  shows "table_room (clear_in_hash k t)"
proof (cases "hm_contains k (tb_hash t)")
  case True
  let ?n = "t\<lparr>tb_hash_contains_heap_key := tb_hash_contains_heap_key t \<or> key_contains_heap_reference k\<rparr>"
  have n: "hash_view ?n = hash_view t" by (simp add: hash_view_def)
  then have "ready k ?n" "ready k (bump_tombstones ?n)"
    using room_ready [OF assms True] by (blast intro: ready_view, intro ready_view [of "bump_tombstones ?n" t])
      (simp_all add: hash_view_simps)
  then show ?thesis using ready_put True by (simp add: clear_in_hash_def Let_def)
qed (use assms in \<open>simp add: clear_in_hash_def\<close>)

text \<open>A write keeps the room, whatever its outcome.\<close>

lemma put_after_room:
  assumes s: "then_t (if \<not> hm_contains k (tb_hash t) then
      need (ok_or (checked_add (length (tb_hash t)) 1) overflow) t m (\<lambda>required.
        then_t (grow_hash env required t m) (\<lambda>t m. (Ok (), f (track_key k t), m)))
      else (Ok (), g t, m)) (\<lambda>t m. rest (hash_put k v t) m) = (r, t', m')"
    and f: "\<And>s. hash_view (f s) = hash_view s" "\<And>s. hash_view (g s) = hash_view s"
    and rest: "\<And>s m. table_room s \<Longrightarrow> keeps table_room (rest s m)"
    and room: "table_room t" and h: "held env t m" and env: "platform_ok env"
  shows "table_room t'"
  using s
proof (cases rule: then_t_elim)
  case (1 t1 m1)
  have "ready k t1"
  proof (cases "hm_contains k (tb_hash t)")
    case True
    with 1(1) have "t1 = g t" by simp
    then show ?thesis using ready_view [OF f(2) room_ready [OF room True]] by simp
  next
    case False
    with 1(1) grow_track_room [OF _ f(1) room h env False] show ?thesis by simp
  qed
  then have "keeps table_room (rest (hash_put k v t1) m1)" by (rule rest [OF ready_put])
  then show ?thesis unfolding 1(2) by (simp add: keeps_def)
next
  case (2 e)
  then show ?thesis using grow_track_room [OF _ f(1) room h env, of k r t' m'] room by (cases "hm_contains k (tb_hash t)") auto
next
  case 3
  then show ?thesis using grow_track_room [OF _ f(1) room h env, of k r t' m'] room by (cases "hm_contains k (tb_hash t)") auto
qed

lemma grow_array_hash: "keeps (\<lambda>t'. hash_view t' = hash_view t) (grow_array env n t m)"
proof -
  have "grow_array env n t m = (r, t', m') \<Longrightarrow> hash_view t' = hash_view t" for r t' m'
    by (auto simp: grow_array_def Let_def hash_view_simps split: if_splits res.splits prod.splits dest!: need_cases)
  then show ?thesis by (cases "grow_array env n t m") (simp add: keeps_def)
qed

lemma room_grow_array: "table_room t \<Longrightarrow> keeps table_room (grow_array env n t m)"
  using grow_array_hash room_view unfolding keeps_def by blast

lemma set_in_hash_room:
  assumes s: "set_in_hash env k v t m = (r, t', m')"
    and room: "table_room t" and h: "held env t m" and env: "platform_ok env"
  shows "table_room t'"
proof (cases "v = VNil")
  case True
  with s room_clear [OF room] show ?thesis by (auto simp: set_in_hash_def)
next
  case False
  let ?n = "compact_when_sparse (note_hash_references k v t)"
  let ?e = "?n\<lparr>tb_hash_order_enabled := tb_hash_order_enabled ?n \<or> wants_order k ?n\<rparr>"
  have n: "table_room ?n" "held env ?n m"
    by (rule room_compact, rule room_view [OF _ room], simp add: hash_view_simps, rule held_caps [OF _ h], simp)
  have e: "table_room ?e" "held env ?e m"
    by (rule room_view [OF hash_view_updates(5) n(1)], rule held_caps [OF _ n(2)], simp)
  note s1 = s [unfolded set_in_hash_def Let_def if_not_P [OF False]]
  have put: "keeps table_room (Ok (), s, m)" if "table_room s" for s m using that by (simp add: keeps_def)
  let ?g = "\<lambda>s. if map_of (tb_hash s) k = Some VNil then drop_tombstone s else s"
  have g: "hash_view (?g s) = hash_view s" for s by (simp add: hash_view_simps)
  show ?thesis
  proof (cases "hm_contains k (tb_hash ?n)")
    case True
    with s1 have "then_t (if \<not> hm_contains k (tb_hash ?n) then
        need (ok_or (checked_add (length (tb_hash ?n)) 1) overflow) ?n m (\<lambda>required.
          then_t (grow_hash env required ?n m) (\<lambda>t m. (Ok (), track_key k t, m)))
        else (Ok (), ?g ?n, m)) (\<lambda>t m. (Ok (), hash_put k v t, m)) = (r, t', m')"
      by (simp split: if_splits)
    then show ?thesis by (rule put_after_room [where f = "\<lambda>s. s" and g = ?g, OF _ refl g put n env])
  next
    case False
    with s1 have "then_t (if \<not> hm_contains k (tb_hash ?e) then
        need (ok_or (checked_add (length (tb_hash ?e)) 1) overflow) ?e m (\<lambda>required.
          then_t (grow_hash env required ?e m) (\<lambda>t m. (Ok (), track_key k t, m)))
        else (Ok (), ?e, m)) (\<lambda>t m. (Ok (), hash_put k v t, m)) = (r, t', m')"
      by simp
    then show ?thesis by (rule put_after_room [where f = "\<lambda>s. s" and g = "\<lambda>s. s", OF _ refl refl put e env])
  qed
qed

lemma set_in_array_room:
  assumes s: "set_in_array env k v i t m = (r, t', m')"
    and room: "table_room t" and h: "held env t m" and env: "platform_ok env"
  shows "table_room t'"
proof -
  have array: "table_room (s\<lparr>tb_array := a\<rparr>)" "table_room (note_array_reference b s)" if "table_room s" for s a b
    by (rule room_view [OF _ that], simp add: hash_view_simps)+
  have store: "keeps table_room (need (set_at (tb_array s) (i - 1) v) s m (\<lambda>a.
      (Ok (), (note_array_reference (contains_heap_reference v) s)\<lparr>tb_array := a\<rparr>, m)))" if "table_room s" for s m
    using that by (auto intro!: keeps_intros array)
  have store': "table_room t'" if "need (set_at (tb_array s) (i - 1) v) s m (\<lambda>a.
      (Ok (), (note_array_reference (contains_heap_reference v) s)\<lparr>tb_array := a\<rparr>, m)) = (r, t', m')" "table_room s" for s
    using store [OF that(2), of m] unfolding that(1) by (simp add: keeps_def)

  show ?thesis
  proof (cases "index_at (tb_array t) (i - 1) :: (val, heap_error) res")
    case (Ok old)
    note s1 = s [unfolded set_in_array_def Let_def Ok need.simps]
    show ?thesis
    proof (cases "v = VNil \<and> old \<noteq> VNil")
      case True
      let ?rest = "\<lambda>s m. need (set_at (tb_array s) (i - 1) v) s m (\<lambda>a.
        (Ok (), (note_array_reference (contains_heap_reference v) s)\<lparr>tb_array := a\<rparr>, m))"
      show ?thesis
      proof (cases "hash_integer i")
        case (Ok tombstone)
        show ?thesis
          by (rule put_after_room [where k = tombstone and v = VNil and r = r and m' = m' and f = bump_tombstones and g = "\<lambda>s. s" and rest = ?rest, OF _ _ _ store room h env])
            (use s1 True Ok in simp, simp_all add: hash_view_simps)
      qed (use s1 True room in simp_all)
    next
      case False
      show ?thesis
        using s1 [unfolded if_not_P [OF False]] store' [OF _ room] store' [OF _ room_remove [OF room]]
        by (auto split: if_splits)
    qed
  qed (use s room in \<open>auto simp: set_in_array_def\<close>)
qed

lemma tb_set_room:
  assumes "tb_set env k v t m = (r, t', m')" and room: "table_room t" and h: "held env t m" and env: "platform_ok env"
  shows "table_room t'"
proof -
  have push: "table_room (fill_array i s)"
    "table_room (push_array v (note_array_reference b s))" "table_room (settle_legacy s)" if "table_room s" for b i s
    by (rule room_view [OF _ that], simp add: hash_view_simps)+
  have ext: "keeps table_room (set_past_boundary env v i t m)" "keeps table_room (set_append env v i t m)" for i
    unfolding set_past_boundary_def set_append_def
    using room by (auto intro!: keeps_intros room_grow_array push room_promote)
  have nil: "table_room (set_nil_boundary i t)" for i by (rule room_view [OF _ room]) (simp add: hash_view_simps)
  have "keeps table_room (set_in_hash env k v t m)" "keeps table_room (set_in_array env k v i t m)" for i
    using set_in_hash_room [OF _ room h env, of k v] set_in_array_room [OF _ room h env, of k v i] unfolding keeps_def
    by (metis prod.collapse)+
  then have "keeps table_room (tb_set env k v t m)"
    unfolding tb_set_def using room ext nil by (auto split: option.split intro!: keeps_intros)
  with assms(1) show ?thesis by (simp add: keeps_def)
qed

end
