(* ===== verification/Runtime_Collect.thy ===== *)
theory Runtime_Collect
  imports Runtime_Mark
begin

text \<open>
  \<open>Heap::collect_with_upvalues_and_finalizers\<close> of \<open>blu-runtime/src/heap.rs\<close> after its mark phase:
  the objects to finalize, the second mark phase that keeps them, the clearing of weak tables and
  the sweep. The outcome is \<open>None\<close> when a mark phase does not end.
\<close>

section \<open>Finalizers\<close>

datatype finalizer_target = TargetTable table_id | TargetUserData userdata_id

type_synonym finalizer = "finalizer_target \<times> val \<times> semantic_profile \<times> 64 word"

fun target_id :: "finalizer_target \<Rightarrow> object_id" where
  "target_id (TargetTable i) = i"
| "target_id (TargetUserData i) = i"

definition GC_NAME :: bytes where "GC_NAME = ascii ''__gc''"

text \<open>Target, metatable, armed, done, profile and order of an object that can be finalized.\<close>

fun finalizer_state :: "object_id \<Rightarrow> 'b obj \<Rightarrow>
  (finalizer_target \<times> table_id option \<times> bool \<times> bool \<times> semantic_profile option \<times> 64 word) option" where
  "finalizer_state i (OTable t) = Some (TargetTable i, tb_metatable t, tb_finalizer_armed t,
     tb_finalizer_done t, tb_finalizer_profile t, tb_finalizer_order t)"
| "finalizer_state i (OUserData u) = Some (TargetUserData i, ud_metatable u, ud_finalizer_armed u,
     ud_finalizer_done u, ud_finalizer_profile u, ud_finalizer_order u)"
| "finalizer_state i _ = None"

fun is_callback :: "val \<Rightarrow> bool" where
  "is_callback (VClosure _) = True"
| "is_callback (VNativeFunction _) = True"
| "is_callback _ = False"

definition finalizer_callback :: "'b slot list \<Rightarrow> table_id option \<Rightarrow> val option" where
  "finalizer_callback slots metatable =
     (case metatable of
        None \<Rightarrow> None
      | Some i \<Rightarrow>
          (case object_in slots i of
             Some (OTable mt) \<Rightarrow>
               (case tb_get mt (KString GC_NAME) of
                  Some v \<Rightarrow> (if is_callback v then Some v else None)
                | None \<Rightarrow> None)
           | _ \<Rightarrow> None))"

definition finalizer_at :: "'b slot list \<Rightarrow> 32 word \<Rightarrow> finalizer option" where
  "finalizer_at slots n =
     (case get slots (unat n) of
        None \<Rightarrow> None
      | Some s \<Rightarrow>
          (case sl_object s of
             None \<Rightarrow> None
           | Some x \<Rightarrow>
               (case finalizer_state (ObjectId n (sl_generation s)) x of
                  None \<Rightarrow> None
                | Some (target, metatable, armed, finished, profile, order) \<Rightarrow>
                    if sl_marked s \<or> \<not> armed \<or> finished then None
                    else (case finalizer_callback slots metatable of
                            None \<Rightarrow> None
                          | Some callback \<Rightarrow>
                              (case profile of None \<Rightarrow> None | Some p \<Rightarrow> Some (target, callback, p, order))))))"

definition finalizer_rank :: "finalizer \<Rightarrow> nat" where
  "finalizer_rank f = (case f of (target, callback, profile, order) \<Rightarrow> 2 ^ 64 - unat order)"

text \<open>The latest order comes first; the sort is stable.\<close>

definition finalizers :: "'b slot list \<Rightarrow> 32 word list \<Rightarrow> finalizer list" where
  "finalizers slots live_indices =
     sort_key finalizer_rank (concat (map (\<lambda>n. opt_list (finalizer_at slots n)) live_indices))"

definition finalizer_targets :: "finalizer list \<Rightarrow> object_id list" where
  "finalizer_targets fs = map (\<lambda>f. target_id (fst f)) fs"

section \<open>Weak tables\<close>

definition indices_where :: "(val \<Rightarrow> bool) \<Rightarrow> val list \<Rightarrow> nat list" where
  "indices_where p vs = map fst (filter (\<lambda>q. p (snd q)) (enumerate 0 vs))"

text \<open>What a marked weak table loses: indices of its array part and keys of its hash part.\<close>

definition weak_cleanup :: "'b slot list \<Rightarrow> 32 word \<Rightarrow> (table_id \<times> nat list \<times> key list) option" where
  "weak_cleanup slots n =
     (case get slots (unat n) of
        None \<Rightarrow> None
      | Some s \<Rightarrow>
          (case sl_object s of
             Some (OTable t) \<Rightarrow>
               (let mode = table_weak_mode slots t in
                if \<not> sl_marked s \<or> (\<not> wm_keys mode \<and> \<not> wm_values mode) then None
                else
                  let array = (if wm_values mode then indices_where (\<lambda>v. \<not> value_is_marked slots v) (tb_array t) else []);
                      hash = map fst (filter (\<lambda>p. (wm_keys mode \<and> \<not> key_is_marked slots (fst p)) \<or>
                               (wm_values mode \<and> \<not> value_is_marked slots (snd p))) (tb_hash t))
                  in if array \<noteq> [] \<or> hash \<noteq> [] then Some (ObjectId n (sl_generation s), array, hash) else None)
           | _ \<Rightarrow> None))"

definition strip_table :: "nat list \<Rightarrow> key list \<Rightarrow> table \<Rightarrow> table" where
  "strip_table array hash t =
     (let t = t\<lparr>tb_array := fold (\<lambda>n a. a[n := VNil]) array (tb_array t)\<rparr>;
          t = fold (\<lambda>k t. snd (remove_hash_entry k t)) hash t
      in trim_array (length (tb_array t)) t)"

fun apply_cleanup ::
  "platform \<Rightarrow> 'b slot list \<Rightarrow> nat \<Rightarrow> (table_id \<times> nat list \<times> key list) list \<Rightarrow> (nat, heap_error) res \<times> 'b slot list" where
  "apply_cleanup env slots released [] = (Ok released, slots)"
| "apply_cleanup env slots released ((i, array, hash) # rest) =
     (case object_in slots i of
        Some (OTable t) \<Rightarrow>
          (let (r, t') = trim_hash env (strip_table array hash t);
               slots = put_in slots i (OTable t')
           in case r of
                Ok n \<Rightarrow>
                  (case checked_add released n of
                     Some released \<Rightarrow> apply_cleanup env slots released rest
                   | None \<Rightarrow> (Err overflow, slots))
              | Err e \<Rightarrow> (Err (HeMemory e), slots)
              | Panic \<Rightarrow> (Panic, slots))
      | _ \<Rightarrow> (Err (StaleTable i), slots))"

definition weak_cleanups :: "'b slot list \<Rightarrow> 32 word list \<Rightarrow> (table_id \<times> nat list \<times> key list) list" where
  "weak_cleanups slots live_indices = concat (map (\<lambda>n. opt_list (weak_cleanup slots n)) live_indices)"

definition clear_weak_references :: "platform \<Rightarrow> 'b heap \<Rightarrow> (unit, 'b) hres" where
  "clear_weak_references env h =
     (let (r, slots) = apply_cleanup env (hp_slots h) 0 (weak_cleanups (hp_slots h) (hp_live_indices h));
          h = h\<lparr>hp_slots := slots\<rparr>
      in case r of
           Err e \<Rightarrow> (Err e, h)
         | Panic \<Rightarrow> (Panic, h)
         | Ok released \<Rightarrow> if released \<noteq> 0 then release_external released h else (Ok (), h))"

section \<open>Sweeping\<close>

text \<open>Bytes and number of the objects that are not marked.\<close>

fun dead_totals :: "platform \<Rightarrow> 'b slot list \<Rightarrow> nat \<times> nat \<Rightarrow> 32 word list \<Rightarrow> (nat \<times> nat, memory_error) res" where
  "dead_totals env slots totals [] = Ok totals"
| "dead_totals env slots totals (n # rest) =
     (case get slots (unat n) of
        Some s \<Rightarrow>
          (case (sl_marked s, sl_object s) of
             (False, Some x) \<Rightarrow>
               rbind (dynamic_bytes env x) (\<lambda>b.
               rbind (mem_add (fst totals) b) (\<lambda>bytes.
               rbind (ok_or (checked_add (snd totals) 1) SizeOverflow) (\<lambda>dead.
               dead_totals env slots (bytes, dead) rest)))
           | _ \<Rightarrow> dead_totals env slots totals rest)
      | None \<Rightarrow> dead_totals env slots totals rest)"

definition unmark_at :: "'b slot list \<Rightarrow> 32 word \<Rightarrow> 'b slot list" where
  "unmark_at slots n = slots[unat n := (slots ! unat n)\<lparr>sl_marked := False\<rparr>]"

definition free_at :: "'b slot list \<Rightarrow> 32 word \<Rightarrow> 'b slot list" where
  "free_at slots n =
     slots[unat n := (slots ! unat n)\<lparr>sl_object := None, sl_generation := sl_generation (slots ! unat n) + 1\<rparr>]"

definition clear_marks :: "'b heap \<Rightarrow> 'b heap" where
  "clear_marks h = h\<lparr>hp_slots := fold (\<lambda>n slots. unmark_at slots n) (hp_live_indices h) (hp_slots h)\<rparr>"

text \<open>The sweep returns the indices it retains, with which \<open>live_indices\<close> is overwritten in place.\<close>

fun sweep :: "32 word list \<Rightarrow> 32 word list \<Rightarrow> 'b heap \<Rightarrow> (32 word list, 'b) hres" where
  "sweep [] retained h = (Ok retained, h)"
| "sweep (n # rest) retained h =
     (case get (hp_slots h) (unat n) of
        None \<Rightarrow> (Panic, h)
      | Some s \<Rightarrow>
          if sl_marked s then sweep rest (retained @ [n]) (h\<lparr>hp_slots := unmark_at (hp_slots h) n\<rparr>)
          else
            let h = h\<lparr>hp_slots := free_at (hp_slots h) n, hp_free := hp_free h @ [n]\<rparr> in
            (case (plain_sub (hp_live h) 1 :: (nat, heap_error) res) of
               Ok remaining \<Rightarrow> sweep rest retained (h\<lparr>hp_live := remaining\<rparr>)
             | _ \<Rightarrow> (Panic, h)))"

definition finish_finalizer :: "finalizer \<Rightarrow> 'b slot list \<Rightarrow> 'b slot list" where
  "finish_finalizer f slots =
     (case fst f of
        TargetTable i \<Rightarrow>
          (case object_in slots i of
             Some (OTable t) \<Rightarrow> put_in slots i (OTable (t\<lparr>tb_finalizer_done := True\<rparr>))
           | _ \<Rightarrow> slots)
      | TargetUserData i \<Rightarrow>
          (case object_in slots i of
             Some (OUserData u) \<Rightarrow> put_in slots i (OUserData (u\<lparr>ud_finalizer_done := True\<rparr>))
           | _ \<Rightarrow> slots))"

section \<open>Collection\<close>

record collection_stats =
  cs_before :: nat
  cs_retained :: nat
  cs_collected :: nat

definition sweep_phase ::
  "platform \<Rightarrow> nat \<Rightarrow> finalizer list \<Rightarrow> 'b heap \<Rightarrow> (collection_stats \<times> finalizer list, 'b) hres" where
  "sweep_phase env before fs h =
     (case dead_totals env (hp_slots h) (0, 0) (hp_live_indices h) of
        Err e \<Rightarrow> (Err (HeMemory e), clear_marks h)
      | Panic \<Rightarrow> (Panic, h)
      | Ok (bytes, dead) \<Rightarrow>
          (case try_reserve_vec_exact env sz_index (length (hp_free h)) dead of
             Err e \<Rightarrow> (Err e, clear_marks h)
           | Panic \<Rightarrow> (Panic, h)
           | Ok _ \<Rightarrow>
               (case account_release (hp_memory h) bytes of
                  Err e \<Rightarrow> (Err (HeMemory e), clear_marks h)
                | Panic \<Rightarrow> (Panic, h)
                | Ok m \<Rightarrow>
                    (case sweep (hp_live_indices h) [] (h\<lparr>hp_memory := m\<rparr>) of
                       (Ok retained, h) \<Rightarrow>
                         (let h = h\<lparr>hp_live_indices := retained, hp_slots := fold finish_finalizer fs (hp_slots h),
                                    hp_memory := finish_collection (hp_memory h)\<rparr>
                          in case (plain_sub before (hp_live h) :: (nat, heap_error) res) of
                               Ok collected \<Rightarrow>
                                 (Ok (\<lparr>cs_before = before, cs_retained = hp_live h, cs_collected = collected\<rparr>, fs), h)
                             | _ \<Rightarrow> (Panic, h))
                     | (_, h) \<Rightarrow> (Panic, h)))))"

definition collect_with_upvalues_and_finalizers ::
  "platform \<Rightarrow> val list \<Rightarrow> upvalue_id list \<Rightarrow> 'b heap \<Rightarrow> (collection_stats \<times> finalizer list, 'b) hres option" where
  "collect_with_upvalues_and_finalizers env roots upvalues h =
     (case mark_loop (hp_slots h) (hp_live_indices h) (concat (map enqueue_value roots) @ upvalues) of
        None \<Rightarrow> None
      | Some slots \<Rightarrow>
          let fs = finalizers slots (hp_live_indices h) in
          (case mark_loop slots (hp_live_indices h) (finalizer_targets fs) of
             None \<Rightarrow> None
           | Some slots \<Rightarrow>
               Some (case clear_weak_references env (h\<lparr>hp_slots := slots\<rparr>) of
                       (Err e, h) \<Rightarrow> (Err e, h)
                     | (Panic, h) \<Rightarrow> (Panic, h)
                     | (Ok _, h') \<Rightarrow> sweep_phase env (hp_live h) fs h')))"

definition collect_with_upvalues ::
  "platform \<Rightarrow> val list \<Rightarrow> upvalue_id list \<Rightarrow> 'b heap \<Rightarrow> (collection_stats, 'b) hres option" where
  "collect_with_upvalues env roots upvalues h =
     (case collect_with_upvalues_and_finalizers env roots upvalues h of
        None \<Rightarrow> None | Some (r, h) \<Rightarrow> Some (map_ok fst r, h))"

definition heap_collect :: "platform \<Rightarrow> val list \<Rightarrow> 'b heap \<Rightarrow> (collection_stats, 'b) hres option" where
  "heap_collect env roots h = collect_with_upvalues env roots [] h"

end
