(* ===== verification/Runtime_Weak.thy ===== *)
theory Runtime_Weak
  imports Runtime_Table_Room Runtime_Collect
begin

text \<open>
  What clearing a weak table does to it: dead entries read as nil and every other key keeps its
  value, the invariants stay, and the bytes released are exactly those the table gives up.
\<close>

section \<open>Trimming\<close>

lemma checked_hash_bytes_mono:
  "checked_hash_bytes e a c = Ok h \<Longrightarrow> c' \<le> c \<Longrightarrow> \<exists>h'. checked_hash_bytes e a c' = Ok h' \<and> h' \<le> h"
  by (auto simp: checked_hash_bytes_def res_simps usize_simps) (meson le_trans mult_le_mono1)

lemma hash_part_bytes_mono:
  assumes "hash_part_bytes env c d = Ok h" and "c' \<le> c" and "d' \<le> d"
  shows "\<exists>h'. hash_part_bytes env c' d' = Ok h' \<and> h' \<le> h"
proof -
  from assms(1) obtain a b e where p: "checked_hash_bytes (sz_key_value env) (al_key_value env) c = Ok a"
    "b = d * sz_key env" "b \<le> usize_max" "checked_hash_bytes (sz_key_usize env) (al_key_usize env) d = Ok e"
    "b + e \<le> usize_max" "h = a + (b + e)" "h \<le> usize_max"
    by (auto simp: hash_part_bytes_def res_simps)
  from checked_hash_bytes_mono [OF p(1) assms(2)] obtain a' where a': "checked_hash_bytes (sz_key_value env) (al_key_value env) c' = Ok a'"
    "a' \<le> a" by blast
  from checked_hash_bytes_mono [OF p(4) assms(3)] obtain e' where e': "checked_hash_bytes (sz_key_usize env) (al_key_usize env) d' = Ok e'"
    "e' \<le> e" by blast
  define b' where "b' = d' * sz_key env"
  have "b' \<le> b" using assms(3) p(2) by (simp add: b'_def)
  then have le: "a' + (b' + e') \<le> h" "b' + e' \<le> h" "b' \<le> h" using a'(2) e'(2) p(6) by simp_all
  then have "hash_part_bytes env c' d' = Ok (a' + (b' + e'))"
    using a'(1) e'(1) p(7) by (simp add: hash_part_bytes_def res_simps flip: b'_def)
  with le(1) show ?thesis by blast
qed

lemma order_covers:
  assumes "distinct ks" and "K \<subseteq> set ks" and "finite K"
  shows "length (filter (\<lambda>k. k \<in> K) ks) = card K"
proof -
  have "length (filter (\<lambda>k. k \<in> K) ks) = card (set (filter (\<lambda>k. k \<in> K) ks))"
    using assms(1) by (metis distinct_card distinct_filter)
  also have "set (filter (\<lambda>k. k \<in> K) ks) = K" using assms(2) by auto
  finally show ?thesis .
qed

definition trimmed :: "table \<Rightarrow> table" where
  "trimmed t =
     (let h = retain_live (tb_hash t);
          t = t\<lparr>tb_hash := h, tb_hash_tombstones := 0, tb_hash_capacity := length h\<rparr>
      in if tb_hash_order_capacity t \<noteq> 0
         then let order = filter (\<lambda>k. hm_contains k h) (tb_hash_order t)
              in rebuild_hash_order (t\<lparr>tb_hash_order := order, tb_hash_order_capacity := length order\<rparr>)
         else t)"

lemma trimmed_sel [simp]:
  "tb_hash (trimmed t) = retain_live (tb_hash t)" "tb_array (trimmed t) = tb_array t"
  "tb_hash_capacity (trimmed t) = length (retain_live (tb_hash t))"
  "tb_array_capacity (trimmed t) = tb_array_capacity t" "tb_metatable (trimmed t) = tb_metatable t"
  "tb_hash_order_capacity (trimmed t) = (if tb_hash_order_capacity t = 0 then 0
     else length (filter (\<lambda>k. hm_contains k (retain_live (tb_hash t))) (tb_hash_order t)))"
  by (simp_all add: trimmed_def Let_def rebuild_hash_order_def)

lemma trimmed_room:
  assumes "table_room t"
  shows "table_room (trimmed t)" "tb_hash_capacity (trimmed t) \<le> tb_hash_capacity t"
    "tb_hash_order_capacity (trimmed t) \<le> tb_hash_order_capacity t"
proof -
  let ?h = "retain_live (tb_hash t)" let ?K = "fst ` set ?h"
  have r: "distinct (map fst (tb_hash t))" "order_ok t" "fits (keys t) t" using assms by (simp_all add: table_room_def)
  note d = distinct_retain_live [OF r(1)]
  have sub: "?K \<subseteq> keys t" using keys_retain by (simp add: keys_def)
  have card: "card ?K = length ?h" using card_keys [of "t\<lparr>tb_hash := ?h\<rparr>"] d by (simp add: keys_def)
  have fits: "card ?K \<le> tb_hash_capacity t" "tb_hash_order_capacity t \<noteq> 0 \<Longrightarrow> card ?K \<le> tb_hash_order_capacity t"
    "tb_hash_order_capacity t \<noteq> 0 \<Longrightarrow> ?K \<subseteq> set (tb_hash_order t)"
    using fits_subset [OF r(3) finite_keys sub] by (simp_all add: fits_def)
  have order: "length (filter (\<lambda>k. hm_contains k ?h) (tb_hash_order t)) = card ?K" if "tb_hash_order_capacity t \<noteq> 0"
    using order_covers [of "tb_hash_order t" ?K] r(2) fits(3) [OF that] by (simp add: order_ok_def hm_contains_def)
  show "tb_hash_capacity (trimmed t) \<le> tb_hash_capacity t" using fits(1) card by simp
  show "tb_hash_order_capacity (trimmed t) \<le> tb_hash_order_capacity t" using fits(2) order by simp
  show "table_room (trimmed t)"
  proof (cases "tb_hash_order_capacity t = 0")
    case True
    then show ?thesis using d r(2) card by (simp add: table_room_def order_ok_def fits_def keys_def trimmed_def Let_def)
  next
    case False
    let ?o = "filter (\<lambda>k. hm_contains k ?h) (tb_hash_order t)"
    let ?t = "t\<lparr>tb_hash := ?h, tb_hash_tombstones := 0, tb_hash_capacity := length ?h, tb_hash_order := ?o,
      tb_hash_order_capacity := length ?o\<rparr>"
    have t: "trimmed t = rebuild_hash_order ?t" using False by (simp add: trimmed_def Let_def)
    have "order_ok (rebuild_hash_order ?t)" by (rule order_ok_rebuild) (use r(2) in \<open>auto simp: order_ok_def\<close>)
    then show ?thesis
      unfolding t using d card order [OF False] fits(3) [OF False]
      by (auto simp: table_room_def fits_def keys_def hm_contains_def)
  qed
qed

lemma trim_hash_exact:
  assumes room: "table_room t" and b: "table_bytes env t = Ok b"
  shows "\<exists>n b'. trim_hash env t = (Ok n, trimmed t) \<and> table_bytes env (trimmed t) = Ok b' \<and> b' + n = b"
proof -
  from b obtain a h where p: "checked_vector_bytes (sz_value env) (tb_array_capacity t) = Ok a"
    "hash_part_bytes env (tb_hash_capacity t) (tb_hash_order_capacity t) = Ok h" "b = a + h" "a + h \<le> usize_max"
    by (auto simp: table_bytes_def res_simps)
  from hash_part_bytes_mono [OF p(2) trimmed_room(2,3) [OF room]] obtain h' where
    h': "hash_part_bytes env (tb_hash_capacity (trimmed t)) (tb_hash_order_capacity (trimmed t)) = Ok h'" "h' \<le> h" by blast
  have "trim_hash env t = (Ok (h - h'), trimmed t)"
    using p(2) h'(1) by (simp add: trim_hash_def trimmed_def Let_def saturating_sub_def split: if_splits)
  moreover have "table_bytes env (trimmed t) = Ok (a + h')" using p h' by (simp add: table_bytes_def res_simps)
  ultimately show ?thesis using p h' by (intro exI [of _ "h - h'"] exI [of _ "a + h'"]) simp
qed

lemma lookup_trimmed: "distinct (map fst (tb_hash t)) \<Longrightarrow> lookup (trimmed t) = lookup t"
  by (rule ext) (simp add: lookup_parts hash_lookup_retain_live split: option.split)

lemma flags_trimmed: "table_flags t \<Longrightarrow> table_flags (trimmed t)"
  by (erule flags_step) (auto simp: retain_live_def, auto simp: trimmed_def Let_def rebuild_hash_order_def)

section \<open>Stripping\<close>

lemma fold_clear_nth:
  "j < length xs \<Longrightarrow> fold (\<lambda>n a. a[n := VNil]) ns xs ! j = (if j \<in> set ns then VNil else xs ! j)"
  by (induction ns arbitrary: xs) (auto simp: nth_update)

lemma fold_clear_length [simp]: "length (fold (\<lambda>n a. a[n := VNil]) ns xs) = length xs"
  by (induction ns arbitrary: xs) simp_all

lemma fold_clear_set: "set (fold (\<lambda>n a. a[n := VNil]) ns xs) \<subseteq> insert VNil (set xs)"
proof (induction ns arbitrary: xs)
  case (Cons n ns)
  then show ?case using set_update_subset_insert [of xs n VNil] by fastforce
qed auto

definition remove_all :: "key list \<Rightarrow> table \<Rightarrow> table" where
  "remove_all ks t = fold (\<lambda>k t. snd (remove_hash_entry k t)) ks t"

lemma remove_all_Cons: "remove_all (k # ks) t = remove_all ks (snd (remove_hash_entry k t))"
  by (simp add: remove_all_def)

lemma remove_all_same: "Q t \<Longrightarrow> (\<And>k s. Q s \<Longrightarrow> Q (snd (remove_hash_entry k s))) \<Longrightarrow> Q (remove_all ks t)"
  by (induction ks arbitrary: t) (simp_all add: remove_all_def)

lemma remove_all_Nil [simp]: "remove_all [] t = t"
  by (simp add: remove_all_def)

lemma remove_all_props:
  "tb_array (remove_all ks t) = tb_array t"
  "hash_lookup (tb_hash (remove_all ks t)) k = (if k \<in> set ks then VNil else hash_lookup (tb_hash t) k)"
  by (induction ks arbitrary: t) (auto simp: remove_all_Cons)

lemma trim_array_same:
  "Q t \<Longrightarrow> (\<And>k s. Q s \<Longrightarrow> tb_array s \<noteq> [] \<Longrightarrow> Q ((snd (remove_hash_entry k s))\<lparr>tb_array := butlast (tb_array s)\<rparr>)) \<Longrightarrow>
     Q (trim_array n t)"
  by (induction n t rule: trim_array.induct) simp_all

text \<open>Popping trailing nils with their shadowed hash entries changes no value.\<close>

lemma lookup_pop:
  assumes "tb_array t \<noteq> []" and "last (tb_array t) = VNil"
  shows "lookup ((snd (remove_hash_entry (KInteger (int (length (tb_array t)))) t))\<lparr>tb_array := butlast (tb_array t)\<rparr>) = lookup t"
proof -
  have at: "tb_array t ! (length (tb_array t) - 1) = VNil" using assms by (simp add: last_conv_nth)
  have len: "0 < length (tb_array t)" using assms(1) by simp
  then have gone: "\<not> length (tb_array t) \<le> length (tb_array t) - Suc 0" by linarith
  show ?thesis
  proof (rule lookup_eqI)
    fix n :: nat
    assume n: "0 < n"
    consider "n < length (tb_array t)" | "n = length (tb_array t)" | "length (tb_array t) < n" by linarith
    then show "lookup ((snd (remove_hash_entry (KInteger (int (length (tb_array t)))) t))\<lparr>tb_array := butlast (tb_array t)\<rparr>)
        (KInteger (int n)) = lookup t (KInteger (int n))"
      using n len at gone by cases (auto simp: lookup_index nth_butlast)
  next
    fix k
    assume "key_array_index k = None"
    moreover from this have "k \<noteq> KInteger (int (length (tb_array t)))" using len by auto
    ultimately show "lookup ((snd (remove_hash_entry (KInteger (int (length (tb_array t)))) t))\<lparr>tb_array := butlast (tb_array t)\<rparr>) k = lookup t k"
      by (simp add: lookup_non_index)
  qed
qed

lemma lookup_trim_array: "lookup (trim_array n t) = lookup t"
  by (induction n t rule: trim_array.induct) (simp_all add: lookup_pop)

definition stripped :: "nat list \<Rightarrow> key list \<Rightarrow> table \<Rightarrow> table" where
  "stripped array hash t = trimmed (strip_table array hash t)"

lemma strip_table_alt:
  "strip_table array hash t =
     (let s = remove_all hash (t\<lparr>tb_array := fold (\<lambda>n a. a[n := VNil]) array (tb_array t)\<rparr>)
      in trim_array (length (tb_array s)) s)"
  by (simp add: strip_table_def remove_all_def Let_def)

lemma strip_table_same:
  assumes "Q (t\<lparr>tb_array := fold (\<lambda>n a. a[n := VNil]) array (tb_array t)\<rparr>)"
    and "\<And>k s. Q s \<Longrightarrow> Q (snd (remove_hash_entry k s))"
    and "\<And>s. Q s \<Longrightarrow> tb_array s \<noteq> [] \<Longrightarrow> Q (s\<lparr>tb_array := butlast (tb_array s)\<rparr>)"
  shows "Q (strip_table array hash t)"
proof -
  let ?s = "remove_all hash (t\<lparr>tb_array := fold (\<lambda>n a. a[n := VNil]) array (tb_array t)\<rparr>)"
  have pop: "Q ((snd (remove_hash_entry k s))\<lparr>tb_array := butlast (tb_array s)\<rparr>)" if "Q s" "tb_array s \<noteq> []" for k s
    using assms(3) [OF assms(2) [OF that(1)], of k] that(2) by simp
  have "Q ?s" by (rule remove_all_same [OF assms(1,2)])
  then show ?thesis unfolding strip_table_alt Let_def by (rule trim_array_same) (rule pop)
qed

lemma strip_room: "table_room t \<Longrightarrow> table_room (strip_table array hash t)"
  by (rule strip_table_same [of table_room]) (auto intro: room_remove room_view [OF hash_view_updates(1)])

lemma strip_caps: "caps (strip_table array hash t) = caps t"
  by (rule strip_table_same) simp_all

lemma strip_flags:
  assumes "table_flags t"
  shows "table_flags (strip_table array hash t)"
proof (rule strip_table_same [of table_flags])
  show "table_flags (t\<lparr>tb_array := fold (\<lambda>n a. a[n := VNil]) array (tb_array t)\<rparr>)"
    by (rule flags_step [OF assms]) (use fold_clear_set in auto)
  show "table_flags (s\<lparr>tb_array := butlast (tb_array s)\<rparr>)" if "table_flags s" for s
    by (rule flags_step [OF that]) (auto dest: in_set_butlastD)
qed (rule flags_remove)

lemma strip_lookup:
  "lookup (strip_table array hash t) k =
     (case key_array_index k of
        Some i \<Rightarrow> (if i \<le> length (tb_array t) then (if i - 1 \<in> set array then VNil else tb_array t ! (i - 1))
                  else if k \<in> set hash then VNil else hash_lookup (tb_hash t) k)
      | None \<Rightarrow> if k \<in> set hash then VNil else hash_lookup (tb_hash t) k)"
  unfolding strip_table_alt Let_def lookup_trim_array
  by (auto simp: lookup_parts remove_all_props fold_clear_nth key_array_index_Some split: option.split)

end
