(* ===== verification/Runtime_Heap_Sound.thy ===== *)
theory Runtime_Heap_Sound
  imports Runtime_Weak
begin

text \<open>
  The invariant of the heap of \<open>blu-runtime/src/heap.rs\<close>: the indices in \<open>live_indices\<close> are those
  of the occupied slots and the indices in \<open>free\<close> those of the empty ones, nothing is marked between
  collections, every object can be sized, and the account is the sum of what the slots, the
  objects, the strings and the charges made from outside take.
\<close>

section \<open>Objects\<close>

definition table_ok :: "platform \<Rightarrow> table \<Rightarrow> bool" where
  "table_ok env t \<longleftrightarrow> is_ok (table_bytes env t) \<and> table_flags t \<and> table_room t"

definition object_ok :: "platform \<Rightarrow> 'b obj \<Rightarrow> bool" where
  "object_ok env x \<longleftrightarrow> (case x of OTable t \<Rightarrow> table_ok env t | _ \<Rightarrow> is_ok (dynamic_bytes env x))"

lemma object_ok_simps [simp]:
  "object_ok env (OTable t) = table_ok env t"
  "object_ok env (OClosure c) = is_ok (checked_vector_bytes (sz_upvalue env) (cl_upvalue_capacity c))"
  "object_ok env (ONativeClosure nc) = is_ok (checked_vector_bytes (sz_upvalue env) (nc_upvalue_capacity nc))"
  "object_ok env (OUpvalue v)"
  "object_ok env (OUserData u) = is_ok (checked_vector_bytes (sz_value env) (ud_user_value_capacity u))"
  by (simp_all add: object_ok_def)

lemma object_ok_bytes: "object_ok env x \<Longrightarrow> \<exists>b. dynamic_bytes env x = Ok b"
  by (cases x) (auto simp: object_ok_def table_ok_def is_ok_iff)

definition slot_held :: "platform \<Rightarrow> 'b slot \<Rightarrow> nat" where
  "slot_held env s =
     (case sl_object s of None \<Rightarrow> 0 | Some x \<Rightarrow> (case dynamic_bytes env x of Ok b \<Rightarrow> b | _ \<Rightarrow> 0))"

definition total_held :: "platform \<Rightarrow> 'b slot list \<Rightarrow> nat" where
  "total_held env slots = sum_list (map (slot_held env) slots)"

definition objects_ok :: "platform \<Rightarrow> 'b slot list \<Rightarrow> bool" where
  "objects_ok env slots \<longleftrightarrow> (\<forall>s\<in>set slots. \<forall>x. sl_object s = Some x \<longrightarrow> object_ok env x)"

text \<open>One slot replaced.\<close>

lemma sum_list_replaced:
  fixes f :: "'a \<Rightarrow> nat"
  shows "n < length xs \<Longrightarrow> sum_list (map f (xs[n := y])) + f (xs ! n) = sum_list (map f xs) + f y"
proof (induction xs arbitrary: n)
  case (Cons x xs)
  show ?case
  proof (cases n)
    case (Suc m)
    with Cons.prems Cons.IH [of m] show ?thesis by simp
  qed simp
qed simp

lemma total_replaced:
  "n < length slots \<Longrightarrow>
     total_held env (slots[n := s]) + slot_held env (slots ! n) = total_held env slots + slot_held env s"
  unfolding total_held_def by (rule sum_list_replaced)

lemma objects_replaced:
  "objects_ok env slots \<Longrightarrow> (\<And>x. sl_object s = Some x \<Longrightarrow> object_ok env x) \<Longrightarrow> objects_ok env (slots[n := s])"
  using set_update_subset_insert [of slots n s] by (auto simp: objects_ok_def)

lemma objects_ok_at: "objects_ok env slots \<Longrightarrow> object_in slots i = Some x \<Longrightarrow> object_ok env x"
  by (auto simp: objects_ok_def object_in_def slot_of_Some split: option.splits)

lemma object_in_nth:
  "object_in slots i = Some x \<Longrightarrow> unat (id_index i) < length slots \<and> sl_object (slots ! unat (id_index i)) = Some x \<and>
     sl_generation (slots ! unat (id_index i)) = id_generation i"
  by (auto simp: object_in_def slot_of_Some split: option.splits)

lemma slot_held_Some: "sl_object s = Some x \<Longrightarrow> dynamic_bytes env x = Ok b \<Longrightarrow> slot_held env s = b"
  by (simp add: slot_held_def)

lemma total_held_ge:
  assumes "object_in slots i = Some x" and "dynamic_bytes env x = Ok b"
  shows "b \<le> total_held env slots"
proof -
  note at = object_in_nth [OF assms(1)]
  have "slot_held env (slots ! unat (id_index i)) \<in> set (map (slot_held env) slots)" using at by simp
  from member_le_sum_list [OF this] show ?thesis using at assms(2) by (simp add: total_held_def slot_held_def)
qed

text \<open>Writing an object through its handle.\<close>

definition same_shape :: "'b slot list \<Rightarrow> 'b slot list \<Rightarrow> bool" where
  "same_shape a b \<longleftrightarrow> map (\<lambda>s. (sl_generation s, sl_marked s, sl_object s = None)) a =
     map (\<lambda>s. (sl_generation s, sl_marked s, sl_object s = None)) b"

lemma same_shape_refl [simp]: "same_shape a a"
  by (simp add: same_shape_def)

lemma same_shape_trans: "same_shape a b \<Longrightarrow> same_shape b c \<Longrightarrow> same_shape a c"
  by (simp add: same_shape_def)

lemma same_shape_nth:
  assumes "same_shape a b"
  shows "length a = length b" "n < length a \<Longrightarrow> sl_generation (a ! n) = sl_generation (b ! n)"
    "n < length a \<Longrightarrow> sl_marked (a ! n) = sl_marked (b ! n)" "n < length a \<Longrightarrow> sl_object (a ! n) = None \<longleftrightarrow> sl_object (b ! n) = None"
proof -
  show l: "length a = length b" using assms unfolding same_shape_def by (rule map_eq_imp_length_eq)
  show "n < length a \<Longrightarrow> sl_generation (a ! n) = sl_generation (b ! n)"
    "n < length a \<Longrightarrow> sl_marked (a ! n) = sl_marked (b ! n)" "n < length a \<Longrightarrow> sl_object (a ! n) = None \<longleftrightarrow> sl_object (b ! n) = None"
    using assms l by (simp_all add: same_shape_def list_eq_iff_nth_eq)
qed

lemma put_shape: "object_in slots i = Some x \<Longrightarrow> same_shape slots (put_in slots i y)"
  by (drule object_in_nth) (auto simp: same_shape_def put_in_def list_eq_iff_nth_eq nth_update)

lemma object_in_put:
  assumes "object_in slots i = Some x"
  shows "object_in (put_in slots i y) j = (if j = i then Some y else object_in slots j)"
proof -
  note at = object_in_nth [OF assms]
  show ?thesis
  proof (cases "id_index j = id_index i")
    case True
    then have "j = i \<longleftrightarrow> id_generation j = id_generation i" by (cases i; cases j) simp
    with at True show ?thesis by (auto simp: object_in_def slot_of_def get_def put_in_def)
  next
    case False
    then have "unat (id_index j) \<noteq> unat (id_index i)" "j \<noteq> i" using unsigned_word_eqI by auto
    then show ?thesis by (simp add: object_in_def slot_of_def get_def put_in_def)
  qed
qed

lemma put_objects_ok: "objects_ok env slots \<Longrightarrow> object_ok env y \<Longrightarrow> objects_ok env (put_in slots i y)"
  unfolding put_in_def by (rule objects_replaced) simp_all

lemma put_total:
  assumes "object_in slots i = Some x" and "dynamic_bytes env x = Ok b" and "dynamic_bytes env y = Ok b'"
  shows "total_held env (put_in slots i y) + b = total_held env slots + b'"
proof -
  note at = object_in_nth [OF assms(1)]
  have "slot_held env (slots ! unat (id_index i)) = b" using at assms(2) by (simp add: slot_held_def)
  moreover have "slot_held env ((slots ! unat (id_index i))\<lparr>sl_object := Some y\<rparr>) = b'"
    using assms(3) by (simp add: slot_held_def)
  ultimately show ?thesis
    unfolding put_in_def using total_replaced [of "unat (id_index i)" slots env "(slots ! unat (id_index i))\<lparr>sl_object := Some y\<rparr>"] at
    by simp
qed

section \<open>The heap\<close>

definition occupied :: "'b slot list \<Rightarrow> nat set" where
  "occupied slots = {n. n < length slots \<and> sl_object (slots ! n) \<noteq> None}"

definition vacant :: "'b slot list \<Rightarrow> nat set" where
  "vacant slots = {n. n < length slots \<and> sl_object (slots ! n) = None}"

definition indices_sound :: "'b heap \<Rightarrow> bool" where
  "indices_sound h \<longleftrightarrow>
     distinct (hp_live_indices h) \<and> unat ` set (hp_live_indices h) = occupied (hp_slots h) \<and>
     distinct (hp_free h) \<and> unat ` set (hp_free h) = vacant (hp_slots h) \<and>
     hp_live h = length (hp_live_indices h) \<and> length (hp_slots h) \<le> 2 ^ 32"

definition arena_sound :: "'b heap \<Rightarrow> bool" where
  "arena_sound h \<longleftrightarrow> indices_sound h \<and> clean (hp_slots h)"

text \<open>\<open>ext\<close> is what was charged from outside by \<open>charge_external\<close>.\<close>

definition heap_bytes :: "platform \<Rightarrow> nat \<Rightarrow> 'b heap \<Rightarrow> nat" where
  "heap_bytes env ext h =
     length (hp_slots h) * sz_slot env + total_held env (hp_slots h) + hp_string_bytes h + ext"

definition charged_heap :: "platform \<Rightarrow> nat \<Rightarrow> 'b heap \<Rightarrow> bool" where
  "charged_heap env ext h \<longleftrightarrow> objects_ok env (hp_slots h) \<and>
     ma_current_bytes (hp_memory h) = heap_bytes env ext h \<and> ma_current_bytes (hp_memory h) \<le> usize_max"

definition heap_sound :: "platform \<Rightarrow> nat \<Rightarrow> 'b heap \<Rightarrow> bool" where
  "heap_sound env ext h \<longleftrightarrow> arena_sound h \<and> charged_heap env ext h"

lemma shape_occupied: "same_shape a b \<Longrightarrow> occupied a = occupied b" "same_shape a b \<Longrightarrow> vacant a = vacant b"
  unfolding occupied_def vacant_def using same_shape_nth(1,4) [of a b] by metis+

lemma shape_clean: "same_shape a b \<Longrightarrow> clean a = clean b"
  using same_shape_nth [of a b] by (fastforce simp: clean_def in_set_conv_nth)

lemma indices_shape: "same_shape (hp_slots h) slots \<Longrightarrow> indices_sound (h\<lparr>hp_slots := slots, hp_memory := m\<rparr>) = indices_sound h"
  using shape_occupied [of "hp_slots h" slots] same_shape_nth(1) [of "hp_slots h" slots]
  by (simp add: indices_sound_def)

lemma unat_eq: "unat m = unat n \<longleftrightarrow> m = (n :: 32 word)"
  using unsigned_word_eqI by blast

lemma word_index: "unat n \<in> unat ` set ns \<longleftrightarrow> n \<in> set (ns :: 32 word list)"
  using unsigned_word_eqI by blast

lemma indices_tables:
  assumes "indices_sound h" and "object_in (hp_slots h) i = Some x"
  shows "id_index i \<in> set (hp_live_indices h)"
proof -
  have "unat (id_index i) \<in> occupied (hp_slots h)" using object_in_nth [OF assms(2)] by (simp add: occupied_def)
  then have "unat (id_index i) \<in> unat ` set (hp_live_indices h)" using assms(1) by (simp add: indices_sound_def)
  then show ?thesis unfolding word_index .
qed

lemma arena_tables: "indices_sound h \<Longrightarrow> tables_indexed (hp_slots h) (hp_live_indices h)"
  unfolding tables_indexed_def using indices_tables by blast

lemma objects_flags: "objects_ok env slots \<Longrightarrow> all_flags slots"
  unfolding all_flags_def
proof (intro allI impI)
  fix i x
  assume "objects_ok env slots" "object_in slots i = Some x"
  from objects_ok_at [OF this] show "flags_ok x" by (cases x) (simp_all add: table_ok_def)
qed

end
