(* ===== verification/Runtime_Store.thy ===== *)
theory Runtime_Store
  imports Runtime_Heap_Sound
begin

text \<open>
  The heap of \<open>blu-runtime/src/heap.rs\<close> as a store of objects behind handles: writing through a
  handle, and allocation. The interface a client sees is the locale \<open>handle_store\<close>; the heap
  provides it.
\<close>

section \<open>The interface\<close>

text \<open>
  \<open>fits h y m\<close> says that an object \<open>y\<close> may be written in place of what is there when the
  accounting has become \<open>m\<close>.
\<close>

locale handle_store =
  fixes look :: "'h \<Rightarrow> 'i \<Rightarrow> 'x option"
    and store :: "'i \<Rightarrow> 'x \<Rightarrow> 'm \<Rightarrow> 'h \<Rightarrow> 'h"
    and sound :: "'h \<Rightarrow> bool"
    and fits :: "'h \<Rightarrow> 'x \<Rightarrow> 'x \<Rightarrow> 'm \<Rightarrow> bool"
  assumes look_store: "look h i = Some x \<Longrightarrow> look (store i y m h) j = (if j = i then Some y else look h j)"
    and store_sound: "sound h \<Longrightarrow> look h i = Some x \<Longrightarrow> fits h x y m \<Longrightarrow> sound (store i y m h)"
begin

lemma store_other: "look h i = Some x \<Longrightarrow> j \<noteq> i \<Longrightarrow> look (store i y m h) j = look h j"
  by (simp add: look_store)

lemma store_same: "look h i = Some x \<Longrightarrow> look (store i y m h) i = Some y"
  by (simp add: look_store)

lemma store_stale: "look h i = Some x \<Longrightarrow> look (store i y m h) j = None \<longleftrightarrow> look h j = None"
  by (auto simp: look_store)

text \<open>Two writes: the later one at the same handle counts, and others do not disturb each other.\<close>

lemma store_twice:
  assumes "look h i = Some x" and "look h j = Some x'"
  shows "look (store j z m' (store i y m h)) k = (if k = j then Some z else if k = i then Some y else look h k)"
proof -
  obtain w where "look (store i y m h) j = Some w" using look_store [OF assms(1), of y m j] assms(2) by (cases "j = i") auto
  then show ?thesis using assms(1) by (simp add: look_store)
qed

lemma store_sound_twice:
  assumes "sound h" and "look h i = Some x" and "fits h x y m" and "look (store i y m h) j = Some x'"
    and "fits (store i y m h) x' z m'"
  shows "sound (store j z m' (store i y m h))"
  by (rule store_sound [OF store_sound [OF assms(1-3)] assms(4,5)])

end

section \<open>The heap provides it\<close>

definition heap_store :: "object_id \<Rightarrow> 'b obj \<Rightarrow> memory_account \<Rightarrow> 'b heap \<Rightarrow> 'b heap" where
  "heap_store i y m h = (put_object i y h)\<lparr>hp_memory := m\<rparr>"

definition heap_fits :: "platform \<Rightarrow> 'b heap \<Rightarrow> 'b obj \<Rightarrow> 'b obj \<Rightarrow> memory_account \<Rightarrow> bool" where
  "heap_fits env h x y m \<longleftrightarrow> object_ok env y \<and> ma_current_bytes m \<le> usize_max \<and>
     (\<exists>b b'. dynamic_bytes env x = Ok b \<and> dynamic_bytes env y = Ok b' \<and>
        ma_current_bytes m + b = ma_current_bytes (hp_memory h) + b')"

lemma heap_look_store:
  "heap_object h i = Some x \<Longrightarrow> heap_object (heap_store i y m h) j = (if j = i then Some y else heap_object h j)"
  by (simp add: heap_object_def heap_store_def put_object_def object_in_put)

lemma heap_store_sound:
  assumes "heap_sound env ext h" and "heap_object h i = Some x" and "heap_fits env h x y m"
  shows "heap_sound env ext (heap_store i y m h)"
proof -
  have x: "object_in (hp_slots h) i = Some x" using assms(2) by (simp add: heap_object_def)
  let ?s = "put_in (hp_slots h) i y"
  have shape: "same_shape (hp_slots h) ?s" by (rule put_shape [OF x])
  obtain b b' where b: "dynamic_bytes env x = Ok b" "dynamic_bytes env y = Ok b'"
    "ma_current_bytes m + b = ma_current_bytes (hp_memory h) + b'" "object_ok env y" "ma_current_bytes m \<le> usize_max"
    using assms(3) by (auto simp: heap_fits_def)
  have "objects_ok env ?s" using put_objects_ok [OF _ b(4)] assms(1) by (simp add: heap_sound_def charged_heap_def)
  moreover have "length ?s = length (hp_slots h)" using same_shape_nth(1) [OF shape] by simp
  ultimately have "charged_heap env ext (heap_store i y m h)"
    using assms(1) b(3,5) put_total [OF x b(1,2)]
    by (simp add: heap_sound_def charged_heap_def heap_store_def put_object_def heap_bytes_def)
  moreover have "indices_sound (heap_store i y m h)" "clean (hp_slots (heap_store i y m h))"
    using assms(1) indices_shape [OF shape, of m] shape_clean [OF shape]
    by (simp_all add: heap_store_def put_object_def heap_sound_def arena_sound_def)
  ultimately show ?thesis by (simp add: heap_sound_def arena_sound_def)
qed

interpretation hs: handle_store heap_object heap_store "heap_sound env ext" "heap_fits env"
  by unfold_locales (simp_all add: heap_look_store heap_store_sound)

text \<open>A write that leaves the account alone.\<close>

lemma put_is_store: "put_object i y h = heap_store i y (hp_memory h) h"
  by (simp add: heap_store_def put_object_def)

lemma put_sound:
  assumes "heap_sound env ext h" and "heap_object h i = Some x" and "object_ok env y"
    and "dynamic_bytes env y = dynamic_bytes env x"
  shows "heap_sound env ext (put_object i y h)"
proof -
  obtain b where "dynamic_bytes env y = Ok b" using object_ok_bytes [OF assms(3)] by blast
  then have "heap_fits env h x y (hp_memory h)"
    using assms by (simp add: heap_fits_def heap_sound_def charged_heap_def)
  then show ?thesis unfolding put_is_store by (rule hs.store_sound [OF assms(1,2)])
qed

section \<open>Allocation\<close>

lemma sum_list_append: "total_held env (slots @ [s]) = total_held env slots + slot_held env s"
  by (simp add: total_held_def)

lemma index_less: "length slots < 2 ^ 32 \<Longrightarrow> unat (word_of_nat (length slots) :: 32 word) = length slots"
  by (simp add: unsigned_of_nat take_bit_nat_eq_self)

text \<open>The slot that an allocation fills: a fresh one, or the last of the free ones.\<close>

lemma slot_of_append: "slot_of slots i = Some s \<Longrightarrow> slot_of (slots @ [s']) i = Some s"
  by (auto simp: slot_of_Some nth_append)

lemma allocate_new:
  assumes sound: "indices_sound h" "clean (hp_slots h)" and free: "hp_free h = []" and room: "length (hp_slots h) < 2 ^ 32"
    and a: "allocate_at x h = (i, h')"
  shows "indices_sound h' \<and> clean (hp_slots h') \<and> i = ObjectId (word_of_nat (length (hp_slots h))) 0 \<and>
    hp_slots h' = hp_slots h @ [\<lparr>sl_generation = 0, sl_marked = False, sl_object = Some x\<rparr>] \<and>
    hp_memory h' = hp_memory h \<and> hp_string_bytes h' = hp_string_bytes h"
proof -
  let ?n = "length (hp_slots h)"
  note u = index_less [OF room]
  have occ: "unat ` set (hp_live_indices h) = occupied (hp_slots h)" and d: "distinct (hp_live_indices h)"
    and vac: "vacant (hp_slots h) = {}"
    using sound(1) free by (auto simp: indices_sound_def)
  have new: "word_of_nat ?n \<notin> set (hp_live_indices h)"
  proof
    assume "word_of_nat ?n \<in> set (hp_live_indices h)"
    then have "?n \<in> unat ` set (hp_live_indices h)" using u by (metis imageI)
    then show False unfolding occ by (simp add: occupied_def)
  qed
  have s: "occupied (hp_slots h @ [\<lparr>sl_generation = 0, sl_marked = False, sl_object = Some x\<rparr>]) = insert ?n (occupied (hp_slots h))"
    "vacant (hp_slots h @ [\<lparr>sl_generation = 0, sl_marked = False, sl_object = Some x\<rparr>]) = {}"
    using vac by (auto simp: occupied_def vacant_def nth_append less_Suc_eq)
  have h': "h' = h\<lparr>hp_slots := hp_slots h @ [\<lparr>sl_generation = 0, sl_marked = False, sl_object = Some x\<rparr>],
      hp_live_indices := hp_live_indices h @ [word_of_nat ?n], hp_live := hp_live h + 1\<rparr>"
    and i: "i = ObjectId (word_of_nat ?n) 0"
    using a free by (simp_all add: allocate_at_def Let_def)
  have "indices_sound h'"
    using sound(1) free room new d occ u s unfolding h' indices_sound_def by simp
  moreover have "clean (hp_slots h')" using sound(2) unfolding h' by (simp add: clean_def)
  ultimately show ?thesis by (simp add: h' i)
qed

lemma allocate_free:
  assumes sound: "indices_sound h" "clean (hp_slots h)" and free: "hp_free h \<noteq> []"
    and a: "allocate_at x h = (i, h')"
  defines "n \<equiv> unat (last (hp_free h))"
  shows "indices_sound h' \<and> clean (hp_slots h') \<and> n < length (hp_slots h) \<and> sl_object (hp_slots h ! n) = None \<and>
    i = ObjectId (last (hp_free h)) (sl_generation (hp_slots h ! n)) \<and>
    hp_slots h' = (hp_slots h)[n := (hp_slots h ! n)\<lparr>sl_object := Some x\<rparr>] \<and>
    hp_memory h' = hp_memory h \<and> hp_string_bytes h' = hp_string_bytes h"
proof -
  have occ: "unat ` set (hp_live_indices h) = occupied (hp_slots h)" and d: "distinct (hp_live_indices h)"
    and vac: "unat ` set (hp_free h) = vacant (hp_slots h)" and df: "distinct (hp_free h)"
    using sound(1) by (simp_all add: indices_sound_def)
  have "last (hp_free h) \<in> set (hp_free h)" using free by simp
  then have "n \<in> vacant (hp_slots h)" unfolding n_def vac [symmetric] by (rule imageI)
  then have n: "n < length (hp_slots h)" "sl_object (hp_slots h ! n) = None" by (simp_all add: vacant_def)
  let ?s = "(hp_slots h)[n := (hp_slots h ! n)\<lparr>sl_object := Some x\<rparr>]"
  have split: "hp_free h = butlast (hp_free h) @ [last (hp_free h)]" using free by simp
  have s: "occupied ?s = insert n (occupied (hp_slots h))" "vacant ?s = vacant (hp_slots h) - {n}"
    using n by (auto simp: occupied_def vacant_def nth_update split: if_splits)
  have new: "last (hp_free h) \<notin> set (hp_live_indices h)"
  proof
    assume "last (hp_free h) \<in> set (hp_live_indices h)"
    then have "n \<in> occupied (hp_slots h)" unfolding n_def occ [symmetric] by (rule imageI)
    then show False using n by (simp add: occupied_def)
  qed
  have rest: "unat ` set (butlast (hp_free h)) = vacant (hp_slots h) - {n}"
  proof -
    have "distinct (butlast (hp_free h) @ [last (hp_free h)])" "set (hp_free h) = set (butlast (hp_free h) @ [last (hp_free h)])"
      using df split by simp_all
    then have "last (hp_free h) \<notin> set (butlast (hp_free h))" "set (hp_free h) = insert (last (hp_free h)) (set (butlast (hp_free h)))"
      by simp_all
    then have "set (butlast (hp_free h)) = set (hp_free h) - {last (hp_free h)}" by auto
    moreover have "inj_on unat (set (hp_free h))" by (rule inj_onI) (simp add: unat_eq)
    ultimately have "unat ` set (butlast (hp_free h)) = unat ` set (hp_free h) - unat ` {last (hp_free h)}"
      using \<open>last (hp_free h) \<in> set (hp_free h)\<close> by (simp add: inj_on_image_set_diff)
    then show ?thesis by (simp add: vac n_def)
  qed
  have cl: "clean ?s" using sound(2) n set_update_subset_insert [of "hp_slots h" n] by (fastforce simp: clean_def)
  have h': "h' = h\<lparr>hp_free := butlast (hp_free h), hp_slots := ?s,
      hp_live_indices := hp_live_indices h @ [last (hp_free h)], hp_live := hp_live h + 1\<rparr>"
    and i: "i = ObjectId (last (hp_free h)) (sl_generation (hp_slots h ! n))"
    using a free by (simp_all add: allocate_at_def Let_def n_def)
  have "unat ` set (hp_live_indices h @ [last (hp_free h)]) = insert n (occupied (hp_slots h))" by (simp add: occ n_def)
  moreover have "length (hp_slots h) \<le> 2 ^ 32" "hp_live h = length (hp_live_indices h)"
    using sound(1) by (simp_all add: indices_sound_def)
  moreover have "distinct (butlast (hp_free h))" using df by (rule distinct_butlast)
  ultimately have "indices_sound h'" unfolding h' indices_sound_def using s rest new d by simp
  with cl n show ?thesis by (simp add: h' i)
qed

lemma object_in_append:
  assumes "length slots < 2 ^ 32" and "i = ObjectId (word_of_nat (length slots)) 0"
  shows "object_in (slots @ [\<lparr>sl_generation = 0, sl_marked = False, sl_object = Some x\<rparr>]) j =
    (if j = i then Some x else object_in slots j)" "object_in slots i = None"
proof -
  note u = index_less [OF assms(1)]
  have "unat (id_index j) = length slots \<longleftrightarrow> id_index j = id_index i" using u assms(2) unat_eq [of "id_index j" "id_index i"] by simp
  moreover have "j = i \<longleftrightarrow> id_index j = id_index i \<and> id_generation j = id_generation i" by (cases i; cases j) simp
  ultimately show "object_in (slots @ [\<lparr>sl_generation = 0, sl_marked = False, sl_object = Some x\<rparr>]) j =
    (if j = i then Some x else object_in slots j)"
    using assms(2) u by (auto simp: object_in_def slot_of_def get_def nth_append)
  show "object_in slots i = None" using assms(2) u by (simp add: object_in_def slot_of_def get_def)
qed

lemma object_in_fill:
  assumes "unat n < length slots" and "sl_object (slots ! unat n) = None" and "i = ObjectId n (sl_generation (slots ! unat n))"
  shows "object_in (slots[unat n := (slots ! unat n)\<lparr>sl_object := Some x\<rparr>]) j =
    (if j = i then Some x else object_in slots j)" "object_in slots i = None"
proof -
  have "j = i \<longleftrightarrow> id_index j = n \<and> id_generation j = sl_generation (slots ! unat n)" using assms(3) by (cases j) simp
  then show "object_in (slots[unat n := (slots ! unat n)\<lparr>sl_object := Some x\<rparr>]) j =
    (if j = i then Some x else object_in slots j)"
    using assms(1,2) unat_eq [of "id_index j" n]
    by (cases "id_index j = n") (auto simp: object_in_def slot_of_def get_def)
  show "object_in slots i = None" using assms by (simp add: object_in_def slot_of_def get_def)
qed

lemma allocate_at_sound:
  assumes sound: "indices_sound h" "clean (hp_slots h)" and ok: "objects_ok env (hp_slots h)" "object_ok env x"
    and bytes: "dynamic_bytes env x = Ok dynamic"
    and mem: "ma_current_bytes (hp_memory h) = heap_bytes env ext h + (if hp_free h = [] then sz_slot env else 0) + dynamic"
      "ma_current_bytes (hp_memory h) \<le> usize_max"
    and room: "hp_free h = [] \<longrightarrow> length (hp_slots h) < 2 ^ 32"
    and a: "allocate_at x h = (i, h')"
  shows "heap_sound env ext h' \<and> heap_object h i = None \<and> (\<forall>j. heap_object h' j = (if j = i then Some x else heap_object h j))"
proof (cases "hp_free h = []")
  case True
  with room have r: "length (hp_slots h) < 2 ^ 32" by simp
  note n = allocate_new [OF sound True r a]
  have "objects_ok env (hp_slots h')" using ok n by (auto simp: objects_ok_def)
  moreover have "heap_bytes env ext h' = ma_current_bytes (hp_memory h)"
    using n mem(1) True bytes by (simp add: heap_bytes_def sum_list_append slot_held_def)
  moreover have "indices_sound h'" "clean (hp_slots h')" "hp_memory h' = hp_memory h" using n by blast+
  ultimately have "heap_sound env ext h'" using mem(2) by (simp add: heap_sound_def arena_sound_def charged_heap_def)
  with n object_in_append [OF r, of i] show ?thesis by (simp add: heap_object_def)
next
  case False
  note n = allocate_free [OF sound False a]
  let ?n = "unat (last (hp_free h))" let ?s = "(hp_slots h ! ?n)\<lparr>sl_object := Some x\<rparr>"
  have "objects_ok env (hp_slots h')" using n objects_replaced [OF ok(1), of ?s ?n] ok(2) by simp
  moreover have "total_held env (hp_slots h') = total_held env (hp_slots h) + dynamic"
    using n total_replaced [of ?n "hp_slots h" env ?s] bytes by (simp add: slot_held_def)
  then have "heap_bytes env ext h' = ma_current_bytes (hp_memory h)" using n mem(1) False by (simp add: heap_bytes_def)
  moreover have "indices_sound h'" "clean (hp_slots h')" "hp_memory h' = hp_memory h" using n by blast+
  ultimately have "heap_sound env ext h'" using mem(2) by (simp add: heap_sound_def arena_sound_def charged_heap_def)
  with n object_in_fill [of "last (hp_free h)" "hp_slots h" i] show ?thesis by (simp add: heap_object_def)
qed

lemma allocate_work_Ok:
  "allocate_work env h build = Ok x \<Longrightarrow> build = Ok x \<and> (hp_free h = [] \<longrightarrow> length (hp_slots h) < 2 ^ 32)"
  by (auto simp: allocate_work_def res_simps split: if_splits)

lemma allocate_work_not_Panic: "build \<noteq> Panic \<Longrightarrow> allocate_work env h build \<noteq> Panic"
  by (auto simp: allocate_work_def res_simps try_reserve_not_Panic)

text \<open>An allocation, whatever its outcome.\<close>

definition allocated :: "platform \<Rightarrow> nat \<Rightarrow> ('b obj, heap_error) res \<Rightarrow> 'b heap \<Rightarrow> (object_id, heap_error) res \<Rightarrow> 'b heap \<Rightarrow> bool" where
  "allocated env ext build h r h' \<longleftrightarrow> heap_sound env ext h' \<and> r \<noteq> Panic \<and>
     (case r of
        Ok i \<Rightarrow> heap_object h i = None \<and> (\<exists>x. build = Ok x \<and> (\<forall>j. heap_object h' j = (if j = i then Some x else heap_object h j)))
      | _ \<Rightarrow> \<forall>j. heap_object h' j = heap_object h j)"

lemma heap_allocate_outcome:
  assumes sound: "heap_sound env ext h"
    and build: "build \<noteq> Panic" "\<And>x. build = Ok x \<Longrightarrow> object_ok env x \<and> dynamic_bytes env x = Ok dynamic"
    and a: "heap_allocate env dynamic build h = (r, h')"
  shows "allocated env ext build h r h'"
proof (cases "rbind (slot_bytes env h) (\<lambda>s. mem_add s dynamic)")
  case (Err e)
  with a sound show ?thesis by (auto simp: heap_allocate_def allocated_def)
next
  case Panic
  then show ?thesis by (auto simp: slot_bytes_def res_simps split: if_splits)
next
  case (Ok bytes)
  then have bytes: "bytes = (if hp_free h = [] then sz_slot env else 0) + dynamic"
    by (auto simp: slot_bytes_def res_simps split: if_splits)
  have idx: "indices_sound h" "clean (hp_slots h)" "objects_ok env (hp_slots h)"
    "ma_current_bytes (hp_memory h) = heap_bytes env ext h"
    using sound by (simp_all add: heap_sound_def arena_sound_def charged_heap_def)
  show ?thesis
  proof (cases "account_reserve (hp_memory h) bytes")
    case (Err e)
    with a sound Ok show ?thesis by (auto simp: heap_allocate_def allocated_def)
  next
    case Panic
    then show ?thesis by (simp add: res_simps)
  next
    case m: (Ok m)
    then have m': "m = charge (hp_memory h) bytes" "ma_current_bytes (hp_memory h) + bytes \<le> usize_max"
      using charge_fits_usize by (simp_all add: res_simps)
    show ?thesis
    proof (cases "allocate_work env h build")
      case (Err e)
      let ?h = "h\<lparr>hp_memory := (hp_memory h)\<lparr>ma_peak_bytes := max (ma_peak_bytes (hp_memory h)) (ma_current_bytes (hp_memory h) + bytes)\<rparr>\<rparr>"
      have "r = Err e" "h' = ?h" using a Ok m Err by (simp_all add: heap_allocate_def m'(1))
      moreover have "heap_sound env ext ?h"
        using sound by (simp add: heap_sound_def arena_sound_def indices_sound_def charged_heap_def heap_bytes_def)
      ultimately show ?thesis by (simp add: allocated_def heap_object_def)
    next
      case Panic
      with allocate_work_not_Panic [OF build(1)] show ?thesis by blast
    next
      case x: (Ok x)
      note w = allocate_work_Ok [OF x]
      let ?h = "h\<lparr>hp_memory := m\<rparr>"
      have "hp_free h \<noteq> [] \<Longrightarrow> unat (last (hp_free h)) < length (hp_slots h)"
        using idx(1) last_in_set by (fastforce simp: indices_sound_def vacant_def)
      then obtain i where at: "allocate_at x ?h = (i, h')" "r = Ok i"
        using a Ok m x by (auto simp: heap_allocate_def reservation_commit_def split: prod.splits if_splits)
      have "indices_sound ?h" "clean (hp_slots ?h)" "objects_ok env (hp_slots ?h)"
        using idx(1-3) by (simp_all add: indices_sound_def)
      moreover have "object_ok env x" "dynamic_bytes env x = Ok dynamic" using build(2) w by blast+
      moreover have "ma_current_bytes (hp_memory ?h) = heap_bytes env ext ?h + (if hp_free ?h = [] then sz_slot env else 0) + dynamic"
        "ma_current_bytes (hp_memory ?h) \<le> usize_max" using m' idx(4) bytes by (simp_all add: heap_bytes_def)
      moreover have "hp_free ?h = [] \<longrightarrow> length (hp_slots ?h) < 2 ^ 32" using w by simp
      ultimately have "heap_sound env ext h' \<and> heap_object ?h i = None \<and>
          (\<forall>j. heap_object h' j = (if j = i then Some x else heap_object ?h j))"
        using at(1) by (rule allocate_at_sound)
      then show ?thesis using w at(2) by (simp add: allocated_def heap_object_def)
    qed
  qed
qed

end
