(* ===== verification/Runtime_Collect_Sound.thy ===== *)
theory Runtime_Collect_Sound
  imports Runtime_Heap_Sound
begin

text \<open>
  The collection of \<open>blu-runtime/src/heap.rs\<close> as a whole: what is live keeps its handle and its
  contents, weak tables and finalized objects apart; everything else is freed and its handle goes
  stale; the heap invariant holds afterwards; and the collection ends unless a weak-keyed table
  holds a stale handle.
\<close>

section \<open>Weak tables\<close>

definition weak_dead :: "'b slot list \<Rightarrow> weak_mode \<Rightarrow> key \<Rightarrow> val \<Rightarrow> bool" where
  "weak_dead slots mode k v \<longleftrightarrow>
     (wm_keys mode \<and> \<not> key_is_marked slots k) \<or> (wm_values mode \<and> \<not> value_is_marked slots v)"

definition weak_array :: "'b slot list \<Rightarrow> table \<Rightarrow> nat list" where
  "weak_array slots t = (if wm_values (table_weak_mode slots t)
     then indices_where (\<lambda>v. \<not> value_is_marked slots v) (tb_array t) else [])"

definition weak_hash :: "'b slot list \<Rightarrow> table \<Rightarrow> key list" where
  "weak_hash slots t = map fst (filter (\<lambda>p. weak_dead slots (table_weak_mode slots t) (fst p) (snd p)) (tb_hash t))"

lemma indices_where_set: "n \<in> set (indices_where p vs) \<longleftrightarrow> n < length vs \<and> p (vs ! n)"
  by (auto simp: indices_where_def in_set_enumerate_eq image_iff)

lemma weak_hash_mem:
  assumes "distinct (map fst (tb_hash t))"
  shows "k \<in> set (weak_hash slots t) \<longleftrightarrow>
    (\<exists>v. map_of (tb_hash t) k = Some v \<and> weak_dead slots (table_weak_mode slots t) k v)"
  using assms by (auto simp: weak_hash_def image_iff)

lemma integer_key_marked [simp]: "key_is_marked slots (KInteger n)"
  by (simp add: key_is_marked_def)

lemma nil_marked [simp]: "value_is_marked slots VNil"
  by (simp add: value_is_marked_def)

lemma strip_weak_lookup:
  assumes "distinct (map fst (tb_hash t))"
  shows "lookup (strip_table (weak_array slots t) (weak_hash slots t) t) k =
    (if weak_dead slots (table_weak_mode slots t) k (lookup t k) then VNil else lookup t k)"
proof -
  let ?m = "table_weak_mode slots t"
  have hash: "(if k \<in> set (weak_hash slots t) then VNil else hash_lookup (tb_hash t) k) =
      (if weak_dead slots ?m k (hash_lookup (tb_hash t) k) then VNil else hash_lookup (tb_hash t) k)"
    using weak_hash_mem [OF assms] by (cases "map_of (tb_hash t) k") (auto simp: hash_lookup_def)
  have arr: "(if i - 1 \<in> set (weak_array slots t) then VNil else tb_array t ! (i - 1)) =
      (if weak_dead slots ?m k (tb_array t ! (i - 1)) then VNil else tb_array t ! (i - 1))"
    if "key_array_index k = Some i" "i \<le> length (tb_array t)" for i
    using that by (auto simp: key_array_index_Some weak_array_def indices_where_set weak_dead_def)
  show ?thesis
    unfolding strip_lookup lookup_parts [of t] using hash arr by (cases "key_array_index k") simp_all
qed

lemma weak_cleanup_alt:
  "weak_cleanup slots n =
     (case get slots (unat n) of
        None \<Rightarrow> None
      | Some s \<Rightarrow>
          (case sl_object s of
             Some (OTable t) \<Rightarrow>
               (if \<not> sl_marked s \<or> (\<not> wm_keys (table_weak_mode slots t) \<and> \<not> wm_values (table_weak_mode slots t)) then None
                else if weak_array slots t \<noteq> [] \<or> weak_hash slots t \<noteq> []
                then Some (ObjectId n (sl_generation s), weak_array slots t, weak_hash slots t) else None)
           | _ \<Rightarrow> None))"
  unfolding weak_cleanup_def weak_array_def weak_hash_def weak_dead_def Let_def by (simp split: option.split obj.split)

section \<open>Clearing them\<close>

definition cleaned :: "(object_id \<times> nat list \<times> key list) list \<Rightarrow> 'b slot list \<Rightarrow> object_id \<Rightarrow> 'b obj option" where
  "cleaned todo slots i =
     (case (map_of todo i, object_in slots i) of
        (Some (array, hash), Some (OTable t)) \<Rightarrow> Some (OTable (stripped array hash t))
      | _ \<Rightarrow> object_in slots i)"

lemma stripped_table_ok:
  assumes "table_ok env t"
  shows "\<exists>n b b'. table_bytes env t = Ok b \<and> trim_hash env (strip_table array hash t) = (Ok n, stripped array hash t) \<and>
    table_bytes env (stripped array hash t) = Ok b' \<and> b' + n = b \<and> table_ok env (stripped array hash t)"
proof -
  have t: "table_room t" "table_flags t" using assms by (simp_all add: table_ok_def)
  obtain b where b: "table_bytes env t = Ok b" using assms by (auto simp: table_ok_def is_ok_iff)
  have "table_bytes env (strip_table array hash t) = Ok b" using b table_bytes_caps [OF strip_caps] by simp
  from trim_hash_exact [OF strip_room [OF t(1)] this] obtain n b' where
    n: "trim_hash env (strip_table array hash t) = (Ok n, stripped array hash t)"
      "table_bytes env (stripped array hash t) = Ok b'" "b' + n = b"
    unfolding stripped_def by blast
  have "table_room (stripped array hash t)" "table_flags (stripped array hash t)"
    unfolding stripped_def by (rule trimmed_room(1) [OF strip_room [OF t(1)]], rule flags_trimmed [OF strip_flags [OF t(2)]])
  with n(2) have "table_ok env (stripped array hash t)" by (simp add: table_ok_def is_ok_iff)
  with b n show ?thesis by blast
qed

lemma apply_cleanup_ok:
  assumes "distinct (map fst todo)" and "\<forall>i\<in>set (map fst todo). \<exists>t. object_in slots i = Some (OTable t)"
    and "objects_ok env slots" and "released + total_held env slots \<le> usize_max"
  shows "\<exists>slots' n. apply_cleanup env slots released todo = (Ok (released + n), slots') \<and>
    total_held env slots' + n = total_held env slots \<and> same_shape slots slots' \<and> objects_ok env slots' \<and>
    (\<forall>j. object_in slots' j = cleaned todo slots j)"
  using assms
proof (induction todo arbitrary: slots released)
  case Nil
  show ?case by (intro exI [of _ slots] exI [of _ 0]) (use Nil in \<open>simp add: cleaned_def\<close>)
next
  case (Cons p todo)
  obtain i array hash where p: "p = (i, array, hash)" by (cases p)
  obtain t where t: "object_in slots i = Some (OTable t)" using Cons.prems(2) p by auto
  obtain n b b' where s: "table_bytes env t = Ok b" "trim_hash env (strip_table array hash t) = (Ok n, stripped array hash t)"
    "table_bytes env (stripped array hash t) = Ok b'" "b' + n = b" "table_ok env (stripped array hash t)"
    using stripped_table_ok objects_ok_at [OF Cons.prems(3) t] by (metis object_ok_simps(1))
  let ?slots = "put_in slots i (OTable (stripped array hash t))"
  have held: "total_held env ?slots + n = total_held env slots"
    using put_total [OF t, of env b "OTable (stripped array hash t)" b'] s(1,3,4) by simp
  have room: "checked_add released n = Some (released + n)"
    using held Cons.prems(4) by (simp add: checked_add_def)
  have ok: "objects_ok env ?slots" by (rule put_objects_ok [OF Cons.prems(3)]) (simp add: s(5))
  have other: "object_in ?slots j = object_in slots j" if "j \<noteq> i" for j
    using object_in_put [OF t] that by simp
  have "\<forall>j\<in>set (map fst todo). \<exists>t. object_in ?slots j = Some (OTable t)"
  proof
    fix j
    assume j: "j \<in> set (map fst todo)"
    then have "j \<noteq> i" using Cons.prems(1) p by auto
    with j Cons.prems(2) other show "\<exists>t. object_in ?slots j = Some (OTable t)" by auto
  qed
  moreover have "released + n + total_held env ?slots \<le> usize_max" using held Cons.prems(4) by simp
  ultimately obtain slots' k where rec: "apply_cleanup env ?slots (released + n) todo = (Ok (released + n + k), slots')"
    "total_held env slots' + k = total_held env ?slots" "same_shape ?slots slots'" "objects_ok env slots'"
    "\<forall>j. object_in slots' j = cleaned todo ?slots j"
    using Cons.IH [of ?slots "released + n"] Cons.prems(1) ok by auto
  have "object_in slots' j = cleaned (p # todo) slots j" for j
  proof (cases "j = i")
    case True
    moreover have "map_of todo i = None" using Cons.prems(1) p by (simp add: map_of_eq_None_iff)
    ultimately show ?thesis using rec(5) object_in_put [OF t] t p by (simp add: cleaned_def)
  next
    case False
    have "cleaned todo ?slots j = cleaned todo slots j" unfolding cleaned_def other [OF False] ..
    then show ?thesis using p False by (simp add: rec(5) [rule_format]) (simp add: cleaned_def)
  qed
  moreover have "apply_cleanup env slots released (p # todo) = (Ok (released + (n + k)), slots')"
    using t s(2) room rec(1) p by (simp add: Let_def add.assoc)
  ultimately show ?case
    using rec(2,3,4) held same_shape_trans [OF put_shape [OF t]] by (intro exI [of _ slots'] exI [of _ "n + k"]) auto
qed

text \<open>What is put on the list: the marked weak tables that lose something, each once.\<close>

lemma weak_cleanup_Some:
  "weak_cleanup slots n = Some (i, array, hash) \<longleftrightarrow>
     (\<exists>s t. get slots (unat n) = Some s \<and> i = ObjectId n (sl_generation s) \<and> sl_object s = Some (OTable t) \<and> sl_marked s \<and>
        (wm_keys (table_weak_mode slots t) \<or> wm_values (table_weak_mode slots t)) \<and>
        array = weak_array slots t \<and> hash = weak_hash slots t \<and> (array \<noteq> [] \<or> hash \<noteq> []))"
  unfolding weak_cleanup_alt by (auto split: option.splits obj.splits)

lemma weak_cleanups_mem:
  "(i, array, hash) \<in> set (weak_cleanups slots indices) \<longleftrightarrow> (\<exists>n\<in>set indices. weak_cleanup slots n = Some (i, array, hash))"
  by (auto simp: weak_cleanups_def)

lemma weak_cleanup_index: "weak_cleanup slots n = Some p \<Longrightarrow> id_index (fst p) = n"
  by (cases p) (auto simp: weak_cleanup_Some)

lemma weak_cleanups_distinct: "distinct indices \<Longrightarrow> distinct (map fst (weak_cleanups slots indices))"
proof (induction indices)
  case (Cons n indices)
  have new: "n \<notin> id_index ` set (map fst (weak_cleanups slots indices))"
    using Cons.prems weak_cleanup_index by (force simp: weak_cleanups_def)
  show ?case
  proof (cases "weak_cleanup slots n")
    case (Some p)
    with new weak_cleanup_index [OF Some] have "fst p \<notin> set (map fst (weak_cleanups slots indices))" by (metis imageI)
    then show ?thesis using Some Cons by (simp add: weak_cleanups_def opt_list_def)
  qed (use Cons in \<open>simp add: weak_cleanups_def opt_list_def\<close>)
qed (simp add: weak_cleanups_def)

text \<open>What clearing does to an object: nothing, unless it is a marked weak table.\<close>

definition table_extras :: "table \<Rightarrow> table_id option \<times> bool \<times> bool \<times> semantic_profile option \<times> 64 word \<times> bool" where
  "table_extras t = (tb_metatable t, tb_finalizer_armed t, tb_finalizer_done t, tb_finalizer_profile t,
     tb_finalizer_order t, tb_frozen t)"

fun weakened :: "'b slot list \<Rightarrow> 'b obj \<Rightarrow> 'b obj \<Rightarrow> bool" where
  "weakened slots (OTable t) y \<longleftrightarrow>
     (\<exists>t'. y = OTable t' \<and> table_extras t' = table_extras t \<and>
        (let mode = table_weak_mode slots t in
         (\<not> wm_keys mode \<and> \<not> wm_values mode \<longrightarrow> t' = t) \<and>
         (\<forall>k. lookup t' k = (if weak_dead slots mode k (lookup t k) then VNil else lookup t k))))"
| "weakened slots x y \<longleftrightarrow> y = x"

lemma stripped_extras: "table_extras (stripped array hash t) = table_extras t"
proof -
  have "table_extras (trimmed s) = table_extras s" for s
    by (simp add: table_extras_def trimmed_def Let_def rebuild_hash_order_def)
  moreover have "table_extras (strip_table array hash t) = table_extras t"
    by (rule strip_table_same) (simp_all add: table_extras_def remove_hash_entry_def Let_def)
  ultimately show ?thesis by (simp add: stripped_def)
qed

lemma not_weak_dead: "\<not> wm_keys mode \<Longrightarrow> \<not> wm_values mode \<Longrightarrow> \<not> weak_dead slots mode k v"
  by (simp add: weak_dead_def)

text \<open>A table with nothing to clear has no dead entry.\<close>

lemma nothing_dead:
  assumes d: "distinct (map fst (tb_hash t))" and none: "weak_array slots t = []" "weak_hash slots t = []"
  shows "lookup t k = (if weak_dead slots (table_weak_mode slots t) k (lookup t k) then VNil else lookup t k)"
proof -
  let ?m = "table_weak_mode slots t"
  have hash: "\<not> (map_of (tb_hash t) k = Some v \<and> weak_dead slots ?m k v)" for v
    using weak_hash_mem [OF d, of k slots] none(2) by auto
  have "hash_lookup (tb_hash t) k = (if weak_dead slots ?m k (hash_lookup (tb_hash t) k) then VNil else hash_lookup (tb_hash t) k)"
    using hash by (cases "map_of (tb_hash t) k") (auto simp: hash_lookup_def)
  moreover have "\<not> weak_dead slots ?m k (tb_array t ! (i - 1))" if "key_array_index k = Some i" "i \<le> length (tb_array t)" for i
  proof -
    have "i - 1 \<notin> set (weak_array slots t)" by (simp add: none(1))
    with that show ?thesis by (auto simp: key_array_index_Some weak_array_def indices_where_set weak_dead_def split: if_splits)
  qed
  ultimately show ?thesis unfolding lookup_parts by (auto split: option.split)
qed

lemma weakened_refl:
  assumes "\<And>t. x = OTable t \<Longrightarrow> distinct (map fst (tb_hash t)) \<and> weak_array slots t = [] \<and> weak_hash slots t = []"
  shows "weakened slots x x"
proof (cases x)
  case (OTable t)
  with assms nothing_dead [of t slots] show ?thesis by (simp only: weakened.simps Let_def) blast
qed simp_all

lemma cleaned_weakened:
  assumes ok: "objects_ok env slots" and i: "object_in slots i = Some x" "marked slots i" "id_index i \<in> set indices"
    and d: "distinct indices"
  shows "\<exists>y. cleaned (weak_cleanups slots indices) slots i = Some y \<and> weakened slots x y"
proof (cases "map_of (weak_cleanups slots indices) i")
  case None
  have "weakened slots x x"
  proof (rule weakened_refl)
    fix t
    assume x: "x = OTable t"
    then have "table_ok env t" using objects_ok_at [OF ok i(1)] by simp
    then have dist: "distinct (map fst (tb_hash t))" by (simp add: table_ok_def table_room_def)
    let ?n = "id_index i"
    obtain s where s: "get slots (unat ?n) = Some s" "sl_generation s = id_generation i" "sl_object s = Some x" "sl_marked s"
      using i(1,2) by (auto simp: marked_def object_in_def slot_of_Some get_def split: option.splits)
    have "i = ObjectId ?n (sl_generation s)" using s(2) by (cases i) simp
    have "(i, weak_array slots t, weak_hash slots t) \<notin> set (weak_cleanups slots indices)"
      by (metis None map_of_eq_None_iff fst_conv image_eqI)
    then have "weak_cleanup slots ?n \<noteq> Some (i, weak_array slots t, weak_hash slots t)"
      using i(3) weak_cleanups_mem [of i "weak_array slots t" "weak_hash slots t" slots indices] by blast
    moreover have "\<not> wm_keys (table_weak_mode slots t) \<Longrightarrow> \<not> wm_values (table_weak_mode slots t) \<Longrightarrow>
        weak_array slots t = [] \<and> weak_hash slots t = []"
      by (simp add: weak_array_def weak_hash_def not_weak_dead)
    ultimately show "distinct (map fst (tb_hash t)) \<and> weak_array slots t = [] \<and> weak_hash slots t = []"
      using s x dist \<open>i = ObjectId ?n (sl_generation s)\<close> unfolding weak_cleanup_Some by blast
  qed
  with None i(1) show ?thesis by (simp add: cleaned_def)
next
  case (Some p)
  obtain array hash where p: "p = (array, hash)" by (cases p)
  with Some have "(i, array, hash) \<in> set (weak_cleanups slots indices)" by (auto dest: map_of_SomeD)
  then obtain n s t where c: "get slots (unat n) = Some s" "i = ObjectId n (sl_generation s)" "sl_object s = Some (OTable t)"
    "wm_keys (table_weak_mode slots t) \<or> wm_values (table_weak_mode slots t)"
    "array = weak_array slots t" "hash = weak_hash slots t"
    unfolding weak_cleanups_mem weak_cleanup_Some by blast
  have x: "x = OTable t" using c(1,2,3) i(1) by (simp add: object_in_def slot_of_def)
  then have "table_ok env t" using objects_ok_at [OF ok i(1)] by simp
  then have dist: "distinct (map fst (tb_hash t))" by (simp add: table_ok_def table_room_def)
  have "table_room (strip_table array hash t)" using \<open>table_ok env t\<close> by (intro strip_room) (simp add: table_ok_def)
  then have "lookup (stripped array hash t) k = lookup (strip_table array hash t) k" for k
    unfolding stripped_def by (simp add: lookup_trimmed table_room_def)
  then have "lookup (stripped array hash t) k =
      (if weak_dead slots (table_weak_mode slots t) k (lookup t k) then VNil else lookup t k)" for k
    by (simp add: strip_weak_lookup [OF dist] c(5,6))
  with Some p x i(1) c(4) stripped_extras show ?thesis by (auto simp: cleaned_def Let_def)
qed

section \<open>Sweeping\<close>

definition dead_at :: "'b slot list \<Rightarrow> 32 word \<Rightarrow> bool" where
  "dead_at slots n \<longleftrightarrow> \<not> sl_marked (slots ! unat n)"

definition tidy :: "'b slot \<Rightarrow> 'b slot" where
  "tidy s = (if sl_marked s then s\<lparr>sl_marked := False\<rparr> else s\<lparr>sl_object := None, sl_generation := sl_generation s + 1\<rparr>)"

definition tidy_at :: "'b slot list \<Rightarrow> 32 word \<Rightarrow> 'b slot list" where
  "tidy_at slots n = slots[unat n := tidy (slots ! unat n)]"

definition swept :: "'b slot list \<Rightarrow> 32 word list \<Rightarrow> 'b slot list" where
  "swept slots ns = fold (\<lambda>n slots. tidy_at slots n) ns slots"

definition in_range :: "'b slot list \<Rightarrow> 32 word list \<Rightarrow> bool" where
  "in_range slots ns \<longleftrightarrow> (\<forall>n\<in>set ns. unat n < length slots)"

lemma tidy_at_cases: "tidy_at slots n = (if dead_at slots n then free_at slots n else unmark_at slots n)"
  by (simp add: tidy_at_def tidy_def dead_at_def free_at_def unmark_at_def)

lemma swept_simps [simp]: "swept slots [] = slots" "swept slots (n # ns) = swept (tidy_at slots n) ns"
  by (simp_all add: swept_def)

lemma tidy_at_length [simp]: "length (tidy_at slots n) = length slots"
  by (simp add: tidy_at_def)

lemma tidy_at_other: "m \<noteq> n \<Longrightarrow> tidy_at slots n ! unat m = slots ! unat m"
  using unat_eq [of m n] by (simp add: tidy_at_def)

lemma tidy_at_mem: "n \<notin> set ns \<Longrightarrow> m \<in> set ns \<Longrightarrow> tidy_at slots n ! unat m = slots ! unat m"
  by (rule tidy_at_other) auto

lemma swept_length [simp]: "length (swept slots ns) = length slots"
  by (induction ns arbitrary: slots) simp_all

lemma swept_nth:
  "distinct ns \<Longrightarrow> j < length slots \<Longrightarrow> swept slots ns ! j = (if j \<in> unat ` set ns then tidy (slots ! j) else slots ! j)"
proof (induction ns arbitrary: slots)
  case (Cons n ns)
  then have n: "unat n \<notin> unat ` set ns" by (simp add: word_index)
  have "swept slots (n # ns) ! j = (if j \<in> unat ` set ns then tidy (tidy_at slots n ! j) else tidy_at slots n ! j)"
    using Cons.IH [of "tidy_at slots n"] Cons.prems by simp
  also have "\<dots> = (if j \<in> unat ` set (n # ns) then tidy (slots ! j) else slots ! j)"
    using n Cons.prems(2) by (auto simp: tidy_at_def nth_update)
  finally show ?case .
qed simp

lemma filter_dead_tidy: "n \<notin> set ns \<Longrightarrow> filter (dead_at (tidy_at slots n)) ns = filter (dead_at slots) ns"
  by (intro filter_cong) (simp_all add: dead_at_def tidy_at_mem)

lemma map_held_tidy: "n \<notin> set ns \<Longrightarrow> map (\<lambda>m. slot_held env (tidy_at slots n ! unat m)) ns = map (\<lambda>m. slot_held env (slots ! unat m)) ns"
  by (simp add: tidy_at_mem)

text \<open>The bytes of the dead objects are what the sweep takes off the total.\<close>

definition dead_bytes :: "platform \<Rightarrow> 'b slot list \<Rightarrow> 32 word list \<Rightarrow> nat" where
  "dead_bytes env slots ns = sum_list (map (\<lambda>n. slot_held env (slots ! unat n)) (filter (dead_at slots) ns))"

lemma dead_bytes_tidy: "n \<notin> set ns \<Longrightarrow> dead_bytes env (tidy_at slots n) ns = dead_bytes env slots ns"
  unfolding dead_bytes_def by (subst map_held_tidy) (simp_all add: filter_dead_tidy)

lemma tidy_held: "slot_held env (tidy s) = (if sl_marked s then slot_held env s else 0)"
  by (simp add: tidy_def slot_held_def)

lemma swept_total:
  "distinct ns \<Longrightarrow> in_range slots ns \<Longrightarrow> total_held env (swept slots ns) + dead_bytes env slots ns = total_held env slots"
proof (induction ns arbitrary: slots)
  case Nil
  then show ?case by (simp add: dead_bytes_def)
next
  case (Cons n ns)
  have "total_held env (swept (tidy_at slots n) ns) + dead_bytes env (tidy_at slots n) ns = total_held env (tidy_at slots n)"
    by (rule Cons.IH) (use Cons.prems in \<open>simp_all add: in_range_def\<close>)
  moreover have "total_held env (tidy_at slots n) + slot_held env (slots ! unat n) = total_held env slots + slot_held env (tidy (slots ! unat n))"
    unfolding tidy_at_def by (rule total_replaced) (use Cons.prems(2) in \<open>simp add: in_range_def\<close>)
  moreover have "dead_bytes env (tidy_at slots n) ns = dead_bytes env slots ns" using Cons.prems(1) by (simp add: dead_bytes_tidy)
  moreover have "dead_bytes env slots (n # ns) = dead_bytes env slots ns + (if dead_at slots n then slot_held env (slots ! unat n) else 0)"
    by (simp add: dead_bytes_def)
  ultimately show ?case by (auto simp: tidy_held dead_at_def split: if_splits)
qed

lemma sweep_ok:
  "distinct ns \<Longrightarrow> in_range (hp_slots h) ns \<Longrightarrow> length (filter (dead_at (hp_slots h)) ns) \<le> hp_live h \<Longrightarrow>
     sweep ns retained h = (Ok (retained @ filter (\<lambda>n. \<not> dead_at (hp_slots h) n) ns),
       h\<lparr>hp_slots := swept (hp_slots h) ns, hp_free := hp_free h @ filter (dead_at (hp_slots h)) ns,
         hp_live := hp_live h - length (filter (dead_at (hp_slots h)) ns)\<rparr>)"
proof (induction ns arbitrary: h retained)
  case (Cons n ns)
  have at: "get (hp_slots h) (unat n) = Some (hp_slots h ! unat n)" using Cons.prems(2) by (simp add: get_def in_range_def)
  have n: "n \<notin> set ns" using Cons.prems(1) by simp
  have range: "in_range (tidy_at (hp_slots h) n) ns" using Cons.prems(2) by (simp add: in_range_def)
  have alive: "filter (\<lambda>m. \<not> dead_at (tidy_at (hp_slots h) n) m) ns = filter (\<lambda>m. \<not> dead_at (hp_slots h) m) ns"
    using n by (intro filter_cong) (simp_all add: dead_at_def tidy_at_mem)
  note dead = filter_dead_tidy [OF n, of "hp_slots h"]
  show ?case
  proof (cases "dead_at (hp_slots h) n")
    case True
    let ?h = "h\<lparr>hp_slots := tidy_at (hp_slots h) n, hp_free := hp_free h @ [n], hp_live := hp_live h - 1\<rparr>"
    have "sweep (n # ns) retained h = sweep ns retained ?h"
      using True at Cons.prems(3) by (simp add: tidy_at_cases dead_at_def plain_sub_def)
    moreover have "length (filter (dead_at (hp_slots ?h)) ns) \<le> hp_live ?h"
      using Cons.prems(3) True by (simp add: dead)
    ultimately show ?thesis using Cons.IH [of ?h retained] Cons.prems(1) range True by (simp add: dead alive)
  next
    case False
    let ?h = "h\<lparr>hp_slots := tidy_at (hp_slots h) n\<rparr>"
    have "sweep (n # ns) retained h = sweep ns (retained @ [n]) ?h"
      using False at by (simp add: tidy_at_cases dead_at_def)
    moreover have "length (filter (dead_at (hp_slots ?h)) ns) \<le> hp_live ?h"
      using Cons.prems(3) False by (simp add: dead)
    ultimately show ?thesis using Cons.IH [of ?h "retained @ [n]"] Cons.prems(1) range False by (simp add: dead alive)
  qed
qed simp

text \<open>The totals taken before the sweep.\<close>

lemma dead_totals_ok:
  assumes "in_range slots ns" and "\<forall>n\<in>set ns. \<exists>x b. sl_object (slots ! unat n) = Some x \<and> dynamic_bytes env x = Ok b"
    and "a + dead_bytes env slots ns \<le> usize_max" and "c + length ns \<le> usize_max"
  shows "dead_totals env slots (a, c) ns = Ok (a + dead_bytes env slots ns, c + length (filter (dead_at slots) ns))"
  using assms
proof (induction ns arbitrary: a c)
  case Nil
  then show ?case by (simp add: dead_bytes_def)
next
  case (Cons n ns)
  obtain x b where x: "sl_object (slots ! unat n) = Some x" "dynamic_bytes env x = Ok b" using Cons.prems(2) by auto
  have at: "get slots (unat n) = Some (slots ! unat n)" using Cons.prems(1) by (simp add: get_def in_range_def)
  have range: "in_range slots ns" using Cons.prems(1) by (simp add: in_range_def)
  have bytes: "dead_bytes env slots (n # ns) = dead_bytes env slots ns + (if dead_at slots n then b else 0)"
    using x by (simp add: dead_bytes_def slot_held_def)
  show ?case
  proof (cases "dead_at slots n")
    case True
    with Cons.prems(3) bytes have "a + b \<le> usize_max" "a + b + dead_bytes env slots ns \<le> usize_max" by simp_all
    moreover have "c + 1 \<le> usize_max" "c + 1 + length ns \<le> usize_max" using Cons.prems(4) by simp_all
    ultimately show ?thesis
      using True at x bytes Cons.IH [of "a + b" "c + 1"] range Cons.prems(2)
      by (simp add: dead_at_def mem_add_def checked_add_def)
  next
    case False
    with Cons.prems at x bytes range Cons.IH [of a c] show ?thesis by (simp add: dead_at_def)
  qed
qed

section \<open>The phases on the heap\<close>

lemma indices_in_range: "indices_sound h \<Longrightarrow> in_range (hp_slots h) (hp_live_indices h)"
  by (auto simp: indices_sound_def in_range_def occupied_def)

lemma live_object_bytes:
  assumes "indices_sound h" and "objects_ok env (hp_slots h)"
  shows "\<forall>n\<in>set (hp_live_indices h). \<exists>x b. sl_object (hp_slots h ! unat n) = Some x \<and> dynamic_bytes env x = Ok b"
proof
  fix n
  assume "n \<in> set (hp_live_indices h)"
  then have n: "unat n < length (hp_slots h)" "sl_object (hp_slots h ! unat n) \<noteq> None"
    using assms(1) by (auto simp: indices_sound_def occupied_def)
  then obtain x where x: "sl_object (hp_slots h ! unat n) = Some x" by blast
  then have "object_ok env x" using assms(2) n(1) by (auto simp: objects_ok_def)
  with x object_ok_bytes show "\<exists>x b. sl_object (hp_slots h ! unat n) = Some x \<and> dynamic_bytes env x = Ok b" by blast
qed

lemma charged_total: "charged_heap env ext h \<Longrightarrow> total_held env (hp_slots h) \<le> ma_current_bytes (hp_memory h)"
  by (simp add: charged_heap_def heap_bytes_def)

text \<open>Clearing weak references never fails, and gives back what the tables give up.\<close>

lemma clear_weak_ok:
  assumes idx: "indices_sound h" and ch: "charged_heap env ext h"
  obtains slots m where "clear_weak_references env h = (Ok (), h\<lparr>hp_slots := slots, hp_memory := m\<rparr>)"
    "same_shape (hp_slots h) slots" "charged_heap env ext (h\<lparr>hp_slots := slots, hp_memory := m\<rparr>)"
    "\<forall>j. object_in slots j = cleaned (weak_cleanups (hp_slots h) (hp_live_indices h)) (hp_slots h) j"
    "ma_config m = ma_config (hp_memory h)"
proof -
  let ?todo = "weak_cleanups (hp_slots h) (hp_live_indices h)"
  have d: "distinct (map fst ?todo)" by (rule weak_cleanups_distinct) (use idx in \<open>simp add: indices_sound_def\<close>)
  have tables: "\<forall>i\<in>set (map fst ?todo). \<exists>t. object_in (hp_slots h) i = Some (OTable t)"
  proof
    fix i
    assume "i \<in> set (map fst ?todo)"
    then obtain array hash where "(i, array, hash) \<in> set ?todo" by auto
    then obtain n s t where "get (hp_slots h) (unat n) = Some s" "i = ObjectId n (sl_generation s)" "sl_object s = Some (OTable t)"
      unfolding weak_cleanups_mem weak_cleanup_Some by blast
    then show "\<exists>t. object_in (hp_slots h) i = Some (OTable t)" by (simp add: object_in_def slot_of_def)
  qed
  have ok: "objects_ok env (hp_slots h)" and cur: "ma_current_bytes (hp_memory h) \<le> usize_max"
    using ch by (simp_all add: charged_heap_def)
  have "0 + total_held env (hp_slots h) \<le> usize_max" using charged_total [OF ch] cur by simp
  from apply_cleanup_ok [OF d tables ok this] obtain slots n where
    a: "apply_cleanup env (hp_slots h) 0 ?todo = (Ok n, slots)" "total_held env slots + n = total_held env (hp_slots h)"
      "same_shape (hp_slots h) slots" "objects_ok env slots" "\<forall>j. object_in slots j = cleaned ?todo (hp_slots h) j"
    by auto
  define m where "m = (hp_memory h)\<lparr>ma_current_bytes := ma_current_bytes (hp_memory h) - n\<rparr>"
  have n: "n \<le> ma_current_bytes (hp_memory h)" using a(2) charged_total [OF ch] by simp
  show ?thesis
  proof (rule that)
    have rel: "account_release (hp_memory h) n = Ok m" using n by (simp add: res_simps m_def)
    have same: "n = 0 \<Longrightarrow> h\<lparr>hp_slots := slots, hp_memory := m\<rparr> = h\<lparr>hp_slots := slots\<rparr>"
      by (cases h) (simp add: m_def)
    show "clear_weak_references env h = (Ok (), h\<lparr>hp_slots := slots, hp_memory := m\<rparr>)"
      using rel same by (simp add: clear_weak_references_def a(1) release_external_def Let_def)
    show "charged_heap env ext (h\<lparr>hp_slots := slots, hp_memory := m\<rparr>)"
      using ch a(2,4) same_shape_nth(1) [OF a(3)] by (auto simp: charged_heap_def heap_bytes_def m_def)
    show "ma_config m = ma_config (hp_memory h)" by (simp add: m_def)
  qed (use a in simp_all)
qed

text \<open>Setting the flag of finalized objects.\<close>

fun finished :: "finalizer list \<Rightarrow> object_id \<Rightarrow> 'b obj \<Rightarrow> 'b obj" where
  "finished fs i (OTable t) = OTable (if TargetTable i \<in> fst ` set fs then t\<lparr>tb_finalizer_done := True\<rparr> else t)"
| "finished fs i (OUserData u) = OUserData (if TargetUserData i \<in> fst ` set fs then u\<lparr>ud_finalizer_done := True\<rparr> else u)"
| "finished fs i x = x"

lemma finished_Nil [simp]: "finished [] i x = x"
  by (cases x) simp_all

lemma finished_Cons: "finished (f # fs) i x = finished fs i (finished [f] i x)"
  by (cases x) auto

lemma finished_bytes: "dynamic_bytes env (finished fs i x) = dynamic_bytes env x"
  by (cases x) (simp_all add: table_bytes_def)

lemma done_table_ok: "table_ok env (t\<lparr>tb_finalizer_done := True\<rparr>) = table_ok env t"
  by (simp add: table_ok_def table_bytes_def table_flags_def table_room_def order_ok_def fits_def keys_def)

lemma finished_ok: "object_ok env x \<Longrightarrow> object_ok env (finished fs i x)"
  by (cases x) (simp_all add: done_table_ok object_ok_def)

lemma finish_one:
  fixes slots :: "'b slot list"
  shows "object_in (finish_finalizer f slots) j = map_option (finished [f] j) (object_in slots j) \<and>
   same_shape slots (finish_finalizer f slots) \<and> total_held env (finish_finalizer f slots) = total_held env slots \<and>
   (objects_ok env slots \<longrightarrow> objects_ok env (finish_finalizer f slots))"
proof -
  have keep: "object_in slots j = map_option (finished [f] j) (object_in slots j)"
    if "\<And>x :: 'b obj. object_in slots j = Some x \<Longrightarrow> finished [f] j x = x" using that by (cases "object_in slots j") auto
  have put: ?thesis if f: "finish_finalizer f slots = put_in slots i (finished [f] i x)" and x: "object_in slots i = Some x"
    and others: "\<And>y :: 'b obj. j \<noteq> i \<Longrightarrow> finished [f] j y = y" for i x
  proof (intro conjI impI)
    show "object_in (finish_finalizer f slots) j = map_option (finished [f] j) (object_in slots j)"
    proof (cases "j = i")
      case True
      then show ?thesis by (simp add: f object_in_put [OF x] x)
    next
      case False
      then show ?thesis by (cases "object_in slots j") (simp_all add: f object_in_put [OF x] others [OF False])
    qed
    show "same_shape slots (finish_finalizer f slots)" unfolding f by (rule put_shape [OF x])
    show "total_held env (finish_finalizer f slots) = total_held env slots"
    proof -
      have "sl_object (slots ! unat (id_index i)) = Some x" "unat (id_index i) < length slots" using object_in_nth [OF x] by simp_all
      then show ?thesis
        using total_replaced [of "unat (id_index i)" slots env "(slots ! unat (id_index i))\<lparr>sl_object := Some (finished [f] i x)\<rparr>"]
        by (simp add: f put_in_def slot_held_def finished_bytes)
    qed
    show "objects_ok env (finish_finalizer f slots)" if "objects_ok env slots"
      unfolding f by (rule put_objects_ok [OF that finished_ok [OF objects_ok_at [OF that x]]])
  qed
  obtain target rest where f: "f = (target, rest)" by (cases f)
  show ?thesis
  proof (cases target)
    case (TargetTable i)
    show ?thesis
    proof (cases "\<exists>t. object_in slots i = Some (OTable t)")
      case True
      then obtain t where t: "object_in slots i = Some (OTable t)" by blast
      show ?thesis
      proof (rule put [OF _ t])
        show "finish_finalizer f slots = put_in slots i (finished [f] i (OTable t))"
          using t f TargetTable by (simp add: finish_finalizer_def)
        show "finished [f] j y = y" if "j \<noteq> i" for y :: "'b obj" using that f TargetTable by (cases y) simp_all
      qed
    next
      case False
      then have "finish_finalizer f slots = slots"
        using f TargetTable by (auto simp: finish_finalizer_def split: option.split obj.split)
      moreover have "finished [f] j y = y" if "object_in slots j = Some y" for y
        using that False f TargetTable by (cases y) auto
      ultimately show ?thesis using keep by simp
    qed
  next
    case (TargetUserData i)
    show ?thesis
    proof (cases "\<exists>u. object_in slots i = Some (OUserData u)")
      case True
      then obtain u where u: "object_in slots i = Some (OUserData u)" by blast
      show ?thesis
      proof (rule put [OF _ u])
        show "finish_finalizer f slots = put_in slots i (finished [f] i (OUserData u))"
          using u f TargetUserData by (simp add: finish_finalizer_def)
        show "finished [f] j y = y" if "j \<noteq> i" for y :: "'b obj" using that f TargetUserData by (cases y) simp_all
      qed
    next
      case False
      then have "finish_finalizer f slots = slots"
        using f TargetUserData by (auto simp: finish_finalizer_def split: option.split obj.split)
      moreover have "finished [f] j y = y" if "object_in slots j = Some y" for y
        using that False f TargetUserData by (cases y) auto
      ultimately show ?thesis using keep by simp
    qed
  qed
qed

lemma finish_all_objects: "object_in (fold finish_finalizer fs slots) j = map_option (finished fs j) (object_in slots j)"
proof (induction fs arbitrary: slots)
  case Nil
  show ?case by (cases "object_in slots j") simp_all
next
  case (Cons f fs)
  have "finish_finalizer f slots = finish_finalizer f slots \<and>
      object_in (finish_finalizer f slots) j = map_option (finished [f] j) (object_in slots j)"
    using finish_one by blast
  then show ?case using Cons.IH [of "finish_finalizer f slots"]
    by (cases "object_in slots j") (simp_all add: finished_Cons [of f fs j, symmetric])
qed

lemma finish_all:
  "same_shape slots (fold finish_finalizer fs slots) \<and>
   total_held env (fold finish_finalizer fs slots) = total_held env slots \<and>
   (objects_ok env slots \<longrightarrow> objects_ok env (fold finish_finalizer fs slots))"
proof (induction fs arbitrary: slots)
  case (Cons f fs)
  note one = finish_one [of f slots undefined env, THEN conjunct2]
  show ?case
    using one Cons.IH [of "finish_finalizer f slots"] same_shape_trans [of slots "finish_finalizer f slots"] by (simp; blast)
qed simp

text \<open>The arena after the sweep.\<close>

lemma index_of: "unat (word_of_nat n :: 32 word) = n" if "n < 2 ^ 32"
  using that by (simp add: unsigned_of_nat take_bit_nat_eq_self)

lemma swept_slot:
  assumes "indices_sound h" and "j < length (hp_slots h)"
  shows "swept (hp_slots h) (hp_live_indices h) ! j =
    (if sl_object (hp_slots h ! j) \<noteq> None then tidy (hp_slots h ! j) else hp_slots h ! j)"
  using assms swept_nth [of "hp_live_indices h" j "hp_slots h"] by (simp add: indices_sound_def occupied_def)

lemma swept_object:
  assumes "indices_sound h" and "object_in (hp_slots h) i = Some x"
  shows "marked (hp_slots h) i \<Longrightarrow> object_in (swept (hp_slots h) (hp_live_indices h)) i = Some x"
    and "\<not> marked (hp_slots h) i \<Longrightarrow> slot_of (swept (hp_slots h) (hp_live_indices h)) i = None"
proof -
  let ?n = "unat (id_index i)"
  note at = object_in_nth [OF assms(2)]
  have s: "swept (hp_slots h) (hp_live_indices h) ! ?n = tidy (hp_slots h ! ?n)"
    using swept_slot [OF assms(1), of ?n] at by simp
  have m: "marked (hp_slots h) i \<longleftrightarrow> sl_marked (hp_slots h ! ?n)" using at by (auto simp: marked_def slot_of_Some)
  show "object_in (swept (hp_slots h) (hp_live_indices h)) i = Some x" if "marked (hp_slots h) i"
    using that m at s by (simp add: object_in_def slot_of_def get_def tidy_def)
  show "slot_of (swept (hp_slots h) (hp_live_indices h)) i = None" if "\<not> marked (hp_slots h) i"
    using that m at s by (simp add: slot_of_def get_def tidy_def)
qed

lemma marked_at: "n \<in> set (hp_live_indices h) \<Longrightarrow> sl_marked (hp_slots h ! unat n) \<longleftrightarrow> \<not> dead_at (hp_slots h) n"
  by (simp add: dead_at_def)

lemma swept_sets:
  assumes idx: "indices_sound h"
  shows "occupied (swept (hp_slots h) (hp_live_indices h)) = unat ` set (filter (\<lambda>n. \<not> dead_at (hp_slots h) n) (hp_live_indices h))"
    and "vacant (swept (hp_slots h) (hp_live_indices h)) =
      unat ` set (hp_free h @ filter (dead_at (hp_slots h)) (hp_live_indices h))"
proof -
  let ?s = "swept (hp_slots h) (hp_live_indices h)"
  have live: "unat ` set (hp_live_indices h) = occupied (hp_slots h)" and free: "unat ` set (hp_free h) = vacant (hp_slots h)"
    using idx by (simp_all add: indices_sound_def)
  have kept: "unat ` set (filter (\<lambda>n. \<not> dead_at (hp_slots h) n) (hp_live_indices h)) =
      {j \<in> occupied (hp_slots h). sl_marked (hp_slots h ! j)}"
    and dead: "unat ` set (filter (dead_at (hp_slots h)) (hp_live_indices h)) =
      {j \<in> occupied (hp_slots h). \<not> sl_marked (hp_slots h ! j)}"
    by (auto simp: dead_at_def simp flip: live)
  show "occupied ?s = unat ` set (filter (\<lambda>n. \<not> dead_at (hp_slots h) n) (hp_live_indices h))"
    unfolding kept using swept_slot [OF idx] by (auto simp: occupied_def tidy_def split: if_splits)
  show "vacant ?s = unat ` set (hp_free h @ filter (dead_at (hp_slots h)) (hp_live_indices h))"
    unfolding set_append image_Un free dead
    using swept_slot [OF idx] by (auto simp: occupied_def vacant_def tidy_def split: if_splits)
qed

definition swept_heap :: "memory_account \<Rightarrow> 'b heap \<Rightarrow> 'b heap" where
  "swept_heap m h = h\<lparr>hp_slots := swept (hp_slots h) (hp_live_indices h),
     hp_free := hp_free h @ filter (dead_at (hp_slots h)) (hp_live_indices h),
     hp_live_indices := filter (\<lambda>n. \<not> dead_at (hp_slots h) n) (hp_live_indices h),
     hp_live := length (filter (\<lambda>n. \<not> dead_at (hp_slots h) n) (hp_live_indices h)), hp_memory := m\<rparr>"

lemma swept_indices_sound:
  assumes idx: "indices_sound h"
  shows "indices_sound (swept_heap m h)"
proof -
  have "set (hp_free h) \<inter> set (hp_live_indices h) = {}"
  proof (rule ccontr)
    assume "set (hp_free h) \<inter> set (hp_live_indices h) \<noteq> {}"
    then obtain n where "n \<in> set (hp_free h)" "n \<in> set (hp_live_indices h)" by auto
    then have "unat n \<in> unat ` set (hp_free h)" "unat n \<in> unat ` set (hp_live_indices h)" by simp_all
    then show False using idx by (auto simp: indices_sound_def occupied_def vacant_def)
  qed
  then have "distinct (hp_free h @ filter (dead_at (hp_slots h)) (hp_live_indices h))"
    using idx by (auto simp: indices_sound_def)
  then show ?thesis
    using idx swept_sets [OF idx] by (simp add: indices_sound_def swept_heap_def)
qed

lemma swept_clean:
  assumes idx: "indices_sound h" and vacant: "\<forall>s\<in>set (hp_slots h). sl_object s = None \<longrightarrow> \<not> sl_marked s"
  shows "clean (swept (hp_slots h) (hp_live_indices h))"
  unfolding clean_def
proof
  fix s
  assume "s \<in> set (swept (hp_slots h) (hp_live_indices h))"
  then obtain j where "j < length (hp_slots h)" "s = swept (hp_slots h) (hp_live_indices h) ! j" by (auto simp: in_set_conv_nth)
  then show "\<not> sl_marked s" using vacant swept_slot [OF idx] by (auto simp: tidy_def)
qed

lemma swept_objects_ok: "objects_ok env slots \<Longrightarrow> objects_ok env (swept slots ns)"
proof (induction ns arbitrary: slots)
  case (Cons n ns)
  have "objects_ok env (tidy_at slots n)"
  proof (cases "unat n < length slots")
    case True
    then show ?thesis unfolding tidy_at_def
      by (intro objects_replaced [OF Cons.prems]) (use Cons.prems in \<open>auto simp: tidy_def objects_ok_def split: if_splits\<close>)
  qed (use Cons.prems in \<open>simp add: tidy_at_def list_update_beyond\<close>)
  then show ?case using Cons.IH by simp
qed simp

text \<open>\<open>clear_marks\<close> on an error path.\<close>

lemma unmark_fold_nth:
  "j < length slots \<Longrightarrow> fold (\<lambda>n slots. unmark_at slots n) ns slots ! j =
     (if j \<in> unat ` set ns then (slots ! j)\<lparr>sl_marked := False\<rparr> else slots ! j)"
  "length (fold (\<lambda>n slots. unmark_at slots n) ns slots) = length slots"
proof (induction ns arbitrary: slots)
  case (Cons n ns)
  {
    case 1
    then show ?case using Cons.IH(1) [of "unmark_at slots n"] by (auto simp: unmark_at_def nth_update)
  next
    case 2
    then show ?case using Cons.IH(2) [of "unmark_at slots n"] by (simp add: unmark_at_def)
  }
qed simp_all

lemma clear_marks_sound:
  assumes idx: "indices_sound h" and ch: "charged_heap env ext h"
    and vacant: "\<forall>s\<in>set (hp_slots h). sl_object s = None \<longrightarrow> \<not> sl_marked s"
  shows "heap_sound env ext (clear_marks h)"
proof -
  let ?s = "fold (\<lambda>n slots. unmark_at slots n) (hp_live_indices h) (hp_slots h)"
  have live: "unat ` set (hp_live_indices h) = occupied (hp_slots h)" using idx by (simp add: indices_sound_def)
  have nth: "?s ! j = (if sl_object (hp_slots h ! j) \<noteq> None then (hp_slots h ! j)\<lparr>sl_marked := False\<rparr> else hp_slots h ! j)"
    if "j < length (hp_slots h)" for j
    using unmark_fold_nth(1) [OF that, of "hp_live_indices h"] that by (simp add: live occupied_def)
  note len = unmark_fold_nth(2) [of "hp_live_indices h" "hp_slots h"]
  have obj: "map sl_object ?s = map sl_object (hp_slots h)" using nth len by (simp add: list_eq_iff_nth_eq)
  have sets: "occupied ?s = occupied (hp_slots h)" "vacant ?s = vacant (hp_slots h)"
    using nth len by (auto simp: occupied_def vacant_def split: if_splits)
  have "\<not> sl_marked (hp_slots h ! j)" if "j < length (hp_slots h)" "sl_object (hp_slots h ! j) = None" for j
    using vacant nth_mem [OF that(1)] that(2) by blast
  then have "clean ?s" using nth len by (auto simp: clean_def in_set_conv_nth split: if_splits)
  moreover have "map (slot_held env) ?s = map (slot_held env) (hp_slots h)"
    using nth len by (auto simp: list_eq_iff_nth_eq slot_held_def)
  moreover have "objects_ok env ?s"
  proof -
    have "\<forall>x\<in>set (map sl_object ?s). \<forall>y. x = Some y \<longrightarrow> object_ok env y"
      unfolding obj using ch by (auto simp: charged_heap_def objects_ok_def)
    then show ?thesis by (auto simp: objects_ok_def)
  qed
  ultimately show ?thesis
    using idx ch sets len
    by (simp add: heap_sound_def arena_sound_def indices_sound_def charged_heap_def heap_bytes_def total_held_def clear_marks_def)
qed

section \<open>The sweep phase\<close>

lemma length_split: "length (filter P xs) + length (filter (\<lambda>x. \<not> P x) xs) = length xs"
  by (induction xs) simp_all

definition after_sweep :: "finalizer list \<Rightarrow> memory_account \<Rightarrow> 'b heap \<Rightarrow> 'b heap" where
  "after_sweep fs m h =
     (let h = swept_heap (finish_collection m) h in h\<lparr>hp_slots := fold finish_finalizer fs (hp_slots h)\<rparr>)"

lemma finish_collection_sel [simp]:
  "ma_current_bytes (finish_collection m) = ma_current_bytes m" "ma_config (finish_collection m) = ma_config m"
  by (simp_all add: finish_collection_def Let_def)

lemma sweep_phase_outcome:
  assumes idx: "indices_sound h" and ch: "charged_heap env ext h" and before: "before = hp_live h"
  obtains (out_of_memory) e where "sweep_phase env before fs h = (Err e, clear_marks h)"
      "try_reserve_vec_exact env sz_index (length (hp_free h)) (length (filter (dead_at (hp_slots h)) (hp_live_indices h))) = Err e"
  | (completed) m where "sweep_phase env before fs h =
        (Ok (\<lparr>cs_before = before, cs_retained = length (filter (\<lambda>n. \<not> dead_at (hp_slots h) n) (hp_live_indices h)),
              cs_collected = length (filter (dead_at (hp_slots h)) (hp_live_indices h))\<rparr>, fs), after_sweep fs m h)"
      "ma_config m = ma_config (hp_memory h)"
      "ma_current_bytes m + dead_bytes env (hp_slots h) (hp_live_indices h) = ma_current_bytes (hp_memory h)"
proof -
  let ?ns = "hp_live_indices h" and ?s = "hp_slots h"
  have d: "distinct ?ns" "hp_live h = length ?ns" using idx by (simp_all add: indices_sound_def)
  note range = indices_in_range [OF idx]
  have "total_held env (swept ?s ?ns) + dead_bytes env ?s ?ns = total_held env ?s" by (rule swept_total [OF d(1) range])
  then have le: "dead_bytes env ?s ?ns \<le> ma_current_bytes (hp_memory h)" using charged_total [OF ch] by simp
  have cur: "ma_current_bytes (hp_memory h) \<le> usize_max" using ch by (simp add: charged_heap_def)
  have few: "length ?ns \<le> usize_max"
  proof -
    have "length ?ns = card (occupied ?s)" using idx d(1)
      by (metis indices_sound_def card_image distinct_card inj_on_def unat_eq)
    also have "\<dots> \<le> card {..<length ?s}" by (rule card_mono) (auto simp: occupied_def)
    also have "\<dots> \<le> usize_max" using idx by (simp add: indices_sound_def usize_max_def)
    finally show ?thesis .
  qed
  have totals: "dead_totals env ?s (0, 0) ?ns = Ok (dead_bytes env ?s ?ns, length (filter (dead_at ?s) ?ns))"
    using dead_totals_ok [OF range live_object_bytes [OF idx], of env 0 0] ch le cur few by (simp add: charged_heap_def)
  define m where "m = (hp_memory h)\<lparr>ma_current_bytes := ma_current_bytes (hp_memory h) - dead_bytes env ?s ?ns\<rparr>"
  have rel: "account_release (hp_memory h) (dead_bytes env ?s ?ns) = Ok m" using le by (simp add: res_simps m_def)
  have sweep: "sweep ?ns [] (h\<lparr>hp_memory := m\<rparr>) = (Ok (filter (\<lambda>n. \<not> dead_at ?s n) ?ns),
      h\<lparr>hp_slots := swept ?s ?ns, hp_free := hp_free h @ filter (dead_at ?s) ?ns,
        hp_live := hp_live h - length (filter (dead_at ?s) ?ns), hp_memory := m\<rparr>)"
    using sweep_ok [of ?ns "h\<lparr>hp_memory := m\<rparr>" "[]"] d range by simp
  note split = length_split [of "dead_at ?s" ?ns]
  show ?thesis
  proof (cases "try_reserve_vec_exact env sz_index (length (hp_free h)) (length (filter (dead_at ?s) ?ns))")
    case (Err e)
    show ?thesis by (rule out_of_memory [of e]) (simp_all add: sweep_phase_def totals Err)
  next
    case Panic
    then show ?thesis using try_reserve_not_Panic(3) by blast
  next
    case (Ok u)
    have live: "hp_live h - length (filter (dead_at ?s) ?ns) = length (filter (\<lambda>n. \<not> dead_at ?s n) ?ns)"
      using split d(2) by simp
    have "before - length (filter (\<lambda>n. \<not> dead_at ?s n) ?ns) = length (filter (dead_at ?s) ?ns)"
      "length (filter (\<lambda>n. \<not> dead_at ?s n) ?ns) \<le> before"
      using split d(2) before by simp_all
    then have "sweep_phase env before fs h =
        (Ok (\<lparr>cs_before = before, cs_retained = length (filter (\<lambda>n. \<not> dead_at ?s n) ?ns),
              cs_collected = length (filter (dead_at ?s) ?ns)\<rparr>, fs), after_sweep fs m h)"
      by (simp add: sweep_phase_def totals Ok rel sweep live plain_sub_def after_sweep_def swept_heap_def Let_def)
    then show ?thesis by (rule completed) (use le in \<open>simp_all add: m_def\<close>)
  qed
qed

section \<open>A whole collection\<close>

definition root_queue :: "val list \<Rightarrow> upvalue_id list \<Rightarrow> object_id list" where
  "root_queue roots upvalues = concat (map enqueue_value roots) @ upvalues"

text \<open>A heap whose marks have been set; nothing else has changed.\<close>

lemma same_objects_shape:
  fixes a b :: "'b slot list"
  assumes "same_objects a b"
  shows "occupied b = occupied a" "vacant b = vacant a" "length b = length a"
    "map (slot_held env) b = map (slot_held env) a" "objects_ok env b = objects_ok env a"
proof -
  note n = same_objects_nth [OF assms]
  then show "length b = length a" by simp
  show "occupied b = occupied a" "vacant b = vacant a" using n by (auto simp: occupied_def vacant_def)
  show "map (slot_held env) b = map (slot_held env) a" using n by (simp add: list_eq_iff_nth_eq slot_held_def)
  have "map sl_object b = map sl_object a" using n by (simp add: list_eq_iff_nth_eq)
  then have eq: "set (map sl_object b) = set (map sl_object a)" by (rule arg_cong)
  have ok: "objects_ok env s \<longleftrightarrow> (\<forall>y\<in>set (map sl_object s). \<forall>x. y = Some x \<longrightarrow> object_ok env x)" for s :: "'b slot list"
    by (auto simp: objects_ok_def)
  show "objects_ok env b = objects_ok env a" unfolding ok eq ..
qed

lemma marked_heap:
  assumes "same_objects (hp_slots h) slots"
  shows "indices_sound (h\<lparr>hp_slots := slots\<rparr>) = indices_sound h" "charged_heap env ext (h\<lparr>hp_slots := slots\<rparr>) = charged_heap env ext h"
  using same_objects_shape [OF assms]
  by (simp_all add: indices_sound_def charged_heap_def heap_bytes_def total_held_def)

text \<open>The two mark phases, and what follows them.\<close>

lemma collect_run:
  assumes sound: "heap_sound env ext h"
    and c: "collect_with_upvalues_and_finalizers env roots upvalues h = Some (r, h')"
  obtains fs slots1 slots where
    "fs = finalizers slots1 (hp_live_indices h)" "same_objects (hp_slots h) slots1" "same_objects (hp_slots h) slots"
    "\<forall>i. marked slots1 i \<longleftrightarrow> live (hp_slots h) (set (root_queue roots upvalues)) i"
    "\<forall>i. marked slots i \<longleftrightarrow> live (hp_slots h) (set (root_queue roots upvalues) \<union> set (finalizer_targets fs)) i"
    "(case clear_weak_references env (h\<lparr>hp_slots := slots\<rparr>) of
        (Err e, h) \<Rightarrow> (Err e, h) | (Panic, h) \<Rightarrow> (Panic, h)
      | (Ok _, h') \<Rightarrow> sweep_phase env (hp_live h) fs h') = (r, h')"
proof -
  have a: "clean (hp_slots h)" "all_flags (hp_slots h)" "tables_indexed (hp_slots h) (hp_live_indices h)"
    using sound objects_flags arena_tables by (auto simp: heap_sound_def arena_sound_def charged_heap_def)
  obtain slots1 where 1: "mark_loop (hp_slots h) (hp_live_indices h) (root_queue roots upvalues) = Some slots1"
    using c by (auto simp: collect_with_upvalues_and_finalizers_def root_queue_def split: option.splits)
  let ?fs = "finalizers slots1 (hp_live_indices h)"
  obtain slots where 2: "mark_loop slots1 (hp_live_indices h) (finalizer_targets ?fs) = Some slots"
    using c 1 by (auto simp: collect_with_upvalues_and_finalizers_def root_queue_def Let_def split: option.splits)
  show ?thesis
  proof (rule that [of ?fs slots1 slots])
    show "same_objects (hp_slots h) slots1" "\<forall>i. marked slots1 i \<longleftrightarrow> live (hp_slots h) (set (root_queue roots upvalues)) i"
      using mark_phase(2) [OF a 1] by blast+
    show "same_objects (hp_slots h) slots"
      "\<forall>i. marked slots i \<longleftrightarrow> live (hp_slots h) (set (root_queue roots upvalues) \<union> set (finalizer_targets ?fs)) i"
      using second_phase(2) [OF a 1 2] by blast+
    show "(case clear_weak_references env (h\<lparr>hp_slots := slots\<rparr>) of
        (Err e, h) \<Rightarrow> (Err e, h) | (Panic, h) \<Rightarrow> (Panic, h)
      | (Ok _, h') \<Rightarrow> sweep_phase env (hp_live h) ?fs h') = (r, h')"
      using c 1 2 by (simp add: collect_with_upvalues_and_finalizers_def root_queue_def Let_def)
  qed simp
qed

text \<open>What a surviving object looks like: only entries of weak tables that hold a dead object are gone.\<close>

definition ref_lives :: "'b slot list \<Rightarrow> object_id set \<Rightarrow> object_id option \<Rightarrow> bool" where
  "ref_lives slots roots r = (case r of None \<Rightarrow> True | Some i \<Rightarrow> live slots roots i \<and> object_in slots i \<noteq> None)"

fun survives :: "'b slot list \<Rightarrow> object_id set \<Rightarrow> 'b obj \<Rightarrow> 'b obj \<Rightarrow> bool" where
  "survives slots roots (OTable t) y \<longleftrightarrow>
     (\<exists>t'. y = OTable t' \<and> table_extras t' = table_extras t \<and>
        (let mode = table_weak_mode slots t in
         (\<not> wm_keys mode \<and> \<not> wm_values mode \<longrightarrow> t' = t) \<and>
         (\<forall>k. lookup t' k =
            (if wm_keys mode \<and> \<not> ref_lives slots roots (key_ref k) \<or>
                wm_values mode \<and> \<not> ref_lives slots roots (value_ref (lookup t k))
             then VNil else lookup t k))))"
| "survives slots roots x y \<longleftrightarrow> y = x"

lemma weakened_survives:
  assumes same: "same_objects slots0 slots" and m: "\<forall>i. marked slots i \<longleftrightarrow> live slots0 roots i"
    and w: "weakened slots x y"
  shows "survives slots0 roots x y"
proof (cases x)
  case (OTable t)
  have "ref_is_marked slots r = ref_lives slots0 roots r" for r
    using m by (cases r) (simp_all add: ref_is_marked_Some ref_lives_def same_objects_slot_of(2) [OF same])
  then have dead: "weak_dead slots mode k v \<longleftrightarrow> wm_keys mode \<and> \<not> ref_lives slots0 roots (key_ref k) \<or>
      wm_values mode \<and> \<not> ref_lives slots0 roots (value_ref v)" for mode k v
    by (simp add: weak_dead_def key_is_marked_def value_is_marked_def)
  show ?thesis
    using w unfolding OTable weakened.simps survives.simps Let_def same_objects_weak_mode [OF same] dead .
qed (use w in simp_all)

text \<open>The heap between the mark phases and the sweep.\<close>

lemma collect_middle:
  assumes sound: "heap_sound env ext h" and same: "same_objects (hp_slots h) slots"
  obtains h2 where "clear_weak_references env (h\<lparr>hp_slots := slots\<rparr>) = (Ok (), h2)"
    "same_shape slots (hp_slots h2)" "indices_sound h2" "charged_heap env ext h2"
    "hp_live h2 = hp_live h" "hp_live_indices h2 = hp_live_indices h" "hp_free h2 = hp_free h"
    "ma_config (hp_memory h2) = ma_config (hp_memory h)" "hp_string_bytes h2 = hp_string_bytes h"
    "\<forall>i x. object_in (hp_slots h) i = Some x \<and> marked slots i \<longrightarrow>
       (\<exists>y. object_in (hp_slots h2) i = Some y \<and> weakened slots x y)"
    "\<forall>i. object_in (hp_slots h) i \<noteq> None \<longrightarrow> object_in (hp_slots h2) i \<noteq> None"
proof -
  let ?h = "h\<lparr>hp_slots := slots\<rparr>"
  have idx: "indices_sound ?h" and ch: "charged_heap env ext ?h"
    using sound marked_heap [OF same] by (auto simp: heap_sound_def arena_sound_def)
  note ok = clear_weak_ok [OF idx ch, simplified]
  show ?thesis
  proof (rule ok)
    fix slots' m
    assume c: "clear_weak_references env ?h = (Ok (), h\<lparr>hp_slots := slots', hp_memory := m\<rparr>)" "same_shape slots slots'"
      "charged_heap env ext (h\<lparr>hp_slots := slots', hp_memory := m\<rparr>)"
      "\<forall>j. object_in slots' j = cleaned (weak_cleanups slots (hp_live_indices h)) slots j"
      "ma_config m = ma_config (hp_memory h)"
    let ?h2 = "h\<lparr>hp_slots := slots', hp_memory := m\<rparr>"
    have idx2: "indices_sound ?h2" using idx indices_shape [of ?h slots' m] c(2) by simp
    have weak: "\<forall>i x. object_in (hp_slots h) i = Some x \<and> marked slots i \<longrightarrow>
       (\<exists>y. object_in slots' i = Some y \<and> weakened slots x y)"
    proof (intro allI impI, elim conjE)
      fix i x
      assume i: "object_in (hp_slots h) i = Some x" "marked slots i"
      have x: "object_in slots i = Some x" using i(1) by (simp add: same_objects_slot_of(2) [OF same])
      have "id_index i \<in> set (hp_live_indices h)" using indices_tables [OF idx, of i x] x by simp
      moreover have "objects_ok env slots" "distinct (hp_live_indices h)"
        using ch idx by (simp_all add: charged_heap_def indices_sound_def)
      ultimately show "\<exists>y. object_in slots' i = Some y \<and> weakened slots x y"
        using cleaned_weakened [OF _ x i(2)] c(4) by simp
    qed
    have "\<forall>i. object_in (hp_slots h) i \<noteq> None \<longrightarrow> object_in slots' i \<noteq> None"
      using c(4) by (auto simp: same_objects_slot_of(2) [OF same] cleaned_def split: option.splits obj.splits)
    then show ?thesis using c idx2 weak by (intro that [of ?h2]) simp_all
  qed
qed

end
