(* ===== verification/Runtime_Gc.thy ===== *)
theory Runtime_Gc
  imports Runtime_Collect_Sound
begin

text \<open>
  What \<open>Heap::collect\<close> of \<open>blu-runtime/src/heap.rs\<close> promises: it keeps exactly the live objects,
  keeps the heap sound, and ends when no weak-keyed table holds a stale handle; and the heap on
  which it does not end.
\<close>

section \<open>What is kept\<close>

lemma shape_marked: "same_shape a b \<Longrightarrow> marked a i = marked b i"
  using same_shape_nth [of a b] by (auto simp: marked_def slot_of_Some)

lemma shape_slot_of: "same_shape a b \<Longrightarrow> slot_of a i = None \<longleftrightarrow> slot_of b i = None"
  using same_shape_nth [of a b] by (auto simp: slot_of_def get_def)

lemma after_sweep_objects:
  assumes idx: "indices_sound h" and x: "object_in (hp_slots h) i = Some x"
  shows "marked (hp_slots h) i \<Longrightarrow> object_in (hp_slots (after_sweep fs m h)) i = Some (finished fs i x)"
    and "\<not> marked (hp_slots h) i \<Longrightarrow> slot_of (hp_slots (after_sweep fs m h)) i = None"
proof -
  let ?s = "swept (hp_slots h) (hp_live_indices h)"
  have s: "hp_slots (after_sweep fs m h) = fold finish_finalizer fs ?s"
    by (simp add: after_sweep_def swept_heap_def)
  show "object_in (hp_slots (after_sweep fs m h)) i = Some (finished fs i x)" if "marked (hp_slots h) i"
    unfolding s finish_all_objects using swept_object(1) [OF idx x that] by simp
  show "slot_of (hp_slots (after_sweep fs m h)) i = None" if "\<not> marked (hp_slots h) i"
    unfolding s using swept_object(2) [OF idx x that] shape_slot_of [of ?s "fold finish_finalizer fs ?s" i] finish_all by blast
qed

text \<open>The outcome of a collection that ends.\<close>

lemma collect_outcome:
  assumes sound: "heap_sound env ext h"
    and c: "collect_with_upvalues_and_finalizers env roots upvalues h = Some (r, h')"
  obtains h2 fs slots1 where "fs = finalizers slots1 (hp_live_indices h)" "same_objects (hp_slots h) slots1"
    "\<forall>i. marked slots1 i \<longleftrightarrow> live (hp_slots h) (set (root_queue roots upvalues)) i"
    "indices_sound h2" "charged_heap env ext h2"
    "\<forall>i. marked (hp_slots h2) i \<longleftrightarrow> live (hp_slots h) (set (root_queue roots upvalues) \<union> set (finalizer_targets fs)) i"
    "\<forall>i x. object_in (hp_slots h) i = Some x \<longrightarrow> (\<exists>y. object_in (hp_slots h2) i = Some y \<and>
       (marked (hp_slots h2) i \<longrightarrow> survives (hp_slots h) (set (root_queue roots upvalues) \<union> set (finalizer_targets fs)) x y))"
    "hp_live_indices h2 = hp_live_indices h"
    "occupied (hp_slots h2) = occupied (hp_slots h)"
    "\<forall>i. slot_of (hp_slots h2) i = None \<longleftrightarrow> slot_of (hp_slots h) i = None"
    "(\<exists>e. r = Err e \<and> h' = clear_marks h2) \<or>
     (\<exists>m. r = Ok (\<lparr>cs_before = hp_live h, cs_retained = length (filter (\<lambda>n. \<not> dead_at (hp_slots h2) n) (hp_live_indices h)),
              cs_collected = length (filter (dead_at (hp_slots h2)) (hp_live_indices h))\<rparr>, fs) \<and> h' = after_sweep fs m h2 \<and>
        ma_current_bytes m + dead_bytes env (hp_slots h2) (hp_live_indices h2) = ma_current_bytes (hp_memory h2))"
proof (rule collect_run [OF sound c])
  fix fs slots1 slots
  let ?R = "set (root_queue roots upvalues) \<union> set (finalizer_targets fs)"
  assume run: "fs = finalizers slots1 (hp_live_indices h)" "same_objects (hp_slots h) slots1" "same_objects (hp_slots h) slots"
    "\<forall>i. marked slots1 i \<longleftrightarrow> live (hp_slots h) (set (root_queue roots upvalues)) i"
    "\<forall>i. marked slots i \<longleftrightarrow> live (hp_slots h) ?R i"
    "(case clear_weak_references env (h\<lparr>hp_slots := slots\<rparr>) of
        (Err e, h) \<Rightarrow> (Err e, h) | (Panic, h) \<Rightarrow> (Panic, h)
      | (Ok _, h') \<Rightarrow> sweep_phase env (hp_live h) fs h') = (r, h')"
  show thesis
  proof (rule collect_middle [OF sound run(3)])
    fix h2
    assume mid: "clear_weak_references env (h\<lparr>hp_slots := slots\<rparr>) = (Ok (), h2)"
      "same_shape slots (hp_slots h2)" "indices_sound h2" "charged_heap env ext h2"
      "hp_live h2 = hp_live h" "hp_live_indices h2 = hp_live_indices h" "hp_free h2 = hp_free h"
      "ma_config (hp_memory h2) = ma_config (hp_memory h)" "hp_string_bytes h2 = hp_string_bytes h"
      "\<forall>i x. object_in (hp_slots h) i = Some x \<and> marked slots i \<longrightarrow>
         (\<exists>y. object_in (hp_slots h2) i = Some y \<and> weakened slots x y)"
      "\<forall>i. object_in (hp_slots h) i \<noteq> None \<longrightarrow> object_in (hp_slots h2) i \<noteq> None"
    have m: "marked (hp_slots h2) i = marked slots i" for i using shape_marked [OF mid(2)] by simp
    have obj: "\<exists>y. object_in (hp_slots h2) i = Some y \<and> (marked (hp_slots h2) i \<longrightarrow> survives (hp_slots h) ?R x y)"
      if "object_in (hp_slots h) i = Some x" for i x
      using that mid(10,11) weakened_survives [OF run(3,5)] unfolding m by fastforce
    have occ: "occupied (hp_slots h2) = occupied (hp_slots h)"
      using shape_occupied(1) [OF mid(2)] same_objects_shape(1) [OF run(3)] by simp
    have sl: "slot_of (hp_slots h2) i = None \<longleftrightarrow> slot_of (hp_slots h) i = None" for i
      using shape_slot_of [OF mid(2)] same_objects_slot_of(1) [OF run(3)] by simp
    have phase: "sweep_phase env (hp_live h) fs h2 = (r, h')" using run(6) mid(1) by simp
    have before: "hp_live h = hp_live h2" using mid(5) by simp
    show thesis
    proof (rule sweep_phase_outcome [OF mid(3,4) before])
      fix e
      assume "sweep_phase env (hp_live h) fs h2 = (Err e, clear_marks h2)"
      then have "\<exists>e. r = Err e \<and> h' = clear_marks h2" using phase by simp
      then show thesis using that [OF run(1,2,4) mid(3,4) _ _ mid(6) occ] obj m run(5) sl by blast
    next
      fix ma
      assume "sweep_phase env (hp_live h) fs h2 =
        (Ok (\<lparr>cs_before = hp_live h, cs_retained = length (filter (\<lambda>n. \<not> dead_at (hp_slots h2) n) (hp_live_indices h2)),
              cs_collected = length (filter (dead_at (hp_slots h2)) (hp_live_indices h2))\<rparr>, fs), after_sweep fs ma h2)"
        "ma_current_bytes ma + dead_bytes env (hp_slots h2) (hp_live_indices h2) = ma_current_bytes (hp_memory h2)"
      then have "\<exists>m. r = Ok (\<lparr>cs_before = hp_live h, cs_retained = length (filter (\<lambda>n. \<not> dead_at (hp_slots h2) n) (hp_live_indices h)),
              cs_collected = length (filter (dead_at (hp_slots h2)) (hp_live_indices h))\<rparr>, fs) \<and> h' = after_sweep fs m h2 \<and>
        ma_current_bytes m + dead_bytes env (hp_slots h2) (hp_live_indices h2) = ma_current_bytes (hp_memory h2)"
        using phase by (intro exI [of _ ma]) (simp add: mid(6))
      then show thesis using that [OF run(1,2,4) mid(3,4) _ _ mid(6) occ] obj m run(5) sl by blast
    qed
  qed
qed

text \<open>The roots of a collection: those given, and the objects it is about to finalize.\<close>

definition all_roots :: "val list \<Rightarrow> upvalue_id list \<Rightarrow> finalizer list \<Rightarrow> object_id set" where
  "all_roots roots upvalues fs = set (root_queue roots upvalues) \<union> set (finalizer_targets fs)"

definition stays :: "'b heap \<Rightarrow> val list \<Rightarrow> upvalue_id list \<Rightarrow> finalizer list \<Rightarrow> object_id \<Rightarrow> bool" where
  "stays h roots upvalues fs i = live (hp_slots h) (all_roots roots upvalues fs) i"

text \<open>C36: A collection keeps exactly what is live. An object that can be reached from the roots, or
  from an object about to be finalized, keeps its handle and its contents, except that a weak table
  loses the entries whose weak side is not live and a finalized object is flagged; any other object
  is gone and its handle is stale.\<close>

theorem collect_keeps_live:
  assumes "heap_sound env ext h"
    and "collect_with_upvalues_and_finalizers env roots upvalues h = Some (Ok (stats, fs), h')"
    and "heap_object h i = Some x"
  shows "if stays h roots upvalues fs i
    then \<exists>y. heap_object h' i = Some (finished fs i y) \<and> survives (hp_slots h) (all_roots roots upvalues fs) x y
    else slot_of (hp_slots h') i = None \<and> heap_object h' i = None"
proof (rule collect_outcome [OF assms(1,2)])
  fix h2 fs2 slots1
  let ?R = "set (root_queue roots upvalues) \<union> set (finalizer_targets fs2)"
  assume idx: "indices_sound h2"
    and m: "\<forall>i. marked (hp_slots h2) i \<longleftrightarrow> live (hp_slots h) ?R i"
    and obj: "\<forall>i x. object_in (hp_slots h) i = Some x \<longrightarrow> (\<exists>y. object_in (hp_slots h2) i = Some y \<and>
       (marked (hp_slots h2) i \<longrightarrow> survives (hp_slots h) ?R x y))"
    and "(\<exists>e. Ok (stats, fs) = Err e \<and> h' = clear_marks h2) \<or>
     (\<exists>m. Ok (stats, fs) = Ok (\<lparr>cs_before = hp_live h, cs_retained = length (filter (\<lambda>n. \<not> dead_at (hp_slots h2) n) (hp_live_indices h)),
              cs_collected = length (filter (dead_at (hp_slots h2)) (hp_live_indices h))\<rparr>, fs2) \<and> h' = after_sweep fs2 m h2 \<and>
        ma_current_bytes m + dead_bytes env (hp_slots h2) (hp_live_indices h2) = ma_current_bytes (hp_memory h2))"
  then obtain ma where fs: "fs = fs2" and h': "h' = after_sweep fs2 ma h2" by auto
  obtain y where y: "object_in (hp_slots h2) i = Some y" "marked (hp_slots h2) i \<longrightarrow> survives (hp_slots h) ?R x y"
    using obj assms(3) by (auto simp: heap_object_def)
  show ?thesis
    using after_sweep_objects [OF idx y(1), of fs2 ma] y(2) m unfolding h' fs stays_def all_roots_def heap_object_def
    by (auto simp: object_in_def)
qed

section \<open>The heap stays sound\<close>

text \<open>
  Every handle an object holds. Handles are made by allocation only, so none names an empty slot by
  its current generation; the generation wraps after \<open>2 ^ 32\<close> uses of a slot, which is out of scope.
\<close>

fun object_refs :: "'b obj \<Rightarrow> object_id set" where
  "object_refs (OTable t) =
     {j. tb_metatable t = Some j} \<union> {j. \<exists>v\<in>set (tb_array t). value_ref v = Some j} \<union>
     {j. \<exists>p\<in>set (tb_hash t). key_ref (fst p) = Some j \<or> value_ref (snd p) = Some j}"
| "object_refs x = set (object_children [] x)"

definition handles_issued :: "'b heap \<Rightarrow> object_id set \<Rightarrow> bool" where
  "handles_issued h roots \<longleftrightarrow>
     (\<forall>j. (j \<in> roots \<or> (\<exists>i x. heap_object h i = Some x \<and> j \<in> object_refs x)) \<longrightarrow>
        slot_of (hp_slots h) j \<noteq> None \<longrightarrow> heap_object h j \<noteq> None)"

lemma children_refs: "j \<in> strong_refs slots x \<Longrightarrow> j \<in> object_refs x"
  by (cases x) (auto simp: live_entries_mem Let_def split: if_splits)

lemma live_has_object:
  assumes "handles_issued h roots" and "live (hp_slots h) roots i"
  shows "heap_object h i \<noteq> None"
  using assms(2)
proof cases
  case live_root
  then show ?thesis using assms(1) unfolding handles_issued_def by blast
next
  case (live_strong k x)
  then have "heap_object h k = Some x" "i \<in> object_refs x" by (simp_all add: heap_object_def children_refs)
  with live_strong(4) assms(1) show ?thesis unfolding handles_issued_def by blast
next
  case (live_ephemeron k t p)
  then have "heap_object h k = Some (OTable t)" "i \<in> object_refs (OTable t)"
    by (auto simp: heap_object_def live_entries_mem)
  with live_ephemeron(8) assms(1) show ?thesis unfolding handles_issued_def by blast
qed

lemma finalizer_target_object:
  assumes "j \<in> set (finalizer_targets (finalizers slots indices))"
  shows "object_in slots j \<noteq> None" "\<not> marked slots j"
proof -
  from assms obtain f n where f: "finalizer_at slots n = Some f" "j = target_id (fst f)"
    by (auto simp: finalizer_targets_def finalizers_def)
  then obtain s x where "get slots (unat n) = Some s" "sl_object s = Some x" "\<not> sl_marked s"
    "j = ObjectId n (sl_generation s)"
    by (cases f) (auto simp: finalizer_at_def split: option.splits if_splits elim!: finalizer_state.elims)
  then show "object_in slots j \<noteq> None" "\<not> marked slots j"
    by (simp_all add: object_in_def slot_of_def marked_def)
qed

lemma all_roots_issued:
  assumes "handles_issued h (set (root_queue roots upvalues))" and "same_objects (hp_slots h) slots1"
    and "fs = finalizers slots1 indices"
  shows "handles_issued h (set (root_queue roots upvalues) \<union> set (finalizer_targets fs))"
proof -
  have "heap_object h j \<noteq> None" if "j \<in> set (finalizer_targets fs)" for j
    using finalizer_target_object(1) [of j slots1 indices] that assms(3) same_objects_slot_of(2) [OF assms(2)]
    by (simp add: heap_object_def)
  with assms(1) show ?thesis unfolding handles_issued_def by blast
qed

lemma vacant_unmarked:
  assumes idx: "indices_sound h2"
    and m: "\<forall>i. marked (hp_slots h2) i \<longrightarrow> object_in (hp_slots h2) i \<noteq> None"
  shows "\<forall>s\<in>set (hp_slots h2). sl_object s = None \<longrightarrow> \<not> sl_marked s"
proof (intro ballI impI notI)
  fix s
  assume "s \<in> set (hp_slots h2)" and none: "sl_object s = None" and marked: "sl_marked s"
  then obtain j where j: "j < length (hp_slots h2)" "s = hp_slots h2 ! j" by (auto simp: in_set_conv_nth)
  have "j < 2 ^ 32" using j(1) idx by (simp add: indices_sound_def)
  from index_of [OF this] j have at: "slot_of (hp_slots h2) (ObjectId (word_of_nat j) (sl_generation s)) = Some s"
    by (simp add: slot_of_Some)
  then have "marked (hp_slots h2) (ObjectId (word_of_nat j) (sl_generation s))" using marked by (simp add: marked_def)
  with m at none show False by (force simp: object_in_def)
qed

lemma after_sweep_sound:
  assumes idx: "indices_sound h" and ch: "charged_heap env ext h"
    and vacant: "\<forall>s\<in>set (hp_slots h). sl_object s = None \<longrightarrow> \<not> sl_marked s"
    and m: "ma_current_bytes m + dead_bytes env (hp_slots h) (hp_live_indices h) = ma_current_bytes (hp_memory h)"
  shows "heap_sound env ext (after_sweep fs m h)"
proof -
  let ?h = "swept_heap (finish_collection m) h" and ?ns = "hp_live_indices h"
  let ?s = "swept (hp_slots h) ?ns"
  have slots: "hp_slots ?h = ?s" by (simp add: swept_heap_def)
  have fin: "same_shape ?s (fold finish_finalizer fs ?s)" "total_held env (fold finish_finalizer fs ?s) = total_held env ?s"
    "objects_ok env ?s \<longrightarrow> objects_ok env (fold finish_finalizer fs ?s)" using finish_all by blast+
  have eq: "after_sweep fs m h = ?h\<lparr>hp_slots := fold finish_finalizer fs ?s, hp_memory := finish_collection m\<rparr>"
    by (simp add: after_sweep_def Let_def swept_heap_def)
  have "indices_sound (after_sweep fs m h)"
    unfolding eq using swept_indices_sound [OF idx] indices_shape [of ?h] fin(1) slots by simp
  moreover have "clean (hp_slots (after_sweep fs m h))"
    unfolding eq using swept_clean [OF idx vacant] shape_clean [OF fin(1)] by simp
  moreover have "distinct ?ns" using idx by (simp add: indices_sound_def)
  from swept_total [OF this indices_in_range [OF idx], of env] have "total_held env ?s + dead_bytes env (hp_slots h) ?ns = total_held env (hp_slots h)" .
  then have "charged_heap env ext (after_sweep fs m h)"
    unfolding eq using ch m fin(2,3) same_shape_nth(1) [OF fin(1)] swept_objects_ok [of env "hp_slots h" ?ns]
    by (simp add: charged_heap_def heap_bytes_def swept_heap_def)
  ultimately show ?thesis by (simp add: heap_sound_def arena_sound_def)
qed

text \<open>A collection leaves a sound heap, whether it succeeds or runs out of memory.\<close>

lemma collect_sound:
  assumes "heap_sound env ext h" and "handles_issued h (set (root_queue roots upvalues))"
    and "collect_with_upvalues_and_finalizers env roots upvalues h = Some (r, h')"
  shows "heap_sound env ext h' \<and> r \<noteq> Panic \<and>
    (\<forall>stats fs. r = Ok (stats, fs) \<longrightarrow> hp_live h' = cs_retained stats \<and>
       cs_before stats = hp_live h \<and> cs_retained stats + cs_collected stats = cs_before stats)"
proof (rule collect_outcome [OF assms(1,3)])
  fix h2 fs slots1
  let ?R = "set (root_queue roots upvalues) \<union> set (finalizer_targets fs)"
  assume fs: "fs = finalizers slots1 (hp_live_indices h)" and same: "same_objects (hp_slots h) slots1"
    and idx: "indices_sound h2" and ch: "charged_heap env ext h2"
    and m: "\<forall>i. marked (hp_slots h2) i \<longleftrightarrow> live (hp_slots h) ?R i"
    and obj: "\<forall>i x. object_in (hp_slots h) i = Some x \<longrightarrow> (\<exists>y. object_in (hp_slots h2) i = Some y \<and>
       (marked (hp_slots h2) i \<longrightarrow> survives (hp_slots h) ?R x y))"
    and li: "hp_live_indices h2 = hp_live_indices h"
    and out: "(\<exists>e. r = Err e \<and> h' = clear_marks h2) \<or>
     (\<exists>m. r = Ok (\<lparr>cs_before = hp_live h, cs_retained = length (filter (\<lambda>n. \<not> dead_at (hp_slots h2) n) (hp_live_indices h)),
              cs_collected = length (filter (dead_at (hp_slots h2)) (hp_live_indices h))\<rparr>, fs) \<and> h' = after_sweep fs m h2 \<and>
        ma_current_bytes m + dead_bytes env (hp_slots h2) (hp_live_indices h2) = ma_current_bytes (hp_memory h2))"
  have "marked (hp_slots h2) i \<longrightarrow> object_in (hp_slots h2) i \<noteq> None" for i
  proof
    assume "marked (hp_slots h2) i"
    with m have "live (hp_slots h) ?R i" by blast
    from live_has_object [OF all_roots_issued [OF assms(2) same fs] this] obj show "object_in (hp_slots h2) i \<noteq> None"
      by (auto simp: heap_object_def)
  qed
  then have vacant: "\<forall>s\<in>set (hp_slots h2). sl_object s = None \<longrightarrow> \<not> sl_marked s"
    by (intro vacant_unmarked [OF idx]) blast
  have len: "hp_live h = length (hp_live_indices h)"
    using assms(1) by (simp add: heap_sound_def arena_sound_def indices_sound_def)
  from out show ?thesis
  proof (elim disjE exE conjE)
    fix e
    assume "r = Err e" "h' = clear_marks h2"
    then show ?thesis using clear_marks_sound [OF idx ch vacant] by simp
  next
    fix ma
    assume "r = Ok (\<lparr>cs_before = hp_live h, cs_retained = length (filter (\<lambda>n. \<not> dead_at (hp_slots h2) n) (hp_live_indices h)),
              cs_collected = length (filter (dead_at (hp_slots h2)) (hp_live_indices h))\<rparr>, fs)"
      and h': "h' = after_sweep fs ma h2"
      and ma: "ma_current_bytes ma + dead_bytes env (hp_slots h2) (hp_live_indices h2) = ma_current_bytes (hp_memory h2)"
    moreover have "hp_live h' = length (filter (\<lambda>n. \<not> dead_at (hp_slots h2) n) (hp_live_indices h))"
      unfolding h' by (simp add: after_sweep_def swept_heap_def Let_def li)
    ultimately show ?thesis
      using after_sweep_sound [OF idx ch vacant ma, of fs] length_split [of "dead_at (hp_slots h2)" "hp_live_indices h"] len
      by simp
  qed
qed

section \<open>When a collection ends\<close>

text \<open>No weak-keyed table holds a value whose handle is stale.\<close>

definition no_stale_values :: "'b heap \<Rightarrow> bool" where
  "no_stale_values h \<longleftrightarrow>
     (\<forall>i t p j. heap_object h i = Some (OTable t) \<and> wm_keys (table_weak_mode (hp_slots h) t) \<and>
        \<not> wm_values (table_weak_mode (hp_slots h) t) \<and> p \<in> set (tb_hash t) \<and> value_ref (snd p) = Some j \<longrightarrow>
        heap_object h j \<noteq> None)"

lemma no_stale_entry: "no_stale_values h \<Longrightarrow> \<not> stale_entry (hp_slots h) roots"
  unfolding no_stale_values_def stale_entry_def heap_object_def live_entries_mem by blast

lemma collect_ends:
  assumes sound: "heap_sound env ext h" and no: "no_stale_values h"
  shows "\<exists>r h'. collect_with_upvalues_and_finalizers env roots upvalues h = Some (r, h')"
proof -
  have a: "clean (hp_slots h)" "all_flags (hp_slots h)" "tables_indexed (hp_slots h) (hp_live_indices h)"
    using sound objects_flags arena_tables by (auto simp: heap_sound_def arena_sound_def charged_heap_def)
  obtain slots1 where 1: "mark_loop (hp_slots h) (hp_live_indices h) (root_queue roots upvalues) = Some slots1"
    using mark_phase(1) [OF a] no_stale_entry [OF no] by blast
  obtain slots2 where 2: "mark_loop slots1 (hp_live_indices h) (finalizer_targets (finalizers slots1 (hp_live_indices h))) = Some slots2"
    using second_phase(1) [OF a 1] no_stale_entry [OF no] by blast
  show ?thesis
    using 1 2 unfolding collect_with_upvalues_and_finalizers_def root_queue_def [symmetric] by (auto simp: Let_def)
qed

lemma free_list_fits:
  assumes "indices_sound h2"
  shows "length (hp_free h2) + length (filter (dead_at (hp_slots h2)) (hp_live_indices h2)) \<le> 2 ^ 32"
proof -
  let ?h = "swept_heap undefined h2"
  have s: "indices_sound ?h" by (rule swept_indices_sound [OF assms])
  then have d: "distinct (hp_free ?h)" "unat ` set (hp_free ?h) = vacant (hp_slots ?h)" "length (hp_slots ?h) \<le> 2 ^ 32"
    by (simp_all add: indices_sound_def)
  have "length (hp_free ?h) = card (vacant (hp_slots ?h))"
    using d(1,2) by (metis card_image distinct_card inj_on_def unat_eq)
  also have "\<dots> \<le> card {..<length (hp_slots ?h)}" by (rule card_mono) (auto simp: vacant_def)
  finally show ?thesis using d(3) by (simp add: swept_heap_def)
qed

text \<open>The only request of a collection: room in the free list for the slots it frees.\<close>

definition free_list_bytes :: "'b heap \<Rightarrow> nat \<Rightarrow> nat" where
  "free_list_bytes h dead = (length (hp_free h) + dead) * sz_index"

lemma free_list_request:
  assumes "length (hp_free h) + dead \<le> 2 ^ 32"
  shows "try_reserve_vec_exact env sz_index (length (hp_free h)) dead =
    (if env_grants env (free_list_bytes h dead) then Ok ()
     else Err (HeMemory (AllocationFailed (free_list_bytes h dead))))"
proof -
  have "(length (hp_free h) + dead) * sz_index \<le> usize_max"
    using assms by (simp add: sz_index_def usize_max_def)
  moreover from this have "length (hp_free h) + dead \<le> usize_max" by (simp add: sz_index_def)
  ultimately show ?thesis
    by (simp add: try_reserve_vec_exact_def try_reserve_bytes_def checked_add_def free_list_bytes_def
        checked_vector_bytes_def checked_mul_def he_def ensure_def)
qed

lemma collect_answers:
  assumes "heap_sound env ext h" and "no_stale_values h"
  shows "\<exists>r h'. collect_with_upvalues_and_finalizers env roots upvalues h = Some (r, h') \<and>
    ((\<exists>stats fs. r = Ok (stats, fs)) \<or>
     (\<exists>dead \<le> hp_live h. r = Err (HeMemory (AllocationFailed (free_list_bytes h dead))) \<and>
        \<not> env_grants env (free_list_bytes h dead)))"
proof -
  obtain r h' where c: "collect_with_upvalues_and_finalizers env roots upvalues h = Some (r, h')"
    using collect_ends [OF assms(1,2)] by blast
  show ?thesis
  proof (rule collect_run [OF assms(1) c])
    fix fs slots1 slots
    assume same: "same_objects (hp_slots h) slots"
      and run: "(case clear_weak_references env (h\<lparr>hp_slots := slots\<rparr>) of
        (Err e, h) \<Rightarrow> (Err e, h) | (Panic, h) \<Rightarrow> (Panic, h)
      | (Ok _, h') \<Rightarrow> sweep_phase env (hp_live h) fs h') = (r, h')"
    show ?thesis
    proof (rule collect_middle [OF assms(1) same])
      fix h2
      assume mid: "clear_weak_references env (h\<lparr>hp_slots := slots\<rparr>) = (Ok (), h2)"
        "indices_sound h2" "charged_heap env ext h2" "hp_live h2 = hp_live h" "hp_free h2 = hp_free h"
      define dead where "dead = length (filter (dead_at (hp_slots h2)) (hp_live_indices h2))"
      have "dead \<le> hp_live h2" using mid(2) by (simp add: dead_def indices_sound_def)
      then have dead: "dead \<le> hp_live h" using mid(4) by simp
      have bytes: "free_list_bytes h2 dead = free_list_bytes h dead" by (simp add: free_list_bytes_def mid(5))
      have phase: "sweep_phase env (hp_live h2) fs h2 = (r, h')" using run mid(1,4) by simp
      note request = free_list_request [OF free_list_fits [OF mid(2)], of env, folded dead_def, unfolded bytes]
      show ?thesis
      proof (rule sweep_phase_outcome [OF mid(2,3) refl, of fs, folded dead_def, unfolded phase])
        fix e
        assume "(r, h') = (Err e, clear_marks h2)"
          and "try_reserve_vec_exact env sz_index (length (hp_free h2)) dead = Err e"
        with c dead request show ?thesis by (auto split: if_splits)
      qed (use c in auto)
    qed
  qed
qed

lemma collect_succeeds:
  assumes "heap_sound env ext h" and "no_stale_values h" and "\<forall>n. env_grants env n"
  shows "\<exists>stats fs h'. collect_with_upvalues_and_finalizers env roots upvalues h = Some (Ok (stats, fs), h')"
  using collect_answers [OF assms(1,2), of roots upvalues] assms(3) by auto

text \<open>C38: A collection of a sound heap ends, provided that no weak-keyed table holds a value whose
  handle is stale. It succeeds, unless the allocator refuses the one request it makes, for the free list with
  room for the slots freed, which are at most the live ones: then it ends with that failure.\<close>

theorem collect_terminates:
  assumes "heap_sound env ext h" and "no_stale_values h"
  shows "\<exists>r h'. collect_with_upvalues_and_finalizers env roots upvalues h = Some (r, h') \<and>
    ((\<exists>stats fs. r = Ok (stats, fs)) \<or>
     (\<exists>dead \<le> hp_live h. r = Err (HeMemory (AllocationFailed (free_list_bytes h dead))) \<and>
        \<not> env_grants env (free_list_bytes h dead)))"
  by (rule collect_answers [OF assms])

section \<open>A small heap\<close>

text \<open>A table that holds another, and a third that nothing holds.\<close>

definition occupied_slot :: "'b obj \<Rightarrow> 'b slot" where
  "occupied_slot x = \<lparr>sl_generation = 0, sl_marked = False, sl_object = Some x\<rparr>"

definition holder_table :: table where
  "holder_table = new_table\<lparr>tb_array := [VTable (ObjectId 2 0)], tb_array_room := 1, tb_array_capacity := 1,
     tb_array_contains_heap_reference := True\<rparr>"

definition heap_of :: "'b slot list \<Rightarrow> nat \<Rightarrow> 'b heap" where
  "heap_of slots n = (heap_try_new default_memory_config)\<lparr>hp_slots := slots,
     hp_live_indices := map word_of_nat [0..<length slots], hp_live := length slots,
     hp_memory := charge (memory_account_new default_memory_config) n\<rparr>"

definition three_tables :: "unit heap" where
  "three_tables = heap_of (map occupied_slot [OTable holder_table, OTable new_table, OTable new_table]) 40"

lemmas table_ok_eval = table_ok_def table_bytes_def table_flags_def live_entries_def table_room_def order_ok_def fits_def
  keys_def hm_contains_def

lemma sample_tables_ok: "table_ok sample_platform new_table" "table_ok sample_platform holder_table"
  by (simp_all add: table_ok_eval table_eval holder_table_def)

lemma three_tables_sound: "heap_sound sample_platform 0 three_tables"
proof -
  have three: "{n. n < Suc (Suc (Suc 0)) \<and> P n} = {n \<in> {0, 1, 2}. P n}" for P by auto
  have "arena_sound three_tables"
    by (auto simp: arena_sound_def indices_sound_def three_tables_def heap_of_def heap_try_new_def occupied_def vacant_def
        clean_def occupied_slot_def upt_rec less_Suc_eq)
  moreover have "objects_ok sample_platform (hp_slots three_tables)"
    using sample_tables_ok by (simp add: objects_ok_def three_tables_def heap_of_def heap_try_new_def occupied_slot_def)
  moreover have "heap_bytes sample_platform 0 three_tables = 40"
    by (simp add: heap_bytes_def total_held_def slot_held_def three_tables_def heap_of_def heap_try_new_def occupied_slot_def
        table_bytes_def table_eval holder_table_def)
  moreover have "ma_current_bytes (hp_memory three_tables) = 40"
    by (simp add: three_tables_def heap_of_def charge_def memory_account_new_def)
  ultimately show ?thesis by (simp add: heap_sound_def charged_heap_def usize_max_def)
qed

text \<open>Nothing is finalized where nothing is armed.\<close>

fun unarmed :: "'b obj \<Rightarrow> bool" where
  "unarmed (OTable t) \<longleftrightarrow> \<not> tb_finalizer_armed t"
| "unarmed (OUserData u) \<longleftrightarrow> \<not> ud_finalizer_armed u"
| "unarmed x \<longleftrightarrow> True"

lemma no_finalizers:
  assumes "heap_sound env ext h"
    and "collect_with_upvalues_and_finalizers env roots upvalues h = Some (Ok (stats, fs), h')"
    and un: "\<And>i x. heap_object h i = Some x \<Longrightarrow> unarmed x"
  shows "fs = []"
proof (rule collect_outcome [OF assms(1,2)])
  fix h2 fs2 slots1
  assume fs: "fs2 = finalizers slots1 (hp_live_indices h)" and same: "same_objects (hp_slots h) slots1"
    and out: "(\<exists>e. Ok (stats, fs) = Err e \<and> h' = clear_marks h2) \<or>
     (\<exists>m. Ok (stats, fs) = Ok (\<lparr>cs_before = hp_live h, cs_retained = length (filter (\<lambda>n. \<not> dead_at (hp_slots h2) n) (hp_live_indices h)),
              cs_collected = length (filter (dead_at (hp_slots h2)) (hp_live_indices h))\<rparr>, fs2) \<and> h' = after_sweep fs2 m h2 \<and>
        ma_current_bytes m + dead_bytes env (hp_slots h2) (hp_live_indices h2) = ma_current_bytes (hp_memory h2))"
  have "finalizer_at slots1 n = None" for n
  proof (cases "\<exists>s x. get slots1 (unat n) = Some s \<and> sl_object s = Some x")
    case True
    then obtain s x where s: "get slots1 (unat n) = Some s" "sl_object s = Some x" by blast
    then have "object_in slots1 (ObjectId n (sl_generation s)) = Some x" by (simp add: object_in_def slot_of_def)
    then have "unarmed x" using un same_objects_slot_of(2) [OF same] by (simp add: heap_object_def)
    then show ?thesis using s by (cases x) (simp_all add: finalizer_at_def)
  qed (auto simp: finalizer_at_def split: option.split)
  then have "set (concat (map (\<lambda>n. opt_list (finalizer_at slots1 n)) (hp_live_indices h))) = {}" by simp
  then have "concat (map (\<lambda>n. opt_list (finalizer_at slots1 n)) (hp_live_indices h)) = []" by (simp only: set_empty)
  then have "fs2 = []" by (simp only: fs finalizers_def sort_key_simps)
  with out show ?thesis by auto
qed

lemma three_slots: "hp_slots three_tables = map occupied_slot [OTable holder_table, OTable new_table, OTable new_table]"
  by (simp add: three_tables_def heap_of_def)

lemma three_objects: "heap_object three_tables i = Some x \<Longrightarrow> x = OTable holder_table \<or> x = OTable new_table"
  by (auto simp: heap_object_def three_slots less_Suc_eq numeral_eq_Suc occupied_slot_def dest!: object_in_nth)

lemma three_at:
  "heap_object three_tables (ObjectId 0 0) = Some (OTable holder_table)"
  "heap_object three_tables (ObjectId 1 0) = Some (OTable new_table)"
  by (simp_all add: heap_object_def object_in_def slot_of_def get_def three_slots occupied_slot_def)

lemma strong_tables: "table_weak_mode slots holder_table = default_weak_mode" "table_weak_mode slots new_table = default_weak_mode"
  by (simp_all add: table_weak_mode_def holder_table_def new_table_def)

lemma three_unarmed: "heap_object three_tables i = Some x \<Longrightarrow> unarmed x"
  by (drule three_objects) (auto simp: holder_table_def new_table_def)

lemma three_no_stale: "no_stale_values three_tables"
  by (auto simp: no_stale_values_def strong_tables default_weak_mode_def dest!: three_objects)

lemma three_live: "live (hp_slots three_tables) {ObjectId 0 0} i \<Longrightarrow> i = ObjectId 0 0 \<or> i = ObjectId 2 0"
proof (induction rule: live.induct)
  case (live_strong i x j)
  then have "x = OTable holder_table \<or> x = OTable new_table" using three_objects [of i x] by (simp add: heap_object_def)
  with live_strong(3) show ?case
    by (auto simp: strong_tables default_weak_mode_def) (auto simp: holder_table_def new_table_def live_entries_def)
next
  case (live_ephemeron i t p j)
  then show ?case using three_objects [of i "OTable t"] by (auto simp: heap_object_def strong_tables default_weak_mode_def)
qed simp

lemma three_collected:
  obtains stats h' where "collect_with_upvalues_and_finalizers sample_platform [VTable (ObjectId 0 0)] [] three_tables =
    Some (Ok (stats, []), h')"
proof -
  have "\<forall>n. env_grants sample_platform n" by (simp add: sample_platform_def)
  from collect_succeeds [OF three_tables_sound three_no_stale this] obtain stats fs h' where
    c: "collect_with_upvalues_and_finalizers sample_platform [VTable (ObjectId 0 0)] [] three_tables = Some (Ok (stats, fs), h')"
    by blast
  have "fs = []" by (rule no_finalizers [OF three_tables_sound c]) (rule three_unarmed)
  with c that show ?thesis by blast
qed

lemma three_roots: "all_roots [VTable (ObjectId 0 0)] [] [] = {ObjectId 0 0}"
  by (simp add: all_roots_def root_queue_def finalizer_targets_def enqueue_value_def)

theorem collect_keeps_live_witness:
  "\<exists>stats h'. collect_with_upvalues_and_finalizers sample_platform [VTable (ObjectId 0 0)] [] three_tables = Some (Ok (stats, []), h') \<and>
     heap_object h' (ObjectId 0 0) = Some (OTable holder_table) \<and> heap_object h' (ObjectId 1 0) = None"
proof -
  obtain stats h' where c: "collect_with_upvalues_and_finalizers sample_platform [VTable (ObjectId 0 0)] [] three_tables =
    Some (Ok (stats, []), h')" by (rule three_collected)
  note at = collect_keeps_live [OF three_tables_sound c]
  have "stays three_tables [VTable (ObjectId 0 0)] [] [] (ObjectId 0 0)"
    unfolding stays_def three_roots by (rule live_root) (simp_all add: slot_of_def get_def three_slots occupied_slot_def)
  then have "heap_object h' (ObjectId 0 0) = Some (OTable holder_table)"
    using at [OF three_at(1)] by (auto simp: strong_tables default_weak_mode_def)
  moreover have "\<not> stays three_tables [VTable (ObjectId 0 0)] [] [] (ObjectId 1 0)"
    unfolding stays_def three_roots using three_live by fastforce
  then have "heap_object h' (ObjectId 1 0) = None" using at [OF three_at(2)] by simp
  ultimately show ?thesis using c by blast
qed

lemma three_issued: "handles_issued three_tables (set (root_queue [VTable (ObjectId 0 0)] []))"
  unfolding handles_issued_def
proof (intro allI impI)
  fix j
  assume "j \<in> set (root_queue [VTable (ObjectId 0 0)] []) \<or> (\<exists>i x. heap_object three_tables i = Some x \<and> j \<in> object_refs x)"
  then have "j = ObjectId 0 0 \<or> j = ObjectId 2 0"
    by (auto simp: root_queue_def enqueue_value_def dest!: three_objects) (auto simp: holder_table_def new_table_def)
  then show "heap_object three_tables j \<noteq> None"
    by (auto simp: heap_object_def object_in_def slot_of_def get_def three_slots occupied_slot_def)
qed

theorem collect_terminates_witness:
  "\<exists>stats fs h'. collect_with_upvalues_and_finalizers sample_platform [] [] three_tables = Some (Ok (stats, fs), h')"
  using collect_terminates [OF three_tables_sound three_no_stale, of "[]" "[]"] by (auto simp: sample_platform_def)

section \<open>A collection that does not end\<close>

text \<open>A table with weak keys, its metatable, and the table after a value with a stale handle is stored.\<close>

definition mode_table :: table where
  "mode_table = new_table\<lparr>tb_hash := [(KString MODE_NAME, VString [107])], tb_hash_capacity := 1\<rparr>"

definition weak_table :: table where
  "weak_table = new_table\<lparr>tb_metatable := Some (ObjectId 1 0)\<rparr>"

definition weak_heap :: "unit heap" where
  "weak_heap = heap_of (map occupied_slot [OTable weak_table, OTable mode_table]) 96"

definition hung_heap :: "unit heap" where
  "hung_heap = snd (table_set sample_platform (ObjectId 0 0) (VString [1]) (VTable (ObjectId 5 0)) weak_heap)"

lemma hung_write:
  "fst (table_set sample_platform (ObjectId 0 0) (VString [1]) (VTable (ObjectId 5 0)) weak_heap) = Ok () \<and>
   hp_live_indices hung_heap = [0, 1] \<and>
   hp_slots hung_heap = map occupied_slot [OTable (weak_table\<lparr>tb_mutation := 1, tb_hash_contains_heap_value := True,
     tb_hash := [(KString [1], VTable (ObjectId 5 0))], tb_hash_capacity := 1\<rparr>), OTable mode_table]"
  by (simp add: hung_heap_def table_set_def weak_heap_def heap_of_def heap_try_new_def on_table_def heap_table_def heap_object_def
      object_in_def slot_of_def get_def occupied_slot_def put_object_def put_in_def upt_rec weak_table_def table_eval MODE_NAME_def ascii_def charge_def)

lemma weak_heap_sound: "heap_sound sample_platform 0 weak_heap"
proof -
  have "arena_sound weak_heap"
    by (auto simp: arena_sound_def indices_sound_def weak_heap_def heap_of_def heap_try_new_def occupied_def vacant_def
        clean_def occupied_slot_def upt_rec less_Suc_eq)
  moreover have "table_ok sample_platform weak_table" "table_ok sample_platform mode_table"
    by (simp_all add: table_ok_eval table_eval weak_table_def mode_table_def)
  then have "objects_ok sample_platform (hp_slots weak_heap)"
    by (simp add: objects_ok_def weak_heap_def heap_of_def heap_try_new_def occupied_slot_def)
  moreover have "heap_bytes sample_platform 0 weak_heap = 96"
    by (simp add: heap_bytes_def total_held_def slot_held_def weak_heap_def heap_of_def heap_try_new_def occupied_slot_def
        table_bytes_def table_eval weak_table_def mode_table_def)
  moreover have "ma_current_bytes (hp_memory weak_heap) = 96"
    by (simp add: weak_heap_def heap_of_def charge_def memory_account_new_def)
  ultimately show ?thesis by (simp add: heap_sound_def charged_heap_def usize_max_def)
qed

lemma hung_objects: "heap_object hung_heap i = Some x \<Longrightarrow>
    x = OTable (weak_table\<lparr>tb_mutation := 1, tb_hash_contains_heap_value := True,
      tb_hash := [(KString [1], VTable (ObjectId 5 0))], tb_hash_capacity := 1\<rparr>) \<or> x = OTable mode_table"
  using hung_write by (auto simp: heap_object_def less_Suc_eq occupied_slot_def dest!: object_in_nth)

lemma hung_stale: "stale_entry (hp_slots hung_heap) {ObjectId 0 0}"
proof -
  let ?t = "weak_table\<lparr>tb_mutation := 1, tb_hash_contains_heap_value := True,
     tb_hash := [(KString [1], VTable (ObjectId 5 0))], tb_hash_capacity := 1\<rparr>"
  have slots: "hp_slots hung_heap = map occupied_slot [OTable ?t, OTable mode_table]" using hung_write by blast
  have at: "object_in (hp_slots hung_heap) (ObjectId 0 0) = Some (OTable ?t)"
    "object_in (hp_slots hung_heap) (ObjectId 1 0) = Some (OTable mode_table)"
    "object_in (hp_slots hung_heap) (ObjectId 5 0) = None" "slot_of (hp_slots hung_heap) (ObjectId 0 0) \<noteq> None"
    by (simp_all add: slots object_in_def slot_of_def get_def occupied_slot_def)
  have mode: "table_weak_mode (hp_slots hung_heap) ?t = \<lparr>wm_keys = True, wm_values = False\<rparr>"
    by (simp add: table_weak_mode_def weak_table_def at) (simp add: mode_table_def tb_get_def new_table_def)
  have l: "live (hp_slots hung_heap) {ObjectId 0 0} (ObjectId 0 0)" by (rule live_root [OF _ at(4)]) simp
  show ?thesis
    unfolding stale_entry_def
    by (intro exI [of _ "ObjectId 0 0"] exI [of _ ?t] exI [of _ "(KString [1], VTable (ObjectId 5 0))"] exI [of _ "ObjectId 5 0"])
      (simp only: at(1,3) mode l weak_mode.simps simp_thms, simp add: live_entries_def)
qed

text \<open>Storing a value whose handle is stale in a table with weak keys is accepted, and from then on
  a collection that reaches the table does not return.\<close>

lemma stale_value_hangs_collection:
  "heap_sound sample_platform 0 weak_heap \<and>
   table_set sample_platform (ObjectId 0 0) (VString [1]) (VTable (ObjectId 5 0)) weak_heap = (Ok (), hung_heap) \<and>
   collect_with_upvalues_and_finalizers sample_platform [VTable (ObjectId 0 0)] [] hung_heap = None"
proof (intro conjI)
  show "heap_sound sample_platform 0 weak_heap" by (rule weak_heap_sound)
  show "table_set sample_platform (ObjectId 0 0) (VString [1]) (VTable (ObjectId 5 0)) weak_heap = (Ok (), hung_heap)"
    using hung_write by (intro prod_eqI) (simp_all add: hung_heap_def)
  have "clean (hp_slots hung_heap)" using hung_write by (simp add: clean_def occupied_slot_def)
  moreover have "all_flags (hp_slots hung_heap)"
    unfolding all_flags_def
  proof (intro allI impI)
    fix i x
    assume "object_in (hp_slots hung_heap) i = Some x"
    then have "heap_object hung_heap i = Some x" by (simp add: heap_object_def)
    from hung_objects [OF this] show "flags_ok x"
      by (elim disjE) (simp_all add: table_flags_def weak_table_def mode_table_def new_table_def live_entries_def)
  qed
  moreover have "tables_indexed (hp_slots hung_heap) (hp_live_indices hung_heap)"
    unfolding tables_indexed_def
  proof (intro allI impI)
    fix i t
    assume "object_in (hp_slots hung_heap) i = Some (OTable t)"
    then have "unat (id_index i) < 2" using hung_write by (auto dest!: object_in_nth)
    then have "id_index i = 0 \<or> id_index i = 1"
      using unat_eq [of "id_index i" 0] unat_eq [of "id_index i" 1] by (auto simp: less_2_cases_iff)
    then show "id_index i \<in> set (hp_live_indices hung_heap)" using hung_write by auto
  qed
  ultimately have "mark_loop (hp_slots hung_heap) (hp_live_indices hung_heap) [ObjectId 0 0] = None"
    using mark_phase(1) [of "hp_slots hung_heap" "hp_live_indices hung_heap" "[ObjectId 0 0]"] hung_stale by auto
  then show "collect_with_upvalues_and_finalizers sample_platform [VTable (ObjectId 0 0)] [] hung_heap = None"
    by (simp add: collect_with_upvalues_and_finalizers_def enqueue_value_def)
qed

section \<open>Trimming forgets a capacity\<close>

text \<open>
  A table with weak values and four entries, of which a collection clears the last two. Its array
  part shrinks to two, but \<open>legacy_array_capacity\<close> stays at four.
\<close>

definition four_writes :: "(key \<times> val) list" where
  "four_writes = [(KInteger 1, VBoolean True), (KInteger 2, VBoolean True),
     (KInteger 3, VTable (ObjectId 1 0)), (KInteger 4, VTable (ObjectId 1 0))]"

definition trimmed_array_table :: table where
  "trimmed_array_table = stripped [2, 3] []
     (fst (snd (tb_sets sample_platform four_writes new_table (memory_account_new default_memory_config))))"

definition later_writes :: "(key \<times> val) list" where
  "later_writes = [(KInteger 4, VBoolean True), (KInteger 3, VNil), (KInteger 5, VBoolean True)]"

text \<open>Written to afterwards, such a table loses an entry: after \<open>t[4] = true; t[3] = nil; t[5] = true\<close>
  it reads nil at 4, because the last write fills the array part over the entry in the hash part.\<close>

lemma trimmed_table_loses_entry:
  "\<exists>t m. tb_sets sample_platform later_writes trimmed_array_table (memory_account_new default_memory_config) = (Ok (), t, m) \<and>
     lookup t (KInteger 4) = VNil \<and> lookup t (KInteger 5) = VBoolean True"
  by (simp add: trimmed_array_table_def four_writes_def later_writes_def stripped_def trimmed_def strip_table_def retain_live_def
      lookup_def tb_get_def table_eval) (simp add: get_def numeral_eq_Suc)

end
