(* ===== verification/Runtime_Heap_Reach.thy ===== *)
theory Runtime_Heap_Reach
  imports Runtime_Store Runtime_Gc
begin

text \<open>
  Every heap that the operations of \<open>blu-runtime/src/heap.rs\<close> can reach from an empty one is sound.
\<close>

section \<open>The account stays a \<open>usize\<close>\<close>

definition bounded :: "tres \<Rightarrow> bool" where
  "bounded r \<longleftrightarrow> ma_current_bytes (snd (snd r)) \<le> usize_max"

named_theorems bounded_intros \<open>compositions that keep the account within a usize\<close>

lemma bounded_pair [bounded_intros]: "ma_current_bytes m \<le> usize_max \<Longrightarrow> bounded (r, t, m)"
  by (simp add: bounded_def)

lemma bounded_need [bounded_intros]:
  "(\<And>x. r = Ok x \<Longrightarrow> bounded (f x)) \<Longrightarrow> ma_current_bytes m \<le> usize_max \<Longrightarrow> bounded (need r t m f)"
  by (cases r) (simp_all add: bounded_def)

lemma bounded_then [bounded_intros]:
  assumes "bounded r" and "\<And>t1 m1. ma_current_bytes m1 \<le> usize_max \<Longrightarrow> bounded (f t1 m1)"
  shows "bounded (then_t r f)"
proof -
  obtain x t m where "r = (x, t, m)" by (cases r)
  with assms show ?thesis by (cases x) (auto simp: bounded_def)
qed

lemma reserving_bounded:
  assumes "reserving m n work old = (r, m')" and "work \<noteq> Panic" and "ma_current_bytes m \<le> usize_max"
  shows "ma_current_bytes m' \<le> usize_max"
proof (cases "is_ok r")
  case True
  with reserving_charge [OF assms(1,2)] have "ma_current_bytes m' + old = ma_current_bytes m + n" "is_ok (account_reserve m n)"
    by simp_all
  then show ?thesis using charge_fits_usize [of m n] by (auto simp: is_ok_iff res_simps)
next
  case False
  with reserving_charge [OF assms(1,2)] assms(3) show ?thesis by simp
qed

lemma grow_hash_bounded:
  assumes "platform_ok env" and "ma_current_bytes m \<le> usize_max"
  shows "bounded (grow_hash env n t m)"
proof -
  let ?c = "max (tb_hash_capacity t) n" and ?d = "grown_order_capacity t n False"
  let ?work = "try_reserve_hash_part env ?c ?d"
  have part: "bounded (let (r, m') = reserving m new_bytes ?work old_bytes;
          t' = (if is_ok (account_reserve m new_bytes) \<and> is_ok ?work then start_hash_order ?d t else t)
      in case r of
           Ok _ \<Rightarrow> (Ok (), rebuild_hash_order (t'\<lparr>tb_hash_capacity := ?c, tb_hash_order_capacity := ?d\<rparr>), m')
         | Err e \<Rightarrow> (Err e, t', m') | Panic \<Rightarrow> (Panic, t', m'))" for old_bytes new_bytes
  proof -
    obtain r m' where g: "reserving m new_bytes ?work old_bytes = (r, m')"
      by (cases "reserving m new_bytes ?work old_bytes")
    show ?thesis
      using reserving_bounded [OF g try_reserve_not_Panic(1) [OF assms(1)] assms(2)]
      by (cases r) (simp_all add: g bounded_def Let_def)
  qed
  show ?thesis
    using part assms(2) unfolding grow_hash_def by (auto simp: Let_def intro!: bounded_intros)
qed

lemma grow_array_bounded:
  assumes "ma_current_bytes m \<le> usize_max"
  shows "bounded (grow_array env n t m)"
proof -
  let ?work = "try_reserve_vec_to env (sz_value env) n"
  have part: "bounded (let (r, m') = reserving m new_bytes ?work old_bytes;
          t' = (if is_ok (account_reserve m new_bytes) \<and> is_ok ?work then t\<lparr>tb_array_room := n + env_spare env n\<rparr> else t)
      in case r of
           Ok _ \<Rightarrow> (Ok (), t'\<lparr>tb_array_capacity := n\<rparr>, m')
         | Err e \<Rightarrow> (Err e, t', m') | Panic \<Rightarrow> (Panic, t', m'))" for old_bytes new_bytes
  proof -
    obtain r m' where g: "reserving m new_bytes ?work old_bytes = (r, m')"
      by (cases "reserving m new_bytes ?work old_bytes")
    show ?thesis
      using reserving_bounded [OF g try_reserve_not_Panic(2) assms] by (cases r) (simp_all add: g bounded_def Let_def)
  qed
  have add: "bounded (case account_reserve m k of
        Ok m' \<Rightarrow> (Ok (), t\<lparr>tb_array_capacity := n\<rparr>, reservation_commit m' k) | Err e \<Rightarrow> (Err (HeMemory e), t, m) | Panic \<Rightarrow> (Panic, t, m))" for k
  proof (cases "account_reserve m k")
    case (Ok m')
    then have "ma_current_bytes m' \<le> usize_max" using charge_fits_usize [of m k] by (auto simp: res_simps)
    with Ok show ?thesis by (simp add: bounded_def reservation_commit_def)
  qed (use assms in \<open>simp_all add: bounded_def\<close>)
  show ?thesis
    using part add assms unfolding grow_array_def by (auto simp: Let_def intro!: bounded_intros)
qed

lemma tb_set_bounded:
  assumes "platform_ok env" and m: "ma_current_bytes m \<le> usize_max"
  shows "bounded (tb_set env k v t m)"
proof -
  note grow = grow_array_bounded grow_hash_bounded [OF assms(1)]
  have "bounded (set_in_hash env k v t m)" "bounded (set_in_array env k v i t m)" for i
    unfolding set_in_hash_def set_in_array_def Let_def using m by (auto intro!: bounded_intros grow)
  moreover have "bounded (set_past_boundary env v i t m)" "bounded (set_append env v i t m)" for i
    unfolding set_past_boundary_def set_append_def using m by (auto intro!: bounded_intros grow)
  ultimately show ?thesis
    unfolding tb_set_def using m by (auto split: option.split intro!: bounded_intros)
qed

section \<open>Operations through a handle\<close>

lemma heap_sound_fields [simp]:
  "heap_sound env ext (h\<lparr>hp_has_weak_tables := b\<rparr>) = heap_sound env ext h"
  "heap_sound env ext (h\<lparr>hp_next_finalizer_order := w\<rparr>) = heap_sound env ext h"
  by (simp_all add: heap_sound_def arena_sound_def indices_sound_def charged_heap_def heap_bytes_def)

lemma heap_object_fields [simp]:
  "heap_object (h\<lparr>hp_next_finalizer_order := w\<rparr>) i = heap_object h i"
  "heap_object (h\<lparr>hp_memory := m\<rparr>) i = heap_object h i"
  by (simp_all add: heap_object_def)

lemma heap_table_Ok: "heap_table h i = Ok t \<longleftrightarrow> heap_object h i = Some (OTable t)"
  by (auto simp: heap_table_def split: option.splits obj.splits)

lemma on_object_sound:
  "heap_sound env ext h \<Longrightarrow> (\<And>t. heap_object h i = Some (OTable t) \<Longrightarrow> heap_sound env ext (snd (f t))) \<Longrightarrow>
     heap_sound env ext (snd (on_table i h f))"
  "heap_sound env ext h \<Longrightarrow> (\<And>c. heap_object h i = Some (OClosure c) \<Longrightarrow> heap_sound env ext (snd (g c))) \<Longrightarrow>
     heap_sound env ext (snd (on_closure i h g))"
  "heap_sound env ext h \<Longrightarrow> (\<And>u. heap_object h i = Some (OUserData u) \<Longrightarrow> heap_sound env ext (snd (k u))) \<Longrightarrow>
     heap_sound env ext (snd (on_userdata i h k))"
  by (auto simp: on_table_def on_closure_def on_userdata_def heap_table_def heap_closure_def heap_userdata_def
      split: option.split obj.split)

lemma sound_object: "heap_sound env ext h \<Longrightarrow> heap_object h i = Some x \<Longrightarrow> object_ok env x"
  by (auto simp: heap_sound_def charged_heap_def heap_object_def intro: objects_ok_at)

text \<open>Tables that differ outside what the invariants speak about.\<close>

lemma table_ok_views:
  assumes "table_ok env t" and "view t' = view t" and "hash_view t' = hash_view t" and "caps t' = caps t"
  shows "table_ok env t' \<and> table_bytes env t' = table_bytes env t"
  using assms flags_view [OF assms(2)] room_view [OF assms(3)] table_bytes_caps [OF assms(4)] by (simp add: table_ok_def)

lemma put_table_sound:
  assumes "heap_sound env ext h" and "heap_object h i = Some (OTable t)"
    and "view t' = view t" "hash_view t' = hash_view t" "caps t' = caps t"
  shows "heap_sound env ext (put_object i (OTable t') h)"
  using table_ok_views [OF _ assms(3-5)] sound_object [OF assms(1,2)] by (intro put_sound [OF assms(1,2)]) simp_all

lemmas views = view_def hash_view_def caps_def

lemma cleared_ok: "table_ok env t \<Longrightarrow> table_ok env (cleared t) \<and> table_bytes env (cleared t) = table_bytes env t"
  by (auto simp: table_ok_def table_flags_def table_room_def order_ok_def fits_def keys_def cleared_def live_entries_def
      table_bytes_def hm_contains_def)

lemma table_set_sound:
  assumes "platform_ok env" and sound: "heap_sound env ext h"
  shows "heap_sound env ext (snd (table_set env i k v h))"
proof -
  have "heap_sound env ext (snd (let (r, t', m') = tb_set env key v (t\<lparr>tb_mutation := tb_mutation t + 1\<rparr>) (hp_memory h);
                   h' = (put_object i (OTable t') h)\<lparr>hp_memory := m'\<rparr>
               in (r, h'\<lparr>hp_has_weak_tables := hp_has_weak_tables h' \<or> is_ok r \<and> mode\<rparr>)))"
    if t: "heap_object h i = Some (OTable t)" for key t mode
  proof -
    let ?t = "t\<lparr>tb_mutation := tb_mutation t + 1\<rparr>"
    have "table_ok env t" using sound_object [OF sound t] by simp
    then have ok: "table_ok env ?t" "table_bytes env ?t = table_bytes env t"
      using table_ok_views [of env t ?t] by (simp_all add: views)
    then obtain b where b: "table_bytes env ?t = Ok b" by (auto simp: table_ok_def is_ok_iff)
    have mem: "ma_current_bytes (hp_memory h) \<le> usize_max" "total_held env (hp_slots h) \<le> ma_current_bytes (hp_memory h)"
      using sound charged_total by (auto simp: heap_sound_def charged_heap_def heap_bytes_def)
    have le: "b \<le> ma_current_bytes (hp_memory h)"
      using total_held_ge [of "hp_slots h" i "OTable t" env b] t b ok(2) mem(2) by (simp add: heap_object_def)
    obtain r t' m' where s: "tb_set env key v ?t (hp_memory h) = (r, t', m')" by (metis prod_cases3)
    have "charge_step env ?t (hp_memory h) t' m'" using tb_set_charged [OF assms(1), of ?t "hp_memory h" key v] s by (simp add: charged_def)
    then obtain b' where b': "table_bytes env t' = Ok b'" "ma_current_bytes m' + b = ma_current_bytes (hp_memory h) + b'"
      using b le by (auto simp: charge_step_def)
    have "table_flags t'" using tb_set_flags [of ?t env key v "hp_memory h"] ok(1) s by (simp add: keeps_def table_ok_def)
    moreover have "held env ?t (hp_memory h)" using b le by (simp add: held_def)
    then have "table_room t'" using tb_set_room [OF s _ _ assms(1)] ok(1) by (simp add: table_ok_def)
    ultimately have "table_ok env t'" using b' by (simp add: table_ok_def is_ok_iff)
    moreover have "ma_current_bytes m' \<le> usize_max" using tb_set_bounded [OF assms(1) mem(1), of key v ?t] s by (simp add: bounded_def)
    ultimately have "heap_fits env h (OTable t) (OTable t') m'" using b b' ok(2) by (auto simp: heap_fits_def)
    from heap_store_sound [OF sound t this] show ?thesis by (simp add: s heap_store_def)
  qed
  then show ?thesis
    unfolding table_set_def using sound
    by (auto split: res.split prod.split intro!: on_object_sound(1))
qed

section \<open>Allocations\<close>

text \<open>Every hash part of no entries can be sized.\<close>

definition env_sized :: "platform \<Rightarrow> bool" where
  "env_sized env \<longleftrightarrow> platform_ok env \<and> hash_part_bytes env 0 0 = Ok 0"

lemma allocate_sound:
  assumes "heap_sound env ext h"
    and "build \<noteq> Panic" "\<And>x. build = Ok x \<Longrightarrow> object_ok env x \<and> dynamic_bytes env x = Ok dynamic"
  shows "heap_sound env ext (snd (heap_allocate env dynamic build h))"
  using heap_allocate_outcome [OF assms] by (cases "heap_allocate env dynamic build h") (simp add: allocated_def)

lemma sized_sound:
  "heap_sound env ext h \<Longrightarrow> (\<And>n. bytes = Ok n \<Longrightarrow> heap_sound env ext (snd (f n))) \<Longrightarrow>
     heap_sound env ext (snd (sized bytes h f))"
  by (cases bytes) (simp_all add: sized_def)

lemma try_build_Ok: "try_build r x = Ok y \<Longrightarrow> y = x"
  by (auto simp: try_build_def res_simps)

lemma try_build_not_Panic: "r \<noteq> Panic \<Longrightarrow> try_build r x \<noteq> Panic"
  by (cases r) (simp_all add: try_build_def)

lemma fresh_table_ok:
  assumes "env_sized env" and "table_capacity_bytes env a c = Ok n"
  shows "table_ok env (fresh_table env a c order) \<and> table_bytes env (fresh_table env a c order) = Ok n"
proof -
  have "table_bytes env (fresh_table env a c order) = Ok n"
    using assms by (auto simp: env_sized_def table_bytes_def table_capacity_bytes_def fresh_table_def new_table_def
        hash_part_bytes_def res_simps)
  then show ?thesis
    by (simp add: table_ok_def table_flags_def live_entries_def table_room_def order_ok_def fits_def keys_def
        fresh_table_def new_table_def hm_contains_def)
qed

lemma allocations_sound:
  assumes "heap_sound env ext h"
  shows "env_sized env \<Longrightarrow> heap_sound env ext (snd (allocate_table env a c order h))"
    "heap_sound env ext (snd (allocate_upvalue env v h))"
    "heap_sound env ext (snd (allocate_closure env code prototype profile n h))"
    "heap_sound env ext (snd (allocate_native_closure env function upvalues h))"
    "heap_sound env ext (snd (allocate_thread env roots h))"
    "heap_sound env ext (snd (allocate_userdata env tag n h))"
proof -
  show "heap_sound env ext (snd (allocate_table env a c order h))" if env: "env_sized env"
  proof -
    have "try_reserve_hash env (sz_key_value env) (al_key_value env) 0 c \<noteq> Panic"
      using env by (auto simp: env_sized_def platform_ok_def try_reserve_hash_def try_reserve_bytes_def res_simps
          dest: checked_hash_bytes_not_Panic)
    then have work: "rbind (try_reserve_vec_exact env (sz_value env) 0 a)
        (\<lambda>_. try_reserve_hash env (sz_key_value env) (al_key_value env) 0 c) \<noteq> Panic"
      by (auto simp: res_simps try_reserve_not_Panic)
    show ?thesis
      unfolding allocate_table_def
      by (intro sized_sound allocate_sound assms try_build_not_Panic work)
        (auto dest!: try_build_Ok simp: fresh_table_ok [OF env])
  qed
  show "heap_sound env ext (snd (allocate_upvalue env v h))"
    unfolding allocate_upvalue_def by (intro allocate_sound assms) auto
  show "heap_sound env ext (snd (allocate_closure env code prototype profile n h))"
    "heap_sound env ext (snd (allocate_userdata env tag n h))"
    unfolding allocate_closure_def allocate_userdata_def
    by (intro sized_sound allocate_sound assms try_build_not_Panic try_reserve_not_Panic;
        auto dest!: try_build_Ok)+
  show "heap_sound env ext (snd (allocate_native_closure env function upvalues h))"
    unfolding allocate_native_closure_def by (intro sized_sound allocate_sound assms) auto
  have z: "checked_vector_bytes (sz_upvalue env) 0 = Ok 0" by (simp add: checked_vector_bytes_def checked_mul_def)
  show "heap_sound env ext (snd (allocate_thread env roots h))"
    unfolding allocate_thread_def
    by (intro sized_sound allocate_sound assms try_build_not_Panic try_reserve_not_Panic)
      (auto dest!: try_build_Ok simp: object_ok_def z res_simps is_ok_iff)
qed

section \<open>Every other operation\<close>

lemma memory_sound:
  "heap_sound env ext h \<Longrightarrow> ma_current_bytes m + d = ma_current_bytes (hp_memory h) + d' \<Longrightarrow> ext' + d = ext + d' \<Longrightarrow>
     ma_current_bytes m \<le> usize_max \<Longrightarrow> heap_sound env ext' (h\<lparr>hp_memory := m\<rparr>)"
  by (simp add: heap_sound_def arena_sound_def indices_sound_def charged_heap_def heap_bytes_def)

lemma sound_bounded: "heap_sound env ext h \<Longrightarrow> ma_current_bytes (hp_memory h) \<le> usize_max"
  by (simp add: heap_sound_def charged_heap_def)

text \<open>An object replaced by one of another size under a reservation.\<close>

lemma reserve_put_sound:
  assumes sound: "heap_sound env ext h" and x: "heap_object h i = Some x" "dynamic_bytes env x = Ok old"
    and y: "object_ok env y" "dynamic_bytes env y = Ok new"
    and r: "reserving (hp_memory h) new work old = (r, m)" "work \<noteq> Panic"
  shows "heap_sound env ext (if is_ok r then put_object i y (h\<lparr>hp_memory := m\<rparr>) else h\<lparr>hp_memory := m\<rparr>)"
proof -
  have le: "ma_current_bytes m \<le> usize_max" by (rule reserving_bounded [OF r sound_bounded [OF sound]])
  note c = reserving_charge [OF r]
  show ?thesis
  proof (cases "is_ok r")
    case True
    with c x(2) y le have "heap_fits env h x y m" by (auto simp: heap_fits_def)
    moreover have "put_object i y (h\<lparr>hp_memory := m\<rparr>) = heap_store i y m h" by (cases h) (simp add: heap_store_def put_object_def)
    ultimately show ?thesis using heap_store_sound [OF sound x(1), of y m] True by simp
  next
    case False
    with c le show ?thesis using memory_sound [OF sound, of m 0 0 ext] by simp
  qed
qed

lemma external_sound:
  assumes "heap_sound env ext h"
  shows "heap_sound env (if is_ok (fst (charge_external n h)) then ext + n else ext) (snd (charge_external n h))"
    "n \<le> ext \<Longrightarrow> heap_sound env (if is_ok (fst (release_external n h)) then ext - n else ext) (snd (release_external n h))"
proof -
  show "heap_sound env (if is_ok (fst (charge_external n h)) then ext + n else ext) (snd (charge_external n h))"
  proof (cases "account_reserve (hp_memory h) n")
    case (Ok m)
    then have "m = charge (hp_memory h) n" "ma_current_bytes (hp_memory h) + n \<le> usize_max"
      using charge_fits_usize by (simp_all add: res_simps)
    then have "heap_sound env (ext + n) (h\<lparr>hp_memory := m\<rparr>)" by (intro memory_sound [OF assms, of m 0 n]) simp_all
    then show ?thesis by (simp add: charge_external_def Ok reservation_commit_def)
  qed (simp_all add: charge_external_def assms)
  show "heap_sound env (if is_ok (fst (release_external n h)) then ext - n else ext) (snd (release_external n h))" if n: "n \<le> ext"
  proof (cases "account_release (hp_memory h) n")
    case (Ok m)
    then have m: "ma_current_bytes m + n = ma_current_bytes (hp_memory h)"
      by (auto simp: account_release_def res_simps checked_sub_def split: if_splits)
    then have "heap_sound env (ext - n) (h\<lparr>hp_memory := m\<rparr>)"
      using n sound_bounded [OF assms] by (intro memory_sound [OF assms, of m n 0]) simp_all
    then show ?thesis by (simp add: release_external_def Ok)
  qed (simp_all add: release_external_def assms)
qed

lemma table_ops_sound:
  assumes "heap_sound env ext h"
  shows "heap_sound env ext (snd (table_clear i h))"
    "heap_sound env ext (snd (table_mark_preallocated_array_boundary i h))"
    "heap_sound env ext (snd (table_freeze i h))"
    "heap_sound env ext (snd (set_table_metatable i metatable h))"
    "heap_sound env ext (snd (set_table_finalizer_state i armed done_already profile h))"
proof -
  have put: "heap_sound env ext (put_object i (OTable (cleared t)) h)" if "heap_object h i = Some (OTable t)" for t
    using cleared_ok [of env t] sound_object [OF assms that] by (intro put_sound [OF assms that]) simp_all
  note put_table = put_table_sound [OF assms]
  show "heap_sound env ext (snd (table_clear i h))"
    unfolding table_clear_def by (rule on_object_sound(1) [OF assms]) (simp add: assms put)
  show "heap_sound env ext (snd (table_mark_preallocated_array_boundary i h))"
    "heap_sound env ext (snd (table_freeze i h))"
    unfolding table_mark_preallocated_array_boundary_def table_freeze_def
    by (rule on_object_sound(1) [OF assms]; auto simp: assms intro!: put_table simp: views)+
  show "heap_sound env ext (snd (set_table_metatable i metatable h))"
    unfolding set_table_metatable_def
    by (auto split: res.split simp: assms intro!: on_object_sound(1) put_table simp: views reset_finalizer_def)
  show "heap_sound env ext (snd (set_table_finalizer_state i armed done_already profile h))"
    unfolding set_table_finalizer_state_def draw_finalizer_order_def
    by (auto simp: assms intro!: on_object_sound(1) put_table_sound simp: views)
qed

lemma other_ops_sound:
  assumes "heap_sound env ext h"
  shows "heap_sound env ext (snd (set_userdata_metatable i metatable h))"
    "heap_sound env ext (snd (set_userdata_finalizer_state i armed done_already profile h))"
    "heap_sound env ext (snd (userdata_set_user_value i index v h))"
    "heap_sound env ext (snd (closure_set_environment i environment h))"
    "heap_sound env ext (snd (closure_set_upvalue i index upvalue h))"
    "heap_sound env ext (snd (upvalue_set i v h))"
proof -
  have put: "heap_sound env ext (put_object i y h')"
    if "heap_sound env ext h'" "heap_object h' i = Some x" "dynamic_bytes env y = dynamic_bytes env x" "\<And>t. y \<noteq> OTable t"
    for x y and h' :: "'a heap"
    using sound_object [OF that(1,2)] object_ok_bytes [of env x] that(3,4)
    by (intro put_sound [OF that(1,2)]) (cases y; auto simp: object_ok_def is_ok_iff)+
  show "heap_sound env ext (snd (set_userdata_metatable i metatable h))"
    unfolding set_userdata_metatable_def
    by (auto split: res.split simp: assms intro!: on_object_sound(3) put)
  show "heap_sound env ext (snd (set_userdata_finalizer_state i armed done_already profile h))"
    unfolding set_userdata_finalizer_state_def draw_finalizer_order_def
    by (auto simp: assms intro!: on_object_sound(3) put)
  show "heap_sound env ext (snd (userdata_set_user_value i index v h))"
    unfolding userdata_set_user_value_def
    by (auto simp: assms intro!: on_object_sound(3) put)
  show "heap_sound env ext (snd (closure_set_environment i environment h))"
    unfolding closure_set_environment_def
    by (auto simp: assms intro!: on_object_sound(1,2) put)
  show "heap_sound env ext (snd (closure_set_upvalue i index upvalue h))"
    unfolding closure_set_upvalue_def
    by (auto simp: assms intro!: on_object_sound(2) put)
  show "heap_sound env ext (snd (upvalue_set i v h))"
    by (auto simp: upvalue_set_def assms split: option.split obj.split intro!: put)
qed

lemma closure_push_sound:
  assumes "heap_sound env ext h"
  shows "heap_sound env ext (snd (closure_push_upvalue env i upvalue h))"
  unfolding closure_push_upvalue_def
proof (rule on_object_sound(2) [OF assms], goal_cases)
  case (1 c)
  let ?r = "length (cl_upvalues c) + 1" let ?bytes = "\<lambda>n. checked_vector_bytes (sz_upvalue env) n"
  let ?pushed = "c\<lparr>cl_upvalues := cl_upvalues c @ [upvalue]\<rparr>"
  note ok = sound_object [OF assms 1]
  show ?case
  proof (cases "?r \<le> usize_max")
    case False
    then show ?thesis by (simp add: checked_add_def assms)
  next
    case small: True
    show ?thesis
    proof (cases "?r \<le> cl_upvalue_capacity c")
      case True
      have "heap_sound env ext (put_object i (OClosure ?pushed) h)" using ok by (intro put_sound [OF assms 1]) simp_all
      with True small show ?thesis by (simp add: checked_add_def)
    next
      case False
      obtain old where old: "?bytes (cl_upvalue_capacity c) = Ok old" using ok by (auto simp: is_ok_iff)
      show ?thesis
      proof (cases "?bytes ?r")
        case (Ok new)
        obtain r m where res: "reserving (hp_memory h) new (try_reserve_vec_to env (sz_upvalue env) ?r) old = (r, m)"
          by (cases "reserving (hp_memory h) new (try_reserve_vec_to env (sz_upvalue env) ?r) old")
        have "heap_sound env ext (if is_ok r then put_object i (OClosure (?pushed\<lparr>cl_upvalue_capacity := ?r\<rparr>)) (h\<lparr>hp_memory := m\<rparr>)
          else h\<lparr>hp_memory := m\<rparr>)"
          by (rule reserve_put_sound [OF assms 1 _ _ _ res try_reserve_not_Panic(2)]) (use old Ok in \<open>simp_all add: is_ok_iff\<close>)
        with False small old Ok res show ?thesis by (cases r) (simp_all add: checked_add_def he_def)
      qed (use False small old in \<open>simp_all add: checked_add_def he_def assms\<close>)
    qed
  qed
qed

lemma thread_roots_sound:
  assumes "heap_sound env ext h"
  shows "heap_sound env ext (snd (thread_set_gc_roots env i roots upvalues h))"
proof (cases "heap_thread h i")
  case (Ok th)
  then have th: "heap_object h i = Some (OThread th)" by (auto simp: heap_thread_def split: option.splits obj.splits)
  obtain old where old: "thread_root_bytes env (th_root_capacity th) (th_upvalue_capacity th) = Ok old"
    using sound_object [OF assms th] by (auto simp: object_ok_def is_ok_iff thread_root_bytes_def)
  let ?y = "OThread \<lparr>th_roots = roots, th_root_capacity = length roots, th_upvalues = upvalues, th_upvalue_capacity = length upvalues\<rparr>"
  let ?work = "try_clone_roots env (length roots) (length upvalues)"
  show ?thesis
  proof (cases "thread_root_bytes env (length roots) (length upvalues)")
    case new: (Ok new)
    obtain r m where res: "reserving (hp_memory h) new ?work old = (r, m)" by (cases "reserving (hp_memory h) new ?work old")
    have "?work \<noteq> Panic" by (auto simp: try_clone_roots_def res_simps try_reserve_not_Panic)
    then have "heap_sound env ext (if is_ok r then put_object i ?y (h\<lparr>hp_memory := m\<rparr>) else h\<lparr>hp_memory := m\<rparr>)"
      by (intro reserve_put_sound [OF assms th _ _ _ res])
        (use old new in \<open>simp_all add: is_ok_iff object_ok_def thread_root_bytes_def\<close>)
    with Ok old new res show ?thesis by (cases r) (simp_all add: thread_set_gc_roots_def he_def)
  qed (use Ok old in \<open>simp_all add: thread_set_gc_roots_def he_def assms\<close>)
qed (simp_all add: thread_set_gc_roots_def assms)

section \<open>Reachable heaps\<close>

datatype 'b heap_op =
    OpAllocateTable nat nat hash_iteration_order
  | OpAllocateUpvalue val
  | OpAllocateClosure "'b closure_code" nat semantic_profile nat
  | OpAllocateNative "32 word" "upvalue_id list"
  | OpAllocateThread "val list"
  | OpAllocateUserdata bytes nat
  | OpTableSet table_id val val
  | OpTableClear table_id
  | OpTableBoundary table_id
  | OpTableFreeze table_id
  | OpTableMetatable table_id "table_id option"
  | OpTableFinalizer table_id bool bool "semantic_profile option"
  | OpUserdataMetatable userdata_id "table_id option"
  | OpUserdataFinalizer userdata_id bool bool "semantic_profile option"
  | OpUserdataValue userdata_id nat val
  | OpThreadRoots thread_id "val list" "upvalue_id list"
  | OpClosureEnvironment closure_id table_id
  | OpClosurePush closure_id upvalue_id
  | OpClosureUpvalue closure_id nat upvalue_id
  | OpUpvalueSet upvalue_id val

fun perform :: "platform \<Rightarrow> 'b heap_op \<Rightarrow> 'b heap \<Rightarrow> 'b heap" where
  "perform env (OpAllocateTable a c order) h = snd (allocate_table env a c order h)"
| "perform env (OpAllocateUpvalue v) h = snd (allocate_upvalue env v h)"
| "perform env (OpAllocateClosure code prototype profile n) h = snd (allocate_closure env code prototype profile n h)"
| "perform env (OpAllocateNative function upvalues) h = snd (allocate_native_closure env function upvalues h)"
| "perform env (OpAllocateThread roots) h = snd (allocate_thread env roots h)"
| "perform env (OpAllocateUserdata tag n) h = snd (allocate_userdata env tag n h)"
| "perform env (OpTableSet i k v) h = snd (table_set env i k v h)"
| "perform env (OpTableClear i) h = snd (table_clear i h)"
| "perform env (OpTableBoundary i) h = snd (table_mark_preallocated_array_boundary i h)"
| "perform env (OpTableFreeze i) h = snd (table_freeze i h)"
| "perform env (OpTableMetatable i metatable) h = snd (set_table_metatable i metatable h)"
| "perform env (OpTableFinalizer i armed done_already profile) h = snd (set_table_finalizer_state i armed done_already profile h)"
| "perform env (OpUserdataMetatable i metatable) h = snd (set_userdata_metatable i metatable h)"
| "perform env (OpUserdataFinalizer i armed done_already profile) h = snd (set_userdata_finalizer_state i armed done_already profile h)"
| "perform env (OpUserdataValue i index v) h = snd (userdata_set_user_value i index v h)"
| "perform env (OpThreadRoots i roots upvalues) h = snd (thread_set_gc_roots env i roots upvalues h)"
| "perform env (OpClosureEnvironment i environment) h = snd (closure_set_environment i environment h)"
| "perform env (OpClosurePush i upvalue) h = snd (closure_push_upvalue env i upvalue h)"
| "perform env (OpClosureUpvalue i index upvalue) h = snd (closure_set_upvalue i index upvalue h)"
| "perform env (OpUpvalueSet i v) h = snd (upvalue_set i v h)"

lemma perform_sound:
  assumes "env_sized env" and "heap_sound env ext h"
  shows "heap_sound env ext (perform env op h)"
proof -
  have "platform_ok env" using assms(1) by (simp add: env_sized_def)
  note sound = allocations_sound [OF assms(2)] table_set_sound [OF this assms(2)] table_ops_sound [OF assms(2)]
    other_ops_sound [OF assms(2)] closure_push_sound [OF assms(2)] thread_roots_sound [OF assms(2)]
  show ?thesis using assms(1) by (cases op) (simp_all add: sound)
qed

text \<open>
  What is charged and released from outside is counted; a collection starts from handles that were
  given out.
\<close>

inductive heap_reach :: "platform \<Rightarrow> memory_config \<Rightarrow> nat \<Rightarrow> 'b heap \<Rightarrow> bool" for env config where
  reach_new: "heap_reach env config 0 (heap_try_new config)"
| reach_operation: "heap_reach env config ext h \<Longrightarrow> heap_reach env config ext (perform env op h)"
| reach_charge: "heap_reach env config ext h \<Longrightarrow>
    heap_reach env config (if is_ok (fst (charge_external n h)) then ext + n else ext) (snd (charge_external n h))"
| reach_release: "heap_reach env config ext h \<Longrightarrow> n \<le> ext \<Longrightarrow>
    heap_reach env config (if is_ok (fst (release_external n h)) then ext - n else ext) (snd (release_external n h))"
| reach_collect: "heap_reach env config ext h \<Longrightarrow> handles_issued h (set (root_queue roots upvalues)) \<Longrightarrow>
    collect_with_upvalues_and_finalizers env roots upvalues h = Some (r, h') \<Longrightarrow> heap_reach env config ext h'"

lemma new_heap_sound: "heap_sound env 0 (heap_try_new config)"
  by (simp add: heap_sound_def arena_sound_def indices_sound_def occupied_def vacant_def clean_def charged_heap_def
      objects_ok_def heap_bytes_def total_held_def heap_try_new_def memory_account_new_def)

text \<open>As many handles resolve as the heap counts objects.\<close>

lemma handles_counted:
  assumes "indices_sound h"
  shows "card {i. heap_object h i \<noteq> None} = hp_live h"
proof -
  let ?f = "\<lambda>n. ObjectId n (sl_generation (hp_slots h ! unat n))"
  have "{i. heap_object h i \<noteq> None} = ?f ` set (hp_live_indices h)"
  proof (intro set_eqI iffI)
    fix i
    assume "i \<in> {i. heap_object h i \<noteq> None}"
    then obtain x where x: "object_in (hp_slots h) i = Some x" by (auto simp: heap_object_def)
    have "sl_generation (hp_slots h ! unat (id_index i)) = id_generation i" using object_in_nth [OF x] by blast
    then have i: "i = ?f (id_index i)" by (cases i) (simp only: object_id.sel)
    have "?f (id_index i) \<in> ?f ` set (hp_live_indices h)" by (rule imageI [OF indices_tables [OF assms x]])
    then show "i \<in> ?f ` set (hp_live_indices h)" unfolding i [symmetric] .
  next
    fix i
    assume "i \<in> ?f ` set (hp_live_indices h)"
    then obtain n where n: "n \<in> set (hp_live_indices h)" "i = ?f n" by blast
    then have "unat n \<in> unat ` set (hp_live_indices h)" by blast
    then have "unat n \<in> occupied (hp_slots h)" using assms by (simp add: indices_sound_def)
    then have "unat n < length (hp_slots h)" "sl_object (hp_slots h ! unat n) \<noteq> None" by (simp_all add: occupied_def)
    then have "heap_object h (?f n) \<noteq> None" by (simp add: heap_object_def object_in_def slot_of_def get_def)
    with n(2) show "i \<in> {i. heap_object h i \<noteq> None}" by blast
  qed
  moreover have "inj_on ?f (set (hp_live_indices h))" by (rule inj_onI) simp
  ultimately have "card {i. heap_object h i \<noteq> None} = card (set (hp_live_indices h))" by (simp add: card_image)
  then show ?thesis using assms by (simp add: indices_sound_def distinct_card)
qed

text \<open>C37: Every reachable heap is sound: the free list and the list of live indices split the slots
  between them, no mark outlives a collection, every table has room for what it holds and its
  reference flags are right, exactly as many handles resolve as objects are counted, and the account
  is the sum of what the slots, the objects, the strings and the outstanding external charges take.\<close>

theorem heap_reachable_sound:
  assumes "env_sized env" and "heap_reach env config ext h"
  shows "heap_sound env ext h \<and> card {i. heap_object h i \<noteq> None} = hp_live h \<and>
    ma_current_bytes (hp_memory h) =
      length (hp_slots h) * sz_slot env + total_held env (hp_slots h) + hp_string_bytes h + ext"
proof -
  have sound: "heap_sound env ext h"
    using assms(2)
  proof induction
    case reach_new
    show ?case by (rule new_heap_sound)
  next
    case (reach_operation ext h op)
    show ?case by (rule perform_sound [OF assms(1) reach_operation.IH])
  next
    case (reach_charge ext h n)
    show ?case by (rule external_sound(1) [OF reach_charge.IH])
  next
    case (reach_release ext h n)
    show ?case by (rule external_sound(2) [OF reach_release.IH reach_release.hyps(2)])
  next
    case (reach_collect ext h roots upvalues r h')
    show ?case using collect_sound [OF reach_collect.IH reach_collect.hyps(2,3)] by simp
  qed
  then have "indices_sound h" by (simp add: heap_sound_def arena_sound_def)
  from handles_counted [OF this] sound show ?thesis by (simp add: heap_sound_def charged_heap_def heap_bytes_def)
qed

lemma sample_sized: "env_sized sample_platform"
  by (simp add: env_sized_def platform_ok_def is_power_of_two_def table_eval)

theorem heap_reachable_sound_witness:
  "\<exists>h :: unit heap. heap_reach sample_platform default_memory_config 5 h \<and> heap_sound sample_platform 5 h \<and> hp_live h = 2 \<and>
     heap_object h (ObjectId 1 0) = Some (OUpvalue (VInteger 7))"
proof -
  let ?new = "heap_try_new default_memory_config :: unit heap"
  let ?h = "snd (charge_external 5 (perform sample_platform (OpUpvalueSet (ObjectId 1 0) (VInteger 7))
     (perform sample_platform (OpAllocateUpvalue VNil) (perform sample_platform (OpAllocateTable 2 1 Unordered) ?new))))"
  note eval = heap_try_new_def allocate_table_def allocate_upvalue_def sized_def heap_allocate_def allocate_at_def allocate_work_def
    slot_bytes_def try_build_def table_capacity_bytes_def upvalue_set_def heap_object_def object_in_def slot_of_def get_def
    put_object_def put_in_def charge_external_def try_reserve_vec_exact_def try_reserve_hash_def table_eval sz_index_def
  have e: "is_ok (fst (charge_external 5 (perform sample_platform (OpUpvalueSet (ObjectId 1 0) (VInteger 7))
     (perform sample_platform (OpAllocateUpvalue VNil) (perform sample_platform (OpAllocateTable 2 1 Unordered) ?new)))))"
    "hp_live ?h = 2" "heap_object ?h (ObjectId 1 0) = Some (OUpvalue (VInteger 7))"
    by (simp_all add: eval)
  have before: "heap_reach sample_platform default_memory_config 0 (perform sample_platform (OpUpvalueSet (ObjectId 1 0) (VInteger 7))
     (perform sample_platform (OpAllocateUpvalue VNil) (perform sample_platform (OpAllocateTable 2 1 Unordered) ?new)))"
    by (intro reach_operation reach_new)
  have r: "heap_reach sample_platform default_memory_config 5 ?h"
    using reach_charge [where n = 5, OF before] unfolding if_P [OF e(1)] by (simp del: perform.simps)
  from heap_reachable_sound [OF sample_sized r] r e(2,3) show ?thesis by blast
qed

end
