(* ===== verification/Syntax_Token.thy ===== *)
theory Syntax_Token
  imports Core_Diagnostic Core_Source
begin

text \<open>
  \<open>blu-syntax/src/lib.rs\<close>, its data: tokens, limits and errors of the lexer, what each profile
  supports, and the bounded pushing of tokens and diagnostics. \<open>alloc n\<close> is the allocator's answer
  to a fallible reservation.
\<close>

section \<open>Tokens\<close>

datatype (plugins only:) token_kind =
    TkWhitespace | TkComment | TkDialectDirective
  | TkGlobal | TkLocal | TkFunction | TkReturn | TkNot | TkAnd | TkOr | TkIf | TkThen | TkElseIf | TkElse | TkEnd
  | TkWhile | TkDo | TkRepeat | TkUntil | TkFor | TkIn | TkGoto | TkColonColon | TkBreak | TkContinue | TkNil
  | TkTrue | TkFalse | TkIdentifier
  | TkDecimalInteger | TkDecimalNumber | TkHexInteger | TkHexNumber | TkBinaryInteger | TkStringLiteral
  | TkInterpolatedStringStart | TkInterpolatedStringEnd | TkInterpolatedStringText
  | TkInterpolationOpen | TkInterpolationClose
  | TkEqual | TkEqualEqual | TkNotEqual | TkLessThan | TkLessEqual | TkGreaterThan | TkGreaterEqual
  | TkBitwiseAnd | TkBitwiseOr | TkBitwiseExclusiveOr | TkShiftLeft | TkShiftRight
  | TkComma | TkSemicolon | TkColon | TkPlus | TkMinus | TkStar | TkSlash | TkPercent | TkCaret
  | TkPlusEqual | TkMinusEqual | TkStarEqual | TkSlashEqual | TkFloorDivideEqual | TkPercentEqual | TkCaretEqual
  | TkConcatenateEqual | TkHash | TkEllipsis | TkConcatenate | TkDot | TkFloorDivide
  | TkLeftParenthesis | TkRightParenthesis | TkLeftBrace | TkRightBrace | TkLeftBracket | TkRightBracket
  | TkQuestion | TkUnknown

datatype token = Token (token_kind: token_kind) (token_span: byte_span)

datatype dialect_directive = DialectDirective semantic_profile byte_span byte_span

section \<open>Limits, errors and results\<close>

record lexer_limits =
  max_tokens :: nat
  max_diagnostics :: nat
  lx_diagnostic_limits :: diagnostic_limits

definition default_lexer_limits :: lexer_limits where
  "default_lexer_limits =
     \<lparr>max_tokens = 1000000, max_diagnostics = 10000, lx_diagnostic_limits = default_diagnostic_limits\<rparr>"

datatype lexer_limit = LexTokens | LexDiagnostics

datatype lex_error =
    LexLimit lexer_limit nat nat
  | LexAllocationFailed string nat
  | LexDiagnostic diagnostic_error
  | LexSpan span_error

record lexed =
  lx_profile :: semantic_profile
  lx_directive :: "dialect_directive option"
  lx_tokens :: "token list"
  lx_diagnostics :: "diagnostic list"

definition has_errors :: "lexed \<Rightarrow> bool" where
  "has_errors l \<longleftrightarrow> lx_diagnostics l \<noteq> []"

section \<open>What the profiles support\<close>

fun supports_floor_division :: "semantic_profile \<Rightarrow> bool" where
  "supports_floor_division Lua51 = False"
| "supports_floor_division Lua52 = False"
| "supports_floor_division _ = True"

definition supports_bitwise_syntax :: "semantic_profile \<Rightarrow> bool" where
  "supports_bitwise_syntax p \<longleftrightarrow> p \<in> {Blu, Lua53, Lua54, Lua55}"

definition supports_compound_assignment :: "semantic_profile \<Rightarrow> bool" where
  "supports_compound_assignment p \<longleftrightarrow> p \<in> {Blu, Luau}"

definition supports_interpolated_strings :: "semantic_profile \<Rightarrow> bool" where
  "supports_interpolated_strings p \<longleftrightarrow> p \<in> {Blu, Luau}"

definition supports_continue :: "semantic_profile \<Rightarrow> bool" where
  "supports_continue p \<longleftrightarrow> p \<in> {Blu, Luau}"

definition supports_type_annotations :: "semantic_profile \<Rightarrow> bool" where
  "supports_type_annotations p \<longleftrightarrow> p \<in> {Blu, Luau}"

definition supports_goto :: "semantic_profile \<Rightarrow> bool" where
  "supports_goto p \<longleftrightarrow> p \<in> {Blu, Lua52, Lua53, Lua54, Lua55}"

definition supports_global_declarations :: "semantic_profile \<Rightarrow> bool" where
  "supports_global_declarations p \<longleftrightarrow> p \<in> {Blu, Lua55}"

definition supports_numeric_separators :: "semantic_profile \<Rightarrow> bool" where
  "supports_numeric_separators p \<longleftrightarrow> p \<in> {Blu, Luau}"

definition supports_binary_integers :: "semantic_profile \<Rightarrow> bool" where
  "supports_binary_integers p \<longleftrightarrow> p \<in> {Blu, Luau}"

fun supports_hex_number :: "semantic_profile \<Rightarrow> bool \<Rightarrow> bool \<Rightarrow> bool" where
  "supports_hex_number Lua51 has_dot has_exponent \<longleftrightarrow> has_exponent \<and> \<not> has_dot"
| "supports_hex_number Luau has_dot has_exponent \<longleftrightarrow> False"
| "supports_hex_number _ has_dot has_exponent \<longleftrightarrow> True"

fun supports_hex_byte_escape :: "semantic_profile \<Rightarrow> bool" where
  "supports_hex_byte_escape Lua51 = False"
| "supports_hex_byte_escape _ = True"

definition supports_whitespace_escape :: "semantic_profile \<Rightarrow> bool" where
  "supports_whitespace_escape p = supports_hex_byte_escape p"

fun unicode_escape_maximum :: "semantic_profile \<Rightarrow> nat option" where
  "unicode_escape_maximum Blu = Some 0x7fffffff"
| "unicode_escape_maximum Lua54 = Some 0x7fffffff"
| "unicode_escape_maximum Lua55 = Some 0x7fffffff"
| "unicode_escape_maximum Luau = Some 0x10ffff"
| "unicode_escape_maximum Lua53 = Some 0x10ffff"
| "unicode_escape_maximum Lua51 = None"
| "unicode_escape_maximum Lua52 = None"

definition profile_from_bytes :: "bytes \<Rightarrow> semantic_profile option" where
  "profile_from_bytes bs =
     (if bs = ascii ''blu'' then Some Blu
      else if bs = ascii ''luau'' then Some Luau
      else if bs = ascii ''lua51'' then Some Lua51
      else if bs = ascii ''lua52'' then Some Lua52
      else if bs = ascii ''lua53'' then Some Lua53
      else if bs = ascii ''lua54'' then Some Lua54
      else if bs = ascii ''lua55'' then Some Lua55
      else None)"

lemma profile_from_as_bytes: "profile_from_bytes bs = Some p \<longleftrightarrow> bs = profile_as_str p"
  by (cases p) (auto simp: profile_from_bytes_def ascii_def)

section \<open>Pushing within the limits\<close>

text \<open>A vector grows by a fallible reservation of one when it is full.\<close>

definition push_limited ::
  "(nat \<Rightarrow> bool) \<Rightarrow> 'a list \<Rightarrow> 'a \<Rightarrow> lexer_limit \<Rightarrow> nat \<Rightarrow> string \<Rightarrow> ('a list, lex_error) res" where
  "push_limited alloc values v kind limit what =
     (let required = saturating_add (length values) 1 in
      if limit < required then Err (LexLimit kind required limit)
      else rbind (ensure (alloc required) (LexAllocationFailed what required)) (\<lambda>_. Ok (values @ [v])))"

definition allocate_vec :: "(nat \<Rightarrow> bool) \<Rightarrow> nat \<Rightarrow> string \<Rightarrow> ('a list, lex_error) res" where
  "allocate_vec alloc capacity what =
     rbind (ensure (alloc capacity) (LexAllocationFailed what capacity)) (\<lambda>_. Ok [])"

text \<open>What every step of the lexer reads: the allocator, the profile, the limits and the source.\<close>

record lexer =
  lex_alloc :: "nat \<Rightarrow> bool"
  lex_profile :: semantic_profile
  lex_limits :: lexer_limits
  lex_file :: source_file

abbreviation lex_bytes :: "lexer \<Rightarrow> bytes" where
  "lex_bytes c \<equiv> sf_bytes (lex_file c)"

definition push_token :: "lexer \<Rightarrow> token list \<Rightarrow> token \<Rightarrow> (token list, lex_error) res" where
  "push_token c tokens t =
     push_limited (lex_alloc c) tokens t LexTokens (max_tokens (lex_limits c)) ''lexer tokens''"

definition push_diagnostic :: "lexer \<Rightarrow> diagnostic list \<Rightarrow> diagnostic \<Rightarrow> (diagnostic list, lex_error) res" where
  "push_diagnostic c diagnostics d =
     push_limited (lex_alloc c) diagnostics d LexDiagnostics (max_diagnostics (lex_limits c)) ''lexer diagnostics''"

definition lex_span :: "lexer \<Rightarrow> nat \<Rightarrow> nat \<Rightarrow> (byte_span, lex_error) res" where
  "lex_span c start stop = map_err LexSpan (source_span (lex_file c) start stop)"

definition push_kind :: "lexer \<Rightarrow> token list \<Rightarrow> token_kind \<Rightarrow> nat \<Rightarrow> nat \<Rightarrow> (token list, lex_error) res" where
  "push_kind c tokens kind start stop =
     rbind (lex_span c start stop) (\<lambda>s. push_token c tokens (Token kind s))"

section \<open>Reporting\<close>

definition lex_diagnostic :: "lexer \<Rightarrow> string \<Rightarrow> byte_span \<Rightarrow> string \<Rightarrow> (diagnostic, lex_error) res" where
  "lex_diagnostic c code s message =
     map_err LexDiagnostic (diagnostic_try_new (lex_alloc c) (ascii code) PhLex (lex_profile c) SevError s
       (ascii message) (lx_diagnostic_limits (lex_limits c)))"

text \<open>
  What the lexer chains to a new diagnostic: \<open>try_with_found\<close> of a range of the source,
  \<open>try_with_expected\<close>, and the note that names the profile.
\<close>

datatype remark =
    Found nat nat
  | Expected bytes
  | ProfileNote string

fun try_remark :: "lexer \<Rightarrow> diagnostic \<Rightarrow> remark \<Rightarrow> (diagnostic, lex_error) res" where
  "try_remark c d (Found a b) =
     rbind (slice_at (lex_bytes c) a b) (\<lambda>bs. map_err LexDiagnostic (try_with_found (lex_alloc c) d bs))"
| "try_remark c d (Expected e) = map_err LexDiagnostic (try_with_expected (lex_alloc c) d e)"
| "try_remark c d (ProfileNote what) =
     map_err LexDiagnostic (try_with_note_parts (lex_alloc c) d [ascii what, profile_as_str (lex_profile c)])"

definition report_at ::
  "lexer \<Rightarrow> diagnostic list \<Rightarrow> string \<Rightarrow> byte_span \<Rightarrow> string \<Rightarrow> remark list \<Rightarrow> (diagnostic list, lex_error) res" where
  "report_at c diagnostics code s message remarks =
     rbind (lex_diagnostic c code s message) (\<lambda>d.
     rbind (fold_res (try_remark c) d remarks) (\<lambda>d. push_diagnostic c diagnostics d))"

definition report ::
  "lexer \<Rightarrow> diagnostic list \<Rightarrow> string \<Rightarrow> nat \<Rightarrow> nat \<Rightarrow> string \<Rightarrow> remark list \<Rightarrow> (diagnostic list, lex_error) res" where
  "report c diagnostics code start stop message remarks =
     rbind (lex_span c start stop) (\<lambda>s. report_at c diagnostics code s message remarks)"

abbreviation selected_profile :: remark where
  "selected_profile \<equiv> ProfileNote ''selected profile: ''"

definition push_unavailable_syntax_diagnostic ::
  "lexer \<Rightarrow> diagnostic list \<Rightarrow> nat \<Rightarrow> nat \<Rightarrow> string \<Rightarrow> (diagnostic list, lex_error) res" where
  "push_unavailable_syntax_diagnostic c diagnostics start stop message =
     report c diagnostics ''BLU-LEX-0002'' start stop message [Found start stop, selected_profile]"

text \<open>Here the found bytes come from the span.\<close>

definition push_numeric_separator_diagnostic ::
  "lexer \<Rightarrow> nat \<Rightarrow> nat \<Rightarrow> diagnostic list \<Rightarrow> (diagnostic list, lex_error) res" where
  "push_numeric_separator_diagnostic c start stop diagnostics =
     rbind (lex_span c start stop) (\<lambda>s.
     rbind (lex_diagnostic c ''BLU-LEX-0012'' s ''numeric separators are not supported by this profile'') (\<lambda>d.
     rbind (map_err LexSpan (source_slice (lex_file c) s)) (\<lambda>found.
     rbind (map_err LexDiagnostic (try_with_found (lex_alloc c) d found)) (\<lambda>d.
     rbind (try_remark c d selected_profile) (\<lambda>d. push_diagnostic c diagnostics d)))))"

section \<open>Bytes\<close>

abbreviation (input) BACKTICK :: byte where "BACKTICK \<equiv> 0x60"
abbreviation (input) BACKSLASH :: byte where "BACKSLASH \<equiv> 0x5C"
abbreviation (input) MINUS :: byte where "MINUS \<equiv> 0x2D"
abbreviation (input) PLUS :: byte where "PLUS \<equiv> 0x2B"
abbreviation (input) STAR :: byte where "STAR \<equiv> 0x2A"
abbreviation (input) SLASH :: byte where "SLASH \<equiv> 0x2F"
abbreviation (input) PERCENT :: byte where "PERCENT \<equiv> 0x25"
abbreviation (input) CARET :: byte where "CARET \<equiv> 0x5E"
abbreviation (input) EQUALS :: byte where "EQUALS \<equiv> 0x3D"
abbreviation (input) TILDE :: byte where "TILDE \<equiv> 0x7E"
abbreviation (input) LESS :: byte where "LESS \<equiv> 0x3C"
abbreviation (input) GREATER :: byte where "GREATER \<equiv> 0x3E"
abbreviation (input) COMMA :: byte where "COMMA \<equiv> 0x2C"
abbreviation (input) SEMICOLON :: byte where "SEMICOLON \<equiv> 0x3B"
abbreviation (input) COLON :: byte where "COLON \<equiv> 0x3A"
abbreviation (input) AMPERSAND :: byte where "AMPERSAND \<equiv> 0x26"
abbreviation (input) PIPE :: byte where "PIPE \<equiv> 0x7C"
abbreviation (input) HASH :: byte where "HASH \<equiv> 0x23"
abbreviation (input) BANG :: byte where "BANG \<equiv> 0x21"
abbreviation (input) LBRACE :: byte where "LBRACE \<equiv> 0x7B"
abbreviation (input) RBRACE :: byte where "RBRACE \<equiv> 0x7D"
abbreviation (input) LBRACKET :: byte where "LBRACKET \<equiv> 0x5B"
abbreviation (input) RBRACKET :: byte where "RBRACKET \<equiv> 0x5D"
abbreviation (input) LPAREN :: byte where "LPAREN \<equiv> 0x28"
abbreviation (input) RPAREN :: byte where "RPAREN \<equiv> 0x29"
abbreviation (input) DOT :: byte where "DOT \<equiv> 0x2E"
abbreviation (input) QUESTION :: byte where "QUESTION \<equiv> 0x3F"
abbreviation (input) QUOTE :: byte where "QUOTE \<equiv> 0x27"
abbreviation (input) DQUOTE :: byte where "DQUOTE \<equiv> 0x22"
abbreviation (input) UNDERSCORE :: byte where "UNDERSCORE \<equiv> 0x5F"
abbreviation (input) SPACE :: byte where "SPACE \<equiv> 0x20"
abbreviation (input) TAB :: byte where "TAB \<equiv> 0x09"

text \<open>A letter, for the escapes and the number prefixes.\<close>

definition ltr :: "char \<Rightarrow> byte" where
  "ltr c = word_of_nat (of_char c)"

definition is_whitespace :: "byte \<Rightarrow> bool" where
  "is_whitespace b \<longleftrightarrow> b \<in> {SPACE, TAB, LF, CR, 0x0B, 0x0C}"

definition is_lua_whitespace :: "byte \<Rightarrow> bool" where
  "is_lua_whitespace b \<longleftrightarrow> b \<in> {SPACE, TAB, LF, CR, 0x0B, 0x0C}"

definition is_ascii_alphabetic :: "byte \<Rightarrow> bool" where
  "is_ascii_alphabetic b \<longleftrightarrow> is_ascii_lowercase b \<or> is_ascii_uppercase b"

definition is_ascii_hexdigit :: "byte \<Rightarrow> bool" where
  "is_ascii_hexdigit b \<longleftrightarrow> is_ascii_digit b \<or> (0x61 \<le> b \<and> b \<le> 0x66) \<or> (0x41 \<le> b \<and> b \<le> 0x46)"

definition is_identifier_start :: "byte \<Rightarrow> bool" where
  "is_identifier_start b \<longleftrightarrow> is_ascii_alphabetic b \<or> b = UNDERSCORE"

definition is_identifier_continue :: "byte \<Rightarrow> bool" where
  "is_identifier_continue b \<longleftrightarrow> is_identifier_start b \<or> is_ascii_digit b"

definition hex_value :: "byte \<Rightarrow> byte" where
  "hex_value b =
     (if 0x30 \<le> b \<and> b \<le> 0x39 then b - 0x30
      else if 0x61 \<le> b \<and> b \<le> 0x66 then b - 0x61 + 10
      else if 0x41 \<le> b \<and> b \<le> 0x46 then b - 0x41 + 10
      else 0)"

end
