(* ===== verification/Syntax_Scan.thy ===== *)
theory Syntax_Scan
  imports Syntax_Token
begin

text \<open>
  \<open>blu-syntax/src/lib.rs\<close>, its scanning of bytes: line ends, long brackets, escapes, the end of an
  interpolated expression, decimal numbers and quoted strings. An offset into a slice is at most
  \<open>isize::MAX\<close>, so the additions of the code, plain or saturating, do not wrap; \<open>line_end\<close> is only
  called with an offset within the bytes.
\<close>

section \<open>Runs of bytes\<close>

text \<open>\<open>while offset < bytes.len() && p(bytes[offset]) { offset += 1 }\<close>\<close>

definition skip_while :: "(byte \<Rightarrow> bool) \<Rightarrow> bytes \<Rightarrow> nat \<Rightarrow> nat" where
  "skip_while p bs offset = offset + length (takeWhile p (drop offset bs))"

definition any_between :: "(byte \<Rightarrow> bool) \<Rightarrow> bytes \<Rightarrow> nat \<Rightarrow> nat \<Rightarrow> bool" where
  "any_between p bs start stop = list_ex p (drop start (take stop bs))"

lemma skip_while_ge: "offset \<le> skip_while p bs offset"
  by (simp add: skip_while_def)

lemma skip_while_le: "offset \<le> length bs \<Longrightarrow> skip_while p bs offset \<le> length bs"
  using length_takeWhile_le [of p "drop offset bs"] by (simp add: skip_while_def)

lemma skip_while_step: "offset < length bs \<Longrightarrow> p (bs ! offset) \<Longrightarrow> offset < skip_while p bs offset"
  by (cases "drop offset bs") (auto simp: skip_while_def hd_drop_conv_nth [symmetric])

lemma skip_while_stops: "skip_while p bs offset < length bs \<Longrightarrow> \<not> p (bs ! skip_while p bs offset)"
  using nth_length_takeWhile [of p "drop offset bs"] by (simp add: skip_while_def)

definition line_end :: "bytes \<Rightarrow> nat \<Rightarrow> nat" where
  "line_end bs start = skip_while (\<lambda>b. b \<noteq> CR \<and> b \<noteq> LF) bs start"

definition line_content_end :: "bytes \<Rightarrow> nat \<Rightarrow> nat" where
  "line_content_end bs start =
     (let stop = line_end bs start in
      if start < stop \<and> get bs (stop - 1) = Some CR then stop - 1 else stop)"

section \<open>Long brackets\<close>

definition long_comment_opener :: "bytes \<Rightarrow> nat \<Rightarrow> (nat \<times> nat) option" where
  "long_comment_opener bs start =
     (if get bs start \<noteq> Some LBRACKET then None
      else let cursor = skip_while (\<lambda>b. b = EQUALS) bs (start + 1) in
        if get bs cursor = Some LBRACKET then Some (cursor - start + 1, cursor - start - 1) else None)"

function long_comment_end :: "bytes \<Rightarrow> nat \<Rightarrow> nat \<Rightarrow> nat option" where
  "long_comment_end bs cursor equals =
     (if cursor < length bs then
        (if bs ! cursor = RBRACKET then
           (case checked_add cursor (1 + equals) of
              None \<Rightarrow> None
            | Some equals_end \<Rightarrow>
                (if equals_end < length bs \<and> list_all (\<lambda>b. b = EQUALS) (drop (cursor + 1) (take equals_end bs)) \<and>
                    bs ! equals_end = RBRACKET
                 then Some (equals_end + 1)
                 else long_comment_end bs (cursor + 1) equals))
         else long_comment_end bs (cursor + 1) equals)
      else None)"
  by pat_completeness auto
termination
  by (relation "measure (\<lambda>(bs, cursor, equals). length bs - cursor)") auto

declare long_comment_end.simps [simp del]

section \<open>Escapes and quotes\<close>

definition escaped_cursor :: "bytes \<Rightarrow> nat \<Rightarrow> nat" where
  "escaped_cursor bs start =
     (let cursor = start + 1 in
      if get bs cursor = Some (ltr CHR ''u'') \<and> get bs (cursor + 1) = Some LBRACE
      then let cursor = skip_while (\<lambda>b. b \<noteq> RBRACE) bs (cursor + 2) in
        cursor + (if cursor < length bs then 1 else 0)
      else if get bs cursor = Some CR \<and> get bs (cursor + 1) = Some LF then cursor + 2
      else if cursor < length bs then cursor + 1
      else cursor)"

lemma get_less: "get bs i = Some b \<Longrightarrow> i < length bs \<and> bs ! i = b"
  by (simp add: get_def split: if_splits)

lemma escaped_cursor_gt: "start < escaped_cursor bs start"
  using skip_while_ge [of "start + 3" "\<lambda>b. b \<noteq> RBRACE" bs]
  by (simp add: escaped_cursor_def Let_def numeral_eq_Suc)

lemma escaped_cursor_le: "start < length bs \<Longrightarrow> escaped_cursor bs start \<le> length bs"
  using skip_while_le [of "start + 3" bs "\<lambda>b. b \<noteq> RBRACE"]
  by (auto simp: escaped_cursor_def Let_def numeral_eq_Suc dest!: get_less)

function skip_quoted_from :: "bytes \<Rightarrow> nat \<Rightarrow> byte \<Rightarrow> nat" where
  "skip_quoted_from bs cursor quote =
     (if cursor < length bs then
        (if bs ! cursor = BACKSLASH then skip_quoted_from bs (escaped_cursor bs cursor) quote
         else if bs ! cursor = quote then cursor + 1
         else skip_quoted_from bs (cursor + 1) quote)
      else length bs)"
  by pat_completeness auto
termination
proof (relation "measure (\<lambda>(bs, cursor, quote). length bs - cursor)", goal_cases)
  case (2 bs cursor quote)
  then show ?case using escaped_cursor_gt [of cursor bs] by simp
qed auto

declare skip_quoted_from.simps [simp del]

definition skip_quoted :: "bytes \<Rightarrow> nat \<Rightarrow> byte \<Rightarrow> nat" where
  "skip_quoted bs start quote = skip_quoted_from bs (start + 1) quote"

lemma skip_quoted_from_bounds:
  "cursor \<le> length bs \<Longrightarrow> cursor \<le> skip_quoted_from bs cursor quote \<and> skip_quoted_from bs cursor quote \<le> length bs"
proof (induction bs cursor quote rule: skip_quoted_from.induct)
  case (1 bs cursor quote)
  show ?case
  proof (cases "cursor < length bs")
    case True
    then show ?thesis
      using 1 escaped_cursor_gt [of cursor bs] escaped_cursor_le [of cursor bs]
      by (subst (1 2) skip_quoted_from.simps) auto
  next
    case False
    with 1 show ?thesis by (simp add: skip_quoted_from.simps)
  qed
qed

lemma long_comment_end_bounds: "long_comment_end bs cursor equals = Some stop \<Longrightarrow> cursor < stop \<and> stop \<le> length bs"
proof (induction bs cursor equals rule: long_comment_end.induct)
  case (1 bs cursor equals)
  show ?case
    using 1 by (subst (asm) (3) long_comment_end.simps) (auto simp: checked_add_def split: if_splits option.splits)
qed

lemma long_comment_opener_bounds:
  "long_comment_opener bs start = Some (n, e) \<Longrightarrow> 2 \<le> n \<and> start + n \<le> length bs \<and> start < length bs"
  using skip_while_ge [of "start + 1" "\<lambda>b. b = EQUALS" bs]
  by (auto simp: long_comment_opener_def Let_def split: if_splits dest!: get_less)

section \<open>The end of an interpolated expression\<close>

lemma line_end_gt: "bs ! cursor = MINUS \<Longrightarrow> cursor < length bs \<Longrightarrow> cursor < line_end bs cursor"
  unfolding line_end_def by (rule skip_while_step) (simp_all add: CR_def LF_def)

lemma line_end_le: "cursor \<le> length bs \<Longrightarrow> line_end bs cursor \<le> length bs"
  unfolding line_end_def by (rule skip_while_le)

lemma skip_quoted_bounds: "start < length bs \<Longrightarrow> start < skip_quoted bs start quote \<and> skip_quoted bs start quote \<le> length bs"
  using skip_quoted_from_bounds [of "start + 1" bs quote] by (simp add: skip_quoted_def)

text \<open>The bytes that neither open nor close anything that nests; \<open>None\<close> when a long bracket is not closed.\<close>

definition skip_lexeme :: "bytes \<Rightarrow> nat \<Rightarrow> nat option" where
  "skip_lexeme bs cursor =
     (let b = bs ! cursor in
      if b = BACKSLASH then Some (escaped_cursor bs cursor)
      else if b = QUOTE \<or> b = DQUOTE then Some (skip_quoted bs cursor b)
      else if b = MINUS \<and> get bs (cursor + 1) = Some MINUS then
        (case long_comment_opener bs (cursor + 2) of
           Some (delimiter_len, equals) \<Rightarrow> long_comment_end bs (cursor + 2 + delimiter_len) equals
         | None \<Rightarrow> Some (line_end bs cursor))
      else if b = LBRACKET then
        (case long_comment_opener bs cursor of
           Some (delimiter_len, equals) \<Rightarrow> long_comment_end bs (cursor + delimiter_len) equals
         | None \<Rightarrow> Some (cursor + 1))
      else Some (cursor + 1))"

lemma skip_lexeme_bounds:
  "cursor < length bs \<Longrightarrow> skip_lexeme bs cursor = Some c \<Longrightarrow> cursor < c \<and> c \<le> length bs"
  using escaped_cursor_gt [of cursor bs] escaped_cursor_le [of cursor bs] skip_quoted_bounds [of cursor bs "bs ! cursor"]
    line_end_gt [of bs cursor] line_end_le [of cursor bs]
  by (auto simp: skip_lexeme_def Let_def split: if_splits option.splits dest!: long_comment_end_bounds)

text \<open>
  \<open>find_interpolation_close\<close> counts braces from 0 at its start; \<open>find_interpolated_string_end\<close>
  starts behind the opening quote. A string inside an expression may hold expressions again.
\<close>

function find_close :: "bytes \<Rightarrow> nat \<Rightarrow> nat \<Rightarrow> nat option"
  and find_string_end :: "bytes \<Rightarrow> nat \<Rightarrow> nat option" where
  "find_close bs cursor nested =
     (if cursor < length bs then
        (if bs ! cursor = BACKTICK then
           (case find_string_end bs (cursor + 1) of None \<Rightarrow> None | Some c \<Rightarrow> find_close bs c nested)
         else if bs ! cursor = LBRACE then find_close bs (cursor + 1) (saturating_add nested 1)
         else if bs ! cursor = RBRACE then
           (if nested = 0 then Some cursor else find_close bs (cursor + 1) (nested - 1))
         else (case skip_lexeme bs cursor of None \<Rightarrow> None | Some c \<Rightarrow> find_close bs c nested))
      else None)"
| "find_string_end bs cursor =
     (if cursor < length bs then
        (if bs ! cursor = BACKSLASH then find_string_end bs (escaped_cursor bs cursor)
         else if bs ! cursor = BACKTICK then Some (cursor + 1)
         else if bs ! cursor = LBRACE then
           (case find_close bs (cursor + 1) 0 of None \<Rightarrow> None | Some c \<Rightarrow> find_string_end bs (c + 1))
         else find_string_end bs (cursor + 1))
      else None)"
  by pat_completeness auto

lemma find_partial_bounds:
  "find_close_find_string_end_dom (Inl (bs, cursor, nested)) \<Longrightarrow>
     (\<forall>stop. find_close bs cursor nested = Some stop \<longrightarrow> cursor \<le> stop \<and> stop < length bs)"
  "find_close_find_string_end_dom (Inr (bs', cursor')) \<Longrightarrow>
     (\<forall>stop. find_string_end bs' cursor' = Some stop \<longrightarrow> cursor' < stop \<and> stop \<le> length bs')"
proof (induction bs cursor nested and bs' cursor' rule: find_close_find_string_end.pinduct)
  case (1 bs cursor nested)
  show ?case
  proof (intro allI impI)
    fix stop
    assume s: "find_close bs cursor nested = Some stop"
    have c: "cursor < length bs" using s 1(1) by (simp add: find_close.psimps split: if_splits)
    note s = s [unfolded find_close.psimps [OF 1(1)] if_P [OF c]]
    note IH = 1(2-) [OF c]
    consider "bs ! cursor = BACKTICK" | "bs ! cursor = LBRACE" | "bs ! cursor = RBRACE"
      | "bs ! cursor \<notin> {BACKTICK, LBRACE, RBRACE}" by blast
    then show "cursor \<le> stop \<and> stop < length bs"
    proof cases
      case 1
      with s obtain c where "find_string_end bs (cursor + 1) = Some c" "find_close bs c nested = Some stop"
        by (auto split: option.splits)
      with IH(1,2) 1 show ?thesis by force
    next
      case 2
      with s IH(3) show ?thesis by force
    next
      case 3
      with s c IH(4) show ?thesis by (force split: if_splits)
    next
      case 4
      with s obtain c' where c': "skip_lexeme bs cursor = Some c'" "find_close bs c' nested = Some stop"
        by (auto split: option.splits)
      with IH(5) 4 skip_lexeme_bounds [OF c c'(1)] show ?thesis by force
    qed
  qed
next
  case (2 bs cursor)
  show ?case
  proof (intro allI impI)
    fix stop
    assume s: "find_string_end bs cursor = Some stop"
    have c: "cursor < length bs" using s 2(1) by (simp add: find_string_end.psimps split: if_splits)
    note s = s [unfolded find_string_end.psimps [OF 2(1)] if_P [OF c]]
    note IH = 2(2-) [OF c]
    consider "bs ! cursor = BACKSLASH" | "bs ! cursor = BACKTICK" | "bs ! cursor = LBRACE"
      | "bs ! cursor \<notin> {BACKSLASH, BACKTICK, LBRACE}" by blast
    then show "cursor < stop \<and> stop \<le> length bs"
    proof cases
      case 1
      with s IH(1) escaped_cursor_gt [of cursor bs] show ?thesis by force
    next
      case 2
      with s c show ?thesis by simp
    next
      case 3
      with s obtain c where "find_close bs (cursor + 1) 0 = Some c" "find_string_end bs (c + 1) = Some stop"
        by (auto split: option.splits)
      with IH(2,3) 3 show ?thesis by force
    next
      case 4
      with s have "find_string_end bs (cursor + 1) = Some stop" by simp
      with IH(4) 4 show ?thesis by simp
    qed
  qed
qed

lemma find_total: "All find_close_find_string_end_dom"
proof (relation "measure (\<lambda>s. case s of Inl (bs, cursor, nested) \<Rightarrow> length bs - cursor | Inr (bs, cursor) \<Rightarrow> length bs - cursor)", goal_cases)
  case 1
  show ?case by simp
next
  case (3 bs cursor nested c)
  then show ?case using find_partial_bounds(2) [OF 3(4)] by force
next
  case (6 bs cursor nested c)
  then show ?case using skip_lexeme_bounds [of cursor bs c] by force
next
  case (7 bs cursor)
  then show ?case using escaped_cursor_gt [of cursor bs] by force
next
  case (9 bs cursor c)
  then show ?case using find_partial_bounds(1) [OF 9(6)] by force
qed simp_all

termination find_close
  by (rule find_total)

declare find_close.simps [simp del] find_string_end.simps [simp del]

definition find_interpolation_close :: "bytes \<Rightarrow> nat \<Rightarrow> nat option" where
  "find_interpolation_close bs start = find_close bs start 0"

lemma find_interpolation_close_bounds:
  "find_interpolation_close bs start = Some stop \<Longrightarrow> start \<le> stop \<and> stop < length bs"
  using find_partial_bounds(1) [of bs start 0] find_total by (simp add: find_interpolation_close_def)

section \<open>Decimal numbers\<close>

record decimal_scan =
  ds_end :: nat
  ds_is_integer :: bool
  ds_malformed_exponent :: "nat option"
  ds_has_separator :: bool

definition digit_or_separator :: "byte \<Rightarrow> bool" where
  "digit_or_separator b \<longleftrightarrow> is_ascii_digit b \<or> b = UNDERSCORE"

text \<open>An exponent behind its letter at \<open>offset\<close>: where it ends and whether it has a digit.\<close>

definition scan_exponent :: "bytes \<Rightarrow> nat \<Rightarrow> nat \<times> bool" where
  "scan_exponent bs offset =
     (let digits = (if get bs (offset + 1) \<in> {Some PLUS, Some MINUS} then offset + 2 else offset + 1);
          stop = skip_while digit_or_separator bs digits
      in (stop, any_between is_ascii_digit bs digits stop))"

definition is_separator :: "byte \<Rightarrow> bool" where
  "is_separator b \<longleftrightarrow> b = UNDERSCORE"

definition scan_decimal :: "bytes \<Rightarrow> nat \<Rightarrow> decimal_scan" where
  "scan_decimal bs start =
     (let leading_dot = (get bs start = Some DOT);
          offset = skip_while digit_or_separator bs (if leading_dot then start + 1 else start)
      in if \<not> leading_dot \<and> get bs offset = Some DOT \<and> get bs (offset + 1) = Some DOT
         then \<lparr>ds_end = offset, ds_is_integer = True, ds_malformed_exponent = None,
               ds_has_separator = any_between is_separator bs start offset\<rparr>
         else
           let fraction = (\<not> leading_dot \<and> get bs offset = Some DOT);
               offset = (if fraction then skip_while digit_or_separator bs (offset + 1) else offset);
               has_exponent = (get bs offset \<in> {Some (ltr CHR ''e''), Some (ltr CHR ''E'')});
               (stop, has_digit) = (if has_exponent then scan_exponent bs offset else (offset, True))
           in \<lparr>ds_end = stop, ds_is_integer = (\<not> leading_dot \<and> \<not> fraction \<and> \<not> has_exponent),
               ds_malformed_exponent = (if has_exponent \<and> \<not> has_digit then Some offset else None),
               ds_has_separator = any_between is_separator bs start stop\<rparr>)"

section \<open>Quoted strings\<close>

record quoted =
  q_unsupported :: "nat option"
  q_malformed :: "(nat \<times> nat) option"
  q_unicode :: "(nat \<times> nat) option"

definition get_or_insert :: "'a option \<Rightarrow> 'a \<Rightarrow> 'a option" where
  "get_or_insert x v = (case x of None \<Rightarrow> Some v | Some _ \<Rightarrow> x)"

text \<open>\<open>\u{...}\<close> with the backslash at \<open>offset\<close>: its end, value, number of digits and whether it is closed.\<close>

definition scan_unicode :: "bytes \<Rightarrow> nat \<Rightarrow> nat \<times> nat \<times> nat \<times> bool" where
  "scan_unicode bs offset =
     (if get bs (offset + 2) = Some LBRACE then
        let stop = skip_while is_ascii_hexdigit bs (offset + 3);
            ds = drop (offset + 3) (take stop bs);
            n = foldl (\<lambda>v b. min u32_max (min u32_max (v * 16) + unat (hex_value b))) 0 ds;
            closed = (get bs stop = Some RBRACE)
        in (if closed then stop + 1 else stop, n, length ds, closed)
      else (offset + 2, 0, 0, False))"

definition scan_decimal_escape :: "bytes \<Rightarrow> nat \<Rightarrow> nat \<times> nat" where
  "scan_decimal_escape bs offset =
     (let ds = takeWhile is_ascii_digit (take 3 (drop (offset + 1) bs))
      in (offset + 1 + length ds, foldl (\<lambda>v b. v * 10 + unat (b - 0x30)) 0 ds))"

definition scan_hex_escape :: "bytes \<Rightarrow> nat \<Rightarrow> nat" where
  "scan_hex_escape bs offset = offset + 2 + length (takeWhile is_ascii_hexdigit (take 2 (drop (offset + 2) bs)))"

definition simple_escape :: "byte \<Rightarrow> bool" where
  "simple_escape b \<longleftrightarrow> b \<in> {BACKSLASH, QUOTE, DQUOTE, ltr CHR ''a'', ltr CHR ''b'', ltr CHR ''f'', ltr CHR ''n'',
     ltr CHR ''r'', ltr CHR ''t'', ltr CHR ''v''}"

text \<open>One escape, with its backslash at \<open>offset\<close>.\<close>

definition quoted_escape :: "semantic_profile \<Rightarrow> bytes \<Rightarrow> nat \<Rightarrow> quoted \<Rightarrow> nat \<times> quoted" where
  "quoted_escape p bs offset q =
     (let unsupported = q\<lparr>q_unsupported := get_or_insert (q_unsupported q) offset\<rparr> in
      case get bs (offset + 1) of
        None \<Rightarrow> (offset + 1, unsupported)
      | Some escaped \<Rightarrow>
          if escaped = LF then (offset + (if get bs (offset + 2) = Some CR then 3 else 2), q)
          else if escaped = CR then (offset + (if get bs (offset + 2) = Some LF then 3 else 2), q)
          else if simple_escape escaped then (offset + 2, q)
          else if is_ascii_digit escaped then
            let (stop, n) = scan_decimal_escape bs offset in
            (stop, if 255 < n then q\<lparr>q_malformed := get_or_insert (q_malformed q) (offset, stop)\<rparr> else q)
          else if escaped = ltr CHR ''x'' then
            let stop = scan_hex_escape bs offset in
            (stop, if \<not> supports_hex_byte_escape p then unsupported
                   else if stop \<noteq> offset + 4 then q\<lparr>q_malformed := get_or_insert (q_malformed q) (offset, stop)\<rparr>
                   else q)
          else if escaped = ltr CHR ''z'' \<and> supports_whitespace_escape p then
            (skip_while is_lua_whitespace bs (offset + 2), q)
          else if escaped = ltr CHR ''u'' then
            let (stop, n, digits, closed) = scan_unicode bs offset in
            (stop, case unicode_escape_maximum p of
                     None \<Rightarrow> unsupported
                   | Some maximum \<Rightarrow>
                       if \<not> closed \<or> digits = 0 \<or> 8 < digits \<or> maximum < n
                       then q\<lparr>q_unicode := get_or_insert (q_unicode q) (offset, stop)\<rparr> else q)
          else (offset + 1, unsupported))"

lemma scan_decimal_escape_bounds:
  "offset < length bs \<Longrightarrow> offset < fst (scan_decimal_escape bs offset) \<and> fst (scan_decimal_escape bs offset) \<le> length bs"
  using length_takeWhile_le [of is_ascii_digit "take 3 (drop (offset + 1) bs)"] by (simp add: scan_decimal_escape_def Let_def) linarith

lemma scan_hex_escape_bounds:
  "offset + 1 < length bs \<Longrightarrow> offset < scan_hex_escape bs offset \<and> scan_hex_escape bs offset \<le> length bs"
  using length_takeWhile_le [of is_ascii_hexdigit "take 2 (drop (offset + 2) bs)"] by (simp add: scan_hex_escape_def) linarith

lemma scan_unicode_bounds:
  "offset + 1 < length bs \<Longrightarrow> offset < fst (scan_unicode bs offset) \<and> fst (scan_unicode bs offset) \<le> length bs"
  using skip_while_ge [of "offset + 3" is_ascii_hexdigit bs] skip_while_le [of "offset + 3" bs is_ascii_hexdigit]
  by (auto simp: scan_unicode_def Let_def dest!: get_less)

lemma quoted_escape_bounds:
  assumes "quoted_escape p bs offset q = (stop, q')" and "offset < length bs"
  shows "offset < stop \<and> stop \<le> length bs"
proof (cases "get bs (offset + 1)")
  case None
  with assms show ?thesis by (simp add: quoted_escape_def Let_def)
next
  case (Some e)
  then have l: "offset + 1 < length bs" using get_less [OF Some] by simp
  have z: "offset + 2 \<le> skip_while is_lua_whitespace bs (offset + 2)" "skip_while is_lua_whitespace bs (offset + 2) \<le> length bs"
    using skip_while_ge skip_while_le [of "offset + 2" bs] l by simp_all
  have "fst (quoted_escape p bs offset q) =
     (if e = LF then offset + (if get bs (offset + 2) = Some CR then 3 else 2)
      else if e = CR then offset + (if get bs (offset + 2) = Some LF then 3 else 2)
      else if simple_escape e then offset + 2
      else if is_ascii_digit e then fst (scan_decimal_escape bs offset)
      else if e = ltr CHR ''x'' then scan_hex_escape bs offset
      else if e = ltr CHR ''z'' \<and> supports_whitespace_escape p then skip_while is_lua_whitespace bs (offset + 2)
      else if e = ltr CHR ''u'' then fst (scan_unicode bs offset)
      else offset + 1)"
    unfolding quoted_escape_def Some option.case Let_def case_prod_beta by (simp only: if_distrib [where f = fst] fst_conv)
  then show ?thesis
    using l z assms(1) scan_decimal_escape_bounds [OF assms(2)] scan_hex_escape_bounds [OF l] scan_unicode_bounds [OF l]
    by (simp split: if_splits) (auto dest!: get_less)
qed

function quoted_loop :: "semantic_profile \<Rightarrow> bytes \<Rightarrow> byte \<Rightarrow> nat \<Rightarrow> quoted \<Rightarrow> nat \<times> quoted" where
  "quoted_loop p bs quote offset q =
     (if offset < length bs \<and> bs ! offset \<noteq> quote \<and> bs ! offset \<noteq> CR \<and> bs ! offset \<noteq> LF then
        (if bs ! offset = BACKSLASH
         then (let (stop, q') = quoted_escape p bs offset q in quoted_loop p bs quote stop q')
         else quoted_loop p bs quote (offset + 1) q)
      else (offset, q))"
  by pat_completeness auto
termination
proof (relation "measure (\<lambda>(p, bs, quote, offset, q). length bs - offset)", goal_cases)
  case (2 p bs quote offset q x stop q')
  then have "quoted_escape p bs offset q = (stop, q')" by simp
  from quoted_escape_bounds [OF this] 2(1) have "offset < stop \<and> stop \<le> length bs" by blast
  then show ?case using 2(1) by (auto intro: diff_less_mono2)
qed auto

declare quoted_loop.simps [simp del]

lemma quoted_loop_bounds:
  "offset \<le> length bs \<Longrightarrow> quoted_loop p bs quote offset q = (stop, q') \<Longrightarrow> offset \<le> stop \<and> stop \<le> length bs"
proof (induction p bs quote offset q rule: quoted_loop.induct)
  case (1 p bs quote offset q)
  show ?case
  proof (cases "offset < length bs \<and> bs ! offset \<noteq> quote \<and> bs ! offset \<noteq> CR \<and> bs ! offset \<noteq> LF")
    case c: True
    show ?thesis
    proof (cases "bs ! offset = BACKSLASH")
      case True
      obtain o' q1 where e: "quoted_escape p bs offset q = (o', q1)" by (cases "quoted_escape p bs offset q")
      then have "quoted_loop p bs quote o' q1 = (stop, q')" using 1(4) c True by (simp add: quoted_loop.simps)
      with 1(1) [OF c True e [symmetric] refl] quoted_escape_bounds [OF e] c show ?thesis by simp
    next
      case False
      then have "quoted_loop p bs quote (offset + 1) q = (stop, q')" using 1(4) c by (simp add: quoted_loop.simps)
      with 1(2) [OF c False] c show ?thesis by simp
    qed
  next
    case False
    with 1(3,4) show ?thesis by (auto simp: quoted_loop.simps)
  qed
qed

end
