(* ===== verification/Syntax_Lex.thy ===== *)
theory Syntax_Lex
  imports Syntax_Scan
begin

text \<open>
  \<open>lex\<close> of \<open>blu-syntax/src/lib.rs\<close>: one token at an offset, interpolated strings with their
  expressions lexed as sources of their own, the initial directive, and the whole. The arms of the
  main match are grouped by the byte they start with, which tells them apart.
\<close>

section \<open>Operators\<close>

text \<open>What a profile must support for an operator to be available.\<close>

datatype gate = GateNone | GateCompound | GateFloor | GateBitwise | GateLabel | GateOptionalType

fun gate_open :: "semantic_profile \<Rightarrow> gate \<Rightarrow> bool" where
  "gate_open p GateNone = True"
| "gate_open p GateCompound = supports_compound_assignment p"
| "gate_open p GateFloor = supports_floor_division p"
| "gate_open p GateBitwise = supports_bitwise_syntax p"
| "gate_open p GateLabel \<longleftrightarrow> supports_goto p \<or> p = Luau"
| "gate_open p GateOptionalType = supports_type_annotations p"

fun gate_message :: "gate \<Rightarrow> string" where
  "gate_message GateNone = ''''"
| "gate_message GateCompound = ''compound assignment is unavailable in this profile''"
| "gate_message GateFloor = ''floor-division syntax is unavailable in this profile''"
| "gate_message GateBitwise = ''bitwise syntax is unavailable in this profile''"
| "gate_message GateLabel = ''labels and goto are unavailable in this profile''"
| "gate_message GateOptionalType = ''optional type syntax is unavailable in this profile''"

type_synonym operator = "token_kind \<times> nat \<times> gate"

definition follows :: "bytes \<Rightarrow> nat \<Rightarrow> byte \<Rightarrow> bool" where
  "follows bs i b \<longleftrightarrow> get bs i = Some b"

definition slash_operator :: "bytes \<Rightarrow> nat \<Rightarrow> operator" where
  "slash_operator bs i =
     (if follows bs (i + 1) SLASH \<and> follows bs (i + 2) EQUALS then (TkFloorDivideEqual, 3, GateCompound)
      else if follows bs (i + 1) SLASH then (TkFloorDivide, 2, GateFloor)
      else if follows bs (i + 1) EQUALS then (TkSlashEqual, 2, GateCompound)
      else (TkSlash, 1, GateNone))"

definition comparison_operator :: "byte \<Rightarrow> bytes \<Rightarrow> nat \<Rightarrow> operator option" where
  "comparison_operator b bs i =
     (if b = EQUALS then Some (if follows bs (i + 1) EQUALS then (TkEqualEqual, 2, GateNone) else (TkEqual, 1, GateNone))
      else if b = TILDE then
        Some (if follows bs (i + 1) EQUALS then (TkNotEqual, 2, GateNone) else (TkBitwiseExclusiveOr, 1, GateBitwise))
      else if b = LESS then
        Some (if follows bs (i + 1) LESS then (TkShiftLeft, 2, GateBitwise)
              else if follows bs (i + 1) EQUALS then (TkLessEqual, 2, GateNone) else (TkLessThan, 1, GateNone))
      else if b = GREATER then
        Some (if follows bs (i + 1) GREATER then (TkShiftRight, 2, GateBitwise)
              else if follows bs (i + 1) EQUALS then (TkGreaterEqual, 2, GateNone) else (TkGreaterThan, 1, GateNone))
      else None)"

definition separator_operator :: "byte \<Rightarrow> bytes \<Rightarrow> nat \<Rightarrow> operator option" where
  "separator_operator b bs i =
     (if b = COMMA then Some (TkComma, 1, GateNone)
      else if b = SEMICOLON then Some (TkSemicolon, 1, GateNone)
      else if b = COLON then
        Some (if follows bs (i + 1) COLON then (TkColonColon, 2, GateLabel) else (TkColon, 1, GateNone))
      else None)"

text \<open>\<open>+\<close>, \<open>-\<close>, \<open>*\<close>, \<open>%\<close> and \<open>^\<close>, alone or with \<open>=\<close>: the two kinds.\<close>

definition arithmetic_kinds :: "byte \<Rightarrow> (token_kind \<times> token_kind) option" where
  "arithmetic_kinds b =
     (if b = PLUS then Some (TkPlus, TkPlusEqual)
      else if b = MINUS then Some (TkMinus, TkMinusEqual)
      else if b = STAR then Some (TkStar, TkStarEqual)
      else if b = PERCENT then Some (TkPercent, TkPercentEqual)
      else if b = CARET then Some (TkCaret, TkCaretEqual)
      else None)"

definition arithmetic_operator :: "byte \<Rightarrow> bytes \<Rightarrow> nat \<Rightarrow> operator option" where
  "arithmetic_operator b bs i =
     (case arithmetic_kinds b of
        None \<Rightarrow> None
      | Some (plain, compound) \<Rightarrow>
          Some (if follows bs (i + 1) EQUALS then (compound, 2, GateCompound) else (plain, 1, GateNone)))"

definition bracket_operator :: "byte \<Rightarrow> operator option" where
  "bracket_operator b =
     (if b = AMPERSAND then Some (TkBitwiseAnd, 1, GateBitwise)
      else if b = PIPE then Some (TkBitwiseOr, 1, GateBitwise)
      else if b = HASH then Some (TkHash, 1, GateNone)
      else if b = LBRACE then Some (TkLeftBrace, 1, GateNone)
      else if b = RBRACE then Some (TkRightBrace, 1, GateNone)
      else if b = RBRACKET then Some (TkRightBracket, 1, GateNone)
      else if b = LBRACKET then Some (TkLeftBracket, 1, GateNone)
      else if b = QUESTION then Some (TkQuestion, 1, GateOptionalType)
      else if b = LPAREN then Some (TkLeftParenthesis, 1, GateNone)
      else if b = RPAREN then Some (TkRightParenthesis, 1, GateNone)
      else None)"

definition dot_operator :: "bytes \<Rightarrow> nat \<Rightarrow> operator" where
  "dot_operator bs i =
     (if follows bs (i + 1) DOT \<and> follows bs (i + 2) EQUALS then (TkConcatenateEqual, 3, GateCompound)
      else if follows bs (i + 1) DOT \<and> follows bs (i + 2) DOT then (TkEllipsis, 3, GateNone)
      else if follows bs (i + 1) DOT then (TkConcatenate, 2, GateNone)
      else (TkDot, 1, GateNone))"

definition or_else :: "'a option \<Rightarrow> 'a option \<Rightarrow> 'a option" where
  "or_else x y = (case x of Some _ \<Rightarrow> x | None \<Rightarrow> y)"

definition operator_at :: "byte \<Rightarrow> bytes \<Rightarrow> nat \<Rightarrow> operator option" where
  "operator_at b bs i =
     (if b = SLASH then Some (slash_operator bs i)
      else if b = DOT then Some (dot_operator bs i)
      else or_else (comparison_operator b bs i) (or_else (separator_operator b bs i)
             (or_else (arithmetic_operator b bs i) (bracket_operator b))))"

section \<open>Tokens\<close>

type_synonym lexeme = "(token_kind \<times> nat \<times> diagnostic list, lex_error) res"

definition lex_operator :: "lexer \<Rightarrow> nat \<Rightarrow> diagnostic list \<Rightarrow> operator \<Rightarrow> lexeme" where
  "lex_operator c start ds operator =
     (case operator of (kind, n, gate) \<Rightarrow>
        rbind (if gate_open (lex_profile c) gate then Ok ds
               else push_unavailable_syntax_diagnostic c ds start (start + n) (gate_message gate)) (\<lambda>ds.
        Ok (kind, start + n, ds)))"

definition lex_comment :: "lexer \<Rightarrow> nat \<Rightarrow> diagnostic list \<Rightarrow> lexeme" where
  "lex_comment c start ds =
     (let bs = lex_bytes c in
      case long_comment_opener bs (start + 2) of
        None \<Rightarrow> Ok (TkComment, line_content_end bs start, ds)
      | Some (delimiter_len, equals) \<Rightarrow>
          let opener_end = start + 2 + delimiter_len in
          (case long_comment_end bs opener_end equals of
             Some stop \<Rightarrow> Ok (TkComment, stop, ds)
           | None \<Rightarrow>
               rbind (report c ds ''BLU-LEX-0006'' (start + 2) opener_end ''unterminated long comment''
                        [Expected (ascii ''long-comment closing delimiter'')]) (\<lambda>ds.
               Ok (TkComment, length bs, ds))))"

definition lex_long_string :: "lexer \<Rightarrow> nat \<Rightarrow> diagnostic list \<Rightarrow> nat \<times> nat \<Rightarrow> lexeme" where
  "lex_long_string c start ds opener =
     (case opener of (delimiter_len, equals) \<Rightarrow>
        let bs = lex_bytes c; opener_end = start + delimiter_len in
        (case long_comment_end bs opener_end equals of
           Some stop \<Rightarrow> Ok (TkStringLiteral, stop, ds)
         | None \<Rightarrow>
             rbind (report c ds ''BLU-LEX-0019'' start opener_end ''unterminated long string''
                      [Expected (ascii ''long-string closing delimiter'')]) (\<lambda>ds.
             Ok (TkStringLiteral, length bs, ds))))"

definition report_when ::
  "lexer \<Rightarrow> diagnostic list \<Rightarrow> (nat \<times> nat) option \<Rightarrow> string \<Rightarrow> string \<Rightarrow> remark list \<Rightarrow> (diagnostic list, lex_error) res" where
  "report_when c ds extent code message remarks =
     (case extent of
        None \<Rightarrow> Ok ds
      | Some (start, stop) \<Rightarrow> report c ds code start stop message (Found start stop # remarks))"

definition when_range :: "bool \<Rightarrow> nat \<Rightarrow> nat \<Rightarrow> (nat \<times> nat) option" where
  "when_range p start stop = (if p then Some (start, stop) else None)"

definition lex_quoted :: "lexer \<Rightarrow> nat \<Rightarrow> diagnostic list \<Rightarrow> byte \<Rightarrow> lexeme" where
  "lex_quoted c start ds quote =
     (let bs = lex_bytes c;
          (offset, q) = quoted_loop (lex_profile c) bs quote (start + 1)
                          \<lparr>q_unsupported = None, q_malformed = None, q_unicode = None\<rparr>;
          closed = follows bs offset quote;
          stop = (if closed then offset + 1 else offset)
      in rbind (report_when c ds (when_range (\<not> closed) start offset)
                  ''BLU-LEX-0008'' ''unterminated quoted string'' []) (\<lambda>ds.
         rbind (report_when c ds (case q_unsupported q of Some escape \<Rightarrow> Some (escape, escape + 1) | None \<Rightarrow> None)
                  ''BLU-LEX-0007'' ''unsupported string escape for this profile'' [selected_profile]) (\<lambda>ds.
         rbind (report_when c ds (q_malformed q)
                  ''BLU-LEX-0017'' ''malformed byte escape in quoted string''
                  [Expected (ascii ''a byte value from 0 through 255'')]) (\<lambda>ds.
         rbind (report_when c ds (q_unicode q)
                  ''BLU-LEX-0018'' ''malformed Unicode escape for this profile'' [selected_profile]) (\<lambda>ds.
         Ok (TkStringLiteral, stop, ds))))))"

section \<open>Numbers\<close>

definition is_binary_digit :: "byte \<Rightarrow> bool" where
  "is_binary_digit b \<longleftrightarrow> b = 0x30 \<or> b = 0x31"

definition lex_binary :: "lexer \<Rightarrow> nat \<Rightarrow> diagnostic list \<Rightarrow> lexeme" where
  "lex_binary c start ds =
     (let bs = lex_bytes c;
          stop = skip_while (\<lambda>b. is_binary_digit b \<or> b = UNDERSCORE) bs (start + 2);
          has_digit = any_between is_binary_digit bs (start + 2) stop
      in rbind (report_when c ds (when_range (\<not> has_digit) start stop)
                  ''BLU-LEX-0013'' ''binary integer requires at least one digit'' [Expected (ascii ''binary digit'')]) (\<lambda>ds.
         rbind (report_when c ds (when_range (\<not> supports_binary_integers (lex_profile c)) start stop)
                  ''BLU-LEX-0014'' ''binary integers are not supported by this profile'' [selected_profile]) (\<lambda>ds.
         Ok (TkBinaryInteger, stop, ds))))"

definition hex_or_separator :: "byte \<Rightarrow> bool" where
  "hex_or_separator b \<longleftrightarrow> is_ascii_hexdigit b \<or> b = UNDERSCORE"

record hex_scan =
  hs_end :: nat
  hs_has_digit :: bool
  hs_has_dot :: bool
  hs_has_exponent :: bool
  hs_malformed_exponent :: "nat option"
  hs_has_separator :: bool

definition scan_hex :: "bytes \<Rightarrow> nat \<Rightarrow> hex_scan" where
  "scan_hex bs start =
     (let whole = skip_while hex_or_separator bs (start + 2);
          has_dot = (follows bs whole DOT \<and> \<not> follows bs (whole + 1) DOT);
          mantissa = (if has_dot then skip_while hex_or_separator bs (whole + 1) else whole);
          has_exponent = (follows bs mantissa (ltr CHR ''p'') \<or> follows bs mantissa (ltr CHR ''P''));
          (stop, has_exponent_digit) = (if has_exponent then scan_exponent bs mantissa else (mantissa, True))
      in \<lparr>hs_end = stop,
          hs_has_digit = any_between is_ascii_hexdigit bs (start + 2) mantissa,
          hs_has_dot = has_dot, hs_has_exponent = has_exponent,
          hs_malformed_exponent = (if has_exponent \<and> \<not> has_exponent_digit then Some mantissa else None),
          hs_has_separator = any_between is_separator bs (start + 2) stop\<rparr>)"

definition lex_hex :: "lexer \<Rightarrow> nat \<Rightarrow> diagnostic list \<Rightarrow> lexeme" where
  "lex_hex c start ds =
     (let s = scan_hex (lex_bytes c) start; stop = hs_end s; p = lex_profile c;
          is_number = (hs_has_dot s \<or> hs_has_exponent s)
      in rbind (report_when c ds (when_range (\<not> hs_has_digit s) start stop)
                  ''BLU-LEX-0011'' ''hexadecimal integer requires at least one digit''
                  [Expected (ascii ''hexadecimal digit'')]) (\<lambda>ds.
         rbind (report_when c ds (case hs_malformed_exponent s of Some exponent \<Rightarrow> Some (exponent, stop) | None \<Rightarrow> None)
                  ''BLU-LEX-0015'' ''hexadecimal exponent requires at least one decimal digit''
                  [Expected (ascii ''decimal exponent digit'')]) (\<lambda>ds.
         rbind (report_when c ds (when_range (is_number \<and> \<not> supports_hex_number p (hs_has_dot s) (hs_has_exponent s)) start stop)
                  ''BLU-LEX-0016'' ''this hexadecimal number form is not supported by the selected profile''
                  [selected_profile]) (\<lambda>ds.
         rbind (if hs_has_separator s \<and> \<not> supports_numeric_separators p
                then push_numeric_separator_diagnostic c start stop ds else Ok ds) (\<lambda>ds.
         Ok (if is_number then TkHexNumber else TkHexInteger, stop, ds))))))"

definition lex_decimal :: "lexer \<Rightarrow> nat \<Rightarrow> diagnostic list \<Rightarrow> lexeme" where
  "lex_decimal c start ds =
     (let s = scan_decimal (lex_bytes c) start; stop = ds_end s
      in rbind (report_when c ds (case ds_malformed_exponent s of Some exponent \<Rightarrow> Some (exponent, stop) | None \<Rightarrow> None)
                  ''BLU-LEX-0009'' ''decimal exponent requires at least one digit''
                  [Expected (ascii ''decimal exponent digit'')]) (\<lambda>ds.
         rbind (if ds_has_separator s \<and> \<not> supports_numeric_separators (lex_profile c)
                then push_numeric_separator_diagnostic c start stop ds else Ok ds) (\<lambda>ds.
         Ok (if ds_is_integer s then TkDecimalInteger else TkDecimalNumber, stop, ds))))"

definition lex_number :: "lexer \<Rightarrow> nat \<Rightarrow> diagnostic list \<Rightarrow> byte \<Rightarrow> lexeme" where
  "lex_number c start ds b =
     (let bs = lex_bytes c in
      if b = 0x30 \<and> (follows bs (start + 1) (ltr CHR ''b'') \<or> follows bs (start + 1) (ltr CHR ''B'')) then lex_binary c start ds
      else if b = 0x30 \<and> (follows bs (start + 1) (ltr CHR ''x'') \<or> follows bs (start + 1) (ltr CHR ''X'')) then lex_hex c start ds
      else lex_decimal c start ds)"

section \<open>Words\<close>

definition keyword_kind :: "semantic_profile \<Rightarrow> bytes \<Rightarrow> token_kind" where
  "keyword_kind p w =
     (if w = ascii ''global'' \<and> supports_global_declarations p then TkGlobal
      else if w = ascii ''local'' then TkLocal
      else if w = ascii ''function'' then TkFunction
      else if w = ascii ''return'' then TkReturn
      else if w = ascii ''not'' then TkNot
      else if w = ascii ''and'' then TkAnd
      else if w = ascii ''or'' then TkOr
      else if w = ascii ''if'' then TkIf
      else if w = ascii ''then'' then TkThen
      else if w = ascii ''elseif'' then TkElseIf
      else if w = ascii ''else'' then TkElse
      else if w = ascii ''end'' then TkEnd
      else if w = ascii ''while'' then TkWhile
      else if w = ascii ''do'' then TkDo
      else if w = ascii ''repeat'' then TkRepeat
      else if w = ascii ''until'' then TkUntil
      else if w = ascii ''for'' then TkFor
      else if w = ascii ''in'' then TkIn
      else if w = ascii ''goto'' then TkGoto
      else if w = ascii ''break'' then TkBreak
      else if w = ascii ''continue'' then TkContinue
      else if w = ascii ''nil'' then TkNil
      else if w = ascii ''true'' then TkTrue
      else if w = ascii ''false'' then TkFalse
      else TkIdentifier)"

definition lex_word :: "lexer \<Rightarrow> nat \<Rightarrow> diagnostic list \<Rightarrow> lexeme" where
  "lex_word c start ds =
     (let bs = lex_bytes c; p = lex_profile c; stop = skip_while is_identifier_continue bs (start + 1) in
      rbind (slice_at bs start stop) (\<lambda>w.
      let kind = keyword_kind p w in
      rbind (if kind = TkGoto \<and> \<not> supports_goto p
             then report c ds ''BLU-LEX-0019'' start stop ''`goto` is unavailable in this profile''
                    [Found start stop, selected_profile]
             else if kind = TkContinue \<and> \<not> supports_continue p
             then report c ds ''BLU-LEX-0018'' start stop ''`continue` is unavailable in this profile''
                    [Found start stop, selected_profile]
             else Ok ds) (\<lambda>ds.
      Ok (kind, stop, ds))))"

section \<open>One token\<close>

definition lex_unknown :: "lexer \<Rightarrow> nat \<Rightarrow> diagnostic list \<Rightarrow> lexeme" where
  "lex_unknown c start ds =
     rbind (report c ds ''BLU-LEX-0001'' start (start + 1) ''unrecognized source byte'' [Found start (start + 1)]) (\<lambda>ds.
     Ok (TkUnknown, start + 1, ds))"

text \<open>The token that starts with \<open>b\<close>, which is not a backtick.\<close>

definition lex_token :: "lexer \<Rightarrow> nat \<Rightarrow> byte \<Rightarrow> diagnostic list \<Rightarrow> lexeme" where
  "lex_token c start b ds =
     (let bs = lex_bytes c in
      if is_whitespace b then Ok (TkWhitespace, skip_while is_whitespace bs (start + 1), ds)
      else if b = MINUS \<and> follows bs (start + 1) MINUS then lex_comment c start ds
      else if b = LBRACKET \<and> long_comment_opener bs start \<noteq> None then lex_long_string c start ds (the (long_comment_opener bs start))
      else if b = QUOTE \<or> b = DQUOTE then lex_quoted c start ds b
      else if is_ascii_digit b then lex_number c start ds b
      else if b = DOT \<and> (case get bs (start + 1) of Some d \<Rightarrow> is_ascii_digit d | None \<Rightarrow> False) then lex_decimal c start ds
      else if is_identifier_start b then lex_word c start ds
      else (case operator_at b bs start of
              Some operator \<Rightarrow> lex_operator c start ds operator
            | None \<Rightarrow> lex_unknown c start ds))"

section \<open>Interpolated strings\<close>

type_synonym lexed_so_far = "token list \<times> diagnostic list"

definition remap_fragment_diagnostic :: "lexer \<Rightarrow> nat \<Rightarrow> diagnostic \<Rightarrow> (diagnostic, lex_error) res" where
  "remap_fragment_diagnostic c offset d =
     (let alloc = lex_alloc c;
          remap = (\<lambda>s. lex_span c (saturating_add offset (unat (span_start s))) (saturating_add offset (unat (span_end s))));
          try = map_err LexDiagnostic
      in rbind (remap (label_span (dg_primary d))) (\<lambda>primary.
         rbind (try (diagnostic_try_new alloc (code_as_str (dg_code d)) (dg_phase d) (dg_profile d) (dg_severity d) primary
                       (label_message (dg_primary d)) (dg_limits d))) (\<lambda>mapped.
         rbind (fold_res (\<lambda>m l. rbind (remap (label_span l)) (\<lambda>s. try (try_with_secondary alloc m s (label_message l))))
                  mapped (dg_secondary d)) (\<lambda>mapped.
         rbind (fold_res (\<lambda>m e. try (try_with_expected alloc m e)) mapped (dg_expected d)) (\<lambda>mapped.
         rbind (case dg_found d of Some f \<Rightarrow> try (try_with_found alloc mapped f) | None \<Rightarrow> Ok mapped) (\<lambda>mapped.
         rbind (fold_res (\<lambda>m n. try (try_with_note alloc m n)) mapped (dg_notes d)) (\<lambda>mapped.
         fold_res (\<lambda>m h. try (try_with_help alloc m h)) mapped (dg_help d))))))))"

text \<open>\<open>nested\<close> is \<open>lex\<close> on a shorter source.\<close>

definition fragment_limits :: "lexer \<Rightarrow> token list \<Rightarrow> diagnostic list \<Rightarrow> lexer_limits" where
  "fragment_limits c tokens ds =
     \<lparr>max_tokens = saturating_sub (max_tokens (lex_limits c)) (length tokens),
      max_diagnostics = saturating_sub (max_diagnostics (lex_limits c)) (length ds),
      lx_diagnostic_limits = lx_diagnostic_limits (lex_limits c)\<rparr>"

definition push_remapped :: "lexer \<Rightarrow> nat \<Rightarrow> token list \<Rightarrow> token \<Rightarrow> (token list, lex_error) res" where
  "push_remapped c start tokens t =
     push_kind c tokens (token_kind t) (saturating_add start (unat (span_start (token_span t))))
       (saturating_add start (unat (span_end (token_span t))))"

definition fragment_source :: "lexer \<Rightarrow> nat \<Rightarrow> nat \<Rightarrow> (source_file, lex_error) res" where
  "fragment_source c start stop =
     rbind (slice_at (lex_bytes c) start stop) (\<lambda>part.
     map_err (\<lambda>_. LexAllocationFailed ''interpolated expression source'' (saturating_sub stop start))
       (source_file_new (lex_alloc c) (si_id (sf_identity (lex_file c))) (si_name (sf_identity (lex_file c)))
          part default_source_limits))"

definition lex_interpolation_fragment ::
  "(source_file \<Rightarrow> lexer_limits \<Rightarrow> (lexed, lex_error) res) \<Rightarrow> lexer \<Rightarrow> nat \<Rightarrow> nat \<Rightarrow> token list \<Rightarrow> diagnostic list \<Rightarrow>
     (lexed_so_far, lex_error) res" where
  "lex_interpolation_fragment nested c start stop tokens ds =
     (if start = stop then Ok (tokens, ds)
      else
        rbind (fragment_source c start stop) (\<lambda>fragment.
        rbind (nested fragment (fragment_limits c tokens ds)) (\<lambda>l.
        rbind (fold_res (push_remapped c start) tokens (lx_tokens l)) (\<lambda>tokens.
        rbind (fold_res (\<lambda>ds d. rbind (remap_fragment_diagnostic c start d) (push_diagnostic c ds)) ds (lx_diagnostics l)) (\<lambda>ds.
        Ok (tokens, ds))))))"

text \<open>From \<open>cursor\<close>, with the text of the string that has not been pushed starting at \<open>text_start\<close>.\<close>

function interpolated_loop ::
  "(source_file \<Rightarrow> lexer_limits \<Rightarrow> (lexed, lex_error) res) \<Rightarrow> lexer \<Rightarrow> nat \<Rightarrow> nat \<Rightarrow> nat \<Rightarrow> token list \<Rightarrow> diagnostic list \<Rightarrow>
     (nat \<times> lexed_so_far, lex_error) res" where
  "interpolated_loop nested c start cursor text_start tokens ds =
     (let bs = lex_bytes c in
      if cursor < length bs then
        (if bs ! cursor = BACKSLASH then interpolated_loop nested c start (escaped_cursor bs cursor) text_start tokens ds
         else if bs ! cursor = BACKTICK then
           rbind (push_kind c tokens TkInterpolatedStringText text_start cursor) (\<lambda>tokens.
           rbind (push_kind c tokens TkInterpolatedStringEnd cursor (cursor + 1)) (\<lambda>tokens.
           Ok (cursor + 1, tokens, ds)))
         else if bs ! cursor = LBRACE then
           rbind (push_kind c tokens TkInterpolatedStringText text_start cursor) (\<lambda>tokens.
           rbind (push_kind c tokens TkInterpolationOpen cursor (cursor + 1)) (\<lambda>tokens.
           case find_interpolation_close bs (cursor + 1) of
             Some close \<Rightarrow>
               rbind (lex_interpolation_fragment nested c (cursor + 1) close tokens ds) (\<lambda>(tokens, ds).
               rbind (push_kind c tokens TkInterpolationClose close (close + 1)) (\<lambda>tokens.
               interpolated_loop nested c start (close + 1) (close + 1) tokens ds))
           | None \<Rightarrow>
               rbind (lex_interpolation_fragment nested c (cursor + 1) (length bs) tokens ds) (\<lambda>(tokens, ds).
               rbind (report c ds ''BLU-LEX-0020'' cursor (length bs) ''unterminated interpolated expression''
                        [Expected (ascii ''}'')]) (\<lambda>ds.
               Ok (length bs, tokens, ds)))))
         else interpolated_loop nested c start (cursor + 1) text_start tokens ds)
      else
        rbind (push_kind c tokens TkInterpolatedStringText text_start (length bs)) (\<lambda>tokens.
        rbind (report c ds ''BLU-LEX-0021'' start (length bs) ''unterminated interpolated string''
                 [Expected (ascii ''`'')]) (\<lambda>ds.
        Ok (length bs, tokens, ds))))"
  by pat_completeness auto
termination
proof (relation "measure (\<lambda>(nested, c, start, cursor, text_start, tokens, ds). length (lex_bytes c) - cursor)", goal_cases)
  case (2 nested c start cursor text_start tokens ds bs)
  then show ?case using escaped_cursor_gt [of cursor bs] by (auto intro: diff_less_mono2)
next
  case (3 nested c start cursor text_start tokens ds bs)
  then show ?case using find_interpolation_close_bounds by (fastforce intro: diff_less_mono2)
qed auto

end
