(* ===== verification/Syntax_Progress.thy ===== *)
theory Syntax_Progress
  imports Syntax_Lex
begin

text \<open>
  Every token of the lexer of \<open>blu-syntax/src/lib.rs\<close> covers at least one byte and ends within
  the source.
\<close>

section \<open>Where a token ends\<close>

definition ends_in :: "bytes \<Rightarrow> nat \<Rightarrow> nat \<Rightarrow> bool" where
  "ends_in bs start stop \<longleftrightarrow> start < stop \<and> stop \<le> length bs"

lemma ends_if: "(c \<Longrightarrow> ends_in bs i x) \<Longrightarrow> (\<not> c \<Longrightarrow> ends_in bs i y) \<Longrightarrow> ends_in bs i (if c then x else y)"
  by simp

lemma skip_ends: "i < j \<Longrightarrow> j \<le> length bs \<Longrightarrow> ends_in bs i (skip_while p bs j)"
  using skip_while_ge [of j p bs] skip_while_le [of j bs p] by (simp add: ends_in_def)

lemma follows_less: "follows bs i b \<Longrightarrow> i < length bs \<and> bs ! i = b"
  unfolding follows_def by (rule get_less)

lemma operator_ends:
  assumes "i < length bs" and "operator_at b bs i = Some (k, n, g)"
  shows "ends_in bs i (i + n)"
proof -
  have "1 \<le> n \<and> i + n \<le> length bs"
    using assms
    by (auto simp: operator_at_def slash_operator_def dot_operator_def comparison_operator_def separator_operator_def
        arithmetic_operator_def bracket_operator_def or_else_def split: if_splits option.splits dest!: follows_less)
  then show ?thesis by (simp add: ends_in_def)
qed

lemma scan_exponent_ends:
  assumes "i < length bs"
  shows "ends_in bs i (fst (scan_exponent bs i))"
proof -
  have "get bs (i + 1) \<in> {Some PLUS, Some MINUS} \<Longrightarrow> i + 2 \<le> length bs" using get_less [of bs "i + 1"] by fastforce
  then show ?thesis using assms by (auto simp: scan_exponent_def Let_def intro!: skip_ends)
qed

lemma scan_decimal_ends:
  assumes "i < length bs" and "is_ascii_digit (bs ! i) \<or> bs ! i = DOT"
  shows "ends_in bs i (ds_end (scan_decimal bs i))"
proof -
  let ?o = "skip_while digit_or_separator bs (if get bs i = Some DOT then i + 1 else i)"
  have o: "ends_in bs i ?o"
  proof (cases "get bs i = Some DOT")
    case True
    then show ?thesis using assms(1) by (simp add: skip_ends)
  next
    case False
    with assms have "is_ascii_digit (bs ! i)" by (auto simp: get_def)
    then have "i < skip_while digit_or_separator bs i"
      by (intro skip_while_step assms) (simp add: digit_or_separator_def)
    with False skip_while_le [of i bs digit_or_separator] assms(1) show ?thesis by (simp add: ends_in_def)
  qed
  have fraction: "ends_in bs i j \<Longrightarrow> get bs j = Some DOT \<Longrightarrow> ends_in bs i (skip_while digit_or_separator bs (j + 1))" for j
    by (rule skip_ends) (auto simp: ends_in_def dest!: get_less)
  have exponent: "ends_in bs i j \<Longrightarrow> get bs j \<in> {Some e, Some e'} \<Longrightarrow> ends_in bs i (fst (scan_exponent bs j))" for j e e'
  proof -
    assume j: "ends_in bs i j" "get bs j \<in> {Some e, Some e'}"
    then have "j < length bs" using get_less [of bs j] by auto
    from scan_exponent_ends [OF this] j(1) show ?thesis by (simp add: ends_in_def)
  qed
  let ?m = "if get bs i \<noteq> Some DOT \<and> get bs ?o = Some DOT then skip_while digit_or_separator bs (?o + 1) else ?o"
  have m: "ends_in bs i ?m" by (rule ends_if) (use o fraction [OF o] in blast)+
  then have stop: "ends_in bs i (fst (if get bs ?m \<in> {Some (ltr CHR ''e''), Some (ltr CHR ''E'')} then scan_exponent bs ?m else (?m, True)))"
    using exponent [OF m] by simp
  show ?thesis
    unfolding scan_decimal_def Let_def case_prod_beta if_distrib [where f = ds_end] decimal_scan.simps
    by (rule ends_if [OF o stop])
qed

lemma scan_hex_ends:
  assumes "i + 1 < length bs"
  shows "ends_in bs i (hs_end (scan_hex bs i))"
proof -
  have o: "ends_in bs i (skip_while hex_or_separator bs (i + 2))" using assms by (intro skip_ends) simp_all
  have fraction: "ends_in bs i j \<Longrightarrow> follows bs j b \<Longrightarrow> ends_in bs i (skip_while hex_or_separator bs (j + 1))" for j b
    by (rule skip_ends) (auto simp: ends_in_def dest!: follows_less)
  have exponent: "ends_in bs i j \<Longrightarrow> follows bs j b \<Longrightarrow> ends_in bs i (fst (scan_exponent bs j))" for j b
    using scan_exponent_ends [of j bs] by (auto simp: ends_in_def dest!: follows_less)
  show ?thesis
    using o fraction exponent by (auto simp: scan_hex_def Let_def case_prod_beta)
qed

section \<open>The arms of the match\<close>

text \<open>An arm that returns has a kind, an end in the source, and diagnostics.\<close>

definition advances :: "bytes \<Rightarrow> nat \<Rightarrow> lexeme \<Rightarrow> bool" where
  "advances bs i r \<longleftrightarrow> (\<forall>k stop ds. r = Ok (k, stop, ds) \<longrightarrow> ends_in bs i stop)"

lemma advances_rbind: "(\<And>x. m = Ok x \<Longrightarrow> advances bs i (f x)) \<Longrightarrow> advances bs i (rbind m f)"
  by (cases m) (simp_all add: advances_def)

lemma advances_Ok: "ends_in bs i stop \<Longrightarrow> advances bs i (Ok (k, stop, ds))"
  by (simp add: advances_def)

lemma lex_comment_advances:
  assumes "follows (lex_bytes c) i MINUS" and "follows (lex_bytes c) (i + 1) MINUS"
  shows "advances (lex_bytes c) i (lex_comment c i ds)"
proof -
  let ?bs = "lex_bytes c"
  have i: "i + 1 < length ?bs" "?bs ! i = MINUS" "?bs ! (i + 1) = MINUS" using assms by (auto dest!: follows_less)
  have "drop i ?bs = ?bs ! i # ?bs ! (i + 1) # drop (i + 2) ?bs" using i(1) by (simp add: Cons_nth_drop_Suc)
  then have "i + 2 \<le> line_end ?bs i" using i by (simp add: line_end_def skip_while_def CR_def LF_def)
  then have "ends_in ?bs i (line_content_end ?bs i)"
    using line_end_le [of i ?bs] i(1) by (auto simp: line_content_end_def ends_in_def Let_def)
  then show ?thesis
    using i(1)
    by (auto simp: lex_comment_def Let_def ends_in_def split: option.split dest!: long_comment_end_bounds
        intro!: advances_Ok advances_rbind)
qed

lemma lex_long_string_advances:
  "long_comment_opener (lex_bytes c) i = Some opener \<Longrightarrow> advances (lex_bytes c) i (lex_long_string c i ds opener)"
  by (cases opener)
    (auto simp: lex_long_string_def Let_def ends_in_def split: option.split
      dest!: long_comment_end_bounds long_comment_opener_bounds intro!: advances_Ok advances_rbind)

lemma lex_quoted_advances:
  assumes "i < length (lex_bytes c)"
  shows "advances (lex_bytes c) i (lex_quoted c i ds quote)"
proof -
  let ?q = "\<lparr>q_unsupported = None, q_malformed = None, q_unicode = None\<rparr>"
  obtain o' q where l: "quoted_loop (lex_profile c) (lex_bytes c) quote (i + 1) ?q = (o', q)"
    by (cases "quoted_loop (lex_profile c) (lex_bytes c) quote (i + 1) ?q")
  have "i + 1 \<le> o' \<and> o' \<le> length (lex_bytes c)" using quoted_loop_bounds [OF _ l] assms by simp
  then have "ends_in (lex_bytes c) i (if follows (lex_bytes c) o' quote then o' + 1 else o')"
    by (auto simp: ends_in_def dest!: follows_less)
  then show ?thesis
    unfolding lex_quoted_def Let_def l prod.case by (intro advances_rbind advances_Ok)
qed

lemma lex_number_advances:
  assumes "i < length (lex_bytes c)" and "b = lex_bytes c ! i" and "is_ascii_digit b \<or> b = DOT"
  shows "advances (lex_bytes c) i (lex_number c i ds b)" "advances (lex_bytes c) i (lex_decimal c i ds)"
proof -
  show d: "advances (lex_bytes c) i (lex_decimal c i ds)"
    using scan_decimal_ends [of i "lex_bytes c"] assms unfolding lex_decimal_def Let_def by (intro advances_rbind advances_Ok) simp
  have h: "advances (lex_bytes c) i (lex_hex c i ds)" if "i + 1 < length (lex_bytes c)"
    using scan_hex_ends [OF that] unfolding lex_hex_def Let_def by (intro advances_rbind advances_Ok)
  have b: "advances (lex_bytes c) i (lex_binary c i ds)" if "i + 1 < length (lex_bytes c)"
    using that unfolding lex_binary_def Let_def by (intro advances_rbind advances_Ok skip_ends) simp_all
  show "advances (lex_bytes c) i (lex_number c i ds b)"
    using d h b by (auto simp: lex_number_def Let_def dest!: follows_less)
qed

lemma lex_token_advances:
  assumes "i < length (lex_bytes c)"
  shows "advances (lex_bytes c) i (lex_token c i (lex_bytes c ! i) ds)"
proof -
  let ?bs = "lex_bytes c" let ?b = "?bs ! i"
  have b: "follows ?bs i ?b" using assms by (simp add: follows_def get_def)
  have w: "ends_in ?bs i (skip_while p ?bs (i + 1))" for p using assms by (intro skip_ends) simp_all
  have word: "advances ?bs i (lex_word c i ds)"
    using w unfolding lex_word_def Let_def by (intro advances_rbind advances_Ok)
  have op: "advances ?bs i (lex_operator c i ds x)" if "operator_at ?b ?bs i = Some x" for x
    using operator_ends [OF assms, of ?b] that
    by (cases x) (auto simp: lex_operator_def intro!: advances_rbind advances_Ok)
  have other: "advances ?bs i (lex_unknown c i ds)"
    using assms unfolding lex_unknown_def by (intro advances_rbind advances_Ok) (simp add: ends_in_def)
  have ws: "advances ?bs i (Ok (TkWhitespace, skip_while is_whitespace ?bs (i + 1), ds))"
    by (rule advances_Ok [OF w])
  note arms = ws lex_comment_advances [of c i] lex_long_string_advances [of c i] lex_quoted_advances [OF assms]
    lex_number_advances [OF assms refl] word op other
  show ?thesis
    using b arms unfolding lex_token_def Let_def by (auto split: option.split)
qed

end
