(* ===== verification/Syntax_Lexer.thy ===== *)
theory Syntax_Lexer
  imports Syntax_Progress
begin

text \<open>
  \<open>lex\<close> of \<open>blu-syntax/src/lib.rs\<close>: the loop over a source, the initial directive, and the lexer
  itself, which calls itself on the expressions of interpolated strings. It is total.
\<close>

section \<open>Interpolated strings advance\<close>

declare interpolated_loop.simps [simp del]

lemma interpolated_loop_ends:
  "cursor \<le> length (lex_bytes c) \<Longrightarrow> interpolated_loop nested c start cursor text_start tokens ds = Ok (stop, r) \<Longrightarrow>
     cursor \<le> stop \<and> stop \<le> length (lex_bytes c)"
proof (induction nested c start cursor text_start tokens ds rule: interpolated_loop.induct)
  case (1 nested c start cursor text_start tokens ds)
  let ?bs = "lex_bytes c"
  note step = 1(5) [unfolded interpolated_loop.simps [of nested c start cursor] Let_def]
  show ?case
  proof (cases "cursor < length ?bs")
    case False
    with step 1(4) show ?thesis by (auto simp: res_simps)
  next
    case c: True
    consider "?bs ! cursor = BACKSLASH" | "?bs ! cursor = BACKTICK" | "?bs ! cursor = LBRACE"
      | "?bs ! cursor \<notin> {BACKSLASH, BACKTICK, LBRACE}" by blast
    then show ?thesis
    proof cases
      case b: 1
      with step c have "interpolated_loop nested c start (escaped_cursor ?bs cursor) text_start tokens ds = Ok (stop, r)" by simp
      with 1(1) [OF refl c b] escaped_cursor_gt [of cursor ?bs] escaped_cursor_le [OF c] show ?thesis by simp
    next
      case 2
      with step c show ?thesis by (auto simp: res_simps)
    next
      case b: 3
      note step = step [unfolded if_P [OF c] b, simplified]
      show ?thesis
      proof (cases "find_interpolation_close ?bs (cursor + 1)")
        case None
        with step c show ?thesis by (auto simp: res_simps)
      next
        case (Some close)
        note cl = find_interpolation_close_bounds [OF Some]
        from step Some obtain t1 t2 t3 t4 d3 where
          "push_kind c tokens TkInterpolatedStringText text_start cursor = Ok t1"
          "push_kind c t1 TkInterpolationOpen cursor (cursor + 1) = Ok t2"
          "lex_interpolation_fragment nested c (cursor + 1) close t2 ds = Ok (t3, d3)"
          "push_kind c t3 TkInterpolationClose close (close + 1) = Ok t4"
          "interpolated_loop nested c start (close + 1) (close + 1) t4 d3 = Ok (stop, r)"
          by (auto simp: res_simps)
        with 1(2) [OF refl c _ _ b _ _ Some _ refl] b cl show ?thesis by fastforce
      qed
    next
      case b: 4
      with step c have "interpolated_loop nested c start (cursor + 1) text_start tokens ds = Ok (stop, r)" by simp
      with 1(3) [OF refl c] b c show ?thesis by simp
    qed
  qed
qed

definition lex_interpolated_string ::
  "(source_file \<Rightarrow> lexer_limits \<Rightarrow> (lexed, lex_error) res) \<Rightarrow> lexer \<Rightarrow> nat \<Rightarrow> token list \<Rightarrow> diagnostic list \<Rightarrow>
     (nat \<times> lexed_so_far, lex_error) res" where
  "lex_interpolated_string nested c start tokens ds =
     rbind (push_kind c tokens TkInterpolatedStringStart start (start + 1)) (\<lambda>tokens.
     interpolated_loop nested c start (start + 1) (start + 1) tokens ds)"

lemma lex_interpolated_string_ends:
  "start < length (lex_bytes c) \<Longrightarrow> lex_interpolated_string nested c start tokens ds = Ok (stop, r) \<Longrightarrow>
     ends_in (lex_bytes c) start stop"
  by (auto simp: lex_interpolated_string_def res_simps ends_in_def dest!: interpolated_loop_ends [rotated])

section \<open>The loop\<close>

function lex_loop ::
  "(source_file \<Rightarrow> lexer_limits \<Rightarrow> (lexed, lex_error) res) \<Rightarrow> lexer \<Rightarrow> nat \<Rightarrow> token list \<Rightarrow> diagnostic list \<Rightarrow>
     (lexed_so_far, lex_error) res" where
  "lex_loop nested c offset tokens ds =
     (if offset < length (lex_bytes c) then
        (if lex_bytes c ! offset = BACKTICK then
           (if supports_interpolated_strings (lex_profile c) then
              rbind (lex_interpolated_string nested c offset tokens ds) (\<lambda>(stop, tokens, ds).
              lex_loop nested c stop tokens ds)
            else
              rbind (push_unavailable_syntax_diagnostic c ds offset (offset + 1)
                       ''interpolated strings are unavailable in this profile'') (\<lambda>ds.
              rbind (push_kind c tokens TkUnknown offset (offset + 1)) (\<lambda>tokens.
              lex_loop nested c (offset + 1) tokens ds)))
         else
           rbind (lex_token c offset (lex_bytes c ! offset) ds) (\<lambda>(kind, stop, ds).
           rbind (push_kind c tokens kind offset stop) (\<lambda>tokens.
           lex_loop nested c stop tokens ds)))
      else Ok (tokens, ds))"
  by pat_completeness auto
termination
proof (relation "measure (\<lambda>(nested, c, offset, tokens, ds). length (lex_bytes c) - offset)", goal_cases)
  case (2 nested c offset tokens ds x stop y tokens' ds')
  then have "ends_in (lex_bytes c) offset stop" using lex_interpolated_string_ends by blast
  then show ?case by (auto simp: ends_in_def intro: diff_less_mono2)
next
  case (4 nested c offset tokens ds x kind y stop ds' tokens')
  then have "lex_token c offset (lex_bytes c ! offset) ds = Ok (kind, stop, ds')" by simp
  with lex_token_advances [OF 4(1), of ds] have "ends_in (lex_bytes c) offset stop" by (simp add: advances_def)
  then show ?case by (auto simp: ends_in_def intro: diff_less_mono2)
qed auto

declare lex_loop.simps [simp del]

section \<open>The initial directive\<close>

definition DIRECTIVE_PREFIX :: bytes where
  "DIRECTIVE_PREFIX = ascii ''--!dialect''"

definition is_initial_directive :: "bytes \<Rightarrow> bool" where
  "is_initial_directive bs \<longleftrightarrow>
     take (length DIRECTIVE_PREFIX) bs = DIRECTIVE_PREFIX \<and>
     (case get bs (length DIRECTIVE_PREFIX) of None \<Rightarrow> True | Some b \<Rightarrow> b \<in> {SPACE, TAB, CR, LF})"

definition is_blank :: "byte \<Rightarrow> bool" where
  "is_blank b \<longleftrightarrow> b = SPACE \<or> b = TAB"

definition before_cr :: "bytes \<Rightarrow> nat \<Rightarrow> nat" where
  "before_cr bs stop = (if 0 < stop \<and> get bs (stop - 1) = Some CR then stop - 1 else stop)"

definition add_profile_expectations :: "lexer \<Rightarrow> diagnostic \<Rightarrow> (diagnostic, lex_error) res" where
  "add_profile_expectations c d =
     fold_res (\<lambda>d p. map_err LexDiagnostic (try_with_expected (lex_alloc c) d (profile_as_str p))) d profile_ALL"

definition parse_directive ::
  "lexer \<Rightarrow> nat \<Rightarrow> byte_span \<Rightarrow> diagnostic list \<Rightarrow> (dialect_directive option \<times> diagnostic list, lex_error) res" where
  "parse_directive c stop directive_span ds =
     (let bs = lex_bytes c; content_end = before_cr bs stop; line = take content_end bs;
          value_start = skip_while is_blank line (length DIRECTIVE_PREFIX);
          value_end = skip_while (\<lambda>b. \<not> is_blank b) line value_start;
          trailing = skip_while is_blank line value_end
      in if value_start = value_end then
           rbind (lex_span c value_start value_end) (\<lambda>s.
           rbind (lex_diagnostic c ''BLU-LEX-0003'' s ''dialect directive is missing a profile'') (\<lambda>d.
           rbind (add_profile_expectations c d) (\<lambda>d.
           rbind (push_diagnostic c ds d) (\<lambda>ds. Ok (None, ds)))))
         else if trailing \<noteq> content_end then
           rbind (report c ds ''BLU-LEX-0003'' trailing content_end ''unexpected bytes after dialect profile''
                    [Found trailing content_end, Expected (ascii ''end of directive'')]) (\<lambda>ds.
           Ok (None, ds))
         else
           rbind (lex_span c value_start value_end) (\<lambda>value_span.
           rbind (slice_at bs value_start value_end) (\<lambda>v.
           case profile_from_bytes v of
             None \<Rightarrow>
               rbind (lex_diagnostic c ''BLU-LEX-0004'' value_span ''unknown dialect profile'') (\<lambda>d.
               rbind (try_remark c d (Found value_start value_end)) (\<lambda>d.
               rbind (add_profile_expectations c d) (\<lambda>d.
               rbind (push_diagnostic c ds d) (\<lambda>ds. Ok (None, ds)))))
           | Some profile \<Rightarrow>
               rbind (if profile \<noteq> lex_profile c
                      then report_at c ds ''BLU-LEX-0005'' value_span ''source directive conflicts with the explicit profile''
                             [Found value_start value_end, ProfileNote ''explicit profile: '',
                              Expected (profile_as_str (lex_profile c))]
                      else Ok ds) (\<lambda>ds.
               Ok (Some (DialectDirective profile directive_span value_span), ds)))))"

section \<open>The whole\<close>

definition lex_shebang :: "lexer \<Rightarrow> (token list \<times> nat, lex_error) res" where
  "lex_shebang c =
     (let bs = lex_bytes c in
      if get bs 0 = Some HASH \<and> get bs 1 = Some BANG then
        let stop = line_content_end bs 0 in
        rbind (push_kind c [] TkComment 0 stop) (\<lambda>tokens. Ok (tokens, stop))
      else Ok ([], 0))"

definition lex_directive ::
  "lexer \<Rightarrow> token list \<Rightarrow> nat \<Rightarrow> (dialect_directive option \<times> nat \<times> lexed_so_far, lex_error) res" where
  "lex_directive c tokens offset =
     (let bs = lex_bytes c in
      if offset = 0 \<and> is_initial_directive bs then
        let stop = line_end bs 0; directive_end = before_cr bs stop in
        rbind (lex_span c 0 directive_end) (\<lambda>s.
        rbind (push_token c tokens (Token TkDialectDirective s)) (\<lambda>tokens.
        rbind (parse_directive c stop s []) (\<lambda>(directive, ds).
        Ok (directive, directive_end, tokens, ds))))
      else Ok (None, offset, tokens, []))"

definition lex_with ::
  "(source_file \<Rightarrow> lexer_limits \<Rightarrow> (lexed, lex_error) res) \<Rightarrow> lexer \<Rightarrow> (lexed, lex_error) res" where
  "lex_with nested c =
     (let n = length (lex_bytes c) in
      rbind (allocate_vec (lex_alloc c) (min (min n (max_tokens (lex_limits c))) 4096) ''lexer tokens'') (\<lambda>_ :: token list.
      rbind (allocate_vec (lex_alloc c) (min (min n (max_diagnostics (lex_limits c))) 16) ''lexer diagnostics'') (\<lambda>_ :: diagnostic list.
      rbind (lex_shebang c) (\<lambda>(tokens, offset).
      rbind (lex_directive c tokens offset) (\<lambda>(directive, offset, tokens, ds).
      rbind (lex_loop nested c offset tokens ds) (\<lambda>(tokens, ds).
      Ok \<lparr>lx_profile = lex_profile c, lx_directive = directive, lx_tokens = tokens, lx_diagnostics = ds\<rparr>))))))"

text \<open>The lexer calls itself on strictly shorter sources only, so it may be defined by recursion.\<close>

definition agree_below :: "nat \<Rightarrow> (source_file \<Rightarrow> lexer_limits \<Rightarrow> (lexed, lex_error) res) \<Rightarrow>
    (source_file \<Rightarrow> lexer_limits \<Rightarrow> (lexed, lex_error) res) \<Rightarrow> bool" where
  "agree_below n nested nested' \<longleftrightarrow> (\<forall>g l. length (sf_bytes g) < n \<longrightarrow> nested g l = nested' g l)"

lemma fragment_source_Ok:
  "fragment_source c start stop = Ok f \<Longrightarrow> start \<le> stop \<and> stop \<le> length (lex_bytes c) \<and>
     sf_bytes f = drop start (take stop (lex_bytes c))"
  by (auto simp: fragment_source_def source_file_new_def slice_at_def get_range_def res_simps drop_take split: if_splits)

lemma fragment_cong:
  assumes "agree_below (length (lex_bytes c)) nested nested'" and "0 < start"
  shows "lex_interpolation_fragment nested c start stop tokens ds = lex_interpolation_fragment nested' c start stop tokens ds"
proof -
  have "nested f l = nested' f l" if "fragment_source c start stop = Ok f" "start \<noteq> stop" for f l
  proof -
    have f: "start \<le> stop" "stop \<le> length (lex_bytes c)" "length (sf_bytes f) = stop - start"
      using fragment_source_Ok [OF that(1)] by simp_all
    then have "length (sf_bytes f) < length (lex_bytes c)" using that(2) assms(2) by linarith
    with assms(1) show ?thesis by (simp add: agree_below_def)
  qed
  then show ?thesis
    unfolding lex_interpolation_fragment_def by (cases "fragment_source c start stop") simp_all
qed

text \<open>The step at an opening brace.\<close>

lemma interpolated_brace:
  assumes "cursor < length (lex_bytes c)" and "lex_bytes c ! cursor = LBRACE"
  shows "interpolated_loop n c start cursor text_start tokens ds =
      rbind (push_kind c tokens TkInterpolatedStringText text_start cursor) (\<lambda>tokens.
      rbind (push_kind c tokens TkInterpolationOpen cursor (cursor + 1)) (\<lambda>tokens.
      case find_interpolation_close (lex_bytes c) (cursor + 1) of
        Some close \<Rightarrow>
          rbind (lex_interpolation_fragment n c (cursor + 1) close tokens ds) (\<lambda>(tokens, ds).
          rbind (push_kind c tokens TkInterpolationClose close (close + 1)) (\<lambda>tokens.
          interpolated_loop n c start (close + 1) (close + 1) tokens ds))
      | None \<Rightarrow>
          rbind (lex_interpolation_fragment n c (cursor + 1) (length (lex_bytes c)) tokens ds) (\<lambda>(tokens, ds).
          rbind (report c ds ''BLU-LEX-0020'' cursor (length (lex_bytes c)) ''unterminated interpolated expression''
                   [Expected (ascii ''}'')]) (\<lambda>ds.
          Ok (length (lex_bytes c), tokens, ds)))))"
  using assms by (subst interpolated_loop.simps) (simp add: Let_def)

lemma interpolated_cong:
  "agree_below (length (lex_bytes c)) nested nested' \<Longrightarrow>
     interpolated_loop nested c start cursor text_start tokens ds = interpolated_loop nested' c start cursor text_start tokens ds"
proof (induction nested c start cursor text_start tokens ds rule: interpolated_loop.induct)
  case (1 nested c start cursor text_start tokens ds)
  let ?bs = "lex_bytes c"
  note fragment = fragment_cong [OF 1(4)]
  consider "cursor \<ge> length ?bs" | "cursor < length ?bs" "?bs ! cursor = BACKSLASH" | "cursor < length ?bs" "?bs ! cursor = BACKTICK"
    | "cursor < length ?bs" "?bs ! cursor = LBRACE" | "cursor < length ?bs" "?bs ! cursor \<notin> {BACKSLASH, BACKTICK, LBRACE}"
    by fastforce
  then show ?case
  proof cases
    case 2
    with 1(1) [OF refl 2] 1(4) show ?thesis
      by (simp add: interpolated_loop.simps [of nested c start cursor] interpolated_loop.simps [of nested' c start cursor])
  next
    case b: 4
    have rest: "interpolated_loop nested c start (close + 1) (close + 1) t4 d3 = interpolated_loop nested' c start (close + 1) (close + 1) t4 d3"
      if "push_kind c tokens TkInterpolatedStringText text_start cursor = Ok t1" "push_kind c t1 TkInterpolationOpen cursor (cursor + 1) = Ok t2"
        "find_interpolation_close ?bs (cursor + 1) = Some close" "lex_interpolation_fragment nested c (cursor + 1) close t2 ds = Ok (t3, d3)"
        "push_kind c t3 TkInterpolationClose close (close + 1) = Ok t4" for t1 t2 t3 t4 d3 close
      by (rule 1(2) [OF refl b(1) _ _ b(2) that(1-4) refl that(5) 1(4)]) (use b(2) in simp_all)
    note l = interpolated_brace [OF b]
    have f: "lex_interpolation_fragment nested c (cursor + 1) stop t d = lex_interpolation_fragment nested' c (cursor + 1) stop t d"
      for stop t d by (rule fragment) simp
    show ?thesis
      unfolding l f
    proof (intro rbind_cong refl, goal_cases)
      case (1 t1 t2)
      show ?case
      proof (cases "find_interpolation_close ?bs (cursor + 1)")
        case (Some close)
        show ?thesis
          unfolding Some option.case
        proof (intro rbind_cong refl, goal_cases)
          case (1 x)
          obtain t3 d3 where x: "x = (t3, d3)" by (cases x)
          show ?case
            unfolding x prod.case
            using rest [OF \<open>push_kind c tokens TkInterpolatedStringText text_start cursor = Ok t1\<close>
                \<open>push_kind c t1 TkInterpolationOpen cursor (cursor + 1) = Ok t2\<close> Some] 1 x f
            by (intro rbind_cong refl) simp
        qed
      qed simp
    qed
  next
    case 5
    with 1(3) [OF refl 5(1)] 1(4) show ?thesis
      by (simp add: interpolated_loop.simps [of nested c start cursor] interpolated_loop.simps [of nested' c start cursor])
  qed (simp_all add: interpolated_loop.simps [of nested c start cursor] interpolated_loop.simps [of nested' c start cursor])
qed

lemma lex_loop_cong:
  "agree_below (length (lex_bytes c)) nested nested' \<Longrightarrow> lex_loop nested c offset tokens ds = lex_loop nested' c offset tokens ds"
proof (induction nested c offset tokens ds rule: lex_loop.induct)
  case (1 nested c offset tokens ds)
  have string: "lex_interpolated_string nested c offset tokens ds = lex_interpolated_string nested' c offset tokens ds"
    unfolding lex_interpolated_string_def using interpolated_cong [OF 1(4)] by simp
  consider "offset \<ge> length (lex_bytes c)"
    | "offset < length (lex_bytes c)" "lex_bytes c ! offset = BACKTICK" "supports_interpolated_strings (lex_profile c)"
    | "offset < length (lex_bytes c)" "lex_bytes c ! offset = BACKTICK" "\<not> supports_interpolated_strings (lex_profile c)"
    | "offset < length (lex_bytes c)" "lex_bytes c ! offset \<noteq> BACKTICK"
    by fastforce
  then show ?case
  proof cases
    case 2
    have "lex_loop nested c stop t d = lex_loop nested' c stop t d"
      if "lex_interpolated_string nested c offset tokens ds = Ok (stop, t, d)" for stop t d
      by (rule 1(1) [OF 2 that refl refl 1(4)])
    with 2 string show ?thesis
      by (auto simp: lex_loop.simps [of nested c offset] lex_loop.simps [of nested' c offset] intro!: rbind_cong)
  next
    case 3
    have "lex_loop nested c (offset + 1) t d = lex_loop nested' c (offset + 1) t d"
      if "push_unavailable_syntax_diagnostic c ds offset (offset + 1) ''interpolated strings are unavailable in this profile'' = Ok d"
        "push_kind c tokens TkUnknown offset (offset + 1) = Ok t" for t d
      by (rule 1(2) [OF 3 that 1(4)])
    with 3 show ?thesis
      by (auto simp: lex_loop.simps [of nested c offset] lex_loop.simps [of nested' c offset] simp del: One_nat_def intro!: rbind_cong)
  next
    case 4
    have "lex_loop nested c stop t d = lex_loop nested' c stop t d"
      if "lex_token c offset (lex_bytes c ! offset) ds = Ok (kind, stop, d)" "push_kind c tokens kind offset stop = Ok t" for kind stop t d
      by (rule 1(3) [OF 4 that(1) refl refl that(2) 1(4)])
    with 4 show ?thesis
      by (auto simp: lex_loop.simps [of nested c offset] lex_loop.simps [of nested' c offset] intro!: rbind_cong)
  qed (simp add: lex_loop.simps [of nested c offset] lex_loop.simps [of nested' c offset])
qed

lemma lex_with_cong [fundef_cong]:
  assumes "c = c'" and "\<And>g l. length (sf_bytes g) < length (lex_bytes c') \<Longrightarrow> nested g l = nested' g l"
  shows "lex_with nested c = lex_with nested' c'"
proof -
  have "agree_below (length (lex_bytes c')) nested nested'" using assms(2) by (simp add: agree_below_def)
  from lex_loop_cong [OF this] assms(1) show ?thesis by (simp add: lex_with_def)
qed

function lex :: "(nat \<Rightarrow> bool) \<Rightarrow> source_file \<Rightarrow> semantic_profile \<Rightarrow> lexer_limits \<Rightarrow> (lexed, lex_error) res" where
  "lex alloc source explicit_profile limits =
     lex_with (\<lambda>fragment limits. lex alloc fragment explicit_profile limits)
       \<lparr>lex_alloc = alloc, lex_profile = explicit_profile, lex_limits = limits, lex_file = source\<rparr>"
  by pat_completeness auto
termination
  by (relation "measure (\<lambda>(alloc, source, profile, limits). length (sf_bytes source))") auto

declare lex.simps [simp del]

end
