(* ===== verification/Syntax_Tiles.thy ===== *)
theory Syntax_Tiles
  imports Syntax_Lexer Core_Lines
begin

text \<open>
  The tokens that \<open>lex\<close> of \<open>blu-syntax/src/lib.rs\<close> returns lie end to end over the whole source:
  whitespace and comments are kept, and so is every byte of an interpolated string.
\<close>

section \<open>Spans of a sound source\<close>

definition source_sound :: "source_file \<Rightarrow> bool" where
  "source_sound f \<longleftrightarrow> length (sf_bytes f) \<le> u32_max \<and> li_source_len (sf_lines f) = word_of_nat (length (sf_bytes f))"

lemma source_file_new_sound:
  assumes "source_file_new alloc i name bs limits = Ok f"
  shows "source_sound f" "sf_bytes f = bs" "si_id (sf_identity f) = i"
  using source_file_new_lines [OF assms] assms
  by (auto simp: source_sound_def source_file_new_def source_identity_new_def line_index_new_Ok res_simps split: if_splits)

abbreviation lex_source_id :: "lexer \<Rightarrow> source_id" where
  "lex_source_id c \<equiv> si_id (sf_identity (lex_file c))"

lemma lex_span_Ok:
  "lex_span c a b = Ok s \<Longrightarrow> span_source s = lex_source_id c \<and> unat (span_start s) = a \<and> unat (span_end s) = b \<and> a \<le> b \<and> b \<le> u32_max"
  by (auto simp: lex_span_def source_span_def res_simps)

lemma lex_span_in:
  "source_sound (lex_file c) \<Longrightarrow> a \<le> b \<Longrightarrow> b \<le> length (lex_bytes c) \<Longrightarrow> \<exists>s. lex_span c a b = Ok s"
  by (simp add: lex_span_def source_span_def source_sound_def res_simps span_from_usize_def offset_from_usize_def span_new_def
      span_validate_for_def word_less_nat_alt)

lemma lex_span_not_Panic: "lex_span c a b \<noteq> Panic"
  by (simp add: lex_span_def source_span_def res_simps)

section \<open>Tokens end to end\<close>

fun covers :: "source_id \<Rightarrow> nat \<Rightarrow> nat \<Rightarrow> token list \<Rightarrow> bool" where
  "covers i a b [] \<longleftrightarrow> a = b"
| "covers i a b (t # ts) \<longleftrightarrow>
     span_source (token_span t) = i \<and> unat (span_start (token_span t)) = a \<and> a \<le> unat (span_end (token_span t)) \<and>
     (token_kind t \<noteq> TkInterpolatedStringText \<longrightarrow> a < unat (span_end (token_span t))) \<and>
     covers i (unat (span_end (token_span t))) b ts"

lemma covers_append: "covers i a b ts \<Longrightarrow> covers i b c us \<Longrightarrow> covers i a c (ts @ us)"
  by (induction ts arbitrary: a) auto

lemma covers_le: "covers i a b ts \<Longrightarrow> a \<le> b"
  by (induction ts arbitrary: a) (auto intro: order_trans)

lemma push_limited_Ok: "push_limited alloc xs x k limit w = Ok ys \<Longrightarrow> ys = xs @ [x]"
  by (auto simp: push_limited_def Let_def res_simps split: if_splits)

lemma push_token_covers:
  assumes "push_token c tokens (Token kind s) = Ok tokens'" and "lex_span c b e = Ok s" and "covers (lex_source_id c) a b tokens"
    and "kind \<noteq> TkInterpolatedStringText \<longrightarrow> b < e"
  shows "covers (lex_source_id c) a e tokens'"
proof -
  have "tokens' = tokens @ [Token kind s]" using assms(1) push_limited_Ok by (simp add: push_token_def)
  with assms(3,4) lex_span_Ok [OF assms(2)] show ?thesis by (auto intro: covers_append)
qed

lemma push_kind_covers:
  "push_kind c tokens kind b e = Ok tokens' \<Longrightarrow> covers (lex_source_id c) a b tokens \<Longrightarrow>
     (kind \<noteq> TkInterpolatedStringText \<longrightarrow> b < e) \<Longrightarrow> covers (lex_source_id c) a e tokens'"
  by (auto simp: push_kind_def res_simps intro: push_token_covers)

section \<open>Fragments\<close>

lemma saturating_small: "saturating_add a b \<le> u32_max \<Longrightarrow> saturating_add a b = a + b"
  by (auto simp: saturating_add_def u32_max_def usize_max_def)

lemma push_remapped_covers:
  assumes "fold_res (push_remapped c start) tokens ts = Ok tokens'" and "covers i x y ts" and "covers (lex_source_id c) a (start + x) tokens"
  shows "covers (lex_source_id c) a (start + y) tokens'"
  using assms
proof (induction ts arbitrary: tokens x)
  case (Cons t ts)
  let ?s = "unat (span_start (token_span t))" and ?e = "unat (span_end (token_span t))"
  obtain t1 where 1: "push_remapped c start tokens t = Ok t1" "fold_res (push_remapped c start) t1 ts = Ok tokens'"
    using Cons.prems(1) by (auto simp: res_simps)
  then obtain s where s: "lex_span c (saturating_add start ?s) (saturating_add start ?e) = Ok s"
    by (auto simp: push_remapped_def push_kind_def res_simps)
  have "saturating_add start ?e = start + ?e" "saturating_add start ?s = start + ?s"
    using lex_span_Ok [OF s] by (auto intro!: saturating_small)
  then have "covers (lex_source_id c) a (start + ?e) t1"
    using 1(1) Cons.prems(2,3) by (auto simp: push_remapped_def intro: push_kind_covers)
  from Cons.IH [OF 1(2) _ this] Cons.prems(2) show ?case by simp
qed simp

text \<open>What the nested lexer is assumed to do on shorter sources.\<close>

definition tiles_below :: "nat \<Rightarrow> (source_file \<Rightarrow> lexer_limits \<Rightarrow> (lexed, lex_error) res) \<Rightarrow> bool" where
  "tiles_below n nested \<longleftrightarrow> (\<forall>g l r. length (sf_bytes g) < n \<and> source_sound g \<and> nested g l = Ok r \<longrightarrow>
     covers (si_id (sf_identity g)) 0 (length (sf_bytes g)) (lx_tokens r))"

lemma fragment_source_sound:
  assumes "fragment_source c start stop = Ok g"
  shows "source_sound g" "length (sf_bytes g) = stop - start" "start \<le> stop" "stop \<le> length (lex_bytes c)"
    "si_id (sf_identity g) = lex_source_id c"
  using fragment_source_Ok [OF assms] assms source_file_new_sound
  by (auto simp: fragment_source_def res_simps)

lemma fragment_covers:
  assumes "lex_interpolation_fragment nested c start stop tokens ds = Ok (tokens', ds')" and "0 < start"
    and "tiles_below (length (lex_bytes c)) nested" and "covers (lex_source_id c) a start tokens"
  shows "covers (lex_source_id c) a stop tokens'"
proof (cases "start = stop")
  case True
  with assms show ?thesis by (simp add: lex_interpolation_fragment_def)
next
  case False
  with assms(1) obtain g r where g: "fragment_source c start stop = Ok g" "nested g (fragment_limits c tokens ds) = Ok r"
    "fold_res (push_remapped c start) tokens (lx_tokens r) = Ok tokens'"
    by (auto simp: lex_interpolation_fragment_def res_simps)
  note s = fragment_source_sound [OF g(1)]
  have "length (sf_bytes g) < length (lex_bytes c)" using s False assms(2) by linarith
  with assms(3) s(1) g(2) have "covers (si_id (sf_identity g)) 0 (length (sf_bytes g)) (lx_tokens r)" by (auto simp: tiles_below_def)
  from push_remapped_covers [OF g(3) this, of a] assms(4) s show ?thesis by simp
qed

section \<open>The loops\<close>

lemma interpolated_covers:
  "interpolated_loop nested c start cursor text_start tokens ds = Ok (stop, tokens', ds') \<Longrightarrow>
     tiles_below (length (lex_bytes c)) nested \<Longrightarrow> cursor \<le> length (lex_bytes c) \<Longrightarrow> covers (lex_source_id c) a text_start tokens \<Longrightarrow>
     covers (lex_source_id c) a stop tokens'"
proof (induction nested c start cursor text_start tokens ds rule: interpolated_loop.induct)
  case (1 nested c start cursor text_start tokens ds)
  let ?bs = "lex_bytes c"
  note step = 1(4) [unfolded interpolated_loop.simps [of nested c start cursor] Let_def]
  show ?case
  proof (cases "cursor < length ?bs")
    case False
    with step 1(7) show ?thesis by (auto simp: res_simps intro: push_kind_covers)
  next
    case c: True
    consider "?bs ! cursor = BACKSLASH" | "?bs ! cursor = BACKTICK" | "?bs ! cursor = LBRACE"
      | "?bs ! cursor \<notin> {BACKSLASH, BACKTICK, LBRACE}" by blast
    then show ?thesis
    proof cases
      case b: 1
      with step c have "interpolated_loop nested c start (escaped_cursor ?bs cursor) text_start tokens ds = Ok (stop, tokens', ds')" by simp
      from 1(1) [OF refl c b this 1(5) escaped_cursor_le [OF c] 1(7)] show ?thesis .
    next
      case 2
      with step c obtain t1 where t:
        "push_kind c tokens TkInterpolatedStringText text_start cursor = Ok t1"
        "push_kind c t1 TkInterpolatedStringEnd cursor (cursor + 1) = Ok tokens'" "stop = cursor + 1"
        by (auto simp: res_simps)
      have "covers (lex_source_id c) a (cursor + 1) tokens'"
        by (rule push_kind_covers [OF t(2) push_kind_covers [OF t(1) 1(7)]]) simp_all
      with t(3) show ?thesis by simp
    next
      case b: 3
      note step = step [unfolded if_P [OF c] b, simplified]
      from step obtain t1 t2 where t:
        "push_kind c tokens TkInterpolatedStringText text_start cursor = Ok t1"
        "push_kind c t1 TkInterpolationOpen cursor (cursor + 1) = Ok t2"
        by (auto simp: res_simps)
      have t2: "covers (lex_source_id c) a (cursor + 1) t2"
        by (rule push_kind_covers [OF t(2) push_kind_covers [OF t(1) 1(7)]]) simp_all
      show ?thesis
      proof (cases "find_interpolation_close ?bs (cursor + 1)")
        case None
        with step t obtain t3 d3 where "lex_interpolation_fragment nested c (cursor + 1) (length ?bs) t2 ds = Ok (tokens', d3)"
          "stop = length ?bs"
          by (auto simp: res_simps)
        with fragment_covers [OF _ _ 1(5) t2] show ?thesis by simp
      next
        case (Some close)
        note cl = find_interpolation_close_bounds [OF Some]
        from step Some t obtain t3 t4 d3 where f:
          "lex_interpolation_fragment nested c (cursor + 1) close t2 ds = Ok (t3, d3)"
          "push_kind c t3 TkInterpolationClose close (close + 1) = Ok t4"
          "interpolated_loop nested c start (close + 1) (close + 1) t4 d3 = Ok (stop, tokens', ds')"
          by (auto simp: res_simps)
        have "covers (lex_source_id c) a (close + 1) t4"
          by (rule push_kind_covers [OF f(2) fragment_covers [OF f(1) _ 1(5) t2]]) simp_all
        from 1(2) [OF refl c _ _ b t Some f(1) refl f(2,3) 1(5) _ this] b cl show ?thesis by simp
      qed
    next
      case b: 4
      with step c have "interpolated_loop nested c start (cursor + 1) text_start tokens ds = Ok (stop, tokens', ds')" by simp
      with 1(3) [OF refl c _ _ _ this 1(5) _ 1(7)] b c show ?thesis by simp
    qed
  qed
qed

lemma lex_loop_covers:
  "lex_loop nested c offset tokens ds = Ok (tokens', ds') \<Longrightarrow> tiles_below (length (lex_bytes c)) nested \<Longrightarrow>
     offset \<le> length (lex_bytes c) \<Longrightarrow> covers (lex_source_id c) a offset tokens \<Longrightarrow>
     covers (lex_source_id c) a (length (lex_bytes c)) tokens'"
proof (induction nested c offset tokens ds rule: lex_loop.induct)
  case (1 nested c offset tokens ds)
  note step = 1(4) [unfolded lex_loop.simps [of nested c offset]]
  consider "offset \<ge> length (lex_bytes c)"
    | "offset < length (lex_bytes c)" "lex_bytes c ! offset = BACKTICK" "supports_interpolated_strings (lex_profile c)"
    | "offset < length (lex_bytes c)" "lex_bytes c ! offset = BACKTICK" "\<not> supports_interpolated_strings (lex_profile c)"
    | "offset < length (lex_bytes c)" "lex_bytes c ! offset \<noteq> BACKTICK"
    by fastforce
  then show ?case
  proof cases
    case 1
    with step "1.prems" show ?thesis by simp
  next
    case b: 2
    with step obtain stop t d where s: "lex_interpolated_string nested c offset tokens ds = Ok (stop, t, d)"
      "lex_loop nested c stop t d = Ok (tokens', ds')"
      by (auto simp: res_simps)
    then obtain t1 where t1: "push_kind c tokens TkInterpolatedStringStart offset (offset + 1) = Ok t1"
      "interpolated_loop nested c offset (offset + 1) (offset + 1) t1 ds = Ok (stop, t, d)"
      by (auto simp: lex_interpolated_string_def res_simps)
    have "covers (lex_source_id c) a (offset + 1) t1" by (rule push_kind_covers [OF t1(1) 1(7)]) simp
    from interpolated_covers [OF t1(2) 1(5) _ this] b(1) have "covers (lex_source_id c) a stop t" by simp
    with 1(1) [OF b s(1) refl refl s(2) 1(5)] lex_interpolated_string_ends [OF b(1) s(1)] show ?thesis by (simp add: ends_in_def)
  next
    case b: 3
    with step obtain t d where s:
      "push_unavailable_syntax_diagnostic c ds offset (offset + 1) ''interpolated strings are unavailable in this profile'' = Ok d"
      "push_kind c tokens TkUnknown offset (offset + 1) = Ok t" "lex_loop nested c (offset + 1) t d = Ok (tokens', ds')"
      by (auto simp: res_simps)
    have "covers (lex_source_id c) a (offset + 1) t" by (rule push_kind_covers [OF s(2) 1(7)]) simp
    with 1(2) [OF b s(1,2,3) 1(5)] b(1) show ?thesis by simp
  next
    case b: 4
    with step obtain kind stop t d where s: "lex_token c offset (lex_bytes c ! offset) ds = Ok (kind, stop, d)"
      "push_kind c tokens kind offset stop = Ok t" "lex_loop nested c stop t d = Ok (tokens', ds')"
      by (auto simp: res_simps)
    have e: "ends_in (lex_bytes c) offset stop" using lex_token_advances [OF b(1), of ds] s(1) by (simp add: advances_def)
    have "covers (lex_source_id c) a stop t" by (rule push_kind_covers [OF s(2) 1(7)]) (use e in \<open>simp add: ends_in_def\<close>)
    with 1(3) [OF b s(1) refl refl s(2,3) 1(5)] e show ?thesis by (simp add: ends_in_def)
  qed
qed

section \<open>The whole\<close>

lemma line_end_two: "bs = x # y # rest \<Longrightarrow> x \<notin> {CR, LF} \<Longrightarrow> y \<notin> {CR, LF} \<Longrightarrow> 2 \<le> line_end bs 0"
  by (simp add: line_end_def skip_while_def)

lemma shebang_covers:
  assumes "lex_shebang c = Ok (tokens, offset)"
  shows "covers (lex_source_id c) 0 offset tokens \<and> offset \<le> length (lex_bytes c)"
proof (cases "get (lex_bytes c) 0 = Some HASH \<and> get (lex_bytes c) 1 = Some BANG")
  case True
  let ?bs = "lex_bytes c"
  have l: "1 < length ?bs" "?bs ! 0 = HASH" "?bs ! 1 = BANG" using True by (auto dest!: get_less)
  then obtain rest where "?bs = HASH # BANG # rest" by (cases ?bs; cases "tl ?bs") auto
  then have "2 \<le> line_end ?bs 0" by (rule line_end_two) (simp_all add: CR_def LF_def)
  then have "0 < line_content_end ?bs 0" "line_content_end ?bs 0 \<le> length ?bs"
    using line_end_le [of 0 ?bs] l(1) by (auto simp: line_content_end_def Let_def)
  with True assms push_kind_covers [of c "[]" TkComment 0 "line_content_end ?bs 0" tokens 0]
  show ?thesis by (auto simp: lex_shebang_def Let_def res_simps)
next
  case False
  with assms show ?thesis by (auto simp: lex_shebang_def Let_def)
qed

lemma directive_end:
  assumes "is_initial_directive bs"
  shows "0 < before_cr bs (line_end bs 0) \<and> before_cr bs (line_end bs 0) \<le> length bs"
proof -
  have "bs = DIRECTIVE_PREFIX @ drop (length DIRECTIVE_PREFIX) bs"
    using assms append_take_drop_id [of "length DIRECTIVE_PREFIX" bs] by (simp add: is_initial_directive_def)
  then obtain rest where bs: "bs = MINUS # MINUS # rest" by (simp add: DIRECTIVE_PREFIX_def ascii_def)
  then have "2 \<le> line_end bs 0" by (rule line_end_two) (simp_all add: CR_def LF_def)
  with line_end_le [of 0 bs] bs show ?thesis by (auto simp: before_cr_def)
qed

lemma lex_directive_covers:
  assumes "lex_directive c tokens offset = Ok (directive, offset', tokens', ds)"
    and "covers (lex_source_id c) 0 offset tokens" and "offset \<le> length (lex_bytes c)"
  shows "covers (lex_source_id c) 0 offset' tokens' \<and> offset' \<le> length (lex_bytes c)"
proof (cases "offset = 0 \<and> is_initial_directive (lex_bytes c)")
  case True
  note e = directive_end [OF conjunct2 [OF True]]
  from True assms(1) obtain s where s: "lex_span c 0 offset' = Ok s" "push_token c tokens (Token TkDialectDirective s) = Ok tokens'"
    "offset' = before_cr (lex_bytes c) (line_end (lex_bytes c) 0)"
    by (auto simp: lex_directive_def Let_def res_simps)
  have "covers (lex_source_id c) 0 offset' tokens'"
    by (rule push_token_covers [OF s(2,1)]) (use assms(2) True e s(3) in simp_all)
  with e s(3) show ?thesis by simp
next
  case False
  with assms show ?thesis by (auto simp: lex_directive_def Let_def)
qed

lemma lex_with_covers:
  assumes "lex_with nested c = Ok l" and "tiles_below (length (lex_bytes c)) nested"
  shows "covers (lex_source_id c) 0 (length (lex_bytes c)) (lx_tokens l) \<and> lx_profile l = lex_profile c"
proof -
  obtain t0 o0 d o1 t1 ds1 t2 ds2 where 1: "lex_shebang c = Ok (t0, o0)" "lex_directive c t0 o0 = Ok (d, o1, t1, ds1)"
    "lex_loop nested c o1 t1 ds1 = Ok (t2, ds2)"
    "l = \<lparr>lx_profile = lex_profile c, lx_directive = d, lx_tokens = t2, lx_diagnostics = ds2\<rparr>"
    using assms(1) unfolding lex_with_def Let_def by (auto simp: res_simps)
  note s = shebang_covers [OF 1(1)]
  note d = lex_directive_covers [OF 1(2) conjunct1 [OF s] conjunct2 [OF s]]
  from lex_loop_covers [OF 1(3) assms(2) conjunct2 [OF d] conjunct1 [OF d]] 1(4) show ?thesis by simp
qed

lemma lex_covers:
  "lex alloc f p limits = Ok l \<Longrightarrow>
     covers (si_id (sf_identity f)) 0 (length (sf_bytes f)) (lx_tokens l) \<and> lx_profile l = p"
proof (induction alloc f p limits arbitrary: l rule: lex.induct)
  case (1 alloc f p limits)
  let ?c = "\<lparr>lex_alloc = alloc, lex_profile = p, lex_limits = limits, lex_file = f\<rparr>"
  have "tiles_below (length (lex_bytes ?c)) (\<lambda>fragment limits. lex alloc fragment p limits)"
    unfolding tiles_below_def using 1(1) by auto
  with lex_with_covers [of _ ?c l] 1(2) show ?case by (simp add: lex.simps [of alloc f])
qed

text \<open>The bytes behind tokens that lie end to end.\<close>

lemma covers_slices:
  "covers (si_id (sf_identity f)) a b ts \<Longrightarrow> source_sound f \<Longrightarrow> b \<le> length (sf_bytes f) \<Longrightarrow>
     \<exists>parts. map (\<lambda>t. source_slice f (token_span t)) ts = map Ok parts \<and> concat parts = take (b - a) (drop a (sf_bytes f))"
proof (induction ts arbitrary: a)
  case (Cons t ts)
  let ?e = "unat (span_end (token_span t))"
  have t: "span_source (token_span t) = si_id (sf_identity f)" "unat (span_start (token_span t)) = a" "a \<le> ?e"
    and ts: "covers (si_id (sf_identity f)) ?e b ts"
    using Cons.prems(1) by simp_all
  have b: "?e \<le> b" by (rule covers_le [OF ts])
  obtain parts where p: "map (\<lambda>t. source_slice f (token_span t)) ts = map Ok parts"
    "concat parts = take (b - ?e) (drop ?e (sf_bytes f))"
    using Cons.IH [OF ts Cons.prems(2,3)] by blast
  have "source_slice f (token_span t) = Ok (take (?e - a) (drop a (sf_bytes f)))"
    using t b Cons.prems(2,3)
    by (simp add: source_slice_def span_validate_for_def source_sound_def slice_at_def word_less_nat_alt)
  with p slice_join [OF t(3) b, of "sf_bytes f"] show ?case by (intro exI [of _ "take (?e - a) (drop a (sf_bytes f)) # parts"]) simp
qed simp

lemma covers_ends:
  "covers i a b ts \<Longrightarrow>
     map (\<lambda>t. unat (span_start (token_span t))) ts @ [b] = a # map (\<lambda>t. unat (span_end (token_span t))) ts \<and>
     (\<forall>t\<in>set ts. span_source (token_span t) = i)"
  by (induction ts arbitrary: a) auto

text \<open>C40: The tokens of a source tile it in order: the first starts at 0, each starts where the one
  before it ends, and the last ends at the end of the source, so no byte is outside them and none in
  two; their bytes, joined, are the source, with whitespace and comments; only the text of an
  interpolated string can be an empty token; and the profile is the one the caller chose.\<close>

theorem lex_tiles_source:
  assumes "source_file_new alloc i name bs source_limits = Ok f" and "lex alloc' f p limits = Ok l"
  shows "lx_profile l = p \<and>
    map (\<lambda>t. unat (span_start (token_span t))) (lx_tokens l) @ [length bs] =
      0 # map (\<lambda>t. unat (span_end (token_span t))) (lx_tokens l) \<and>
    (\<forall>t\<in>set (lx_tokens l). span_source (token_span t) = i) \<and>
    (\<exists>parts. map (\<lambda>t. source_slice f (token_span t)) (lx_tokens l) = map Ok parts \<and> concat parts = bs) \<and>
    (\<forall>t\<in>set (lx_tokens l). token_kind t \<noteq> TkInterpolatedStringText \<longrightarrow> span_start (token_span t) < span_end (token_span t))"
proof -
  note f = source_file_new_sound [OF assms(1)]
  have c: "covers (si_id (sf_identity f)) 0 (length bs) (lx_tokens l)" "lx_profile l = p"
    using lex_covers [OF assms(2)] f(2) by simp_all
  have "token_kind t \<noteq> TkInterpolatedStringText \<longrightarrow> span_start (token_span t) < span_end (token_span t)"
    if "covers j a b ts" "t \<in> set ts" for t j a b ts
    using that by (induction ts arbitrary: a) (auto simp: word_less_nat_alt)
  with covers_slices [OF c(1) f(1)] covers_ends [OF c(1)] c f(2,3) show ?thesis by auto
qed

theorem lex_tiles_source_witness:
  "\<exists>f l. source_file_new (\<lambda>_. True) 7 [0x61] [0x61, 0x3D] default_source_limits = Ok f \<and>
    lex (\<lambda>_. True) f Luau default_lexer_limits = Ok l \<and>
    map token_kind (lx_tokens l) = [TkIdentifier, TkEqual] \<and> lx_profile l = Luau"
proof -
  have "upt 0 2 = [0, 1 :: nat]" by (simp add: upt_rec)
  then have "\<exists>f. source_file_new (\<lambda>_. True) 7 [0x61] [0x61, 0x3D] default_source_limits = Ok f"
    by (simp add: source_file_new_def source_identity_new_def validate_text_def line_index_new_Ok
        default_source_limits_def default_identity_limits_def line_starts_def is_line_break_def
        get_def CR_def LF_def u32_max_def map_err_eq_Ok rbind_eq_Ok)
  then obtain f where f: "source_file_new (\<lambda>_. True) 7 [0x61] [0x61, 0x3D] default_source_limits = Ok f" by blast
  have bs: "sf_bytes f = [0x61, 0x3D]" "unat (li_source_len (sf_lines f)) = 2"
    using source_file_new_sound [OF f] by (simp_all add: source_sound_def)
  define c where "c = \<lparr>lex_alloc = \<lambda>_. True, lex_profile = Luau, lex_limits = default_lexer_limits, lex_file = f\<rparr>"
  have c: "lex_bytes c = [0x61, 0x3D]" "lex_profile c = Luau" "lex_alloc c = (\<lambda>_. True)" "lex_limits c = default_lexer_limits"
    using bs by (simp_all add: c_def)
  have span: "lex_span c a b = Ok (ByteSpan (si_id (sf_identity f)) (word_of_nat a) (word_of_nat b))" if "a \<le> b" "b \<le> 2" for a b
    using that bs by (simp add: c_def lex_span_def source_span_def span_from_usize_def offset_from_usize_def span_new_def
        span_validate_for_def u32_max_def word_less_nat_alt unat_of_nat)
  have a: "lex_token c 0 0x61 [] = Ok (TkIdentifier, 1, [])"
    by (simp add: lex_token_def c is_whitespace_def lex_word_def is_identifier_start_def is_ascii_alphabetic_def is_ascii_digit_def
        is_ascii_lowercase_def skip_while_def is_identifier_continue_def is_ascii_uppercase_def slice_at_def keyword_kind_def
        ascii_def LF_def CR_def)
  have b: "lex_token c 1 0x3D [] = Ok (TkEqual, 2, [])"
    by (simp add: lex_token_def c is_whitespace_def is_identifier_start_def is_ascii_alphabetic_def is_ascii_digit_def
        is_ascii_lowercase_def is_ascii_uppercase_def LF_def CR_def operator_at_def comparison_operator_def follows_def get_def
        lex_operator_def or_else_def)
  have push: "push_kind c ts k i j = Ok (ts @ [Token k (ByteSpan (si_id (sf_identity f)) (word_of_nat i) (word_of_nat j))])"
    if "i \<le> j" "j \<le> 2" "length ts < 5" for ts k i j
    using that by (simp add: span push_kind_def push_token_def push_limited_def ensure_def c default_lexer_limits_def saturating_add_def)
  have "lex_loop nested c 2 ts [] = Ok (ts, [])" for nested ts
    by (subst lex_loop.simps) (simp add: c)
  then have "lex_loop nested c 1 ts [] = rbind (push_kind c ts TkEqual 1 2) (\<lambda>ts. Ok (ts, []))" for nested ts
    by (subst lex_loop.simps) (simp add: c b del: One_nat_def)
  then have "lex_loop nested c 0 [] [] = rbind (push_kind c [] TkIdentifier 0 1) (\<lambda>ts. rbind (push_kind c ts TkEqual 1 2) (\<lambda>ts. Ok (ts, [])))" for nested
    by (subst lex_loop.simps) (simp add: c a del: One_nat_def)
  then obtain ts where ts: "lex_loop (\<lambda>fragment. lex (\<lambda>_. True) fragment Luau) c 0 [] [] = Ok (ts, [])"
    "map token_kind ts = [TkIdentifier, TkEqual]" by (simp add: push del: One_nat_def)
  have "lex_shebang c = Ok ([], 0)" by (simp add: lex_shebang_def c get_def)
  moreover have "lex_directive c [] 0 = Ok (None, 0, [], [])"
    by (simp add: lex_directive_def c is_initial_directive_def DIRECTIVE_PREFIX_def ascii_def)
  ultimately have w: "lex_with nested c =
      rbind (lex_loop nested c 0 [] []) (\<lambda>(tokens, ds). Ok \<lparr>lx_profile = Luau, lx_directive = None, lx_tokens = tokens, lx_diagnostics = ds\<rparr>)" for nested
    by (simp add: lex_with_def c allocate_vec_def ensure_def)
  have l: "lex (\<lambda>_. True) f Luau default_lexer_limits = Ok \<lparr>lx_profile = Luau, lx_directive = None, lx_tokens = ts, lx_diagnostics = []\<rparr>"
    unfolding lex.simps [of "\<lambda>_. True" f] c_def [symmetric] w ts(1) by (simp only: rbind.simps case_prod_conv)
  have "map token_kind (lx_tokens l) = [TkIdentifier, TkEqual]"
    if "l = \<lparr>lx_profile = Luau, lx_directive = None, lx_tokens = ts, lx_diagnostics = []\<rparr>" for l :: lexed
    using that ts(2) by simp
  with lex_tiles_source [OF f l] f l show ?thesis by (intro exI conjI) (assumption | blast)+
qed

end
