(* ===== verification/Syntax_Safe.thy ===== *)
theory Syntax_Safe
  imports Syntax_Tiles
begin

text \<open>
  \<open>lex\<close> of \<open>blu-syntax/src/lib.rs\<close> never panics: every slice it takes of the source for a
  diagnostic lies in the source, in forward order.
\<close>

named_theorems safe_intros \<open>compositions that do not panic\<close>

definition safe :: "('a, 'e) res \<Rightarrow> bool" where
  "safe r \<longleftrightarrow> r \<noteq> Panic"

lemma safe_Ok [simp]: "safe (Ok x)" "safe (Err e)"
  by (simp_all add: safe_def)

lemma safe_rbind [safe_intros]: "safe m \<Longrightarrow> (\<And>x. m = Ok x \<Longrightarrow> safe (f x)) \<Longrightarrow> safe (rbind m f)"
  by (cases m) (simp_all add: safe_def)

lemma safe_map_err [safe_intros]: "safe m \<Longrightarrow> safe (map_err f m)"
  by (cases m) (simp_all add: safe_def)

lemma safe_if [safe_intros]: "(c \<Longrightarrow> safe x) \<Longrightarrow> (\<not> c \<Longrightarrow> safe y) \<Longrightarrow> safe (if c then x else y)"
  by simp

lemma safe_fold [safe_intros]: "(\<And>s x. x \<in> set xs \<Longrightarrow> safe (f s x)) \<Longrightarrow> safe (fold_res f s xs)"
  unfolding safe_def by (rule fold_res_not_Panic [where I = "\<lambda>_. True"]) simp_all

section \<open>Reports\<close>

lemma push_limited_safe: "safe (push_limited alloc xs x k limit w)"
  by (auto simp: safe_def push_limited_def Let_def res_simps)

lemma pushes_safe [safe_intros]:
  "safe (lex_span c a b)" "safe (push_token c ts t)" "safe (push_diagnostic c ds d)" "safe (push_kind c ts k a b)"
  by (auto simp: push_token_def push_diagnostic_def push_kind_def push_limited_safe lex_span_not_Panic
      intro!: safe_rbind) (simp_all add: safe_def lex_span_not_Panic)

lemma builder_safe [safe_intros]:
  "safe (diagnostic_try_new alloc code ph p sev s m l)" "safe (try_with_expected alloc d e)" "safe (try_with_found alloc d x)"
  "safe (try_with_note_parts alloc d ps)" "safe (try_with_secondary alloc d s m)" "safe (try_with_help alloc d h)"
  "safe (try_with_note alloc d n)"
  using diag_step_not_Panic [of alloc d "WithExpected e"] diag_step_not_Panic [of alloc d "WithFound x"]
    diag_step_not_Panic [of alloc d "WithNoteParts ps"] diag_step_not_Panic [of alloc d "WithSecondary s m"]
    diag_step_not_Panic [of alloc d "WithHelp h"] diag_step_not_Panic [of alloc d "WithNoteParts [n]"]
  by (auto simp: safe_def diagnostic_try_new_def try_with_note_def res_simps)

lemma lex_diagnostic_safe [safe_intros]: "safe (lex_diagnostic c code s m)"
  unfolding lex_diagnostic_def by (intro safe_intros)

fun remark_in :: "lexer \<Rightarrow> remark \<Rightarrow> bool" where
  "remark_in c (Found a b) \<longleftrightarrow> a \<le> b \<and> b \<le> length (lex_bytes c)"
| "remark_in c _ \<longleftrightarrow> True"

lemma try_remark_safe [safe_intros]: "remark_in c r \<Longrightarrow> safe (try_remark c d r)"
  by (cases r) (auto intro!: safe_intros simp: slice_at_def)

lemma report_safe:
  assumes "\<forall>r\<in>set remarks. remark_in c r"
  shows "safe (report_at c ds code s m remarks)" "safe (report c ds code a b m remarks)"
proof -
  show at: "safe (report_at c ds code s m remarks)" for s
    unfolding report_at_def using assms by (intro safe_intros) blast+
  show "safe (report c ds code a b m remarks)"
    unfolding report_def by (intro safe_intros at)
qed

lemma unavailable_safe: "a \<le> b \<Longrightarrow> b \<le> length (lex_bytes c) \<Longrightarrow> safe (push_unavailable_syntax_diagnostic c ds a b m)"
  unfolding push_unavailable_syntax_diagnostic_def by (rule report_safe) simp

lemma report_when_safe:
  "(\<And>a b. extent = Some (a, b) \<Longrightarrow> a \<le> b \<and> b \<le> length (lex_bytes c)) \<Longrightarrow> (\<forall>r\<in>set remarks. remark_in c r) \<Longrightarrow>
     safe (report_when c ds extent code m remarks)"
  by (auto simp: report_when_def split: option.split intro!: report_safe)

lemma separator_safe:
  assumes "source_sound (lex_file c)"
  shows "safe (push_numeric_separator_diagnostic c a b ds)"
proof -
  have "source_slice (lex_file c) s \<noteq> Panic" if "lex_span c a b = Ok s" for s
    using lex_span_Ok [OF that] that assms
    by (auto simp: source_slice_def res_simps slice_at_def lex_span_def source_span_def source_sound_def word_le_nat_alt)
  then show ?thesis
    unfolding push_numeric_separator_diagnostic_def by (intro safe_intros) (auto simp: safe_def)
qed

section \<open>Ranges that the scans report\<close>

definition extent_in :: "bytes \<Rightarrow> (nat \<times> nat) option \<Rightarrow> bool" where
  "extent_in bs r \<longleftrightarrow> (\<forall>a b. r = Some (a, b) \<longrightarrow> a \<le> b \<and> b \<le> length bs)"

definition quoted_in :: "bytes \<Rightarrow> quoted \<Rightarrow> bool" where
  "quoted_in bs q \<longleftrightarrow> (\<forall>e. q_unsupported q = Some e \<longrightarrow> e < length bs) \<and> extent_in bs (q_malformed q) \<and> extent_in bs (q_unicode q)"

lemma get_or_insert_Some: "get_or_insert x v = Some w \<longleftrightarrow> x = Some w \<or> x = None \<and> v = w"
  by (auto simp: get_or_insert_def split: option.splits)

lemma quoted_in_updates:
  "quoted_in bs q \<Longrightarrow> e < length bs \<Longrightarrow> quoted_in bs (q\<lparr>q_unsupported := get_or_insert (q_unsupported q) e\<rparr>)"
  "quoted_in bs q \<Longrightarrow> a \<le> b \<Longrightarrow> b \<le> length bs \<Longrightarrow> quoted_in bs (q\<lparr>q_malformed := get_or_insert (q_malformed q) (a, b)\<rparr>)"
  "quoted_in bs q \<Longrightarrow> a \<le> b \<Longrightarrow> b \<le> length bs \<Longrightarrow> quoted_in bs (q\<lparr>q_unicode := get_or_insert (q_unicode q) (a, b)\<rparr>)"
  by (auto simp: quoted_in_def extent_in_def get_or_insert_Some)

lemma quoted_escape_in:
  assumes "quoted_escape p bs offset q = (stop, q')" and "offset < length bs" and "quoted_in bs q"
  shows "quoted_in bs q'"
proof -
  note b = quoted_escape_bounds [OF assms(1,2)]
  have "q' \<in> {q, q\<lparr>q_unsupported := get_or_insert (q_unsupported q) offset\<rparr>,
      q\<lparr>q_malformed := get_or_insert (q_malformed q) (offset, stop)\<rparr>, q\<lparr>q_unicode := get_or_insert (q_unicode q) (offset, stop)\<rparr>}"
    using assms(1) unfolding quoted_escape_def Let_def case_prod_beta
    by (auto split: option.splits if_splits)
  then show ?thesis using quoted_in_updates [OF assms(3)] assms(2,3) b by auto
qed

lemma quoted_loop_in:
  "quoted_loop p bs quote offset q = (stop, q') \<Longrightarrow> quoted_in bs q \<Longrightarrow> quoted_in bs q'"
proof (induction p bs quote offset q rule: quoted_loop.induct)
  case (1 p bs quote offset q)
  show ?case
  proof (cases "offset < length bs \<and> bs ! offset \<noteq> quote \<and> bs ! offset \<noteq> CR \<and> bs ! offset \<noteq> LF")
    case c: True
    show ?thesis
    proof (cases "bs ! offset = BACKSLASH")
      case True
      obtain o' q1 where e: "quoted_escape p bs offset q = (o', q1)" by (cases "quoted_escape p bs offset q")
      then have "quoted_loop p bs quote o' q1 = (stop, q')" using 1(3) c True by (simp add: quoted_loop.simps)
      from 1(1) [OF c True e [symmetric] refl this] quoted_escape_in [OF e _ 1(4)] c show ?thesis by simp
    next
      case False
      then have "quoted_loop p bs quote (offset + 1) q = (stop, q')" using 1(3) c by (simp add: quoted_loop.simps)
      from 1(2) [OF c False this 1(4)] show ?thesis .
    qed
  next
    case False
    with 1(3,4) show ?thesis by (auto simp: quoted_loop.simps)
  qed
qed

lemma exponent_ge: "i \<le> fst (scan_exponent bs i)"
proof -
  have "(if get bs (i + 1) \<in> {Some PLUS, Some MINUS} then i + 2 else i + 1) \<ge> i" by simp
  then show ?thesis unfolding scan_exponent_def Let_def fst_conv by (rule order_trans [OF _ skip_while_ge])
qed

lemma decimal_exponent: "ds_malformed_exponent (scan_decimal bs i) = Some x \<Longrightarrow> x \<le> ds_end (scan_decimal bs i)"
  by (auto simp: scan_decimal_def Let_def case_prod_beta exponent_ge split: if_splits)

lemma hex_exponent: "hs_malformed_exponent (scan_hex bs i) = Some x \<Longrightarrow> x \<le> hs_end (scan_hex bs i)"
  by (auto simp: scan_hex_def Let_def case_prod_beta exponent_ge split: if_splits)

section \<open>Tokens\<close>

lemma lex_quoted_safe:
  assumes "i < length (lex_bytes c)"
  shows "safe (lex_quoted c i ds quote)"
proof -
  let ?q = "\<lparr>q_unsupported = None, q_malformed = None, q_unicode = None\<rparr>"
  obtain o' q where l: "quoted_loop (lex_profile c) (lex_bytes c) quote (i + 1) ?q = (o', q)"
    by (cases "quoted_loop (lex_profile c) (lex_bytes c) quote (i + 1) ?q")
  have o': "i + 1 \<le> o' \<and> o' \<le> length (lex_bytes c)" using quoted_loop_bounds [OF _ l] assms by simp
  have "quoted_in (lex_bytes c) q" by (rule quoted_loop_in [OF l]) (simp add: quoted_in_def extent_in_def)
  then show ?thesis
    unfolding lex_quoted_def Let_def l prod.case using o'
    by (intro safe_intros report_when_safe)
      (auto simp: when_range_def quoted_in_def extent_in_def split: if_splits option.splits)
qed

lemma lex_number_safe:
  assumes "source_sound (lex_file c)" and "i < length (lex_bytes c)" and "b = lex_bytes c ! i" and "is_ascii_digit b \<or> b = DOT"
  shows "safe (lex_number c i ds b)" "safe (lex_decimal c i ds)"
proof -
  have d: "ends_in (lex_bytes c) i (ds_end (scan_decimal (lex_bytes c) i))" using scan_decimal_ends [of i "lex_bytes c"] assms(2-4) by simp
  show dec: "safe (lex_decimal c i ds)"
    unfolding lex_decimal_def Let_def using d
    by (intro safe_intros report_when_safe separator_safe assms(1))
      (auto simp: ends_in_def dest!: decimal_exponent split: option.splits)
  have hex: "safe (lex_hex c i ds)" if "i + 1 < length (lex_bytes c)"
    unfolding lex_hex_def Let_def using scan_hex_ends [OF that]
    by (intro safe_intros report_when_safe separator_safe assms(1))
      (auto simp: ends_in_def when_range_def dest!: hex_exponent split: option.splits if_splits)
  have bin: "safe (lex_binary c i ds)" if "i + 1 < length (lex_bytes c)"
  proof -
    have "ends_in (lex_bytes c) i (skip_while (\<lambda>b. is_binary_digit b \<or> b = UNDERSCORE) (lex_bytes c) (i + 2))"
      using that by (intro skip_ends) simp_all
    then show ?thesis
      unfolding lex_binary_def Let_def
      by (intro safe_intros report_when_safe) (auto simp: when_range_def ends_in_def split: if_splits)
  qed
  show "safe (lex_number c i ds b)"
    using dec hex bin by (auto simp: lex_number_def Let_def dest!: follows_less)
qed

lemma lex_token_safe:
  assumes "source_sound (lex_file c)" and "i < length (lex_bytes c)"
  shows "safe (lex_token c i (lex_bytes c ! i) ds)"
proof -
  let ?bs = "lex_bytes c" let ?b = "?bs ! i"
  have w: "ends_in ?bs i (skip_while p ?bs (i + 1))" for p using assms(2) by (intro skip_ends) simp_all
  have word: "safe (lex_word c i ds)"
    unfolding lex_word_def Let_def using w [of is_identifier_continue]
    by (intro safe_intros report_safe) (auto simp: ends_in_def slice_at_def)
  have op: "safe (lex_operator c i ds x)" if "operator_at ?b ?bs i = Some x" for x
    using operator_ends [OF assms(2), of ?b] that
    by (cases x) (auto simp: lex_operator_def ends_in_def intro!: safe_intros unavailable_safe)
  have other: "safe (lex_unknown c i ds)"
    unfolding lex_unknown_def using assms(2) by (intro safe_intros report_safe) auto
  have comment: "safe (lex_comment c i ds)"
    unfolding lex_comment_def Let_def by (auto split: option.split intro!: safe_intros report_safe)
  have long: "safe (lex_long_string c i ds x)" for x
    unfolding lex_long_string_def Let_def by (auto split: option.split prod.split intro!: safe_intros report_safe)
  note arms = lex_quoted_safe [OF assms(2)] lex_number_safe [OF assms refl] word op other comment long
  show ?thesis
    unfolding lex_token_def Let_def using arms by (auto split: option.split)
qed

section \<open>Interpolated strings\<close>

definition safe_below :: "nat \<Rightarrow> (source_file \<Rightarrow> lexer_limits \<Rightarrow> (lexed, lex_error) res) \<Rightarrow> bool" where
  "safe_below n nested \<longleftrightarrow> (\<forall>g l. length (sf_bytes g) < n \<and> source_sound g \<longrightarrow> safe (nested g l))"

lemma source_file_safe: "safe (source_file_new alloc i name bs limits)"
  using line_index_new_not_Panic by (auto simp: safe_def source_file_new_def source_identity_new_def res_simps)

lemma remap_safe: "safe (remap_fragment_diagnostic c offset d)"
  unfolding remap_fragment_diagnostic_def Let_def
  by (intro safe_intros; auto intro!: safe_intros split: option.split)

lemma fragment_safe:
  assumes "safe_below (length (lex_bytes c)) nested" and "0 < start" and "start \<le> stop" and "stop \<le> length (lex_bytes c)"
  shows "safe (lex_interpolation_fragment nested c start stop tokens ds)"
proof -
  have src: "safe (fragment_source c start stop)"
    unfolding fragment_source_def using assms(3,4) by (intro safe_intros source_file_safe) (simp add: slice_at_def)
  have nest: "safe (nested g l)" if "fragment_source c start stop = Ok g" "start \<noteq> stop" for g l
  proof -
    note s = fragment_source_sound [OF that(1)]
    then have "length (sf_bytes g) < length (lex_bytes c)" using assms(2,3,4) that(2) by linarith
    with assms(1) s(1) show ?thesis by (simp add: safe_below_def)
  qed
  show ?thesis
    unfolding lex_interpolation_fragment_def push_remapped_def
    by (intro safe_intros src nest remap_safe) (auto intro!: safe_intros)
qed

lemma interpolated_safe:
  "safe_below (length (lex_bytes c)) nested \<Longrightarrow> start \<le> cursor \<Longrightarrow> cursor \<le> length (lex_bytes c) \<Longrightarrow>
     safe (interpolated_loop nested c start cursor text_start tokens ds)"
proof (induction nested c start cursor text_start tokens ds rule: interpolated_loop.induct)
  case (1 nested c start cursor text_start tokens ds)
  let ?bs = "lex_bytes c"
  consider "cursor \<ge> length ?bs" | "cursor < length ?bs" "?bs ! cursor = BACKSLASH" | "cursor < length ?bs" "?bs ! cursor = BACKTICK"
    | "cursor < length ?bs" "?bs ! cursor = LBRACE" | "cursor < length ?bs" "?bs ! cursor \<notin> {BACKSLASH, BACKTICK, LBRACE}"
    by fastforce
  then show ?case
  proof cases
    case 1
    then show ?thesis
      by (subst interpolated_loop.simps) (auto simp: Let_def intro!: safe_intros report_safe)
  next
    case b: 2
    from 1(1) [OF refl b 1(4)] 1(5) escaped_cursor_gt [of cursor ?bs] escaped_cursor_le [OF b(1)] b show ?thesis
      by (subst interpolated_loop.simps) simp
  next
    case 3
    then show ?thesis by (subst interpolated_loop.simps) (auto simp: Let_def intro!: safe_intros)
  next
    case b: 4
    note frag = fragment_safe [OF 1(4)]
    have rest: "safe (interpolated_loop nested c start (close + 1) (close + 1) t4 d3)"
      if "push_kind c tokens TkInterpolatedStringText text_start cursor = Ok t1" "push_kind c t1 TkInterpolationOpen cursor (cursor + 1) = Ok t2"
        "find_interpolation_close ?bs (cursor + 1) = Some close" "lex_interpolation_fragment nested c (cursor + 1) close t2 ds = Ok (t3, d3)"
        "push_kind c t3 TkInterpolationClose close (close + 1) = Ok t4" for t1 t2 t3 t4 d3 close
      using find_interpolation_close_bounds [OF that(3)] 1(5)
      by (intro 1(2) [OF refl b(1) _ _ b(2) that(1-4) refl that(5) 1(4)]) (use b(2) in simp_all)
    show ?thesis
      unfolding interpolated_brace [OF b]
    proof (intro safe_intros, goal_cases)
      case t: (1 t1 t2)
      show ?case
      proof (cases "find_interpolation_close ?bs (cursor + 1)")
        case None
        then show ?thesis using b(1) by (auto intro!: safe_intros frag report_safe)
      next
        case (Some close)
        note cl = find_interpolation_close_bounds [OF Some]
        show ?thesis
          using Some cl rest [OF t Some] by (auto intro!: safe_intros frag)
      qed
    qed
  next
    case b: 5
    from 1(3) [OF refl b(1) _ _ _ 1(4)] 1(5) b show ?thesis
      by (subst interpolated_loop.simps) simp
  qed
qed

lemma lex_loop_safe:
  "safe_below (length (lex_bytes c)) nested \<Longrightarrow> source_sound (lex_file c) \<Longrightarrow> safe (lex_loop nested c offset tokens ds)"
proof (induction nested c offset tokens ds rule: lex_loop.induct)
  case (1 nested c offset tokens ds)
  consider "offset \<ge> length (lex_bytes c)"
    | "offset < length (lex_bytes c)" "lex_bytes c ! offset = BACKTICK" "supports_interpolated_strings (lex_profile c)"
    | "offset < length (lex_bytes c)" "lex_bytes c ! offset = BACKTICK" "\<not> supports_interpolated_strings (lex_profile c)"
    | "offset < length (lex_bytes c)" "lex_bytes c ! offset \<noteq> BACKTICK"
    by fastforce
  then show ?case
  proof cases
    case b: 2
    have "safe (lex_interpolated_string nested c offset tokens ds)"
      unfolding lex_interpolated_string_def using b(1) by (intro safe_intros interpolated_safe 1(4)) simp_all
    moreover have "safe (lex_loop nested c stop t d)" if "lex_interpolated_string nested c offset tokens ds = Ok (stop, t, d)" for stop t d
      by (rule 1(1) [OF b that refl refl 1(4,5)])
    ultimately show ?thesis
      using b by (subst lex_loop.simps) (auto intro!: safe_rbind)
  next
    case b: 3
    have "safe (lex_loop nested c (offset + 1) t d)"
      if "push_unavailable_syntax_diagnostic c ds offset (offset + 1) ''interpolated strings are unavailable in this profile'' = Ok d"
        "push_kind c tokens TkUnknown offset (offset + 1) = Ok t" for t d
      by (rule 1(2) [OF b that 1(4,5)])
    with b show ?thesis
      by (subst lex_loop.simps) (auto intro!: safe_rbind safe_intros unavailable_safe simp del: One_nat_def)
  next
    case b: 4
    have "safe (lex_loop nested c stop t d)"
      if "lex_token c offset (lex_bytes c ! offset) ds = Ok (kind, stop, d)" "push_kind c tokens kind offset stop = Ok t" for kind stop t d
      by (rule 1(3) [OF b that(1) refl refl that(2) 1(4,5)])
    with b lex_token_safe [OF 1(5) b(1), of ds] show ?thesis
      by (subst lex_loop.simps) (auto intro!: safe_rbind safe_intros)
  qed (simp add: lex_loop.simps [of nested c offset])
qed

section \<open>The whole\<close>

lemma skip_while_advance: "skip_while p bs i \<noteq> i \<Longrightarrow> i < length bs"
  by (cases "i < length bs") (simp_all add: skip_while_def)

lemma parse_directive_safe:
  assumes "stop \<le> length (lex_bytes c)"
  shows "safe (parse_directive c stop s ds)"
proof -
  let ?cend = "before_cr (lex_bytes c) stop" let ?line = "take ?cend (lex_bytes c)"
  let ?start = "skip_while is_blank ?line (length DIRECTIVE_PREFIX)"
  let ?vstop = "skip_while (\<lambda>b. \<not> is_blank b) ?line ?start" let ?trail = "skip_while is_blank ?line ?vstop"
  have e: "?cend \<le> length (lex_bytes c)" using assms by (auto simp: before_cr_def)
  have r: "?start \<le> ?vstop \<and> ?vstop \<le> length (lex_bytes c) \<and> ?trail \<le> ?cend" if "?start \<noteq> ?vstop"
  proof -
    have "?start < length ?line" using that skip_while_advance by metis
    then have "?vstop \<le> length ?line" by (intro skip_while_le [OF less_imp_le])
    moreover from this have "?trail \<le> length ?line" by (rule skip_while_le)
    moreover have "?start \<le> ?vstop" by (rule skip_while_ge)
    ultimately show ?thesis using e by simp
  qed
  have profiles: "safe (add_profile_expectations c d)" for d
    unfolding add_profile_expectations_def by (intro safe_intros)
  show ?thesis
    unfolding parse_directive_def Let_def
    by (intro safe_intros profiles report_safe) (use r e in \<open>auto simp: slice_at_def split: option.split intro!: safe_intros profiles report_safe\<close>)
qed

lemma lex_with_safe:
  assumes "source_sound (lex_file c)" and "safe_below (length (lex_bytes c)) nested"
  shows "safe (lex_with nested c)"
proof -
  have "safe (lex_shebang c)" unfolding lex_shebang_def Let_def by (intro safe_intros) simp_all
  moreover have "safe (lex_directive c tokens offset)" for tokens offset
    unfolding lex_directive_def Let_def
    by (intro safe_intros) (auto intro!: safe_rbind parse_directive_safe line_end_le simp: safe_intros)
  ultimately show ?thesis
    unfolding lex_with_def Let_def
    by (intro safe_rbind) (auto intro!: safe_rbind lex_loop_safe assms simp: allocate_vec_def ensure_def)
qed

lemma lex_safe: "source_sound f \<Longrightarrow> safe (lex alloc f p limits)"
proof (induction alloc f p limits rule: lex.induct)
  case (1 alloc f p limits)
  let ?c = "\<lparr>lex_alloc = alloc, lex_profile = p, lex_limits = limits, lex_file = f\<rparr>"
  have "safe_below (length (lex_bytes ?c)) (\<lambda>fragment limits. lex alloc fragment p limits)"
    unfolding safe_below_def using 1(1) by auto
  with lex_with_safe [of ?c] 1(2) show ?case by (simp add: lex.simps [of alloc f])
qed

text \<open>C39: Lexing never panics, whatever the bytes, the profile, the limits and the allocator: it returns
  tokens and diagnostics or an error.\<close>

theorem lex_never_panics:
  assumes "source_file_new alloc i name bs source_limits = Ok f"
  shows "lex alloc' f p limits \<noteq> Panic"
  using lex_safe [OF source_file_new_sound(1) [OF assms]] by (simp add: safe_def)

theorem lex_never_panics_witness:
  "\<exists>f. source_file_new (\<lambda>_. True) 7 [0x61] [0x60, 0x7B, 0x78, 0x7D, 0x60] default_source_limits = Ok f \<and>
    lex (\<lambda>n. n = 0) f Luau default_lexer_limits \<noteq> Panic"
proof -
  have "upt 0 5 = [0, 1, 2, 3, 4 :: nat]" by (simp add: upt_rec)
  then have "\<exists>f. source_file_new (\<lambda>_. True) 7 [0x61] [0x60, 0x7B, 0x78, 0x7D, 0x60] default_source_limits = Ok f"
    by (simp add: source_file_new_def source_identity_new_def validate_text_def line_index_new_Ok
        default_source_limits_def default_identity_limits_def line_starts_def is_line_break_def
        get_def CR_def LF_def u32_max_def map_err_eq_Ok rbind_eq_Ok)
  then show ?thesis using lex_never_panics by blast
qed

end
