(* ===== verification/Blu_Artifact.thy ===== *)
theory Blu_Artifact
  imports Core_Span Rust_Bytes
begin

text \<open>
  The data of \<open>blu-bytecode/src/blu.rs\<close>: the owned, unvalidated Blu artifact with its limits, feature
  bits and errors, and the table of instructions that are legal in a profile.

  Variants of \<open>Instruction\<close> that differ only in their operator, or in what follows the fixed arguments
  of a call, and that every match of the source treats alike, are one constructor with a tag:
  \<open>Add\<close> is \<open>BiBinary BiAdd\<close>, \<open>CallVarargsResults\<close> is \<open>BiCallResults WithVarargs\<close>, \<open>JumpIfFalsy\<close> is
  \<open>BiJumpIf False\<close>.
\<close>

section \<open>Formats and feature bits\<close>

datatype blu_format = BluV1 | BluV2

type_synonym feature_bits = "64 word"

definition feature :: "nat \<Rightarrow> feature_bits" where "feature n = push_bit n 1"

definition BASELINE :: feature_bits where "BASELINE = feature 0"
definition INTEGER_CONSTANTS :: feature_bits where "INTEGER_CONSTANTS = feature 1"
definition FLOOR_DIVISION :: feature_bits where "FLOOR_DIVISION = feature 2"
definition CONCATENATION :: feature_bits where "CONCATENATION = feature 3"
definition COMPARISONS :: feature_bits where "COMPARISONS = feature 4"
definition FORWARD_BRANCHES :: feature_bits where "FORWARD_BRANCHES = feature 5"
definition BACKWARD_BRANCHES :: feature_bits where "BACKWARD_BRANCHES = feature 6"
definition GLOBALS :: feature_bits where "GLOBALS = feature 7"
definition TABLES :: feature_bits where "TABLES = feature 8"
definition FIXED_CALLS :: feature_bits where "FIXED_CALLS = feature 9"
definition CLOSURES :: feature_bits where "CLOSURES = feature 10"
definition FIXED_MULTI_RESULTS :: feature_bits where "FIXED_MULTI_RESULTS = feature 11"
definition RETURN_CALLS :: feature_bits where "RETURN_CALLS = feature 12"
definition VARARGS :: feature_bits where "VARARGS = feature 13"
definition DYNAMIC_CALL_RESULTS :: feature_bits where "DYNAMIC_CALL_RESULTS = feature 14"
definition BITWISE_OPERATORS :: feature_bits where "BITWISE_OPERATORS = feature 15"
definition DUMPED_FUNCTION :: feature_bits where "DUMPED_FUNCTION = feature 16"
definition IMPLICIT_ENVIRONMENT :: feature_bits where "IMPLICIT_ENVIRONMENT = feature 17"
definition STRIPPED_DEBUG_LINES :: feature_bits where "STRIPPED_DEBUG_LINES = feature 18"

definition SUPPORTED :: feature_bits where
  "SUPPORTED = BASELINE OR INTEGER_CONSTANTS OR FLOOR_DIVISION OR CONCATENATION OR COMPARISONS OR
     FORWARD_BRANCHES OR BACKWARD_BRANCHES OR GLOBALS OR TABLES OR FIXED_CALLS OR CLOSURES OR
     FIXED_MULTI_RESULTS OR RETURN_CALLS OR VARARGS OR DYNAMIC_CALL_RESULTS OR BITWISE_OPERATORS OR
     DUMPED_FUNCTION OR IMPLICIT_ENVIRONMENT OR STRIPPED_DEBUG_LINES"

definition features_contain :: "feature_bits \<Rightarrow> feature_bits \<Rightarrow> bool" where
  "features_contain bits other \<longleftrightarrow> bits AND other = other"

section \<open>Limits and charges\<close>

record blu_limits =
  bl_max_bytes :: nat
  bl_max_sources :: nat
  bl_max_prototypes :: nat
  bl_max_registers_per_prototype :: nat
  bl_max_constants_per_prototype :: nat
  bl_max_constant_bytes :: nat
  bl_max_debug_name_bytes :: nat
  bl_max_code_per_prototype :: nat
  bl_max_children_per_prototype :: nat
  bl_max_upvalues_per_prototype :: nat
  bl_max_debug_entries_per_prototype :: nat
  bl_max_total_registers :: nat
  bl_max_total_constants :: nat
  bl_max_total_constant_bytes :: nat
  bl_max_total_code :: nat
  bl_max_total_children :: nat
  bl_max_total_upvalues :: nat
  bl_max_total_debug_entries :: nat
  bl_max_total_debug_bytes :: nat
  bl_max_total_source_map_entries :: nat
  bl_max_decoded_bytes :: nat
  bl_identity :: identity_limits

definition default_blu_limits :: blu_limits where
  "default_blu_limits =
     \<lparr>bl_max_bytes = 64 * 1024 * 1024, bl_max_sources = 1024, bl_max_prototypes = 100000,
      bl_max_registers_per_prototype = 65535, bl_max_constants_per_prototype = 1000000,
      bl_max_constant_bytes = 32 * 1024 * 1024, bl_max_debug_name_bytes = 4 * 1024,
      bl_max_code_per_prototype = 8000000, bl_max_children_per_prototype = 100000,
      bl_max_upvalues_per_prototype = 65535, bl_max_debug_entries_per_prototype = 8000000,
      bl_max_total_registers = 8000000, bl_max_total_constants = 8000000,
      bl_max_total_constant_bytes = 32 * 1024 * 1024, bl_max_total_code = 8000000,
      bl_max_total_children = 100000, bl_max_total_upvalues = 1000000,
      bl_max_total_debug_entries = 8000000, bl_max_total_debug_bytes = 32 * 1024 * 1024,
      bl_max_total_source_map_entries = 8000000, bl_max_decoded_bytes = 256 * 1024 * 1024,
      bl_identity = default_identity_limits\<rparr>"

definition DECODED_ARTIFACT_CHARGE :: nat where "DECODED_ARTIFACT_CHARGE = 256"
definition DECODED_SOURCE_CHARGE :: nat where "DECODED_SOURCE_CHARGE = 96"
definition DECODED_PROTOTYPE_CHARGE :: nat where "DECODED_PROTOTYPE_CHARGE = 256"
definition DECODED_CONSTANT_CHARGE :: nat where "DECODED_CONSTANT_CHARGE = 32"
definition DECODED_INSTRUCTION_CHARGE :: nat where "DECODED_INSTRUCTION_CHARGE = 16"
definition DECODED_CHILD_CHARGE :: nat where "DECODED_CHILD_CHARGE = 4"
definition DECODED_UPVALUE_CHARGE :: nat where "DECODED_UPVALUE_CHARGE = 4"
definition DECODED_SOURCE_MAP_CHARGE :: nat where "DECODED_SOURCE_MAP_CHARGE = 12"
definition DECODED_LOCAL_DEBUG_CHARGE :: nat where "DECODED_LOCAL_DEBUG_CHARGE = 40"
definition DECODED_UPVALUE_DEBUG_CHARGE :: nat where "DECODED_UPVALUE_DEBUG_CHARGE = 40"

lemmas decoded_charges = DECODED_ARTIFACT_CHARGE_def DECODED_SOURCE_CHARGE_def
  DECODED_PROTOTYPE_CHARGE_def DECODED_CONSTANT_CHARGE_def DECODED_INSTRUCTION_CHARGE_def
  DECODED_CHILD_CHARGE_def DECODED_UPVALUE_CHARGE_def DECODED_SOURCE_MAP_CHARGE_def
  DECODED_LOCAL_DEBUG_CHARGE_def DECODED_UPVALUE_DEBUG_CHARGE_def

section \<open>Instructions\<close>

type_synonym reg = "16 word"

datatype bi_unary = BiMove | BiNot | BiNegate | BiLength | BiBitwiseNot

datatype (plugins only: code) bi_binary =
    BiAdd | BiSubtract | BiMultiply | BiDivide | BiModulo | BiPower | BiFloorDivide
  | BiBitwiseAnd | BiBitwiseOr | BiBitwiseExclusiveOr | BiShiftLeft | BiShiftRight
  | BiConcatenate | BiEqual | BiLessThan | BiLessEqual

text \<open>What follows the fixed arguments of a call: nothing, the varargs, or the dynamic results.\<close>

datatype bi_tail = Fixed | WithVarargs | WithDynamic

datatype (plugins only: code) bi =
    BiLoadConstant reg "32 word"
  | BiLoadGlobal reg "32 word"
  | BiStoreGlobal "32 word" reg
  | BiNewTable reg
  | BiGetTable reg reg reg
  | BiSetTable reg reg reg
  | BiSetListVarargs reg "32 word"
  | BiSetListCall bi_tail reg "32 word" reg reg "16 word"
  | BiCall reg reg reg "16 word"
  | BiCallResults bi_tail reg reg reg "16 word" "16 word"
  | BiCallAllResults bi_tail reg reg "16 word"
  | BiReturnCall bi_tail reg reg "16 word"
  | BiReturnCallPrefix bi_tail reg "16 word" reg reg "16 word"
  | BiNewClosure reg "16 word"
  | BiGetUpvalue reg "16 word"
  | BiSetUpvalue "16 word" reg
  | BiCloseUpvalues reg
  | BiVarargs reg "16 word"
  | BiReturnVarargs reg "16 word"
  | BiReturnDynamic
  | BiReturnDynamicPrefix reg "16 word"
  | BiUnary bi_unary reg reg
  | BiBinary bi_binary reg reg reg
  | BiJumpIf bool reg "32 word"
  | BiJump "32 word"
  | BiReturn reg "16 word"

definition floor_division_is_legal :: "semantic_profile \<Rightarrow> bool" where
  "floor_division_is_legal p \<longleftrightarrow> p \<in> {Blu, Luau, Lua53, Lua54, Lua55}"

definition bitwise_operators_are_legal :: "semantic_profile \<Rightarrow> bool" where
  "bitwise_operators_are_legal p \<longleftrightarrow> p \<in> {Blu, Lua53, Lua54, Lua55}"

fun is_floor_divide :: "bi \<Rightarrow> bool" where
  "is_floor_divide (BiBinary operator _ _ _) = (operator = BiFloorDivide)"
| "is_floor_divide _ = False"

fun is_bitwise :: "bi \<Rightarrow> bool" where
  "is_bitwise (BiBinary operator _ _ _) =
     (operator \<in> {BiBitwiseAnd, BiBitwiseOr, BiBitwiseExclusiveOr, BiShiftLeft, BiShiftRight})"
| "is_bitwise (BiUnary operator _ _) = (operator = BiBitwiseNot)"
| "is_bitwise _ = False"

text \<open>Every other instruction is legal in all seven profiles.\<close>

definition instruction_is_legal :: "semantic_profile \<Rightarrow> bi \<Rightarrow> bool" where
  "instruction_is_legal p i =
     (if is_floor_divide i then floor_division_is_legal p
      else if is_bitwise i then p \<in> {Blu, Lua53, Lua54, Lua55}
      else True)"

section \<open>Artifacts\<close>

text \<open>A \<open>f64\<close> constant is its bit pattern, an \<open>i64\<close> one a word. Equality of constants is by bits.\<close>

datatype blu_constant =
    CNil | CBoolean bool | CNumber "64 word" | CInteger "64 word" | CString bytes

datatype upvalue = ParentRegister reg | ParentUpvalue "16 word"

record source_record =
  sr_identity :: source_identity
  sr_byte_len :: "32 word"
  sr_digest :: bytes

record local_debug =
  ld_name :: bytes
  ld_register :: reg
  ld_start_pc :: "32 word"
  ld_end_pc :: "32 word"

record upvalue_debug =
  ud_name :: bytes
  ud_upvalue :: "16 word"
  ud_start_pc :: "32 word"
  ud_end_pc :: "32 word"

record blu_prototype =
  bp_profile :: semantic_profile
  bp_source :: source_id
  bp_register_count :: "16 word"
  bp_parameter_count :: "16 word"
  bp_is_vararg :: bool
  bp_line_defined :: "32 word"
  bp_last_line_defined :: "32 word"
  bp_required_features :: feature_bits
  bp_constants :: "blu_constant list"
  bp_upvalues :: "upvalue list"
  bp_children :: "32 word list"
  bp_code :: "bi list"
  bp_source_map :: "byte_span list"
  bp_line_info :: "32 word list"
  bp_locals :: "local_debug list"
  bp_upvalue_debug :: "upvalue_debug list"

record artifact =
  ar_format :: blu_format
  ar_compiler :: compiler_identity
  ar_sources :: "source_record list"
  ar_prototypes :: "blu_prototype list"
  ar_main :: "32 word"

definition requires :: "blu_prototype \<Rightarrow> feature_bits \<Rightarrow> bool" where
  "requires p f = features_contain (bp_required_features p) f"

section \<open>Errors\<close>

datatype (plugins only: code) blu_validation_error =
    BvLimit string nat nat
  | BvUnrepresentable string nat
  | BvAllocation string nat
  | BvUnsupportedFormat
  | BvUnsupportedFeatures nat feature_bits
  | BvMissingFeature nat string
  | BvFeatureNotLegal nat string semantic_profile
  | BvInvalidReference "nat option" string nat nat
  | BvDuplicateSource source_id
  | BvInvalidPrototypeTree nat string
  | BvInvalidMetadata nat string
  | BvInvalidSourceMap nat "nat option" string
  | BvInvalidInstruction nat nat string

datatype (plugins only: code) blu_encode_error =
    BeValidation blu_validation_error
  | BeUnsupportedProfile semantic_profile
  | BeLengthOverflow string nat
  | BeSizeOverflow
  | BeAllocation nat
  | BeTooLarge nat nat

datatype (plugins only: code) blu_decode_error =
    BdTooLarge string nat nat
  | BdUnexpectedEnd nat nat nat
  | BdCountOverflow nat string nat nat
  | BdDeclaredBodyTooLarge nat string nat nat nat nat
  | BdAllocation string nat
  | BdInvalidMagic bytes
  | BdUnsupportedVersion "16 word"
  | BdUnsupportedField nat string nat
  | BdInvalidTag nat string byte
  | BdInvalidUtf8 nat string
  | BdInvalidIdentity nat string
  | BdInvalidSpan nat "32 word" "32 word"
  | BdInvalidMetadata string
  | BdTrailingBytes nat
  | BdValidation blu_validation_error

end
