(* ===== verification/Blu_Graph.thy ===== *)
theory Blu_Graph
  imports Blu_Artifact
begin

text \<open>
  \<open>validate_prototype_graph\<close> of \<open>blu-bytecode/src/blu.rs\<close>: a depth-first search that refuses a cycle,
  then a walk from the main prototype that must reach every prototype. The walk has no marks that stop
  it, so on a cyclic graph it would not end: it is a partial function, and \<open>None\<close> is a walk that does
  not return.
\<close>

section \<open>Shared checks\<close>

definition try_reserve_validation :: "(nat \<Rightarrow> bool) \<Rightarrow> string \<Rightarrow> nat \<Rightarrow> (unit, blu_validation_error) res" where
  "try_reserve_validation alloc what requested = ensure (alloc requested) (BvAllocation what requested)"

lemma try_reserve_validation_simps [res_simps]:
  "try_reserve_validation alloc what n = Ok u \<longleftrightarrow> alloc n" "try_reserve_validation alloc what n = Panic \<longleftrightarrow> False"
  by (simp_all add: try_reserve_validation_def res_simps)

section \<open>The search for a cycle\<close>

datatype color = White | Gray | Black

definition child_indices :: "blu_prototype \<Rightarrow> nat list" where
  "child_indices p = map unat (bp_children p)"

definition whites :: "color list \<Rightarrow> nat" where
  "whites colors = length (filter (\<lambda>c. c = White) colors)"

definition open_edges :: "blu_prototype list \<Rightarrow> (nat \<times> nat) list \<Rightarrow> nat" where
  "open_edges ps stack = sum_list (map (\<lambda>(p, next_child). length (bp_children (ps ! p)) - next_child) stack)"

lemma whites_paint: "i < length colors \<Longrightarrow> colors ! i = White \<Longrightarrow> c \<noteq> White \<Longrightarrow> whites (colors[i := c]) < whites colors"
proof (induction colors arbitrary: i)
  case (Cons a colors)
  then show ?case by (cases i) (auto simp: whites_def)
qed simp

lemma whites_le: "c \<noteq> White \<Longrightarrow> whites (colors[i := c]) \<le> whites colors"
proof (induction colors arbitrary: i)
  case (Cons a colors)
  then show ?case by (cases i) (auto simp: whites_def)
qed simp

text \<open>The top of the stack is its head.\<close>

function color_loop ::
  "blu_prototype list \<Rightarrow> color list \<Rightarrow> (nat \<times> nat) list \<Rightarrow> (color list, blu_validation_error) res" where
  "color_loop ps colors [] = Ok colors"
| "color_loop ps colors ((prototype, next_child) # stack) =
     rbind (index_at ps prototype) (\<lambda>p.
     if next_child = length (bp_children p) then
       rbind (set_at colors prototype Black) (\<lambda>colors. color_loop ps colors stack)
     else
       rbind (index_at (child_indices p) next_child) (\<lambda>child.
       let stack = (prototype, next_child + 1) # stack in
       rbind (index_at colors child) (\<lambda>c.
       case c of
         White \<Rightarrow> rbind (set_at colors child Gray) (\<lambda>colors. color_loop ps colors ((child, 0) # stack))
       | Gray \<Rightarrow> Err (BvInvalidPrototypeTree child ''prototype graph contains a cycle'')
       | Black \<Rightarrow> color_loop ps colors stack)))"
  by pat_completeness auto
termination
proof (relation "(\<lambda>(ps, colors, stack). whites colors) <*mlex*> (\<lambda>(ps, colors, stack). open_edges ps stack) <*mlex*>
    measure (\<lambda>(ps, colors, stack). length stack)", goal_cases)
  case 1
  show ?case by (intro wf_mlex wf_measure)
next
  case (2 ps colors prototype next_child stack p colors')
  then have "whites colors' \<le> whites colors" "open_edges ps ((prototype, next_child) # stack) = open_edges ps stack"
    using whites_le [of Black colors prototype] by (auto simp: res_simps open_edges_def)
  then show ?case by (auto simp: mlex_prod_def)
next
  case (3 ps colors prototype next_child stack p child stack' c colors')
  then have "whites colors' < whites colors" using whites_paint [of child colors Gray] by (auto simp: res_simps)
  then show ?case by (auto simp: mlex_prod_def)
next
  case (4 ps colors prototype next_child stack p child stack' c)
  then have "open_edges ps stack' < open_edges ps ((prototype, next_child) # stack)"
    by (auto simp: res_simps open_edges_def child_indices_def)
  then show ?case by (auto simp: mlex_prod_def)
qed

definition color_from :: "blu_prototype list \<Rightarrow> color list \<Rightarrow> nat \<Rightarrow> (color list, blu_validation_error) res" where
  "color_from ps colors start =
     rbind (index_at colors start) (\<lambda>c.
     if c \<noteq> White then Ok colors
     else rbind (set_at colors start Gray) (\<lambda>colors. color_loop ps colors [(start, 0)]))"

section \<open>The walk from the main prototype\<close>

text \<open>\<open>pending.pop()\<close> takes the head; \<open>extend\<close> pushes the children one by one.\<close>

partial_function (option) reach_loop ::
  "blu_prototype list \<Rightarrow> bool list \<Rightarrow> nat list \<Rightarrow> (bool list, blu_validation_error) res option" where
  "reach_loop ps reachable pending =
     (case pending of
        [] \<Rightarrow> Some (Ok reachable)
      | index # pending \<Rightarrow>
          if index < length reachable \<and> index < length ps
          then reach_loop ps (reachable[index := True]) (rev (child_indices (ps ! index)) @ pending)
          else Some Panic)"

definition check_reachable :: "bool list \<Rightarrow> (unit, blu_validation_error) res" where
  "check_reachable reachable =
     each (\<lambda>(index, is_reachable).
       ensure is_reachable (BvInvalidPrototypeTree index ''prototype is unreachable from the main prototype''))
       (enumerate 0 reachable)"

text \<open>A step that may not return follows one that does, and the other way round.\<close>

fun then_maybe :: "('a, 'e) res \<Rightarrow> ('a \<Rightarrow> ('b, 'e) res option) \<Rightarrow> ('b, 'e) res option" where
  "then_maybe (Ok x) f = f x"
| "then_maybe (Err e) f = Some (Err e)"
| "then_maybe Panic f = Some Panic"

fun maybe_then :: "('a, 'e) res option \<Rightarrow> ('a \<Rightarrow> ('b, 'e) res) \<Rightarrow> ('b, 'e) res option" where
  "maybe_then None f = None"
| "maybe_then (Some m) f = Some (rbind m f)"

definition validate_prototype_graph ::
  "(nat \<Rightarrow> bool) \<Rightarrow> blu_prototype list \<Rightarrow> nat \<Rightarrow> (unit, blu_validation_error) res option" where
  "validate_prototype_graph alloc ps main =
     (let n = length ps in
      then_maybe (
        rbind (try_reserve_validation alloc ''prototype traversal colors'' n) (\<lambda>_.
        rbind (try_reserve_validation alloc ''prototype cycle traversal'' n) (\<lambda>_.
        rbind (fold_res (color_from ps) (replicate n White) [0..<n]) (\<lambda>_.
        rbind (try_reserve_validation alloc ''prototype reachability'' n) (\<lambda>_.
        try_reserve_validation alloc ''prototype reachability traversal'' n))))) (\<lambda>_.
      maybe_then (reach_loop ps (replicate n False) [main]) check_reachable))"

end
