(* ===== verification/Blu_Flow.thy ===== *)
theory Blu_Flow
  imports Blu_Graph
begin

text \<open>
  \<open>backward_branch_requirements\<close> of \<open>blu-bytecode/src/blu.rs\<close>: which registers some path from an
  instruction reads before it writes them. A worklist of instructions is processed until the states
  on entry no longer shrink; the loop is total.
\<close>

section \<open>What an instruction does to the registers\<close>

text \<open>The calls of \<open>mark_*\<close> that an arm of the match makes, in its order.\<close>

datatype flow_mark =
    Needs reg
  | NeedsRange reg "16 word"
  | Writes reg
  | WritesRange reg "16 word"

fun flow_marks :: "reg list \<Rightarrow> bi \<Rightarrow> flow_mark list" where
  "flow_marks captures (BiLoadConstant d _) = [Writes d]"
| "flow_marks captures (BiLoadGlobal d _) = [Writes d]"
| "flow_marks captures (BiNewTable d) = [Writes d]"
| "flow_marks captures (BiGetUpvalue d _) = [Writes d]"
| "flow_marks captures (BiNewClosure d _) = map Needs captures @ [Writes d]"
| "flow_marks captures (BiStoreGlobal _ s) = [Needs s]"
| "flow_marks captures (BiSetUpvalue _ s) = [Needs s]"
| "flow_marks captures (BiGetTable d t k) = [Needs t, Needs k, Writes d]"
| "flow_marks captures (BiSetTable t k v) = [Needs t, Needs k, Needs v]"
| "flow_marks captures (BiSetListVarargs t _) = [Needs t]"
| "flow_marks captures (BiSetListCall _ t _ f a n) = [Needs t, Needs f, NeedsRange a n]"
| "flow_marks captures (BiCall d f a n) = [Needs f, NeedsRange a n, Writes d]"
| "flow_marks captures (BiCallResults _ d f a n r) = [Needs f, NeedsRange a n, WritesRange d r]"
| "flow_marks captures (BiCallAllResults _ f a n) = [Needs f, NeedsRange a n]"
| "flow_marks captures (BiReturnCall _ f a n) = [Needs f, NeedsRange a n]"
| "flow_marks captures (BiReturnCallPrefix _ x c f a n) = [NeedsRange x c, Needs f, NeedsRange a n]"
| "flow_marks captures (BiVarargs d c) = [WritesRange d c]"
| "flow_marks captures (BiReturnVarargs x c) = [NeedsRange x c]"
| "flow_marks captures BiReturnDynamic = []"
| "flow_marks captures (BiReturnDynamicPrefix x c) = [NeedsRange x c]"
| "flow_marks captures (BiUnary _ d s) = [Needs s, Writes d]"
| "flow_marks captures (BiBinary _ d l r) = [Needs l, Needs r, Writes d]"
| "flow_marks captures (BiJumpIf _ c _) = [Needs c]"
| "flow_marks captures (BiJump _) = []"
| "flow_marks captures (BiCloseUpvalues _) = []"
| "flow_marks captures (BiReturn x c) = [NeedsRange x c]"

text \<open>The loop over a range stops at the end of the registers.\<close>

definition range_within :: "reg \<Rightarrow> 16 word \<Rightarrow> nat \<Rightarrow> nat list" where
  "range_within start count registers = [unat start ..< min (unat start + unat count) registers]"

definition mark_required_at :: "bool list \<Rightarrow> bool list \<Rightarrow> nat \<Rightarrow> (bool list, 'e) res" where
  "mark_required_at initialized required r =
     (if r < length initialized \<and> \<not> initialized ! r then set_at required r True else Ok required)"

definition mark_written_at :: "bool list \<Rightarrow> nat \<Rightarrow> bool list" where
  "mark_written_at initialized r = initialized[r := True]"

fun apply_mark :: "bool list \<times> bool list \<Rightarrow> flow_mark \<Rightarrow> (bool list \<times> bool list, 'e) res" where
  "apply_mark (initialized, required) (Needs r) =
     rbind (mark_required_at initialized required (unat r)) (\<lambda>required. Ok (initialized, required))"
| "apply_mark (initialized, required) (NeedsRange start count) =
     rbind (fold_res (mark_required_at initialized) required (range_within start count (length initialized))) (\<lambda>required.
     Ok (initialized, required))"
| "apply_mark (initialized, required) (Writes r) = Ok (mark_written_at initialized (unat r), required)"
| "apply_mark (initialized, required) (WritesRange start count) =
     Ok (foldl mark_written_at initialized (range_within start count (length initialized)), required)"

definition terminates :: "bi \<Rightarrow> bool" where
  "terminates i =
     (case i of
        BiReturnCall _ _ _ _ \<Rightarrow> True | BiReturnCallPrefix _ _ _ _ _ _ \<Rightarrow> True | BiReturnVarargs _ _ \<Rightarrow> True
      | BiReturnDynamic \<Rightarrow> True | BiReturnDynamicPrefix _ _ \<Rightarrow> True | BiReturn _ _ \<Rightarrow> True | _ \<Rightarrow> False)"

fun flow_successors :: "nat \<Rightarrow> bi \<Rightarrow> nat list" where
  "flow_successors pc (BiJumpIf _ _ target) = [unat target, saturating_add pc 1]"
| "flow_successors pc (BiJump target) = [unat target]"
| "flow_successors pc i = (if terminates i then [] else [saturating_add pc 1])"

section \<open>The worklist\<close>

text \<open>\<open>for (current, incoming) in existing.iter_mut().zip(..)\<close>: the shorter one ends the loop.\<close>

fun merge_states :: "bool list \<Rightarrow> bool list \<Rightarrow> bool list" where
  "merge_states (c # current) (b # incoming) = (c \<and> b) # merge_states current incoming"
| "merge_states current incoming = current"

lemma length_merge_states [simp]: "length (merge_states s t) = length s"
  by (induction s t rule: merge_states.induct) simp_all

lemma nth_merge_states: "i < length s \<Longrightarrow> merge_states s t ! i \<longleftrightarrow> s ! i \<and> (i < length t \<longrightarrow> t ! i)"
proof (induction s t arbitrary: i rule: merge_states.induct)
  case (1 c s b t)
  then show ?case by (cases i) auto
qed simp_all

fun merge_into ::
  "bool list \<Rightarrow> (nat \<rightharpoonup> bool list) \<times> nat list \<Rightarrow> nat \<Rightarrow> (nat \<rightharpoonup> bool list) \<times> nat list" where
  "merge_into initialized (incoming, work) successor =
     (case incoming successor of
        None \<Rightarrow> (incoming(successor \<mapsto> initialized), successor # work)
      | Some existing \<Rightarrow>
          let merged = merge_states existing initialized in
          if merged \<noteq> existing then (incoming(successor \<mapsto> merged), successor # work) else (incoming, work))"

definition unseen :: "nat \<Rightarrow> (nat \<rightharpoonup> bool list) \<Rightarrow> nat" where
  "unseen n incoming = card {pc. pc < n \<and> incoming pc = None}"

definition set_bits :: "nat \<Rightarrow> (nat \<rightharpoonup> bool list) \<Rightarrow> nat" where
  "set_bits n incoming = (\<Sum>pc<n. case incoming pc of None \<Rightarrow> 0 | Some s \<Rightarrow> length (filter id s))"

definition flow_less :: "nat \<Rightarrow> ((nat \<rightharpoonup> bool list) \<times> nat list) \<Rightarrow> ((nat \<rightharpoonup> bool list) \<times> nat list) \<Rightarrow> bool" where
  "flow_less n s t \<longleftrightarrow> unseen n (fst s) < unseen n (fst t) \<or>
     unseen n (fst s) = unseen n (fst t) \<and> set_bits n (fst s) < set_bits n (fst t)"

lemma merge_states_bits:
  "length (filter id (merge_states s t)) \<le> length (filter id s)"
  "merge_states s t \<noteq> s \<Longrightarrow> length (filter id (merge_states s t)) < length (filter id s)"
proof -
  have "length (filter id (merge_states s t)) \<le> length (filter id s) \<and>
      (merge_states s t \<noteq> s \<longrightarrow> length (filter id (merge_states s t)) < length (filter id s))"
    by (induction s t rule: merge_states.induct) (auto simp: less_Suc_eq_le)
  then show "length (filter id (merge_states s t)) \<le> length (filter id s)"
    "merge_states s t \<noteq> s \<Longrightarrow> length (filter id (merge_states s t)) < length (filter id s)" by auto
qed

lemma unseen_insert: "pc < n \<Longrightarrow> incoming pc = None \<Longrightarrow> unseen n (incoming(pc \<mapsto> s)) < unseen n incoming"
  unfolding unseen_def by (rule psubset_card_mono) auto

lemma merge_into_less:
  assumes "successor < n"
  shows "merge_into init (incoming, work) successor = (incoming, work) \<or>
    flow_less n (merge_into init (incoming, work) successor) (incoming, work)"
proof (cases "incoming successor")
  case None
  with unseen_insert [of successor n incoming init] assms show ?thesis by (simp add: flow_less_def)
next
  case (Some existing)
  let ?m = "merge_states existing init"
  have "unseen n (incoming(successor \<mapsto> ?m)) = unseen n incoming"
    unfolding unseen_def using Some by (intro arg_cong [where f = card]) auto
  moreover have "set_bits n (incoming(successor \<mapsto> ?m)) < set_bits n incoming" if "?m \<noteq> existing"
    unfolding set_bits_def
    by (rule sum_strict_mono_ex1) (use assms Some merge_states_bits [of existing init] that in \<open>auto split: option.splits\<close>)
  ultimately show ?thesis using Some by (auto simp: flow_less_def Let_def)
qed

lemma flow_less_trans: "flow_less n s t \<Longrightarrow> flow_less n t u \<Longrightarrow> flow_less n s u"
  by (auto simp: flow_less_def)

lemma merge_all_less:
  assumes "\<forall>s\<in>set successors. s < n"
  shows "foldl (merge_into init) state successors = state \<or> flow_less n (foldl (merge_into init) state successors) state"
  using assms
proof (induction successors arbitrary: state)
  case (Cons s successors)
  let ?next = "merge_into init state s"
  have "?next = state \<or> flow_less n ?next state"
    using Cons.prems merge_into_less [of s n init "fst state" "snd state"] by simp
  moreover have "foldl (merge_into init) ?next successors = ?next \<or> flow_less n (foldl (merge_into init) ?next successors) ?next"
    using Cons.prems by (intro Cons.IH) simp
  ultimately show ?case by (simp only: foldl_Cons) (metis flow_less_trans)
qed simp

function flow_loop ::
  "bi list \<Rightarrow> reg list list \<Rightarrow> (nat \<rightharpoonup> bool list) \<Rightarrow> bool list \<Rightarrow> nat list \<Rightarrow> (bool list, 'e) res" where
  "flow_loop code captures incoming required [] = Ok required"
| "flow_loop code captures incoming required (pc # work) =
     (case incoming pc of
        None \<Rightarrow> flow_loop code captures incoming required work
      | Some initialized \<Rightarrow>
          (case get code pc of
             None \<Rightarrow> flow_loop code captures incoming required work
           | Some i \<Rightarrow>
               rbind (fold_res apply_mark (initialized, required) (flow_marks (concat (case get captures pc of Some rs \<Rightarrow> [rs] | None \<Rightarrow> [])) i))
                 (\<lambda>(initialized, required).
               let (incoming, work) = foldl (merge_into initialized) (incoming, work)
                     (filter (\<lambda>s. s < length code) (flow_successors pc i))
               in flow_loop code captures incoming required work)))"
  by pat_completeness auto
termination
proof (relation "(\<lambda>(code, captures, incoming, required, work). unseen (length code) incoming) <*mlex*>
    (\<lambda>(code, captures, incoming, required, work). set_bits (length code) incoming) <*mlex*>
    measure (\<lambda>(code, captures, incoming, required, work). length work)", goal_cases)
  case 1
  show ?case by (intro wf_mlex wf_measure)
next
  case (4 code captures incoming required pc work initialized i x initialized' required' y incoming' work')
  let ?ss = "filter (\<lambda>s. s < length code) (flow_successors pc i)"
  have "foldl (merge_into initialized') (incoming, work) ?ss = (incoming', work')" using 4 by simp
  with merge_all_less [of ?ss "length code" initialized' "(incoming, work)"] show ?case
    by (auto simp: flow_less_def mlex_prod_def)
qed (auto simp: mlex_prod_def)

definition backward_branch_requirements ::
  "bi list \<Rightarrow> nat \<Rightarrow> nat \<Rightarrow> reg list list \<Rightarrow> (bool list, 'e) res" where
  "backward_branch_requirements code target registers captures =
     flow_loop code captures [target \<mapsto> replicate registers False] (replicate registers False) [target]"

end
