(* ===== verification/Blu_Requirements.thy ===== *)
theory Blu_Requirements
  imports Blu_Flow
begin

text \<open>
  What the worklist of \<open>backward_branch_requirements\<close> computes: a register that some path from the
  target reads before writing it is in the requirements. The registers an instruction reads and
  writes are read off its marks; liveness is the least relation they generate.
\<close>

section \<open>Registers read and written\<close>

fun mark_reads :: "flow_mark \<Rightarrow> nat set" where
  "mark_reads (Needs r) = {unat r}"
| "mark_reads (NeedsRange start count) = {unat start ..< unat start + unat count}"
| "mark_reads (Writes r) = {}"
| "mark_reads (WritesRange start count) = {}"

fun mark_writes :: "flow_mark \<Rightarrow> nat set" where
  "mark_writes (Needs r) = {}"
| "mark_writes (NeedsRange start count) = {}"
| "mark_writes (Writes r) = {unat r}"
| "mark_writes (WritesRange start count) = {unat start ..< unat start + unat count}"

definition instruction_reads :: "reg list \<Rightarrow> bi \<Rightarrow> nat set" where
  "instruction_reads captures i = (\<Union>m\<in>set (flow_marks captures i). mark_reads m)"

definition instruction_writes :: "bi \<Rightarrow> nat set" where
  "instruction_writes i = (\<Union>m\<in>set (flow_marks [] i). mark_writes m)"

lemma mark_writes_Needs [simp]: "(\<Union>r\<in>X. mark_writes (Needs r)) = {}"
  by auto

lemma instruction_writes_captures: "(\<Union>m\<in>set (flow_marks captures i). mark_writes m) = instruction_writes i"
  unfolding instruction_writes_def by (cases i) simp_all

text \<open>A mark reads what earlier marks did not write; an instruction reads before it writes.\<close>

fun exposed :: "flow_mark list \<Rightarrow> nat set" where
  "exposed [] = {}"
| "exposed (m # ms) = mark_reads m \<union> (exposed ms - mark_writes m)"

lemma exposed_needs: "exposed (map Needs rs @ ms) = unat ` set rs \<union> exposed ms"
  by (induction rs) auto

lemma exposed_flow_marks: "exposed (flow_marks captures i) = instruction_reads captures i"
  unfolding instruction_reads_def by (cases i) (auto simp: exposed_needs)

section \<open>One instruction of the worklist\<close>

lemma mark_required_at_Ok:
  assumes "mark_required_at initialized required r = Ok required'" and "length required = length initialized"
  shows "length required' = length required \<and> (\<forall>x. required ! x \<longrightarrow> x < length required \<longrightarrow> required' ! x) \<and>
    (r < length initialized \<longrightarrow> initialized ! r \<or> required' ! r)"
  using assms by (auto simp: mark_required_at_def res_simps nth_list_update split: if_splits)

lemma mark_required_range_Ok:
  assumes "fold_res (mark_required_at initialized) required rs = (Ok required' :: (bool list, 'e) res)"
    and "length required = length initialized"
  shows "length required' = length required \<and> (\<forall>x. required ! x \<longrightarrow> x < length required \<longrightarrow> required' ! x) \<and>
    (\<forall>r\<in>set rs. r < length initialized \<longrightarrow> initialized ! r \<or> required' ! r)"
  using assms
proof (induction rs arbitrary: required)
  case (Cons r rs)
  obtain q where q: "mark_required_at initialized required r = (Ok q :: (bool list, 'e) res)"
      "fold_res (mark_required_at initialized) q rs = (Ok required' :: (bool list, 'e) res)"
    using Cons.prems(1) by (auto simp: res_simps)
  from mark_required_at_Ok [OF q(1) Cons.prems(2)] Cons.IH [OF q(2)] Cons.prems(2)
  show ?case by (metis set_ConsD)
qed simp

lemma mark_written_at_simps [simp]:
  "length (mark_written_at initialized r) = length initialized"
  "x < length initialized \<Longrightarrow> mark_written_at initialized r ! x \<longleftrightarrow> initialized ! x \<or> x = r"
  by (cases "x = r"; simp add: mark_written_at_def)+

lemma length_foldl_written [simp]: "length (foldl mark_written_at initialized rs) = length initialized"
  by (induction rs arbitrary: initialized) simp_all

lemma nth_foldl_written:
  "x < length initialized \<Longrightarrow> foldl mark_written_at initialized rs ! x \<longleftrightarrow> initialized ! x \<or> x \<in> set rs"
  by (induction rs arbitrary: initialized) auto

text \<open>\<open>marked\<close>: what a sequence of marks does to the two states.\<close>

definition marked :: "flow_mark list \<Rightarrow> bool list \<times> bool list \<Rightarrow> bool list \<times> bool list \<Rightarrow> bool" where
  "marked ms s t \<longleftrightarrow>
     length (fst t) = length (fst s) \<and> length (snd t) = length (snd s) \<and>
     (\<forall>x < length (fst s). fst t ! x \<longleftrightarrow> fst s ! x \<or> x \<in> (\<Union>m\<in>set ms. mark_writes m)) \<and>
     (\<forall>x < length (snd s). snd s ! x \<longrightarrow> snd t ! x) \<and>
     (\<forall>x < length (fst s). x \<in> exposed ms \<longrightarrow> fst s ! x \<or> snd t ! x)"

lemma apply_mark_marked:
  assumes "apply_mark s m = (Ok t :: (bool list \<times> bool list, 'e) res)" and "length (snd s) = length (fst s)"
  shows "marked [m] s t"
proof (cases m)
  case (Needs r)
  with assms show ?thesis
    by (cases s) (auto simp: marked_def res_simps dest: mark_required_at_Ok)
next
  case (NeedsRange start count)
  obtain a b where s: "s = (a, b)" by (cases s)
  then obtain c where c: "t = (a, c)"
      "fold_res (mark_required_at a) b (range_within start count (length a)) = (Ok c :: (bool list, 'e) res)"
    using assms(1) NeedsRange by (auto simp: res_simps)
  from mark_required_range_Ok [OF c(2)] assms(2) show ?thesis
    unfolding s c NeedsRange by (auto simp: marked_def range_within_def)
next
  case (Writes r)
  with assms show ?thesis by (cases s) (auto simp: marked_def)
next
  case (WritesRange start count)
  with assms show ?thesis by (cases s) (auto simp: marked_def nth_foldl_written range_within_def)
qed

lemma apply_marks_marked:
  assumes "fold_res apply_mark s ms = (Ok t :: (bool list \<times> bool list, 'e) res)" and "length (snd s) = length (fst s)"
  shows "marked ms s t"
  using assms
proof (induction ms arbitrary: s)
  case Nil
  then show ?case by (simp add: marked_def)
next
  case (Cons m ms)
  obtain u where u: "apply_mark s m = (Ok u :: (bool list \<times> bool list, 'e) res)"
      "fold_res apply_mark u ms = (Ok t :: (bool list \<times> bool list, 'e) res)" using Cons.prems(1) by (auto simp: res_simps)
  note first = apply_mark_marked [OF u(1) Cons.prems(2)]
  then have "length (snd u) = length (fst u)" using Cons.prems(2) by (simp add: marked_def)
  note rest = Cons.IH [OF u(2) this]
  have "fst s ! x \<or> snd t ! x" if x: "x < length (fst s)" "x \<in> exposed (m # ms)" for x
  proof (cases "x \<in> mark_reads m")
    case True
    then have "fst s ! x \<or> snd u ! x" using first x(1) by (simp add: marked_def)
    then show ?thesis using rest first x(1) Cons.prems(2) by (auto simp: marked_def)
  next
    case False
    then have "x \<in> exposed ms" "x \<notin> mark_writes m" using x(2) by auto
    then show ?thesis using rest first x(1) by (auto simp: marked_def)
  qed
  moreover have "fst t ! x \<longleftrightarrow> fst s ! x \<or> x \<in> (\<Union>m\<in>set (m # ms). mark_writes m)" if "x < length (fst s)" for x
    using first rest that by (auto simp: marked_def)
  ultimately show ?case using first rest by (simp add: marked_def)
qed

section \<open>Merging into the successors\<close>

text \<open>\<open>shrunk\<close>: every state a map holds is still there, with at most the same registers.\<close>

definition below :: "bool list \<Rightarrow> bool list \<Rightarrow> bool" where
  "below s t \<longleftrightarrow> length s = length t \<and> (\<forall>r < length s. s ! r \<longrightarrow> t ! r)"

definition shrunk :: "(nat \<rightharpoonup> bool list) \<Rightarrow> (nat \<rightharpoonup> bool list) \<Rightarrow> bool" where
  "shrunk f g \<longleftrightarrow> (\<forall>pc s. f pc = Some s \<longrightarrow> (\<exists>t. g pc = Some t \<and> below t s))"

lemma shrunkD: "shrunk f g \<Longrightarrow> f pc = Some s \<Longrightarrow> \<exists>t. g pc = Some t \<and> below t s"
  by (simp add: shrunk_def)

lemma below_refl [simp]: "below s s"
  by (simp add: below_def)

lemma below_trans: "below s t \<Longrightarrow> below t u \<Longrightarrow> below s u"
  by (simp add: below_def)

lemma shrunk_refl [simp]: "shrunk f f"
  by (auto simp: shrunk_def)

lemma shrunk_trans: "shrunk f g \<Longrightarrow> shrunk g h \<Longrightarrow> shrunk f h"
  unfolding shrunk_def by (meson below_trans)

lemma below_merge_states: "below (merge_states s t) s"
  by (simp add: below_def nth_merge_states)

lemma merge_states_below: "length s = length t \<Longrightarrow> below (merge_states s t) t"
  by (simp add: below_def nth_merge_states)

definition sized :: "nat \<Rightarrow> (nat \<rightharpoonup> bool list) \<Rightarrow> bool" where
  "sized n f \<longleftrightarrow> (\<forall>pc s. f pc = Some s \<longrightarrow> length s = n)"

lemma merge_into_facts:
  assumes "merge_into init (f, work) s = (g, work')" and "sized n f" and "length init = n"
  shows "shrunk f g \<and> sized n g \<and> (\<exists>t. g s = Some t \<and> below t init) \<and> set work \<subseteq> set work' \<and>
    (\<forall>pc. pc \<notin> set work' \<longrightarrow> g pc = f pc)"
proof (cases "f s")
  case None
  with assms show ?thesis by (auto simp: shrunk_def sized_def split: if_splits)
next
  case (Some existing)
  then have "length existing = n" using assms(2) by (auto simp: sized_def)
  then have b: "below (merge_states existing init) init" using assms(3) by (simp add: merge_states_below)
  show ?thesis
  proof (cases "merge_states existing init = existing")
    case True
    with Some assms b show ?thesis by (auto simp: Let_def)
  next
    case False
    then have "g = f(s \<mapsto> merge_states existing init)" "work' = s # work" using Some assms by (auto simp: Let_def)
    then show ?thesis using Some b \<open>length existing = n\<close> assms(2)
      by (auto simp: shrunk_def sized_def below_merge_states split: if_splits)
  qed
qed

lemma merge_all_facts:
  assumes "foldl (merge_into init) (f, work) ss = (g, work')" and "sized n f" and "length init = n"
  shows "shrunk f g \<and> sized n g \<and> (\<forall>s\<in>set ss. \<exists>t. g s = Some t \<and> below t init) \<and> set work \<subseteq> set work' \<and>
    (\<forall>pc. pc \<notin> set work' \<longrightarrow> g pc = f pc)"
  using assms
proof (induction ss arbitrary: f work)
  case (Cons s ss)
  obtain h w where h: "merge_into init (f, work) s = (h, w)" by (metis surj_pair)
  note first = merge_into_facts [OF h Cons.prems(2,3)]
  then have rest: "shrunk h g \<and> sized n g \<and> (\<forall>s\<in>set ss. \<exists>t. g s = Some t \<and> below t init) \<and> set w \<subseteq> set work' \<and>
      (\<forall>pc. pc \<notin> set work' \<longrightarrow> g pc = h pc)"
    using Cons.IH [of h w] Cons.prems h by simp
  obtain t where "h s = Some t" "below t init" using first by blast
  then obtain t' where "g s = Some t'" "below t' init" using rest by (meson below_trans shrunk_def)
  then show ?case using first rest shrunk_trans [of f h g] by (auto simp: subset_iff)
qed simp

section \<open>The worklist invariant\<close>

definition captures_at :: "reg list list \<Rightarrow> nat \<Rightarrow> reg list" where
  "captures_at captures pc = concat (case get captures pc of Some rs \<Rightarrow> [rs] | None \<Rightarrow> [])"

text \<open>\<open>settled\<close>: the state of an instruction accounts for what it reads and for its successors.\<close>

definition settled ::
  "bi list \<Rightarrow> reg list list \<Rightarrow> (nat \<rightharpoonup> bool list) \<Rightarrow> bool list \<Rightarrow> nat \<Rightarrow> bool" where
  "settled code captures f required pc \<longleftrightarrow>
     (\<forall>s. f pc = Some s \<longrightarrow> pc < length code \<longrightarrow>
       (\<forall>r < length s. r \<in> instruction_reads (captures_at captures pc) (code ! pc) \<longrightarrow> s ! r \<or> required ! r) \<and>
       (\<forall>q\<in>set (flow_successors pc (code ! pc)). q < length code \<longrightarrow>
         (\<exists>t. f q = Some t \<and> length t = length s \<and>
           (\<forall>r < length s. t ! r \<longrightarrow> s ! r \<or> r \<in> instruction_writes (code ! pc)))))"

lemma settled_readsD:
  assumes "settled code captures f required pc" and "f pc = Some s" and "pc < length code"
    and "r \<in> instruction_reads (captures_at captures pc) (code ! pc)" and "r < length s"
  shows "s ! r \<or> required ! r"
  using assms by (simp add: settled_def)

lemma settled_laterD:
  assumes "settled code captures f required pc" and "f pc = Some s" and "pc < length code"
    and "q \<in> set (flow_successors pc (code ! pc))" and "q < length code"
  obtains t where "f q = Some t" and "length t = length s"
    and "\<And>r. r < length s \<Longrightarrow> t ! r \<Longrightarrow> s ! r \<or> r \<in> instruction_writes (code ! pc)"
  using assms by (auto simp: settled_def)

definition worklist_ok ::
  "bi list \<Rightarrow> reg list list \<Rightarrow> nat \<Rightarrow> (nat \<rightharpoonup> bool list) \<Rightarrow> bool list \<Rightarrow> nat list \<Rightarrow> bool" where
  "worklist_ok code captures n f required work \<longleftrightarrow>
     sized n f \<and> length required = n \<and> (\<forall>pc. pc \<in> set work \<or> settled code captures f required pc)"

lemma worklist_ok_skip:
  assumes "worklist_ok code captures n f required (pc # work)" and "f pc = None \<or> length code \<le> pc"
  shows "worklist_ok code captures n f required work"
proof -
  have "settled code captures f required pc" using assms(2) by (auto simp: settled_def)
  then show ?thesis using assms(1) unfolding worklist_ok_def by (metis set_ConsD)
qed

text \<open>A settled instruction stays settled while the states shrink and the requirements grow.\<close>

lemma settled_mono:
  assumes "settled code captures f required pc" and "g pc = f pc" and "shrunk f g"
    and "length required' = length required" and "\<forall>x < length required. required ! x \<longrightarrow> required' ! x" and "sized (length required) f"
  shows "settled code captures g required' pc"
  unfolding settled_def
proof (intro allI impI)
  fix s assume s: "g pc = Some s" "pc < length code"
  then have f: "f pc = Some s" using assms(2) by simp
  then have len: "length s = length required" using assms(6) by (simp add: sized_def)
  have "\<exists>t. g q = Some t \<and> length t = length s \<and> (\<forall>r < length s. t ! r \<longrightarrow> s ! r \<or> r \<in> instruction_writes (code ! pc))"
    if q: "q \<in> set (flow_successors pc (code ! pc))" "q < length code" for q
  proof -
    obtain t where t: "f q = Some t" "length t = length s"
        "\<And>r. r < length s \<Longrightarrow> t ! r \<Longrightarrow> s ! r \<or> r \<in> instruction_writes (code ! pc)"
      using settled_laterD [OF assms(1) f s(2) q] by metis
    then obtain u where "g q = Some u" "below u t" using shrunkD [OF assms(3)] by blast
    then show ?thesis using t by (auto simp: below_def)
  qed
  moreover have "s ! r \<or> required' ! r"
    if "r < length s" "r \<in> instruction_reads (captures_at captures pc) (code ! pc)" for r
    using settled_readsD [OF assms(1) f s(2) that(2,1)] assms(5) len that(1) by auto
  ultimately show "(\<forall>r < length s. r \<in> instruction_reads (captures_at captures pc) (code ! pc) \<longrightarrow> s ! r \<or> required' ! r) \<and>
     (\<forall>q\<in>set (flow_successors pc (code ! pc)). q < length code \<longrightarrow>
         (\<exists>t. g q = Some t \<and> length t = length s \<and> (\<forall>r < length s. t ! r \<longrightarrow> s ! r \<or> r \<in> instruction_writes (code ! pc))))"
    by blast
qed

lemma worklist_ok_step:
  assumes ok: "worklist_ok code captures n f required (pc # work)"
    and s: "f pc = Some s" "pc < length code"
    and marks: "fold_res apply_mark (s, required) (flow_marks (captures_at captures pc) (code ! pc)) = Ok (init, required')"
    and merge: "foldl (merge_into init) (f, work) (filter (\<lambda>q. q < length code) (flow_successors pc (code ! pc))) = (g, work')"
  shows "worklist_ok code captures n g required' work' \<and> shrunk f g"
proof -
  let ?i = "code ! pc"
  have len: "length s = n" "length required = n" "sized n f" using ok s by (auto simp: worklist_ok_def sized_def)
  note marked = apply_marks_marked [OF marks, unfolded marked_def fst_conv snd_conv exposed_flow_marks instruction_writes_captures]
  have init: "length init = n" "length required' = n" and
    req: "\<forall>x < n. required ! x \<longrightarrow> required' ! x" and
    reads: "\<forall>r < n. r \<in> instruction_reads (captures_at captures pc) ?i \<longrightarrow> s ! r \<or> required' ! r" and
    writes: "\<forall>x < n. init ! x \<longleftrightarrow> s ! x \<or> x \<in> instruction_writes ?i" using marked len by simp_all
  note merged = merge_all_facts [OF merge len(3) init(1)]
  have "settled code captures g required' q" if q: "q \<notin> set work'" for q
  proof (cases "q = pc")
    case False
    then have "settled code captures f required q" using ok q merged by (auto simp: worklist_ok_def)
    moreover have "g q = f q" using merged q by blast
    ultimately show ?thesis by (rule settled_mono) (use merged len init req in simp_all)
  next
    case True
    then have g: "g pc = Some s" using s merged q by simp
    have "\<exists>t. g q = Some t \<and> length t = length s \<and> (\<forall>r < length s. t ! r \<longrightarrow> s ! r \<or> r \<in> instruction_writes ?i)"
      if q: "q \<in> set (flow_successors pc ?i)" "q < length code" for q
    proof -
      have "\<exists>t. g q = Some t \<and> below t init" using merged q by auto
      then show ?thesis using writes len init by (auto simp: below_def)
    qed
    then show ?thesis using True g reads len by (auto simp: settled_def)
  qed
  then show ?thesis using merged init by (auto simp: worklist_ok_def)
qed

lemma flow_loop_settles:
  assumes "flow_loop code captures f required work = (Ok required' :: (bool list, 'e) res)" and "worklist_ok code captures n f required work"
  shows "\<exists>g. worklist_ok code captures n g required' [] \<and> shrunk f g"
  using assms
proof (induction code captures f required work rule: flow_loop.induct [where 'a = 'e])
  case (1 code captures f required)
  then show ?case by auto
next
  case (2 code captures f required pc work)
  show ?case
  proof (cases "f pc")
    case None
    with 2(1) 2(4,5) show ?thesis by (simp add: worklist_ok_skip)
  next
    case (Some s)
    show ?thesis
    proof (cases "pc < length code")
      case False
      with Some 2(2) [OF Some] 2(4,5) show ?thesis by (simp add: get_def worklist_ok_skip)
    next
      case True
      then have at: "get code pc = Some (code ! pc)" by (simp add: get_def)
      obtain init r2 where marks: "fold_res apply_mark (s, required) (flow_marks (captures_at captures pc) (code ! pc)) =
          (Ok (init, r2) :: (bool list \<times> bool list, 'e) res)"
        using 2(4) Some at by (auto simp: res_simps captures_at_def)
      obtain g work' where merge: "foldl (merge_into init) (f, work) (filter (\<lambda>q. q < length code) (flow_successors pc (code ! pc))) = (g, work')"
        by (metis surj_pair)
      have run: "flow_loop code captures g r2 work' = (Ok required' :: (bool list, 'e) res)"
        using 2(4) Some at marks merge by (simp add: captures_at_def)
      from worklist_ok_step [OF 2(5) Some True marks merge] have step: "worklist_ok code captures n g r2 work'" "shrunk f g" by auto
      from 2(3) [OF Some at marks [unfolded captures_at_def] refl merge [symmetric] refl run step(1)]
      show ?thesis using step(2) shrunk_trans by blast
    qed
  qed
qed

section \<open>Liveness\<close>

text \<open>A register is live at an instruction when a path from it reads the register before writing it.\<close>

inductive live_at :: "bi list \<Rightarrow> reg list list \<Rightarrow> nat \<Rightarrow> nat \<Rightarrow> bool" for code captures where
  read: "pc < length code \<Longrightarrow> r \<in> instruction_reads (captures_at captures pc) (code ! pc) \<Longrightarrow> live_at code captures pc r"
| later: "pc < length code \<Longrightarrow> q \<in> set (flow_successors pc (code ! pc)) \<Longrightarrow> q < length code \<Longrightarrow>
    r \<notin> instruction_writes (code ! pc) \<Longrightarrow> live_at code captures q r \<Longrightarrow> live_at code captures pc r"

lemma live_at_required:
  assumes "live_at code captures pc r" and "worklist_ok code captures n f required []" and "r < n"
    and "f pc = Some s" and "\<not> s ! r"
  shows "required ! r"
  using assms(1,3-5)
proof (induction arbitrary: s)
  case (read pc r)
  have s: "length s = n" and "settled code captures f required pc"
    using assms(2) read.prems by (auto simp: worklist_ok_def sized_def)
  from settled_readsD [OF this(2) read.prems(2) read.hyps] read.prems s show ?case by simp
next
  case (later pc q r)
  have s: "length s = n" and "settled code captures f required pc"
    using assms(2) later.prems by (auto simp: worklist_ok_def sized_def)
  from settled_laterD [OF this(2) later.prems(2) later.hyps(1-3)] obtain t where
    "f q = Some t" "\<not> t ! r" using later.prems later.hyps(4) s by metis
  with later.IH later.prems(1) show ?case by blast
qed

lemma requirements_complete:
  assumes "backward_branch_requirements code target n captures = Ok required"
  shows "length required = n" and "live_at code captures target r \<Longrightarrow> r < n \<Longrightarrow> required ! r"
proof -
  have "worklist_ok code captures n [target \<mapsto> replicate n False] (replicate n False) [target]"
    by (auto simp: worklist_ok_def sized_def settled_def)
  from flow_loop_settles [OF assms [unfolded backward_branch_requirements_def] this]
  obtain f where f: "worklist_ok code captures n f required []" "shrunk [target \<mapsto> replicate n False] f" by blast
  have "[target \<mapsto> replicate n False] target = Some (replicate n False)" by simp
  then obtain s where s: "f target = Some s" "below s (replicate n False)" using shrunkD [OF f(2)] by blast
  show "length required = n" using f by (simp add: worklist_ok_def)
  show "required ! r" if "live_at code captures target r" "r < n"
    by (rule live_at_required [OF that(1) f(1) that(2) s(1)]) (use s(2) that(2) in \<open>auto simp: below_def\<close>)
qed

end
