(* ===== verification/Blu_Encode.thy ===== *)
theory Blu_Encode
  imports Blu_Artifact
begin

text \<open>
  The encoder of \<open>blu-bytecode/src/blu.rs\<close>: the exact size of an encoding, computed with checked
  additions, and the bytes that are written. \<open>encode\<close> itself validates first and is in
  \<open>Blu_Validate\<close>.
\<close>

section \<open>The size of an encoding\<close>

definition add_size :: "nat \<Rightarrow> nat \<Rightarrow> (nat, blu_encode_error) res" where
  "add_size sz amount = ok_or (checked_add sz amount) BeSizeOverflow"

definition add_scaled :: "nat \<Rightarrow> nat \<Rightarrow> nat \<Rightarrow> (nat, blu_encode_error) res" where
  "add_scaled sz count width =
     rbind (ok_or (checked_mul count width) BeSizeOverflow) (add_size sz)"

fun profile_tag :: "semantic_profile \<Rightarrow> (byte, blu_encode_error) res" where
  "profile_tag Blu = Ok 1"
| "profile_tag Luau = Ok 2"
| "profile_tag Lua51 = Ok 3"
| "profile_tag Lua52 = Ok 4"
| "profile_tag Lua53 = Ok 5"
| "profile_tag Lua54 = Ok 6"
| "profile_tag Lua55 = Ok 7"

fun constant_size :: "blu_constant \<Rightarrow> nat" where
  "constant_size CNil = 1"
| "constant_size (CBoolean b) = 1"
| "constant_size (CNumber x) = 9"
| "constant_size (CInteger i) = 9"
| "constant_size (CString bs) = 1 + 4 + length bs"

fun instruction_size :: "bi \<Rightarrow> nat" where
  "instruction_size (BiLoadConstant _ _) = 7"
| "instruction_size (BiLoadGlobal _ _) = 7"
| "instruction_size (BiStoreGlobal _ _) = 7"
| "instruction_size (BiNewTable _) = 3"
| "instruction_size (BiGetTable _ _ _) = 7"
| "instruction_size (BiSetTable _ _ _) = 7"
| "instruction_size (BiSetListVarargs _ _) = 7"
| "instruction_size (BiSetListCall _ _ _ _ _ _) = 13"
| "instruction_size (BiCall _ _ _ _) = 9"
| "instruction_size (BiCallResults _ _ _ _ _ _) = 11"
| "instruction_size (BiCallAllResults _ _ _ _) = 7"
| "instruction_size (BiReturnCall _ _ _ _) = 7"
| "instruction_size (BiReturnCallPrefix _ _ _ _ _ _) = 11"
| "instruction_size (BiNewClosure _ _) = 5"
| "instruction_size (BiGetUpvalue _ _) = 5"
| "instruction_size (BiSetUpvalue _ _) = 5"
| "instruction_size (BiCloseUpvalues _) = 3"
| "instruction_size (BiVarargs _ _) = 5"
| "instruction_size (BiReturnVarargs _ _) = 5"
| "instruction_size BiReturnDynamic = 1"
| "instruction_size (BiReturnDynamicPrefix _ _) = 5"
| "instruction_size (BiUnary _ _ _) = 5"
| "instruction_size (BiBinary _ _ _ _) = 7"
| "instruction_size (BiJumpIf _ _ _) = 7"
| "instruction_size (BiJump _) = 5"
| "instruction_size (BiReturn _ _) = 5"

definition has_lines :: "blu_format \<Rightarrow> blu_prototype \<Rightarrow> bool" where
  "has_lines format p \<longleftrightarrow> format = BluV2 \<or> requires p STRIPPED_DEBUG_LINES"

definition prototype_size :: "blu_format \<Rightarrow> nat \<Rightarrow> blu_prototype \<Rightarrow> (nat, blu_encode_error) res" where
  "prototype_size format sz p =
     rbind (profile_tag (bp_profile p)) (\<lambda>_.
     rbind (add_size sz (20 + 4 + (if has_lines format p then 8 else 0))) (\<lambda>sz.
     rbind (fold_res (\<lambda>sz c. add_size sz (constant_size c)) sz (bp_constants p)) (\<lambda>sz.
     rbind (add_size sz 4) (\<lambda>sz.
     rbind (add_scaled sz (length (bp_upvalues p)) 3) (\<lambda>sz.
     rbind (add_size sz 4) (\<lambda>sz.
     rbind (add_scaled sz (length (bp_children p)) 4) (\<lambda>sz.
     rbind (add_size sz 4) (\<lambda>sz.
     rbind (fold_res (\<lambda>sz i. add_size sz (instruction_size i)) sz (bp_code p)) (\<lambda>sz.
     rbind (add_size sz 4) (\<lambda>sz.
     rbind (add_scaled sz (length (bp_source_map p)) 12) (\<lambda>sz.
     rbind (if format = BluV2
            then rbind (add_size sz 4) (\<lambda>sz. add_scaled sz (length (bp_line_info p)) 4)
            else Ok sz) (\<lambda>sz.
     rbind (add_size sz 4) (\<lambda>sz.
     rbind (fold_res (\<lambda>sz l. add_size sz (4 + length (ld_name l) + 2 + 4 + 4)) sz (bp_locals p)) (\<lambda>sz.
     rbind (add_size sz 4) (\<lambda>sz.
     fold_res (\<lambda>sz u. add_size sz (4 + length (ud_name u) + 2 + 4 + 4)) sz (bp_upvalue_debug p))))))))))))))))"

definition encoded_size :: "artifact \<Rightarrow> (nat, blu_encode_error) res" where
  "encoded_size a =
     (let compiler = ar_compiler a in
      rbind (add_size 8 (16 + 4 + length (ci_name compiler))) (\<lambda>sz.
      rbind (add_size sz (4 + length (ci_version compiler) + 1)) (\<lambda>sz.
      rbind (case ci_revision compiler of
               Some revision \<Rightarrow> add_size sz (4 + length revision)
             | None \<Rightarrow> Ok sz) (\<lambda>sz.
      rbind (add_size sz 4) (\<lambda>sz.
      rbind (fold_res (\<lambda>sz s. add_size sz (4 + 4 + length (si_name (sr_identity s)) + 4 + 32)) sz (ar_sources a)) (\<lambda>sz.
      rbind (add_size sz (4 + 4)) (\<lambda>sz.
      fold_res (prototype_size (ar_format a)) sz (ar_prototypes a))))))))"

section \<open>Writing\<close>

type_synonym blu_put = "bytes \<Rightarrow> (bytes, blu_encode_error) res"

definition put_u16 :: "16 word \<Rightarrow> bytes \<Rightarrow> bytes" where "put_u16 v out = out @ u16_to_le v"
definition put_u32 :: "32 word \<Rightarrow> bytes \<Rightarrow> bytes" where "put_u32 v out = out @ u32_to_le v"
definition put_u64 :: "64 word \<Rightarrow> bytes \<Rightarrow> bytes" where "put_u64 v out = out @ u64_to_le v"
definition put_i64 :: "64 word \<Rightarrow> bytes \<Rightarrow> bytes" where "put_i64 v out = out @ u64_to_le v"
definition put_byte :: "byte \<Rightarrow> bytes \<Rightarrow> bytes" where "put_byte b out = out @ [b]"

definition put_len :: "string \<Rightarrow> nat \<Rightarrow> blu_put" where
  "put_len what n out =
     (if n \<le> u32_max then Ok (put_u32 (word_of_nat n) out) else Err (BeLengthOverflow what n))"

definition put_sized :: "string \<Rightarrow> bytes \<Rightarrow> blu_put" where
  "put_sized what bs out = rbind (put_len what (length bs) out) (\<lambda>out. Ok (out @ bs))"

definition put_compiler :: "compiler_identity \<Rightarrow> blu_put" where
  "put_compiler c out =
     rbind (put_sized ''compiler name'' (ci_name c) (out @ ci_id c)) (\<lambda>out.
     rbind (put_sized ''compiler version'' (ci_version c) out) (\<lambda>out.
     case ci_revision c of
       Some revision \<Rightarrow> put_sized ''compiler revision'' revision (put_byte 1 out)
     | None \<Rightarrow> Ok (put_byte 0 out)))"

fun put_constant :: "bytes \<Rightarrow> blu_constant \<Rightarrow> (bytes, blu_encode_error) res" where
  "put_constant out CNil = Ok (put_byte 0 out)"
| "put_constant out (CBoolean b) = Ok (put_byte (if b then 2 else 1) out)"
| "put_constant out (CNumber x) = Ok (put_u64 x (put_byte 3 out))"
| "put_constant out (CString bs) = put_sized ''constant bytes'' bs (put_byte 4 out)"
| "put_constant out (CInteger i) = Ok (put_i64 i (put_byte 5 out))"

fun put_upvalue :: "bytes \<Rightarrow> upvalue \<Rightarrow> bytes" where
  "put_upvalue out (ParentRegister index) = put_u16 index (put_byte 0 out)"
| "put_upvalue out (ParentUpvalue index) = put_u16 index (put_byte 1 out)"

text \<open>The opcode of an instruction.\<close>

fun unary_tag :: "bi_unary \<Rightarrow> byte" where
  "unary_tag BiMove = 4"
| "unary_tag BiNot = 5"
| "unary_tag BiNegate = 9"
| "unary_tag BiLength = 12"
| "unary_tag BiBitwiseNot = 45"

fun binary_tag :: "bi_binary \<Rightarrow> byte" where
  "binary_tag BiAdd = 1"
| "binary_tag BiFloorDivide = 3"
| "binary_tag BiSubtract = 6"
| "binary_tag BiMultiply = 7"
| "binary_tag BiDivide = 8"
| "binary_tag BiModulo = 10"
| "binary_tag BiPower = 11"
| "binary_tag BiConcatenate = 13"
| "binary_tag BiEqual = 14"
| "binary_tag BiLessThan = 15"
| "binary_tag BiLessEqual = 16"
| "binary_tag BiBitwiseAnd = 40"
| "binary_tag BiBitwiseOr = 41"
| "binary_tag BiBitwiseExclusiveOr = 42"
| "binary_tag BiShiftLeft = 43"
| "binary_tag BiShiftRight = 44"

definition tail_tag :: "bi_tail \<Rightarrow> byte \<Rightarrow> byte \<Rightarrow> byte \<Rightarrow> byte" where
  "tail_tag tail plain varargs dynamic =
     (case tail of Fixed \<Rightarrow> plain | WithVarargs \<Rightarrow> varargs | WithDynamic \<Rightarrow> dynamic)"

definition put_regs :: "16 word list \<Rightarrow> bytes \<Rightarrow> bytes" where
  "put_regs rs out = fold put_u16 rs out"

fun put_instruction :: "bytes \<Rightarrow> bi \<Rightarrow> bytes" where
  "put_instruction out (BiLoadConstant d c) = put_u32 c (put_u16 d (put_byte 0 out))"
| "put_instruction out (BiLoadGlobal d n) = put_u32 n (put_u16 d (put_byte 20 out))"
| "put_instruction out (BiStoreGlobal n s) = put_u16 s (put_u32 n (put_byte 21 out))"
| "put_instruction out (BiNewTable d) = put_u16 d (put_byte 22 out)"
| "put_instruction out (BiGetTable d t k) = put_regs [d, t, k] (put_byte 23 out)"
| "put_instruction out (BiSetTable t k v) = put_regs [t, k, v] (put_byte 24 out)"
| "put_instruction out (BiSetListVarargs t s) = put_u32 s (put_u16 t (put_byte 37 out))"
| "put_instruction out (BiSetListCall tail t s f a n) =
     put_regs [f, a, n] (put_u32 s (put_u16 t (put_byte (tail_tag tail 38 39 52) out)))"
| "put_instruction out (BiCall d f a n) = put_regs [d, f, a, n] (put_byte 25 out)"
| "put_instruction out (BiCallResults tail d f a n r) =
     put_regs [d, f, a, n, r] (put_byte (tail_tag tail 29 34 48) out)"
| "put_instruction out (BiCallAllResults tail f a n) =
     put_regs [f, a, n] (put_byte (tail_tag tail 46 47 51) out)"
| "put_instruction out (BiReturnCall tail f a n) =
     put_regs [f, a, n] (put_byte (tail_tag tail 30 35 49) out)"
| "put_instruction out (BiReturnCallPrefix tail x c f a n) =
     put_regs [x, c, f, a, n] (put_byte (tail_tag tail 31 36 50) out)"
| "put_instruction out (BiNewClosure d c) = put_regs [d, c] (put_byte 26 out)"
| "put_instruction out (BiGetUpvalue d u) = put_regs [d, u] (put_byte 27 out)"
| "put_instruction out (BiSetUpvalue u s) = put_regs [u, s] (put_byte 28 out)"
| "put_instruction out (BiCloseUpvalues r) = put_u16 r (put_byte 53 out)"
| "put_instruction out (BiVarargs d c) = put_regs [d, c] (put_byte 32 out)"
| "put_instruction out (BiReturnVarargs x c) = put_regs [x, c] (put_byte 33 out)"
| "put_instruction out BiReturnDynamic = put_byte 54 out"
| "put_instruction out (BiReturnDynamicPrefix x c) = put_regs [x, c] (put_byte 55 out)"
| "put_instruction out (BiUnary operator d s) = put_regs [d, s] (put_byte (unary_tag operator) out)"
| "put_instruction out (BiBinary operator d l r) = put_regs [d, l, r] (put_byte (binary_tag operator) out)"
| "put_instruction out (BiJumpIf truthy c t) = put_u32 t (put_u16 c (put_byte (if truthy then 17 else 18) out))"
| "put_instruction out (BiJump t) = put_u32 t (put_byte 19 out)"
| "put_instruction out (BiReturn x c) = put_regs [x, c] (put_byte 2 out)"

definition put_span :: "bytes \<Rightarrow> byte_span \<Rightarrow> bytes" where
  "put_span out s = put_u32 (span_end s) (put_u32 (span_start s) (put_u32 (span_source s) out))"

definition put_local :: "bytes \<Rightarrow> local_debug \<Rightarrow> (bytes, blu_encode_error) res" where
  "put_local out l =
     rbind (put_sized ''local name'' (ld_name l) out) (\<lambda>out.
     Ok (put_u32 (ld_end_pc l) (put_u32 (ld_start_pc l) (put_u16 (ld_register l) out))))"

definition put_upvalue_debug :: "bytes \<Rightarrow> upvalue_debug \<Rightarrow> (bytes, blu_encode_error) res" where
  "put_upvalue_debug out u =
     rbind (put_sized ''upvalue name'' (ud_name u) out) (\<lambda>out.
     Ok (put_u32 (ud_end_pc u) (put_u32 (ud_start_pc u) (put_u16 (ud_upvalue u) out))))"

definition put_lines :: "blu_prototype \<Rightarrow> bytes \<Rightarrow> bytes" where
  "put_lines p out = put_u32 (bp_last_line_defined p) (put_u32 (bp_line_defined p) out)"

definition put_prototype :: "blu_format \<Rightarrow> bytes \<Rightarrow> blu_prototype \<Rightarrow> (bytes, blu_encode_error) res" where
  "put_prototype format out p =
     rbind (profile_tag (bp_profile p)) (\<lambda>tag.
     let out = put_byte (if bp_is_vararg p then 1 else 0) (put_byte tag out);
         out = put_u32 (bp_source p) (put_u16 0 out);
         out = put_u16 (bp_parameter_count p) (put_u16 (bp_register_count p) out);
         out = (if format = BluV2 then put_lines p out else out);
         out = put_u64 (bp_required_features p) out;
         out = (if format = BluV1 \<and> requires p STRIPPED_DEBUG_LINES then put_lines p out else out) in
     rbind (put_len ''constant count'' (length (bp_constants p)) out) (\<lambda>out.
     rbind (fold_res put_constant out (bp_constants p)) (\<lambda>out.
     rbind (put_len ''upvalue count'' (length (bp_upvalues p)) out) (\<lambda>out.
     let out = foldl put_upvalue out (bp_upvalues p) in
     rbind (put_len ''child count'' (length (bp_children p)) out) (\<lambda>out.
     let out = fold put_u32 (bp_children p) out in
     rbind (put_len ''instruction count'' (length (bp_code p)) out) (\<lambda>out.
     let out = foldl put_instruction out (bp_code p) in
     rbind (put_len ''source map count'' (length (bp_source_map p)) out) (\<lambda>out.
     let out = foldl put_span out (bp_source_map p) in
     rbind (if format = BluV2
            then rbind (put_len ''line info count'' (length (bp_line_info p)) out) (\<lambda>out.
              Ok (fold put_u32 (bp_line_info p) out))
            else Ok out) (\<lambda>out.
     rbind (put_len ''local debug count'' (length (bp_locals p)) out) (\<lambda>out.
     rbind (fold_res put_local out (bp_locals p)) (\<lambda>out.
     rbind (put_len ''upvalue debug count'' (length (bp_upvalue_debug p)) out) (\<lambda>out.
     fold_res put_upvalue_debug out (bp_upvalue_debug p))))))))))))"

definition put_source :: "bytes \<Rightarrow> source_record \<Rightarrow> (bytes, blu_encode_error) res" where
  "put_source out s =
     rbind (put_sized ''source name'' (si_name (sr_identity s)) (put_u32 (si_id (sr_identity s)) out)) (\<lambda>out.
     Ok (put_u32 (sr_byte_len s) out @ sr_digest s))"

definition BLU_MAGIC :: bytes where "BLU_MAGIC = [0x42, 0x4C, 0x55, 0]"
definition BLU_V1_VERSION :: "16 word" where "BLU_V1_VERSION = 1"
definition BLU_V2_VERSION :: "16 word" where "BLU_V2_VERSION = 2"

definition format_version :: "blu_format \<Rightarrow> 16 word" where
  "format_version format = (case format of BluV1 \<Rightarrow> BLU_V1_VERSION | BluV2 \<Rightarrow> BLU_V2_VERSION)"

definition put_artifact :: "artifact \<Rightarrow> (bytes, blu_encode_error) res" where
  "put_artifact a =
     (let out = put_u16 0 (put_u16 (format_version (ar_format a)) BLU_MAGIC) in
      rbind (put_compiler (ar_compiler a) out) (\<lambda>out.
      rbind (put_len ''source count'' (length (ar_sources a)) out) (\<lambda>out.
      rbind (fold_res put_source out (ar_sources a)) (\<lambda>out.
      rbind (put_len ''prototype count'' (length (ar_prototypes a)) out) (\<lambda>out.
      fold_res (put_prototype (ar_format a)) (put_u32 (ar_main a) out) (ar_prototypes a))))))"

end
