(* ===== verification/Blu_Decode.thy ===== *)
theory Blu_Decode
  imports Blu_Encode
begin

text \<open>
  The decoder of \<open>blu-bytecode/src/blu.rs\<close>: the bounded reader, the budget of what has been decoded,
  and the artifact. The reader and the budget, which the code passes side by side, are one state.
  Every fallible reservation asks \<open>alloc\<close>.
\<close>

section \<open>Reading bytes\<close>

record blu_budget =
  bg_registers :: nat
  bg_constants :: nat
  bg_constant_bytes :: nat
  bg_code :: nat
  bg_children :: nat
  bg_upvalues :: nat
  bg_debug_entries :: nat
  bg_debug_bytes :: nat
  bg_source_map_entries :: nat
  bg_decoded_bytes :: nat

record decoder =
  dc_bytes :: bytes
  dc_offset :: nat
  dc_budget :: blu_budget

type_synonym 'a blu_read = "decoder \<Rightarrow> ('a \<times> decoder, blu_decode_error) res"

definition blu_remaining :: "decoder \<Rightarrow> nat" where
  "blu_remaining r = saturating_sub (length (dc_bytes r)) (dc_offset r)"

definition blu_take :: "nat \<Rightarrow> bytes blu_read" where
  "blu_take count r =
     (if blu_remaining r < count then Err (BdUnexpectedEnd (dc_offset r) count (blu_remaining r))
      else
        let stop = dc_offset r + count in
        rbind (slice_at (dc_bytes r) (dc_offset r) stop) (\<lambda>bs. Ok (bs, r\<lparr>dc_offset := stop\<rparr>)))"

definition blu_array :: "nat \<Rightarrow> bytes blu_read" where
  "blu_array n r =
     rbind (blu_take n r) (\<lambda>(bs, r).
     if length bs = n then Ok (bs, r) else Err (BdUnexpectedEnd (dc_offset r) n 0))"

definition blu_u8 :: "byte blu_read" where
  "blu_u8 r = rbind (blu_array 1 r) (\<lambda>(bs, r). rbind (index_at bs 0) (\<lambda>b. Ok (b, r)))"

definition blu_u16 :: "16 word blu_read" where
  "blu_u16 r = rbind (blu_array 2 r) (\<lambda>(bs, r). Ok (u16_from_le bs, r))"

definition blu_u32 :: "32 word blu_read" where
  "blu_u32 r = rbind (blu_array 4 r) (\<lambda>(bs, r). Ok (u32_from_le bs, r))"

definition blu_u64 :: "64 word blu_read" where
  "blu_u64 r = rbind (blu_array 8 r) (\<lambda>(bs, r). Ok (u64_from_le bs, r))"

definition blu_i64 :: "64 word blu_read" where
  "blu_i64 r = rbind (blu_array 8 r) (\<lambda>(bs, r). Ok (u64_from_le bs, r))"

definition count_with_extra :: "string \<Rightarrow> nat \<Rightarrow> nat \<Rightarrow> nat \<Rightarrow> nat blu_read" where
  "count_with_extra what limit minimum_width trailing_required r =
     (let offset = dc_offset r in
      rbind (blu_u32 r) (\<lambda>(w, r).
      let actual = unat w in
      if limit < actual then Err (BdTooLarge what actual limit)
      else
        let overflow = BdCountOverflow offset what actual minimum_width in
        rbind (ok_or (checked_mul actual minimum_width) overflow) (\<lambda>body.
        rbind (ok_or (checked_add body trailing_required) overflow) (\<lambda>required.
        if blu_remaining r < required
        then Err (BdDeclaredBodyTooLarge offset what actual minimum_width required (blu_remaining r))
        else Ok (actual, r)))))"

definition blu_count :: "string \<Rightarrow> nat \<Rightarrow> nat \<Rightarrow> nat blu_read" where
  "blu_count what limit minimum_width r = count_with_extra what limit minimum_width 0 r"

definition blu_sized_bytes :: "string \<Rightarrow> nat \<Rightarrow> bytes blu_read" where
  "blu_sized_bytes what limit r = rbind (blu_count what limit 1 r) (\<lambda>(n, r). blu_take n r)"

section \<open>The budget\<close>

definition budget_add :: "nat \<Rightarrow> nat \<Rightarrow> string \<Rightarrow> nat \<Rightarrow> (nat, blu_decode_error) res" where
  "budget_add so_far amount what limit =
     rbind (ok_or (checked_add so_far amount) (BdTooLarge what usize_max limit)) (\<lambda>n.
     if limit < n then Err (BdTooLarge what n limit) else Ok n)"

text \<open>\<open>DecodeBudget::add\<close> on a field of the budget, given by its selector and its update.\<close>

definition charge ::
  "(blu_budget \<Rightarrow> nat) \<Rightarrow> ((nat \<Rightarrow> nat) \<Rightarrow> blu_budget \<Rightarrow> blu_budget) \<Rightarrow> nat \<Rightarrow> string \<Rightarrow> nat \<Rightarrow> unit blu_read" where
  "charge sel upd amount what limit r =
     rbind (budget_add (sel (dc_budget r)) amount what limit) (\<lambda>n.
     Ok ((), r\<lparr>dc_budget := upd (\<lambda>_. n) (dc_budget r)\<rparr>))"

definition charge_owned :: "nat \<Rightarrow> blu_limits \<Rightarrow> unit blu_read" where
  "charge_owned n limits =
     charge bg_decoded_bytes bg_decoded_bytes_update n ''estimated decoded bytes'' (bl_max_decoded_bytes limits)"

definition charge_fixed :: "nat \<Rightarrow> nat \<Rightarrow> blu_limits \<Rightarrow> unit blu_read" where
  "charge_fixed count logical_width limits r =
     rbind (ok_or (checked_mul count logical_width)
              (BdTooLarge ''estimated decoded bytes'' usize_max (bl_max_decoded_bytes limits))) (\<lambda>amount.
     charge_owned amount limits r)"

definition charge_debug :: "nat \<Rightarrow> blu_limits \<Rightarrow> unit blu_read" where
  "charge_debug n limits r =
     rbind (charge bg_debug_bytes bg_debug_bytes_update n ''total debug bytes'' (bl_max_total_debug_bytes limits) r) (\<lambda>(_, r).
     charge_owned n limits r)"

definition budget_new :: "blu_limits \<Rightarrow> (blu_budget, blu_decode_error) res" where
  "budget_new limits =
     (if bl_max_decoded_bytes limits < DECODED_ARTIFACT_CHARGE
      then Err (BdTooLarge ''estimated decoded bytes'' DECODED_ARTIFACT_CHARGE (bl_max_decoded_bytes limits))
      else Ok \<lparr>bg_registers = 0, bg_constants = 0, bg_constant_bytes = 0, bg_code = 0, bg_children = 0,
        bg_upvalues = 0, bg_debug_entries = 0, bg_debug_bytes = 0, bg_source_map_entries = 0,
        bg_decoded_bytes = DECODED_ARTIFACT_CHARGE\<rparr>)"

definition try_reserve_decode :: "(nat \<Rightarrow> bool) \<Rightarrow> string \<Rightarrow> nat \<Rightarrow> unit blu_read" where
  "try_reserve_decode alloc what requested r =
     rbind (ensure (alloc requested) (BdAllocation what requested)) (\<lambda>_. Ok ((), r))"

definition owned_bytes :: "(nat \<Rightarrow> bool) \<Rightarrow> string \<Rightarrow> bytes \<Rightarrow> bytes blu_read" where
  "owned_bytes alloc what bs r = rbind (try_reserve_decode alloc what (length bs) r) (\<lambda>(_, r). Ok (bs, r))"

definition blu_text :: "(nat \<Rightarrow> bool) \<Rightarrow> string \<Rightarrow> nat \<Rightarrow> blu_limits \<Rightarrow> bytes blu_read" where
  "blu_text alloc what limit limits r =
     (let offset = dc_offset r in
      rbind (blu_sized_bytes what limit r) (\<lambda>(bs, r).
      rbind (ensure (utf8_valid bs) (BdInvalidUtf8 offset what)) (\<lambda>_.
      rbind (charge_owned (length bs) limits r) (\<lambda>(_, r).
      owned_bytes alloc what bs r))))"

section \<open>The parts of a prototype\<close>

definition tag_profile :: "byte \<Rightarrow> semantic_profile option" where
  "tag_profile tag =
     (if tag = 1 then Some Blu else if tag = 2 then Some Luau else if tag = 3 then Some Lua51
      else if tag = 4 then Some Lua52 else if tag = 5 then Some Lua53 else if tag = 6 then Some Lua54
      else if tag = 7 then Some Lua55 else None)"

definition read_profile :: "semantic_profile blu_read" where
  "read_profile r =
     (let offset = dc_offset r in
      rbind (blu_u8 r) (\<lambda>(tag, r).
      rbind (index_at (dc_bytes r) offset) (\<lambda>found.
      rbind (ok_or (tag_profile tag) (BdInvalidTag offset ''semantic profile'' found)) (\<lambda>p. Ok (p, r)))))"

definition read_vararg :: "bool blu_read" where
  "read_vararg r =
     (let offset = dc_offset r in
      rbind (blu_u8 r) (\<lambda>(tag, r).
      if tag = 0 then Ok (False, r) else if tag = 1 then Ok (True, r)
      else Err (BdInvalidTag offset ''vararg'' tag)))"

definition read_reserved :: "string \<Rightarrow> unit blu_read" where
  "read_reserved what r =
     (let offset = dc_offset r in
      rbind (blu_u16 r) (\<lambda>(reserved, r).
      if reserved \<noteq> 0 then Err (BdUnsupportedField offset what (unat reserved)) else Ok ((), r)))"

definition read_register_count :: "blu_limits \<Rightarrow> 16 word blu_read" where
  "read_register_count limits r =
     rbind (blu_u16 r) (\<lambda>(n, r).
     rbind (ensure (unat n \<le> bl_max_registers_per_prototype limits)
              (BdTooLarge ''register count'' (unat n) (bl_max_registers_per_prototype limits))) (\<lambda>_.
     rbind (charge bg_registers bg_registers_update (unat n) ''total register count'' (bl_max_total_registers limits) r) (\<lambda>(_, r).
     Ok (n, r))))"

definition read_lines :: "bool \<Rightarrow> 32 word \<times> 32 word \<Rightarrow> (32 word \<times> 32 word) blu_read" where
  "read_lines present absent r =
     (if present then
        rbind (blu_u32 r) (\<lambda>(line_defined, r).
        rbind (blu_u32 r) (\<lambda>(last_line_defined, r). Ok ((line_defined, last_line_defined), r)))
      else Ok (absent, r))"

definition read_constant :: "(nat \<Rightarrow> bool) \<Rightarrow> blu_limits \<Rightarrow> blu_constant blu_read" where
  "read_constant alloc limits r =
     (let offset = dc_offset r in
      rbind (blu_u8 r) (\<lambda>(tag, r).
      if tag = 0 then Ok (CNil, r)
      else if tag = 1 then Ok (CBoolean False, r)
      else if tag = 2 then Ok (CBoolean True, r)
      else if tag = 3 then rbind (blu_u64 r) (\<lambda>(x, r). Ok (CNumber x, r))
      else if tag = 4 then
        rbind (blu_sized_bytes ''constant bytes'' (bl_max_constant_bytes limits) r) (\<lambda>(bs, r).
        rbind (charge bg_constant_bytes bg_constant_bytes_update (length bs) ''total constant bytes'' (bl_max_total_constant_bytes limits) r) (\<lambda>(_, r).
        rbind (charge_owned (length bs) limits r) (\<lambda>(_, r).
        rbind (owned_bytes alloc ''constant bytes'' bs r) (\<lambda>(bs, r). Ok (CString bs, r)))))
      else if tag = 5 then rbind (blu_i64 r) (\<lambda>(i, r). Ok (CInteger i, r))
      else Err (BdInvalidTag offset ''constant'' tag)))"

definition read_upvalue :: "upvalue blu_read" where
  "read_upvalue r =
     (let offset = dc_offset r in
      rbind (blu_u8 r) (\<lambda>(tag, r).
      rbind (blu_u16 r) (\<lambda>(index, r).
      if tag = 0 then Ok (ParentRegister index, r)
      else if tag = 1 then Ok (ParentUpvalue index, r)
      else Err (BdInvalidTag offset ''upvalue'' tag))))"

text \<open>The operands of an instruction, in the order they are written.\<close>

definition regs1 :: "(16 word \<Rightarrow> bi) \<Rightarrow> bi blu_read" where
  "regs1 f r = rbind (blu_u16 r) (\<lambda>(a, r). Ok (f a, r))"

definition regs2 :: "(16 word \<Rightarrow> 16 word \<Rightarrow> bi) \<Rightarrow> bi blu_read" where
  "regs2 f r = rbind (blu_u16 r) (\<lambda>(a, r). regs1 (f a) r)"

definition regs3 :: "(16 word \<Rightarrow> 16 word \<Rightarrow> 16 word \<Rightarrow> bi) \<Rightarrow> bi blu_read" where
  "regs3 f r = rbind (blu_u16 r) (\<lambda>(a, r). regs2 (f a) r)"

definition regs4 :: "(16 word \<Rightarrow> 16 word \<Rightarrow> 16 word \<Rightarrow> 16 word \<Rightarrow> bi) \<Rightarrow> bi blu_read" where
  "regs4 f r = rbind (blu_u16 r) (\<lambda>(a, r). regs3 (f a) r)"

definition regs5 :: "(16 word \<Rightarrow> 16 word \<Rightarrow> 16 word \<Rightarrow> 16 word \<Rightarrow> 16 word \<Rightarrow> bi) \<Rightarrow> bi blu_read" where
  "regs5 f r = rbind (blu_u16 r) (\<lambda>(a, r). regs4 (f a) r)"

definition wide :: "(32 word \<Rightarrow> bi) \<Rightarrow> bi blu_read" where
  "wide f r = rbind (blu_u32 r) (\<lambda>(a, r). Ok (f a, r))"

definition reg_wide :: "(16 word \<Rightarrow> 32 word \<Rightarrow> bi) \<Rightarrow> bi blu_read" where
  "reg_wide f r = rbind (blu_u16 r) (\<lambda>(a, r). wide (f a) r)"

definition wide_reg :: "(32 word \<Rightarrow> 16 word \<Rightarrow> bi) \<Rightarrow> bi blu_read" where
  "wide_reg f r = rbind (blu_u32 r) (\<lambda>(a, r). regs1 (f a) r)"

definition set_list :: "bi_tail \<Rightarrow> bi blu_read" where
  "set_list tail r =
     rbind (blu_u16 r) (\<lambda>(table, r).
     rbind (blu_u32 r) (\<lambda>(start, r). regs3 (BiSetListCall tail table start) r))"

definition instruction_readers :: "(byte \<times> bi blu_read) list" where
  "instruction_readers =
     [(0, reg_wide BiLoadConstant), (1, regs3 (BiBinary BiAdd)), (2, regs2 BiReturn),
      (3, regs3 (BiBinary BiFloorDivide)), (4, regs2 (BiUnary BiMove)), (5, regs2 (BiUnary BiNot)),
      (6, regs3 (BiBinary BiSubtract)), (7, regs3 (BiBinary BiMultiply)), (8, regs3 (BiBinary BiDivide)),
      (9, regs2 (BiUnary BiNegate)), (10, regs3 (BiBinary BiModulo)), (11, regs3 (BiBinary BiPower)),
      (12, regs2 (BiUnary BiLength)), (13, regs3 (BiBinary BiConcatenate)), (14, regs3 (BiBinary BiEqual)),
      (15, regs3 (BiBinary BiLessThan)), (16, regs3 (BiBinary BiLessEqual)), (17, reg_wide (BiJumpIf True)),
      (18, reg_wide (BiJumpIf False)), (19, wide BiJump), (20, reg_wide BiLoadGlobal),
      (21, wide_reg BiStoreGlobal), (22, regs1 BiNewTable), (23, regs3 BiGetTable), (24, regs3 BiSetTable),
      (25, regs4 BiCall), (26, regs2 BiNewClosure), (27, regs2 BiGetUpvalue), (28, regs2 BiSetUpvalue),
      (53, regs1 BiCloseUpvalues), (29, regs5 (BiCallResults Fixed)), (30, regs3 (BiReturnCall Fixed)),
      (31, regs5 (BiReturnCallPrefix Fixed)), (32, regs2 BiVarargs), (33, regs2 BiReturnVarargs),
      (34, regs5 (BiCallResults WithVarargs)), (35, regs3 (BiReturnCall WithVarargs)),
      (36, regs5 (BiReturnCallPrefix WithVarargs)), (37, reg_wide BiSetListVarargs),
      (38, set_list Fixed), (39, set_list WithVarargs), (40, regs3 (BiBinary BiBitwiseAnd)),
      (41, regs3 (BiBinary BiBitwiseOr)), (42, regs3 (BiBinary BiBitwiseExclusiveOr)),
      (43, regs3 (BiBinary BiShiftLeft)), (44, regs3 (BiBinary BiShiftRight)), (45, regs2 (BiUnary BiBitwiseNot)),
      (46, regs3 (BiCallAllResults Fixed)), (47, regs3 (BiCallAllResults WithVarargs)),
      (48, regs5 (BiCallResults WithDynamic)), (49, regs3 (BiReturnCall WithDynamic)),
      (50, regs5 (BiReturnCallPrefix WithDynamic)), (51, regs3 (BiCallAllResults WithDynamic)),
      (52, set_list WithDynamic), (54, \<lambda>r. Ok (BiReturnDynamic, r)), (55, regs2 BiReturnDynamicPrefix)]"

definition read_instruction :: "bi blu_read" where
  "read_instruction r =
     (let offset = dc_offset r in
      rbind (blu_u8 r) (\<lambda>(tag, r).
      case map_of instruction_readers tag of
        Some p \<Rightarrow> p r
      | None \<Rightarrow> Err (BdInvalidTag offset ''instruction'' tag)))"

definition read_span :: "byte_span blu_read" where
  "read_span r =
     rbind (blu_u32 r) (\<lambda>(source, r).
     let offset = dc_offset r in
     rbind (blu_u32 r) (\<lambda>(start, r).
     rbind (blu_u32 r) (\<lambda>(stop, r).
     rbind (map_err (\<lambda>_. BdInvalidSpan offset start stop) (span_new source start stop)) (\<lambda>s. Ok (s, r)))))"

text \<open>A debug entry: a name and three numbers.\<close>

definition read_debug ::
  "(nat \<Rightarrow> bool) \<Rightarrow> blu_limits \<Rightarrow> string \<Rightarrow> (bytes \<Rightarrow> 16 word \<Rightarrow> 32 word \<Rightarrow> 32 word \<Rightarrow> 'a) \<Rightarrow> 'a blu_read" where
  "read_debug alloc limits what f r =
     rbind (blu_sized_bytes what (bl_max_debug_name_bytes limits) r) (\<lambda>(name, r).
     rbind (charge_debug (length name) limits r) (\<lambda>(_, r).
     rbind (owned_bytes alloc what name r) (\<lambda>(name, r).
     rbind (blu_u16 r) (\<lambda>(index, r).
     rbind (blu_u32 r) (\<lambda>(start, r).
     rbind (blu_u32 r) (\<lambda>(stop, r). Ok (f name index start stop, r)))))))"

definition read_local :: "(nat \<Rightarrow> bool) \<Rightarrow> blu_limits \<Rightarrow> local_debug blu_read" where
  "read_local alloc limits =
     read_debug alloc limits ''local name''
       (\<lambda>name register start stop. \<lparr>ld_name = name, ld_register = register, ld_start_pc = start, ld_end_pc = stop\<rparr>)"

definition read_upvalue_debug :: "(nat \<Rightarrow> bool) \<Rightarrow> blu_limits \<Rightarrow> upvalue_debug blu_read" where
  "read_upvalue_debug alloc limits =
     read_debug alloc limits ''upvalue name''
       (\<lambda>name index start stop. \<lparr>ud_name = name, ud_upvalue = index, ud_start_pc = start, ud_end_pc = stop\<rparr>)"

text \<open>A counted list: the count, its charges, the reservation and the elements.\<close>

definition read_counted ::
  "(nat \<Rightarrow> bool) \<Rightarrow> string \<Rightarrow> string \<Rightarrow> nat \<Rightarrow> nat \<Rightarrow> (nat \<Rightarrow> unit blu_read) \<Rightarrow> 'a blu_read \<Rightarrow> 'a list blu_read" where
  "read_counted alloc what items limit minimum_width charges p r =
     rbind (blu_count what limit minimum_width r) (\<lambda>(n, r).
     rbind (charges n r) (\<lambda>(_, r).
     rbind (try_reserve_decode alloc items n r) (\<lambda>(_, r).
     read_n n p r)))"

definition charge_both ::
  "(blu_budget \<Rightarrow> nat) \<Rightarrow> ((nat \<Rightarrow> nat) \<Rightarrow> blu_budget \<Rightarrow> blu_budget) \<Rightarrow> string \<Rightarrow> nat \<Rightarrow> nat \<Rightarrow> blu_limits \<Rightarrow>
     nat \<Rightarrow> unit blu_read" where
  "charge_both sel upd what limit width limits n r =
     rbind (charge sel upd n what limit r) (\<lambda>(_, r). charge_fixed n width limits r)"

definition charge_line_info :: "nat \<Rightarrow> blu_limits \<Rightarrow> nat \<Rightarrow> unit blu_read" where
  "charge_line_info code_len limits n r =
     (if n \<noteq> code_len then Err (BdInvalidMetadata ''line info count does not equal instruction count'')
      else charge_fixed n (DECODED_SOURCE_MAP_CHARGE div 3) limits r)"

definition read_prototype ::
  "(nat \<Rightarrow> bool) \<Rightarrow> blu_limits \<Rightarrow> blu_format \<Rightarrow> blu_prototype blu_read" where
  "read_prototype alloc limits format r =
     rbind (read_profile r) (\<lambda>(profile, r).
     rbind (read_vararg r) (\<lambda>(is_vararg, r).
     rbind (read_reserved ''prototype flags'' r) (\<lambda>(_, r).
     rbind (blu_u32 r) (\<lambda>(source, r).
     rbind (read_register_count limits r) (\<lambda>(register_count, r).
     rbind (blu_u16 r) (\<lambda>(parameter_count, r).
     rbind (read_lines (format = BluV2) (0, 0) r) (\<lambda>(lines, r).
     rbind (blu_u64 r) (\<lambda>(features, r).
     rbind (read_lines (format = BluV1 \<and> features_contain features STRIPPED_DEBUG_LINES) lines r) (\<lambda>(lines, r).
     rbind (read_counted alloc ''constant count'' ''constants'' (bl_max_constants_per_prototype limits) 1
       (charge_both bg_constants bg_constants_update ''total constant count'' (bl_max_total_constants limits) DECODED_CONSTANT_CHARGE limits)
       (read_constant alloc limits) r) (\<lambda>(constants, r).
     rbind (read_counted alloc ''upvalue count'' ''upvalues'' (bl_max_upvalues_per_prototype limits) 3
       (charge_both bg_upvalues bg_upvalues_update ''total upvalue count'' (bl_max_total_upvalues limits) DECODED_UPVALUE_CHARGE limits)
       read_upvalue r) (\<lambda>(upvalues, r).
     rbind (read_counted alloc ''child count'' ''children'' (bl_max_children_per_prototype limits) 4
       (charge_both bg_children bg_children_update ''total child count'' (bl_max_total_children limits) DECODED_CHILD_CHARGE limits)
       blu_u32 r) (\<lambda>(children, r).
     rbind (read_counted alloc ''instruction count'' ''instructions'' (bl_max_code_per_prototype limits) 3
       (charge_both bg_code bg_code_update ''total instruction count'' (bl_max_total_code limits) DECODED_INSTRUCTION_CHARGE limits)
       read_instruction r) (\<lambda>(code, r).
     rbind (read_counted alloc ''source map count'' ''source map'' (bl_max_code_per_prototype limits) 12
       (charge_both bg_source_map_entries bg_source_map_entries_update ''total source map entry count''
          (bl_max_total_source_map_entries limits) DECODED_SOURCE_MAP_CHARGE limits)
       read_span r) (\<lambda>(source_map, r).
     rbind (if format = BluV2
            then read_counted alloc ''line info count'' ''line info'' (bl_max_code_per_prototype limits) 4
              (charge_line_info (length code) limits) blu_u32 r
            else Ok ([], r)) (\<lambda>(line_info, r).
     rbind (read_counted alloc ''local debug count'' ''local debug entries'' (bl_max_debug_entries_per_prototype limits) 14
       (charge_both bg_debug_entries bg_debug_entries_update ''total debug entry count'' (bl_max_total_debug_entries limits)
          DECODED_LOCAL_DEBUG_CHARGE limits)
       (read_local alloc limits) r) (\<lambda>(locals, r).
     rbind (read_counted alloc ''upvalue debug count'' ''upvalue debug entries'' (bl_max_debug_entries_per_prototype limits) 14
       (charge_both bg_debug_entries bg_debug_entries_update ''total debug entry count'' (bl_max_total_debug_entries limits)
          DECODED_UPVALUE_DEBUG_CHARGE limits)
       (read_upvalue_debug alloc limits) r) (\<lambda>(upvalue_debug, r).
     Ok (\<lparr>bp_profile = profile, bp_source = source, bp_register_count = register_count,
          bp_parameter_count = parameter_count, bp_is_vararg = is_vararg, bp_line_defined = fst lines,
          bp_last_line_defined = snd lines, bp_required_features = features, bp_constants = constants,
          bp_upvalues = upvalues, bp_children = children, bp_code = code, bp_source_map = source_map,
          bp_line_info = line_info, bp_locals = locals, bp_upvalue_debug = upvalue_debug\<rparr>, r))))))))))))))))))"

section \<open>The artifact\<close>

definition read_compiler :: "(nat \<Rightarrow> bool) \<Rightarrow> blu_limits \<Rightarrow> compiler_identity blu_read" where
  "read_compiler alloc limits r =
     rbind (blu_array 16 r) (\<lambda>(compiler_id, r).
     let start = dc_offset r; identity = bl_identity limits in
     rbind (blu_text alloc ''compiler name'' (max_compiler_name_bytes identity) limits r) (\<lambda>(name, r).
     rbind (blu_text alloc ''compiler version'' (max_compiler_version_bytes identity) limits r) (\<lambda>(version, r).
     let revision_offset = dc_offset r in
     rbind (blu_u8 r) (\<lambda>(tag, r).
     rbind (if tag = 0 then Ok (None, r)
            else if tag = 1 then
              rbind (blu_text alloc ''compiler revision'' (max_compiler_revision_bytes identity) limits r) (\<lambda>(revision, r).
              Ok (Some revision, r))
            else Err (BdInvalidTag revision_offset ''compiler revision presence'' tag)) (\<lambda>(revision, r).
     rbind (map_err (\<lambda>_. BdInvalidIdentity start ''compiler identity'')
              (compiler_identity_new compiler_id name version revision identity)) (\<lambda>c. Ok (c, r)))))))"

definition read_source :: "(nat \<Rightarrow> bool) \<Rightarrow> blu_limits \<Rightarrow> source_record blu_read" where
  "read_source alloc limits r =
     rbind (blu_u32 r) (\<lambda>(i, r).
     let name_offset = dc_offset r in
     rbind (blu_text alloc ''source name'' (max_source_name_bytes (bl_identity limits)) limits r) (\<lambda>(name, r).
     rbind (map_err (\<lambda>_. BdInvalidIdentity name_offset ''source identity'')
              (source_identity_new i name (bl_identity limits))) (\<lambda>identity.
     rbind (blu_u32 r) (\<lambda>(byte_len, r).
     rbind (blu_array 32 r) (\<lambda>(digest, r).
     Ok (\<lparr>sr_identity = identity, sr_byte_len = byte_len, sr_digest = digest\<rparr>, r))))))"

definition read_format :: "blu_format blu_read" where
  "read_format r =
     rbind (blu_array 4 r) (\<lambda>(magic, r).
     if magic \<noteq> BLU_MAGIC then Err (BdInvalidMagic magic)
     else
       rbind (blu_u16 r) (\<lambda>(version, r).
       if version = BLU_V1_VERSION then Ok (BluV1, r)
       else if version = BLU_V2_VERSION then Ok (BluV2, r)
       else Err (BdUnsupportedVersion version)))"

definition read_artifact :: "(nat \<Rightarrow> bool) \<Rightarrow> blu_limits \<Rightarrow> artifact blu_read" where
  "read_artifact alloc limits r =
     rbind (read_format r) (\<lambda>(format, r).
     rbind (read_reserved ''header flags'' r) (\<lambda>(_, r).
     rbind (read_compiler alloc limits r) (\<lambda>(compiler, r).
     rbind (read_counted alloc ''source count'' ''sources'' (bl_max_sources limits) 44
              (\<lambda>n. charge_fixed n DECODED_SOURCE_CHARGE limits) (read_source alloc limits) r) (\<lambda>(sources, r).
     rbind (count_with_extra ''prototype count'' (bl_max_prototypes limits) 48 4 r) (\<lambda>(prototype_count, r).
     rbind (blu_u32 r) (\<lambda>(main, r).
     rbind (charge_fixed prototype_count DECODED_PROTOTYPE_CHARGE limits r) (\<lambda>(_, r).
     rbind (try_reserve_decode alloc ''prototypes'' prototype_count r) (\<lambda>(_, r).
     rbind (read_n prototype_count (read_prototype alloc limits format) r) (\<lambda>(prototypes, r).
     Ok (\<lparr>ar_format = format, ar_compiler = compiler, ar_sources = sources, ar_prototypes = prototypes,
          ar_main = main\<rparr>, r))))))))))"

definition blu_decode :: "(nat \<Rightarrow> bool) \<Rightarrow> bytes \<Rightarrow> blu_limits \<Rightarrow> (artifact, blu_decode_error) res" where
  "blu_decode alloc bs limits =
     (if bl_max_bytes limits < length bs then Err (BdTooLarge ''artifact bytes'' (length bs) (bl_max_bytes limits))
      else
        rbind (budget_new limits) (\<lambda>budget.
        rbind (read_artifact alloc limits \<lparr>dc_bytes = bs, dc_offset = 0, dc_budget = budget\<rparr>) (\<lambda>(a, r).
        if dc_offset r \<noteq> length bs then
          rbind (plain_sub (length bs) (dc_offset r)) (\<lambda>n. Err (BdTrailingBytes n))
        else Ok a)))"

end
