(* ===== verification/Blu_Validate.thy ===== *)
theory Blu_Validate
  imports Blu_Flow Blu_Decode "HOL-Library.AList"
begin

text \<open>
  The validator of \<open>blu-bytecode/src/blu.rs\<close>: aggregate limits, the checks of one prototype with the
  linear pass that follows which registers are initialized, the prototype tree, and \<open>encode\<close> and
  \<open>decode_validated\<close>, which validate. A \<open>HashMap\<close> is an association list with distinct keys.
\<close>

section \<open>Limits\<close>

definition bv_check_limit :: "string \<Rightarrow> nat \<Rightarrow> nat \<Rightarrow> (unit, blu_validation_error) res" where
  "bv_check_limit what actual limit = ensure (actual \<le> limit) (BvLimit what actual limit)"

definition check_wire_len :: "string \<Rightarrow> nat \<Rightarrow> (unit, blu_validation_error) res" where
  "check_wire_len what n = ensure (n \<le> u32_max) (BvUnrepresentable what n)"

definition add_validation_total :: "nat \<Rightarrow> nat \<Rightarrow> string \<Rightarrow> nat \<Rightarrow> (nat, blu_validation_error) res" where
  "add_validation_total so_far amount what limit =
     rbind (ok_or (checked_add so_far amount) (BvLimit what usize_max limit)) (\<lambda>n.
     rbind (bv_check_limit what n limit) (\<lambda>_. Ok n))"

text \<open>The totals, in the record the decoder keeps of the same quantities.\<close>

definition tally ::
  "(blu_budget \<Rightarrow> nat) \<Rightarrow> ((nat \<Rightarrow> nat) \<Rightarrow> blu_budget \<Rightarrow> blu_budget) \<Rightarrow> nat \<Rightarrow> string \<Rightarrow> nat \<Rightarrow> blu_budget \<Rightarrow>
     (blu_budget, blu_validation_error) res" where
  "tally sel upd amount what limit b =
     rbind (add_validation_total (sel b) amount what limit) (\<lambda>n. Ok (upd (\<lambda>_. n) b))"

definition tally_decoded :: "nat \<Rightarrow> blu_limits \<Rightarrow> blu_budget \<Rightarrow> (blu_budget, blu_validation_error) res" where
  "tally_decoded amount limits =
     tally bg_decoded_bytes bg_decoded_bytes_update amount ''estimated decoded bytes'' (bl_max_decoded_bytes limits)"

definition add_validation_product :: "nat \<Rightarrow> nat \<Rightarrow> blu_limits \<Rightarrow> blu_budget \<Rightarrow> (blu_budget, blu_validation_error) res" where
  "add_validation_product count width limits b =
     rbind (ok_or (checked_mul count width) (BvLimit ''estimated decoded bytes'' usize_max (bl_max_decoded_bytes limits))) (\<lambda>amount.
     tally_decoded amount limits b)"

definition prototype_totals :: "blu_limits \<Rightarrow> blu_budget \<Rightarrow> blu_prototype \<Rightarrow> (blu_budget, blu_validation_error) res" where
  "prototype_totals limits b p =
     rbind (tally bg_registers bg_registers_update (unat (bp_register_count p)) ''total register count'' (bl_max_total_registers limits) b) (\<lambda>b.
     rbind (tally bg_constants bg_constants_update (length (bp_constants p)) ''total constant count'' (bl_max_total_constants limits) b) (\<lambda>b.
     rbind (tally bg_code bg_code_update (length (bp_code p)) ''total instruction count'' (bl_max_total_code limits) b) (\<lambda>b.
     rbind (tally bg_children bg_children_update (length (bp_children p)) ''total child count'' (bl_max_total_children limits) b) (\<lambda>b.
     rbind (tally bg_upvalues bg_upvalues_update (length (bp_upvalues p)) ''total upvalue count'' (bl_max_total_upvalues limits) b) (\<lambda>b.
     rbind (tally bg_debug_entries bg_debug_entries_update (length (bp_locals p)) ''total debug entry count'' (bl_max_total_debug_entries limits) b) (\<lambda>b.
     rbind (tally bg_debug_entries bg_debug_entries_update (length (bp_upvalue_debug p)) ''total debug entry count'' (bl_max_total_debug_entries limits) b) (\<lambda>b.
     rbind (tally bg_source_map_entries bg_source_map_entries_update (length (bp_source_map p)) ''total source map entry count'' (bl_max_total_source_map_entries limits) b) (\<lambda>b.
     fold_res (\<lambda>b (count, width). add_validation_product count width limits b) b
       [(length (bp_constants p), DECODED_CONSTANT_CHARGE), (length (bp_code p), DECODED_INSTRUCTION_CHARGE),
        (length (bp_children p), DECODED_CHILD_CHARGE), (length (bp_upvalues p), DECODED_UPVALUE_CHARGE),
        (length (bp_source_map p), DECODED_SOURCE_MAP_CHARGE), (length (bp_locals p), DECODED_LOCAL_DEBUG_CHARGE),
        (length (bp_upvalue_debug p), DECODED_UPVALUE_DEBUG_CHARGE)]))))))))"

definition constant_totals :: "blu_limits \<Rightarrow> blu_budget \<Rightarrow> blu_constant \<Rightarrow> (blu_budget, blu_validation_error) res" where
  "constant_totals limits b c =
     (case c of
        CString bs \<Rightarrow>
          rbind (tally bg_constant_bytes bg_constant_bytes_update (length bs) ''total constant bytes'' (bl_max_total_constant_bytes limits) b) (\<lambda>b.
          tally_decoded (length bs) limits b)
      | _ \<Rightarrow> Ok b)"

definition name_totals :: "blu_limits \<Rightarrow> blu_budget \<Rightarrow> bytes \<Rightarrow> (blu_budget, blu_validation_error) res" where
  "name_totals limits b name =
     rbind (tally bg_debug_bytes bg_debug_bytes_update (length name) ''total debug bytes'' (bl_max_total_debug_bytes limits) b) (\<lambda>b.
     tally_decoded (length name) limits b)"

definition debug_names :: "blu_prototype \<Rightarrow> bytes list" where
  "debug_names p = map ld_name (bp_locals p) @ map ud_name (bp_upvalue_debug p)"

definition no_totals :: blu_budget where
  "no_totals = \<lparr>bg_registers = 0, bg_constants = 0, bg_constant_bytes = 0, bg_code = 0, bg_children = 0,
     bg_upvalues = 0, bg_debug_entries = 0, bg_debug_bytes = 0, bg_source_map_entries = 0,
     bg_decoded_bytes = DECODED_ARTIFACT_CHARGE\<rparr>"

definition validate_aggregate_limits :: "artifact \<Rightarrow> blu_limits \<Rightarrow> (unit, blu_validation_error) res" where
  "validate_aggregate_limits a limits =
     (let ps = ar_prototypes a; c = ar_compiler a in
      rbind (add_validation_product (length (ar_sources a)) DECODED_SOURCE_CHARGE limits no_totals) (\<lambda>b.
      rbind (add_validation_product (length ps) DECODED_PROTOTYPE_CHARGE limits b) (\<lambda>b.
      rbind (fold_res (\<lambda>b n. tally_decoded n limits b) b
               [length (ci_name c), length (ci_version c), (case ci_revision c of None \<Rightarrow> 0 | Some r \<Rightarrow> length r)]) (\<lambda>b.
      rbind (fold_res (\<lambda>b s. tally_decoded (length (si_name (sr_identity s))) limits b) b (ar_sources a)) (\<lambda>b.
      rbind (fold_res (prototype_totals limits) b ps) (\<lambda>b.
      rbind (fold_res (constant_totals limits) b (concat (map bp_constants ps))) (\<lambda>b.
      rbind (fold_res (name_totals limits) b (concat (map debug_names ps))) (\<lambda>b.
      bv_check_limit ''estimated decoded bytes'' (bg_decoded_bytes b) (bl_max_decoded_bytes limits)))))))))"

section \<open>Registers\<close>

definition bv_check_register :: "nat \<Rightarrow> nat \<Rightarrow> reg \<Rightarrow> nat \<Rightarrow> (unit, blu_validation_error) res" where
  "bv_check_register prototype pc register count =
     (if count \<le> unat register then Err (BvInvalidInstruction prototype pc ''register is out of bounds'') else Ok ())"

definition check_read :: "nat \<Rightarrow> nat \<Rightarrow> reg \<Rightarrow> bool list \<Rightarrow> (unit, blu_validation_error) res" where
  "check_read prototype pc register initialized =
     rbind (bv_check_register prototype pc register (length initialized)) (\<lambda>_.
     rbind (index_at initialized (unat register)) (\<lambda>set.
     if set then Ok () else Err (BvInvalidInstruction prototype pc ''register is read before initialization'')))"

definition fill_range :: "nat \<Rightarrow> nat \<Rightarrow> bool list \<Rightarrow> (bool list, 'e) res" where
  "fill_range start stop xs =
     (if start \<le> stop \<and> stop \<le> length xs
      then Ok (take start xs @ replicate (stop - start) True @ drop stop xs) else Panic)"

section \<open>The linear pass\<close>

text \<open>What the pass knows of the prototype, and its state.\<close>

record pass =
  ps_alloc :: "nat \<Rightarrow> bool"
  ps_index :: nat
  ps_prototype :: blu_prototype
  ps_prototypes :: "blu_prototype list"
  ps_limits :: blu_limits
  ps_registers :: nat
  ps_backward :: "bool list"
  ps_captures :: "reg list list"

record pass_state =
  st_initialized :: "bool list"
  st_incoming :: "(nat \<times> bool list) list"
  st_backward :: "(nat \<times> bool list) list"
  st_reachable :: bool

definition invalid :: "pass \<Rightarrow> nat \<Rightarrow> string \<Rightarrow> blu_validation_error" where
  "invalid c pc what = BvInvalidInstruction (ps_index c) pc what"

definition code_of :: "pass \<Rightarrow> bi list" where
  "code_of c = bp_code (ps_prototype c)"

definition reads_register :: "pass \<Rightarrow> pass_state \<Rightarrow> nat \<Rightarrow> reg \<Rightarrow> (unit, blu_validation_error) res" where
  "reads_register c s pc r = check_read (ps_index c) pc r (st_initialized s)"

definition names_register :: "pass \<Rightarrow> nat \<Rightarrow> reg \<Rightarrow> (unit, blu_validation_error) res" where
  "names_register c pc r = bv_check_register (ps_index c) pc r (ps_registers c)"

definition writes_register :: "pass_state \<Rightarrow> reg \<Rightarrow> (pass_state, blu_validation_error) res" where
  "writes_register s r =
     rbind (set_at (st_initialized s) (unat r) True) (\<lambda>initialized. Ok (s\<lparr>st_initialized := initialized\<rparr>))"

text \<open>The end of a range of registers, with the messages of its two checks.\<close>

definition range_end :: "pass \<Rightarrow> nat \<Rightarrow> reg \<Rightarrow> 16 word \<Rightarrow> string \<Rightarrow> (nat, blu_validation_error) res" where
  "range_end c pc start count what =
     rbind (ok_or (checked_add (unat start) (unat count)) (invalid c pc (what @ '' register range overflows''))) (\<lambda>stop.
     rbind (ensure (stop \<le> ps_registers c) (invalid c pc (what @ '' register range is invalid''))) (\<lambda>_. Ok stop))"

definition reads_range :: "pass \<Rightarrow> pass_state \<Rightarrow> nat \<Rightarrow> reg \<Rightarrow> 16 word \<Rightarrow> string \<Rightarrow> (unit, blu_validation_error) res" where
  "reads_range c s pc start count what =
     rbind (range_end c pc start count what) (\<lambda>stop.
     each (\<lambda>r. reads_register c s pc (word_of_nat r)) [unat start ..< stop])"

text \<open>\<open>first..first + count\<close> over \<open>u16\<close>, whose addition may overflow.\<close>

definition reads_returned :: "pass \<Rightarrow> pass_state \<Rightarrow> nat \<Rightarrow> reg \<Rightarrow> 16 word \<Rightarrow> string \<Rightarrow> (unit, blu_validation_error) res" where
  "reads_returned c s pc start count what =
     rbind (range_end c pc start count what) (\<lambda>_.
     if unat start + unat count < 2 ^ 16
     then each (\<lambda>r. reads_register c s pc (word_of_nat r)) [unat start ..< unat start + unat count]
     else Panic)"

definition writes_range :: "pass \<Rightarrow> pass_state \<Rightarrow> nat \<Rightarrow> reg \<Rightarrow> 16 word \<Rightarrow> string \<Rightarrow> (pass_state, blu_validation_error) res" where
  "writes_range c s pc start count what =
     rbind (range_end c pc start count what) (\<lambda>stop.
     rbind (fill_range (unat start) stop (st_initialized s)) (\<lambda>initialized.
     Ok (s\<lparr>st_initialized := initialized\<rparr>)))"

definition is_string_constant :: "blu_prototype \<Rightarrow> nat \<Rightarrow> bool" where
  "is_string_constant p n = (case get (bp_constants p) n of Some (CString _) \<Rightarrow> True | _ \<Rightarrow> False)"

definition bad_reference :: "pass \<Rightarrow> string \<Rightarrow> nat \<Rightarrow> nat \<Rightarrow> blu_validation_error" where
  "bad_reference c what index count = BvInvalidReference (Some (ps_index c)) what index count"

definition global_name :: "pass \<Rightarrow> 32 word \<Rightarrow> (unit, blu_validation_error) res" where
  "global_name c name =
     ensure (is_string_constant (ps_prototype c) (unat name))
       (bad_reference c ''global name string constant'' (unat name) (length (bp_constants (ps_prototype c))))"

definition names_upvalue :: "pass \<Rightarrow> string \<Rightarrow> 16 word \<Rightarrow> (unit, blu_validation_error) res" where
  "names_upvalue c what u =
     ensure (unat u < length (bp_upvalues (ps_prototype c)))
       (bad_reference c what (unat u) (length (bp_upvalues (ps_prototype c))))"

fun reads_capture :: "pass \<Rightarrow> pass_state \<Rightarrow> nat \<Rightarrow> upvalue \<Rightarrow> (unit, blu_validation_error) res" where
  "reads_capture c s pc (ParentRegister r) = reads_register c s pc r"
| "reads_capture c s pc (ParentUpvalue u) = names_upvalue c ''parent upvalue'' u"

text \<open>The state on entry to a later instruction, from a jump.\<close>

definition state_bytes :: "pass \<Rightarrow> nat \<Rightarrow> string \<Rightarrow> (unit, blu_validation_error) res" where
  "state_bytes c entries what =
     (let limit = bl_max_decoded_bytes (ps_limits c) in
      rbind (ok_or (Option.bind (checked_add entries 1) (\<lambda>n. checked_mul n (ps_registers c))) (BvLimit what usize_max limit)) (\<lambda>n.
      bv_check_limit what n limit))"

definition add_branch :: "pass \<Rightarrow> pass_state \<Rightarrow> nat \<Rightarrow> (pass_state, blu_validation_error) res" where
  "add_branch c s target =
     (let incoming = st_incoming s in
      case map_of incoming target of
        Some state \<Rightarrow> Ok (s\<lparr>st_incoming := AList.update target (merge_states state (st_initialized s)) incoming\<rparr>)
      | None \<Rightarrow>
          rbind (state_bytes c (length incoming) ''branch validation state bytes'') (\<lambda>_.
          rbind (ensure (ps_alloc c (length incoming + 1)) (BvAllocation ''branch validation targets'' (saturating_add (length incoming) 1))) (\<lambda>_.
          rbind (try_reserve_validation (ps_alloc c) ''branch register initialization'' (ps_registers c)) (\<lambda>_.
          Ok (s\<lparr>st_incoming := AList.update target (st_initialized s) incoming\<rparr>)))))"

definition ends_path :: "pass_state \<Rightarrow> pass_state" where
  "ends_path s = s\<lparr>st_reachable := False\<rparr>"

definition backward_jump :: "pass \<Rightarrow> pass_state \<Rightarrow> nat \<Rightarrow> nat \<Rightarrow> (pass_state, blu_validation_error) res" where
  "backward_jump c s pc target =
     (case map_of (st_backward s) target of
        None \<Rightarrow> Err (invalid c pc ''backward branch target state is unavailable'')
      | Some target_state \<Rightarrow>
          rbind (backward_branch_requirements (code_of c) target (ps_registers c) (ps_captures c)) (\<lambda>required.
          if list_ex (\<lambda>((target_initialized, current), required). required \<and> target_initialized \<and> \<not> current)
               (zip (zip target_state (st_initialized s)) required)
          then Err (invalid c pc ''backward branch loses initialized registers'')
          else Ok (ends_path s)))"

definition is_producer :: "bi \<Rightarrow> bool" where
  "is_producer i = (case i of BiCallAllResults _ _ _ _ \<Rightarrow> True | _ \<Rightarrow> False)"

definition is_consumer :: "bi \<Rightarrow> bool" where
  "is_consumer i =
     (case i of
        BiCallResults tail _ _ _ _ _ \<Rightarrow> tail = WithDynamic
      | BiCallAllResults tail _ _ _ \<Rightarrow> tail = WithDynamic
      | BiReturnDynamic \<Rightarrow> True
      | BiReturnDynamicPrefix _ _ \<Rightarrow> True
      | BiReturnCall tail _ _ _ \<Rightarrow> tail = WithDynamic
      | BiReturnCallPrefix tail _ _ _ _ _ \<Rightarrow> tail = WithDynamic
      | BiSetListCall tail _ _ _ _ _ \<Rightarrow> tail = WithDynamic
      | _ \<Rightarrow> False)"

definition some_is :: "('a \<Rightarrow> bool) \<Rightarrow> 'a option \<Rightarrow> bool" where
  "some_is p x = (case x of Some v \<Rightarrow> p v | None \<Rightarrow> False)"

fun pass_arm :: "pass \<Rightarrow> pass_state \<Rightarrow> nat \<Rightarrow> bi \<Rightarrow> (pass_state, blu_validation_error) res" where
  "pass_arm c s pc (BiLoadConstant d k) =
     rbind (names_register c pc d) (\<lambda>_.
     rbind (ensure (unat k < length (bp_constants (ps_prototype c)))
              (bad_reference c ''constant'' (unat k) (length (bp_constants (ps_prototype c))))) (\<lambda>_.
     writes_register s d))"
| "pass_arm c s pc (BiLoadGlobal d name) =
     rbind (names_register c pc d) (\<lambda>_. rbind (global_name c name) (\<lambda>_. writes_register s d))"
| "pass_arm c s pc (BiStoreGlobal name source) =
     rbind (reads_register c s pc source) (\<lambda>_. rbind (global_name c name) (\<lambda>_. Ok s))"
| "pass_arm c s pc (BiNewTable d) = rbind (names_register c pc d) (\<lambda>_. writes_register s d)"
| "pass_arm c s pc (BiGetTable d t k) =
     rbind (names_register c pc d) (\<lambda>_. rbind (reads_register c s pc t) (\<lambda>_. rbind (reads_register c s pc k) (\<lambda>_.
     writes_register s d)))"
| "pass_arm c s pc (BiSetTable t k v) =
     rbind (reads_register c s pc t) (\<lambda>_. rbind (reads_register c s pc k) (\<lambda>_. rbind (reads_register c s pc v) (\<lambda>_. Ok s)))"
| "pass_arm c s pc (BiSetListVarargs t start) =
     rbind (reads_register c s pc t) (\<lambda>_.
     rbind (ensure (\<not> (start = 0 \<and> bp_profile (ps_prototype c) \<notin> {Blu, Lua55}))
              (invalid c pc ''vararg table-list start must be positive'')) (\<lambda>_. Ok s))"
| "pass_arm c s pc (BiSetListCall tail t start f a n) =
     rbind (reads_register c s pc t) (\<lambda>_.
     rbind (reads_register c s pc f) (\<lambda>_.
     rbind (ensure (start \<noteq> 0) (invalid c pc ''call table-list start must be positive'')) (\<lambda>_.
     rbind (reads_range c s pc a n ''call table-list argument'') (\<lambda>_. Ok s))))"
| "pass_arm c s pc (BiCall d f a n) =
     rbind (names_register c pc d) (\<lambda>_.
     rbind (reads_register c s pc f) (\<lambda>_.
     rbind (reads_range c s pc a n ''call argument'') (\<lambda>_. writes_register s d)))"
| "pass_arm c s pc (BiCallResults tail d f a n r) =
     rbind (reads_register c s pc f) (\<lambda>_.
     rbind (reads_range c s pc a n ''call argument'') (\<lambda>_. writes_range c s pc d r ''call result''))"
| "pass_arm c s pc (BiCallAllResults tail f a n) =
     rbind (reads_register c s pc f) (\<lambda>_.
     rbind (reads_range c s pc a n ''dynamic call argument'') (\<lambda>_.
     rbind (ensure (some_is is_consumer (get (code_of c) (pc + 1)))
              (invalid c pc ''dynamic call producer must be followed by a consumer'')) (\<lambda>_. Ok s)))"
| "pass_arm c s pc (BiReturnCall tail f a n) =
     rbind (reads_register c s pc f) (\<lambda>_.
     rbind (reads_range c s pc a n ''return call argument'') (\<lambda>_. Ok (ends_path s)))"
| "pass_arm c s pc (BiReturnCallPrefix tail x count f a n) =
     rbind (reads_range c s pc x count ''return call prefix'') (\<lambda>_.
     rbind (reads_register c s pc f) (\<lambda>_.
     rbind (reads_range c s pc a n ''return call argument'') (\<lambda>_. Ok (ends_path s))))"
| "pass_arm c s pc (BiNewClosure d child) =
     (let children = bp_children (ps_prototype c) in
      rbind (names_register c pc d) (\<lambda>_.
      rbind (ok_or (get children (unat child)) (bad_reference c ''child prototype'' (unat child) (length children))) (\<lambda>k.
      rbind (ok_or (get (ps_prototypes c) (unat k)) (bad_reference c ''child prototype'' (unat k) (length (ps_prototypes c)))) (\<lambda>q.
      rbind (each (reads_capture c s pc) (bp_upvalues q)) (\<lambda>_. writes_register s d)))))"
| "pass_arm c s pc (BiGetUpvalue d u) =
     rbind (names_register c pc d) (\<lambda>_. rbind (names_upvalue c ''upvalue'' u) (\<lambda>_. writes_register s d))"
| "pass_arm c s pc (BiSetUpvalue u source) =
     rbind (reads_register c s pc source) (\<lambda>_. rbind (names_upvalue c ''upvalue'' u) (\<lambda>_. Ok s))"
| "pass_arm c s pc (BiCloseUpvalues from_register) =
     rbind (ensure (unat from_register \<le> ps_registers c) (invalid c pc ''upvalue close register is out of range'')) (\<lambda>_. Ok s)"
| "pass_arm c s pc (BiVarargs d count) =
     rbind (ensure (count \<noteq> 0) (invalid c pc ''vararg result count must be nonzero'')) (\<lambda>_.
     writes_range c s pc d count ''vararg result'')"
| "pass_arm c s pc (BiReturnVarargs x count) =
     rbind (reads_returned c s pc x count ''vararg return prefix'') (\<lambda>_. Ok (ends_path s))"
| "pass_arm c s pc BiReturnDynamic = Ok (ends_path s)"
| "pass_arm c s pc (BiReturnDynamicPrefix x count) =
     rbind (reads_returned c s pc x count ''dynamic return prefix'') (\<lambda>_. Ok (ends_path s))"
| "pass_arm c s pc (BiUnary operator d source) =
     rbind (names_register c pc d) (\<lambda>_. rbind (reads_register c s pc source) (\<lambda>_. writes_register s d))"
| "pass_arm c s pc (BiBinary operator d l r) =
     rbind (names_register c pc d) (\<lambda>_. rbind (reads_register c s pc l) (\<lambda>_. rbind (reads_register c s pc r) (\<lambda>_.
     writes_register s d)))"
| "pass_arm c s pc (BiJumpIf truthy condition target) =
     rbind (reads_register c s pc condition) (\<lambda>_.
     rbind (ensure (pc < unat target \<and> unat target < length (code_of c))
              (invalid c pc ''branch target must be a later instruction'')) (\<lambda>_.
     add_branch c s (unat target)))"
| "pass_arm c s pc (BiJump target) =
     rbind (ensure (unat target < length (code_of c)) (invalid c pc ''branch target is out of bounds'')) (\<lambda>_.
     if unat target \<le> pc then backward_jump c s pc (unat target)
     else rbind (add_branch c s (unat target)) (\<lambda>s. Ok (ends_path s)))"
| "pass_arm c s pc (BiReturn x count) =
     rbind (reads_returned c s pc x count ''return'') (\<lambda>_. Ok (ends_path s))"

end
