(* ===== verification/Blu_Validator.thy ===== *)
theory Blu_Validator
  imports Blu_Validate
begin

text \<open>
  The step of the linear pass, the checks of a prototype and of the artifact, and the encoder and
  decoder that validate, of \<open>blu-bytecode/src/blu.rs\<close>.
\<close>

section \<open>One instruction\<close>

definition after_producer :: "pass \<Rightarrow> nat \<Rightarrow> bool" where
  "after_producer c pc = some_is is_producer (Option.bind (checked_sub pc 1) (get (code_of c)))"

definition misplaced_consumer :: "pass \<Rightarrow> pass_state \<Rightarrow> nat \<Rightarrow> (bool, blu_validation_error) res" where
  "misplaced_consumer c s pc =
     (if map_of (st_incoming s) pc \<noteq> None then Ok True
      else rbind (index_at (ps_backward c) pc) (\<lambda>target. Ok (target \<or> \<not> after_producer c pc)))"

text \<open>The state of a forward jump to this instruction joins the state that falls into it.\<close>

definition join_incoming :: "pass_state \<Rightarrow> nat \<Rightarrow> pass_state" where
  "join_incoming s pc =
     (case map_of (st_incoming s) pc of
        None \<Rightarrow> s
      | Some state \<Rightarrow>
          s\<lparr>st_incoming := AList.delete pc (st_incoming s),
            st_initialized := (if st_reachable s then merge_states (st_initialized s) state else state),
            st_reachable := True\<rparr>)"

definition backward_entry :: "pass \<Rightarrow> pass_state \<Rightarrow> nat \<Rightarrow> (pass_state, blu_validation_error) res" where
  "backward_entry c s pc =
     (if st_reachable s then Ok s
      else
        rbind (index_at (ps_backward c) pc) (\<lambda>target.
        if \<not> target then Ok s
        else rbind (backward_branch_requirements (code_of c) pc (ps_registers c) (ps_captures c)) (\<lambda>required.
          Ok (s\<lparr>st_initialized := required, st_reachable := True\<rparr>))))"

definition keep_backward_state :: "pass \<Rightarrow> pass_state \<Rightarrow> nat \<Rightarrow> (pass_state, blu_validation_error) res" where
  "keep_backward_state c s pc =
     rbind (index_at (ps_backward c) pc) (\<lambda>target.
     if \<not> target then Ok s
     else
       let states = st_backward s in
       rbind (state_bytes c (length states) ''backward branch validation state bytes'') (\<lambda>_.
       rbind (ensure (ps_alloc c (length states + 1)) (BvAllocation ''backward branch validation targets'' (saturating_add (length states) 1))) (\<lambda>_.
       rbind (try_reserve_validation (ps_alloc c) ''backward branch register initialization'' (ps_registers c)) (\<lambda>_.
       Ok (s\<lparr>st_backward := AList.update pc (st_initialized s) states\<rparr>)))))"

definition is_close_upvalues :: "bi \<Rightarrow> bool" where
  "is_close_upvalues i = (case i of BiCloseUpvalues _ \<Rightarrow> True | _ \<Rightarrow> False)"

definition pass_step :: "pass \<Rightarrow> pass_state \<Rightarrow> nat \<times> bi \<Rightarrow> (pass_state, blu_validation_error) res" where
  "pass_step c s entry =
     (case entry of (pc, i) \<Rightarrow>
        rbind (if is_consumer i then misplaced_consumer c s pc else Ok False) (\<lambda>misplaced.
        rbind (ensure (\<not> misplaced) (invalid c pc ''dynamic call consumer must immediately follow its producer'')) (\<lambda>_.
        rbind (backward_entry c (join_incoming s pc) pc) (\<lambda>s.
        if \<not> st_reachable s then
          (if is_close_upvalues i then Ok s else Err (invalid c pc ''instruction is unreachable''))
        else
          rbind (keep_backward_state c s pc) (\<lambda>s.
          rbind (ensure (instruction_is_legal (bp_profile (ps_prototype c)) i)
                   (invalid c pc ''instruction is not legal for semantic profile'')) (\<lambda>_.
          pass_arm c s pc i))))))"

section \<open>One prototype\<close>

definition prototype_counts :: "blu_prototype \<Rightarrow> blu_limits \<Rightarrow> (unit, blu_validation_error) res" where
  "prototype_counts p limits =
     rbind (bv_check_limit ''register count'' (unat (bp_register_count p)) (bl_max_registers_per_prototype limits)) (\<lambda>_.
     rbind (bv_check_limit ''constant count'' (length (bp_constants p)) (bl_max_constants_per_prototype limits)) (\<lambda>_.
     rbind (check_wire_len ''constant count'' (length (bp_constants p))) (\<lambda>_.
     rbind (bv_check_limit ''instruction count'' (length (bp_code p)) (bl_max_code_per_prototype limits)) (\<lambda>_.
     rbind (check_wire_len ''instruction count'' (length (bp_code p))) (\<lambda>_.
     rbind (bv_check_limit ''upvalue count'' (length (bp_upvalues p)) (bl_max_upvalues_per_prototype limits)) (\<lambda>_.
     rbind (check_wire_len ''upvalue count'' (length (bp_upvalues p))) (\<lambda>_.
     rbind (check_wire_len ''child count'' (length (bp_children p))) (\<lambda>_.
     rbind (bv_check_limit ''local debug count'' (length (bp_locals p)) (bl_max_debug_entries_per_prototype limits)) (\<lambda>_.
     rbind (check_wire_len ''local debug count'' (length (bp_locals p))) (\<lambda>_.
     rbind (bv_check_limit ''upvalue debug count'' (length (bp_upvalue_debug p)) (bl_max_debug_entries_per_prototype limits)) (\<lambda>_.
     check_wire_len ''upvalue debug count'' (length (bp_upvalue_debug p)))))))))))))"

fun uses_results :: "bi \<Rightarrow> bool" where
  "uses_results (BiCallResults _ _ _ _ _ _) = True"
| "uses_results _ = False"

fun uses_return_call :: "bi \<Rightarrow> bool" where
  "uses_return_call (BiReturnCall _ _ _ _) = True"
| "uses_return_call (BiReturnCallPrefix _ _ _ _ _ _) = True"
| "uses_return_call _ = False"

fun uses_varargs :: "bi \<Rightarrow> bool" where
  "uses_varargs (BiVarargs _ _) = True"
| "uses_varargs (BiReturnVarargs _ _) = True"
| "uses_varargs (BiSetListVarargs _ _) = True"
| "uses_varargs (BiCallResults tail _ _ _ _ _) = (tail = WithVarargs)"
| "uses_varargs (BiCallAllResults tail _ _ _) = (tail = WithVarargs)"
| "uses_varargs (BiReturnCall tail _ _ _) = (tail = WithVarargs)"
| "uses_varargs (BiReturnCallPrefix tail _ _ _ _ _) = (tail = WithVarargs)"
| "uses_varargs (BiSetListCall tail _ _ _ _ _) = (tail = WithVarargs)"
| "uses_varargs _ = False"

fun uses_dynamic :: "bi \<Rightarrow> bool" where
  "uses_dynamic (BiSetListCall _ _ _ _ _ _) = True"
| "uses_dynamic (BiCallAllResults _ _ _ _) = True"
| "uses_dynamic (BiCallResults tail _ _ _ _ _) = (tail = WithDynamic)"
| "uses_dynamic BiReturnDynamic = True"
| "uses_dynamic (BiReturnDynamicPrefix _ _) = True"
| "uses_dynamic (BiReturnCall tail _ _ _) = (tail = WithDynamic)"
| "uses_dynamic (BiReturnCallPrefix tail _ _ _ _ _) = (tail = WithDynamic)"
| "uses_dynamic _ = False"

fun uses_globals :: "bi \<Rightarrow> bool" where
  "uses_globals (BiLoadGlobal _ _) = True"
| "uses_globals (BiStoreGlobal _ _) = True"
| "uses_globals _ = False"

fun uses_call :: "bi \<Rightarrow> bool" where
  "uses_call (BiCall _ _ _ _) = True"
| "uses_call _ = False"

fun uses_closures :: "bi \<Rightarrow> bool" where
  "uses_closures (BiNewClosure _ _) = True"
| "uses_closures (BiGetUpvalue _ _) = True"
| "uses_closures (BiSetUpvalue _ _) = True"
| "uses_closures (BiCloseUpvalues _) = True"
| "uses_closures _ = False"

fun uses_tables :: "semantic_profile \<Rightarrow> nat \<times> bi \<Rightarrow> bool" where
  "uses_tables profile (pc, BiGetTable _ _ _) = True"
| "uses_tables profile (pc, BiSetTable _ _ _) = True"
| "uses_tables profile (pc, BiSetListVarargs _ _) = True"
| "uses_tables profile (pc, BiSetListCall _ _ _ _ _ _) = True"
| "uses_tables profile (pc, BiNewTable _) = (\<not> (pc = 0 \<and> profile \<in> {Lua52, Lua53, Lua54, Lua55}))"
| "uses_tables profile (pc, _) = False"

fun uses_concatenate :: "bi \<Rightarrow> bool" where
  "uses_concatenate (BiBinary operator _ _ _) = (operator = BiConcatenate)"
| "uses_concatenate _ = False"

fun uses_comparison :: "bi \<Rightarrow> bool" where
  "uses_comparison (BiBinary operator _ _ _) = (operator \<in> {BiEqual, BiLessThan, BiLessEqual})"
| "uses_comparison _ = False"

fun jumps_back :: "nat \<times> bi \<Rightarrow> bool" where
  "jumps_back (pc, BiJump target) = (unat target \<le> pc)"
| "jumps_back _ = False"

fun uses_branch :: "bi \<Rightarrow> bool" where
  "uses_branch (BiJumpIf _ _ _) = True"
| "uses_branch (BiJump _) = True"
| "uses_branch _ = False"

fun is_integer_constant :: "blu_constant \<Rightarrow> bool" where
  "is_integer_constant (CInteger _) = True"
| "is_integer_constant _ = False"

definition needs_feature ::
  "nat \<Rightarrow> blu_prototype \<Rightarrow> bool \<Rightarrow> feature_bits \<Rightarrow> string \<Rightarrow> (unit, blu_validation_error) res" where
  "needs_feature index p used f name = ensure (used \<longrightarrow> requires p f) (BvMissingFeature index name)"

definition legal_feature ::
  "nat \<Rightarrow> blu_prototype \<Rightarrow> feature_bits \<Rightarrow> bool \<Rightarrow> string \<Rightarrow> (unit, blu_validation_error) res" where
  "legal_feature index p f legal name = ensure (requires p f \<longrightarrow> legal) (BvFeatureNotLegal index name (bp_profile p))"

text \<open>The checks that need no state, one after the other.\<close>

definition in_order :: "(unit, 'e) res list \<Rightarrow> (unit, 'e) res" where
  "in_order checks = each (\<lambda>check. check) checks"

definition prototype_features :: "nat \<Rightarrow> blu_prototype \<Rightarrow> (unit, blu_validation_error) res" where
  "prototype_features index p =
     (let code = bp_code p; unsupported = bp_required_features p AND NOT SUPPORTED;
          uses = (\<lambda>used. list_ex used code); uses_at = (\<lambda>used. list_ex used (enumerate 0 code)) in
      in_order
       [ensure (bp_parameter_count p \<le> bp_register_count p) (BvInvalidMetadata index ''parameter count''),
        ensure (unsupported = 0) (BvUnsupportedFeatures index unsupported),
        needs_feature index p True BASELINE ''baseline'',
        legal_feature index p FLOOR_DIVISION (floor_division_is_legal (bp_profile p)) ''floor division'',
        legal_feature index p BITWISE_OPERATORS (bitwise_operators_are_legal (bp_profile p)) ''bitwise operators'',
        needs_feature index p (uses uses_results) FIXED_MULTI_RESULTS ''fixed multi-result calls'',
        needs_feature index p (uses uses_return_call) RETURN_CALLS ''return calls'',
        needs_feature index p (uses uses_varargs) VARARGS ''varargs'',
        ensure (uses uses_varargs \<longrightarrow> bp_is_vararg p)
          (BvInvalidMetadata index ''vararg instruction in fixed-argument prototype''),
        needs_feature index p (uses uses_dynamic) DYNAMIC_CALL_RESULTS ''dynamic call results'',
        needs_feature index p (list_ex is_integer_constant (bp_constants p)) INTEGER_CONSTANTS ''integer constants'',
        needs_feature index p (uses uses_globals) GLOBALS ''globals'',
        needs_feature index p (uses uses_call) FIXED_CALLS ''fixed calls'',
        needs_feature index p (uses uses_closures) CLOSURES ''closures'',
        needs_feature index p (uses_at (uses_tables (bp_profile p))) TABLES ''tables'',
        needs_feature index p (uses is_floor_divide) FLOOR_DIVISION ''floor division'',
        needs_feature index p (uses is_bitwise) BITWISE_OPERATORS ''bitwise operators'',
        needs_feature index p (uses uses_concatenate) CONCATENATION ''concatenation'',
        needs_feature index p (uses uses_comparison) COMPARISONS ''comparisons'',
        needs_feature index p (uses_at jumps_back) BACKWARD_BRANCHES ''backward branches'',
        needs_feature index p (uses uses_branch) FORWARD_BRANCHES ''forward branches''])"

definition prototype_source_map ::
  "nat \<Rightarrow> blu_prototype \<Rightarrow> (source_id \<times> 32 word) list \<Rightarrow> (unit, blu_validation_error) res" where
  "prototype_source_map index p sources =
     rbind (ok_or (map_of sources (bp_source p)) (BvInvalidSourceMap index None ''prototype source is not declared'')) (\<lambda>source_len.
     rbind (ensure (length (bp_source_map p) = length (bp_code p))
              (BvInvalidSourceMap index None ''map length does not equal instruction count'')) (\<lambda>_.
     each (\<lambda>(pc, s).
       rbind (ensure (span_source s = bp_source p) (BvInvalidSourceMap index (Some pc) ''span belongs to a different source'')) (\<lambda>_.
       ensure (span_end s \<le> source_len) (BvInvalidSourceMap index (Some pc) ''span exceeds source length'')))
       (enumerate 0 (bp_source_map p))))"

definition constant_bytes :: "blu_limits \<Rightarrow> blu_constant \<Rightarrow> (unit, blu_validation_error) res" where
  "constant_bytes limits k =
     (case k of
        CString bs \<Rightarrow>
          rbind (bv_check_limit ''constant bytes'' (length bs) (bl_max_constant_bytes limits)) (\<lambda>_.
          check_wire_len ''constant bytes'' (length bs))
      | _ \<Rightarrow> Ok ())"

text \<open>The instructions that a backward jump enters, and the registers a closure captures.\<close>

fun mark_backward :: "bool list \<Rightarrow> nat \<times> bi \<Rightarrow> bool list" where
  "mark_backward flags (pc, BiJump target) =
     (if unat target \<le> pc \<and> unat target < length flags then flags[unat target := True] else flags)"
| "mark_backward flags (pc, _) = flags"

definition backward_targets :: "bi list \<Rightarrow> bool list" where
  "backward_targets code = foldl mark_backward (replicate (length code) False) (enumerate 0 code)"

fun captured_register :: "upvalue \<Rightarrow> reg list" where
  "captured_register (ParentRegister r) = [r]"
| "captured_register (ParentUpvalue _) = []"

fun closure_captures :: "blu_prototype \<Rightarrow> blu_prototype list \<Rightarrow> bi \<Rightarrow> reg list" where
  "closure_captures p ps (BiNewClosure _ child) =
     (case Option.bind (get (bp_children p) (unat child)) (\<lambda>k. get ps (unat k)) of
        None \<Rightarrow> []
      | Some q \<Rightarrow> concat (map captured_register (bp_upvalues q)))"
| "closure_captures p ps _ = []"

definition parameter_offset :: "blu_prototype \<Rightarrow> nat" where
  "parameter_offset p = (if requires p IMPLICIT_ENVIRONMENT then 1 else 0)"

definition parameter_end :: "blu_prototype \<Rightarrow> nat" where
  "parameter_end p = saturating_add (parameter_offset p) (unat (bp_parameter_count p))"

definition pass_of :: "(nat \<Rightarrow> bool) \<Rightarrow> nat \<Rightarrow> blu_prototype \<Rightarrow> blu_prototype list \<Rightarrow> blu_limits \<Rightarrow> pass" where
  "pass_of alloc index p ps limits =
     \<lparr>ps_alloc = alloc, ps_index = index, ps_prototype = p, ps_prototypes = ps, ps_limits = limits,
      ps_registers = unat (bp_register_count p), ps_backward = backward_targets (bp_code p),
      ps_captures = map (closure_captures p ps) (bp_code p)\<rparr>"

definition ends_prototype :: "bi list \<Rightarrow> bool" where
  "ends_prototype code = some_is terminates (get code (length code - 1))"

definition prototype_code ::
  "(nat \<Rightarrow> bool) \<Rightarrow> nat \<Rightarrow> blu_prototype \<Rightarrow> blu_prototype list \<Rightarrow> blu_limits \<Rightarrow> (unit, blu_validation_error) res" where
  "prototype_code alloc index p ps limits =
     (let registers = unat (bp_register_count p); code = bp_code p in
      rbind (try_reserve_validation alloc ''register initialization'' registers) (\<lambda>_.
      rbind (ensure (parameter_end p \<le> registers) (BvInvalidMetadata index ''parameter register range'')) (\<lambda>_.
      rbind (fill_range (parameter_offset p) (parameter_end p) (replicate registers False)) (\<lambda>initialized.
      rbind (try_reserve_validation alloc ''backward branch target flags'' (length code)) (\<lambda>_.
      rbind (fold_res (pass_step (pass_of alloc index p ps limits))
               \<lparr>st_initialized = initialized, st_incoming = [], st_backward = [], st_reachable = True\<rparr> (enumerate 0 code)) (\<lambda>_.
      ensure (ends_prototype code) (BvInvalidInstruction index (length code) ''prototype must end with return'')))))))"

definition check_debug_name :: "string \<Rightarrow> bytes \<Rightarrow> blu_limits \<Rightarrow> (unit, blu_validation_error) res" where
  "check_debug_name what name limits =
     rbind (check_wire_len what (length name)) (\<lambda>_.
     bv_check_limit ''debug name bytes'' (length name) (bl_max_debug_name_bytes limits))"

definition bv_validate_debug :: "nat \<Rightarrow> blu_prototype \<Rightarrow> blu_limits \<Rightarrow> (unit, blu_validation_error) res" where
  "bv_validate_debug index p limits =
     (let code_len = length (bp_code p) in
      rbind (each (\<lambda>l.
        rbind (check_debug_name ''local debug name'' (ld_name l) limits) (\<lambda>_.
        ensure (\<not> (bp_register_count p \<le> ld_register l \<or> ld_end_pc l \<le> ld_start_pc l \<or> code_len < unat (ld_end_pc l)))
          (BvInvalidMetadata index ''local debug range''))) (bp_locals p)) (\<lambda>_.
      each (\<lambda>u.
        rbind (check_debug_name ''upvalue debug name'' (ud_name u) limits) (\<lambda>_.
        ensure (\<not> (length (bp_upvalues p) \<le> unat (ud_upvalue u) \<or> ud_end_pc u \<le> ud_start_pc u \<or> code_len < unat (ud_end_pc u)))
          (BvInvalidMetadata index ''upvalue debug range''))) (bp_upvalue_debug p)))"

definition bv_validate_prototype ::
  "(nat \<Rightarrow> bool) \<Rightarrow> nat \<Rightarrow> blu_prototype \<Rightarrow> blu_prototype list \<Rightarrow> (source_id \<times> 32 word) list \<Rightarrow> blu_limits \<Rightarrow>
     (unit, blu_validation_error) res" where
  "bv_validate_prototype alloc index p ps sources limits =
     rbind (prototype_counts p limits) (\<lambda>_.
     rbind (prototype_features index p) (\<lambda>_.
     rbind (prototype_source_map index p sources) (\<lambda>_.
     rbind (each (constant_bytes limits) (bp_constants p)) (\<lambda>_.
     rbind (prototype_code alloc index p ps limits) (\<lambda>_.
     bv_validate_debug index p limits)))))"

section \<open>The artifact\<close>

definition artifact_counts :: "artifact \<Rightarrow> blu_limits \<Rightarrow> (unit, blu_validation_error) res" where
  "artifact_counts a limits =
     (let c = ar_compiler a; identity = bl_identity limits; sources = length (ar_sources a); ps = length (ar_prototypes a) in
      rbind (bv_check_limit ''source count'' sources (bl_max_sources limits)) (\<lambda>_.
      rbind (check_wire_len ''source count'' sources) (\<lambda>_.
      rbind (bv_check_limit ''prototype count'' ps (bl_max_prototypes limits)) (\<lambda>_.
      rbind (check_wire_len ''prototype count'' ps) (\<lambda>_.
      rbind (bv_check_limit ''compiler name bytes'' (length (ci_name c)) (max_compiler_name_bytes identity)) (\<lambda>_.
      rbind (check_wire_len ''compiler name'' (length (ci_name c))) (\<lambda>_.
      rbind (bv_check_limit ''compiler version bytes'' (length (ci_version c)) (max_compiler_version_bytes identity)) (\<lambda>_.
      rbind (check_wire_len ''compiler version'' (length (ci_version c))) (\<lambda>_.
      rbind (case ci_revision c of
               Some revision \<Rightarrow>
                 rbind (check_wire_len ''compiler revision'' (length revision)) (\<lambda>_.
                 bv_check_limit ''compiler revision bytes'' (length revision) (max_compiler_revision_bytes identity))
             | None \<Rightarrow> Ok ()) (\<lambda>_.
      ensure (unat (ar_main a) < ps) (BvInvalidReference None ''main prototype'' (unat (ar_main a)) ps)))))))))))"

definition index_source ::
  "blu_limits \<Rightarrow> (source_id \<times> 32 word) list \<Rightarrow> source_record \<Rightarrow> ((source_id \<times> 32 word) list, blu_validation_error) res" where
  "index_source limits sources s =
     (let name = si_name (sr_identity s); i = si_id (sr_identity s) in
      rbind (check_wire_len ''source name'' (length name)) (\<lambda>_.
      rbind (bv_check_limit ''source name bytes'' (length name) (max_source_name_bytes (bl_identity limits))) (\<lambda>_.
      if map_of sources i \<noteq> None then Err (BvDuplicateSource i)
      else Ok (AList.update i (sr_byte_len s) sources))))"

definition adopt_child ::
  "nat \<Rightarrow> nat \<Rightarrow> nat option list \<Rightarrow> 32 word \<Rightarrow> (nat option list, blu_validation_error) res" where
  "adopt_child count index parents w =
     (let child = unat w in
      rbind (ensure (child < count) (BvInvalidReference (Some index) ''child prototype'' child count)) (\<lambda>_.
      rbind (ensure (child \<noteq> index) (BvInvalidPrototypeTree index ''prototype is its own child'')) (\<lambda>_.
      rbind (index_at parents child) (\<lambda>previous.
      if previous \<noteq> None then Err (BvInvalidPrototypeTree child ''prototype has more than one parent'')
      else set_at parents child (Some index)))))"

definition adopt_prototype ::
  "(nat \<Rightarrow> bool) \<Rightarrow> artifact \<Rightarrow> (source_id \<times> 32 word) list \<Rightarrow> blu_limits \<Rightarrow> nat option list \<Rightarrow> nat \<times> blu_prototype \<Rightarrow>
     (nat option list, blu_validation_error) res" where
  "adopt_prototype alloc a sources limits parents entry =
     (case entry of (index, p) \<Rightarrow>
        rbind (ensure (\<not> (ar_format a = BluV2 \<and> length (bp_line_info p) \<noteq> length (bp_code p)))
                 (BvInvalidMetadata index ''line info length does not equal instruction count'')) (\<lambda>_.
        rbind (bv_validate_prototype alloc index p (ar_prototypes a) sources limits) (\<lambda>_.
        rbind (bv_check_limit ''child count'' (length (bp_children p)) (bl_max_children_per_prototype limits)) (\<lambda>_.
        fold_res (adopt_child (length (ar_prototypes a)) index) parents (bp_children p)))))"

definition check_upvalue :: "nat \<Rightarrow> blu_prototype \<Rightarrow> upvalue \<Rightarrow> (unit, blu_validation_error) res" where
  "check_upvalue index parent u =
     (case u of
        ParentRegister r \<Rightarrow>
          ensure (r < bp_register_count parent)
            (BvInvalidReference (Some index) ''parent register'' (unat r) (unat (bp_register_count parent)))
      | ParentUpvalue k \<Rightarrow>
          ensure (unat k < length (bp_upvalues parent))
            (BvInvalidReference (Some index) ''parent upvalue'' (unat k) (length (bp_upvalues parent))))"

definition check_upvalues ::
  "blu_prototype list \<Rightarrow> nat option list \<Rightarrow> nat \<times> blu_prototype \<Rightarrow> (unit, blu_validation_error) res" where
  "check_upvalues ps parents entry =
     (case entry of (index, p) \<Rightarrow>
        rbind (index_at parents index) (\<lambda>parent.
        case parent of
          Some q \<Rightarrow> rbind (index_at ps q) (\<lambda>q. each (check_upvalue index q) (bp_upvalues p))
        | None \<Rightarrow>
            ensure (bp_upvalues p = [] \<or> requires p DUMPED_FUNCTION)
              (BvInvalidMetadata index ''main prototype upvalues'')))"

definition validate_first ::
  "(nat \<Rightarrow> bool) \<Rightarrow> artifact \<Rightarrow> blu_limits \<Rightarrow> (nat option list, blu_validation_error) res" where
  "validate_first alloc a limits =
     (let ps = ar_prototypes a; main = unat (ar_main a) in
      rbind (artifact_counts a limits) (\<lambda>_.
      rbind (validate_aggregate_limits a limits) (\<lambda>_.
      rbind (map_err (\<lambda>_. BvLimit ''encoded artifact bytes'' usize_max (bl_max_bytes limits)) (encoded_size a)) (\<lambda>n.
      rbind (bv_check_limit ''encoded artifact bytes'' n (bl_max_bytes limits)) (\<lambda>_.
      rbind (ensure (alloc (length (ar_sources a))) (BvAllocation ''source index'' (length (ar_sources a)))) (\<lambda>_.
      rbind (fold_res (index_source limits) [] (ar_sources a)) (\<lambda>sources.
      rbind (try_reserve_validation alloc ''prototype parent index'' (length ps)) (\<lambda>_.
      rbind (fold_res (adopt_prototype alloc a sources limits) (replicate (length ps) None) (enumerate 0 ps)) (\<lambda>parents.
      rbind (index_at parents main) (\<lambda>parent.
      rbind (ensure (parent = None) (BvInvalidPrototypeTree main ''main prototype has a parent'')) (\<lambda>_.
      Ok parents)))))))))))"

definition blu_validate ::
  "(nat \<Rightarrow> bool) \<Rightarrow> artifact \<Rightarrow> blu_limits \<Rightarrow> (unit, blu_validation_error) res option" where
  "blu_validate alloc a limits =
     then_maybe (validate_first alloc a limits) (\<lambda>parents.
     maybe_then (validate_prototype_graph alloc (ar_prototypes a) (unat (ar_main a))) (\<lambda>_.
     each (check_upvalues (ar_prototypes a) parents) (enumerate 0 (ar_prototypes a))))"

section \<open>Validated artifacts\<close>

record validated_artifact =
  va_artifact :: artifact
  va_policy :: blu_limits

definition validated_new ::
  "(nat \<Rightarrow> bool) \<Rightarrow> artifact \<Rightarrow> blu_limits \<Rightarrow> (validated_artifact, blu_validation_error) res option" where
  "validated_new alloc a limits =
     maybe_then (blu_validate alloc a limits) (\<lambda>_. Ok \<lparr>va_artifact = a, va_policy = limits\<rparr>)"

definition blu_encode ::
  "(nat \<Rightarrow> bool) \<Rightarrow> validated_artifact \<Rightarrow> blu_limits \<Rightarrow> (bytes, blu_encode_error) res option" where
  "blu_encode alloc v limits =
     (let a = va_artifact v in
      maybe_then (map_option (map_err BeValidation) (blu_validate alloc a limits)) (\<lambda>_.
      rbind (encoded_size a) (\<lambda>n.
      rbind (ensure (n \<le> bl_max_bytes limits) (BeTooLarge n (bl_max_bytes limits))) (\<lambda>_.
      rbind (ensure (alloc n) (BeAllocation n)) (\<lambda>_.
      put_artifact a)))))"

definition decode_validated ::
  "(nat \<Rightarrow> bool) \<Rightarrow> bytes \<Rightarrow> blu_limits \<Rightarrow> (validated_artifact, blu_decode_error) res option" where
  "decode_validated alloc bs limits =
     then_maybe (blu_decode alloc bs limits) (\<lambda>a. map_option (map_err BdValidation) (validated_new alloc a limits))"

text \<open>\<open>ValidatedArtifact::main\<close>.\<close>

definition va_main :: "validated_artifact \<Rightarrow> (blu_prototype, 'e) res" where
  "va_main v = index_at (ar_prototypes (va_artifact v)) (unat (ar_main (va_artifact v)))"

end
