(* ===== verification/Blu_Pass.thy ===== *)
theory Blu_Pass
  imports Blu_Requirements Blu_Validator
begin

text \<open>
  What one instruction of the linear pass checks and changes: an accepted arm reads only initialized
  registers, names only registers of the prototype, writes what the instruction writes, and records
  the state at the target of a forward jump.
\<close>

named_theorems pass_simps \<open>how the register checks of the pass end\<close>

section \<open>The register checks\<close>

lemma reads_register_Ok [pass_simps]:
  "reads_register c s pc r = Ok u \<longleftrightarrow> unat r < length (st_initialized s) \<and> st_initialized s ! unat r"
  by (auto simp: reads_register_def check_read_def bv_check_register_def res_simps)

lemma names_register_Ok [pass_simps]: "names_register c pc r = Ok u \<longleftrightarrow> unat r < ps_registers c"
  by (auto simp: names_register_def bv_check_register_def)

lemma writes_register_Ok [pass_simps]:
  "writes_register s r = Ok t \<longleftrightarrow> unat r < length (st_initialized s) \<and>
     t = s\<lparr>st_initialized := (st_initialized s)[unat r := True]\<rparr>"
  by (auto simp: writes_register_def res_simps)

lemma names_upvalue_Ok [pass_simps]:
  "names_upvalue c what u = Ok v \<longleftrightarrow> unat u < length (bp_upvalues (ps_prototype c))"
  by (simp add: names_upvalue_def res_simps)

lemma global_name_Ok [pass_simps]: "global_name c n = Ok v \<longleftrightarrow> is_string_constant (ps_prototype c) (unat n)"
  by (simp add: global_name_def res_simps)

lemma range_end_Ok [pass_simps]:
  "range_end c pc start count what = Ok stop \<longleftrightarrow>
     stop = unat start + unat count \<and> stop \<le> usize_max \<and> stop \<le> ps_registers c"
  by (auto simp: range_end_def res_simps usize_simps)

lemma unat_of_register: "r < 65536 \<Longrightarrow> unat (word_of_nat r :: 16 word) = r"
  by (simp add: unat_of_nat take_bit_nat_eq_self_iff)

lemma each_register_Ok:
  assumes "each (\<lambda>r. reads_register c s pc (word_of_nat r)) [a ..< b] = Ok u" and "b \<le> 65536" and "a \<le> r" and "r < b"
  shows "r < length (st_initialized s) \<and> st_initialized s ! r"
proof -
  have "reads_register c s pc (word_of_nat r) = Ok ()" using assms by (simp add: res_simps)
  then show ?thesis using assms unat_of_register [of r] by (simp add: pass_simps)
qed

lemma reads_range_Ok:
  assumes "reads_range c s pc start count what = Ok u" and "ps_registers c < 65536"
    and "unat start \<le> r" and "r < unat start + unat count"
  shows "r < ps_registers c" "r < length (st_initialized s)" "st_initialized s ! r"
proof -
  have e: "each (\<lambda>r. reads_register c s pc (word_of_nat r)) [unat start ..< unat start + unat count] = Ok u"
    and le: "unat start + unat count \<le> ps_registers c"
    using assms(1) by (auto simp: reads_range_def pass_simps rbind_eq_Ok)
  show "r < ps_registers c" using le assms(4) by simp
  show "r < length (st_initialized s)" "st_initialized s ! r"
    using each_register_Ok [OF e _ assms(3,4)] le assms(2) by auto
qed

lemma reads_returned_Ok:
  assumes "reads_returned c s pc start count what = Ok u" and "ps_registers c < 65536"
    and "unat start \<le> r" and "r < unat start + unat count"
  shows "r < ps_registers c" "r < length (st_initialized s)" "st_initialized s ! r"
proof -
  have e: "each (\<lambda>r. reads_register c s pc (word_of_nat r)) [unat start ..< unat start + unat count] = Ok u"
    and le: "unat start + unat count \<le> ps_registers c"
    using assms(1) by (auto simp: reads_returned_def pass_simps rbind_eq_Ok split: if_splits)
  show "r < ps_registers c" using le assms(4) by simp
  show "r < length (st_initialized s)" "st_initialized s ! r"
    using each_register_Ok [OF e _ assms(3,4)] le assms(2) by auto
qed

lemma nth_fill_range:
  assumes "fill_range a b xs = Ok ys"
  shows "length ys = length xs" "r < length xs \<Longrightarrow> ys ! r \<longleftrightarrow> xs ! r \<or> a \<le> r \<and> r < b"
  using assms by (auto simp: fill_range_def nth_append split: if_splits)

lemma writes_range_Ok:
  assumes "writes_range c s pc start count what = Ok t"
  shows "unat start + unat count \<le> ps_registers c"
    "length (st_initialized t) = length (st_initialized s)"
    "st_incoming t = st_incoming s" "st_backward t = st_backward s" "st_reachable t = st_reachable s"
    "r < length (st_initialized s) \<Longrightarrow> st_initialized t ! r \<longleftrightarrow>
       st_initialized s ! r \<or> unat start \<le> r \<and> r < unat start + unat count"
proof -
  obtain xs where xs: "fill_range (unat start) (unat start + unat count) (st_initialized s) = (Ok xs :: (bool list, blu_validation_error) res)"
    and t: "t = s\<lparr>st_initialized := xs\<rparr>" and le: "unat start + unat count \<le> ps_registers c"
    using assms by (auto simp: writes_range_def pass_simps rbind_eq_Ok)
  show "unat start + unat count \<le> ps_registers c" by (rule le)
  show "length (st_initialized t) = length (st_initialized s)"
    "st_incoming t = st_incoming s" "st_backward t = st_backward s" "st_reachable t = st_reachable s"
    using nth_fill_range(1) [OF xs] t by simp_all
  show "r < length (st_initialized s) \<Longrightarrow> st_initialized t ! r \<longleftrightarrow>
       st_initialized s ! r \<or> unat start \<le> r \<and> r < unat start + unat count"
    using nth_fill_range(2) [OF xs] t by simp
qed

lemma reads_capture_Ok:
  assumes "reads_capture c s pc v = Ok u" and "r \<in> set (captured_register v)"
  shows "unat r < length (st_initialized s)" "st_initialized s ! unat r"
  using assms by (cases v; auto simp: pass_simps)+

lemma reads_captures_Ok:
  assumes "each (reads_capture c s pc) us = Ok u" and "v \<in> set us" and "r \<in> set (captured_register v)"
  shows "unat r < length (st_initialized s)" "st_initialized s ! unat r"
proof -
  have "reads_capture c s pc v = Ok ()" using assms(1,2) by (simp add: each_eq_Ok)
  then show "unat r < length (st_initialized s)" "st_initialized s ! unat r"
    using reads_capture_Ok assms(3) by blast+
qed

section \<open>An accepted arm\<close>

definition is_jump :: "bi \<Rightarrow> bool" where
  "is_jump i = (case i of BiJump _ \<Rightarrow> True | _ \<Rightarrow> False)"

definition is_branch :: "bi \<Rightarrow> bool" where
  "is_branch i = (case i of BiJump _ \<Rightarrow> True | BiJumpIf _ _ _ \<Rightarrow> True | _ \<Rightarrow> False)"

lemma add_branch_fields:
  assumes "add_branch c s target = Ok t"
  shows "st_initialized t = st_initialized s" "st_backward t = st_backward s" "st_reachable t = st_reachable s"
  using assms by (auto simp: add_branch_def Let_def res_simps split: option.splits)

lemma backward_jump_Ok:
  assumes "backward_jump c s pc target = Ok t"
  shows "t = ends_path s"
    "\<exists>kept required. map_of (st_backward s) target = Some kept \<and>
       backward_branch_requirements (code_of c) target (ps_registers c) (ps_captures c) = (Ok required :: (bool list, blu_validation_error) res) \<and>
       \<not> list_ex (\<lambda>((k, i), r). r \<and> k \<and> \<not> i) (zip (zip kept (st_initialized s)) required)"
  using assms by (auto simp: backward_jump_def rbind_eq_Ok split: option.splits if_splits)

lemma ends_path_simps [simp]:
  "st_initialized (ends_path s) = st_initialized s" "st_incoming (ends_path s) = st_incoming s"
  "st_backward (ends_path s) = st_backward s" "st_reachable (ends_path s) = False"
  by (simp_all add: ends_path_def)

lemma arm_reads:
  assumes "pass_arm c s pc i = Ok t" and "ps_registers c < 65536" and "length (st_initialized s) = ps_registers c"
    and "r \<in> instruction_reads (closure_captures (ps_prototype c) (ps_prototypes c) i) i"
  shows "r < ps_registers c \<and> st_initialized s ! r"
  using assms
  by (cases i)
    (auto simp: instruction_reads_def pass_simps rbind_eq_Ok ok_or_eq_Ok ensure_eq_Ok Let_def get_eq_Some get_def
      dest: reads_range_Ok reads_returned_Ok reads_captures_Ok)

lemma arm_writes:
  assumes "pass_arm c s pc i = Ok t" and "length (st_initialized s) = ps_registers c" and "r \<in> instruction_writes i"
  shows "r < ps_registers c"
  using assms
  by (cases i) (auto simp: instruction_writes_def pass_simps rbind_eq_Ok Let_def dest!: writes_range_Ok(1))

lemma arm_initialized:
  assumes "pass_arm c s pc i = Ok t"
  shows "length (st_initialized t) = length (st_initialized s)"
    and "r < length (st_initialized s) \<Longrightarrow> st_initialized t ! r \<longleftrightarrow> st_initialized s ! r \<or> r \<in> instruction_writes i"
    and "st_backward t = st_backward s"
    and "st_reachable t \<longleftrightarrow> st_reachable s \<and> \<not> terminates i \<and> \<not> is_jump i"
    and "\<not> is_branch i \<Longrightarrow> st_incoming t = st_incoming s"
proof -
  have "length (st_initialized t) = length (st_initialized s) \<and>
    (r < length (st_initialized s) \<longrightarrow> (st_initialized t ! r \<longleftrightarrow> st_initialized s ! r \<or> r \<in> instruction_writes i)) \<and>
    st_backward t = st_backward s \<and>
    (st_reachable t \<longleftrightarrow> st_reachable s \<and> \<not> terminates i \<and> \<not> is_jump i) \<and>
    (\<not> is_branch i \<longrightarrow> st_incoming t = st_incoming s)"
    using assms
    by (cases i)
      (auto simp: instruction_writes_def terminates_def is_jump_def is_branch_def pass_simps rbind_eq_Ok Let_def
        nth_list_update writes_range_Ok add_branch_fields dest: backward_jump_Ok(1) split: if_splits)
  then show "length (st_initialized t) = length (st_initialized s)"
    and "r < length (st_initialized s) \<Longrightarrow> st_initialized t ! r \<longleftrightarrow> st_initialized s ! r \<or> r \<in> instruction_writes i"
    and "st_backward t = st_backward s"
    and "st_reachable t \<longleftrightarrow> st_reachable s \<and> \<not> terminates i \<and> \<not> is_jump i"
    and "\<not> is_branch i \<Longrightarrow> st_incoming t = st_incoming s" by blast+
qed

end
