(* ===== verification/Blu_Trace.thy ===== *)
theory Blu_Trace
  imports Blu_Pass
begin

text \<open>
  The states of an accepted linear pass: the state before each instruction, the state on entry to it
  once the forward jumps and the requirements of a backward jump have been joined, and how the entry
  state of an instruction bounds the entry states of its successors.
\<close>

section \<open>States at forward jumps\<close>

definition forward_targets :: "nat \<Rightarrow> bi \<Rightarrow> nat set" where
  "forward_targets pc i =
     (case i of BiJump t \<Rightarrow> {unat t} | BiJumpIf _ _ t \<Rightarrow> {unat t} | _ \<Rightarrow> {}) \<inter> {pc <..}"

definition states_sized :: "nat \<Rightarrow> (nat \<times> bool list) list \<Rightarrow> bool" where
  "states_sized n states \<longleftrightarrow> (\<forall>t st. map_of states t = Some st \<longrightarrow> length st = n)"

definition holds_below :: "pass_state \<Rightarrow> nat \<Rightarrow> bool list \<Rightarrow> bool" where
  "holds_below s t bound \<longleftrightarrow> (\<exists>st. map_of (st_incoming s) t = Some st \<and> below st bound)"

lemma add_branch_incoming:
  assumes "add_branch c s target = Ok t" and "length (st_initialized s) = n" and "states_sized n (st_incoming s)"
  shows "states_sized n (st_incoming t)" and "holds_below t target (st_initialized s)"
    and "holds_below s x b \<Longrightarrow> holds_below t x b"
proof -
  let ?new = "case map_of (st_incoming s) target of None \<Rightarrow> st_initialized s | Some st \<Rightarrow> merge_states st (st_initialized s)"
  have t: "map_of (st_incoming t) = (map_of (st_incoming s))(target \<mapsto> ?new)"
    using assms(1) by (auto simp: add_branch_def Let_def rbind_eq_Ok AList.update_conv' split: option.splits)
  have new: "below ?new (st_initialized s)" "length ?new = n"
    using assms(2,3) by (auto simp: states_sized_def merge_states_below split: option.splits)
  show "states_sized n (st_incoming t)" using new(2) assms(3) unfolding states_sized_def t by auto
  show "holds_below t target (st_initialized s)" using new(1) unfolding holds_below_def t by simp
  show "holds_below t x b" if at: "holds_below s x b"
  proof (cases "x = target")
    case True
    with at obtain st where st: "map_of (st_incoming s) target = Some st" "below st b" by (auto simp: holds_below_def)
    then have "below ?new b" using below_trans [OF below_merge_states st(2)] by simp
    then show ?thesis using True unfolding holds_below_def t by simp
  next
    case False
    with at show ?thesis unfolding holds_below_def t by simp
  qed
qed

lemma arm_incoming:
  assumes "pass_arm c s pc i = Ok t" and "length (st_initialized s) = n" and "states_sized n (st_incoming s)"
  shows "states_sized n (st_incoming t)" and "x \<in> forward_targets pc i \<Longrightarrow> holds_below t x (st_initialized s) \<and> x < length (code_of c)"
    and "holds_below s x b \<Longrightarrow> holds_below t x b"
proof -
  have "states_sized n (st_incoming t) \<and>
      (x \<in> forward_targets pc i \<longrightarrow> holds_below t x (st_initialized s) \<and> x < length (code_of c)) \<and>
      (holds_below s x b \<longrightarrow> holds_below t x b)"
  proof (cases "is_branch i")
    case False
    then have "forward_targets pc i = {}" "st_incoming t = st_incoming s"
      using arm_initialized(5) [OF assms(1)] by (auto simp: is_branch_def forward_targets_def split: bi.splits)
    then show ?thesis using assms(3) by (simp add: holds_below_def)
  next
    case True
    then show ?thesis
    proof (cases i)
      case (BiJumpIf truthy r target)
      then have a: "add_branch c s (unat target) = Ok t" "unat target < length (code_of c)"
        using assms(1) by (auto simp: rbind_eq_Ok ensure_eq_Ok)
      from add_branch_incoming [OF a(1) assms(2,3)] a(2) show ?thesis by (auto simp: BiJumpIf forward_targets_def)
    next
      case (BiJump target)
      show ?thesis
      proof (cases "unat target \<le> pc")
        case True
        then have "t = ends_path s" using assms(1) BiJump by (auto simp: rbind_eq_Ok dest: backward_jump_Ok(1))
        then show ?thesis using True assms(3) by (auto simp: BiJump forward_targets_def holds_below_def)
      next
        case False
        then obtain u where a: "add_branch c s (unat target) = Ok u" "t = ends_path u" "unat target < length (code_of c)"
          using assms(1) BiJump by (auto simp: rbind_eq_Ok ensure_eq_Ok)
        from add_branch_incoming [OF a(1) assms(2,3)] a(2,3) show ?thesis
          by (auto simp: BiJump forward_targets_def holds_below_def)
      qed
    qed (auto simp: is_branch_def)
  qed
  then show "states_sized n (st_incoming t)" and "x \<in> forward_targets pc i \<Longrightarrow> holds_below t x (st_initialized s) \<and> x < length (code_of c)"
    and "holds_below s x b \<Longrightarrow> holds_below t x b" by blast+
qed

section \<open>Entry to an instruction\<close>

lemma join_incoming_facts:
  assumes "length (st_initialized s) = n" and "states_sized n (st_incoming s)"
  shows "length (st_initialized (join_incoming s pc)) = n" and "states_sized n (st_incoming (join_incoming s pc))"
    and "st_backward (join_incoming s pc) = st_backward s"
    and "x \<noteq> pc \<Longrightarrow> holds_below (join_incoming s pc) x b \<longleftrightarrow> holds_below s x b"
    and "st_reachable s \<Longrightarrow> st_reachable (join_incoming s pc) \<and> below (st_initialized (join_incoming s pc)) (st_initialized s)"
    and "holds_below s pc b \<Longrightarrow> st_reachable (join_incoming s pc) \<and> below (st_initialized (join_incoming s pc)) b"
proof -
  have len: "length st = n" if "map_of (st_incoming s) t = Some st" for t st
    using assms(2) that by (simp add: states_sized_def)
  show "length (st_initialized (join_incoming s pc)) = n"
    using assms(1) len by (auto simp: join_incoming_def split: option.splits)
  show "states_sized n (st_incoming (join_incoming s pc))"
    using len by (auto simp: states_sized_def join_incoming_def AList.delete_conv' split: option.splits if_splits)
  show "st_backward (join_incoming s pc) = st_backward s" by (simp add: join_incoming_def split: option.splits)
  show "x \<noteq> pc \<Longrightarrow> holds_below (join_incoming s pc) x b \<longleftrightarrow> holds_below s x b"
    by (simp add: holds_below_def join_incoming_def AList.delete_conv' split: option.splits)
  show "st_reachable s \<Longrightarrow> st_reachable (join_incoming s pc) \<and> below (st_initialized (join_incoming s pc)) (st_initialized s)"
    by (simp add: join_incoming_def below_merge_states split: option.splits)
  show "st_reachable (join_incoming s pc) \<and> below (st_initialized (join_incoming s pc)) b" if at: "holds_below s pc b"
  proof -
    obtain st where st: "map_of (st_incoming s) pc = Some st" "below st b" using at by (auto simp: holds_below_def)
    have "below (merge_states (st_initialized s) st) st" using assms(1) len [OF st(1)] by (simp add: merge_states_below)
    then show ?thesis using st below_trans by (auto simp: join_incoming_def)
  qed
qed

lemma backward_entry_facts:
  assumes "backward_entry c s pc = Ok e" and "length (st_initialized s) = ps_registers c"
  shows "length (st_initialized e) = ps_registers c" and "st_incoming e = st_incoming s" and "st_backward e = st_backward s"
    and "st_reachable s \<Longrightarrow> e = s"
  using assms requirements_complete(1) by (auto simp: backward_entry_def rbind_eq_Ok split: if_splits)

lemma keep_backward_state_facts:
  assumes "keep_backward_state c e pc = Ok k"
  shows "st_initialized k = st_initialized e" and "st_incoming k = st_incoming e" and "st_reachable k = st_reachable e"
    and "st_backward k = st_backward e \<or> st_backward k = AList.update pc (st_initialized e) (st_backward e)"
  using assms by (auto simp: keep_backward_state_def Let_def rbind_eq_Ok split: if_splits)

lemma pass_step_Ok:
  assumes "pass_step c s (pc, i) = Ok t"
  obtains e where "backward_entry c (join_incoming s pc) pc = Ok e" and "\<not> st_reachable e" and "is_close_upvalues i" and "t = e"
  | e k where "backward_entry c (join_incoming s pc) pc = Ok e" and "st_reachable e"
      and "keep_backward_state c e pc = Ok k" and "instruction_is_legal (bp_profile (ps_prototype c)) i" and "pass_arm c k pc i = Ok t"
  using assms by (auto simp: pass_step_def rbind_eq_Ok ensure_eq_Ok split: if_splits)

section \<open>The trace of a pass\<close>

definition passed :: "pass \<Rightarrow> pass_state \<Rightarrow> nat \<Rightarrow> pass_state \<Rightarrow> bool" where
  "passed c s0 k s \<longleftrightarrow> fold_res (pass_step c) s0 (take k (enumerate 0 (code_of c))) = Ok s"

definition entered :: "pass \<Rightarrow> pass_state \<Rightarrow> nat \<Rightarrow> bool list \<Rightarrow> bool" where
  "entered c s0 k init \<longleftrightarrow>
     (\<exists>s e. passed c s0 k s \<and> backward_entry c (join_incoming s k) k = Ok e \<and> st_reachable e \<and> init = st_initialized e)"

definition accepted_pass :: "pass \<Rightarrow> pass_state \<Rightarrow> bool" where
  "accepted_pass c s0 \<longleftrightarrow>
     ps_registers c < 65536 \<and> length (st_initialized s0) = ps_registers c \<and> st_incoming s0 = [] \<and> st_backward s0 = [] \<and>
     st_reachable s0 \<and> ps_captures c = map (closure_captures (ps_prototype c) (ps_prototypes c)) (code_of c) \<and>
     length (code_of c) < usize_max \<and> ends_prototype (code_of c) \<and>
     (\<exists>t. fold_res (pass_step c) s0 (enumerate 0 (code_of c)) = Ok t)"

lemma passed_fun: "passed c s0 k s \<Longrightarrow> passed c s0 k t \<Longrightarrow> s = t"
  by (simp add: passed_def)

lemma entered_fun: "entered c s0 k a \<Longrightarrow> entered c s0 k b \<Longrightarrow> a = b"
  by (auto simp: entered_def dest: passed_fun)

lemma passed_Suc:
  assumes "accepted_pass c s0" and "k < length (code_of c)"
  obtains s t where "passed c s0 k s" and "pass_step c s (k, code_of c ! k) = Ok t" and "passed c s0 (Suc k) t"
proof -
  obtain t where "fold_res (pass_step c) s0 (enumerate 0 (code_of c)) = Ok t" using assms(1) by (auto simp: accepted_pass_def)
  from fold_res_take [OF this, of k] assms(2) show thesis
    by (auto simp: passed_def nth_enumerate_eq intro: that)
qed

lemma captures_at_code:
  "accepted_pass c s0 \<Longrightarrow> pc < length (code_of c) \<Longrightarrow>
     captures_at (ps_captures c) pc = closure_captures (ps_prototype c) (ps_prototypes c) (code_of c ! pc)"
  by (simp add: accepted_pass_def captures_at_def get_def)

text \<open>The invariant of the pass before the k-th instruction.\<close>

definition trace_ok :: "pass \<Rightarrow> pass_state \<Rightarrow> nat \<Rightarrow> pass_state \<Rightarrow> bool" where
  "trace_ok c s0 k s \<longleftrightarrow>
     length (st_initialized s) = ps_registers c \<and> states_sized (ps_registers c) (st_incoming s) \<and>
     (\<forall>t kept. map_of (st_backward s) t = Some kept \<longrightarrow> t < k \<and> entered c s0 t kept) \<and>
     (\<forall>q < k. \<forall>init x. entered c s0 q init \<longrightarrow> x \<in> forward_targets q (code_of c ! q) \<longrightarrow> k \<le> x \<longrightarrow> holds_below s x init) \<and>
     (\<forall>q init. Suc q = k \<longrightarrow> entered c s0 q init \<longrightarrow> \<not> terminates (code_of c ! q) \<longrightarrow> \<not> is_jump (code_of c ! q) \<longrightarrow>
        st_reachable s \<and> (\<forall>r < ps_registers c. st_initialized s ! r \<longrightarrow> init ! r \<or> r \<in> instruction_writes (code_of c ! q)))"

lemma trace_ok_0: "accepted_pass c s0 \<Longrightarrow> trace_ok c s0 0 s0"
  by (simp add: trace_ok_def accepted_pass_def states_sized_def)

lemma trace_ok_Suc:
  assumes acc: "accepted_pass c s0" and k: "k < length (code_of c)" and s: "passed c s0 k s" "trace_ok c s0 k s"
    and step: "pass_step c s (k, code_of c ! k) = Ok t"
  shows "trace_ok c s0 (Suc k) t"
proof -
  let ?i = "code_of c ! k"
  note len = s(2) [unfolded trace_ok_def, THEN conjunct1]
    and sized = s(2) [unfolded trace_ok_def, THEN conjunct2, THEN conjunct1]
  have kept_by: "t < k \<and> entered c s0 t kept" if "map_of (st_backward s) t = Some kept" for t kept
    using s(2) that by (simp add: trace_ok_def)
  have fwd: "holds_below s x init" if "q < k" "entered c s0 q init" "x \<in> forward_targets q (code_of c ! q)" "k \<le> x" for q init x
    using s(2) that by (simp add: trace_ok_def)
  note join = join_incoming_facts [OF len sized, where pc = k]
  from step show ?thesis
  proof (rule pass_step_Ok)
    fix e assume e: "backward_entry c (join_incoming s k) k = Ok e" "\<not> st_reachable e" "is_close_upvalues ?i" "t = e"
    note entry = backward_entry_facts [OF e(1) join(1)]
    have "\<not> entered c s0 k init" for init using e(1,2) s(1) by (auto simp: entered_def dest: passed_fun)
    then show ?thesis
      unfolding trace_ok_def e(4) entry(2,3) join(3)
      using entry(1) join(2) kept_by fwd join(4) entry(2) by (auto simp: less_Suc_eq holds_below_def)
  next
    fix e kst
    assume e: "backward_entry c (join_incoming s k) k = Ok e" "st_reachable e" "keep_backward_state c e k = Ok kst"
      "pass_arm c kst k ?i = Ok t"
    note entry = backward_entry_facts [OF e(1) join(1)] and keep = keep_backward_state_facts [OF e(3)]
    have enter: "entered c s0 k init \<longleftrightarrow> init = st_initialized e" for init
      using e(1,2) s(1) by (auto simp: entered_def dest: passed_fun)
    have kst: "length (st_initialized kst) = ps_registers c" "states_sized (ps_registers c) (st_incoming kst)"
      using entry(1,2) join(2) keep(1,2) by simp_all
    note arm = arm_initialized [OF e(4)] and inc = arm_incoming [OF e(4) kst]
    have "x < Suc k \<and> entered c s0 x kept" if "map_of (st_backward t) x = Some kept" for x kept
    proof (cases "map_of (st_backward s) x = Some kept")
      case True
      then show ?thesis using kept_by by (auto intro: less_SucI)
    next
      case False
      then have "x = k" "kept = st_initialized e"
        using that arm(3) keep(4) entry(3) join(3) by (auto simp: AList.update_conv' split: if_splits)
      then show ?thesis using enter by simp
    qed
    moreover have "holds_below t x init"
      if x: "q < Suc k" "entered c s0 q init" "x \<in> forward_targets q (code_of c ! q)" "Suc k \<le> x" for q init x
    proof (cases "q = k")
      case True
      then show ?thesis using inc(2) [of x] x enter keep(1) by simp
    next
      case False
      then have "holds_below s x init" by (intro fwd) (use x in auto)
      then have "holds_below kst x init" using join(4) [of x init] x(4) keep(2) entry(2) by (simp add: holds_below_def)
      then show ?thesis by (rule inc(3))
    qed
    moreover have "st_reachable t \<and> (\<forall>r < ps_registers c. st_initialized t ! r \<longrightarrow> init ! r \<or> r \<in> instruction_writes ?i)"
      if "entered c s0 k init" "\<not> terminates ?i" "\<not> is_jump ?i" for init
      using that arm(2,4) kst(1) keep(1,3) e(2) enter by simp
    ultimately show ?thesis
      unfolding trace_ok_def using arm(1) kst(1) inc(1) by auto
  qed
qed

lemma trace_ok_all:
  assumes "accepted_pass c s0" and "k \<le> length (code_of c)" and "passed c s0 k s"
  shows "trace_ok c s0 k s"
  using assms(2,3)
proof (induction k arbitrary: s)
  case 0
  then have "s = s0" by (simp add: passed_def)
  then show ?case using trace_ok_0 [OF assms(1)] by simp
next
  case (Suc k)
  then obtain u t where u: "passed c s0 k u" "pass_step c u (k, code_of c ! k) = Ok t" "passed c s0 (Suc k) t"
    using passed_Suc [OF assms(1), of k] by (metis Suc_le_eq)
  then have "trace_ok c s0 (Suc k) t"
    by (intro trace_ok_Suc [OF assms(1) _ u(1) _ u(2)] Suc.IH) (use Suc.prems in auto)
  then show ?case using passed_fun Suc.prems(2) u(3) by blast
qed

lemma length_mark_backward [simp]: "length (mark_backward flags entry) = length flags"
  by (cases "(flags, entry)" rule: mark_backward.cases) simp_all

lemma length_marks [simp]: "length (foldl mark_backward flags entries) = length flags"
  by (induction entries arbitrary: flags) simp_all

lemma length_backward_targets [simp]: "length (backward_targets code) = length code"
  by (simp add: backward_targets_def)

end
