(* ===== verification/Blu_Registers.thy ===== *)
theory Blu_Registers
  imports Blu_Trace
begin

text \<open>
  Registers of an accepted Blu prototype: along every path of its control flow, an instruction reads
  only registers that were written before, names only registers of the prototype, and control stays
  inside the code.
\<close>

section \<open>From an instruction to its successors\<close>

lemma entered_step:
  assumes acc: "accepted_pass c s0" and n: "pc < length (code_of c)" and e: "entered c s0 pc init"
  obtains k t where "st_initialized k = init" and "length init = ps_registers c" and "states_sized (ps_registers c) (st_incoming k)"
    and "trace_ok c s0 (Suc pc) t" and "passed c s0 (Suc pc) t" and "pass_arm c k pc (code_of c ! pc) = Ok t"
    and "\<And>x kept. map_of (st_backward k) x = Some kept \<Longrightarrow> x \<le> pc \<and> entered c s0 x kept"
proof -
  obtain s t where s: "passed c s0 pc s" "pass_step c s (pc, code_of c ! pc) = Ok t" "passed c s0 (Suc pc) t"
    by (rule passed_Suc [OF acc n])
  have tr: "trace_ok c s0 pc s" "trace_ok c s0 (Suc pc) t" using trace_ok_all [OF acc] s n by auto
  obtain e' where e': "backward_entry c (join_incoming s pc) pc = Ok e'" "st_reachable e'" "init = st_initialized e'"
    using e s(1) by (auto simp: entered_def dest: passed_fun)
  from s(2) show thesis
  proof (rule pass_step_Ok)
    fix u assume "backward_entry c (join_incoming s pc) pc = Ok u" "\<not> st_reachable u"
    then show thesis using e' by simp
  next
    fix u k assume u: "backward_entry c (join_incoming s pc) pc = Ok u" "keep_backward_state c u pc = Ok k"
      "pass_arm c k pc (code_of c ! pc) = Ok t"
    then have ue: "u = e'" using e' by simp
    have join: "length (st_initialized (join_incoming s pc)) = ps_registers c"
        "states_sized (ps_registers c) (st_incoming (join_incoming s pc))" "st_backward (join_incoming s pc) = st_backward s"
      using join_incoming_facts [of s "ps_registers c" pc] tr(1) by (simp_all add: trace_ok_def)
    note entry = backward_entry_facts [OF e'(1) join(1)] and keep = keep_backward_state_facts [OF u(2), unfolded ue]
    have "x \<le> pc \<and> entered c s0 x kept" if "map_of (st_backward k) x = Some kept" for x kept
    proof (cases "map_of (st_backward s) x = Some kept")
      case True
      then show ?thesis using tr(1) by (auto simp: trace_ok_def dest: less_imp_le)
    next
      case False
      then have "x = pc" "kept = init"
        using that keep(4) entry(3) join(3) e'(3) by (auto simp: AList.update_conv' split: if_splits)
      then show ?thesis using e by simp
    qed
    then show thesis
      by (intro that [OF _ _ _ tr(2) s(3) u(3)]) (use keep entry join e'(3) in auto)
  qed
qed

lemma entered_reads:
  assumes acc: "accepted_pass c s0" and n: "pc < length (code_of c)" and e: "entered c s0 pc init"
  shows "r \<in> instruction_reads (captures_at (ps_captures c) pc) (code_of c ! pc) \<Longrightarrow> r < ps_registers c \<and> init ! r"
    and "r \<in> instruction_writes (code_of c ! pc) \<Longrightarrow> r < ps_registers c"
proof -
  obtain k t where k: "st_initialized k = init" "length init = ps_registers c" "pass_arm c k pc (code_of c ! pc) = Ok t"
    by (rule entered_step [OF assms]) blast
  have regs: "ps_registers c < 65536" using acc by (simp add: accepted_pass_def)
  show "r \<in> instruction_reads (captures_at (ps_captures c) pc) (code_of c ! pc) \<Longrightarrow> r < ps_registers c \<and> init ! r"
    using arm_reads [OF k(3) regs, of r] k(1,2) captures_at_code [OF acc n] by simp
  show "r \<in> instruction_writes (code_of c ! pc) \<Longrightarrow> r < ps_registers c"
    using arm_writes [OF k(3), of r] k(1,2) by simp
qed

text \<open>Where the pass can still be when it has reached an instruction.\<close>

lemma entered_next:
  assumes acc: "accepted_pass c s0" and n: "x < length (code_of c)" and s: "passed c s0 x s" "trace_ok c s0 x s"
  shows "st_reachable s \<Longrightarrow> \<exists>init. entered c s0 x init \<and> below init (st_initialized s)"
    and "holds_below s x b \<Longrightarrow> \<exists>init. entered c s0 x init \<and> below init b"
proof -
  have sized: "length (st_initialized s) = ps_registers c" "states_sized (ps_registers c) (st_incoming s)"
    using s(2) by (simp_all add: trace_ok_def)
  note join = join_incoming_facts [OF sized, where pc = x]
  obtain t where "pass_step c s (x, code_of c ! x) = Ok t" using passed_Suc [OF acc n] s(1) passed_fun by metis
  then obtain e where e: "backward_entry c (join_incoming s x) x = Ok e" by (auto simp: pass_step_def rbind_eq_Ok)
  have "entered c s0 x (st_initialized (join_incoming s x))" if "st_reachable (join_incoming s x)"
    using backward_entry_facts(4) [OF e join(1) that] e s(1) that by (auto simp: entered_def)
  then show "st_reachable s \<Longrightarrow> \<exists>init. entered c s0 x init \<and> below init (st_initialized s)"
    and "holds_below s x b \<Longrightarrow> \<exists>init. entered c s0 x init \<and> below init b"
    using join(5,6) by blast+
qed

lemma holds_below_later:
  assumes acc: "accepted_pass c s0" and e: "entered c s0 pc init" and x: "x \<in> forward_targets pc (code_of c ! pc)" "x < length (code_of c)"
  shows "\<exists>s. passed c s0 x s \<and> trace_ok c s0 x s \<and> holds_below s x init"
proof -
  obtain s where s: "passed c s0 x s" using passed_Suc [OF acc x(2)] by blast
  then have "trace_ok c s0 x s" using trace_ok_all [OF acc _ s] x(2) by simp
  moreover have "pc < x" using x(1) by (simp add: forward_targets_def)
  moreover have "holds_below s x init" if "trace_ok c s0 x s" "pc < x"
    using that e x(1) unfolding trace_ok_def by blast
  ultimately show ?thesis using s by blast
qed

lemma last_terminates: "ends_prototype code \<Longrightarrow> code \<noteq> [] \<and> terminates (code ! (length code - 1))"
  by (auto simp: ends_prototype_def some_is_def get_def split: if_splits)

text \<open>
  \<open>flows_to\<close>: the entry state of a successor is below the state of the instruction with what it
  writes; at a backward jump this holds for the registers that the target requires.
\<close>

definition flows_to :: "pass \<Rightarrow> bool list \<Rightarrow> nat \<Rightarrow> nat \<Rightarrow> bool list \<Rightarrow> bool" where
  "flows_to c init pc x init' \<longleftrightarrow>
     (\<forall>r < ps_registers c. init' ! r \<longrightarrow> init ! r \<or> r \<in> instruction_writes (code_of c ! pc)) \<or>
     (\<exists>required. backward_branch_requirements (code_of c) x (ps_registers c) (ps_captures c) = (Ok required :: (bool list, blu_validation_error) res) \<and>
        (\<forall>r < ps_registers c. required ! r \<longrightarrow> init' ! r \<longrightarrow> init ! r))"

lemma entered_successor:
  assumes acc: "accepted_pass c s0" and n: "pc < length (code_of c)" and e: "entered c s0 pc init"
    and x: "x \<in> set (flow_successors pc (code_of c ! pc))"
  shows "x < length (code_of c) \<and> (\<exists>init'. entered c s0 x init' \<and> flows_to c init pc x init')"
proof -
  let ?i = "code_of c ! pc"
  obtain k t where k: "st_initialized k = init" "length init = ps_registers c" "states_sized (ps_registers c) (st_incoming k)"
      "trace_ok c s0 (Suc pc) t" "passed c s0 (Suc pc) t" "pass_arm c k pc ?i = Ok t"
      "\<And>x kept. map_of (st_backward k) x = Some kept \<Longrightarrow> x \<le> pc \<and> entered c s0 x kept"
    by (rule entered_step [OF acc n e]) blast
  have len: "length (st_initialized k) = ps_registers c" using k(1,2) by simp
  consider (fall) "x = Suc pc" "\<not> terminates ?i" "\<not> is_jump ?i"
    | (forward) "x \<in> forward_targets pc ?i"
    | (jump_back) target where "?i = BiJump target" "x = unat target" "x \<le> pc"
  proof -
    have "pc < usize_max" using acc n by (simp add: accepted_pass_def)
    then have sat: "saturating_add pc 1 = Suc pc" by (simp add: saturating_add_def)
    have "pc < unat target" if "?i = BiJumpIf truthy r target" for truthy r target
      using k(6) that by (auto simp: rbind_eq_Ok ensure_eq_Ok)
    show thesis
    proof (cases "is_jump ?i")
      case True
      then obtain target where "?i = BiJump target" by (auto simp: is_jump_def split: bi.splits)
      then show thesis using x forward jump_back by (cases "x \<le> pc") (auto simp: forward_targets_def)
    next
      case False
      with \<open>\<And>truthy target r. ?i = BiJumpIf truthy r target \<Longrightarrow> pc < unat target\<close> x sat show thesis
        by (cases ?i) (auto simp: terminates_def is_jump_def forward_targets_def split: if_splits intro: fall forward)
    qed
  qed
  then show ?thesis
  proof cases
    case fall
    have "Suc pc < length (code_of c)"
    proof (rule ccontr)
      assume "\<not> Suc pc < length (code_of c)"
      then have "length (code_of c) - 1 = pc" using n by simp
      then show False using last_terminates [of "code_of c"] acc fall(2) by (simp add: accepted_pass_def)
    qed
    moreover have "st_reachable t" "\<forall>r < ps_registers c. st_initialized t ! r \<longrightarrow> init ! r \<or> r \<in> instruction_writes ?i"
      using k(4) e fall by (simp_all add: trace_ok_def)
    moreover have "length (st_initialized t) = ps_registers c" using k(4) by (simp add: trace_ok_def)
    moreover obtain init' where init': "entered c s0 (Suc pc) init'" "below init' (st_initialized t)"
      using entered_next(1) [OF acc calculation(1) k(5,4) calculation(2)] by blast
    ultimately have "flows_to c init pc (Suc pc) init'" by (simp add: flows_to_def below_def)
    with init' \<open>Suc pc < length (code_of c)\<close> show ?thesis using fall(1) by blast
  next
    case forward
    then have xn: "x < length (code_of c)" using arm_incoming(2) [OF k(6) len k(3)] by blast
    obtain s where s: "passed c s0 x s" "trace_ok c s0 x s" "holds_below s x init"
      using holds_below_later [OF acc e forward xn] by blast
    obtain init' where "entered c s0 x init'" "below init' init" using entered_next(2) [OF acc xn s] by blast
    then show ?thesis using xn k(2) by (auto simp: flows_to_def below_def)
  next
    case jump_back
    then have b: "backward_jump c k pc x = Ok t" using k(6) by (auto simp: rbind_eq_Ok)
    from backward_jump_Ok(2) [OF this] obtain kept required where kept: "map_of (st_backward k) x = Some kept"
      and req: "backward_branch_requirements (code_of c) x (ps_registers c) (ps_captures c) = (Ok required :: (bool list, blu_validation_error) res)"
      and lost: "\<not> list_ex (\<lambda>((k, i), r). r \<and> k \<and> \<not> i) (zip (zip kept init) required)" using k(1) by blast
    have ent: "entered c s0 x kept" using k(7) kept by blast
    obtain kx where "length kept = ps_registers c"
      by (rule entered_step [OF acc _ ent]) (use jump_back(3) n in auto)
    moreover have "length required = ps_registers c" by (rule requirements_complete(1) [OF req])
    ultimately have "\<forall>r < ps_registers c. required ! r \<longrightarrow> kept ! r \<longrightarrow> init ! r"
      using lost k(2) by (auto simp: list_ex_length)
    then show ?thesis using ent req jump_back(3) n by (auto simp: flows_to_def)
  qed
qed

text \<open>A register that is live on entry to an instruction the pass entered is initialized there.\<close>

lemma live_initialized:
  assumes "live_at (code_of c) (ps_captures c) pc r" and acc: "accepted_pass c s0" and "entered c s0 pc init"
  shows "r < ps_registers c \<and> init ! r"
  using assms(1,3)
proof (induction arbitrary: init)
  case (read pc r)
  then show ?case using entered_reads(1) [OF acc] by blast
next
  case (later pc q r)
  obtain init' where q: "entered c s0 q init'" "flows_to c init pc q init'"
    using entered_successor [OF acc later.hyps(1) later.prems later.hyps(2)] by blast
  have r: "r < ps_registers c \<and> init' ! r" by (rule later.IH [OF q(1)])
  from q(2) show ?case unfolding flows_to_def
  proof
    assume "\<exists>required. backward_branch_requirements (code_of c) q (ps_registers c) (ps_captures c) = (Ok required :: (bool list, blu_validation_error) res) \<and>
        (\<forall>r < ps_registers c. required ! r \<longrightarrow> init' ! r \<longrightarrow> init ! r)"
    then show ?thesis using requirements_complete(2) later.hyps(5) r by blast
  qed (use r later.hyps(4) in blast)
qed

section \<open>Execution\<close>

text \<open>
  \<open>runs_to p ps pc written\<close>: some path from the entry of the prototype reaches \<open>pc\<close>, having written
  the registers \<open>written\<close>; the caller fills the parameters.
\<close>

definition captures_of :: "blu_prototype \<Rightarrow> blu_prototype list \<Rightarrow> nat \<Rightarrow> reg list" where
  "captures_of p ps pc = closure_captures p ps (bp_code p ! pc)"

inductive runs_to :: "blu_prototype \<Rightarrow> blu_prototype list \<Rightarrow> nat \<Rightarrow> nat set \<Rightarrow> bool" for p ps where
  enter: "runs_to p ps 0 {parameter_offset p ..< parameter_end p}"
| step: "runs_to p ps pc written \<Longrightarrow> pc < length (bp_code p) \<Longrightarrow> pc' \<in> set (flow_successors pc (bp_code p ! pc)) \<Longrightarrow>
    runs_to p ps pc' (written \<union> instruction_writes (bp_code p ! pc))"

lemma fill_range_total: "a \<le> b \<Longrightarrow> b \<le> length xs \<Longrightarrow> \<exists>ys. fill_range a b xs = Ok ys"
  by (simp add: fill_range_def)

lemma accepted_prototype:
  assumes "prototype_code alloc index p ps limits = Ok ()" and "length (bp_code p) \<le> u32_max"
  defines "c \<equiv> pass_of alloc index p ps limits"
  obtains s0 where "accepted_pass c s0" and "\<And>r. r < ps_registers c \<Longrightarrow> st_initialized s0 ! r \<longleftrightarrow> r \<in> {parameter_offset p ..< parameter_end p}"
proof -
  obtain init where init: "fill_range (parameter_offset p) (parameter_end p) (replicate (unat (bp_register_count p)) False)
        = (Ok init :: (bool list, blu_validation_error) res)"
    and run: "\<exists>t. fold_res (pass_step c) \<lparr>st_initialized = init, st_incoming = [], st_backward = [], st_reachable = True\<rparr>
        (enumerate 0 (bp_code p)) = Ok t"
    and last: "ends_prototype (bp_code p)"
    using assms(1) unfolding c_def prototype_code_def Let_def rbind_eq_Ok ensure_eq_Ok by blast
  let ?s0 = "\<lparr>st_initialized = init, st_incoming = [], st_backward = [], st_reachable = True\<rparr>"
  have regs: "ps_registers c = unat (bp_register_count p)" "code_of c = bp_code p" by (simp_all add: c_def pass_of_def code_of_def)
  have "unat (bp_register_count p) < 65536" using unsigned_less [of "bp_register_count p"] by simp
  then have "accepted_pass c ?s0"
    using run last assms(2) nth_fill_range(1) [OF init] regs
    by (simp add: accepted_pass_def c_def pass_of_def code_of_def u32_max_def usize_max_def)
  moreover have "st_initialized ?s0 ! r \<longleftrightarrow> r \<in> {parameter_offset p ..< parameter_end p}" if "r < ps_registers c" for r
    using nth_fill_range(2) [OF init, of r] that regs by simp
  ultimately show thesis by (rule that)
qed

lemma runs_to_entered:
  assumes "runs_to p ps pc written"
    and acc: "accepted_pass c s0" and c: "code_of c = bp_code p" "ps_prototype c = p" "ps_prototypes c = ps"
    and params: "\<And>r. r < ps_registers c \<Longrightarrow> st_initialized s0 ! r \<longleftrightarrow> r \<in> {parameter_offset p ..< parameter_end p}"
  shows "pc < length (bp_code p) \<and> (\<exists>init. entered c s0 pc init) \<and>
    (\<forall>r. live_at (code_of c) (ps_captures c) pc r \<longrightarrow> r \<in> written)"
  using assms(1)
proof induction
  case enter
  have n: "0 < length (code_of c)" using last_terminates acc by (auto simp: accepted_pass_def)
  have "passed c s0 0 s0" "st_reachable s0" using acc by (simp_all add: passed_def accepted_pass_def)
  then obtain init where init: "entered c s0 0 init" "below init (st_initialized s0)"
    using entered_next(1) [OF acc n _ trace_ok_0 [OF acc]] by blast
  have "r \<in> {parameter_offset p ..< parameter_end p}" if "live_at (code_of c) (ps_captures c) 0 r" for r
  proof -
    have "r < ps_registers c" "init ! r" using live_initialized [OF that acc init(1)] by auto
    then show ?thesis using init(2) params acc by (auto simp: below_def accepted_pass_def)
  qed
  then show ?case using n c init by auto
next
  case (step pc written pc')
  then obtain init where init: "entered c s0 pc init" by blast
  have n: "pc < length (code_of c)" and x: "pc' \<in> set (flow_successors pc (code_of c ! pc))" using step c by simp_all
  from entered_successor [OF acc n init x] have next_at: "pc' < length (code_of c)" "\<exists>init'. entered c s0 pc' init'" by blast+
  have "r \<in> written \<union> instruction_writes (bp_code p ! pc)" if "live_at (code_of c) (ps_captures c) pc' r" for r
    using live_at.later [OF n x next_at(1) _ that] step.IH c(1) by auto
  then show ?case using next_at c(1) by simp
qed

text \<open>
  C1: whatever path control takes through an accepted prototype, fallthrough, either side of a branch or a
  jump in either direction, it stays inside the code, and each instruction it reaches reads only registers
  that the path has written (or that hold parameters) and names only registers of the frame.
\<close>

theorem registers_initialised:
  assumes "bv_validate_prototype alloc index p ps sources limits = Ok ()" and "runs_to p ps pc written"
  shows "pc < length (bp_code p) \<and>
    instruction_reads (captures_of p ps pc) (bp_code p ! pc) \<subseteq> written \<and>
    (\<forall>r \<in> instruction_reads (captures_of p ps pc) (bp_code p ! pc) \<union> instruction_writes (bp_code p ! pc).
       r < unat (bp_register_count p))"
proof -
  have code: "prototype_code alloc index p ps limits = Ok ()" and len: "length (bp_code p) \<le> u32_max"
    using assms(1)
    by (auto simp: bv_validate_prototype_def prototype_counts_def check_wire_len_def rbind_eq_Ok ensure_eq_Ok)
  let ?c = "pass_of alloc index p ps limits"
  obtain s0 where acc: "accepted_pass ?c s0"
    and params: "\<And>r. r < ps_registers ?c \<Longrightarrow> st_initialized s0 ! r \<longleftrightarrow> r \<in> {parameter_offset p ..< parameter_end p}"
    using accepted_prototype [OF code len] by blast
  have c: "code_of ?c = bp_code p" "ps_prototype ?c = p" "ps_prototypes ?c = ps" "ps_registers ?c = unat (bp_register_count p)"
    by (simp_all add: pass_of_def code_of_def)
  from runs_to_entered [OF assms(2) acc c(1-3) params] obtain init where
    pc: "pc < length (bp_code p)" and ent: "entered ?c s0 pc init"
    and live: "\<And>r. live_at (code_of ?c) (ps_captures ?c) pc r \<Longrightarrow> r \<in> written" by blast
  have caps: "captures_at (ps_captures ?c) pc = captures_of p ps pc"
    using captures_at_code [OF acc] pc c by (simp add: captures_of_def)
  note entered_reads [OF acc _ ent, unfolded caps c, OF pc]
  moreover have "r \<in> written" if "r \<in> instruction_reads (captures_of p ps pc) (bp_code p ! pc)" for r
    by (rule live) (rule live_at.read, use pc that caps c in simp_all)
  ultimately show ?thesis using pc by blast
qed

end
