(* ===== verification/Blu_Sample.thy ===== *)
theory Blu_Sample
  imports Blu_Registers
begin

text \<open>
  A small artifact the validator accepts, to which the properties of accepted artifacts are applied: a
  main function that makes a closure over one of its registers in a loop, and the closure's function.
\<close>

definition sample_span :: byte_span where "sample_span = ByteSpan 7 0 4"

definition sample_loop :: blu_prototype where
  "sample_loop =
     \<lparr>bp_profile = Blu, bp_source = 7, bp_register_count = 2, bp_parameter_count = 0, bp_is_vararg = False,
      bp_line_defined = 0, bp_last_line_defined = 3,
      bp_required_features = BASELINE OR FORWARD_BRANCHES OR BACKWARD_BRANCHES OR CLOSURES,
      bp_constants = [CString [0x61]], bp_upvalues = [], bp_children = [1],
      bp_code = [BiLoadConstant 0 0, BiNewClosure 1 0, BiJumpIf True 1 4, BiJump 1, BiReturn 0 2],
      bp_source_map = [sample_span, sample_span, sample_span, sample_span, sample_span], bp_line_info = [1, 1, 2, 2, 3],
      bp_locals = [\<lparr>ld_name = [0x78], ld_register = 0, ld_start_pc = 2, ld_end_pc = 5\<rparr>], bp_upvalue_debug = []\<rparr>"

definition sample_closure :: blu_prototype where
  "sample_closure =
     \<lparr>bp_profile = Blu, bp_source = 7, bp_register_count = 1, bp_parameter_count = 0, bp_is_vararg = False,
      bp_line_defined = 0, bp_last_line_defined = 1, bp_required_features = BASELINE OR CLOSURES,
      bp_constants = [], bp_upvalues = [ParentRegister 0], bp_children = [], bp_code = [BiGetUpvalue 0 0, BiReturn 0 1],
      bp_source_map = [sample_span, sample_span], bp_line_info = [1, 1], bp_locals = [],
      bp_upvalue_debug = [\<lparr>ud_name = [0x78], ud_upvalue = 0, ud_start_pc = 0, ud_end_pc = 2\<rparr>]\<rparr>"

definition sample_artifact :: artifact where
  "sample_artifact =
     \<lparr>ar_format = BluV2,
      ar_compiler = \<lparr>ci_id = replicate 16 9, ci_name = [0x62], ci_version = [0x31], ci_revision = None\<rparr>,
      ar_sources = [\<lparr>sr_identity = \<lparr>si_id = 7, si_name = [0x6D]\<rparr>, sr_byte_len = 9, sr_digest = replicate 32 1\<rparr>],
      ar_prototypes = [sample_loop, sample_closure], ar_main = 0\<rparr>"

lemmas feature_bits = BASELINE_def INTEGER_CONSTANTS_def FLOOR_DIVISION_def CONCATENATION_def COMPARISONS_def
  FORWARD_BRANCHES_def BACKWARD_BRANCHES_def GLOBALS_def TABLES_def FIXED_CALLS_def CLOSURES_def
  FIXED_MULTI_RESULTS_def RETURN_CALLS_def VARARGS_def DYNAMIC_CALL_RESULTS_def BITWISE_OPERATORS_def
  DUMPED_FUNCTION_def IMPLICIT_ENVIRONMENT_def STRIPPED_DEBUG_LINES_def SUPPORTED_def feature_def

lemma sample_features:
  "bp_required_features sample_loop = 1121" "bp_required_features sample_closure = 1025"
  "bp_required_features sample_loop AND NOT SUPPORTED = 0" "bp_required_features sample_closure AND NOT SUPPORTED = 0"
  by code_simp+

lemma sample_loop_features: "prototype_features 0 sample_loop = Ok ()"
  by code_simp

lemma sample_closure_features: "prototype_features 1 sample_closure = Ok ()"
  by code_simp

lemma sample_source_map:
  "prototype_source_map 0 sample_loop [(7, 9)] = Ok ()"
  "prototype_source_map 1 sample_closure [(7, 9)] = Ok ()"
  by (simp_all add: prototype_source_map_def sample_loop_def sample_closure_def sample_span_def)

lemma sample_counts:
  "prototype_counts sample_loop default_blu_limits = Ok ()"
  "prototype_counts sample_closure default_blu_limits = Ok ()"
  by (simp_all add: prototype_counts_def sample_loop_def sample_closure_def sample_span_def bv_check_limit_def check_wire_len_def
    default_blu_limits_def u32_max_def)

definition sample_pass :: pass where
  "sample_pass = pass_of (\<lambda>_. True) 0 sample_loop [sample_loop, sample_closure] default_blu_limits"

lemma sample_pass_fields [simp]:
  "ps_alloc sample_pass = (\<lambda>_. True)" "ps_index sample_pass = 0" "ps_prototype sample_pass = sample_loop"
  "ps_prototypes sample_pass = [sample_loop, sample_closure]" "ps_limits sample_pass = default_blu_limits"
  "ps_registers sample_pass = 2" "ps_backward sample_pass = [False, True, False, False, False]"
  "ps_captures sample_pass = [[], [0], [], [], []]"
  "code_of sample_pass = [BiLoadConstant 0 0, BiNewClosure 1 0, BiJumpIf True 1 4, BiJump 1, BiReturn 0 2]"
  by (simp_all add: sample_pass_def pass_of_def backward_targets_def sample_loop_def sample_closure_def get_def code_of_def)

lemma two_registers: "replicate 2 x = [x, x]" "[0..<2] = [0, 1]"
  by (simp_all add: numeral_2_eq_2)

lemma sample_requirements:
  "backward_branch_requirements (code_of sample_pass) 1 2 (ps_captures sample_pass) = Ok [True, False]"
  by (simp add: backward_branch_requirements_def get_def mark_required_at_def set_at_def mark_written_at_def terminates_def
    saturating_add_def usize_max_def range_within_def two_registers)

lemmas pass_arm_evals = pass_step_def is_consumer_def join_incoming_def backward_entry_def keep_backward_state_def index_at_def
  is_close_upvalues_def instruction_is_legal_def invalid_def names_register_def bv_check_register_def writes_register_def
  set_at_def reads_register_def check_read_def state_bytes_def checked_add_def checked_mul_def usize_max_def bv_check_limit_def
  default_blu_limits_def try_reserve_validation_def add_branch_def backward_jump_def ends_path_def reads_returned_def range_end_def
  get_def

lemma sample_run:
  "fold_res (pass_step sample_pass)
     \<lparr>st_initialized = [False, False], st_incoming = [], st_backward = [], st_reachable = True\<rparr>
     (enumerate 0 (code_of sample_pass)) =
   Ok \<lparr>st_initialized = [True, True], st_incoming = [], st_backward = [(1, [True, False])], st_reachable = False\<rparr>"
  by (simp add: pass_arm_evals sample_requirements [simplified] sample_loop_def sample_closure_def)

lemma sample_code:
  "prototype_code (\<lambda>_. True) 0 sample_loop [sample_loop, sample_closure] default_blu_limits = Ok ()"
proof -
  have "parameter_offset sample_loop = 0"
    by (simp add: parameter_offset_def requires_def features_contain_def sample_features feature_bits)
  then have "parameter_end sample_loop = 0"
    by (simp add: parameter_end_def sample_loop_def saturating_add_def)
  moreover have "bp_code sample_loop = code_of sample_pass" "unat (bp_register_count sample_loop) = 2"
    by (simp_all add: sample_loop_def)
  moreover have "ends_prototype (code_of sample_pass)"
    by (simp add: ends_prototype_def get_def some_is_def terminates_def)
  ultimately show ?thesis
    using \<open>parameter_offset sample_loop = 0\<close> unfolding prototype_code_def Let_def sample_pass_def [symmetric]
    by (simp add: try_reserve_validation_def fill_range_def two_registers sample_run del: sample_pass_fields)
qed

lemma blu_sample_debug:
  "bv_validate_debug 0 sample_loop default_blu_limits = Ok ()"
  "bv_validate_debug 1 sample_closure default_blu_limits = Ok ()"
  by (simp_all add: bv_validate_debug_def check_debug_name_def sample_loop_def sample_closure_def sample_span_def bv_check_limit_def check_wire_len_def
    default_blu_limits_def u32_max_def)

lemma sample_prototype:
  "bv_validate_prototype (\<lambda>_. True) 0 sample_loop [sample_loop, sample_closure] [(7, 9)] default_blu_limits = Ok ()"
proof -
  have "each (constant_bytes default_blu_limits) (bp_constants sample_loop) = Ok ()"
    by (simp add: sample_loop_def constant_bytes_def bv_check_limit_def check_wire_len_def default_blu_limits_def u32_max_def)
  then show ?thesis
    by (simp add: bv_validate_prototype_def sample_counts sample_loop_features sample_source_map sample_code blu_sample_debug)
qed

text \<open>A run of the main function that goes round the loop once and returns.\<close>

lemma sample_runs_to: "runs_to sample_loop [sample_loop, sample_closure] 4 {0, 1}"
proof -
  let ?ps = "[sample_loop, sample_closure]"
  have code: "bp_code sample_loop = [BiLoadConstant 0 0, BiNewClosure 1 0, BiJumpIf True 1 4, BiJump 1, BiReturn 0 2]"
    by (simp add: sample_loop_def)
  have "parameter_offset sample_loop = 0"
    by (simp add: parameter_offset_def requires_def features_contain_def sample_features feature_bits)
  then have "runs_to sample_loop ?ps 0 {}"
    using runs_to.enter [of sample_loop ?ps] by (simp add: parameter_end_def sample_loop_def saturating_add_def)
  from runs_to.step [OF this, of 1] have "runs_to sample_loop ?ps 1 {0}"
    by (simp add: code terminates_def saturating_add_def usize_max_def instruction_writes_def)
  from runs_to.step [OF this, of 2] have "runs_to sample_loop ?ps 2 {0, 1}"
    by (simp add: code terminates_def saturating_add_def usize_max_def instruction_writes_def insert_commute)
  from runs_to.step [OF this, of 4] show ?thesis
    by (simp add: code instruction_writes_def)
qed

text \<open>The return of both registers after one turn of the loop.\<close>

theorem registers_initialised_witness:
  "4 < length (bp_code sample_loop) \<and> instruction_reads [] (BiReturn 0 2) \<subseteq> {0, 1} \<and> (1::nat) < unat (bp_register_count sample_loop)"
proof -
  have "captures_of sample_loop [sample_loop, sample_closure] 4 = []" "bp_code sample_loop ! 4 = BiReturn 0 2"
    by (simp_all add: captures_of_def sample_loop_def)
  moreover have "1 \<in> instruction_reads [] (BiReturn 0 2)" by (simp add: instruction_reads_def)
  ultimately show ?thesis using registers_initialised [OF sample_prototype sample_runs_to] by auto
qed

end
