(* ===== verification/Blu_Dynamic.thy ===== *)
theory Blu_Dynamic
  imports Blu_Registers
begin

text \<open>
  The dynamic results of a call and the operands of an accepted Blu prototype: a producer of dynamic
  results is directly followed by a consumer, nothing but its producer leads to a consumer, and every
  index an instruction carries is inside the table it points into.
\<close>

section \<open>Which instructions the pass enters\<close>

lemma entered_unless_close:
  assumes acc: "accepted_pass c s0" and n: "pc < length (code_of c)" and i: "\<not> is_close_upvalues (code_of c ! pc)"
  obtains s t init k where "passed c s0 pc s" and "pass_step c s (pc, code_of c ! pc) = Ok t" and "entered c s0 pc init"
    and "pass_arm c k pc (code_of c ! pc) = Ok t" and "instruction_is_legal (bp_profile (ps_prototype c)) (code_of c ! pc)"
proof -
  obtain s t where s: "passed c s0 pc s" "pass_step c s (pc, code_of c ! pc) = Ok t"
    using passed_Suc [OF acc n] by blast
  from s(2) show thesis
  proof (rule pass_step_Ok)
    fix e k assume e: "backward_entry c (join_incoming s pc) pc = Ok e" "st_reachable e"
      and arm: "pass_arm c k pc (code_of c ! pc) = Ok t"
      and legal: "instruction_is_legal (bp_profile (ps_prototype c)) (code_of c ! pc)"
    have "entered c s0 pc (st_initialized e)" using e s(1) by (auto simp: entered_def)
    then show thesis by (rule that [OF s _ arm legal])
  qed (use i in simp)
qed

section \<open>Dynamic results\<close>

lemma mark_backward_mono: "x < length flags \<Longrightarrow> flags ! x \<Longrightarrow> mark_backward flags entry ! x"
  by (cases "(flags, entry)" rule: mark_backward.cases) (auto simp: nth_list_update)

lemma marks_mono: "x < length flags \<Longrightarrow> flags ! x \<Longrightarrow> foldl mark_backward flags entries ! x"
  by (induction entries arbitrary: flags) (simp_all add: mark_backward_mono)

lemma marks_complete:
  assumes "(pc, BiJump target) \<in> set entries" and "unat target \<le> pc" and "unat target < length flags"
  shows "foldl mark_backward flags entries ! unat target"
  using assms by (induction entries arbitrary: flags) (auto intro: marks_mono)

lemma backward_targets_complete:
  assumes "q < length code" and "code ! q = BiJump target" and "unat target \<le> q"
  shows "backward_targets code ! unat target"
proof -
  have "(q, BiJump target) \<in> set (enumerate 0 code)"
    using assms(1,2) by (auto simp: in_set_enumerate_eq)
  then show ?thesis using assms unfolding backward_targets_def by (intro marks_complete) auto
qed

lemma misplaced_consumer_Ok:
  assumes "misplaced_consumer c s pc = Ok False"
  shows "map_of (st_incoming s) pc = None" and "\<not> ps_backward c ! pc" and "after_producer c pc"
  using assms by (auto simp: misplaced_consumer_def rbind_eq_Ok index_at_eq_Ok split: if_splits)

lemma after_producer_iff:
  "after_producer c pc \<longleftrightarrow> 0 < pc \<and> pc - 1 < length (code_of c) \<and> is_producer (code_of c ! (pc - 1))"
  by (cases pc) (auto simp: after_producer_def checked_sub_def get_def some_is_def)

lemma consumer_not_close: "is_consumer i \<Longrightarrow> \<not> is_close_upvalues i"
  by (auto simp: is_close_upvalues_def is_consumer_def split: bi.splits)

lemma branch_not_close: "is_branch i \<Longrightarrow> \<not> is_close_upvalues i"
  by (auto simp: is_close_upvalues_def is_branch_def split: bi.splits)

lemma consumer_follows_producer:
  assumes acc: "accepted_pass c s0" and flags: "ps_backward c = backward_targets (code_of c)" and n: "pc < length (code_of c)"
    and i: "is_consumer (code_of c ! pc)"
  shows "after_producer c pc" and "q < length (code_of c) \<Longrightarrow> pc \<in> set (flow_successors q (code_of c ! q)) \<Longrightarrow> Suc q = pc"
proof -
  obtain s t where s: "passed c s0 pc s" "pass_step c s (pc, code_of c ! pc) = Ok t"
    using entered_unless_close [OF acc n consumer_not_close [OF i]] by blast
  then have placed: "misplaced_consumer c s pc = Ok False" using i by (auto simp: pass_step_def rbind_eq_Ok ensure_eq_Ok)
  note free = misplaced_consumer_Ok [OF placed]
  show "after_producer c pc" by (rule free(3))
  assume q: "q < length (code_of c)" "pc \<in> set (flow_successors q (code_of c ! q))"
  show "Suc q = pc"
  proof (rule ccontr)
    assume other: "Suc q \<noteq> pc"
    have "q < usize_max" using acc q(1) by (simp add: accepted_pass_def)
    then have sat: "saturating_add q 1 = Suc q" by (simp add: saturating_add_def)
    then have br: "is_branch (code_of c ! q)" using q(2) other by (cases "code_of c ! q") (auto simp: is_branch_def split: if_splits)
    obtain init t k where e: "entered c s0 q init" "pass_arm c k q (code_of c ! q) = Ok t"
      using entered_unless_close [OF acc q(1) branch_not_close [OF br]] by blast
    show False
    proof (cases "pc \<in> forward_targets q (code_of c ! q)")
      case True
      then obtain u where "passed c s0 pc u" "holds_below u pc init"
        using holds_below_later [OF acc e(1) True n] by blast
      then show False using free(1) s(1) passed_fun by (fastforce simp: holds_below_def)
    next
      case False
      then obtain target where "code_of c ! q = BiJump target" "unat target = pc" "pc \<le> q"
        using br q(2) sat other e(2)
        by (cases "code_of c ! q") (auto simp: is_branch_def forward_targets_def rbind_eq_Ok ensure_eq_Ok)
      then show False using backward_targets_complete [OF q(1)] free(2) flags by auto
    qed
  qed
qed

section \<open>Operands\<close>

text \<open>
  What an instruction carries: the registers it reads (for a closure, those it captures) and writes,
  one by one or as a range, and the indices of constants, children, upvalues and code.
  \<open>CloseUpvalues\<close> names no register, only a bound on those it closes.
\<close>

definition registers_in_range :: "blu_prototype \<Rightarrow> blu_prototype list \<Rightarrow> bi \<Rightarrow> bool" where
  "registers_in_range p ps i \<longleftrightarrow>
     (\<forall>r \<in> instruction_reads (closure_captures p ps i) i \<union> instruction_writes i. r < unat (bp_register_count p))"

definition operands_in_range :: "blu_prototype \<Rightarrow> blu_prototype list \<Rightarrow> bi \<Rightarrow> bool" where
  "operands_in_range p ps i \<longleftrightarrow> registers_in_range p ps i \<and>
     (case i of
        BiLoadConstant _ k \<Rightarrow> unat k < length (bp_constants p)
      | BiLoadGlobal _ name \<Rightarrow> is_string_constant p (unat name)
      | BiStoreGlobal name _ \<Rightarrow> is_string_constant p (unat name)
      | BiNewClosure _ child \<Rightarrow>
          unat child < length (bp_children p) \<and> unat (bp_children p ! unat child) < length ps \<and>
          (\<forall>k. ParentUpvalue k \<in> set (bp_upvalues (ps ! unat (bp_children p ! unat child))) \<longrightarrow> unat k < length (bp_upvalues p))
      | BiGetUpvalue _ u \<Rightarrow> unat u < length (bp_upvalues p)
      | BiSetUpvalue u _ \<Rightarrow> unat u < length (bp_upvalues p)
      | BiJumpIf _ _ target \<Rightarrow> unat target < length (bp_code p)
      | BiJump target \<Rightarrow> unat target < length (bp_code p)
      | _ \<Rightarrow> True)"

text \<open>
  The instructions the profiles differ on: integer division and the bitwise operators came with Lua 5.3,
  and Luau has the first of them only.
\<close>

definition available_in :: "semantic_profile \<Rightarrow> bi \<Rightarrow> bool" where
  "available_in profile i \<longleftrightarrow>
     (is_floor_divide i \<longrightarrow> profile \<notin> {Lua51, Lua52}) \<and>
     (is_bitwise i \<longrightarrow> profile \<notin> {Lua51, Lua52, Luau})"

lemma floor_divide_not_bitwise: "is_floor_divide i \<Longrightarrow> \<not> is_bitwise i"
  by (cases i) simp_all

lemma legal_available: "instruction_is_legal profile i \<Longrightarrow> available_in profile i"
  by (auto simp: instruction_is_legal_def available_in_def floor_division_is_legal_def floor_divide_not_bitwise
      split: if_splits)

lemma arm_operands:
  assumes "pass_arm c s pc i = Ok t" and "registers_in_range (ps_prototype c) (ps_prototypes c) i"
  shows "operands_in_range (ps_prototype c) (ps_prototypes c) i"
  unfolding operands_in_range_def
  using assms
  by (cases i)
    (fastforce simp: operands_in_range_def pass_simps rbind_eq_Ok ensure_eq_Ok ok_or_eq_Ok get_eq_Some Let_def code_of_def each_eq_Ok)+

lemma arm_producer:
  assumes "pass_arm c s pc i = Ok t" and "is_producer i"
  shows "Suc pc < length (code_of c) \<and> is_consumer (code_of c ! Suc pc)"
  using assms by (cases i) (auto simp: is_producer_def rbind_eq_Ok ensure_eq_Ok some_is_def get_def split: if_splits)

section \<open>The properties\<close>

lemma validated_pass:
  assumes "bv_validate_prototype alloc index p ps sources limits = Ok ()"
  defines "c \<equiv> pass_of alloc index p ps limits"
  obtains s0 where "accepted_pass c s0" and "code_of c = bp_code p" and "ps_prototype c = p" and "ps_prototypes c = ps"
    and "ps_backward c = backward_targets (code_of c)"
proof -
  have "prototype_code alloc index p ps limits = Ok ()" and "length (bp_code p) \<le> u32_max"
    using assms(1) by (auto simp: bv_validate_prototype_def prototype_counts_def check_wire_len_def rbind_eq_Ok ensure_eq_Ok)
  from accepted_prototype [OF this] obtain s0 where "accepted_pass c s0" unfolding c_def by blast
  then show thesis by (rule that) (simp_all add: c_def pass_of_def code_of_def)
qed

text \<open>
  C5: in an accepted prototype an instruction that leaves all results of a call is directly followed by one
  that consumes them; every consumer directly follows such a producer, and no branch or other instruction
  enters it.
\<close>

theorem dynamic_results_paired:
  assumes "bv_validate_prototype alloc index p ps sources limits = Ok ()" and "pc < length (bp_code p)"
  shows "(is_producer (bp_code p ! pc) \<longrightarrow> Suc pc < length (bp_code p) \<and> is_consumer (bp_code p ! Suc pc)) \<and>
    (is_consumer (bp_code p ! pc) \<longrightarrow>
       0 < pc \<and> is_producer (bp_code p ! (pc - 1)) \<and>
       (\<forall>q < length (bp_code p). pc \<in> set (flow_successors q (bp_code p ! q)) \<longrightarrow> Suc q = pc))"
proof -
  let ?c = "pass_of alloc index p ps limits"
  obtain s0 where acc: "accepted_pass ?c s0" and c: "code_of ?c = bp_code p" and flags: "ps_backward ?c = backward_targets (code_of ?c)"
    using validated_pass [OF assms(1)] by blast
  have "Suc pc < length (bp_code p) \<and> is_consumer (bp_code p ! Suc pc)" if "is_producer (bp_code p ! pc)"
  proof -
    have "\<not> is_close_upvalues (bp_code p ! pc)" using that by (auto simp: is_producer_def is_close_upvalues_def split: bi.splits)
    then obtain k t where "pass_arm ?c k pc (bp_code p ! pc) = Ok t"
      using entered_unless_close [OF acc, of pc] assms(2) c by metis
    then show ?thesis using arm_producer that c by metis
  qed
  then show ?thesis
    using consumer_follows_producer [OF acc flags, unfolded c after_producer_iff, OF assms(2)] by blast
qed

lemma close_upvalues_fine: "is_close_upvalues i \<Longrightarrow> available_in profile i \<and> operands_in_range p ps i"
  by (cases i) (auto simp: is_close_upvalues_def available_in_def operands_in_range_def registers_in_range_def
      instruction_reads_def instruction_writes_def)

text \<open>
  C16: every operand of every instruction of an accepted prototype exists: each register it reads,
  captures or writes is in the frame, and its constants, upvalues, children and jump targets are in
  their tables, with the kind the instruction needs. An accepted prototype has a bitwise instruction only in
  a profile with bitwise operators, and no floor division for Lua 5.1 or 5.2.
\<close>

theorem accepted_operands:
  assumes "bv_validate_prototype alloc index p ps sources limits = Ok ()" and "i \<in> set (bp_code p)"
  shows "available_in (bp_profile p) i \<and> operands_in_range p ps i"
proof (cases "is_close_upvalues i")
  case True
  then show ?thesis by (rule close_upvalues_fine)
next
  case False
  let ?c = "pass_of alloc index p ps limits"
  obtain s0 where acc: "accepted_pass ?c s0" and c: "code_of ?c = bp_code p" "ps_prototype ?c = p" "ps_prototypes ?c = ps"
    using validated_pass [OF assms(1)] by blast
  obtain pc where pc: "pc < length (code_of ?c)" "code_of ?c ! pc = i" using assms(2) c(1) by (metis in_set_conv_nth)
  with entered_unless_close [OF acc pc(1)] False obtain k t init where
    arm: "pass_arm ?c k pc i = Ok t" and legal: "instruction_is_legal (bp_profile (ps_prototype ?c)) i"
    and ent: "entered ?c s0 pc init" by metis
  have regs: "ps_registers ?c = unat (bp_register_count p)" by (simp add: pass_of_def)
  have caps: "captures_at (ps_captures ?c) pc = closure_captures p ps i"
    using captures_at_code [OF acc pc(1)] pc(2) c by simp
  from entered_reads [OF acc pc(1) ent, unfolded caps pc(2) regs]
  have "registers_in_range p ps i" by (auto simp: registers_in_range_def)
  with arm_operands [OF arm] legal_available [OF legal] c show ?thesis by simp
qed

end
