(* ===== verification/Blu_Tree.thy ===== *)
theory Blu_Tree
  imports Blu_Validator
begin

text \<open>
  The prototype tree of \<open>blu-bytecode/src/blu.rs\<close>: what the parent index of \<open>validate\<close> records, that
  the walk from the main prototype then returns, and that the prototypes of an accepted artifact form
  a tree rooted at the main one.
\<close>

section \<open>The parent index\<close>

definition edge_list :: "(nat \<times> blu_prototype) list \<Rightarrow> (nat \<times> nat) list" where
  "edge_list entries = concat (map (\<lambda>(i, p). map (Pair i) (child_indices p)) entries)"

definition edges :: "blu_prototype list \<Rightarrow> (nat \<times> nat) set" where
  "edges ps = {(i, c). i < length ps \<and> c \<in> set (child_indices (ps ! i))}"

lemma edges_enumerate: "set (edge_list (enumerate 0 ps)) = edges ps"
proof -
  have "set (edge_list (enumerate 0 ps)) = (\<Union>(i, p)\<in>set (enumerate 0 ps). Pair i ` set (child_indices p))"
    by (auto simp: edge_list_def)
  also have "\<dots> = edges ps" by (fastforce simp: edges_def in_set_enumerate_eq)
  finally show ?thesis .
qed

definition adopted :: "nat \<Rightarrow> nat option list \<Rightarrow> (nat \<times> nat) list \<Rightarrow> bool" where
  "adopted n parents es \<longleftrightarrow>
     length parents = n \<and> distinct (map snd es) \<and> (\<forall>(i, c)\<in>set es. c < n \<and> c \<noteq> i) \<and>
     (\<forall>c < n. \<forall>i. parents ! c = Some i \<longleftrightarrow> (i, c) \<in> set es)"

lemma adopted_Nil: "adopted n (replicate n None) []"
  by (simp add: adopted_def)

lemma adopt_child_adopted:
  assumes "adopt_child n i parents w = Ok parents'" and "adopted n parents es"
  shows "adopted n parents' (es @ [(i, unat w)])"
proof -
  have w: "unat w < n" "unat w \<noteq> i" "parents ! unat w = None" "parents' = parents[unat w := Some i]"
    using assms(1) by (auto simp: adopt_child_def Let_def res_simps split: if_splits)
  have "unat w \<notin> snd ` set es"
  proof
    assume "unat w \<in> snd ` set es"
    then obtain j where "(j, unat w) \<in> set es" by auto
    then have "parents ! unat w = Some j" using assms(2) w(1) by (simp add: adopted_def)
    then show False using w(3) by simp
  qed
  then show ?thesis using assms(2) w by (auto simp: adopted_def nth_list_update image_iff)
qed

lemma adopt_children_adopted:
  assumes "fold_res (adopt_child n i) parents ws = Ok parents'" and "adopted n parents es"
  shows "adopted n parents' (es @ map (Pair i) (map unat ws))"
  using assms
proof (induction ws arbitrary: parents es)
  case (Cons w ws)
  obtain q where q: "adopt_child n i parents w = Ok q" "fold_res (adopt_child n i) q ws = Ok parents'"
    using Cons.prems(1) by (auto simp: res_simps)
  from Cons.IH [OF q(2) adopt_child_adopted [OF q(1) Cons.prems(2)]] show ?case by simp
qed simp

lemma adopt_prototypes_adopted:
  assumes "fold_res (adopt_prototype alloc a sources limits) parents entries = Ok parents'"
    and "adopted (length (ar_prototypes a)) parents es"
  shows "adopted (length (ar_prototypes a)) parents' (es @ edge_list entries)"
  using assms
proof (induction entries arbitrary: parents es)
  case (Cons entry entries)
  obtain i p where entry: "entry = (i, p)" by (cases entry)
  obtain q where q: "fold_res (adopt_child (length (ar_prototypes a)) i) parents (bp_children p) = Ok q"
      "fold_res (adopt_prototype alloc a sources limits) q entries = Ok parents'"
    using Cons.prems(1) unfolding fold_res.simps entry adopt_prototype_def prod.case rbind_eq_Ok by blast
  from Cons.IH [OF q(2) adopt_children_adopted [OF q(1) Cons.prems(2)]] show ?case
    by (simp add: entry edge_list_def child_indices_def)
qed (simp add: edge_list_def)

text \<open>What the first half of \<open>validate\<close> establishes.\<close>

definition tree_ready :: "blu_prototype list \<Rightarrow> nat \<Rightarrow> nat option list \<Rightarrow> bool" where
  "tree_ready ps main parents \<longleftrightarrow>
     main < length ps \<and> length parents = length ps \<and> edges ps \<subseteq> {..< length ps} \<times> {..< length ps} \<and>
     (\<forall>c < length ps. \<forall>i. parents ! c = Some i \<longleftrightarrow> (i, c) \<in> edges ps) \<and> parents ! main = None \<and>
     (\<forall>p\<in>set ps. distinct (child_indices p))"

lemma tree_ready_parent:
  assumes "tree_ready ps main parents" and "(i, c) \<in> edges ps"
  shows "c < length ps" and "parents ! c = Some i" and "c \<noteq> main"
proof -
  show "c < length ps" using assms by (auto simp: tree_ready_def)
  then show "parents ! c = Some i" using assms by (simp add: tree_ready_def)
  then show "c \<noteq> main" using assms by (auto simp: tree_ready_def)
qed

lemma tree_ready_unique:
  "tree_ready ps main parents \<Longrightarrow> (i, c) \<in> edges ps \<Longrightarrow> (j, c) \<in> edges ps \<Longrightarrow> i = j"
  using tree_ready_parent(2) [of ps main parents i c] tree_ready_parent(2) [of ps main parents j c] by simp

lemma validate_first_ready:
  assumes "validate_first alloc a limits = Ok parents"
  shows "tree_ready (ar_prototypes a) (unat (ar_main a)) parents"
proof -
  let ?ps = "ar_prototypes a"
  obtain sources where adopt: "fold_res (adopt_prototype alloc a sources limits) (replicate (length ?ps) None) (enumerate 0 ?ps) = Ok parents"
    and main: "unat (ar_main a) < length ?ps" "parents ! unat (ar_main a) = None"
    using assms by (auto simp: validate_first_def artifact_counts_def Let_def rbind_eq_Ok ensure_eq_Ok index_at_eq_Ok)
  from adopt_prototypes_adopted [OF adopt adopted_Nil] have ad: "adopted (length ?ps) parents (edge_list (enumerate 0 ?ps))" by simp
  have snd: "map snd (edge_list (enumerate k qs)) = concat (map child_indices qs)" for k and qs :: "blu_prototype list"
    by (induction qs arbitrary: k) (simp_all add: edge_list_def comp_def)
  have "distinct (concat (map child_indices ?ps))" using ad snd [of 0 ?ps] by (simp add: adopted_def)
  then have "\<forall>p\<in>set ?ps. distinct (child_indices p)" by (simp add: distinct_concat_iff)
  moreover have "edges ?ps \<subseteq> {..< length ?ps} \<times> {..< length ?ps}"
    using ad edges_enumerate [of ?ps] by (auto simp: adopted_def edges_def)
  ultimately show ?thesis using ad main edges_enumerate [of ?ps] by (simp add: tree_ready_def adopted_def)
qed

section \<open>The walk from the main prototype returns\<close>

definition walked :: "blu_prototype list \<Rightarrow> nat \<Rightarrow> bool list \<Rightarrow> nat list \<Rightarrow> bool" where
  "walked ps main reachable pending \<longleftrightarrow>
     length reachable = length ps \<and> distinct pending \<and> (\<forall>i\<in>set pending. i < length ps \<and> \<not> reachable ! i) \<and>
     {i. i < length ps \<and> reachable ! i} \<union> set pending =
       insert main (edges ps `` {i. i < length ps \<and> reachable ! i}) \<and>
     (\<forall>i. i < length ps \<and> reachable ! i \<or> i \<in> set pending \<longrightarrow> (main, i) \<in> (edges ps)\<^sup>*)"

lemma walked_step:
  assumes ready: "tree_ready ps main parents" and w: "walked ps main reachable (i # pending)"
  shows "i < length reachable" and "walked ps main (reachable[i := True]) (rev (child_indices (ps ! i)) @ pending)"
proof -
  let ?V = "{i. i < length ps \<and> reachable ! i}"
  let ?kids = "set (child_indices (ps ! i))"
  have i: "i < length ps" "\<not> reachable ! i" "i \<notin> set pending" and len: "length reachable = length ps"
    using w by (simp_all add: walked_def)
  show "i < length reachable" using i len by simp
  have kids: "c \<in> ?kids \<longleftrightarrow> (i, c) \<in> edges ps" for c using i(1) by (simp add: edges_def)
  note unique = tree_ready_unique [OF ready]
  have root: "(j, main) \<notin> edges ps" for j using tree_ready_parent(3) [OF ready] by blast
  have all: "?V \<union> insert i (set pending) = insert main (edges ps `` ?V)" using w by (simp add: walked_def)
  have fresh: "c < length ps \<and> c \<notin> ?V \<and> c \<noteq> i \<and> c \<notin> set pending" if c: "c \<in> ?kids" for c
  proof -
    have e: "(i, c) \<in> edges ps" using c kids by simp
    have "c \<notin> edges ps `` ?V"
    proof
      assume "c \<in> edges ps `` ?V"
      then obtain j where "reachable ! j" "(j, c) \<in> edges ps" by blast
      then show False using unique [OF e, of j] i(2) by simp
    qed
    moreover have "c \<noteq> main" "c < length ps" using root e tree_ready_parent(1) [OF ready e] by blast+
    ultimately show ?thesis using all by blast
  qed
  have dist: "distinct (child_indices (ps ! i))" using ready i(1) by (auto simp: tree_ready_def)
  have V: "{j. j < length ps \<and> reachable[i := True] ! j} = insert i ?V"
    using i(1) len by (auto simp: nth_list_update)
  have all_after: "insert i ?V \<union> (?kids \<union> set pending) = insert main (edges ps `` insert i ?V)"
  proof -
    have "edges ps `` insert i ?V = ?kids \<union> edges ps `` ?V" using kids by auto
    then show ?thesis using all by blast
  qed
  have "(main, i) \<in> (edges ps)\<^sup>*" using w by (simp add: walked_def)
  moreover from this have "(main, c) \<in> (edges ps)\<^sup>*" if "c \<in> ?kids" for c using kids that by (meson rtrancl.rtrancl_into_rtrancl)
  ultimately have path: "(main, j) \<in> (edges ps)\<^sup>*" if "j = i \<or> j < length ps \<and> reachable ! j \<or> j \<in> ?kids \<or> j \<in> set pending" for j
    using w that by (auto simp: walked_def)
  have "distinct (rev (child_indices (ps ! i)) @ pending)"
    using dist w fresh by (auto simp: walked_def)
  moreover have "j < length ps \<and> \<not> reachable[i := True] ! j" if "j \<in> set (rev (child_indices (ps ! i)) @ pending)" for j
  proof -
    have "j \<noteq> i" "j < length ps" "\<not> reachable ! j" using that fresh w i(3) by (auto simp: walked_def)
    then show ?thesis by simp
  qed
  moreover have "(main, j) \<in> (edges ps)\<^sup>*"
    if "j < length ps \<and> reachable[i := True] ! j \<or> j \<in> set (rev (child_indices (ps ! i)) @ pending)" for j
    by (rule path) (use that V in auto)
  ultimately show "walked ps main (reachable[i := True]) (rev (child_indices (ps ! i)) @ pending)"
    unfolding walked_def V using len all_after by simp
qed

lemma reach_loop_returns:
  assumes ready: "tree_ready ps main parents" and "walked ps main reachable pending"
  shows "\<exists>r. reach_loop ps reachable pending = Some (Ok r) \<and> walked ps main r []"
  using assms(2)
proof (induction "length (filter Not reachable)" arbitrary: reachable pending rule: less_induct)
  case less
  show ?case
  proof (cases pending)
    case Nil
    then show ?thesis using less.prems by (simp add: reach_loop.simps)
  next
    case (Cons i rest)
    note step = walked_step [OF ready less.prems [unfolded Cons]]
    have len: "length reachable = length ps" "\<not> reachable ! i" using less.prems Cons by (simp_all add: walked_def)
    have count: "length (filter Not (xs[k := True])) < length (filter Not xs)" if "k < length xs" "\<not> xs ! k" for xs :: "bool list" and k
      using that
    proof (induction xs arbitrary: k)
      case (Cons x xs)
      then show ?case by (cases k) auto
    qed simp
    have "reach_loop ps reachable pending = reach_loop ps (reachable[i := True]) (rev (child_indices (ps ! i)) @ rest)"
      unfolding Cons by (subst reach_loop.simps) (use step(1) len(1) in simp)
    with less.hyps [OF count [OF step(1) len(2)] step(2)] show ?thesis by simp
  qed
qed

lemma walked_start: "tree_ready ps main parents \<Longrightarrow> walked ps main (replicate (length ps) False) [main]"
  by (auto simp: walked_def tree_ready_def)

lemma walk_from_main:
  assumes "tree_ready ps main parents"
  obtains r where "reach_loop ps (replicate (length ps) False) [main] = Some (Ok r)" and "walked ps main r []"
  using reach_loop_returns [OF assms walked_start [OF assms]] by blast

section \<open>The tree\<close>

definition is_tree :: "nat \<Rightarrow> nat \<Rightarrow> (nat \<times> nat) set \<Rightarrow> bool" where
  "is_tree n main e \<longleftrightarrow>
     main < n \<and> e \<subseteq> {..<n} \<times> {..<n} \<and> (\<forall>i. (i, main) \<notin> e) \<and>
     (\<forall>c < n. c \<noteq> main \<longrightarrow> (\<exists>!i. (i, c) \<in> e)) \<and> (\<forall>c < n. (main, c) \<in> e\<^sup>*) \<and> acyclic e"

lemma rooted_acyclic:
  assumes root: "\<And>i. (i, main) \<notin> e" and unique: "\<And>i j c. (i, c) \<in> e \<Longrightarrow> (j, c) \<in> e \<Longrightarrow> i = j"
    and reach: "\<And>i c. (i, c) \<in> e \<Longrightarrow> (main, c) \<in> e\<^sup>*"
  shows "acyclic e"
proof -
  have "(c, c) \<notin> e\<^sup>+" if "(main, c) \<in> e\<^sup>*" for c
    using that
  proof (induction rule: rtrancl_induct)
    case base
    then show ?case using root by (meson tranclD2)
  next
    case (step b c)
    show ?case
    proof
      assume "(c, c) \<in> e\<^sup>+"
      then obtain k where k: "(c, k) \<in> e\<^sup>*" "(k, c) \<in> e" by (meson tranclD2)
      then have "k = b" using unique step(2) by blast
      then have "(b, b) \<in> e\<^sup>+" using k(1) step(2) by (meson rtrancl_into_trancl2)
      then show False using step.IH by simp
    qed
  qed
  moreover have "(main, c) \<in> e\<^sup>*" if "(c, c) \<in> e\<^sup>+" for c using that reach by (meson tranclD2)
  ultimately show ?thesis by (auto simp: acyclic_def)
qed

lemma reached_is_tree:
  assumes ready: "tree_ready ps main parents" and w: "walked ps main r []" and all: "\<forall>i < length ps. r ! i"
  shows "is_tree (length ps) main (edges ps)"
proof -
  let ?e = "edges ps"
  note unique = tree_ready_unique [OF ready]
  have root: "(i, main) \<notin> ?e" for i using tree_ready_parent(3) [OF ready] by blast
  have "{i. i < length ps \<and> r ! i} = {..< length ps}" using all by auto
  then have cover: "{..< length ps} = insert main (?e `` {..< length ps})" using w by (simp add: walked_def)
  have parent: "\<exists>i. (i, c) \<in> ?e" if "c < length ps" "c \<noteq> main" for c using that cover by blast
  have reach: "\<forall>c < length ps. (main, c) \<in> ?e\<^sup>*" using w all by (simp add: walked_def)
  moreover have "acyclic ?e"
    by (rule rooted_acyclic [OF root unique]) (use ready reach in \<open>auto simp: tree_ready_def\<close>)
  ultimately show ?thesis using ready root parent unique unfolding is_tree_def tree_ready_def by metis
qed

section \<open>Accepted artifacts\<close>

lemma maybe_then_eq_Some_Ok: "maybe_then m f = Some (Ok y) \<longleftrightarrow> (\<exists>x. m = Some (Ok x) \<and> f x = Ok y)"
  by (cases m) (auto simp: rbind_eq_Ok)

lemma then_maybe_eq_Some_Ok: "then_maybe m f = Some (Ok y) \<longleftrightarrow> (\<exists>x. m = Ok x \<and> f x = Some (Ok y))"
  by (cases m) auto

lemma check_reachable_Ok: "check_reachable r = Ok u \<longleftrightarrow> (\<forall>i < length r. r ! i)"
proof -
  have "check_reachable r = Ok u \<longleftrightarrow> (\<forall>(i, b)\<in>set (enumerate 0 r). b)"
    by (simp add: check_reachable_def each_eq_Ok ensure_eq_Ok case_prod_beta')
  then show ?thesis by (simp add: Ball_def case_prod_beta' in_set_enumerate_eq)
qed

text \<open>What an upvalue of a child names in its parent.\<close>

definition upvalue_resolves :: "blu_prototype \<Rightarrow> upvalue \<Rightarrow> bool" where
  "upvalue_resolves parent u =
     (case u of
        ParentRegister r \<Rightarrow> unat r < unat (bp_register_count parent)
      | ParentUpvalue k \<Rightarrow> unat k < length (bp_upvalues parent))"

lemma check_upvalue_Ok: "check_upvalue i parent u = Ok v \<longleftrightarrow> upvalue_resolves parent u"
  by (cases u) (simp_all add: check_upvalue_def upvalue_resolves_def ensure_eq_Ok word_less_nat_alt)

lemma accepted_parts:
  assumes "blu_validate alloc a limits = Some (Ok ())"
  obtains parents r where "validate_first alloc a limits = Ok parents"
    and "walked (ar_prototypes a) (unat (ar_main a)) r []" and "\<forall>i < length (ar_prototypes a). r ! i"
    and "each (check_upvalues (ar_prototypes a) parents) (enumerate 0 (ar_prototypes a)) = Ok ()"
proof -
  let ?ps = "ar_prototypes a" and ?main = "unat (ar_main a)"
  obtain parents where first: "validate_first alloc a limits = Ok parents"
    and graph: "validate_prototype_graph alloc ?ps ?main = Some (Ok ())"
    and up: "each (check_upvalues ?ps parents) (enumerate 0 ?ps) = Ok ()"
    using assms by (auto simp: blu_validate_def then_maybe_eq_Some_Ok maybe_then_eq_Some_Ok)
  obtain r where r: "reach_loop ?ps (replicate (length ?ps) False) [?main] = Some (Ok r)" "walked ?ps ?main r []"
    by (rule walk_from_main [OF validate_first_ready [OF first]])
  moreover have "check_reachable r = Ok ()"
    using graph r(1) by (auto simp: validate_prototype_graph_def Let_def then_maybe_eq_Some_Ok maybe_then_eq_Some_Ok rbind_eq_Ok)
  ultimately show thesis using that [OF first r(2) _ up] by (simp add: check_reachable_Ok walked_def)
qed

text \<open>
  C4: the prototypes of an accepted artifact are a tree rooted at the main prototype: each is reached from it,
  none has two parents or is its own descendant, and the main prototype has no parent.
\<close>

theorem accepted_tree:
  assumes "blu_validate alloc a limits = Some (Ok ())"
  shows "is_tree (length (ar_prototypes a)) (unat (ar_main a)) (edges (ar_prototypes a))"
proof -
  obtain parents r where "validate_first alloc a limits = Ok parents" "walked (ar_prototypes a) (unat (ar_main a)) r []"
    "\<forall>i < length (ar_prototypes a). r ! i" by (rule accepted_parts [OF assms]) blast
  with validate_first_ready reached_is_tree show ?thesis by blast
qed

text \<open>
  C17: each upvalue of a prototype of an accepted artifact names a register or an upvalue that its parent
  has.
\<close>

theorem accepted_upvalues:
  assumes "blu_validate alloc a limits = Some (Ok ())" and "(i, c) \<in> edges (ar_prototypes a)"
    and "u \<in> set (bp_upvalues (ar_prototypes a ! c))"
  shows "upvalue_resolves (ar_prototypes a ! i) u"
proof -
  let ?ps = "ar_prototypes a"
  obtain parents where first: "validate_first alloc a limits = Ok parents"
    and up: "each (check_upvalues ?ps parents) (enumerate 0 ?ps) = Ok ()" by (rule accepted_parts [OF assms(1)]) blast
  note ready = validate_first_ready [OF first]
  have c: "c < length ?ps" "parents ! c = Some i" using tree_ready_parent [OF ready assms(2)] by auto
  then have "check_upvalues ?ps parents (c, ?ps ! c) = Ok ()" using up by (auto simp: each_eq_Ok in_set_enumerate_eq)
  then show ?thesis using c assms(3) by (auto simp: check_upvalues_def rbind_eq_Ok index_at_eq_Ok each_eq_Ok check_upvalue_Ok)
qed

end
