(* ===== verification/Blu_Verdict.thy ===== *)
theory Blu_Verdict
  imports Blu_Trace Blu_Tree
begin

text \<open>
  Validation always answers: on any artifact and limits, and however reservations fail, \<open>validate\<close>
  returns an acceptance or an error. No index is out of range, no slice is reversed, no addition of
  registers overflows, and the two walks of the prototype graph end.
\<close>

named_theorems calm \<open>calls that do not panic\<close>

section \<open>Checks without state\<close>

lemma calm_rbind: "m \<noteq> Panic \<Longrightarrow> (\<And>x. m = Ok x \<Longrightarrow> f x \<noteq> Panic) \<Longrightarrow> rbind m f \<noteq> Panic"
  by (cases m) auto

lemma calm_limits [calm]:
  "bv_check_limit what n limit \<noteq> Panic" "check_wire_len what n \<noteq> Panic" "ensure b e \<noteq> Panic" "ok_or m e \<noteq> Panic"
  "try_reserve_validation alloc what n \<noteq> Panic"
  by (simp_all add: bv_check_limit_def check_wire_len_def try_reserve_validation_def res_simps)

lemma calm_totals [calm]:
  "add_validation_total so_far amount what limit \<noteq> Panic" "tally sel upd amount what limit b \<noteq> Panic"
  "tally_decoded amount limits b \<noteq> Panic" "add_validation_product count width limits b \<noteq> Panic"
  "prototype_totals limits b p \<noteq> Panic" "constant_totals limits b k \<noteq> Panic" "name_totals limits b name \<noteq> Panic"
proof -
  show add: "add_validation_total so_far amount what limit \<noteq> Panic" for so_far amount what limit
    by (simp add: add_validation_total_def rbind_eq_Panic calm)
  show tally: "tally sel upd amount what limit b \<noteq> Panic" for sel upd amount what limit b
    by (simp add: tally_def rbind_eq_Panic add)
  then show decoded: "tally_decoded amount limits b \<noteq> Panic" for amount limits b by (simp add: tally_decoded_def)
  show product: "add_validation_product count width limits b \<noteq> Panic" for count width limits b
    by (simp add: add_validation_product_def rbind_eq_Panic calm decoded)
  show "prototype_totals limits b p \<noteq> Panic"
    by (simp add: prototype_totals_def rbind_eq_Panic tally product)
  show "constant_totals limits b k \<noteq> Panic"
    by (simp add: constant_totals_def rbind_eq_Panic tally decoded split: blu_constant.split)
  show "name_totals limits b name \<noteq> Panic" by (simp add: name_totals_def rbind_eq_Panic tally decoded)
qed

lemma calm_fold: "(\<And>s x. f s x \<noteq> Panic) \<Longrightarrow> fold_res f s xs \<noteq> Panic"
  by (rule fold_res_not_Panic [where I = "\<lambda>_. True"]) simp_all

lemma calm_aggregate [calm]: "validate_aggregate_limits a limits \<noteq> Panic"
  unfolding validate_aggregate_limits_def Let_def
  by (intro calm_rbind calm_fold calm)

lemma calm_sizes [calm]:
  "add_size sz n \<noteq> Panic" "add_scaled sz n k \<noteq> Panic" "profile_tag profile \<noteq> Panic" "prototype_size format sz p \<noteq> Panic"
  "encoded_size a \<noteq> Panic"
proof -
  show add: "add_size sz n \<noteq> Panic" for sz n by (simp add: add_size_def calm)
  show scaled: "add_scaled sz n k \<noteq> Panic" for sz n k by (simp add: add_scaled_def rbind_eq_Panic calm add)
  show tag: "profile_tag profile \<noteq> Panic" for profile by (cases profile) simp_all
  show prototype: "prototype_size format sz p \<noteq> Panic" for format sz p
    unfolding prototype_size_def by (intro calm_rbind calm_fold add scaled tag) (auto simp: rbind_eq_Panic add scaled)
  show "encoded_size a \<noteq> Panic"
    unfolding encoded_size_def Let_def by (intro calm_rbind calm_fold add prototype) (auto simp: add split: option.split)
qed

lemma calm_prototype_checks [calm]:
  "prototype_counts p limits \<noteq> Panic" "prototype_features i p \<noteq> Panic" "constant_bytes limits k \<noteq> Panic"
  "prototype_source_map i p sources \<noteq> Panic" "bv_validate_debug i p limits \<noteq> Panic"
proof -
  show "prototype_counts p limits \<noteq> Panic" unfolding prototype_counts_def by (intro calm_rbind calm)
  have one: "x \<noteq> Panic \<Longrightarrow> in_order xs \<noteq> Panic \<Longrightarrow> in_order (x # xs) \<noteq> Panic" for x :: "(unit, 'e) res" and xs
    by (simp add: in_order_def rbind_eq_Panic)
  have nil: "in_order [] \<noteq> Panic" by (simp add: in_order_def)
  show "prototype_features i p \<noteq> Panic"
    unfolding prototype_features_def needs_feature_def legal_feature_def Let_def by (intro one nil calm)
  show "constant_bytes limits k \<noteq> Panic"
    by (simp add: constant_bytes_def rbind_eq_Panic calm split: blu_constant.split)
  show "prototype_source_map i p sources \<noteq> Panic"
    unfolding prototype_source_map_def by (intro calm_rbind calm each_not_Panic) (auto simp: rbind_eq_Panic calm)
  show "bv_validate_debug i p limits \<noteq> Panic"
    unfolding bv_validate_debug_def check_debug_name_def Let_def by (intro calm_rbind calm each_not_Panic)
qed

section \<open>The requirements of a backward jump\<close>

lemma calm_mark: "length required = length initialized \<Longrightarrow> mark_required_at initialized required r \<noteq> Panic"
  by (simp add: mark_required_at_def res_simps)

lemma mark_required_at_length: "mark_required_at initialized required r = Ok q \<Longrightarrow> length q = length required"
  by (auto simp: mark_required_at_def res_simps split: if_splits)

lemma apply_mark_length:
  "apply_mark s m = Ok t \<Longrightarrow> length (snd s) = length (fst s) \<Longrightarrow> length (snd t) = length (fst t)"
  by (drule (1) apply_mark_marked) (simp add: marked_def)

lemma calm_apply_mark:
  assumes "length (snd s) = length (fst s)"
  shows "apply_mark s m \<noteq> (Panic :: (bool list \<times> bool list, 'e) res)"
proof -
  obtain a b where s: "s = (a, b)" "length b = length a" using assms by (cases s) simp
  have "fold_res (mark_required_at a) b rs \<noteq> (Panic :: (bool list, 'e) res)" for rs
    by (rule fold_res_not_Panic [where I = "\<lambda>b. length b = length a", OF _ calm_mark])
      (use s(2) in \<open>simp_all add: mark_required_at_length\<close>)
  then show ?thesis using s by (cases m) (auto simp: rbind_eq_Panic calm_mark)
qed

lemma calm_flow_loop:
  assumes "sized n f" and "length required = n"
  shows "flow_loop code captures f required work \<noteq> (Panic :: (bool list, 'e) res)"
  using assms
proof (induction code captures f required work rule: flow_loop.induct [where 'a = 'e])
  case (2 code captures f required pc work)
  show ?case
  proof (cases "f pc")
    case None
    with 2(1) 2(4,5) show ?thesis by simp
  next
    case (Some s)
    show ?thesis
    proof (cases "get code pc")
      case None
      with Some 2(2) 2(4,5) show ?thesis by simp
    next
      case at: (Some i)
      let ?ms = "flow_marks (concat (case get captures pc of None \<Rightarrow> [] | Some rs \<Rightarrow> [rs])) i"
      have len: "length required = length s" using 2(4,5) Some by (simp add: sized_def)
      have marks: "fold_res apply_mark (s, required) ?ms \<noteq> (Panic :: (bool list \<times> bool list, 'e) res)"
        by (rule fold_res_not_Panic [where I = "\<lambda>s. length (snd s) = length (fst s)", OF _ calm_apply_mark apply_mark_length])
          (use len in auto)
      have "flow_loop code captures g r2 work' \<noteq> (Panic :: (bool list, 'e) res)"
        if m: "fold_res apply_mark (s, required) ?ms = (Ok (init, r2) :: (bool list \<times> bool list, 'e) res)"
          and g: "foldl (merge_into init) (f, work) (filter (\<lambda>q. q < length code) (flow_successors pc i)) = (g, work')" for init r2 g work'
      proof -
        from apply_marks_marked [OF m] len have l: "length init = length s" "length r2 = length s" by (auto simp: marked_def)
        then have "sized n g" using merge_all_facts [OF g 2(4)] 2(5) len by auto
        then show ?thesis by (rule 2(3) [OF Some at m refl g [symmetric] refl]) (use l len 2(5) in simp)
      qed
      then show ?thesis using Some at marks by (auto simp: rbind_eq_Panic split: prod.splits)
    qed
  qed
qed simp

lemma calm_requirements [calm]: "backward_branch_requirements code target n captures \<noteq> Panic"
  unfolding backward_branch_requirements_def by (rule calm_flow_loop [where n = n]) (simp_all add: sized_def)

section \<open>The linear pass\<close>

lemma calm_registers [calm]:
  "reads_register c s pc r \<noteq> Panic" "names_register c pc r \<noteq> Panic" "range_end c pc start count what \<noteq> Panic"
  "names_upvalue c what u \<noteq> Panic" "global_name c name \<noteq> Panic" "reads_range c s pc start count what \<noteq> Panic"
  "reads_capture c s pc v \<noteq> Panic" "state_bytes c n what \<noteq> Panic" "add_branch c s target \<noteq> Panic"
proof -
  show reads: "reads_register c s pc r \<noteq> Panic" for r
    by (simp add: reads_register_def check_read_def bv_check_register_def rbind_eq_Panic index_at_eq_Panic not_le)
  show "names_register c pc r \<noteq> Panic" by (simp add: names_register_def bv_check_register_def)
  show stop: "range_end c pc start count what \<noteq> Panic" by (simp add: range_end_def rbind_eq_Panic calm)
  show up: "names_upvalue c what u \<noteq> Panic" for what u by (simp add: names_upvalue_def calm)
  show "global_name c name \<noteq> Panic" by (simp add: global_name_def calm)
  show "reads_range c s pc start count what \<noteq> Panic"
    unfolding reads_range_def by (intro calm_rbind stop each_not_Panic reads)
  show "reads_capture c s pc v \<noteq> Panic" by (cases v) (simp_all add: reads up)
  show state: "state_bytes c n what \<noteq> Panic" for n what by (simp add: state_bytes_def Let_def rbind_eq_Panic calm)
  show "add_branch c s target \<noteq> Panic"
    by (simp add: add_branch_def Let_def rbind_eq_Panic calm state split: option.split)
qed

lemma calm_writes:
  assumes "length (st_initialized s) = ps_registers c" and "ps_registers c < 65536"
  shows "names_register c pc r = Ok () \<Longrightarrow> writes_register s r \<noteq> Panic"
    and "writes_range c s pc start count what \<noteq> Panic" and "reads_returned c s pc start count what \<noteq> Panic"
proof -
  show "names_register c pc r = Ok () \<Longrightarrow> writes_register s r \<noteq> Panic"
    using assms by (simp add: names_register_Ok writes_register_def rbind_eq_Panic set_at_eq_Panic)
  show "writes_range c s pc start count what \<noteq> Panic"
    using assms by (auto simp: writes_range_def rbind_eq_Panic calm range_end_Ok fill_range_def)
  show "reads_returned c s pc start count what \<noteq> Panic"
    unfolding reads_returned_def
    by (rule calm_rbind) (use assms in \<open>auto simp: calm range_end_Ok intro!: each_not_Panic\<close>)
qed

lemma calm_arm:
  assumes "length (st_initialized s) = ps_registers c" and "ps_registers c < 65536"
  shows "pass_arm c s pc i \<noteq> Panic"
proof (cases i)
  case (BiNewClosure d child)
  have "each (reads_capture c s pc) us \<noteq> Panic" for us by (intro each_not_Panic calm)
  then show ?thesis using BiNewClosure calm_writes(1) [OF assms] by (auto simp: rbind_eq_Panic Let_def calm)
next
  case (BiJump target)
  then show ?thesis by (auto simp: rbind_eq_Panic calm backward_jump_def split: option.splits if_splits)
qed (use calm_writes [OF assms] in \<open>auto simp: rbind_eq_Panic calm Let_def\<close>)

definition pass_sized :: "pass \<Rightarrow> pass_state \<Rightarrow> bool" where
  "pass_sized c s \<longleftrightarrow> length (st_initialized s) = ps_registers c \<and> states_sized (ps_registers c) (st_incoming s)"

lemma pass_step_calm:
  assumes "pass_sized c s" and "ps_registers c < 65536" and "pc < length (ps_backward c)"
  shows "pass_step c s (pc, i) \<noteq> Panic" and "pass_step c s (pc, i) = Ok t \<Longrightarrow> pass_sized c t"
proof -
  have s: "length (st_initialized s) = ps_registers c" "states_sized (ps_registers c) (st_incoming s)"
    using assms(1) by (simp_all add: pass_sized_def)
  note join = join_incoming_facts [OF s, where pc = pc]
  have placed: "misplaced_consumer c s pc \<noteq> Panic"
    using assms(3) by (simp add: misplaced_consumer_def rbind_eq_Panic index_at_eq_Panic)
  have entry: "backward_entry c (join_incoming s pc) pc \<noteq> Panic"
    using assms(3) by (auto simp: backward_entry_def rbind_eq_Panic index_at_eq_Panic calm)
  have keep: "keep_backward_state c e pc \<noteq> Panic" for e
    using assms(3) by (auto simp: keep_backward_state_def Let_def rbind_eq_Panic index_at_eq_Panic calm)
  have sized: "length (st_initialized k) = ps_registers c" "states_sized (ps_registers c) (st_incoming k)"
    if "backward_entry c (join_incoming s pc) pc = Ok e" "k = e \<or> keep_backward_state c e pc = Ok k" for e k
    using that backward_entry_facts [OF that(1) join(1)] join(2) keep_backward_state_facts by auto
  have arm: "pass_arm c k pc i \<noteq> Panic"
    if "backward_entry c (join_incoming s pc) pc = Ok e" "keep_backward_state c e pc = Ok k" for e k
    by (rule calm_arm) (use sized that assms(2) in blast)+
  show "pass_step c s (pc, i) \<noteq> Panic"
    using placed entry keep arm by (auto simp: pass_step_def rbind_eq_Panic calm split: if_splits)
  show "pass_sized c t" if "pass_step c s (pc, i) = Ok t"
    using that
  proof (rule pass_step_Ok)
    fix e assume "backward_entry c (join_incoming s pc) pc = Ok e" "t = e"
    then show ?thesis using sized by (simp add: pass_sized_def)
  next
    fix e k assume "backward_entry c (join_incoming s pc) pc = Ok e" "keep_backward_state c e pc = Ok k"
      and t: "pass_arm c k pc i = Ok t"
    then have k: "length (st_initialized k) = ps_registers c" "states_sized (ps_registers c) (st_incoming k)"
      using sized by blast+
    from arm_initialized(1) [OF t] arm_incoming(1) [OF t k] k(1) show ?thesis by (simp add: pass_sized_def)
  qed
qed

lemma calm_prototype_code [calm]: "prototype_code alloc index p ps limits \<noteq> Panic"
proof -
  let ?c = "pass_of alloc index p ps limits" and ?n = "unat (bp_register_count p)"
  have fill: "fill_range (parameter_offset p) (parameter_end p) (replicate ?n False) \<noteq> Panic" if "parameter_end p \<le> ?n"
  proof -
    have "parameter_offset p \<le> parameter_end p"
      by (simp add: parameter_end_def saturating_add_def parameter_offset_def usize_max_def)
    then show ?thesis using that by (simp add: fill_range_def)
  qed
  have run: "fold_res (pass_step ?c) \<lparr>st_initialized = init, st_incoming = [], st_backward = [], st_reachable = True\<rparr>
      (enumerate 0 (bp_code p)) \<noteq> Panic"
    if "fill_range (parameter_offset p) (parameter_end p) (replicate ?n False) = (Ok init :: (bool list, blu_validation_error) res)" for init
  proof (rule fold_res_not_Panic [where I = "pass_sized ?c"])
    have regs: "ps_registers ?c < 65536" using unsigned_less [of "bp_register_count p"] by (simp add: pass_of_def)
    show "pass_sized ?c \<lparr>st_initialized = init, st_incoming = [], st_backward = [], st_reachable = True\<rparr>"
      using nth_fill_range(1) [OF that] by (simp add: pass_sized_def states_sized_def pass_of_def)
    fix s x assume x: "x \<in> set (enumerate 0 (bp_code p))" and s: "pass_sized ?c s"
    then have "fst x < length (ps_backward ?c)" by (auto simp: pass_of_def in_set_enumerate_eq)
    from pass_step_calm [OF s regs this, of "snd x"]
    show "pass_step ?c s x \<noteq> Panic" "\<And>t. pass_step ?c s x = Ok t \<Longrightarrow> pass_sized ?c t" by simp_all
  qed
  show ?thesis
    using fill run unfolding prototype_code_def Let_def by (auto simp: rbind_eq_Panic calm ensure_eq_Ok)
qed

lemma calm_prototype [calm]: "bv_validate_prototype alloc index p ps sources limits \<noteq> Panic"
  unfolding bv_validate_prototype_def by (intro calm_rbind calm each_not_Panic)

section \<open>The artifact\<close>

lemma calm_adopt:
  assumes "length parents = n"
  shows "adopt_child n i parents w \<noteq> Panic" and "adopt_child n i parents w = Ok q \<Longrightarrow> length q = n"
  using assms by (auto simp: adopt_child_def Let_def rbind_eq_Panic rbind_eq_Ok calm ensure_eq_Ok index_at_eq_Panic set_at_eq_Panic set_at_eq_Ok
    split: if_splits)

lemma calm_adopt_prototype:
  assumes "length parents = length (ar_prototypes a)"
  shows "adopt_prototype alloc a sources limits parents entry \<noteq> Panic"
    and "adopt_prototype alloc a sources limits parents entry = Ok q \<Longrightarrow> length q = length (ar_prototypes a)"
proof -
  obtain i p where entry: "entry = (i, p)" by (cases entry)
  have "fold_res (adopt_child (length (ar_prototypes a)) i) parents ws \<noteq> Panic" for ws
    by (rule fold_res_not_Panic [where I = "\<lambda>q. length q = length (ar_prototypes a)", OF assms calm_adopt(1)])
      (simp, erule (1) calm_adopt(2))
  then show "adopt_prototype alloc a sources limits parents entry \<noteq> Panic"
    unfolding entry adopt_prototype_def by (auto simp: rbind_eq_Panic calm)
  show "length q = length (ar_prototypes a)" if "adopt_prototype alloc a sources limits parents entry = Ok q"
  proof -
    have "fold_res (adopt_child (length (ar_prototypes a)) i) parents (bp_children p) = Ok q"
      using that unfolding entry adopt_prototype_def by (auto simp: rbind_eq_Ok)
    then show ?thesis by (rule fold_res_invariant [where I = "\<lambda>q. length q = length (ar_prototypes a)"]) (fact assms, erule (1) calm_adopt(2))
  qed
qed

lemma calm_validate_first: "validate_first alloc a limits \<noteq> Panic"
proof -
  let ?n = "length (ar_prototypes a)"
  have counts: "artifact_counts a limits \<noteq> Panic"
    by (simp add: artifact_counts_def Let_def rbind_eq_Panic calm split: option.split)
  have sources: "fold_res (index_source limits) [] xs \<noteq> Panic" for xs
    by (rule calm_fold) (simp add: index_source_def Let_def rbind_eq_Panic calm)
  have adopt: "fold_res (adopt_prototype alloc a sources limits) (replicate ?n None) entries \<noteq> Panic" for sources entries
    by (rule fold_res_not_Panic [where I = "\<lambda>q. length q = ?n", OF _ calm_adopt_prototype(1)])
      (simp, simp, erule (1) calm_adopt_prototype(2))
  have len: "length q = ?n" if "fold_res (adopt_prototype alloc a sources limits) (replicate ?n None) entries = Ok q" for sources entries q
    using that by (rule fold_res_invariant [where I = "\<lambda>q. length q = ?n"]) (simp, erule (1) calm_adopt_prototype(2))
  have main: "unat (ar_main a) < ?n" if "artifact_counts a limits = Ok ()"
    using that by (simp add: artifact_counts_def Let_def rbind_eq_Ok ensure_eq_Ok)
  show ?thesis
    unfolding validate_first_def Let_def rbind_eq_Panic
    using counts sources adopt len main by (auto simp: calm map_err_eq_Panic index_at_eq_Panic)
qed

definition color_stack_ok :: "blu_prototype list \<Rightarrow> (nat \<times> nat) list \<Rightarrow> bool" where
  "color_stack_ok ps stack \<longleftrightarrow> (\<forall>(i, k)\<in>set stack. i < length ps \<and> k \<le> length (bp_children (ps ! i)))"

lemma calm_color_loop:
  assumes "edges ps \<subseteq> {..< length ps} \<times> {..< length ps}" and "length colors = length ps" and "color_stack_ok ps stack"
  shows "color_loop ps colors stack \<noteq> Panic \<and> (\<forall>c. color_loop ps colors stack = Ok c \<longrightarrow> length c = length ps)"
  using assms
proof (induction ps colors stack rule: color_loop.induct)
  case (1 ps colors)
  then show ?case by simp
next
  case (2 ps colors i k stack)
  have i: "i < length ps" "k \<le> length (bp_children (ps ! i))" and stack: "color_stack_ok ps stack"
    using 2(6) by (auto simp: color_stack_ok_def)
  have at: "index_at ps i = (Ok (ps ! i) :: (_, blu_validation_error) res)" using i by (simp add: index_at_def)
  show ?case
  proof (cases "k = length (bp_children (ps ! i))")
    case True
    have set: "set_at colors i Black = (Ok (colors[i := Black]) :: (_, blu_validation_error) res)" using i 2(5) by (simp add: set_at_def)
    from 2(1) [OF at True set] show ?thesis using True at set stack 2(4,5) by simp
  next
    case False
    then have k: "k < length (child_indices (ps ! i))" using i by (simp add: child_indices_def)
    let ?c = "child_indices (ps ! i) ! k"
    have "(i, ?c) \<in> edges ps" using k i by (simp add: edges_def)
    then have c: "?c < length colors" using 2(4,5) by auto
    have child: "index_at (child_indices (ps ! i)) k = (Ok ?c :: (_, blu_validation_error) res)" and color: "index_at colors ?c = (Ok (colors ! ?c) :: (_, blu_validation_error) res)"
      using k c by (simp_all add: index_at_def)
    have next_ok: "color_stack_ok ps ((i, k + 1) # stack)" using stack i False by (simp add: color_stack_ok_def)
    show ?thesis
    proof (cases "colors ! ?c")
      case White
      have set: "set_at colors ?c Gray = (Ok (colors[?c := Gray]) :: (_, blu_validation_error) res)" using c by (simp add: set_at_def)
      have "color_stack_ok ps ((?c, 0) # (i, k + 1) # stack)" using next_ok c 2(5) by (simp add: color_stack_ok_def)
      have "color_loop ps colors ((i, k) # stack) = color_loop ps (colors[?c := Gray]) ((?c, 0) # (i, k + 1) # stack)"
        by (subst color_loop.simps) (simp add: at False child color White set Let_def del: color_loop.simps)
      with 2(2) [OF at False child refl color White set 2(4)] show ?thesis
        using 2(5) \<open>color_stack_ok ps ((?c, 0) # (i, k + 1) # stack)\<close> by (simp del: color_loop.simps)
    next
      case Gray
      then show ?thesis using at False child color by simp
    next
      case Black
      have "color_loop ps colors ((i, k) # stack) = color_loop ps colors ((i, k + 1) # stack)"
        by (subst color_loop.simps) (simp add: at False child color Black Let_def del: color_loop.simps)
      with 2(3) [OF at False child refl color Black 2(4,5) next_ok] show ?thesis by (simp del: color_loop.simps)
    qed
  qed
qed

lemma calm_color_from:
  assumes "edges ps \<subseteq> {..< length ps} \<times> {..< length ps}" and "length colors = length ps" and "i < length ps"
  shows "color_from ps colors i \<noteq> Panic \<and> (\<forall>c. color_from ps colors i = Ok c \<longrightarrow> length c = length ps)"
proof -
  have "color_loop ps (colors[i := Gray]) [(i, 0)] \<noteq> Panic \<and>
      (\<forall>c. color_loop ps (colors[i := Gray]) [(i, 0)] = Ok c \<longrightarrow> length c = length ps)"
    by (rule calm_color_loop) (use assms in \<open>simp_all add: color_stack_ok_def\<close>)
  then show ?thesis using assms(2,3) by (simp add: color_from_def index_at_def set_at_def del: color_loop.simps)
qed

lemma graph_verdict:
  assumes ready: "tree_ready ps main parents"
  shows "\<exists>v. validate_prototype_graph alloc ps main = Some v \<and> v \<noteq> Panic"
proof -
  have e: "edges ps \<subseteq> {..< length ps} \<times> {..< length ps}" using ready by (simp add: tree_ready_def)
  have fold: "fold_res (color_from ps) (replicate (length ps) White) [0..< length ps] \<noteq> Panic"
    by (rule fold_res_not_Panic [where I = "\<lambda>c. length c = length ps"]) (use calm_color_from [OF e] in auto)
  obtain r where r: "reach_loop ps (replicate (length ps) False) [main] = Some (Ok r)"
    using walk_from_main [OF ready] by blast
  have reach: "check_reachable r \<noteq> Panic"
    unfolding check_reachable_def by (rule each_not_Panic) (auto simp: calm)
  let ?n = "length ps"
  have "rbind (try_reserve_validation alloc ''prototype traversal colors'' ?n) (\<lambda>_.
        rbind (try_reserve_validation alloc ''prototype cycle traversal'' ?n) (\<lambda>_.
        rbind (fold_res (color_from ps) (replicate ?n White) [0..<?n]) (\<lambda>_.
        rbind (try_reserve_validation alloc ''prototype reachability'' ?n) (\<lambda>_.
        try_reserve_validation alloc ''prototype reachability traversal'' ?n)))) \<noteq> Panic" (is "?m \<noteq> Panic")
    using fold by (simp add: rbind_eq_Panic calm)
  then show ?thesis using r reach by (cases ?m) (auto simp: validate_prototype_graph_def Let_def)
qed

lemma validate_verdict: "\<exists>verdict. blu_validate alloc a limits = Some verdict \<and> verdict \<noteq> Panic"
proof (cases "validate_first alloc a limits")
  case (Ok parents)
  let ?ps = "ar_prototypes a"
  note ready = validate_first_ready [OF Ok]
  obtain v where v: "validate_prototype_graph alloc ?ps (unat (ar_main a)) = Some v" "v \<noteq> Panic"
    using graph_verdict [OF ready] by blast
  have "check_upvalues ?ps parents entry \<noteq> Panic" if entry: "entry \<in> set (enumerate 0 ?ps)" for entry
  proof -
    obtain i p where "entry = (i, p)" by fastforce
    with entry have i: "entry = (i, p)" "i < length ?ps" by (auto simp: in_set_enumerate_eq)
    have "q < length ?ps" if "parents ! i = Some q" for q
      using ready i(2) that by (auto simp: tree_ready_def)
    moreover have "check_upvalue i q u \<noteq> Panic" for q u by (cases u) (simp_all add: check_upvalue_def calm)
    ultimately show ?thesis using i ready
      by (auto simp: check_upvalues_def rbind_eq_Panic index_at_eq_Panic index_at_eq_Ok tree_ready_def calm not_le intro!: each_not_Panic split: option.split)
  qed
  then have "each (check_upvalues ?ps parents) (enumerate 0 ?ps) \<noteq> Panic" by (rule each_not_Panic)
  then show ?thesis using Ok v by (cases v) (auto simp: blu_validate_def)
next
  case (Err e)
  then show ?thesis by (simp add: blu_validate_def)
next
  case Panic
  then show ?thesis using calm_validate_first by blast
qed

text \<open>
  C3: validation returns a verdict for every artifact, limits and allocator: the walk over the prototypes, which
  has no visited marks, ends because cycles have been refused, the worklist ends because states only shrink,
  and no index, slice or unwrapping is out of range.
\<close>

theorem validate_answers: "\<exists>verdict. blu_validate alloc a limits = Some verdict \<and> verdict \<noteq> Panic"
  by (rule validate_verdict)

end
