(* ===== verification/Blu_Accept.thy ===== *)
theory Blu_Accept
  imports Blu_Sample Blu_Dynamic Blu_Verdict
begin

text \<open>
  The sample artifact passes all of \<open>validate\<close>, and the properties of accepted prototypes and artifacts
  are applied to it.
\<close>

section \<open>The sample is accepted\<close>

definition closure_pass :: pass where
  "closure_pass = pass_of (\<lambda>_. True) 1 sample_closure [sample_loop, sample_closure] default_blu_limits"

lemma closure_pass_fields [simp]:
  "ps_alloc closure_pass = (\<lambda>_. True)" "ps_index closure_pass = 1" "ps_prototype closure_pass = sample_closure"
  "ps_registers closure_pass = 1" "ps_backward closure_pass = [False, False]"
  "code_of closure_pass = [BiGetUpvalue 0 0, BiReturn 0 1]"
  by (simp_all add: closure_pass_def pass_of_def backward_targets_def sample_loop_def sample_closure_def get_def code_of_def)

lemma closure_run:
  "fold_res (pass_step closure_pass)
     \<lparr>st_initialized = [False], st_incoming = [], st_backward = [], st_reachable = True\<rparr>
     (enumerate 0 (code_of closure_pass)) =
   Ok \<lparr>st_initialized = [True], st_incoming = [], st_backward = [], st_reachable = False\<rparr>"
  by (simp add: pass_arm_evals names_upvalue_def sample_closure_def)

lemma closure_code:
  "prototype_code (\<lambda>_. True) 1 sample_closure [sample_loop, sample_closure] default_blu_limits = Ok ()"
proof -
  have offset: "parameter_offset sample_closure = 0"
    by (simp add: parameter_offset_def requires_def features_contain_def sample_features feature_bits)
  moreover from this have "parameter_end sample_closure = 0"
    by (simp add: parameter_end_def sample_closure_def saturating_add_def)
  moreover have "bp_code sample_closure = code_of closure_pass" "unat (bp_register_count sample_closure) = 1"
    by (simp_all add: sample_closure_def)
  moreover have "ends_prototype (code_of closure_pass)"
    by (simp add: ends_prototype_def get_def some_is_def terminates_def)
  ultimately show ?thesis
    unfolding prototype_code_def Let_def closure_pass_def [symmetric]
    by (simp add: try_reserve_validation_def fill_range_def closure_run del: closure_pass_fields)
qed

lemma closure_prototype:
  "bv_validate_prototype (\<lambda>_. True) 1 sample_closure [sample_loop, sample_closure] [(7, 9)] default_blu_limits = Ok ()"
proof -
  have "each (constant_bytes default_blu_limits) (bp_constants sample_closure) = Ok ()" by (simp add: sample_closure_def)
  then show ?thesis
    by (simp add: bv_validate_prototype_def sample_counts sample_closure_features sample_source_map closure_code blu_sample_debug
      del: One_nat_def)
qed

lemma sample_sizes: "encoded_size sample_artifact = Ok 406"
  by (simp add: encoded_size_def sample_artifact_def prototype_size_def sample_loop_def sample_closure_def add_size_def add_scaled_def
    checked_add_def checked_mul_def usize_max_def has_lines_def)

lemma sample_aggregate: "validate_aggregate_limits sample_artifact default_blu_limits = Ok ()"
  by (simp add: validate_aggregate_limits_def sample_artifact_def sample_loop_def sample_closure_def add_validation_product_def
    tally_decoded_def tally_def add_validation_total_def checked_add_def checked_mul_def usize_max_def bv_check_limit_def
    default_blu_limits_def no_totals_def decoded_charges prototype_totals_def constant_totals_def name_totals_def debug_names_def)

lemma sample_max_bytes: "bl_max_bytes default_blu_limits = 67108864"
  by (simp add: default_blu_limits_def)

lemma sample_first: "validate_first (\<lambda>_. True) sample_artifact default_blu_limits = Ok [None, Some 0]"
proof -
  have "artifact_counts sample_artifact default_blu_limits = Ok ()"
    by (simp add: artifact_counts_def sample_artifact_def bv_check_limit_def check_wire_len_def default_blu_limits_def
      default_identity_limits_def u32_max_def)
  moreover have "fold_res (index_source default_blu_limits) [] (ar_sources sample_artifact) = Ok [(7, 9)]"
    by (simp add: index_source_def sample_artifact_def bv_check_limit_def check_wire_len_def default_blu_limits_def
      default_identity_limits_def u32_max_def)
  moreover have "fold_res (adopt_prototype (\<lambda>_. True) sample_artifact [(7, 9)] default_blu_limits) [None, None]
      (enumerate 0 (ar_prototypes sample_artifact)) = Ok [None, Some 0]"
    using sample_prototype closure_prototype
    by (simp add: adopt_prototype_def sample_artifact_def adopt_child_def Let_def bv_check_limit_def index_at_def set_at_def)
      (simp add: sample_loop_def sample_closure_def adopt_child_def default_blu_limits_def index_at_def set_at_def)
  moreover have "length (ar_prototypes sample_artifact) = 2" "ar_main sample_artifact = 0" "length (ar_sources sample_artifact) = 1"
    by (simp_all add: sample_artifact_def)
  ultimately show ?thesis
    by (simp add: validate_first_def sample_aggregate sample_sizes bv_check_limit_def sample_max_bytes
      try_reserve_validation_def two_registers index_at_def)
qed

lemma sample_colors: "fold_res (color_from [sample_loop, sample_closure]) [White, White] [0, Suc 0] = Ok [Black, Black]"
  by (simp add: color_from_def index_at_def set_at_def child_indices_def sample_loop_def sample_closure_def)

lemma sample_walk: "reach_loop [sample_loop, sample_closure] [False, False] [0] = Some (Ok [True, True])"
  by (simp add: reach_loop.simps child_indices_def sample_loop_def sample_closure_def)

lemma blu_sample_accepted: "blu_validate (\<lambda>_. True) sample_artifact default_blu_limits = Some (Ok ())"
proof -
  have "validate_prototype_graph (\<lambda>_. True) (ar_prototypes sample_artifact) (unat (ar_main sample_artifact)) = Some (Ok ())"
    by (simp add: validate_prototype_graph_def Let_def try_reserve_validation_def sample_artifact_def two_registers
      sample_colors sample_walk check_reachable_def del: fold_res.simps One_nat_def)
  moreover have "each (check_upvalues (ar_prototypes sample_artifact) [None, Some 0]) (enumerate 0 (ar_prototypes sample_artifact)) = Ok ()"
    by (simp add: check_upvalues_def sample_artifact_def index_at_def check_upvalue_def sample_loop_def sample_closure_def)
  ultimately show ?thesis by (simp add: blu_validate_def sample_first)
qed

section \<open>A prototype with dynamic results\<close>

definition dynamic_prototype :: blu_prototype where
  "dynamic_prototype =
     sample_closure\<lparr>bp_required_features := BASELINE OR CLOSURES OR DYNAMIC_CALL_RESULTS,
       bp_code := [BiGetUpvalue 0 0, BiCallAllResults Fixed 0 0 0, BiReturnDynamic], bp_line_info := [1, 1, 1],
       bp_source_map := [sample_span, sample_span, sample_span]\<rparr>"

definition dynamic_pass :: pass where
  "dynamic_pass = pass_of (\<lambda>_. True) 0 dynamic_prototype [dynamic_prototype] default_blu_limits"

lemma dynamic_pass_fields [simp]:
  "ps_alloc dynamic_pass = (\<lambda>_. True)" "ps_index dynamic_pass = 0" "ps_prototype dynamic_pass = dynamic_prototype"
  "ps_registers dynamic_pass = 1" "ps_backward dynamic_pass = [False, False, False]"
  "code_of dynamic_pass = [BiGetUpvalue 0 0, BiCallAllResults Fixed 0 0 0, BiReturnDynamic]"
  by (simp_all add: dynamic_pass_def pass_of_def backward_targets_def dynamic_prototype_def sample_closure_def get_def code_of_def)

lemma dynamic_run:
  "fold_res (pass_step dynamic_pass)
     \<lparr>st_initialized = [False], st_incoming = [], st_backward = [], st_reachable = True\<rparr>
     (enumerate 0 (code_of dynamic_pass)) =
   Ok \<lparr>st_initialized = [True], st_incoming = [], st_backward = [], st_reachable = False\<rparr>"
  by (simp add: pass_arm_evals names_upvalue_def dynamic_prototype_def sample_closure_def reads_range_def some_is_def
    misplaced_consumer_def after_producer_def checked_sub_def is_producer_def)

lemma dynamic_prototype_features:
  "bp_required_features dynamic_prototype = 17409" "prototype_features 0 dynamic_prototype = Ok ()"
  by code_simp+

lemma dynamic_accepted:
  "bv_validate_prototype (\<lambda>_. True) 0 dynamic_prototype [dynamic_prototype] [(7, 9)] default_blu_limits = Ok ()"
proof -
  have offset: "parameter_offset dynamic_prototype = 0"
    by (simp add: parameter_offset_def requires_def features_contain_def dynamic_prototype_features feature_bits)
  moreover from this have "parameter_end dynamic_prototype = 0"
    by (simp add: parameter_end_def dynamic_prototype_def sample_closure_def saturating_add_def)
  moreover have "bp_code dynamic_prototype = code_of dynamic_pass" "unat (bp_register_count dynamic_prototype) = 1"
    by (simp_all add: dynamic_prototype_def sample_closure_def)
  moreover have "ends_prototype (code_of dynamic_pass)"
    by (simp add: ends_prototype_def get_def some_is_def terminates_def)
  ultimately have "prototype_code (\<lambda>_. True) 0 dynamic_prototype [dynamic_prototype] default_blu_limits = Ok ()"
    unfolding prototype_code_def Let_def dynamic_pass_def [symmetric]
    by (simp add: try_reserve_validation_def fill_range_def dynamic_run del: dynamic_pass_fields)
  moreover have "prototype_counts dynamic_prototype default_blu_limits = Ok ()"
    "each (constant_bytes default_blu_limits) (bp_constants dynamic_prototype) = Ok ()"
    "prototype_source_map 0 dynamic_prototype [(7, 9)] = Ok ()"
    "bv_validate_debug 0 dynamic_prototype default_blu_limits = Ok ()"
    by (simp_all add: dynamic_prototype_def sample_closure_def prototype_counts_def prototype_source_map_def sample_span_def
      bv_validate_debug_def check_debug_name_def bv_check_limit_def check_wire_len_def default_blu_limits_def u32_max_def)
  ultimately show ?thesis by (simp add: bv_validate_prototype_def dynamic_prototype_features)
qed

section \<open>The properties at the samples\<close>

theorem dynamic_results_paired_witness:
  "is_producer (bp_code dynamic_prototype ! 1) \<and> is_consumer (bp_code dynamic_prototype ! Suc 1)"
proof -
  have "is_producer (bp_code dynamic_prototype ! 1)" "1 < length (bp_code dynamic_prototype)"
    by (simp_all add: dynamic_prototype_def is_producer_def)
  then show ?thesis using dynamic_results_paired [OF dynamic_accepted] by blast
qed

theorem accepted_operands_witness:
  "BiNewClosure 1 0 \<in> set (bp_code sample_loop) \<and> operands_in_range sample_loop [sample_loop, sample_closure] (BiNewClosure 1 0)"
proof -
  have "BiNewClosure 1 0 \<in> set (bp_code sample_loop)" by (simp add: sample_loop_def)
  with accepted_operands [OF sample_prototype this] show ?thesis by simp
qed

theorem accepted_tree_witness: "is_tree 2 0 (edges [sample_loop, sample_closure]) \<and> (0, 1) \<in> edges [sample_loop, sample_closure]"
proof -
  have "(0, 1) \<in> edges [sample_loop, sample_closure]" by (simp add: edges_def child_indices_def sample_loop_def)
  then show ?thesis using accepted_tree [OF blu_sample_accepted] by (simp add: sample_artifact_def numeral_2_eq_2)
qed

theorem accepted_upvalues_witness: "ParentRegister 0 \<in> set (bp_upvalues sample_closure) \<and> upvalue_resolves sample_loop (ParentRegister 0)"
proof -
  have "(0, 1) \<in> edges (ar_prototypes sample_artifact)"
    by (simp add: edges_def child_indices_def sample_loop_def sample_artifact_def)
  from accepted_upvalues [OF blu_sample_accepted this, of "ParentRegister 0"]
  show ?thesis by (simp add: sample_artifact_def sample_closure_def)
qed

end
