(* ===== verification/Blu_Layout.thy ===== *)
theory Blu_Layout
  imports Blu_Decode Blu_Validator
begin

text \<open>
  The decoder and the encoder of \<open>blu-bytecode/src/blu.rs\<close> agree: what \<open>decode\<close> accepts is exactly
  what \<open>encode\<close> writes for the artifact it returns, and \<open>decode\<close> does not panic. The reader carries
  its budget, so a read is described by the bytes it consumes and not by the state it leaves.
\<close>

section \<open>The reader\<close>

definition blu_pending :: "decoder \<Rightarrow> bytes" where "blu_pending r = drop (dc_offset r) (dc_bytes r)"
definition blu_sound :: "decoder \<Rightarrow> bool" where "blu_sound r \<longleftrightarrow> dc_offset r \<le> length (dc_bytes r)"
definition blu_adv :: "decoder \<Rightarrow> nat \<Rightarrow> decoder" where "blu_adv r n = r\<lparr>dc_offset := dc_offset r + n\<rparr>"

interpretation bl: byte_cursor "\<lambda>r n. blu_take n r" blu_pending blu_adv blu_sound
  by unfold_locales
    (auto simp: blu_pending_def blu_sound_def blu_adv_def blu_take_def blu_remaining_def saturating_sub_def slice_at_def Let_def
      add.commute)

text \<open>
  \<open>reads_at r m w\<close>: the outcome \<open>m\<close> of a read at \<open>r\<close> is no panic, and when it is a value, the bytes
  between the two positions are related to it by \<open>w\<close>.
\<close>

definition reads_at :: "decoder \<Rightarrow> ('a \<times> decoder, blu_decode_error) res \<Rightarrow> (bytes \<Rightarrow> 'a \<Rightarrow> bool) \<Rightarrow> bool" where
  "reads_at r m w \<longleftrightarrow> m \<noteq> Panic \<and>
     (\<forall>x r'. m = Ok (x, r') \<longrightarrow> blu_sound r' \<and> dc_bytes r' = dc_bytes r \<and> (\<exists>bs. w bs x \<and> blu_pending r = bs @ blu_pending r'))"

definition reads :: "'a blu_read \<Rightarrow> (bytes \<Rightarrow> 'a \<Rightarrow> bool) \<Rightarrow> bool" where
  "reads p w \<longleftrightarrow> (\<forall>r. blu_sound r \<longrightarrow> reads_at r (p r) w)"

lemma readsD: "reads p w \<Longrightarrow> blu_sound r \<Longrightarrow> reads_at r (p r) w"
  by (simp add: reads_def)

lemma reads_at_Ok: "blu_sound r \<Longrightarrow> w [] x \<Longrightarrow> reads_at r (Ok (x, r)) w"
  by (simp add: reads_at_def)

lemma reads_at_Err [simp]: "reads_at r (Err e) w"
  by (simp add: reads_at_def)

lemma reads_at_mono: "reads_at r m w \<Longrightarrow> (\<And>bs x. w bs x \<Longrightarrow> v bs x) \<Longrightarrow> reads_at r m v"
  unfolding reads_at_def by blast

lemma reads_mono: "reads p w \<Longrightarrow> (\<And>bs x. w bs x \<Longrightarrow> v bs x) \<Longrightarrow> reads p v"
  unfolding reads_def using reads_at_mono by blast

lemma reads_atE:
  assumes "reads_at r m w" and "m = Ok (x, r')"
  obtains bs where "w bs x" and "blu_sound r'" and "dc_bytes r' = dc_bytes r" and "blu_pending r = bs @ blu_pending r'"
  using assms unfolding reads_at_def by blast

lemma reads_atI:
  assumes "m \<noteq> Panic"
    and "\<And>x r'. m = Ok (x, r') \<Longrightarrow>
      blu_sound r' \<and> dc_bytes r' = dc_bytes r \<and> (\<exists>bs. w bs x \<and> blu_pending r = bs @ blu_pending r')"
  shows "reads_at r m w"
  using assms unfolding reads_at_def by blast

lemma reads_at_bind:
  assumes m: "reads_at r m w"
    and q: "\<And>x bs r'. w bs x \<Longrightarrow> blu_sound r' \<Longrightarrow> dc_bytes r' = dc_bytes r \<Longrightarrow> blu_pending r = bs @ blu_pending r' \<Longrightarrow>
      reads_at r' (q x r') (v bs x)"
  shows "reads_at r (rbind m (\<lambda>(x, r). q x r)) (\<lambda>bs y. \<exists>b c x. bs = b @ c \<and> w b x \<and> v b x c y)"
proof (rule reads_atI)
  show "rbind m (\<lambda>(x, r). q x r) \<noteq> Panic"
  proof
    assume "rbind m (\<lambda>(x, r). q x r) = Panic"
    moreover have "m \<noteq> Panic" using m by (simp add: reads_at_def)
    ultimately obtain x r' where x: "m = Ok (x, r')" "q x r' = Panic" by (auto simp: rbind_eq_Panic)
    from reads_atE [OF m x(1)] q x(2) show False unfolding reads_at_def by metis
  qed
next
  fix y r''
  assume "rbind m (\<lambda>(x, r). q x r) = Ok (y, r'')"
  then obtain x r' where x: "m = Ok (x, r')" "q x r' = Ok (y, r'')" by (auto simp: rbind_eq_Ok)
  obtain b where b: "w b x" "blu_sound r'" "dc_bytes r' = dc_bytes r" "blu_pending r = b @ blu_pending r'"
    by (rule reads_atE [OF m x(1)])
  obtain c where c: "v b x c y" "blu_sound r''" "dc_bytes r'' = dc_bytes r'" "blu_pending r' = c @ blu_pending r''"
    by (rule reads_atE [OF q [OF b] x(2)])
  show "blu_sound r'' \<and> dc_bytes r'' = dc_bytes r \<and>
      (\<exists>bs. (\<exists>b c x. bs = b @ c \<and> w b x \<and> v b x c y) \<and> blu_pending r = bs @ blu_pending r'')"
  proof (intro conjI)
    show "\<exists>bs. (\<exists>b c x. bs = b @ c \<and> w b x \<and> v b x c y) \<and> blu_pending r = bs @ blu_pending r''"
      by (rule exI [where x = "b @ c"], rule conjI) (use b c in blast, use b c in simp)
  qed (use b c in simp_all)
qed

lemma blu_reads_bind:
  assumes "reads p w" and "\<And>x b. w b x \<Longrightarrow> reads (q x) (v b x)"
  shows "reads (\<lambda>r. rbind (p r) (\<lambda>(x, r). q x r)) (\<lambda>bs y. \<exists>b c x. bs = b @ c \<and> w b x \<and> v b x c y)"
  unfolding reads_def
proof (intro allI impI)
  fix r assume "blu_sound r"
  then show "reads_at r (rbind (p r) (\<lambda>(x, r). q x r)) (\<lambda>bs y. \<exists>b c x. bs = b @ c \<and> w b x \<and> v b x c y)"
    by (intro reads_at_bind readsD [OF assms(1)] readsD [OF assms(2)])
qed

text \<open>A check in between, which reads nothing.\<close>

lemma reads_at_check:
  assumes "m \<noteq> Panic" and "\<And>x. m = Ok x \<Longrightarrow> reads_at r (q x) (v x)"
  shows "reads_at r (rbind m q) (\<lambda>bs y. \<exists>x. m = Ok x \<and> v x bs y)"
  using assms by (cases m) simp_all

lemma reads_at_ensure: "(b \<Longrightarrow> reads_at r q w) \<Longrightarrow> reads_at r (rbind (ensure b e) (\<lambda>_. q)) (\<lambda>bs y. b \<and> w bs y)"
  by (cases b) simp_all

section \<open>Integers, counts and the budget\<close>

lemma blu_reads_take: "reads (blu_take n) (\<lambda>bs x. x = bs \<and> length bs = n)"
  unfolding reads_def
proof (intro allI impI reads_atI)
  fix r assume r: "blu_sound r"
  show "blu_take n r \<noteq> Panic" by (rule bl.take_total [OF r])
  fix x r' assume x: "blu_take n r = Ok (x, r')"
  have "dc_bytes r' = dc_bytes r" using bl.take_OkD [OF x r] by (simp add: blu_adv_def)
  with bl.take_split [OF x r] show "blu_sound r' \<and> dc_bytes r' = dc_bytes r \<and>
      (\<exists>bs. (x = bs \<and> length bs = n) \<and> blu_pending r = bs @ blu_pending r')" by simp
qed

lemma reads_array: "reads (blu_array n) (\<lambda>bs x. x = bs \<and> length bs = n)"
proof -
  have "reads (\<lambda>r. if length x = n then Ok (x, r) else Err (BdUnexpectedEnd (dc_offset r) n 0)) (\<lambda>bs y. bs = [] \<and> y = x)" for x
    by (simp add: reads_def reads_at_def)
  from blu_reads_bind [OF blu_reads_take this] show ?thesis
    unfolding blu_array_def [abs_def] by (rule reads_mono) auto
qed

lemma reads_u8: "reads blu_u8 (\<lambda>bs x. bs = [x])"
proof -
  have "reads (\<lambda>r. rbind (blu_array 1 r) (\<lambda>(bs, r). rbind (index_at bs 0) (\<lambda>b. Ok (b, r))))
      (\<lambda>bs y. \<exists>b c x. bs = b @ c \<and> (x = b \<and> length b = 1) \<and> (c = [] \<and> y = b ! 0))"
    by (rule blu_reads_bind [OF reads_array]) (auto simp: reads_def reads_at_def index_at_def)
  then show ?thesis unfolding blu_u8_def [abs_def]
    by (rule reads_mono) (auto simp: length_Suc_conv)
qed

lemma reads_word:
  assumes "\<And>bs. length bs = n \<Longrightarrow> enc (of_le bs) = bs"
  shows "reads (\<lambda>r. rbind (blu_array n r) (\<lambda>(bs, r). Ok (of_le bs, r))) (\<lambda>bs x. bs = enc x)"
  by (rule reads_mono [OF blu_reads_bind [OF reads_array, where v = "\<lambda>b x c y. c = [] \<and> y = of_le b"]])
    (use assms in \<open>auto simp: reads_def reads_at_def\<close>)

lemma reads_u16: "reads blu_u16 (\<lambda>bs x. bs = u16_to_le x)"
  unfolding blu_u16_def [abs_def] by (rule reads_word) (rule u16_to_from_le)

lemma blu_reads_u32: "reads blu_u32 (\<lambda>bs x. bs = u32_to_le x)"
  unfolding blu_u32_def [abs_def] by (rule reads_word) (rule u32_to_from_le)

lemma reads_u64: "reads blu_u64 (\<lambda>bs x. bs = u64_to_le x)"
  unfolding blu_u64_def [abs_def] by (rule reads_word) (rule u64_to_from_le)

lemma reads_i64: "reads blu_i64 (\<lambda>bs x. bs = u64_to_le x)"
  unfolding blu_i64_def [abs_def] by (rule reads_word) (rule u64_to_from_le)

definition counted :: "bytes \<Rightarrow> nat \<Rightarrow> bool" where
  "counted bs n \<longleftrightarrow> n \<le> u32_max \<and> bs = u32_to_le (word_of_nat n)"

lemma reads_count_with_extra: "reads (count_with_extra what limit width extra) counted"
  unfolding reads_def count_with_extra_def Let_def
proof (intro allI impI)
  fix r assume "blu_sound r"
  have w: "counted (u32_to_le x) (unat x)" for x
    using unsigned_less [of x, where ?'a = nat] by (simp add: counted_def u32_max_def)
  let ?q = "\<lambda>w r'. if limit < unat w then Err (BdTooLarge what (unat w) limit)
      else rbind (ok_or (checked_mul (unat w) width) (BdCountOverflow (dc_offset r) what (unat w) width)) (\<lambda>body.
        rbind (ok_or (checked_add body extra) (BdCountOverflow (dc_offset r) what (unat w) width)) (\<lambda>required.
        if blu_remaining r' < required
        then Err (BdDeclaredBodyTooLarge (dc_offset r) what (unat w) width required (blu_remaining r'))
        else Ok (unat w, r')))"
  have "reads_at r' (?q x r') (\<lambda>bs y. bs = [] \<and> y = unat x)" if "blu_sound r'" for x r'
    using that by (auto simp: reads_at_def rbind_eq_Panic rbind_eq_Ok ok_or_not_Panic split: if_splits)
  from reads_at_bind [OF readsD [OF blu_reads_u32 \<open>blu_sound r\<close>], where q = ?q and v = "\<lambda>b x bs y. bs = [] \<and> y = unat x"] this
  have "reads_at r (rbind (blu_u32 r) (\<lambda>(x, r). ?q x r)) (\<lambda>bs y. \<exists>b c x. bs = b @ c \<and> b = u32_to_le x \<and> c = [] \<and> y = unat x)"
    by blast
  then show "reads_at r (rbind (blu_u32 r) (\<lambda>(x, r). ?q x r)) counted" by (rule reads_at_mono) (use w in auto)
qed

lemma blu_reads_count: "reads (blu_count what limit width) counted"
  using reads_count_with_extra by (simp add: blu_count_def [abs_def])

definition sized :: "bytes \<Rightarrow> bytes \<Rightarrow> bool" where
  "sized bs x \<longleftrightarrow> length x \<le> u32_max \<and> bs = u32_to_le (word_of_nat (length x)) @ x"

lemma reads_sized_bytes: "reads (blu_sized_bytes what limit) sized"
  unfolding blu_sized_bytes_def [abs_def]
  by (rule reads_mono [OF blu_reads_bind [OF blu_reads_count blu_reads_take]]) (auto simp: counted_def sized_def)

lemma reads_charge: "reads (charge sel upd amount what limit) (\<lambda>bs x. bs = [])"
  unfolding reads_def charge_def budget_add_def
  by (auto simp: reads_at_def rbind_eq_Panic rbind_eq_Ok ok_or_not_Panic blu_sound_def blu_pending_def split: if_splits)

lemma reads_charge_owned: "reads (charge_owned n limits) (\<lambda>bs x. bs = [])"
  using reads_charge by (simp add: charge_owned_def)

lemma reads_charge_fixed: "reads (charge_fixed n width limits) (\<lambda>bs x. bs = [])"
  unfolding reads_def charge_fixed_def
  by (intro allI impI reads_at_mono [OF reads_at_check [OF _ readsD [OF reads_charge_owned]]]) (auto simp: ok_or_not_Panic)

lemma reads_then_nothing:
  assumes "reads p (\<lambda>bs x. bs = [])" and "\<And>x. reads (q x) w"
  shows "reads (\<lambda>r. rbind (p r) (\<lambda>(x, r). q x r)) w"
  by (rule reads_mono [OF blu_reads_bind [OF assms(1), where v = "\<lambda>_ _. w"]]) (use assms(2) in auto)

lemma reads_charge_debug: "reads (charge_debug n limits) (\<lambda>bs x. bs = [])"
  unfolding charge_debug_def [abs_def] by (rule reads_then_nothing [OF reads_charge reads_charge_owned])

lemma reads_reserve: "reads (try_reserve_decode alloc what n) (\<lambda>bs x. bs = [])"
  by (auto simp: reads_def reads_at_def try_reserve_decode_def ensure_def)

lemma reads_owned: "reads (owned_bytes alloc what bs) (\<lambda>b x. b = [] \<and> x = bs)"
  by (auto simp: reads_def reads_at_def owned_bytes_def try_reserve_decode_def ensure_def)

lemma blu_reads_n:
  assumes "reads p w"
  shows "reads (read_n n p) (\<lambda>bs xs. length xs = n \<and> (\<exists>bss. bs = concat bss \<and> list_all2 w bss xs))"
proof (induction n)
  case 0
  then show ?case by (auto simp: reads_def reads_at_def)
next
  case (Suc n)
  have one: "reads (\<lambda>r. rbind (read_n n p r) (\<lambda>(xs, r). Ok (x # xs, r)))
      (\<lambda>bs ys. \<exists>b c xs. bs = b @ c \<and> (length xs = n \<and> (\<exists>bss. b = concat bss \<and> list_all2 w bss xs)) \<and> c = [] \<and> ys = x # xs)" for x
    by (rule blu_reads_bind [OF Suc.IH]) (simp add: reads_def reads_at_def)
  have eq: "read_n (Suc n) p = (\<lambda>r. rbind (p r) (\<lambda>(x, r). rbind (read_n n p r) (\<lambda>(xs, r). Ok (x # xs, r))))"
    by (rule ext) simp
  show "reads (read_n (Suc n) p)
      (\<lambda>bs xs. length xs = Suc n \<and> (\<exists>bss. bs = concat bss \<and> list_all2 w bss xs))"
    unfolding eq by (rule reads_mono [OF blu_reads_bind [OF assms one]]) (auto intro!: exI [of _ "_ # _"])
qed

end
