(* ===== verification/Blu_Roundtrip.thy ===== *)
theory Blu_Roundtrip
  imports Blu_Layout
begin

text \<open>
  Every part of an artifact is read from the bytes the encoder writes for it, so an accepted encoding
  is the only one of its artifact.
\<close>

section \<open>What the writers append\<close>

definition writes :: "(bytes \<Rightarrow> 'a \<Rightarrow> (bytes, blu_encode_error) res) \<Rightarrow> bytes \<Rightarrow> 'a \<Rightarrow> bool" where
  "writes put bs x \<longleftrightarrow> (\<forall>out. put out x = Ok (out @ bs))"

definition appends :: "(bytes \<Rightarrow> 'a \<Rightarrow> bytes) \<Rightarrow> bytes \<Rightarrow> 'a \<Rightarrow> bool" where
  "appends put bs x \<longleftrightarrow> (\<forall>out. put out x = out @ bs)"

lemma writes_all: "list_all2 (writes put) bss xs \<Longrightarrow> fold_res put out xs = Ok (out @ concat bss)"
  by (induction bss xs arbitrary: out rule: list_all2_induct) (auto simp: writes_def)

lemma appends_all: "list_all2 (appends put) bss xs \<Longrightarrow> foldl put out xs = out @ concat bss"
  by (induction bss xs arbitrary: out rule: list_all2_induct) (auto simp: appends_def)

lemma put_u32_all: "list_all2 (\<lambda>bs x. bs = u32_to_le x) bss xs \<Longrightarrow> fold put_u32 xs out = out @ concat bss"
  by (induction bss xs arbitrary: out rule: list_all2_induct) (auto simp: put_u32_def)

lemma put_len_counted: "counted bs n \<Longrightarrow> put_len what n out = Ok (out @ bs)"
  by (simp add: counted_def put_len_def put_u32_def)

lemma put_sized_sized: "sized bs x \<Longrightarrow> put_sized what x out = Ok (out @ bs)"
  by (auto simp: sized_def put_sized_def put_len_def put_u32_def)

lemmas put_words = put_u16_def put_u32_def put_u64_def put_i64_def put_byte_def

section \<open>Instructions\<close>

lemma reads_regs1: "reads (regs1 f) (\<lambda>bs x. \<exists>a. bs = u16_to_le a \<and> x = f a)"
  unfolding regs1_def [abs_def]
  by (rule reads_mono [OF blu_reads_bind [OF reads_u16, where v = "\<lambda>_ a bs x. bs = [] \<and> x = f a"]])
    (auto simp: reads_def reads_at_def)

lemma reads_reg_then:
  assumes "\<And>a. reads (q a) (w a)"
  shows "reads (\<lambda>r. rbind (blu_u16 r) (\<lambda>(a, r). q a r)) (\<lambda>bs x. \<exists>a c. bs = u16_to_le a @ c \<and> w a c x)"
  by (rule reads_mono [OF blu_reads_bind [OF reads_u16 assms]]) auto

lemma reads_wide_then:
  assumes "\<And>a. reads (q a) (w a)"
  shows "reads (\<lambda>r. rbind (blu_u32 r) (\<lambda>(a, r). q a r)) (\<lambda>bs x. \<exists>a c. bs = u32_to_le a @ c \<and> w a c x)"
  by (rule reads_mono [OF blu_reads_bind [OF blu_reads_u32 assms]]) auto

lemma reads_regs2: "reads (regs2 f) (\<lambda>bs x. \<exists>a b. bs = u16_to_le a @ u16_to_le b \<and> x = f a b)"
  unfolding regs2_def [abs_def] by (rule reads_mono [OF reads_reg_then [OF reads_regs1]]) auto

lemma reads_regs3: "reads (regs3 f) (\<lambda>bs x. \<exists>a b c. bs = u16_to_le a @ u16_to_le b @ u16_to_le c \<and> x = f a b c)"
  unfolding regs3_def [abs_def] by (rule reads_mono [OF reads_reg_then [OF reads_regs2]]) auto

lemma reads_regs4:
  "reads (regs4 f) (\<lambda>bs x. \<exists>a b c d. bs = u16_to_le a @ u16_to_le b @ u16_to_le c @ u16_to_le d \<and> x = f a b c d)"
  unfolding regs4_def [abs_def] by (rule reads_mono [OF reads_reg_then [OF reads_regs3]]) auto

lemma reads_regs5:
  "reads (regs5 f) (\<lambda>bs x. \<exists>a b c d e. bs = u16_to_le a @ u16_to_le b @ u16_to_le c @ u16_to_le d @ u16_to_le e \<and> x = f a b c d e)"
  unfolding regs5_def [abs_def] by (rule reads_mono [OF reads_reg_then [OF reads_regs4]], clarify, intro exI conjI, rule refl, rule refl)

lemma reads_wide: "reads (wide f) (\<lambda>bs x. \<exists>a. bs = u32_to_le a \<and> x = f a)"
  unfolding wide_def [abs_def]
  by (rule reads_mono [OF blu_reads_bind [OF blu_reads_u32, where v = "\<lambda>_ a bs x. bs = [] \<and> x = f a"]])
    (auto simp: reads_def reads_at_def)

lemma reads_reg_wide: "reads (reg_wide f) (\<lambda>bs x. \<exists>a b. bs = u16_to_le a @ u32_to_le b \<and> x = f a b)"
  unfolding reg_wide_def [abs_def] by (rule reads_mono [OF reads_reg_then [OF reads_wide]]) auto

lemma reads_wide_reg: "reads (wide_reg f) (\<lambda>bs x. \<exists>a b. bs = u32_to_le a @ u16_to_le b \<and> x = f a b)"
  unfolding wide_reg_def [abs_def] by (rule reads_mono [OF reads_wide_then [OF reads_regs1]]) auto

lemma reads_set_list:
  "reads (set_list tail) (\<lambda>bs x. \<exists>t s f a n. bs = u16_to_le t @ u32_to_le s @ u16_to_le f @ u16_to_le a @ u16_to_le n \<and>
     x = BiSetListCall tail t s f a n)"
  unfolding set_list_def [abs_def]
  by (rule reads_mono [OF reads_reg_then [OF reads_wide_then [OF reads_regs3]]]) auto

text \<open>An opcode and the operands its reader takes are what the instruction is written as.\<close>

definition coded :: "byte \<Rightarrow> bytes \<Rightarrow> bi \<Rightarrow> bool" where
  "coded tag bs x \<longleftrightarrow> appends put_instruction (tag # bs) x"

lemmas coded_defs = coded_def appends_def put_regs_def put_words tail_tag_def

lemma reads_coded:
  assumes "(tag, p) \<in> set instruction_readers"
  shows "reads p (coded tag)"
proof -
  have "list_all (\<lambda>(tag, p). reads p (coded tag)) instruction_readers"
    unfolding instruction_readers_def list.pred_inject prod.case
    by (intro conjI TrueI; (rule reads_mono [OF reads_regs1] reads_mono [OF reads_regs2] reads_mono [OF reads_regs3]
        reads_mono [OF reads_regs4] reads_mono [OF reads_regs5] reads_mono [OF reads_wide] reads_mono [OF reads_reg_wide]
        reads_mono [OF reads_wide_reg] reads_mono [OF reads_set_list], (elim exE conjE, simp add: coded_defs; fail))?)
      (simp_all add: reads_def reads_at_def coded_defs)
  with assms show ?thesis by (auto simp: list_all_iff)
qed

lemma reads_at_tag:
  assumes "\<And>b r'. blu_sound r' \<Longrightarrow> dc_bytes r' = dc_bytes r \<Longrightarrow> blu_pending r = [b] @ blu_pending r' \<Longrightarrow> reads_at r' (q b r') (w b)"
    and "blu_sound r"
  shows "reads_at r (rbind (blu_u8 r) (\<lambda>(b, r). q b r)) (\<lambda>bs x. \<exists>b c. bs = b # c \<and> w b c x)"
  by (rule reads_at_mono [OF reads_at_bind [OF readsD [OF reads_u8 assms(2)], where v = "\<lambda>_. w"]]) (use assms(1) in auto)

lemma reads_instruction: "reads read_instruction (appends put_instruction)"
  unfolding reads_def read_instruction_def Let_def
proof (intro allI impI)
  fix r assume "blu_sound r"
  let ?q = "\<lambda>tag r'. case map_of instruction_readers tag of
      None \<Rightarrow> Err (BdInvalidTag (dc_offset r) ''instruction'' tag) | Some p \<Rightarrow> p r'"
  have "reads_at r' (?q b r') (coded b)" if "blu_sound r'" for b r'
    using readsD [OF reads_coded [OF map_of_SomeD] that] by (simp split: option.split)
  from reads_at_tag [where q = ?q and w = coded, OF this \<open>blu_sound r\<close>] have "reads_at r (rbind (blu_u8 r) (\<lambda>(b, r'). ?q b r')) (\<lambda>bs x. \<exists>b c. bs = b # c \<and> coded b c x)"
    by blast
  then show "reads_at r (rbind (blu_u8 r) (\<lambda>(b, r'). case map_of instruction_readers b of
      None \<Rightarrow> Err (BdInvalidTag (dc_offset r) ''instruction'' b) | Some p \<Rightarrow> p r')) (appends put_instruction)"
    by (rule reads_at_mono) (auto simp: coded_def)
qed

section \<open>Constants, upvalues, spans and debug entries\<close>

lemma blu_reads_constant: "reads (read_constant alloc limits) (writes put_constant)"
  unfolding reads_def read_constant_def Let_def
proof (intro allI impI)
  fix r assume r: "blu_sound r"
  have number: "reads (\<lambda>r. rbind (blu_u64 r) (\<lambda>(x, r). Ok (CNumber x, r))) (\<lambda>bs y. \<exists>x. bs = u64_to_le x \<and> y = CNumber x)"
    by (rule reads_mono [OF blu_reads_bind [OF reads_u64, where v = "\<lambda>_ x bs y. bs = [] \<and> y = CNumber x"]])
      (auto simp: reads_def reads_at_def)
  have integer: "reads (\<lambda>r. rbind (blu_i64 r) (\<lambda>(x, r). Ok (CInteger x, r))) (\<lambda>bs y. \<exists>x. bs = u64_to_le x \<and> y = CInteger x)"
    by (rule reads_mono [OF blu_reads_bind [OF reads_i64, where v = "\<lambda>_ x bs y. bs = [] \<and> y = CInteger x"]])
      (auto simp: reads_def reads_at_def)
  have own: "reads (\<lambda>r. rbind (owned_bytes alloc what bs r) (\<lambda>(bs, r). Ok (CString bs, r))) (\<lambda>b y. b = [] \<and> y = CString bs)" for what bs
    by (rule reads_mono [OF blu_reads_bind [OF reads_owned, where v = "\<lambda>_ x bs y. bs = [] \<and> y = CString x"]])
      (auto simp: reads_def reads_at_def)
  have str: "reads (\<lambda>r. rbind (blu_sized_bytes ''constant bytes'' (bl_max_constant_bytes limits) r) (\<lambda>(bs, r).
        rbind (charge bg_constant_bytes bg_constant_bytes_update (length bs) ''total constant bytes'' (bl_max_total_constant_bytes limits) r) (\<lambda>(_, r).
        rbind (charge_owned (length bs) limits r) (\<lambda>(_, r).
        rbind (owned_bytes alloc ''constant bytes'' bs r) (\<lambda>(bs, r). Ok (CString bs, r))))))
      (\<lambda>bs y. \<exists>x. sized bs x \<and> y = CString x)"
    by (rule reads_mono [OF blu_reads_bind [OF reads_sized_bytes
          reads_then_nothing [OF reads_charge reads_then_nothing [OF reads_charge_owned own]]]]) auto
  let ?q = "\<lambda>tag r'. if tag = 0 then Ok (CNil, r')
      else if tag = 1 then Ok (CBoolean False, r')
      else if tag = 2 then Ok (CBoolean True, r')
      else if tag = 3 then rbind (blu_u64 r') (\<lambda>(x, r). Ok (CNumber x, r))
      else if tag = 4 then
        rbind (blu_sized_bytes ''constant bytes'' (bl_max_constant_bytes limits) r') (\<lambda>(bs, r).
        rbind (charge bg_constant_bytes bg_constant_bytes_update (length bs) ''total constant bytes'' (bl_max_total_constant_bytes limits) r) (\<lambda>(_, r).
        rbind (charge_owned (length bs) limits r) (\<lambda>(_, r).
        rbind (owned_bytes alloc ''constant bytes'' bs r) (\<lambda>(bs, r). Ok (CString bs, r)))))
      else if tag = 5 then rbind (blu_i64 r') (\<lambda>(i, r). Ok (CInteger i, r))
      else Err (BdInvalidTag (dc_offset r) ''constant'' tag)"
  have "reads_at r' (?q b r') (\<lambda>bs x. writes put_constant (b # bs) x)" if "blu_sound r'" for b r'
  proof -
    have c: "reads_at r' (if c then m else n) w" if "c \<Longrightarrow> reads_at r' m w" "\<not> c \<Longrightarrow> reads_at r' n w" for c and m n :: "(blu_constant \<times> decoder, blu_decode_error) res" and w
      using that by simp
    show ?thesis
      by (intro c reads_at_Ok \<open>blu_sound r'\<close> reads_at_Err reads_at_mono [OF readsD [OF number \<open>blu_sound r'\<close>]]
          reads_at_mono [OF readsD [OF str \<open>blu_sound r'\<close>]] reads_at_mono [OF readsD [OF integer \<open>blu_sound r'\<close>]])
        (auto simp: writes_def put_words put_sized_sized)
  qed
  from reads_at_tag [where q = ?q and w = "\<lambda>b bs x. writes put_constant (b # bs) x", OF this r]
  show "reads_at r (rbind (blu_u8 r) (\<lambda>(b, r'). ?q b r')) (writes put_constant)" by (rule reads_at_mono) auto
qed

lemma reads_upvalue: "reads read_upvalue (appends put_upvalue)"
  unfolding reads_def read_upvalue_def Let_def
proof (intro allI impI)
  fix r assume r: "blu_sound r"
  let ?u = "\<lambda>tag index r'. if tag = 0 then Ok (ParentRegister index, r') else if tag = 1 then Ok (ParentUpvalue index, r')
      else Err (BdInvalidTag (dc_offset r) ''upvalue'' tag)"
  have u: "reads (?u b index) (\<lambda>bs x. bs = [] \<and> (b = 0 \<and> x = ParentRegister index \<or> b = 1 \<and> x = ParentUpvalue index))" for b index
    by (auto simp: reads_def reads_at_def)
  have "reads_at r' (rbind (blu_u16 r') (\<lambda>(index, r'). ?u b index r')) (\<lambda>bs x. appends put_upvalue (b # bs) x)" if "blu_sound r'" for b r'
    by (rule reads_at_mono [OF readsD [OF reads_reg_then [where q = "?u b", OF u [of b]] that]])
      (auto simp: appends_def put_words)
  from reads_at_tag [where q = "\<lambda>b r'. rbind (blu_u16 r') (\<lambda>(index, r'). ?u b index r')" and w = "\<lambda>b bs x. appends put_upvalue (b # bs) x", OF this r]
  show "reads_at r (rbind (blu_u8 r) (\<lambda>(b, r'). rbind (blu_u16 r') (\<lambda>(index, r'). ?u b index r'))) (appends put_upvalue)"
    by (rule reads_at_mono) auto
qed

text \<open>The rules in the form that carries what has been read so far.\<close>

lemma reads_step:
  assumes "reads p w" and "\<And>x b. w b x \<Longrightarrow> reads (q x) (\<lambda>c y. v (b @ c) y)"
  shows "reads (\<lambda>r. rbind (p r) (\<lambda>(x, r). q x r)) v"
  by (rule reads_mono [OF blu_reads_bind [OF assms]]) auto

lemma reads_done: "v [] x \<Longrightarrow> reads (\<lambda>r. Ok (x, r)) v"
  by (simp add: reads_def reads_at_def)

lemma reads_check:
  assumes "\<And>r. m r \<noteq> Panic" and "\<And>x r. m r = Ok x \<Longrightarrow> reads (q x) v"
  shows "reads (\<lambda>r. rbind (m r) (\<lambda>x. q x r)) v"
  unfolding reads_def
proof (intro allI impI)
  fix r assume "blu_sound r"
  with assms show "reads_at r (rbind (m r) (\<lambda>x. q x r)) v" by (cases "m r") (auto simp: reads_def)
qed

lemma reads_span: "reads read_span (appends put_span)"
  unfolding reads_def read_span_def Let_def
proof (intro allI impI)
  fix r assume r: "blu_sound r"
  have "reads (\<lambda>r. rbind (blu_u32 r) (\<lambda>(start, r). rbind (blu_u32 r) (\<lambda>(stop, r).
      rbind (map_err (\<lambda>_. BdInvalidSpan k start stop) (span_new source start stop)) (\<lambda>s. Ok (s, r)))))
      (\<lambda>c s. appends put_span (u32_to_le source @ c) s)" for source k
  proof (rule reads_step [OF blu_reads_u32], rule reads_step [OF blu_reads_u32], rule reads_check)
    fix start stop b c s
    assume "b = u32_to_le start" "c = u32_to_le stop" "map_err (\<lambda>_. BdInvalidSpan k start stop) (span_new source start stop) = Ok s"
    then show "reads (\<lambda>r. Ok (s, r)) (\<lambda>d y. appends put_span (u32_to_le source @ b @ c @ d) y)"
      by (intro reads_done) (auto simp: map_err_eq_Ok span_new_def appends_def put_span_def put_words split: if_splits)
  qed (simp add: map_err_eq_Panic span_new_def)
  from readsD [OF this] show "reads_at r (rbind (blu_u32 r) (\<lambda>(source, ra).
      rbind (blu_u32 ra) (\<lambda>(start, r). rbind (blu_u32 r) (\<lambda>(stop, r).
      rbind (map_err (\<lambda>_. BdInvalidSpan (dc_offset ra) start stop) (span_new source start stop)) (\<lambda>s. Ok (s, r)))))) (appends put_span)"
    by (intro reads_at_mono [OF reads_at_bind [OF readsD [OF blu_reads_u32 r],
        where v = "\<lambda>_ source c s. appends put_span (u32_to_le source @ c) s"]]) auto
qed

lemma reads_debug:
  assumes "\<And>name index start stop b out. sized b name \<Longrightarrow>
      put out (f name index start stop) = Ok (out @ b @ u16_to_le index @ u32_to_le start @ u32_to_le stop)"
  shows "reads (read_debug alloc limits what f) (writes put)"
  unfolding read_debug_def [abs_def]
  by (rule reads_step [OF reads_sized_bytes] reads_step [OF reads_charge_debug] reads_step [OF reads_owned]
      reads_step [OF reads_u16] reads_step [OF blu_reads_u32])+
    (rule reads_done, clarsimp simp: writes_def assms)

lemma reads_local: "reads (read_local alloc limits) (writes put_local)"
  unfolding read_local_def
  by (rule reads_debug) (simp add: put_local_def put_sized_sized put_words)

lemma reads_upvalue_debug: "reads (read_upvalue_debug alloc limits) (writes put_upvalue_debug)"
  unfolding read_upvalue_debug_def
  by (rule reads_debug) (simp add: put_upvalue_debug_def put_sized_sized put_words)

section \<open>Prototypes\<close>

text \<open>A counted list: its count and the bytes of its elements.\<close>

definition listed :: "(bytes \<Rightarrow> 'a \<Rightarrow> bool) \<Rightarrow> bytes \<Rightarrow> 'a list \<Rightarrow> bool" where
  "listed w bs xs \<longleftrightarrow> (\<exists>b bss. bs = b @ concat bss \<and> counted b (length xs) \<and> list_all2 w bss xs)"

lemma reads_counted:
  assumes "\<And>n. reads (charges n) (\<lambda>bs x. bs = [])" and "reads p w"
  shows "reads (read_counted alloc what items limit width charges p) (listed w)"
  unfolding read_counted_def [abs_def]
  by (rule reads_step [OF blu_reads_count], rule reads_step [OF assms(1)], rule reads_step [OF reads_reserve],
      rule reads_mono [OF blu_reads_n [OF assms(2)]]) (auto simp: listed_def)

lemma listed_writes:
  assumes "listed (writes put) bs xs"
  obtains b c where "bs = b @ c" and "\<And>what out. put_len what (length xs) out = Ok (out @ b)"
    and "\<And>out. fold_res put out xs = Ok (out @ c)"
proof -
  obtain b bss where "bs = b @ concat bss" "counted b (length xs)" "list_all2 (writes put) bss xs"
    using assms by (auto simp: listed_def)
  then show thesis by (intro that [of b "concat bss"]) (simp_all add: put_len_counted writes_all)
qed

lemma listed_appends:
  assumes "listed (appends put) bs xs"
  obtains b c where "bs = b @ c" and "\<And>what out. put_len what (length xs) out = Ok (out @ b)"
    and "\<And>out. foldl put out xs = out @ c"
proof -
  obtain b bss where "bs = b @ concat bss" "counted b (length xs)" "list_all2 (appends put) bss xs"
    using assms by (auto simp: listed_def)
  then show thesis by (intro that [of b "concat bss"]) (simp_all add: put_len_counted appends_all)
qed

lemma listed_words:
  assumes "listed (\<lambda>bs x. bs = u32_to_le x) bs xs"
  obtains b c where "bs = b @ c" and "\<And>what out. put_len what (length xs) out = Ok (out @ b)"
    and "\<And>out. fold put_u32 xs out = out @ c"
proof -
  obtain b bss where "bs = b @ concat bss" "counted b (length xs)" "list_all2 (\<lambda>bs x. bs = u32_to_le x) bss xs"
    using assms by (auto simp: listed_def)
  then show thesis by (intro that [of b "concat bss"]) (simp_all add: put_len_counted put_u32_all)
qed

lemma reads_charge_both: "reads (charge_both sel upd what limit width limits n) (\<lambda>bs x. bs = [])"
  unfolding charge_both_def [abs_def] by (rule reads_then_nothing [OF reads_charge reads_charge_fixed])

lemma reads_charge_line_info: "reads (charge_line_info code_len limits n) (\<lambda>bs x. bs = [])"
  using reads_charge_fixed by (auto simp: reads_def charge_line_info_def)

lemma profile_tag_of: "tag_profile tag = Some p \<Longrightarrow> profile_tag p = Ok tag"
  by (auto simp: tag_profile_def split: if_splits)

lemma reads_profile: "reads read_profile (\<lambda>bs p. \<exists>tag. bs = [tag] \<and> profile_tag p = Ok tag)"
  unfolding reads_def read_profile_def Let_def
proof (intro allI impI)
  fix r assume r: "blu_sound r"
  let ?q = "\<lambda>tag r'. rbind (index_at (dc_bytes r') (dc_offset r)) (\<lambda>found.
      rbind (ok_or (tag_profile tag) (BdInvalidTag (dc_offset r) ''semantic profile'' found)) (\<lambda>p. Ok (p, r')))"
  have "reads_at r' (?q b r') (\<lambda>bs p. bs = [] \<and> profile_tag p = Ok b)"
    if "blu_sound r'" "dc_bytes r' = dc_bytes r" "blu_pending r = [b] @ blu_pending r'" for b r'
  proof -
    have "dc_offset r < length (dc_bytes r)" using that(3) by (simp add: blu_pending_def) (metis drop_all leI list.distinct(1))
    then show ?thesis using that(1,2) profile_tag_of
      by (auto simp: reads_at_def rbind_eq_Panic rbind_eq_Ok index_at_eq_Panic index_at_eq_Ok ok_or_not_Panic ok_or_eq_Ok)
  qed
  from reads_at_tag [where q = ?q and w = "\<lambda>b bs p. bs = [] \<and> profile_tag p = Ok b", OF this r]
  show "reads_at r (rbind (blu_u8 r) (\<lambda>(tag, r'). ?q tag r')) (\<lambda>bs p. \<exists>tag. bs = [tag] \<and> profile_tag p = Ok tag)"
    by (rule reads_at_mono) auto
qed

lemma reads_vararg: "reads read_vararg (\<lambda>bs v. bs = [if v then 1 else 0])"
  unfolding reads_def read_vararg_def Let_def
proof (intro allI impI)
  fix r assume r: "blu_sound r"
  let ?q = "\<lambda>tag r'. if tag = 0 then Ok (False, r') else if tag = 1 then Ok (True, r') else Err (BdInvalidTag (dc_offset r) ''vararg'' tag)"
  have "reads_at r' (?q b r') (\<lambda>bs v. bs = [] \<and> b = (if v then 1 else 0))" if "blu_sound r'" for b r'
    using that by (simp add: reads_at_def)
  from reads_at_tag [where q = ?q and w = "\<lambda>b bs v. bs = [] \<and> b = (if v then 1 else 0)", OF this r]
  show "reads_at r (rbind (blu_u8 r) (\<lambda>(tag, r'). ?q tag r')) (\<lambda>bs v. bs = [if v then 1 else 0])" by (rule reads_at_mono) auto
qed

lemma reads_reserved: "reads (read_reserved what) (\<lambda>bs x. bs = u16_to_le 0)"
  unfolding reads_def read_reserved_def Let_def
proof (intro allI impI)
  fix r assume r: "blu_sound r"
  show "reads_at r (rbind (blu_u16 r) (\<lambda>(reserved, r').
      if reserved \<noteq> 0 then Err (BdUnsupportedField (dc_offset r) what (unat reserved)) else Ok ((), r'))) (\<lambda>bs x. bs = u16_to_le 0)"
    by (rule reads_at_mono [OF reads_at_bind [OF readsD [OF reads_u16 r], where v = "\<lambda>_ w bs x. bs = [] \<and> w = 0"]])
      (auto simp: reads_at_def)
qed

lemma reads_register_count: "reads (read_register_count limits) (\<lambda>bs n. bs = u16_to_le n)"
  unfolding read_register_count_def [abs_def]
  by (rule reads_step [OF reads_u16], rule reads_check, simp add: ensure_not_Panic, rule reads_step [OF reads_charge], rule reads_done) simp

lemma reads_lines:
  "reads (read_lines present absent)
     (\<lambda>bs l. if present then bs = u32_to_le (fst l) @ u32_to_le (snd l) else bs = [] \<and> l = absent)"
proof (cases present)
  case True
  have "reads (\<lambda>r. rbind (blu_u32 r) (\<lambda>(a, r). rbind (blu_u32 r) (\<lambda>(b, r). Ok ((a, b), r))))
      (\<lambda>bs l. bs = u32_to_le (fst l) @ u32_to_le (snd l))"
    by (rule reads_step [OF blu_reads_u32], rule reads_step [OF blu_reads_u32], rule reads_done) simp
  then show ?thesis using True by (simp add: read_lines_def [abs_def])
qed (simp add: read_lines_def [abs_def] reads_done)

lemma blu_reads_line_info:
  "reads (\<lambda>r. if present then read_counted alloc what items limit width (charge_line_info code_len limits) blu_u32 r else Ok ([], r))
     (\<lambda>bs xs. if present then listed (\<lambda>bs x. bs = u32_to_le x) bs xs else bs = [] \<and> xs = [])"
  using reads_counted [where charges = "charge_line_info code_len limits", OF reads_charge_line_info blu_reads_u32]
  by (cases present) (simp_all add: reads_done)

lemma blu_reads_prototype: "reads (read_prototype alloc limits format) (writes (put_prototype format))"
  unfolding read_prototype_def [abs_def]
proof (rule reads_step [OF reads_profile], rule reads_step [OF reads_vararg], rule reads_step [OF reads_reserved],
    rule reads_step [OF blu_reads_u32], rule reads_step [OF reads_register_count], rule reads_step [OF reads_u16],
    rule reads_step [OF reads_lines], rule reads_step [OF reads_u64], rule reads_step [OF reads_lines],
    rule reads_step [OF reads_counted [OF reads_charge_both blu_reads_constant]],
    rule reads_step [OF reads_counted [OF reads_charge_both reads_upvalue]],
    rule reads_step [OF reads_counted [OF reads_charge_both blu_reads_u32]],
    rule reads_step [OF reads_counted [OF reads_charge_both reads_instruction]],
    rule reads_step [OF reads_counted [OF reads_charge_both reads_span]],
    rule reads_step [OF blu_reads_line_info],
    rule reads_step [OF reads_counted [OF reads_charge_both reads_local]],
    rule reads_step [OF reads_counted [OF reads_charge_both reads_upvalue_debug]], rule reads_done, goal_cases)
  case (1 profile tag vararg b1 u b2 source b3 registers b4 parameters b5 lines b6 features b7 lines' b8 constants b9 upvalues b10
      children b11 code b12 spans b13 info b14 locals b15 names b16)
  obtain t where t: "tag = [t]" "profile_tag profile = Ok t" using 1(1) by blast
  have h: "b1 = [if vararg then 1 else 0]" "b2 = u16_to_le 0" "b3 = u32_to_le source" "b4 = u16_to_le registers"
    "b5 = u16_to_le parameters" "b7 = u64_to_le features" using 1(2-6,8) by simp_all
  obtain c9 d9 where c9: "b9 = c9 @ d9" "\<And>what out. put_len what (length constants) out = Ok (out @ c9)"
    "\<And>out. fold_res put_constant out constants = Ok (out @ d9)" by (rule listed_writes [OF 1(10)]) blast
  obtain c10 d10 where c10: "b10 = c10 @ d10" "\<And>what out. put_len what (length upvalues) out = Ok (out @ c10)"
    "\<And>out. foldl put_upvalue out upvalues = out @ d10" by (rule listed_appends [OF 1(11)]) blast
  obtain c11 d11 where c11: "b11 = c11 @ d11" "\<And>what out. put_len what (length children) out = Ok (out @ c11)"
    "\<And>out. fold put_u32 children out = out @ d11" by (rule listed_words [OF 1(12)]) blast
  obtain c12 d12 where c12: "b12 = c12 @ d12" "\<And>what out. put_len what (length code) out = Ok (out @ c12)"
    "\<And>out. foldl put_instruction out code = out @ d12" by (rule listed_appends [OF 1(13)]) blast
  obtain c13 d13 where c13: "b13 = c13 @ d13" "\<And>what out. put_len what (length spans) out = Ok (out @ c13)"
    "\<And>out. foldl put_span out spans = out @ d13" by (rule listed_appends [OF 1(14)]) blast
  obtain c15 d15 where c15: "b15 = c15 @ d15" "\<And>what out. put_len what (length locals) out = Ok (out @ c15)"
    "\<And>out. fold_res put_local out locals = Ok (out @ d15)" by (rule listed_writes [OF 1(16)]) blast
  obtain c16 d16 where c16: "b16 = c16 @ d16" "\<And>what out. put_len what (length names) out = Ok (out @ c16)"
    "\<And>out. fold_res put_upvalue_debug out names = Ok (out @ d16)" by (rule listed_writes [OF 1(17)]) blast
  note parts = t h c9 c10 c11 c12 c13 c15 c16 put_lines_def put_words requires_def
  show ?case
  proof (cases "format = BluV2")
    case True
    obtain c14 d14 where c14: "b14 = c14 @ d14" "\<And>what out. put_len what (length info) out = Ok (out @ c14)"
      "\<And>out. fold put_u32 info out = out @ d14" by (rule listed_words [of b14 info]) (use 1(15) True in auto)
    have "b6 = u32_to_le (fst lines') @ u32_to_le (snd lines')" "b8 = []" using 1(7,9) True by simp_all
    then show ?thesis using True c14 by (simp add: writes_def put_prototype_def Let_def parts)
  next
    case False
    then have "b14 = []" "info = []" "b6 = []" using 1(15,7) by simp_all
    then show ?thesis using False 1(9) by (cases format) (auto simp: writes_def put_prototype_def Let_def parts)
  qed
qed

section \<open>The artifact\<close>

lemma reads_text: "reads (blu_text alloc what limit limits) sized"
proof -
  have "reads (\<lambda>r. rbind (blu_sized_bytes what limit r) (\<lambda>(bs, r). rbind (ensure (utf8_valid bs) (BdInvalidUtf8 k what)) (\<lambda>_.
      rbind (charge_owned (length bs) limits r) (\<lambda>(_, r). owned_bytes alloc what bs r)))) sized" for k
    by (rule reads_step [OF reads_sized_bytes], rule reads_check, simp add: ensure_not_Panic,
        rule reads_step [OF reads_charge_owned], rule reads_mono [OF reads_owned]) auto
  then show ?thesis unfolding reads_def blu_text_def Let_def by blast
qed

lemma compiler_identity_new_Ok:
  "compiler_identity_new i name version revision limits = Ok c \<Longrightarrow>
     ci_id c = i \<and> ci_name c = name \<and> ci_version c = version \<and> ci_revision c = revision"
  by (auto simp: compiler_identity_new_def rbind_eq_Ok)

lemma reads_revision:
  "reads (\<lambda>r. if tag = 0 then Ok (None, r)
      else if tag = 1 then rbind (blu_text alloc what limit limits r) (\<lambda>(revision, r). Ok (Some revision, r))
      else Err (BdInvalidTag k ''compiler revision presence'' tag))
     (\<lambda>bs v. tag = 0 \<and> v = None \<and> bs = [] \<or> tag = 1 \<and> (\<exists>x. v = Some x \<and> sized bs x))"
proof -
  have "reads (\<lambda>r. rbind (blu_text alloc what limit limits r) (\<lambda>(revision, r). Ok (Some revision, r)))
      (\<lambda>bs v. \<exists>x. v = Some x \<and> sized bs x)"
    by (rule reads_step [OF reads_text], rule reads_done) simp
  then show ?thesis by (cases "tag = 0"; cases "tag = 1") (simp_all add: reads_def reads_at_Ok)
qed

lemma reads_let: "(\<And>k. reads (f k) w) \<Longrightarrow> reads (\<lambda>r. let k = dc_offset r in f k r) w"
  by (simp add: reads_def)

lemma reads_let_value: "reads (f c) w \<Longrightarrow> reads (\<lambda>r. let k = c in f k r) w"
  by simp

lemma reads_compiler: "reads (read_compiler alloc limits) (\<lambda>bs c. (\<forall>out. put_compiler c out = Ok (out @ bs)) \<and> length (ci_id c) = 16)"
  unfolding read_compiler_def [abs_def]
proof (rule reads_step [OF reads_array], rule reads_let, rule reads_let_value, rule reads_step [OF reads_text],
    rule reads_step [OF reads_text], rule reads_let, rule reads_step [OF reads_u8], rule reads_step [OF reads_revision],
    rule reads_check, goal_cases)
  case (1 i b k name b1 version b2 k2 tag b3 revision b4 r)
  then show ?case by (auto simp: map_err_eq_Panic compiler_identity_new_def rbind_eq_Panic validate_text_not_Panic split: option.split)
next
  case (2 i b k name b1 version b2 k2 tag b3 revision b4 c r)
  then have c: "ci_id c = i" "ci_name c = name" "ci_version c = version" "ci_revision c = revision"
    using compiler_identity_new_Ok by (auto simp: map_err_eq_Ok)
  then show ?case using 2 by (intro reads_done) (auto simp: put_compiler_def put_sized_sized put_byte_def)
qed

lemma reads_source: "reads (read_source alloc limits) (\<lambda>bs s. writes put_source bs s \<and> length (sr_digest s) = 32)"
  unfolding read_source_def [abs_def]
proof (rule reads_step [OF blu_reads_u32], rule reads_let, rule reads_step [OF reads_text], rule reads_check, goal_cases)
  case (1 i b k name b1 r)
  then show ?case by (simp add: map_err_eq_Panic source_identity_new_def rbind_eq_Panic validate_text_not_Panic)
next
  case (2 i b k name b1 identity r)
  then have identity: "si_id identity = i" "si_name identity = name" by (auto simp: map_err_eq_Ok source_identity_new_def rbind_eq_Ok)
  show ?case
  proof (rule reads_step [OF blu_reads_u32], rule reads_step [OF reads_array], rule reads_done)
    fix n b2 and digest b3 :: bytes
    assume "b2 = u32_to_le n" "digest = b3 \<and> length b3 = 32"
    then show "writes put_source (b @ b1 @ b2 @ b3 @ []) \<lparr>sr_identity = identity, sr_byte_len = n, sr_digest = digest\<rparr> \<and>
        length (sr_digest \<lparr>sr_identity = identity, sr_byte_len = n, sr_digest = digest\<rparr>) = 32"
      using 2 identity by (auto simp: writes_def put_source_def put_sized_sized put_words)
  qed
qed

lemma reads_format: "reads read_format (\<lambda>bs f. bs = BLU_MAGIC @ u16_to_le (format_version f))"
  unfolding read_format_def [abs_def]
proof (rule reads_step [OF reads_array])
  fix magic b :: bytes
  assume b: "magic = b \<and> length b = 4"
  have "reads (\<lambda>r. rbind (blu_u16 r) (\<lambda>(version, r). if version = BLU_V1_VERSION then Ok (BluV1, r)
       else if version = BLU_V2_VERSION then Ok (BluV2, r) else Err (BdUnsupportedVersion version)))
      (\<lambda>c f. c = u16_to_le (format_version f))"
    by (rule reads_step [OF reads_u16]) (auto simp: reads_def reads_at_def format_version_def)
  then show "reads (\<lambda>r. if magic \<noteq> BLU_MAGIC then Err (BdInvalidMagic magic)
      else rbind (blu_u16 r) (\<lambda>(version, r). if version = BLU_V1_VERSION then Ok (BluV1, r)
       else if version = BLU_V2_VERSION then Ok (BluV2, r) else Err (BdUnsupportedVersion version)))
      (\<lambda>c f. b @ c = BLU_MAGIC @ u16_to_le (format_version f))"
    using b by (cases "magic = BLU_MAGIC") (simp_all add: reads_def)
qed

text \<open>The fixed-width arrays of an artifact, which are byte lists here.\<close>

definition arrays_ok :: "artifact \<Rightarrow> bool" where
  "arrays_ok a \<longleftrightarrow> length (ci_id (ar_compiler a)) = 16 \<and> (\<forall>s\<in>set (ar_sources a). length (sr_digest s) = 32)"

lemma listed_and:
  assumes "listed (\<lambda>bs x. w bs x \<and> q x) bs xs"
  shows "listed w bs xs" and "\<forall>x\<in>set xs. q x"
proof -
  have "list_all2 w bss xs \<and> (\<forall>x\<in>set xs. q x)" if "list_all2 (\<lambda>bs x. w bs x \<and> q x) bss xs" for bss
    using that by (induction bss xs rule: list_all2_induct) auto
  then show "listed w bs xs" and "\<forall>x\<in>set xs. q x" using assms by (auto simp: listed_def)
qed

lemma reads_artifact: "reads (read_artifact alloc limits) (\<lambda>bs a. put_artifact a = Ok bs \<and> arrays_ok a)"
  unfolding read_artifact_def [abs_def]
proof (rule reads_step [OF reads_format], rule reads_step [OF reads_reserved], rule reads_step [OF reads_compiler],
    rule reads_step [OF reads_counted [OF reads_charge_fixed reads_source]], rule reads_step [OF reads_count_with_extra],
    rule reads_step [OF blu_reads_u32], rule reads_step [OF reads_charge_fixed], rule reads_step [OF reads_reserve],
    rule reads_step [OF blu_reads_n [OF blu_reads_prototype]], rule reads_done, goal_cases)
  case (1 format b1 u1 b2 compiler b3 sources b4 n b5 main b6 u2 b7 u3 b8 prototypes b9)
  obtain c4 d4 where c4: "b4 = c4 @ d4" "\<And>what out. put_len what (length sources) out = Ok (out @ c4)"
    "\<And>out. fold_res put_source out sources = Ok (out @ d4)" by (rule listed_writes [OF listed_and(1) [OF 1(4)]]) blast
  obtain bss where bss: "length prototypes = n" "b9 = concat bss" "list_all2 (writes (put_prototype format)) bss prototypes"
    using 1(9) by blast
  show ?case
    using 1(1-3,6-8) c4 bss(1,2) writes_all [OF bss(3)] put_len_counted [OF 1(5)] listed_and(2) [OF 1(4)]
    by (simp add: put_artifact_def Let_def put_words arrays_ok_def)
qed

section \<open>The round trip\<close>

lemma blu_decode_exact:
  shows "blu_decode alloc bs limits \<noteq> Panic" and "blu_decode alloc bs limits = Ok a \<Longrightarrow> put_artifact a = Ok bs \<and> arrays_ok a"
proof -
  let ?r = "\<lambda>budget. \<lparr>dc_bytes = bs, dc_offset = 0, dc_budget = budget\<rparr>"
  have at: "reads_at (?r budget) (read_artifact alloc limits (?r budget)) (\<lambda>bs a. put_artifact a = Ok bs \<and> arrays_ok a)" for budget
    by (rule readsD [OF reads_artifact]) (simp add: blu_sound_def)
  have fits: "dc_bytes r = bs \<and> dc_offset r \<le> length bs \<and> (\<exists>c. put_artifact a = Ok c \<and> arrays_ok a \<and> bs = c @ drop (dc_offset r) bs)"
    if "read_artifact alloc limits (?r budget) = Ok (a, r)" for budget a r
    by (rule reads_atE [OF at that]) (auto simp: blu_sound_def blu_pending_def)
  have calm: "read_artifact alloc limits (?r budget) \<noteq> Panic" for budget using at by (simp add: reads_at_def)
  show "blu_decode alloc bs limits \<noteq> Panic"
    using calm fits unfolding blu_decode_def
    by (auto simp: rbind_eq_Panic budget_new_def plain_sub_def not_le split: if_splits)
  show "put_artifact a = Ok bs \<and> arrays_ok a" if decoded: "blu_decode alloc bs limits = Ok a"
  proof -
    obtain budget r where "read_artifact alloc limits (?r budget) = Ok (a, r)" "dc_offset r = length bs"
      using decoded unfolding blu_decode_def by (auto simp: rbind_eq_Ok split: if_splits)
    with fits show ?thesis by fastforce
  qed
qed

end
