(* ===== verification/Blu_Sizes.thy ===== *)
theory Blu_Sizes
  imports Blu_Roundtrip Blu_Verdict
begin

text \<open>
  \<open>encoded_size\<close> predicts the length of an encoding exactly, so \<open>encode\<close> never grows the buffer it
  reserved; and decoding with validation followed by encoding gives back the bytes.
\<close>

section \<open>The length of what is written\<close>

lemma add_size_Ok: "add_size sz k = Ok n \<longleftrightarrow> n = sz + k \<and> sz + k \<le> usize_max"
  by (auto simp: add_size_def ok_or_eq_Ok checked_add_eq_Some)

lemma add_scaled_Ok: "add_scaled sz k w = Ok n \<Longrightarrow> n = sz + k * w"
  by (auto simp: add_scaled_def rbind_eq_Ok ok_or_eq_Ok checked_mul_eq_Some add_size_Ok)

lemma put_len_length: "put_len what n out = Ok out' \<Longrightarrow> length out' = length out + 4"
  by (auto simp: put_len_def put_u32_def split: if_splits)

lemma put_sized_length: "put_sized what bs out = Ok out' \<Longrightarrow> length out' = length out + 4 + length bs"
  by (auto simp: put_sized_def rbind_eq_Ok dest: put_len_length)

lemma put_words_length [simp]:
  "length (put_u16 a out) = length out + 2" "length (put_u32 b out) = length out + 4"
  "length (put_u64 c out) = length out + 8" "length (put_i64 c out) = length out + 8" "length (put_byte d out) = length out + 1"
  by (simp_all add: put_words)

lemma put_regs_length [simp]: "length (put_regs rs out) = length out + 2 * length rs"
proof -
  have "length (fold put_u16 rs out) = length out + 2 * length rs" by (induction rs arbitrary: out) simp_all
  then show ?thesis by (simp add: put_regs_def)
qed

lemma put_constant_length: "put_constant out c = Ok out' \<Longrightarrow> length out' = length out + constant_size c"
  by (cases c) (auto dest: put_sized_length)

lemma put_instruction_length: "length (put_instruction out i) = length out + instruction_size i"
  by (cases i) simp_all

lemma put_upvalue_length: "length (put_upvalue out u) = length out + 3"
  by (cases u) simp_all

lemma put_span_length: "length (put_span out s) = length out + 12"
  by (simp add: put_span_def)

lemma put_local_length: "put_local out l = Ok out' \<Longrightarrow> length out' = length out + (14 + length (ld_name l))"
  by (auto simp: put_local_def rbind_eq_Ok dest: put_sized_length)

lemma put_upvalue_debug_length: "put_upvalue_debug out u = Ok out' \<Longrightarrow> length out' = length out + (14 + length (ud_name u))"
  by (auto simp: put_upvalue_debug_def rbind_eq_Ok dest: put_sized_length)

section \<open>Loops over the parts\<close>

lemma sizes_fold: "fold_res (\<lambda>sz x. add_size sz (f x)) sz xs = Ok n \<Longrightarrow> n = sz + sum_list (map f xs)"
proof (induction xs arbitrary: sz)
  case (Cons x xs)
  then have "fold_res (\<lambda>sz x. add_size sz (f x)) (sz + f x) xs = Ok n" by (auto simp: rbind_eq_Ok add_size_Ok)
  from Cons.IH [OF this] show ?case by simp
qed simp

lemma length_fold_res:
  assumes "fold_res put out xs = Ok out'" and "\<And>out x out'. x \<in> set xs \<Longrightarrow> put out x = Ok out' \<Longrightarrow> length out' = length out + f x"
  shows "length out' = length out + sum_list (map f xs)"
  using assms
proof (induction xs arbitrary: out)
  case (Cons x xs)
  obtain mid where mid: "put out x = Ok mid" "fold_res put mid xs = Ok out'" using Cons.prems(1) by (auto simp: rbind_eq_Ok)
  have "length out' = length mid + sum_list (map f xs)" by (rule Cons.IH [OF mid(2)]) (use Cons.prems(2) in auto)
  then show ?case using Cons.prems(2) [OF _ mid(1)] by simp
qed simp

lemma length_foldl:
  assumes "\<And>out x. length (put out x) = length out + f x"
  shows "length (foldl put out xs) = length out + sum_list (map f xs)"
  by (induction xs arbitrary: out) (simp_all add: assms)

lemma length_fold_words: "length (fold put_u32 xs out) = length out + 4 * length xs"
  by (induction xs arbitrary: out) simp_all

lemmas part_lengths = length_foldl [OF put_upvalue_length] length_foldl [OF put_instruction_length] length_foldl [OF put_span_length]
  length_fold_words sum_list_triv

section \<open>Prototypes and the artifact\<close>

definition prototype_bytes :: "blu_format \<Rightarrow> blu_prototype \<Rightarrow> nat" where
  "prototype_bytes format p =
     48 + (if has_lines format p then 8 else 0) + sum_list (map constant_size (bp_constants p)) + 3 * length (bp_upvalues p) +
     4 * length (bp_children p) + sum_list (map instruction_size (bp_code p)) + 12 * length (bp_source_map p) +
     (if format = BluV2 then 4 + 4 * length (bp_line_info p) else 0) +
     sum_list (map (\<lambda>l. 14 + length (ld_name l)) (bp_locals p)) +
     sum_list (map (\<lambda>u. 14 + length (ud_name u)) (bp_upvalue_debug p))"

lemma prototype_size_Ok:
  assumes "prototype_size format sz p = Ok n"
  shows "n = sz + prototype_bytes format p"
proof -
  note sums = sizes_fold [where f = constant_size] sizes_fold [where f = instruction_size]
    sizes_fold [where f = "\<lambda>l. 14 + length (ld_name l)"] sizes_fold [where f = "\<lambda>u. 14 + length (ud_name u)"]
  from assms show ?thesis
    unfolding prototype_size_def rbind_eq_Ok
    by (auto simp: add_size_Ok prototype_bytes_def rbind_eq_Ok split: if_splits dest!: add_scaled_Ok sums)
qed

lemma put_prototype_length:
  assumes "put_prototype format out p = Ok out'"
  shows "length out' = length out + prototype_bytes format p"
proof -
  note folds = length_fold_res [where put = put_constant and f = constant_size, OF _ put_constant_length]
    length_fold_res [where put = put_local and f = "\<lambda>l. 14 + length (ld_name l)", OF _ put_local_length]
    length_fold_res [where put = put_upvalue_debug and f = "\<lambda>u. 14 + length (ud_name u)", OF _ put_upvalue_debug_length]
  show ?thesis
    using assms unfolding put_prototype_def Let_def rbind_eq_Ok
    by (cases format)
      (auto simp: prototype_bytes_def has_lines_def put_lines_def part_lengths rbind_eq_Ok split: if_splits dest!: put_len_length folds)
qed

definition source_bytes :: "source_record \<Rightarrow> nat" where
  "source_bytes s = 44 + length (si_name (sr_identity s))"

lemma put_source_length:
  "put_source out s = Ok out' \<Longrightarrow> length (sr_digest s) = 32 \<Longrightarrow> length out' = length out + source_bytes s"
  by (auto simp: put_source_def source_bytes_def rbind_eq_Ok dest!: put_sized_length)

lemma put_compiler_length:
  "put_compiler c out = Ok out' \<Longrightarrow> length (ci_id c) = 16 \<Longrightarrow>
     length out' = length out + 25 + length (ci_name c) + length (ci_version c) +
       (case ci_revision c of None \<Rightarrow> 0 | Some r \<Rightarrow> 4 + length r)"
  by (auto simp: put_compiler_def rbind_eq_Ok dest!: put_sized_length split: option.splits)

lemma put_prototypes_length:
  "fold_res (put_prototype format) out ps = Ok out' \<Longrightarrow> length out' = length out + sum_list (map (prototype_bytes format) ps)"
  by (rule length_fold_res) (auto dest: put_prototype_length)

lemma prototype_sizes: "fold_res (prototype_size format) sz ps = Ok n \<Longrightarrow> n = sz + sum_list (map (prototype_bytes format) ps)"
proof (induction ps arbitrary: sz)
  case (Cons p ps)
  then have "fold_res (prototype_size format) (sz + prototype_bytes format p) ps = Ok n"
    by (auto simp: rbind_eq_Ok dest: prototype_size_Ok)
  from Cons.IH [OF this] show ?case by simp
qed simp

lemma sizes_exact:
  assumes "encoded_size a = Ok n" and "put_artifact a = Ok out" and "arrays_ok a"
  shows "length out = n"
proof -
  let ?c = "ar_compiler a"
  let ?revision = "case ci_revision ?c of None \<Rightarrow> 0 | Some r \<Rightarrow> 4 + length r"
  let ?total = "45 + length (ci_name ?c) + length (ci_version ?c) + ?revision +
    sum_list (map source_bytes (ar_sources a)) + sum_list (map (prototype_bytes (ar_format a)) (ar_prototypes a))"
  have "n = ?total"
    using assms(1) unfolding encoded_size_def Let_def rbind_eq_Ok
    by (auto simp: add_size_Ok source_bytes_def [abs_def] dest!: prototype_sizes sizes_fold [where f = "\<lambda>s. 44 + length (si_name (sr_identity s))"]
      split: option.splits)
  moreover have "length out = ?total"
  proof -
    obtain o1 o2 o3 o4 where "put_compiler ?c (put_u16 0 (put_u16 (format_version (ar_format a)) BLU_MAGIC)) = Ok o1"
      "put_len ''source count'' (length (ar_sources a)) o1 = Ok o2" and sources: "fold_res put_source o2 (ar_sources a) = Ok o3"
      and "put_len ''prototype count'' (length (ar_prototypes a)) o3 = Ok o4"
      and ps: "fold_res (put_prototype (ar_format a)) (put_u32 (ar_main a) o4) (ar_prototypes a) = Ok out"
      using assms(2) by (auto simp: put_artifact_def Let_def rbind_eq_Ok)
    then have "length o1 = 33 + length (ci_name ?c) + length (ci_version ?c) + ?revision" "length o2 = length o1 + 4" "length o4 = length o3 + 4"
      using put_compiler_length put_len_length assms(3) by (auto simp: arrays_ok_def BLU_MAGIC_def)
    moreover have "length o3 = length o2 + sum_list (map source_bytes (ar_sources a))"
      by (rule length_fold_res [OF sources put_source_length]) (use assms(3) in \<open>auto simp: arrays_ok_def\<close>)
    ultimately show ?thesis using put_prototypes_length [OF ps] by simp
  qed
  ultimately show ?thesis by simp
qed

section \<open>Decoding, then encoding\<close>

lemma map_option_Ok: "map_option (map_err f) m = Some (Ok x) \<longleftrightarrow> m = Some (Ok x)"
  by (cases m) (auto simp: map_err_eq_Ok)

lemma decode_validated_Ok:
  assumes "decode_validated alloc bs limits = Some (Ok v)"
  shows "blu_decode alloc bs limits = Ok (va_artifact v)" and "blu_validate alloc (va_artifact v) limits = Some (Ok ())"
  using assms by (auto simp: decode_validated_def validated_new_def then_maybe_eq_Some_Ok map_err_eq_Ok maybe_then_eq_Some_Ok)

lemma validated_size:
  assumes "blu_validate alloc a limits = Some (Ok ())"
  shows "\<exists>n. encoded_size a = Ok n \<and> n \<le> bl_max_bytes limits"
  using assms
  by (auto simp: blu_validate_def then_maybe_eq_Some_Ok validate_first_def Let_def rbind_eq_Ok map_err_eq_Ok bv_check_limit_def ensure_eq_Ok)

lemma decoded_encodes:
  assumes "decode_validated alloc bs limits = Some (Ok v)" and "alloc (length bs)"
  shows "blu_encode alloc v limits = Some (Ok bs)"
proof -
  note decoded = decode_validated_Ok [OF assms(1)]
  from blu_decode_exact(2) [OF decoded(1)] have put: "put_artifact (va_artifact v) = Ok bs" and arrays: "arrays_ok (va_artifact v)" by auto
  obtain n where n: "encoded_size (va_artifact v) = Ok n" "n \<le> bl_max_bytes limits" using validated_size [OF decoded(2)] by blast
  have "length bs = n" by (rule sizes_exact [OF n(1) put arrays])
  then show ?thesis using decoded(2) n put assms(2) by (simp add: blu_encode_def Let_def)
qed

text \<open>
  C2: encoding inverts decoding: bytes that \<open>decode_validated\<close> accepts are exactly what \<open>encode\<close> writes for
  the artifact, so an artifact has one encoding.
\<close>

theorem decode_then_encode:
  assumes "decode_validated alloc bs limits = Some (Ok v)" and "alloc (length bs)"
  shows "blu_encode alloc v limits = Some (Ok bs)"
  using assms by (rule decoded_encodes)

text \<open>
  C18: decoding and validating untrusted bytes returns an artifact or an error, for any bytes, limits and
  allocator.
\<close>

theorem decode_answers: "\<exists>answer. decode_validated alloc bs limits = Some answer \<and> answer \<noteq> Panic"
proof (cases "blu_decode alloc bs limits")
  case (Ok a)
  obtain v where "blu_validate alloc a limits = Some v" "v \<noteq> Panic" using validate_verdict by blast
  then show ?thesis using Ok by (cases v) (auto simp: decode_validated_def validated_new_def)
next
  case (Err e)
  then show ?thesis by (simp add: decode_validated_def)
next
  case Panic
  then show ?thesis using blu_decode_exact(1) by blast
qed

text \<open>
  C19: the size that \<open>encode\<close> computes in advance and reserves is exactly the length of what it writes, which
  is within the limit: the output vector never grows past its reservation.
\<close>

theorem encode_fits_reservation:
  assumes "blu_encode alloc v limits = Some (Ok out)" and "arrays_ok (va_artifact v)"
  shows "encoded_size (va_artifact v) = Ok (length out) \<and> length out \<le> bl_max_bytes limits \<and> alloc (length out)"
proof -
  obtain n where n: "encoded_size (va_artifact v) = Ok n" "n \<le> bl_max_bytes limits" "alloc n" "put_artifact (va_artifact v) = Ok out"
    using assms(1) by (auto simp: blu_encode_def Let_def maybe_then_eq_Some_Ok map_option_Ok rbind_eq_Ok ensure_eq_Ok)
  with sizes_exact [OF n(1,4) assms(2)] show ?thesis by simp
qed

end
