(* ===== verification/Blu_Tiny.thy ===== *)
theory Blu_Tiny
  imports Blu_Accept Blu_Sizes
begin

text \<open>
  The smallest artifact, a main function that returns nothing, as bytes: it decodes, passes validation
  and encodes to the same bytes. The sample artifact encodes into exactly the bytes reserved for it.
\<close>

section \<open>The bytes\<close>

definition tiny_bytes :: bytes where
  "tiny_bytes =
     [0x42, 0x4C, 0x55, 0, 1, 0, 0, 0,
      0, 0, 0, 0, 0, 0, 0, 0, 0, 0, 0, 0, 0, 0, 0, 0,
      1, 0, 0, 0, 0x62, 1, 0, 0, 0, 0x31, 0,
      1, 0, 0, 0, 7, 0, 0, 0, 0, 0, 0, 0, 0, 0, 0, 0,
      0, 0, 0, 0, 0, 0, 0, 0, 0, 0, 0, 0, 0, 0, 0, 0, 0, 0, 0, 0, 0, 0, 0, 0, 0, 0, 0, 0, 0, 0, 0, 0,
      1, 0, 0, 0, 0, 0, 0, 0,
      1, 0, 0, 0, 7, 0, 0, 0, 0, 0, 0, 0, 1, 0, 0, 0, 0, 0, 0, 0,
      0, 0, 0, 0, 0, 0, 0, 0, 0, 0, 0, 0,
      1, 0, 0, 0, 2, 0, 0, 0, 0,
      1, 0, 0, 0, 7, 0, 0, 0, 0, 0, 0, 0, 0, 0, 0, 0,
      0, 0, 0, 0, 0, 0, 0, 0]"

definition tiny_prototype :: blu_prototype where
  "tiny_prototype =
     \<lparr>bp_profile = Blu, bp_source = 7, bp_register_count = 0, bp_parameter_count = 0, bp_is_vararg = False,
      bp_line_defined = 0, bp_last_line_defined = 0, bp_required_features = 1, bp_constants = [], bp_upvalues = [],
      bp_children = [], bp_code = [BiReturn 0 0], bp_source_map = [ByteSpan 7 0 0], bp_line_info = [], bp_locals = [],
      bp_upvalue_debug = []\<rparr>"

definition tiny_artifact :: artifact where
  "tiny_artifact =
     \<lparr>ar_format = BluV1,
      ar_compiler = \<lparr>ci_id = [0, 0, 0, 0, 0, 0, 0, 0, 0, 0, 0, 0, 0, 0, 0, 0], ci_name = [0x62], ci_version = [0x31], ci_revision = None\<rparr>,
      ar_sources = [\<lparr>sr_identity = \<lparr>si_id = 7, si_name = []\<rparr>, sr_byte_len = 0, sr_digest = 
        [0, 0, 0, 0, 0, 0, 0, 0, 0, 0, 0, 0, 0, 0, 0, 0, 0, 0, 0, 0, 0, 0, 0, 0, 0, 0, 0, 0, 0, 0, 0, 0]\<rparr>],
      ar_prototypes = [tiny_prototype], ar_main = 0\<rparr>"

lemma blu_tiny_length: "length tiny_bytes = 156"
  by (simp add: tiny_bytes_def)

lemmas decode_evals = blu_take_def blu_array_def blu_u8_def blu_u16_def blu_u32_def blu_u64_def blu_remaining_def saturating_sub_def
  slice_at_def index_at_def u16_from_le_def u32_from_le_def u64_from_le_def count_with_extra_def blu_count_def blu_sized_bytes_def
  checked_mul_def checked_add_def usize_max_def budget_add_def charge_def charge_owned_def charge_fixed_def charge_debug_def
  try_reserve_decode_def owned_bytes_def blu_text_def tag_profile_def read_profile_def read_vararg_def read_reserved_def
  read_register_count_def read_lines_def read_span_def read_counted_def charge_both_def span_new_def

definition tiny_state :: "nat \<Rightarrow> nat \<Rightarrow> nat \<Rightarrow> nat \<Rightarrow> decoder" where
  "tiny_state offset decoded code spans =
     \<lparr>dc_bytes = tiny_bytes, dc_offset = offset, dc_budget =
       \<lparr>bg_registers = 0, bg_constants = 0, bg_constant_bytes = 0, bg_code = code, bg_children = 0, bg_upvalues = 0,
        bg_debug_entries = 0, bg_debug_bytes = 0, bg_source_map_entries = spans, bg_decoded_bytes = decoded\<rparr>\<rparr>"

lemma tiny_compiler:
  "read_compiler (\<lambda>_. True) default_blu_limits (tiny_state 8 256 0 0) = Ok (ar_compiler tiny_artifact, tiny_state 35 258 0 0)"
  by (simp add: read_compiler_def decode_evals tiny_state_def tiny_bytes_def tiny_artifact_def default_blu_limits_def
    default_identity_limits_def compiler_identity_new_def validate_text_def utf8_step_ascii)

lemma tiny_source:
  "read_source (\<lambda>_. True) default_blu_limits (tiny_state 39 354 0 0) = Ok (hd (ar_sources tiny_artifact), tiny_state 83 354 0 0)"
  by (simp add: read_source_def decode_evals tiny_state_def tiny_bytes_def tiny_artifact_def default_blu_limits_def
    default_identity_limits_def source_identity_new_def validate_text_def)

lemma tiny_decoded_prototype:
  "read_prototype (\<lambda>_. True) default_blu_limits BluV1 (tiny_state 91 610 0 0) = Ok (tiny_prototype, tiny_state 156 638 1 1)"
  by (simp add: read_prototype_def decode_evals tiny_state_def tiny_bytes_def default_blu_limits_def tiny_prototype_def
    decoded_charges read_instruction_def instruction_readers_def regs1_def regs2_def features_contain_def STRIPPED_DEBUG_LINES_def feature_def)

lemma tiny_artifact_read:
  "read_artifact (\<lambda>_. True) default_blu_limits (tiny_state 0 256 0 0) = Ok (tiny_artifact, tiny_state 156 638 1 1)"
proof -
  have "read_format (tiny_state 0 256 0 0) = Ok (BluV1, tiny_state 6 256 0 0)"
    "read_reserved ''header flags'' (tiny_state 6 256 0 0) = Ok ((), tiny_state 8 256 0 0)"
    by (simp_all add: read_format_def decode_evals tiny_state_def tiny_bytes_def BLU_MAGIC_def BLU_V1_VERSION_def)
  moreover have "read_counted (\<lambda>_. True) ''source count'' ''sources'' (bl_max_sources default_blu_limits) 44
      (\<lambda>n. charge_fixed n DECODED_SOURCE_CHARGE default_blu_limits) (read_source (\<lambda>_. True) default_blu_limits) (tiny_state 35 258 0 0) =
      Ok (ar_sources tiny_artifact, tiny_state 83 354 0 0)"
  proof -
    have "blu_count ''source count'' (bl_max_sources default_blu_limits) 44 (tiny_state 35 258 0 0) = Ok (1, tiny_state 39 258 0 0)"
      by (simp add: decode_evals tiny_state_def tiny_bytes_def default_blu_limits_def)
    moreover have "charge_fixed 1 DECODED_SOURCE_CHARGE default_blu_limits (tiny_state 39 258 0 0) = Ok ((), tiny_state 39 354 0 0)"
      by (simp add: decode_evals tiny_state_def default_blu_limits_def decoded_charges)
    moreover have "ar_sources tiny_artifact = [hd (ar_sources tiny_artifact)]" by (simp add: tiny_artifact_def)
    ultimately show ?thesis using tiny_source by (simp add: read_counted_def try_reserve_decode_def)
  qed
  moreover have "count_with_extra ''prototype count'' (bl_max_prototypes default_blu_limits) 48 4 (tiny_state 83 354 0 0) = Ok (1, tiny_state 87 354 0 0)"
    "blu_u32 (tiny_state 87 354 0 0) = Ok (0, tiny_state 91 354 0 0)"
    "charge_fixed 1 DECODED_PROTOTYPE_CHARGE default_blu_limits (tiny_state 91 354 0 0) = Ok ((), tiny_state 91 610 0 0)"
    by (simp_all add: decode_evals tiny_state_def tiny_bytes_def default_blu_limits_def decoded_charges)
  ultimately show ?thesis
    using tiny_compiler tiny_decoded_prototype
    by (simp add: read_artifact_def try_reserve_decode_def) (simp add: tiny_artifact_def)
qed

lemma tiny_decodes: "blu_decode (\<lambda>_. True) tiny_bytes default_blu_limits = Ok tiny_artifact"
proof -
  have "budget_new default_blu_limits = Ok (dc_budget (tiny_state 0 256 0 0))"
    by (simp add: budget_new_def default_blu_limits_def decoded_charges tiny_state_def)
  moreover have "\<lparr>dc_bytes = tiny_bytes, dc_offset = 0, dc_budget = dc_budget (tiny_state 0 256 0 0)\<rparr> = tiny_state 0 256 0 0"
    by (simp add: tiny_state_def)
  moreover have "dc_offset (tiny_state 156 638 1 1) = 156" by (simp add: tiny_state_def)
  ultimately show ?thesis by (simp add: blu_decode_def blu_tiny_length sample_max_bytes tiny_artifact_read)
qed

section \<open>Validation\<close>

definition tiny_pass :: pass where
  "tiny_pass = pass_of (\<lambda>_. True) 0 tiny_prototype [tiny_prototype] default_blu_limits"

lemma tiny_prototype_accepted:
  "bv_validate_prototype (\<lambda>_. True) 0 tiny_prototype [tiny_prototype] [(7, 0)] default_blu_limits = Ok ()"
proof -
  have pass: "ps_registers tiny_pass = 0" "ps_backward tiny_pass = [False]" "ps_prototype tiny_pass = tiny_prototype" "ps_index tiny_pass = 0"
    by (simp_all add: tiny_pass_def pass_of_def backward_targets_def tiny_prototype_def)
  have "fold_res (pass_step tiny_pass) \<lparr>st_initialized = [], st_incoming = [], st_backward = [], st_reachable = True\<rparr>
      [(0, BiReturn 0 0)] = Ok \<lparr>st_initialized = [], st_incoming = [], st_backward = [], st_reachable = False\<rparr>"
    by (simp add: pass_arm_evals pass)
  moreover have "parameter_offset tiny_prototype = 0" "parameter_end tiny_prototype = 0"
    by (simp_all add: parameter_end_def parameter_offset_def tiny_prototype_def saturating_add_def requires_def features_contain_def
      IMPLICIT_ENVIRONMENT_def feature_def)
  moreover have "bp_code tiny_prototype = [BiReturn 0 0]" "unat (bp_register_count tiny_prototype) = 0" by (simp_all add: tiny_prototype_def)
  ultimately have "prototype_code (\<lambda>_. True) 0 tiny_prototype [tiny_prototype] default_blu_limits = Ok ()"
    unfolding prototype_code_def Let_def tiny_pass_def [symmetric]
    by (simp add: try_reserve_validation_def fill_range_def ends_prototype_def get_def some_is_def terminates_def)
  moreover have "prototype_features 0 tiny_prototype = Ok ()" by code_simp
  moreover have "prototype_counts tiny_prototype default_blu_limits = Ok ()"
    "each (constant_bytes default_blu_limits) (bp_constants tiny_prototype) = Ok ()"
    "prototype_source_map 0 tiny_prototype [(7, 0)] = Ok ()"
    "bv_validate_debug 0 tiny_prototype default_blu_limits = Ok ()"
    by (simp_all add: tiny_prototype_def prototype_counts_def prototype_source_map_def bv_validate_debug_def bv_check_limit_def
      check_wire_len_def default_blu_limits_def u32_max_def)
  ultimately show ?thesis by (simp add: bv_validate_prototype_def)
qed

lemma blu_tiny_accepted: "blu_validate (\<lambda>_. True) tiny_artifact default_blu_limits = Some (Ok ())"
proof -
  have "artifact_counts tiny_artifact default_blu_limits = Ok ()"
    "fold_res (index_source default_blu_limits) [] (ar_sources tiny_artifact) = Ok [(7, 0)]"
    by (simp_all add: artifact_counts_def index_source_def tiny_artifact_def bv_check_limit_def check_wire_len_def default_blu_limits_def
      default_identity_limits_def u32_max_def)
  moreover have "encoded_size tiny_artifact = Ok 156"
    by (simp add: encoded_size_def tiny_artifact_def prototype_size_def tiny_prototype_def add_size_def add_scaled_def
      checked_add_def checked_mul_def usize_max_def has_lines_def requires_def features_contain_def STRIPPED_DEBUG_LINES_def feature_def)
  moreover have "validate_aggregate_limits tiny_artifact default_blu_limits = Ok ()"
    by (simp add: validate_aggregate_limits_def tiny_artifact_def tiny_prototype_def add_validation_product_def
      tally_decoded_def tally_def add_validation_total_def checked_add_def checked_mul_def usize_max_def bv_check_limit_def
      default_blu_limits_def no_totals_def decoded_charges prototype_totals_def debug_names_def)
  moreover have "fold_res (adopt_prototype (\<lambda>_. True) tiny_artifact [(7, 0)] default_blu_limits) [None]
      (enumerate 0 (ar_prototypes tiny_artifact)) = Ok [None]"
    using tiny_prototype_accepted
    by (simp add: adopt_prototype_def tiny_artifact_def) (simp add: tiny_prototype_def bv_check_limit_def)
  moreover have "length (ar_prototypes tiny_artifact) = 1" "ar_main tiny_artifact = 0" "length (ar_sources tiny_artifact) = 1"
    by (simp_all add: tiny_artifact_def)
  ultimately have first: "validate_first (\<lambda>_. True) tiny_artifact default_blu_limits = Ok [None]"
    by (simp add: validate_first_def bv_check_limit_def sample_max_bytes try_reserve_validation_def index_at_def)
  have walk: "reach_loop [tiny_prototype] [False] [0] = Some (Ok [True])"
    by (simp add: reach_loop.simps child_indices_def tiny_prototype_def)
  have "fold_res (color_from [tiny_prototype]) [White] [0] = Ok [Black]"
    by (simp add: color_from_def index_at_def set_at_def child_indices_def tiny_prototype_def)
  then have "validate_prototype_graph (\<lambda>_. True) (ar_prototypes tiny_artifact) (unat (ar_main tiny_artifact)) = Some (Ok ())"
    by (simp add: validate_prototype_graph_def Let_def try_reserve_validation_def tiny_artifact_def walk check_reachable_def
        del: fold_res.simps)
  moreover have "each (check_upvalues (ar_prototypes tiny_artifact) [None]) (enumerate 0 (ar_prototypes tiny_artifact)) = Ok ()"
    by (simp add: check_upvalues_def tiny_artifact_def index_at_def tiny_prototype_def)
  ultimately show ?thesis by (simp add: blu_validate_def first)
qed

lemma tiny_decoded:
  "decode_validated (\<lambda>_. True) tiny_bytes default_blu_limits = Some (Ok \<lparr>va_artifact = tiny_artifact, va_policy = default_blu_limits\<rparr>)"
  by (simp add: decode_validated_def validated_new_def tiny_decodes blu_tiny_accepted)

section \<open>The properties at the artifacts\<close>

theorem decode_then_encode_witness:
  "blu_encode (\<lambda>_. True) \<lparr>va_artifact = tiny_artifact, va_policy = default_blu_limits\<rparr> default_blu_limits = Some (Ok tiny_bytes)"
  by (rule decode_then_encode [OF tiny_decoded]) simp

theorem encode_fits_reservation_witness:
  "encoded_size (va_artifact \<lparr>va_artifact = tiny_artifact, va_policy = default_blu_limits\<rparr>) = Ok (length tiny_bytes)"
proof -
  have "blu_encode (\<lambda>_. True) \<lparr>va_artifact = tiny_artifact, va_policy = default_blu_limits\<rparr> default_blu_limits = Some (Ok tiny_bytes)"
    by (rule decoded_encodes [OF tiny_decoded]) simp
  moreover have "arrays_ok tiny_artifact" by (simp add: arrays_ok_def tiny_artifact_def)
  ultimately show ?thesis using encode_fits_reservation by fastforce
qed

end
