(* ===== verification/Spec2Isabelle.thy ===== *)
theory Spec2Isabelle
  imports Core_Lines Core_Diagnostic Package_Envelope Runtime_Iteration Runtime_Heap_Reach Syntax_Safe Blu_Tiny
begin

text \<open>
  A verification library for \<open>blu\<close>, a Rust implementation of a Lua-family language: its core
  data (\<open>crates/blu-core\<close>), its lexer (\<open>crates/blu-syntax\<close>), its two bytecodes, the Luau-compatible
  chunks and the Blu artifacts (\<open>crates/blu-bytecode\<close>), its packages (\<open>crates/blu-package\<close>) and the
  garbage-collected heap of its virtual machine (\<open>crates/blu-runtime\<close>).

  \<^bold>\<open>Parts of the program.\<close> A source is a named byte string with a line index
  (\<open>blu-core/src/source.rs\<close>); every later stage reports problems as bounded diagnostics over byte
  spans of it (\<open>span.rs\<close>, \<open>diagnostic.rs\<close>), the lexer (\<open>blu-syntax/src/lib.rs\<close>) first. Bytecode arrives as untrusted bytes: \<open>chunk.rs\<close>
  parses them into a chunk, \<open>instruction.rs\<close> and \<open>opcode.rs\<close> decode its code, \<open>validate.rs\<close> decides
  whether the virtual machine may run it. The compiler's own format is the Blu artifact
  (\<open>blu-bytecode/src/blu.rs\<close>): a tree of prototypes over registers, which is encoded, decoded within
  a budget and validated by the same file. Chunks travel in packages (\<open>crates/blu-package\<close>): a manifest and a payload in an
  envelope with a SHA-256 digest. While a program runs, its tables, closures, threads and userdata
  live in a heap (\<open>blu-runtime/src/heap.rs\<close>): an arena of slots named by an index and a generation,
  every byte of which is charged to a memory account (\<open>memory.rs\<close>). Values (\<open>value.rs\<close>) hold
  handles, never references; a stale handle is an error.

  \<^bold>\<open>Theories.\<close> \<open>Blu_Prelude\<close> holds outcomes (a value, an error value or a panic), loops over
  slices and \<open>usize\<close> arithmetic; \<open>Rust_Std\<close> and \<open>Rust_Bytes\<close> what the sources use of the standard
  library, and the contracts of a byte cursor (\<open>byte_cursor\<close>, \<open>growing_cursor\<close>) that the readers
  of the program provide. \<open>Core_Span\<close>, \<open>Core_Source\<close>, \<open>Core_Lines\<close> and \<open>Core_Diagnostic\<close> model
  \<open>blu-core\<close>. \<open>Luau_Opcode\<close>, \<open>Luau_Instruction\<close>, \<open>Luau_Reader\<close>, \<open>Luau_Varint\<close>, \<open>Luau_Chunk\<close>,
  \<open>Luau_Validate\<close>, \<open>Luau_Validator\<close> and \<open>Luau_Load\<close> model \<open>blu-bytecode\<close>; \<open>Luau_Safety\<close>,
  \<open>Luau_Accept\<close> and \<open>Luau_Flow\<close> say what an accepted chunk guarantees, and \<open>Luau_Sample\<close> is the
  concrete chunk they are applied to. \<open>Package_Model\<close>, \<open>Package_Codec\<close> and \<open>Package_Envelope\<close> model
  \<open>blu-package\<close>.

  \<^bold>\<open>The lexer.\<close> \<open>Syntax_Token\<close> holds tokens, what each profile supports, the limits and the reporting
  of diagnostics; \<open>Syntax_Scan\<close> the scanning of bytes; \<open>Syntax_Lex\<close> the arms of the main match of \<open>lex\<close>,
  grouped by the byte they start with, and \<open>Syntax_Lexer\<close> the loop, the initial directive and \<open>lex\<close>
  itself. The expression in an interpolated string is lexed as a source of its own, so \<open>lex\<close> is
  recursive; it is total because a fragment is shorter than its source (\<open>Syntax_Progress\<close>: every token
  advances). \<open>Syntax_Tiles\<close> shows that the tokens tile the source, \<open>Syntax_Safe\<close> that no slice, index
  or addition of the lexer is out of range. The depth of the stack that the recursion needs is not
  modelled.

  \<^bold>\<open>Blu artifacts.\<close> \<open>Blu_Artifact\<close> holds the data of \<open>blu.rs\<close>, its limits, feature bits and errors, and
  \<open>instruction_is_legal\<close>; \<open>Blu_Encode\<close> is \<open>encoded_size\<close> and the writers, \<open>Blu_Decode\<close> the bounded
  reader with its budget and \<open>decode\<close>. \<open>Blu_Graph\<close> is \<open>validate_prototype_graph\<close>, \<open>Blu_Flow\<close>
  \<open>backward_branch_requirements\<close> (the worklist is total: states on entry only shrink), \<open>Blu_Validate\<close>
  the aggregate limits and the match of the linear pass, \<open>Blu_Validator\<close> the pass, the checks of a
  prototype and \<open>validate\<close>, with \<open>encode\<close> and \<open>decode_validated\<close>, which validate.
  What the validator promises: \<open>Blu_Requirements\<close> gives each instruction the registers it reads and
  writes, defines by rule which registers are live at an instruction (\<open>live_at\<close>) and shows the
  worklist to find them all; \<open>Blu_Pass\<close> describes one step of the pass and \<open>Blu_Trace\<close> the states that
  the whole pass gives to each instruction; \<open>Blu_Registers\<close> defines by rule what a run through the
  code has written (\<open>runs_to\<close>: fallthrough, branches and jumps in both directions) and shows that no
  run reads a register it has not written. \<open>Blu_Dynamic\<close> shows the pairing of dynamic results and that
  operands exist, \<open>Blu_Tree\<close> that the prototypes are a tree whose upvalues resolve, \<open>Blu_Verdict\<close> that
  validation returns and does not panic. \<open>Blu_Layout\<close> states the reader against the bytes it reads (it
  provides \<open>byte_cursor\<close>), \<open>Blu_Roundtrip\<close> relates each reader to its writer and \<open>Blu_Sizes\<close>
  concludes that decoding and encoding are inverse and the reserved size exact. The fixed-size arrays
  of the code are byte lists; where their length matters it is the hypothesis \<open>arrays_ok\<close>.
  \<open>Blu_Sample\<close>, \<open>Blu_Accept\<close> and \<open>Blu_Tiny\<close> are the concrete artifacts the theorems are applied to.

  \<^bold>\<open>The heap.\<close> \<open>Runtime_Memory\<close> is the account: reservations that are committed, dropped or replace
  another, shown to be a ledger of the charges that are live. \<open>Rust_Float\<close> and \<open>Runtime_Value\<close> are
  values and the comparison of integers with IEEE doubles, by bit pattern. \<open>Runtime_Table\<close> and
  \<open>Runtime_Table_Ops\<close> model \<open>Table\<close> and its keys: an array part, a hash part (\<open>HashMap\<close> as an
  association list whose order is the map's own), tombstones and an insertion order; then
  \<open>Runtime_Table_Map\<close> shows \<open>Table::set\<close> to be the update of a map, \<open>Runtime_Table_Charge\<close> its
  accounting to be exact, \<open>Runtime_Table_Room\<close> that capacities, order and the flags that let the
  collector skip a part are kept, \<open>Runtime_Key\<close> that keys agree with equality of values,
  \<open>Runtime_Luau_Hash\<close> that the replay of Luau's buckets visits each key once and \<open>Runtime_Iteration\<close>
  that \<open>table_next\<close> lists each entry once. \<open>Runtime_Heap\<close> and \<open>Runtime_Heap_Ops\<close> are the arena and
  the operations behind handles; \<open>Runtime_Store\<close> states them as a store of objects (locale
  \<open>handle_store\<close>) that the heap provides. \<open>Runtime_Mark\<close> and \<open>Runtime_Collect\<close> are the collector:
  the marking with weak tables, the finalizers, the clearing of weak entries and the sweep. What is
  live is defined by rule (\<open>live\<close>), and \<open>Runtime_Mark\<close> shows the marked objects to be the live ones.
  \<open>Runtime_Weak\<close>, \<open>Runtime_Heap_Sound\<close> and \<open>Runtime_Collect_Sound\<close> carry the invariant \<open>heap_sound\<close>
  through a collection, \<open>Runtime_Gc\<close> states what a collection guarantees, and \<open>Runtime_Heap_Reach\<close>
  that every heap reachable by any sequence of operations is sound.

  \<^bold>\<open>Loops that may not end.\<close> \<open>mark_loop\<close> is a partial function: \<open>None\<close> is a collection that does not
  return, which happens exactly when a table with weak keys holds a value with a stale handle. \<open>reach_loop\<close>, the
  walk over the prototypes of an artifact, has no marks that stop it and is partial too; \<open>Blu_Verdict\<close>
  shows that it returns, as cycles have been refused before. Every
  other loop of the model is total; the bucket walks of the Luau order are shown not to be endless.

  \<^bold>\<open>Assumptions on handles.\<close> A collection is started from handles that were given out, and refers
  to no freed slot under its current generation (\<open>handles_issued\<close>): a handle kept while the
  generation of its slot wraps around 32 bits is outside the theorems. What an embedder charges to
  the account from outside it later releases no more than that.

  \<^bold>\<open>Not modelled.\<close> The virtual machine and its library, the compiler, the translation of Blu artifacts to
  Luau chunks (\<open>blu_translate.rs\<close>), the parser and the syntax tree, the facade and the command-line tools; \<open>Display\<close> and \<open>Debug\<close> output; and the accounting of
  shared strings in the heap, which depends on the identity of reference-counted pointers.

  \<^bold>\<open>Conventions.\<close> A \<open>usize\<close> is a natural number; where the code checks its range the model does
  too, with \<open>usize_max\<close> of a 64-bit target. Narrower integers are words. Strings are their UTF-8
  bytes, static labels and messages are HOL strings. A panic is the outcome \<open>Panic\<close>: slices,
  indexing, \<open>unwrap\<close> and \<open>expect\<close> produce it. Where the source tests the index in the condition right
  before it, as the scanner and the loops of the lexer do, the model reads under the same condition
  without the outcome. A fallible reservation
  (\<open>try_reserve\<close>) asks the parameter \<open>alloc\<close>, over which every statement is general. The
  \<open>Vec::with_capacity\<close> of the chunk loader panics when the capacity in bytes exceeds \<open>isize::MAX\<close>:
  its counts are bounded by the limits only, so that loading does not panic needs limits whose
  capacities fit (\<open>capacities_fit\<close>, which the default limits meet), and every other property of the
  loader holds for all limits (\<open>panics_or\<close>: the capacities decide only whether it panics). That memory
  runs out in an infallible allocation, which aborts the process, is not an outcome of the model. Floating-point constants are bit
  patterns. The sizes of Rust types, the spare room a \<open>Vec\<close> is given and what the allocator grants
  are a parameter (\<open>platform\<close>).
\<close>

end
